(* ===== verification/Prelude.thy ===== *)
theory Prelude
  imports Main "HOL-Library.Word" "HOL-Library.Monad_Syntax"
begin

text \<open>
  Shared material of the development: the names of the C types the components use, the
  theorem collections, byte buffers with bounds (an access outside a buffer is the value
  \<^term>\<open>None\<close>), the C library allocator, and the generic lemmas on lists, words and the
  option monad that several components use.

  Conventions.  A C function that can only go wrong by undefined behaviour (an access outside
  an object, a double free, a signed overflow) has a result in \<open>option\<close>, where
  \<^term>\<open>None\<close> is that undefined behaviour; the theorems show that it does not occur.
  State is passed explicitly and returned updated.
\<close>

unbundle bit_operations_syntax

named_theorems buf_simps \<open>rules for bounded byte buffers\<close>
named_theorems heap_simps \<open>rules for the allocator\<close>
named_theorems codec_simps \<open>rules for encoders and decoders\<close>
named_theorems inv_intros \<open>introduction rules for invariants\<close>

type_synonym byte = "8 word"
type_synonym u32 = "32 word"

section \<open>Option monad\<close>

lemma bind_SomeE:
  assumes "Option.bind m f = Some y"
  obtains x where "m = Some x" and "f x = Some y"
  using assms by (auto simp: bind_eq_Some_conv)

lemma bind_SomeI [intro?]: "m = Some x \<Longrightarrow> f x = Some y \<Longrightarrow> Option.bind m f = Some y"
  by simp

section \<open>Lists\<close>

lemma take_drop_split: "n \<le> length xs \<Longrightarrow> xs = take n xs @ drop n xs"
  by simp

lemma list_all_upt_conv: "list_all P [0..<n] \<longleftrightarrow> (\<forall>i<n. P i)"
  by (auto simp: list_all_iff)

lemma all_less_numeral_conv:
  "(\<forall>i<numeral k. P i) \<longleftrightarrow> list_all P [0..<numeral k]" for P :: "nat \<Rightarrow> bool"
  by (simp add: list_all_upt_conv)

lemma nth_map_upt_self: "i < n \<Longrightarrow> map f [0..<n] ! i = f i"
  by simp

lemma list_eq_4_conv: "length xs = 4 \<longleftrightarrow> (\<exists>a b c d. xs = [a, b, c, d])"
  by (auto simp: numeral_eq_Suc length_Suc_conv)

section \<open>Words\<close>

lemma byte_less_8_cases:
  fixes n :: nat
  assumes "n < 8"
  obtains "n = 0" | "n = 1" | "n = 2" | "n = 3" | "n = 4" | "n = 5" | "n = 6" | "n = 7"
  using assms by linarith

lemma byte_all_conv: "(\<forall>b::byte. P b) \<longleftrightarrow> (\<forall>i<256. P (word_of_nat i))"
proof
  assume r: "\<forall>i<256. P (word_of_nat i)"
  show "\<forall>b. P b"
  proof
    fix b :: byte
    have "unat b < 256" using unsigned_less [of b] by simp
    with r have "P (word_of_nat (unat b))" by blast
    then show "P b" by simp
  qed
qed simp

lemma byte_eqI:
  fixes a b :: byte
  assumes "\<And>n. n < 8 \<Longrightarrow> bit a n = bit b n"
  shows "a = b"
  by (rule bit_word_eqI) (auto simp: assms)

lemma bit_byte_ge: "8 \<le> n \<Longrightarrow> \<not> bit (a::byte) n"
  using bit_imp_le_length [of a n] by auto

text \<open>The rules that decide one bit position once the eight positions are split.\<close>

lemmas byte_bit_cases = numeral_2_eq_2 [symmetric] bit_byte_ge

lemma unat_less_take_bit:
  assumes "x = take_bit n x"
  shows "unat (x::byte) < 2 ^ n"
proof -
  have "unat x = take_bit n (unat x)" using assms by (metis unsigned_take_bit_eq)
  also have "\<dots> < 2 ^ n" by (rule take_bit_nat_less_exp)
  finally show ?thesis .
qed

lemma unat_byte_less [simp]: "unat (b::byte) < 256"
  using unsigned_less [of b] by simp

lemma unat_ucast_byte_u32 [simp]: "unat (ucast (b::byte) :: u32) = unat b"
  by (simp add: unsigned_ucast_eq take_bit_nat_eq_self_iff order.strict_trans [OF unat_byte_less])

section \<open>Bounded buffers\<close>

text \<open>
  \<open>memcpy (buf + off, xs, n)\<close> into an object of \<open>length buf\<close> bytes, and reading \<open>n\<close>
  bytes at an offset.
\<close>

definition mem_write :: "'a list \<Rightarrow> nat \<Rightarrow> 'a list \<Rightarrow> 'a list option" where
  "mem_write buf off xs =
     (if off + length xs \<le> length buf
      then Some (take off buf @ xs @ drop (off + length xs) buf) else None)"

definition mem_read :: "'a list \<Rightarrow> nat \<Rightarrow> nat \<Rightarrow> 'a list option" where
  "mem_read buf off n =
     (if off + n \<le> length buf then Some (take n (drop off buf)) else None)"

lemma mem_write_Some [buf_simps]:
  "off + length xs \<le> length buf \<Longrightarrow>
     mem_write buf off xs = Some (take off buf @ xs @ drop (off + length xs) buf)"
  by (simp add: mem_write_def)

lemma mem_write_None [buf_simps]: "length buf < off + length xs \<Longrightarrow> mem_write buf off xs = None"
  by (simp add: mem_write_def)

lemma mem_write_length: "mem_write buf off xs = Some buf' \<Longrightarrow> length buf' = length buf"
  by (auto simp: mem_write_def split: if_splits)

lemma mem_write_append:
  "Option.bind (mem_write buf off xs) (\<lambda>buf'. mem_write buf' (off + length xs) ys)
     = mem_write buf off (xs @ ys)"
  by (auto simp add: mem_write_def add_ac)

lemma mem_write_iff: "(\<exists>buf'. mem_write buf off xs = Some buf') \<longleftrightarrow> off + length xs \<le> length buf"
  by (simp add: mem_write_def)

lemma mem_read_mem_write:
  "mem_write buf off xs = Some buf' \<Longrightarrow> mem_read buf' off (length xs) = Some xs"
  by (auto simp: mem_write_def mem_read_def split: if_splits)

section \<open>C strings\<close>

text \<open>The bytes before the terminating zero; \<^term>\<open>None\<close> when there is none.\<close>

fun c_string :: "byte list \<Rightarrow> byte list option" where
  "c_string [] = None"
| "c_string (c # s) = (if c = 0 then Some [] else map_option ((#) c) (c_string s))"

lemma c_string_prefix:
  "c_string s = Some str \<Longrightarrow> 0 \<notin> set str \<and> (\<exists>rest. s = str @ 0 # rest)"
  by (induction s arbitrary: str) (auto split: if_splits)

lemma c_string_append [simp]: "0 \<notin> set str \<Longrightarrow> c_string (str @ 0 # rest) = Some str"
  by (induction str) auto

lemma c_string_iff: "c_string s = Some str \<longleftrightarrow> 0 \<notin> set str \<and> (\<exists>rest. s = str @ 0 # rest)"
  using c_string_prefix by auto

lemma c_string_exists: "(\<exists>str. c_string s = Some str) \<longleftrightarrow> 0 \<in> set s"
  by (induction s) auto

text \<open>The bytes of a string literal, without terminator, and decimal numbers.\<close>

definition ascii :: "string \<Rightarrow> byte list" where
  "ascii s = map of_char s"

fun nat_digits :: "nat \<Rightarrow> byte list" where
  "nat_digits n = (if n < 10 then [of_nat (48 + n)] else nat_digits (n div 10) @ [of_nat (48 + n mod 10)])"

declare nat_digits.simps [simp del]

text \<open>A number as \<open>%d\<close> of \<open>printf\<close> and the output operators of C++ print it.\<close>

definition int_chars :: "int \<Rightarrow> byte list" where
  "int_chars i = (if i < 0 then 0x2D # nat_digits (nat (- i)) else nat_digits (nat i))"

text \<open>\<open>tolower\<close> in the C locale.\<close>

definition ascii_lower :: "byte \<Rightarrow> byte" where
  "ascii_lower c = (if 0x41 \<le> c \<and> c \<le> 0x5A then c + 0x20 else c)"

section \<open>The allocator\<close>

text \<open>
  \<open>malloc\<close> and \<open>free\<close> of the C library.  The heap is a call counter, which names the blocks,
  and the list of the live blocks.  Whether the \<open>k\<close>-th request (for \<open>n\<close> bytes) succeeds is up
  to the environment: a parameter \<open>ok\<close> of every definition that allocates.  Freeing a block
  that is not live is undefined behaviour.
\<close>

record heap =
  calls :: nat
  live :: "nat list"

type_synonym malloc_ok = "nat \<Rightarrow> nat \<Rightarrow> bool"

definition malloc :: "malloc_ok \<Rightarrow> nat \<Rightarrow> heap \<Rightarrow> nat option \<times> heap" where
  "malloc ok n h =
     (if ok (calls h) n
      then (Some (calls h), h\<lparr>calls := Suc (calls h), live := calls h # live h\<rparr>)
      else (None, h\<lparr>calls := Suc (calls h)\<rparr>))"

definition free :: "nat \<Rightarrow> heap \<Rightarrow> heap option" where
  "free p h = (if p \<in> set (live h) then Some (h\<lparr>live := remove1 p (live h)\<rparr>) else None)"

text \<open>\<open>free\<close> of a pointer that may be null (then it does nothing).\<close>

definition free_opt :: "nat option \<Rightarrow> heap \<Rightarrow> heap option" where
  "free_opt p h = (case p of None \<Rightarrow> Some h | Some b \<Rightarrow> free b h)"

definition heap_wf :: "heap \<Rightarrow> bool" where
  "heap_wf h \<longleftrightarrow> distinct (live h) \<and> (\<forall>b\<in>set (live h). b < calls h)"

lemma heap_wf_malloc [inv_intros]: "heap_wf h \<Longrightarrow> heap_wf (snd (malloc ok n h))"
  by (auto simp: heap_wf_def malloc_def less_Suc_eq)

lemma heap_wf_free [inv_intros]: "heap_wf h \<Longrightarrow> free p h = Some h' \<Longrightarrow> heap_wf h'"
  by (auto simp: heap_wf_def free_def split: if_splits dest: in_set_remove1 [THEN iffD1, rotated] notin_set_remove1)

lemma free_live: "free p h = Some h' \<Longrightarrow> heap_wf h \<Longrightarrow> set (live h') = set (live h) - {p}"
  by (auto simp: free_def heap_wf_def split: if_splits)

lemma free_defined: "p \<in> set (live h) \<Longrightarrow> \<exists>h'. free p h = Some h'"
  by (simp add: free_def)

section \<open>Prefix codes\<close>

text \<open>
  The contract of a decoder of one item at the front of a list: it succeeds exactly on the
  encodings of the valid items, and returns what follows.
\<close>

locale prefix_code =
  fixes decode :: "'b list \<Rightarrow> ('c \<times> 'b list) option"
    and encode :: "'c \<Rightarrow> 'b list"
    and valid :: "'c \<Rightarrow> bool"
  assumes decode_iff: "decode bs = Some (c, rest) \<longleftrightarrow> valid c \<and> bs = encode c @ rest"
    and encode_nonempty: "encode c \<noteq> []"
begin

lemma decode_encode: "valid c \<Longrightarrow> decode (encode c @ rest) = Some (c, rest)"
  by (simp add: decode_iff)

lemma encodings_step:
  assumes "bs \<noteq> []"
  shows "(\<exists>cs. list_all valid cs \<and> bs = concat (map encode cs)) \<longleftrightarrow>
    (\<exists>c rest. decode bs = Some (c, rest) \<and> (\<exists>cs. list_all valid cs \<and> rest = concat (map encode cs)))"
proof
  assume "\<exists>cs. list_all valid cs \<and> bs = concat (map encode cs)"
  then obtain cs where cs: "list_all valid cs" "bs = concat (map encode cs)" by blast
  with assms obtain c ds where "cs = c # ds" by (cases cs) auto
  with cs show "\<exists>c rest. decode bs = Some (c, rest)
      \<and> (\<exists>cs. list_all valid cs \<and> rest = concat (map encode cs))"
    by (intro exI [of _ c] exI [of _ "concat (map encode ds)"]) (auto simp: decode_encode)
next
  assume "\<exists>c rest. decode bs = Some (c, rest) \<and> (\<exists>cs. list_all valid cs \<and> rest = concat (map encode cs))"
  then obtain c cs where "valid c" "list_all valid cs" "bs = encode c @ concat (map encode cs)"
    by (auto simp: decode_iff)
  then show "\<exists>cs. list_all valid cs \<and> bs = concat (map encode cs)"
    by (intro exI [of _ "c # cs"]) simp
qed

lemma unique_decoding:
  "list_all valid cs \<Longrightarrow> list_all valid ds \<Longrightarrow> concat (map encode cs) = concat (map encode ds) \<Longrightarrow> cs = ds"
proof (induction cs arbitrary: ds)
  case Nil
  then show ?case by (cases ds) (simp_all add: encode_nonempty)
next
  case (Cons c cs)
  obtain d ds' where ds: "ds = d # ds'"
    using Cons.prems(3) encode_nonempty [of c] by (cases ds) simp_all
  from Cons.prems have "decode (encode c @ concat (map encode cs)) = Some (d, concat (map encode ds'))"
    unfolding decode_iff ds by simp
  moreover have "decode (encode c @ concat (map encode cs)) = Some (c, concat (map encode cs))"
    using Cons.prems(1) by (simp add: decode_encode)
  ultimately have "c = d" "concat (map encode cs) = concat (map encode ds')"
    by simp_all
  with Cons.IH [of ds'] Cons.prems(1,2) ds show ?case by simp
qed

lemma unique_encodings:
  "(\<exists>!cs. list_all valid cs \<and> bs = concat (map encode cs))
     \<longleftrightarrow> (\<exists>cs. list_all valid cs \<and> bs = concat (map encode cs))"
  using unique_decoding by blast

end

end
