(* ===== verification/Base64.thy ===== *)
theory Base64
  imports Prelude
begin

text \<open>
  \<^verbatim>\<open>Source/kwsys/Base64.c\<close>: the base64 encoder and decoder of kwsys.  The definitions
  carry the C names.  Bytes are \<^typ>\<open>byte\<close>; the operands of the shifts are promoted to
  \<open>int\<close> as in C and modelled by \<^typ>\<open>u32\<close>.  The output buffer is explicit: a write
  outside it, like a read beyond the input, is \<^term>\<open>None\<close>.

  The lemmas show: the tables are inverse to each other; one quantum decodes to what was
  encoded; the whole encoder produces the RFC 4648 text (as an arithmetic specification) and
  needs exactly the stated room; decoding in either mode gives the input back.
\<close>

section \<open>The code\<close>

definition kwsysBase64EncodeTable :: "byte list" where
  "kwsysBase64EncodeTable = [
     0x41, 0x42, 0x43, 0x44, 0x45, 0x46, 0x47, 0x48, 0x49, 0x4A, 0x4B, 0x4C, 0x4D, 0x4E, 0x4F, 0x50,
     0x51, 0x52, 0x53, 0x54, 0x55, 0x56, 0x57, 0x58, 0x59, 0x5A, 0x61, 0x62, 0x63, 0x64, 0x65, 0x66,
     0x67, 0x68, 0x69, 0x6A, 0x6B, 0x6C, 0x6D, 0x6E, 0x6F, 0x70, 0x71, 0x72, 0x73, 0x74, 0x75, 0x76,
     0x77, 0x78, 0x79, 0x7A, 0x30, 0x31, 0x32, 0x33, 0x34, 0x35, 0x36, 0x37, 0x38, 0x39, 0x2B, 0x2F,
     0x00]"

definition kwsysBase64DecodeTable :: "byte list" where
  "kwsysBase64DecodeTable = [
     0xFF, 0xFF, 0xFF, 0xFF, 0xFF, 0xFF, 0xFF, 0xFF, 0xFF, 0xFF, 0xFF, 0xFF, 0xFF, 0xFF, 0xFF, 0xFF,
     0xFF, 0xFF, 0xFF, 0xFF, 0xFF, 0xFF, 0xFF, 0xFF, 0xFF, 0xFF, 0xFF, 0xFF, 0xFF, 0xFF, 0xFF, 0xFF,
     0xFF, 0xFF, 0xFF, 0xFF, 0xFF, 0xFF, 0xFF, 0xFF, 0xFF, 0xFF, 0xFF, 0x3E, 0xFF, 0xFF, 0xFF, 0x3F,
     0x34, 0x35, 0x36, 0x37, 0x38, 0x39, 0x3A, 0x3B, 0x3C, 0x3D, 0xFF, 0xFF, 0xFF, 0x00, 0xFF, 0xFF,
     0xFF, 0x00, 0x01, 0x02, 0x03, 0x04, 0x05, 0x06, 0x07, 0x08, 0x09, 0x0A, 0x0B, 0x0C, 0x0D, 0x0E,
     0x0F, 0x10, 0x11, 0x12, 0x13, 0x14, 0x15, 0x16, 0x17, 0x18, 0x19, 0xFF, 0xFF, 0xFF, 0xFF, 0xFF,
     0xFF, 0x1A, 0x1B, 0x1C, 0x1D, 0x1E, 0x1F, 0x20, 0x21, 0x22, 0x23, 0x24, 0x25, 0x26, 0x27, 0x28,
     0x29, 0x2A, 0x2B, 0x2C, 0x2D, 0x2E, 0x2F, 0x30, 0x31, 0x32, 0x33, 0xFF, 0xFF, 0xFF, 0xFF, 0xFF,
     0xFF, 0xFF, 0xFF, 0xFF, 0xFF, 0xFF, 0xFF, 0xFF, 0xFF, 0xFF, 0xFF, 0xFF, 0xFF, 0xFF, 0xFF, 0xFF,
     0xFF, 0xFF, 0xFF, 0xFF, 0xFF, 0xFF, 0xFF, 0xFF, 0xFF, 0xFF, 0xFF, 0xFF, 0xFF, 0xFF, 0xFF, 0xFF,
     0xFF, 0xFF, 0xFF, 0xFF, 0xFF, 0xFF, 0xFF, 0xFF, 0xFF, 0xFF, 0xFF, 0xFF, 0xFF, 0xFF, 0xFF, 0xFF,
     0xFF, 0xFF, 0xFF, 0xFF, 0xFF, 0xFF, 0xFF, 0xFF, 0xFF, 0xFF, 0xFF, 0xFF, 0xFF, 0xFF, 0xFF, 0xFF,
     0xFF, 0xFF, 0xFF, 0xFF, 0xFF, 0xFF, 0xFF, 0xFF, 0xFF, 0xFF, 0xFF, 0xFF, 0xFF, 0xFF, 0xFF, 0xFF,
     0xFF, 0xFF, 0xFF, 0xFF, 0xFF, 0xFF, 0xFF, 0xFF, 0xFF, 0xFF, 0xFF, 0xFF, 0xFF, 0xFF, 0xFF, 0xFF,
     0xFF, 0xFF, 0xFF, 0xFF, 0xFF, 0xFF, 0xFF, 0xFF, 0xFF, 0xFF, 0xFF, 0xFF, 0xFF, 0xFF, 0xFF, 0xFF,
     0xFF, 0xFF, 0xFF, 0xFF, 0xFF, 0xFF, 0xFF, 0xFF, 0xFF, 0xFF, 0xFF, 0xFF, 0xFF, 0xFF, 0xFF, 0xFF]"

definition kwsysBase64EncodeChar :: "u32 \<Rightarrow> byte" where
  "kwsysBase64EncodeChar c = kwsysBase64EncodeTable ! unat (ucast c :: byte)"

definition kwsysBase64DecodeChar :: "byte \<Rightarrow> byte" where
  "kwsysBase64DecodeChar c = kwsysBase64DecodeTable ! unat c"

text \<open>The integer promotion of an \<open>unsigned char\<close>.\<close>

abbreviation promote :: "byte \<Rightarrow> u32" where
  "promote b \<equiv> ucast b"

definition kwsysBase64_Encode3 :: "byte \<Rightarrow> byte \<Rightarrow> byte \<Rightarrow> byte list" where
  "kwsysBase64_Encode3 src0 src1 src2 =
     [kwsysBase64EncodeChar (drop_bit 2 (promote src0) AND 0x3F),
      kwsysBase64EncodeChar
        ((push_bit 4 (promote src0) AND 0x30) OR (drop_bit 4 (promote src1) AND 0x0F)),
      kwsysBase64EncodeChar
        ((push_bit 2 (promote src1) AND 0x3C) OR (drop_bit 6 (promote src2) AND 0x03)),
      kwsysBase64EncodeChar (promote src2 AND 0x3F)]"

definition kwsysBase64_Encode2 :: "byte \<Rightarrow> byte \<Rightarrow> byte list" where
  "kwsysBase64_Encode2 src0 src1 =
     [kwsysBase64EncodeChar (drop_bit 2 (promote src0) AND 0x3F),
      kwsysBase64EncodeChar
        ((push_bit 4 (promote src0) AND 0x30) OR (drop_bit 4 (promote src1) AND 0x0F)),
      kwsysBase64EncodeChar (push_bit 2 (promote src1) AND 0x3C),
      0x3D]"

definition kwsysBase64_Encode1 :: "byte \<Rightarrow> byte list" where
  "kwsysBase64_Encode1 src0 =
     [kwsysBase64EncodeChar (drop_bit 2 (promote src0) AND 0x3F),
      kwsysBase64EncodeChar (push_bit 4 (promote src0) AND 0x30),
      0x3D, 0x3D]"

text \<open>
  The loop of \<open>kwsysBase64_Encode\<close> from \<open>ptr\<close> (the input that is left) and \<open>optr\<close> (an
  offset into the output), to the end of the function.
\<close>

fun kwsysBase64_Encode_from ::
  "byte list \<Rightarrow> byte list \<Rightarrow> nat \<Rightarrow> int \<Rightarrow> (byte list \<times> nat) option" where
  "kwsysBase64_Encode_from (s0 # s1 # s2 # ptr) output optr mark_end =
     do { output \<leftarrow> mem_write output optr (kwsysBase64_Encode3 s0 s1 s2);
          kwsysBase64_Encode_from ptr output (optr + 4) mark_end }"
| "kwsysBase64_Encode_from [s0, s1] output optr mark_end =
     do { output \<leftarrow> mem_write output optr (kwsysBase64_Encode2 s0 s1);
          Some (output, optr + 4) }"
| "kwsysBase64_Encode_from [s0] output optr mark_end =
     do { output \<leftarrow> mem_write output optr (kwsysBase64_Encode1 s0);
          Some (output, optr + 4) }"
| "kwsysBase64_Encode_from [] output optr mark_end =
     (if mark_end \<noteq> 0
      then do { output \<leftarrow> mem_write output optr [0x3D, 0x3D, 0x3D, 0x3D];
                Some (output, optr + 4) }
      else Some (output, optr))"

definition kwsysBase64_Encode ::
  "byte list \<Rightarrow> byte list \<Rightarrow> int \<Rightarrow> (byte list \<times> nat) option" where
  "kwsysBase64_Encode input output mark_end = kwsysBase64_Encode_from input output 0 mark_end"

text \<open>
  The result is the return value and what was stored at \<open>dest\<close>: nothing when a character is
  invalid, otherwise three bytes, of which only the first \<open>return value\<close> are meaningful.
\<close>

definition kwsysBase64_Decode3 :: "byte \<Rightarrow> byte \<Rightarrow> byte \<Rightarrow> byte \<Rightarrow> nat \<times> byte list" where
  "kwsysBase64_Decode3 src0 src1 src2 src3 =
     (let d0 = kwsysBase64DecodeChar src0;
          d1 = kwsysBase64DecodeChar src1;
          d2 = kwsysBase64DecodeChar src2;
          d3 = kwsysBase64DecodeChar src3
      in if d0 = 0xFF \<or> d1 = 0xFF \<or> d2 = 0xFF \<or> d3 = 0xFF then (0, [])
         else
           (if src2 = 0x3D then 1 else if src3 = 0x3D then 2 else 3,
            [ucast ((push_bit 2 (promote d0) AND 0xFC) OR (drop_bit 4 (promote d1) AND 0x03)),
             ucast ((push_bit 4 (promote d1) AND 0xF0) OR (drop_bit 2 (promote d2) AND 0x0F)),
             ucast ((push_bit 6 (promote d2) AND 0xC0) OR (drop_bit 0 (promote d3) AND 0x3F))]))"

text \<open>The four bytes \<open>Decode3\<close> reads at an input offset.\<close>

definition decode3_at :: "byte list \<Rightarrow> nat \<Rightarrow> (nat \<times> byte list) option" where
  "decode3_at input ptr =
     do { q \<leftarrow> mem_read input ptr 4;
          Some (kwsysBase64_Decode3 (q ! 0) (q ! 1) (q ! 2) (q ! 3)) }"

text \<open>
  The loop of the branch \<open>max_input_length \<noteq> 0\<close>: \<open>ptr\<close> and \<open>optr\<close> are offsets, \<open>end\<close> is
  \<open>max_input_length\<close>.
\<close>

function kwsysBase64_Decode_max ::
  "byte list \<Rightarrow> nat \<Rightarrow> nat \<Rightarrow> byte list \<Rightarrow> nat \<Rightarrow> (byte list \<times> nat) option" where
  "kwsysBase64_Decode_max input ptr end output optr =
     (if ptr < end
      then do { (len, temp) \<leftarrow> decode3_at input ptr;
                output \<leftarrow> mem_write output optr temp;
                if len < 3 then Some (output, optr + len)
                else kwsysBase64_Decode_max input (ptr + 4) end output (optr + len) }
      else Some (output, optr))"
  by pat_completeness auto
termination
  by (relation "measure (\<lambda>(input, ptr, end, output, optr). end - ptr)") auto

text \<open>
  The branch \<open>max_input_length = 0\<close>; \<open>oend\<close> is \<open>length\<close>.  The last one or two bytes go
  through a temporary of three bytes.
\<close>

function kwsysBase64_Decode_len ::
  "byte list \<Rightarrow> nat \<Rightarrow> nat \<Rightarrow> byte list \<Rightarrow> nat \<Rightarrow> (byte list \<times> nat) option" where
  "kwsysBase64_Decode_len input ptr oend output optr =
     (if oend - optr \<ge> 3
      then do { (len, temp) \<leftarrow> decode3_at input ptr;
                output \<leftarrow> mem_write output optr temp;
                if len < 3 then Some (output, optr + len)
                else kwsysBase64_Decode_len input (ptr + 4) oend output (optr + 3) }
      else if oend - optr = 2
      then do { (len, temp) \<leftarrow> decode3_at input ptr;
                if len \<ge> 2
                then do { output \<leftarrow> mem_write output optr (take 2 temp);
                          Some (output, optr + 2) }
                else if len > 0
                then do { output \<leftarrow> mem_write output optr (take 1 temp);
                          Some (output, optr + 1) }
                else Some (output, optr) }
      else if oend - optr = 1
      then do { (len, temp) \<leftarrow> decode3_at input ptr;
                if len > 0
                then do { output \<leftarrow> mem_write output optr (take 1 temp);
                          Some (output, optr + 1) }
                else Some (output, optr) }
      else Some (output, optr))"
  by pat_completeness auto
termination
  by (relation "measure (\<lambda>(input, ptr, oend, output, optr). oend - optr)") auto

declare kwsysBase64_Decode_max.simps [simp del] kwsysBase64_Decode_len.simps [simp del]

definition kwsysBase64_Decode ::
  "byte list \<Rightarrow> nat \<Rightarrow> byte list \<Rightarrow> nat \<Rightarrow> (byte list \<times> nat) option" where
  "kwsysBase64_Decode input len output max_input_length =
     (if max_input_length \<noteq> 0
      then kwsysBase64_Decode_max input 0 max_input_length output 0
      else kwsysBase64_Decode_len input 0 len output 0)"

section \<open>The tables\<close>

lemma decode_encode_table:
  "i < 64 \<Longrightarrow> kwsysBase64DecodeTable ! unat (kwsysBase64EncodeTable ! i) = word_of_nat i"
proof -
  have "list_all (\<lambda>i. kwsysBase64DecodeTable ! unat (kwsysBase64EncodeTable ! i) = word_of_nat i)
          [0..<64]"
    by code_simp
  then show "i < 64 \<Longrightarrow> ?thesis" by (simp only: list_all_upt_conv)
qed

lemma decode_table_cases:
  "i < 256 \<Longrightarrow> kwsysBase64DecodeTable ! i = 0xFF \<or> i = 0x3D \<and> kwsysBase64DecodeTable ! i = 0
     \<or> unat (kwsysBase64DecodeTable ! i) < 64
       \<and> kwsysBase64EncodeTable ! unat (kwsysBase64DecodeTable ! i) = word_of_nat i"
proof -
  have "list_all (\<lambda>i. kwsysBase64DecodeTable ! i = 0xFF
       \<or> i = 0x3D \<and> kwsysBase64DecodeTable ! i = 0
       \<or> unat (kwsysBase64DecodeTable ! i) < 64
         \<and> kwsysBase64EncodeTable ! unat (kwsysBase64DecodeTable ! i) = word_of_nat i) [0..<256]"
    by code_simp
  then show "i < 256 \<Longrightarrow> ?thesis" by (simp only: list_all_upt_conv)
qed

lemma encode_table_not_pad: "i < 64 \<Longrightarrow> kwsysBase64EncodeTable ! i \<noteq> 0x3D"
proof -
  have "list_all (\<lambda>i. kwsysBase64EncodeTable ! i \<noteq> 0x3D) [0..<64]"
    by code_simp
  then have "\<forall>i<64. kwsysBase64EncodeTable ! i \<noteq> 0x3D"
    unfolding list_all_upt_conv .
  then show "i < 64 \<Longrightarrow> ?thesis" by blast
qed

lemma decode_pad [simp]: "kwsysBase64DecodeChar 0x3D = 0"
  by (simp add: kwsysBase64DecodeChar_def kwsysBase64DecodeTable_def)

section \<open>Sextets\<close>

text \<open>The four six-bit groups of three bytes; the encoder looks each up in its table.\<close>

definition sextet0 :: "byte \<Rightarrow> byte" where
  "sextet0 a = drop_bit 2 a"

definition sextet1 :: "byte \<Rightarrow> byte \<Rightarrow> byte" where
  "sextet1 a b = (push_bit 4 a AND 0x30) OR (drop_bit 4 b AND 0x0F)"

definition sextet2 :: "byte \<Rightarrow> byte \<Rightarrow> byte" where
  "sextet2 b c = (push_bit 2 b AND 0x3C) OR (drop_bit 6 c AND 0x03)"

definition sextet3 :: "byte \<Rightarrow> byte" where
  "sextet3 c = c AND 0x3F"

lemmas sextet_defs = sextet0_def sextet1_def sextet2_def sextet3_def

lemma sextet0_arg: "(ucast (drop_bit 2 (promote a) AND 0x3F) :: byte) = sextet0 a"
  by (rule byte_eqI, simp add: bit_simps sextet_defs, elim byte_less_8_cases;
      simp add: byte_bit_cases)

lemma sextet1_arg:
  "(ucast ((push_bit 4 (promote a) AND 0x30) OR (drop_bit 4 (promote b) AND 0x0F)) :: byte)
     = sextet1 a b"
  by (rule byte_eqI, simp add: bit_simps sextet_defs, elim byte_less_8_cases;
      simp add: byte_bit_cases)

lemma sextet2_arg:
  "(ucast ((push_bit 2 (promote b) AND 0x3C) OR (drop_bit 6 (promote c) AND 0x03)) :: byte)
     = sextet2 b c"
  by (rule byte_eqI, simp add: bit_simps sextet_defs, elim byte_less_8_cases;
      simp add: byte_bit_cases)

lemma sextet3_arg: "(ucast (promote c AND 0x3F) :: byte) = sextet3 c"
  by (rule byte_eqI) (simp add: bit_simps sextet_defs)

lemma sextet1_zero_arg: "(ucast (push_bit 4 (promote a) AND 0x30) :: byte) = sextet1 a 0"
  by (rule byte_eqI, simp add: bit_simps sextet_defs, elim byte_less_8_cases;
      simp add: byte_bit_cases)

lemma sextet2_zero_arg: "(ucast (push_bit 2 (promote b) AND 0x3C) :: byte) = sextet2 b 0"
  by (rule byte_eqI, simp add: bit_simps sextet_defs, elim byte_less_8_cases;
      simp add: byte_bit_cases)

lemma sextets_six_bits:
  "sextet0 a = take_bit 6 (sextet0 a)" "sextet1 a b = take_bit 6 (sextet1 a b)"
  "sextet2 b c = take_bit 6 (sextet2 b c)" "sextet3 c = take_bit 6 (sextet3 c)"
  by (rule byte_eqI, simp add: bit_simps sextet_defs, elim byte_less_8_cases;
      simp add: byte_bit_cases)+

lemmas sextets_less = sextets_six_bits [THEN unat_less_take_bit, simplified]

lemma sextet_byte_parts:
  "unat (push_bit 4 a AND 0x30 :: byte) = (unat a mod 4) * 16"
  "unat (push_bit 2 a AND 0x3C :: byte) = (unat a mod 16) * 4"
  "unat (a AND 0x3F :: byte) = unat a mod 64"
  "unat (drop_bit 4 a AND 0x0F :: byte) = unat a div 16"
  "unat (drop_bit 6 a AND 0x03 :: byte) = unat a div 64"
proof -
  have "list_all (\<lambda>i. let a = word_of_nat i :: byte in
      unat (push_bit 4 a AND 0x30) = (i mod 4) * 16 \<and>
      unat (push_bit 2 a AND 0x3C) = (i mod 16) * 4 \<and>
      unat (a AND 0x3F) = i mod 64 \<and>
      unat (drop_bit 4 a AND 0x0F) = i div 16 \<and>
      unat (drop_bit 6 a AND 0x03) = i div 64) [0..<256]"
    by code_simp
  then have "\<forall>i<256. let a = word_of_nat i :: byte in
      unat (push_bit 4 a AND 0x30) = (i mod 4) * 16 \<and>
      unat (push_bit 2 a AND 0x3C) = (i mod 16) * 4 \<and>
      unat (a AND 0x3F) = i mod 64 \<and>
      unat (drop_bit 4 a AND 0x0F) = i div 16 \<and>
      unat (drop_bit 6 a AND 0x03) = i div 64"
    unfolding list_all_upt_conv .
  from this [rule_format, OF unat_byte_less, of a]
  show "unat (push_bit 4 a AND 0x30 :: byte) = (unat a mod 4) * 16"
    "unat (push_bit 2 a AND 0x3C :: byte) = (unat a mod 16) * 4"
    "unat (a AND 0x3F :: byte) = unat a mod 64"
    "unat (drop_bit 4 a AND 0x0F :: byte) = unat a div 16"
    "unat (drop_bit 6 a AND 0x03 :: byte) = unat a div 64"
    by (simp_all add: Let_def)
qed

lemma unat_or_disjoint:
  fixes x y :: byte
  assumes "x AND y = 0" and "unat x + unat y < 256"
  shows "unat (x OR y) = unat x + unat y"
proof -
  have "x + y = x OR y"
    using assms(1) by (simp add: disjunctive_add_eq_or)
  with assms(2) show ?thesis using unat_add_lem [of x y] by simp
qed

lemma unat_sextets:
  "unat (sextet0 a) = unat a div 4"
  "unat (sextet1 a b) = (unat a mod 4) * 16 + unat b div 16"
  "unat (sextet2 b c) = (unat b mod 16) * 4 + unat c div 64"
  "unat (sextet3 c) = unat c mod 64"
proof -
  show "unat (sextet0 a) = unat a div 4"
    by (simp add: sextet_defs unat_div drop_bit_eq_div)
  show "unat (sextet3 c) = unat c mod 64"
    by (simp only: sextet_defs sextet_byte_parts)
  have "(push_bit 4 a AND 0x30) AND (drop_bit 4 b AND 0x0F) = 0"
    by (rule byte_eqI, simp add: bit_simps, elim byte_less_8_cases; simp add: byte_bit_cases)
  moreover have "(unat a mod 4) * 16 + unat b div 16 < 256"
    using unat_byte_less [of b] by linarith
  ultimately show "unat (sextet1 a b) = (unat a mod 4) * 16 + unat b div 16"
    unfolding sextet_defs by (simp only: unat_or_disjoint sextet_byte_parts)
  have "(push_bit 2 b AND 0x3C) AND (drop_bit 6 c AND 0x03) = 0"
    by (rule byte_eqI, simp add: bit_simps, elim byte_less_8_cases; simp add: byte_bit_cases)
  moreover have "(unat b mod 16) * 4 + unat c div 64 < 256"
    using unat_byte_less [of c] by linarith
  ultimately show "unat (sextet2 b c) = (unat b mod 16) * 4 + unat c div 64"
    unfolding sextet_defs by (simp only: unat_or_disjoint sextet_byte_parts)
qed

lemma ucast_promote: "(ucast (promote b) :: byte) = b"
  by (rule byte_eqI) (simp add: bit_simps)

lemma base64_digit: "q < 64 \<Longrightarrow> (x * 64 + q) div 64 = x" "q < 64 \<Longrightarrow> (x * 64 + q) mod 64 = q" for x q :: nat
  by simp_all
lemma base64_digits:
  fixes q0 q1 q2 q3 :: nat
  assumes "q1 < 64" "q2 < 64" "q3 < 64"
    and n: "n = ((q0 * 64 + q1) * 64 + q2) * 64 + q3"
  shows "n div 64 div 64 div 64 = q0" "n div 64 div 64 mod 64 = q1" "n div 64 mod 64 = q2" "n mod 64 = q3"
  unfolding n by (simp_all only: base64_digit assms)
lemma regroup_sextets:
  "A = a1 * 4 + a0 \<Longrightarrow> B = b1 * 16 + b0 \<Longrightarrow> C = c1 * 64 + c0 \<Longrightarrow>
     A * 65536 + B * 256 + C
       = ((a1 * 64 + (a0 * 16 + b1)) * 64 + (b0 * 4 + c1)) * 64 + (c0::nat)"
  by simp

lemma quantum_digits:
  "unat a * 65536 + unat b * 256 + unat c =
     ((unat (sextet0 a) * 64 + unat (sextet1 a b)) * 64 + unat (sextet2 b c)) * 64 + unat (sextet3 c)"
  unfolding unat_sextets by (rule regroup_sextets) simp_all

section \<open>The encoder produces the RFC 4648 text\<close>

text \<open>The specification: the input read as numbers of 24 bits, written in base 64.\<close>

definition base64_alphabet :: "nat \<Rightarrow> byte" where
  "base64_alphabet i = kwsysBase64EncodeTable ! i"
fun base64_text :: "byte list \<Rightarrow> byte list" where
  "base64_text (a # b # c # xs) =
     (let n = unat a * 65536 + unat b * 256 + unat c
      in map base64_alphabet [n div 64 div 64 div 64, n div 64 div 64 mod 64, n div 64 mod 64, n mod 64]
         @ base64_text xs)"
| "base64_text [a, b] =
     (let n = unat a * 65536 + unat b * 256
      in map base64_alphabet [n div 64 div 64 div 64, n div 64 div 64 mod 64, n div 64 mod 64] @ [0x3D])"
| "base64_text [a] =
     (let n = unat a * 65536
      in map base64_alphabet [n div 64 div 64 div 64, n div 64 div 64 mod 64] @ [0x3D, 0x3D])"
| "base64_text [] = []"

lemma sextet_char:
  assumes "ucast w = (s::byte)" 
  shows "kwsysBase64EncodeChar w = base64_alphabet (unat s)"
  using assms by (simp add: kwsysBase64EncodeChar_def base64_alphabet_def)

lemmas sextet_chars = sextet0_arg [THEN sextet_char] sextet1_arg [THEN sextet_char]
  sextet2_arg [THEN sextet_char] sextet3_arg [THEN sextet_char]
  sextet1_zero_arg [THEN sextet_char] sextet2_zero_arg [THEN sextet_char]

lemma Encode_quanta:
  "kwsysBase64_Encode3 a b c = map base64_alphabet
     [unat (sextet0 a), unat (sextet1 a b), unat (sextet2 b c), unat (sextet3 c)]"
  "kwsysBase64_Encode2 a b = map base64_alphabet
     [unat (sextet0 a), unat (sextet1 a b), unat (sextet2 b 0)] @ [0x3D]"
  "kwsysBase64_Encode1 a = map base64_alphabet
     [unat (sextet0 a), unat (sextet1 a 0)] @ [0x3D, 0x3D]"
  by (simp_all only: kwsysBase64_Encode3_def kwsysBase64_Encode2_def kwsysBase64_Encode1_def
        sextet_chars list.map append.simps)

lemmas quantum3_digits = base64_digits [OF sextets_less(2-4) quantum_digits]
lemmas quantum2_digits = quantum3_digits [where c = 0, unfolded unsigned_0 add_0_right]
lemmas quantum1_digits = quantum2_digits [where b = 0, unfolded unsigned_0 mult_0 add_0_right]

lemma base64_text_quanta:
  "base64_text (a # b # c # xs) = kwsysBase64_Encode3 a b c @ base64_text xs"
  "base64_text [a, b] = kwsysBase64_Encode2 a b"
  "base64_text [a] = kwsysBase64_Encode1 a"
  by (simp_all only: Encode_quanta base64_text.simps Let_def quantum3_digits quantum2_digits
        quantum1_digits)

definition encoded_size :: "nat \<Rightarrow> int \<Rightarrow> nat" where
  "encoded_size n mark_end =
     4 * ((n + 2) div 3) + (if n mod 3 = 0 \<and> mark_end \<noteq> 0 then 4 else 0)"

definition end_mark :: "nat \<Rightarrow> int \<Rightarrow> byte list" where
  "end_mark n mark_end = (if n mod 3 = 0 \<and> mark_end \<noteq> 0 then [0x3D, 0x3D, 0x3D, 0x3D] else [])"

lemma length_quanta [simp]: "length (kwsysBase64_Encode3 a b c) = 4"
  "length (kwsysBase64_Encode2 a b) = 4" "length (kwsysBase64_Encode1 a) = 4"
  by (simp_all add: Encode_quanta)

lemma quanta_Suc: "(5 + n) div 3 = Suc ((n + 2) div 3)" for n :: nat
  by presburger

lemma length_base64_text: "length (base64_text xs) = 4 * ((length xs + 2) div 3)"
proof (induction xs rule: base64_text.induct)
  case (1 a b c xs)
  then show ?case
    using quanta_Suc [of "length xs"] by (simp add: base64_text_quanta del: base64_text.simps(1))
qed (simp_all add: base64_text_quanta del: base64_text.simps(1-3))

lemma length_end_mark: "length (base64_text xs @ end_mark (length xs) m) = encoded_size (length xs) m"
  by (simp add: encoded_size_def end_mark_def length_base64_text)

lemma fold_Suc4: "Suc (Suc (Suc (Suc n))) = 4 + n"
  by simp

lemma Encode_from_spec:
  "optr \<le> length out \<Longrightarrow> kwsysBase64_Encode_from xs out optr m =
     (if optr + encoded_size (length xs) m \<le> length out
      then Some (take optr out @ base64_text xs @ end_mark (length xs) m
             @ drop (optr + encoded_size (length xs) m) out, optr + encoded_size (length xs) m)
      else None)"
proof (induction xs out optr m rule: kwsysBase64_Encode_from.induct)
  case (1 s0 s1 s2 ptr out optr m)
  have sz: "encoded_size (length (s0 # s1 # s2 # ptr)) m = 4 + encoded_size (length ptr) m"
    "end_mark (length (s0 # s1 # s2 # ptr)) m = end_mark (length ptr) m"
    using quanta_Suc [of "length ptr"] by (simp_all add: encoded_size_def end_mark_def)
  show ?case
  proof (cases "optr + 4 \<le> length out")
    case True
    then show ?thesis
      using 1 sz by (simp add: base64_text_quanta mem_write_def add_ac del: base64_text.simps(1))
  next
    case False
    then show ?thesis using sz by (simp add: mem_write_def)
  qed
qed (auto simp: base64_text_quanta mem_write_def encoded_size_def end_mark_def fold_Suc4 add.commute [of _ 4]
       simp del: base64_text.simps(1-3))

section \<open>The decoder inverts the encoder\<close>

lemma decode_sextets:
  "kwsysBase64DecodeChar (base64_alphabet (unat (sextet0 a))) = sextet0 a"
  "kwsysBase64DecodeChar (base64_alphabet (unat (sextet1 a b))) = sextet1 a b"
  "kwsysBase64DecodeChar (base64_alphabet (unat (sextet2 b c))) = sextet2 b c"
  "kwsysBase64DecodeChar (base64_alphabet (unat (sextet3 c))) = sextet3 c"
  using sextets_less(1)[of a] sextets_less(2)[of a b] sextets_less(3)[of b c] sextets_less(4)[of c]
  by (simp_all add: kwsysBase64DecodeChar_def base64_alphabet_def decode_encode_table)

lemma sextet_chars_not_pad:
  "base64_alphabet (unat (sextet2 b c)) \<noteq> 0x3D"
  "base64_alphabet (unat (sextet3 c)) \<noteq> 0x3D"
  using sextets_less(3)[of b c] sextets_less(4)[of c]
  by (simp_all add: base64_alphabet_def encode_table_not_pad)

lemma sextets_valid: "sextet0 a \<noteq> 0xFF" "sextet1 a b \<noteq> 0xFF" "sextet2 b c \<noteq> 0xFF" "sextet3 c \<noteq> 0xFF"
  using sextets_less(1)[of a] sextets_less(2)[of a b] sextets_less(3)[of b c] sextets_less(4)[of c]
  by auto

lemma sextets_regroup:
  "(ucast ((push_bit 2 (promote (sextet0 a)) AND 0xFC) OR (drop_bit 4 (promote (sextet1 a b)) AND 0x03))
     :: byte) = a"
  "(ucast ((push_bit 4 (promote (sextet1 a b)) AND 0xF0) OR (drop_bit 2 (promote (sextet2 b c)) AND 0x0F))
     :: byte) = b"
  "(ucast ((push_bit 6 (promote (sextet2 b c)) AND 0xC0) OR (drop_bit 0 (promote (sextet3 c)) AND 0x3F))
     :: byte) = c"
  by (rule byte_eqI, simp add: bit_simps sextet_defs, elim byte_less_8_cases;
      simp add: byte_bit_cases)+

lemma sextets_zero: "sextet2 0 0 = 0" "sextet3 0 = 0"
  by (simp_all add: sextet_defs)

lemma Decode3_Encode3: "kwsysBase64_Decode3 (base64_alphabet (unat (sextet0 a)))
     (base64_alphabet (unat (sextet1 a b))) (base64_alphabet (unat (sextet2 b c)))
     (base64_alphabet (unat (sextet3 c))) = (3, [a, b, c])"
  by (simp only: kwsysBase64_Decode3_def Let_def decode_sextets sextets_valid sextet_chars_not_pad
        sextets_regroup simp_thms if_False)

lemma Decode3_Encode2: "kwsysBase64_Decode3 (base64_alphabet (unat (sextet0 a)))
     (base64_alphabet (unat (sextet1 a b))) (base64_alphabet (unat (sextet2 b 0))) 0x3D = (2, [a, b, 0])"
  using sextets_regroup(1) [of a b] sextets_regroup(2) [of a b 0] sextets_regroup(3) [of b 0]
  by (simp only: kwsysBase64_Decode3_def Let_def decode_sextets sextets_valid sextet_chars_not_pad
        decode_pad simp_thms if_False if_True sextets_zero) (simp add: sextets_zero)

lemma Decode3_Encode1: "kwsysBase64_Decode3 (base64_alphabet (unat (sextet0 a)))
     (base64_alphabet (unat (sextet1 a 0))) 0x3D 0x3D = (1, [a, 0, 0])"
  using sextets_regroup(1) [of a 0] sextets_regroup(2) [of a 0 0] sextets_regroup(3) [of 0 0]
  by (simp only: kwsysBase64_Decode3_def Let_def decode_sextets sextets_valid sextet_chars_not_pad
        decode_pad simp_thms if_False if_True sextets_zero) (simp add: sextets_zero)

lemma Decode3_pads: "kwsysBase64_Decode3 0x3D 0x3D 0x3D 0x3D = (1, [0, 0, 0])"
  by (simp add: kwsysBase64_Decode3_def Let_def)

lemma decode3_at_append:
  "decode3_at (pre @ [a, b, c, d] @ post) (length pre) = Some (kwsysBase64_Decode3 a b c d)"
  by (simp add: decode3_at_def mem_read_def)

lemma decode3_at_quanta:
  "decode3_at (pre @ kwsysBase64_Encode3 a b c @ post) (length pre) = Some (3, [a, b, c])"
  "decode3_at (pre @ kwsysBase64_Encode2 a b @ post) (length pre) = Some (2, [a, b, 0])"
  "decode3_at (pre @ kwsysBase64_Encode1 a @ post) (length pre) = Some (1, [a, 0, 0])"
  using decode3_at_append [of pre _ _ _ _ post]
  by (simp_all add: Encode_quanta Decode3_Encode3 Decode3_Encode2 Decode3_Encode1)

lemma Decode_len_text:
  assumes "optr + length xs \<le> length out"
  shows "kwsysBase64_Decode_len (pre @ base64_text xs @ post) (length pre) (optr + length xs) out optr
     = Some (take optr out @ xs @ drop (optr + length xs) out, optr + length xs)"
  using assms
proof (induction xs arbitrary: pre optr out rule: base64_text.induct)
  case (1 a b c xs)
  let ?out = "take optr out @ [a, b, c] @ drop (optr + 3) out"
  have w: "mem_write out optr [a, b, c] = Some ?out"
    using "1.prems" by (simp add: mem_write_def numeral_3_eq_3)
  have len: "length ?out = length out"
    using "1.prems" by simp
  have IH: "kwsysBase64_Decode_len ((pre @ kwsysBase64_Encode3 a b c) @ base64_text xs @ post)
      (length (pre @ kwsysBase64_Encode3 a b c)) ((optr + 3) + length xs) ?out (optr + 3)
    = Some (take (optr + 3) ?out @ xs @ drop ((optr + 3) + length xs) ?out, (optr + 3) + length xs)"
    by (rule "1.IH") (use "1.prems" in \<open>simp only: len list.size, simp\<close>)
  show ?case
    apply (subst kwsysBase64_Decode_len.simps)
    using IH "1.prems" decode3_at_quanta(1) [of pre a b c "base64_text xs @ post"] w
    by (simp add: base64_text_quanta numeral_3_eq_3 add_ac del: base64_text.simps(1))
next
  case (2 a b)
  then show ?case
    apply (subst kwsysBase64_Decode_len.simps)
    using decode3_at_quanta(2) [of pre a b post]
    by (simp add: base64_text_quanta mem_write_def del: base64_text.simps(2))
next
  case (3 a)
  then show ?case
    apply (subst kwsysBase64_Decode_len.simps)
    using decode3_at_quanta(3) [of pre a post]
    by (simp add: base64_text_quanta mem_write_def del: base64_text.simps(3))
next
  case 4
  then show ?case by (subst kwsysBase64_Decode_len.simps) simp
qed

section \<open>The decoder stays inside its buffers\<close>

lemma Decode3_contract:
  "kwsysBase64_Decode3 a b c d = (n, temp) \<Longrightarrow> n \<le> 3 \<and> length temp = (if n = 0 then 0 else 3)"
  by (auto simp: kwsysBase64_Decode3_def Let_def split: if_splits)

lemma decode3_at_defined:
  assumes "ptr + 4 \<le> length input"
  obtains n temp where "decode3_at input ptr = Some (n, temp)" "n \<le> 3"
    "length temp = (if n = 0 then 0 else 3)"
proof -
  obtain n temp where "decode3_at input ptr = Some (n, temp)"
    using assms by (cases "decode3_at input ptr") (auto simp: decode3_at_def mem_read_def)
  moreover from this have "n \<le> 3 \<and> length temp = (if n = 0 then 0 else 3)"
    by (auto simp: decode3_at_def mem_read_def split: if_splits dest: Decode3_contract)
  ultimately show ?thesis using that by blast
qed

definition frame_ok :: "nat \<Rightarrow> nat \<Rightarrow> byte list \<Rightarrow> byte list \<Rightarrow> bool" where
  "frame_ok lo hi out out' \<longleftrightarrow> length out' = length out \<and> take lo out' = take lo out \<and> drop hi out' = drop hi out"

lemma frame_ok_refl [simp]: "frame_ok lo hi out out"
  by (simp add: frame_ok_def)

lemma frame_ok_trans: "frame_ok lo hi a b \<Longrightarrow> frame_ok lo' hi b c \<Longrightarrow> lo \<le> lo' \<Longrightarrow> frame_ok lo hi a c"
  unfolding frame_ok_def by (metis min.absorb1 take_take)

lemma mem_write_frame:
  assumes "lo \<le> off" "off + length xs \<le> hi" "hi \<le> length out"
  obtains out' where "mem_write out off xs = Some out'" "frame_ok lo hi out out'"
  using assms by (auto simp: mem_write_def frame_ok_def)

lemma Decode_len_defined:
  assumes "optr \<le> oend" "oend \<le> length out" "ptr + 4 * ((oend - optr + 2) div 3) \<le> length input"
  shows "\<exists>out' k. kwsysBase64_Decode_len input ptr oend out optr = Some (out', k)
           \<and> optr \<le> k \<and> k \<le> oend \<and> frame_ok optr oend out out'"
  using assms
proof (induction input ptr oend out optr rule: kwsysBase64_Decode_len.induct)
  case (1 input ptr oend out optr)
  show ?case
  proof (cases "oend = optr")
    case True
    then show ?thesis by (subst kwsysBase64_Decode_len.simps) simp
  next
    case False
    with "1.prems" have "0 < (oend - optr + 2) div 3" by (simp add: div_greater_zero_iff)
    with "1.prems" have "ptr + 4 \<le> length input" by linarith
    then obtain n temp where d: "decode3_at input ptr = Some (n, temp)" "n \<le> 3"
      "length temp = (if n = 0 then 0 else 3)"
      by (rule decode3_at_defined)
    show ?thesis
    proof (cases "oend - optr \<ge> 3")
      case True
      with d "1.prems" obtain out' where w: "mem_write out optr temp = Some out'"
        "frame_ok optr oend out out'"
        by (elim mem_write_frame [of optr optr temp oend out, rotated 3]) (auto split: if_splits)
      show ?thesis
      proof (cases "n < 3")
        case n3: True
        with True d w show ?thesis by (subst kwsysBase64_Decode_len.simps) simp
      next
        case n3: False
        have next_fit: "ptr + 4 + 4 * ((oend - (optr + 3) + 2) div 3) \<le> length input"
        proof -
          obtain d where d: "oend = optr + 3 + d"
            using True by (metis le_add_diff_inverse le_diff_conv2 less_imp_le_nat nat_le_linear
                add.assoc diff_is_0_eq not_numeral_le_zero)
          then have "oend - optr + 2 = 5 + d" "oend - (optr + 3) = d" by simp_all
          with "1.prems"(3) quanta_Suc [of d] show ?thesis by (metis add.assoc mult_Suc_right)
        qed
        have "\<exists>out'' k. kwsysBase64_Decode_len input (ptr + 4) oend out' (optr + 3) = Some (out'', k)
           \<and> optr + 3 \<le> k \<and> k \<le> oend \<and> frame_ok (optr + 3) oend out' out''"
          using True "1.prems" n3 d w next_fit by (intro "1.IH") (auto simp: frame_ok_def)
        then obtain out'' k where r:
          "kwsysBase64_Decode_len input (ptr + 4) oend out' (optr + 3) = Some (out'', k)"
          "optr + 3 \<le> k" "k \<le> oend" "frame_ok (optr + 3) oend out' out''"
          by blast
        have "frame_ok optr oend out out''"
          by (rule frame_ok_trans [OF w(2) r(4)]) simp
        with True d w n3 r show ?thesis
          by (subst kwsysBase64_Decode_len.simps) auto
      qed
    next
      case small: False
      have w: "\<exists>out'. mem_write out optr (take j temp) = Some out' \<and> frame_ok optr oend out out'"
        if "j \<le> oend - optr" for j
        using mem_write_frame [of optr optr "take j temp" oend out] that "1.prems" by force
      from small False "1.prems" have "oend - optr = 1 \<or> oend - optr = 2" by linarith
      then show ?thesis
        using d w [of 1] w [of 2] "1.prems" by (subst kwsysBase64_Decode_len.simps) auto
    qed
  qed
qed

definition stop_bytes :: "nat \<Rightarrow> int \<Rightarrow> byte list" where
  "stop_bytes n mark_end = (if n mod 3 = 0 \<and> mark_end \<noteq> 0 then [0] else [])"

lemma room_step:
  "i + 3 * Suc q + r \<le> L \<Longrightarrow> i + 3 \<le> L" "i + 3 * Suc q + r \<le> L \<Longrightarrow> (i + 3) + 3 * q + r \<le> L"
  for i :: nat
  by simp_all

lemma Decode_max_text:
  assumes "optr + 3 * ((length xs + 2) div 3) + 3 * length (stop_bytes (length xs) m) \<le> length out"
  shows "\<exists>out'. kwsysBase64_Decode_max (pre @ base64_text xs @ end_mark (length xs) m @ post)
       (length pre) (length pre + encoded_size (length xs) m) out optr
     = Some (out', optr + length xs + length (stop_bytes (length xs) m))
     \<and> length out' = length out
     \<and> take (optr + length xs + length (stop_bytes (length xs) m)) out'
       = take optr out @ xs @ stop_bytes (length xs) m"
  using assms
proof (induction xs arbitrary: pre optr out rule: base64_text.induct)
  case (1 a b c xs)
  have sz: "encoded_size (length (a # b # c # xs)) m = 4 + encoded_size (length xs) m"
    "end_mark (length (a # b # c # xs)) m = end_mark (length xs) m"
    "stop_bytes (length (a # b # c # xs)) m = stop_bytes (length xs) m"
    "(length (a # b # c # xs) + 2) div 3 = Suc ((length xs + 2) div 3)"
    using quanta_Suc [of "length xs"] by (simp_all add: encoded_size_def end_mark_def stop_bytes_def)
  have room: "optr + 3 \<le> length out"
    using "1.prems" unfolding sz by (rule room_step(1))
  let ?out = "take optr out @ [a, b, c] @ drop (optr + 3) out"
  have w: "mem_write out optr [a, b, c] = Some ?out"
    using room by (simp add: mem_write_def numeral_3_eq_3)
  have len: "length ?out = length out"
    using room by simp
  have t: "take (optr + 3) ?out = take optr out @ [a, b, c]"
    using room by simp
  have fits: "(optr + 3) + 3 * ((length xs + 2) div 3) + 3 * length (stop_bytes (length xs) m) \<le> length ?out"
    unfolding len using "1.prems" unfolding sz by (rule room_step(2))
  from "1.IH" [OF refl fits, of "pre @ kwsysBase64_Encode3 a b c"] t
  obtain out' where IH: "kwsysBase64_Decode_max
       ((pre @ kwsysBase64_Encode3 a b c) @ base64_text xs @ end_mark (length xs) m @ post)
       (length (pre @ kwsysBase64_Encode3 a b c))
       (length (pre @ kwsysBase64_Encode3 a b c) + encoded_size (length xs) m) ?out (optr + 3)
     = Some (out', (optr + 3) + length xs + length (stop_bytes (length xs) m))"
    "length out' = length out"
    "take ((optr + 3) + length xs + length (stop_bytes (length xs) m)) out'
      = take optr out @ [a, b, c] @ xs @ stop_bytes (length xs) m"
    unfolding len by auto
  have "kwsysBase64_Decode_max (pre @ base64_text (a # b # c # xs) @ end_mark (length xs) m @ post)
      (length pre) (length pre + (4 + encoded_size (length xs) m)) out optr
     = Some (out', (optr + 3) + length xs + length (stop_bytes (length xs) m))"
    apply (subst kwsysBase64_Decode_max.simps)
    using IH(1) decode3_at_quanta(1) [of pre a b c "base64_text xs @ end_mark (length xs) m @ post"] w
    by (simp add: base64_text_quanta add_ac del: base64_text.simps(1))
  then show ?case
    unfolding sz using IH(2,3)
    by (intro exI [of _ out']) (simp add: numeral_3_eq_3 add_ac del: base64_text.simps(1))
next
  case (2 a b)
  then show ?case
    apply (subst kwsysBase64_Decode_max.simps)
    using decode3_at_quanta(2) [of pre a b post]
    by (simp add: base64_text_quanta mem_write_def end_mark_def stop_bytes_def encoded_size_def
        del: base64_text.simps(2))
next
  case (3 a)
  then show ?case
    apply (subst kwsysBase64_Decode_max.simps)
    using decode3_at_quanta(3) [of pre a post]
    by (simp add: base64_text_quanta mem_write_def end_mark_def stop_bytes_def encoded_size_def
        del: base64_text.simps(3))
next
  case 4
  show ?case
  proof (cases "m = 0")
    case True
    then show ?thesis
      by (subst kwsysBase64_Decode_max.simps) (simp add: end_mark_def stop_bytes_def encoded_size_def)
  next
    case False
    let ?out = "take optr out @ [0, 0, 0] @ drop (optr + 3) out"
    have parts: "end_mark 0 m = [0x3D, 0x3D, 0x3D, 0x3D]" "stop_bytes 0 m = [0]" "encoded_size 0 m = 4"
      using False by (simp_all add: end_mark_def stop_bytes_def encoded_size_def)
    have room: "optr + 3 \<le> length out"
      using "4.prems" by (simp add: parts)
    then have w: "mem_write out optr [0, 0, 0] = Some ?out"
      by (simp add: mem_write_def numeral_3_eq_3)
    have d: "decode3_at (pre @ [0x3D, 0x3D, 0x3D, 0x3D] @ post) (length pre) = Some (1, [0, 0, 0])"
      by (simp only: decode3_at_append Decode3_pads)
    have "kwsysBase64_Decode_max (pre @ [0x3D, 0x3D, 0x3D, 0x3D] @ post) (length pre) (length pre + 4) out optr
        = Some (?out, optr + 1)"
      by (subst kwsysBase64_Decode_max.simps) (use d w in simp)
    moreover have "length ?out = length out" "take (optr + 1) ?out = take optr out @ [0]"
      using room by simp_all
    ultimately show ?thesis
      unfolding list.size base64_text.simps parts append_Nil by (intro exI [of _ ?out]) simp
  qed
qed

section \<open>Properties\<close>

text \<open>The encoder stores the RFC 4648 text of its input (the groups of 24 bits read as
  numbers in base 64, with the padding), then the end mark if asked for, leaves the rest of the
  output alone and returns the number of characters; it stays inside the output exactly when the
  output has that many bytes.\<close>

theorem Encode_rfc4648:
  "kwsysBase64_Encode input out mark_end =
     (if encoded_size (length input) mark_end \<le> length out
      then Some (base64_text input @ end_mark (length input) mark_end
             @ drop (encoded_size (length input) mark_end) out,
             encoded_size (length input) mark_end)
      else None)"
  by (simp add: kwsysBase64_Encode_def Encode_from_spec)

text \<open>C39. Decoding the encoder's text into a buffer of the given length gives the input back, and
  its length, whatever follows the text and whatever was in the buffer.\<close>

theorem Decode_Encode_length:
  assumes "kwsysBase64_Encode input enc mark_end = Some (text, n)" and "length input \<le> length out"
  shows "kwsysBase64_Decode text (length input) out 0
           = Some (input @ drop (length input) out, length input)"
proof -
  obtain rest where "text = base64_text input @ rest"
    using assms(1) by (auto simp: Encode_rfc4648 split: if_splits)
  then show ?thesis
    using Decode_len_text [of 0 input out "[]" rest] assms(2) by (simp add: kwsysBase64_Decode_def)
qed

theorem Decode_Encode_length_witness:
  "kwsysBase64_Decode [0x4D, 0x54, 0x49, 0x3D] 2 [7, 7, 7] 0 = Some ([0x31, 0x32, 7], 2)"
proof -
  have "kwsysBase64_Encode [0x31, 0x32] [0, 0, 0, 0] 0 = Some ([0x4D, 0x54, 0x49, 0x3D], 4)"
    by code_simp
  from Decode_Encode_length [OF this, of "[7, 7, 7]"] show ?thesis by (simp add: numeral_2_eq_2)
qed

text \<open>Decoding without knowing the length (the \<open>max_input_length\<close> mode) the text of a
  non-empty input encoded without an end mark gives the input back and its length.  With an end
  mark and an input whose length is a multiple of three, the mark is not taken for invalid
  characters, as the comment on \<open>kwsysBase64_Encode\<close> says, but decoded: the result is one byte
  longer than the input, with a zero byte at its end.\<close>

theorem Decode_Encode_max:
  assumes "kwsysBase64_Encode input enc mark_end = Some (text, n)" and "n > 0"
    and "3 * ((n + 3) div 4) \<le> length out"
  shows "\<exists>out'. kwsysBase64_Decode text any out n
           = Some (out', length input + length (stop_bytes (length input) mark_end))
         \<and> take (length input + length (stop_bytes (length input) mark_end)) out'
           = input @ stop_bytes (length input) mark_end"
proof -
  from assms(1) obtain rest where tx: "text = base64_text input @ end_mark (length input) mark_end @ rest"
    and n: "n = encoded_size (length input) mark_end"
    by (auto simp: Encode_rfc4648 split: if_splits)
  have "3 * ((length input + 2) div 3) + 3 * length (stop_bytes (length input) mark_end) \<le> length out"
    using assms(3) unfolding n encoded_size_def stop_bytes_def
    by (cases "length input mod 3 = 0 \<and> mark_end \<noteq> 0") (simp, auto)
  then show ?thesis
    using Decode_max_text [of 0 input mark_end out "[]" rest] assms(2) n tx
    by (auto simp: kwsysBase64_Decode_def)
qed

theorem Decode_Encode_max_witness:
  "\<exists>out'. kwsysBase64_Decode [0x41, 0x41, 0x41, 0x42, 0x3D, 0x3D, 0x3D, 0x3D] 0
       [9, 9, 9, 9, 9, 9] 8 = Some (out', 4) \<and> take 4 out' = [0, 0, 1, 0]"
proof -
  have "kwsysBase64_Encode [0, 0, 1] (replicate 8 0) 1
      = Some ([0x41, 0x41, 0x41, 0x42, 0x3D, 0x3D, 0x3D, 0x3D], 8)"
    by code_simp
  from Decode_Encode_max [OF this, of "[9, 9, 9, 9, 9, 9]" 0] show ?thesis
    by (simp add: stop_bytes_def fold_Suc4)
qed

text \<open>C40. Memory safety and bounds of the decoder when the length is given: with enough input (four
  characters per three bytes begun) it never reads or writes outside its buffers, whatever the
  characters, never writes beyond \<open>len\<close> and returns at most \<open>len\<close>.\<close>

theorem Decode_length_safe:
  assumes "len \<le> length out" and "4 * ((len + 2) div 3) \<le> length input"
  shows "\<exists>out' k. kwsysBase64_Decode input len out 0 = Some (out', k) \<and> k \<le> len
           \<and> length out' = length out \<and> drop len out' = drop len out"
  using Decode_len_defined [of 0 len out 0 input] assms
  by (auto simp: kwsysBase64_Decode_def frame_ok_def)

theorem Decode_length_safe_witness:
  "\<exists>out' k. kwsysBase64_Decode [0x21, 0x21, 0x21, 0x21] 2 [5, 6, 7] 0 = Some (out', k) \<and> k \<le> 2
     \<and> length out' = length [5, 6, 7 :: byte] \<and> drop 2 out' = drop 2 [5, 6, 7]"
  by (rule Decode_length_safe) simp_all

text \<open>The decoder's table accepts exactly the 64 characters of the encoder's table and the
  padding character, and gives back the index of each.\<close>

theorem Decode_table_inverts:
  "(kwsysBase64DecodeChar c \<noteq> 0xFF \<longleftrightarrow> c = 0x3D \<or> (\<exists>i<64. c = kwsysBase64EncodeChar (word_of_nat i)))
   \<and> (\<forall>i. i < 64 \<longrightarrow> kwsysBase64DecodeChar (kwsysBase64EncodeChar (word_of_nat i)) = word_of_nat i)"
proof -
  have idx: "unat (ucast (word_of_nat i :: u32) :: byte) = i" if "i < 64" for i
    using that by (simp add: unat_of_nat take_bit_nat_eq_self_iff unsigned_ucast_eq)
  have inv: "kwsysBase64DecodeChar (kwsysBase64EncodeChar (word_of_nat i)) = word_of_nat i" if "i < 64" for i
    using that decode_encode_table [of i] by (simp add: kwsysBase64DecodeChar_def kwsysBase64EncodeChar_def idx)
  have ne: "(word_of_nat i :: byte) \<noteq> 0xFF" if "i < 64" for i
  proof
    assume "(word_of_nat i :: byte) = 0xFF"
    then have "unat (word_of_nat i :: byte) = unat (0xFF :: byte)" by simp
    with that show False by (simp add: unat_of_nat take_bit_nat_eq_self_iff)
  qed
  have "\<exists>i<64. c = kwsysBase64EncodeChar (word_of_nat i)"
    if "kwsysBase64DecodeChar c \<noteq> 0xFF" "c \<noteq> 0x3D"
  proof -
    have "unat c \<noteq> 0x3D"
    proof
      assume "unat c = 0x3D"
      then have "unat c = unat (0x3D :: byte)" by simp
      with that(2) show False by (simp only: word_unat_eq_iff)
    qed
    with that decode_table_cases [of "unat c"] show ?thesis
      by (intro exI [of _ "unat (kwsysBase64DecodeChar c)"])
        (simp add: kwsysBase64DecodeChar_def kwsysBase64EncodeChar_def ucast_promote)
  qed
  then show ?thesis using inv ne by auto
qed

theorem Decode_table_inverts_witness:
  "(kwsysBase64DecodeChar 0x21 \<noteq> 0xFF \<longleftrightarrow> 0x21 = (0x3D :: byte) \<or> (\<exists>i<64. 0x21 = kwsysBase64EncodeChar (word_of_nat i)))
   \<and> kwsysBase64DecodeChar (kwsysBase64EncodeChar (word_of_nat 5)) = word_of_nat 5"
  using Decode_table_inverts [of "0x21"] by (simp del: of_nat_numeral)

text \<open>The comment on \<open>kwsysBase64_Encode\<close> calls \<open>length * 1.5\<close> bytes of output a safe
  estimate.  For one or two bytes of input, and with the end mark for every length below six
  that is a multiple of three, the encoder writes outside such an output.\<close>

theorem Encode_estimate_unsafe:
  "kwsysBase64_Encode [s] (replicate ((1 * 3 + 1) div 2) 0) 0 = None
   \<and> kwsysBase64_Encode [s, t] (replicate (2 * 3 div 2) 0) 0 = None
   \<and> kwsysBase64_Encode [s, t, u] (replicate ((3 * 3 + 1) div 2) 0) 1 = None"
  by (simp_all add: Encode_rfc4648 encoded_size_def)

end
