(* ===== verification/Utf8.thy ===== *)
theory Utf8
  imports Prelude
begin

text \<open>
  \<^verbatim>\<open>Source/cm_utf8.c\<close>: the UTF-8 decoder.  A byte range \<open>[first, last)\<close> is the list of its
  bytes; reading the byte at \<open>last\<close> is \<^term>\<open>None\<close>.  The return value 0 is \<open>Invalid\<close>, a
  pointer is the rest of the range, with the value stored at \<open>pc\<close>.

  The lemmas show that the decoder is the inverse of the encoding of RFC 3629, so that it accepts
  exactly the shortest-form encodings of the Unicode scalar values, and that the validity check
  terminates and accepts exactly the concatenations of such encodings.
\<close>

section \<open>The code\<close>

definition cm_utf8_ones :: "byte list" where
  "cm_utf8_ones = [
     0, 0, 0, 0, 0, 0, 0, 0, 0, 0, 0, 0, 0, 0, 0, 0, 0, 0, 0, 0, 0, 0, 0, 0, 0, 0,
     0, 0, 0, 0, 0, 0, 0, 0, 0, 0, 0, 0, 0, 0, 0, 0, 0, 0, 0, 0, 0, 0, 0, 0, 0, 0,
     0, 0, 0, 0, 0, 0, 0, 0, 0, 0, 0, 0, 0, 0, 0, 0, 0, 0, 0, 0, 0, 0, 0, 0, 0, 0,
     0, 0, 0, 0, 0, 0, 0, 0, 0, 0, 0, 0, 0, 0, 0, 0, 0, 0, 0, 0, 0, 0, 0, 0, 0, 0,
     0, 0, 0, 0, 0, 0, 0, 0, 0, 0, 0, 0, 0, 0, 0, 0, 0, 0, 0, 0, 0, 0, 0, 0, 1, 1,
     1, 1, 1, 1, 1, 1, 1, 1, 1, 1, 1, 1, 1, 1, 1, 1, 1, 1, 1, 1, 1, 1, 1, 1, 1, 1,
     1, 1, 1, 1, 1, 1, 1, 1, 1, 1, 1, 1, 1, 1, 1, 1, 1, 1, 1, 1, 1, 1, 1, 1, 1, 1,
     1, 1, 1, 1, 1, 1, 1, 1, 1, 1, 2, 2, 2, 2, 2, 2, 2, 2, 2, 2, 2, 2, 2, 2, 2, 2,
     2, 2, 2, 2, 2, 2, 2, 2, 2, 2, 2, 2, 2, 2, 2, 2, 3, 3, 3, 3, 3, 3, 3, 3, 3, 3,
     3, 3, 3, 3, 3, 3, 4, 4, 4, 4, 4, 4, 4, 4, 5, 5, 5, 5, 6, 6, 7, 8]"

definition cm_utf8_mask :: "byte list" where
  "cm_utf8_mask = [0xEF, 0x3F, 0x1F, 0x0F, 0x07, 0x03, 0x01]"

definition cm_utf8_min :: "u32 list" where
  "cm_utf8_min = [0, 0, push_bit 7 1, push_bit 11 1, push_bit 16 1, push_bit 21 1, push_bit 26 1]"

datatype decoded = Invalid | Character u32 "byte list"

text \<open>
  The loop over the trailing bytes: \<^term>\<open>None\<close> for its \<open>return 0\<close>, otherwise \<open>left\<close>,
  \<open>uc\<close> and \<open>first\<close> at its end.
\<close>

fun cm_utf8_trailing :: "nat \<Rightarrow> u32 \<Rightarrow> byte list \<Rightarrow> (nat \<times> u32 \<times> byte list) option" where
  "cm_utf8_trailing 0 uc first = Some (0, uc, first)"
| "cm_utf8_trailing (Suc left) uc [] = Some (Suc left, uc, [])"
| "cm_utf8_trailing (Suc left) uc (c # first) =
     (if cm_utf8_ones ! unat c \<noteq> 1 then None
      else cm_utf8_trailing left (push_bit 6 uc OR ucast (c AND cm_utf8_mask ! 1)) first)"

fun cm_utf8_decode_character :: "byte list \<Rightarrow> decoded option" where
  "cm_utf8_decode_character [] = None"
| "cm_utf8_decode_character (c # first) = Some
     (let ones = unat (cm_utf8_ones ! unat c)
      in if ones = 0 then Character (ucast c) first
         else if ones = 1 \<or> ones = 7 \<or> ones = 8 then Invalid
         else case cm_utf8_trailing (ones - 1) (ucast (c AND cm_utf8_mask ! ones)) first of
                None \<Rightarrow> Invalid
              | Some (left, uc, first) \<Rightarrow>
                  if left > 0 \<or> uc < cm_utf8_min ! ones then Invalid
                  else if 0xD800 \<le> uc \<and> uc \<le> 0xDFFF then Invalid
                  else if 0x10FFFF < uc then Invalid
                  else Character uc first)"

lemma cm_utf8_trailing_shrinks:
  "cm_utf8_trailing left uc first = Some (left', uc', first') \<Longrightarrow> length first' \<le> length first"
  by (induction left uc first rule: cm_utf8_trailing.induct) (auto split: if_splits)

text \<open>The progress the loop of the validity check relies on.\<close>

lemma decode_progress:
  "cm_utf8_decode_character pos = Some (Character pc pos') \<Longrightarrow> length pos' < length pos"
  by (cases pos) (auto simp: Let_def split: if_splits option.splits dest!: cm_utf8_trailing_shrinks)

text \<open>The loop of \<open>cm_utf8_is_valid\<close>; \<open>last\<close> is the end of the list.\<close>

function cm_utf8_is_valid_loop :: "byte list \<Rightarrow> int option" where
  "cm_utf8_is_valid_loop pos =
     (if pos = [] then Some 1
      else case cm_utf8_decode_character pos of
             None \<Rightarrow> None
           | Some Invalid \<Rightarrow> Some 0
           | Some (Character pc pos') \<Rightarrow> cm_utf8_is_valid_loop pos')"
  by pat_completeness auto
termination
  by (relation "measure length") (auto dest: decode_progress)

declare cm_utf8_is_valid_loop.simps [simp del]

definition cm_utf8_is_valid :: "byte list option \<Rightarrow> int option" where
  "cm_utf8_is_valid s =
     (case s of
        None \<Rightarrow> Some 0
      | Some s \<Rightarrow> do { str \<leftarrow> c_string s; cm_utf8_is_valid_loop str })"

section \<open>The encoding of RFC 3629\<close>

definition scalar_value :: "nat \<Rightarrow> bool" where
  "scalar_value n \<longleftrightarrow> n < 0x110000 \<and> \<not> (0xD800 \<le> n \<and> n \<le> 0xDFFF)"

definition continuation :: "nat \<Rightarrow> byte" where
  "continuation n = word_of_nat (0x80 + n mod 64)"

definition utf8_encode :: "nat \<Rightarrow> byte list" where
  "utf8_encode n =
     (if n < 0x80 then [word_of_nat n]
      else if n < 0x800 then [word_of_nat (0xC0 + n div 64), continuation n]
      else if n < 0x10000
      then [word_of_nat (0xE0 + n div 64 div 64), continuation (n div 64), continuation n]
      else [word_of_nat (0xF0 + n div 64 div 64 div 64), continuation (n div 64 div 64),
            continuation (n div 64), continuation n])"

section \<open>The tables\<close>

lemma ones_table:
  "unat (cm_utf8_ones ! unat c) =
     (if unat c < 0x80 then 0 else if unat c < 0xC0 then 1 else if unat c < 0xE0 then 2
      else if unat c < 0xF0 then 3 else if unat c < 0xF8 then 4 else if unat c < 0xFC then 5
      else if unat c < 0xFE then 6 else if unat c < 0xFF then 7 else 8)" for c :: byte
proof -
  have "list_all (\<lambda>i. unat (cm_utf8_ones ! i) =
     (if i < 0x80 then 0 else if i < 0xC0 then 1 else if i < 0xE0 then 2
      else if i < 0xF0 then 3 else if i < 0xF8 then 4 else if i < 0xFC then 5
      else if i < 0xFE then 6 else if i < 0xFF then 7 else 8)) [0..<256]"
    by code_simp
  then have "\<forall>i<256. unat (cm_utf8_ones ! i) =
     (if i < 0x80 then 0 else if i < 0xC0 then 1 else if i < 0xE0 then 2
      else if i < 0xF0 then 3 else if i < 0xF8 then 4 else if i < 0xFC then 5
      else if i < 0xFE then 6 else if i < 0xFF then 7 else 8)"
    unfolding list_all_upt_conv .
  from this [rule_format, OF unat_byte_less, of c] show ?thesis .
qed

lemma masked_bytes:
  "unat (c AND 0x3F) = unat c mod 64" "unat (c AND 0x1F) = unat c mod 32"
  "unat (c AND 0x0F) = unat c mod 16" "unat (c AND 0x07) = unat c mod 8" for c :: byte
proof -
  have m: "c AND 0x3F = take_bit 6 c" "c AND 0x1F = take_bit 5 c" "c AND 0x0F = take_bit 4 c"
    "c AND 0x07 = take_bit 3 c"
    by (simp_all add: take_bit_eq_mask mask_eq_exp_minus_1)
  show "unat (c AND 0x3F) = unat c mod 64" "unat (c AND 0x1F) = unat c mod 32"
    "unat (c AND 0x0F) = unat c mod 16" "unat (c AND 0x07) = unat c mod 8"
    unfolding m unsigned_take_bit_eq by (simp_all add: take_bit_eq_mod)
qed


section \<open>Trailing bytes\<close>

definition is_cont :: "byte \<Rightarrow> bool" where
  "is_cont c \<longleftrightarrow> 0x80 \<le> unat c \<and> unat c < 0xC0"

definition utf8_step :: "u32 \<Rightarrow> byte \<Rightarrow> u32" where
  "utf8_step uc c = push_bit 6 uc OR ucast (c AND 0x3F)"

lemma ones_eq_1: "cm_utf8_ones ! unat c = 1 \<longleftrightarrow> is_cont c" for c :: byte
  using ones_table [of c] by (simp add: word_unat_eq_iff is_cont_def split: if_splits)

lemma ex_cons_eq:
  "(\<exists>ks. length ks = Suc left \<and> list_all P ks \<and> c # first = ks @ bs' \<and> uc' = foldl f uc ks)
     \<longleftrightarrow> P c \<and> (\<exists>ks. length ks = left \<and> list_all P ks \<and> first = ks @ bs' \<and> uc' = foldl f (f uc c) ks)"
proof (intro iffI; elim exE conjE)
  fix ks assume "length ks = Suc left" "list_all P ks" "c # first = ks @ bs'" "uc' = foldl f uc ks"
  then show "P c \<and> (\<exists>ks. length ks = left \<and> list_all P ks \<and> first = ks @ bs' \<and> uc' = foldl f (f uc c) ks)"
    by (cases ks) auto
next
  fix ks assume "P c" "length ks = left" "list_all P ks" "first = ks @ bs'" "uc' = foldl f (f uc c) ks"
  then show "\<exists>ks. length ks = Suc left \<and> list_all P ks \<and> c # first = ks @ bs' \<and> uc' = foldl f uc ks"
    by (intro exI [of _ "c # ks"]) simp
qed

lemma trailing_exact:
  "cm_utf8_trailing l uc bs = Some (0, uc', bs') \<longleftrightarrow>
     (\<exists>ks. length ks = l \<and> list_all is_cont ks \<and> bs = ks @ bs' \<and> uc' = foldl utf8_step uc ks)"
proof (induction l uc bs rule: cm_utf8_trailing.induct)
  case (3 left uc c first)
  have "cm_utf8_trailing (Suc left) uc (c # first) = Some (0, uc', bs')
     \<longleftrightarrow> is_cont c \<and> cm_utf8_trailing left (utf8_step uc c) first = Some (0, uc', bs')"
    by (simp add: ones_eq_1 utf8_step_def cm_utf8_mask_def)
  moreover have "is_cont c \<Longrightarrow> cm_utf8_trailing left (utf8_step uc c) first = Some (0, uc', bs')
     \<longleftrightarrow> (\<exists>ks. length ks = left \<and> list_all is_cont ks \<and> first = ks @ bs'
            \<and> uc' = foldl utf8_step (utf8_step uc c) ks)"
    using "3.IH" by (simp add: ones_eq_1 utf8_step_def [abs_def] cm_utf8_mask_def)
  ultimately show ?case
    unfolding ex_cons_eq by blast
qed auto

lemma unat_utf8_step:
  assumes "unat uc < 2 ^ 26"
  shows "unat (utf8_step uc c) = unat uc * 64 + unat c mod 64"
proof -
  have c: "c AND 0x3F = take_bit 6 c" for c :: byte
    by (simp add: take_bit_eq_mask mask_eq_exp_minus_1)
  have "push_bit 6 uc AND ucast (c AND 0x3F) = (0 :: u32)"
    unfolding c by (rule bit_word_eqI) (auto simp: bit_simps)
  then have "utf8_step uc c = push_bit 6 uc + ucast (c AND 0x3F)"
    by (simp add: utf8_step_def disjunctive_add_eq_or)
  moreover have "unat (push_bit 6 uc) = unat uc * 64"
    using assms by (simp add: push_bit_eq_mult unat_mult_lem [THEN iffD1])
  moreover have "unat uc * 64 + unat c mod 64 < 2 ^ 32"
    using assms by (simp add: algebra_simps)
  ultimately show ?thesis
    using unat_add_lem [of "push_bit 6 uc" "ucast (c AND 0x3F) :: u32"] by (simp add: masked_bytes)
qed


lemma scalar_word:
  "scalar_value (unat n) \<longleftrightarrow> \<not> (0xD800 \<le> n \<and> n \<le> 0xDFFF) \<and> \<not> 0x10FFFF < n" for n :: u32
  by (auto simp: scalar_value_def word_le_nat_alt word_less_nat_alt)

lemma decode_multi:
  assumes "unat (cm_utf8_ones ! unat c) = Suc l" "1 \<le> l" "l \<le> 5"
  shows "cm_utf8_decode_character (c # first) = Some (Character n rest) \<longleftrightarrow>
    (\<exists>ks. length ks = l \<and> list_all is_cont ks \<and> first = ks @ rest
        \<and> n = foldl utf8_step (ucast (c AND cm_utf8_mask ! Suc l)) ks)
    \<and> cm_utf8_min ! Suc l \<le> n \<and> scalar_value (unat n)"
proof -
  have "cm_utf8_decode_character (c # first) = Some (Character n rest) \<longleftrightarrow>
     cm_utf8_trailing l (ucast (c AND cm_utf8_mask ! Suc l)) first = Some (0, n, rest)
     \<and> cm_utf8_min ! Suc l \<le> n \<and> scalar_value (unat n)"
    unfolding scalar_word using assms
    by (auto simp: Let_def not_less split: option.splits prod.splits if_splits)
  then show ?thesis by (simp only: trailing_exact)
qed

lemma decode_single:
  assumes "unat c < 0x80"
  shows "cm_utf8_decode_character (c # first) = Some (Character (ucast c) first)"
  using assms by (simp add: ones_table)

lemma decode_invalid_lead:
  assumes "unat (cm_utf8_ones ! unat c) = 7 \<or> unat (cm_utf8_ones ! unat c) = 8"
  shows "cm_utf8_decode_character (c # first) = Some Invalid"
  using assms by auto

declare cm_utf8_decode_character.simps(2) [simp del]

lemma decode_long:
  assumes "0xF8 \<le> unat c"
  shows "cm_utf8_decode_character (c # first) \<noteq> Some (Character n rest)"
proof -
  have m: "unat (cm_utf8_min ! Suc 4) = 0x200000" "unat (cm_utf8_min ! Suc 5) = 0x4000000"
    by (simp_all add: cm_utf8_min_def push_bit_eq_mult)
  have big: False if "cm_utf8_min ! Suc l \<le> n" "scalar_value (unat n)" "l = 4 \<or> l = 5" for l
    using that m by (auto simp: word_le_nat_alt scalar_value_def)
  consider "unat (cm_utf8_ones ! unat c) = Suc 4" | "unat (cm_utf8_ones ! unat c) = Suc 5"
    | "unat (cm_utf8_ones ! unat c) = 7" | "unat (cm_utf8_ones ! unat c) = 8"
    using assms ones_table [of c] by (auto split: if_splits)
  then show ?thesis
  proof cases
    case 1
    then show ?thesis using big [of 4] by (subst decode_multi [OF 1]) auto
  next
    case 2
    then show ?thesis using big [of 5] by (subst decode_multi [OF 2]) auto
  qed (simp_all add: decode_invalid_lead)
qed

text \<open>The value of a lead byte's bits and up to three trailing bytes.\<close>

lemma value_2:
  "unat u < 32 \<Longrightarrow> unat (foldl utf8_step u [a]) = unat u * 64 + unat a mod 64"
  by (simp add: unat_utf8_step)

lemma value_3:
  "unat u < 16 \<Longrightarrow> unat (foldl utf8_step u [a, b])
     = (unat u * 64 + unat a mod 64) * 64 + unat b mod 64"
  using mod_less_divisor [of 64 "unat a"] by (simp add: unat_utf8_step del: mod_less_divisor)

lemma value_4:
  "unat u < 8 \<Longrightarrow> unat (foldl utf8_step u [a, b, c])
     = ((unat u * 64 + unat a mod 64) * 64 + unat b mod 64) * 64 + unat c mod 64"
  using mod_less_divisor [of 64 "unat a"] mod_less_divisor [of 64 "unat b"]
  by (simp add: unat_utf8_step del: mod_less_divisor)


section \<open>Decoding and encoding\<close>

lemma mod_lead: "(128 + n) mod 64 = n mod 64" "(192 + n) mod 32 = n mod 32" "(224 + n) mod 16 = n mod 16"
  "(240 + n) mod 8 = n mod 8" for n :: nat
  using mod_mult_self3 [of 2 64 n] mod_mult_self3 [of 6 32 n] mod_mult_self3 [of 14 16 n]
    mod_mult_self3 [of 30 8 n] by simp_all

lemma continuation_byte:
  assumes "is_cont k"
  shows "continuation (x * 64 + unat k mod 64) = k"
proof -
  obtain y where y: "unat k = 0x80 + y" "y < 64"
    using assms by (auto simp: is_cont_def dest!: le_Suc_ex)
  then have "continuation (x * 64 + unat k mod 64) = word_of_nat (unat k)"
    by (simp add: continuation_def mod_lead)
  then show ?thesis by simp
qed

lemma unat_continuation: "unat (continuation n) = 0x80 + n mod 64"
  by (simp add: continuation_def unat_of_nat take_bit_nat_eq_self_iff del: of_nat_add)

lemma is_cont_continuation [simp]: "is_cont (continuation n)"
  using mod_less_divisor [of 64 n] by (simp add: is_cont_def unat_continuation del: mod_less_divisor)

lemma continuation_bits [simp]: "unat (continuation n) mod 64 = n mod 64"
  by (simp add: unat_continuation mod_lead)


text \<open>The numbers the decoder computes, in base 64, and the bytes they come from.\<close>

lemma base64_divmod: "y < 64 \<Longrightarrow> (x * 64 + y) div 64 = x" "y < 64 \<Longrightarrow> (x * 64 + y) mod 64 = y"
  for x y :: nat
  by simp_all

lemma encode_2:
  assumes "unat c = 0xC0 + y" "y < 32" "is_cont k" "0x80 \<le> y * 64 + unat k mod 64"
  shows "utf8_encode (y * 64 + unat k mod 64) = [c, k]"
proof -
  have "y * 64 + unat k mod 64 < 0x800" "(y * 64 + unat k mod 64) div 64 = y"
    using assms(2) mod_less_divisor [of 64 "unat k"] by simp_all
  moreover have "word_of_nat (0xC0 + y) = c"
    unfolding assms(1) [symmetric] by simp
  ultimately show ?thesis
    using assms by (simp add: utf8_encode_def continuation_byte del: of_nat_add)
qed

lemma encode_3:
  assumes "unat c = 0xE0 + y" "y < 16" "is_cont k1" "is_cont k2"
    and n: "n = (y * 64 + unat k1 mod 64) * 64 + unat k2 mod 64" and "0x800 \<le> n"
  shows "utf8_encode n = [c, k1, k2]"
proof -
  have "n < 0x10000" "n div 64 = y * 64 + unat k1 mod 64" "n div 64 div 64 = y"
    unfolding n using assms(2) mod_less_divisor [of 64 "unat k1"] mod_less_divisor [of 64 "unat k2"]
    by simp_all
  moreover have "word_of_nat (0xE0 + y) = c"
    unfolding assms(1) [symmetric] by simp
  moreover have "continuation n = k2"
    unfolding n by (rule continuation_byte) fact
  ultimately show ?thesis
    using assms(3,6) by (simp add: utf8_encode_def continuation_byte del: of_nat_add)
qed

lemma encode_4:
  assumes "unat c = 0xF0 + y" "y < 8" "is_cont k1" "is_cont k2" "is_cont k3"
    and n: "n = ((y * 64 + unat k1 mod 64) * 64 + unat k2 mod 64) * 64 + unat k3 mod 64"
    and "0x10000 \<le> n"
  shows "utf8_encode n = [c, k1, k2, k3]"
proof -
  have "n div 64 = (y * 64 + unat k1 mod 64) * 64 + unat k2 mod 64"
    "n div 64 div 64 = y * 64 + unat k1 mod 64" "n div 64 div 64 div 64 = y"
    unfolding n using mod_less_divisor [of 64 "unat k1"] mod_less_divisor [of 64 "unat k2"]
      mod_less_divisor [of 64 "unat k3"]
    by simp_all
  moreover have "word_of_nat (0xF0 + y) = c"
    unfolding assms(1) [symmetric] by simp
  moreover have "continuation n = k3"
    unfolding n by (rule continuation_byte) fact
  moreover have "continuation ((y * 64 + unat k1 mod 64) * 64 + unat k2 mod 64) = k2"
    by (rule continuation_byte) fact
  moreover have "continuation (y * 64 + unat k1 mod 64) = k1"
    by (rule continuation_byte) fact
  ultimately show ?thesis
    using assms(7) by (simp only: utf8_encode_def) simp
qed

lemma unat_lead:
  "p + y < 256 \<Longrightarrow> unat (word_of_nat (p + y) :: byte) = p + y"
  by (simp add: unat_of_nat take_bit_nat_eq_self_iff del: of_nat_add)

lemma lead_mask:
  "y < 32 \<Longrightarrow> unat c = 0xC0 + y \<Longrightarrow> unat (ucast (c AND 0x1F) :: u32) = y"
  "y < 16 \<Longrightarrow> unat c = 0xE0 + y \<Longrightarrow> unat (ucast (c AND 0x0F) :: u32) = y"
  "y < 8 \<Longrightarrow> unat c = 0xF0 + y \<Longrightarrow> unat (ucast (c AND 0x07) :: u32) = y" for c :: byte
  by (simp_all only: masked_bytes unat_ucast_byte_u32 mod_lead mod_less)

lemma ex_length:
  "(\<exists>ks. length ks = 1 \<and> P ks) \<longleftrightarrow> (\<exists>a. P [a])"
  "(\<exists>ks. length ks = 2 \<and> P ks) \<longleftrightarrow> (\<exists>a b. P [a, b])"
  "(\<exists>ks. length ks = 3 \<and> P ks) \<longleftrightarrow> (\<exists>a b c. P [a, b, c])"
  by (auto simp: length_Suc_conv numeral_2_eq_2 numeral_3_eq_3) blast?

lemma ones_lead:
  "unat c = 0xC0 + y \<Longrightarrow> y < 32 \<Longrightarrow> unat (cm_utf8_ones ! unat c) = Suc 1"
  "unat c = 0xE0 + y \<Longrightarrow> y < 16 \<Longrightarrow> unat (cm_utf8_ones ! unat c) = Suc 2"
  "unat c = 0xF0 + y \<Longrightarrow> y < 8 \<Longrightarrow> unat (cm_utf8_ones ! unat c) = Suc 3" for c :: byte
  using ones_table [of c] by simp_all

lemmas decode_lead = decode_multi [OF ones_lead(1)] decode_multi [OF ones_lead(2)]
  decode_multi [OF ones_lead(3)]

lemma decode_2:
  assumes c: "unat c = 0xC0 + y" "y < 32"
  shows "cm_utf8_decode_character (c # first) = Some (Character n rest) \<longleftrightarrow>
    (\<exists>k. is_cont k \<and> first = k # rest \<and> unat n = y * 64 + unat k mod 64)
    \<and> 0x80 \<le> unat n \<and> scalar_value (unat n)"
proof -
  have m: "cm_utf8_mask ! Suc 1 = 0x1F" "unat (cm_utf8_min ! Suc 1) = 0x80"
    by (simp_all add: cm_utf8_mask_def cm_utf8_min_def push_bit_eq_mult)
  have "unat (foldl utf8_step (ucast (c AND 0x1F)) [k]) = y * 64 + unat k mod 64" for k
    using c by (subst value_2) (simp_all only: lead_mask)
  then show ?thesis
    by (subst decode_lead(1) [OF c]) (simp_all only: ex_length m word_unat_eq_iff [of n]
        word_le_nat_alt list.pred_inject append.simps simp_thms conj_assoc)
qed

lemma decode_3:
  assumes c: "unat c = 0xE0 + y" "y < 16"
  shows "cm_utf8_decode_character (c # first) = Some (Character n rest) \<longleftrightarrow>
    (\<exists>k1 k2. is_cont k1 \<and> is_cont k2 \<and> first = k1 # k2 # rest
        \<and> unat n = (y * 64 + unat k1 mod 64) * 64 + unat k2 mod 64)
    \<and> 0x800 \<le> unat n \<and> scalar_value (unat n)"
proof -
  have m: "cm_utf8_mask ! Suc 2 = 0x0F" "unat (cm_utf8_min ! Suc 2) = 0x800"
    by (simp_all add: cm_utf8_mask_def cm_utf8_min_def push_bit_eq_mult)
  have "unat (foldl utf8_step (ucast (c AND 0x0F)) [a, b])
      = (y * 64 + unat a mod 64) * 64 + unat b mod 64" for a b
    using c by (subst value_3) (simp_all only: lead_mask)
  then show ?thesis
    by (subst decode_lead(2) [OF c]) (simp_all only: ex_length m word_unat_eq_iff [of n]
        word_le_nat_alt list.pred_inject append.simps simp_thms conj_assoc)
qed

lemma decode_4:
  assumes c: "unat c = 0xF0 + y" "y < 8"
  shows "cm_utf8_decode_character (c # first) = Some (Character n rest) \<longleftrightarrow>
    (\<exists>k1 k2 k3. is_cont k1 \<and> is_cont k2 \<and> is_cont k3 \<and> first = k1 # k2 # k3 # rest
        \<and> unat n = ((y * 64 + unat k1 mod 64) * 64 + unat k2 mod 64) * 64 + unat k3 mod 64)
    \<and> 0x10000 \<le> unat n \<and> scalar_value (unat n)"
proof -
  have m: "cm_utf8_mask ! Suc 3 = 0x07" "unat (cm_utf8_min ! Suc 3) = 0x10000"
    by (simp_all add: cm_utf8_mask_def cm_utf8_min_def push_bit_eq_mult)
  have "unat (foldl utf8_step (ucast (c AND 0x07)) [a, b, d])
      = ((y * 64 + unat a mod 64) * 64 + unat b mod 64) * 64 + unat d mod 64" for a b d
    using c by (subst value_4) (simp_all only: lead_mask)
  then show ?thesis
    by (subst decode_lead(3) [OF c]) (simp_all only: ex_length m word_unat_eq_iff [of n]
        word_le_nat_alt list.pred_inject append.simps simp_thms conj_assoc)
qed

lemma ucast_back: "(ucast (ucast b :: u32) :: byte) = b"
  by (rule byte_eqI) (simp add: bit_simps)

lemma digits64: "v = (v div 64 div 64 * 64 + v div 64 mod 64) * 64 + v mod 64"
  "v = ((v div 64 div 64 div 64 * 64 + v div 64 div 64 mod 64) * 64 + v div 64 mod 64) * 64 + v mod 64"
  for v :: nat
  by (simp_all only: div_mult_mod_eq)

lemma scalar_unat: "scalar_value v \<Longrightarrow> unat (word_of_nat v :: u32) = v"
  by (simp add: scalar_value_def unat_of_nat take_bit_nat_eq_self_iff)

lemma decode_sound:
  assumes d: "cm_utf8_decode_character (c # first) = Some (Character n rest)"
  shows "scalar_value (unat n) \<and> c # first = utf8_encode (unat n) @ rest"
proof -
  consider "unat c < 0x80" | "0x80 \<le> unat c" "unat c < 0xC0" | "0xC0 \<le> unat c" "unat c < 0xE0"
    | "0xE0 \<le> unat c" "unat c < 0xF0" | "0xF0 \<le> unat c" "unat c < 0xF8" | "0xF8 \<le> unat c"
    by linarith
  then show ?thesis
  proof cases
    case 1
    with d decode_single [OF 1, of first] show ?thesis
      by (auto simp: scalar_value_def utf8_encode_def ucast_back)
  next
    case 2
    with d ones_table [of c] show ?thesis by (simp add: cm_utf8_decode_character.simps(2))
  next
    case 3
    then obtain y where y: "unat c = 0xC0 + y" "y < 32" by (auto dest!: le_Suc_ex)
    with d obtain k where "is_cont k" "first = k # rest" "unat n = y * 64 + unat k mod 64"
      "0x80 \<le> unat n" "scalar_value (unat n)"
      unfolding decode_2 [OF y] by blast
    with encode_2 [OF y, of k] show ?thesis by simp
  next
    case 4
    then obtain y where y: "unat c = 0xE0 + y" "y < 16" by (auto dest!: le_Suc_ex)
    with d obtain k1 k2 where "is_cont k1" "is_cont k2" "first = k1 # k2 # rest"
      "unat n = (y * 64 + unat k1 mod 64) * 64 + unat k2 mod 64"
      "0x800 \<le> unat n" "scalar_value (unat n)"
      unfolding decode_3 [OF y] by blast
    with encode_3 [OF y, of k1 k2 "unat n"] show ?thesis by simp
  next
    case 5
    then obtain y where y: "unat c = 0xF0 + y" "y < 8" by (auto dest!: le_Suc_ex)
    with d obtain k1 k2 k3 where "is_cont k1" "is_cont k2" "is_cont k3" "first = k1 # k2 # k3 # rest"
      "unat n = ((y * 64 + unat k1 mod 64) * 64 + unat k2 mod 64) * 64 + unat k3 mod 64"
      "0x10000 \<le> unat n" "scalar_value (unat n)"
      unfolding decode_4 [OF y] by blast
    with encode_4 [OF y, of k1 k2 k3 "unat n"] show ?thesis by simp
  next
    case 6
    with d show ?thesis by (simp add: decode_long)
  qed
qed

lemma ucast_nat_byte: "v < 256 \<Longrightarrow> (ucast (word_of_nat v :: byte) :: u32) = word_of_nat v"
  by (simp add: word_unat_eq_iff unat_of_nat take_bit_nat_eq_self_iff)

lemma decode_utf8_encode:
  assumes s: "scalar_value v"
  shows "cm_utf8_decode_character (utf8_encode v @ rest) = Some (Character (word_of_nat v) rest)"
proof -
  have v: "unat (word_of_nat v :: u32) = v" using s by (rule scalar_unat)
  have hi: "v < 0x110000" using s by (simp add: scalar_value_def)
  consider "v < 0x80" | "0x80 \<le> v" "v < 0x800" | "0x800 \<le> v" "v < 0x10000" | "0x10000 \<le> v"
    by linarith
  then show ?thesis
  proof cases
    case 1
    then show ?thesis
      using decode_single [of "word_of_nat v" rest]
      by (simp add: utf8_encode_def unat_of_nat take_bit_nat_eq_self_iff ucast_nat_byte)
  next
    case 2
    have c: "unat (word_of_nat (0xC0 + v div 64) :: byte) = 0xC0 + v div 64" "v div 64 < 32"
      using 2 by (simp_all add: unat_lead less_mult_imp_div_less del: of_nat_add)
    show ?thesis
      using 2 s decode_2 [OF c, of "[continuation v] @ rest" "word_of_nat v" rest]
      by (simp add: utf8_encode_def v del: of_nat_add)
  next
    case 3
    have c: "unat (word_of_nat (0xE0 + v div 64 div 64) :: byte) = 0xE0 + v div 64 div 64"
      "v div 64 div 64 < 16"
      using 3 by (simp_all add: unat_lead less_mult_imp_div_less del: of_nat_add)
    have "cm_utf8_decode_character (word_of_nat (0xE0 + v div 64 div 64) # continuation (v div 64)
        # continuation v # rest) = Some (Character (word_of_nat v) rest)"
      unfolding decode_3 [OF c] v
      by (rule conjI, rule exI [of _ "continuation (v div 64)"], rule exI [of _ "continuation v"],
          unfold continuation_bits, intro conjI is_cont_continuation refl, rule digits64(1))
        (use 3 s in simp_all)
    then show ?thesis
      using 3 by (simp add: utf8_encode_def del: of_nat_add)
  next
    case 4
    have c: "unat (word_of_nat (0xF0 + v div 64 div 64 div 64) :: byte) = 0xF0 + v div 64 div 64 div 64"
      "v div 64 div 64 div 64 < 8"
      using hi by (simp_all add: unat_lead less_mult_imp_div_less del: of_nat_add)
    have "cm_utf8_decode_character (word_of_nat (0xF0 + v div 64 div 64 div 64)
        # continuation (v div 64 div 64) # continuation (v div 64) # continuation v # rest)
      = Some (Character (word_of_nat v) rest)"
      unfolding decode_4 [OF c] v
      by (rule conjI, rule exI [of _ "continuation (v div 64 div 64)"],
          rule exI [of _ "continuation (v div 64)"], rule exI [of _ "continuation v"],
          unfold continuation_bits, intro conjI is_cont_continuation refl, rule digits64(2))
        (use 4 s in simp_all)
    then show ?thesis
      using 4 by (simp add: utf8_encode_def del: of_nat_add)
  qed
qed


lemma utf8_encode_nonempty [simp]: "utf8_encode n \<noteq> []"
  by (simp add: utf8_encode_def)

lemma decode_defined: "bs \<noteq> [] \<Longrightarrow> \<exists>d. cm_utf8_decode_character bs = Some d"
  by (cases bs) (simp_all add: cm_utf8_decode_character.simps(2))

lemma decode_iff:
  "cm_utf8_decode_character bs = Some (Character n rest)
     \<longleftrightarrow> scalar_value (unat n) \<and> bs = utf8_encode (unat n) @ rest"
proof
  assume d: "cm_utf8_decode_character bs = Some (Character n rest)"
  then show "scalar_value (unat n) \<and> bs = utf8_encode (unat n) @ rest"
    by (cases bs) (auto dest: decode_sound)
next
  assume "scalar_value (unat n) \<and> bs = utf8_encode (unat n) @ rest"
  then show "cm_utf8_decode_character bs = Some (Character n rest)"
    using decode_utf8_encode [of "unat n" rest] by simp
qed

text \<open>C37. On a non-empty range the decoder returns, and it returns a character exactly on the RFC 3629 encoding of a Unicode scalar
  value (in its shortest form: no surrogate, nothing above 0x10FFFF), and then that value and
  the bytes after it.\<close>

theorem decode_character_rfc3629:
  "(\<exists>d. cm_utf8_decode_character (b # bs) = Some d) \<and>
   (cm_utf8_decode_character (b # bs) = Some (Character n rest)
     \<longleftrightarrow> scalar_value (unat n) \<and> b # bs = utf8_encode (unat n) @ rest)"
  by (simp add: decode_iff decode_defined)

text \<open>The decoder and the encoding are a prefix code; what it says of sequences is inherited.\<close>

definition utf8_next :: "byte list \<Rightarrow> (u32 \<times> byte list) option" where
  "utf8_next bs = (case cm_utf8_decode_character bs of
     Some (Character n rest) \<Rightarrow> Some (n, rest) | _ \<Rightarrow> None)"

lemma utf8_next_Some:
  "utf8_next bs = Some (n, rest) \<longleftrightarrow> cm_utf8_decode_character bs = Some (Character n rest)"
  by (auto simp: utf8_next_def split: option.splits decoded.splits)

interpretation utf8: prefix_code utf8_next "\<lambda>v :: u32. utf8_encode (unat v)" "\<lambda>v. scalar_value (unat v)"
  by unfold_locales (simp_all add: utf8_next_Some decode_iff)

lemma valid_loop_iff:
  "cm_utf8_is_valid_loop bs = Some
     (if \<exists>vs. list_all (\<lambda>v. scalar_value (unat v)) vs \<and> bs = concat (map (\<lambda>v :: u32. utf8_encode (unat v)) vs)
      then 1 else 0)"
proof (induction bs rule: cm_utf8_is_valid_loop.induct)
  case (1 bs)
  show ?case
  proof (cases "bs = []")
    case True
    then show ?thesis
      by (subst cm_utf8_is_valid_loop.simps) (auto intro: exI [of _ "[]"])
  next
    case False
    then obtain d where d: "cm_utf8_decode_character bs = Some d"
      using decode_defined by blast
    then show ?thesis
      using 1 False utf8.encodings_step [OF False]
      by (subst cm_utf8_is_valid_loop.simps) (cases d; simp add: utf8_next_Some)
  qed
qed

text \<open>The validity check returns on every terminated string: with 1 exactly when the bytes
  before the terminator are the RFC 3629 encoding of a sequence of Unicode scalar values, which
  is then unique, and with 0 otherwise.\<close>

theorem is_valid_iff_encodings:
  assumes "c_string s = Some str"
  shows "cm_utf8_is_valid (Some s) =
    Some (if \<exists>!vs. list_all (\<lambda>v. scalar_value (unat v)) vs
               \<and> str = concat (map (\<lambda>v :: u32. utf8_encode (unat v)) vs)
          then 1 else 0)"
  using assms utf8.unique_encodings [of str] by (simp add: cm_utf8_is_valid_def valid_loop_iff)

theorem is_valid_iff_encodings_witness:
  "cm_utf8_is_valid (Some [0xE2, 0x82, 0xAC, 0x41, 0, 0xFF]) = Some 1"
proof -
  have "list_all (\<lambda>v. scalar_value (unat v)) [0x20AC, 0x41 :: u32]
      \<and> [0xE2, 0x82, 0xAC, 0x41] = concat (map (\<lambda>v :: u32. utf8_encode (unat v)) [0x20AC, 0x41 :: u32])"
    by (simp add: scalar_value_def utf8_encode_def continuation_def)
  then have "\<exists>!vs. list_all (\<lambda>v. scalar_value (unat v)) vs
      \<and> [0xE2, 0x82, 0xAC, 0x41] = concat (map (\<lambda>v :: u32. utf8_encode (unat v)) vs)"
    unfolding utf8.unique_encodings by (rule exI)
  moreover have "c_string [0xE2, 0x82, 0xAC, 0x41, 0, 0xFF] = Some [0xE2, 0x82, 0xAC, 0x41]"
    by code_simp
  ultimately show ?thesis
    using is_valid_iff_encodings [of "[0xE2, 0x82, 0xAC, 0x41, 0, 0xFF]" "[0xE2, 0x82, 0xAC, 0x41]"]
    by simp
qed


end
