(* ===== verification/CString.thy ===== *)
theory CString
  imports Prelude
begin

text \<open>
  \<^verbatim>\<open>Source/kwsys/String.c\<close>: the case-insensitive comparisons of kwsys, in the portable
  implementation (the branch without \<open>_stricmp\<close> and \<open>strcasecmp\<close>).  A string is the memory
  from its pointer on; reading past it is \<^term>\<open>None\<close>.  Whether a plain \<open>char\<close>, the type of
  the table's entries, is signed is up to the compiler: the parameter \<open>sc\<close>.

  The lemmas show that the comparisons return on terminated strings, that they are the
  lexicographic order of the lower-cased characters, and that the bounded one compares prefixes.
\<close>

section \<open>The code\<close>

definition kwsysString_strcasecmp_tolower :: "byte list" where
  "kwsysString_strcasecmp_tolower = [
     0x00, 0x01, 0x02, 0x03, 0x04, 0x05, 0x06, 0x07, 0x08, 0x09, 0x0A, 0x0B, 0x0C, 0x0D, 0x0E, 0x0F,
     0x10, 0x11, 0x12, 0x13, 0x14, 0x15, 0x16, 0x17, 0x18, 0x19, 0x1A, 0x1B, 0x1C, 0x1D, 0x1E, 0x1F,
     0x20, 0x21, 0x22, 0x23, 0x24, 0x25, 0x26, 0x27, 0x28, 0x29, 0x2A, 0x2B, 0x2C, 0x2D, 0x2E, 0x2F,
     0x30, 0x31, 0x32, 0x33, 0x34, 0x35, 0x36, 0x37, 0x38, 0x39, 0x3A, 0x3B, 0x3C, 0x3D, 0x3E, 0x3F,
     0x40, 0x61, 0x62, 0x63, 0x64, 0x65, 0x66, 0x67, 0x68, 0x69, 0x6A, 0x6B, 0x6C, 0x6D, 0x6E, 0x6F,
     0x70, 0x71, 0x72, 0x73, 0x74, 0x75, 0x76, 0x77, 0x78, 0x79, 0x7A, 0x5B, 0x5C, 0x5D, 0x5E, 0x5F,
     0x60, 0x61, 0x62, 0x63, 0x64, 0x65, 0x66, 0x67, 0x68, 0x69, 0x6A, 0x6B, 0x6C, 0x6D, 0x6E, 0x6F,
     0x70, 0x71, 0x72, 0x73, 0x74, 0x75, 0x76, 0x77, 0x78, 0x79, 0x7A, 0x7B, 0x7C, 0x7D, 0x7E, 0x7F,
     0x80, 0x81, 0x82, 0x83, 0x84, 0x85, 0x86, 0x87, 0x88, 0x89, 0x8A, 0x8B, 0x8C, 0x8D, 0x8E, 0x8F,
     0x90, 0x91, 0x92, 0x93, 0x94, 0x95, 0x96, 0x97, 0x98, 0x99, 0x9A, 0x9B, 0x9C, 0x9D, 0x9E, 0x9F,
     0xA0, 0xA1, 0xA2, 0xA3, 0xA4, 0xA5, 0xA6, 0xA7, 0xA8, 0xA9, 0xAA, 0xAB, 0xAC, 0xAD, 0xAE, 0xAF,
     0xB0, 0xB1, 0xB2, 0xB3, 0xB4, 0xB5, 0xB6, 0xB7, 0xB8, 0xB9, 0xBA, 0xBB, 0xBC, 0xBD, 0xBE, 0xBF,
     0xC0, 0xC1, 0xC2, 0xC3, 0xC4, 0xC5, 0xC6, 0xC7, 0xC8, 0xC9, 0xCA, 0xCB, 0xCC, 0xCD, 0xCE, 0xCF,
     0xD0, 0xD1, 0xD2, 0xD3, 0xD4, 0xD5, 0xD6, 0xD7, 0xD8, 0xD9, 0xDA, 0xDB, 0xDC, 0xDD, 0xDE, 0xDF,
     0xE0, 0xE1, 0xE2, 0xE3, 0xE4, 0xE5, 0xE6, 0xE7, 0xE8, 0xE9, 0xEA, 0xEB, 0xEC, 0xED, 0xEE, 0xEF,
     0xF0, 0xF1, 0xF2, 0xF3, 0xF4, 0xF5, 0xF6, 0xF7, 0xF8, 0xF9, 0xFA, 0xFB, 0xFC, 0xFD, 0xFE, 0xFF]"

definition lower :: "bool \<Rightarrow> byte \<Rightarrow> int" where
  "lower sc c = (let v = kwsysString_strcasecmp_tolower ! unat c in if sc then sint v else uint v)"

fun kwsysString_strcasecmp :: "bool \<Rightarrow> byte list \<Rightarrow> byte list \<Rightarrow> int option" where
  "kwsysString_strcasecmp sc (c1 # us1) (c2 # us2) =
     (let result = lower sc c1 - lower sc c2
      in if result = 0 \<and> c1 \<noteq> 0 then kwsysString_strcasecmp sc us1 us2 else Some result)"
| "kwsysString_strcasecmp sc _ _ = None"

text \<open>The loop of \<open>kwsysString_strncasecmp\<close>, with \<open>result\<close> as it stands.\<close>

fun kwsysString_strncasecmp_loop :: "bool \<Rightarrow> int \<Rightarrow> byte list \<Rightarrow> byte list \<Rightarrow> nat \<Rightarrow> int option" where
  "kwsysString_strncasecmp_loop sc result us1 us2 0 = Some result"
| "kwsysString_strncasecmp_loop sc result (c1 # us1) (c2 # us2) (Suc n) =
     (let result = lower sc c1 - lower sc c2
      in if result = 0 \<and> c1 \<noteq> 0 then kwsysString_strncasecmp_loop sc result us1 us2 n
         else Some result)"
| "kwsysString_strncasecmp_loop sc result _ _ (Suc n) = None"

definition kwsysString_strncasecmp :: "bool \<Rightarrow> byte list \<Rightarrow> byte list \<Rightarrow> nat \<Rightarrow> int option" where
  "kwsysString_strncasecmp sc lhs rhs n = kwsysString_strncasecmp_loop sc 0 lhs rhs n"

section \<open>The table\<close>

lemma tolower_table: "kwsysString_strcasecmp_tolower ! unat c = ascii_lower c"
proof -
  have "list_all (\<lambda>i. kwsysString_strcasecmp_tolower ! i = ascii_lower (word_of_nat i)) [0..<256]"
    by code_simp
  then have "\<forall>i<256. kwsysString_strcasecmp_tolower ! i = ascii_lower (word_of_nat i)"
    unfolding list_all_upt_conv .
  from this [rule_format, OF unat_byte_less, of c] show ?thesis by simp
qed

lemma lower_eq_iff: "lower sc c = lower sc d \<longleftrightarrow> ascii_lower c = ascii_lower d"
  by (simp add: lower_def tolower_table Let_def word_eq_iff_signed [symmetric] word_eq_iff_unsigned [symmetric])

lemma ascii_lower_zero: "ascii_lower c = ascii_lower 0 \<longleftrightarrow> c = 0"
proof -
  have "list_all (\<lambda>i. ascii_lower (word_of_nat i) = ascii_lower 0 \<longleftrightarrow> (word_of_nat i :: byte) = 0) [0..<256]"
    by code_simp
  then have "\<forall>i<256. ascii_lower (word_of_nat i) = ascii_lower 0 \<longleftrightarrow> (word_of_nat i :: byte) = 0"
    unfolding list_all_upt_conv .
  from this [rule_format, OF unat_byte_less, of c] show ?thesis by simp
qed

lemma lower_zero [simp]: "lower sc c = lower sc 0 \<longleftrightarrow> c = 0" "lower sc 0 = lower sc c \<longleftrightarrow> c = 0"
  using ascii_lower_zero [of c] by (auto simp: lower_eq_iff dest: sym)

lemma ascii_lower_zero_iff [simp]: "ascii_lower c = 0 \<longleftrightarrow> c = 0"
  using ascii_lower_zero [of c] by (simp add: ascii_lower_def split: if_splits)

section \<open>The comparisons\<close>

text \<open>The order they implement: the keys of the characters, the terminator included.\<close>

definition char_keys :: "bool \<Rightarrow> byte list \<Rightarrow> int list" where
  "char_keys sc str = map (lower sc) (str @ [0])"

lemma strcasecmp_spec:
  "0 \<notin> set a \<Longrightarrow> 0 \<notin> set b \<Longrightarrow>
   \<exists>r. kwsysString_strcasecmp sc (a @ 0 # x) (b @ 0 # y) = Some r
     \<and> (r = 0 \<longleftrightarrow> map ascii_lower a = map ascii_lower b)
     \<and> (r < 0 \<longleftrightarrow> ord_class.lexordp (char_keys sc a) (char_keys sc b))"
proof (induction a arbitrary: b)
  case Nil
  then show ?case
    by (cases b) (auto simp: char_keys_def Let_def not_less less_le)
next
  case (Cons c a)
  show ?case
  proof (cases b)
    case Nil
    with Cons.prems show ?thesis
      by (auto simp: char_keys_def Let_def not_less less_le)
  next
    case (Cons d b')
    show ?thesis
    proof (cases "lower sc c = lower sc d")
      case True
      moreover from this have "ascii_lower c = ascii_lower d" by (simp only: lower_eq_iff)
      ultimately show ?thesis
        using Cons Cons.IH [of b'] Cons.prems by (auto simp: char_keys_def Let_def)
    next
      case False
      moreover from this have "ascii_lower c \<noteq> ascii_lower d" by (simp only: lower_eq_iff simp_thms)
      ultimately show ?thesis
        using Cons by (auto simp: char_keys_def Let_def)
    qed
  qed
qed

lemma strncasecmp_take:
  "0 \<notin> set a \<Longrightarrow> 0 \<notin> set b \<Longrightarrow>
   kwsysString_strncasecmp_loop sc 0 (a @ 0 # x) (b @ 0 # y) n
     = kwsysString_strcasecmp sc (take n a @ 0 # x) (take n b @ 0 # y)"
proof (induction a arbitrary: b n)
  case Nil
  then show ?case by (cases n; cases b) (auto simp: Let_def)
next
  case (Cons c a)
  then show ?case by (cases n; cases b) (auto simp: Let_def)
qed

lemma strcasecmp_same_rest:
  "0 \<notin> set a \<Longrightarrow> 0 \<notin> set b \<Longrightarrow>
   kwsysString_strcasecmp sc (a @ 0 # x) (b @ 0 # y) = kwsysString_strcasecmp sc (a @ [0]) (b @ [0])"
proof (induction a arbitrary: b)
  case Nil
  then show ?case by (cases b) (auto simp: Let_def)
next
  case (Cons c a)
  then show ?case by (cases b) (auto simp: Let_def)
qed

text \<open>On terminated strings \<open>strcasecmp\<close> returns; its result is zero exactly when the strings
  agree up to the case of ASCII letters, and negative exactly when the first comes before the
  second in the lexicographic order of the lower-cased characters (read as plain \<open>char\<close>).\<close>

theorem strcasecmp_order:
  assumes "c_string lhs = Some a" and "c_string rhs = Some b"
  shows "\<exists>r. kwsysString_strcasecmp sc lhs rhs = Some r
     \<and> (r = 0 \<longleftrightarrow> map ascii_lower a = map ascii_lower b)
     \<and> (r < 0 \<longleftrightarrow> ord_class.lexordp (char_keys sc a) (char_keys sc b))"
  using assms strcasecmp_spec by (auto simp: c_string_iff)

theorem strcasecmp_order_witness:
  "\<exists>r. kwsysString_strcasecmp True [0x41, 0x62, 0] [0x61, 0x42, 0x43, 0] = Some r
     \<and> (r = 0 \<longleftrightarrow> map ascii_lower [0x41, 0x62] = map ascii_lower [0x61, 0x42, 0x43])
     \<and> (r < 0 \<longleftrightarrow> ord_class.lexordp (char_keys True [0x41, 0x62]) (char_keys True [0x61, 0x42, 0x43]))"
  by (rule strcasecmp_order) simp_all

text \<open>On terminated strings \<open>strncasecmp\<close> returns what \<open>strcasecmp\<close> returns on their first
  \<open>n\<close> characters.\<close>

theorem strncasecmp_prefix:
  assumes "c_string lhs = Some a" and "c_string rhs = Some b"
  shows "kwsysString_strncasecmp sc lhs rhs n
     = kwsysString_strcasecmp sc (take n a @ [0]) (take n b @ [0])
   \<and> kwsysString_strncasecmp sc lhs rhs n \<noteq> None"
proof -
  obtain x y where s: "lhs = a @ 0 # x" "rhs = b @ 0 # y" "0 \<notin> set a" "0 \<notin> set b"
    using assms by (auto simp: c_string_iff)
  then have t: "0 \<notin> set (take n a)" "0 \<notin> set (take n b)"
    by (auto dest: in_set_takeD)
  show ?thesis
    using strcasecmp_spec [OF t, of sc "[]" "[]"] s strcasecmp_same_rest [OF t, of sc x y]
    by (auto simp: kwsysString_strncasecmp_def strncasecmp_take)
qed

theorem strncasecmp_prefix_witness:
  "kwsysString_strncasecmp False [0x41, 0x62, 0] [0x61, 0x43, 0] 1
     = kwsysString_strcasecmp False (take 1 [0x41, 0x62] @ [0]) (take 1 [0x61, 0x43] @ [0])
   \<and> kwsysString_strncasecmp False [0x41, 0x62, 0] [0x61, 0x43, 0] 1 \<noteq> None"
  by (rule strncasecmp_prefix) simp_all

end
