(* ===== verification/SystemParse.thy ===== *)
theory SystemParse
  imports Prelude "HOL-Library.Multiset"
begin

text \<open>
  \<^verbatim>\<open>Source/kwsys/System.c\<close>: splitting a command line the way a UNIX shell does.  The two
  temporary arrays of the C function (characters of the current argument, pointers to the
  finished ones) start as local arrays and move to the heap when they are full; both are a
  \<open>gbuf\<close>.  A pointer to a finished argument is its heap block with the bytes stored there.
  Undefined behaviour (a store outside an array, a free of what is not a live block, signed
  overflow of a size) is \<^term>\<open>None\<close>; the inner option of the result is the null pointer.

  The lemmas show: for commands of less than a gigabyte there is no undefined behaviour
  whatever allocations fail; a failure returns the null pointer with every block released; a
  success returns exactly the arguments of the functional specification \<open>unix_arguments\<close> and
  owns exactly their blocks; quoting arguments for this splitter round-trips.
\<close>

section \<open>The code\<close>

record 'a gbuf =
  owner :: "nat option"
  data :: "'a list"
  cap :: nat

definition INT_MAX :: nat where
  "INT_MAX = 2 ^ 31 - 1"

text \<open>\<open>*end++ = x\<close>\<close>

definition gbuf_store :: "'a gbuf \<Rightarrow> 'a \<Rightarrow> 'a gbuf option" where
  "gbuf_store b x = (if length (data b) < cap b then Some (b\<lparr>data := data b @ [x]\<rparr>) else None)"

text \<open>The first half of \<open>AppendByte\<close>; the size is doubled as an \<open>int\<close> before the allocation.\<close>

definition reserve_byte :: "malloc_ok \<Rightarrow> byte gbuf \<Rightarrow> heap \<Rightarrow> (bool \<times> byte gbuf \<times> heap) option" where
  "reserve_byte ok b h =
     (if length (data b) \<ge> cap b
      then if 2 * cap b > INT_MAX then None
      else case malloc ok (2 * cap b) h of
             (None, h) \<Rightarrow> Some (False, b, h)
           | (Some newBuffer, h) \<Rightarrow>
               if length (data b) > 2 * cap b then None
               else do { h \<leftarrow> free_opt (owner b) h;
                         Some (True, b\<lparr>owner := Some newBuffer, cap := 2 * cap b\<rparr>, h) }
      else Some (True, b, h))"

definition kwsysSystem__AppendByte ::
  "malloc_ok \<Rightarrow> byte gbuf \<Rightarrow> byte \<Rightarrow> heap \<Rightarrow> (bool \<times> byte gbuf \<times> heap) option" where
  "kwsysSystem__AppendByte ok b c h =
     do { (r, b, h) \<leftarrow> reserve_byte ok b h;
          if r then do { b \<leftarrow> gbuf_store b c; Some (True, b, h) } else Some (False, b, h) }"

text \<open>A pointer to an argument: its block and what was copied into it.\<close>

type_synonym arg = "nat \<times> byte list"

text \<open>
  The middle of \<open>AppendArgument\<close>: here the byte count is computed as a \<open>size_t\<close> and the \<open>int\<close>
  is doubled after the allocation.
\<close>

definition reserve_pointer :: "malloc_ok \<Rightarrow> arg gbuf \<Rightarrow> heap \<Rightarrow> (bool \<times> arg gbuf \<times> heap) option" where
  "reserve_pointer ok b h =
     (if length (data b) \<ge> cap b
      then case malloc ok (cap b * 2 * 8) h of
             (None, h) \<Rightarrow> Some (False, b, h)
           | (Some newPointers, h) \<Rightarrow>
               if length (data b) > 2 * cap b then None
               else do { h \<leftarrow> free_opt (owner b) h;
                         if 2 * cap b > INT_MAX then None
                         else Some (True, b\<lparr>owner := Some newPointers, cap := 2 * cap b\<rparr>, h) }
      else Some (True, b, h))"

definition kwsysSystem__AppendArgument ::
  "malloc_ok \<Rightarrow> arg gbuf \<Rightarrow> byte gbuf \<Rightarrow> heap \<Rightarrow> (bool \<times> arg gbuf \<times> byte gbuf \<times> heap) option" where
  "kwsysSystem__AppendArgument ok ptrs buf h =
     do { (r, buf, h) \<leftarrow> kwsysSystem__AppendByte ok buf 0 h;
          if \<not> r then Some (False, ptrs, buf, h)
          else do { (r, ptrs, h) \<leftarrow> reserve_pointer ok ptrs h;
                    if \<not> r then Some (False, ptrs, buf, h)
                    else if length (data ptrs) \<ge> cap ptrs then None
                    else case malloc ok (length (data buf)) h of
                           (None, h) \<Rightarrow> Some (False, ptrs, buf, h)
                         | (Some p, h) \<Rightarrow>
                             do { ptrs \<leftarrow> gbuf_store ptrs (p, data buf);
                                  Some (True, ptrs, buf\<lparr>data := []\<rparr>, h) } } }"

definition KWSYSPE_LOCAL_BYTE_COUNT :: nat where
  "KWSYSPE_LOCAL_BYTE_COUNT = 1024"

definition KWSYSPE_LOCAL_ARGS_COUNT :: nat where
  "KWSYSPE_LOCAL_ARGS_COUNT = 32"

record parser =
  pointers :: "arg gbuf"
  buffer :: "byte gbuf"
  in_argument :: bool
  in_escape :: bool
  in_single :: bool
  in_double :: bool
  failed :: bool

definition parser_init :: parser where
  "parser_init =
     \<lparr>pointers = \<lparr>owner = None, data = [], cap = KWSYSPE_LOCAL_ARGS_COUNT\<rparr>,
      buffer = \<lparr>owner = None, data = [], cap = KWSYSPE_LOCAL_BYTE_COUNT\<rparr>,
      in_argument = False, in_escape = False, in_single = False, in_double = False,
      failed = False\<rparr>"

text \<open>\<open>isspace\<close> in the C locale.\<close>

definition isspace :: "byte \<Rightarrow> bool" where
  "isspace c \<longleftrightarrow> c = 0x20 \<or> (0x09 \<le> c \<and> c \<le> 0x0D)"

definition parse_append :: "malloc_ok \<Rightarrow> byte \<Rightarrow> parser \<Rightarrow> heap \<Rightarrow> (parser \<times> heap) option" where
  "parse_append ok c p h =
     do { (r, buf, h) \<leftarrow> kwsysSystem__AppendByte ok (buffer p) c h;
          Some (p\<lparr>buffer := buf, failed := \<not> r\<rparr>, h) }"

definition parse_finish :: "malloc_ok \<Rightarrow> parser \<Rightarrow> heap \<Rightarrow> (parser \<times> heap) option" where
  "parse_finish ok p h =
     do { (r, ptrs, buf, h) \<leftarrow> kwsysSystem__AppendArgument ok (pointers p) (buffer p) h;
          Some (p\<lparr>pointers := ptrs, buffer := buf, failed := failed p \<or> \<not> r\<rparr>, h) }"

text \<open>The body of the loop for the character \<open>c\<close>; \<open>failed\<close> in the result is the \<open>break\<close>.\<close>

definition parse_char :: "malloc_ok \<Rightarrow> byte \<Rightarrow> parser \<Rightarrow> heap \<Rightarrow> (parser \<times> heap) option" where
  "parse_char ok c p h =
     (if in_escape p
      then do { (p, h) \<leftarrow> parse_append ok c (p\<lparr>in_argument := True\<rparr>) h;
                Some (if failed p then p else p\<lparr>in_escape := False\<rparr>, h) }
      else if c = 0x5C then Some (p\<lparr>in_escape := True\<rparr>, h)
      else if c = 0x27 \<and> \<not> in_double p
      then Some (if in_single p then p\<lparr>in_single := False\<rparr>
                 else p\<lparr>in_single := True, in_argument := True\<rparr>, h)
      else if c = 0x22 \<and> \<not> in_single p
      then Some (if in_double p then p\<lparr>in_double := False\<rparr>
                 else p\<lparr>in_double := True, in_argument := True\<rparr>, h)
      else if isspace c
      then if in_argument p
           then if in_single p \<or> in_double p then parse_append ok c p h
                else do { (p, h) \<leftarrow> parse_finish ok p h;
                          Some (if failed p then p else p\<lparr>in_argument := False\<rparr>, h) }
           else Some (p, h)
      else parse_append ok c (p\<lparr>in_argument := True\<rparr>) h)"

fun parse_loop :: "malloc_ok \<Rightarrow> byte list \<Rightarrow> parser \<Rightarrow> heap \<Rightarrow> (parser \<times> heap) option" where
  "parse_loop ok [] p h = None"
| "parse_loop ok (c # s) p h =
     (if c = 0 then Some (p, h)
      else do { (p, h) \<leftarrow> parse_char ok c p h;
                if failed p then Some (p, h) else parse_loop ok s p h })"

text \<open>\<open>while (pointer_end != pointer_begin) free (*(--pointer_end))\<close>\<close>

fun free_all :: "nat list \<Rightarrow> heap \<Rightarrow> heap option" where
  "free_all [] h = Some h"
| "free_all (p # ps) h = do { h \<leftarrow> free p h; free_all ps h }"

text \<open>
  The result is the null pointer or the block of the array with the arguments it points to (the
  array ends with a null pointer).
\<close>

definition kwsysSystem__ParseUnixCommand ::
  "malloc_ok \<Rightarrow> byte list \<Rightarrow> heap \<Rightarrow> ((nat \<times> arg list) option \<times> heap) option" where
  "kwsysSystem__ParseUnixCommand ok command h =
     do { (p, h) \<leftarrow> parse_loop ok command parser_init h;
          (p, h) \<leftarrow> (if in_argument p then parse_finish ok p h else Some (p, h));
          let (newCommand, h) =
            (if failed p then (None, h) else malloc ok ((length (data (pointers p)) + 1) * 8) h);
          h \<leftarrow> (case newCommand of
                  Some _ \<Rightarrow> Some h
                | None \<Rightarrow> free_all (rev (map fst (data (pointers p)))) h);
          h \<leftarrow> free_opt (owner (pointers p)) h;
          h \<leftarrow> free_opt (owner (buffer p)) h;
          Some (map_option (\<lambda>b. (b, data (pointers p))) newCommand, h) }"

definition kwsysSystem_Parse_CommandForUnix ::
  "malloc_ok \<Rightarrow> byte list \<Rightarrow> int \<Rightarrow> heap \<Rightarrow> ((nat \<times> arg list) option \<times> heap) option" where
  "kwsysSystem_Parse_CommandForUnix ok command flags h =
     (if flags \<noteq> 0 then Some (None, h) else kwsysSystem__ParseUnixCommand ok command h)"

section \<open>The functional specification\<close>

text \<open>
  The arguments of the rest of a command: after a backslash, inside single and double quotes,
  and the current argument, if there is one.
\<close>

fun unix_split :: "bool \<Rightarrow> bool \<Rightarrow> bool \<Rightarrow> byte list option \<Rightarrow> byte list \<Rightarrow> byte list list" where
  "unix_split esc sq dq cur [] = (case cur of None \<Rightarrow> [] | Some w \<Rightarrow> [w])"
| "unix_split esc sq dq cur (c # s) =
     (let word = (case cur of None \<Rightarrow> [] | Some w \<Rightarrow> w)
      in if esc then unix_split False sq dq (Some (word @ [c])) s
         else if c = 0x5C then unix_split True sq dq cur s
         else if c = 0x27 \<and> \<not> dq then unix_split False (\<not> sq) dq (Some word) s
         else if c = 0x22 \<and> \<not> sq then unix_split False sq (\<not> dq) (Some word) s
         else if isspace c \<and> \<not> sq \<and> \<not> dq
         then (case cur of None \<Rightarrow> [] | Some w \<Rightarrow> [w]) @ unix_split False sq dq None s
         else unix_split False sq dq (Some (word @ [c])) s)"

definition unix_arguments :: "byte list \<Rightarrow> byte list list" where
  "unix_arguments str = unix_split False False False None str"

section \<open>Growable buffers\<close>

definition own :: "'a gbuf \<Rightarrow> nat multiset" where
  "own b = (case owner b of None \<Rightarrow> {#} | Some p \<Rightarrow> {#p#})"

definition gbuf_ok :: "'a gbuf \<Rightarrow> bool" where
  "gbuf_ok b \<longleftrightarrow> length (data b) \<le> cap b \<and> 0 < cap b"

lemma own_simps [simp]: "own (b\<lparr>data := xs\<rparr>) = own b" "own (b\<lparr>owner := Some p, cap := n\<rparr>) = {#p#}"
  by (simp_all add: own_def)

lemma free_opt_own:
  assumes "mset (live h) = F + own b"
  obtains h' where "free_opt (owner b) h = Some h'" "mset (live h') = F" "calls h' = calls h"
proof (cases "owner b")
  case None
  with assms that [of h] show ?thesis by (simp add: free_opt_def own_def)
next
  case (Some p)
  with assms have "p \<in># mset (live h)" by (simp add: own_def)
  then have "p \<in> set (live h)" by (simp only: set_mset_mset)
  with assms Some that [of "h\<lparr>live := remove1 p (live h)\<rparr>"] show ?thesis
    by (simp add: free_opt_def free_def own_def)
qed

text \<open>
  The contract of the two places that make room in an array: the contents stay, the heap changes
  only in the array's own block, and there is room afterwards unless the allocation failed.
\<close>

locale reserving =
  fixes reserve :: "malloc_ok \<Rightarrow> 'a gbuf \<Rightarrow> heap \<Rightarrow> (bool \<times> 'a gbuf \<times> heap) option"
  assumes reserve_spec: "gbuf_ok b \<Longrightarrow> 2 * length (data b) \<le> INT_MAX \<Longrightarrow> mset (live h) = F + own b \<Longrightarrow>
    \<exists>r b' h'. reserve ok b h = Some (r, b', h') \<and> data b' = data b \<and> gbuf_ok b'
      \<and> mset (live h') = F + own b' \<and> (r \<longrightarrow> length (data b') < cap b') \<and> ((\<forall>k n. ok k n) \<longrightarrow> r)"
begin

lemma reserveE:
  assumes "gbuf_ok b" "2 * length (data b) \<le> INT_MAX" "mset (live h) = F + own b"
  obtains r b' h' where "reserve ok b h = Some (r, b', h')" "data b' = data b" "gbuf_ok b'"
    "mset (live h') = F + own b'" "r \<Longrightarrow> length (data b') < cap b'" "(\<forall>k n. ok k n) \<Longrightarrow> r"
  using reserve_spec [OF assms, of ok] by blast

lemma pushE:
  assumes "gbuf_ok b" "2 * length (data b) \<le> INT_MAX" "mset (live h) = F + own b"
  obtains r b' h' where
    "do { (r, b, h) \<leftarrow> reserve ok b h;
          if r then do { b \<leftarrow> gbuf_store b x; Some (True, b, h) } else Some (False, b, h) }
       = Some (r, b', h')"
    "data b' = (if r then data b @ [x] else data b)" "gbuf_ok b'"
    "mset (live h') = F + own b'" "(\<forall>k n. ok k n) \<Longrightarrow> r"
proof -
  obtain r b' h' where r: "reserve ok b h = Some (r, b', h')" "data b' = data b" "gbuf_ok b'"
    "mset (live h') = F + own b'" "r \<Longrightarrow> length (data b') < cap b'" "(\<forall>k n. ok k n) \<Longrightarrow> r"
    using reserve_spec [OF assms, of ok] by blast
  show ?thesis
  proof (cases r)
    case True
    with r show ?thesis
      by (intro that [of True "b'\<lparr>data := data b @ [x]\<rparr>" h']) (auto simp: gbuf_store_def gbuf_ok_def)
  next
    case False
    with r show ?thesis by (intro that [of False b' h']) auto
  qed
qed

end

lemma replace_block:
  assumes "mset (live h) = F + own b"
  obtains h' where "free_opt (owner b) (h\<lparr>calls := Suc (calls h), live := calls h # live h\<rparr>) = Some h'"
    "mset (live h') = F + {#calls h#}"
proof -
  have "mset (live (h\<lparr>calls := Suc (calls h), live := calls h # live h\<rparr>)) = (F + {#calls h#}) + own b"
    using assms by simp
  then show ?thesis by (rule free_opt_own) (rule that)
qed

lemma double_ok: "gbuf_ok b \<Longrightarrow> cap b \<le> length (data b) \<Longrightarrow> length (data b) = cap b \<and> 0 < cap b"
  by (simp add: gbuf_ok_def)

interpretation bytes: reserving reserve_byte
proof unfold_locales
  fix b :: "byte gbuf" and h :: heap and F and ok :: malloc_ok
  assume ok: "gbuf_ok b" "2 * length (data b) \<le> INT_MAX" and m: "mset (live h) = F + own b"
  obtain h2 where h2: "free_opt (owner b) (h\<lparr>calls := Suc (calls h), live := calls h # live h\<rparr>) = Some h2"
    "mset (live h2) = F + {#calls h#}"
    using m by (rule replace_block)
  show "\<exists>r b' h'. reserve_byte ok b h = Some (r, b', h') \<and> data b' = data b \<and> gbuf_ok b'
      \<and> mset (live h') = F + own b' \<and> (r \<longrightarrow> length (data b') < cap b') \<and> ((\<forall>k n. ok k n) \<longrightarrow> r)"
    using ok m h2 double_ok [OF ok(1)]
    by (cases "cap b \<le> length (data b)") (auto simp: reserve_byte_def malloc_def gbuf_ok_def)
qed

interpretation pointers: reserving reserve_pointer
proof unfold_locales
  fix b :: "arg gbuf" and h :: heap and F and ok :: malloc_ok
  assume ok: "gbuf_ok b" "2 * length (data b) \<le> INT_MAX" and m: "mset (live h) = F + own b"
  obtain h2 where h2: "free_opt (owner b) (h\<lparr>calls := Suc (calls h), live := calls h # live h\<rparr>) = Some h2"
    "mset (live h2) = F + {#calls h#}"
    using m by (rule replace_block)
  show "\<exists>r b' h'. reserve_pointer ok b h = Some (r, b', h') \<and> data b' = data b \<and> gbuf_ok b'
      \<and> mset (live h') = F + own b' \<and> (r \<longrightarrow> length (data b') < cap b') \<and> ((\<forall>k n. ok k n) \<longrightarrow> r)"
    using ok m h2 double_ok [OF ok(1)]
    by (cases "cap b \<le> length (data b)") (auto simp: reserve_pointer_def malloc_def gbuf_ok_def)
qed

lemmas AppendByteE = bytes.pushE [folded kwsysSystem__AppendByte_def]


section \<open>The parser\<close>

text \<open>Ownership and sizes after \<open>k\<close> characters; \<open>F\<close> are the blocks of everybody else.\<close>

definition owned :: "arg gbuf \<Rightarrow> byte gbuf \<Rightarrow> nat multiset" where
  "owned ptrs buf = mset (map fst (data ptrs)) + own ptrs + own buf"

definition bufs_inv :: "nat multiset \<Rightarrow> nat \<Rightarrow> arg gbuf \<Rightarrow> byte gbuf \<Rightarrow> heap \<Rightarrow> bool" where
  "bufs_inv F k ptrs buf h \<longleftrightarrow> gbuf_ok ptrs \<and> gbuf_ok buf \<and> mset (live h) = F + owned ptrs buf
     \<and> length (data ptrs) \<le> k \<and> length (data buf) \<le> k"

lemma AppendByte_inv:
  assumes "bufs_inv F k ptrs buf h" "2 * k \<le> INT_MAX"
  obtains r buf' h' where "kwsysSystem__AppendByte ok buf c h = Some (r, buf', h')"
    "data buf' = (if r then data buf @ [c] else data buf)" "bufs_inv F (Suc k) ptrs buf' h'"
    "(\<forall>k n. ok k n) \<Longrightarrow> r"
proof -
  from assms have "gbuf_ok buf" "2 * length (data buf) \<le> INT_MAX"
    "mset (live h) = (F + mset (map fst (data ptrs)) + own ptrs) + own buf"
    by (auto simp: bufs_inv_def owned_def add_ac)
  then obtain r buf' h' where "kwsysSystem__AppendByte ok buf c h = Some (r, buf', h')"
    "data buf' = (if r then data buf @ [c] else data buf)" "gbuf_ok buf'"
    "mset (live h') = (F + mset (map fst (data ptrs)) + own ptrs) + own buf'"
    "(\<forall>k n. ok k n) \<Longrightarrow> r"
    by (rule AppendByteE [of _ _ _ ok c]) blast
  with assms that [of r buf' h'] show ?thesis
    by (auto simp: bufs_inv_def owned_def add_ac)
qed

lemma AppendArgument_inv:
  assumes inv: "bufs_inv F k ptrs buf h" and k: "2 * Suc k \<le> INT_MAX"
  obtains r ptrs' buf' h' where
    "kwsysSystem__AppendArgument ok ptrs buf h = Some (r, ptrs', buf', h')"
    "bufs_inv F (Suc k) ptrs' buf' h'"
    "r \<Longrightarrow> map snd (data ptrs') = map snd (data ptrs) @ [data buf @ [0]] \<and> data buf' = []"
    "(\<forall>k n. ok k n) \<Longrightarrow> r"
proof -
  obtain r1 buf1 h1 where 1: "kwsysSystem__AppendByte ok buf 0 h = Some (r1, buf1, h1)"
    "data buf1 = (if r1 then data buf @ [0] else data buf)" "bufs_inv F (Suc k) ptrs buf1 h1"
    "(\<forall>k n. ok k n) \<Longrightarrow> r1"
    using inv k by (elim AppendByte_inv [of F k ptrs buf h ok 0]) simp_all
  show ?thesis
  proof (cases r1)
    case False
    with 1 show ?thesis
      by (intro that [of False ptrs buf1 h1]) (auto simp: kwsysSystem__AppendArgument_def)
  next
    case r1: True
    have "gbuf_ok ptrs" "2 * length (data ptrs) \<le> INT_MAX"
      "mset (live h1) = (F + mset (map fst (data ptrs)) + own buf1) + own ptrs"
      using 1(3) inv k by (auto simp: bufs_inv_def owned_def add_ac)
    then obtain r2 ptrs2 h2 where 2: "reserve_pointer ok ptrs h1 = Some (r2, ptrs2, h2)"
      "data ptrs2 = data ptrs" "gbuf_ok ptrs2"
      "mset (live h2) = (F + mset (map fst (data ptrs)) + own buf1) + own ptrs2"
      "r2 \<Longrightarrow> length (data ptrs2) < cap ptrs2" "(\<forall>k n. ok k n) \<Longrightarrow> r2"
      by (rule pointers.reserveE [of _ _ _ ok]) blast
    have inv2: "bufs_inv F (Suc k) ptrs2 buf1 h2"
      using 1(3) 2 by (auto simp: bufs_inv_def owned_def add_ac)
    show ?thesis
    proof (cases "r2 \<and> ok (calls h2) (length (data buf1))")
      case False
      with 1 2 r1 inv2 show ?thesis
        by (intro that [of False ptrs2 buf1 "if r2 then h2\<lparr>calls := Suc (calls h2)\<rparr> else h2"])
          (auto simp: kwsysSystem__AppendArgument_def malloc_def bufs_inv_def)
    next
      case True
      let ?ptrs = "ptrs2\<lparr>data := data ptrs2 @ [(calls h2, data buf1)]\<rparr>"
      let ?h = "h2\<lparr>calls := Suc (calls h2), live := calls h2 # live h2\<rparr>"
      have "kwsysSystem__AppendArgument ok ptrs buf h = Some (True, ?ptrs, buf1\<lparr>data := []\<rparr>, ?h)"
        using 1 2 r1 True by (simp add: kwsysSystem__AppendArgument_def malloc_def gbuf_store_def)
      moreover have "bufs_inv F (Suc k) ?ptrs (buf1\<lparr>data := []\<rparr>) ?h"
        using inv inv2 2 True by (auto simp: bufs_inv_def owned_def gbuf_ok_def add_ac)
      ultimately show ?thesis
        using 1 2 r1 by (intro that [of True ?ptrs "buf1\<lparr>data := []\<rparr>" ?h]) auto
    qed
  qed
qed

text \<open>What the parser will have returned when \<open>s\<close> is left.\<close>

definition result_of :: "parser \<Rightarrow> byte list \<Rightarrow> byte list list" where
  "result_of p s = map snd (data (pointers p)) @ map (\<lambda>w. w @ [0])
     (unix_split (in_escape p) (in_single p) (in_double p)
        (if in_argument p then Some (data (buffer p)) else None) s)"

definition parser_wf :: "parser \<Rightarrow> bool" where
  "parser_wf p \<longleftrightarrow> \<not> failed p \<and>
     (\<not> in_argument p \<longrightarrow> data (buffer p) = [] \<and> \<not> in_single p \<and> \<not> in_double p)"

abbreviation parser_inv :: "nat multiset \<Rightarrow> nat \<Rightarrow> parser \<Rightarrow> heap \<Rightarrow> bool" where
  "parser_inv F k p h \<equiv> bufs_inv F k (pointers p) (buffer p) h"

lemma parse_append_inv:
  assumes "parser_inv F k p h" "2 * Suc k \<le> INT_MAX"
  obtains p' h' where "parse_append ok c p h = Some (p', h')" "parser_inv F (Suc k) p' h'"
    "\<not> failed p' \<Longrightarrow> \<exists>buf. p' = p\<lparr>buffer := buf, failed := False\<rparr> \<and> data buf = data (buffer p) @ [c]"
    "(\<forall>k n. ok k n) \<Longrightarrow> \<not> failed p'"
proof -
  obtain r buf' h' where a: "kwsysSystem__AppendByte ok (buffer p) c h = Some (r, buf', h')"
    "data buf' = (if r then data (buffer p) @ [c] else data (buffer p))"
    "bufs_inv F (Suc k) (pointers p) buf' h'" "(\<forall>k n. ok k n) \<Longrightarrow> r"
    using assms by (elim AppendByte_inv [of F k _ _ h ok c]) simp_all
  show ?thesis
    by (rule that [of "p\<lparr>buffer := buf', failed := \<not> r\<rparr>" h'])
      (use a in \<open>auto simp: parse_append_def intro!: exI [of _ buf']\<close>)
qed

lemma parse_finish_inv:
  assumes "parser_inv F k p h" "2 * Suc k \<le> INT_MAX"
  obtains p' h' where "parse_finish ok p h = Some (p', h')" "parser_inv F (Suc k) p' h'"
    "\<not> failed p' \<Longrightarrow> \<not> failed p \<and> (\<exists>ptrs buf. p' = p\<lparr>pointers := ptrs, buffer := buf, failed := False\<rparr>
       \<and> map snd (data ptrs) = map snd (data (pointers p)) @ [data (buffer p) @ [0]] \<and> data buf = [])"
    "(\<forall>k n. ok k n) \<Longrightarrow> \<not> failed p \<Longrightarrow> \<not> failed p'"
proof -
  obtain r ptrs' buf' h' where a:
    "kwsysSystem__AppendArgument ok (pointers p) (buffer p) h = Some (r, ptrs', buf', h')"
    "bufs_inv F (Suc k) ptrs' buf' h'"
    "r \<Longrightarrow> map snd (data ptrs') = map snd (data (pointers p)) @ [data (buffer p) @ [0]] \<and> data buf' = []"
    "(\<forall>k n. ok k n) \<Longrightarrow> r"
    using assms by (elim AppendArgument_inv [of F k _ _ h ok]) simp_all
  show ?thesis
    by (rule that [of "p\<lparr>pointers := ptrs', buffer := buf', failed := failed p \<or> \<not> r\<rparr>" h'])
      (use a in \<open>auto simp: parse_finish_def intro!: exI [of _ ptrs'] exI [of _ buf']\<close>)
qed

lemma bufs_inv_Suc: "bufs_inv F k ptrs buf h \<Longrightarrow> bufs_inv F (Suc k) ptrs buf h"
  by (auto simp: bufs_inv_def)


lemma unix_split_plain:
  "esc \<or> (c \<noteq> 0x5C \<and> \<not> (c = 0x27 \<and> \<not> dq) \<and> \<not> (c = 0x22 \<and> \<not> sq)
      \<and> \<not> (isspace c \<and> \<not> sq \<and> \<not> dq)) \<Longrightarrow>
   unix_split esc sq dq cur (c # s)
     = unix_split False sq dq (Some ((case cur of None \<Rightarrow> [] | Some w \<Rightarrow> w) @ [c])) s"
  by (simp only: unix_split.simps Let_def split: if_split) auto

text \<open>The cases of the body that append \<open>c\<close> to the argument.\<close>

lemma parse_append_result:
  assumes inv: "parser_inv F k p h" and k: "2 * Suc k \<le> INT_MAX" and wf: "parser_wf p"
    and plain: "in_escape p \<or> (c \<noteq> 0x5C \<and> \<not> (c = 0x27 \<and> \<not> in_double p) \<and> \<not> (c = 0x22 \<and> \<not> in_single p)
      \<and> \<not> (isspace c \<and> \<not> in_single p \<and> \<not> in_double p))"
  obtains p' h' where "parse_append ok c (p\<lparr>in_argument := True\<rparr>) h = Some (p', h')" "parser_inv F (Suc k) p' h'"
    "\<not> failed p' \<Longrightarrow> parser_wf (p'\<lparr>in_escape := False\<rparr>) \<and> in_escape p' = in_escape p
       \<and> (\<forall>s. result_of (p'\<lparr>in_escape := False\<rparr>) s = result_of p (c # s))"
    "(\<forall>k n. ok k n) \<Longrightarrow> \<not> failed p'"
proof -
  let ?p = "p\<lparr>in_argument := True\<rparr>"
  obtain p' h' where a: "parse_append ok c ?p h = Some (p', h')" "parser_inv F (Suc k) p' h'"
    "\<not> failed p' \<Longrightarrow> \<exists>buf. p' = ?p\<lparr>buffer := buf, failed := False\<rparr> \<and> data buf = data (buffer ?p) @ [c]"
    "(\<forall>k n. ok k n) \<Longrightarrow> \<not> failed p'"
    by (rule parse_append_inv [of F k ?p h ok c]) (use inv k in simp_all)
  have "parser_wf (p'\<lparr>in_escape := False\<rparr>) \<and> in_escape p' = in_escape p
       \<and> (\<forall>s. result_of (p'\<lparr>in_escape := False\<rparr>) s = result_of p (c # s))" if f: "\<not> failed p'"
  proof -
    from a(3) [OF f] obtain buf where p': "p' = ?p\<lparr>buffer := buf, failed := False\<rparr>"
      "data buf = data (buffer p) @ [c]" by auto
    have "(case if in_argument p then Some (data (buffer p)) else None of None \<Rightarrow> [] | Some w \<Rightarrow> w)
        = data (buffer p)"
      using wf by (simp add: parser_wf_def)
    with p' wf unix_split_plain [OF plain] show ?thesis
      by (simp add: parser_wf_def result_of_def del: unix_split.simps)
  qed
  from that [OF a(1,2) this a(4)] show ?thesis .
qed

text \<open>The case of the white space that ends an argument.\<close>

lemma parse_finish_result:
  assumes inv: "parser_inv F k p h" and k: "2 * Suc k \<le> INT_MAX" and wf: "parser_wf p"
    and space: "\<not> in_escape p" "isspace c" "c \<noteq> 0x5C" "c \<noteq> 0x27" "c \<noteq> 0x22" "\<not> in_single p \<and> \<not> in_double p"
      "in_argument p"
  obtains p' h' where "parse_finish ok p h = Some (p', h')" "parser_inv F (Suc k) p' h'"
    "\<not> failed p' \<Longrightarrow> parser_wf (p'\<lparr>in_argument := False\<rparr>)
       \<and> (\<forall>s. result_of (p'\<lparr>in_argument := False\<rparr>) s = result_of p (c # s))"
    "(\<forall>k n. ok k n) \<Longrightarrow> \<not> failed p'"
proof -
  obtain p' h' where a: "parse_finish ok p h = Some (p', h')" "parser_inv F (Suc k) p' h'"
    "\<not> failed p' \<Longrightarrow> \<not> failed p \<and> (\<exists>ptrs buf. p' = p\<lparr>pointers := ptrs, buffer := buf, failed := False\<rparr>
       \<and> map snd (data ptrs) = map snd (data (pointers p)) @ [data (buffer p) @ [0]] \<and> data buf = [])"
    "(\<forall>k n. ok k n) \<Longrightarrow> \<not> failed p \<Longrightarrow> \<not> failed p'"
    by (rule parse_finish_inv [OF inv k, where ok = ok]) (rule that)
  have res: "parser_wf (p'\<lparr>in_argument := False\<rparr>)
       \<and> (\<forall>s. result_of (p'\<lparr>in_argument := False\<rparr>) s = result_of p (c # s))" if f: "\<not> failed p'"
  proof -
    from a(3) [OF f] obtain ptrs buf where "p' = p\<lparr>pointers := ptrs, buffer := buf, failed := False\<rparr>"
      "map snd (data ptrs) = map snd (data (pointers p)) @ [data (buffer p) @ [0]]" "data buf = []"
      by auto
    with space wf show ?thesis by (simp add: parser_wf_def result_of_def)
  qed
  have nf: "\<not> failed p" using wf by (simp add: parser_wf_def)
  from that [OF a(1,2) res a(4) [OF _ nf]] show ?thesis .
qed


lemma parser_in_argument: "in_argument p \<Longrightarrow> p\<lparr>in_argument := True\<rparr> = p"
  by (cases p) auto

lemma clear_escape: "\<not> in_escape p \<Longrightarrow> p\<lparr>in_escape := False\<rparr> = p"
  by (cases p) auto

lemma stays:
  assumes "parse_char ok c p h = Some (p', h)" "pointers p' = pointers p" "buffer p' = buffer p"
    "parser_wf p'" "\<And>s. result_of p' s = result_of p (c # s)" "parser_inv F k p h"
  shows "\<exists>p' h'. parse_char ok c p h = Some (p', h') \<and> parser_inv F (Suc k) p' h'
    \<and> (\<not> failed p' \<longrightarrow> parser_wf p' \<and> (\<forall>s. result_of p' s = result_of p (c # s)))
    \<and> ((\<forall>k n. ok k n) \<longrightarrow> \<not> failed p')"
  using assms by (intro exI [of _ p'] exI [of _ h]) (simp add: bufs_inv_Suc parser_wf_def)

lemma parse_char_inv:
  assumes inv: "parser_inv F k p h" and k: "2 * Suc k \<le> INT_MAX" and wf: "parser_wf p"
  shows "\<exists>p' h'. parse_char ok c p h = Some (p', h') \<and> parser_inv F (Suc k) p' h'
    \<and> (\<not> failed p' \<longrightarrow> parser_wf p' \<and> (\<forall>s. result_of p' s = result_of p (c # s)))
    \<and> ((\<forall>k n. ok k n) \<longrightarrow> \<not> failed p')"
proof -
  consider (escaped) "in_escape p" | (escape) "\<not> in_escape p" "c = 0x5C"
    | (single) "\<not> in_escape p" "c = 0x27" "\<not> in_double p"
    | (double) "\<not> in_escape p" "c = 0x22" "\<not> in_single p"
    | (space) "\<not> in_escape p" "isspace c" "\<not> in_single p \<and> \<not> in_double p" "c \<noteq> 0x5C" "c \<noteq> 0x27" "c \<noteq> 0x22"
    | (plain) "\<not> in_escape p" "c \<noteq> 0x5C \<and> \<not> (c = 0x27 \<and> \<not> in_double p) \<and> \<not> (c = 0x22 \<and> \<not> in_single p)
      \<and> \<not> (isspace c \<and> \<not> in_single p \<and> \<not> in_double p)"
    by blast
  then show ?thesis
  proof cases
    case escaped
    obtain p' h' where a: "parse_append ok c (p\<lparr>in_argument := True\<rparr>) h = Some (p', h')" "parser_inv F (Suc k) p' h'"
      "\<not> failed p' \<Longrightarrow> parser_wf (p'\<lparr>in_escape := False\<rparr>) \<and> in_escape p' = in_escape p
        \<and> (\<forall>s. result_of (p'\<lparr>in_escape := False\<rparr>) s = result_of p (c # s))"
      "(\<forall>k n. ok k n) \<Longrightarrow> \<not> failed p'"
      by (rule parse_append_result [OF inv k wf disjI1 [OF escaped], where ok = ok and c = c]) (rule that)
    have "parse_char ok c p h = Some (if failed p' then p' else p'\<lparr>in_escape := False\<rparr>, h')"
      using a(1) escaped by (simp add: parse_char_def)
    with a(2-4) show ?thesis
      by (intro exI [of _ "if failed p' then p' else p'\<lparr>in_escape := False\<rparr>"] exI [of _ h']) auto
  next
    case escape
    then show ?thesis
      using wf inv by (intro stays [of ok c p h "p\<lparr>in_escape := True\<rparr>"])
        (auto simp: parse_char_def parser_wf_def result_of_def)
  next
    case single
    then show ?thesis
      using wf inv by (intro stays [of ok c p h "if in_single p then p\<lparr>in_single := False\<rparr>
             else p\<lparr>in_single := True, in_argument := True\<rparr>"])
        (auto simp: parse_char_def parser_wf_def result_of_def)
  next
    case double
    then show ?thesis
      using wf inv by (intro stays [of ok c p h "if in_double p then p\<lparr>in_double := False\<rparr>
             else p\<lparr>in_double := True, in_argument := True\<rparr>"])
        (auto simp: parse_char_def parser_wf_def result_of_def)
  next
    case space
    show ?thesis
    proof (cases "in_argument p")
      case False
      with space show ?thesis
        using wf inv by (intro stays [of ok c p h p]) (auto simp: parse_char_def result_of_def)
    next
      case True
      obtain p' h' where a: "parse_finish ok p h = Some (p', h')" "parser_inv F (Suc k) p' h'"
        "\<not> failed p' \<Longrightarrow> parser_wf (p'\<lparr>in_argument := False\<rparr>)
          \<and> (\<forall>s. result_of (p'\<lparr>in_argument := False\<rparr>) s = result_of p (c # s))"
        "(\<forall>k n. ok k n) \<Longrightarrow> \<not> failed p'"
        by (rule parse_finish_result [OF inv k wf space(1,2,4,5,6,3) True, where ok = ok]) (rule that)
      have "parse_char ok c p h = Some (if failed p' then p' else p'\<lparr>in_argument := False\<rparr>, h')"
        using a(1) space True by (simp add: parse_char_def)
      with a(2-4) show ?thesis
        by (intro exI [of _ "if failed p' then p' else p'\<lparr>in_argument := False\<rparr>"] exI [of _ h']) auto
    qed
  next
    case plain
    obtain p' h' where a: "parse_append ok c (p\<lparr>in_argument := True\<rparr>) h = Some (p', h')" "parser_inv F (Suc k) p' h'"
      "\<not> failed p' \<Longrightarrow> parser_wf (p'\<lparr>in_escape := False\<rparr>) \<and> in_escape p' = in_escape p
        \<and> (\<forall>s. result_of (p'\<lparr>in_escape := False\<rparr>) s = result_of p (c # s))"
      "(\<forall>k n. ok k n) \<Longrightarrow> \<not> failed p'"
      by (rule parse_append_result [OF inv k wf disjI2 [OF plain(2)], where ok = ok]) (rule that)
    have "parse_char ok c p h = Some (p', h')"
      using a(1) plain wf by (auto simp: parse_char_def parser_in_argument parser_wf_def)
    with a(2-4) plain(1) show ?thesis
      by (intro exI [of _ p'] exI [of _ h']) (auto simp: clear_escape)
  qed
qed


lemma bufs_inv_mono: "bufs_inv F k ptrs buf h \<Longrightarrow> k \<le> m \<Longrightarrow> bufs_inv F m ptrs buf h"
  by (auto simp: bufs_inv_def)

lemma parse_loop_inv:
  assumes "parser_inv F k p h" "2 * (k + Suc (length str)) \<le> INT_MAX" "parser_wf p" "0 \<notin> set str"
  shows "\<exists>p' h'. parse_loop ok (str @ 0 # rest) p h = Some (p', h') \<and> parser_inv F (k + length str) p' h'
    \<and> (\<not> failed p' \<longrightarrow> parser_wf p' \<and> result_of p' [] = result_of p str)
    \<and> ((\<forall>k n. ok k n) \<longrightarrow> \<not> failed p')"
  using assms
proof (induction str arbitrary: k p h)
  case Nil
  then show ?case by (simp add: parser_wf_def)
next
  case (Cons c str)
  from Cons.prems have "2 * Suc k \<le> INT_MAX" by simp
  from parse_char_inv [OF Cons.prems(1) this Cons.prems(3), of ok c]
  obtain p1 h1 where 1: "parse_char ok c p h = Some (p1, h1)" "parser_inv F (Suc k) p1 h1"
    "\<not> failed p1 \<longrightarrow> parser_wf p1 \<and> (\<forall>s. result_of p1 s = result_of p (c # s))"
    "(\<forall>k n. ok k n) \<longrightarrow> \<not> failed p1"
    by blast
  show ?case
  proof (cases "failed p1")
    case True
    with 1 Cons.prems show ?thesis
      using bufs_inv_mono [OF 1(2), of "k + length (c # str)"] by auto
  next
    case False
    with 1 Cons.prems have "parser_wf p1" "2 * (Suc k + Suc (length str)) \<le> INT_MAX" "0 \<notin> set str"
      by auto
    from Cons.IH [OF 1(2) this(2,1,3)] False 1 Cons.prems show ?thesis by auto
  qed
qed

lemma free_all_owned:
  "mset (live h) = F + mset ps \<Longrightarrow> \<exists>h'. free_all ps h = Some h' \<and> mset (live h') = F"
proof (induction ps arbitrary: h)
  case (Cons p ps)
  then have "p \<in># mset (live h)" by simp
  then have "p \<in> set (live h)" by (simp only: set_mset_mset)
  with Cons.prems Cons.IH [of "h\<lparr>live := remove1 p (live h)\<rparr>"] show ?case
    by (simp add: free_def)
qed simp

text \<open>The end of the function: the last argument, the array, and what is released.\<close>

lemma parse_last_argument:
  assumes inv: "parser_inv F k p h" and k: "2 * Suc k \<le> INT_MAX" and wf: "\<not> failed p \<longrightarrow> parser_wf p"
  shows "\<exists>p' h'. (if in_argument p then parse_finish ok p h else Some (p, h)) = Some (p', h')
    \<and> parser_inv F (Suc k) p' h'
    \<and> (\<not> failed p' \<longrightarrow> \<not> failed p \<and> map snd (data (pointers p')) = result_of p [])
    \<and> ((\<forall>k n. ok k n) \<longrightarrow> \<not> failed p \<longrightarrow> \<not> failed p')"
proof (cases "in_argument p")
  case False
  then show ?thesis using inv wf bufs_inv_Suc by (auto simp: result_of_def)
next
  case True
  obtain p' h' where a: "parse_finish ok p h = Some (p', h')" "parser_inv F (Suc k) p' h'"
    "\<not> failed p' \<Longrightarrow> \<not> failed p \<and> (\<exists>ptrs buf. p' = p\<lparr>pointers := ptrs, buffer := buf, failed := False\<rparr>
       \<and> map snd (data ptrs) = map snd (data (pointers p)) @ [data (buffer p) @ [0]] \<and> data buf = [])"
    "(\<forall>k n. ok k n) \<Longrightarrow> \<not> failed p \<Longrightarrow> \<not> failed p'"
    by (rule parse_finish_inv [OF inv k, where ok = ok]) (rule that)
  have "\<not> failed p \<and> map snd (data (pointers p')) = result_of p []" if "\<not> failed p'"
    using a(3) [OF that] True by (auto simp: result_of_def)
  with a True show ?thesis by auto
qed

lemma parser_init_inv: "mset (live h) = F \<Longrightarrow> parser_inv F 0 parser_init h" "parser_wf parser_init"
  "result_of parser_init str = map (\<lambda>w. w @ [0]) (unix_arguments str)"
  by (simp_all add: bufs_inv_def owned_def own_def parser_init_def gbuf_ok_def parser_wf_def
      result_of_def unix_arguments_def KWSYSPE_LOCAL_ARGS_COUNT_def KWSYSPE_LOCAL_BYTE_COUNT_def)


lemma ParseUnixCommand_run:
  assumes str: "c_string command = Some str" and small: "2 * (length str + 2) \<le> INT_MAX"
  shows "\<exists>r h'. kwsysSystem__ParseUnixCommand ok command h = Some (r, h')
    \<and> (case r of
         None \<Rightarrow> mset (live h') = mset (live h)
       | Some (block, args) \<Rightarrow> map snd args = map (\<lambda>w. w @ [0]) (unix_arguments str)
           \<and> mset (live h') = mset (live h) + {#block#} + mset (map fst args))
    \<and> ((\<forall>k n. ok k n) \<longrightarrow> r \<noteq> None)"
proof -
  let ?F = "mset (live h)"
  obtain rest where c: "command = str @ 0 # rest" "0 \<notin> set str"
    using str by (auto simp: c_string_iff)
  have "2 * (0 + Suc (length str)) \<le> INT_MAX" using small by simp
  from parse_loop_inv [OF parser_init_inv(1) [of h, OF refl] this parser_init_inv(2) c(2), of ok rest]
  obtain p1 h1 where 1: "parse_loop ok command parser_init h = Some (p1, h1)"
    "parser_inv ?F (length str) p1 h1"
    "\<not> failed p1 \<longrightarrow> parser_wf p1 \<and> result_of p1 [] = map (\<lambda>w. w @ [0]) (unix_arguments str)"
    "(\<forall>k n. ok k n) \<longrightarrow> \<not> failed p1"
    unfolding c(1) parser_init_inv(3) by auto
  have "2 * Suc (length str) \<le> INT_MAX" using small by simp
  from parse_last_argument [OF 1(2) this, of ok] 1(3)
  obtain p h2 where 2: "(if in_argument p1 then parse_finish ok p1 h1 else Some (p1, h1)) = Some (p, h2)"
    "parser_inv ?F (Suc (length str)) p h2"
    "\<not> failed p \<longrightarrow> \<not> failed p1 \<and> map snd (data (pointers p)) = result_of p1 []"
    "(\<forall>k n. ok k n) \<longrightarrow> \<not> failed p1 \<longrightarrow> \<not> failed p"
    by blast
  let ?args = "data (pointers p)"
  have m2: "mset (live h2) = ?F + mset (map fst ?args) + own (pointers p) + own (buffer p)"
    using 2(2) by (simp add: bufs_inv_def owned_def)
  obtain new h3 where 3: "(if failed p then (None, h2) else malloc ok ((length ?args + 1) * 8) h2) = (new, h3)"
    by (cases "if failed p then (None, h2) else malloc ok ((length ?args + 1) * 8) h2") blast
  define N where "N = (case new of None \<Rightarrow> {#} | Some b \<Rightarrow> {#b#})"
  have m3: "mset (live h3) = mset (live h2) + N" "new \<noteq> None \<Longrightarrow> \<not> failed p"
    "(\<forall>k n. ok k n) \<longrightarrow> \<not> failed p \<longrightarrow> new \<noteq> None"
    using 3 by (auto simp: N_def malloc_def split: if_splits)
  have "\<exists>h4. (case new of Some _ \<Rightarrow> Some h3 | None \<Rightarrow> free_all (rev (map fst ?args)) h3) = Some h4
      \<and> mset (live h4) = (?F + (if new = None then {#} else mset (map fst ?args) + N) + own (buffer p)) + own (pointers p)"
    using m2 m3 free_all_owned [of h3 "?F + own (pointers p) + own (buffer p)" "rev (map fst ?args)"]
    by (cases new) (auto simp: N_def add_ac)
  then obtain h4 where 4: "(case new of Some _ \<Rightarrow> Some h3 | None \<Rightarrow> free_all (rev (map fst ?args)) h3) = Some h4"
    "mset (live h4) = (?F + (if new = None then {#} else mset (map fst ?args) + N) + own (buffer p)) + own (pointers p)"
    by blast
  obtain h5 where 5: "free_opt (owner (pointers p)) h4 = Some h5"
    "mset (live h5) = (?F + (if new = None then {#} else mset (map fst ?args) + N)) + own (buffer p)"
    by (rule free_opt_own [OF 4(2)]) (use that in \<open>simp add: add_ac\<close>)
  obtain h6 where 6: "free_opt (owner (buffer p)) h5 = Some h6"
    "mset (live h6) = ?F + (if new = None then {#} else mset (map fst ?args) + N)"
    by (rule free_opt_own [OF 5(2)]) (use that in simp)
  have "kwsysSystem__ParseUnixCommand ok command h = Some (map_option (\<lambda>b. (b, ?args)) new, h6)"
    using 1(1) 2(1) 3 4(1) 5(1) 6(1) by (simp add: kwsysSystem__ParseUnixCommand_def Let_def)
  with 6(2) 1(3,4) 2(3,4) m3(2,3) show ?thesis
    by (cases new) (auto simp: N_def)
qed

section \<open>Quoting\<close>

definition unix_quote :: "byte list \<Rightarrow> byte list" where
  "unix_quote w = [0x22] @ concat (map (\<lambda>c. if c = 0x22 \<or> c = 0x5C then [0x5C, c] else [c]) w) @ [0x22]"

definition unix_command :: "byte list list \<Rightarrow> byte list" where
  "unix_command ws = concat (map (\<lambda>w. unix_quote w @ [0x20]) ws)"

lemma split_quoted:
  "unix_split False False True (Some v)
     (concat (map (\<lambda>c. if c = 0x22 \<or> c = 0x5C then [0x5C, c] else [c]) w) @ s)
     = unix_split False False True (Some (v @ w)) s"
  by (induction w arbitrary: v) (auto simp: Let_def)

lemma unix_arguments_quoted: "unix_arguments (unix_command ws) = ws"
proof -
  have "unix_split False False False None (unix_command ws) = ws"
  proof (induction ws)
    case (Cons w ws)
    then show ?case
      by (simp add: unix_command_def unix_quote_def split_quoted isspace_def)
  qed (simp add: unix_command_def)
  then show ?thesis by (simp add: unix_arguments_def)
qed

lemma unix_command_no_zero: "\<forall>w\<in>set ws. 0 \<notin> set w \<Longrightarrow> 0 \<notin> set (unix_command ws)"
  by (fastforce simp: unix_command_def unix_quote_def split: if_splits)

section \<open>Properties\<close>

text \<open>C35. Splitting a command of less than a gigabyte has no undefined behaviour (no access outside
  an array, no invalid or double free, no overflow), whichever allocations fail.  It returns the
  null pointer with the heap as it was, or an array whose arguments are those of the functional
  specification, each with its terminator, and then exactly the array and the arguments have
  been added to the heap.  When no allocation fails it returns the array.\<close>

theorem ParseUnixCommand_correct:
  assumes "c_string command = Some str" and "length str < 2 ^ 30 - 2"
  shows "\<exists>r h'. kwsysSystem_Parse_CommandForUnix ok command 0 h = Some (r, h')
    \<and> (case r of
         None \<Rightarrow> mset (live h') = mset (live h)
       | Some (block, args) \<Rightarrow> map snd args = map (\<lambda>w. w @ [0]) (unix_arguments str)
           \<and> mset (live h') = mset (live h) + {#block#} + mset (map fst args))
    \<and> ((\<forall>k n. ok k n) \<longrightarrow> r \<noteq> None)"
  using ParseUnixCommand_run [of command str ok h] assms
  by (simp add: kwsysSystem_Parse_CommandForUnix_def INT_MAX_def)

theorem ParseUnixCommand_correct_witness:
  "\<exists>block args h'. kwsysSystem_Parse_CommandForUnix (\<lambda>_ _. True)
       [0x61, 0x20, 0x27, 0x62, 0x20, 0x27, 0] 0 \<lparr>calls = 5, live = [3]\<rparr> = Some (Some (block, args), h')
     \<and> map snd args = [[0x61, 0], [0x62, 0x20, 0]]
     \<and> mset (live h') = {#3#} + {#block#} + mset (map fst args)"
proof -
  have "c_string [0x61, 0x20, 0x27, 0x62, 0x20, 0x27, 0] = Some [0x61, 0x20, 0x27, 0x62, 0x20, 0x27]"
    by code_simp
  moreover have "unix_arguments [0x61, 0x20, 0x27, 0x62, 0x20, 0x27] = [[0x61], [0x62, 0x20]]"
    by code_simp
  ultimately show ?thesis
    using ParseUnixCommand_correct [of "[0x61, 0x20, 0x27, 0x62, 0x20, 0x27, 0]" _ "\<lambda>_ _. True"
        "\<lparr>calls = 5, live = [3]\<rparr>"]
    by (auto split: option.splits)
qed

text \<open>C36. Quoting round-trips: a command line made of double-quoted arguments, with a backslash
  before each double quote and each backslash, is split into exactly those arguments.\<close>

theorem Parse_CommandForUnix_quoted:
  assumes "\<forall>w\<in>set ws. 0 \<notin> set w" and "length (unix_command ws) < 2 ^ 30 - 2" and "\<forall>k n. ok k n"
  shows "\<exists>block args h'. kwsysSystem_Parse_CommandForUnix ok (unix_command ws @ [0]) 0 h
       = Some (Some (block, args), h') \<and> map snd args = map (\<lambda>w. w @ [0]) ws"
proof -
  have "c_string (unix_command ws @ [0]) = Some (unix_command ws)"
    using unix_command_no_zero [OF assms(1)] by simp
  with ParseUnixCommand_run [of "unix_command ws @ [0]" "unix_command ws" ok h] assms(2,3)
  show ?thesis
    by (auto simp: kwsysSystem_Parse_CommandForUnix_def INT_MAX_def unix_arguments_quoted
        split: option.splits)
qed

theorem Parse_CommandForUnix_quoted_witness:
  "\<exists>block args h'. kwsysSystem_Parse_CommandForUnix (\<lambda>_ _. True) (unix_command [[0x22, 0x20], []] @ [0]) 0
       \<lparr>calls = 0, live = []\<rparr>
       = Some (Some (block, args), h') \<and> map snd args = map (\<lambda>w. w @ [0]) [[0x22, 0x20], []]"
  by (rule Parse_CommandForUnix_quoted) (simp_all add: unix_command_def unix_quote_def)

end
