(* ===== verification/Md5.thy ===== *)
theory Md5
  imports Prelude
begin

text \<open>
  \<^verbatim>\<open>Source/kwsys/MD5.c\<close>: the MD5 digest of kwsys.  The state has the two halves of the bit
  count, the four registers and the block being filled.  Blocks are lists of 64 bytes; the code
  reads a block as 16 little-endian words, by a cast, a copy or byte by byte depending on the
  machine and the alignment, with the same result, which is modelled once (\<open>md5_X\<close>).

  The lemmas show: the unrolled rounds are the loop of RFC 1321; the state after any sequence of
  appends represents the concatenation of what was appended (the interface \<open>hash_stream\<close>), with
  the count modulo 2 to the 64; the digest is the reference digest of that concatenation,
  however it was cut; the hexadecimal form determines the digest.
\<close>

section \<open>The code\<close>

type_synonym md5_regs = "u32 \<times> u32 \<times> u32 \<times> u32"

record md5_state =
  count0 :: u32
  count1 :: u32
  abcd :: md5_regs
  buf :: "byte list"

definition T_MASK :: u32 where
  "T_MASK = NOT 0"

definition md5_T :: "u32 list" where
  "md5_T = [
     T_MASK XOR 0x28955B87, T_MASK XOR 0x173848A9, 0x242070DB, T_MASK XOR 0x3E423111,
     T_MASK XOR 0x0A83F050, 0x4787C62A, T_MASK XOR 0x57CFB9EC, T_MASK XOR 0x02B96AFE,
     0x698098D8, T_MASK XOR 0x74BB0850, T_MASK XOR 0x0000A44E, T_MASK XOR 0x76A32841,
     0x6B901122, T_MASK XOR 0x02678E6C, T_MASK XOR 0x5986BC71, 0x49B40821,
     T_MASK XOR 0x09E1DA9D, T_MASK XOR 0x3FBF4CBF, 0x265E5A51, T_MASK XOR 0x16493855,
     T_MASK XOR 0x29D0EFA2, 0x02441453, T_MASK XOR 0x275E197E, T_MASK XOR 0x182C0437,
     0x21E1CDE6, T_MASK XOR 0x3CC8F829, T_MASK XOR 0x0B2AF278, 0x455A14ED,
     T_MASK XOR 0x561C16FA, T_MASK XOR 0x03105C07, 0x676F02D9, T_MASK XOR 0x72D5B375,
     T_MASK XOR 0x0005C6BD, T_MASK XOR 0x788E097E, 0x6D9D6122, T_MASK XOR 0x021AC7F3,
     T_MASK XOR 0x5B4115BB, 0x4BDECFA9, T_MASK XOR 0x0944B49F, T_MASK XOR 0x4140438F,
     0x289B7EC6, T_MASK XOR 0x155ED805, T_MASK XOR 0x2B10CF7A, 0x04881D05,
     T_MASK XOR 0x262B2FC6, T_MASK XOR 0x1924661A, 0x1FA27CF8, T_MASK XOR 0x3B53A99A,
     T_MASK XOR 0x0BD6DDBB, 0x432AFF97, T_MASK XOR 0x546BDC58, T_MASK XOR 0x036C5FC6,
     0x655B59C3, T_MASK XOR 0x70F3336D, T_MASK XOR 0x00100B82, T_MASK XOR 0x7A7BA22E,
     0x6FA87E4F, T_MASK XOR 0x01D3191F, T_MASK XOR 0x5CFEBCEB, 0x4E0811A1,
     T_MASK XOR 0x08AC817D, T_MASK XOR 0x42C50DCA, 0x2AD7D2BB, T_MASK XOR 0x14792C6E]"

abbreviation T :: "nat \<Rightarrow> u32" where
  "T i \<equiv> md5_T ! (i - 1)"

text \<open>The word at \<open>xp\<close>, and the words of a block.\<close>

definition md5_word :: "byte list \<Rightarrow> u32" where
  "md5_word xp = ucast (xp ! 0) + push_bit 8 (ucast (xp ! 1)) + push_bit 16 (ucast (xp ! 2))
     + push_bit 24 (ucast (xp ! 3))"

definition md5_X :: "byte list \<Rightarrow> u32 list" where
  "md5_X data = map (\<lambda>i. md5_word (drop (4 * i) data)) [0..<16]"

definition ROTATE_LEFT :: "u32 \<Rightarrow> nat \<Rightarrow> u32" where
  "ROTATE_LEFT x n = push_bit n x OR drop_bit (32 - n) x"

definition md5_F :: "u32 \<Rightarrow> u32 \<Rightarrow> u32 \<Rightarrow> u32" where
  "md5_F x y z = (x AND y) OR (NOT x AND z)"

definition md5_G :: "u32 \<Rightarrow> u32 \<Rightarrow> u32 \<Rightarrow> u32" where
  "md5_G x y z = (x AND z) OR (y AND NOT z)"

definition md5_H :: "u32 \<Rightarrow> u32 \<Rightarrow> u32 \<Rightarrow> u32" where
  "md5_H x y z = x XOR y XOR z"

definition md5_I :: "u32 \<Rightarrow> u32 \<Rightarrow> u32 \<Rightarrow> u32" where
  "md5_I x y z = y XOR (x OR NOT z)"

text \<open>The macro \<open>SET\<close> of a round with the function \<open>f\<close>: the value assigned to \<open>a\<close>.\<close>

definition md5_SET ::
  "(u32 \<Rightarrow> u32 \<Rightarrow> u32 \<Rightarrow> u32) \<Rightarrow> u32 list \<Rightarrow> u32 \<Rightarrow> u32 \<Rightarrow> u32 \<Rightarrow> u32 \<Rightarrow> nat \<Rightarrow> nat \<Rightarrow> u32 \<Rightarrow> u32" where
  "md5_SET f X a b c d k s Ti = (let t = a + f b c d + X ! k + Ti in ROTATE_LEFT t s + b)"

definition md5_round1 :: "u32 list \<Rightarrow> md5_regs \<Rightarrow> md5_regs" where
  "md5_round1 X = (\<lambda>(a, b, c, d).
     (let a = md5_SET md5_F X a b c d 0 7 (T 1);
          d = md5_SET md5_F X d a b c 1 12 (T 2);
          c = md5_SET md5_F X c d a b 2 17 (T 3);
          b = md5_SET md5_F X b c d a 3 22 (T 4);
          a = md5_SET md5_F X a b c d 4 7 (T 5);
          d = md5_SET md5_F X d a b c 5 12 (T 6);
          c = md5_SET md5_F X c d a b 6 17 (T 7);
          b = md5_SET md5_F X b c d a 7 22 (T 8);
          a = md5_SET md5_F X a b c d 8 7 (T 9);
          d = md5_SET md5_F X d a b c 9 12 (T 10);
          c = md5_SET md5_F X c d a b 10 17 (T 11);
          b = md5_SET md5_F X b c d a 11 22 (T 12);
          a = md5_SET md5_F X a b c d 12 7 (T 13);
          d = md5_SET md5_F X d a b c 13 12 (T 14);
          c = md5_SET md5_F X c d a b 14 17 (T 15);
          b = md5_SET md5_F X b c d a 15 22 (T 16)
      in (a, b, c, d)))"

definition md5_round2 :: "u32 list \<Rightarrow> md5_regs \<Rightarrow> md5_regs" where
  "md5_round2 X = (\<lambda>(a, b, c, d).
     (let a = md5_SET md5_G X a b c d 1 5 (T 17);
          d = md5_SET md5_G X d a b c 6 9 (T 18);
          c = md5_SET md5_G X c d a b 11 14 (T 19);
          b = md5_SET md5_G X b c d a 0 20 (T 20);
          a = md5_SET md5_G X a b c d 5 5 (T 21);
          d = md5_SET md5_G X d a b c 10 9 (T 22);
          c = md5_SET md5_G X c d a b 15 14 (T 23);
          b = md5_SET md5_G X b c d a 4 20 (T 24);
          a = md5_SET md5_G X a b c d 9 5 (T 25);
          d = md5_SET md5_G X d a b c 14 9 (T 26);
          c = md5_SET md5_G X c d a b 3 14 (T 27);
          b = md5_SET md5_G X b c d a 8 20 (T 28);
          a = md5_SET md5_G X a b c d 13 5 (T 29);
          d = md5_SET md5_G X d a b c 2 9 (T 30);
          c = md5_SET md5_G X c d a b 7 14 (T 31);
          b = md5_SET md5_G X b c d a 12 20 (T 32)
      in (a, b, c, d)))"

definition md5_round3 :: "u32 list \<Rightarrow> md5_regs \<Rightarrow> md5_regs" where
  "md5_round3 X = (\<lambda>(a, b, c, d).
     (let a = md5_SET md5_H X a b c d 5 4 (T 33);
          d = md5_SET md5_H X d a b c 8 11 (T 34);
          c = md5_SET md5_H X c d a b 11 16 (T 35);
          b = md5_SET md5_H X b c d a 14 23 (T 36);
          a = md5_SET md5_H X a b c d 1 4 (T 37);
          d = md5_SET md5_H X d a b c 4 11 (T 38);
          c = md5_SET md5_H X c d a b 7 16 (T 39);
          b = md5_SET md5_H X b c d a 10 23 (T 40);
          a = md5_SET md5_H X a b c d 13 4 (T 41);
          d = md5_SET md5_H X d a b c 0 11 (T 42);
          c = md5_SET md5_H X c d a b 3 16 (T 43);
          b = md5_SET md5_H X b c d a 6 23 (T 44);
          a = md5_SET md5_H X a b c d 9 4 (T 45);
          d = md5_SET md5_H X d a b c 12 11 (T 46);
          c = md5_SET md5_H X c d a b 15 16 (T 47);
          b = md5_SET md5_H X b c d a 2 23 (T 48)
      in (a, b, c, d)))"

definition md5_round4 :: "u32 list \<Rightarrow> md5_regs \<Rightarrow> md5_regs" where
  "md5_round4 X = (\<lambda>(a, b, c, d).
     (let a = md5_SET md5_I X a b c d 0 6 (T 49);
          d = md5_SET md5_I X d a b c 7 10 (T 50);
          c = md5_SET md5_I X c d a b 14 15 (T 51);
          b = md5_SET md5_I X b c d a 5 21 (T 52);
          a = md5_SET md5_I X a b c d 12 6 (T 53);
          d = md5_SET md5_I X d a b c 3 10 (T 54);
          c = md5_SET md5_I X c d a b 10 15 (T 55);
          b = md5_SET md5_I X b c d a 1 21 (T 56);
          a = md5_SET md5_I X a b c d 8 6 (T 57);
          d = md5_SET md5_I X d a b c 15 10 (T 58);
          c = md5_SET md5_I X c d a b 6 15 (T 59);
          b = md5_SET md5_I X b c d a 13 21 (T 60);
          a = md5_SET md5_I X a b c d 4 6 (T 61);
          d = md5_SET md5_I X d a b c 11 10 (T 62);
          c = md5_SET md5_I X c d a b 2 15 (T 63);
          b = md5_SET md5_I X b c d a 9 21 (T 64)
      in (a, b, c, d)))"

definition md5_add :: "md5_regs \<Rightarrow> md5_regs \<Rightarrow> md5_regs" where
  "md5_add = (\<lambda>(a, b, c, d) (a', b', c', d'). (a + a', b + b', c + c', d + d'))"

definition md5_process :: "md5_state \<Rightarrow> byte list \<Rightarrow> md5_state" where
  "md5_process pms data =
     (let X = md5_X data
      in pms\<lparr>abcd := md5_add (abcd pms)
               (md5_round4 X (md5_round3 X (md5_round2 X (md5_round1 X (abcd pms)))))\<rparr>)"

definition md5_init :: "md5_state \<Rightarrow> md5_state" where
  "md5_init pms = pms\<lparr>count0 := 0, count1 := 0,
     abcd := (0x67452301, T_MASK XOR 0x10325476, T_MASK XOR 0x67452301, 0x10325476)\<rparr>"

text \<open>The loop over the full blocks; the result is the state and what is left.\<close>

function md5_blocks :: "md5_state \<Rightarrow> byte list \<Rightarrow> md5_state \<times> byte list" where
  "md5_blocks pms p =
     (if length p \<ge> 64 then md5_blocks (md5_process pms (take 64 p)) (drop 64 p) else (pms, p))"
  by pat_completeness auto
termination
  by (relation "measure (length \<circ> snd)") auto

declare md5_blocks.simps [simp del]

text \<open>A copy into \<open>buf\<close>; the bounds are shown by \<open>md5_rep\<close> below.\<close>

definition md5_copy :: "md5_state \<Rightarrow> nat \<Rightarrow> byte list \<Rightarrow> md5_state option" where
  "md5_copy pms off p = do { b \<leftarrow> mem_write (buf pms) off p; Some (pms\<lparr>buf := b\<rparr>) }"

text \<open>Update the message length.\<close>

definition md5_count :: "md5_state \<Rightarrow> nat \<Rightarrow> md5_state" where
  "md5_count pms nbytes =
     (let nbits = (word_of_nat (nbytes * 8) :: u32);
          pms = pms\<lparr>count1 := count1 pms + word_of_nat (nbytes div 2 ^ 29)\<rparr>;
          pms = pms\<lparr>count0 := count0 pms + nbits\<rparr>
      in if count0 pms < nbits then pms\<lparr>count1 := count1 pms + 1\<rparr> else pms)"

text \<open>Process full blocks, then keep a final partial block.\<close>

definition md5_full_blocks :: "md5_state \<Rightarrow> byte list \<Rightarrow> md5_state option" where
  "md5_full_blocks pms p =
     (let (pms, p) = md5_blocks pms p in if p \<noteq> [] then md5_copy pms 0 p else Some pms)"

text \<open>Process an initial partial block, and the rest.\<close>

definition md5_fill :: "md5_state \<Rightarrow> nat \<Rightarrow> byte list \<Rightarrow> md5_state option" where
  "md5_fill pms offset data =
     (if offset \<noteq> 0
      then let copy = (if offset + length data > 64 then 64 - offset else length data)
           in do { pms \<leftarrow> md5_copy pms offset (take copy data);
                   if offset + copy < 64 then Some pms
                   else md5_full_blocks (md5_process pms (buf pms)) (drop copy data) }
      else md5_full_blocks pms data)"

definition md5_append :: "md5_state \<Rightarrow> byte list \<Rightarrow> md5_state option" where
  "md5_append pms data =
     (let offset = unat (drop_bit 3 (count0 pms) AND 63)
      in if length data = 0 then Some pms
         else md5_fill (md5_count pms (length data)) offset data)"

definition md5_pad :: "byte list" where
  "md5_pad = 0x80 # replicate 63 0"

text \<open>The bytes of a word, least significant first: \<open>(md5_byte_t)(w >> ((i & 3) << 3))\<close>.\<close>

definition word_bytes :: "u32 \<Rightarrow> byte list" where
  "word_bytes w = map (\<lambda>i. ucast (drop_bit (8 * i) w)) [0..<4]"

definition md5_finish :: "md5_state \<Rightarrow> (md5_state \<times> byte list) option" where
  "md5_finish pms =
     (let data = word_bytes (count0 pms) @ word_bytes (count1 pms)
      in do { pms \<leftarrow> md5_append pms (take (unat ((55 - drop_bit 3 (count0 pms)) AND 63) + 1) md5_pad);
              pms \<leftarrow> md5_append pms data;
              let (a, b, c, d) = abcd pms
              in Some (pms, word_bytes a @ word_bytes b @ word_bytes c @ word_bytes d) })"

text \<open>The wrappers.  The structure is a heap block; its contents at allocation are arbitrary.\<close>

definition kwsysMD5_New :: "malloc_ok \<Rightarrow> heap \<Rightarrow> nat option \<times> heap" where
  "kwsysMD5_New ok h = malloc ok 88 h"

definition kwsysMD5_Delete :: "nat option \<Rightarrow> heap \<Rightarrow> heap option" where
  "kwsysMD5_Delete md5 h = (case md5 of None \<Rightarrow> Some h | Some p \<Rightarrow> free p h)"

definition kwsysMD5_Initialize :: "md5_state \<Rightarrow> md5_state" where
  "kwsysMD5_Initialize md5 = md5_init md5"

definition kwsysMD5_Append :: "md5_state \<Rightarrow> byte list \<Rightarrow> int \<Rightarrow> md5_state option" where
  "kwsysMD5_Append md5 data len =
     (if len < 0 then do { str \<leftarrow> c_string data; md5_append md5 str }
      else do { bytes \<leftarrow> mem_read data 0 (nat len); md5_append md5 bytes })"

definition kwsysMD5_Finalize :: "md5_state \<Rightarrow> (md5_state \<times> byte list) option" where
  "kwsysMD5_Finalize md5 = md5_finish md5"

definition md5_hex :: "byte list" where
  "md5_hex = [0x30, 0x31, 0x32, 0x33, 0x34, 0x35, 0x36, 0x37,
              0x38, 0x39, 0x61, 0x62, 0x63, 0x64, 0x65, 0x66]"

definition kwsysMD5_DigestToHex :: "byte list \<Rightarrow> byte list" where
  "kwsysMD5_DigestToHex digest =
     concat (map (\<lambda>b. [md5_hex ! unat (drop_bit 4 b), md5_hex ! unat (b AND 0xF)]) digest)"

definition kwsysMD5_FinalizeHex :: "md5_state \<Rightarrow> (md5_state \<times> byte list) option" where
  "kwsysMD5_FinalizeHex md5 =
     do { (md5, digest) \<leftarrow> kwsysMD5_Finalize md5;
          Some (md5, kwsysMD5_DigestToHex digest) }"

section \<open>Appending\<close>

text \<open>
  The contract of an incremental digest: a state represents the message appended so far, and
  appending never fails.
\<close>

fun feed :: "('s \<Rightarrow> 'b list \<Rightarrow> 's option) \<Rightarrow> 's \<Rightarrow> 'b list list \<Rightarrow> 's option" where
  "feed app s [] = Some s"
| "feed app s (x # xs) = do { s \<leftarrow> app s x; feed app s xs }"

locale hash_stream =
  fixes app :: "'s \<Rightarrow> 'b list \<Rightarrow> 's option"
    and rep :: "'b list \<Rightarrow> 's \<Rightarrow> bool"
  assumes app_rep: "rep m s \<Longrightarrow> \<exists>s'. app s x = Some s' \<and> rep (m @ x) s'"
begin

lemma feed_rep: "rep m s \<Longrightarrow> \<exists>s'. feed app s xs = Some s' \<and> rep (m @ concat xs) s'"
proof (induction xs arbitrary: m s)
  case (Cons x xs)
  from app_rep [OF Cons.prems, of x] obtain s1 where "app s x = Some s1" "rep (m @ x) s1"
    by blast
  with Cons.IH [of "m @ x" s1] show ?case by simp
qed simp

end

definition md5_compress :: "md5_regs \<Rightarrow> byte list \<Rightarrow> md5_regs" where
  "md5_compress r data =
     (let X = md5_X data in md5_add r (md5_round4 X (md5_round3 X (md5_round2 X (md5_round1 X r)))))"

function md5_chain :: "md5_regs \<Rightarrow> byte list \<Rightarrow> md5_regs" where
  "md5_chain r m = (if length m \<ge> 64 then md5_chain (md5_compress r (take 64 m)) (drop 64 m) else r)"
  by pat_completeness auto
termination
  by (relation "measure (length \<circ> snd)") auto

declare md5_chain.simps [simp del]

definition md5_iv :: md5_regs where
  "md5_iv = (0x67452301, 0xEFCDAB89, 0x98BADCFE, 0x10325476)"

definition tail64 :: "byte list \<Rightarrow> byte list" where
  "tail64 m = drop (64 * (length m div 64)) m"

definition md5_rep :: "byte list \<Rightarrow> md5_state \<Rightarrow> bool" where
  "md5_rep m s \<longleftrightarrow> length (buf s) = 64 \<and> count0 s = word_of_nat (8 * length m)
     \<and> count1 s = word_of_nat (8 * length m div 2 ^ 32) \<and> abcd s = md5_chain md5_iv m
     \<and> take (length m mod 64) (buf s) = tail64 m"

lemma md5_process_compress: "md5_process s p = s\<lparr>abcd := md5_compress (abcd s) p\<rparr>"
  by (simp add: md5_process_def md5_compress_def Let_def)

lemma chain_short: "length m < 64 \<Longrightarrow> md5_chain r m = r"
  by (subst md5_chain.simps) simp

lemma chain_block: "length b = 64 \<Longrightarrow> md5_chain r (b @ m) = md5_chain (md5_compress r b) m"
  by (subst md5_chain.simps) simp

lemma tail64_short: "length m < 64 \<Longrightarrow> tail64 m = m"
  by (simp add: tail64_def)

lemma div64_step: "(64 + n) div 64 = Suc (n div 64)" for n :: nat
  by simp

lemma tail64_block: "length b = 64 \<Longrightarrow> tail64 (b @ m) = tail64 m"
  by (simp add: tail64_def div64_step)

lemma length_tail64: "length (tail64 m) = length m mod 64"
  by (simp add: tail64_def minus_mult_div_eq_mod)

lemma block_cases:
  obtains "length m < 64" | b m' where "m = b @ m'" "length b = 64" "length m' < length m"
  using that(1) that(2) [of "take 64 m" "drop 64 m"] by (cases "length m < 64") auto

lemma chain_append: "md5_chain r (m @ x) = md5_chain (md5_chain r m) (tail64 m @ x)"
proof (induction "length m" arbitrary: m r rule: less_induct)
  case less
  show ?case
  proof (cases m rule: block_cases)
    case 1
    then show ?thesis by (simp add: chain_short tail64_short)
  next
    case (2 b m')
    with less [of m' "md5_compress r b"] show ?thesis by (simp add: chain_block tail64_block)
  qed
qed

lemma tail64_append: "tail64 (m @ x) = tail64 (tail64 m @ x)"
proof (induction "length m" arbitrary: m rule: less_induct)
  case less
  show ?case
  proof (cases m rule: block_cases)
    case 1
    then show ?thesis by (simp add: tail64_short)
  next
    case (2 b m')
    with less [of m'] show ?thesis by (simp add: tail64_block)
  qed
qed

lemma md5_blocks_chain: "md5_blocks s p = (s\<lparr>abcd := md5_chain (abcd s) p\<rparr>, tail64 p)"
proof (induction "length p" arbitrary: p s rule: less_induct)
  case less
  show ?case
  proof (cases p rule: block_cases)
    case 1
    then show ?thesis by (subst md5_blocks.simps) (simp add: chain_short tail64_short)
  next
    case (2 b p')
    with less [of p' "md5_process s b"] show ?thesis
      by (subst md5_blocks.simps) (simp add: md5_process_compress chain_block tail64_block)
  qed
qed

text \<open>The bit count as a 64-bit number in two words.\<close>

lemma carry_u32: "a + b < b \<longleftrightarrow> 2 ^ 32 \<le> unat a + unat b" for a b :: u32
proof -
  have "unat a < 2 ^ 32" "unat b < 2 ^ 32" using unsigned_less [of a] unsigned_less [of b] by simp_all
  then show ?thesis
    by (cases "unat a + unat b < 2 ^ 32")
      (auto simp: word_less_nat_alt unat_word_ariths mod_if)
qed

lemma div_add_carry:
  "(x + y) div m = x div m + y div m + (if m \<le> x mod m + y mod m then 1 else 0)" if "0 < m" for x y m :: nat
proof -
  have b: "x mod m < m" "y mod m < m" using that by simp_all
  have "(x mod m + y mod m) div m = (if m \<le> x mod m + y mod m then 1 else 0)"
  proof (cases "m \<le> x mod m + y mod m")
    case True
    then have "(x mod m + y mod m) div m = 1"
      by (intro div_nat_eqI) (use add_strict_mono [OF b] in simp_all)
    with True show ?thesis by simp
  qed simp
  then show ?thesis by (simp only: div_add1_eq [of x y m])
qed

lemma unat_u32: "unat (word_of_nat k :: u32) = k mod 2 ^ 32"
  by (simp add: unat_of_nat take_bit_eq_mod)

lemma count_add:
  fixes c0 c1 :: u32
  assumes "c0 = word_of_nat (8 * l)" "c1 = word_of_nat (8 * l div 2 ^ 32)"
  shows "c0 + word_of_nat (n * 8) = word_of_nat (8 * (l + n))"
    and "c1 + word_of_nat (n div 2 ^ 29) + (if c0 + word_of_nat (n * 8) < word_of_nat (n * 8) then 1 else 0)
      = word_of_nat (8 * (l + n) div 2 ^ 32)"
proof -
  show "c0 + word_of_nat (n * 8) = word_of_nat (8 * (l + n))"
    using assms by (simp add: algebra_simps)
  have n: "n div 2 ^ 29 = (8 * n) div 2 ^ 32" by simp
  have carry: "c0 + word_of_nat (n * 8) < word_of_nat (n * 8) \<longleftrightarrow>
      2 ^ 32 \<le> (8 * l) mod 2 ^ 32 + (8 * n) mod 2 ^ 32"
    unfolding carry_u32 assms(1) unat_u32 by (simp only: mult.commute [of n 8])
  have "8 * (l + n) div 2 ^ 32 = 8 * l div 2 ^ 32 + 8 * n div 2 ^ 32
      + (if 2 ^ 32 \<le> (8 * l) mod 2 ^ 32 + (8 * n) mod 2 ^ 32 then 1 else 0)"
    unfolding distrib_left by (rule div_add_carry) simp
  then show "c1 + word_of_nat (n div 2 ^ 29) + (if c0 + word_of_nat (n * 8) < word_of_nat (n * 8) then 1 else 0)
      = word_of_nat (8 * (l + n) div 2 ^ 32)"
    unfolding carry n assms(2) by (simp only: of_nat_add) simp
qed

lemma offset_mod: "unat (drop_bit 3 (word_of_nat (8 * l) :: u32) AND 63) = l mod 64"
proof -
  have "unat (drop_bit 3 (word_of_nat (8 * l) :: u32) AND 63) = unat (take_bit 6 (drop_bit 3 (word_of_nat (8 * l) :: u32)))"
    by (simp add: take_bit_eq_mask mask_eq_exp_minus_1)
  also have "\<dots> = (((8 * l) mod 2 ^ 32) div 8) mod 64"
    unfolding unsigned_take_bit_eq unat_drop_bit_eq unat_u32
    by (simp add: take_bit_eq_mod drop_bit_eq_div)
  also have "(8 * l) mod 2 ^ 32 = 8 * (l mod 2 ^ 29)"
    using mod_mult_mult1 [of 8 l "2 ^ 29"] by simp
  also have "8 * (l mod 2 ^ 29) div 8 mod 64 = l mod 64"
    by (simp add: mod_mod_cancel)
  finally show ?thesis .
qed


text \<open>Filling the block: the bytes already there, then the new ones.\<close>

lemma md5_copy_ok:
  "off + length p \<le> length (buf s) \<Longrightarrow>
     md5_copy s off p = Some (s\<lparr>buf := take off (buf s) @ p @ drop (off + length p) (buf s)\<rparr>)"
  by (simp add: md5_copy_def mem_write_def)

lemma tail64_Nil_iff: "tail64 x = [] \<longleftrightarrow> length x mod 64 = 0"
  using length_tail64 [of x] by (metis length_0_conv)

lemma md5_full_blocks_rep:
  assumes "length (buf s) = 64"
  shows "\<exists>s'. md5_full_blocks s x = Some s'
    \<and> length (buf s') = 64 \<and> count0 s' = count0 s \<and> count1 s' = count1 s \<and> abcd s' = md5_chain (abcd s) x
    \<and> take (length x mod 64) (buf s') = tail64 x"
proof (cases "tail64 x = []")
  case True
  then show ?thesis
    using assms length_tail64 [of x] by (simp add: md5_full_blocks_def md5_blocks_chain)
next
  case False
  have "length x mod 64 < 64" by simp
  then have "length (tail64 x) \<le> 64" unfolding length_tail64 by (rule less_imp_le)
  with False assms show ?thesis
    by (simp add: md5_full_blocks_def md5_blocks_chain md5_copy_ok)
      (simp add: length_tail64 [symmetric])
qed

lemma md5_rep_init:
  "length (buf s) = 64 \<Longrightarrow> md5_rep [] (md5_init s)"
  by (simp add: md5_rep_def md5_init_def tail64_def md5_iv_def T_MASK_def chain_short)

text \<open>The bytes that are kept plus the new ones decide the state after \<open>md5_fill\<close>.\<close>

lemma md5_fill_rep:
  assumes "length (buf s) = 64" "length pre < 64" "take (length pre) (buf s) = pre" "x \<noteq> []"
  shows "\<exists>s'. md5_fill s (length pre) x = Some s'
    \<and> length (buf s') = 64 \<and> count0 s' = count0 s \<and> count1 s' = count1 s
    \<and> abcd s' = md5_chain (abcd s) (pre @ x)
    \<and> take (length (pre @ x) mod 64) (buf s') = tail64 (pre @ x)"
proof -
  consider "pre = []" | "pre \<noteq> []" "length pre + length x < 64" | "pre \<noteq> []" "64 \<le> length pre + length x"
    by linarith
  then show ?thesis
  proof cases
    case 1
    then show ?thesis
      using md5_full_blocks_rep [OF assms(1), of x] by (simp add: md5_fill_def)
  next
    case 2
    let ?s = "s\<lparr>buf := pre @ x @ drop (length pre + length x) (buf s)\<rparr>"
    have "md5_fill s (length pre) x = Some ?s"
      using 2 assms by (simp add: md5_fill_def md5_copy_ok)
    then show ?thesis
      using 2 assms by (simp add: chain_short tail64_short)
  next
    case 3
    let ?k = "64 - length pre"
    let ?b = "pre @ take ?k x"
    have b: "length ?b = 64" "pre @ x = ?b @ drop ?k x"
      using 3 assms(2) by simp_all
    let ?s = "s\<lparr>buf := ?b\<rparr>"
    have k: "(if length pre + length x > 64 then ?k else length x) = ?k"
      using 3 by auto
    have fill: "md5_fill s (length pre) x = md5_full_blocks (md5_process ?s ?b) (drop ?k x)"
      using 3 assms b(1) unfolding md5_fill_def k
      by (simp add: md5_copy_ok Let_def)
    have "length (buf (md5_process ?s ?b)) = 64"
      using b(1) by (simp add: md5_process_compress)
    from md5_full_blocks_rep [OF this, of "drop ?k x"] show ?thesis
      unfolding fill b(2) chain_block [OF b(1)] tail64_block [OF b(1)] length_append [of ?b] b(1)
      by (simp add: md5_process_compress)
  qed
qed

lemma md5_append_rep:
  assumes "md5_rep m s"
  shows "\<exists>s'. md5_append s x = Some s' \<and> md5_rep (m @ x) s'"
proof (cases "x = []")
  case True
  with assms show ?thesis by (simp add: md5_append_def)
next
  case False
  let ?n = "length x"
  have rep: "length (buf s) = 64" "count0 s = word_of_nat (8 * length m)"
    "count1 s = word_of_nat (8 * length m div 2 ^ 32)" "abcd s = md5_chain md5_iv m"
    "take (length (tail64 m)) (buf s) = tail64 m"
    using assms by (simp_all only: md5_rep_def length_tail64)
  let ?s = "md5_count s ?n"
  have cnt: "count0 ?s = word_of_nat (8 * length (m @ x))"
    "count1 ?s = word_of_nat (8 * length (m @ x) div 2 ^ 32)" "buf ?s = buf s" "abcd ?s = abcd s"
    using count_add [OF rep(2,3), of ?n] unfolding md5_count_def Let_def length_append
    by (auto split: if_splits)
  have off: "unat (drop_bit 3 (count0 s) AND 63) = length (tail64 m)"
    unfolding rep(2) offset_mod length_tail64 ..
  have "length (tail64 m) < 64" by (simp add: length_tail64)
  then obtain s' where s': "md5_fill ?s (length (tail64 m)) x = Some s'" "length (buf s') = 64"
    "count0 s' = count0 ?s" "count1 s' = count1 ?s" "abcd s' = md5_chain (abcd s) (tail64 m @ x)"
    "take (length (tail64 m @ x) mod 64) (buf s') = tail64 (tail64 m @ x)"
    using md5_fill_rep [of ?s "tail64 m" x] rep(1,5) False unfolding cnt(3,4) by blast
  have len: "length (m @ x) mod 64 = length (tail64 m @ x) mod 64"
    by (simp add: length_tail64 mod_simps)
  have "md5_append s x = Some s'"
    using s'(1) False by (simp add: md5_append_def off)
  moreover have "md5_rep (m @ x) s'"
    unfolding md5_rep_def len tail64_append [of m x] chain_append [of _ m x]
    using s'(2-6) cnt(1,2) rep(4) by simp
  ultimately show ?thesis by blast
qed

interpretation md5: hash_stream md5_append md5_rep
  by unfold_locales (rule md5_append_rep)


section \<open>The reference digest\<close>

text \<open>
  RFC 1321: the step for \<open>i\<close> in a loop, with the formulas for the function, the index of the
  message word and the rotation; the registers rotate after each step.
\<close>

definition rfc_f :: "nat \<Rightarrow> u32 \<Rightarrow> u32 \<Rightarrow> u32 \<Rightarrow> u32" where
  "rfc_f i = (if i < 16 then md5_F else if i < 32 then md5_G else if i < 48 then md5_H else md5_I)"

definition rfc_k :: "nat \<Rightarrow> nat" where
  "rfc_k i = (if i < 16 then i else if i < 32 then (5 * i + 1) mod 16
              else if i < 48 then (3 * i + 5) mod 16 else (7 * i) mod 16)"

definition rfc_s :: "nat \<Rightarrow> nat" where
  "rfc_s i = [[7, 12, 17, 22], [5, 9, 14, 20], [4, 11, 16, 23], [6, 10, 15, 21]] ! (i div 16) ! (i mod 4)"

definition rfc_step :: "u32 list \<Rightarrow> nat \<Rightarrow> md5_regs \<Rightarrow> md5_regs" where
  "rfc_step X i = (\<lambda>(a, b, c, d).
     (d, b + ROTATE_LEFT (a + rfc_f i b c d + X ! rfc_k i + md5_T ! i) (rfc_s i), b, c))"

definition rfc_rounds :: "u32 list \<Rightarrow> md5_regs \<Rightarrow> md5_regs" where
  "rfc_rounds X r = fold (rfc_step X) [0..<64] r"

text \<open>Both are sequences of four steps that bring the registers back to their places.\<close>

definition md5_quad :: "u32 list \<Rightarrow> (u32 \<Rightarrow> u32 \<Rightarrow> u32 \<Rightarrow> u32) \<times> nat \<times> nat \<times> u32
    \<Rightarrow> (u32 \<Rightarrow> u32 \<Rightarrow> u32 \<Rightarrow> u32) \<times> nat \<times> nat \<times> u32 \<Rightarrow> (u32 \<Rightarrow> u32 \<Rightarrow> u32 \<Rightarrow> u32) \<times> nat \<times> nat \<times> u32
    \<Rightarrow> (u32 \<Rightarrow> u32 \<Rightarrow> u32 \<Rightarrow> u32) \<times> nat \<times> nat \<times> u32 \<Rightarrow> md5_regs \<Rightarrow> md5_regs" where
  "md5_quad X = (\<lambda>(f0, k0, s0, t0) (f1, k1, s1, t1) (f2, k2, s2, t2) (f3, k3, s3, t3) (a, b, c, d).
     (let a = md5_SET f0 X a b c d k0 s0 t0;
          d = md5_SET f1 X d a b c k1 s1 t1;
          c = md5_SET f2 X c d a b k2 s2 t2;
          b = md5_SET f3 X b c d a k3 s3 t3
      in (a, b, c, d)))"

lemma case_prod_Let: "case_prod f (Let x g) = Let x (\<lambda>y. case_prod f (g y))"
  by (simp add: Let_def)

lemma rfc_step_SET:
  "rfc_step X i (a, b, c, d) = (d, md5_SET (rfc_f i) X a b c d (rfc_k i) (rfc_s i) (md5_T ! i), b, c)"
  by (simp add: rfc_step_def md5_SET_def Let_def add_ac)

lemma rfc_quad:
  "rfc_step X i3 (rfc_step X i2 (rfc_step X i1 (rfc_step X i0 r))) =
     md5_quad X (rfc_f i0, rfc_k i0, rfc_s i0, md5_T ! i0) (rfc_f i1, rfc_k i1, rfc_s i1, md5_T ! i1)
       (rfc_f i2, rfc_k i2, rfc_s i2, md5_T ! i2) (rfc_f i3, rfc_k i3, rfc_s i3, md5_T ! i3) r"
  by (cases r) (simp only: rfc_step_SET md5_quad_def case_prod_conv Let_def)

lemma round1_quads: "md5_round1 X r = md5_quad X (md5_F, 12, 7, T 13) (md5_F, 13, 12, T 14) (md5_F, 14, 17, T 15) (md5_F, 15, 22, T 16)
      (md5_quad X (md5_F, 8, 7, T 9) (md5_F, 9, 12, T 10) (md5_F, 10, 17, T 11) (md5_F, 11, 22, T 12)
      (md5_quad X (md5_F, 4, 7, T 5) (md5_F, 5, 12, T 6) (md5_F, 6, 17, T 7) (md5_F, 7, 22, T 8)
      (md5_quad X (md5_F, 0, 7, T 1) (md5_F, 1, 12, T 2) (md5_F, 2, 17, T 3) (md5_F, 3, 22, T 4)
      r)))"
  by (cases r) (simp only: md5_round1_def md5_quad_def case_prod_conv case_prod_Let)

lemma rfc_round1: "fold (rfc_step X) [0, 1, 2, 3, 4, 5, 6, 7, 8, 9, 10, 11, 12, 13, 14, 15] r = md5_round1 X r"
  unfolding round1_quads fold_simps rfc_quad
  by (simp add: rfc_f_def rfc_k_def rfc_s_def)

lemma round2_quads: "md5_round2 X r = md5_quad X (md5_G, 13, 5, T 29) (md5_G, 2, 9, T 30) (md5_G, 7, 14, T 31) (md5_G, 12, 20, T 32)
      (md5_quad X (md5_G, 9, 5, T 25) (md5_G, 14, 9, T 26) (md5_G, 3, 14, T 27) (md5_G, 8, 20, T 28)
      (md5_quad X (md5_G, 5, 5, T 21) (md5_G, 10, 9, T 22) (md5_G, 15, 14, T 23) (md5_G, 4, 20, T 24)
      (md5_quad X (md5_G, 1, 5, T 17) (md5_G, 6, 9, T 18) (md5_G, 11, 14, T 19) (md5_G, 0, 20, T 20)
      r)))"
  by (cases r) (simp only: md5_round2_def md5_quad_def case_prod_conv case_prod_Let)

lemma rfc_round2: "fold (rfc_step X) [16, 17, 18, 19, 20, 21, 22, 23, 24, 25, 26, 27, 28, 29, 30, 31] r = md5_round2 X r"
  unfolding round2_quads fold_simps rfc_quad
  by (simp add: rfc_f_def rfc_k_def rfc_s_def)

lemma round3_quads: "md5_round3 X r = md5_quad X (md5_H, 9, 4, T 45) (md5_H, 12, 11, T 46) (md5_H, 15, 16, T 47) (md5_H, 2, 23, T 48)
      (md5_quad X (md5_H, 13, 4, T 41) (md5_H, 0, 11, T 42) (md5_H, 3, 16, T 43) (md5_H, 6, 23, T 44)
      (md5_quad X (md5_H, 1, 4, T 37) (md5_H, 4, 11, T 38) (md5_H, 7, 16, T 39) (md5_H, 10, 23, T 40)
      (md5_quad X (md5_H, 5, 4, T 33) (md5_H, 8, 11, T 34) (md5_H, 11, 16, T 35) (md5_H, 14, 23, T 36)
      r)))"
  by (cases r) (simp only: md5_round3_def md5_quad_def case_prod_conv case_prod_Let)

lemma rfc_round3: "fold (rfc_step X) [32, 33, 34, 35, 36, 37, 38, 39, 40, 41, 42, 43, 44, 45, 46, 47] r = md5_round3 X r"
  unfolding round3_quads fold_simps rfc_quad
  by (simp add: rfc_f_def rfc_k_def rfc_s_def)

lemma round4_quads: "md5_round4 X r = md5_quad X (md5_I, 4, 6, T 61) (md5_I, 11, 10, T 62) (md5_I, 2, 15, T 63) (md5_I, 9, 21, T 64)
      (md5_quad X (md5_I, 8, 6, T 57) (md5_I, 15, 10, T 58) (md5_I, 6, 15, T 59) (md5_I, 13, 21, T 60)
      (md5_quad X (md5_I, 12, 6, T 53) (md5_I, 3, 10, T 54) (md5_I, 10, 15, T 55) (md5_I, 1, 21, T 56)
      (md5_quad X (md5_I, 0, 6, T 49) (md5_I, 7, 10, T 50) (md5_I, 14, 15, T 51) (md5_I, 5, 21, T 52)
      r)))"
  by (cases r) (simp only: md5_round4_def md5_quad_def case_prod_conv case_prod_Let)

lemma rfc_round4: "fold (rfc_step X) [48, 49, 50, 51, 52, 53, 54, 55, 56, 57, 58, 59, 60, 61, 62, 63] r = md5_round4 X r"
  unfolding round4_quads fold_simps rfc_quad
  by (simp add: rfc_f_def rfc_k_def rfc_s_def)


lemma upt_64: "[0..<64] = [0, 1, 2, 3, 4, 5, 6, 7, 8, 9, 10, 11, 12, 13, 14, 15]
    @ [16, 17, 18, 19, 20, 21, 22, 23, 24, 25, 26, 27, 28, 29, 30, 31]
    @ [32, 33, 34, 35, 36, 37, 38, 39, 40, 41, 42, 43, 44, 45, 46, 47]
    @ [48, 49, 50, 51, 52, 53, 54, 55, 56, 57, 58, 59, 60, 61, 62, 63 :: nat]"
  by code_simp

lemma compress_rfc: "md5_compress r data = md5_add r (rfc_rounds (md5_X data) r)"
  by (simp only: md5_compress_def rfc_rounds_def upt_64 fold_append comp_apply Let_def
      rfc_round1 rfc_round2 rfc_round3 rfc_round4)

definition blocks64 :: "byte list \<Rightarrow> byte list list" where
  "blocks64 m = map (\<lambda>i. take 64 (drop (64 * i) m)) [0..<length m div 64]"

text \<open>The message with a one bit, zeros up to 56 bytes modulo 64, and its length in bits.\<close>

definition rfc_padded :: "byte list \<Rightarrow> byte list" where
  "rfc_padded m = m @ [0x80] @ replicate ((119 - length m mod 64) mod 64) 0
     @ word_bytes (word_of_nat (8 * length m)) @ word_bytes (word_of_nat (8 * length m div 2 ^ 32))"

definition regs_bytes :: "md5_regs \<Rightarrow> byte list" where
  "regs_bytes = (\<lambda>(a, b, c, d). word_bytes a @ word_bytes b @ word_bytes c @ word_bytes d)"

definition rfc_digest :: "byte list \<Rightarrow> byte list" where
  "rfc_digest m = regs_bytes (foldl (\<lambda>r b. md5_add r (rfc_rounds (md5_X b) r)) md5_iv (blocks64 (rfc_padded m)))"

lemma blocks64_block: "length b = 64 \<Longrightarrow> blocks64 (b @ m) = b # blocks64 m"
  by (simp add: blocks64_def upt_conv_Cons div64_step map_Suc_upt [symmetric] del: upt_Suc)

lemma blocks64_short: "length m < 64 \<Longrightarrow> blocks64 m = []"
  by (simp add: blocks64_def)

lemma chain_blocks: "md5_chain r m = foldl md5_compress r (blocks64 m)"
proof (induction "length m" arbitrary: m r rule: less_induct)
  case less
  show ?case
  proof (cases m rule: block_cases)
    case 1
    then show ?thesis by (simp add: chain_short blocks64_short)
  next
    case (2 b m')
    with less [of m' "md5_compress r b"] show ?thesis by (simp add: chain_block blocks64_block)
  qed
qed

lemma rfc_digest_chain: "rfc_digest m = regs_bytes (md5_chain md5_iv (rfc_padded m))"
  by (simp add: rfc_digest_def chain_blocks compress_rfc [abs_def])

lemma mod64_diff: "k < 2 ^ 32 \<Longrightarrow> (2 ^ 32 + 55 - k) mod 64 = (119 - k mod 64) mod 64" for k :: nat
proof -
  assume k: "k < 2 ^ 32"
  define q r where "q = k div 64" and "r = k mod 64"
  have kqr: "k = 64 * q + r" "r < 64" by (simp_all add: q_def r_def)
  with k have "2 ^ 32 + 55 - k = (119 - r) + 64 * (2 ^ 26 - 1 - q)" by simp
  then have "(2 ^ 32 + 55 - k) mod 64 = ((119 - r) + 64 * (2 ^ 26 - 1 - q)) mod 64"
    by (rule arg_cong)
  also have "\<dots> = (119 - r) mod 64" by (rule mod_mult_self2)
  finally show ?thesis by (simp only: r_def)
qed

lemma pad_count: "unat ((55 - drop_bit 3 (word_of_nat (8 * l) :: u32)) AND 63) = (119 - l mod 64) mod 64"
proof -
  let ?w = "drop_bit 3 (word_of_nat (8 * l) :: u32)"
  have w: "unat ?w = l mod 2 ^ 29"
    unfolding unat_drop_bit_eq unat_u32 using mod_mult_mult1 [of 8 l "2 ^ 29"] by (simp add: drop_bit_eq_div)
  have k: "unat ?w < 2 ^ 32" unfolding w by (rule less_le_trans [OF mod_less_divisor]) simp_all
  have "word_of_nat (2 ^ 32 + 55 - unat ?w) + ?w = (word_of_nat (2 ^ 32 + 55 - unat ?w + unat ?w) :: u32)"
    by (simp only: of_nat_add of_nat_unat ucast_id)
  also have "\<dots> = 55"
    using k by simp
  finally have d: "55 - ?w = word_of_nat (2 ^ 32 + 55 - unat ?w)"
    by (simp only: diff_eq_eq)
  have m: "x AND 63 = take_bit 6 x" for x :: u32
    by (simp add: take_bit_eq_mask mask_eq_exp_minus_1)
  have "unat ((55 - ?w) AND 63) = (2 ^ 32 + 55 - unat ?w) mod 2 ^ 32 mod 64"
    unfolding d m unsigned_take_bit_eq unat_u32 by (simp add: take_bit_eq_mod)
  also have "\<dots> = (2 ^ 32 + 55 - unat ?w) mod 64"
    by (rule mod_mod_cancel) simp
  also have "\<dots> = (119 - l mod 64) mod 64"
    using mod64_diff [OF k] unfolding w by (simp add: mod_mod_cancel)
  finally show ?thesis .
qed

lemma md5_finish_rep:
  assumes "md5_rep m s"
  shows "\<exists>s'. md5_finish s = Some (s', rfc_digest m)"
proof -
  let ?n = "(119 - length m mod 64) mod 64"
  let ?data = "word_bytes (count0 s) @ word_bytes (count1 s)"
  have c: "count0 s = word_of_nat (8 * length m)" "count1 s = word_of_nat (8 * length m div 2 ^ 32)"
    using assms by (simp_all only: md5_rep_def)
  have n: "?n \<le> 63" using mod_less_divisor [of 64 "119 - length m mod 64"] by simp
  then have pad: "take (unat ((55 - drop_bit 3 (count0 s)) AND 63) + 1) md5_pad = [0x80] @ replicate ?n 0"
    unfolding c(1) pad_count md5_pad_def by simp
  obtain s1 where 1: "md5_append s ([0x80] @ replicate ?n 0) = Some s1" "md5_rep (m @ [0x80] @ replicate ?n 0) s1"
    using md5.app_rep [OF assms] by blast
  obtain s2 where 2: "md5_append s1 ?data = Some s2" "md5_rep ((m @ [0x80] @ replicate ?n 0) @ ?data) s2"
    using md5.app_rep [OF 1(2)] by blast
  have "abcd s2 = md5_chain md5_iv (rfc_padded m)"
    using 2(2) by (simp only: md5_rep_def rfc_padded_def c append_assoc)
  then have "md5_finish s = Some (s2, rfc_digest m)"
    unfolding md5_finish_def Let_def pad 1(1) bind.bind_lunit 2(1) rfc_digest_chain
    by (simp add: regs_bytes_def split: prod.splits)
  then show ?thesis by blast
qed


section \<open>The hexadecimal form\<close>

lemma hex_digits_inj:
  "md5_hex ! unat (drop_bit 4 a) = md5_hex ! unat (drop_bit 4 b) \<Longrightarrow>
   md5_hex ! unat (a AND 0xF) = md5_hex ! unat (b AND 0xF) \<Longrightarrow> a = b" for a b :: byte
proof -
  assume eq: "md5_hex ! unat (drop_bit 4 a) = md5_hex ! unat (drop_bit 4 b)"
    "md5_hex ! unat (a AND 0xF) = md5_hex ! unat (b AND 0xF)"
  have inj: "i = j" if "md5_hex ! i = md5_hex ! j" "i < 16" "j < 16" for i j
    using nth_eq_iff_index_eq [of md5_hex i j] that by (simp add: md5_hex_def)
  have hi: "unat (drop_bit 4 x) < 16" for x :: byte
  proof -
    have "unat (drop_bit 4 x) = unat x div 16"
      by (simp only: unat_drop_bit_eq) (simp add: drop_bit_eq_div)
    then show ?thesis using unat_byte_less [of x] by (simp add: less_mult_imp_div_less)
  qed
  have m: "x AND 0xF = take_bit 4 x" for x :: byte
    by (simp add: take_bit_eq_mask mask_eq_exp_minus_1)
  have lo: "unat (x AND 0xF) < 16" for x :: byte
    unfolding m unsigned_take_bit_eq using take_bit_nat_less_exp [of 4 "unat x"] by simp
  from eq inj hi lo have "unat (drop_bit 4 a) = unat (drop_bit 4 b)" "unat (a AND 0xF) = unat (b AND 0xF)"
    by blast+
  then have d: "drop_bit 4 a = drop_bit 4 b" "take_bit 4 a = take_bit 4 b"
    unfolding m by (simp_all only: word_unat_eq_iff)
  have "push_bit 4 (drop_bit 4 x) OR take_bit 4 x = x" for x :: byte
    by (rule byte_eqI, simp add: bit_simps, elim byte_less_8_cases; simp add: byte_bit_cases)
  with d show "a = b" by metis
qed

lemma DigestToHex_inj: "kwsysMD5_DigestToHex xs = kwsysMD5_DigestToHex ys \<Longrightarrow> xs = ys"
proof (induction xs arbitrary: ys)
  case Nil
  then show ?case by (cases ys) (simp_all add: kwsysMD5_DigestToHex_def)
next
  case (Cons a xs)
  then show ?case
    by (cases ys) (auto simp: kwsysMD5_DigestToHex_def dest: hex_digits_inj)
qed

section \<open>Properties\<close>

text \<open>C38. After initialisation and any sequence of appends, finishing writes the RFC 1321 digest of
  the concatenation of what was appended: neither the cutting into pieces nor what the block
  buffer held before matters, and no copy leaves the buffer.\<close>

theorem MD5_incremental:
  assumes "length (buf md5) = 64"
  shows "\<exists>md5'. do { s \<leftarrow> feed md5_append (kwsysMD5_Initialize md5) xs; kwsysMD5_Finalize s }
    = Some (md5', rfc_digest (concat xs))"
proof -
  have "md5_rep [] (kwsysMD5_Initialize md5)"
    using assms by (simp add: kwsysMD5_Initialize_def md5_rep_init)
  from md5.feed_rep [OF this, of xs] obtain s where
    "feed md5_append (kwsysMD5_Initialize md5) xs = Some s" "md5_rep (concat xs) s"
    by auto
  with md5_finish_rep show ?thesis by (auto simp: kwsysMD5_Finalize_def)
qed

theorem MD5_incremental_witness:
  "\<exists>md5'. do { s \<leftarrow> feed md5_append (kwsysMD5_Initialize
        \<lparr>count0 = 3, count1 = 9, abcd = (1, 2, 3, 4), buf = replicate 64 7\<rparr>) [[0x61], [], [0x62, 0x63]];
      kwsysMD5_Finalize s } = Some (md5', rfc_digest [0x61, 0x62, 0x63])"
  using MD5_incremental [of "\<lparr>count0 = 3, count1 = 9, abcd = (1, 2, 3, 4), buf = replicate 64 7\<rparr>"
      "[[0x61], [], [0x62, 0x63]]"] by simp

text \<open>The unrolled block function, with its constants and its four sets of macros, is the loop
  of RFC 1321 over 64 steps with the formulas for the function, the message word and the
  rotation of each step.\<close>

theorem md5_process_rfc1321:
  "md5_process s data = s\<lparr>abcd := md5_add (abcd s) (fold (rfc_step (md5_X data)) [0..<64] (abcd s))\<rparr>"
  by (simp only: md5_process_compress compress_rfc rfc_rounds_def)

text \<open>\<open>kwsysMD5_Append\<close> with a negative length appends the bytes before the terminator, which is
  the same as appending them with their length.\<close>

theorem Append_negative_length:
  assumes "c_string data = Some str" and "len < 0"
  shows "kwsysMD5_Append md5 data len = kwsysMD5_Append md5 data (int (length str))"
  using assms by (auto simp: kwsysMD5_Append_def mem_read_def c_string_iff)

theorem Append_negative_length_witness:
  "kwsysMD5_Append \<lparr>count0 = 0, count1 = 0, abcd = (1, 2, 3, 4), buf = replicate 64 0\<rparr> [0x61, 0x62, 0, 0x63] (- 1)
     = kwsysMD5_Append \<lparr>count0 = 0, count1 = 0, abcd = (1, 2, 3, 4), buf = replicate 64 0\<rparr> [0x61, 0x62, 0, 0x63] 2"
proof -
  have "c_string [0x61, 0x62, 0, 0x63] = Some [0x61, 0x62]" by code_simp
  from Append_negative_length [OF this, of "- 1"] show ?thesis by simp
qed

text \<open>The hexadecimal digest after any sequence of appends is the hexadecimal form of the
  reference digest, and two of them agree exactly when the digests do.\<close>

theorem FinalizeHex_faithful:
  assumes "length (buf a) = 64" and "length (buf b) = 64"
  shows "\<exists>a' b' hex hex'.
      do { s \<leftarrow> feed md5_append (kwsysMD5_Initialize a) xs; kwsysMD5_FinalizeHex s } = Some (a', hex)
    \<and> do { s \<leftarrow> feed md5_append (kwsysMD5_Initialize b) ys; kwsysMD5_FinalizeHex s } = Some (b', hex')
    \<and> hex = kwsysMD5_DigestToHex (rfc_digest (concat xs))
    \<and> (hex = hex' \<longleftrightarrow> rfc_digest (concat xs) = rfc_digest (concat ys))"
proof -
  have i: "md5_rep [] (kwsysMD5_Initialize a)" "md5_rep [] (kwsysMD5_Initialize b)"
    using assms by (simp_all add: kwsysMD5_Initialize_def md5_rep_init)
  from md5.feed_rep [OF i(1), of xs] md5.feed_rep [OF i(2), of ys] obtain s t where
    s: "feed md5_append (kwsysMD5_Initialize a) xs = Some s" "md5_rep (concat xs) s"
    and t: "feed md5_append (kwsysMD5_Initialize b) ys = Some t" "md5_rep (concat ys) t"
    by auto
  from md5_finish_rep [OF s(2)] md5_finish_rep [OF t(2)] s(1) t(1) show ?thesis
    by (auto simp: kwsysMD5_FinalizeHex_def kwsysMD5_Finalize_def dest: DigestToHex_inj)
qed

theorem FinalizeHex_faithful_witness:
  "\<exists>a' b' hex hex'.
      do { s \<leftarrow> feed md5_append (kwsysMD5_Initialize
        \<lparr>count0 = 3, count1 = 9, abcd = (1, 2, 3, 4), buf = replicate 64 7\<rparr>) [[1, 2]]; kwsysMD5_FinalizeHex s } = Some (a', hex)
    \<and> do { s \<leftarrow> feed md5_append (kwsysMD5_Initialize
        \<lparr>count0 = 0, count1 = 0, abcd = (1, 2, 3, 4), buf = replicate 64 0\<rparr>) [[1], [2]]; kwsysMD5_FinalizeHex s } = Some (b', hex')
    \<and> hex = kwsysMD5_DigestToHex (rfc_digest (concat [[1, 2]]))
    \<and> (hex = hex' \<longleftrightarrow> rfc_digest (concat [[1, 2]]) = rfc_digest (concat [[1], [2]]))"
  by (rule FinalizeHex_faithful) simp_all

end
