(* ===== verification/Terminal.thy ===== *)
theory Terminal
  imports Prelude
begin

text \<open>
  \<^verbatim>\<open>Source/kwsys/Terminal.c\<close> and its header: colored output.  A color is a 32-bit word of
  or-ed enumeration values.  What a call does is the list of its effects on the stream and the
  console, in order.  The environment (\<open>getenv\<close>), the text \<open>vfprintf\<close> produces and what the
  system says of the stream are parameters; so are the attribute constants of the Windows SDK.

  The lemmas show, with a small model of a terminal that reads the escape sequences, that the
  text is displayed in exactly the requested colors and the terminal is left normal; the order
  in which the environment decides; that a Windows console gets its colors back.
\<close>

section \<open>Colors\<close>

definition Color_Normal :: u32 where "Color_Normal = 0"
definition Color_ForegroundBlack :: u32 where "Color_ForegroundBlack = 0x1"
definition Color_ForegroundRed :: u32 where "Color_ForegroundRed = 0x2"
definition Color_ForegroundGreen :: u32 where "Color_ForegroundGreen = 0x3"
definition Color_ForegroundYellow :: u32 where "Color_ForegroundYellow = 0x4"
definition Color_ForegroundBlue :: u32 where "Color_ForegroundBlue = 0x5"
definition Color_ForegroundMagenta :: u32 where "Color_ForegroundMagenta = 0x6"
definition Color_ForegroundCyan :: u32 where "Color_ForegroundCyan = 0x7"
definition Color_ForegroundWhite :: u32 where "Color_ForegroundWhite = 0x8"
definition Color_ForegroundMask :: u32 where "Color_ForegroundMask = 0xF"
definition Color_BackgroundBlack :: u32 where "Color_BackgroundBlack = 0x10"
definition Color_BackgroundRed :: u32 where "Color_BackgroundRed = 0x20"
definition Color_BackgroundGreen :: u32 where "Color_BackgroundGreen = 0x30"
definition Color_BackgroundYellow :: u32 where "Color_BackgroundYellow = 0x40"
definition Color_BackgroundBlue :: u32 where "Color_BackgroundBlue = 0x50"
definition Color_BackgroundMagenta :: u32 where "Color_BackgroundMagenta = 0x60"
definition Color_BackgroundCyan :: u32 where "Color_BackgroundCyan = 0x70"
definition Color_BackgroundWhite :: u32 where "Color_BackgroundWhite = 0x80"
definition Color_BackgroundMask :: u32 where "Color_BackgroundMask = 0xF0"
definition Color_ForegroundBold :: u32 where "Color_ForegroundBold = 0x100"
definition Color_BackgroundBold :: u32 where "Color_BackgroundBold = 0x200"
definition Color_AssumeTTY :: u32 where "Color_AssumeTTY = 0x400"
definition Color_AssumeVT100 :: u32 where "Color_AssumeVT100 = 0x800"

lemmas Color_defs = Color_Normal_def Color_ForegroundBlack_def Color_ForegroundRed_def Color_ForegroundGreen_def Color_ForegroundYellow_def Color_ForegroundBlue_def Color_ForegroundMagenta_def Color_ForegroundCyan_def Color_ForegroundWhite_def Color_ForegroundMask_def Color_BackgroundBlack_def Color_BackgroundRed_def Color_BackgroundGreen_def Color_BackgroundYellow_def Color_BackgroundBlue_def Color_BackgroundMagenta_def Color_BackgroundCyan_def Color_BackgroundWhite_def Color_BackgroundMask_def Color_ForegroundBold_def Color_BackgroundBold_def Color_AssumeTTY_def Color_AssumeVT100_def

section \<open>Detecting a VT100 terminal\<close>

definition kwsysTerminalVT100Names :: "string list" where
  "kwsysTerminalVT100Names = [
     ''Eterm'', ''alacritty'', ''alacritty-direct'', ''ansi'', ''color-xterm'', ''con132x25'',
     ''con132x30'', ''con132x43'', ''con132x60'', ''con80x25'', ''con80x28'', ''con80x30'',
     ''con80x43'', ''con80x50'', ''con80x60'', ''cons25'', ''console'', ''cygwin'', ''dtterm'',
     ''eterm-color'', ''gnome'', ''gnome-256color'', ''konsole'', ''konsole-256color'',
     ''kterm'', ''linux'', ''msys'', ''linux-c'', ''mach-color'', ''mlterm'', ''putty'',
     ''putty-256color'', ''rxvt'', ''rxvt-256color'', ''rxvt-cygwin'', ''rxvt-cygwin-native'',
     ''rxvt-unicode'', ''rxvt-unicode-256color'', ''screen'', ''screen-256color'',
     ''screen-256color-bce'', ''screen-bce'', ''screen-w'', ''screen.linux'', ''st-256color'',
     ''tmux'', ''tmux-256color'', ''vt100'', ''xterm'', ''xterm-16color'', ''xterm-256color'',
     ''xterm-88color'', ''xterm-color'', ''xterm-debian'', ''xterm-kitty'', ''xterm-termite'']"

text \<open>
  What the system says of the stream: \<open>isatty_works\<close> is the platform (otherwise a stream can
  only be known not to be interactive, when it is a regular file).
\<close>

record stream_info =
  isatty_works :: bool
  isatty :: bool
  regular_file :: bool

type_synonym env = "string \<Rightarrow> string option"

definition kwsysTerminalStreamIsNotInteractive :: "stream_info \<Rightarrow> bool" where
  "kwsysTerminalStreamIsNotInteractive stream = regular_file stream"

text \<open>The search of the name in the table; the table ends with a null pointer.\<close>

fun vt100_name :: "string list \<Rightarrow> string \<Rightarrow> bool" where
  "vt100_name [] term = False"
| "vt100_name (t # ts) term = (term = t \<or> vt100_name ts term)"

definition kwsysTerminalStreamIsVT100 :: "env \<Rightarrow> stream_info \<Rightarrow> bool \<Rightarrow> bool \<Rightarrow> bool" where
  "kwsysTerminalStreamIsVT100 getenv stream default_vt100 default_tty =
     (if (case getenv ''CLICOLOR_FORCE'' of None \<Rightarrow> False | Some f \<Rightarrow> f \<noteq> '''' \<and> f \<noteq> ''0'') then True
      else if getenv ''CLICOLOR'' = Some ''0'' then False
      else if (case getenv ''MAKE_TERMOUT'' of None \<Rightarrow> False | Some t \<Rightarrow> t \<noteq> '''') then True
      else if (case getenv ''EMACS'' of None \<Rightarrow> False | Some e \<Rightarrow> e \<noteq> '''' \<and> hd e = CHR ''t'') then False
      else if \<not> default_vt100 \<and>
        \<not> (case getenv ''TERM'' of None \<Rightarrow> False | Some term \<Rightarrow> vt100_name kwsysTerminalVT100Names term)
      then False
      else if isatty_works stream then isatty stream
      else if kwsysTerminalStreamIsNotInteractive stream then False
      else default_tty)"

section \<open>Escape sequences\<close>

definition ESCAPE_CHAR :: string where "ESCAPE_CHAR = [CHR 0x1B]"
definition VT100_NORMAL :: string where "VT100_NORMAL = ESCAPE_CHAR @ ''[0m''"
definition VT100_BOLD :: string where "VT100_BOLD = ESCAPE_CHAR @ ''[1m''"
definition VT100_UNDERLINE :: string where "VT100_UNDERLINE = ESCAPE_CHAR @ ''[4m''"
definition VT100_BLINK :: string where "VT100_BLINK = ESCAPE_CHAR @ ''[5m''"
definition VT100_INVERSE :: string where "VT100_INVERSE = ESCAPE_CHAR @ ''[7m''"
definition VT100_FOREGROUND_BLACK :: string where "VT100_FOREGROUND_BLACK = ESCAPE_CHAR @ ''[30m''"
definition VT100_FOREGROUND_RED :: string where "VT100_FOREGROUND_RED = ESCAPE_CHAR @ ''[31m''"
definition VT100_FOREGROUND_GREEN :: string where "VT100_FOREGROUND_GREEN = ESCAPE_CHAR @ ''[32m''"
definition VT100_FOREGROUND_YELLOW :: string where "VT100_FOREGROUND_YELLOW = ESCAPE_CHAR @ ''[33m''"
definition VT100_FOREGROUND_BLUE :: string where "VT100_FOREGROUND_BLUE = ESCAPE_CHAR @ ''[34m''"
definition VT100_FOREGROUND_MAGENTA :: string where "VT100_FOREGROUND_MAGENTA = ESCAPE_CHAR @ ''[35m''"
definition VT100_FOREGROUND_CYAN :: string where "VT100_FOREGROUND_CYAN = ESCAPE_CHAR @ ''[36m''"
definition VT100_FOREGROUND_WHITE :: string where "VT100_FOREGROUND_WHITE = ESCAPE_CHAR @ ''[37m''"
definition VT100_BACKGROUND_BLACK :: string where "VT100_BACKGROUND_BLACK = ESCAPE_CHAR @ ''[40m''"
definition VT100_BACKGROUND_RED :: string where "VT100_BACKGROUND_RED = ESCAPE_CHAR @ ''[41m''"
definition VT100_BACKGROUND_GREEN :: string where "VT100_BACKGROUND_GREEN = ESCAPE_CHAR @ ''[42m''"
definition VT100_BACKGROUND_YELLOW :: string where "VT100_BACKGROUND_YELLOW = ESCAPE_CHAR @ ''[43m''"
definition VT100_BACKGROUND_BLUE :: string where "VT100_BACKGROUND_BLUE = ESCAPE_CHAR @ ''[44m''"
definition VT100_BACKGROUND_MAGENTA :: string where "VT100_BACKGROUND_MAGENTA = ESCAPE_CHAR @ ''[45m''"
definition VT100_BACKGROUND_CYAN :: string where "VT100_BACKGROUND_CYAN = ESCAPE_CHAR @ ''[46m''"
definition VT100_BACKGROUND_WHITE :: string where "VT100_BACKGROUND_WHITE = ESCAPE_CHAR @ ''[47m''"

lemmas VT100_defs = ESCAPE_CHAR_def VT100_NORMAL_def VT100_BOLD_def VT100_UNDERLINE_def VT100_BLINK_def VT100_INVERSE_def VT100_FOREGROUND_BLACK_def VT100_FOREGROUND_RED_def VT100_FOREGROUND_GREEN_def VT100_FOREGROUND_YELLOW_def VT100_FOREGROUND_BLUE_def VT100_FOREGROUND_MAGENTA_def VT100_FOREGROUND_CYAN_def VT100_FOREGROUND_WHITE_def VT100_BACKGROUND_BLACK_def VT100_BACKGROUND_RED_def VT100_BACKGROUND_GREEN_def VT100_BACKGROUND_YELLOW_def VT100_BACKGROUND_BLUE_def VT100_BACKGROUND_MAGENTA_def VT100_BACKGROUND_CYAN_def VT100_BACKGROUND_WHITE_def

text \<open>The two switches of \<open>kwsysTerminalSetVT100Color\<close> and the whole function: what it writes.\<close>

definition vt100_foreground :: "u32 \<Rightarrow> string" where
  "vt100_foreground c =
     (if c = Color_Normal then VT100_NORMAL
      else if c = Color_ForegroundBlack then VT100_FOREGROUND_BLACK
      else if c = Color_ForegroundRed then VT100_FOREGROUND_RED
      else if c = Color_ForegroundGreen then VT100_FOREGROUND_GREEN
      else if c = Color_ForegroundYellow then VT100_FOREGROUND_YELLOW
      else if c = Color_ForegroundBlue then VT100_FOREGROUND_BLUE
      else if c = Color_ForegroundMagenta then VT100_FOREGROUND_MAGENTA
      else if c = Color_ForegroundCyan then VT100_FOREGROUND_CYAN
      else if c = Color_ForegroundWhite then VT100_FOREGROUND_WHITE
      else '''')"

definition vt100_background :: "u32 \<Rightarrow> string" where
  "vt100_background c =
     (if c = Color_BackgroundBlack then VT100_BACKGROUND_BLACK
      else if c = Color_BackgroundRed then VT100_BACKGROUND_RED
      else if c = Color_BackgroundGreen then VT100_BACKGROUND_GREEN
      else if c = Color_BackgroundYellow then VT100_BACKGROUND_YELLOW
      else if c = Color_BackgroundBlue then VT100_BACKGROUND_BLUE
      else if c = Color_BackgroundMagenta then VT100_BACKGROUND_MAGENTA
      else if c = Color_BackgroundCyan then VT100_BACKGROUND_CYAN
      else if c = Color_BackgroundWhite then VT100_BACKGROUND_WHITE
      else '''')"

definition kwsysTerminalSetVT100Color :: "u32 \<Rightarrow> string" where
  "kwsysTerminalSetVT100Color color =
     (if color = Color_Normal then VT100_NORMAL
      else vt100_foreground (color AND Color_ForegroundMask)
           @ vt100_background (color AND Color_BackgroundMask)
           @ (if color AND Color_ForegroundBold \<noteq> 0 then VT100_BOLD else ''''))"

section \<open>Windows consoles\<close>

type_synonym attributes = "16 word"

record console_constants =
  FOREGROUND_BLUE :: attributes
  FOREGROUND_GREEN :: attributes
  FOREGROUND_RED :: attributes
  FOREGROUND_INTENSITY :: attributes
  BACKGROUND_BLUE :: attributes
  BACKGROUND_GREEN :: attributes
  BACKGROUND_RED :: attributes
  BACKGROUND_INTENSITY :: attributes

definition mask_foreground :: "console_constants \<Rightarrow> attributes" where
  "mask_foreground w = FOREGROUND_BLUE w OR FOREGROUND_GREEN w OR FOREGROUND_RED w OR FOREGROUND_INTENSITY w"

definition mask_background :: "console_constants \<Rightarrow> attributes" where
  "mask_background w = BACKGROUND_BLUE w OR BACKGROUND_GREEN w OR BACKGROUND_RED w OR BACKGROUND_INTENSITY w"

definition console_foreground :: "console_constants \<Rightarrow> attributes \<Rightarrow> u32 \<Rightarrow> attributes" where
  "console_foreground w wAttributes c =
     (if c = Color_Normal then wAttributes AND mask_foreground w
      else if c = Color_ForegroundBlack then 0
      else if c = Color_ForegroundRed then FOREGROUND_RED w
      else if c = Color_ForegroundGreen then FOREGROUND_GREEN w
      else if c = Color_ForegroundYellow then FOREGROUND_RED w OR FOREGROUND_GREEN w
      else if c = Color_ForegroundBlue then FOREGROUND_BLUE w
      else if c = Color_ForegroundMagenta then FOREGROUND_RED w OR FOREGROUND_BLUE w
      else if c = Color_ForegroundCyan then FOREGROUND_BLUE w OR FOREGROUND_GREEN w
      else if c = Color_ForegroundWhite then FOREGROUND_BLUE w OR FOREGROUND_GREEN w OR FOREGROUND_RED w
      else 0)"

definition console_background :: "console_constants \<Rightarrow> attributes \<Rightarrow> u32 \<Rightarrow> attributes" where
  "console_background w wAttributes c =
     (if c = Color_Normal then wAttributes AND mask_background w
      else if c = Color_BackgroundBlack then 0
      else if c = Color_BackgroundRed then BACKGROUND_RED w
      else if c = Color_BackgroundGreen then BACKGROUND_GREEN w
      else if c = Color_BackgroundYellow then BACKGROUND_RED w OR BACKGROUND_GREEN w
      else if c = Color_BackgroundBlue then BACKGROUND_BLUE w
      else if c = Color_BackgroundMagenta then BACKGROUND_RED w OR BACKGROUND_BLUE w
      else if c = Color_BackgroundCyan then BACKGROUND_BLUE w OR BACKGROUND_GREEN w
      else if c = Color_BackgroundWhite then BACKGROUND_BLUE w OR BACKGROUND_GREEN w OR BACKGROUND_RED w
      else 0)"

datatype effect = Write string | Flush | SetConsoleTextAttribute attributes

definition kwsysTerminalSetConsoleColor :: "console_constants \<Rightarrow> attributes \<Rightarrow> u32 \<Rightarrow> effect list" where
  "kwsysTerminalSetConsoleColor w wAttributes color =
     (let attributes = console_foreground w wAttributes (color AND Color_ForegroundMask)
            OR console_background w wAttributes (color AND Color_BackgroundMask)
            OR (if color AND Color_ForegroundBold \<noteq> 0 then FOREGROUND_INTENSITY w else 0)
            OR (if color AND Color_BackgroundBold \<noteq> 0 then BACKGROUND_INTENSITY w else 0)
      in [Flush, SetConsoleTextAttribute attributes])"

section \<open>Printing\<close>

text \<open>
  \<open>console\<close> is what \<open>GetConsoleScreenBufferInfo\<close> says of the stream (nothing on other systems),
  \<open>txt\<close> what \<open>vfprintf\<close> writes.
\<close>

definition kwsysTerminal_cfprintf ::
  "env \<Rightarrow> stream_info \<Rightarrow> (console_constants \<times> attributes) option \<Rightarrow> u32 \<Rightarrow> string \<Rightarrow> effect list" where
  "kwsysTerminal_cfprintf getenv stream console color txt =
     (let default_vt100 = color AND Color_AssumeVT100 \<noteq> 0;
          default_tty = color AND Color_AssumeTTY \<noteq> 0;
          pipeIsConsole = console \<noteq> None;
          pipeIsVT100 = \<not> pipeIsConsole
            \<and> kwsysTerminalStreamIsVT100 getenv stream default_vt100 default_tty
      in (case console of Some (w, a) \<Rightarrow> kwsysTerminalSetConsoleColor w a color | None \<Rightarrow> [])
         @ (if pipeIsVT100 then [Write (kwsysTerminalSetVT100Color color)] else [])
         @ [Write txt]
         @ (case console of Some (w, a) \<Rightarrow> kwsysTerminalSetConsoleColor w a Color_Normal | None \<Rightarrow> [])
         @ (if pipeIsVT100 then [Write (kwsysTerminalSetVT100Color Color_Normal)] else []))"

section \<open>A terminal\<close>

text \<open>
  The part of a VT100 terminal the sequences concern: the colors in effect, and the characters
  displayed with the colors they got.  Colors are numbered as in the sequences.
\<close>

record vt =
  fg :: "nat option"
  bg :: "nat option"
  bold :: bool

definition vt_normal :: vt where
  "vt_normal = \<lparr>fg = None, bg = None, bold = False\<rparr>"

definition vt_sgr :: "nat \<Rightarrow> vt \<Rightarrow> vt" where
  "vt_sgr n st =
     (if n = 0 then vt_normal else if n = 1 then st\<lparr>bold := True\<rparr>
      else if 30 \<le> n \<and> n < 38 then st\<lparr>fg := Some (n - 30)\<rparr>
      else if 40 \<le> n \<and> n < 48 then st\<lparr>bg := Some (n - 40)\<rparr> else st)"

definition digit :: "char \<Rightarrow> nat" where
  "digit c = of_char c - 48"

text \<open>A sequence is an escape, a bracket, one or two digits and the letter \<open>m\<close>.\<close>

fun sgr_sequence :: "string \<Rightarrow> (nat \<times> nat) option" where
  "sgr_sequence (b # d # m # s) =
     (if b = CHR ''['' \<and> m = CHR ''m'' then Some (digit d, 3)
      else case s of
        m' # s' \<Rightarrow> if b = CHR ''['' \<and> m' = CHR ''m'' then Some (10 * digit d + digit m, 4) else None
      | [] \<Rightarrow> None)"
| "sgr_sequence _ = None"

function vt_run :: "vt \<Rightarrow> string \<Rightarrow> (char \<times> vt) list \<times> vt" where
  "vt_run st [] = ([], st)"
| "vt_run st (c # s) =
     (if c = CHR 0x1B
      then case sgr_sequence s of
             Some (n, k) \<Rightarrow> vt_run (vt_sgr n st) (drop k s)
           | None \<Rightarrow> vt_run st s
      else let (out, st') = vt_run st s in ((c, st) # out, st'))"
  by pat_completeness auto
termination
  by (relation "measure (length \<circ> snd)") auto

text \<open>The colors a valid color value asks for; each of the two fields has at most one color.\<close>

definition valid_color :: "u32 \<Rightarrow> bool" where
  "valid_color color \<longleftrightarrow> unat (color AND 0xF) \<le> 8 \<and> unat (drop_bit 4 (color AND 0xF0)) \<le> 8"

definition color_number :: "nat \<Rightarrow> nat option" where
  "color_number n = (if n = 0 then None else Some (n - 1))"

definition color_vt :: "u32 \<Rightarrow> vt" where
  "color_vt color =
     \<lparr>fg = color_number (unat (color AND 0xF)), bg = color_number (unat (drop_bit 4 (color AND 0xF0))),
      bold = (color AND 0x100 \<noteq> 0)\<rparr>"

section \<open>What is displayed\<close>

lemma vt_run_plain:
  "CHR 0x1B \<notin> set s \<Longrightarrow> vt_run st (s @ s') = (map (\<lambda>c. (c, st)) s @ fst (vt_run st s'), snd (vt_run st s'))"
  by (induction s) (auto simp: Let_def split: prod.splits)

lemma nat_le_8_cases:
  fixes n :: nat
  assumes "n \<le> 8"
  obtains "n = 0" | "n = 1" | "n = 2" | "n = 3" | "n = 4" | "n = 5" | "n = 6" | "n = 7" | "n = 8"
  using assms by linarith

lemma foreground_shown:
  assumes "n \<le> 8"
  shows "vt_run vt_normal (vt100_foreground (word_of_nat n) @ s) = vt_run (vt_normal\<lparr>fg := color_number n\<rparr>) s"
  using assms
  by (cases rule: nat_le_8_cases)
    (simp_all add: vt100_foreground_def Color_defs VT100_defs vt_sgr_def digit_def color_number_def
      vt_normal_def)

lemma background_shown:
  assumes "n \<le> 8" "bg st = None"
  shows "vt_run st (vt100_background (push_bit 4 (word_of_nat n)) @ s) = vt_run (st\<lparr>bg := color_number n\<rparr>) s"
proof -
  have "st\<lparr>bg := None\<rparr> = st" using assms(2) by (cases st) simp
  with assms(1) show ?thesis
    by (cases rule: nat_le_8_cases)
      (simp_all add: vt100_background_def Color_defs VT100_defs vt_sgr_def digit_def color_number_def
        push_bit_eq_mult)
qed

lemma normal_shown: "vt_run st (VT100_NORMAL @ s) = vt_run vt_normal s"
  by (simp add: VT100_defs vt_sgr_def digit_def)

lemma bold_shown: "vt_run st (VT100_BOLD @ s) = vt_run (st\<lparr>bold := True\<rparr>) s"
  by (simp add: VT100_defs vt_sgr_def digit_def)

lemma high_nibble: "(color AND 0xF0 :: u32) = push_bit 4 (word_of_nat (unat (drop_bit 4 (color AND 0xF0))))"
proof -
  have "4 \<le> n" if "bit (0xF0 :: u32) n" for n
  proof (rule ccontr)
    assume "\<not> 4 \<le> n"
    then have "n = 0 \<or> n = 1 \<or> n = 2 \<or> n = 3" by linarith
    with that show False by (auto simp: numeral_2_eq_2 numeral_3_eq_3)
  qed
  then have "push_bit 4 (drop_bit 4 (color AND 0xF0)) = color AND 0xF0"
    by (intro bit_word_eqI) (auto simp: bit_simps)
  then show ?thesis by simp
qed

lemma SetVT100Color_shown:
  assumes "valid_color color"
  shows "vt_run vt_normal (kwsysTerminalSetVT100Color color @ s) = vt_run (color_vt color) s"
proof (cases "color = 0")
  case True
  then show ?thesis
    by (simp add: kwsysTerminalSetVT100Color_def Color_Normal_def color_vt_def color_number_def
        normal_shown vt_normal_def)
next
  case False
  let ?f = "unat (color AND 0xF)" and ?b = "unat (drop_bit 4 (color AND 0xF0))"
  let ?bold = "if color AND 0x100 \<noteq> 0 then VT100_BOLD else ''''"
  have "kwsysTerminalSetVT100Color color
      = vt100_foreground (word_of_nat ?f) @ vt100_background (push_bit 4 (word_of_nat ?b)) @ ?bold"
    unfolding high_nibble [symmetric]
    using False by (simp add: kwsysTerminalSetVT100Color_def Color_Normal_def Color_ForegroundMask_def
        Color_BackgroundMask_def Color_ForegroundBold_def)
  moreover have "vt_run vt_normal ((vt100_foreground (word_of_nat ?f)
        @ vt100_background (push_bit 4 (word_of_nat ?b)) @ ?bold) @ s)
      = vt_run (vt_normal\<lparr>fg := color_number ?f\<rparr>) (vt100_background (push_bit 4 (word_of_nat ?b)) @ ?bold @ s)"
    unfolding append_assoc using assms unfolding valid_color_def by (intro foreground_shown) (rule conjunct1)
  moreover have "\<dots> = vt_run (vt_normal\<lparr>fg := color_number ?f, bg := color_number ?b\<rparr>) (?bold @ s)"
    using assms unfolding valid_color_def
    by (subst background_shown) (auto simp: vt_normal_def)
  moreover have "\<dots> = vt_run (color_vt color) s"
    by (simp add: color_vt_def vt_normal_def bold_shown)
  ultimately show ?thesis by simp
qed

lemma normal_color: "kwsysTerminalSetVT100Color Color_Normal = VT100_NORMAL"
  by (simp add: kwsysTerminalSetVT100Color_def)

section \<open>Properties\<close>

text \<open>The characters a call writes to the stream.\<close>

fun written :: "effect list \<Rightarrow> string" where
  "written [] = ''''"
| "written (Write s # es) = s @ written es"
| "written (e # es) = written es"

text \<open>On a stream recognised as a VT100 terminal, text without escapes printed with a valid
  color is displayed with exactly the requested foreground, background and weight, character by
  character, and the terminal is left in its normal state.  On a stream that is neither that nor
  a console exactly the text is written.\<close>

theorem cfprintf_shows_color:
  assumes "valid_color color" and "CHR 0x1B \<notin> set str"
  shows "if kwsysTerminalStreamIsVT100 getenv stream (color AND Color_AssumeVT100 \<noteq> 0)
             (color AND Color_AssumeTTY \<noteq> 0)
    then vt_run vt_normal (written (kwsysTerminal_cfprintf getenv stream None color str))
           = (map (\<lambda>c. (c, color_vt color)) str, vt_normal)
    else written (kwsysTerminal_cfprintf getenv stream None color str) = str"
  using SetVT100Color_shown [OF assms(1), of "str @ VT100_NORMAL"] assms(2)
    normal_shown [of "color_vt color" "[]"]
  by (simp add: kwsysTerminal_cfprintf_def Let_def normal_color vt_run_plain)

theorem cfprintf_shows_color_witness:
  "vt_run vt_normal (written (kwsysTerminal_cfprintf (\<lambda>v. if v = ''TERM'' then Some ''linux'' else None)
       \<lparr>isatty_works = True, isatty = True, regular_file = False\<rparr> None 0x143 ''ok''))
     = ([(CHR ''o'', \<lparr>fg = Some 2, bg = Some 3, bold = True\<rparr>), (CHR ''k'', \<lparr>fg = Some 2, bg = Some 3, bold = True\<rparr>)],
        vt_normal)"
proof -
  have "valid_color 0x143" by (simp add: valid_color_def drop_bit_eq_div)
  moreover have "color_vt 0x143 = \<lparr>fg = Some 2, bg = Some 3, bold = True\<rparr>"
    by (simp add: color_vt_def color_number_def drop_bit_eq_div)
  ultimately show ?thesis
    using cfprintf_shows_color [where color = "0x143" and str = "''ok''" and getenv = "\<lambda>v. if v = ''TERM'' then Some ''linux'' else None"
        and stream = "\<lparr>isatty_works = True, isatty = True, regular_file = False\<rparr>"]
    by (simp add: kwsysTerminalStreamIsVT100_def kwsysTerminalVT100Names_def Color_defs)
qed

text \<open>On a Windows console the attributes set after the text are the original ones, restricted
  to the bits that encode the colors, whatever the constants of the system are; nothing but the
  text is written.\<close>

theorem cfprintf_console_restores:
  "written (kwsysTerminal_cfprintf getenv stream (Some (w, a)) color txt) = txt
   \<and> last (kwsysTerminal_cfprintf getenv stream (Some (w, a)) color txt)
       = SetConsoleTextAttribute (a AND (mask_foreground w OR mask_background w))"
  by (simp add: kwsysTerminal_cfprintf_def kwsysTerminalSetConsoleColor_def Let_def Color_defs
      console_foreground_def console_background_def bit.conj_disj_distrib)

text \<open>The order of the decision: a non-zero \<open>CLICOLOR_FORCE\<close> wins over everything; then
  \<open>CLICOLOR=0\<close> disables; where \<open>isatty\<close> works, what the caller assumes of the terminal type can
  only add colors on an actual terminal, and assuming a tty changes nothing at all (the header
  offers \<open>Color_AssumeTTY\<close> for terminals behind a pipe).\<close>

theorem StreamIsVT100_decision:
  "(getenv ''CLICOLOR_FORCE'' = Some ''1'' \<longrightarrow> kwsysTerminalStreamIsVT100 getenv stream vt tty)
   \<and> (getenv ''CLICOLOR_FORCE'' \<in> {None, Some '''', Some ''0''} \<and> getenv ''CLICOLOR'' = Some ''0''
        \<longrightarrow> \<not> kwsysTerminalStreamIsVT100 getenv stream vt tty)
   \<and> (isatty_works stream \<longrightarrow>
        kwsysTerminalStreamIsVT100 getenv stream vt tty = kwsysTerminalStreamIsVT100 getenv stream vt False)
   \<and> (kwsysTerminalStreamIsVT100 getenv stream False tty \<longrightarrow> kwsysTerminalStreamIsVT100 getenv stream True tty)"
  by (auto simp: kwsysTerminalStreamIsVT100_def split: option.splits)

theorem StreamIsVT100_decision_witness:
  "kwsysTerminalStreamIsVT100 [''CLICOLOR_FORCE'' \<mapsto> ''1'', ''CLICOLOR'' \<mapsto> ''0'']
     \<lparr>isatty_works = True, isatty = False, regular_file = True\<rparr> False True"
  using StreamIsVT100_decision [of "[''CLICOLOR_FORCE'' \<mapsto> ''1'', ''CLICOLOR'' \<mapsto> ''0'']"
      "\<lparr>isatty_works = True, isatty = False, regular_file = True\<rparr>" False True] by simp

end
