(* ===== verification/Encoding.thy ===== *)
theory Encoding
  imports Prelude
begin

text \<open>
  \<^verbatim>\<open>Source/kwsys/EncodingC.c\<close>: the wide-character copies of C strings.  The conversions of the
  C library depend on the locale and are parameters: \<open>mbs\<close> and \<open>wcs\<close> map a string to the
  converted string (without terminators), or to nothing when it is invalid.  The definitions
  follow the branch for systems other than Windows.
\<close>

section \<open>The code\<close>

text \<open>\<open>junk\<close> is what fresh memory holds.\<close>

text \<open>
  The library functions: the number of characters without the terminator, and what is stored in
  a destination of \<open>n\<close> characters; \<^term>\<open>None\<close> is the value \<open>(size_t)-1\<close>.  The terminator
  is stored if there is room.
\<close>

definition convert :: "('a list \<Rightarrow> 'b::zero list option) \<Rightarrow> nat \<Rightarrow> 'a list \<Rightarrow> (nat \<times> 'b list) option" where
  "convert conv n str = map_option (\<lambda>w. (length (take n w), take n (w @ [0]))) (conv str)"

definition kwsysEncoding_mbstowcs ::
  "(byte list \<Rightarrow> u32 list option) \<Rightarrow> nat option \<Rightarrow> byte list option \<Rightarrow> (nat \<times> u32 list) option" where
  "kwsysEncoding_mbstowcs mbs dest str =
     (case str of None \<Rightarrow> None
      | Some s \<Rightarrow> (case dest of None \<Rightarrow> map_option (\<lambda>w. (length w, [])) (mbs s)
                  | Some n \<Rightarrow> convert mbs n s))"

text \<open>The result is the null pointer or a block with its contents.\<close>

definition kwsysEncoding_DupToWide ::
  "(byte list \<Rightarrow> u32 list option) \<Rightarrow> u32 \<Rightarrow> malloc_ok \<Rightarrow> byte list option \<Rightarrow> heap
     \<Rightarrow> (nat \<times> u32 list) option \<times> heap" where
  "kwsysEncoding_DupToWide mbs junk ok str h =
     (let len = (case kwsysEncoding_mbstowcs mbs None str of None \<Rightarrow> 0 | Some (n, _) \<Rightarrow> n + 1)
      in if len > 0
         then case malloc ok (len * 4) h of
                (None, h) \<Rightarrow> (None, h)
              | (Some ret, h) \<Rightarrow>
                  let contents = 0 # replicate (len - 1) junk;
                      contents = (case kwsysEncoding_mbstowcs mbs (Some len) str of
                          None \<Rightarrow> contents | Some (_, w) \<Rightarrow> w @ drop (length w) contents)
                  in (Some (ret, contents), h)
         else (None, h))"

definition kwsysEncoding_wcstombs ::
  "(u32 list \<Rightarrow> byte list option) \<Rightarrow> nat option \<Rightarrow> u32 list option \<Rightarrow> (nat \<times> byte list) option" where
  "kwsysEncoding_wcstombs wcs dest str =
     (case str of None \<Rightarrow> None
      | Some s \<Rightarrow> (case dest of None \<Rightarrow> map_option (\<lambda>w. (length w, [])) (wcs s)
                  | Some n \<Rightarrow> convert wcs n s))"

definition kwsysEncoding_DupToNarrow ::
  "(u32 list \<Rightarrow> byte list option) \<Rightarrow> byte \<Rightarrow> malloc_ok \<Rightarrow> u32 list option \<Rightarrow> heap
     \<Rightarrow> (nat \<times> byte list) option \<times> heap" where
  "kwsysEncoding_DupToNarrow wcs junk ok str h =
     (let len = (case kwsysEncoding_wcstombs wcs None str of None \<Rightarrow> 0 | Some (n, _) \<Rightarrow> n + 1)
      in if len > 0
         then case malloc ok len h of
                (None, h) \<Rightarrow> (None, h)
              | (Some ret, h) \<Rightarrow>
                  let contents = 0 # replicate (len - 1) junk;
                      contents = (case kwsysEncoding_wcstombs wcs (Some len) str of
                          None \<Rightarrow> contents | Some (_, w) \<Rightarrow> w @ drop (length w) contents)
                  in (Some (ret, contents), h)
         else (None, h))"

section \<open>Properties\<close>

lemma DupToWide_cases:
  "kwsysEncoding_DupToWide mbs junk ok str h =
     (case Option.bind str mbs of
        None \<Rightarrow> (None, h)
      | Some w \<Rightarrow> (case malloc ok ((length w + 1) * 4) h of
           (None, h) \<Rightarrow> (None, h) | (Some b, h) \<Rightarrow> (Some (b, w @ [0]), h)))"
  by (auto simp: kwsysEncoding_DupToWide_def kwsysEncoding_mbstowcs_def convert_def Let_def
      split: option.splits prod.splits)

lemma DupToNarrow_cases:
  "kwsysEncoding_DupToNarrow wcs junk ok str h =
     (case Option.bind str wcs of
        None \<Rightarrow> (None, h)
      | Some w \<Rightarrow> (case malloc ok (length w + 1) h of
           (None, h) \<Rightarrow> (None, h) | (Some b, h) \<Rightarrow> (Some (b, w @ [0]), h)))"
  by (auto simp: kwsysEncoding_DupToNarrow_def kwsysEncoding_wcstombs_def convert_def Let_def
      split: option.splits prod.splits)

text \<open>Widening a string and narrowing the copy gives a copy of the string, in a fresh block,
  for every locale whose narrowing inverts its widening on that string, if the two allocations
  succeed: no character and no terminator is lost between the sizing call and the converting
  call.\<close>

theorem DupToNarrow_DupToWide:
  assumes "mbs s = Some w" and "wcs w = Some s" and "\<And>k n. ok k n"
  shows "\<exists>b h1 b' h2. kwsysEncoding_DupToWide mbs junk ok (Some s) h = (Some (b, w @ [0]), h1)
    \<and> kwsysEncoding_DupToNarrow wcs junk2 ok (Some (butlast (w @ [0]))) h1 = (Some (b', s @ [0]), h2)
    \<and> live h2 = b' # b # live h \<and> b \<noteq> b'"
  using assms by (simp add: DupToWide_cases DupToNarrow_cases malloc_def)

theorem DupToNarrow_DupToWide_witness:
  "\<exists>b h1 b' h2. kwsysEncoding_DupToWide (\<lambda>s. Some (map ucast s)) 5 (\<lambda>_ _. True) (Some [0x61, 0x62])
        \<lparr>calls = 7, live = []\<rparr> = (Some (b, [0x61, 0x62] @ [0]), h1)
    \<and> kwsysEncoding_DupToNarrow (\<lambda>w. Some (map ucast w)) 5 (\<lambda>_ _. True) (Some (butlast ([0x61, 0x62] @ [0]))) h1
        = (Some (b', [0x61, 0x62] @ [0]), h2)
    \<and> live h2 = b' # b # live \<lparr>calls = 7, live = []\<rparr> \<and> b \<noteq> b'"
  by (rule DupToNarrow_DupToWide) simp_all

text \<open>\<open>DupToWide\<close> returns the null pointer and allocates nothing that stays, for a null pointer
  and for a string that is invalid in the locale.\<close>

theorem DupToWide_invalid:
  "kwsysEncoding_DupToWide mbs junk ok None h = (None, h)
   \<and> (mbs s = None \<longrightarrow> kwsysEncoding_DupToWide mbs junk ok (Some s) h = (None, h))"
  by (simp add: DupToWide_cases)

theorem DupToWide_invalid_witness:
  "kwsysEncoding_DupToWide (\<lambda>s. None) 0 (\<lambda>_ _. True) (Some [0xFF]) \<lparr>calls = 0, live = []\<rparr>
     = (None, \<lparr>calls = 0, live = []\<rparr>)"
  using DupToWide_invalid [of "\<lambda>s. None" 0 "\<lambda>_ _. True" "\<lparr>calls = 0, live = []\<rparr>" "[0xFF]"] by simp

end
