(* ===== verification/ProcessTypes.thy ===== *)
theory ProcessTypes
  imports Complex_Main "HOL-Library.Multiset" Prelude
begin

text \<open>
  The data of the process runner of kwsys (\<^verbatim>\<open>kwsys/ProcessUNIX.c\<close>, \<^verbatim>\<open>kwsys/Process.h.in\<close>), and the
  operating system it calls.

  The operating system is a parameter: an \<open>env\<close> answers every system call from the list of all
  the calls made so far, latest first, the one it answers included, so any behaviour of the
  system is an instance.  The program's calls are recorded in the trace of the \<open>world\<close>, which
  also holds \<open>errno\<close>, the allocator and the static variables of the file.  Linux with glibc is
  the platform: \<open>select\<close> is used and signal handlers take a \<open>siginfo\<close>.

  A result \<^term>\<open>None\<close> is code that does not return, or undefined behaviour.
\<close>

section \<open>Constants\<close>

definition KWSYSPE_PIPE_COUNT :: nat where "KWSYSPE_PIPE_COUNT = 3"
definition KWSYSPE_PIPE_STDOUT :: nat where "KWSYSPE_PIPE_STDOUT = 0"
definition KWSYSPE_PIPE_STDERR :: nat where "KWSYSPE_PIPE_STDERR = 1"
definition KWSYSPE_PIPE_SIGNAL :: nat where "KWSYSPE_PIPE_SIGNAL = 2"
definition KWSYSPE_PIPE_BUFFER_SIZE :: nat where "KWSYSPE_PIPE_BUFFER_SIZE = 1024"

text \<open>The size of the descriptor sets of \<open>select\<close>.\<close>

definition FD_SETSIZE :: int where "FD_SETSIZE = 1024"

lemmas pipe_consts [simp] = KWSYSPE_PIPE_COUNT_def KWSYSPE_PIPE_STDOUT_def KWSYSPE_PIPE_STDERR_def
  KWSYSPE_PIPE_SIGNAL_def KWSYSPE_PIPE_BUFFER_SIZE_def

text \<open>\<open>kwsysProcess_State_e\<close>; the states by index are four of them.\<close>

datatype pstate = State_Starting | State_Error | State_Exception | State_Executing | State_Exited
  | State_Expired | State_Killed | State_Disowned

datatype pexception = Exception_None | Exception_Fault | Exception_Illegal | Exception_Interrupt
  | Exception_Numerical | Exception_Other

definition Pipe_None :: int where "Pipe_None = 0"
definition Pipe_STDIN :: int where "Pipe_STDIN = 1"
definition Pipe_STDOUT :: int where "Pipe_STDOUT = 2"
definition Pipe_STDERR :: int where "Pipe_STDERR = 3"
definition Pipe_Timeout :: int where "Pipe_Timeout = 255"

definition Option_HideWindow :: int where "Option_HideWindow = 0"
definition Option_Detach :: int where "Option_Detach = 1"
definition Option_MergeOutput :: int where "Option_MergeOutput = 2"
definition Option_Verbatim :: int where "Option_Verbatim = 3"
definition Option_CreateProcessGroup :: int where "Option_CreateProcessGroup = 4"

lemmas pipe_ids [simp] = Pipe_None_def Pipe_STDIN_def Pipe_STDOUT_def Pipe_STDERR_def Pipe_Timeout_def
lemmas option_ids [simp] = Option_HideWindow_def Option_Detach_def Option_MergeOutput_def
  Option_Verbatim_def Option_CreateProcessGroup_def

text \<open>Numbers of the signals and of two error codes on Linux.\<close>

definition EINTR :: int where "EINTR = 4"
definition EAGAIN :: int where "EAGAIN = 11"
definition ECHILD :: int where "ECHILD = 10"
definition SIGINT :: int where "SIGINT = 2"
definition SIGKILL :: int where "SIGKILL = 9"
definition SIGTERM :: int where "SIGTERM = 15"
definition SIGCHLD :: int where "SIGCHLD = 17"
definition SIGSTOP :: int where "SIGSTOP = 19"

lemmas errno_consts = EINTR_def EAGAIN_def ECHILD_def
lemmas signal_consts = SIGINT_def SIGKILL_def SIGTERM_def SIGCHLD_def SIGSTOP_def

section \<open>Times\<close>

text \<open>\<open>kwsysProcessTime\<close>: a signed number of seconds and of microseconds.\<close>

datatype kwsysProcessTime = Time (tv_sec: int) (tv_usec: int)

definition kwsysProcessTimeLess :: "kwsysProcessTime \<Rightarrow> kwsysProcessTime \<Rightarrow> bool" where
  "kwsysProcessTimeLess in1 in2 \<longleftrightarrow>
     tv_sec in1 < tv_sec in2 \<or> (tv_sec in1 = tv_sec in2 \<and> tv_usec in1 < tv_usec in2)"

text \<open>The comparison of the code is the strict part of a linear order.\<close>

instantiation kwsysProcessTime :: linorder
begin

definition less_kwsysProcessTime :: "kwsysProcessTime \<Rightarrow> kwsysProcessTime \<Rightarrow> bool" where
  "less_kwsysProcessTime a b = kwsysProcessTimeLess a b"

definition less_eq_kwsysProcessTime :: "kwsysProcessTime \<Rightarrow> kwsysProcessTime \<Rightarrow> bool" where
  "less_eq_kwsysProcessTime a b = (\<not> kwsysProcessTimeLess b a)"

instance
  by standard (auto simp: less_kwsysProcessTime_def less_eq_kwsysProcessTime_def
      kwsysProcessTimeLess_def kwsysProcessTime.expand)

end

section \<open>C strings and buffers\<close>

text \<open>A string literal with its terminator.\<close>

definition lit :: "string \<Rightarrow> byte list" where
  "lit s = map of_char s @ [0]"

text \<open>
  \<open>strcpy\<close> and \<open>strncpy\<close> into a buffer.  The source is given with its terminator; \<open>strncpy\<close>
  fills the rest of the \<open>n\<close> bytes with zeros.
\<close>

definition strcpy :: "byte list \<Rightarrow> byte list \<Rightarrow> byte list option" where
  "strcpy buf s = do { str \<leftarrow> c_string s; mem_write buf 0 (str @ [0]) }"

definition strncpy :: "byte list \<Rightarrow> byte list \<Rightarrow> nat \<Rightarrow> byte list option" where
  "strncpy buf s n = do { str \<leftarrow> c_string s; mem_write buf 0 (take n (str @ replicate n 0)) }"

lemma strncpy_lit:
  "c_string s = Some str \<Longrightarrow> n \<le> length buf \<Longrightarrow>
     strncpy buf s n = Some (take n (str @ replicate n 0) @ drop n buf)"
  by (simp add: strncpy_def mem_write_def min_def)

section \<open>The process structure\<close>

text \<open>A pointer to a C string: its block and the bytes with the terminator.\<close>

type_synonym cstr = "nat \<times> byte list"

text \<open>A pointer to an array that was allocated: its block and its elements.\<close>

type_synonym 'a array = "nat \<times> 'a list"

text \<open>\<open>kwsysProcessResults\<close>\<close>

record kwsysProcessResults =
  rState :: pstate
  ExitException :: pexception
  ExitCode :: int
  ExitValue :: int
  ExitExceptionString :: "byte list"

text \<open>
  \<open>kwsysProcess\<close>.  \<open>self\<close> is the address of the structure.  The arrays of two and three
  descriptors are functions on the indices, and the three fields for the standard streams that
  the code names \<open>PipeFileSTDIN\<close>, \<open>PipeFileSTDOUT\<close>, \<open>PipeFileSTDERR\<close> (and so on) are one function
  on \<^term>\<open>Pipe_STDIN\<close>, \<^term>\<open>Pipe_STDOUT\<close>, \<^term>\<open>Pipe_STDERR\<close>.  \<open>double\<close> is \<open>real\<close>.  A null
  pointer is \<^term>\<open>None\<close>.
\<close>

record kwsysProcess =
  self :: nat
  Commands :: "cstr array array option"
  NumberOfCommands :: nat
  PipeReadEnds :: "nat \<Rightarrow> int"
  PipeChildStd :: "nat \<Rightarrow> int"
  SignalPipe :: int
  PipeBuffer :: "byte list"
  ForkPIDs :: "int array option"
  SelectError :: bool
  Timeout :: real
  WorkingDirectory :: "cstr option"
  OptionDetach :: int
  Detached :: int
  Verbatim :: int
  MergeOutput :: int
  CreateProcessGroup :: int
  StartTime :: kwsysProcessTime
  TimeoutTime :: kwsysProcessTime
  TimeoutExpired :: bool
  PipesLeft :: int
  PipeSet :: "int set"
  CommandsLeft :: int
  State :: pstate
  Killed :: bool
  ErrorMessage :: "byte list"
  ProcessResults :: "kwsysProcessResults array option"
  CommandExitCodes :: "int array option"
  PipeFile :: "int \<Rightarrow> cstr option"
  PipeShared :: "int \<Rightarrow> bool"
  PipeNative :: "int \<Rightarrow> int \<times> int"
  RealWorkingDirectory :: "cstr option"

text \<open>The structure \<open>kwsysProcess_New\<close> initialises, at an address.\<close>

definition initial_process :: "nat \<Rightarrow> kwsysProcess" where
  "initial_process p =
     \<lparr>self = p, Commands = None, NumberOfCommands = 0, PipeReadEnds = (\<lambda>_. 0),
      PipeChildStd = (\<lambda>_. 0), SignalPipe = 0, PipeBuffer = replicate KWSYSPE_PIPE_BUFFER_SIZE 0,
      ForkPIDs = None, SelectError = False, Timeout = 0, WorkingDirectory = None,
      OptionDetach = 0, Detached = 0, Verbatim = 0, MergeOutput = 0, CreateProcessGroup = 0,
      StartTime = Time 0 0, TimeoutTime = Time 0 0, TimeoutExpired = False, PipesLeft = 0,
      PipeSet = {}, CommandsLeft = 0, State = State_Starting, Killed = False,
      ErrorMessage = replicate (KWSYSPE_PIPE_BUFFER_SIZE + 1) 0, ProcessResults = None,
      CommandExitCodes = None, PipeFile = (\<lambda>_. None), PipeShared = (\<lambda>pipe. pipe = Pipe_STDIN),
      PipeNative = (\<lambda>_. (-1, -1)), RealWorkingDirectory = None\<rparr>"

text \<open>\<open>kwsysProcessCreateInformation\<close>\<close>

record kwsysProcessCreateInformation =
  StdIn :: int
  StdOut :: int
  StdErr :: int
  ErrorPipe :: "int \<times> int"

section \<open>The operating system\<close>

datatype mask_how = SIG_BLOCK | SIG_UNBLOCK | SIG_SETMASK

datatype handler = SIG_DFL | SignalHandler | OtherHandler nat

text \<open>A \<open>struct sigaction\<close>: the handler, the blocked signals and the flags.\<close>

record sigaction =
  sa_handler :: handler
  sa_mask :: "int set"
  sa_flags :: nat

datatype syscall =
    S_pipe | S_setfd int int | S_getfl int | S_setfl int int | S_close int | S_dup2 int int
  | S_read int nat | S_write int "byte list" | S_open "byte list" bool
  | S_select int "int set" "kwsysProcessTime option"
  | S_getcwd nat | S_chdir "byte list" | S_clock
  | S_fork | S_setsid | S_execvp "byte list" "byte list list" | S_exit int
  | S_waitpid int bool | S_wait | S_kill int int | S_raise int
  | S_sigprocmask mask_how "int set" | S_sigaction int sigaction
  | S_opendir "byte list" | S_closedir | S_stat "byte list" | S_fopen "byte list" | S_fread nat
  | S_fclose | S_popen "byte list" | S_pclose

text \<open>
  The answer to a call.  \<open>ret\<close> is its result; the other fields are what it delivers: the error
  code when it fails, the two descriptors of a pipe, the bytes read, the exit status, the
  ready set and the rest of the timeout of \<open>select\<close>, the signal mask and the old
  signal action, the clock in seconds and nanoseconds, the names of a directory.
\<close>

record reply =
  ret :: int
  err :: int
  fds :: "int \<times> int"
  payload :: "byte list"
  status :: int
  ready :: "int set"
  rest_time :: "kwsysProcessTime option"
  old_mask :: "int set"
  old_action :: sigaction
  clock :: "int \<times> int"
  names :: "byte list list"

record env =
  sys :: "syscall list \<Rightarrow> reply"
  alloc_ok :: malloc_ok
  strerror :: "int \<Rightarrow> byte list"

text \<open>
  \<open>kwsysProcessInstances\<close>: the table is its block, if it is not null, and the addresses of the
  registered structures; \<open>Count\<close> is their number.
\<close>

record kwsysProcessInstances =
  iSize :: nat
  iTable :: "nat option \<times> nat list"

record world =
  trace :: "syscall list"
  errno :: int
  heap :: heap
  kwsysProcesses :: kwsysProcessInstances
  OldSigChldAction :: sigaction
  OldSigIntAction :: sigaction
  OldSigTermAction :: sigaction

definition call :: "env \<Rightarrow> syscall \<Rightarrow> world \<Rightarrow> reply \<times> world" where
  "call e c w =
     (let r = sys e (c # trace w)
      in (r, w\<lparr>trace := c # trace w, errno := if ret r < 0 then err r else errno w\<rparr>))"

text \<open>\<open>while (call < 0 && errno == EINTR) {}\<close>\<close>

partial_function (option) retry :: "env \<Rightarrow> syscall \<Rightarrow> world \<Rightarrow> (reply \<times> world) option" where
  "retry e c w =
     (let (r, w) = call e c w
      in if ret r < 0 \<and> errno w = EINTR then retry e c w else Some (r, w))"

section \<open>Results and system calls\<close>

text \<open>Total correctness: the code returns, and its result has the property.\<close>

definition returns :: "'a option \<Rightarrow> ('a \<Rightarrow> bool) \<Rightarrow> bool" where
  "returns m P \<longleftrightarrow> (\<exists>x. m = Some x \<and> P x)"

named_theorems wp_rules \<open>one rule per operation: when it returns with a property\<close>

lemma returns_Some [simp]: "returns (Some x) P \<longleftrightarrow> P x"
  and returns_None [simp]: "\<not> returns None P"
  and returns_bind [simp]: "returns (Option.bind m f) P \<longleftrightarrow> returns m (\<lambda>x. returns (f x) P)"
  by (auto simp: returns_def bind_eq_Some_conv)

lemma returns_if: "returns (if b then m else n) P \<longleftrightarrow> (if b then returns m P else returns n P)"
  by simp

lemma returns_mono: "returns m Q \<Longrightarrow> (\<And>x. Q x \<Longrightarrow> P x) \<Longrightarrow> returns m P"
  by (auto simp: returns_def)

lemma returnsD: "returns m P \<Longrightarrow> m = Some x \<Longrightarrow> P x"
  by (simp add: returns_def)

lemma returnsE:
  assumes "returns m P"
  obtains x where "m = Some x" and "P x"
  using assms by (auto simp: returns_def)

text \<open>A world that differs by system calls only: no memory or static variable has changed.\<close>

definition calls_only :: "world \<Rightarrow> world \<Rightarrow> bool" where
  "calls_only w w' \<longleftrightarrow> heap w' = heap w \<and> kwsysProcesses w' = kwsysProcesses w
     \<and> OldSigChldAction w' = OldSigChldAction w \<and> OldSigIntAction w' = OldSigIntAction w
     \<and> OldSigTermAction w' = OldSigTermAction w \<and> (\<exists>tr. trace w' = tr @ trace w)"

lemma calls_only_refl [simp]: "calls_only w w"
  by (simp add: calls_only_def)

lemma calls_only_trans [trans]: "calls_only w w' \<Longrightarrow> calls_only w' w'' \<Longrightarrow> calls_only w w''"
  by (auto simp: calls_only_def)

lemma calls_only_heap: "calls_only w w' \<Longrightarrow> heap w' = heap w"
  and calls_only_processes: "calls_only w w' \<Longrightarrow> kwsysProcesses w' = kwsysProcesses w"
  by (simp_all add: calls_only_def)

lemma call_only: "calls_only w (snd (call e c w))"
  by (simp add: call_def calls_only_def Let_def)

lemma call_trace: "trace (snd (call e c w)) = c # trace w"
  by (simp add: call_def Let_def)

lemma call_reply: "fst (call e c w) = sys e (c # trace w)"
  by (simp add: call_def Let_def)

text \<open>The documented behaviour behind the retry loops: a call is not interrupted for ever.\<close>

definition interrupted :: "reply \<Rightarrow> bool" where
  "interrupted r \<longleftrightarrow> ret r < 0 \<and> err r = EINTR"

definition fair :: "env \<Rightarrow> bool" where
  "fair e \<longleftrightarrow> (\<forall>c tr. \<exists>n. \<not> interrupted (sys e (replicate (Suc n) c @ tr)))"

text \<open>
  What a retried call leaves: the same call one or more times in the trace, and the answer to
  the last one, which is not an interruption.
\<close>

definition retried :: "env \<Rightarrow> syscall \<Rightarrow> world \<Rightarrow> reply \<times> world \<Rightarrow> bool" where
  "retried e c w = (\<lambda>(r, w'). \<exists>n. trace w' = replicate (Suc n) c @ trace w \<and> calls_only w w'
     \<and> r = sys e (trace w') \<and> \<not> (ret r < 0 \<and> errno w' = EINTR) \<and> (ret r < 0 \<longrightarrow> errno w' = err r))"

lemma retry_returns:
  assumes "fair e"
  shows "returns (retry e c w) (retried e c w)"
proof -
  have go: "returns (retry e c v) (retried e c w)"
    if "\<not> interrupted (sys e (replicate (Suc n) c @ trace v))" "calls_only w v"
      "trace v = replicate m c @ trace w" for n m v
    using that
  proof (induction n arbitrary: v m)
    case 0
    then show ?case
      by (subst retry.simps)
        (auto simp: retried_def call_def Let_def interrupted_def calls_only_def intro!: exI [of _ m])
  next
    case (Suc n)
    let ?v = "snd (call e c v)"
    show ?case
    proof (cases "interrupted (sys e (c # trace v))")
      case True
      then have "retry e c v = retry e c ?v"
        by (subst retry.simps) (simp add: call_def Let_def interrupted_def)
      moreover have "\<not> interrupted (sys e (replicate (Suc n) c @ trace ?v))"
        using Suc.prems(1) unfolding call_trace by (metis append_Cons append_assoc replicate_Suc replicate_append_same append_Nil)
      moreover have "calls_only w ?v" by (rule calls_only_trans [OF Suc.prems(2) call_only])
      moreover have "trace ?v = replicate (Suc m) c @ trace w"
        using Suc.prems(3) by (simp add: call_trace)
      ultimately show ?thesis using Suc.IH [of ?v "Suc m"] by simp
    next
      case False
      then show ?thesis using Suc.prems(2,3)
        by (subst retry.simps)
          (auto simp: retried_def call_def Let_def interrupted_def calls_only_def intro!: exI [of _ m])
    qed
  qed
  from assms obtain n where "\<not> interrupted (sys e (replicate (Suc n) c @ trace w))"
    unfolding fair_def by blast
  then show ?thesis by (rule go [where m = 0]) simp_all
qed

lemma wp_retry [wp_rules]:
  assumes "fair e" and "\<And>r w'. calls_only w w' \<Longrightarrow> retried e c w (r, w') \<Longrightarrow> P (r, w')"
  shows "returns (retry e c w) P"
  by (rule returns_mono [OF retry_returns [OF assms(1)]]) (auto intro!: assms(2) simp: retried_def)

text \<open>Freeing a block the program owns.\<close>

definition opt_block :: "'a array option \<Rightarrow> nat multiset" where
  "opt_block p = (case p of None \<Rightarrow> {#} | Some (b, _) \<Rightarrow> {#b#})"

lemma opt_block_simps [simp]: "opt_block None = {#}" "opt_block (Some (b, xs)) = {#b#}"
  by (simp_all add: opt_block_def)

lemma free_live_mset:
  assumes "mset (live h) = F + {#b#}"
  shows "free b h = Some (h\<lparr>live := remove1 b (live h)\<rparr>)" and "mset (remove1 b (live h)) = F"
proof -
  have "b \<in># mset (live h)" using assms by simp
  then show "free b h = Some (h\<lparr>live := remove1 b (live h)\<rparr>)" by (simp add: free_def)
  show "mset (remove1 b (live h)) = F" by (simp add: assms)
qed

section \<open>Machines that never fail\<close>

text \<open>
  The contract of a component with a set of calls: from a state with the invariant, every good
  call returns, in a state with the invariant.  Then so does every sequence of good calls.
\<close>

fun run_calls :: "('c \<Rightarrow> 's \<Rightarrow> 's option) \<Rightarrow> 'c list \<Rightarrow> 's \<Rightarrow> 's option" where
  "run_calls step [] s = Some s"
| "run_calls step (c # cs) s = do { s \<leftarrow> step c s; run_calls step cs s }"

locale safe_machine =
  fixes step :: "'c \<Rightarrow> 's \<Rightarrow> 's option"
    and inv :: "'s \<Rightarrow> bool"
    and good :: "'c \<Rightarrow> bool"
  assumes keeps: "inv s \<Longrightarrow> good c \<Longrightarrow> returns (step c s) inv"
begin

lemma run_safe: "inv s \<Longrightarrow> list_all good cs \<Longrightarrow> returns (run_calls step cs s) inv"
proof (induction cs arbitrary: s)
  case (Cons c cs)
  then show ?case by (auto intro: returns_mono [OF keeps])
qed simp

lemma run_append: "run_calls step (cs @ ds) s = Option.bind (run_calls step cs s) (run_calls step ds)"
proof (induction cs arbitrary: s)
  case (Cons c cs)
  then show ?case by (cases "step c s") simp_all
qed simp

lemma run_prefix_safe:
  assumes "inv s" and "list_all good (cs @ ds)"
  shows "\<exists>t. run_calls step cs s = Some t \<and> inv t \<and> run_calls step (cs @ ds) s = run_calls step ds t"
  using run_safe [OF assms(1), of cs] assms(2) by (auto simp: returns_def run_append)

end

text \<open>
  The same with a loss: the invariant also bounds what has been lost, and a call may add its cost to the bound.
\<close>

fun run_cost :: "('c \<Rightarrow> 's \<Rightarrow> 's option) \<Rightarrow> ('c \<Rightarrow> 's \<Rightarrow> nat) \<Rightarrow> 'c list \<Rightarrow> 's \<Rightarrow> nat" where
  "run_cost step cost [] s = 0"
| "run_cost step cost (c # cs) s = cost c s + (case step c s of None \<Rightarrow> 0 | Some t \<Rightarrow> run_cost step cost cs t)"

locale costed_machine =
  fixes step :: "'c \<Rightarrow> 's \<Rightarrow> 's option"
    and inv :: "nat \<Rightarrow> 's \<Rightarrow> bool"
    and cost :: "'c \<Rightarrow> 's \<Rightarrow> nat"
    and good :: "'c \<Rightarrow> bool"
  assumes adds: "inv n s \<Longrightarrow> good c \<Longrightarrow> returns (step c s) (inv (n + cost c s))"

sublocale costed_machine \<subseteq> safe: safe_machine step "\<lambda>s. \<exists>n. inv n s" good
  by unfold_locales (auto intro: returns_mono [OF adds])

context costed_machine
begin

lemma run_costs: "inv n s \<Longrightarrow> list_all good cs \<Longrightarrow> returns (run_calls step cs s) (inv (n + run_cost step cost cs s))"
proof (induction cs arbitrary: n s)
  case (Cons c cs)
  then obtain t where t: "step c s = Some t" "inv (n + cost c s) t" using adds [of n s c] by (auto elim: returnsE)
  with Cons.IH [OF t(2)] Cons.prems show ?case by (simp add: add.assoc)
qed simp

end

end
