(* ===== verification/ProcessTime.thy ===== *)
theory ProcessTime
  imports ProcessTypes "HOL-Library.Signed_Division"
begin

text \<open>
  The clock arithmetic and the timeouts of \<^verbatim>\<open>kwsys/ProcessUNIX.c\<close> (\<open>kwsysProcessTime...\<close>,
  \<open>kwsysProcessGetTimeoutTime\<close>, \<open>kwsysProcessGetTimeoutLeft\<close>).  The lemmas read a time as a number
  of microseconds; a time is normal when its microseconds are below a million.  Seconds are
  unbounded here (\<open>long\<close> in the code), and the clock is the monotonic one.
\<close>

definition kwsysProcessTimeGetCurrent :: "env \<Rightarrow> world \<Rightarrow> kwsysProcessTime \<times> world" where
  "kwsysProcessTimeGetCurrent e w =
     (let (r, w) = call e S_clock w
      in (Time (fst (clock r)) (snd (clock r) sdiv 1000), w))"

definition kwsysProcessTimeToDouble :: "kwsysProcessTime \<Rightarrow> real" where
  "kwsysProcessTimeToDouble t = real_of_int (tv_sec t) + real_of_int (tv_usec t) * 0.000001"

text \<open>\<open>(long) d\<close>\<close>

definition trunc :: "real \<Rightarrow> int" where
  "trunc d = (if 0 \<le> d then \<lfloor>d\<rfloor> else \<lceil>d\<rceil>)"

definition kwsysProcessTimeFromDouble :: "real \<Rightarrow> kwsysProcessTime" where
  "kwsysProcessTimeFromDouble d = Time (trunc d) (trunc ((d - real_of_int (trunc d)) * 1000000))"

definition kwsysProcessTimeAdd :: "kwsysProcessTime \<Rightarrow> kwsysProcessTime \<Rightarrow> kwsysProcessTime" where
  "kwsysProcessTimeAdd in1 in2 =
     (let sec = tv_sec in1 + tv_sec in2; usec = tv_usec in1 + tv_usec in2
      in if usec \<ge> 1000000 then Time (sec + 1) (usec - 1000000) else Time sec usec)"

definition kwsysProcessTimeSubtract :: "kwsysProcessTime \<Rightarrow> kwsysProcessTime \<Rightarrow> kwsysProcessTime" where
  "kwsysProcessTimeSubtract in1 in2 =
     (let sec = tv_sec in1 - tv_sec in2; usec = tv_usec in1 - tv_usec in2
      in if usec < 0 then Time (sec - 1) (usec + 1000000) else Time sec usec)"

text \<open>
  Whether the user timeout is first, the time of the timeout, and the structure, in which the
  timeout of the process is computed the first time.
\<close>

definition kwsysProcessGetTimeoutTime ::
  "env \<Rightarrow> kwsysProcess \<Rightarrow> real option \<Rightarrow> world \<Rightarrow> (bool \<times> kwsysProcessTime) \<times> kwsysProcess \<times> world" where
  "kwsysProcessGetTimeoutTime e cp userTimeout w =
     (let cp = (if Timeout cp > 0 \<and> tv_sec (TimeoutTime cp) < 0
                then cp\<lparr>TimeoutTime := kwsysProcessTimeAdd (StartTime cp)
                          (kwsysProcessTimeFromDouble (Timeout cp))\<rparr>
                else cp)
      in case userTimeout of
           None \<Rightarrow> ((False, TimeoutTime cp), cp, w)
         | Some d \<Rightarrow>
             let (currentTime, w) = kwsysProcessTimeGetCurrent e w;
                 userTimeoutTime = kwsysProcessTimeAdd currentTime (kwsysProcessTimeFromDouble d)
             in if tv_sec (TimeoutTime cp) < 0 \<or> kwsysProcessTimeLess userTimeoutTime (TimeoutTime cp)
                then ((True, userTimeoutTime), cp, w)
                else ((False, TimeoutTime cp), cp, w))"

text \<open>Whether the time has arrived, and the length that is stored if there is one.\<close>

definition kwsysProcessGetTimeoutLeft ::
  "env \<Rightarrow> kwsysProcessTime \<Rightarrow> real option \<Rightarrow> bool \<Rightarrow> world \<Rightarrow> (bool \<times> kwsysProcessTime option) \<times> world" where
  "kwsysProcessGetTimeoutLeft e timeoutTime userTimeout zeroIsExpired w =
     (if tv_sec timeoutTime < 0 then ((False, None), w)
      else let (currentTime, w) = kwsysProcessTimeGetCurrent e w;
               timeLeft = kwsysProcessTimeSubtract timeoutTime currentTime;
               timeLeft = (if tv_sec timeLeft < 0 \<and> (\<exists>d. userTimeout = Some d \<and> d \<le> 0)
                           then Time 0 0 else timeLeft)
           in if tv_sec timeLeft < 0
                 \<or> (tv_sec timeLeft = 0 \<and> tv_usec timeLeft = 0 \<and> zeroIsExpired)
              then ((True, None), w) else ((False, Some timeLeft), w))"

section \<open>Microseconds\<close>

definition micros :: "kwsysProcessTime \<Rightarrow> int" where
  "micros t = 1000000 * tv_sec t + tv_usec t"

definition normal :: "kwsysProcessTime \<Rightarrow> bool" where
  "normal t \<longleftrightarrow> 0 \<le> tv_usec t \<and> tv_usec t < 1000000"

lemma normal_Time [simp]: "normal (Time s u) \<longleftrightarrow> 0 \<le> u \<and> u < 1000000"
  by (simp add: normal_def)

lemma micros_Time [simp]: "micros (Time s u) = 1000000 * s + u"
  by (simp add: micros_def)

lemma less_micros: "normal a \<Longrightarrow> normal b \<Longrightarrow> kwsysProcessTimeLess a b \<longleftrightarrow> micros a < micros b"
  unfolding kwsysProcessTimeLess_def micros_def normal_def
  by (cases "tv_sec a" "tv_sec b" rule: linorder_cases) auto

lemma micros_inject: "normal a \<Longrightarrow> normal b \<Longrightarrow> micros a = micros b \<Longrightarrow> a = b"
  using less_micros [of a b] less_micros [of b a]
  by (metis less_irrefl less_kwsysProcessTime_def neqE)

lemma negative_sec: "normal t \<Longrightarrow> tv_sec t < 0 \<longleftrightarrow> micros t < 0"
  unfolding micros_def normal_def by (cases "tv_sec t < 0") auto

lemma add_normal: "normal a \<Longrightarrow> normal b \<Longrightarrow> normal (kwsysProcessTimeAdd a b)"
  by (auto simp: kwsysProcessTimeAdd_def normal_def Let_def)

lemma add_micros: "micros (kwsysProcessTimeAdd a b) = micros a + micros b"
  by (simp add: kwsysProcessTimeAdd_def micros_def Let_def)

lemma subtract_normal: "normal a \<Longrightarrow> normal b \<Longrightarrow> normal (kwsysProcessTimeSubtract a b)"
  by (auto simp: kwsysProcessTimeSubtract_def normal_def Let_def)

lemma subtract_micros: "micros (kwsysProcessTimeSubtract a b) = micros a - micros b"
  by (simp add: kwsysProcessTimeSubtract_def micros_def Let_def)

lemma trunc_nonneg: "0 \<le> d \<Longrightarrow> real_of_int (trunc d) \<le> d \<and> d < real_of_int (trunc d) + 1 \<and> 0 \<le> trunc d"
  by (simp add: trunc_def)

lemma fromDouble_normal:
  assumes "0 \<le> d"
  shows "normal (kwsysProcessTimeFromDouble d)"
proof -
  let ?f = "(d - real_of_int (trunc d)) * 1000000"
  from trunc_nonneg [OF assms] have "0 \<le> ?f" "?f < 1000000" by simp_all
  with trunc_nonneg [of ?f] show ?thesis by (simp add: kwsysProcessTimeFromDouble_def)
qed

lemma fromDouble_micros:
  assumes "0 \<le> d"
  shows "micros (kwsysProcessTimeFromDouble d) = \<lfloor>d * 1000000\<rfloor>"
proof -
  let ?f = "(d - real_of_int (trunc d)) * 1000000"
  from trunc_nonneg [OF assms] have "0 \<le> ?f" by simp
  then have t: "trunc ?f = \<lfloor>?f\<rfloor>" by (simp add: trunc_def)
  have "d * 1000000 = ?f + real_of_int (1000000 * trunc d)" by (simp add: algebra_simps)
  then have "\<lfloor>d * 1000000\<rfloor> = \<lfloor>?f\<rfloor> + 1000000 * trunc d" by (metis floor_add_int)
  with t show ?thesis by (simp add: kwsysProcessTimeFromDouble_def)
qed

text \<open>The clock reads a time of day: its nanoseconds are below a billion.\<close>

definition clock_ok :: "env \<Rightarrow> bool" where
  "clock_ok e \<longleftrightarrow> (\<forall>tr. let (s, ns) = clock (sys e tr) in 0 \<le> s \<and> 0 \<le> ns \<and> ns < 1000000000)"

lemma current_normal:
  assumes "clock_ok e" and "kwsysProcessTimeGetCurrent e w = (t, w')"
  shows "normal t" and "0 \<le> micros t" and "calls_only w w'"
proof -
  let ?c = "clock (sys e (S_clock # trace w))"
  have t: "t = Time (fst ?c) (snd ?c sdiv 1000)" and w': "w' = snd (call e S_clock w)"
    using assms(2) by (simp_all add: kwsysProcessTimeGetCurrent_def call_def Let_def)
  have c: "0 \<le> fst ?c" "0 \<le> snd ?c" "snd ?c < 1000000000"
    using assms(1) by (auto simp: clock_ok_def Let_def split_beta)
  then have "snd ?c sdiv 1000 = snd ?c div 1000"
    by (simp add: signed_divide_int_def sgn_if)
  with c show "normal t" "0 \<le> micros t" by (auto simp: t)
  show "calls_only w w'" unfolding w' by (rule call_only)
qed

section \<open>Properties\<close>

text \<open>The time the clock answers next, in microseconds.\<close>

definition now_micros :: "env \<Rightarrow> world \<Rightarrow> int" where
  "now_micros e w = (let (s, ns) = clock (sys e (S_clock # trace w)) in 1000000 * s + ns div 1000)"

lemma current_micros:
  assumes "clock_ok e" and "kwsysProcessTimeGetCurrent e w = (t, w')"
  shows "micros t = now_micros e w"
proof -
  let ?c = "clock (sys e (S_clock # trace w))"
  have "t = Time (fst ?c) (snd ?c sdiv 1000)"
    using assms(2) by (simp add: kwsysProcessTimeGetCurrent_def call_def Let_def)
  moreover have "0 \<le> snd ?c" using assms(1) by (auto simp: clock_ok_def Let_def split_beta)
  then have "snd ?c sdiv 1000 = snd ?c div 1000" by (simp add: signed_divide_int_def sgn_if)
  ultimately show ?thesis by (simp add: now_micros_def split_beta Let_def)
qed

lemmas current_facts = current_normal current_micros

text \<open>The time at which the process is to be killed, if there is one.\<close>

definition process_deadline :: "kwsysProcess \<Rightarrow> int option" where
  "process_deadline cp =
     (if 0 \<le> tv_sec (TimeoutTime cp) then Some (micros (TimeoutTime cp))
      else if 0 < Timeout cp then Some (micros (StartTime cp) + \<lfloor>Timeout cp * 1000000\<rfloor>) else None)"

definition times_ok :: "kwsysProcess \<Rightarrow> bool" where
  "times_ok cp \<longleftrightarrow> normal (StartTime cp) \<and> 0 \<le> tv_sec (StartTime cp)
     \<and> (0 \<le> tv_sec (TimeoutTime cp) \<longrightarrow> normal (TimeoutTime cp))"

lemma add_timeout:
  assumes "normal a" and "0 \<le> micros a" and "0 \<le> d"
  shows "normal (kwsysProcessTimeAdd a (kwsysProcessTimeFromDouble d))"
    and "micros (kwsysProcessTimeAdd a (kwsysProcessTimeFromDouble d)) = micros a + \<lfloor>d * 1000000\<rfloor>"
    and "0 \<le> tv_sec (kwsysProcessTimeAdd a (kwsysProcessTimeFromDouble d))"
proof -
  let ?t = "kwsysProcessTimeAdd a (kwsysProcessTimeFromDouble d)"
  show n: "normal ?t" using assms by (intro add_normal fromDouble_normal)
  show m: "micros ?t = micros a + \<lfloor>d * 1000000\<rfloor>" using assms by (simp add: add_micros fromDouble_micros)
  have "0 \<le> micros ?t" unfolding m using assms by simp
  with negative_sec [OF n] show "0 \<le> tv_sec ?t" by linarith
qed

text \<open>The process timeout after it has been computed.\<close>

lemma process_timeout_time:
  assumes "times_ok cp"
  defines "cp1 \<equiv> if Timeout cp > 0 \<and> tv_sec (TimeoutTime cp) < 0
                then cp\<lparr>TimeoutTime := kwsysProcessTimeAdd (StartTime cp)
                          (kwsysProcessTimeFromDouble (Timeout cp))\<rparr> else cp"
  shows "process_deadline cp1 = process_deadline cp"
    and "process_deadline cp = (if tv_sec (TimeoutTime cp1) < 0 then None else Some (micros (TimeoutTime cp1)))"
    and "times_ok cp1"
proof -
  have s: "normal (StartTime cp)" "0 \<le> micros (StartTime cp)"
    using assms(1) negative_sec [of "StartTime cp"] by (auto simp: times_ok_def)
  show "process_deadline cp1 = process_deadline cp"
    using add_timeout [OF s, of "Timeout cp"] by (simp add: cp1_def process_deadline_def)
  show "process_deadline cp = (if tv_sec (TimeoutTime cp1) < 0 then None else Some (micros (TimeoutTime cp1)))"
    using add_timeout [OF s, of "Timeout cp"] by (auto simp: cp1_def process_deadline_def)
  show "times_ok cp1"
    using add_timeout [OF s, of "Timeout cp"] assms(1) by (simp add: cp1_def times_ok_def)
qed

text \<open>The normal times, with the comparison, the addition and the subtraction of the code, are
  the integers in microseconds: the comparison is the order, sums and differences are exact
  and normal, and subtracting what was added gives the time back.\<close>

theorem process_time_arithmetic:
  assumes "normal a" and "normal b"
  shows "(kwsysProcessTimeLess a b \<longleftrightarrow> micros a < micros b)
    \<and> micros (kwsysProcessTimeAdd a b) = micros a + micros b \<and> normal (kwsysProcessTimeAdd a b)
    \<and> micros (kwsysProcessTimeSubtract a b) = micros a - micros b \<and> normal (kwsysProcessTimeSubtract a b)
    \<and> kwsysProcessTimeSubtract (kwsysProcessTimeAdd a b) b = a"
proof -
  have "kwsysProcessTimeSubtract (kwsysProcessTimeAdd a b) b = a"
    using assms by (intro micros_inject subtract_normal add_normal) (simp_all add: subtract_micros add_micros)
  with assms show ?thesis
    by (simp add: less_micros add_micros add_normal subtract_micros subtract_normal)
qed

theorem process_time_arithmetic_witness:
  "kwsysProcessTimeSubtract (kwsysProcessTimeAdd (Time 2 700000) (Time 3 500000)) (Time 3 500000) = Time 2 700000"
  using process_time_arithmetic [of "Time 2 700000" "Time 3 500000"] by simp

text \<open>The time a wait ends is the earlier of the process deadline and the user deadline: the user
  timeout is chosen exactly when there is no process deadline or it comes strictly before it,
  and computing the process deadline the first time does not change what it is.\<close>

theorem GetTimeoutTime_earliest:
  assumes "clock_ok e" and "times_ok cp" and "0 \<le> d"
    and "kwsysProcessGetTimeoutTime e cp (Some d) w = ((user, t), cp', w')"
  shows "process_deadline cp' = process_deadline cp \<and> times_ok cp'
    \<and> (let deadline = now_micros e w + \<lfloor>d * 1000000\<rfloor>
       in user = (case process_deadline cp of None \<Rightarrow> True | Some p \<Rightarrow> deadline < p)
        \<and> micros t = (case process_deadline cp of None \<Rightarrow> deadline | Some p \<Rightarrow> min deadline p))"
proof -
  define cp1 where "cp1 = (if Timeout cp > 0 \<and> tv_sec (TimeoutTime cp) < 0
                then cp\<lparr>TimeoutTime := kwsysProcessTimeAdd (StartTime cp)
                          (kwsysProcessTimeFromDouble (Timeout cp))\<rparr> else cp)"
  note p = process_timeout_time [OF assms(2), folded cp1_def]
  obtain now v where now: "kwsysProcessTimeGetCurrent e w = (now, v)" by fastforce
  note c = current_facts [OF assms(1) now]
  note u = add_timeout [OF c(1,2) assms(3)]
  let ?u = "kwsysProcessTimeAdd now (kwsysProcessTimeFromDouble d)"
  have less: "kwsysProcessTimeLess ?u (TimeoutTime cp1) \<longleftrightarrow> micros ?u < micros (TimeoutTime cp1)"
    if "\<not> tv_sec (TimeoutTime cp1) < 0"
    using less_micros [OF u(1), of "TimeoutTime cp1"] p(3) that by (simp add: times_ok_def)
  have r: "(if tv_sec (TimeoutTime cp1) < 0 \<or> kwsysProcessTimeLess ?u (TimeoutTime cp1)
      then ((True, ?u), cp1, v) else ((False, TimeoutTime cp1), cp1, v)) = ((user, t), cp', w')"
    using assms(4) unfolding kwsysProcessGetTimeoutTime_def cp1_def [symmetric] now by (simp add: Let_def)
  then have cp': "cp' = cp1" by (simp split: if_splits)
  show ?thesis
    using r less p u(2) c(4) unfolding cp' by (auto simp: min_def Let_def split: if_splits)
qed

text \<open>A system whose clock stands still, for the examples.\<close>

definition clock_env :: "int \<Rightarrow> int \<Rightarrow> env" where
  "clock_env s ns = \<lparr>sys = (\<lambda>_. \<lparr>ret = 0, err = 0, fds = (3, 4), payload = [], status = 0, ready = {},
     rest_time = None, old_mask = {}, old_action = \<lparr>sa_handler = SIG_DFL, sa_mask = {}, sa_flags = 0\<rparr>,
     clock = (s, ns), names = []\<rparr>), alloc_ok = \<lambda>_ _. True, strerror = \<lambda>_. lit ''error''\<rparr>"

definition example_world :: world where
  "example_world = \<lparr>trace = [], errno = 0, heap = \<lparr>calls = 0, live = []\<rparr>,
     kwsysProcesses = \<lparr>iSize = 0, iTable = (None, [])\<rparr>,
     OldSigChldAction = \<lparr>sa_handler = SIG_DFL, sa_mask = {}, sa_flags = 0\<rparr>,
     OldSigIntAction = \<lparr>sa_handler = SIG_DFL, sa_mask = {}, sa_flags = 0\<rparr>,
     OldSigTermAction = \<lparr>sa_handler = SIG_DFL, sa_mask = {}, sa_flags = 0\<rparr>\<rparr>"

theorem GetTimeoutTime_earliest_witness:
  "let cp = initial_process 0\<lparr>Timeout := 3, StartTime := Time 10 0, TimeoutTime := Time (-1) (-1)\<rparr>;
       ((user, t), cp', w') = kwsysProcessGetTimeoutTime (clock_env 12 0) cp (Some 2) example_world
   in process_deadline cp' = Some 13000000 \<and> \<not> user \<and> micros t = 13000000"
proof -
  define cp where "cp = initial_process 0\<lparr>Timeout := 3, StartTime := Time 10 0, TimeoutTime := Time (-1) (-1)\<rparr>"
  obtain user t cp' w' where r: "kwsysProcessGetTimeoutTime (clock_env 12 0) cp (Some 2) example_world
      = ((user, t), cp', w')" by (metis surj_pair)
  have "process_deadline cp = Some 13000000" "times_ok cp"
    by (simp_all add: cp_def process_deadline_def times_ok_def)
  moreover have "now_micros (clock_env 12 0) example_world = 12000000" "clock_ok (clock_env 12 0)"
    by (simp_all add: now_micros_def clock_env_def clock_ok_def)
  ultimately have "process_deadline cp' = Some 13000000 \<and> \<not> user \<and> micros t = 13000000"
    using GetTimeoutTime_earliest [OF _ _ _ r] by simp
  with r show ?thesis unfolding cp_def [symmetric] by (simp add: Let_def)
qed

lemma zero_time: "normal t \<Longrightarrow> tv_sec t = 0 \<and> tv_usec t = 0 \<longleftrightarrow> micros t = 0"
  unfolding micros_def normal_def by (cases "tv_sec t" "0::int" rule: linorder_cases) auto

text \<open>The time left is computed exactly: with a timeout time set, the wait is reported expired
  iff the time has passed (or is now, when asked to count that) and the caller did not ask for
  an immediate poll; otherwise the length stored is the difference to the clock, or zero for
  a poll, and it is never negative.\<close>

theorem GetTimeoutLeft_exact:
  assumes "clock_ok e" and "normal t" and "0 \<le> tv_sec t"
    and "kwsysProcessGetTimeoutLeft e t userTimeout zero w = ((expired, len), w')"
  shows "let left = micros t - now_micros e w;
       left = (if left < 0 \<and> (\<exists>d. userTimeout = Some d \<and> d \<le> 0) then 0 else left)
     in expired = (left < 0 \<or> (left = 0 \<and> zero))
      \<and> (case len of None \<Rightarrow> expired | Some l \<Rightarrow> \<not> expired \<and> normal l \<and> micros l = left \<and> 0 \<le> left)"
proof -
  obtain now v where now: "kwsysProcessTimeGetCurrent e w = (now, v)" by fastforce
  note c = current_facts [OF assms(1) now]
  let ?l = "kwsysProcessTimeSubtract t now"
  have n: "normal ?l" "micros ?l = micros t - now_micros e w"
    using subtract_normal [OF assms(2) c(1)] c(4) by (simp_all add: subtract_micros)
  define poll where "poll \<longleftrightarrow> (\<exists>d. userTimeout = Some d \<and> d \<le> 0)"
  define l where "l = (if tv_sec ?l < 0 \<and> poll then Time 0 0 else ?l)"
  have r: "(if tv_sec l < 0 \<or> (tv_sec l = 0 \<and> tv_usec l = 0 \<and> zero)
      then ((True, None), v) else ((False, Some l), v)) = ((expired, len), w')"
    using assms(3,4) unfolding kwsysProcessGetTimeoutLeft_def now l_def poll_def by (simp add: Let_def)
  define left where "left = (let d = micros t - now_micros e w in if d < 0 \<and> poll then 0 else d)"
  have l: "normal l" "micros l = left"
    using n negative_sec [OF n(1)] by (simp_all add: l_def left_def)
  have "expired = (left < 0 \<or> (left = 0 \<and> zero))
      \<and> (case len of None \<Rightarrow> expired | Some l \<Rightarrow> \<not> expired \<and> normal l \<and> micros l = left \<and> 0 \<le> left)"
    using r l negative_sec [OF l(1)] zero_time [OF l(1)] by (auto split: if_splits)
  then show ?thesis
    unfolding Let_def [of "micros t - now_micros e w"] poll_def [symmetric]
    unfolding left_def [unfolded Let_def, symmetric] by (simp add: Let_def)
qed

theorem GetTimeoutLeft_exact_witness:
  "let ((expired, len), w') = kwsysProcessGetTimeoutLeft (clock_env 12 400000000) (Time 13 0) None False example_world
   in \<not> expired \<and> len \<noteq> None"
proof -
  obtain x l w' where r: "kwsysProcessGetTimeoutLeft (clock_env 12 400000000) (Time 13 0) None False example_world
      = ((x, l), w')" by (metis surj_pair)
  have "now_micros (clock_env 12 400000000) example_world = 12400000" "clock_ok (clock_env 12 400000000)"
    by (simp_all add: now_micros_def clock_env_def clock_ok_def)
  with GetTimeoutLeft_exact [OF _ _ _ r] r show ?thesis by (auto simp: Let_def split: option.splits)
qed

end
