(* ===== verification/ProcessConfig.thy ===== *)
theory ProcessConfig
  imports ProcessTime SystemParse
begin

text \<open>
  Configuration of a \<open>kwsysProcess\<close>: creation, the command lines, the timeout, the working
  directory, the redirections and the options.  The functions here are the code after its null
  check; \<open>ProcessApi\<close> adds the check.  The lemmas show that every operation keeps the
  ownership of memory (the structure owns exactly the blocks it points to) and that each
  standard stream has at most one redirection.
\<close>

text \<open>\<open>strdup\<close> of a C string.\<close>

definition strdup :: "malloc_ok \<Rightarrow> byte list \<Rightarrow> heap \<Rightarrow> (cstr option \<times> heap) option" where
  "strdup ok s h =
     do { str \<leftarrow> c_string s;
          let (p, h) = malloc ok (length str + 1) h;
          Some (map_option (\<lambda>b. (b, str @ [0])) p, h) }"

definition free_array :: "'a array option \<Rightarrow> heap \<Rightarrow> heap option" where
  "free_array p h = free_opt (map_option fst p) h"

definition SIZEOF_kwsysProcess :: nat where "SIZEOF_kwsysProcess = 2416"

definition kwsysProcess_New :: "malloc_ok \<Rightarrow> heap \<Rightarrow> kwsysProcess option \<times> heap" where
  "kwsysProcess_New ok h =
     (let (p, h) = malloc ok SIZEOF_kwsysProcess h
      in (map_option initial_process p, h))"

section \<open>Commands\<close>

text \<open>The loop that copies the argument strings: the copies made until one fails.\<close>

fun strdup_all :: "malloc_ok \<Rightarrow> byte list list \<Rightarrow> heap \<Rightarrow> (cstr list \<times> heap) option" where
  "strdup_all ok [] h = Some ([], h)"
| "strdup_all ok (s # ss) h =
     do { (p, h) \<leftarrow> strdup ok s h;
          case p of
            None \<Rightarrow> Some ([], h)
          | Some c \<Rightarrow> do { (cs, h) \<leftarrow> strdup_all ok ss h; Some (c # cs, h) } }"

text \<open>
  The new element of the array of commands: the whole command line parsed, or each argument
  copied.  A failure gives the null pointer, after the code has freed what it frees.
\<close>

definition new_command ::
  "malloc_ok \<Rightarrow> kwsysProcess \<Rightarrow> byte list list \<Rightarrow> heap \<Rightarrow> (cstr array option \<times> heap) option" where
  "new_command ok cp command h =
     (if Verbatim cp \<noteq> 0
      then do { (r, h) \<leftarrow> kwsysSystem_Parse_CommandForUnix ok (hd command) 0 h;
                case r of None \<Rightarrow> Some (None, h)
                | Some (b, args) \<Rightarrow> Some (if args = [] then None else Some (b, args), h) }
      else case malloc ok ((length command + 1) * 8) h of
             (None, h) \<Rightarrow> Some (None, h)
           | (Some b, h) \<Rightarrow>
               do { (cs, h) \<leftarrow> strdup_all ok command h;
                    if length cs < length command
                    then do { h \<leftarrow> free_all (rev (map fst cs)) h; Some (None, h) }
                    else Some (Some (b, cs), h) })"

text \<open>\<open>command\<close> is the null pointer or the strings of an array that ends with a null pointer.\<close>

definition AddCommand ::
  "malloc_ok \<Rightarrow> kwsysProcess \<Rightarrow> byte list list option \<Rightarrow> heap \<Rightarrow> (bool \<times> kwsysProcess \<times> heap) option" where
  "AddCommand ok cp command h =
     (case command of
        None \<Rightarrow> Some (False, cp, h)
      | Some command \<Rightarrow>
          if command = [] then Some (False, cp, h)
          else case malloc ok (8 * (NumberOfCommands cp + 1)) h of
                 (None, h) \<Rightarrow> Some (False, cp, h)
               | (Some newCommands, h) \<Rightarrow>
                   do { old \<leftarrow> mem_read (case Commands cp of None \<Rightarrow> [] | Some (_, cs) \<Rightarrow> cs)
                                0 (NumberOfCommands cp);
                        (c, h) \<leftarrow> new_command ok cp command h;
                        case c of
                          None \<Rightarrow> do { h \<leftarrow> free newCommands h; Some (False, cp, h) }
                        | Some c \<Rightarrow>
                            do { h \<leftarrow> free_array (Commands cp) h;
                                 Some (True, cp\<lparr>Commands := Some (newCommands, old @ [c]),
                                   NumberOfCommands := NumberOfCommands cp + 1\<rparr>, h) } })"

text \<open>The loop of \<open>SetCommand\<close>: each string of each command, then the command.\<close>

fun free_commands :: "cstr array list \<Rightarrow> heap \<Rightarrow> heap option" where
  "free_commands [] h = Some h"
| "free_commands ((b, args) # cs) h =
     do { h \<leftarrow> free_all (map fst args) h; h \<leftarrow> free b h; free_commands cs h }"

definition SetCommand ::
  "malloc_ok \<Rightarrow> kwsysProcess \<Rightarrow> byte list list option \<Rightarrow> heap \<Rightarrow> (bool \<times> kwsysProcess \<times> heap) option" where
  "SetCommand ok cp command h =
     do { cs \<leftarrow> mem_read (case Commands cp of None \<Rightarrow> [] | Some (_, cs) \<Rightarrow> cs) 0 (NumberOfCommands cp);
          h \<leftarrow> free_commands cs h;
          h \<leftarrow> free_array (Commands cp) h;
          let cp = cp\<lparr>NumberOfCommands := 0, Commands := None\<rparr>;
          if command \<noteq> None then AddCommand ok cp command h else Some (True, cp, h) }"

section \<open>Timeout, working directory, redirections and options\<close>

definition SetTimeout :: "kwsysProcess \<Rightarrow> real \<Rightarrow> kwsysProcess" where
  "SetTimeout cp timeout =
     (let cp = cp\<lparr>Timeout := timeout\<rparr>;
          cp = (if Timeout cp < 0 then cp\<lparr>Timeout := 0\<rparr> else cp)
      in cp\<lparr>TimeoutTime := Time (-1) (tv_usec (TimeoutTime cp))\<rparr>)"

text \<open>
  The argument is the null pointer or a string of the caller, or the structure's own pointer
  (\<open>Inl\<close>), which the code recognises.
\<close>

definition SetWorkingDirectory ::
  "malloc_ok \<Rightarrow> kwsysProcess \<Rightarrow> unit + byte list option \<Rightarrow> heap \<Rightarrow> (bool \<times> kwsysProcess \<times> heap) option" where
  "SetWorkingDirectory ok cp dir h =
     (case dir of
        Inl _ \<Rightarrow> Some (True, cp, h)
      | Inr dir \<Rightarrow>
          if dir = None \<and> WorkingDirectory cp = None then Some (True, cp, h)
          else do { same \<leftarrow> (case (WorkingDirectory cp, dir) of
                       (Some (_, s), Some d) \<Rightarrow>
                          do { a \<leftarrow> c_string s; b \<leftarrow> c_string d; Some (a = b) }
                     | _ \<Rightarrow> Some False);
               if same then Some (True, cp, h)
               else do { h \<leftarrow> free_array (WorkingDirectory cp) h;
                         let cp = cp\<lparr>WorkingDirectory := None\<rparr>;
                         case dir of
                           None \<Rightarrow> Some (True, cp, h)
                         | Some d \<Rightarrow> do { (p, h) \<leftarrow> strdup ok d h;
                                        Some (p \<noteq> None, cp\<lparr>WorkingDirectory := p\<rparr>, h) } } })"

definition std_pipes :: "int set" where "std_pipes = {Pipe_STDIN, Pipe_STDOUT, Pipe_STDERR}"

text \<open>
  The three setters call each other, with null arguments, to clear the other redirections of
  the stream.
\<close>

function (sequential) SetPipeFile ::
    "malloc_ok \<Rightarrow> kwsysProcess \<Rightarrow> int \<Rightarrow> byte list option \<Rightarrow> heap \<Rightarrow> (bool \<times> kwsysProcess \<times> heap) option"
  and SetPipeShared ::
    "malloc_ok \<Rightarrow> kwsysProcess \<Rightarrow> int \<Rightarrow> bool \<Rightarrow> heap \<Rightarrow> (kwsysProcess \<times> heap) option"
  and SetPipeNative ::
    "malloc_ok \<Rightarrow> kwsysProcess \<Rightarrow> int \<Rightarrow> (int \<times> int) option \<Rightarrow> heap \<Rightarrow> (kwsysProcess \<times> heap) option"
where
  "SetPipeFile ok cp prPipe file h =
     (if prPipe \<notin> std_pipes then Some (False, cp, h)
      else do { h \<leftarrow> free_array (PipeFile cp prPipe) h;
                let cp = cp\<lparr>PipeFile := (PipeFile cp)(prPipe := None)\<rparr>;
                case file of
                  None \<Rightarrow> Some (True, cp, h)
                | Some f \<Rightarrow>
                    do { (p, h) \<leftarrow> strdup ok f h;
                         let cp = cp\<lparr>PipeFile := (PipeFile cp)(prPipe := p)\<rparr>;
                         if p = None then Some (False, cp, h)
                         else do { (cp, h) \<leftarrow> SetPipeNative ok cp prPipe None h;
                                   (cp, h) \<leftarrow> SetPipeShared ok cp prPipe False h;
                                   Some (True, cp, h) } } })"
| "SetPipeShared ok cp prPipe shared h =
     (if prPipe \<notin> std_pipes then Some (cp, h)
      else let cp = cp\<lparr>PipeShared := (PipeShared cp)(prPipe := shared)\<rparr>
           in if shared
              then do { (_, cp, h) \<leftarrow> SetPipeFile ok cp prPipe None h;
                        SetPipeNative ok cp prPipe None h }
              else Some (cp, h))"
| "SetPipeNative ok cp prPipe p h =
     (if prPipe \<notin> std_pipes then Some (cp, h)
      else let cp = cp\<lparr>PipeNative := (PipeNative cp)(prPipe := (case p of None \<Rightarrow> (-1, -1) | Some p \<Rightarrow> p))\<rparr>
           in if p \<noteq> None
              then do { (_, cp, h) \<leftarrow> SetPipeFile ok cp prPipe None h;
                        SetPipeShared ok cp prPipe False h }
              else Some (cp, h))"
  by pat_completeness auto

termination
  by (relation "measure (\<lambda>x. case x of Inl (_, _, _, file, _) \<Rightarrow> if file = None then 0 else 1
       | Inr (Inl (_, _, _, shared, _)) \<Rightarrow> if shared then 1 else 0
       | Inr (Inr (_, _, _, p, _)) \<Rightarrow> if p = None then 0 else (1::nat))") auto

lemmas [simp del] = SetPipeFile.simps SetPipeShared.simps SetPipeNative.simps

definition GetOption :: "kwsysProcess \<Rightarrow> int \<Rightarrow> int" where
  "GetOption cp optionId =
     (if optionId = Option_Detach then OptionDetach cp
      else if optionId = Option_MergeOutput then MergeOutput cp
      else if optionId = Option_Verbatim then Verbatim cp
      else if optionId = Option_CreateProcessGroup then CreateProcessGroup cp
      else 0)"

definition SetOption :: "kwsysProcess \<Rightarrow> int \<Rightarrow> int \<Rightarrow> kwsysProcess" where
  "SetOption cp optionId val =
     (if optionId = Option_Detach then cp\<lparr>OptionDetach := val\<rparr>
      else if optionId = Option_MergeOutput then cp\<lparr>MergeOutput := val\<rparr>
      else if optionId = Option_Verbatim then cp\<lparr>Verbatim := val\<rparr>
      else if optionId = Option_CreateProcessGroup then cp\<lparr>CreateProcessGroup := val\<rparr>
      else cp)"

section \<open>Memory\<close>

lemma malloc_live:
  assumes "malloc ok n h = (p, h')"
  shows "mset (live h') = (case p of None \<Rightarrow> {#} | Some b \<Rightarrow> {#b#}) + mset (live h)"
    and "(\<forall>k n. ok k n) \<longrightarrow> p \<noteq> None"
  using assms by (auto simp: malloc_def split: if_splits)

lemma wp_free [wp_rules]:
  assumes "mset (live h) = F + {#b#}" and "\<And>h'. mset (live h') = F \<Longrightarrow> P h'"
  shows "returns (free b h) P"
  using free_live_mset [OF assms(1)] assms(2) by simp

lemma wp_free_array [wp_rules]:
  assumes "mset (live h) = F + opt_block p" and "\<And>h'. mset (live h') = F \<Longrightarrow> P h'"
  shows "returns (free_array p h) P"
proof (cases p)
  case None
  with assms show ?thesis by (simp add: free_array_def free_opt_def)
next
  case (Some a)
  with assms show ?thesis
    by (cases a) (auto simp: free_array_def free_opt_def intro!: wp_free [where F = F])
qed

lemma wp_free_all [wp_rules]:
  assumes "mset (live h) = F + mset ps" and "\<And>h'. mset (live h') = F \<Longrightarrow> P h'"
  shows "returns (free_all ps h) P"
  using assms
proof (induction ps arbitrary: h)
  case (Cons p ps)
  then have "mset (live h) = (F + mset ps) + {#p#}" by simp
  with Cons show ?case by (auto intro!: wp_free)
qed simp

lemma wp_strdup [wp_rules]:
  assumes "c_string s = Some str"
    and "\<And>p h'. mset (live h') = mset (live h) + opt_block p \<Longrightarrow> (\<forall>b t. p = Some (b, t) \<longrightarrow> t = str @ [0])
      \<Longrightarrow> ((\<forall>k n. ok k n) \<longrightarrow> p \<noteq> None) \<Longrightarrow> P (p, h')"
  shows "returns (strdup ok s h) P"
proof -
  obtain p h' where m: "malloc ok (length str + 1) h = (p, h')" by fastforce
  have "P (map_option (\<lambda>b. (b, str @ [0])) p, h')"
    using malloc_live [OF m] by (intro assms(2)) (auto simp: opt_block_def split: option.splits)
  then show ?thesis using assms(1) m by (simp add: strdup_def)
qed

text \<open>The C strings of an array, and the bytes a copy of one has.\<close>

definition strings :: "byte list list \<Rightarrow> bool" where
  "strings ss \<longleftrightarrow> (\<forall>s\<in>set ss. \<exists>str. c_string s = Some str)"

definition cstr_bytes :: "byte list \<Rightarrow> byte list" where
  "cstr_bytes s = (case c_string s of None \<Rightarrow> [] | Some str \<Rightarrow> str @ [0])"

lemma strdup_all_returns:
  assumes "strings ss"
  shows "returns (strdup_all ok ss h) (\<lambda>(cs, h'). mset (live h') = mset (live h) + mset (map fst cs)
    \<and> length cs \<le> length ss \<and> map snd cs = take (length cs) (map cstr_bytes ss)
    \<and> ((\<forall>k n. ok k n) \<longrightarrow> length cs = length ss))"
  using assms
proof (induction ss arbitrary: h)
  case (Cons s ss)
  from Cons.prems obtain str where s: "c_string s = Some str" "strings ss" by (auto simp: strings_def)
  show ?case
    unfolding strdup_all.simps returns_bind
    by (rule wp_strdup [OF s(1)])
      (auto simp: s(1) cstr_bytes_def split: option.splits intro!: returns_mono [OF Cons.IH [OF s(2)]])
qed simp

text \<open>The blocks of the commands, and those the configuration owns.\<close>

definition command_list :: "kwsysProcess \<Rightarrow> cstr array list" where
  "command_list cp = (case Commands cp of None \<Rightarrow> [] | Some (_, cs) \<Rightarrow> cs)"

definition command_blocks :: "cstr array \<Rightarrow> nat multiset" where
  "command_blocks c = {#fst c#} + mset (map fst (snd c))"

definition owned_commands :: "kwsysProcess \<Rightarrow> nat multiset" where
  "owned_commands cp = opt_block (Commands cp) + (\<Sum>c\<leftarrow>command_list cp. command_blocks c)"

definition owned_config :: "kwsysProcess \<Rightarrow> nat multiset" where
  "owned_config cp = owned_commands cp + opt_block (WorkingDirectory cp) + opt_block (PipeFile cp 1)
     + opt_block (PipeFile cp 2) + opt_block (PipeFile cp 3)"

text \<open>The words of the commands, each with its terminator.\<close>

definition command_words :: "kwsysProcess \<Rightarrow> byte list list list" where
  "command_words cp = map (\<lambda>c. map snd (snd c)) (command_list cp)"

lemma wp_free_commands [wp_rules]:
  assumes "mset (live h) = F + (\<Sum>c\<leftarrow>cs. command_blocks c)" and "\<And>h'. mset (live h') = F \<Longrightarrow> P h'"
  shows "returns (free_commands cs h) P"
  using assms
proof (induction cs arbitrary: h)
  case (Cons c cs)
  obtain b args where c: "c = (b, args)" by fastforce
  with Cons.prems(1) have h: "mset (live h) = (F + (\<Sum>c\<leftarrow>cs. command_blocks c) + {#b#}) + mset (map fst args)"
    by (simp add: command_blocks_def)
  show ?case
    unfolding c free_commands.simps returns_bind
    by (rule wp_free_all [OF h], rule wp_free [where F = "F + (\<Sum>c\<leftarrow>cs. command_blocks c)"], assumption)
      (rule Cons.IH, assumption, rule Cons.prems(2))
qed simp

section \<open>Adding and replacing commands\<close>

definition new_words :: "kwsysProcess \<Rightarrow> byte list list \<Rightarrow> byte list list" where
  "new_words cp command =
     (if Verbatim cp \<noteq> 0 then map (\<lambda>w. w @ [0]) (unix_arguments (the (c_string (hd command))))
      else map cstr_bytes command)"

text \<open>Command arrays the client may pass; a line to be parsed is shorter than a gigabyte.\<close>

definition command_ok :: "kwsysProcess \<Rightarrow> byte list list option \<Rightarrow> bool" where
  "command_ok cp command \<longleftrightarrow> (\<forall>c. command = Some c \<longrightarrow> strings c
     \<and> (Verbatim cp \<noteq> 0 \<and> c \<noteq> [] \<longrightarrow> length (the (c_string (hd c))) < 2 ^ 30 - 2))"

definition all_ok :: "malloc_ok \<Rightarrow> bool" where
  "all_ok ok \<longleftrightarrow> (\<forall>k n. ok k n)"

lemma new_command_returns:
  assumes "command_ok cp (Some command)" and "command \<noteq> []"
  shows "returns (new_command ok cp command h) (\<lambda>(c, h').
      (case c of
         Some c \<Rightarrow> mset (live h') = mset (live h) + command_blocks c \<and> map snd (snd c) = new_words cp command
       | None \<Rightarrow> \<exists>L. size L \<le> 1 \<and> mset (live h') = mset (live h) + L)
      \<and> ((\<forall>k n. ok k n) \<and> new_words cp command \<noteq> [] \<longrightarrow> c \<noteq> None))"
proof (cases "Verbatim cp \<noteq> 0")
  case True
  obtain s ss where c: "command = s # ss" using assms(2) by (cases command) auto
  from assms(1) True obtain str where s: "c_string s = Some str" "2 * (length str + 2) \<le> INT_MAX"
    by (auto simp: command_ok_def strings_def c INT_MAX_def)
  from ParseUnixCommand_run [OF s, of ok h] True s(1) show ?thesis
    by (auto simp: new_command_def kwsysSystem_Parse_CommandForUnix_def c new_words_def
        command_blocks_def split: option.splits) blast+
next
  case False
  have s: "strings command" using assms(1) by (simp add: command_ok_def)
  show ?thesis
  proof (cases "malloc ok ((length command + 1) * 8) h")
    case (Pair p h1)
    show ?thesis
    proof (cases p)
      case None
      with False Pair malloc_live [OF Pair] show ?thesis by (auto simp: new_command_def)
    next
      case (Some b)
      have l: "mset (live h1) = mset (live h) + {#b#}" using malloc_live [OF Pair] Some by simp
      obtain cs h2 where cs: "strdup_all ok command h1 = Some (cs, h2)"
        "mset (live h2) = (mset (live h) + {#b#}) + mset (rev (map fst cs))" "length cs \<le> length command"
        "map snd cs = take (length cs) (map cstr_bytes command)"
        "(\<forall>k n. ok k n) \<longrightarrow> length cs = length command"
        by (rule returnsE [OF strdup_all_returns [OF s, of ok h1]]) (auto simp: l)
      show ?thesis
      proof (cases "length cs < length command")
        case True
        with False Pair Some cs(1,5) show ?thesis
          by (auto simp: new_command_def intro!: wp_free_all [OF cs(2)] exI [of _ "{#b#}"])
      next
        case full: False
        with cs(3) have "length cs = length command" by simp
        with full False Pair Some cs show ?thesis
          by (simp add: new_command_def new_words_def command_blocks_def)
      qed
    qed
  qed
qed

text \<open>The ownership of the configuration, next to the blocks \<open>F\<close> of others.\<close>

definition config_mem :: "nat multiset \<Rightarrow> kwsysProcess \<Rightarrow> heap \<Rightarrow> bool" where
  "config_mem F cp h \<longleftrightarrow> mset (live h) = F + owned_config cp
     \<and> NumberOfCommands cp = length (command_list cp)"

text \<open>What is owned apart from the commands.\<close>

definition owned_rest :: "kwsysProcess \<Rightarrow> nat multiset" where
  "owned_rest cp = opt_block (WorkingDirectory cp) + opt_block (PipeFile cp 1)
     + opt_block (PipeFile cp 2) + opt_block (PipeFile cp 3)"

lemma owned_config_split: "owned_config cp = owned_commands cp + owned_rest cp"
  by (simp add: owned_config_def owned_rest_def ac_simps)

lemma command_list_update [simp]:
  "command_list (cp\<lparr>Commands := Some (b, cs), NumberOfCommands := n\<rparr>) = cs"
  "command_list (cp\<lparr>NumberOfCommands := n, Commands := None\<rparr>) = []"
  by (simp_all add: command_list_def)

lemma mem_read_all [simp]: "mem_read xs 0 (length xs) = Some xs"
  by (simp add: mem_read_def)

lemma AddCommand_returns:
  assumes "config_mem F cp h" and "command_ok cp command"
  shows "returns (AddCommand ok cp command h) (\<lambda>(r, cp', h'). \<exists>L. config_mem (F + L) cp' h' \<and>
     (if r then L = {#} \<and> (\<exists>C N. cp' = cp\<lparr>Commands := C, NumberOfCommands := N\<rparr>)
        \<and> command_words cp' = command_words cp @ [new_words cp (the command)]
      else cp' = cp \<and> size L \<le> 1)
     \<and> (all_ok ok \<and> command \<noteq> None \<and> the command \<noteq> [] \<and> new_words cp (the command) \<noteq> [] \<longrightarrow> r))"
proof (cases "command = None \<or> the command = []")
  case True
  with assms(1) show ?thesis by (cases command) (auto simp: AddCommand_def intro!: exI [of _ "{#}"])
next
  case False
  then obtain c where c: "command = Some c" "c \<noteq> []" by (cases command) simp_all
  have mem: "mset (live h) = F + owned_commands cp + owned_rest cp"
    and N: "NumberOfCommands cp = length (command_list cp)"
    using assms(1) by (simp_all add: config_mem_def owned_config_split ac_simps)
  obtain p h1 where m: "malloc ok (8 * (NumberOfCommands cp + 1)) h = (p, h1)" by fastforce
  show ?thesis
  proof (cases p)
    case None
    with assms(1) c m malloc_live [OF m] show ?thesis
      by (auto simp: all_ok_def AddCommand_def config_mem_def intro!: exI [of _ "{#}"])
  next
    case (Some b)
    have l: "mset (live h1) = mset (live h) + {#b#}" using malloc_live [OF m] Some by simp
    have old: "(case Commands cp of None \<Rightarrow> [] | Some (_, cs) \<Rightarrow> cs) = command_list cp"
      by (simp add: command_list_def)
    obtain n h2 where n: "new_command ok cp c h1 = Some (n, h2)"
      and n2: "case n of Some n \<Rightarrow> mset (live h2) = mset (live h1) + command_blocks n \<and> map snd (snd n) = new_words cp c
         | None \<Rightarrow> \<exists>L. size L \<le> 1 \<and> mset (live h2) = mset (live h1) + L"
      and n3: "all_ok ok \<and> new_words cp c \<noteq> [] \<longrightarrow> n \<noteq> None"
      by (rule returnsE [OF new_command_returns [OF assms(2) [unfolded c(1)] c(2), of ok h1]]) (auto simp: all_ok_def)
    have run: "AddCommand ok cp command h = (case n of
        None \<Rightarrow> do { h \<leftarrow> free b h2; Some (False, cp, h) }
      | Some x \<Rightarrow> do { h \<leftarrow> free_array (Commands cp) h2;
          Some (True, cp\<lparr>Commands := Some (b, command_list cp @ [x]),
            NumberOfCommands := NumberOfCommands cp + 1\<rparr>, h) })"
      using c m Some n by (simp add: AddCommand_def old N)
    show ?thesis
    proof (cases n)
      case None
      with n2 obtain L where L: "size L \<le> 1" "mset (live h2) = (F + L + owned_config cp) + {#b#}"
        using l mem by (auto simp: owned_config_split)
      show ?thesis
        unfolding run None option.case returns_bind using L(1) n3 None N c
        by (auto simp: config_mem_def intro!: wp_free [OF L(2)] exI [of _ L])
    next
      case (Some x)
      let ?cp = "cp\<lparr>Commands := Some (b, command_list cp @ [x]), NumberOfCommands := Suc (NumberOfCommands cp)\<rparr>"
      have own: "owned_config ?cp = {#b#} + (\<Sum>c\<leftarrow>command_list cp. command_blocks c) + command_blocks x + owned_rest cp"
        "command_list ?cp = command_list cp @ [x]"
        by (simp_all add: owned_config_split owned_commands_def owned_rest_def command_list_def)
      have F: "mset (live h2) = (F + owned_config ?cp) + opt_block (Commands cp)"
        using n2 Some l mem by (simp add: own owned_commands_def ac_simps)
      show ?thesis
        unfolding run Some option.case returns_bind using n2 Some N c
        by (auto simp: config_mem_def own command_words_def intro!: wp_free_array [OF F] exI [of _ "{#}"])
    qed
  qed
qed

lemma SetCommand_returns:
  assumes "config_mem F cp h" and "command_ok cp command"
  shows "returns (SetCommand ok cp command h) (\<lambda>(r, cp', h'). \<exists>L. config_mem (F + L) cp' h' \<and>
     size L \<le> 1 \<and> (r \<longrightarrow> L = {#}) \<and> (\<exists>C N. cp' = cp\<lparr>Commands := C, NumberOfCommands := N\<rparr>)
     \<and> command_words cp' = (if r \<and> command \<noteq> None then [new_words cp (the command)] else [])
     \<and> (command = None \<longrightarrow> r)
     \<and> (all_ok ok \<and> command \<noteq> None \<and> the command \<noteq> [] \<and> new_words cp (the command) \<noteq> [] \<longrightarrow> r))"
proof -
  let ?cp = "cp\<lparr>NumberOfCommands := 0, Commands := None\<rparr>"
  have N: "NumberOfCommands cp = length (command_list cp)"
    and mem: "mset (live h) = (F + owned_rest cp + opt_block (Commands cp)) + (\<Sum>c\<leftarrow>command_list cp. command_blocks c)"
    using assms(1) by (simp_all add: config_mem_def owned_config_split owned_commands_def ac_simps)
  have old: "(case Commands cp of None \<Rightarrow> [] | Some (_, cs) \<Rightarrow> cs) = command_list cp"
    by (simp add: command_list_def)
  have empty: "config_mem F ?cp h'" if "mset (live h') = F + owned_rest cp" for h'
    using that by (simp add: config_mem_def owned_config_def owned_rest_def owned_commands_def command_list_def ac_simps)
  have words: "command_words ?cp = []" by (simp add: command_words_def command_list_def)
  have ok: "command_ok ?cp command" "new_words ?cp = new_words cp"
    using assms(2) by (simp_all add: command_ok_def new_words_def fun_eq_iff)
  show ?thesis
    unfolding SetCommand_def old N mem_read_all Option.bind.bind_lunit returns_bind Let_def
  proof (rule wp_free_commands [OF mem], rule wp_free_array, assumption)
    fix h1 :: heap assume h1: "mset (live h1) = F + owned_rest cp"
    show "returns (if command \<noteq> None then AddCommand ok ?cp command h1 else Some (True, ?cp, h1))
      (\<lambda>(r, cp', h'). \<exists>L. config_mem (F + L) cp' h' \<and>
     size L \<le> 1 \<and> (r \<longrightarrow> L = {#}) \<and> (\<exists>C N. cp' = cp\<lparr>Commands := C, NumberOfCommands := N\<rparr>)
     \<and> command_words cp' = (if r \<and> command \<noteq> None then [new_words cp (the command)] else [])
     \<and> (command = None \<longrightarrow> r)
     \<and> (all_ok ok \<and> command \<noteq> None \<and> the command \<noteq> [] \<and> new_words cp (the command) \<noteq> [] \<longrightarrow> r))"
    proof (cases "command = None")
      case True
      with empty [OF h1] words show ?thesis
        by (auto intro!: exI [of _ "{#}"] exI [of _ None] exI [of _ 0])
    next
      case False
      obtain r cp' h2 L where a: "AddCommand ok ?cp command h1 = Some (r, cp', h2)" "config_mem (F + L) cp' h2"
        "if r then L = {#} \<and> (\<exists>C N. cp' = ?cp\<lparr>Commands := C, NumberOfCommands := N\<rparr>)
           \<and> command_words cp' = command_words ?cp @ [new_words ?cp (the command)]
         else cp' = ?cp \<and> size L \<le> 1"
        "all_ok ok \<and> command \<noteq> None \<and> the command \<noteq> [] \<and> new_words ?cp (the command) \<noteq> [] \<longrightarrow> r"
        by (rule returnsE [OF AddCommand_returns [OF empty [OF h1] ok(1), of ok]]) (use False in auto)
      show ?thesis
      proof (cases r)
        case True
        then obtain C N where "cp' = ?cp\<lparr>Commands := C, NumberOfCommands := N\<rparr>" using a(3) by auto
        then have "cp' = cp\<lparr>Commands := C, NumberOfCommands := N\<rparr>" by simp
        with a True False words ok(2) show ?thesis by (auto intro!: exI [of _ "{#}"])
      next
        case fails: False
        have e: "\<exists>C N. ?cp = cp\<lparr>Commands := C, NumberOfCommands := N\<rparr>"
          by (rule exI [of _ None], rule exI [of _ 0]) simp
        have cp': "cp' = ?cp" "size L \<le> 1" using a(3) fails by simp_all
        show ?thesis
          unfolding if_P [OF False] a(1) returns_Some prod.case
          using fails a(2,4) cp' False words ok(2) e by (intro exI [of _ L]) simp
      qed
    qed
  qed
qed

section \<open>Redirections\<close>

text \<open>What a standard stream of the child is connected to; \<open>Captured\<close> is a pipe to the parent.\<close>

datatype redirection = Captured | Shared | ToFile "byte list" | Native "int \<times> int"

definition redirection :: "kwsysProcess \<Rightarrow> int \<Rightarrow> redirection" where
  "redirection cp p =
     (case PipeFile cp p of
        Some (_, s) \<Rightarrow> ToFile s
      | None \<Rightarrow> if PipeShared cp p then Shared
                else if PipeNative cp p \<noteq> (-1, -1) then Native (PipeNative cp p) else Captured)"

text \<open>At most one of the three redirections of each stream is set.\<close>

definition exclusive :: "kwsysProcess \<Rightarrow> bool" where
  "exclusive cp \<longleftrightarrow> (\<forall>p\<in>std_pipes.
      (PipeFile cp p \<noteq> None \<longrightarrow> \<not> PipeShared cp p \<and> PipeNative cp p = (-1, -1))
    \<and> (PipeShared cp p \<longrightarrow> PipeNative cp p = (-1, -1)))"

text \<open>The specification of the setters: a stream has one redirection, which a null argument clears.\<close>

definition set_file :: "byte list option \<Rightarrow> redirection \<Rightarrow> redirection" where
  "set_file f r = (case f of Some s \<Rightarrow> ToFile s | None \<Rightarrow> (case r of ToFile _ \<Rightarrow> Captured | _ \<Rightarrow> r))"

definition set_shared :: "bool \<Rightarrow> redirection \<Rightarrow> redirection" where
  "set_shared b r = (if b then Shared else if r = Shared then Captured else r)"

definition set_native :: "(int \<times> int) option \<Rightarrow> redirection \<Rightarrow> redirection" where
  "set_native p r =
     (case p of Some q \<Rightarrow> if q = (-1, -1) then Captured else Native q
      | None \<Rightarrow> (case r of Native _ \<Rightarrow> Captured | _ \<Rightarrow> r))"

lemma std_pipes_iff: "p \<in> std_pipes \<longleftrightarrow> p = 1 \<or> p = 2 \<or> p = 3"
  by (auto simp: std_pipes_def)

lemma owned_pipe_file:
  assumes "p \<in> std_pipes"
  shows "owned_config cp = owned_config (cp\<lparr>PipeFile := (PipeFile cp)(p := None)\<rparr>) + opt_block (PipeFile cp p)"
    and "PipeFile cp p = None \<Longrightarrow>
      owned_config (cp\<lparr>PipeFile := (PipeFile cp)(p := x)\<rparr>) = owned_config cp + opt_block x"
  using assms by (auto simp: owned_config_def owned_commands_def command_list_def std_pipes_iff)

lemma config_mem_frame [simp]:
  "config_mem F (cp\<lparr>PipeShared := s\<rparr>) h = config_mem F cp h"
  "config_mem F (cp\<lparr>PipeNative := n\<rparr>) h = config_mem F cp h"
  by (simp_all add: config_mem_def owned_config_def owned_commands_def command_list_def)

text \<open>The three setters with a null argument do not call each other.\<close>

lemma clear_pipe_file:
  assumes "config_mem F cp h" and "p \<in> std_pipes"
  shows "\<exists>h'. SetPipeFile ok cp p None h = Some (True, cp\<lparr>PipeFile := (PipeFile cp)(p := None)\<rparr>, h')
    \<and> config_mem F (cp\<lparr>PipeFile := (PipeFile cp)(p := None)\<rparr>) h'"
proof -
  let ?cp = "cp\<lparr>PipeFile := (PipeFile cp)(p := None)\<rparr>"
  have "mset (live h) = (F + owned_config ?cp) + opt_block (PipeFile cp p)"
    using assms owned_pipe_file(1) [OF assms(2), of cp] by (simp add: config_mem_def)
  then have "returns (free_array (PipeFile cp p) h) (\<lambda>h'. mset (live h') = F + owned_config ?cp)"
    by (rule wp_free_array)
  then show ?thesis
    using assms by (auto simp: returns_def SetPipeFile.simps config_mem_def command_list_def)
qed

lemma clear_pipe_shared:
  "p \<in> std_pipes \<Longrightarrow> SetPipeShared ok cp p False h = Some (cp\<lparr>PipeShared := (PipeShared cp)(p := False)\<rparr>, h)"
  by (simp add: SetPipeShared.simps)

lemma clear_pipe_native:
  "p \<in> std_pipes \<Longrightarrow> SetPipeNative ok cp p None h = Some (cp\<lparr>PipeNative := (PipeNative cp)(p := (-1, -1))\<rparr>, h)"
  by (simp add: SetPipeNative.simps)

text \<open>The setters by their effect.  The blocks \<open>F\<close> of others are not touched.\<close>

lemma SetPipeShared_effect:
  assumes "config_mem F cp h" and "p \<in> std_pipes"
  shows "\<exists>h'. SetPipeShared ok cp p b h = Some (cp\<lparr>PipeShared := (PipeShared cp)(p := b),
       PipeFile := if b then (PipeFile cp)(p := None) else PipeFile cp,
       PipeNative := if b then (PipeNative cp)(p := (-1, -1)) else PipeNative cp\<rparr>, h')
    \<and> config_mem F (cp\<lparr>PipeShared := (PipeShared cp)(p := b),
       PipeFile := if b then (PipeFile cp)(p := None) else PipeFile cp,
       PipeNative := if b then (PipeNative cp)(p := (-1, -1)) else PipeNative cp\<rparr>) h'"
proof (cases b)
  case True
  let ?cp = "cp\<lparr>PipeShared := (PipeShared cp)(p := True)\<rparr>"
  have "config_mem F ?cp h" using assms(1) by simp
  from clear_pipe_file [OF this assms(2), of ok] obtain h' where
    h': "SetPipeFile ok ?cp p None h = Some (True, ?cp\<lparr>PipeFile := (PipeFile cp)(p := None)\<rparr>, h')"
      "config_mem F (?cp\<lparr>PipeFile := (PipeFile cp)(p := None)\<rparr>) h'" by auto
  show ?thesis
    using True assms(2) h' by (simp add: SetPipeShared.simps clear_pipe_native)
next
  case False
  with assms show ?thesis by (simp add: clear_pipe_shared)
qed

lemma SetPipeNative_effect:
  assumes "config_mem F cp h" and "p \<in> std_pipes"
  shows "\<exists>h'. SetPipeNative ok cp p (Some q) h = Some (cp\<lparr>PipeNative := (PipeNative cp)(p := q),
       PipeFile := (PipeFile cp)(p := None), PipeShared := (PipeShared cp)(p := False)\<rparr>, h')
    \<and> config_mem F (cp\<lparr>PipeNative := (PipeNative cp)(p := q),
       PipeFile := (PipeFile cp)(p := None), PipeShared := (PipeShared cp)(p := False)\<rparr>) h'"
proof -
  let ?cp = "cp\<lparr>PipeNative := (PipeNative cp)(p := q)\<rparr>"
  have "config_mem F ?cp h" using assms(1) by simp
  from clear_pipe_file [OF this assms(2), of ok] obtain h' where
    h': "SetPipeFile ok ?cp p None h = Some (True, ?cp\<lparr>PipeFile := (PipeFile cp)(p := None)\<rparr>, h')"
      "config_mem F (?cp\<lparr>PipeFile := (PipeFile cp)(p := None)\<rparr>) h'" by auto
  show ?thesis
    using assms(2) h' by (simp add: SetPipeNative.simps clear_pipe_shared)
qed

lemma SetPipeFile_effect:
  assumes "config_mem F cp h" and "p \<in> std_pipes" and "c_string f = Some str"
  shows "\<exists>x h'. SetPipeFile ok cp p (Some f) h = Some (x \<noteq> None, cp\<lparr>PipeFile := (PipeFile cp)(p := x),
       PipeNative := if x = None then PipeNative cp else (PipeNative cp)(p := (-1, -1)),
       PipeShared := if x = None then PipeShared cp else (PipeShared cp)(p := False)\<rparr>, h')
    \<and> (\<forall>y. x = Some y \<longrightarrow> snd y = str @ [0]) \<and> (all_ok ok \<longrightarrow> x \<noteq> None)
    \<and> config_mem F (cp\<lparr>PipeFile := (PipeFile cp)(p := x),
       PipeNative := if x = None then PipeNative cp else (PipeNative cp)(p := (-1, -1)),
       PipeShared := if x = None then PipeShared cp else (PipeShared cp)(p := False)\<rparr>) h'"
proof -
  let ?cp = "cp\<lparr>PipeFile := (PipeFile cp)(p := None)\<rparr>"
  have "mset (live h) = (F + owned_config ?cp) + opt_block (PipeFile cp p)"
    using assms owned_pipe_file(1) [OF assms(2), of cp] by (simp add: config_mem_def)
  then have "returns (free_array (PipeFile cp p) h) (\<lambda>h'. mset (live h') = F + owned_config ?cp)"
    by (rule wp_free_array)
  then obtain h1 where h1: "free_array (PipeFile cp p) h = Some h1" "mset (live h1) = F + owned_config ?cp"
    by (rule returnsE)
  have "returns (strdup ok f h1) (\<lambda>(x, h2). mset (live h2) = mset (live h1) + opt_block x
      \<and> (\<forall>y. x = Some y \<longrightarrow> snd y = str @ [0]) \<and> (all_ok ok \<longrightarrow> x \<noteq> None))"
    by (rule wp_strdup [OF assms(3)]) (auto simp: all_ok_def)
  then obtain x h2 where x: "strdup ok f h1 = Some (x, h2)" "mset (live h2) = mset (live h1) + opt_block x"
      "\<forall>y. x = Some y \<longrightarrow> snd y = str @ [0]" "all_ok ok \<longrightarrow> x \<noteq> None"
    by (auto elim!: returnsE)
  have "owned_config (cp\<lparr>PipeFile := (PipeFile cp)(p := x)\<rparr>) = owned_config ?cp + opt_block x"
    using owned_pipe_file(2) [OF assms(2), of ?cp x] by simp
  then have "config_mem F (cp\<lparr>PipeFile := (PipeFile cp)(p := x)\<rparr>) h2"
    using assms(1) h1(2) x(2) by (simp add: config_mem_def command_list_def)
  then have mem: "config_mem F (cp\<lparr>PipeFile := (PipeFile cp)(p := x), PipeNative := n, PipeShared := s\<rparr>) h2" for n s
    by simp
  have run: "SetPipeFile ok cp p (Some f) h = Some (x \<noteq> None, cp\<lparr>PipeFile := (PipeFile cp)(p := x),
       PipeNative := if x = None then PipeNative cp else (PipeNative cp)(p := (-1, -1)),
       PipeShared := if x = None then PipeShared cp else (PipeShared cp)(p := False)\<rparr>, h2)"
  proof (cases x)
    case None
    with x(1) h1(1) assms(2) show ?thesis by (simp add: SetPipeFile.simps)
  next
    case (Some y)
    let ?cx = "cp\<lparr>PipeFile := (PipeFile cp)(p := x)\<rparr>"
    have "SetPipeFile ok cp p (Some f) h = do { (cp, h) \<leftarrow> SetPipeNative ok ?cx p None h2;
        (cp, h) \<leftarrow> SetPipeShared ok cp p False h; Some (True, cp, h) }"
      using x(1) h1(1) assms(2) Some by (simp add: SetPipeFile.simps)
    also have "\<dots> = Some (True, ?cx\<lparr>PipeNative := (PipeNative cp)(p := (-1, -1)),
        PipeShared := (PipeShared cp)(p := False)\<rparr>, h2)"
      by (simp add: clear_pipe_native clear_pipe_shared assms(2))
    finally show ?thesis using Some by simp
  qed
  show ?thesis
    by (rule exI [of _ x], rule exI [of _ h2], rule conjI [OF run conjI [OF x(3) conjI [OF x(4) mem]]])
qed

lemma SetPipe_other:
  assumes "p \<notin> std_pipes"
  shows "SetPipeFile ok cp p f h = Some (False, cp, h)" "SetPipeShared ok cp p b h = Some (cp, h)"
    "SetPipeNative ok cp p q h = Some (cp, h)"
  using assms by (simp_all add: SetPipeFile.simps SetPipeShared.simps SetPipeNative.simps)

section \<open>Sequences of configuration calls\<close>

datatype config_call =
    C_AddCommand "byte list list option" | C_SetCommand "byte list list option"
  | C_SetTimeout real | C_SetWorkingDirectory "unit + byte list option"
  | C_SetPipeFile int "byte list option" | C_SetPipeShared int bool
  | C_SetPipeNative int "(int \<times> int) option" | C_SetOption int int

fun config_step :: "malloc_ok \<Rightarrow> config_call \<Rightarrow> kwsysProcess \<times> heap \<Rightarrow> (kwsysProcess \<times> heap) option" where
  "config_step ok (C_AddCommand c) (cp, h) = map_option snd (AddCommand ok cp c h)"
| "config_step ok (C_SetCommand c) (cp, h) = map_option snd (SetCommand ok cp c h)"
| "config_step ok (C_SetTimeout t) (cp, h) = Some (SetTimeout cp t, h)"
| "config_step ok (C_SetWorkingDirectory d) (cp, h) = map_option snd (SetWorkingDirectory ok cp d h)"
| "config_step ok (C_SetPipeFile p f) (cp, h) = map_option snd (SetPipeFile ok cp p f h)"
| "config_step ok (C_SetPipeShared p b) (cp, h) = SetPipeShared ok cp p b h"
| "config_step ok (C_SetPipeNative p q) (cp, h) = SetPipeNative ok cp p q h"
| "config_step ok (C_SetOption i v) (cp, h) = Some (SetOption cp i v, h)"

text \<open>
  The arguments are what C requires of a caller: strings end, and a command line is shorter
  than a gigabyte.
\<close>

definition string_ok :: "byte list \<Rightarrow> bool" where
  "string_ok s \<longleftrightarrow> (\<exists>str. c_string s = Some str \<and> length str < 2 ^ 30 - 2)"

fun config_good :: "config_call \<Rightarrow> bool" where
  "config_good (C_AddCommand c) \<longleftrightarrow> (\<forall>ss. c = Some ss \<longrightarrow> list_all string_ok ss)"
| "config_good (C_SetCommand c) \<longleftrightarrow> (\<forall>ss. c = Some ss \<longrightarrow> list_all string_ok ss)"
| "config_good (C_SetWorkingDirectory d) \<longleftrightarrow> (\<forall>s. d = Inr (Some s) \<longrightarrow> string_ok s)"
| "config_good (C_SetPipeFile p f) \<longleftrightarrow> (\<forall>s. f = Some s \<longrightarrow> string_ok s)"
| "config_good _ \<longleftrightarrow> True"

definition terminated :: "cstr option \<Rightarrow> bool" where
  "terminated s \<longleftrightarrow> (\<forall>b t. s = Some (b, t) \<longrightarrow> (\<exists>str. c_string t = Some str))"

definition config_inv :: "nat multiset \<Rightarrow> kwsysProcess \<times> heap \<Rightarrow> bool" where
  "config_inv F = (\<lambda>(cp, h). (\<exists>L. config_mem (F + L) cp h) \<and> exclusive cp \<and> terminated (WorkingDirectory cp)
     \<and> 0 \<le> Timeout cp)"

text \<open>
  The same with a bound on the blocks that have been lost.  Only a call that fails to add a command may lose
  a block.
\<close>

definition config_lost :: "nat multiset \<Rightarrow> nat \<Rightarrow> kwsysProcess \<times> heap \<Rightarrow> bool" where
  "config_lost F n = (\<lambda>(cp, h). (\<exists>L. size L \<le> n \<and> config_mem (F + L) cp h) \<and> exclusive cp
     \<and> terminated (WorkingDirectory cp) \<and> 0 \<le> Timeout cp)"

fun failed_add :: "malloc_ok \<Rightarrow> config_call \<Rightarrow> kwsysProcess \<times> heap \<Rightarrow> nat" where
  "failed_add ok (C_AddCommand c) (cp, h) = (case AddCommand ok cp c h of Some (False, _, _) \<Rightarrow> 1 | _ \<Rightarrow> 0)"
| "failed_add ok (C_SetCommand c) (cp, h) = (case SetCommand ok cp c h of Some (False, _, _) \<Rightarrow> 1 | _ \<Rightarrow> 0)"
| "failed_add ok _ _ = 0"

lemma config_inv_lost: "config_inv F s \<longleftrightarrow> (\<exists>n. config_lost F n s)"
  by (cases s) (auto simp: config_inv_def config_lost_def)

lemma command_ok_good: "\<forall>ss. c = Some ss \<longrightarrow> list_all string_ok ss \<Longrightarrow> command_ok cp c"
proof -
  assume a: "\<forall>ss. c = Some ss \<longrightarrow> list_all string_ok ss"
  have "strings ss" if "c = Some ss" for ss
    using a that by (auto simp: strings_def list_all_iff string_ok_def)
  moreover have "length (the (c_string (hd ss))) < 2 ^ 30 - 2" if "c = Some ss" "ss \<noteq> []" for ss
  proof -
    from that obtain s rest where "ss = s # rest" by (cases ss) auto
    with a that show ?thesis by (auto simp: string_ok_def)
  qed
  ultimately show ?thesis by (auto simp: command_ok_def)
qed

lemma SetWorkingDirectory_returns:
  assumes "config_mem F cp h" and "terminated (WorkingDirectory cp)" and "\<forall>s. dir = Inr (Some s) \<longrightarrow> string_ok s"
  shows "returns (SetWorkingDirectory ok cp dir h) (\<lambda>(r, cp', h'). config_mem F cp' h'
    \<and> (\<exists>x. cp' = cp\<lparr>WorkingDirectory := x\<rparr> \<and> terminated x
        \<and> (\<forall>s. dir = Inr (Some s) \<longrightarrow> (if r then \<exists>b t. x = Some (b, t) \<and> c_string t = c_string s else x = None))
        \<and> (dir = Inr None \<longrightarrow> r \<and> x = None))
    \<and> (all_ok ok \<longrightarrow> r))"
proof -
  consider (own) u where "dir = Inl u" | (none) "dir = Inr None"
    | (some) s where "dir = Inr (Some s)"
    by (metis not_None_eq sumE)
  then show ?thesis
  proof cases
    case own
    with assms show ?thesis
      by (auto simp: SetWorkingDirectory_def intro!: exI [of _ "WorkingDirectory cp"])
  next
    case none
    let ?cp = "cp\<lparr>WorkingDirectory := None\<rparr>"
    have own: "owned_config cp = owned_config ?cp + opt_block (WorkingDirectory cp)"
      by (simp add: owned_config_def owned_commands_def command_list_def)
    have mem: "mset (live h) = (F + owned_config ?cp) + opt_block (WorkingDirectory cp)"
      using assms(1) own by (simp add: config_mem_def)
    have l: "command_list ?cp = command_list cp" by (simp add: command_list_def)
    show ?thesis
    proof (cases "WorkingDirectory cp = None")
      case True
      have "cp = ?cp" using True by simp
      then have e: "\<exists>x. cp = cp\<lparr>WorkingDirectory := x\<rparr> \<and> terminated x \<and> x = None"
        by (intro exI [of _ None]) (simp add: terminated_def)
      have "SetWorkingDirectory ok cp dir h = Some (True, cp, h)"
        using none True by (simp add: SetWorkingDirectory_def)
      then show ?thesis using e none assms(1) by auto
    next
      case False
      have run: "SetWorkingDirectory ok cp dir h = do { h \<leftarrow> free_array (WorkingDirectory cp) h; Some (True, ?cp, h) }"
        using none False by (auto simp: SetWorkingDirectory_def)
      show ?thesis
        unfolding run returns_bind
      proof (rule wp_free_array [OF mem])
        fix h1 :: heap
        assume "mset (live h1) = F + owned_config ?cp"
        with none assms l show "returns (Some (True, ?cp, h1)) (\<lambda>(r, cp', h'). config_mem F cp' h'
          \<and> (\<exists>x. cp' = cp\<lparr>WorkingDirectory := x\<rparr> \<and> terminated x
        \<and> (\<forall>s. dir = Inr (Some s) \<longrightarrow> (if r then \<exists>b t. x = Some (b, t) \<and> c_string t = c_string s else x = None))
        \<and> (dir = Inr None \<longrightarrow> r \<and> x = None)) \<and> (all_ok ok \<longrightarrow> r))"
          by (auto simp: config_mem_def terminated_def intro!: exI [of _ None])
      qed
    qed
  next
    case (some s)
    let ?cp = "cp\<lparr>WorkingDirectory := None\<rparr>"
    have own: "owned_config (cp\<lparr>WorkingDirectory := x\<rparr>) = owned_config ?cp + opt_block x" for x
      by (simp add: owned_config_def owned_commands_def command_list_def)
    have mem: "mset (live h) = (F + owned_config ?cp) + opt_block (WorkingDirectory cp)"
      using assms(1) own [of "WorkingDirectory cp"] by (simp add: config_mem_def)
    have l: "command_list (cp\<lparr>WorkingDirectory := x\<rparr>) = command_list cp" for x by (simp add: command_list_def)
    from some assms(3) obtain str where str: "c_string s = Some str" by (auto simp: string_ok_def)
    from str have nz: "0 \<notin> set str" by (simp add: c_string_iff)
    show ?thesis
    proof (cases "\<exists>b t. WorkingDirectory cp = Some (b, t) \<and> c_string t = Some str")
      case True
      then obtain b t where wd: "WorkingDirectory cp = Some (b, t)" "c_string t = Some str" by blast
      then have "SetWorkingDirectory ok cp dir h = Some (True, cp, h)"
        using some str by (simp add: SetWorkingDirectory_def)
      then show ?thesis using assms wd some str
        by (auto intro!: exI [of _ "WorkingDirectory cp"])
    next
      case False
      have run: "SetWorkingDirectory ok cp dir h = do { h \<leftarrow> free_array (WorkingDirectory cp) h;
          (p, h) \<leftarrow> strdup ok s h; Some (p \<noteq> None, ?cp\<lparr>WorkingDirectory := p\<rparr>, h) }"
      proof (cases "WorkingDirectory cp")
        case None
        then show ?thesis using some by (simp add: SetWorkingDirectory_def)
      next
        case (Some a)
        then obtain b t str' where "a = (b, t)" "c_string t = Some str'" "str' \<noteq> str"
          using False assms(2) by (cases a) (auto simp: terminated_def)
        then show ?thesis using Some some str by (simp add: SetWorkingDirectory_def)
      qed
      have post: "config_mem F (cp\<lparr>WorkingDirectory := p\<rparr>) h2 \<and> terminated p
          \<and> (if p \<noteq> None then \<exists>b t. p = Some (b, t) \<and> c_string t = c_string s else p = None)"
        if "mset (live h2) = F + owned_config ?cp + opt_block p" "\<forall>b t. p = Some (b, t) \<longrightarrow> t = str @ [0]" for p h2
        using that own [of p] l assms(1) nz str by (cases p) (auto simp: config_mem_def terminated_def)
      show ?thesis
        unfolding run returns_bind
      proof (rule wp_free_array [OF mem], rule wp_strdup [OF str])
        fix h1 p and h2 :: heap
        assume a: "mset (live h1) = F + owned_config ?cp" "mset (live h2) = mset (live h1) + opt_block p"
          "\<forall>b t. p = Some (b, t) \<longrightarrow> t = str @ [0]" "(\<forall>k n. ok k n) \<longrightarrow> p \<noteq> None"
        from post [of h2 p] a show "returns (case (p, h2) of (p, h) \<Rightarrow> Some (p \<noteq> None, ?cp\<lparr>WorkingDirectory := p\<rparr>, h))
          (\<lambda>(r, cp', h'). config_mem F cp' h' \<and> (\<exists>x. cp' = cp\<lparr>WorkingDirectory := x\<rparr> \<and> terminated x
        \<and> (\<forall>s. dir = Inr (Some s) \<longrightarrow> (if r then \<exists>b t. x = Some (b, t) \<and> c_string t = c_string s else x = None))
        \<and> (dir = Inr None \<longrightarrow> r \<and> x = None)) \<and> (all_ok ok \<longrightarrow> r))"
          using some by (cases p) (auto simp: all_ok_def intro!: exI [of _ p])
      qed
    qed
  qed
qed

lemma returns_map_option [simp]: "returns (map_option f m) P \<longleftrightarrow> returns m (\<lambda>x. P (f x))"
  by (cases m) simp_all

lemma exclusive_frame [simp]:
  "exclusive (cp\<lparr>Commands := C, NumberOfCommands := N\<rparr>) = exclusive cp"
  "exclusive (cp\<lparr>WorkingDirectory := d\<rparr>) = exclusive cp"
  by (simp_all add: exclusive_def)

text \<open>The three setters keep the exclusion and change nothing but the redirections.\<close>

definition redirections_only :: "kwsysProcess \<Rightarrow> kwsysProcess \<Rightarrow> bool" where
  "redirections_only cp cp' \<longleftrightarrow>
     (\<exists>f s n. cp' = cp\<lparr>PipeFile := f, PipeShared := s, PipeNative := n\<rparr>)"

lemma pipe_update_eqs:
  "cp\<lparr>PipeShared := s, PipeFile := f, PipeNative := n\<rparr> = cp\<lparr>PipeFile := f, PipeShared := s, PipeNative := n\<rparr>"
  "cp\<lparr>PipeNative := n, PipeFile := f, PipeShared := s\<rparr> = cp\<lparr>PipeFile := f, PipeShared := s, PipeNative := n\<rparr>"
  "cp\<lparr>PipeFile := f, PipeNative := n, PipeShared := s\<rparr> = cp\<lparr>PipeFile := f, PipeShared := s, PipeNative := n\<rparr>"
  by simp_all

lemma redirections_onlyI: "redirections_only cp (cp\<lparr>PipeFile := f, PipeShared := s, PipeNative := n\<rparr>)"
  unfolding redirections_only_def by blast

text \<open>The specification of one setter call, on the streams and on memory.\<close>

definition stream_post ::
  "nat multiset \<Rightarrow> kwsysProcess \<Rightarrow> int \<Rightarrow> (redirection \<Rightarrow> redirection) \<Rightarrow> kwsysProcess \<Rightarrow> heap \<Rightarrow> bool" where
  "stream_post F cp p f cp' h' \<longleftrightarrow> config_mem F cp' h' \<and> exclusive cp' \<and> redirections_only cp cp'
     \<and> (\<forall>q\<in>std_pipes. redirection cp' q = (if q = p then f (redirection cp q) else redirection cp q))"

lemma stream_cases:
  assumes "exclusive cp" and "p \<in> std_pipes"
  obtains (redirected) b s where "PipeFile cp p = Some (b, s)" "\<not> PipeShared cp p" "PipeNative cp p = (-1, -1)"
  | (shared) "PipeFile cp p = None" "PipeShared cp p" "PipeNative cp p = (-1, -1)"
  | (native) "PipeFile cp p = None" "\<not> PipeShared cp p" "PipeNative cp p \<noteq> (-1, -1)"
  | (captured) "PipeFile cp p = None" "\<not> PipeShared cp p" "PipeNative cp p = (-1, -1)"
  using assms unfolding exclusive_def by (cases "PipeFile cp p") fastforce+

lemma SetPipeShared_stream:
  assumes "config_mem F cp h" and "exclusive cp"
  shows "returns (SetPipeShared ok cp p b h) (\<lambda>(cp', h'). stream_post F cp p (set_shared b) cp' h')"
proof (cases "p \<in> std_pipes")
  case True
  let ?cp = "cp\<lparr>PipeFile := if b then (PipeFile cp)(p := None) else PipeFile cp,
      PipeShared := (PipeShared cp)(p := b),
      PipeNative := if b then (PipeNative cp)(p := (-1, -1)) else PipeNative cp\<rparr>"
  from SetPipeShared_effect [OF assms(1) True, of ok b] obtain h' where
    h': "SetPipeShared ok cp p b h = Some (?cp, h')" "config_mem F ?cp h'"
    unfolding pipe_update_eqs by blast
  have "exclusive ?cp"
    using assms(2) unfolding exclusive_def by auto
  moreover have "\<forall>q\<in>std_pipes. redirection ?cp q = (if q = p then set_shared b (redirection cp q) else redirection cp q)"
    by (rule stream_cases [OF assms(2) True])
      (auto simp: redirection_def set_shared_def split: option.splits)
  ultimately show ?thesis
    unfolding h'(1) stream_post_def
      by (simp only: returns_Some prod.case redirections_onlyI h'(2) simp_thms)
next
  case False
  have "redirections_only cp cp"
    unfolding redirections_only_def
    by (rule exI [of _ "PipeFile cp"], rule exI [of _ "PipeShared cp"], rule exI [of _ "PipeNative cp"]) simp
  with False assms show ?thesis
    by (auto simp: SetPipe_other stream_post_def)
qed

lemma SetPipeNative_stream:
  assumes "config_mem F cp h" and "exclusive cp"
  shows "returns (SetPipeNative ok cp p q h) (\<lambda>(cp', h'). stream_post F cp p (set_native q) cp' h')"
proof (cases "p \<in> std_pipes")
  case True
  show ?thesis
  proof (cases q)
    case None
    let ?cp = "cp\<lparr>PipeFile := PipeFile cp, PipeShared := PipeShared cp, PipeNative := (PipeNative cp)(p := (-1, -1))\<rparr>"
    have run: "SetPipeNative ok cp p q h = Some (?cp, h)" using clear_pipe_native [OF True] None by simp
    have "exclusive ?cp" using assms(2) unfolding exclusive_def by auto
    moreover have "\<forall>q'\<in>std_pipes. redirection ?cp q' = (if q' = p then set_native q (redirection cp q') else redirection cp q')"
      using None by - (rule stream_cases [OF assms(2) True]; auto simp: redirection_def set_native_def split: option.splits)
    moreover have "config_mem F ?cp h" using assms(1) by simp
    ultimately show ?thesis unfolding run stream_post_def
      by (simp only: returns_Some prod.case redirections_onlyI simp_thms)
  next
    case (Some r)
    let ?cp = "cp\<lparr>PipeFile := (PipeFile cp)(p := None), PipeShared := (PipeShared cp)(p := False),
        PipeNative := (PipeNative cp)(p := r)\<rparr>"
    from SetPipeNative_effect [OF assms(1) True, of ok r] obtain h' where
      h': "SetPipeNative ok cp p q h = Some (?cp, h')" "config_mem F ?cp h'"
      unfolding Some pipe_update_eqs by blast
    have "exclusive ?cp" using assms(2) unfolding exclusive_def by auto
    moreover have "\<forall>q'\<in>std_pipes. redirection ?cp q' = (if q' = p then set_native q (redirection cp q') else redirection cp q')"
      using Some by (auto simp: redirection_def set_native_def split: option.splits)
    ultimately show ?thesis unfolding h'(1) stream_post_def
      by (simp only: returns_Some prod.case redirections_onlyI h'(2) simp_thms)
  qed
next
  case False
  have "redirections_only cp cp"
    unfolding redirections_only_def
    by (rule exI [of _ "PipeFile cp"], rule exI [of _ "PipeShared cp"], rule exI [of _ "PipeNative cp"]) simp
  with False assms show ?thesis
    by (auto simp: SetPipe_other stream_post_def)
qed

lemma SetPipeFile_stream:
  assumes "config_mem F cp h" and "exclusive cp" and "\<forall>s. f = Some s \<longrightarrow> string_ok s"
  shows "returns (SetPipeFile ok cp p f h) (\<lambda>(r, cp', h').
      stream_post F cp p (set_file (if r then map_option cstr_bytes f else None)) cp' h'
      \<and> (all_ok ok \<and> p \<in> std_pipes \<longrightarrow> r))"
proof (cases "p \<in> std_pipes")
  case True
  show ?thesis
  proof (cases f)
    case None
    let ?cp = "cp\<lparr>PipeFile := (PipeFile cp)(p := None), PipeShared := PipeShared cp, PipeNative := PipeNative cp\<rparr>"
    from clear_pipe_file [OF assms(1) True, of ok] obtain h' where
      h': "SetPipeFile ok cp p f h = Some (True, ?cp, h')" "config_mem F ?cp h'"
      unfolding None by auto
    have "exclusive ?cp" using assms(2) unfolding exclusive_def by auto
    moreover have "\<forall>q'\<in>std_pipes. redirection ?cp q' = (if q' = p then set_file None (redirection cp q') else redirection cp q')"
      by (rule stream_cases [OF assms(2) True])
        (auto simp: redirection_def set_file_def split: option.splits)
    ultimately show ?thesis unfolding h'(1) unfolding stream_post_def None
      by (simp only: returns_Some prod.case redirections_onlyI h'(2) simp_thms if_True option.map)
  next
    case (Some s)
    with assms(3) obtain str where str: "c_string s = Some str" by (auto simp: string_ok_def)
    obtain x h' where h': "SetPipeFile ok cp p (Some s) h = Some (x \<noteq> None, cp\<lparr>PipeFile := (PipeFile cp)(p := x),
       PipeNative := if x = None then PipeNative cp else (PipeNative cp)(p := (-1, -1)),
       PipeShared := if x = None then PipeShared cp else (PipeShared cp)(p := False)\<rparr>, h')"
      "\<forall>y. x = Some y \<longrightarrow> snd y = str @ [0]" "all_ok ok \<longrightarrow> x \<noteq> None"
      "config_mem F (cp\<lparr>PipeFile := (PipeFile cp)(p := x),
       PipeNative := if x = None then PipeNative cp else (PipeNative cp)(p := (-1, -1)),
       PipeShared := if x = None then PipeShared cp else (PipeShared cp)(p := False)\<rparr>) h'"
      using SetPipeFile_effect [OF assms(1) True str, of ok] by blast
    let ?cp = "cp\<lparr>PipeFile := (PipeFile cp)(p := x),
       PipeShared := if x = None then PipeShared cp else (PipeShared cp)(p := False),
       PipeNative := if x = None then PipeNative cp else (PipeNative cp)(p := (-1, -1))\<rparr>"
    note h' = h' [unfolded pipe_update_eqs]
    have e: "exclusive ?cp" using assms(2) unfolding exclusive_def by auto
    have r: "\<forall>q'\<in>std_pipes. redirection ?cp q' = (if q' = p
        then set_file (if x \<noteq> None then map_option cstr_bytes f else None) (redirection cp q') else redirection cp q')"
    proof (cases x)
      case None
      then show ?thesis
        by - (rule stream_cases [OF assms(2) True]; auto simp: redirection_def set_file_def split: option.splits)
    next
      case (Some y)
      then show ?thesis using \<open>f = Some s\<close> str h'(2)
        by (cases y) (auto simp: redirection_def set_file_def cstr_bytes_def split: option.splits)
    qed
    show ?thesis unfolding Some h'(1) unfolding stream_post_def returns_Some prod.case
      by (intro conjI impI e redirections_onlyI h'(4) r [unfolded Some]) (use h'(3) in blast)
  qed
next
  case False
  have "redirections_only cp cp"
    unfolding redirections_only_def
    by (rule exI [of _ "PipeFile cp"], rule exI [of _ "PipeShared cp"], rule exI [of _ "PipeNative cp"]) simp
  with False assms show ?thesis
    by (auto simp: SetPipe_other stream_post_def)
qed

text \<open>
  The contract of a call: it returns, keeps the configuration invariant, never touches the blocks
  of others, and loses a block only if it fails to add a command.
\<close>

lemma config_step_adds:
  assumes "config_lost F n s" and "config_good c"
  shows "returns (config_step ok c s) (config_lost F (n + failed_add ok c s))"
proof -
  obtain cp h where s: "s = (cp, h)" by fastforce
  from assms(1) obtain L where L: "size L \<le> n" and inv: "config_mem (F + L) cp h" "exclusive cp" "terminated (WorkingDirectory cp)"
      "0 \<le> Timeout cp"
    by (auto simp: s config_lost_def)
  have pipes: "config_lost F n (cp', h')" if "stream_post (F + L) cp p f cp' h'" for p f cp' h'
    using that inv(3,4) L by (auto simp: stream_post_def redirections_only_def config_lost_def)
  have commands: "config_lost F (n + (case m of Some (False, _, _) \<Rightarrow> 1 | _ \<Rightarrow> 0)) (cp', h')"
    if "m = Some (r, cp', h')" "config_mem (F + L + L') cp' h'" "size L' \<le> 1" "r \<longrightarrow> L' = {#}"
      "cp' = cp\<lparr>Commands := C, NumberOfCommands := N\<rparr>" for m :: "(bool \<times> kwsysProcess \<times> heap) option" and r cp' h' L' C N
    using that inv(2-4) L by (cases r) (auto simp: config_lost_def add.assoc intro!: exI [of _ "L + L'"])
  show ?thesis
  proof (cases c)
    case (C_AddCommand x)
    with assms(2) have "command_ok cp x" by (intro command_ok_good) simp
    note add = AddCommand_returns [OF inv(1) this, of ok]
    obtain r cp' h' where y: "AddCommand ok cp x h = Some (r, cp', h')" using add by (rule returnsE) (metis prod.exhaust)
    obtain L' where "config_mem (F + L + L') cp' h'"
        "if r then L' = {#} \<and> (\<exists>C N. cp' = cp\<lparr>Commands := C, NumberOfCommands := N\<rparr>) \<and> command_words cp' = command_words cp @ [new_words cp (the x)]
         else cp' = cp \<and> size L' \<le> 1"
      using returnsD [OF add y, unfolded prod.case] by blast
    note a = y this
    have "\<exists>C N. cp' = cp\<lparr>Commands := C, NumberOfCommands := N\<rparr>"
    proof (cases r)
      case False
      with a(3) have "cp' = cp\<lparr>Commands := Commands cp, NumberOfCommands := NumberOfCommands cp\<rparr>" by simp
      then show ?thesis by blast
    qed (use a(3) in simp)
    then obtain C N where "cp' = cp\<lparr>Commands := C, NumberOfCommands := N\<rparr>" by blast
    from commands [OF a(1,2) _ _ this] a(3) have "config_lost F (n + (case AddCommand ok cp x h of Some (False, _, _) \<Rightarrow> 1 | _ \<Rightarrow> 0)) (cp', h')"
      by (cases r) simp_all
    with a(1) show ?thesis unfolding s C_AddCommand by simp
  next
    case (C_SetCommand x)
    with assms(2) have "command_ok cp x" by (intro command_ok_good) simp
    note set = SetCommand_returns [OF inv(1) this, of ok]
    obtain r cp' h' where y: "SetCommand ok cp x h = Some (r, cp', h')" using set by (rule returnsE) (metis prod.exhaust)
    obtain L' C N where "config_mem (F + L + L') cp' h'" "size L' \<le> 1" "r \<longrightarrow> L' = {#}"
        "cp' = cp\<lparr>Commands := C, NumberOfCommands := N\<rparr>"
      using returnsD [OF set y, unfolded prod.case] by blast
    note a = y this
    from commands [OF a] a(1) show ?thesis
      unfolding s C_SetCommand by simp
  next
    case (C_SetTimeout t)
    have "config_mem (F + L) (SetTimeout cp t) h" "exclusive (SetTimeout cp t)"
      "WorkingDirectory (SetTimeout cp t) = WorkingDirectory cp" "0 \<le> Timeout (SetTimeout cp t)"
      using inv by (auto simp: SetTimeout_def Let_def config_mem_def owned_config_def owned_commands_def
          command_list_def exclusive_def)
    with inv(3) L show ?thesis by (auto simp: s C_SetTimeout config_lost_def)
  next
    case (C_SetWorkingDirectory d)
    with assms(2) have "\<forall>s. d = Inr (Some s) \<longrightarrow> string_ok s" by simp
    from SetWorkingDirectory_returns [OF inv(1,3) this, of ok] show ?thesis
      unfolding s C_SetWorkingDirectory using inv(2,4) L
      by (auto simp: config_lost_def elim!: returns_mono)
  next
    case (C_SetPipeFile p f)
    with assms(2) have "\<forall>s. f = Some s \<longrightarrow> string_ok s" by simp
    from SetPipeFile_stream [OF inv(1,2) this, of ok p] show ?thesis
      unfolding s C_SetPipeFile by (auto elim!: returns_mono dest: pipes)
  next
    case (C_SetPipeShared p b)
    from SetPipeShared_stream [OF inv(1,2), of ok p b] show ?thesis
      unfolding s C_SetPipeShared by (auto elim!: returns_mono dest: pipes)
  next
    case (C_SetPipeNative p q)
    from SetPipeNative_stream [OF inv(1,2), of ok p q] show ?thesis
      unfolding s C_SetPipeNative by (auto elim!: returns_mono dest: pipes)
  next
    case (C_SetOption i v)
    have "config_mem (F + L) (SetOption cp i v) h" "exclusive (SetOption cp i v)"
      "WorkingDirectory (SetOption cp i v) = WorkingDirectory cp" "Timeout (SetOption cp i v) = Timeout cp"
      using inv by (auto simp: SetOption_def config_mem_def owned_config_def owned_commands_def
          command_list_def exclusive_def)
    with inv(3,4) L show ?thesis by (auto simp: s C_SetOption config_lost_def)
  qed
qed

interpretation config: costed_machine "config_step ok" "config_lost F" "failed_add ok" config_good
  by unfold_locales (rule config_step_adds)

lemma initial_lost: "mset (live h) = F \<Longrightarrow> config_lost F 0 (initial_process p, h)"
  by (auto simp: config_lost_def config_mem_def owned_config_def owned_commands_def command_list_def
      initial_process_def exclusive_def terminated_def std_pipes_def)

lemma initial_config: "mset (live h) = F \<Longrightarrow> config_inv F (initial_process p, h)"
  using initial_lost config_inv_lost by blast

section \<open>Properties\<close>

text \<open>C33. From a new structure, any sequence of configuration calls has no undefined behaviour, whichever allocations
  fail: no access outside an array and no invalid or double free.  The strings of the calls end, and are shorter than
  $2^{30} - 2$ bytes.  Afterwards the live blocks are exactly those that were live before, the structure itself, the
  blocks the structure points to, and at most one lost block for every call that failed to add a command; without
  such a failure nothing is lost.  Each standard stream has at most one redirection, and the timeout is not negative.\<close>

theorem config_calls_safe:
  assumes "kwsysProcess_New ok h = (Some cp, h1)" and "list_all config_good cs"
  shows "\<exists>cp' h' lost. run_calls (config_step ok) cs (cp, h1) = Some (cp', h')
    \<and> mset (live h') = mset (live h) + {#self cp#} + owned_config cp' + lost
    \<and> size lost \<le> run_cost (config_step ok) (failed_add ok) cs (cp, h1)
    \<and> NumberOfCommands cp' = length (command_list cp') \<and> exclusive cp' \<and> 0 \<le> Timeout cp'"
proof -
  obtain p where m: "malloc ok SIZEOF_kwsysProcess h = (Some p, h1)" and cp: "cp = initial_process p"
    using assms(1) by (auto simp: kwsysProcess_New_def Let_def split_beta prod_eq_iff)
  have self: "self cp = p" by (simp add: cp initial_process_def)
  have "mset (live h1) = mset (live h) + {#p#}" using malloc_live(1) [OF m] by simp
  then have "config_lost (mset (live h) + {#p#}) 0 (cp, h1)" unfolding cp by (rule initial_lost)
  from config.run_costs [OF this assms(2), of ok] obtain cp' h' L where
    "run_calls (config_step ok) cs (cp, h1) = Some (cp', h')" "size L \<le> run_cost (config_step ok) (failed_add ok) cs (cp, h1)"
    and mem: "config_mem (mset (live h) + {#p#} + L) cp' h'" and "exclusive cp'" "0 \<le> Timeout cp'"
    by (auto simp: returns_def config_lost_def)
  moreover have "mset (live h') = mset (live h) + {#self cp#} + owned_config cp' + L" "NumberOfCommands cp' = length (command_list cp')"
    using mem by (simp_all add: config_mem_def self)
  ultimately show ?thesis by blast
qed

text \<open>The copy of the second argument of a command cannot be allocated; the block of its array is lost.\<close>

theorem config_calls_safe_witness:
  "\<exists>cp' h' lost. run_calls (config_step (\<lambda>k n. k \<noteq> 4)) [C_AddCommand (Some [[0x61, 0], [0x62, 0]]), C_SetPipeFile 2 (Some [0x66, 0])]
       (initial_process 0, \<lparr>calls = 1, live = [0]\<rparr>) = Some (cp', h')
    \<and> mset (live h') = {#0#} + owned_config cp' + lost \<and> size lost \<le> 1
    \<and> NumberOfCommands cp' = length (command_list cp') \<and> exclusive cp' \<and> 0 \<le> Timeout cp'"
proof -
  let ?ok = "\<lambda>k n. k \<noteq> (4::nat)" and ?h = "\<lparr>calls = 1, live = [0]\<rparr>"
  let ?cs = "[C_AddCommand (Some [[0x61, 0], [0x62, 0]]), C_SetPipeFile 2 (Some [0x66, 0])]"
  have new: "kwsysProcess_New ?ok \<lparr>calls = 0, live = []\<rparr> = (Some (initial_process 0), ?h)"
    by (simp add: kwsysProcess_New_def malloc_def)
  have init: "Commands (initial_process 0) = None" "NumberOfCommands (initial_process 0) = 0" "Verbatim (initial_process 0) = 0"
    by (simp_all add: initial_process_def)
  have fails: "AddCommand ?ok (initial_process 0) (Some [[0x61, 0], [0x62, 0]]) ?h = Some (False, initial_process 0, \<lparr>calls = 5, live = [2, 0]\<rparr>)"
    by (simp add: AddCommand_def init new_command_def malloc_def strdup_def mem_read_def free_def)
  have cost: "run_cost (config_step ?ok) (failed_add ?ok) ?cs (initial_process 0, ?h) \<le> 1"
    by (simp add: fails [simplified] split: option.split)
  have "list_all config_good ?cs" by (simp add: string_ok_def)
  from config_calls_safe [OF new this] obtain cp' h' lost where
    x: "run_calls (config_step ?ok) ?cs (initial_process 0, ?h) = Some (cp', h')"
      "mset (live h') = mset (live \<lparr>calls = 0, live = []\<rparr>) + {#self (initial_process 0)#} + owned_config cp' + lost"
      "size lost \<le> run_cost (config_step ?ok) (failed_add ?ok) ?cs (initial_process 0, ?h)"
      "NumberOfCommands cp' = length (command_list cp')" "exclusive cp'" "0 \<le> Timeout cp'" by blast
  have "mset (live h') = {#0#} + owned_config cp' + lost" using x(2) by (simp add: initial_process_def)
  moreover have "size lost \<le> 1" using x(3) cost by (rule le_trans)
  ultimately show ?thesis using x(1,4-6) by blast
qed

text \<open>Adding a command appends exactly its words (the words of the parsed line for a verbatim
  command) to the pipeline and takes over the new blocks, freeing the old array; when it fails
  the structure is as it was, and at most one block has been lost.  It succeeds when no
  allocation fails and there is something to run.\<close>

theorem AddCommand_appends:
  assumes "mset (live h) = F + owned_config cp" and "NumberOfCommands cp = length (command_list cp)"
    and "list_all string_ok command" and "command \<noteq> []"
  shows "\<exists>r cp' h'. AddCommand ok cp (Some command) h = Some (r, cp', h')
    \<and> (if r then command_words cp' = command_words cp @ [new_words cp command]
            \<and> NumberOfCommands cp' = NumberOfCommands cp + 1 \<and> mset (live h') = F + owned_config cp'
       else cp' = cp \<and> (\<exists>L. size L \<le> 1 \<and> mset (live h') = F + owned_config cp + L))
    \<and> (all_ok ok \<and> new_words cp command \<noteq> [] \<longrightarrow> r)"
proof -
  have mem: "config_mem F cp h" using assms(1,2) by (simp add: config_mem_def)
  have "command_ok cp (Some command)" using assms(3) by (intro command_ok_good) simp
  from AddCommand_returns [OF mem this, of ok, unfolded option.sel] obtain r cp' h' L where
    a: "AddCommand ok cp (Some command) h = Some (r, cp', h')" "config_mem (F + L) cp' h'"
      "if r then L = {#} \<and> (\<exists>C N. cp' = cp\<lparr>Commands := C, NumberOfCommands := N\<rparr>)
        \<and> command_words cp' = command_words cp @ [new_words cp command] else cp' = cp \<and> size L \<le> 1"
      "all_ok ok \<and> new_words cp command \<noteq> [] \<longrightarrow> r"
    using assms(4) by (auto elim!: returnsE)
  show ?thesis
  proof (cases r)
    case True
    then have w: "command_words cp' = command_words cp @ [new_words cp command]" using a(3) by simp
    then have "length (command_list cp') = length (command_list cp) + 1"
      unfolding command_words_def by (metis length_map length_append_singleton Suc_eq_plus1)
    with a True w assms(2) show ?thesis by (auto simp: config_mem_def)
  next
    case False
    with a show ?thesis by (auto simp: config_mem_def ac_simps intro!: exI [of _ L])
  qed
qed

theorem AddCommand_appends_witness:
  "\<exists>r cp' h'. AddCommand (\<lambda>_ _. True) (initial_process 0) (Some [[0x61, 0], [0x62, 0]]) \<lparr>calls = 1, live = [0]\<rparr>
     = Some (r, cp', h') \<and> r \<and> command_words cp' = [[[0x61, 0], [0x62, 0]]]"
proof -
  have "command_words (initial_process 0) = []" "owned_config (initial_process 0) = {#}"
    "command_list (initial_process 0) = []" "NumberOfCommands (initial_process 0) = 0"
    "new_words (initial_process 0) [[0x61, 0], [0x62, 0]] = [[0x61, 0], [0x62, 0]]"
    by (simp_all add: command_words_def owned_config_def owned_commands_def command_list_def
        initial_process_def new_words_def cstr_bytes_def)
  moreover have "all_ok (\<lambda>_ _. True)" by (simp add: all_ok_def)
  ultimately show ?thesis
    using AddCommand_appends [of "\<lparr>calls = 1, live = [0]\<rparr>" "{#0#}" "initial_process 0" "[[0x61, 0], [0x62, 0]]"
        "\<lambda>_ _. True"]
    by (auto simp: string_ok_def)
qed

text \<open>The failure path of a verbatim command loses a block: when the line has no word, the array
  the parser allocated is neither kept nor freed.\<close>

theorem AddCommand_blank_line_leaks:
  assumes "mset (live h) = F + owned_config cp" and "NumberOfCommands cp = length (command_list cp)"
    and "Verbatim cp \<noteq> 0" and "c_string line = Some str" and "unix_arguments str = []"
    and "length str < 2 ^ 30 - 2" and "all_ok ok"
  shows "\<exists>b h'. AddCommand ok cp (Some [line]) h = Some (False, cp, h') \<and> mset (live h') = mset (live h) + {#b#}"
proof -
  obtain p h1 where m: "malloc ok (8 * (NumberOfCommands cp + 1)) h = (p, h1)" by fastforce
  from malloc_live [OF m] assms(7) obtain b where b: "p = Some b" "mset (live h1) = {#b#} + mset (live h)"
    by (auto simp: all_ok_def)
  have small: "2 * (length str + 2) \<le> INT_MAX" using assms(6) by (simp add: INT_MAX_def)
  from ParseUnixCommand_run [OF assms(4) small, of ok h1] assms(5,7) obtain x h2 where
    x: "kwsysSystem__ParseUnixCommand ok line h1 = Some (Some (x, []), h2)"
      "mset (live h2) = mset (live h1) + {#x#}"
    by (auto simp: all_ok_def split: option.splits)
  have old: "mem_read (case Commands cp of None \<Rightarrow> [] | Some (_, cs) \<Rightarrow> cs) 0 (NumberOfCommands cp)
      = Some (command_list cp)"
    using assms(2) by (simp add: command_list_def split: option.splits)
  have l: "mset (live h2) = (mset (live h) + {#x#}) + {#b#}" using b(2) x(2) by simp
  have "AddCommand ok cp (Some [line]) h = do { h \<leftarrow> free b h2; Some (False, cp, h) }"
    using m b(1) x(1) assms(3) old
    by (simp add: AddCommand_def new_command_def kwsysSystem_Parse_CommandForUnix_def)
  with free_live_mset [OF l] show ?thesis by auto
qed

theorem AddCommand_blank_line_leaks_witness:
  "\<exists>b h'. AddCommand (\<lambda>_ _. True) (initial_process 0\<lparr>Verbatim := 1\<rparr>) (Some [[0x20, 0]]) \<lparr>calls = 1, live = [0]\<rparr>
     = Some (False, initial_process 0\<lparr>Verbatim := 1\<rparr>, h')
     \<and> mset (live h') = mset (live \<lparr>calls = 1, live = [0]\<rparr>) + {#b#}"
proof (rule AddCommand_blank_line_leaks [where F = "{#0#}" and str = "[0x20]"])
  show "unix_arguments [0x20] = []" by code_simp
qed (simp_all add: owned_config_def owned_commands_def command_list_def initial_process_def all_ok_def)

text \<open>The redirection setters implement one choice per stream: setting a file, sharing or a native
  pipe replaces what the stream had, a null argument clears only its own kind, a failed file
  copy counts as clearing, and the other streams are not affected.\<close>

theorem redirection_setters_refine:
  assumes "config_inv F (cp, h)" and "f = None \<or> string_ok (the f)"
  shows "returns (SetPipeFile ok cp p f h) (\<lambda>(r, cp', h'). config_inv F (cp', h')
      \<and> (\<forall>q\<in>std_pipes. redirection cp' q = (if q = p
           then set_file (if r then map_option cstr_bytes f else None) (redirection cp q) else redirection cp q)))
    \<and> returns (SetPipeShared ok cp p b h) (\<lambda>(cp', h'). config_inv F (cp', h')
      \<and> (\<forall>q\<in>std_pipes. redirection cp' q = (if q = p then set_shared b (redirection cp q) else redirection cp q)))
    \<and> returns (SetPipeNative ok cp p n h) (\<lambda>(cp', h'). config_inv F (cp', h')
      \<and> (\<forall>q\<in>std_pipes. redirection cp' q = (if q = p then set_native n (redirection cp q) else redirection cp q)))"
proof -
  from assms(1) obtain L where inv: "config_mem (F + L) cp h" "exclusive cp" "terminated (WorkingDirectory cp)"
      "0 \<le> Timeout cp"
    by (auto simp: config_inv_def)
  have post: "config_inv F (cp', h') \<and> (\<forall>q\<in>std_pipes. redirection cp' q
      = (if q = p then g (redirection cp q) else redirection cp q))"
    if "stream_post (F + L) cp p g cp' h'" for g cp' h'
    using that inv(3,4) by (auto simp: stream_post_def redirections_only_def config_inv_def)
  have "\<forall>s. f = Some s \<longrightarrow> string_ok s" using assms(2) by auto
  have "returns (SetPipeFile ok cp p f h) (\<lambda>(r, cp', h'). config_inv F (cp', h')
      \<and> (\<forall>q\<in>std_pipes. redirection cp' q = (if q = p
           then set_file (if r then map_option cstr_bytes f else None) (redirection cp q) else redirection cp q)))"
    by (rule returns_mono [OF SetPipeFile_stream [OF inv(1,2) \<open>\<forall>s. f = Some s \<longrightarrow> string_ok s\<close>]])
      (clarsimp dest!: post)
  moreover have "returns (SetPipeShared ok cp p b h) (\<lambda>(cp', h'). config_inv F (cp', h')
      \<and> (\<forall>q\<in>std_pipes. redirection cp' q = (if q = p then set_shared b (redirection cp q) else redirection cp q)))"
    by (rule returns_mono [OF SetPipeShared_stream [OF inv(1,2)]]) (clarsimp dest!: post)
  moreover have "returns (SetPipeNative ok cp p n h) (\<lambda>(cp', h'). config_inv F (cp', h')
      \<and> (\<forall>q\<in>std_pipes. redirection cp' q = (if q = p then set_native n (redirection cp q) else redirection cp q)))"
    by (rule returns_mono [OF SetPipeNative_stream [OF inv(1,2)]]) (clarsimp dest!: post)
  ultimately show ?thesis by (intro conjI)
qed

theorem redirection_setters_refine_witness:
  "\<exists>cp' h'. SetPipeShared (\<lambda>_ _. True) (initial_process 0) 2 True \<lparr>calls = 1, live = [0]\<rparr> = Some (cp', h')
    \<and> redirection cp' 2 = Shared \<and> redirection cp' 1 = Shared \<and> redirection cp' 3 = Captured"
proof -
  have "config_inv {#0#} (initial_process 0, \<lparr>calls = 1, live = [0]\<rparr>)" by (rule initial_config) simp
  moreover have "redirection (initial_process 0) 1 = Shared" "redirection (initial_process 0) 3 = Captured"
    by (simp_all add: redirection_def initial_process_def)
  ultimately show ?thesis
    using redirection_setters_refine [of "{#0#}" "initial_process 0" "\<lparr>calls = 1, live = [0]\<rparr>" None "\<lambda>_ _. True" 2 True None]
    by (auto elim!: returnsE simp: std_pipes_def set_shared_def)
qed

end
