(* ===== verification/ProcessInstances.thy ===== *)
theory ProcessInstances
  imports ProcessConfig
begin

text \<open>
  Descriptors, the table of the executing processes and the signal handler of
  \<^verbatim>\<open>kwsys/ProcessUNIX.c\<close> (\<open>kwsysProcessCleanupDescriptor\<close>, \<open>kwsysProcessSetNonBlocking\<close>,
  \<open>kwsysProcessesUpdate\<close>, \<open>kwsysProcessesAdd\<close>, \<open>kwsysProcessesRemove\<close>,
  \<open>kwsysProcessesSignalHandler\<close>).  Signals do not arrive inside the other functions of the
  model: the handler is a function of its own.
\<close>

section \<open>Descriptors\<close>

definition FD_CLOEXEC :: int where "FD_CLOEXEC = 1"
definition O_NONBLOCK :: int where "O_NONBLOCK = 2048"

text \<open>The new value of the descriptor; the pointer is never null.\<close>

definition kwsysProcessCleanupDescriptor :: "env \<Rightarrow> int \<Rightarrow> world \<Rightarrow> (int \<times> world) option" where
  "kwsysProcessCleanupDescriptor e pfd w =
     (if pfd > 2 then do { (_, w) \<leftarrow> retry e (S_close pfd) w; Some (-1, w) } else Some (pfd, w))"

definition kwsysProcessSetNonBlocking :: "env \<Rightarrow> int \<Rightarrow> world \<Rightarrow> bool \<times> world" where
  "kwsysProcessSetNonBlocking e fd w =
     (let (r, w) = call e (S_getfl fd) w; flags = ret r;
          (flags, w) = (if flags \<ge> 0
                        then let (r, w) = call e (S_setfl fd (flags OR O_NONBLOCK)) w in (ret r, w)
                        else (flags, w))
      in (flags \<ge> 0, w))"

text \<open>\<open>fcntl (fd, F_SETFD, FD_CLOEXEC) < 0\<close>, for one descriptor and for the two of a pipe.\<close>

definition cloexec_fails :: "env \<Rightarrow> int \<Rightarrow> world \<Rightarrow> bool \<times> world" where
  "cloexec_fails e fd w = (let (r, w) = call e (S_setfd fd FD_CLOEXEC) w in (ret r < 0, w))"

definition cloexec2_fails :: "env \<Rightarrow> int \<times> int \<Rightarrow> world \<Rightarrow> bool \<times> world" where
  "cloexec2_fails e p w =
     (let (bad, w) = cloexec_fails e (fst p) w
      in if bad then (True, w) else cloexec_fails e (snd p) w)"

section \<open>The table of processes\<close>

text \<open>\<open>Count\<close>\<close>

definition iCount :: "kwsysProcessInstances \<Rightarrow> nat" where
  "iCount p = length (snd (iTable p))"

definition kwsysProcessesUpdate :: "env \<Rightarrow> kwsysProcessInstances \<Rightarrow> world \<Rightarrow> world" where
  "kwsysProcessesUpdate e newProcesses w =
     (let (r, w) = call e (S_sigprocmask SIG_BLOCK {SIGCHLD, SIGINT, SIGTERM}) w;
          w = w\<lparr>kwsysProcesses := newProcesses\<rparr>
      in snd (call e (S_sigprocmask SIG_SETMASK (old_mask r)) w))"

text \<open>\<open>while ((sigaction (...) < 0) && (errno == EINTR)) {}\<close>: what is stored as the old action.\<close>

definition install :: "env \<Rightarrow> int \<Rightarrow> sigaction \<Rightarrow> sigaction \<Rightarrow> world \<Rightarrow> (sigaction \<times> world) option" where
  "install e sig act old w =
     do { (r, w) \<leftarrow> retry e (S_sigaction sig act) w;
          Some (if ret r < 0 then old else old_action r, w) }"

text \<open>\<open>SA_NOCLDSTOP | SA_SIGINFO | SA_RESTART\<close> and the empty mask.\<close>

definition newSigAction :: sigaction where
  "newSigAction = \<lparr>sa_handler = SignalHandler, sa_mask = {}, sa_flags = 0x10000005\<rparr>"

text \<open>The handlers of the first process; the action of \<open>SIGTERM\<close> is stored where the code stores it.\<close>

definition install_handlers :: "env \<Rightarrow> world \<Rightarrow> world option" where
  "install_handlers e w =
     do { (old, w) \<leftarrow> install e SIGCHLD newSigAction (OldSigChldAction w) w;
          let w = w\<lparr>OldSigChldAction := old\<rparr>;
          (old, w) \<leftarrow> install e SIGINT (newSigAction\<lparr>sa_mask := {SIGTERM}\<rparr>) (OldSigIntAction w) w;
          let w = w\<lparr>OldSigIntAction := old\<rparr>;
          (old, w) \<leftarrow> install e SIGTERM (newSigAction\<lparr>sa_mask := {SIGINT}\<rparr>) (OldSigIntAction w) w;
          Some (w\<lparr>OldSigIntAction := old\<rparr>) }"

text \<open>\<open>oldProcesses.Size ? oldProcesses.Size * 2 : 4\<close>\<close>

definition grown_size :: "nat \<Rightarrow> nat" where
  "grown_size n = (if n \<noteq> 0 then n * 2 else 4)"

text \<open>The second half of \<open>kwsysProcessesAdd\<close>: make room, append, publish, free the old table.\<close>

definition add_instance :: "env \<Rightarrow> nat \<Rightarrow> world \<Rightarrow> (bool \<times> world) option" where
  "add_instance e p w =
     (let oldProcesses = kwsysProcesses w; (oldTable, ps) = iTable oldProcesses;
          grow = (iCount oldProcesses = iSize oldProcesses);
          newSize = (if grow then grown_size (iSize oldProcesses) else iSize oldProcesses);
          (table, h) = (if grow then malloc (alloc_ok e) (newSize * 8) (heap w) else (oldTable, heap w));
          w = w\<lparr>heap := h\<rparr>
      in if table = None then (if grow then Some (False, w) else None)
         else if length ps \<ge> newSize then None
         else do { let w = kwsysProcessesUpdate e \<lparr>iSize = newSize, iTable = (table, ps @ [p])\<rparr> w;
                   h \<leftarrow> (if table \<noteq> oldTable then free_opt oldTable (heap w) else Some (heap w));
                   let w = w\<lparr>heap := h\<rparr>;
                   w \<leftarrow> (if length ps + 1 = 1 then install_handlers e w else Some w);
                   Some (True, w) })"

definition kwsysProcessesAdd :: "env \<Rightarrow> kwsysProcess \<Rightarrow> world \<Rightarrow> (bool \<times> kwsysProcess \<times> world) option" where
  "kwsysProcessesAdd e cp w =
     (let (r, w) = call e S_pipe w; p = fds r
      in if ret r < 0 then Some (False, cp, w)
         else let cp = cp\<lparr>PipeReadEnds := (PipeReadEnds cp)(KWSYSPE_PIPE_SIGNAL := fst p), SignalPipe := snd p\<rparr>;
                  (ok, w) = kwsysProcessSetNonBlocking e (fst p) w
              in if \<not> ok then Some (False, cp, w)
                 else let (ok, w) = kwsysProcessSetNonBlocking e (snd p) w
                      in if \<not> ok then Some (False, cp, w)
                         else let (bad, w) = cloexec2_fails e p w
                              in if bad then Some (False, cp, w)
                                 else do { (r, w) \<leftarrow> add_instance e (self cp) w; Some (r, cp, w) })"

text \<open>The search and the shift of the rest of the table; \<^term>\<open>None\<close> when it is not there.\<close>

fun remove_process :: "nat \<Rightarrow> nat list \<Rightarrow> nat list option" where
  "remove_process p [] = None"
| "remove_process p (q # qs) = (if q = p then Some qs else map_option ((#) q) (remove_process p qs))"

definition remove_instance :: "env \<Rightarrow> nat \<Rightarrow> world \<Rightarrow> world option" where
  "remove_instance e p w =
     (let (table, ps) = iTable (kwsysProcesses w)
      in case remove_process p ps of
           None \<Rightarrow> Some w
         | Some ps \<Rightarrow>
             if ps = []
             then do { (_, w) \<leftarrow> retry e (S_sigaction SIGCHLD (OldSigChldAction w)) w;
                       (_, w) \<leftarrow> retry e (S_sigaction SIGINT (OldSigIntAction w)) w;
                       (_, w) \<leftarrow> retry e (S_sigaction SIGTERM (OldSigTermAction w)) w;
                       h \<leftarrow> free_opt table (heap w);
                       Some (kwsysProcessesUpdate e \<lparr>iSize = 0, iTable = (None, [])\<rparr> (w\<lparr>heap := h\<rparr>)) }
             else Some (kwsysProcessesUpdate e ((kwsysProcesses w)\<lparr>iTable := (table, ps)\<rparr>) w))"

definition kwsysProcessesRemove :: "env \<Rightarrow> kwsysProcess \<Rightarrow> world \<Rightarrow> (kwsysProcess \<times> world) option" where
  "kwsysProcessesRemove e cp w =
     do { w \<leftarrow> remove_instance e (self cp) w;
          (fd, w) \<leftarrow> kwsysProcessCleanupDescriptor e (SignalPipe cp) w;
          Some (cp\<lparr>SignalPipe := fd\<rparr>, w) }"

section \<open>The signal handler\<close>

text \<open>\<open>SIGCHLD\<close>: test and set the pipe of each process.\<close>

fun notify_all :: "env \<Rightarrow> (nat \<Rightarrow> kwsysProcess option) \<Rightarrow> nat list \<Rightarrow> world \<Rightarrow> world option" where
  "notify_all e store [] w = Some w"
| "notify_all e store (p # ps) w =
     do { cp \<leftarrow> store p;
          let (r, w) = call e (S_read (PipeReadEnds cp KWSYSPE_PIPE_SIGNAL) 1) w;
          let buf = (if ret r > 0 then payload r else [1]);
          let (_, w) = call e (S_write (SignalPipe cp) buf) w;
          notify_all e store ps w }"

text \<open>The inner loop of \<open>SIGINT\<close> and \<open>SIGTERM\<close>: the groups of the children still there.\<close>

fun interrupt_groups :: "env \<Rightarrow> int list \<Rightarrow> world \<Rightarrow> world" where
  "interrupt_groups e [] w = w"
| "interrupt_groups e (pid # pids) w =
     interrupt_groups e pids (if pid \<noteq> 0 then snd (call e (S_kill (- pid) SIGINT) w) else w)"

fun forward_all :: "env \<Rightarrow> (nat \<Rightarrow> kwsysProcess option) \<Rightarrow> nat list \<Rightarrow> world \<Rightarrow> world option" where
  "forward_all e store [] w = Some w"
| "forward_all e store (p # ps) w =
     do { cp \<leftarrow> store p;
          w \<leftarrow> (case ForkPIDs cp of
                 Some (_, pids) \<Rightarrow>
                   if CreateProcessGroup cp \<noteq> 0 \<and> \<not> Killed cp \<and> State cp \<noteq> State_Error
                   then do { pids \<leftarrow> mem_read pids 0 (NumberOfCommands cp); Some (interrupt_groups e pids w) }
                   else Some w
               | None \<Rightarrow> Some w);
          forward_all e store ps w }"

text \<open>\<open>while (wait (&procStatus) >= 0 || errno != ECHILD) {}\<close>\<close>

partial_function (option) wait_all :: "env \<Rightarrow> world \<Rightarrow> world option" where
  "wait_all e w =
     (let (r, w) = call e S_wait w
      in if ret r \<ge> 0 \<or> errno w \<noteq> ECHILD then wait_all e w else Some w)"

text \<open>The handler returns, or it ends the process (the world is the one at the end).\<close>

datatype 'a outcome = Returned 'a | Exited world

definition default_action :: sigaction where
  "default_action = \<lparr>sa_handler = SIG_DFL, sa_mask = {}, sa_flags = 0\<rparr>"

definition kwsysProcessesSignalHandler ::
  "env \<Rightarrow> (nat \<Rightarrow> kwsysProcess option) \<Rightarrow> int \<Rightarrow> world \<Rightarrow> world outcome option" where
  "kwsysProcessesSignalHandler e store signum w =
     (let old_errno = errno w; ps = snd (iTable (kwsysProcesses w))
      in if signum = SIGCHLD
         then do { w \<leftarrow> notify_all e store ps w; Some (Returned (w\<lparr>errno := old_errno\<rparr>)) }
         else if signum = SIGINT \<or> signum = SIGTERM
         then do { w \<leftarrow> forward_all e store ps w;
                   w \<leftarrow> wait_all e w;
                   (_, w) \<leftarrow> retry e (S_sigaction signum default_action) w;
                   let (_, w) = call e (S_sigprocmask SIG_UNBLOCK {signum}) w;
                   let (_, w) = call e (S_raise signum) w;
                   let (_, w) = call e (S_exit 1) w;
                   Some (Exited w) }
         else Some (Returned (w\<lparr>errno := old_errno\<rparr>)))"

section \<open>What the operations change\<close>

lemma wp_CleanupDescriptor [wp_rules]:
  assumes "fair e" and "\<And>w'. calls_only w w' \<Longrightarrow> P (if pfd > 2 then -1 else pfd, w')"
  shows "returns (kwsysProcessCleanupDescriptor e pfd w) P"
  using assms(2) [of w] assms(2)
  by (auto simp: kwsysProcessCleanupDescriptor_def intro!: wp_retry [OF assms(1)])

lemma calls_only_call: "call e c w = (r, w') \<Longrightarrow> calls_only w w'"
  using call_only [of w e c] by simp

lemma SetNonBlocking_only: "kwsysProcessSetNonBlocking e fd w = (ok, w') \<Longrightarrow> calls_only w w'"
  by (auto simp: kwsysProcessSetNonBlocking_def Let_def split_beta split: if_splits
      intro: calls_only_trans [OF call_only] call_only)

lemma cloexec_only: "cloexec_fails e fd w = (bad, w') \<Longrightarrow> calls_only w w'"
  by (auto simp: cloexec_fails_def Let_def split_beta intro: call_only)

lemma cloexec2_only: "cloexec2_fails e p w = (bad, w') \<Longrightarrow> calls_only w w'"
  unfolding cloexec2_fails_def Let_def
  by (cases "cloexec_fails e (fst p) w") (auto dest: cloexec_only split: if_splits intro: calls_only_trans)

text \<open>The live blocks, which are older than the next block.\<close>

definition owns :: "nat multiset \<Rightarrow> heap \<Rightarrow> bool" where
  "owns F h \<longleftrightarrow> mset (live h) = F \<and> (\<forall>b\<in>#F. b < calls h)"

lemma owns_malloc:
  assumes "owns F h" and "malloc ok n h = (p, h')"
  shows "owns (F + (case p of None \<Rightarrow> {#} | Some b \<Rightarrow> {#b#})) h'" and "\<forall>b. p = Some b \<longrightarrow> b \<notin># F"
    and "all_ok ok \<longrightarrow> p \<noteq> None"
  using assms by (auto simp: owns_def malloc_def all_ok_def less_SucI split: if_splits)

lemma wp_free_owned [wp_rules]:
  assumes "owns (F + {#b#}) h" and "\<And>h'. owns F h' \<Longrightarrow> P h'"
  shows "returns (free b h) P"
proof -
  have "mset (live h) = F + {#b#}" using assms(1) by (simp add: owns_def)
  from free_live_mset [OF this] assms show ?thesis by (simp add: owns_def)
qed

lemma wp_free_opt [wp_rules]:
  assumes "owns (F + (case p of None \<Rightarrow> {#} | Some b \<Rightarrow> {#b#})) h" and "\<And>h'. owns F h' \<Longrightarrow> P h'"
  shows "returns (free_opt p h) P"
  using assms by (cases p) (auto simp: free_opt_def intro!: wp_free_owned [where F = F])

lemma wp_free_array_owned [wp_rules]:
  assumes "owns (F + opt_block p) h" and "\<And>h'. owns F h' \<Longrightarrow> P h'"
  shows "returns (free_array p h) P"
  unfolding free_array_def using assms(1)
  by (cases p) (auto intro!: wp_free_opt [where F = F] assms(2))

text \<open>The table owns its block, and the processes fit in it.\<close>

definition table_blocks :: "kwsysProcessInstances \<Rightarrow> nat multiset" where
  "table_blocks p = (case fst (iTable p) of None \<Rightarrow> {#} | Some b \<Rightarrow> {#b#})"

definition table_ok :: "kwsysProcessInstances \<Rightarrow> bool" where
  "table_ok p \<longleftrightarrow> (case fst (iTable p) of None \<Rightarrow> iSize p = 0 \<and> snd (iTable p) = []
     | Some b \<Rightarrow> snd (iTable p) \<noteq> [] \<and> iCount p \<le> iSize p)"

definition registered :: "world \<Rightarrow> nat list" where
  "registered w = snd (iTable (kwsysProcesses w))"

definition table_mem :: "nat multiset \<Rightarrow> world \<Rightarrow> bool" where
  "table_mem F w \<longleftrightarrow> owns (F + table_blocks (kwsysProcesses w)) (heap w) \<and> table_ok (kwsysProcesses w)"

lemma calls_only_table: "calls_only w w' \<Longrightarrow> table_mem F w' = table_mem F w \<and> registered w' = registered w"
  by (simp add: calls_only_def table_mem_def registered_def)

lemma Update_effect:
  "heap (kwsysProcessesUpdate e p w) = heap w" "kwsysProcesses (kwsysProcessesUpdate e p w) = p"
  "\<exists>tr. trace (kwsysProcessesUpdate e p w) = tr @ trace w"
  by (auto simp: kwsysProcessesUpdate_def call_def Let_def)

lemma wp_install [wp_rules]:
  assumes "fair e" and "\<And>a w'. calls_only w w' \<Longrightarrow> P (a, w')"
  shows "returns (install e sig act old w) P"
  using assms(2) by (auto simp: install_def intro!: wp_retry [OF assms(1)])

lemma wp_install_handlers [wp_rules]:
  assumes "fair e"
    and "\<And>w'. heap w' = heap w \<Longrightarrow> kwsysProcesses w' = kwsysProcesses w \<Longrightarrow> P w'"
  shows "returns (install_handlers e w) P"
  using assms(2)
  by (auto simp: install_handlers_def Let_def calls_only_def intro!: wp_install [OF assms(1)])

lemma add_instance_returns:
  assumes "fair e" and "table_mem F w"
  shows "returns (add_instance e p w) (\<lambda>(r, w'). table_mem F w'
     \<and> registered w' = (if r then registered w @ [p] else registered w) \<and> (all_ok (alloc_ok e) \<longrightarrow> r))"
proof -
  obtain table ps where t: "iTable (kwsysProcesses w) = (table, ps)" by fastforce
  let ?size = "iSize (kwsysProcesses w)"
  have mem: "owns (F + (case table of None \<Rightarrow> {#} | Some b \<Rightarrow> {#b#})) (heap w)"
    and tok: "case table of None \<Rightarrow> ?size = 0 \<and> ps = [] | Some b \<Rightarrow> ps \<noteq> [] \<and> length ps \<le> ?size"
    using assms(2) t by (auto simp: table_mem_def table_blocks_def table_ok_def iCount_def split: option.splits)
  show ?thesis
  proof (cases "length ps = ?size")
    case False
    with tok obtain b where b: "table = Some b" "length ps < ?size" "ps \<noteq> []" by (cases table) auto
    have "iTable (kwsysProcesses (w\<lparr>heap := heap w\<rparr>)) = (table, ps)" by (simp add: t)
    show ?thesis
      unfolding add_instance_def t
      using b False mem
      by (auto simp: Let_def iCount_def t Update_effect table_mem_def table_blocks_def table_ok_def registered_def)
  next
    case True
    define size' where "size' = grown_size ?size"
    have s: "length ps < size'" using True by (simp add: size'_def grown_size_def)
    obtain nb h where m: "malloc (alloc_ok e) (size' * 8) (heap w) = (nb, h)" by fastforce
    show ?thesis
    proof (cases nb)
      case None
      with m owns_malloc [OF mem m] True t tok show ?thesis
        by (simp add: add_instance_def Let_def iCount_def size'_def [symmetric] table_mem_def registered_def
            table_blocks_def table_ok_def split: option.splits)
    next
      case (Some b)
      have new: "table \<noteq> Some b" using owns_malloc(2) [OF mem m] Some by auto
      let ?w = "kwsysProcessesUpdate e \<lparr>iSize = size', iTable = (Some b, ps @ [p])\<rparr> (w\<lparr>heap := h\<rparr>)"
      have F: "owns ((F + {#b#}) + (case table of None \<Rightarrow> {#} | Some b \<Rightarrow> {#b#})) (heap ?w)"
        using owns_malloc(1) [OF mem m] Some by (simp add: Update_effect ac_simps)
      have run: "add_instance e p w = do { h \<leftarrow> free_opt table (heap ?w); let w = ?w\<lparr>heap := h\<rparr>;
          w \<leftarrow> (if length ps + 1 = 1 then install_handlers e w else Some w); Some (True, w) }"
        using m True t s new Some by (simp add: add_instance_def Let_def iCount_def size'_def [symmetric])
      have post: "table_mem F w' \<and> registered w' = registered w @ [p]"
        if "owns (F + {#b#}) (heap w')" "kwsysProcesses w' = \<lparr>iSize = size', iTable = (Some b, ps @ [p])\<rparr>" for w'
        using that s by (simp add: table_mem_def registered_def t table_blocks_def table_ok_def iCount_def)
      show ?thesis
        unfolding run returns_bind Let_def
      proof (rule wp_free_opt [OF F])
        fix h' :: heap
        assume "owns (F + {#b#}) h'"
        then show "returns (if length ps + 1 = 1 then install_handlers e (?w\<lparr>heap := h'\<rparr>) else Some (?w\<lparr>heap := h'\<rparr>))
          (\<lambda>x. returns (Some (True, x)) (\<lambda>(r, w'). table_mem F w'
            \<and> registered w' = (if r then registered w @ [p] else registered w) \<and> (all_ok (alloc_ok e) \<longrightarrow> r)))"
          using post by (auto simp: Update_effect intro!: wp_install_handlers [OF assms(1)])
      qed
    qed
  qed
qed

lemma remove_process_remove1: "remove_process p ps = (if p \<in> set ps then Some (remove1 p ps) else None)"
  by (induction ps) auto

lemma remove_instance_returns:
  assumes "fair e" and "table_mem F w"
  shows "returns (remove_instance e p w) (\<lambda>w'. table_mem F w' \<and> registered w' = remove1 p (registered w))"
proof -
  obtain table ps where t: "iTable (kwsysProcesses w) = (table, ps)" by fastforce
  show ?thesis
  proof (cases "p \<in> set ps")
    case False
    with assms(2) t show ?thesis
      by (simp add: remove_instance_def remove_process_remove1 registered_def remove1_idem)
  next
    case True
    have mem: "owns (F + (case table of None \<Rightarrow> {#} | Some b \<Rightarrow> {#b#})) (heap w)"
      and tok: "table \<noteq> None" "length ps \<le> iSize (kwsysProcesses w)"
      using assms(2) t True by (auto simp: table_mem_def table_blocks_def table_ok_def iCount_def split: option.splits)
    show ?thesis
    proof (cases "remove1 p ps = []")
      case last: True
      have "returns (remove_instance e p w) (\<lambda>w'. table_mem F w' \<and> registered w' = [])"
        unfolding remove_instance_def t Let_def prod.case remove_process_remove1 if_P [OF True] option.case
          if_P [OF last] returns_bind
        by (auto intro!: wp_retry [OF assms(1)] wp_free_opt [where F = F]
            simp: mem calls_only_heap Update_effect table_mem_def registered_def table_blocks_def table_ok_def)
      with last t show ?thesis by (simp add: registered_def)
    next
      case more: False
      have "length (remove1 p ps) \<le> length ps" by (simp add: length_remove1)
      with more True t mem tok show ?thesis
        by (auto simp: remove_instance_def remove_process_remove1 Update_effect table_mem_def registered_def
            table_blocks_def table_ok_def iCount_def)
    qed
  qed
qed

lemma pipe_frame:
  "table_mem F (snd (call e c w)) = table_mem F w" "registered (snd (call e c w)) = registered w"
  using calls_only_table [OF call_only] by blast+

text \<open>What \<open>kwsysProcessesAdd\<close> may change in the structure.\<close>

definition signal_pipe_only :: "kwsysProcess \<Rightarrow> kwsysProcess \<Rightarrow> bool" where
  "signal_pipe_only cp cp' \<longleftrightarrow> (\<exists>a b. cp' = cp\<lparr>PipeReadEnds := (PipeReadEnds cp)(KWSYSPE_PIPE_SIGNAL := a), SignalPipe := b\<rparr>)"

lemma signal_pipe_only_refl [simp]: "signal_pipe_only cp cp"
  unfolding signal_pipe_only_def
  by (rule exI [of _ "PipeReadEnds cp 2"], rule exI [of _ "SignalPipe cp"]) simp

lemma signal_pipe_onlyI: "signal_pipe_only cp (cp\<lparr>PipeReadEnds := (PipeReadEnds cp)(2 := a), SignalPipe := b\<rparr>)"
  unfolding signal_pipe_only_def by auto

lemma ProcessesAdd_returns:
  assumes "fair e" and "table_mem F w"
  shows "returns (kwsysProcessesAdd e cp w) (\<lambda>(r, cp', w'). table_mem F w' \<and> signal_pipe_only cp cp'
     \<and> registered w' = (if r then registered w @ [self cp] else registered w))"
proof -
  obtain r w1 where c: "call e S_pipe w = (r, w1)" by fastforce
  note t1 = calls_only_table [OF calls_only_call [OF c], of F]
  let ?cp = "cp\<lparr>PipeReadEnds := (PipeReadEnds cp)(2 := fst (fds r)), SignalPipe := snd (fds r)\<rparr>"
  obtain ok1 w2 where n1: "kwsysProcessSetNonBlocking e (fst (fds r)) w1 = (ok1, w2)" by fastforce
  note t2 = calls_only_table [OF SetNonBlocking_only [OF n1], of F]
  obtain ok2 w3 where n2: "kwsysProcessSetNonBlocking e (snd (fds r)) w2 = (ok2, w3)" by fastforce
  note t3 = calls_only_table [OF SetNonBlocking_only [OF n2], of F]
  obtain bad w4 where n3: "cloexec2_fails e (fds r) w3 = (bad, w4)" by fastforce
  note t4 = calls_only_table [OF cloexec2_only [OF n3], of F]
  have w4: "table_mem F w4" using assms(2) t1 t2 t3 t4 by simp
  note t = t1 t2 t3 t4
  note sp = signal_pipe_onlyI [where cp = cp and a = "fst (fds r)" and b = "snd (fds r)"]
  show ?thesis
    unfolding kwsysProcessesAdd_def c Let_def prod.case
    using assms(2) t sp n1 n2 n3
    by (auto simp: Let_def intro!: returns_mono [OF add_instance_returns [OF assms(1) w4]])
qed

text \<open>The signal pipe is one the system has made.\<close>

lemma ProcessesAdd_pipe:
  assumes "kwsysProcessesAdd e cp w = Some (r, cp', w')"
  shows "cp' = cp \<or> (\<exists>tr. 0 \<le> ret (sys e (S_pipe # tr))
    \<and> PipeReadEnds cp' = (PipeReadEnds cp)(KWSYSPE_PIPE_SIGNAL := fst (fds (sys e (S_pipe # tr)))))"
proof -
  obtain q w1 where c: "call e S_pipe w = (q, w1)" by fastforce
  then have q: "q = sys e (S_pipe # trace w)" using call_reply by (metis fst_conv)
  show ?thesis
  proof (cases "ret q < 0")
    case True
    with assms c show ?thesis by (simp add: kwsysProcessesAdd_def)
  next
    case False
    let ?cp = "cp\<lparr>PipeReadEnds := (PipeReadEnds cp)(KWSYSPE_PIPE_SIGNAL := fst (fds q)), SignalPipe := snd (fds q)\<rparr>"
    have "cp' = ?cp"
      using assms False unfolding kwsysProcessesAdd_def c Let_def prod.case
      by (auto split: prod.splits if_splits simp: bind_eq_Some_conv)
    with False q show ?thesis by (auto intro!: exI [of _ "trace w"])
  qed
qed

lemma ProcessesRemove_returns:
  assumes "fair e" and "table_mem F w"
  shows "returns (kwsysProcessesRemove e cp w) (\<lambda>(cp', w'). table_mem F w'
     \<and> cp' = cp\<lparr>SignalPipe := if SignalPipe cp > 2 then -1 else SignalPipe cp\<rparr>
     \<and> registered w' = remove1 (self cp) (registered w))"
  unfolding kwsysProcessesRemove_def returns_bind
  by (rule returns_mono [OF remove_instance_returns [OF assms]])
    (auto intro!: wp_CleanupDescriptor [OF assms(1)] dest: calls_only_table)

section \<open>Properties\<close>

text \<open>C30. The table of executing processes is a list of structures: adding a process appends it and
  gives it a signal pipe, or fails with the table as it was; removing one removes it (once) and
  closes its signal pipe.  Whatever fails, the memory of the table is exactly owned, there is
  always room for the processes in it, and no call is repeated for ever.\<close>

theorem process_table_refines_list:
  assumes "fair e" and "table_mem F w"
  shows "returns (kwsysProcessesAdd e cp w) (\<lambda>(r, cp', w'). table_mem F w' \<and> signal_pipe_only cp cp'
       \<and> registered w' = (if r then registered w @ [self cp] else registered w))
    \<and> returns (kwsysProcessesRemove e cp w) (\<lambda>(cp', w'). table_mem F w' \<and> SignalPipe cp' \<le> 2
       \<and> registered w' = remove1 (self cp) (registered w))"
proof
  show "returns (kwsysProcessesAdd e cp w) (\<lambda>(r, cp', w'). table_mem F w' \<and> signal_pipe_only cp cp'
       \<and> registered w' = (if r then registered w @ [self cp] else registered w))"
    by (rule ProcessesAdd_returns [OF assms])
  show "returns (kwsysProcessesRemove e cp w) (\<lambda>(cp', w'). table_mem F w' \<and> SignalPipe cp' \<le> 2
       \<and> registered w' = remove1 (self cp) (registered w))"
    by (rule returns_mono [OF ProcessesRemove_returns [OF assms]]) auto
qed

lemma clock_env_fair: "fair (clock_env s ns)"
  by (simp add: fair_def clock_env_def interrupted_def)

theorem process_table_refines_list_witness:
  "returns (kwsysProcessesAdd (clock_env 0 0) (initial_process 5) example_world)
     (\<lambda>(r, cp', w'). registered w' = (if r then [5] else []))"
proof -
  have "table_mem {#} example_world" "registered example_world = []" "self (initial_process 5) = 5"
    by (simp_all add: table_mem_def owns_def example_world_def table_blocks_def table_ok_def registered_def
        initial_process_def)
  then show ?thesis
    using process_table_refines_list [OF clock_env_fair, of "{#}" example_world 0 0 "initial_process 5"]
    by (auto elim!: returns_mono split: if_splits)
qed

text \<open>The actions the kernel has after a trace of calls.\<close>

fun action_after :: "(int \<Rightarrow> sigaction) \<Rightarrow> syscall list \<Rightarrow> int \<Rightarrow> sigaction" where
  "action_after init [] sig = init sig"
| "action_after init (S_sigaction s act # tr) sig = (if s = sig then act else action_after init tr sig)"
| "action_after init (_ # tr) sig = action_after init tr sig"

text \<open>A kernel whose \<open>sigaction\<close> succeeds and reports the action it replaces.\<close>

definition reports_actions :: "env \<Rightarrow> (int \<Rightarrow> sigaction) \<Rightarrow> bool" where
  "reports_actions e init \<longleftrightarrow> (\<forall>tr sig act. 0 \<le> ret (sys e (S_sigaction sig act # tr))
     \<and> old_action (sys e (S_sigaction sig act # tr)) = action_after init tr sig)"

lemma retry_once: "0 \<le> ret (sys e (c # trace w)) \<Longrightarrow> retry e c w = Some (call e c w)"
  by (subst retry.simps) (simp add: call_def Let_def)

lemma install_reports:
  "reports_actions e init \<Longrightarrow> install e sig act old w
     = Some (action_after init (trace w) sig, snd (call e (S_sigaction sig act) w))"
  by (auto simp: install_def reports_actions_def retry_once call_def Let_def not_less [symmetric])

lemma Update_trace:
  "trace (kwsysProcessesUpdate e p w) = S_sigprocmask SIG_SETMASK (old_mask (sys e
     (S_sigprocmask SIG_BLOCK {SIGCHLD, SIGINT, SIGTERM} # trace w)))
     # S_sigprocmask SIG_BLOCK {SIGCHLD, SIGINT, SIGTERM} # trace w"
  by (simp add: kwsysProcessesUpdate_def call_def Let_def)

lemma Update_statics [simp]:
  "OldSigChldAction (kwsysProcessesUpdate e p w) = OldSigChldAction w"
  "OldSigIntAction (kwsysProcessesUpdate e p w) = OldSigIntAction w"
  "OldSigTermAction (kwsysProcessesUpdate e p w) = OldSigTermAction w"
  by (simp_all add: kwsysProcessesUpdate_def call_def Let_def)

text \<open>C31. The first process installs the handlers and the last one removes them, but the old actions
  are mixed up: \<open>SIGCHLD\<close> gets its old action back, \<open>SIGINT\<close> gets the old action of
  \<open>SIGTERM\<close>, and \<open>SIGTERM\<close> gets the contents of a static variable that is never written.\<close>

theorem handlers_not_restored:
  assumes "reports_actions e init" and "iTable (kwsysProcesses w) = (None, [])" and "iSize (kwsysProcesses w) = 0"
    and "add_instance e p w = Some (True, w1)" and "remove_instance e p w1 = Some w2"
  defines "before \<equiv> action_after init (trace w)" and "after \<equiv> action_after init (trace w2)"
  shows "after SIGCHLD = before SIGCHLD \<and> after SIGINT = before SIGTERM \<and> after SIGTERM = OldSigTermAction w"
proof -
  obtain b h where m: "malloc (alloc_ok e) (grown_size 0 * 8) (heap w) = (b, h)" by fastforce
  let ?p = "\<lparr>iSize = grown_size 0, iTable = (b, [p])\<rparr>"
  let ?w = "kwsysProcessesUpdate e ?p (w\<lparr>heap := h\<rparr>)"
  have b: "b \<noteq> None" using assms(2-4) m by (auto simp: add_instance_def Let_def iCount_def split: if_splits)
  then have "install_handlers e ?w = Some w1"
    using assms(2-4) m by (auto simp: add_instance_def Let_def iCount_def grown_size_def free_opt_def Update_effect
        split: option.splits if_splits bind_splits)
  then have w1: "OldSigChldAction w1 = before SIGCHLD" "OldSigIntAction w1 = before SIGTERM"
      "OldSigTermAction w1 = OldSigTermAction w" "kwsysProcesses w1 = ?p"
    by (auto simp: install_handlers_def install_reports [OF assms(1)] Let_def call_def Update_trace Update_effect
        before_def SIGCHLD_def SIGINT_def SIGTERM_def)
  obtain h' v where v: "w2 = kwsysProcessesUpdate e \<lparr>iSize = 0, iTable = (None, [])\<rparr> (v\<lparr>heap := h'\<rparr>)"
    "trace v = [S_sigaction SIGTERM (OldSigTermAction w1), S_sigaction SIGINT (OldSigIntAction w1),
       S_sigaction SIGCHLD (OldSigChldAction w1)] @ trace w1"
    using assms(1,5) w1(4)
    by (auto simp: remove_instance_def retry_once reports_actions_def call_def Let_def split: bind_splits)
  show ?thesis
    by (simp add: after_def v(1) Update_trace) (simp add: v(2) w1 SIGCHLD_def SIGINT_def SIGTERM_def)
qed

text \<open>A kernel for the examples: every call succeeds, \<open>sigaction\<close> as documented, no children.\<close>

definition kernel_env :: "(int \<Rightarrow> sigaction) \<Rightarrow> env" where
  "kernel_env init = \<lparr>sys = (\<lambda>tr. \<lparr>ret = (case tr of S_wait # _ \<Rightarrow> -1 | _ \<Rightarrow> 0), err = ECHILD, fds = (3, 4), payload = [],
     status = 0, ready = {}, rest_time = None, old_mask = {},
     old_action = (case tr of S_sigaction sig _ # tr' \<Rightarrow> action_after init tr' sig | _ \<Rightarrow> default_action),
     clock = (0, 0), names = []\<rparr>), alloc_ok = \<lambda>_ _. True, strerror = \<lambda>_. lit ''error''\<rparr>"

lemma kernel_env_ok: "reports_actions (kernel_env init) init" "fair (kernel_env init)"
  by (simp_all add: reports_actions_def kernel_env_def fair_def interrupted_def errno_consts)

lemma example_table: "table_mem {#} example_world" "registered example_world = []"
  by (simp_all add: table_mem_def owns_def example_world_def table_blocks_def table_ok_def registered_def)

theorem handlers_not_restored_witness:
  "let init = (\<lambda>sig. \<lparr>sa_handler = OtherHandler (nat sig), sa_mask = {}, sa_flags = 0\<rparr>)
   in \<exists>w1 w2. add_instance (kernel_env init) 5 example_world = Some (True, w1)
     \<and> remove_instance (kernel_env init) 5 w1 = Some w2
     \<and> sa_handler (action_after init (trace w2) SIGINT) = OtherHandler 15
     \<and> sa_handler (action_after init (trace w2) SIGTERM) = SIG_DFL"
proof -
  define init where "init = (\<lambda>sig. \<lparr>sa_handler = OtherHandler (nat sig), sa_mask = {}, sa_flags = 0\<rparr>)"
  note k = kernel_env_ok [of init]
  have "all_ok (alloc_ok (kernel_env init))" by (simp add: all_ok_def kernel_env_def)
  with add_instance_returns [OF k(2) example_table(1), of 5] obtain w1 where
    w1: "add_instance (kernel_env init) 5 example_world = Some (True, w1)" "table_mem {#} w1"
    by (auto elim!: returnsE)
  from remove_instance_returns [OF k(2) w1(2), of 5] obtain w2 where
    w2: "remove_instance (kernel_env init) 5 w1 = Some w2" by (auto elim!: returnsE)
  have "iTable (kwsysProcesses example_world) = (None, [])" "iSize (kwsysProcesses example_world) = 0"
    "OldSigTermAction example_world = default_action" "trace example_world = []"
    by (simp_all add: example_world_def default_action_def)
  with handlers_not_restored [OF k(1) _ _ w1(1) w2(1)]
  have "action_after init (trace w2) SIGINT = init SIGTERM" "action_after init (trace w2) SIGTERM = default_action"
    by simp_all
  with w1(1) w2(1) show ?thesis
    unfolding Let_def init_def [symmetric] by (auto simp: default_action_def) (simp add: init_def SIGTERM_def)
qed

text \<open>The groups the handler signals: those of the children that are still there, of processes with a
  group of their own that are neither killed nor in error.\<close>

definition groups_of :: "kwsysProcess \<Rightarrow> int list" where
  "groups_of cp = (case ForkPIDs cp of
      Some (_, pids) \<Rightarrow> if CreateProcessGroup cp \<noteq> 0 \<and> \<not> Killed cp \<and> State cp \<noteq> State_Error
                        then filter (\<lambda>pid. pid \<noteq> 0) pids else []
    | None \<Rightarrow> [])"

definition pids_ok :: "kwsysProcess \<Rightarrow> bool" where
  "pids_ok cp \<longleftrightarrow> (\<forall>b pids. ForkPIDs cp = Some (b, pids) \<longrightarrow> length pids = NumberOfCommands cp)"

lemma interrupt_groups_trace:
  "trace (interrupt_groups e pids w) = rev (map (\<lambda>pid. S_kill (- pid) SIGINT) (filter (\<lambda>pid. pid \<noteq> 0) pids)) @ trace w"
  by (induction pids arbitrary: w) (auto simp: call_trace)

lemma forward_all_trace:
  assumes "\<forall>p\<in>set ps. \<exists>cp. store p = Some cp \<and> pids_ok cp"
  shows "\<exists>w'. forward_all e store ps w = Some w'
    \<and> trace w' = rev (map (\<lambda>pid. S_kill (- pid) SIGINT) (concat (map (groups_of \<circ> the \<circ> store) ps))) @ trace w"
  using assms
proof (induction ps arbitrary: w)
  case (Cons p ps)
  from Cons.prems obtain cp where cp: "store p = Some cp" "pids_ok cp" by auto
  show ?case
  proof (cases "ForkPIDs cp")
    case None
    then have "groups_of cp = []" by (simp add: groups_of_def)
    with cp Cons None show ?thesis by (simp add: comp_def)
  next
    case (Some a)
    obtain b pids where a: "a = (b, pids)" by fastforce
    then have l: "NumberOfCommands cp = length pids" using cp(2) Some by (simp add: pids_ok_def)
    show ?thesis
    proof (cases "CreateProcessGroup cp \<noteq> 0 \<and> \<not> Killed cp \<and> State cp \<noteq> State_Error")
      case True
      have "forward_all e store (p # ps) w = forward_all e store ps (interrupt_groups e pids w)"
        using cp(1) Some a True l by simp
      moreover obtain w' where "forward_all e store ps (interrupt_groups e pids w) = Some w'"
        "trace w' = rev (map (\<lambda>pid. S_kill (- pid) SIGINT) (concat (map (groups_of \<circ> the \<circ> store) ps)))
          @ trace (interrupt_groups e pids w)"
        using Cons.IH Cons.prems by fastforce
      moreover have "groups_of cp = filter (\<lambda>pid. pid \<noteq> 0) pids" using Some a True by (simp add: groups_of_def)
      ultimately show ?thesis using cp(1) by (simp add: interrupt_groups_trace comp_def)
    next
      case False
      then have "groups_of cp = []" using Some a by (auto simp: groups_of_def)
      moreover have "forward_all e store (p # ps) w = forward_all e store ps w" using cp(1) Some a False by auto
      ultimately show ?thesis using cp(1) Cons.IH [of w] Cons.prems by (auto simp: comp_def)
    qed
  qed
qed simp

text \<open>The documented end of \<open>wait\<close>: once every child has been reaped it fails with \<open>ECHILD\<close>.\<close>

definition children_end :: "env \<Rightarrow> bool" where
  "children_end e \<longleftrightarrow> (\<forall>tr. \<exists>n. let r = sys e (replicate (Suc n) S_wait @ tr) in ret r < 0 \<and> err r = ECHILD)"

lemma wait_all_returns:
  assumes "children_end e"
  shows "\<exists>w' n. wait_all e w = Some w' \<and> trace w' = replicate n S_wait @ trace w"
proof -
  have go: "\<exists>w' n. wait_all e v = Some w' \<and> trace w' = replicate n S_wait @ trace v"
    if "let r = sys e (replicate (Suc n) S_wait @ trace v) in ret r < 0 \<and> err r = ECHILD" for n v
    using that
  proof (induction n arbitrary: v)
    case 0
    then have "wait_all e v = Some (snd (call e S_wait v))"
      by (subst wait_all.simps) (simp add: call_def Let_def)
    then show ?case by (intro exI [of _ "snd (call e S_wait v)"] exI [of _ 1]) (simp add: call_trace)
  next
    case (Suc n)
    let ?v = "snd (call e S_wait v)"
    show ?case
    proof (cases "ret (sys e (S_wait # trace v)) \<ge> 0 \<or> errno ?v \<noteq> ECHILD")
      case True
      then have "wait_all e v = wait_all e ?v" by (subst wait_all.simps) (auto simp: call_def Let_def)
      moreover have "let r = sys e (replicate (Suc n) S_wait @ trace ?v) in ret r < 0 \<and> err r = ECHILD"
        using Suc.prems unfolding call_trace
        by (metis append_Cons append_assoc replicate_Suc replicate_append_same append_Nil)
      ultimately obtain w' m where "wait_all e v = Some w'" "trace w' = replicate m S_wait @ S_wait # trace v"
        using Suc.IH [of ?v] by (auto simp: call_trace)
      then show ?thesis
        by (intro exI [of _ w'] exI [of _ "Suc m"]) (simp add: replicate_app_Cons_same)
    next
      case False
      then have "wait_all e v = Some ?v"
        by (subst wait_all.simps) (auto simp: call_def Let_def)
      then show ?thesis by (intro exI [of _ ?v] exI [of _ 1]) (simp add: call_trace)
    qed
  qed
  from assms obtain n where "let r = sys e (replicate (Suc n) S_wait @ trace w) in ret r < 0 \<and> err r = ECHILD"
    unfolding children_end_def by blast
  then show ?thesis by (rule go)
qed

text \<open>C32. On \<open>SIGINT\<close> or \<open>SIGTERM\<close> the handler interrupts exactly the process groups of the children
  that are still there (of processes with a group of their own that are neither killed nor in
  error), waits for all children, restores the default action of the signal, unblocks and
  raises it again, and ends the process; it does nothing else, and it does not loop for ever.\<close>

theorem signal_forwarding:
  assumes "signum = SIGINT \<or> signum = SIGTERM" and "fair e" and "children_end e"
    and "\<forall>p\<in>set (registered w). \<exists>cp. store p = Some cp \<and> pids_ok cp"
  shows "\<exists>w' m n. kwsysProcessesSignalHandler e store signum w = Some (Exited w')
    \<and> trace w' = [S_exit 1, S_raise signum, S_sigprocmask SIG_UNBLOCK {signum}]
        @ replicate (Suc m) (S_sigaction signum default_action) @ replicate n S_wait
        @ rev (map (\<lambda>pid. S_kill (- pid) SIGINT) (concat (map (groups_of \<circ> the \<circ> store) (registered w))))
        @ trace w"
proof -
  from forward_all_trace [OF assms(4), of e w] obtain w1 where
    w1: "forward_all e store (registered w) w = Some w1"
      "trace w1 = rev (map (\<lambda>pid. S_kill (- pid) SIGINT) (concat (map (groups_of \<circ> the \<circ> store) (registered w)))) @ trace w"
    by blast
  from wait_all_returns [OF assms(3), of w1] obtain w2 n where
    w2: "wait_all e w1 = Some w2" "trace w2 = replicate n S_wait @ trace w1" by blast
  have "returns (retry e (S_sigaction signum default_action) w2) (retried e (S_sigaction signum default_action) w2)"
    by (rule retry_returns [OF assms(2)])
  then obtain r w3 m where
    w3: "retry e (S_sigaction signum default_action) w2 = Some (r, w3)"
      "trace w3 = replicate (Suc m) (S_sigaction signum default_action) @ trace w2"
    by (auto simp: retried_def elim!: returnsE)
  have "\<exists>w'. kwsysProcessesSignalHandler e store signum w = Some (Exited w')
      \<and> trace w' = [S_exit 1, S_raise signum, S_sigprocmask SIG_UNBLOCK {signum}] @ trace w3"
    using assms(1) w1(1) w2(1) w3(1)
    by (auto simp: kwsysProcessesSignalHandler_def registered_def Let_def call_def signal_consts)
  then show ?thesis unfolding w3(2) w2(2) w1(2) by auto
qed

theorem signal_forwarding_witness:
  "let cp = initial_process 5\<lparr>ForkPIDs := Some (1, [700, 0]), NumberOfCommands := 2, CreateProcessGroup := 1\<rparr>;
       w = example_world\<lparr>kwsysProcesses := \<lparr>iSize = 4, iTable = (Some 0, [5])\<rparr>\<rparr>
   in \<exists>w'. kwsysProcessesSignalHandler (kernel_env (\<lambda>_. default_action)) [5 \<mapsto> cp] SIGTERM w = Some (Exited w')
     \<and> S_kill (-700) SIGINT \<in> set (trace w')"
proof -
  define cp where "cp = initial_process 5\<lparr>ForkPIDs := Some (1, [700, 0]), NumberOfCommands := 2, CreateProcessGroup := 1\<rparr>"
  define w where "w = example_world\<lparr>kwsysProcesses := \<lparr>iSize = 4, iTable = (Some 0, [5])\<rparr>\<rparr>"
  have "registered w = [5]" "pids_ok cp" "groups_of cp = [700]"
    by (simp_all add: w_def registered_def cp_def pids_ok_def groups_of_def initial_process_def)
  moreover have "children_end (kernel_env (\<lambda>_. default_action))"
    by (simp add: children_end_def kernel_env_def Let_def)
  ultimately show ?thesis
    using signal_forwarding [of SIGTERM "kernel_env (\<lambda>_. default_action)" w "[5 \<mapsto> cp]"] kernel_env_ok(2)
    unfolding Let_def cp_def [symmetric] w_def [symmetric] by auto
qed

end
