(* ===== verification/ProcessKill.thy ===== *)
theory ProcessKill
  imports ProcessInstances "HOL-Library.Sublist"
begin

text \<open>
  Forking, killing process trees, and reporting why a child ended (\<open>kwsysProcessFork\<close>,
  \<open>kwsysProcessKill\<close>, \<open>kwsysProcessChildErrorExit\<close>, \<open>kwsysProcessRestoreDefaultSignalHandlers\<close>,
  \<open>kwsysProcessSetExitExceptionByIndex\<close> of \<^verbatim>\<open>kwsys/ProcessUNIX.c\<close>).  A function that may run in
  a child process has an outcome: it returns, or the process ends.  A directory stream is the
  list of the names it delivers, and the output of \<open>ps\<close> the bytes it delivers.  \<open>scanf\<close> of a
  number that does not fit in an \<open>int\<close> is not modelled.
\<close>

section \<open>Strings\<close>

definition isdigit :: "byte \<Rightarrow> bool" where
  "isdigit c \<longleftrightarrow> 48 \<le> c \<and> c \<le> 57"

definition digits_value :: "byte list \<Rightarrow> nat" where
  "digits_value ds = foldl (\<lambda>n c. 10 * n + (unat c - 48)) 0 ds"

text \<open>\<open>%d\<close> of \<open>scanf\<close>: the number and what follows it.\<close>

definition scan_int :: "byte list \<Rightarrow> (int \<times> byte list) option" where
  "scan_int s =
     (let s = dropWhile isspace s;
          (neg, s) = (case s of c # r \<Rightarrow> if c = 0x2D then (True, r) else if c = 0x2B then (False, r) else (False, s)
                      | [] \<Rightarrow> (False, s));
          ds = takeWhile isdigit s; n = int (digits_value ds)
      in if ds = [] then None else Some (if neg then - n else n, dropWhile isdigit s))"

text \<open>\<open>%*s %d\<close> of \<open>scanf\<close>: a word is skipped.\<close>

definition scan_word_int :: "byte list \<Rightarrow> int option" where
  "scan_word_int s =
     (let s = dropWhile isspace s
      in if s = [] then None else map_option fst (scan_int (dropWhile (\<lambda>c. \<not> isspace c) s)))"

text \<open>\<open>%d %d\n\<close> of \<open>fscanf\<close>\<close>

definition scan_pair :: "byte list \<Rightarrow> (int \<times> int \<times> byte list) option" where
  "scan_pair s =
     do { (pid, s) \<leftarrow> scan_int s; (ppid, s) \<leftarrow> scan_int s; Some (pid, ppid, dropWhile isspace s) }"

text \<open>\<open>%*[^\n]\n\<close> of \<open>fscanf\<close>: \<^term>\<open>None\<close> is \<open>EOF\<close>; an empty first line is not skipped.\<close>

definition scan_header :: "byte list \<Rightarrow> byte list option" where
  "scan_header s =
     (if s = [] then None
      else if hd s = 10 then Some s
      else Some (dropWhile isspace (dropWhile (\<lambda>c. c \<noteq> 10) s)))"

text \<open>\<open>strrchr (buffer, ')') + 1\<close>\<close>

fun after_last :: "byte \<Rightarrow> byte list \<Rightarrow> byte list option" where
  "after_last c [] = None"
| "after_last c (x # xs) =
     (case after_last c xs of Some r \<Rightarrow> Some r | None \<Rightarrow> if x = c then Some xs else None)"

section \<open>Why a child ended\<close>

text \<open>The cases of the switch, with the signal numbers of Linux.\<close>

definition exit_exceptions :: "(int \<times> pexception \<times> string) list" where
  "exit_exceptions =
     [(11, Exception_Fault, ''Segmentation fault''), (7, Exception_Fault, ''Bus error''),
      (8, Exception_Numerical, ''Floating-point exception''), (4, Exception_Illegal, ''Illegal instruction''),
      (2, Exception_Interrupt, ''User interrupt''), (6, Exception_Other, ''Subprocess aborted''),
      (9, Exception_Other, ''Subprocess killed''), (15, Exception_Other, ''Subprocess terminated''),
      (1, Exception_Other, ''SIGHUP''), (3, Exception_Other, ''SIGQUIT''), (5, Exception_Other, ''SIGTRAP''),
      (10, Exception_Other, ''SIGUSR1''), (12, Exception_Other, ''SIGUSR2''), (13, Exception_Other, ''SIGPIPE''),
      (14, Exception_Other, ''SIGALRM''), (16, Exception_Other, ''SIGSTKFLT''), (17, Exception_Other, ''SIGCHLD''),
      (18, Exception_Other, ''SIGCONT''), (19, Exception_Other, ''SIGSTOP''), (20, Exception_Other, ''SIGTSTP''),
      (21, Exception_Other, ''SIGTTIN''), (22, Exception_Other, ''SIGTTOU''), (23, Exception_Other, ''SIGURG''),
      (24, Exception_Other, ''SIGXCPU''), (25, Exception_Other, ''SIGXFSZ''), (26, Exception_Other, ''SIGVTALRM''),
      (27, Exception_Other, ''SIGPROF''), (28, Exception_Other, ''SIGWINCH''), (29, Exception_Other, ''SIGPOLL''),
      (30, Exception_Other, ''SIGPWR''), (31, Exception_Other, ''SIGSYS'')]"

definition exit_exception :: "int \<Rightarrow> pexception \<times> byte list" where
  "exit_exception sig =
     (case map_of exit_exceptions sig of
        Some (x, str) \<Rightarrow> (x, lit str)
      | None \<Rightarrow> (Exception_Other, ascii ''Signal '' @ int_chars sig @ [0]))"

definition kwsysProcessSetExitExceptionByIndex :: "kwsysProcess \<Rightarrow> int \<Rightarrow> nat \<Rightarrow> kwsysProcess option" where
  "kwsysProcessSetExitExceptionByIndex cp sig idx =
     (case ProcessResults cp of
        None \<Rightarrow> None
      | Some (b, rs) \<Rightarrow>
          if idx \<ge> length rs then None
          else do { let (x, str) = exit_exception sig;
                    let r = rs ! idx;
                    buf \<leftarrow> strcpy (ExitExceptionString r) str;
                    Some (cp\<lparr>ProcessResults := Some (b, rs[idx := r\<lparr>ExitException := x,
                      ExitExceptionString := buf\<rparr>])\<rparr>) })"

section \<open>In the child\<close>

text \<open>The buffer is written as a whole, so its old contents do not matter.\<close>

definition kwsysProcessChildErrorExit :: "env \<Rightarrow> int \<Rightarrow> world \<Rightarrow> 'a outcome option" where
  "kwsysProcessChildErrorExit e errorPipe w =
     do { buffer \<leftarrow> strncpy (replicate KWSYSPE_PIPE_BUFFER_SIZE 0) (strerror e (errno w)) KWSYSPE_PIPE_BUFFER_SIZE;
          let buffer = buffer[KWSYSPE_PIPE_BUFFER_SIZE - 1 := 0];
          str \<leftarrow> c_string buffer;
          let (_, w) = call e (S_write errorPipe str) w;
          let (_, w) = call e (S_exit 1) w;
          Some (Exited w) }"

text \<open>The signals of the code in its order, with their numbers on Linux (some have two names).\<close>

definition default_signals :: "int list" where
  "default_signals = [1, 2, 3, 4, 5, 6, 6, 7, 8, 10, 11, 12, 13, 14, 15, 16, 17, 17, 18, 20, 21, 22, 23, 24,
     25, 26, 27, 28, 29, 29, 30, 31]"

fun default_all :: "env \<Rightarrow> int list \<Rightarrow> world \<Rightarrow> world" where
  "default_all e [] w = w"
| "default_all e (s # ss) w = default_all e ss (snd (call e (S_sigaction s default_action) w))"

definition kwsysProcessRestoreDefaultSignalHandlers :: "env \<Rightarrow> world \<Rightarrow> world" where
  "kwsysProcessRestoreDefaultSignalHandlers e w = default_all e default_signals w"

definition kwsysProcessExit :: "env \<Rightarrow> world \<Rightarrow> 'a outcome option" where
  "kwsysProcessExit e w = Some (Exited (snd (call e (S_exit 0) w)))"

section \<open>Fork\<close>

text \<open>The bytes of a \<open>pid_t\<close> in memory, and the \<open>pid_t\<close> of four bytes.\<close>

definition pid_bytes :: "int \<Rightarrow> byte list" where
  "pid_bytes p = map (\<lambda>i. ucast (drop_bit (8 * i) (word_of_int p :: u32))) [0, 1, 2, 3]"

definition bytes_pid :: "byte list \<Rightarrow> int option" where
  "bytes_pid bs =
     (if length bs = 4
      then Some (sint (foldr (\<lambda>b n. push_bit 8 n OR ucast b) bs (0 :: u32))) else None)"

text \<open>
  The result is 0 in the child.  The parent of a detached process reads the pid from the pipe;
  when fewer than four bytes come its variable is not initialised (\<^term>\<open>None\<close>).
\<close>

definition kwsysProcessFork ::
  "env \<Rightarrow> kwsysProcess \<Rightarrow> kwsysProcessCreateInformation \<Rightarrow> world \<Rightarrow> (int \<times> world) outcome option" where
  "kwsysProcessFork e cp si w =
     (if OptionDetach cp \<noteq> 0
      then let (middle, w) = call e S_fork w
           in if ret middle < 0 then Some (Returned (ret middle, w))
              else if ret middle = 0
              then let (child, w) = call e S_fork w
                   in if ret child = 0 then Some (Returned (0, w))
                      else do { (_, w) \<leftarrow> retry e (S_write (snd (ErrorPipe si)) (pid_bytes (ret child))) w;
                                kwsysProcessExit e w }
              else do { (r, w) \<leftarrow> retry e (S_read (fst (ErrorPipe si)) 4) w;
                        (_, w) \<leftarrow> retry e (S_waitpid (ret middle) False) w;
                        child_pid \<leftarrow> (if ret r < 0 then None else bytes_pid (payload r));
                        Some (Returned (child_pid, w)) }
      else let (r, w) = call e S_fork w in Some (Returned (ret r, w)))"

section \<open>Killing a process and its children\<close>

text \<open>The body of the loop over \<open>/proc\<close>: the process of this entry, if its parent is \<open>process_id\<close>.\<close>

definition proc_child :: "env \<Rightarrow> int \<Rightarrow> byte list \<Rightarrow> world \<Rightarrow> int option \<times> world" where
  "proc_child e process_id d_name w =
     (case scan_int d_name of
        None \<Rightarrow> (None, w)
      | Some (pid, _) \<Rightarrow>
          if pid = 0 then (None, w)
          else let fname = ascii ''/proc/'' @ int_chars pid @ ascii ''/stat'';
                   (r, w) = call e (S_stat fname) w
               in if ret r \<noteq> 0 then (None, w)
                  else let (f, w) = call e (S_fopen fname) w
                       in if ret f < 0 then (None, w)
                          else let (r, w) = call e (S_fread KWSYSPE_PIPE_BUFFER_SIZE) w;
                                   buffer = takeWhile (\<lambda>c. c \<noteq> 0) (take KWSYSPE_PIPE_BUFFER_SIZE (payload r));
                                   (_, w) = call e S_fclose w
                               in if payload r = [] then (None, w)
                                  else (case Option.bind (after_last 0x29 buffer) scan_word_int of
                                          Some ppid \<Rightarrow> (if ppid = process_id then Some pid else None, w)
                                        | None \<Rightarrow> (None, w)))"

datatype kill_task = KillTree int | ProcScan int "byte list list" | PsScan int "byte list"

text \<open>\<open>kwsysProcessKill\<close> with its two loops, which call it again for each child.\<close>

partial_function (option) kill_run :: "env \<Rightarrow> kill_task \<Rightarrow> world \<Rightarrow> world option" where
  "kill_run e t w =
     (case t of
        KillTree process_id \<Rightarrow>
          do { let (_, w) = call e (S_kill process_id SIGSTOP) w;
               let (r, w) = call e (S_opendir (ascii ''/proc'')) w;
               w \<leftarrow> (if ret r \<ge> 0
                      then do { w \<leftarrow> kill_run e (ProcScan process_id (names r)) w;
                                Some (snd (call e S_closedir w)) }
                      else let (r, w) = call e (S_popen (ascii ''ps axo pid,ppid'')) w
                           in if ret r \<ge> 0
                              then do { w \<leftarrow> (case scan_header (payload r) of
                                              None \<Rightarrow> Some w
                                            | Some s \<Rightarrow> kill_run e (PsScan process_id s) w);
                                        Some (snd (call e S_pclose w)) }
                              else Some w);
               Some (snd (call e (S_kill process_id SIGKILL) w)) }
      | ProcScan process_id ds \<Rightarrow>
          (case ds of
             [] \<Rightarrow> Some w
           | d # ds \<Rightarrow>
               do { let (child, w) = proc_child e process_id d w;
                    w \<leftarrow> (case child of None \<Rightarrow> Some w | Some pid \<Rightarrow> kill_run e (KillTree pid) w);
                    kill_run e (ProcScan process_id ds) w })
      | PsScan process_id s \<Rightarrow>
          (case scan_pair s of
             None \<Rightarrow> Some w
           | Some (pid, ppid, s) \<Rightarrow>
               do { w \<leftarrow> (if ppid = process_id then kill_run e (KillTree pid) w else Some w);
                    kill_run e (PsScan process_id s) w }))"

definition kwsysProcessKill :: "env \<Rightarrow> int \<Rightarrow> world \<Rightarrow> world option" where
  "kwsysProcessKill e process_id w = kill_run e (KillTree process_id) w"

text \<open>\<open>(pid_t) process_id\<close> of an \<open>unsigned long\<close>\<close>

definition kwsysProcess_KillPID :: "env \<Rightarrow> 64 word \<Rightarrow> world \<Rightarrow> world option" where
  "kwsysProcess_KillPID e process_id w = kwsysProcessKill e (sint (ucast process_id :: 32 word)) w"

section \<open>Lemmas\<close>

lemma pid_roundtrip:
  assumes "- (2 ^ 31) \<le> p" and "p < 2 ^ 31"
  shows "bytes_pid (pid_bytes p) = Some p"
proof -
  let ?w = "word_of_int p :: u32"
  have "foldr (\<lambda>b n. push_bit 8 n OR ucast b) (pid_bytes p) (0 :: u32) = ?w"
  proof (rule bit_word_eqI)
    fix n assume "n < LENGTH(32)"
    then have "n < 8 \<or> 8 \<le> n \<and> n < 16 \<or> 16 \<le> n \<and> n < 24 \<or> 24 \<le> n \<and> n < 32" by auto
    then show "bit (foldr (\<lambda>b n. push_bit 8 n OR ucast b) (pid_bytes p) (0 :: u32)) n = bit ?w n"
      by (auto simp: pid_bytes_def bit_simps)
  qed
  moreover have "sint ?w = p"
    using assms by (simp add: sint_sbintrunc' signed_take_bit_int_eq_self)
  ultimately show ?thesis by (simp add: bytes_pid_def) (simp add: pid_bytes_def)
qed

lemma exit_exception_string:
  assumes "0 \<le> sig" and "sig < 128"
  shows "\<exists>str. c_string (snd (exit_exception sig)) = Some str \<and> length str < 30"
proof -
  have "list_all (\<lambda>s. case c_string (snd (exit_exception (int s))) of None \<Rightarrow> False | Some str \<Rightarrow> length str < 30) [0..<128]"
    by code_simp
  then have "\<forall>s<128. case c_string (snd (exit_exception (int s))) of None \<Rightarrow> False | Some str \<Rightarrow> length str < 30"
    unfolding list_all_upt_conv .
  moreover have "nat sig < 128" "int (nat sig) = sig" using assms by simp_all
  ultimately have "case c_string (snd (exit_exception sig)) of None \<Rightarrow> False | Some str \<Rightarrow> length str < 30"
    by metis
  then show ?thesis by (auto split: option.splits)
qed

lemma strcpy_result:
  assumes "c_string s = Some str" and "length str < length buf"
  shows "\<exists>buf'. strcpy buf s = Some buf' \<and> c_string buf' = Some str \<and> length buf' = length buf"
proof -
  have "0 \<notin> set str" using assms(1) by (simp add: c_string_iff)
  then have "c_string (str @ 0 # drop (length str + 1) buf) = Some str" by simp
  with assms show ?thesis by (simp add: strcpy_def mem_write_def)
qed

text \<open>For every termination signal the exit exception is classified (faults, illegal instruction,
  interrupt, numerical error or other) and its description is copied into the result of that
  child within the buffer; no other result is touched.\<close>

theorem SetExitException_table:
  assumes "ProcessResults cp = Some (b, rs)" and "idx < length rs" and "0 \<le> sig" and "sig < 128"
    and "length (ExitExceptionString (rs ! idx)) = KWSYSPE_PIPE_BUFFER_SIZE + 1"
  shows "\<exists>r. kwsysProcessSetExitExceptionByIndex cp sig idx = Some (cp\<lparr>ProcessResults := Some (b, rs[idx := r])\<rparr>)
    \<and> (ExitException r = Exception_Fault \<longleftrightarrow> sig = 11 \<or> sig = 7)
    \<and> (ExitException r = Exception_Numerical \<longleftrightarrow> sig = 8) \<and> (ExitException r = Exception_Illegal \<longleftrightarrow> sig = 4)
    \<and> (ExitException r = Exception_Interrupt \<longleftrightarrow> sig = 2) \<and> ExitException r \<noteq> Exception_None
    \<and> c_string (ExitExceptionString r) = c_string (snd (exit_exception sig))
    \<and> c_string (ExitExceptionString r) \<noteq> None \<and> rState r = rState (rs ! idx)"
proof -
  obtain str where str: "c_string (snd (exit_exception sig)) = Some str" "length str < 30"
    using exit_exception_string [OF assms(3,4)] by blast
  have "length str < length (ExitExceptionString (rs ! idx))" using str(2) assms(5) by simp
  from strcpy_result [OF str(1) this] obtain buf where
    buf: "strcpy (ExitExceptionString (rs ! idx)) (snd (exit_exception sig)) = Some buf" "c_string buf = Some str"
    by blast
  let ?x = "fst (exit_exception sig)"
  let ?r = "(rs ! idx)\<lparr>ExitException := ?x, ExitExceptionString := buf\<rparr>"
  have "kwsysProcessSetExitExceptionByIndex cp sig idx = Some (cp\<lparr>ProcessResults := Some (b, rs[idx := ?r])\<rparr>)"
    using assms(1,2) buf(1) by (simp add: kwsysProcessSetExitExceptionByIndex_def split_beta)
  moreover have "(?x = Exception_Fault \<longleftrightarrow> sig = 11 \<or> sig = 7) \<and> (?x = Exception_Numerical \<longleftrightarrow> sig = 8)
      \<and> (?x = Exception_Illegal \<longleftrightarrow> sig = 4) \<and> (?x = Exception_Interrupt \<longleftrightarrow> sig = 2) \<and> ?x \<noteq> Exception_None"
    by (auto simp: exit_exception_def exit_exceptions_def split: option.splits if_splits)
  ultimately show ?thesis using buf(2) str(1) by (intro exI [of _ ?r]) simp
qed

theorem SetExitException_table_witness:
  "\<exists>r cp. kwsysProcessSetExitExceptionByIndex (initial_process 0\<lparr>ProcessResults := Some (1, [\<lparr>rState = State_Starting,
     ExitException = Exception_None, ExitCode = 1, ExitValue = 1, ExitExceptionString = replicate 1025 0\<rparr>])\<rparr>) 11 0
     = Some cp \<and> ProcessResults cp = Some (1, [r]) \<and> ExitException r = Exception_Fault"
proof -
  define q where "q = \<lparr>rState = State_Starting, ExitException = Exception_None, ExitCode = 1, ExitValue = 1,
    ExitExceptionString = replicate 1025 (0::byte)\<rparr>"
  have "length (ExitExceptionString ([q] ! 0)) = KWSYSPE_PIPE_BUFFER_SIZE + 1" by (simp add: q_def)
  with SetExitException_table [of "initial_process 0\<lparr>ProcessResults := Some (1, [q])\<rparr>" 1 "[q]" 0 11]
  obtain r where "kwsysProcessSetExitExceptionByIndex (initial_process 0\<lparr>ProcessResults := Some (1, [q])\<rparr>) 11 0
      = Some (initial_process 0\<lparr>ProcessResults := Some (1, [q])\<rparr>\<lparr>ProcessResults := Some (1, [q][0 := r])\<rparr>)"
    "ExitException r = Exception_Fault" by auto
  then show ?thesis unfolding q_def by auto
qed

lemma default_all_action:
  "action_after init (trace (default_all e ss w)) sig
     = (if sig \<in> set ss then default_action else action_after init (trace w) sig)"
  by (induction ss arbitrary: w) (auto simp: call_trace)

text \<open>After the fork the child resets every standard signal that can be handled to its default action.\<close>

theorem RestoreDefault_all_signals:
  assumes "1 \<le> sig" and "sig \<le> 31" and "sig \<noteq> SIGKILL" and "sig \<noteq> SIGSTOP"
  shows "action_after init (trace (kwsysProcessRestoreDefaultSignalHandlers e w)) sig = default_action"
proof -
  have "\<forall>s\<in>{1..31} - {SIGKILL, SIGSTOP}. s \<in> set default_signals" by code_simp
  with assms show ?thesis
    by (simp add: kwsysProcessRestoreDefaultSignalHandlers_def default_all_action)
qed

theorem RestoreDefault_all_signals_witness:
  "action_after (\<lambda>_. newSigAction) (trace (kwsysProcessRestoreDefaultSignalHandlers (clock_env 0 0) example_world)) 17
     = default_action"
  by (rule RestoreDefault_all_signals) (simp_all add: signal_consts)

section \<open>The processes below a process\<close>

lemma scan_int_length: "scan_int s = Some (n, r) \<Longrightarrow> length r < length s"
proof -
  assume a: "scan_int s = Some (n, r)"
  define s1 where "s1 = dropWhile isspace s"
  obtain neg s2 where s2: "(case s1 of c # r \<Rightarrow> if c = 0x2D then (True, r) else if c = 0x2B then (False, r) else (False, s1)
      | [] \<Rightarrow> (False, s1)) = (neg, s2)" by fastforce
  have r: "r = dropWhile isdigit s2" "takeWhile isdigit s2 \<noteq> []"
    using a unfolding scan_int_def Let_def s1_def [symmetric] s2 by (simp_all split: if_splits)
  have "length (takeWhile isdigit s2) + length r = length s2"
    unfolding r(1) by (metis length_append takeWhile_dropWhile_id)
  moreover have "length s2 \<le> length s1" using s2 by (auto split: list.splits if_splits)
  moreover have "length s1 \<le> length s" by (simp add: s1_def length_dropWhile_le)
  ultimately show ?thesis using r(2) by (cases "takeWhile isdigit s2") auto
qed

lemma scan_pair_length: "scan_pair s = Some (pid, ppid, r) \<Longrightarrow> length r < length s"
proof -
  assume "scan_pair s = Some (pid, ppid, r)"
  then obtain s1 s2 where s: "scan_int s = Some (pid, s1)" "scan_int s1 = Some (ppid, s2)" "r = dropWhile isspace s2"
    by (auto simp: scan_pair_def bind_eq_Some_conv)
  have "length r \<le> length s2" by (simp add: s(3) length_dropWhile_le)
  with scan_int_length [OF s(1)] scan_int_length [OF s(2)] show ?thesis by simp
qed

text \<open>The pairs of a process and its parent that the output of \<open>ps\<close> lists.\<close>

function ps_pairs :: "byte list \<Rightarrow> (int \<times> int) list" where
  "ps_pairs s = (case scan_pair s of None \<Rightarrow> [] | Some (pid, ppid, s) \<Rightarrow> (pid, ppid) # ps_pairs s)"
  by pat_completeness auto
termination by (relation "measure length") (auto dest: scan_pair_length)

declare ps_pairs.simps [simp del]

text \<open>
  What the system shows of the children of a process \<open>p\<close> that has been stopped after the calls \<open>tr\<close>: at
  some time an entry of \<open>/proc\<close> or a line of \<open>ps\<close> has the child \<open>c\<close>, which is then killed after the calls
  \<open>tr'\<close>.
\<close>

definition proc_listed :: "int \<Rightarrow> syscall list \<Rightarrow> syscall list" where
  "proc_listed p tr = S_opendir (ascii ''/proc'') # S_kill p SIGSTOP # tr"

definition ps_listed :: "int \<Rightarrow> syscall list \<Rightarrow> syscall list" where
  "ps_listed p tr = S_popen (ascii ''ps axo pid,ppid'') # proc_listed p tr"

inductive child_seen :: "env \<Rightarrow> int \<Rightarrow> syscall list \<Rightarrow> int \<Rightarrow> syscall list \<Rightarrow> bool" for e p tr where
  in_proc: "suffix (proc_listed p tr) (trace w) \<Longrightarrow> proc_child e p d w = (Some c, w') \<Longrightarrow> child_seen e p tr c (trace w')"
| in_ps: "scan_header (payload (sys e (ps_listed p tr))) = Some s \<Longrightarrow> (c, p) \<in> set (ps_pairs s) \<Longrightarrow> suffix (ps_listed p tr) tr'
    \<Longrightarrow> child_seen e p tr c tr'"

text \<open>The documented behaviour: no process has an endless line of descendants.\<close>

definition finite_trees :: "env \<Rightarrow> bool" where
  "finite_trees e \<longleftrightarrow> wf {((c, tr'), (p, tr)). child_seen e p tr c tr'}"

text \<open>
  \<open>c\<close> is a child of \<open>p\<close> all the time after \<open>p\<close> was stopped: an entry of \<open>/proc\<close> shows it whenever it is
  read, or, when \<open>/proc\<close> cannot be opened, \<open>ps\<close> lists it.
\<close>

definition stays_child :: "env \<Rightarrow> int \<Rightarrow> syscall list \<Rightarrow> int \<Rightarrow> bool" where
  "stays_child e p tr c \<longleftrightarrow>
     (let r = sys e (proc_listed p tr); q = sys e (ps_listed p tr)
      in if 0 \<le> ret r
         then \<exists>d\<in>set (names r). \<forall>w. suffix (proc_listed p tr) (trace w) \<longrightarrow> fst (proc_child e p d w) = Some c
         else 0 \<le> ret q \<and> (\<exists>s. scan_header (payload q) = Some s \<and> (c, p) \<in> set (ps_pairs s)))"

section \<open>Killing process trees\<close>

text \<open>A tree of processes, each with the calls before it was stopped.\<close>

datatype ptree = Proc (pid_of: int) (stopped_after: "syscall list") "ptree list"

fun nodes :: "ptree \<Rightarrow> (int \<times> syscall list \<times> int list) list" where
  "nodes (Proc p tr ts) = (p, tr, map pid_of ts) # concat (map nodes ts)"

text \<open>
  The signals and the looks at \<open>/proc\<close> for a tree: stop the process, look for its children, kill what is
  below it, kill the process.
\<close>

fun kill_seq :: "ptree \<Rightarrow> syscall list" where
  "kill_seq (Proc p tr ts) = [S_kill p SIGSTOP, S_opendir (ascii ''/proc'')] @ concat (map kill_seq ts) @ [S_kill p SIGKILL]"

fun is_mark :: "syscall \<Rightarrow> bool" where
  "is_mark (S_kill _ _) = True"
| "is_mark (S_opendir _) = True"
| "is_mark _ = False"

definition marks :: "syscall list \<Rightarrow> syscall list" where
  "marks tr = filter is_mark tr"

lemma marks_simps [simp]:
  "marks [] = []" "marks (c # tr) = (if is_mark c then c # marks tr else marks tr)"
  by (simp_all add: marks_def)

lemma marks_append [simp]: "marks (a @ b) = marks a @ marks b"
  by (simp add: marks_def)

lemma proc_child_only: "proc_child e p d w = (c, w') \<Longrightarrow> calls_only w w' \<and> marks (trace w') = marks (trace w)"
  unfolding proc_child_def
  by (auto simp: Let_def split_beta call_def calls_only_def split: option.splits if_splits)

text \<open>Killing only makes calls.\<close>

lemma kill_run_only: "kill_run e t w = Some w' \<Longrightarrow> calls_only w w'"
proof (induction rule: kill_run.raw_induct [rotated, consumes 1, case_names 1])
  case (1 f e t w w')
  note step = calls_only_trans [OF _ call_only]
  show ?case
  proof (cases t)
    case (KillTree p)
    let ?w1 = "snd (call e (S_opendir (ascii ''/proc'')) (snd (call e (S_kill p SIGSTOP) w)))"
    let ?r = "fst (call e (S_opendir (ascii ''/proc'')) (snd (call e (S_kill p SIGSTOP) w)))"
    let ?w2 = "snd (call e (S_popen (ascii ''ps axo pid,ppid'')) ?w1)"
    let ?s = "fst (call e (S_popen (ascii ''ps axo pid,ppid'')) ?w1)"
    have w1: "calls_only w ?w1" "calls_only w ?w2" by (intro step call_only)+
    from 1(2) [unfolded KillTree kill_task.case Let_def split_beta] obtain w3 where w': "w' = snd (call e (S_kill p SIGKILL) w3)" and w3:
      "(if ret ?r \<ge> 0 then do { w \<leftarrow> f e (ProcScan p (names ?r)) ?w1; Some (snd (call e S_closedir w)) }
        else if ret ?s \<ge> 0
        then do { w \<leftarrow> (case scan_header (payload ?s) of None \<Rightarrow> Some ?w2 | Some s \<Rightarrow> f e (PsScan p s) ?w2);
                  Some (snd (call e S_pclose w)) }
        else Some ?w2) = Some w3"
      by (auto simp: bind_eq_Some_conv)
    have "calls_only w w3"
    proof (cases "ret ?r \<ge> 0")
      case True
      with w3 obtain v where v: "f e (ProcScan p (names ?r)) ?w1 = Some v" "w3 = snd (call e S_closedir v)"
        by (auto simp: bind_eq_Some_conv)
      show ?thesis unfolding v(2) by (rule step, rule calls_only_trans [OF w1(1) 1(1) [OF v(1)]])
    next
      case no_proc: False
      show ?thesis
      proof (cases "ret ?s \<ge> 0")
        case False
        with w3 no_proc w1(2) show ?thesis by simp
      next
        case True
        with w3 no_proc obtain v where v: "w3 = snd (call e S_pclose v)"
          "(case scan_header (payload ?s) of None \<Rightarrow> Some ?w2 | Some s \<Rightarrow> f e (PsScan p s) ?w2) = Some v"
          by (auto simp: bind_eq_Some_conv)
        have "calls_only ?w2 v" using v(2) 1(1) by (cases "scan_header (payload ?s)") auto
        then show ?thesis unfolding v(1) by (rule step [OF calls_only_trans [OF w1(2)]])
      qed
    qed
    then show ?thesis unfolding w' by (rule step)
  next
    case (ProcScan p ds)
    show ?thesis
    proof (cases ds)
      case Nil
      with 1(2) ProcScan show ?thesis by simp
    next
      case (Cons d ds')
      obtain c w1 where c: "proc_child e p d w = (c, w1)" by fastforce
      with 1(2) ProcScan Cons obtain w2 where w2:
        "(case c of None \<Rightarrow> Some w1 | Some pid \<Rightarrow> f e (KillTree pid) w1) = Some w2" "f e (ProcScan p ds') w2 = Some w'"
        by (auto simp: bind_eq_Some_conv)
      have "calls_only w1 w2" using w2(1) 1(1) by (cases c) auto
      then show ?thesis
        using proc_child_only [OF c] 1(1) [OF w2(2)] by (metis calls_only_trans)
    qed
  next
    case (PsScan p s)
    show ?thesis
    proof (cases "scan_pair s")
      case None
      with 1(2) PsScan show ?thesis by simp
    next
      case (Some a)
      obtain pid ppid s' where a: "a = (pid, ppid, s')" by (cases a)
      with 1(2) PsScan Some obtain w2 where w2:
        "(if ppid = p then f e (KillTree pid) w else Some w) = Some w2" "f e (PsScan p s') w2 = Some w'"
        by (auto simp: bind_eq_Some_conv)
      have "calls_only w w2" using w2(1) 1(1) by (cases "ppid = p") auto
      then show ?thesis by (rule calls_only_trans [OF _ 1(1) [OF w2(2)]])
    qed
  qed
qed

lemma Kill_only: "kwsysProcessKill e p w = Some w' \<Longrightarrow> calls_only w w'"
  unfolding kwsysProcessKill_def by (rule kill_run_only)

lemma calls_only_suffix: "calls_only w w' \<Longrightarrow> suffix (trace w) (trace w')"
  by (auto simp: calls_only_def suffix_def)

text \<open>
  A process of the tree in the calls \<open>fin\<close>: it was stopped after \<open>tr\<close>, everything that stayed its child is
  among its children \<open>cs\<close>, and nothing is that was never seen as its child.
\<close>

definition children_found :: "env \<Rightarrow> syscall list \<Rightarrow> int \<times> syscall list \<times> int list \<Rightarrow> bool" where
  "children_found e fin = (\<lambda>(p, tr, cs). suffix (S_kill p SIGSTOP # tr) fin
     \<and> {c. stays_child e p tr c} \<subseteq> set cs \<and> set cs \<subseteq> {c. \<exists>tr'. child_seen e p tr c tr'})"

lemma children_found_mono: "children_found e a n \<Longrightarrow> suffix a b \<Longrightarrow> children_found e b n"
  unfolding children_found_def split_beta using suffix_order.trans by blast

definition killed_tree :: "env \<Rightarrow> world \<Rightarrow> ptree \<Rightarrow> world \<Rightarrow> bool" where
  "killed_tree e w t w' \<longleftrightarrow> stopped_after t = trace w \<and> calls_only w w'
     \<and> marks (trace w') = rev (kill_seq t) @ marks (trace w) \<and> list_all (children_found e (trace w')) (nodes t)"

definition killed_trees :: "env \<Rightarrow> world \<Rightarrow> ptree list \<Rightarrow> world \<Rightarrow> bool" where
  "killed_trees e w ts w' \<longleftrightarrow> calls_only w w' \<and> marks (trace w') = rev (concat (map kill_seq ts)) @ marks (trace w)
     \<and> list_all (children_found e (trace w')) (concat (map nodes ts))"

text \<open>Every child that is seen is killed with its tree.\<close>

definition kills_children :: "env \<Rightarrow> int \<Rightarrow> syscall list \<Rightarrow> bool" where
  "kills_children e p tr \<longleftrightarrow> (\<forall>c w. child_seen e p tr c (trace w)
     \<longrightarrow> (\<exists>w' t. kill_run e (KillTree c) w = Some w' \<and> pid_of t = c \<and> killed_tree e w t w'))"

lemma killed_trees_Nil [simp]: "killed_trees e w [] w"
  by (simp add: killed_trees_def)

lemma killed_trees_Cons:
  assumes "calls_only w w1" and "marks (trace w1) = marks (trace w)" and "killed_tree e w1 t w2" and "killed_trees e w2 ts w3"
  shows "killed_trees e w (t # ts) w3"
proof -
  have "suffix (trace w2) (trace w3)" using assms(4) calls_only_suffix by (simp add: killed_trees_def)
  then have "list_all (children_found e (trace w3)) (nodes t)"
    using assms(3) children_found_mono by (auto simp: killed_tree_def list_all_iff)
  moreover have "calls_only w w3" using assms(1,3,4) by (metis calls_only_trans killed_tree_def killed_trees_def)
  ultimately show ?thesis using assms(2-4) by (simp add: killed_tree_def killed_trees_def)
qed

lemma killed_trees_skip:
  "calls_only w w1 \<Longrightarrow> marks (trace w1) = marks (trace w) \<Longrightarrow> killed_trees e w1 ts w2 \<Longrightarrow> killed_trees e w ts w2"
  unfolding killed_trees_def by (metis calls_only_trans)

lemma proc_scan_kills:
  assumes "kills_children e p tr" and "suffix (proc_listed p tr) (trace w)"
  shows "\<exists>w' ts. kill_run e (ProcScan p ds) w = Some w' \<and> killed_trees e w ts w'
    \<and> set (map pid_of ts) \<subseteq> {c. \<exists>tr'. child_seen e p tr c tr'}
    \<and> {c. \<exists>d\<in>set ds. \<forall>w. suffix (proc_listed p tr) (trace w) \<longrightarrow> fst (proc_child e p d w) = Some c} \<subseteq> set (map pid_of ts)"
  using assms(2)
proof (induction ds arbitrary: w)
  case Nil
  show ?case by (subst kill_run.simps) (auto intro!: exI [of _ "[]"])
next
  case (Cons d ds)
  let ?all = "\<lambda>d c. \<forall>w. suffix (proc_listed p tr) (trace w) \<longrightarrow> fst (proc_child e p d w) = Some c"
  obtain c w1 where c: "proc_child e p d w = (c, w1)" by fastforce
  note w1 = proc_child_only [OF c]
  have s1: "suffix (proc_listed p tr) (trace w1)"
    using Cons.prems calls_only_suffix w1 suffix_order.trans by blast
  have d: "?all d x \<Longrightarrow> c = Some x" for x using Cons.prems c by fastforce
  show ?case
  proof (cases c)
    case None
    from Cons.IH [OF s1] obtain w' ts where r: "kill_run e (ProcScan p ds) w1 = Some w'" "killed_trees e w1 ts w'"
      "set (map pid_of ts) \<subseteq> {c. \<exists>tr'. child_seen e p tr c tr'}" "{c. \<exists>d\<in>set ds. ?all d c} \<subseteq> set (map pid_of ts)" by blast
    have "kill_run e (ProcScan p (d # ds)) w = Some w'" using c None r(1) by (subst kill_run.simps) simp
    moreover have "killed_trees e w ts w'" using killed_trees_skip r(2) w1 by blast
    moreover have "{c. \<exists>d\<in>set (d # ds). ?all d c} \<subseteq> set (map pid_of ts)" using d None r(4) by fastforce
    ultimately show ?thesis using r(3) by blast
  next
    case (Some q)
    have seen: "child_seen e p tr q (trace w1)" using child_seen.in_proc [OF Cons.prems] c Some by simp
    then obtain w2 t where t: "kill_run e (KillTree q) w1 = Some w2" "pid_of t = q" "killed_tree e w1 t w2"
      using assms(1) unfolding kills_children_def by blast
    have "suffix (proc_listed p tr) (trace w2)"
      using t(3) s1 calls_only_suffix suffix_order.trans unfolding killed_tree_def by blast
    from Cons.IH [OF this] obtain w' ts where r: "kill_run e (ProcScan p ds) w2 = Some w'" "killed_trees e w2 ts w'"
      "set (map pid_of ts) \<subseteq> {c. \<exists>tr'. child_seen e p tr c tr'}" "{c. \<exists>d\<in>set ds. ?all d c} \<subseteq> set (map pid_of ts)" by blast
    have "kill_run e (ProcScan p (d # ds)) w = Some w'" using c Some t(1) r(1) by (subst kill_run.simps) simp
    moreover have "killed_trees e w (t # ts) w'" using killed_trees_Cons w1 t(3) r(2) by blast
    moreover have "{c. \<exists>d\<in>set (d # ds). ?all d c} \<subseteq> set (map pid_of (t # ts))" using d Some r(4) t(2) by fastforce
    moreover have "set (map pid_of (t # ts)) \<subseteq> {c. \<exists>tr'. child_seen e p tr c tr'}" using seen t(2) r(3) by auto
    ultimately show ?thesis by blast
  qed
qed

lemma ps_scan_kills:
  assumes "kills_children e p tr" and "scan_header (payload (sys e (ps_listed p tr))) = Some s0"
    and "set (ps_pairs s) \<subseteq> set (ps_pairs s0)" and "suffix (ps_listed p tr) (trace w)"
  shows "\<exists>w' ts. kill_run e (PsScan p s) w = Some w' \<and> killed_trees e w ts w'
    \<and> set (map pid_of ts) \<subseteq> {c. \<exists>tr'. child_seen e p tr c tr'} \<and> {c. (c, p) \<in> set (ps_pairs s)} \<subseteq> set (map pid_of ts)"
  using assms(3,4)
proof (induction s arbitrary: w rule: ps_pairs.induct)
  case (1 s)
  show ?case
  proof (cases "scan_pair s")
    case None
    then have "ps_pairs s = []" by (subst ps_pairs.simps) simp
    with None show ?thesis by (subst kill_run.simps) (auto intro!: exI [of _ "[]"])
  next
    case (Some x)
    obtain c q s' where x: "x = (c, q, s')" by (cases x)
    have pairs: "ps_pairs s = (c, q) # ps_pairs s'" using Some x by (subst ps_pairs.simps) simp
    note IH = 1(1) [OF Some x [symmetric] refl]
    have sub: "set (ps_pairs s') \<subseteq> set (ps_pairs s0)" using 1(2) pairs by auto
    show ?thesis
    proof (cases "q = p")
      case False
      from IH [OF sub 1(3)] obtain w' ts where r: "kill_run e (PsScan p s') w = Some w'" "killed_trees e w ts w'"
        "set (map pid_of ts) \<subseteq> {c. \<exists>tr'. child_seen e p tr c tr'}" "{c. (c, p) \<in> set (ps_pairs s')} \<subseteq> set (map pid_of ts)" by blast
      have "kill_run e (PsScan p s) w = Some w'" using Some x False r(1) by (subst kill_run.simps) simp
      with r pairs False show ?thesis by auto
    next
      case True
      have seen: "child_seen e p tr c (trace w)"
        by (rule child_seen.in_ps [OF assms(2) _ 1(3)]) (use 1(2) pairs True in auto)
      then obtain w2 t where t: "kill_run e (KillTree c) w = Some w2" "pid_of t = c" "killed_tree e w t w2"
        using assms(1) unfolding kills_children_def by blast
      have "suffix (ps_listed p tr) (trace w2)"
        using t(3) 1(3) calls_only_suffix suffix_order.trans unfolding killed_tree_def by blast
      from IH [OF sub this] obtain w' ts where r: "kill_run e (PsScan p s') w2 = Some w'" "killed_trees e w2 ts w'"
        "set (map pid_of ts) \<subseteq> {c. \<exists>tr'. child_seen e p tr c tr'}" "{c. (c, p) \<in> set (ps_pairs s')} \<subseteq> set (map pid_of ts)" by blast
      have "kill_run e (PsScan p s) w = Some w'" using Some x True t(1) r(1) by (subst kill_run.simps) simp
      moreover have "killed_trees e w (t # ts) w'" by (rule killed_trees_Cons [OF calls_only_refl refl t(3) r(2)])
      moreover have "{c. (c, p) \<in> set (ps_pairs s)} \<subseteq> set (map pid_of (t # ts))" using r(4) pairs t(2) by auto
      moreover have "set (map pid_of (t # ts)) \<subseteq> {c. \<exists>tr'. child_seen e p tr c tr'}" using seen t(2) r(3) by auto
      ultimately show ?thesis by blast
    qed
  qed
qed

text \<open>The search for the children of a process that has been stopped.\<close>

lemma search_kills:
  assumes "kills_children e p tr" and "trace w = proc_listed p tr" and "r = sys e (trace w)"
  shows "\<exists>w' ts. (if ret r \<ge> 0
        then do { w \<leftarrow> kill_run e (ProcScan p (names r)) w; Some (snd (call e S_closedir w)) }
        else let (r, w) = call e (S_popen (ascii ''ps axo pid,ppid'')) w
             in if ret r \<ge> 0
                then do { w \<leftarrow> (case scan_header (payload r) of None \<Rightarrow> Some w | Some s \<Rightarrow> kill_run e (PsScan p s) w);
                          Some (snd (call e S_pclose w)) }
                else Some w) = Some w'
    \<and> killed_trees e w ts w' \<and> set (map pid_of ts) \<subseteq> {c. \<exists>tr'. child_seen e p tr c tr'}
    \<and> {c. stays_child e p tr c} \<subseteq> set (map pid_of ts)"
proof -
  have close: "killed_trees e w ts (snd (call e x v))" if "killed_trees e w ts v" "\<not> is_mark x" for ts x v
  proof -
    have "list_all (children_found e (trace (snd (call e x v)))) (concat (map nodes ts))"
      using that(1) children_found_mono [OF _ calls_only_suffix [OF call_only [of v e x]]]
      by (auto simp: killed_trees_def list_all_iff)
    then show ?thesis using that calls_only_trans [OF _ call_only] by (simp add: killed_trees_def call_trace)
  qed
  show ?thesis
  proof (cases "ret r \<ge> 0")
    case True
    have "suffix (proc_listed p tr) (trace w)" using assms(2) by simp
    from proc_scan_kills [OF assms(1) this, of "names r"] obtain v ts where
      v: "kill_run e (ProcScan p (names r)) w = Some v" "killed_trees e w ts v"
      "set (map pid_of ts) \<subseteq> {c. \<exists>tr'. child_seen e p tr c tr'}"
      "{c. \<exists>d\<in>set (names r). \<forall>w. suffix (proc_listed p tr) (trace w) \<longrightarrow> fst (proc_child e p d w) = Some c} \<subseteq> set (map pid_of ts)"
      by blast
    have "{c. stays_child e p tr c} \<subseteq> set (map pid_of ts)"
      using v(4) True assms(2,3) by (simp add: stays_child_def Let_def)
    with True v(1,3) close [OF v(2), of S_closedir] show ?thesis by auto
  next
    case False
    obtain q w1 where c: "call e (S_popen (ascii ''ps axo pid,ppid'')) w = (q, w1)" by fastforce
    have w1: "trace w1 = ps_listed p tr" "calls_only w w1" "q = sys e (ps_listed p tr)" "marks (trace w1) = marks (trace w)"
      using call_only [of w e "S_popen (ascii ''ps axo pid,ppid'')"] call_reply [of e "S_popen (ascii ''ps axo pid,ppid'')" w]
        call_trace [of e "S_popen (ascii ''ps axo pid,ppid'')" w] assms(2)
      by (simp_all add: c ps_listed_def)
    have stays: "stays_child e p tr c \<longleftrightarrow> 0 \<le> ret q \<and> (\<exists>s. scan_header (payload q) = Some s \<and> (c, p) \<in> set (ps_pairs s))" for c
      using False assms(2,3) w1(3) by (simp add: stays_child_def Let_def)
    have skip: "killed_trees e w [] w1" using killed_trees_skip [OF w1(2,4)] killed_trees_Nil by blast
    consider (none) "ret q < 0" | (empty) "ret q \<ge> 0" "scan_header (payload q) = None"
      | (lines) s where "ret q \<ge> 0" "scan_header (payload q) = Some s" by fastforce
    then show ?thesis
    proof cases
      case none
      with False c stays skip show ?thesis by (auto intro!: exI [of _ "[]"])
    next
      case empty
      with False c stays close [OF skip, of S_pclose] show ?thesis by (auto intro!: exI [of _ "[]"])
    next
      case lines
      have "suffix (ps_listed p tr) (trace w1)" by (simp add: w1(1))
      from ps_scan_kills [OF assms(1) lines(2) [unfolded w1(3)] subset_refl this] obtain v ts where
        v: "kill_run e (PsScan p s) w1 = Some v" "killed_trees e w1 ts v"
        "set (map pid_of ts) \<subseteq> {c. \<exists>tr'. child_seen e p tr c tr'}" "{c. (c, p) \<in> set (ps_pairs s)} \<subseteq> set (map pid_of ts)" by blast
      have "killed_trees e w ts v" by (rule killed_trees_skip [OF w1(2,4) v(2)])
      from close [OF this, of S_pclose] False c lines v stays show ?thesis by auto
    qed
  qed
qed

lemma tree_killed:
  assumes "finite_trees e"
  shows "\<exists>w' t. kill_run e (KillTree p) w = Some w' \<and> pid_of t = p \<and> killed_tree e w t w'"
proof -
  have "\<forall>w :: world. trace w = snd x \<longrightarrow> (\<exists>w' t. kill_run e (KillTree (fst x)) w = Some w' \<and> pid_of t = fst x \<and> killed_tree e w t w')" for x
  proof (induction x rule: wf_induct_rule [OF assms [unfolded finite_trees_def]])
    case (1 x)
    obtain p tr where x: "x = (p, tr)" by (cases x)
    have kc: "kills_children e p tr" unfolding kills_children_def using 1 x by auto
    show ?case
    proof (intro allI impI)
      fix w :: world
      assume "trace w = snd x"
      then have tr: "trace w = tr" by (simp add: x)
      obtain r w1 where c: "call e (S_opendir (ascii ''/proc'')) (snd (call e (S_kill p SIGSTOP) w)) = (r, w1)" by fastforce
      have w1: "trace w1 = proc_listed p tr" "r = sys e (trace w1)" "calls_only w w1"
        using call_trace [of e "S_opendir (ascii ''/proc'')" "snd (call e (S_kill p SIGSTOP) w)"] tr
          call_reply [of e "S_opendir (ascii ''/proc'')" "snd (call e (S_kill p SIGSTOP) w)"]
          calls_only_trans [OF call_only [of w e "S_kill p SIGSTOP"] call_only [of _ e "S_opendir (ascii ''/proc'')"]]
        by (simp_all add: c call_trace proc_listed_def)
      obtain w2 ts where s: "(if ret r \<ge> 0
          then do { w \<leftarrow> kill_run e (ProcScan p (names r)) w1; Some (snd (call e S_closedir w)) }
          else let (r, w) = call e (S_popen (ascii ''ps axo pid,ppid'')) w1
               in if ret r \<ge> 0
                  then do { w \<leftarrow> (case scan_header (payload r) of None \<Rightarrow> Some w | Some s \<Rightarrow> kill_run e (PsScan p s) w);
                            Some (snd (call e S_pclose w)) }
                  else Some w) = Some w2" and k: "killed_trees e w1 ts w2"
        and ts: "set (map pid_of ts) \<subseteq> {c. \<exists>tr'. child_seen e p tr c tr'}" "{c. stays_child e p tr c} \<subseteq> set (map pid_of ts)"
        using search_kills [OF kc w1(1,2)] by blast
      let ?w' = "snd (call e (S_kill p SIGKILL) w2)" and ?t = "Proc p tr ts"
      have run: "kill_run e (KillTree p) w = Some ?w'"
        by (subst kill_run.simps)
          (simp only: kill_task.case Let_def split_beta c fst_conv snd_conv s [unfolded Let_def split_beta] Option.bind.bind_lunit)
      have only: "calls_only w ?w'" and end': "suffix (trace w2) (trace ?w')"
        using w1(3) k calls_only_trans call_only calls_only_suffix unfolding killed_trees_def by metis+
      have "suffix (S_kill p SIGSTOP # tr) (trace w1)" by (simp add: w1(1) proc_listed_def suffix_ConsI)
      moreover have "suffix (trace w1) (trace w2)" using k calls_only_suffix by (simp add: killed_trees_def)
      ultimately have "children_found e (trace ?w') (p, tr, map pid_of ts)"
        using ts end' suffix_order.trans by (auto simp: children_found_def)
      moreover have "list_all (children_found e (trace ?w')) (concat (map nodes ts))"
        using k children_found_mono [OF _ end'] by (auto simp: killed_trees_def list_all_iff)
      moreover have "marks (trace ?w') = rev (kill_seq ?t) @ marks tr"
        using k w1(1) by (simp add: killed_trees_def call_trace proc_listed_def)
      ultimately have "killed_tree e w ?t ?w'" using only tr by (simp add: killed_tree_def)
      with run x show "\<exists>w' t. kill_run e (KillTree (fst x)) w = Some w' \<and> pid_of t = fst x \<and> killed_tree e w t w'"
        by (intro exI [of _ ?w'] exI [of _ ?t]) simp
    qed
  qed
  from this [of "(p, trace w)"] show ?thesis by simp
qed

lemma Kill_returns: "finite_trees e \<Longrightarrow> returns (kwsysProcessKill e p w) (calls_only w)"
  using tree_killed [of e p w] unfolding killed_tree_def kwsysProcessKill_def returns_def by blast

text \<open>C29. Killing a process kills its whole tree, however the answers of \<open>/proc\<close> and \<open>ps\<close> change meanwhile: there is a tree
  such that the signals and the looks for children are, for each of its processes, first the SIGSTOP, then the look for
  its children, then those for the children, one after the other, and last the SIGKILL.  The children in the tree
  are processes that the system showed as such, and all those that it showed whenever it was asked.  That no process
  has an endless line of descendants, which is the hypothesis, makes this end.\<close>

theorem Kill_kills_tree:
  assumes "finite_trees e"
  shows "\<exists>w' t. kwsysProcessKill e p w = Some w' \<and> calls_only w w' \<and> pid_of t = p \<and> stopped_after t = trace w
    \<and> marks (trace w') = rev (kill_seq t) @ marks (trace w)
    \<and> list_all (\<lambda>(q, tr, cs). suffix (S_kill q SIGSTOP # tr) (trace w')
        \<and> {c. stays_child e q tr c} \<subseteq> set cs \<and> set cs \<subseteq> {c. \<exists>tr'. child_seen e q tr c tr'}) (nodes t)"
  using tree_killed [OF assms, of p w] unfolding killed_tree_def kwsysProcessKill_def children_found_def by blast

text \<open>A \<open>/proc\<close> for the examples: process 8 is a child of process 7.\<close>

definition proc_env :: env where
  "proc_env = \<lparr>sys = (\<lambda>tr. \<lparr>ret = 0, err = 0, fds = (3, 4),
     payload = (case tr of S_fread _ # S_fopen f # _ \<Rightarrow>
        if f = ascii ''/proc/8/stat'' then ascii ''8 (a b) S 7 '' else if f = ascii ''/proc/7/stat'' then ascii ''7 (x) S 1 '' else []
      | _ \<Rightarrow> []),
     status = 0, ready = {}, rest_time = None, old_mask = {}, old_action = default_action,
     clock = (0, 0), names = [ascii ''7'', ascii ''self'', ascii ''8'']\<rparr>), alloc_ok = \<lambda>_ _. True,
     strerror = \<lambda>_. lit ''error''\<rparr>"

definition stat_file :: "int \<Rightarrow> byte list" where
  "stat_file pid = ascii ''/proc/'' @ int_chars pid @ ascii ''/stat''"

lemma proc_env_child:
  "fst (proc_child proc_env p d w) = (case scan_int d of None \<Rightarrow> None | Some (pid, _) \<Rightarrow>
     if pid \<noteq> 0 \<and> (stat_file pid = ascii ''/proc/8/stat'' \<and> p = 7
         \<or> stat_file pid \<noteq> ascii ''/proc/8/stat'' \<and> stat_file pid = ascii ''/proc/7/stat'' \<and> p = 1)
     then Some pid else None)"
proof -
  have "takeWhile (\<lambda>c. c \<noteq> 0) (take 1024 (ascii ''8 (a b) S 7 '')) = ascii ''8 (a b) S 7 ''"
    "takeWhile (\<lambda>c. c \<noteq> 0) (take 1024 (ascii ''7 (x) S 1 '')) = ascii ''7 (x) S 1 ''"
    "ascii ''8 (a b) S 7 '' \<noteq> []" "ascii ''7 (x) S 1 '' \<noteq> []"
    by (simp_all add: ascii_def)
  moreover have "Option.bind (after_last 0x29 (ascii ''8 (a b) S 7 '')) scan_word_int = Some 7"
    "Option.bind (after_last 0x29 (ascii ''7 (x) S 1 '')) scan_word_int = Some 1" by code_simp+
  ultimately show ?thesis
    by (simp add: proc_child_def proc_env_def call_def Let_def stat_file_def split: option.split)
qed

lemma proc_env_finite: "finite_trees proc_env"
proof -
  let ?rank = "\<lambda>(pid, tr :: syscall list). if stat_file pid = ascii ''/proc/8/stat'' then 0
    else if stat_file pid = ascii ''/proc/7/stat'' then 1 else 2 :: nat"
  have "stat_file 7 = ascii ''/proc/7/stat''" "stat_file 1 = ascii ''/proc/1/stat''" by (simp_all add: stat_file_def ascii_def, code_simp+)
  then have r: "?rank (7, tr) = 1" "?rank (1, tr) = 2" for tr by (simp_all add: ascii_def)
  have "?rank (c, tr') < ?rank (p, tr)" if "child_seen proc_env p tr c tr'" for c tr' p tr
    using that
  proof cases
    case (in_proc w d w')
    then have "fst (proc_child proc_env p d w) = Some c" by simp
    then have "stat_file c = ascii ''/proc/8/stat'' \<and> p = 7
        \<or> stat_file c \<noteq> ascii ''/proc/8/stat'' \<and> stat_file c = ascii ''/proc/7/stat'' \<and> p = 1"
      unfolding proc_env_child by (auto split: option.splits if_splits)
    then show ?thesis using r by auto
  next
    case (in_ps s)
    then show ?thesis by (simp add: proc_env_def ps_listed_def scan_header_def)
  qed
  then show ?thesis
    unfolding finite_trees_def by (intro wf_subset [OF wf_measure [of ?rank]]) auto
qed

text \<open>Process 8 is stopped and killed after process 7 has been stopped and before it is killed.\<close>

theorem Kill_kills_tree_witness:
  "\<exists>w' ts. kwsysProcessKill proc_env 7 example_world = Some w' \<and> calls_only example_world w' \<and> 8 \<in> set (map pid_of ts)
    \<and> marks (trace w') = rev ([S_kill 7 SIGSTOP, S_opendir (ascii ''/proc'')] @ concat (map kill_seq ts) @ [S_kill 7 SIGKILL])"
proof -
  obtain w' t where k: "kwsysProcessKill proc_env 7 example_world = Some w'" "calls_only example_world w'"
    "pid_of t = 7" "stopped_after t = trace example_world" "marks (trace w') = rev (kill_seq t) @ marks (trace example_world)"
    "list_all (\<lambda>(q, tr, cs). suffix (S_kill q SIGSTOP # tr) (trace w')
        \<and> {c. stays_child proc_env q tr c} \<subseteq> set cs \<and> set cs \<subseteq> {c. \<exists>tr'. child_seen proc_env q tr c tr'}) (nodes t)"
    using Kill_kills_tree [OF proc_env_finite, of 7 example_world] by blast
  obtain ts where t: "t = Proc 7 [] ts" using k(3,4) by (cases t) (simp add: example_world_def)
  have "fst (proc_child proc_env 7 (ascii ''8'') w) = Some 8" for w
  proof -
    have "scan_int (ascii ''8'') = Some (8, [])" "stat_file 8 = ascii ''/proc/8/stat''" by code_simp+
    then show ?thesis unfolding proc_env_child by simp
  qed
  then have "stays_child proc_env 7 [] 8"
    by (auto simp: stays_child_def proc_env_def)
  then have "8 \<in> set (map pid_of ts)" using k(6) unfolding t by auto
  with k(1,2,5) show ?thesis unfolding t by (auto simp: example_world_def)
qed

end
