(* ===== verification/ProcessExecute.thy ===== *)
theory ProcessExecute
  imports ProcessKill
begin

text \<open>
  Starting the pipeline: \<open>kwsysProcessInitialize\<close>, \<open>kwsysProcessCleanup\<close>, \<open>kwsysProcessClosePipes\<close>,
  \<open>kwsysProcessCreate\<close>, the setup of the output pipes and \<open>kwsysProcess_Execute\<close> of
  \<^verbatim>\<open>kwsys/ProcessUNIX.c\<close>.  The stages of \<open>kwsysProcess_Execute\<close> report whether the code goes on;
  when they do not, it cleans up and returns.  \<open>fork\<close> answering 0 is the child, whose code is
  part of the same definitions and ends the process.
\<close>

section \<open>Initialisation\<close>

definition MAXPATHLEN :: nat where "MAXPATHLEN = 4096"
definition SIZEOF_kwsysProcessResults :: nat where "SIZEOF_kwsysProcessResults = 1044"

definition initial_results :: kwsysProcessResults where
  "initial_results =
     \<lparr>rState = State_Starting, ExitException = Exception_None, ExitCode = 1, ExitValue = 1,
      ExitExceptionString = lit ''No exception'' @
        replicate (KWSYSPE_PIPE_BUFFER_SIZE + 1 - length (lit ''No exception'')) 0\<rparr>"

definition reset_fields :: "kwsysProcess \<Rightarrow> kwsysProcess" where
  "reset_fields cp =
     cp\<lparr>PipeReadEnds := (\<lambda>_. -1), PipeChildStd := (\<lambda>_. -1), SignalPipe := -1, SelectError := False,
        StartTime := Time (-1) (-1), TimeoutTime := Time (-1) (-1), TimeoutExpired := False,
        PipesLeft := 0, CommandsLeft := 0, PipeSet := {}, State := State_Starting, Killed := False,
        ErrorMessage := (ErrorMessage cp)[0 := 0]\<rparr>"

text \<open>
  The early returns of the code: the stages in order; the first that fails is the last.  A stage
  works on the structure and on the heap or the world.
\<close>

type_synonym 's stage = "kwsysProcess \<Rightarrow> 's \<Rightarrow> (bool \<times> kwsysProcess \<times> 's) option"

fun run_stages :: "'s stage list \<Rightarrow> 's stage" where
  "run_stages [] cp w = Some (True, cp, w)"
| "run_stages (s # ss) cp w =
     do { (ok, cp, w) \<leftarrow> s cp w; if ok then run_stages ss cp w else Some (False, cp, w) }"

definition alloc_pids :: "env \<Rightarrow> heap stage" where
  "alloc_pids e cp h =
     (let oldForkPIDs = ForkPIDs cp; (p, h) = malloc (alloc_ok e) (4 * NumberOfCommands cp) h
      in do { h \<leftarrow> free_array oldForkPIDs h;
              Some (p \<noteq> None, cp\<lparr>ForkPIDs := map_option (\<lambda>b. (b, replicate (NumberOfCommands cp) 0)) p\<rparr>, h) })"

definition alloc_codes :: "env \<Rightarrow> heap stage" where
  "alloc_codes e cp h =
     do { h \<leftarrow> free_array (CommandExitCodes cp) h;
          let (p, h) = malloc (alloc_ok e) (4 * NumberOfCommands cp) h;
          Some (p \<noteq> None, cp\<lparr>CommandExitCodes := map_option (\<lambda>b. (b, replicate (NumberOfCommands cp) 0)) p\<rparr>, h) }"

definition alloc_results :: "env \<Rightarrow> heap stage" where
  "alloc_results e cp h =
     do { h \<leftarrow> free_array (ProcessResults cp) h;
          let (p, h) = malloc (alloc_ok e) (SIZEOF_kwsysProcessResults * NumberOfCommands cp) h;
          Some (p \<noteq> None,
                cp\<lparr>ProcessResults := map_option (\<lambda>b. (b, replicate (NumberOfCommands cp) initial_results)) p\<rparr>, h) }"

text \<open>The contents of the new working directory buffer are not initialised: it has no string yet.\<close>

definition alloc_directory :: "env \<Rightarrow> heap stage" where
  "alloc_directory e cp h =
     (if WorkingDirectory cp = None then Some (True, cp, h)
      else let (p, h) = malloc (alloc_ok e) MAXPATHLEN h
           in Some (p \<noteq> None, cp\<lparr>RealWorkingDirectory := map_option (\<lambda>b. (b, [])) p\<rparr>, h))"

definition kwsysProcessInitialize :: "env \<Rightarrow> heap stage" where
  "kwsysProcessInitialize e cp h =
     run_stages [alloc_pids e, alloc_codes e, alloc_results e, alloc_directory e] (reset_fields cp) h"

section \<open>Cleanup\<close>

text \<open>The loop over the children: kill and reap those still there.\<close>

fun kill_children :: "env \<Rightarrow> int list \<Rightarrow> world \<Rightarrow> world option" where
  "kill_children e [] w = Some w"
| "kill_children e (pid # pids) w =
     do { w \<leftarrow> (if pid \<noteq> 0
                then do { w \<leftarrow> kwsysProcessKill e pid w; (_, w) \<leftarrow> retry e (S_waitpid pid False) w; Some w }
                else Some w);
          kill_children e pids w }"

text \<open>\<open>kwsysProcessCleanupDescriptor\<close> on the elements of an array.\<close>

fun cleanup_descriptors :: "env \<Rightarrow> nat list \<Rightarrow> (nat \<Rightarrow> int) \<Rightarrow> world \<Rightarrow> ((nat \<Rightarrow> int) \<times> world) option" where
  "cleanup_descriptors e [] f w = Some (f, w)"
| "cleanup_descriptors e (i # is) f w =
     do { (fd, w) \<leftarrow> kwsysProcessCleanupDescriptor e (f i) w; cleanup_descriptors e is (f(i := fd)) w }"

text \<open>\<open>while ((chdir (dir) < 0) && (errno == EINTR)) {}\<close>\<close>

definition chdir_loop :: "env \<Rightarrow> cstr \<Rightarrow> world \<Rightarrow> (reply \<times> world) option" where
  "chdir_loop e dir w = do { str \<leftarrow> c_string (snd dir); retry e (S_chdir str) w }"

text \<open>The part for an error: the message, the state, the children and the directory.\<close>

definition cleanup_error :: "env \<Rightarrow> kwsysProcess \<Rightarrow> world \<Rightarrow> (kwsysProcess \<times> world) option" where
  "cleanup_error e cp w =
     do { msg \<leftarrow> (if ErrorMessage cp ! 0 = 0
                  then strncpy (ErrorMessage cp) (strerror e (errno w)) KWSYSPE_PIPE_BUFFER_SIZE
                  else Some (ErrorMessage cp));
          let cp = cp\<lparr>ErrorMessage := msg, State := State_Error\<rparr>;
          w \<leftarrow> (case ForkPIDs cp of
                 None \<Rightarrow> Some w
               | Some (_, pids) \<Rightarrow> do { pids \<leftarrow> mem_read pids 0 (NumberOfCommands cp); kill_children e pids w });
          w \<leftarrow> (case RealWorkingDirectory cp of
                 None \<Rightarrow> Some w
               | Some dir \<Rightarrow> do { (_, w) \<leftarrow> chdir_loop e dir w; Some w });
          Some (cp, w) }"

text \<open>The memory and the descriptors of the run.\<close>

definition cleanup_resources :: "env \<Rightarrow> kwsysProcess \<Rightarrow> world \<Rightarrow> (kwsysProcess \<times> world) option" where
  "cleanup_resources e cp w =
     do { h \<leftarrow> free_array (ForkPIDs cp) (heap w);
          h \<leftarrow> free_array (RealWorkingDirectory cp) h;
          let cp = cp\<lparr>ForkPIDs := None, RealWorkingDirectory := None\<rparr>;
          let w = w\<lparr>heap := h\<rparr>;
          (f, w) \<leftarrow> cleanup_descriptors e [0..<KWSYSPE_PIPE_COUNT] (PipeReadEnds cp) w;
          let cp = cp\<lparr>PipeReadEnds := f\<rparr>;
          (f, w) \<leftarrow> cleanup_descriptors e [0..<3] (PipeChildStd cp) w;
          Some (cp\<lparr>PipeChildStd := f\<rparr>, w) }"

definition kwsysProcessCleanup :: "env \<Rightarrow> kwsysProcess \<Rightarrow> bool \<Rightarrow> world \<Rightarrow> (kwsysProcess \<times> world) option" where
  "kwsysProcessCleanup e cp error w =
     do { (cp, w) \<leftarrow> (if error then cleanup_error e cp w else Some (cp, w));
          (cp, w) \<leftarrow> (if OptionDetach cp = 0 then kwsysProcessesRemove e cp w else Some (cp, w));
          cleanup_resources e cp w }"

section \<open>Creating one child\<close>

definition close_both :: "env \<Rightarrow> int \<times> int \<Rightarrow> world \<Rightarrow> ((int \<times> int) \<times> world) option" where
  "close_both e p w =
     do { (a, w) \<leftarrow> kwsysProcessCleanupDescriptor e (fst p) w;
          (b, w) \<leftarrow> kwsysProcessCleanupDescriptor e (snd p) w;
          Some ((a, b), w) }"

text \<open>\<open>while ((readRes = read (fd, &tmp, 1)) > 0) {}\<close>: the last result.\<close>

partial_function (option) pgid_wait :: "env \<Rightarrow> int \<Rightarrow> world \<Rightarrow> (int \<times> world) option" where
  "pgid_wait e fd w =
     (let (r, w) = call e (S_read fd 1) w
      in if ret r > 0 then pgid_wait e fd w else Some (ret r, w))"

text \<open>\<open>read\<close> into a buffer until it is not interrupted: the result and the buffer.\<close>

definition read_into :: "env \<Rightarrow> int \<Rightarrow> byte list \<Rightarrow> nat \<Rightarrow> nat \<Rightarrow> world \<Rightarrow> (int \<times> byte list \<times> world) option" where
  "read_into e fd buf off n w =
     do { (r, w) \<leftarrow> retry e (S_read fd n) w;
          buf \<leftarrow> (if ret r > 0 then mem_write buf off (take (nat (ret r)) (payload r)) else Some buf);
          Some (ret r, buf, w) }"

text \<open>The loop that reads the error message of the child: its length and the buffer.\<close>

partial_function (option) error_read ::
  "env \<Rightarrow> int \<Rightarrow> byte list \<Rightarrow> nat \<Rightarrow> world \<Rightarrow> (nat \<times> byte list \<times> world) option" where
  "error_read e fd msg len w =
     (if len < KWSYSPE_PIPE_BUFFER_SIZE
      then do { (n, msg, w) \<leftarrow> read_into e fd msg len (KWSYSPE_PIPE_BUFFER_SIZE - len) w;
                if n > 0 then error_read e fd msg (len + nat n) w else Some (len, msg, w) }
      else Some (len, msg, w))"

text \<open>The child between \<open>fork\<close> and \<open>exec\<close>; an \<open>exec\<close> that succeeds ends this program.\<close>

definition child_descriptors :: "env \<Rightarrow> kwsysProcessCreateInformation \<Rightarrow> int \<Rightarrow> world \<Rightarrow> world" where
  "child_descriptors e si pgid w =
     (let (_, w) = call e (S_close (fst (ErrorPipe si))) w;
          (_, w) = call e (S_close pgid) w;
          w = (if StdIn si > 0 then snd (call e (S_dup2 (StdIn si) 0) w)
               else if StdIn si < 0 then snd (call e (S_close 0) w) else w);
          w = (if StdOut si \<noteq> 1 then snd (call e (S_dup2 (StdOut si) 1) w) else w);
          w = (if StdErr si \<noteq> 2 then snd (call e (S_dup2 (StdErr si) 2) w) else w);
          (_, w) = call e (S_setfd 0 0) w;
          (_, w) = call e (S_setfd 1 0) w
      in snd (call e (S_setfd 2 0) w))"

definition child_exec ::
  "env \<Rightarrow> kwsysProcess \<Rightarrow> nat \<Rightarrow> kwsysProcessCreateInformation \<Rightarrow> int \<Rightarrow> int set \<Rightarrow> world \<Rightarrow> 'a outcome option" where
  "child_exec e cp prIndex si pgid oldmask w =
     (let w = child_descriptors e si pgid w;
          w = kwsysProcessRestoreDefaultSignalHandlers e w;
          (_, w) = call e (S_sigprocmask SIG_SETMASK oldmask) w;
          (fails, w) = (if CreateProcessGroup cp \<noteq> 0
                        then let (r, w) = call e S_setsid w in (ret r < 0, w) else (False, w))
      in if fails then kwsysProcessChildErrorExit e (snd (ErrorPipe si)) w
         else case Commands cp of
                None \<Rightarrow> None
              | Some (_, cs) \<Rightarrow>
                  if prIndex \<ge> length cs \<or> snd (cs ! prIndex) = [] then None
                  else let argv = map snd (snd (cs ! prIndex));
                           (r, w) = call e (S_execvp (hd argv) argv) w
                       in if ret r \<ge> 0 then Some (Exited w)
                          else kwsysProcessChildErrorExit e (snd (ErrorPipe si)) w)"

definition set_pid :: "kwsysProcess \<Rightarrow> nat \<Rightarrow> int \<Rightarrow> kwsysProcess option" where
  "set_pid cp i pid =
     (case ForkPIDs cp of
        None \<Rightarrow> None
      | Some (b, pids) \<Rightarrow> if i < length pids then Some (cp\<lparr>ForkPIDs := Some (b, pids[i := pid])\<rparr>) else None)"

text \<open>The parent after the fork: wait for the child to reach \<open>exec\<close>, or to report an error.\<close>

definition create_parent ::
  "env \<Rightarrow> kwsysProcess \<Rightarrow> kwsysProcessCreateInformation \<Rightarrow> int \<times> int \<Rightarrow> int set \<Rightarrow> world
     \<Rightarrow> (bool \<times> kwsysProcess \<times> kwsysProcessCreateInformation \<times> world) option" where
  "create_parent e cp si pgidPipe oldmask w =
     do { (b, w) \<leftarrow> kwsysProcessCleanupDescriptor e (snd (ErrorPipe si)) w;
          let si = si\<lparr>ErrorPipe := (fst (ErrorPipe si), b)\<rparr>;
          (_, w) \<leftarrow> kwsysProcessCleanupDescriptor e (snd pgidPipe) w;
          (readRes, w) \<leftarrow> pgid_wait e (fst pgidPipe) w;
          if readRes < 0
          then do { let (_, w) = call e (S_sigprocmask SIG_SETMASK oldmask) w;
                    (a, w) \<leftarrow> kwsysProcessCleanupDescriptor e (fst (ErrorPipe si)) w;
                    (_, w) \<leftarrow> kwsysProcessCleanupDescriptor e (fst pgidPipe) w;
                    Some (False, cp, si\<lparr>ErrorPipe := (a, b)\<rparr>, w) }
          else do { (_, w) \<leftarrow> kwsysProcessCleanupDescriptor e (fst pgidPipe) w;
                    let (r, w) = call e (S_sigprocmask SIG_SETMASK oldmask) w;
                    if ret r < 0
                    then do { (a, w) \<leftarrow> kwsysProcessCleanupDescriptor e (fst (ErrorPipe si)) w;
                              Some (False, cp, si\<lparr>ErrorPipe := (a, b)\<rparr>, w) }
                    else do { let cp = cp\<lparr>CommandsLeft := CommandsLeft cp + 1\<rparr>;
                              (len, msg, w) \<leftarrow> error_read e (fst (ErrorPipe si)) (ErrorMessage cp) 0 w;
                              (a, w) \<leftarrow> kwsysProcessCleanupDescriptor e (fst (ErrorPipe si)) w;
                              Some (len = 0, cp\<lparr>ErrorMessage := msg\<rparr>, si\<lparr>ErrorPipe := (a, b)\<rparr>, w) } } }"

text \<open>The fork, with the signals blocked.\<close>

definition create_fork ::
  "env \<Rightarrow> kwsysProcess \<Rightarrow> nat \<Rightarrow> kwsysProcessCreateInformation \<Rightarrow> int \<times> int \<Rightarrow> int set \<Rightarrow> world
     \<Rightarrow> (bool \<times> kwsysProcess \<times> kwsysProcessCreateInformation \<times> world) outcome option" where
  "create_fork e cp prIndex si pgidPipe oldmask w =
     do { f \<leftarrow> kwsysProcessFork e cp si w;
          case f of
            Exited w \<Rightarrow> Some (Exited w)
          | Returned (pid, w) \<Rightarrow>
              do { cp \<leftarrow> set_pid cp prIndex pid;
                   if pid < 0
                   then do { let (_, w) = call e (S_sigprocmask SIG_SETMASK oldmask) w;
                             (p, w) \<leftarrow> close_both e (ErrorPipe si) w;
                             (_, w) \<leftarrow> close_both e pgidPipe w;
                             Some (Returned (False, cp, si\<lparr>ErrorPipe := p\<rparr>, w)) }
                   else if pid = 0 then child_exec e cp prIndex si (fst pgidPipe) oldmask w
                   else do { r \<leftarrow> create_parent e cp si pgidPipe oldmask w; Some (Returned r) } } }"

definition kwsysProcessCreate ::
  "env \<Rightarrow> kwsysProcess \<Rightarrow> nat \<Rightarrow> kwsysProcessCreateInformation \<Rightarrow> world
     \<Rightarrow> (bool \<times> kwsysProcess \<times> kwsysProcessCreateInformation \<times> world) outcome option" where
  "kwsysProcessCreate e cp prIndex si w =
     (let (r, w) = call e S_pipe w
      in if ret r < 0 then Some (Returned (False, cp, si, w))
         else let si = si\<lparr>ErrorPipe := fds r\<rparr>; (r, w) = call e S_pipe w; pgidPipe = fds r
              in if ret r < 0
                 then do { (p, w) \<leftarrow> close_both e (ErrorPipe si) w;
                           Some (Returned (False, cp, si\<lparr>ErrorPipe := p\<rparr>, w)) }
                 else let (bad, w) = cloexec2_fails e (snd (ErrorPipe si), snd pgidPipe) w
                      in if bad
                         then do { (p, w) \<leftarrow> close_both e (ErrorPipe si) w;
                                   (_, w) \<leftarrow> close_both e pgidPipe w;
                                   Some (Returned (False, cp, si\<lparr>ErrorPipe := p\<rparr>, w)) }
                         else let (r, w) = call e (S_sigprocmask SIG_BLOCK {SIGINT, SIGTERM}) w; oldmask = old_mask r
                              in if ret r < 0
                                 then do { (p, w) \<leftarrow> close_both e (ErrorPipe si) w;
                                           (_, w) \<leftarrow> close_both e pgidPipe w;
                                           Some (Returned (False, cp, si\<lparr>ErrorPipe := p\<rparr>, w)) }
                                 else create_fork e cp prIndex si pgidPipe oldmask w)"

section \<open>The pipes\<close>

definition kwsysProcessSetupOutputPipeFile ::
  "env \<Rightarrow> int \<Rightarrow> cstr option \<Rightarrow> world \<Rightarrow> (bool \<times> int \<times> world) option" where
  "kwsysProcessSetupOutputPipeFile e p name w =
     (case name of
        None \<Rightarrow> Some (True, p, w)
      | Some (_, s) \<Rightarrow>
          do { (p, w) \<leftarrow> kwsysProcessCleanupDescriptor e p w;
               str \<leftarrow> c_string s;
               let (fout, w) = call e (S_open str True) w;
               if ret fout < 0 then Some (False, p, w)
               else let (bad, w) = cloexec_fails e (ret fout) w
                    in if bad then let (_, w) = call e (S_close (ret fout)) w in Some (False, p, w)
                       else Some (True, ret fout, w) })"

definition kwsysProcessSetupOutputPipeNative ::
  "env \<Rightarrow> int \<Rightarrow> int \<times> int \<Rightarrow> world \<Rightarrow> (bool \<times> int \<times> world) option" where
  "kwsysProcessSetupOutputPipeNative e p des w =
     do { (p, w) \<leftarrow> kwsysProcessCleanupDescriptor e p w;
          let (bad, w) = cloexec2_fails e des w;
          Some (if bad then (False, p, w) else (True, snd des, w)) }"

section \<open>The stages of \<open>kwsysProcess_Execute\<close>\<close>

definition enter_directory :: "env \<Rightarrow> world stage" where
  "enter_directory e cp w =
     (case WorkingDirectory cp of
        None \<Rightarrow> Some (True, cp, w)
      | Some dir \<Rightarrow>
          do { (b, _) \<leftarrow> RealWorkingDirectory cp;
               let (r, w) = call e (S_getcwd MAXPATHLEN) w;
               if ret r < 0 then Some (False, cp, w)
               else do { let cp = cp\<lparr>RealWorkingDirectory := Some (b, payload r)\<rparr>;
                         (r, w) \<leftarrow> chdir_loop e dir w;
                         Some (ret r \<ge> 0, cp, w) } })"

definition register :: "env \<Rightarrow> world stage" where
  "register e cp w = (if OptionDetach cp = 0 then kwsysProcessesAdd e cp w else Some (True, cp, w))"

definition setup_stdin :: "env \<Rightarrow> world stage" where
  "setup_stdin e cp w =
     (case PipeFile cp Pipe_STDIN of
        Some (_, s) \<Rightarrow>
          do { str \<leftarrow> c_string s;
               let (r, w) = call e (S_open str False) w;
               let cp = cp\<lparr>PipeChildStd := (PipeChildStd cp)(0 := ret r)\<rparr>;
               if ret r < 0 then Some (False, cp, w)
               else let (bad, w) = cloexec_fails e (ret r) w in Some (\<not> bad, cp, w) }
      | None \<Rightarrow>
          if PipeShared cp Pipe_STDIN then Some (True, cp\<lparr>PipeChildStd := (PipeChildStd cp)(0 := 0)\<rparr>, w)
          else if fst (PipeNative cp Pipe_STDIN) \<ge> 0
          then let cp = cp\<lparr>PipeChildStd := (PipeChildStd cp)(0 := fst (PipeNative cp Pipe_STDIN))\<rparr>;
                   (bad, w) = cloexec2_fails e (PipeNative cp Pipe_STDIN) w
               in Some (\<not> bad, cp, w)
          else Some (True, cp\<lparr>PipeChildStd := (PipeChildStd cp)(0 := -1)\<rparr>, w))"

text \<open>The output pipe of the pipeline, and the error pipe: the read end \<open>i\<close> and the write end \<open>j\<close>.\<close>

definition create_output_pipe :: "env \<Rightarrow> nat \<Rightarrow> nat \<Rightarrow> world stage" where
  "create_output_pipe e i j cp w =
     (let (r, w) = call e S_pipe w; p = fds r
      in if ret r < 0 then Some (False, cp, w)
         else let cp = cp\<lparr>PipeReadEnds := (PipeReadEnds cp)(i := fst p), PipeChildStd := (PipeChildStd cp)(j := snd p)\<rparr>;
                  (bad, w) = cloexec2_fails e p w
              in if bad then Some (False, cp, w)
                 else let (ok, w) = kwsysProcessSetNonBlocking e (fst p) w in Some (ok, cp, w))"

text \<open>The redirection of the write end \<open>j\<close>, whose own descriptor in the parent is \<open>j\<close> too.\<close>

definition redirect_output :: "env \<Rightarrow> int \<Rightarrow> nat \<Rightarrow> world stage" where
  "redirect_output e prPipe j cp w =
     (if PipeFile cp prPipe \<noteq> None
      then do { (ok, fd, w) \<leftarrow> kwsysProcessSetupOutputPipeFile e (PipeChildStd cp j) (PipeFile cp prPipe) w;
                Some (ok, cp\<lparr>PipeChildStd := (PipeChildStd cp)(j := fd)\<rparr>, w) }
      else if PipeShared cp prPipe
      then do { (_, w) \<leftarrow> kwsysProcessCleanupDescriptor e (PipeChildStd cp j) w;
                Some (True, cp\<lparr>PipeChildStd := (PipeChildStd cp)(j := int j)\<rparr>, w) }
      else if snd (PipeNative cp prPipe) \<ge> 0
      then do { (ok, fd, w) \<leftarrow> kwsysProcessSetupOutputPipeNative e (PipeChildStd cp j) (PipeNative cp prPipe) w;
                Some (ok, cp\<lparr>PipeChildStd := (PipeChildStd cp)(j := fd)\<rparr>, w) }
      else Some (True, cp, w))"

definition setup_stages :: "env \<Rightarrow> world stage list" where
  "setup_stages e = [enter_directory e, register e, setup_stdin e,
     create_output_pipe e KWSYSPE_PIPE_STDOUT 1, redirect_output e Pipe_STDOUT 1,
     create_output_pipe e KWSYSPE_PIPE_STDERR 2, redirect_output e Pipe_STDERR 2]"

section \<open>The pipeline\<close>

text \<open>\<open>if (fd != keep) kwsysProcessCleanupDescriptor (&fd)\<close>\<close>

definition cleanup_unless :: "env \<Rightarrow> int \<Rightarrow> int \<Rightarrow> world \<Rightarrow> (int \<times> world) option" where
  "cleanup_unless e keep fd w =
     (if fd \<noteq> keep then kwsysProcessCleanupDescriptor e fd w else Some (fd, w))"

text \<open>
  The pipe to the next child: whether it was made, the next child's input, and this child's
  output.  The last child writes to the output pipe of the pipeline.
\<close>

definition next_pipe :: "env \<Rightarrow> kwsysProcess \<Rightarrow> bool \<Rightarrow> int \<Rightarrow> world \<Rightarrow> (bool \<times> int \<times> int \<times> world) option" where
  "next_pipe e cp final nextStdIn w =
     (if final then Some (True, -1, PipeChildStd cp 1, w)
      else let (r, w) = call e S_pipe w; p = fds r
           in if ret r < 0
              then do { (_, w) \<leftarrow> cleanup_unless e (PipeChildStd cp 0) nextStdIn w; Some (False, -1, -1, w) }
              else let (bad, w) = cloexec2_fails e p w
                   in if bad
                      then do { let (_, w) = call e (S_close (fst p)) w;
                                let (_, w) = call e (S_close (snd p)) w;
                                (_, w) \<leftarrow> cleanup_unless e (PipeChildStd cp 0) nextStdIn w;
                                Some (False, -1, -1, w) }
                      else Some (True, fst p, snd p, w))"

text \<open>After the creation: close what was used between the children, and everything on a failure.\<close>

definition close_between ::
  "env \<Rightarrow> kwsysProcess \<Rightarrow> bool \<Rightarrow> kwsysProcessCreateInformation \<Rightarrow> int \<Rightarrow> world
     \<Rightarrow> (kwsysProcessCreateInformation \<times> world) option" where
  "close_between e cp res si nextStdIn w =
     do { (a, w) \<leftarrow> cleanup_unless e (PipeChildStd cp 0) (StdIn si) w;
          (b, w) \<leftarrow> cleanup_unless e (PipeChildStd cp 1) (StdOut si) w;
          (c, w) \<leftarrow> (if StdErr si \<noteq> PipeChildStd cp 2 \<and> MergeOutput cp = 0
                     then kwsysProcessCleanupDescriptor e (StdErr si) w else Some (StdErr si, w));
          let si = si\<lparr>StdIn := a, StdOut := b, StdErr := c\<rparr>;
          if res then Some (si, w)
          else do { (p, w) \<leftarrow> close_both e (ErrorPipe si) w;
                    (_, w) \<leftarrow> cleanup_unless e (PipeChildStd cp 0) nextStdIn w;
                    Some (si\<lparr>ErrorPipe := p\<rparr>, w) } }"

text \<open>The loop over the commands, from command \<open>i\<close> on; \<open>n\<close> are left.\<close>

fun create_pipeline ::
  "env \<Rightarrow> nat \<Rightarrow> nat \<Rightarrow> int \<Rightarrow> kwsysProcessCreateInformation \<Rightarrow> kwsysProcess \<Rightarrow> world
     \<Rightarrow> (bool \<times> kwsysProcess \<times> world) outcome option" where
  "create_pipeline e i 0 nextStdIn si cp w = Some (Returned (True, cp, w))"
| "create_pipeline e i (Suc n) nextStdIn si cp w =
     do { let si = si\<lparr>StdIn := nextStdIn\<rparr>;
          (ok, next, out, w) \<leftarrow> next_pipe e cp (n = 0) nextStdIn w;
          if \<not> ok then Some (Returned (False, cp, w))
          else do { let si = si\<lparr>StdOut := out, StdErr := if MergeOutput cp \<noteq> 0 then PipeChildStd cp 1
                                                       else PipeChildStd cp 2\<rparr>;
                    r \<leftarrow> kwsysProcessCreate e cp i si w;
                    case r of
                      Exited w \<Rightarrow> Some (Exited w)
                    | Returned (res, cp, si, w) \<Rightarrow>
                        do { (si, w) \<leftarrow> close_between e cp res si next w;
                             if res then create_pipeline e (Suc i) n next si cp w
                             else Some (Returned (False, cp, w)) } } }"

definition initial_si :: kwsysProcessCreateInformation where
  "initial_si = \<lparr>StdIn = -1, StdOut = -1, StdErr = -1, ErrorPipe = (-1, -1)\<rparr>"

text \<open>After the pipeline: the parent's copies, the directory, and the new state.\<close>

definition execute_finish :: "env \<Rightarrow> kwsysProcess \<Rightarrow> world \<Rightarrow> (kwsysProcess \<times> world) option" where
  "execute_finish e cp w =
     do { (f, w) \<leftarrow> cleanup_descriptors e [0..<3] (PipeChildStd cp) w;
          let cp = cp\<lparr>PipeChildStd := f\<rparr>;
          (cp, w) \<leftarrow> (case RealWorkingDirectory cp of
                 None \<Rightarrow> Some (cp, w)
               | Some dir \<Rightarrow> do { (_, w) \<leftarrow> chdir_loop e dir w;
                                h \<leftarrow> free_array (RealWorkingDirectory cp) (heap w);
                                Some (cp\<lparr>RealWorkingDirectory := None\<rparr>, w\<lparr>heap := h\<rparr>) });
          Some (cp\<lparr>PipesLeft := int KWSYSPE_PIPE_COUNT, State := State_Executing, Detached := OptionDetach cp\<rparr>, w) }"

definition start_clock :: "env \<Rightarrow> kwsysProcess \<Rightarrow> world \<Rightarrow> kwsysProcess \<times> world" where
  "start_clock e cp w =
     (let (t, w) = kwsysProcessTimeGetCurrent e w in (cp\<lparr>StartTime := t, TimeoutTime := Time (-1) (-1)\<rparr>, w))"

definition cleanup_and_return :: "env \<Rightarrow> kwsysProcess \<Rightarrow> world \<Rightarrow> (kwsysProcess \<times> world) outcome option" where
  "cleanup_and_return e cp w = map_option Returned (kwsysProcessCleanup e cp True w)"

text \<open>The run, after the initialisation.\<close>

definition execute_run :: "env \<Rightarrow> kwsysProcess \<Rightarrow> world \<Rightarrow> (kwsysProcess \<times> world) outcome option" where
  "execute_run e cp w =
     do { (ok, cp, w) \<leftarrow> run_stages (setup_stages e) cp w;
          if \<not> ok then cleanup_and_return e cp w
          else do { let (cp, w) = start_clock e cp w;
                    r \<leftarrow> create_pipeline e 0 (NumberOfCommands cp) (PipeChildStd cp 0) initial_si cp w;
                    case r of
                      Exited w \<Rightarrow> Some (Exited w)
                    | Returned (ok, cp, w) \<Rightarrow>
                        if ok then map_option Returned (execute_finish e cp w)
                        else cleanup_and_return e cp w } }"

definition Execute :: "env \<Rightarrow> kwsysProcess \<Rightarrow> world \<Rightarrow> (kwsysProcess \<times> world) outcome option" where
  "Execute e cp w =
     (if State cp = State_Executing then Some (Returned (cp, w))
      else if NumberOfCommands cp < 1
      then do { msg \<leftarrow> strcpy (ErrorMessage cp) (lit ''No command'');
                Some (Returned (cp\<lparr>ErrorMessage := msg, State := State_Error\<rparr>, w)) }
      else do { (ok, cp, h) \<leftarrow> kwsysProcessInitialize e cp (heap w);
                let w = w\<lparr>heap := h\<rparr>;
                if ok then execute_run e cp w
                else do { msg \<leftarrow> strcpy (ErrorMessage cp) (lit ''Out of memory'');
                          Some (Returned (cp\<lparr>ErrorMessage := msg, State := State_Error\<rparr>, w)) } })"

section \<open>What is relied on\<close>

text \<open>
  Documented behaviour of the system: retried calls end, no process has an endless line of
  descendants, \<open>read\<close> delivers what it says and at most what was asked for, a pipe whose write ends
  are closed ends, the descriptors of pipes fit into a descriptor set, error strings end, \<open>getcwd\<close> delivers a string, the pid a detached child's
  intermediate process writes arrives as a whole and is not 0.
\<close>

definition read_ok :: "env \<Rightarrow> bool" where
  "read_ok e \<longleftrightarrow> (\<forall>tr fd n. let r = sys e (S_read fd n # tr)
     in 0 < ret r \<longrightarrow> ret r \<le> int n \<and> length (payload r) = nat (ret r))"

definition pipe_ends :: "env \<Rightarrow> bool" where
  "pipe_ends e \<longleftrightarrow> (\<forall>tr fd. \<exists>n. ret (sys e (replicate (Suc n) (S_read fd 1) @ tr)) \<le> 0)"

definition pid_arrives :: "env \<Rightarrow> bool" where
  "pid_arrives e \<longleftrightarrow> (\<forall>tr fd. let r = sys e (S_read fd 4 # tr)
     in interrupted r \<or> 0 \<le> ret r \<and> (\<exists>p. bytes_pid (payload r) = Some p \<and> p \<noteq> 0))"

definition strings_end :: "env \<Rightarrow> bool" where
  "strings_end e \<longleftrightarrow> (\<forall>n. \<exists>str. c_string (strerror e n) = Some str)
     \<and> (\<forall>tr n. let r = sys e (S_getcwd n # tr) in 0 \<le> ret r \<longrightarrow> (\<exists>str. c_string (payload r) = Some str))"

definition pipes_small :: "env \<Rightarrow> bool" where
  "pipes_small e \<longleftrightarrow> (\<forall>tr. let r = sys e (S_pipe # tr) in 0 \<le> ret r \<longrightarrow> fst (fds r) < FD_SETSIZE)"

definition os_ok :: "env \<Rightarrow> bool" where
  "os_ok e \<longleftrightarrow> fair e \<and> finite_trees e \<and> read_ok e \<and> pipe_ends e \<and> pid_arrives e \<and> strings_end e
     \<and> pipes_small e"

lemma os_fair [intro]: "os_ok e \<Longrightarrow> fair e"
  by (simp add: os_ok_def)

text \<open>This process is the parent: no \<open>fork\<close> answers 0.\<close>

definition is_parent :: "env \<Rightarrow> bool" where
  "is_parent e \<longleftrightarrow> (\<forall>tr. ret (sys e (S_fork # tr)) \<noteq> 0)"

section \<open>Small operations\<close>

text \<open>One more system call.\<close>

lemma calls_chain:
  "call e c m = (r, w') \<Longrightarrow> calls_only w m \<Longrightarrow> calls_only w w'"
  "cloexec_fails e fd m = (bad, w') \<Longrightarrow> calls_only w m \<Longrightarrow> calls_only w w'"
  "cloexec2_fails e p m = (bad, w') \<Longrightarrow> calls_only w m \<Longrightarrow> calls_only w w'"
  "kwsysProcessSetNonBlocking e fd m = (ok, w') \<Longrightarrow> calls_only w m \<Longrightarrow> calls_only w w'"
  using calls_only_trans calls_only_call cloexec_only cloexec2_only SetNonBlocking_only by metis+

lemma wp_kill_children [wp_rules]:
  assumes "fair e" and "finite_trees e" and "\<And>w'. calls_only w w' \<Longrightarrow> P w'"
  shows "returns (kill_children e pids w) P"
  using assms(3)
proof (induction pids arbitrary: w)
  case (Cons p pids)
  show ?case
  proof (cases "p = 0")
    case True
    with Cons show ?thesis by simp
  next
    case False
    from Kill_returns [OF assms(2), of p w] obtain w1 where
      w1: "kwsysProcessKill e p w = Some w1" "calls_only w w1" by (rule returnsE)
    show ?thesis
      using False w1
      by (auto intro!: wp_retry [OF assms(1)] Cons.IH Cons.prems) (metis calls_only_trans)
  qed
qed simp

lemma wp_cleanup_descriptors [wp_rules]:
  assumes "fair e" and "\<And>w'. calls_only w w' \<Longrightarrow> P ((\<lambda>i. if i \<in> set is \<and> f i > 2 then -1 else f i), w')"
  shows "returns (cleanup_descriptors e is f w) P"
  using assms(2)
proof (induction "is" arbitrary: f w P)
  case (Cons i js)
  show ?case
    unfolding cleanup_descriptors.simps returns_bind
  proof (rule wp_CleanupDescriptor [OF assms(1)], simp only: prod.case, rule Cons.IH)
    fix w1 w2
    let ?g = "f(i := if f i > 2 then -1 else f i)"
    assume "calls_only w w1" "calls_only w1 w2"
    then have "calls_only w w2" by (rule calls_only_trans)
    moreover have "(\<lambda>k. if k \<in> set js \<and> ?g k > 2 then -1 else ?g k)
        = (\<lambda>k. if k \<in> set (i # js) \<and> f k > 2 then -1 else f k)"
      by auto
    ultimately show "P (\<lambda>k. if k \<in> set js \<and> ?g k > 2 then -1 else ?g k, w2)"
      using Cons.prems by simp
  qed
qed simp

lemma wp_close_both [wp_rules]:
  assumes "fair e" and "\<And>q w'. calls_only w w' \<Longrightarrow> P (q, w')"
  shows "returns (close_both e p w) P"
  unfolding close_both_def
  by (auto intro!: wp_CleanupDescriptor [OF assms(1)] assms(2)) (metis calls_only_trans)+

lemma wp_cleanup_unless [wp_rules]:
  assumes "fair e" and "\<And>fd' w'. calls_only w w' \<Longrightarrow> P (fd', w')"
  shows "returns (cleanup_unless e keep fd w) P"
  unfolding cleanup_unless_def
  by (auto intro!: wp_CleanupDescriptor [OF assms(1)] assms(2))

lemma wp_chdir_loop [wp_rules]:
  assumes "fair e" and "c_string (snd dir) = Some str" and "\<And>r w'. calls_only w w' \<Longrightarrow> P (r, w')"
  shows "returns (chdir_loop e dir w) P"
  using assms(2,3) by (auto simp: chdir_loop_def intro!: wp_retry [OF assms(1)])

lemma wp_pgid_wait [wp_rules]:
  assumes "pipe_ends e" and "\<And>r w'. calls_only w w' \<Longrightarrow> P (r, w')"
  shows "returns (pgid_wait e fd w) P"
proof -
  have go: "returns (pgid_wait e fd v) P"
    if "ret (sys e (replicate (Suc n) (S_read fd 1) @ trace v)) \<le> 0" "calls_only w v" for n v
    using that
  proof (induction n arbitrary: v)
    case 0
    then show ?case
      using assms(2) calls_only_trans [OF 0(2) call_only, of e "S_read fd 1"]
      by (subst pgid_wait.simps) (simp add: call_def Let_def)
  next
    case (Suc n)
    let ?v = "snd (call e (S_read fd 1) v)"
    have v: "calls_only w ?v" by (rule calls_only_trans [OF Suc.prems(2) call_only])
    show ?case
    proof (cases "ret (sys e (S_read fd 1 # trace v)) > 0")
      case True
      then have "pgid_wait e fd v = pgid_wait e fd ?v"
        by (subst pgid_wait.simps) (simp add: call_def Let_def)
      moreover have "ret (sys e (replicate (Suc n) (S_read fd 1) @ trace ?v)) \<le> 0"
        using Suc.prems(1) unfolding call_trace
        by (metis append_Cons append_assoc replicate_Suc replicate_append_same append_Nil)
      ultimately show ?thesis using Suc.IH v by simp
    next
      case False
      with v assms(2) show ?thesis by (subst pgid_wait.simps) (simp add: call_def Let_def)
    qed
  qed
  from assms(1) obtain n where "ret (sys e (replicate (Suc n) (S_read fd 1) @ trace w)) \<le> 0"
    unfolding pipe_ends_def by blast
  then show ?thesis by (rule go) simp
qed

lemma mem_write_defined: "off + length xs \<le> length buf \<Longrightarrow> \<exists>buf'. mem_write buf off xs = Some buf' \<and> length buf' = length buf"
  by (simp add: mem_write_def)

lemma wp_read_into [wp_rules]:
  assumes "fair e" and "read_ok e" and "off + n \<le> length buf"
    and "\<And>r buf' w'. calls_only w w' \<Longrightarrow> length buf' = length buf \<Longrightarrow> r \<le> int n \<Longrightarrow> P (r, buf', w')"
  shows "returns (read_into e fd buf off n w) P"
  unfolding read_into_def returns_bind
proof (rule wp_retry [OF assms(1)])
  fix r w'
  assume w': "calls_only w w'" "retried e (S_read fd n) w (r, w')"
  then obtain k where "r = sys e (replicate (Suc k) (S_read fd n) @ trace w)" by (auto simp: retried_def)
  then have r: "0 < ret r \<longrightarrow> ret r \<le> int n \<and> length (payload r) = nat (ret r)"
    using assms(2) by (simp add: read_ok_def Let_def)
  show "returns (case (r, w') of (r, w) \<Rightarrow>
      (if ret r > 0 then mem_write buf off (take (nat (ret r)) (payload r)) else Some buf) \<bind>
      (\<lambda>buf. Some (ret r, buf, w))) P"
  proof (cases "0 < ret r")
    case True
    with r have "nat (ret r) \<le> n" by (simp add: nat_le_iff)
    with True r assms(3) have "off + length (take (nat (ret r)) (payload r)) \<le> length buf" by simp
    from mem_write_defined [OF this] obtain buf' where
      "mem_write buf off (take (nat (ret r)) (payload r)) = Some buf'" "length buf' = length buf" by blast
    with True r w'(1) assms(4) show ?thesis by simp
  next
    case False
    with w'(1) assms(4) show ?thesis by simp
  qed
qed

lemma wp_error_read [wp_rules]:
  assumes "fair e" and "read_ok e" and "length msg = KWSYSPE_PIPE_BUFFER_SIZE + 1"
    and "\<And>len msg' w'. calls_only w w' \<Longrightarrow> length msg' = length msg \<Longrightarrow> P (len, msg', w')"
  shows "returns (error_read e fd msg len w) P"
  using assms(3,4)
proof (induction "KWSYSPE_PIPE_BUFFER_SIZE - len" arbitrary: len msg w rule: less_induct)
  case less
  show ?case
  proof (cases "len < KWSYSPE_PIPE_BUFFER_SIZE")
    case False
    then show ?thesis using less.prems by (subst error_read.simps) simp
  next
    case True
    have "returns (read_into e fd msg len (KWSYSPE_PIPE_BUFFER_SIZE - len) w) (\<lambda>(n, msg, w).
      returns (if n > 0 then error_read e fd msg (len + nat n) w else Some (len, msg, w)) P)"
    proof (rule wp_read_into [OF assms(1,2)])
      show "len + (KWSYSPE_PIPE_BUFFER_SIZE - len) \<le> length msg" using True less.prems(1) by simp
      fix r :: int and msg' :: "byte list" and w' :: world
      assume a: "calls_only w w'" "length msg' = length msg" "r \<le> int (KWSYSPE_PIPE_BUFFER_SIZE - len)"
      show "case (r, msg', w') of (n, msg, w) \<Rightarrow>
          returns (if n > 0 then error_read e fd msg (len + nat n) w else Some (len, msg, w)) P"
      proof (cases "r > 0")
        case pos: True
        have "returns (error_read e fd msg' (len + nat r) w') P"
        proof (rule less.hyps)
          show "KWSYSPE_PIPE_BUFFER_SIZE - (len + nat r) < KWSYSPE_PIPE_BUFFER_SIZE - len" using True pos by simp
          show "length msg' = KWSYSPE_PIPE_BUFFER_SIZE + 1" using a(2) less.prems(1) by simp
          show "P (len', m, v)" if "calls_only w' v" "length m = length msg'" for len' m v
            using less.prems(2) calls_only_trans [OF a(1) that(1)] that(2) a(2) by simp
        qed
        with pos show ?thesis by simp
      next
        case False
        with a less.prems(2) show ?thesis by simp
      qed
    qed
    then show ?thesis using True by (subst error_read.simps) (auto elim!: returns_mono)
  qed
qed

section \<open>The invariant of an execution\<close>

text \<open>The blocks of a run, apart from the configuration.\<close>

definition run_blocks :: "kwsysProcess \<Rightarrow> nat multiset" where
  "run_blocks cp = opt_block (ForkPIDs cp) + opt_block (CommandExitCodes cp)
     + opt_block (ProcessResults cp) + opt_block (RealWorkingDirectory cp)"

text \<open>What an execution does not change.\<close>

definition config_of where
  "config_of cp = (self cp, Commands cp, NumberOfCommands cp, WorkingDirectory cp, OptionDetach cp,
     PipeFile cp, PipeShared cp, PipeNative cp, Timeout cp, Verbatim cp, MergeOutput cp, CreateProcessGroup cp)"

lemma config_of_eq:
  "config_of a = config_of b \<longleftrightarrow> self a = self b \<and> Commands a = Commands b \<and> NumberOfCommands a = NumberOfCommands b
     \<and> WorkingDirectory a = WorkingDirectory b \<and> OptionDetach a = OptionDetach b \<and> PipeFile a = PipeFile b
     \<and> PipeShared a = PipeShared b \<and> PipeNative a = PipeNative b \<and> Timeout a = Timeout b
     \<and> Verbatim a = Verbatim b \<and> MergeOutput a = MergeOutput b \<and> CreateProcessGroup a = CreateProcessGroup b"
  by (auto simp: config_of_def)

definition array_of :: "nat \<Rightarrow> 'a array option \<Rightarrow> bool" where
  "array_of n a \<longleftrightarrow> (\<exists>b xs. a = Some (b, xs) \<and> length xs = n)"

text \<open>The arrays of a run; each description has the size of its buffer.\<close>

definition arrays_ok :: "kwsysProcess \<Rightarrow> bool" where
  "arrays_ok cp \<longleftrightarrow> array_of (NumberOfCommands cp) (ForkPIDs cp) \<and> array_of (NumberOfCommands cp) (CommandExitCodes cp)
     \<and> (\<exists>b rs. ProcessResults cp = Some (b, rs) \<and> length rs = NumberOfCommands cp
          \<and> (\<forall>r\<in>set rs. length (ExitExceptionString r) = KWSYSPE_PIPE_BUFFER_SIZE + 1))"

definition messages_ok :: "kwsysProcess \<Rightarrow> bool" where
  "messages_ok cp \<longleftrightarrow> length (ErrorMessage cp) = KWSYSPE_PIPE_BUFFER_SIZE + 1
     \<and> length (PipeBuffer cp) = KWSYSPE_PIPE_BUFFER_SIZE"

lemma initial_results_length: "length (ExitExceptionString initial_results) = KWSYSPE_PIPE_BUFFER_SIZE + 1"
  by (simp add: initial_results_def lit_def)

lemma owns_malloc_array:
  assumes "owns F h" and "malloc ok n h = (p, h')"
  shows "owns (F + opt_block (map_option (\<lambda>b. (b, x)) p)) h'"
  using owns_malloc(1) [OF assms] by (cases p) simp_all

lemma reset_fields_simps:
  "config_of (reset_fields cp) = config_of cp" "run_blocks (reset_fields cp) = run_blocks cp"
  "messages_ok (reset_fields cp) = messages_ok cp" "ForkPIDs (reset_fields cp) = ForkPIDs cp"
  "CommandExitCodes (reset_fields cp) = CommandExitCodes cp" "ProcessResults (reset_fields cp) = ProcessResults cp"
  "RealWorkingDirectory (reset_fields cp) = RealWorkingDirectory cp" "WorkingDirectory (reset_fields cp) = WorkingDirectory cp"
  "NumberOfCommands (reset_fields cp) = NumberOfCommands cp" "State (reset_fields cp) = State_Starting"
  "PipeReadEnds (reset_fields cp) i = -1" "PipeChildStd (reset_fields cp) i = -1" "SignalPipe (reset_fields cp) = -1"
  "Killed (reset_fields cp) = False" "TimeoutExpired (reset_fields cp) = False" "SelectError (reset_fields cp) = False"
  "CommandsLeft (reset_fields cp) = 0" "PipeSet (reset_fields cp) = {}"
  by (simp_all add: reset_fields_def config_of_def run_blocks_def messages_ok_def)

text \<open>The result of the initialisation.\<close>

definition initialized :: "kwsysProcess \<Rightarrow> bool \<Rightarrow> kwsysProcess \<Rightarrow> bool" where
  "initialized cp ok cp' \<longleftrightarrow> config_of cp' = config_of cp \<and> messages_ok cp' \<and> State cp' = State_Starting
     \<and> \<not> Killed cp' \<and> \<not> TimeoutExpired cp' \<and> \<not> SelectError cp' \<and> CommandsLeft cp' = 0 \<and> PipeSet cp' = {}
     \<and> (\<forall>i. PipeReadEnds cp' i = -1) \<and> (\<forall>i. PipeChildStd cp' i = -1) \<and> SignalPipe cp' = -1
     \<and> (if ok then arrays_ok cp' \<and> (\<exists>b. ForkPIDs cp' = Some (b, replicate (NumberOfCommands cp) 0))
          \<and> (WorkingDirectory cp = None \<longrightarrow> RealWorkingDirectory cp' = None)
          \<and> (WorkingDirectory cp \<noteq> None \<longrightarrow> (\<exists>b. RealWorkingDirectory cp' = Some (b, [])))
        else RealWorkingDirectory cp' = None)"

lemma wp_stages_Cons:
  assumes "returns (s cp w) (\<lambda>(ok, cp, w). if ok then returns (run_stages ss cp w) P else P (False, cp, w))"
  shows "returns (run_stages (s # ss) cp w) P"
  unfolding run_stages.simps returns_bind using assms by (rule returns_mono) auto

text \<open>What an allocation of the initialisation keeps.\<close>

definition alloc_post :: "nat multiset \<Rightarrow> kwsysProcess \<Rightarrow> kwsysProcess \<Rightarrow> heap \<Rightarrow> bool" where
  "alloc_post G cp cp' h' \<longleftrightarrow> owns (G + run_blocks cp') h' \<and> initialized cp False cp'"

lemma wp_alloc_pids:
  assumes "alloc_post G cp0 cp h"
    and "\<And>b cp' h'. alloc_post G cp0 cp' h' \<Longrightarrow> ForkPIDs cp' = Some (b, replicate (NumberOfCommands cp0) 0)
      \<Longrightarrow> P (True, cp', h')"
    and "\<And>cp' h'. alloc_post G cp0 cp' h' \<Longrightarrow> P (False, cp', h')"
  shows "returns (alloc_pids e cp h) P"
proof -
  obtain p h1 where m: "malloc (alloc_ok e) (4 * NumberOfCommands cp) h = (p, h1)" by fastforce
  let ?cp = "cp\<lparr>ForkPIDs := map_option (\<lambda>b. (b, replicate (NumberOfCommands cp) 0)) p\<rparr>"
  have n: "NumberOfCommands cp = NumberOfCommands cp0"
    using assms(1) by (simp add: alloc_post_def initialized_def config_of_eq)
  have o1: "owns ((G + run_blocks ?cp) + opt_block (ForkPIDs cp)) h1"
    using owns_malloc_array [OF _ m, of "G + run_blocks cp" "replicate (NumberOfCommands cp) (0::int)"] assms(1)
    by (simp add: alloc_post_def run_blocks_def ac_simps)
  have post: "alloc_post G cp0 ?cp h2" if "owns (G + run_blocks ?cp) h2" for h2
    using that assms(1) by (simp add: alloc_post_def initialized_def config_of_def messages_ok_def)
  show ?thesis
    unfolding alloc_pids_def Let_def m prod.case returns_bind
  proof (rule wp_free_array_owned [OF o1])
    fix h2 assume "owns (G + run_blocks ?cp) h2"
    then have "alloc_post G cp0 ?cp h2" by (rule post)
    then show "returns (Some (p \<noteq> None, ?cp, h2)) P" by (cases p) (auto simp: n intro!: assms(2,3))
  qed
qed

lemma wp_alloc_codes:
  assumes "alloc_post G cp0 cp h"
    and "\<And>b cp' h'. alloc_post G cp0 cp' h' \<Longrightarrow> ForkPIDs cp' = ForkPIDs cp
      \<Longrightarrow> CommandExitCodes cp' = Some (b, replicate (NumberOfCommands cp0) 0) \<Longrightarrow> P (True, cp', h')"
    and "\<And>cp' h'. alloc_post G cp0 cp' h' \<Longrightarrow> P (False, cp', h')"
  shows "returns (alloc_codes e cp h) P"
proof -
  have n: "NumberOfCommands cp = NumberOfCommands cp0"
    using assms(1) by (simp add: alloc_post_def initialized_def config_of_eq)
  let ?G = "G + opt_block (ForkPIDs cp) + opt_block (ProcessResults cp) + opt_block (RealWorkingDirectory cp)"
  have o1: "owns (?G + opt_block (CommandExitCodes cp)) h"
    using assms(1) by (simp add: alloc_post_def run_blocks_def ac_simps)
  show ?thesis
    unfolding alloc_codes_def returns_bind
  proof (rule wp_free_array_owned [OF o1])
    fix h1 assume o2: "owns ?G h1"
    obtain p h2 where m: "malloc (alloc_ok e) (4 * NumberOfCommands cp) h1 = (p, h2)" by fastforce
    let ?cp = "cp\<lparr>CommandExitCodes := map_option (\<lambda>b. (b, replicate (NumberOfCommands cp) 0)) p\<rparr>"
    have "alloc_post G cp0 ?cp h2"
      using owns_malloc_array [OF o2 m, of "replicate (NumberOfCommands cp) (0::int)"] assms(1)
      by (simp add: alloc_post_def initialized_def config_of_def messages_ok_def run_blocks_def ac_simps)
    then show "returns (let (p, h) = malloc (alloc_ok e) (4 * NumberOfCommands cp) h1
        in Some (p \<noteq> None, cp\<lparr>CommandExitCodes := map_option (\<lambda>b. (b, replicate (NumberOfCommands cp) 0)) p\<rparr>, h)) P"
      unfolding m by (cases p) (auto simp: n intro!: assms(2,3))
  qed
qed

lemma wp_alloc_results:
  assumes "alloc_post G cp0 cp h"
    and "\<And>b cp' h'. alloc_post G cp0 cp' h' \<Longrightarrow> ForkPIDs cp' = ForkPIDs cp \<Longrightarrow> CommandExitCodes cp' = CommandExitCodes cp
      \<Longrightarrow> ProcessResults cp' = Some (b, replicate (NumberOfCommands cp0) initial_results) \<Longrightarrow> P (True, cp', h')"
    and "\<And>cp' h'. alloc_post G cp0 cp' h' \<Longrightarrow> P (False, cp', h')"
  shows "returns (alloc_results e cp h) P"
proof -
  have n: "NumberOfCommands cp = NumberOfCommands cp0"
    using assms(1) by (simp add: alloc_post_def initialized_def config_of_eq)
  let ?G = "G + opt_block (ForkPIDs cp) + opt_block (CommandExitCodes cp) + opt_block (RealWorkingDirectory cp)"
  have o1: "owns (?G + opt_block (ProcessResults cp)) h"
    using assms(1) by (simp add: alloc_post_def run_blocks_def ac_simps)
  show ?thesis
    unfolding alloc_results_def returns_bind
  proof (rule wp_free_array_owned [OF o1])
    fix h1 assume o2: "owns ?G h1"
    obtain p h2 where m: "malloc (alloc_ok e) (SIZEOF_kwsysProcessResults * NumberOfCommands cp) h1 = (p, h2)" by fastforce
    let ?cp = "cp\<lparr>ProcessResults := map_option (\<lambda>b. (b, replicate (NumberOfCommands cp) initial_results)) p\<rparr>"
    have "alloc_post G cp0 ?cp h2"
      using owns_malloc_array [OF o2 m, of "replicate (NumberOfCommands cp) initial_results"] assms(1)
      by (simp add: alloc_post_def initialized_def config_of_def messages_ok_def run_blocks_def ac_simps)
    then show "returns (let (p, h) = malloc (alloc_ok e) (SIZEOF_kwsysProcessResults * NumberOfCommands cp) h1
        in Some (p \<noteq> None, cp\<lparr>ProcessResults := map_option (\<lambda>b. (b, replicate (NumberOfCommands cp) initial_results)) p\<rparr>, h)) P"
      unfolding m by (cases p) (auto simp: n intro!: assms(2,3))
  qed
qed

lemma Initialize_returns:
  assumes "owns (G + run_blocks cp) h" and "messages_ok cp" and "RealWorkingDirectory cp = None"
  shows "returns (kwsysProcessInitialize e cp h) (\<lambda>(ok, cp', h'). owns (G + run_blocks cp') h' \<and> initialized cp ok cp')"
proof -
  note r = reset_fields_simps [of cp]
  have start: "alloc_post G cp (reset_fields cp) h"
    using assms r by (simp add: alloc_post_def initialized_def)
  have fail: "owns (G + run_blocks c) h' \<and> initialized cp False c" if "alloc_post G cp c h'" for c h'
    using that by (simp add: alloc_post_def)
  have full: "returns (run_stages [alloc_directory e] c h') (\<lambda>(ok, cp', h'). owns (G + run_blocks cp') h' \<and> initialized cp ok cp')"
    if c: "alloc_post G cp c h'" "ForkPIDs c = Some (b1, replicate (NumberOfCommands cp) 0)"
      "CommandExitCodes c = Some (b2, replicate (NumberOfCommands cp) 0)"
      "ProcessResults c = Some (b3, replicate (NumberOfCommands cp) initial_results)" for c h' b1 b2 b3
  proof -
    have wd: "WorkingDirectory c = WorkingDirectory cp" "NumberOfCommands c = NumberOfCommands cp" "RealWorkingDirectory c = None"
      using c(1) by (simp_all add: alloc_post_def initialized_def config_of_eq)
    have arr: "arrays_ok (c\<lparr>RealWorkingDirectory := x\<rparr>)" for x
      using c(2-4) wd(2) initial_results_length by (auto simp: arrays_ok_def array_of_def)
    obtain p h2 where m: "malloc (alloc_ok e) MAXPATHLEN h' = (p, h2)" by fastforce
    show ?thesis
    proof (cases "WorkingDirectory c = None")
      case True
      have "c = c\<lparr>RealWorkingDirectory := None\<rparr>" using wd(3) by simp
      then have "arrays_ok c" using arr by metis
      with True c wd show ?thesis by (simp add: alloc_directory_def alloc_post_def initialized_def)
    next
      case False
      let ?c = "c\<lparr>RealWorkingDirectory := map_option (\<lambda>b. (b, [])) p\<rparr>"
      have "owns (G + run_blocks c) h'" using c(1) by (simp add: alloc_post_def)
      from owns_malloc_array [OF this m, of "[]::byte list"] have "owns (G + run_blocks ?c) h2"
        by (simp add: run_blocks_def wd(3) ac_simps)
      moreover have "initialized cp (p \<noteq> None) ?c"
        using c False wd arr by (auto simp: alloc_post_def initialized_def config_of_def messages_ok_def)
      ultimately show ?thesis using False m by (cases p) (auto simp: alloc_directory_def)
    qed
  qed
  let ?P = "\<lambda>(ok, cp', h'). owns (G + run_blocks cp') h' \<and> initialized cp ok cp'"
  let ?n = "NumberOfCommands cp"
  have results: "returns (run_stages [alloc_results e, alloc_directory e] c h') ?P"
    if "alloc_post G cp c h'" "ForkPIDs c = Some (b1, replicate ?n 0)" "CommandExitCodes c = Some (b2, replicate ?n 0)"
    for c h' b1 b2
    by (rule wp_stages_Cons, rule wp_alloc_results [OF that(1)])
      (simp_all only: prod.case if_True if_False fail simp_thms, rule full, simp_all add: that)
  have codes: "returns (run_stages [alloc_codes e, alloc_results e, alloc_directory e] c h') ?P"
    if "alloc_post G cp c h'" "ForkPIDs c = Some (b1, replicate ?n 0)" for c h' b1
    by (rule wp_stages_Cons, rule wp_alloc_codes [OF that(1)])
      (simp_all only: prod.case if_True if_False fail simp_thms, rule results, simp_all add: that)
  show ?thesis
    unfolding kwsysProcessInitialize_def
    by (rule wp_stages_Cons, rule wp_alloc_pids [OF start])
      (simp_all only: prod.case if_True if_False fail simp_thms, rule codes, simp_all)
qed

end
