(* ===== verification/ProcessRun.thy ===== *)
theory ProcessRun
  imports ProcessExecute
begin

text \<open>
  The runs of \<open>kwsysProcess_Execute\<close> (\<^verbatim>\<open>kwsys/ProcessUNIX.c\<close>): the invariant between the
  initialisation and the end, which every stage and the creation of every child keep; the
  cleanup; the two outcomes of an execution; and what happens when \<open>fork\<close> or \<open>getcwd\<close> fails or
  a child reports an error.
\<close>

section \<open>The invariant of a run\<close>

text \<open>The strings of the configuration end.\<close>

definition strings_ok :: "kwsysProcess \<Rightarrow> bool" where
  "strings_ok cp \<longleftrightarrow> terminated (WorkingDirectory cp) \<and> (\<forall>p. terminated (PipeFile cp p))"

text \<open>
  The invariant between the initialisation and the end of \<open>kwsysProcess_Execute\<close>: the memory of
  the run and of the table is exactly owned next to the blocks \<open>F\<close> of others, the processes
  registered are \<open>R\<close>, the configuration is that of \<open>cp0\<close>, and the children made so far and
  their number are in \<open>X\<close>.
\<close>

definition in_range :: "kwsysProcess \<Rightarrow> bool" where
  "in_range cp \<longleftrightarrow> (\<forall>i<KWSYSPE_PIPE_COUNT. PipeReadEnds cp i < FD_SETSIZE)"

definition running ::
  "nat multiset \<Rightarrow> nat list \<Rightarrow> (int array option \<times> int) set \<Rightarrow> kwsysProcess \<Rightarrow> kwsysProcess \<Rightarrow> world \<Rightarrow> bool"
where
  "running F R X cp0 cp w \<longleftrightarrow> table_mem (F + run_blocks cp) w \<and> registered w = R
     \<and> config_of cp = config_of cp0 \<and> messages_ok cp \<and> arrays_ok cp \<and> terminated (RealWorkingDirectory cp)
     \<and> \<not> Killed cp \<and> \<not> TimeoutExpired cp \<and> \<not> SelectError cp \<and> PipeSet cp = {} \<and> State cp = State_Starting
     \<and> (ForkPIDs cp, CommandsLeft cp) \<in> X \<and> in_range cp"

lemma running_calls: "calls_only w w' \<Longrightarrow> running F R X cp0 cp w' = running F R X cp0 cp w"
  using calls_only_table by (simp add: running_def)

lemma running_mono: "running F R X cp0 cp w \<Longrightarrow> running F R UNIV cp0 cp w"
  by (simp add: running_def)

lemma run_blocks_frame [simp]:
  "run_blocks (cp\<lparr>PipeReadEnds := x\<rparr>) = run_blocks cp" "run_blocks (cp\<lparr>PipeChildStd := x\<rparr>) = run_blocks cp"
  "run_blocks (cp\<lparr>SignalPipe := y\<rparr>) = run_blocks cp" "run_blocks (cp\<lparr>ErrorMessage := m\<rparr>) = run_blocks cp"
  "run_blocks (cp\<lparr>CommandsLeft := l\<rparr>) = run_blocks cp" "run_blocks (cp\<lparr>StartTime := t\<rparr>) = run_blocks cp"
  "run_blocks (cp\<lparr>TimeoutTime := t\<rparr>) = run_blocks cp" "run_blocks (cp\<lparr>State := s\<rparr>) = run_blocks cp"
  by (simp_all add: run_blocks_def)

lemma config_of_frame [simp]:
  "config_of (cp\<lparr>PipeReadEnds := x\<rparr>) = config_of cp" "config_of (cp\<lparr>PipeChildStd := x\<rparr>) = config_of cp"
  "config_of (cp\<lparr>SignalPipe := y\<rparr>) = config_of cp" "config_of (cp\<lparr>ErrorMessage := m\<rparr>) = config_of cp"
  "config_of (cp\<lparr>CommandsLeft := l\<rparr>) = config_of cp" "config_of (cp\<lparr>StartTime := t\<rparr>) = config_of cp"
  "config_of (cp\<lparr>TimeoutTime := t\<rparr>) = config_of cp" "config_of (cp\<lparr>State := s\<rparr>) = config_of cp"
  "config_of (cp\<lparr>ForkPIDs := f\<rparr>) = config_of cp" "config_of (cp\<lparr>RealWorkingDirectory := d\<rparr>) = config_of cp"
  by (simp_all add: config_of_def)

lemma running_frame [simp]:
  "running F R X cp0 (cp\<lparr>PipeChildStd := x\<rparr>) w = running F R X cp0 cp w"
  "running F R X cp0 (cp\<lparr>SignalPipe := y\<rparr>) w = running F R X cp0 cp w"
  "running F R X cp0 (cp\<lparr>StartTime := t\<rparr>) w = running F R X cp0 cp w"
  "running F R X cp0 (cp\<lparr>TimeoutTime := t\<rparr>) w = running F R X cp0 cp w"
  by (simp_all add: running_def messages_ok_def arrays_ok_def in_range_def)

lemma running_read_end:
  "running F R X cp0 cp w \<Longrightarrow> fd < FD_SETSIZE \<Longrightarrow> running F R X cp0 (cp\<lparr>PipeReadEnds := (PipeReadEnds cp)(i := fd)\<rparr>) w"
  by (simp add: running_def messages_ok_def arrays_ok_def in_range_def)

lemma running_message:
  "length m = length (ErrorMessage cp) \<Longrightarrow> running F R X cp0 (cp\<lparr>ErrorMessage := m\<rparr>) w = running F R X cp0 cp w"
  by (simp add: running_def messages_ok_def arrays_ok_def in_range_def)

lemma running_left:
  "running F R UNIV cp0 (cp\<lparr>CommandsLeft := n\<rparr>) w = running F R UNIV cp0 cp w"
  by (simp add: running_def messages_ok_def arrays_ok_def in_range_def)

lemma running_pids:
  assumes "running F R X cp0 cp w" and "i < NumberOfCommands cp0"
  obtains b pids where "ForkPIDs cp = Some (b, pids)" and "length pids = NumberOfCommands cp0"
    and "set_pid cp i pid = Some (cp\<lparr>ForkPIDs := Some (b, pids[i := pid])\<rparr>)"
    and "running F R UNIV cp0 (cp\<lparr>ForkPIDs := Some (b, pids[i := pid])\<rparr>) w"
proof -
  have n: "NumberOfCommands cp = NumberOfCommands cp0" using assms(1) by (simp add: running_def config_of_eq)
  obtain b pids where p: "ForkPIDs cp = Some (b, pids)" "length pids = NumberOfCommands cp0"
    using assms(1) n by (auto simp: running_def arrays_ok_def array_of_def)
  have "set_pid cp i pid = Some (cp\<lparr>ForkPIDs := Some (b, pids[i := pid])\<rparr>)"
    using p assms(2) by (simp add: set_pid_def)
  moreover have "running F R UNIV cp0 (cp\<lparr>ForkPIDs := Some (b, pids[i := pid])\<rparr>) w"
    using assms(1) p n by (auto simp: running_def messages_ok_def arrays_ok_def array_of_def run_blocks_def in_range_def)
  ultimately show thesis using that p by blast
qed

lemma running_call: "running F R X cp0 cp (snd (call e c w)) = running F R X cp0 cp w"
  by (rule running_calls [OF call_only])

text \<open>A stage that keeps the invariant.\<close>

definition keeps_running ::
  "nat multiset \<Rightarrow> nat list \<Rightarrow> (int array option \<times> int) set \<Rightarrow> kwsysProcess \<Rightarrow> world stage \<Rightarrow> bool" where
  "keeps_running F R X cp0 s \<longleftrightarrow> (\<forall>cp w. running F R X cp0 cp w \<longrightarrow>
     returns (s cp w) (\<lambda>(ok, cp', w'). running F R X cp0 cp' w'))"

lemma keeps_runningI:
  "(\<And>cp w. running F R X cp0 cp w \<Longrightarrow> returns (s cp w) (\<lambda>(ok, cp', w'). running F R X cp0 cp' w'))
     \<Longrightarrow> keeps_running F R X cp0 s"
  by (simp add: keeps_running_def)

lemma wp_stages_step:
  assumes "returns (s cp w) (\<lambda>(ok, cp, w). Q ok cp w)" and "\<And>cp w. Q True cp w \<Longrightarrow> returns (run_stages ss cp w) P"
    and "\<And>cp w. Q False cp w \<Longrightarrow> P (False, cp, w)"
  shows "returns (run_stages (s # ss) cp w) P"
  by (rule wp_stages_Cons, rule returns_mono [OF assms(1)]) (use assms(2,3) in \<open>auto split: if_splits\<close>)

lemma run_stages_keep:
  "\<forall>s\<in>set ss. keeps_running F R X cp0 s \<Longrightarrow> running F R X cp0 cp w
     \<Longrightarrow> returns (run_stages ss cp w) (\<lambda>(ok, cp', w'). running F R X cp0 cp' w')"
proof (induction ss arbitrary: cp w)
  case (Cons s ss)
  show ?case
  proof (rule wp_stages_Cons)
    show "returns (s cp w) (\<lambda>(ok, cp, w). if ok then returns (run_stages ss cp w) (\<lambda>(ok, cp', w'). running F R X cp0 cp' w')
        else case (False, cp, w) of (ok, cp', w') \<Rightarrow> running F R X cp0 cp' w')"
      by (rule returns_mono [where Q = "\<lambda>(ok, cp', w'). running F R X cp0 cp' w'"])
        (use Cons in \<open>auto simp: keeps_running_def\<close>)
  qed
qed simp

lemma keeps_setup_stdin:
  assumes "strings_ok cp0"
  shows "keeps_running F R X cp0 (setup_stdin e)"
proof (rule keeps_runningI)
  fix cp w assume r: "running F R X cp0 cp w"
  then have "PipeFile cp = PipeFile cp0" by (simp add: running_def config_of_eq)
  with assms have t: "terminated (PipeFile cp Pipe_STDIN)" by (simp add: strings_ok_def)
  show "returns (setup_stdin e cp w) (\<lambda>(ok, cp', w'). running F R X cp0 cp' w')"
  proof (cases "PipeFile cp Pipe_STDIN")
    case None
    obtain bad w1 where b: "cloexec2_fails e (PipeNative cp Pipe_STDIN) w = (bad, w1)" by fastforce
    from r None b running_calls [OF cloexec2_only [OF b]] show ?thesis
      by (auto simp: setup_stdin_def Let_def)
  next
    case (Some a)
    obtain x s where a: "a = (x, s)" by fastforce
    with t Some obtain str where str: "c_string s = Some str" by (auto simp: terminated_def)
    obtain q w1 where c: "call e (S_open str False) w = (q, w1)" by fastforce
    obtain bad w2 where b: "cloexec_fails e (ret q) w1 = (bad, w2)" by fastforce
    from r running_calls [OF calls_only_call [OF c], of F R X cp0 cp] running_calls [OF cloexec_only [OF b], of F R X cp0 cp]
    show ?thesis using Some a str c b by (auto simp: setup_stdin_def Let_def)
  qed
qed

lemma keeps_create_output_pipe:
  assumes "pipes_small e"
  shows "keeps_running F R X cp0 (create_output_pipe e i j)"
proof (rule keeps_runningI)
  fix cp w assume r: "running F R X cp0 cp w"
  obtain q w1 where c: "call e S_pipe w = (q, w1)" by fastforce
  then have "q = sys e (S_pipe # trace w)" using call_reply by (metis fst_conv)
  then have small: "0 \<le> ret q \<longrightarrow> fst (fds q) < FD_SETSIZE" using assms by (simp add: pipes_small_def Let_def)
  obtain bad w2 where b: "cloexec2_fails e (fds q) w1 = (bad, w2)" by fastforce
  obtain ok w3 where n: "kwsysProcessSetNonBlocking e (fst (fds q)) w2 = (ok, w3)" by fastforce
  from r running_calls [OF calls_only_call [OF c], of F R X cp0 cp] running_calls [OF cloexec2_only [OF b], of F R X cp0 cp]
    running_calls [OF SetNonBlocking_only [OF n], of F R X cp0 cp]
  show "returns (create_output_pipe e i j cp w) (\<lambda>(ok, cp', w'). running F R X cp0 cp' w')"
    using c b n small by (auto simp: create_output_pipe_def Let_def intro!: running_read_end)
qed

lemma wp_SetupOutputPipeFile:
  assumes "fair e" and "terminated name" and "\<And>ok fd w'. calls_only w w' \<Longrightarrow> P (ok, fd, w')"
  shows "returns (kwsysProcessSetupOutputPipeFile e p name w) P"
proof (cases name)
  case None
  with assms(3) [of w] show ?thesis by (simp add: kwsysProcessSetupOutputPipeFile_def)
next
  case (Some a)
  obtain b s where a: "a = (b, s)" by fastforce
  with assms(2) Some obtain str where str: "c_string s = Some str" by (auto simp: terminated_def)
  show ?thesis
    unfolding kwsysProcessSetupOutputPipeFile_def Some a option.case prod.case returns_bind str returns_Some
    by (rule wp_CleanupDescriptor [OF assms(1)])
      (auto simp: Let_def split: prod.splits intro!: assms(3), (blast intro: calls_chain)+)
qed

lemma wp_SetupOutputPipeNative:
  assumes "fair e" and "\<And>ok fd w'. calls_only w w' \<Longrightarrow> P (ok, fd, w')"
  shows "returns (kwsysProcessSetupOutputPipeNative e p des w) P"
  unfolding kwsysProcessSetupOutputPipeNative_def returns_bind
  by (rule wp_CleanupDescriptor [OF assms(1)])
    (auto simp: Let_def split: prod.splits intro!: assms(2), (blast intro: calls_chain)+)

lemma keeps_redirect_output:
  assumes "fair e" and "strings_ok cp0"
  shows "keeps_running F R X cp0 (redirect_output e prPipe j)"
proof (rule keeps_runningI)
  fix cp w assume r: "running F R X cp0 cp w"
  then have "PipeFile cp = PipeFile cp0" by (simp add: running_def config_of_eq)
  with assms(2) have t: "terminated (PipeFile cp prPipe)" by (simp add: strings_ok_def)
  show "returns (redirect_output e prPipe j cp w) (\<lambda>(ok, cp', w'). running F R X cp0 cp' w')"
    unfolding redirect_output_def
    using r by (auto intro!: wp_SetupOutputPipeFile [OF assms(1) t] wp_SetupOutputPipeNative [OF assms(1)]
        wp_CleanupDescriptor [OF assms(1)] simp: running_calls)
qed

text \<open>The stages around the registration: the list of registered processes grows there.\<close>

lemma register_returns:
  assumes "os_ok e" and "running F R X cp0 cp w"
  shows "returns (register e cp w) (\<lambda>(ok, cp', w').
    running F (if ok \<and> OptionDetach cp0 = 0 then R @ [self cp0] else R) X cp0 cp' w')"
proof (cases "OptionDetach cp0 = 0")
  case False
  then show ?thesis using assms(2) by (simp add: register_def running_def config_of_eq)
next
  case True
  have c: "config_of cp = config_of cp0" and m: "table_mem (F + run_blocks cp) w" "registered w = R"
    using assms(2) by (simp_all add: running_def)
  then have "OptionDetach cp = 0" "self cp = self cp0" using True by (simp_all add: config_of_eq)
  then have reg: "register e cp w = kwsysProcessesAdd e cp w" by (simp add: register_def)
  note add = ProcessesAdd_returns [OF os_fair [OF assms(1)] m(1), of cp]
  then obtain r cp' w' where a: "kwsysProcessesAdd e cp w = Some (r, cp', w')" by (auto simp: returns_def)
  have "in_range cp" using assms(2) by (simp add: running_def)
  with ProcessesAdd_pipe [OF a] assms(1) have "in_range cp'"
    by (auto simp: in_range_def os_ok_def pipes_small_def Let_def)
  with returnsD [OF add a] assms(2) True m(2) \<open>self cp = self cp0\<close> show ?thesis
    unfolding reg a by (auto simp: signal_pipe_only_def running_def messages_ok_def arrays_ok_def)
qed

lemma running_directory:
  assumes "initialized cp0 True cp" and "table_mem (F + run_blocks cp) w"
    and "RealWorkingDirectory cp = Some (b, d)" and "c_string d' = Some str"
  shows "running F (registered w) {(ForkPIDs cp, 0)} cp0 (cp\<lparr>RealWorkingDirectory := Some (b, d')\<rparr>) w"
  using assms by (auto simp: running_def initialized_def messages_ok_def arrays_ok_def run_blocks_def terminated_def in_range_def FD_SETSIZE_def)

text \<open>\<open>getcwd\<close>, the first call of the setup of a pipeline with a working directory, does not fail.\<close>

definition getcwd_answers :: "env \<Rightarrow> kwsysProcess \<Rightarrow> world \<Rightarrow> bool" where
  "getcwd_answers e cp w \<longleftrightarrow> WorkingDirectory cp = None \<or> 0 \<le> ret (sys e (S_getcwd MAXPATHLEN # trace w))"

lemma getcwd_answers_heap [simp]: "getcwd_answers e cp (w\<lparr>heap := h\<rparr>) = getcwd_answers e cp w"
  by (simp add: getcwd_answers_def)

lemma enter_directory_returns:
  assumes "os_ok e" and "strings_ok cp0" and "getcwd_answers e cp0 w"
    and "initialized cp0 True cp" and "table_mem (F + run_blocks cp) w" and "registered w = R"
  shows "returns (enter_directory e cp w) (\<lambda>(ok, cp', w'). running F R {(ForkPIDs cp, 0)} cp0 cp' w')"
proof (cases "WorkingDirectory cp0")
  case None
  with assms(4-6) show ?thesis
    by (auto simp: enter_directory_def initialized_def config_of_eq running_def terminated_def in_range_def FD_SETSIZE_def)
next
  case (Some dir)
  have wd: "WorkingDirectory cp = Some dir" using assms(4) Some by (simp add: initialized_def config_of_eq)
  obtain b d where rd: "RealWorkingDirectory cp = Some (b, d)"
    using assms(4) Some by (auto simp: initialized_def)
  obtain str where str: "c_string (snd dir) = Some str"
    using assms(2) Some by (cases dir) (auto simp: strings_ok_def terminated_def)
  obtain r w1 where c: "call e (S_getcwd MAXPATHLEN) w = (r, w1)" by fastforce
  then have r: "r = sys e (S_getcwd MAXPATHLEN # trace w)" using call_reply by (metis fst_conv)
  then have ok: "0 \<le> ret r" using assms(3) Some by (simp add: getcwd_answers_def)
  then obtain str' where str': "c_string (payload r) = Some str'"
    using assms(1) unfolding os_ok_def strings_end_def Let_def r by blast
  have t1: "table_mem (F + run_blocks cp) w1" "registered w1 = R"
    using calls_only_table [OF calls_only_call [OF c]] assms(5,6) by simp_all
  have run: "running F R {(ForkPIDs cp, 0)} cp0 (cp\<lparr>RealWorkingDirectory := Some (b, payload r)\<rparr>) w1"
    using running_directory [OF assms(4) t1(1) rd str'] t1(2) by simp
  show ?thesis
    using wd rd c ok run
    by (auto simp: enter_directory_def running_calls intro!: wp_chdir_loop [OF os_fair [OF assms(1)] str])
qed

lemma output_stages_keep:
  assumes "os_ok e" and "strings_ok cp0"
  shows "\<forall>s\<in>set [setup_stdin e, create_output_pipe e KWSYSPE_PIPE_STDOUT 1, redirect_output e Pipe_STDOUT 1,
     create_output_pipe e KWSYSPE_PIPE_STDERR 2, redirect_output e Pipe_STDERR 2]. keeps_running F R X cp0 s"
  using assms by (auto simp: os_ok_def intro: keeps_setup_stdin keeps_create_output_pipe keeps_redirect_output)

text \<open>The list of registered processes at the end of the setup.\<close>

definition registers :: "nat list \<Rightarrow> kwsysProcess \<Rightarrow> nat list \<Rightarrow> bool" where
  "registers R cp R' \<longleftrightarrow> R' = R \<or> R' = R @ [self cp] \<and> OptionDetach cp = 0"

definition registered_list :: "nat list \<Rightarrow> kwsysProcess \<Rightarrow> nat list" where
  "registered_list R cp = (if OptionDetach cp = 0 then R @ [self cp] else R)"

lemma setup_returns:
  assumes "os_ok e" and "strings_ok cp0" and "getcwd_answers e cp0 w"
    and "initialized cp0 True cp" and "table_mem (F + run_blocks cp) w" and "registered w = R"
  shows "returns (run_stages (setup_stages e) cp w) (\<lambda>(ok, cp', w').
    (\<exists>R'. registers R cp0 R' \<and> running F R' UNIV cp0 cp' w')
    \<and> (ok \<longrightarrow> running F (registered_list R cp0) {(ForkPIDs cp, 0)} cp0 cp' w'))" (is "returns _ ?P")
proof -
  let ?X = "{(ForkPIDs cp, 0)}"
  have done1: "?P (False, c, v)" if "running F R ?X cp0 c v" for c v
    using running_mono [OF that] by (auto simp: registers_def)
  have done2: "?P (ok, c, v)" if "running F (registered_list R cp0) ?X cp0 c v" for ok c v
    using running_mono [OF that] that by (cases "OptionDetach cp0 = 0") (auto simp: registers_def registered_list_def)
  note f = os_fair [OF assms(1)]
  show ?thesis
    unfolding setup_stages_def
  proof (rule wp_stages_step, rule enter_directory_returns [OF assms])
    fix c and v :: world
    assume r: "running F R ?X cp0 c v"
    show "?P (False, c, v)" by (rule done1 [OF r])
    show "returns (run_stages [register e, setup_stdin e, create_output_pipe e KWSYSPE_PIPE_STDOUT 1,
          redirect_output e Pipe_STDOUT 1, create_output_pipe e KWSYSPE_PIPE_STDERR 2, redirect_output e Pipe_STDERR 2] c v) ?P"
    proof (rule wp_stages_step, rule register_returns [OF assms(1) r])
      fix c and v :: world
      assume "running F (if True \<and> OptionDetach cp0 = 0 then R @ [self cp0] else R) ?X cp0 c v"
      then have "running F (registered_list R cp0) ?X cp0 c v" by (simp add: registered_list_def)
      from run_stages_keep [OF output_stages_keep [OF assms(1,2)] this]
      show "returns (run_stages [setup_stdin e, create_output_pipe e KWSYSPE_PIPE_STDOUT 1,
          redirect_output e Pipe_STDOUT 1, create_output_pipe e KWSYSPE_PIPE_STDERR 2, redirect_output e Pipe_STDERR 2] c v) ?P"
        by (rule returns_mono) (use done2 in blast)
    next
      fix c and v :: world
      assume "running F (if False \<and> OptionDetach cp0 = 0 then R @ [self cp0] else R) ?X cp0 c v"
      then show "?P (False, c, v)" using done1 by simp
    qed
  qed
qed

section \<open>The children\<close>

lemma wp_Fork:
  assumes "os_ok e" and "is_parent e" and "\<And>pid w'. calls_only w w' \<Longrightarrow> pid \<noteq> 0 \<Longrightarrow> P (Returned (pid, w'))"
  shows "returns (kwsysProcessFork e cp si w) P"
proof -
  note f = os_fair [OF assms(1)]
  obtain m w1 where c: "call e S_fork w = (m, w1)" by fastforce
  then have m: "ret m \<noteq> 0" using assms(2) call_reply [of e S_fork w] by (simp add: is_parent_def)
  have arrives: "0 \<le> ret r \<and> (\<exists>p. bytes_pid (payload r) = Some p \<and> p \<noteq> 0)"
    if "retried e (S_read fd 4) w1 (r, w2)" for fd r w2
  proof -
    from that obtain n where "r = sys e (S_read fd 4 # replicate n (S_read fd 4) @ trace w1)"
      and "\<not> interrupted r" by (auto simp: retried_def interrupted_def)
    with assms(1) show ?thesis unfolding os_ok_def pid_arrives_def Let_def by blast
  qed
  show ?thesis
    unfolding kwsysProcessFork_def Let_def c prod.case
    using m calls_only_call [OF c]
    by (auto simp: Let_def intro!: wp_retry [OF f] assms(3) dest!: arrives) (metis calls_only_trans)
qed

text \<open>The rules of the small operations, with the calls counted from an earlier world.\<close>

lemma wp_from:
  assumes "calls_only v w" and "fair e"
  shows "(\<And>w'. calls_only v w' \<Longrightarrow> P (if fd > 2 then -1 else fd, w')) \<Longrightarrow> returns (kwsysProcessCleanupDescriptor e fd w) P"
    and "(\<And>q w'. calls_only v w' \<Longrightarrow> P' (q, w')) \<Longrightarrow> returns (close_both e p w) P'"
    and "(\<And>fd' w'. calls_only v w' \<Longrightarrow> P (fd', w')) \<Longrightarrow> returns (cleanup_unless e keep fd w) P"
  using assms(2) by (auto intro!: wp_CleanupDescriptor wp_close_both wp_cleanup_unless simp: calls_only_trans [OF assms(1)])

lemma wp_call_from:
  assumes "calls_only v w"
  shows "(\<And>r w'. calls_only v w' \<Longrightarrow> returns (f r w') P) \<Longrightarrow> returns (case call e c w of (r, w) \<Rightarrow> f r w) P"
    and "(\<And>bad w'. calls_only v w' \<Longrightarrow> returns (g bad w') P) \<Longrightarrow> returns (case cloexec_fails e fd w of (bad, w) \<Rightarrow> g bad w) P"
    and "(\<And>bad w'. calls_only v w' \<Longrightarrow> returns (g bad w') P) \<Longrightarrow> returns (case cloexec2_fails e q w of (bad, w) \<Rightarrow> g bad w) P"
    and "(\<And>bad w'. calls_only v w' \<Longrightarrow> returns (g bad w') P)
      \<Longrightarrow> returns (case kwsysProcessSetNonBlocking e fd w of (bad, w) \<Rightarrow> g bad w) P"
  using assms by (auto split: prod.split intro: calls_chain)

lemma wp_create_parent:
  assumes "os_ok e" and "length (ErrorMessage cp) = KWSYSPE_PIPE_BUFFER_SIZE + 1"
    and "\<And>si' w'. calls_only w w' \<Longrightarrow> P (False, cp, si', w')"
    and "\<And>ok msg si' w'. calls_only w w' \<Longrightarrow> length msg = length (ErrorMessage cp)
      \<Longrightarrow> P (ok, cp\<lparr>CommandsLeft := CommandsLeft cp + 1, ErrorMessage := msg\<rparr>, si', w')"
  shows "returns (create_parent e cp si pgidPipe oldmask w) P"
proof -
  have f: "fair e" "read_ok e" "pipe_ends e" using assms(1) by (simp_all add: os_ok_def)
  have wait: "returns (pgid_wait e fd v) Q" if "calls_only w v" "\<And>r v'. calls_only w v' \<Longrightarrow> Q (r, v')" for fd v Q
    using that(2) by (auto intro!: wp_pgid_wait [OF f(3)] simp: calls_only_trans [OF that(1)])
  have read: "returns (error_read e fd (ErrorMessage cp) 0 v) Q" if "calls_only w v"
    "\<And>len msg v'. calls_only w v' \<Longrightarrow> length msg = length (ErrorMessage cp) \<Longrightarrow> Q (len, msg, v')" for fd v Q
    using that(2) assms(2) by (auto intro!: wp_error_read [OF f(1,2)] simp: calls_only_trans [OF that(1)])
  note step = wp_from [of w, OF _ f(1)] wp_call_from [of w]
  show ?thesis
    unfolding create_parent_def returns_bind Let_def
    by (auto intro!: step wait read assms(3,4))
qed

lemma wp_Create:
  assumes "os_ok e" and "is_parent e" and r: "running F R X cp0 cp w" and "i < NumberOfCommands cp0"
    and pids: "ForkPIDs cp = Some (b, pids)"
    and fail: "\<And>cp' si' w'. running F R UNIV cp0 cp' w' \<Longrightarrow> P (Returned (False, cp', si', w'))"
    and ok: "\<And>pid msg si' w'. pid > 0 \<Longrightarrow> running F R UNIV cp0 (cp\<lparr>ForkPIDs := Some (b, pids[i := pid]),
        CommandsLeft := CommandsLeft cp + 1, ErrorMessage := msg\<rparr>) w'
      \<Longrightarrow> P (Returned (True, cp\<lparr>ForkPIDs := Some (b, pids[i := pid]),
        CommandsLeft := CommandsLeft cp + 1, ErrorMessage := msg\<rparr>, si', w'))"
  shows "returns (kwsysProcessCreate e cp i si w) P"
proof -
  note f = os_fair [OF assms(1)]
  note step = wp_from [of w, OF _ f] wp_call_from [of w]
  have fail0: "P (Returned (False, cp, si', w'))" if "calls_only w w'" for si' w'
    using running_mono [OF r] running_calls [OF that] by (intro fail) simp
  have main: "returns (create_fork e cp i si pgidPipe oldmask v) P"
    if v: "calls_only w v" for si pgidPipe oldmask v
    unfolding create_fork_def returns_bind
  proof (rule wp_Fork [OF assms(1,2)])
    fix pid :: int and v1 :: world
    assume v1: "calls_only v v1" and pid: "pid \<noteq> 0"
    have w1: "calls_only w v1" by (rule calls_only_trans [OF v v1])
    let ?cp = "cp\<lparr>ForkPIDs := Some (b, pids[i := pid])\<rparr>"
    have set: "set_pid cp i pid = Some ?cp" and run: "running F R UNIV cp0 ?cp w"
      using running_pids [OF r assms(4), of pid] pids by (metis Pair_inject option.inject)+
    have run': "running F R UNIV cp0 ?cp v'" if "calls_only w v'" for v'
      using run running_calls [OF that] by blast
    have len: "length (ErrorMessage ?cp) = KWSYSPE_PIPE_BUFFER_SIZE + 1"
      using r by (simp add: running_def messages_ok_def)
    have parent: "returns (create_parent e ?cp si pgidPipe oldmask v1) (\<lambda>r. P (Returned r))" if "pid > 0"
    proof (rule wp_create_parent [OF assms(1) len])
      fix si' and v2 :: world assume "calls_only v1 v2"
      then show "P (Returned (False, ?cp, si', v2))" by (intro fail run' calls_only_trans [OF w1])
    next
      fix k :: bool and msg :: "byte list" and si' and v2 :: world assume v2: "calls_only v1 v2" "length msg = length (ErrorMessage ?cp)"
      let ?cp' = "?cp\<lparr>CommandsLeft := CommandsLeft ?cp + 1, ErrorMessage := msg\<rparr>"
      have "running F R UNIV cp0 (?cp\<lparr>CommandsLeft := CommandsLeft ?cp + 1\<rparr>) v2"
        unfolding running_left by (rule run' [OF calls_only_trans [OF w1 v2(1)]])
      then have "running F R UNIV cp0 ?cp' v2" using running_message v2(2) by simp
      then show "P (Returned (k, ?cp', si', v2))" using ok [OF that] fail by (cases k) simp_all
    qed
    show "returns (case Returned (pid, v1) of Returned (pid, w) \<Rightarrow>
          do { cp \<leftarrow> set_pid cp i pid;
               if pid < 0
               then do { let (_, w) = call e (S_sigprocmask SIG_SETMASK oldmask) w;
                         (p, w) \<leftarrow> close_both e (ErrorPipe si) w;
                         (_, w) \<leftarrow> close_both e pgidPipe w;
                         Some (Returned (False, cp, si\<lparr>ErrorPipe := p\<rparr>, w)) }
               else if pid = 0 then child_exec e cp i si (fst pgidPipe) oldmask w
               else do { r \<leftarrow> create_parent e cp si pgidPipe oldmask w; Some (Returned r) } }
      | Exited w \<Rightarrow> Some (Exited w)) P"
      unfolding outcome.case prod.case set returns_bind returns_Some
      using pid parent
      by (auto simp: Let_def w1 intro!: step fail run')
  qed
  show ?thesis
    unfolding kwsysProcessCreate_def Let_def
    by (auto simp: Let_def intro!: step fail0 main)
qed

lemma wp_next_pipe:
  assumes "fair e" and "\<And>ok a b w'. calls_only w w' \<Longrightarrow> P (ok, a, b, w')"
  shows "returns (next_pipe e cp final nextStdIn w) P"
proof -
  note step = wp_from [of w, OF _ assms(1)] wp_call_from [of w]
  show ?thesis unfolding next_pipe_def Let_def by (auto intro!: step assms(2))
qed

lemma wp_close_between:
  assumes "fair e" and "\<And>si' w'. calls_only w w' \<Longrightarrow> P (si', w')"
  shows "returns (close_between e cp res si nextStdIn w) P"
proof -
  note step = wp_from [of w, OF _ assms(1)] wp_call_from [of w]
  show ?thesis unfolding close_between_def Let_def by (auto intro!: step assms(2))
qed

text \<open>The children of the commands before command \<open>i\<close> have been made, and no other.\<close>

definition started :: "nat \<Rightarrow> (int array option \<times> int) set" where
  "started i = {(f, left). left = int i \<and> (\<forall>b pids. f = Some (b, pids) \<longrightarrow>
     (\<forall>k<length pids. if k < i then 0 < pids ! k else pids ! k = 0))}"

lemma started_next:
  assumes "(Some (b, pids), left) \<in> started i" and "0 < pid" and "i < length pids"
  shows "(Some (b, pids[i := pid]), left + 1) \<in> started (Suc i)"
  using assms by (auto simp: started_def nth_list_update)

lemma create_pipeline_returns:
  assumes "os_ok e" and "is_parent e" and "running F R (started i) cp0 cp w" and "i + n = NumberOfCommands cp0"
  shows "returns (create_pipeline e i n nextStdIn si cp w) (\<lambda>r. \<exists>ok cp' w'. r = Returned (ok, cp', w')
    \<and> running F R UNIV cp0 cp' w' \<and> (ok \<longrightarrow> running F R (started (NumberOfCommands cp0)) cp0 cp' w'))"
  using assms(3,4)
proof (induction n arbitrary: i nextStdIn si cp w)
  case 0
  then show ?case using running_mono by auto
next
  case (Suc n)
  note f = os_fair [OF assms(1)]
  let ?P = "\<lambda>r. \<exists>ok cp' w'. r = Returned (ok, cp', w') \<and> running F R UNIV cp0 cp' w'
    \<and> (ok \<longrightarrow> running F R (started (NumberOfCommands cp0)) cp0 cp' w')"
  from Suc.prems(2) have i: "i < NumberOfCommands cp0" by simp
  obtain b pids where pids: "ForkPIDs cp = Some (b, pids)" "length pids = NumberOfCommands cp0"
    using running_pids [OF Suc.prems(1) i] by blast
  have start: "(Some (b, pids), CommandsLeft cp) \<in> started i"
    using Suc.prems(1) pids(1) by (simp add: running_def)
  have step: "returns (do { r \<leftarrow> kwsysProcessCreate e cp i si' w1; case r of
        Exited w \<Rightarrow> Some (Exited w)
      | Returned (res, cp, si, w) \<Rightarrow>
          do { (si, w) \<leftarrow> close_between e cp res si next w;
               if res then create_pipeline e (Suc i) n next si cp w else Some (Returned (False, cp, w)) } }) ?P"
    if w1: "running F R (started i) cp0 cp w1" for si' "next" w1
    unfolding returns_bind
  proof (rule wp_Create [OF assms(1,2) w1 i pids(1)])
    fix cp' si' w2
    assume "running F R UNIV cp0 cp' w2"
    then show "returns (case Returned (False, cp', si', w2) of Returned (res, cp, si, w) \<Rightarrow>
          do { (si, w) \<leftarrow> close_between e cp res si next w;
               if res then create_pipeline e (Suc i) n next si cp w else Some (Returned (False, cp, w)) }
        | Exited w \<Rightarrow> Some (Exited w)) ?P"
      by (auto intro!: wp_close_between [OF f] simp: running_calls)
  next
    fix pid :: int and msg :: "byte list" and si' w2
    let ?cp = "cp\<lparr>ForkPIDs := Some (b, pids[i := pid]), CommandsLeft := CommandsLeft cp + 1, ErrorMessage := msg\<rparr>"
    assume "0 < pid" and r: "running F R UNIV cp0 ?cp w2"
    then have "(ForkPIDs ?cp, CommandsLeft ?cp) \<in> started (Suc i)"
      using started_next [OF start] pids(2) i by simp
    with r have "running F R (started (Suc i)) cp0 ?cp w2" by (simp add: running_def)
    then have "returns (create_pipeline e (Suc i) n next s ?cp v) ?P" if "calls_only w2 v" for s v
      using Suc.IH [of "Suc i" ?cp v "next" s] running_calls [OF that] Suc.prems(2) by simp
    then show "returns (case Returned (True, ?cp, si', w2) of Returned (res, cp, si, w) \<Rightarrow>
          do { (si, w) \<leftarrow> close_between e cp res si next w;
               if res then create_pipeline e (Suc i) n next si cp w else Some (Returned (False, cp, w)) }
        | Exited w \<Rightarrow> Some (Exited w)) ?P"
      unfolding outcome.case prod.case returns_bind by (auto intro!: wp_close_between [OF f])
  qed
  have run: "running F R (started i) cp0 cp w1" if "calls_only w w1" for w1
    using Suc.prems(1) running_calls [OF that] by simp
  have fail: "?P (Returned (False, cp, w1))" if "calls_only w w1" for w1
    using running_mono [OF run [OF that]] by blast
  show ?case
    unfolding create_pipeline.simps Let_def returns_bind
  proof (rule wp_next_pipe [OF f], unfold prod.case)
    fix ok :: bool and a c :: int and w1 :: world
    assume w1: "calls_only w w1"
    show "returns (if \<not> ok then Some (Returned (False, cp, w1))
      else do { r \<leftarrow> kwsysProcessCreate e cp i (si\<lparr>StdIn := nextStdIn, StdOut := c,
                  StdErr := if MergeOutput cp \<noteq> 0 then PipeChildStd cp 1 else PipeChildStd cp 2\<rparr>) w1;
                case r of Returned (res, cp, si, w) \<Rightarrow>
                    do { (si, w) \<leftarrow> close_between e cp res si a w;
                         if res then create_pipeline e (Suc i) n a si cp w else Some (Returned (False, cp, w)) }
                | Exited w \<Rightarrow> Some (Exited w) }) ?P"
      using step [OF run [OF w1]] fail [OF w1] by (cases ok) simp_all
  qed
qed

section \<open>Cleaning up and finishing\<close>

text \<open>The structure after an execution that has failed.\<close>

definition failed :: "nat multiset \<Rightarrow> nat list \<Rightarrow> kwsysProcess \<Rightarrow> kwsysProcess \<Rightarrow> world \<Rightarrow> bool" where
  "failed F R cp0 cp w \<longleftrightarrow> State cp = State_Error \<and> config_of cp = config_of cp0
     \<and> table_mem (F + run_blocks cp) w \<and> registered w = R
     \<and> messages_ok cp \<and> RealWorkingDirectory cp = None"

text \<open>No descriptor of the structure is left that the process would have to close.\<close>

definition descriptors_closed :: "kwsysProcess \<Rightarrow> bool" where
  "descriptors_closed cp \<longleftrightarrow> (\<forall>i<KWSYSPE_PIPE_COUNT. PipeReadEnds cp i \<le> 2) \<and> (\<forall>i<3. PipeChildStd cp i \<le> 2)"

lemma cleanup_error_returns:
  assumes "os_ok e" and "running F R X cp0 cp w"
  shows "returns (cleanup_error e cp w) (\<lambda>(cp', w'). calls_only w w'
    \<and> (\<exists>msg. length msg = length (ErrorMessage cp) \<and> cp' = cp\<lparr>ErrorMessage := msg, State := State_Error\<rparr>))"
proof -
  have ok: "fair e" "finite_trees e" "strings_end e" using assms(1) by (simp_all add: os_ok_def)
  have m: "length (ErrorMessage cp) = KWSYSPE_PIPE_BUFFER_SIZE + 1" and t: "terminated (RealWorkingDirectory cp)"
    and a: "arrays_ok cp" using assms(2) by (simp_all add: running_def messages_ok_def)
  obtain str where str: "c_string (strerror e (errno w)) = Some str" using ok(3) unfolding strings_end_def by blast
  let ?Q = "\<lambda>(cp', w'). calls_only w w'
    \<and> (\<exists>msg. length msg = length (ErrorMessage cp) \<and> cp' = cp\<lparr>ErrorMessage := msg, State := State_Error\<rparr>)"
  obtain b pids where p: "ForkPIDs cp = Some (b, pids)" "length pids = NumberOfCommands cp"
    using a by (auto simp: arrays_ok_def array_of_def)
  have dir: "returns (case RealWorkingDirectory cp of None \<Rightarrow> Some v
      | Some dir \<Rightarrow> do { (_, w) \<leftarrow> chdir_loop e dir v; Some w }) (calls_only w)" if "calls_only w v" for v
  proof (cases "RealWorkingDirectory cp")
    case None
    with that show ?thesis by simp
  next
    case (Some d)
    then obtain s where "c_string (snd d) = Some s" using t by (cases d) (auto simp: terminated_def)
    with Some show ?thesis
      by (auto intro!: wp_chdir_loop [OF ok(1)] simp: calls_only_trans [OF that])
  qed
  let ?c = "\<lambda>msg. cp\<lparr>ErrorMessage := msg, State := State_Error\<rparr>"
  have rest: "returns (do { w \<leftarrow> (case ForkPIDs (?c msg) of None \<Rightarrow> Some w
               | Some (_, pids) \<Rightarrow> do { pids \<leftarrow> mem_read pids 0 (NumberOfCommands (?c msg)); kill_children e pids w });
          w \<leftarrow> (case RealWorkingDirectory (?c msg) of None \<Rightarrow> Some w
               | Some dir \<Rightarrow> do { (_, w) \<leftarrow> chdir_loop e dir w; Some w });
          Some (?c msg, w) }) ?Q"
    if "length msg = length (ErrorMessage cp)" for msg
    using p that
    by (auto simp: mem_read_def intro!: wp_kill_children [OF ok(1,2)] returns_mono [OF dir])
  have msg: "returns (if ErrorMessage cp ! 0 = 0
      then strncpy (ErrorMessage cp) (strerror e (errno w)) KWSYSPE_PIPE_BUFFER_SIZE else Some (ErrorMessage cp))
    (\<lambda>msg. length msg = length (ErrorMessage cp))"
    using m strncpy_lit [OF str, of KWSYSPE_PIPE_BUFFER_SIZE "ErrorMessage cp"] by (auto simp: min_def)
  show ?thesis
    unfolding cleanup_error_def returns_bind Let_def
    by (rule returns_mono [OF msg]) (use rest in \<open>simp only: returns_bind\<close>)
qed

text \<open>What the cleanup without an error leaves.\<close>

definition cleaned :: "nat multiset \<Rightarrow> nat list \<Rightarrow> kwsysProcess \<Rightarrow> kwsysProcess \<Rightarrow> world \<Rightarrow> bool" where
  "cleaned F R cp cp' w \<longleftrightarrow> (\<exists>f g sp.
    cp' = cp\<lparr>SignalPipe := sp, ForkPIDs := None, RealWorkingDirectory := None, PipeReadEnds := f, PipeChildStd := g\<rparr>
    \<and> (OptionDetach cp = 0 \<longrightarrow> sp \<le> 2)) \<and> table_mem (F + run_blocks cp') w \<and> descriptors_closed cp' \<and> registered w = R"

lemma cleanedI:
  "cp' = cp\<lparr>SignalPipe := sp, ForkPIDs := None, RealWorkingDirectory := None, PipeReadEnds := f, PipeChildStd := g\<rparr>
    \<Longrightarrow> (OptionDetach cp = 0 \<longrightarrow> sp \<le> 2) \<Longrightarrow> table_mem (F + run_blocks cp') w \<Longrightarrow> descriptors_closed cp'
    \<Longrightarrow> registered w = R \<Longrightarrow> cleaned F R cp cp' w"
  unfolding cleaned_def by blast

lemma cleanup_resources_returns:
  assumes "fair e" and "table_mem (F + run_blocks cp) w"
  shows "returns (cleanup_resources e cp w) (\<lambda>(cp', w'). \<exists>f g.
    cp' = cp\<lparr>ForkPIDs := None, RealWorkingDirectory := None, PipeReadEnds := f, PipeChildStd := g\<rparr>
    \<and> table_mem (F + run_blocks cp') w' \<and> descriptors_closed cp' \<and> registered w' = registered w)"
proof -
  let ?G = "F + opt_block (CommandExitCodes cp) + opt_block (ProcessResults cp) + table_blocks (kwsysProcesses w)"
  have o: "owns (?G + opt_block (RealWorkingDirectory cp) + opt_block (ForkPIDs cp)) (heap w)"
    using assms(2) by (simp add: table_mem_def run_blocks_def ac_simps)
  show ?thesis
    unfolding cleanup_resources_def returns_bind Let_def
  proof (rule wp_free_array_owned [OF o], rule wp_free_array_owned, assumption,
      rule wp_cleanup_descriptors [OF assms(1)], unfold prod.case returns_bind,
      rule wp_cleanup_descriptors [OF assms(1)], unfold prod.case returns_Some, goal_cases)
    case (1 h1 h w1 w2)
    have c: "calls_only (w\<lparr>heap := h\<rparr>) w2" by (rule calls_only_trans [OF 1(3,4)])
    then have "heap w2 = h" "kwsysProcesses w2 = kwsysProcesses w"
      using calls_only_heap [OF c] calls_only_processes [OF c] by simp_all
    with 1(2) assms(2) show ?case
      by (auto simp: descriptors_closed_def table_mem_def run_blocks_def registered_def ac_simps)
  qed
qed

lemma Cleanup_returns:
  assumes "fair e" and "table_mem (F + run_blocks cp) w"
  shows "returns (kwsysProcessCleanup e cp False w) (\<lambda>(cp', w').
    cleaned F (if OptionDetach cp = 0 then remove1 (self cp) (registered w) else registered w) cp cp' w')"
proof (cases "OptionDetach cp = 0")
  case True
  show ?thesis
    unfolding kwsysProcessCleanup_def if_False returns_bind returns_Some prod.case True if_True simp_thms
  proof (rule returns_mono [OF ProcessesRemove_returns [OF assms]], unfold split_paired_all prod.case, elim conjE)
    fix cp' w'
    let ?sp = "if 2 < SignalPipe cp then - 1 else SignalPipe cp"
    assume t: "table_mem (F + run_blocks cp) w'" and r: "registered w' = remove1 (self cp) (registered w)"
      and c: "cp' = cp\<lparr>SignalPipe := ?sp\<rparr>"
    have t': "table_mem (F + run_blocks cp') w'" using t unfolding c by simp
    show "returns (cleanup_resources e cp' w') (\<lambda>(cp', w'). cleaned F (remove1 (self cp) (registered w)) cp cp' w')"
      by (rule returns_mono [OF cleanup_resources_returns [OF assms(1) t']], unfold split_paired_all prod.case, elim exE conjE,
          rule cleanedI [where sp = ?sp]) (simp_all add: c r)
  qed
next
  case False
  show ?thesis
    unfolding kwsysProcessCleanup_def using False
    by (simp, intro returns_mono [OF cleanup_resources_returns [OF assms]], unfold split_paired_all prod.case, elim exE conjE,
        intro cleanedI [where sp = "SignalPipe cp"]) simp_all
qed

text \<open>The cleanup after an error, with the process perhaps registered.\<close>

lemma remove_registered: "registers R cp R' \<Longrightarrow> self cp \<notin> set R
  \<Longrightarrow> (if OptionDetach cp = 0 then remove1 (self cp) R' else R') = R"
  by (auto simp: registers_def remove1_append remove1_idem)

lemma Cleanup_error_returns:
  assumes "os_ok e" and "running F R' X cp0 cp w" and "registers R cp0 R'" and "self cp0 \<notin> set R"
  shows "returns (kwsysProcessCleanup e cp True w) (\<lambda>(cp', w'). failed F R cp0 cp' w' \<and> descriptors_closed cp')"
proof -
  have split: "returns (kwsysProcessCleanup e cp True w) P"
    if "returns (cleanup_error e cp w) (\<lambda>(c, v). returns (kwsysProcessCleanup e c False v) P)" for P
    using that by (auto simp: kwsysProcessCleanup_def elim!: returns_mono)
  show ?thesis
  proof (rule split, rule returns_mono [OF cleanup_error_returns [OF assms(1,2)]], unfold split_paired_all prod.case, elim conjE exE)
    fix c v msg
    let ?c = "cp\<lparr>ErrorMessage := msg, State := State_Error\<rparr>"
    assume v: "calls_only w v" and msg: "length msg = length (ErrorMessage cp)" and c: "c = ?c"
    have run: "running F R' X cp0 cp v" using assms(2) running_calls [OF v] by blast
    then have mem: "table_mem (F + run_blocks ?c) v" and reg: "registered v = R'" and conf: "config_of ?c = config_of cp0"
      and len: "messages_ok ?c"
      using msg by (simp_all add: running_def messages_ok_def)
    from conf have "self ?c = self cp0" "OptionDetach ?c = OptionDetach cp0" by (simp_all add: config_of_eq)
    then have R: "(if OptionDetach ?c = 0 then remove1 (self ?c) (registered v) else registered v) = R"
      unfolding reg using remove_registered [OF assms(3,4)] by (auto split: if_splits)
    have fin: "failed F R cp0 cp' w' \<and> descriptors_closed cp'" if "cleaned F R ?c cp' w'" for cp' w'
      using that conf len unfolding cleaned_def by (auto simp: failed_def config_of_def messages_ok_def)
    show "returns (kwsysProcessCleanup e c False v) (\<lambda>(cp', w'). failed F R cp0 cp' w' \<and> descriptors_closed cp')"
      unfolding c using Cleanup_returns [OF os_fair [OF assms(1)] mem] fin unfolding R by (auto elim!: returns_mono)
  qed
qed

text \<open>The structure of a pipeline that executes.\<close>

definition executing :: "nat multiset \<Rightarrow> nat list \<Rightarrow> kwsysProcess \<Rightarrow> kwsysProcess \<Rightarrow> world \<Rightarrow> bool" where
  "executing F R cp0 cp w \<longleftrightarrow> State cp = State_Executing \<and> config_of cp = config_of cp0 \<and> Detached cp = OptionDetach cp0
     \<and> table_mem (F + run_blocks cp) w \<and> registered w = registered_list R cp0
     \<and> messages_ok cp \<and> arrays_ok cp \<and> RealWorkingDirectory cp = None
     \<and> \<not> Killed cp \<and> \<not> TimeoutExpired cp \<and> \<not> SelectError cp \<and> PipeSet cp = {} \<and> PipesLeft cp = 3
     \<and> (\<exists>b pids. ForkPIDs cp = Some (b, pids) \<and> (\<forall>pid\<in>set pids. 0 < pid)
          \<and> length pids = NumberOfCommands cp0 \<and> CommandsLeft cp = int (NumberOfCommands cp0))
     \<and> (\<forall>i<3. PipeChildStd cp i \<le> 2) \<and> in_range cp"

lemma execute_finish_returns:
  assumes "os_ok e" and r: "running F (registered_list R cp0) (started (NumberOfCommands cp0)) cp0 cp w"
  shows "returns (execute_finish e cp w) (\<lambda>(cp', w'). executing F R cp0 cp' w')"
proof -
  note f = os_fair [OF assms(1)]
  let ?n = "NumberOfCommands cp0"
  let ?fin = "\<lambda>c. c\<lparr>PipesLeft := int KWSYSPE_PIPE_COUNT, State := State_Executing, Detached := OptionDetach c\<rparr>"
  obtain b pids where p: "ForkPIDs cp = Some (b, pids)" "length pids = ?n"
    using r by (auto simp: running_def arrays_ok_def array_of_def config_of_eq)
  with r have left: "CommandsLeft cp = int ?n" and pos: "\<forall>pid\<in>set pids. 0 < pid"
    by (auto simp: running_def started_def in_set_conv_nth)
  let ?c = "cp\<lparr>PipeChildStd := \<lambda>i. if i \<in> set [0..<3] \<and> PipeChildStd cp i > 2 then -1 else PipeChildStd cp i\<rparr>"
  have fin: "executing F R cp0 (?fin c) v"
    if "c = ?c\<lparr>RealWorkingDirectory := None\<rparr>" "table_mem (F + run_blocks c) v" "registered v = registered_list R cp0" for c v
    using r that p left pos
    by (auto simp: executing_def running_def messages_ok_def arrays_ok_def config_of_eq run_blocks_def in_range_def)
  show ?thesis
    unfolding execute_finish_def returns_bind Let_def
  proof (rule wp_cleanup_descriptors [OF f], unfold prod.case returns_bind)
    fix v assume v: "calls_only w v"
    have rv: "running F (registered_list R cp0) (started ?n) cp0 ?c v"
      using r running_calls [OF v] by simp
    show "returns (case RealWorkingDirectory ?c of None \<Rightarrow> Some (?c, v)
        | Some dir \<Rightarrow> do { (_, w) \<leftarrow> chdir_loop e dir v; h \<leftarrow> free_array (RealWorkingDirectory ?c) (heap w);
                          Some (?c\<lparr>RealWorkingDirectory := None\<rparr>, w\<lparr>heap := h\<rparr>) })
      (\<lambda>x. returns (case x of (cp, w) \<Rightarrow> Some (?fin cp, w)) (\<lambda>(cp', w'). executing F R cp0 cp' w'))"
    proof (cases "RealWorkingDirectory cp")
      case None
      then have "?c = ?c\<lparr>RealWorkingDirectory := None\<rparr>" by simp
      with None show ?thesis using fin [of ?c v] rv by (simp add: running_def)
    next
      case (Some d)
      then obtain str where str: "c_string (snd d) = Some str"
        using r by (cases d) (auto simp: running_def terminated_def)
      have free: "returns (free_array (Some d) (heap u)) (\<lambda>h.
          executing F R cp0 (?fin (?c\<lparr>RealWorkingDirectory := None\<rparr>)) (u\<lparr>heap := h\<rparr>))"
        if u: "calls_only v u" for u
      proof -
        have ru: "running F (registered_list R cp0) (started ?n) cp0 ?c u" using rv running_calls [OF u] by blast
        let ?G = "F + run_blocks (?c\<lparr>RealWorkingDirectory := None\<rparr>) + table_blocks (kwsysProcesses u)"
        have "owns (?G + opt_block (Some d)) (heap u)"
          using ru Some by (cases d) (simp add: running_def table_mem_def run_blocks_def ac_simps)
        then show ?thesis
        proof (rule wp_free_array_owned)
          fix h assume "owns ?G h"
          then have m: "table_mem (F + run_blocks (?c\<lparr>RealWorkingDirectory := None\<rparr>)) (u\<lparr>heap := h\<rparr>)"
            and "registered (u\<lparr>heap := h\<rparr>) = registered_list R cp0"
            using ru by (simp_all add: running_def table_mem_def registered_def)
          then show "executing F R cp0 (?fin (?c\<lparr>RealWorkingDirectory := None\<rparr>)) (u\<lparr>heap := h\<rparr>)"
            by (intro fin) simp_all
        qed
      qed
      show ?thesis
        using Some free by (auto intro!: wp_chdir_loop [OF f str])
    qed
  qed
qed

section \<open>The outcome of an execution\<close>

text \<open>
  What a structure that is not executing has between two calls: its run has no working directory
  and it is not registered; and what is relied on when it is executed.
\<close>

definition idle :: "nat multiset \<Rightarrow> kwsysProcess \<Rightarrow> world \<Rightarrow> bool" where
  "idle F cp w \<longleftrightarrow> State cp \<noteq> State_Executing \<and> table_mem (F + run_blocks cp) w \<and> messages_ok cp
     \<and> RealWorkingDirectory cp = None \<and> self cp \<notin> set (registered w)"

definition execute_ok :: "env \<Rightarrow> kwsysProcess \<Rightarrow> bool" where
  "execute_ok e cp \<longleftrightarrow> os_ok e \<and> is_parent e \<and> strings_ok cp"

lemma running_start_clock:
  "running F R X cp0 cp w \<Longrightarrow> start_clock e cp w = (cp', w') \<Longrightarrow> running F R X cp0 cp' w'"
  by (auto simp: start_clock_def kwsysProcessTimeGetCurrent_def Let_def split_beta running_call)

lemma cleanup_and_return_returns:
  assumes "os_ok e" and "running F R' X cp0 cp w" and "registers R cp0 R'" and "self cp0 \<notin> set R"
  shows "returns (cleanup_and_return e cp w) (\<lambda>r. \<exists>cp' w'. r = Returned (cp', w') \<and> failed F R cp0 cp' w')"
  using Cleanup_error_returns [OF assms]
  by (auto simp: cleanup_and_return_def returns_def)

lemma Initialize_failed:
  assumes "messages_ok cp'" and "initialized cp False cp'" and "table_mem (F + run_blocks cp') w"
  shows "returns (strcpy (ErrorMessage cp') (lit ''Out of memory'')) (\<lambda>msg.
    failed F (registered w) cp (cp'\<lparr>ErrorMessage := msg, State := State_Error\<rparr>) w)"
proof -
  let ?s = "ascii ''Out of memory''"
  have l: "c_string (lit ''Out of memory'') = Some ?s" by (simp add: lit_def ascii_def)
  have "length ?s = 13" by (simp add: ascii_def)
  with assms(1) have "mem_write (ErrorMessage cp') 0 (?s @ [0]) \<noteq> None"
    by (simp add: mem_write_def messages_ok_def)
  then obtain msg where m: "mem_write (ErrorMessage cp') 0 (?s @ [0]) = Some msg" by blast
  then have "length msg = length (ErrorMessage cp')" by (auto simp: mem_write_def split: if_splits)
  with assms show ?thesis
    unfolding strcpy_def l returns_bind returns_Some m
    by (simp add: failed_def initialized_def messages_ok_def config_of_def)
qed

lemma execute_run_returns:
  assumes "execute_ok e cp0" and "self cp0 \<notin> set R" and "initialized cp0 True cp" and "table_mem (F + run_blocks cp) w"
    and "registered w = R" and "getcwd_answers e cp0 w"
  shows "returns (execute_run e cp w)
    (\<lambda>r. \<exists>cp' w'. r = Returned (cp', w') \<and> (executing F R cp0 cp' w' \<or> failed F R cp0 cp' w'))" (is "returns _ ?P")
proof -
  have os: "os_ok e" "is_parent e" "strings_ok cp0"
    using assms(1) by (simp_all add: execute_ok_def)
  let ?n = "NumberOfCommands cp0" and ?L = "registered_list R cp0"
  have reg: "registers R cp0 ?L" by (simp add: registers_def registered_list_def)
  have start: "(ForkPIDs cp, 0) \<in> started 0" using assms(3) by (auto simp: initialized_def started_def)
  have clean: "returns (cleanup_and_return e c v) ?P" if "running F R' X cp0 c v" "registers R cp0 R'" for R' X c v
    by (rule returns_mono [OF cleanup_and_return_returns [OF os(1) that assms(2)]]) blast
  have pipeline: "returns (do { r \<leftarrow> create_pipeline e 0 (NumberOfCommands c) fd si c v;
                case r of Exited w \<Rightarrow> Some (Exited w)
                | Returned (ok, cp, w) \<Rightarrow>
                    if ok then map_option Returned (execute_finish e cp w) else cleanup_and_return e cp w }) ?P"
    if r: "running F ?L {(ForkPIDs cp, 0)} cp0 c v" for c v fd si
  proof -
    have r0: "running F ?L (started 0) cp0 c v" and n: "0 + NumberOfCommands c = ?n"
      using r start by (auto simp: running_def config_of_eq)
    show ?thesis
      unfolding returns_bind
    proof (rule returns_mono [OF create_pipeline_returns [OF os(1,2) r0 n]], elim exE conjE)
      fix r ok c' v'
      assume r': "r = Returned (ok, c', v')" "running F ?L UNIV cp0 c' v'"
        "ok \<longrightarrow> running F ?L (started ?n) cp0 c' v'"
      show "returns (case r of Returned (ok, cp, w) \<Rightarrow>
          if ok then map_option Returned (execute_finish e cp w) else cleanup_and_return e cp w
        | Exited w \<Rightarrow> Some (Exited w)) ?P"
      proof (cases ok)
        case True
        with r' execute_finish_returns [OF os(1), of F R cp0 c' v'] show ?thesis
          by (auto simp: returns_def)
      next
        case False
        with r' clean [OF r'(2) reg] show ?thesis by simp
      qed
    qed
  qed
  show ?thesis
    unfolding execute_run_def returns_bind
  proof (rule returns_mono [OF setup_returns [OF os(1,3) assms(6,3-5)]], unfold split_paired_all prod.case, elim exE conjE)
    fix ok c v R'
    assume s: "registers R cp0 R'" "running F R' UNIV cp0 c v" "ok \<longrightarrow> running F ?L {(ForkPIDs cp, 0)} cp0 c v"
    obtain c1 v1 where k: "start_clock e c v = (c1, v1)" by fastforce
    show "returns (if \<not> ok then cleanup_and_return e c v
        else let (cp, w) = start_clock e c v in do {
                r \<leftarrow> create_pipeline e 0 (NumberOfCommands cp) (PipeChildStd cp 0) initial_si cp w;
                case r of Exited w \<Rightarrow> Some (Exited w)
                | Returned (ok, cp, w) \<Rightarrow>
                    if ok then map_option Returned (execute_finish e cp w) else cleanup_and_return e cp w }) ?P"
      using clean [OF s(2,1)] pipeline [OF running_start_clock [OF _ k]] s(3) by (simp add: k)
  qed
qed

text \<open>A stage that, when it returns, goes on.\<close>

definition goes_on :: "'s stage \<Rightarrow> bool" where
  "goes_on s \<longleftrightarrow> (\<forall>cp w ok cp' w'. s cp w = Some (ok, cp', w') \<longrightarrow> ok)"

lemma run_stages_go_on:
  "\<forall>s\<in>set ss. goes_on s \<Longrightarrow> run_stages ss cp w = Some (ok, cp', w') \<Longrightarrow> ok"
proof (induction ss arbitrary: cp w)
  case (Cons s ss)
  then obtain k c v where k: "s cp w = Some (k, c, v)" by (auto simp: bind_eq_Some_conv)
  then have k1: k using Cons.prems(1) unfolding goes_on_def by (metis list.set_intros(1))
  with Cons.prems k have "run_stages ss c v = Some (ok, cp', w')" by simp
  with Cons show ?case by simp
qed simp

lemma alloc_goes_on:
  assumes "all_ok (alloc_ok e)"
  shows "goes_on (alloc_pids e)" "goes_on (alloc_codes e)" "goes_on (alloc_results e)" "goes_on (alloc_directory e)"
proof -
  have m: "fst (malloc (alloc_ok e) n h) \<noteq> None" for n h using assms by (simp add: malloc_def all_ok_def)
  show "goes_on (alloc_pids e)" "goes_on (alloc_codes e)" "goes_on (alloc_results e)" "goes_on (alloc_directory e)"
    unfolding goes_on_def alloc_pids_def alloc_codes_def alloc_results_def alloc_directory_def Let_def split_beta
    using m by (auto simp: bind_eq_Some_conv split: if_splits)
qed

text \<open>The initialisation of a structure that is idle.\<close>

lemma Execute_initializes:
  assumes "idle F cp w" and "0 < NumberOfCommands cp"
  shows "returns (kwsysProcessInitialize e cp (heap w)) (\<lambda>(ok, c, h). initialized cp ok c
    \<and> table_mem (F + run_blocks c) (w\<lparr>heap := h\<rparr>) \<and> registered (w\<lparr>heap := h\<rparr>) = registered w
    \<and> (all_ok (alloc_ok e) \<longrightarrow> ok)
    \<and> Execute e cp w = (if ok then execute_run e c (w\<lparr>heap := h\<rparr>)
        else do { msg \<leftarrow> strcpy (ErrorMessage c) (lit ''Out of memory'');
                  Some (Returned (c\<lparr>ErrorMessage := msg, State := State_Error\<rparr>, w\<lparr>heap := h\<rparr>)) }))"
proof -
  have i: "State cp \<noteq> State_Executing" "table_mem (F + run_blocks cp) w" "messages_ok cp" "RealWorkingDirectory cp = None"
    using assms(1) by (simp_all add: idle_def)
  have o: "owns ((F + table_blocks (kwsysProcesses w)) + run_blocks cp) (heap w)" and t: "table_ok (kwsysProcesses w)"
    using i(2) by (simp_all add: table_mem_def ac_simps)
  obtain ok c h where init: "kwsysProcessInitialize e cp (heap w) = Some (ok, c, h)"
    and c: "owns ((F + table_blocks (kwsysProcesses w)) + run_blocks c) h" "initialized cp ok c"
    using Initialize_returns [OF o i(3,4), of e] by (auto simp: returns_def)
  have "ok" if "all_ok (alloc_ok e)"
    using run_stages_go_on [OF _ init [unfolded kwsysProcessInitialize_def]] alloc_goes_on [OF that] by simp
  then show ?thesis
    using init c t i(1) assms(2) by (simp add: Execute_def table_mem_def registered_def ac_simps)
qed

text \<open>Without a current directory to come back to, the cleanup reads a buffer that was never written.\<close>

lemma kill_children_zero [simp]: "kill_children e (replicate n 0) w = Some w"
  by (induction n arbitrary: w) simp_all

lemma execute_run_undefined:
  assumes "initialized cp0 True c" and "\<not> getcwd_answers e cp0 w"
  shows "execute_run e c w = None"
proof -
  have wd: "WorkingDirectory cp0 \<noteq> None" and r: "ret (sys e (S_getcwd MAXPATHLEN # trace w)) < 0"
    using assms(2) by (auto simp: getcwd_answers_def)
  obtain b dir where d: "WorkingDirectory c = Some dir" "RealWorkingDirectory c = Some (b, [])"
    using assms(1) wd by (auto simp: initialized_def config_of_eq)
  obtain p where p: "ForkPIDs c = Some (p, replicate (NumberOfCommands cp0) 0)" using assms(1) by (auto simp: initialized_def)
  let ?q = "call e (S_getcwd MAXPATHLEN) w"
  have "enter_directory e c w = Some (False, c, snd ?q)"
    using d r by (simp add: enter_directory_def split_beta call_reply)
  then have run: "execute_run e c w = cleanup_and_return e c (snd ?q)" by (simp add: execute_run_def setup_stages_def)
  have "cleanup_error e c (snd ?q) = None"
    using p d(2) by (auto simp: cleanup_error_def Let_def mem_read_def chdir_loop_def bind_eq_None_conv)
  then show ?thesis by (simp add: run cleanup_and_return_def kwsysProcessCleanup_def)
qed

text \<open>Partial correctness, for code that may be undefined or wait for ever.\<close>

definition whenever :: "'a option \<Rightarrow> ('a \<Rightarrow> bool) \<Rightarrow> bool" where
  "whenever m P \<longleftrightarrow> (\<forall>x. m = Some x \<longrightarrow> P x)"

lemma whenever_simps [simp]:
  "whenever (Some x) P \<longleftrightarrow> P x" "whenever None P"
  "whenever (Option.bind m f) P \<longleftrightarrow> whenever m (\<lambda>x. whenever (f x) P)"
  by (auto simp: whenever_def bind_eq_Some_conv)

lemma whenever_mono: "whenever m Q \<Longrightarrow> (\<And>x. Q x \<Longrightarrow> P x) \<Longrightarrow> whenever m P"
  by (auto simp: whenever_def)

lemma returns_whenever: "returns m Q \<Longrightarrow> (\<And>x. Q x \<Longrightarrow> P x) \<Longrightarrow> whenever m P"
  by (auto simp: whenever_def returns_def)

lemma whenever_returns: "whenever m P \<Longrightarrow> m \<noteq> None \<Longrightarrow> returns m P"
  by (auto simp: whenever_def returns_def)

definition execute_outcome :: "nat multiset \<Rightarrow> nat list \<Rightarrow> kwsysProcess \<Rightarrow> (kwsysProcess \<times> world) outcome \<Rightarrow> bool" where
  "execute_outcome F R cp r \<longleftrightarrow> (\<exists>cp' w'. r = Returned (cp', w') \<and> (executing F R cp cp' w' \<or> failed F R cp cp' w'))"

lemma Execute_whenever:
  assumes "idle F cp w" and "execute_ok e cp"
  shows "whenever (Execute e cp w) (execute_outcome F (registered w) cp)"
    and "getcwd_answers e cp w \<Longrightarrow> Execute e cp w \<noteq> None"
proof -
  have i: "State cp \<noteq> State_Executing" "table_mem (F + run_blocks cp) w" "messages_ok cp"
    "RealWorkingDirectory cp = None" "self cp \<notin> set (registered w)" using assms(1) by (simp_all add: idle_def)
  have "whenever (Execute e cp w) (execute_outcome F (registered w) cp) \<and> (getcwd_answers e cp w \<longrightarrow> Execute e cp w \<noteq> None)"
  proof (cases "NumberOfCommands cp < 1")
    case True
    have "c_string (lit ''No command'') = Some (ascii ''No command'')" by (simp add: lit_def ascii_def)
    then show ?thesis
      using True i
      by (auto simp: Execute_def strcpy_def mem_write_def messages_ok_def ascii_def failed_def config_of_def execute_outcome_def)
  next
    case False
    then have "0 < NumberOfCommands cp" by simp
    then obtain ok c h where c: "initialized cp ok c" "table_mem (F + run_blocks c) (w\<lparr>heap := h\<rparr>)"
      "registered (w\<lparr>heap := h\<rparr>) = registered w"
      "Execute e cp w = (if ok then execute_run e c (w\<lparr>heap := h\<rparr>)
        else do { msg \<leftarrow> strcpy (ErrorMessage c) (lit ''Out of memory'');
                  Some (Returned (c\<lparr>ErrorMessage := msg, State := State_Error\<rparr>, w\<lparr>heap := h\<rparr>)) })"
      using Execute_initializes [OF assms(1), of e] by (auto elim!: returnsE)
    consider (run) "ok" "getcwd_answers e cp w" | (undefined) "ok" "\<not> getcwd_answers e cp w" | (memory) "\<not> ok" by blast
    then show ?thesis
    proof cases
      case run
      with execute_run_returns [OF assms(2) i(5) _ c(2,3)] c(1,4) show ?thesis
        by (auto simp: whenever_def returns_def execute_outcome_def)
    next
      case undefined
      then have "execute_run e c (w\<lparr>heap := h\<rparr>) = None" using c(1) execute_run_undefined [of cp c e] by simp
      with undefined c(4) show ?thesis by simp
    next
      case memory
      then have "messages_ok c" "initialized cp False c" using c(1) by (simp_all add: initialized_def)
      from Initialize_failed [OF this c(2)] memory c(3,4) show ?thesis
        by (auto simp: whenever_def returns_def execute_outcome_def)
    qed
  qed
  then show "whenever (Execute e cp w) (execute_outcome F (registered w) cp)"
    and "getcwd_answers e cp w \<Longrightarrow> Execute e cp w \<noteq> None" by simp_all
qed

lemma Execute_returns:
  assumes "idle F cp w" and "execute_ok e cp" and "getcwd_answers e cp w"
  shows "returns (Execute e cp w) (\<lambda>r. \<exists>cp' w'. r = Returned (cp', w')
    \<and> (executing F (registered w) cp cp' w' \<or> failed F (registered w) cp cp' w'))"
  by (rule returns_mono [OF whenever_returns [OF Execute_whenever(1) [OF assms(1,2)] Execute_whenever(2) [OF assms]]])
    (simp add: execute_outcome_def)

text \<open>
  An environment for the examples: what \<open>fork\<close>, \<open>getcwd\<close> and \<open>waitpid\<close> answer, the status of a
  child, and the bytes a read of a whole buffer delivers.
\<close>

definition run_env :: "int \<Rightarrow> int \<Rightarrow> int \<Rightarrow> int \<Rightarrow> byte list \<Rightarrow> env" where
  "run_env pid cwd child code bytes = \<lparr>sys = (\<lambda>tr. \<lparr>ret = (case tr of S_fork # _ \<Rightarrow> pid | S_getcwd _ # _ \<Rightarrow> cwd
       | S_waitpid _ _ # _ \<Rightarrow> child | S_read _ n # _ \<Rightarrow> if n = 4 then 4 else if n = 1024 then int (length bytes) else 0
       | _ \<Rightarrow> 0), err = ECHILD, fds = (3, 4),
     payload = (case tr of S_read _ n # _ \<Rightarrow> if n = 4 then pid_bytes 7 else bytes | S_getcwd _ # _ \<Rightarrow> lit ''/'' | _ \<Rightarrow> []),
     status = code, ready = {}, rest_time = None, old_mask = {}, old_action = default_action,
     clock = (0, 0), names = []\<rparr>), alloc_ok = \<lambda>_ _. True, strerror = \<lambda>_. lit ''error''\<rparr>"

lemma run_env_os_ok:
  assumes "length bytes \<le> 1024"
  shows "os_ok (run_env pid cwd child code bytes)"
proof -
  let ?e = "run_env pid cwd child code bytes"
  have b: "length (pid_bytes 7) = 4" "bytes_pid (pid_bytes 7) = Some 7" by code_simp+
  have "\<not> child_seen ?e p tr c tr'" for p tr c tr'
  proof
    assume "child_seen ?e p tr c tr'"
    then show False
      by cases (auto simp: proc_child_def run_env_def call_def Let_def ps_listed_def scan_header_def split: option.splits if_splits)
  qed
  then have "finite_trees ?e" unfolding finite_trees_def by (intro wf_subset [OF wf_measure [of "\<lambda>_. 0"]]) auto
  then show ?thesis
    using b assms by (simp add: os_ok_def fair_def interrupted_def read_ok_def pipe_ends_def pid_arrives_def strings_end_def
        pipes_small_def FD_SETSIZE_def Let_def run_env_def lit_def errno_consts)
qed

lemma run_env_parent:
  "pid \<noteq> 0 \<Longrightarrow> is_parent (run_env pid cwd child code bytes)" "0 \<le> cwd \<Longrightarrow> getcwd_answers (run_env pid cwd child code bytes) cp w"
  by (simp_all add: run_env_def is_parent_def getcwd_answers_def)

definition one_command :: kwsysProcess where
  "one_command = (initial_process 5)\<lparr>Commands := Some (6, [(7, [(8, lit ''true'')])]), NumberOfCommands := 1\<rparr>"

definition run_world :: world where
  "run_world = example_world\<lparr>heap := \<lparr>calls = 9, live = [5, 6, 7, 8]\<rparr>\<rparr>"

lemma one_command_idle: "idle {#5, 6, 7, 8#} one_command run_world" "registered run_world = []"
  by (simp_all add: idle_def one_command_def run_world_def initial_process_def table_mem_def owns_def example_world_def
      table_blocks_def table_ok_def registered_def run_blocks_def messages_ok_def)

lemma one_command_ok: "execute_ok (run_env 7 0 0 0 []) one_command"
  using run_env_os_ok [of "[]"] run_env_parent [of 7 0]
  by (simp add: execute_ok_def strings_ok_def one_command_def initial_process_def terminated_def)



end
