(* ===== verification/ProcessWait.thy ===== *)
theory ProcessWait
  imports ProcessRun
begin

text \<open>
  Reading the output of the pipeline and waiting for its end: \<open>kwsysProcess_WaitForData\<close>,
  \<open>kwsysProcessWaitForPipe\<close> (with \<open>select\<close>), \<open>kwsysProcessDestroy\<close>, \<open>kwsysProcess_Kill\<close>,
  \<open>kwsysProcess_Interrupt\<close>, \<open>kwsysProcess_WaitForExit\<close>, \<open>kwsysProcess_Disown\<close> and
  \<open>kwsysProcess_Delete\<close> of \<^verbatim>\<open>kwsys/ProcessUNIX.c\<close>.  A loop that may wait for ever is a
  \<open>partial_function\<close>.
\<close>

section \<open>Descriptor sets\<close>

text \<open>A descriptor outside the range of a set is undefined behaviour.\<close>

definition fd_in_range :: "int \<Rightarrow> bool" where
  "fd_in_range fd \<longleftrightarrow> 0 \<le> fd \<and> fd < FD_SETSIZE"

definition FD_ISSET :: "int \<Rightarrow> int set \<Rightarrow> bool option" where
  "FD_ISSET fd s = (if fd_in_range fd then Some (fd \<in> s) else None)"

definition FD_SET :: "int \<Rightarrow> int set \<Rightarrow> int set option" where
  "FD_SET fd s = (if fd_in_range fd then Some (insert fd s) else None)"

definition FD_CLR :: "int \<Rightarrow> int set \<Rightarrow> int set option" where
  "FD_CLR fd s = (if fd_in_range fd then Some (s - {fd}) else None)"

section \<open>Closing the pipes and killing\<close>

fun close_pipes :: "env \<Rightarrow> nat list \<Rightarrow> kwsysProcess \<Rightarrow> world \<Rightarrow> (kwsysProcess \<times> world) option" where
  "close_pipes e [] cp w = Some (cp, w)"
| "close_pipes e (i # is) cp w =
     (if PipeReadEnds cp i \<ge> 0
      then do { isset \<leftarrow> FD_ISSET (PipeReadEnds cp i) (PipeSet cp);
                (cp, w) \<leftarrow> (if isset
                  then do { s \<leftarrow> FD_CLR (PipeReadEnds cp i) (PipeSet cp);
                            (_, buf, w) \<leftarrow> read_into e (PipeReadEnds cp i) (PipeBuffer cp) 0 KWSYSPE_PIPE_BUFFER_SIZE w;
                            Some (cp\<lparr>PipeSet := s, PipeBuffer := buf\<rparr>, w) }
                  else Some (cp, w));
                (fd, w) \<leftarrow> kwsysProcessCleanupDescriptor e (PipeReadEnds cp i) w;
                close_pipes e is (cp\<lparr>PipeReadEnds := (PipeReadEnds cp)(i := fd), PipesLeft := PipesLeft cp - 1\<rparr>) w }
      else close_pipes e is cp w)"

definition kwsysProcessClosePipes :: "env \<Rightarrow> kwsysProcess \<Rightarrow> world \<Rightarrow> (kwsysProcess \<times> world) option" where
  "kwsysProcessClosePipes e cp w = close_pipes e [0..<KWSYSPE_PIPE_COUNT] cp w"

text \<open>The children of the structure; they are read through the pointer.\<close>

definition fork_pids :: "kwsysProcess \<Rightarrow> int list option" where
  "fork_pids cp =
     (case ForkPIDs cp of None \<Rightarrow> None | Some (_, pids) \<Rightarrow> mem_read pids 0 (NumberOfCommands cp))"

definition Kill :: "env \<Rightarrow> kwsysProcess \<Rightarrow> world \<Rightarrow> (kwsysProcess \<times> world) option" where
  "Kill e cp w =
     (if State cp \<noteq> State_Executing then Some (cp, w)
      else do { (fd, w) \<leftarrow> kwsysProcessCleanupDescriptor e (SignalPipe cp) w;
                (cp, w) \<leftarrow> kwsysProcessClosePipes e (cp\<lparr>SignalPipe := fd\<rparr>) w;
                let cp = cp\<lparr>Killed := True\<rparr>;
                pids \<leftarrow> fork_pids cp;
                w \<leftarrow> kill_children e pids w;
                Some (cp\<lparr>CommandsLeft := 0\<rparr>, w) })"

definition Interrupt :: "env \<Rightarrow> kwsysProcess \<Rightarrow> world \<Rightarrow> world option" where
  "Interrupt e cp w =
     (if State cp \<noteq> State_Executing \<or> TimeoutExpired cp \<or> Killed cp then Some w
      else if CreateProcessGroup cp \<noteq> 0
      then (if ForkPIDs cp = None then Some w
            else do { pids \<leftarrow> fork_pids cp; Some (interrupt_groups e pids w) })
      else Some (snd (call e (S_kill 0 SIGINT) w)))"

section \<open>Reaping\<close>

text \<open>The exit code of a child that has ended is stored.\<close>

definition store_exit_code :: "kwsysProcess \<Rightarrow> nat \<Rightarrow> int \<Rightarrow> kwsysProcess option" where
  "store_exit_code cp i code =
     (case CommandExitCodes cp of
        None \<Rightarrow> None
      | Some (b, codes) \<Rightarrow>
          if i < length codes then Some (cp\<lparr>CommandExitCodes := Some (b, codes[i := code])\<rparr>) else None)"

text \<open>The loop of \<open>kwsysProcessDestroy\<close>: one child.\<close>

definition reap_child :: "env \<Rightarrow> nat \<Rightarrow> kwsysProcess \<Rightarrow> world \<Rightarrow> (kwsysProcess \<times> world) option" where
  "reap_child e i cp w =
     do { (_, pids) \<leftarrow> ForkPIDs cp;
          if i \<ge> length pids then None
          else if pids ! i = 0 then Some (cp, w)
          else do { (r, w) \<leftarrow> retry e (S_waitpid (pids ! i) True) w;
                    if ret r > 0
                    then do { cp \<leftarrow> store_exit_code cp i (status r);
                              cp \<leftarrow> set_pid cp i 0;
                              let cp = cp\<lparr>CommandsLeft := CommandsLeft cp - 1\<rparr>;
                              (fd, w) \<leftarrow> (if CommandsLeft cp = 0
                                          then kwsysProcessCleanupDescriptor e (SignalPipe cp) w
                                          else Some (SignalPipe cp, w));
                              Some (cp\<lparr>SignalPipe := fd\<rparr>, w) }
                    else if ret r < 0 \<and> State cp \<noteq> State_Error
                    then do { msg \<leftarrow> strncpy (ErrorMessage cp) (strerror e (errno w)) KWSYSPE_PIPE_BUFFER_SIZE;
                              Some (cp\<lparr>ErrorMessage := msg, State := State_Error\<rparr>, w) }
                    else Some (cp, w) } }"

fun reap_children :: "env \<Rightarrow> nat list \<Rightarrow> kwsysProcess \<Rightarrow> world \<Rightarrow> (kwsysProcess \<times> world) option" where
  "reap_children e [] cp w = Some (cp, w)"
| "reap_children e (i # is) cp w = do { (cp, w) \<leftarrow> reap_child e i cp w; reap_children e is cp w }"

definition kwsysProcessDestroy :: "env \<Rightarrow> kwsysProcess \<Rightarrow> world \<Rightarrow> (kwsysProcess \<times> world) option" where
  "kwsysProcessDestroy e cp w =
     (let (r, w) = call e (S_sigprocmask SIG_BLOCK {SIGINT, SIGTERM}) w
      in if ret r < 0 then Some (cp, w)
         else do { (cp, w) \<leftarrow> reap_children e [0..<NumberOfCommands cp] cp w;
                   Some (cp, snd (call e (S_sigprocmask SIG_SETMASK (old_mask r)) w)) })"

section \<open>Waiting for data\<close>

text \<open>\<open>kwsysProcessWaitData\<close>; the user timeout is its value.\<close>

record kwsysProcessWaitData =
  Expired :: bool
  PipeId :: int
  User :: bool
  UserTimeout :: "real option"
  wdTimeoutTime :: kwsysProcessTime

text \<open>
  The first loop of \<open>kwsysProcessWaitForPipe\<close>, over the pipes the last \<open>select\<close> reported: one
  pipe.  The result is the data and the pipe it returns with, if it returns there.
\<close>

definition handle_pipe ::
  "env \<Rightarrow> bool \<Rightarrow> nat \<Rightarrow> kwsysProcess \<Rightarrow> world \<Rightarrow> ((byte list \<times> int) option \<times> kwsysProcess \<times> world) option" where
  "handle_pipe e want i cp w =
     do { isset \<leftarrow> (if PipeReadEnds cp i \<ge> 0 then FD_ISSET (PipeReadEnds cp i) (PipeSet cp) else Some False);
          if \<not> isset then Some (None, cp, w)
          else do { s \<leftarrow> FD_CLR (PipeReadEnds cp i) (PipeSet cp);
                    (n, buf, w) \<leftarrow> read_into e (PipeReadEnds cp i) (PipeBuffer cp) 0 KWSYSPE_PIPE_BUFFER_SIZE w;
                    let cp = cp\<lparr>PipeSet := s, PipeBuffer := buf\<rparr>;
                    if n > 0
                    then if i = KWSYSPE_PIPE_SIGNAL
                         then do { (cp, w) \<leftarrow> kwsysProcessDestroy e cp w; Some (None, cp, w) }
                         else if want
                         then Some (Some (take (nat n) buf,
                                if i = KWSYSPE_PIPE_STDOUT then Pipe_STDOUT else Pipe_STDERR), cp, w)
                         else Some (None, cp, w)
                    else if n < 0 \<and> errno w = EAGAIN then Some (None, cp, w)
                    else do { (fd, w) \<leftarrow> kwsysProcessCleanupDescriptor e (PipeReadEnds cp i) w;
                              Some (None, cp\<lparr>PipeReadEnds := (PipeReadEnds cp)(i := fd), PipesLeft := PipesLeft cp - 1\<rparr>, w) } } }"

fun handle_pipes ::
  "env \<Rightarrow> bool \<Rightarrow> nat list \<Rightarrow> kwsysProcess \<Rightarrow> world \<Rightarrow> ((byte list \<times> int) option \<times> kwsysProcess \<times> world) option" where
  "handle_pipes e want [] cp w = Some (None, cp, w)"
| "handle_pipes e want (i # is) cp w =
     do { (found, cp, w) \<leftarrow> handle_pipe e want i cp w;
          if found \<noteq> None then Some (found, cp, w) else handle_pipes e want is cp w }"

text \<open>The read ends that are still open, and the largest.\<close>

fun add_read_ends :: "nat list \<Rightarrow> kwsysProcess \<Rightarrow> int \<Rightarrow> int set \<Rightarrow> (int \<times> int set) option" where
  "add_read_ends [] cp m s = Some (m, s)"
| "add_read_ends (i # is) cp m s =
     (if PipeReadEnds cp i \<ge> 0
      then do { s \<leftarrow> FD_SET (PipeReadEnds cp i) s; add_read_ends is cp (max m (PipeReadEnds cp i)) s }
      else add_read_ends is cp m s)"

text \<open>\<open>select\<close> until it is not interrupted; Linux stores the rest of the timeout.\<close>

partial_function (option) select_retry ::
  "env \<Rightarrow> int \<Rightarrow> int set \<Rightarrow> kwsysProcessTime option \<Rightarrow> world \<Rightarrow> (reply \<times> world) option" where
  "select_retry e n s timeout w =
     (let (r, w) = call e (S_select n s timeout) w
      in if ret r < 0 \<and> errno w = EINTR
         then select_retry e n s (if timeout = None then None else rest_time r) w else Some (r, w))"

text \<open>Waiting for the next pipe to be ready: the result of the C function.\<close>

definition wait_select ::
  "env \<Rightarrow> kwsysProcess \<Rightarrow> kwsysProcessWaitData \<Rightarrow> world
     \<Rightarrow> (bool \<times> kwsysProcess \<times> kwsysProcessWaitData \<times> world) option" where
  "wait_select e cp wd w =
     (let cp = cp\<lparr>PipeSet := {}\<rparr>;
          ((expired, len), w) = kwsysProcessGetTimeoutLeft e (wdTimeoutTime wd)
             (if User wd then UserTimeout wd else None) False w;
          timeout = (if tv_sec (wdTimeoutTime wd) < 0 then None else len)
      in if expired then Some (True, cp, wd\<lparr>Expired := True\<rparr>, w)
         else do { (m, s) \<leftarrow> add_read_ends [0..<KWSYSPE_PIPE_COUNT] cp (-1) (PipeSet cp);
                   let cp = cp\<lparr>PipeSet := s\<rparr>;
                   if m < 0 then Some (True, cp, wd, w)
                   else do { (r, w) \<leftarrow> select_retry e (m + 1) s timeout w;
                             let cp = (if ret r < 0 then cp else cp\<lparr>PipeSet := ready r \<inter> s\<rparr>);
                             if ret r = 0 then Some (True, cp, wd\<lparr>Expired := True\<rparr>, w)
                             else if ret r < 0
                             then do { msg \<leftarrow> strncpy (ErrorMessage cp) (strerror e (errno w)) KWSYSPE_PIPE_BUFFER_SIZE;
                                       (cp, w) \<leftarrow> Kill e (cp\<lparr>ErrorMessage := msg\<rparr>) w;
                                       Some (False, cp\<lparr>Killed := False, SelectError := True\<rparr>, wd, w) }
                             else Some (False, cp, wd, w) } })"

text \<open>The result of the C function and the data.\<close>

definition kwsysProcessWaitForPipe ::
  "env \<Rightarrow> bool \<Rightarrow> kwsysProcess \<Rightarrow> kwsysProcessWaitData \<Rightarrow> world
     \<Rightarrow> (bool \<times> byte list option \<times> kwsysProcess \<times> kwsysProcessWaitData \<times> world) option" where
  "kwsysProcessWaitForPipe e want cp wd w =
     do { (found, cp, w) \<leftarrow> handle_pipes e want [0..<KWSYSPE_PIPE_COUNT] cp w;
          case found of
            Some (bytes, pipe) \<Rightarrow> Some (True, Some bytes, cp, wd\<lparr>PipeId := pipe\<rparr>, w)
          | None \<Rightarrow>
              if PipeId wd \<noteq> Pipe_None then Some (True, None, cp, wd, w)
              else do { (returned, cp, wd, w) \<leftarrow> wait_select e cp wd w; Some (returned, None, cp, wd, w) } }"

partial_function (option) wait_loop ::
  "env \<Rightarrow> bool \<Rightarrow> kwsysProcess \<Rightarrow> kwsysProcessWaitData \<Rightarrow> world
     \<Rightarrow> (byte list option \<times> kwsysProcess \<times> kwsysProcessWaitData \<times> world) option" where
  "wait_loop e want cp wd w =
     (if PipesLeft cp > 0
      then do { (returned, bytes, cp, wd, w) \<leftarrow> kwsysProcessWaitForPipe e want cp wd w;
                if returned then Some (bytes, cp, wd, w) else wait_loop e want cp wd w }
      else Some (None, cp, wd, w))"

text \<open>The result, the data, the user timeout that is left.\<close>

definition WaitForData ::
  "env \<Rightarrow> bool \<Rightarrow> kwsysProcess \<Rightarrow> real option \<Rightarrow> world
     \<Rightarrow> (int \<times> byte list option \<times> real option \<times> kwsysProcess \<times> world) option" where
  "WaitForData e want cp userTimeout w =
     (if State cp \<noteq> State_Executing \<or> Killed cp \<or> TimeoutExpired cp
      then Some (Pipe_None, None, userTimeout, cp, w)
      else let (userStartTime, w) = (if userTimeout = None then (Time 0 0, w) else kwsysProcessTimeGetCurrent e w);
               ((user, t), cp, w) = kwsysProcessGetTimeoutTime e cp userTimeout w
           in do { (bytes, cp, wd, w) \<leftarrow> wait_loop e want cp
                     \<lparr>Expired = False, PipeId = Pipe_None, User = user, UserTimeout = userTimeout, wdTimeoutTime = t\<rparr> w;
                   let (userTimeout, w) = (case userTimeout of
                         None \<Rightarrow> (None, w)
                       | Some u \<Rightarrow>
                           let (userEndTime, w) = kwsysProcessTimeGetCurrent e w;
                               d = kwsysProcessTimeToDouble (kwsysProcessTimeSubtract userEndTime userStartTime)
                           in (Some (if u - d < 0 then 0 else u - d), w));
                   if PipeId wd \<noteq> Pipe_None then Some (PipeId wd, bytes, userTimeout, cp, w)
                   else if Expired wd
                   then if User wd then Some (Pipe_Timeout, None, userTimeout, cp, w)
                        else do { (cp, w) \<leftarrow> Kill e cp w;
                                  Some (Pipe_None, None, userTimeout, cp\<lparr>Killed := False, TimeoutExpired := True\<rparr>, w) }
                   else Some (Pipe_None, None, userTimeout, cp, w) })"

section \<open>Waiting for the exit\<close>

text \<open>The status of a child, with the encoding of Linux.\<close>

definition WIFEXITED :: "int \<Rightarrow> bool" where "WIFEXITED s \<longleftrightarrow> s AND 0x7F = 0"
definition WEXITSTATUS :: "int \<Rightarrow> int" where "WEXITSTATUS s = drop_bit 8 (s AND 0xFF00)"
definition WTERMSIG :: "int \<Rightarrow> int" where "WTERMSIG s = s AND 0x7F"
definition WIFSIGNALED :: "int \<Rightarrow> bool" where "WIFSIGNALED s \<longleftrightarrow> s AND 0x7F \<noteq> 0 \<and> s AND 0x7F \<noteq> 0x7F"

definition set_result :: "kwsysProcess \<Rightarrow> nat \<Rightarrow> (kwsysProcessResults \<Rightarrow> kwsysProcessResults) \<Rightarrow> kwsysProcess option" where
  "set_result cp i f =
     (case ProcessResults cp of
        None \<Rightarrow> None
      | Some (b, rs) \<Rightarrow> if i < length rs then Some (cp\<lparr>ProcessResults := Some (b, rs[i := f (rs ! i)])\<rparr>) else None)"

text \<open>The outcome of one child.\<close>

definition report_child :: "kwsysProcess \<Rightarrow> nat \<Rightarrow> kwsysProcess option" where
  "report_child cp i =
     do { (_, codes) \<leftarrow> CommandExitCodes cp;
          (_, rs) \<leftarrow> ProcessResults cp;
          if i \<ge> length codes \<or> i \<ge> length rs then None
          else let code = codes ! i
               in if WIFEXITED code
                  then set_result cp i (\<lambda>r. r\<lparr>ExitCode := code, rState := State_Exited,
                         ExitException := Exception_None, ExitValue := WEXITSTATUS code\<rparr>)
                  else if WIFSIGNALED code
                  then do { cp \<leftarrow> set_result cp i (\<lambda>r. r\<lparr>ExitCode := code, rState := State_Exception\<rparr>);
                            kwsysProcessSetExitExceptionByIndex cp (WTERMSIG code) i }
                  else do { msg \<leftarrow> strcpy (ExitExceptionString (rs ! i)) (lit ''Error getting child return code.'');
                            set_result cp i (\<lambda>r. r\<lparr>ExitCode := code, ExitExceptionString := msg, rState := State_Error\<rparr>) } }"

fun report_children :: "kwsysProcess \<Rightarrow> nat list \<Rightarrow> kwsysProcess option" where
  "report_children cp [] = Some cp"
| "report_children cp (i # is) = do { cp \<leftarrow> report_child cp i; report_children cp is }"

text \<open>After the pipes have closed: the outcome, and the cleanup.\<close>

definition exit_outcome :: "env \<Rightarrow> kwsysProcess \<Rightarrow> world \<Rightarrow> (kwsysProcess \<times> world) option" where
  "exit_outcome e cp w =
     (if State cp = State_Error then kwsysProcessCleanup e cp False w
      else if SelectError cp
      then do { (cp, w) \<leftarrow> kwsysProcessCleanup e cp False w; Some (cp\<lparr>State := State_Error\<rparr>, w) }
      else do { cp \<leftarrow> (if Killed cp then Some (cp\<lparr>State := State_Killed\<rparr>)
                       else if TimeoutExpired cp then Some (cp\<lparr>State := State_Expired\<rparr>)
                       else do { cp \<leftarrow> report_children cp [0..<NumberOfCommands cp];
                                 (_, rs) \<leftarrow> ProcessResults cp;
                                 if NumberOfCommands cp = 0 \<or> NumberOfCommands cp > length rs then None
                                 else Some (cp\<lparr>State := rState (rs ! (NumberOfCommands cp - 1))\<rparr>) });
                kwsysProcessCleanup e cp False w })"

partial_function (option) drain ::
  "env \<Rightarrow> kwsysProcess \<Rightarrow> real option \<Rightarrow> world \<Rightarrow> (bool \<times> real option \<times> kwsysProcess \<times> world) option" where
  "drain e cp userTimeout w =
     do { (prPipe, _, userTimeout, cp, w) \<leftarrow> WaitForData e False cp userTimeout w;
          if prPipe > 0
          then if prPipe = Pipe_Timeout then Some (False, userTimeout, cp, w) else drain e cp userTimeout w
          else Some (True, userTimeout, cp, w) }"

definition WaitForExit ::
  "env \<Rightarrow> kwsysProcess \<Rightarrow> real option \<Rightarrow> world \<Rightarrow> (bool \<times> real option \<times> kwsysProcess \<times> world) option" where
  "WaitForExit e cp userTimeout w =
     (if State cp \<noteq> State_Executing then Some (True, userTimeout, cp, w)
      else do { (closed, userTimeout, cp, w) \<leftarrow> drain e cp userTimeout w;
                if \<not> closed then Some (False, userTimeout, cp, w)
                else do { (cp, w) \<leftarrow> exit_outcome e cp w; Some (True, userTimeout, cp, w) } })"

section \<open>Disowning and deleting\<close>

definition Disown :: "env \<Rightarrow> kwsysProcess \<Rightarrow> world \<Rightarrow> (kwsysProcess \<times> world) option" where
  "Disown e cp w =
     (if Detached cp = 0 \<or> State cp \<noteq> State_Executing \<or> TimeoutExpired cp \<or> Killed cp then Some (cp, w)
      else do { (cp, w) \<leftarrow> kwsysProcessClosePipes e cp w;
                (cp, w) \<leftarrow> kwsysProcessCleanup e cp False w;
                Some (cp\<lparr>State := State_Disowned\<rparr>, w) })"

text \<open>Freeing the configuration, the results and the structure itself.\<close>

definition free_process :: "env \<Rightarrow> kwsysProcess \<Rightarrow> heap \<Rightarrow> heap option" where
  "free_process e cp h =
     do { (_, cp, h) \<leftarrow> SetCommand (alloc_ok e) cp None h;
          (_, cp, h) \<leftarrow> SetWorkingDirectory (alloc_ok e) cp (Inr None) h;
          (_, cp, h) \<leftarrow> SetPipeFile (alloc_ok e) cp Pipe_STDIN None h;
          (_, cp, h) \<leftarrow> SetPipeFile (alloc_ok e) cp Pipe_STDOUT None h;
          (_, cp, h) \<leftarrow> SetPipeFile (alloc_ok e) cp Pipe_STDERR None h;
          h \<leftarrow> free_array (CommandExitCodes cp) h;
          h \<leftarrow> free_array (ProcessResults cp) h;
          free (self cp) h }"

definition Delete :: "env \<Rightarrow> kwsysProcess \<Rightarrow> world \<Rightarrow> world option" where
  "Delete e cp w =
     do { (cp, w) \<leftarrow> (if State cp = State_Executing
            then if Detached cp \<noteq> 0 then Disown e cp w
                 else do { (_, _, cp, w) \<leftarrow> WaitForExit e cp None w; Some (cp, w) }
            else Some (cp, w));
          h \<leftarrow> free_process e cp (heap w);
          Some (w\<lparr>heap := h\<rparr>) }"

end
