(* ===== verification/ProcessFailures.thy ===== *)
theory ProcessFailures
  imports ProcessRun
begin

text \<open>
  Failures inside \<open>kwsysProcess_Execute\<close> (\<^verbatim>\<open>kwsys/ProcessUNIX.c\<close>): what the code does when \<open>fork\<close>
  fails, when \<open>getcwd\<close> fails, and with the message a child sends.
\<close>

section \<open>When \<open>fork\<close> fails\<close>

text \<open>Every other call succeeds.\<close>

definition others_succeed :: "env \<Rightarrow> bool" where
  "others_succeed e \<longleftrightarrow> (\<forall>c tr. c \<noteq> S_fork \<longrightarrow> 0 \<le> ret (sys e (c # tr)))"

definition fork_fails :: "env \<Rightarrow> bool" where
  "fork_fails e \<longleftrightarrow> (\<forall>tr. ret (sys e (S_fork # tr)) = -1)"

lemma call_succeeds: "others_succeed e \<Longrightarrow> c \<noteq> S_fork \<Longrightarrow> 0 \<le> ret (fst (call e c w))"
  by (auto simp: others_succeed_def call_def Let_def)

lemma all_succeed:
  assumes "others_succeed e"
  shows "\<not> fst (cloexec_fails e fd w)" "\<not> fst (cloexec2_fails e p w)" "fst (kwsysProcessSetNonBlocking e fd w)"
    "c \<noteq> S_fork \<Longrightarrow> \<not> ret (fst (call e c w)) < 0" "c \<noteq> S_fork \<Longrightarrow> 0 \<le> ret (fst (call e c w))" "c \<noteq> S_fork \<Longrightarrow> retry e c w = Some (call e c w)"
  using call_succeeds [OF assms] retry_once [of e c w] assms
  by (auto simp: cloexec_fails_def cloexec2_fails_def kwsysProcessSetNonBlocking_def Let_def split_beta not_less others_succeed_def)

lemma wp_succeeds:
  assumes "calls_only v w" and "others_succeed e"
  shows "c \<noteq> S_fork \<Longrightarrow> (\<And>r w'. calls_only v w' \<Longrightarrow> 0 \<le> ret r \<Longrightarrow> returns (f r w') P)
      \<Longrightarrow> returns (case call e c w of (r, w) \<Rightarrow> f r w) P"
    and "(\<And>w'. calls_only v w' \<Longrightarrow> returns (g False w') P) \<Longrightarrow> returns (case cloexec2_fails e q w of (bad, w) \<Rightarrow> g bad w) P"
    and "(\<And>w'. calls_only v w' \<Longrightarrow> returns (g True w') P)
      \<Longrightarrow> returns (case kwsysProcessSetNonBlocking e fd w of (ok, w) \<Rightarrow> g ok w) P"
proof -
  obtain r w1 where c: "call e c w = (r, w1)" by fastforce
  obtain bad w2 where d: "cloexec2_fails e q w = (bad, w2)" by fastforce
  show "returns (case call e c w of (r, w) \<Rightarrow> f r w) P" if "c \<noteq> S_fork"
    "\<And>r w'. calls_only v w' \<Longrightarrow> 0 \<le> ret r \<Longrightarrow> returns (f r w') P"
    using that call_succeeds [OF assms(2), of c w] calls_chain(1) [OF c assms(1)] by (simp add: c)
  show "returns (case cloexec2_fails e q w of (bad, w) \<Rightarrow> g bad w) P" if "\<And>w'. calls_only v w' \<Longrightarrow> returns (g False w') P"
    using that all_succeed(2) [OF assms(2), of q w] calls_chain(3) [OF d assms(1)] by (simp add: d)
  obtain ok w3 where n: "kwsysProcessSetNonBlocking e fd w = (ok, w3)" by fastforce
  show "returns (case kwsysProcessSetNonBlocking e fd w of (ok, w) \<Rightarrow> g ok w) P" if "\<And>w'. calls_only v w' \<Longrightarrow> returns (g True w') P"
    using that all_succeed(3) [OF assms(2), of fd w] calls_chain(4) [OF n assms(1)] by (simp add: n)
qed

text \<open>The stages of the setup go on.\<close>

lemma stages_go_on:
  assumes "others_succeed e"
  shows "goes_on (setup_stdin e)" "goes_on (create_output_pipe e i j)" "goes_on (redirect_output e q j)"
    "goes_on (enter_directory e)"
  using all_succeed [OF assms]
  unfolding goes_on_def setup_stdin_def create_output_pipe_def redirect_output_def enter_directory_def chdir_loop_def
    kwsysProcessSetupOutputPipeFile_def kwsysProcessSetupOutputPipeNative_def
  by (auto simp: bind_eq_Some_conv Let_def split_beta split: option.splits if_splits)

lemma register_goes_on:
  assumes "others_succeed e" and "fair e" and "all_ok (alloc_ok e)" and "table_mem F w"
  shows "returns (register e cp w) (\<lambda>(ok, cp', w'). ok)"
proof (cases "OptionDetach cp = 0")
  case True
  have add: "returns (add_instance e p v) (\<lambda>(r, v'). r)" if "calls_only w v" for p v
    by (rule returns_mono [OF add_instance_returns [OF assms(2)]])
      (use calls_only_table [OF that] assms(3,4) in auto)
  note step = wp_succeeds [of w, OF _ assms(1)]
  show ?thesis
    using True unfolding register_def kwsysProcessesAdd_def Let_def
    by (auto intro!: step returns_mono [OF add])
next
  case False
  then show ?thesis by (simp add: register_def)
qed

text \<open>The first child is not made.\<close>

lemma wp_Create_fork_fails:
  assumes "others_succeed e" and "fork_fails e" and "fair e"
    and pids: "ForkPIDs cp = Some (b, pids)" and "i < length pids"
    and post: "\<And>si' w'. calls_only w w' \<Longrightarrow> P (Returned (False, cp\<lparr>ForkPIDs := Some (b, pids[i := -1])\<rparr>, si', w'))"
  shows "returns (kwsysProcessCreate e cp i si w) P"
proof -
  note step = wp_succeeds [of w, OF _ assms(1)] wp_from [of w, OF _ assms(3)]
  have fork: "returns (create_fork e cp i si pgidPipe oldmask v) P" if v: "calls_only w v" for si pgidPipe oldmask v
  proof -
    obtain r v1 where c: "call e S_fork v = (r, v1)" by fastforce
    then have r: "ret r = -1" using assms(2) call_reply [of e S_fork v] by (simp add: fork_fails_def)
    have f: "kwsysProcessFork e cp si v = Some (Returned (-1, v1))"
      using r by (simp add: kwsysProcessFork_def c)
    have v1: "calls_only w v1" by (rule calls_chain(1) [OF c v])
    show ?thesis
      unfolding create_fork_def f using assms(4,5) v1
      by (auto simp: set_pid_def Let_def intro!: step post)
  qed
  show ?thesis
    unfolding kwsysProcessCreate_def Let_def by (auto simp: not_less intro!: step fork)
qed

text \<open>The trace only grows: calls that were made stay recorded.\<close>

definition recorded :: "syscall set \<Rightarrow> world \<Rightarrow> bool" where
  "recorded A w \<longleftrightarrow> A \<subseteq> set (trace w)"

lemma recorded_calls: "recorded A w \<Longrightarrow> calls_only w w' \<Longrightarrow> recorded A w'"
  by (auto simp: recorded_def calls_only_def)

lemma recorded_retry: "recorded A w \<Longrightarrow> fair e \<Longrightarrow> retry e c w = Some (r, w') \<Longrightarrow> recorded A w'"
  using retry_returns [of e c w] by (auto simp: returns_def retried_def recorded_def)

lemma recorded_Update: "recorded A w \<Longrightarrow> recorded A (kwsysProcessesUpdate e q w)"
  using Update_effect(3) [of e q w] by (auto simp: recorded_def)

lemma recorded_heap [simp]: "recorded A (w\<lparr>heap := h\<rparr>) = recorded A w"
  by (simp add: recorded_def)

lemma recorded_remove:
  assumes "recorded A w" and "fair e" and "remove_instance e p w = Some w'"
  shows "recorded A w'"
proof (cases "remove_process p (snd (iTable (kwsysProcesses w)))")
  case None
  with assms show ?thesis by (simp add: remove_instance_def split_beta)
next
  case (Some ps)
  show ?thesis
  proof (cases "ps = []")
    case True
    with assms(3) Some obtain r1 w1 r2 w2 r3 w3 h where
      "retry e (S_sigaction SIGCHLD (OldSigChldAction w)) w = Some (r1, w1)"
      "retry e (S_sigaction SIGINT (OldSigIntAction w1)) w1 = Some (r2, w2)"
      "retry e (S_sigaction SIGTERM (OldSigTermAction w2)) w2 = Some (r3, w3)"
      "w' = kwsysProcessesUpdate e \<lparr>iSize = 0, iTable = (None, [])\<rparr> (w3\<lparr>heap := h\<rparr>)"
      by (auto simp: remove_instance_def split_beta bind_eq_Some_conv)
    with assms(1,2) recorded_retry recorded_Update show ?thesis by (metis recorded_heap)
  next
    case False
    with assms Some show ?thesis by (auto simp: remove_instance_def split_beta intro: recorded_Update)
  qed
qed

lemma recorded_Cleanup:
  assumes "fair e" and "recorded A w" and "kwsysProcessCleanup e cp False w = Some (cp', w')"
  shows "recorded A w'"
proof -
  have cleanup: "recorded A w'" if c: "cleanup_resources e c v = Some (c', w')" "recorded A v" for c c' v
  proof -
    from c(1) obtain h f c1 where
      "cleanup_descriptors e [0..<3] (PipeReadEnds c) (v\<lparr>heap := h\<rparr>) = Some (f, c1)"
      "\<exists>f. cleanup_descriptors e [0..<3] (PipeChildStd c) c1 = Some (f, w')"
      by (auto simp: cleanup_resources_def Let_def bind_eq_Some_conv)
    moreover have "recorded A u'" if "cleanup_descriptors e is g u = Some (g', u')" "recorded A u" for "is" g u g' u'
    proof -
      have "returns (cleanup_descriptors e is g u) (\<lambda>(g', u'). recorded A u')"
        by (rule wp_cleanup_descriptors [OF assms(1)]) (use recorded_calls [OF that(2)] in simp)
      from returnsD [OF this that(1)] show ?thesis by simp
    qed
    ultimately show ?thesis using c(2) recorded_heap by blast
  qed
  show ?thesis
  proof (cases "OptionDetach cp = 0")
    case True
    with assms(3) obtain v fd v2 where v: "remove_instance e (self cp) w = Some v"
      "kwsysProcessCleanupDescriptor e (SignalPipe cp) v = Some (fd, v2)"
      "cleanup_resources e (cp\<lparr>SignalPipe := fd\<rparr>) v2 = Some (cp', w')"
      by (auto simp: kwsysProcessCleanup_def kwsysProcessesRemove_def bind_eq_Some_conv)
    have "returns (kwsysProcessCleanupDescriptor e (SignalPipe cp) v) (\<lambda>(fd, v2). recorded A v2)"
      by (rule wp_CleanupDescriptor [OF assms(1)])
        (use recorded_calls [OF recorded_remove [OF assms(2,1) v(1)]] in simp)
    from returnsD [OF this v(2)] cleanup [OF v(3)] show ?thesis by simp
  next
    case False
    with assms(3) cleanup [of cp w cp'] assms(2) show ?thesis by (simp add: kwsysProcessCleanup_def)
  qed
qed

lemma kill_children_kills:
  assumes "fair e" and "finite_trees e" and "p \<in> set pids" and "p \<noteq> 0"
  shows "returns (kill_children e pids w) (recorded {S_kill p SIGSTOP, S_kill p SIGKILL})"
  using assms(3)
proof (induction pids arbitrary: w)
  case (Cons q pids)
  let ?A = "{S_kill p SIGSTOP, S_kill p SIGKILL}"
  show ?case
  proof (cases "q = 0")
    case True
    with Cons assms(4) show ?thesis by auto
  next
    case False
    obtain w1 t where w1: "kill_run e (KillTree q) w = Some w1" "pid_of t = q" "killed_tree e w t w1"
      using tree_killed [OF assms(2)] by blast
    have k: "kwsysProcessKill e q w = Some w1" using w1(1) by (simp add: kwsysProcessKill_def)
    have "{S_kill q SIGSTOP, S_kill q SIGKILL} \<subseteq> set (marks (trace w1))"
      using w1(2,3) by (cases t) (simp add: killed_tree_def)
    then have r1: "recorded {S_kill q SIGSTOP, S_kill q SIGKILL} w1" by (auto simp: recorded_def marks_def)
    have rest: "returns (kill_children e pids v) (recorded ?A)" if v: "calls_only w1 v" for v
    proof (cases "q = p")
      case True
      then have "recorded ?A v" using recorded_calls [OF r1 v] by simp
      then show ?thesis by (intro wp_kill_children [OF assms(1,2)]) (rule recorded_calls)
    next
      case False
      with Cons show ?thesis by simp
    qed
    show ?thesis
      unfolding kill_children.simps if_P [OF False] returns_bind k returns_Some
      by (rule wp_retry [OF assms(1)]) (simp add: rest)
  qed
qed simp

lemma cleanup_error_kills:
  assumes "os_ok e" and "running F R X cp0 cp w" and "ForkPIDs cp = Some (b, pids)" and "p \<in> set pids" and "p \<noteq> 0"
    and "cleanup_error e cp w = Some (cp', w')"
  shows "recorded {S_kill p SIGSTOP, S_kill p SIGKILL} w'"
proof -
  note f = os_fair [OF assms(1)]
  have forest: "finite_trees e" using assms(1) by (simp add: os_ok_def)
  have n: "length pids = NumberOfCommands cp" using assms(2,3) by (auto simp: running_def arrays_ok_def array_of_def)
  from assms(6,3) n obtain v where v: "kill_children e pids w = Some v"
    "(case RealWorkingDirectory cp of None \<Rightarrow> Some v | Some dir \<Rightarrow> do { (_, w) \<leftarrow> chdir_loop e dir v; Some w }) = Some w'"
    by (auto simp: cleanup_error_def bind_eq_Some_conv mem_read_def Let_def)
  have rec: "recorded {S_kill p SIGSTOP, S_kill p SIGKILL} v"
    using returnsD [OF kill_children_kills [OF f forest assms(4,5)] v(1)] .
  show ?thesis
  proof (cases "RealWorkingDirectory cp")
    case None
    with v(2) rec show ?thesis by simp
  next
    case (Some dir)
    with v(2) obtain r where "chdir_loop e dir v = Some (r, w')" by (auto simp: bind_eq_Some_conv)
    with rec f show ?thesis by (auto simp: chdir_loop_def bind_eq_Some_conv intro: recorded_retry)
  qed
qed

lemma pipeline_fork_fails:
  assumes "os_ok e" and "others_succeed e" and "fork_fails e" and "ForkPIDs cp = Some (b, pids)" and "pids \<noteq> []"
  shows "returns (create_pipeline e 0 (Suc n) fd si cp w) (\<lambda>r. \<exists>w'. calls_only w w'
    \<and> r = Returned (False, cp\<lparr>ForkPIDs := Some (b, pids[0 := -1])\<rparr>, w'))"
proof -
  note f = os_fair [OF assms(1)]
  let ?c = "cp\<lparr>ForkPIDs := Some (b, pids[0 := -1])\<rparr>"
  have "returns (next_pipe e cp (n = 0) fd w) (\<lambda>(ok, a, c, w'). ok \<and> calls_only w w')"
    unfolding next_pipe_def Let_def by (auto intro!: wp_succeeds [of w, OF _ assms(2)])
  moreover have "returns (kwsysProcessCreate e cp 0 si' v) (\<lambda>r. \<exists>s w'. calls_only w w' \<and> r = Returned (False, ?c, s, w'))"
    if v: "calls_only w v" for si' v
    by (rule wp_Create_fork_fails [OF assms(2,3) f assms(4)])
      (use assms(5) calls_only_trans [OF v] in auto)
  moreover have "returns (close_between e ?c False s next v) (\<lambda>(s, w'). calls_only w w')" if "calls_only w v" for s "next" v
    by (rule wp_close_between [OF f]) (use calls_only_trans [OF that] in simp)
  ultimately show ?thesis
    by (fastforce simp: Let_def elim!: returns_mono)
qed

lemma setup_goes_on:
  assumes "os_ok e" and "others_succeed e" and "all_ok (alloc_ok e)" and "strings_ok cp0"
    and "getcwd_answers e cp0 w" and "initialized cp0 True cp" and "table_mem (F + run_blocks cp) w"
    and "run_stages (setup_stages e) cp w = Some (ok, cp', w')"
  shows ok
proof -
  note go = stages_go_on [OF assms(2)] and f = os_fair [OF assms(1)]
  from assms(8) obtain k c v where k: "enter_directory e cp w = Some (k, c, v)"
    by (auto simp: setup_stages_def bind_eq_Some_conv)
  then have k1: k using go(4) unfolding goes_on_def by blast
  obtain G where t: "table_mem G v"
    using returnsD [OF enter_directory_returns [OF assms(1,4,5,6,7) refl] k] by (auto simp: running_def)
  from assms(8) k k1 obtain k' c' v' where k': "register e c v = Some (k', c', v')"
    by (auto simp: setup_stages_def bind_eq_Some_conv)
  then have "k'" using returnsD [OF register_goes_on [OF assms(2) f assms(3) t] k'] by simp
  with assms(8) k k1 k' have "run_stages [setup_stdin e, create_output_pipe e KWSYSPE_PIPE_STDOUT 1, redirect_output e Pipe_STDOUT 1,
     create_output_pipe e KWSYSPE_PIPE_STDERR 2, redirect_output e Pipe_STDERR 2] c' v' = Some (ok, cp', w')"
    unfolding setup_stages_def run_stages.simps(2) [of "enter_directory e"] run_stages.simps(2) [of "register e"] by simp
  then show ok by (rule run_stages_go_on [rotated]) (use go in simp)
qed

text \<open>C34. When \<open>fork\<close> fails for the first child (it answers -1, and every other call of the setup works),
  that answer stays in the list of children, and the cleanup kills the children in the list: it sends
  SIGSTOP and SIGKILL to the process -1, which stands for every process the user may signal.\<close>

theorem fork_failure_kills_everything:
  assumes "idle F cp w" and "execute_ok e cp" and "all_ok (alloc_ok e)" and "0 < NumberOfCommands cp"
    and "others_succeed e" and "fork_fails e"
  shows "returns (Execute e cp w) (\<lambda>r. \<exists>cp' w'. r = Returned (cp', w') \<and> State cp' = State_Error
    \<and> recorded {S_kill (-1) SIGSTOP, S_kill (-1) SIGKILL} w')"
proof -
  have i: "self cp \<notin> set (registered w)" using assms(1) by (simp add: idle_def)
  have os: "os_ok e" "strings_ok cp" "getcwd_answers e cp w"
    using assms(2,5) by (simp_all add: execute_ok_def getcwd_answers_def others_succeed_def)
  note f = os_fair [OF os(1)]
  obtain c h where c: "initialized cp True c" "table_mem (F + run_blocks c) (w\<lparr>heap := h\<rparr>)"
      "registered (w\<lparr>heap := h\<rparr>) = registered w" "Execute e cp w = execute_run e c (w\<lparr>heap := h\<rparr>)"
    using Execute_initializes [OF assms(1,4), of e] assms(3) by (auto elim!: returnsE)
  let ?L = "registered_list (registered w) cp"
  obtain ok c1 w1 where sok': "run_stages (setup_stages e) c (w\<lparr>heap := h\<rparr>) = Some (ok, c1, w1)"
    and r1': "ok \<longrightarrow> running F ?L {(ForkPIDs c, 0)} cp c1 w1"
    using setup_returns [OF os(1,2) _ c(1,2,3)] os(3) by (auto elim!: returnsE)
  have ok by (rule setup_goes_on [OF os(1) assms(5,3) os(2) _ c(1,2) sok']) (simp add: os(3))
  with sok' r1' have sok: "run_stages (setup_stages e) c (w\<lparr>heap := h\<rparr>) = Some (True, c1, w1)"
    and r1: "running F ?L {(ForkPIDs c, 0)} cp c1 w1" by simp_all
  obtain c2 w2 where k: "start_clock e c1 w1 = (c2, w2)" by fastforce
  have r2: "running F ?L {(ForkPIDs c, 0)} cp c2 w2" by (rule running_start_clock [OF r1 k])
  then have n: "NumberOfCommands c2 = Suc (NumberOfCommands cp - 1)" using assms(4) by (simp add: running_def config_of_eq)
  obtain b pids where p: "ForkPIDs c2 = Some (b, pids)" "length pids = NumberOfCommands cp"
    and r2': "running F ?L UNIV cp (c2\<lparr>ForkPIDs := Some (b, pids[0 := -1])\<rparr>) w2"
    using running_pids [OF r2 assms(4), where pid = "-1"] by blast
  have pids: "ForkPIDs c2 = Some (b, pids)" "pids \<noteq> []" using p assms(4) by auto
  let ?c = "c2\<lparr>ForkPIDs := Some (b, pids[0 := -1])\<rparr>"
  obtain w3 where w3: "calls_only w2 w3"
    "create_pipeline e 0 (NumberOfCommands c2) (PipeChildStd c2 0) initial_si c2 w2 = Some (Returned (False, ?c, w3))"
    using pipeline_fork_fails [OF os(1) assms(5,6) pids, unfolded returns_def] unfolding n by blast
  have r3: "running F ?L UNIV cp ?c w3"
    using r2' running_calls [OF w3(1)] by blast
  have reg: "registers (registered w) cp ?L" by (simp add: registers_def registered_list_def)
  have exec: "Execute e cp w = cleanup_and_return e ?c w3"
    unfolding c(4) execute_run_def sok by (simp add: k w3(2))
  obtain c4 w4 where c4: "kwsysProcessCleanup e ?c True w3 = Some (c4, w4)" "State c4 = State_Error"
    using Cleanup_error_returns [OF os(1) r3 reg i] by (auto simp: failed_def elim!: returnsE)
  then obtain c5 w5 where c5: "cleanup_error e ?c w3 = Some (c5, w5)" "kwsysProcessCleanup e c5 False w5 = Some (c4, w4)"
    by (auto simp: kwsysProcessCleanup_def bind_eq_Some_conv)
  have "-1 \<in> set (pids[0 := -1])" using pids(2) by (cases pids) simp_all
  then have "recorded {S_kill (-1) SIGSTOP, S_kill (-1) SIGKILL} w5"
    using cleanup_error_kills [OF os(1) r3 _ _ _ c5(1), of b "pids[0 := -1]" "-1"] by simp
  then have "recorded {S_kill (-1) SIGSTOP, S_kill (-1) SIGKILL} w4" by (rule recorded_Cleanup [OF f _ c5(2)])
  then show ?thesis unfolding exec cleanup_and_return_def by (simp add: c4)
qed

theorem fork_failure_kills_everything_witness:
  "returns (Execute (run_env (-1) 0 0 0 []) one_command run_world) (\<lambda>r. \<exists>cp' w'. r = Returned (cp', w')
    \<and> State cp' = State_Error \<and> recorded {S_kill (-1) SIGSTOP, S_kill (-1) SIGKILL} w')"
proof (rule fork_failure_kills_everything [OF one_command_idle(1)])
  show "execute_ok (run_env (-1) 0 0 0 []) one_command"
    using run_env_os_ok [of "[]"] run_env_parent [of "-1" 0]
    by (simp add: execute_ok_def strings_ok_def one_command_def initial_process_def terminated_def)
  show "all_ok (alloc_ok (run_env (-1) 0 0 0 []))" "fork_fails (run_env (-1) 0 0 0 [])"
    by (simp_all add: run_env_def all_ok_def fork_fails_def)
  show "0 < NumberOfCommands one_command" by (simp add: one_command_def)
  show "others_succeed (run_env (-1) 0 0 0 [])"
    by (auto simp: others_succeed_def run_env_def split: syscall.split)
qed

section \<open>When \<open>getcwd\<close> fails\<close>

text \<open>With a working directory to enter, when \<open>getcwd\<close> fails the buffer for the current directory
  has no contents yet, but the cleanup changes to the directory it names: undefined behaviour.\<close>

theorem getcwd_failure_undefined:
  assumes "idle F cp w" and "all_ok (alloc_ok e)" and "0 < NumberOfCommands cp" and "WorkingDirectory cp \<noteq> None"
    and "ret (sys e (S_getcwd MAXPATHLEN # trace w)) < 0"
  shows "Execute e cp w = None"
proof -
  obtain c h where c: "initialized cp True c" "Execute e cp w = execute_run e c (w\<lparr>heap := h\<rparr>)"
    using Execute_initializes [OF assms(1,3), of e] assms(2) by (auto elim!: returnsE)
  have "\<not> getcwd_answers e cp (w\<lparr>heap := h\<rparr>)" using assms(4,5) by (simp add: getcwd_answers_def)
  from execute_run_undefined [OF c(1) this] show ?thesis by (simp only: c(2))
qed

theorem getcwd_failure_undefined_witness:
  "Execute (run_env 7 (-1) 0 0 []) (one_command\<lparr>WorkingDirectory := Some (9, lit ''/tmp'')\<rparr>) run_world = None"
proof (rule getcwd_failure_undefined [where F = "{#5, 6, 7, 8#}"])
  show "idle {#5, 6, 7, 8#} (one_command\<lparr>WorkingDirectory := Some (9, lit ''/tmp'')\<rparr>) run_world"
    using one_command_idle(1) unfolding idle_def run_blocks_def messages_ok_def by (elim conjE) simp
qed (simp_all add: run_env_def all_ok_def one_command_def)

section \<open>The message of a child\<close>

lemma error_read_once:
  assumes "0 < length s" and "length s < KWSYSPE_PIPE_BUFFER_SIZE" and "length msg = KWSYSPE_PIPE_BUFFER_SIZE + 1"
    and "ret (sys e (S_read fd KWSYSPE_PIPE_BUFFER_SIZE # trace w)) = int (length s)"
    and "payload (sys e (S_read fd KWSYSPE_PIPE_BUFFER_SIZE # trace w)) = s"
    and "ret (sys e (S_read fd (KWSYSPE_PIPE_BUFFER_SIZE - length s) # S_read fd KWSYSPE_PIPE_BUFFER_SIZE # trace w)) = 0"
  shows "\<exists>w'. error_read e fd msg 0 w = Some (length s, s @ drop (length s) msg, w')"
proof -
  let ?r = "sys e (S_read fd KWSYSPE_PIPE_BUFFER_SIZE # trace w)" and ?w = "snd (call e (S_read fd KWSYSPE_PIPE_BUFFER_SIZE) w)"
  let ?m = "s @ drop (length s) msg"
  have one: "read_into e fd msg 0 KWSYSPE_PIPE_BUFFER_SIZE w = Some (int (length s), ?m, ?w)"
    using assms(1-5) retry_once [of e "S_read fd KWSYSPE_PIPE_BUFFER_SIZE" w] call_reply [of e "S_read fd KWSYSPE_PIPE_BUFFER_SIZE" w]
    by (auto simp: read_into_def mem_write_def split_beta)
  let ?n = "KWSYSPE_PIPE_BUFFER_SIZE - length s"
  have r0: "ret (sys e (S_read fd ?n # trace ?w)) = 0" using assms(6) by (simp add: call_trace)
  then have two: "read_into e fd ?m (length s) ?n ?w = Some (0, ?m, snd (call e (S_read fd ?n) ?w))"
    using retry_once [of e "S_read fd ?n" ?w] call_reply [of e "S_read fd ?n" ?w]
    by (simp add: read_into_def split_beta)
  have "error_read e fd msg 0 w = error_read e fd ?m (length s) ?w"
    using one assms(1,2) by (subst error_read.simps) simp
  also have "\<dots> = Some (length s, ?m, snd (call e (S_read fd ?n) ?w))"
    using two assms(2) by (subst error_read.simps) simp
  finally show ?thesis by blast
qed

text \<open>The initialisation clears the first byte of the error message only, and the message a child
  sends comes without a terminator: after a failure with a longer message \<open>old\<close>, the message of a
  child that sends \<open>s\<close> reads as \<open>s\<close> followed by the rest of \<open>old\<close>.\<close>

theorem child_message_keeps_old_tail:
  assumes "messages_ok cp" and "c_string (ErrorMessage cp) = Some old" and "0 \<notin> set s" and "0 < length s"
    and "length s < length old" and "length old < KWSYSPE_PIPE_BUFFER_SIZE"
    and "ret (sys e (S_read fd KWSYSPE_PIPE_BUFFER_SIZE # trace w)) = int (length s)"
    and "payload (sys e (S_read fd KWSYSPE_PIPE_BUFFER_SIZE # trace w)) = s"
    and "ret (sys e (S_read fd (KWSYSPE_PIPE_BUFFER_SIZE - length s) # S_read fd KWSYSPE_PIPE_BUFFER_SIZE # trace w)) = 0"
  shows "\<exists>msg w'. error_read e fd (ErrorMessage (reset_fields cp)) 0 w = Some (length s, msg, w')
    \<and> c_string msg = Some (s @ drop (length s) old)"
proof -
  let ?m = "ErrorMessage (reset_fields cp)"
  obtain rest where m: "ErrorMessage cp = old @ 0 # rest" "0 \<notin> set old"
    using assms(2) by (auto simp: c_string_iff)
  have "length ?m = KWSYSPE_PIPE_BUFFER_SIZE + 1" using assms(1) by (simp add: reset_fields_def messages_ok_def)
  from error_read_once [OF assms(4) _ this assms(7-9)] assms(5,6) obtain w' where
    w': "error_read e fd ?m 0 w = Some (length s, s @ drop (length s) ?m, w')" by auto
  have "drop (length s) ?m = drop (length s) old @ 0 # rest"
    using m(1) assms(4,5) by (cases s) (simp_all add: reset_fields_def drop_Cons')
  moreover have "0 \<notin> set (s @ drop (length s) old)" using assms(3) m(2) by (auto dest: in_set_dropD)
  ultimately have "c_string (s @ drop (length s) ?m) = Some (s @ drop (length s) old)"
    using c_string_append [of "s @ drop (length s) old" rest] by simp
  with w' show ?thesis by blast
qed

text \<open>A child that reports two characters, after a failure for a missing command.\<close>

definition message_env :: env where
  "message_env = \<lparr>sys = (\<lambda>tr. \<lparr>ret = (case tr of S_read _ n # _ \<Rightarrow> if n = 1024 then 2 else 0 | _ \<Rightarrow> 0), err = 0,
     fds = (3, 4), payload = ascii ''ab'', status = 0, ready = {}, rest_time = None, old_mask = {},
     old_action = default_action, clock = (0, 0), names = []\<rparr>), alloc_ok = \<lambda>_ _. True, strerror = \<lambda>_. lit ''error''\<rparr>"

definition failed_before :: kwsysProcess where
  "failed_before = (initial_process 5)\<lparr>ErrorMessage := lit ''No command'' @ replicate 1014 0\<rparr>"

theorem child_message_keeps_old_tail_witness:
  "\<exists>msg w'. error_read message_env 3 (ErrorMessage (reset_fields failed_before)) 0 run_world = Some (2, msg, w')
    \<and> c_string msg = Some (ascii ''ab command'')"
proof -
  have m: "messages_ok failed_before" "c_string (ErrorMessage failed_before) = Some (ascii ''No command'')"
    by (simp_all add: failed_before_def messages_ok_def initial_process_def lit_def ascii_def)
  have "\<exists>msg w'. error_read message_env 3 (ErrorMessage (reset_fields failed_before)) 0 run_world
      = Some (length (ascii ''ab''), msg, w')
    \<and> c_string msg = Some (ascii ''ab'' @ drop (length (ascii ''ab'')) (ascii ''No command''))"
    by (rule child_message_keeps_old_tail [OF m]) (simp_all add: message_env_def ascii_def)
  then show ?thesis by (simp add: ascii_def numeral_2_eq_2)
qed

end
