(* ===== verification/ProcessReap.thy ===== *)
theory ProcessReap
  imports ProcessWait ProcessFailures
begin

text \<open>
  The run after \<open>kwsysProcess_Execute\<close> has succeeded (\<^verbatim>\<open>kwsys/ProcessUNIX.c\<close>): the invariant of the
  executing structure, and the operations that keep it or end it: closing the pipes, killing,
  reaping the children, reading the pipes, and finding out the outcome.
\<close>

section \<open>The invariant of an executing structure\<close>

definition children_left :: "kwsysProcess \<Rightarrow> int" where
  "children_left cp = (case ForkPIDs cp of None \<Rightarrow> 0 | Some (_, pids) \<Rightarrow> int (length (filter (\<lambda>pid. pid \<noteq> 0) pids)))"

text \<open>After a kill the count is not kept up any more.\<close>

definition counted :: "kwsysProcess \<Rightarrow> bool" where
  "counted cp \<longleftrightarrow> Killed cp \<or> TimeoutExpired cp \<or> SelectError cp \<or> CommandsLeft cp = children_left cp"

text \<open>
  What holds of the structure and the world from \<open>kwsysProcess_Execute\<close> on, apart from the state
  and the count: \<open>cp0\<close> is the structure with the configuration, \<open>L\<close> the registered processes.
\<close>

definition kept :: "nat multiset \<Rightarrow> nat list \<Rightarrow> kwsysProcess \<Rightarrow> kwsysProcess \<Rightarrow> world \<Rightarrow> bool" where
  "kept F L cp0 cp w \<longleftrightarrow> config_of cp = config_of cp0 \<and> Detached cp = OptionDetach cp0
     \<and> table_mem (F + run_blocks cp) w \<and> registered w = L \<and> messages_ok cp \<and> arrays_ok cp
     \<and> RealWorkingDirectory cp = None \<and> in_range cp"

definition active :: "nat multiset \<Rightarrow> nat list \<Rightarrow> kwsysProcess \<Rightarrow> kwsysProcess \<Rightarrow> world \<Rightarrow> bool" where
  "active F L cp0 cp w \<longleftrightarrow> kept F L cp0 cp w \<and> State cp = State_Executing \<and> counted cp"

lemma executing_active: "executing F R cp0 cp w \<Longrightarrow> active F (registered_list R cp0) cp0 cp w"
proof -
  assume e: "executing F R cp0 cp w"
  then obtain b pids where p: "ForkPIDs cp = Some (b, pids)" "\<forall>pid\<in>set pids. 0 < pid"
    "length pids = NumberOfCommands cp0" "CommandsLeft cp = int (NumberOfCommands cp0)"
    by (auto simp: executing_def)
  then have "filter (\<lambda>pid. pid \<noteq> 0) pids = pids" by (intro filter_True) auto
  with e p show ?thesis by (simp add: executing_def active_def kept_def counted_def children_left_def)
qed

lemma kept_calls: "calls_only w w' \<Longrightarrow> kept F L cp0 cp w' = kept F L cp0 cp w"
  and active_calls: "calls_only w w' \<Longrightarrow> active F L cp0 cp w' = active F L cp0 cp w"
  using calls_only_table by (simp_all add: kept_def active_def)

lemma run_blocks_fields [simp]:
  "run_blocks (cp\<lparr>PipesLeft := n\<rparr>) = run_blocks cp" "run_blocks (cp\<lparr>PipeSet := s\<rparr>) = run_blocks cp"
  "run_blocks (cp\<lparr>Killed := b\<rparr>) = run_blocks cp" "run_blocks (cp\<lparr>TimeoutExpired := b\<rparr>) = run_blocks cp"
  "run_blocks (cp\<lparr>SelectError := b\<rparr>) = run_blocks cp" "run_blocks (cp\<lparr>PipeBuffer := buf\<rparr>) = run_blocks cp"
  by (simp_all add: run_blocks_def)

lemma config_of_fields [simp]:
  "config_of (cp\<lparr>PipesLeft := n\<rparr>) = config_of cp" "config_of (cp\<lparr>PipeSet := s\<rparr>) = config_of cp"
  "config_of (cp\<lparr>Killed := b\<rparr>) = config_of cp" "config_of (cp\<lparr>TimeoutExpired := b\<rparr>) = config_of cp"
  "config_of (cp\<lparr>SelectError := b\<rparr>) = config_of cp" "config_of (cp\<lparr>PipeBuffer := buf\<rparr>) = config_of cp"
  "config_of (cp\<lparr>CommandExitCodes := a\<rparr>) = config_of cp" "config_of (cp\<lparr>ProcessResults := rs\<rparr>) = config_of cp"
  by (simp_all add: config_of_def)

lemma kept_frame [simp]:
  "kept F L cp0 (cp\<lparr>PipesLeft := n\<rparr>) w = kept F L cp0 cp w" "kept F L cp0 (cp\<lparr>PipeSet := s\<rparr>) w = kept F L cp0 cp w"
  "kept F L cp0 (cp\<lparr>SignalPipe := i\<rparr>) w = kept F L cp0 cp w" "kept F L cp0 (cp\<lparr>StartTime := t\<rparr>) w = kept F L cp0 cp w"
  "kept F L cp0 (cp\<lparr>TimeoutTime := t\<rparr>) w = kept F L cp0 cp w" "kept F L cp0 (cp\<lparr>Killed := b\<rparr>) w = kept F L cp0 cp w"
  "kept F L cp0 (cp\<lparr>TimeoutExpired := b\<rparr>) w = kept F L cp0 cp w" "kept F L cp0 (cp\<lparr>SelectError := b\<rparr>) w = kept F L cp0 cp w"
  "kept F L cp0 (cp\<lparr>CommandsLeft := n\<rparr>) w = kept F L cp0 cp w" "kept F L cp0 (cp\<lparr>State := st\<rparr>) w = kept F L cp0 cp w"
  by (simp_all add: kept_def messages_ok_def arrays_ok_def in_range_def)

lemma kept_updates:
  "kept F L cp0 cp w \<Longrightarrow> fd < FD_SETSIZE \<Longrightarrow> kept F L cp0 (cp\<lparr>PipeReadEnds := (PipeReadEnds cp)(i := fd)\<rparr>) w"
  "kept F L cp0 cp w \<Longrightarrow> length m = length (ErrorMessage cp) \<Longrightarrow> kept F L cp0 (cp\<lparr>ErrorMessage := m\<rparr>) w"
  "kept F L cp0 cp w \<Longrightarrow> length buf = length (PipeBuffer cp) \<Longrightarrow> kept F L cp0 (cp\<lparr>PipeBuffer := buf\<rparr>) w"
  by (simp_all add: kept_def messages_ok_def arrays_ok_def in_range_def)

lemma kept_facts:
  assumes "kept F L cp0 cp w"
  shows "length (ErrorMessage cp) = KWSYSPE_PIPE_BUFFER_SIZE + 1" "length (PipeBuffer cp) = KWSYSPE_PIPE_BUFFER_SIZE"
    "i < KWSYSPE_PIPE_COUNT \<Longrightarrow> PipeReadEnds cp i < FD_SETSIZE" "NumberOfCommands cp = NumberOfCommands cp0"
  using assms by (simp_all add: kept_def messages_ok_def in_range_def config_of_eq)

section \<open>Closing the pipes and killing\<close>

text \<open>The fields that reading and closing the pipes may change.\<close>

definition pipes_changed :: "kwsysProcess \<Rightarrow> kwsysProcess \<Rightarrow> bool" where
  "pipes_changed cp cp' \<longleftrightarrow> State cp' = State cp \<and> Killed cp' = Killed cp \<and> TimeoutExpired cp' = TimeoutExpired cp
     \<and> SelectError cp' = SelectError cp \<and> ForkPIDs cp' = ForkPIDs cp \<and> CommandsLeft cp' = CommandsLeft cp
     \<and> CommandExitCodes cp' = CommandExitCodes cp \<and> ProcessResults cp' = ProcessResults cp"

lemma close_pipes_returns:
  assumes "fair e" and "read_ok e" and "kept F L cp0 cp w" and "set is \<subseteq> {..<KWSYSPE_PIPE_COUNT}"
  shows "returns (close_pipes e is cp w) (\<lambda>(cp', w'). kept F L cp0 cp' w' \<and> pipes_changed cp cp')"
  using assms(3,4)
proof (induction "is" arbitrary: cp w)
  case Nil
  then show ?case by (simp add: pipes_changed_def)
next
  case (Cons i js)
  note k = Cons.prems(1)
  have i: "i < KWSYSPE_PIPE_COUNT" and js: "set js \<subseteq> {..<KWSYSPE_PIPE_COUNT}" using Cons.prems(2) by auto
  let ?fd = "PipeReadEnds cp i"
  have rest: "returns (do { (fd, w) \<leftarrow> kwsysProcessCleanupDescriptor e (PipeReadEnds c i) v;
                close_pipes e js (c\<lparr>PipeReadEnds := (PipeReadEnds c)(i := fd), PipesLeft := PipesLeft c - 1\<rparr>) w })
      (\<lambda>(cp', w'). kept F L cp0 cp' w' \<and> pipes_changed cp cp')"
    if c: "kept F L cp0 c v" "pipes_changed cp c" for c v
    unfolding returns_bind
  proof (rule wp_CleanupDescriptor [OF assms(1)], unfold prod.case)
    fix u assume u: "calls_only v u"
    let ?c = "c\<lparr>PipeReadEnds := (PipeReadEnds c)(i := if PipeReadEnds c i > 2 then -1 else PipeReadEnds c i), PipesLeft := PipesLeft c - 1\<rparr>"
    have "kept F L cp0 c u" using c(1) kept_calls [OF u] by simp
    then have "kept F L cp0 ?c u" using kept_facts(3) [OF c(1) i] kept_updates(1) [of F L cp0 c u _ i]
      by (simp add: FD_SETSIZE_def)
    moreover have "pipes_changed c ?c" by (simp add: pipes_changed_def)
    ultimately show "returns (close_pipes e js ?c u) (\<lambda>(cp', w'). kept F L cp0 cp' w' \<and> pipes_changed cp cp')"
      using Cons.IH [of ?c u] js c(2) by (auto elim!: returns_mono simp: pipes_changed_def)
  qed
  show ?case
  proof (cases "0 \<le> ?fd")
    case False
    with Cons.IH [OF k js] show ?thesis by simp
  next
    case True
    then have r: "fd_in_range ?fd" using kept_facts(3) [OF k i] by (simp add: fd_in_range_def)
    have len: "0 + KWSYSPE_PIPE_BUFFER_SIZE \<le> length (PipeBuffer cp)" using kept_facts(2) [OF k] by simp
    have read: "returns (read_into e ?fd (PipeBuffer cp) 0 KWSYSPE_PIPE_BUFFER_SIZE w)
        (\<lambda>(n, buf, v). kept F L cp0 (cp\<lparr>PipeSet := s, PipeBuffer := buf\<rparr>) v)" for s
      by (rule wp_read_into [OF assms(1,2) len]) (use k kept_updates(3) kept_calls in auto)
    show ?thesis
      unfolding close_pipes.simps if_P [OF True] FD_ISSET_def FD_CLR_def if_P [OF r] returns_bind returns_Some
    proof (rule returns_mono [where Q = "\<lambda>(c, v). kept F L cp0 c v \<and> pipes_changed cp c"])
      show "returns (if ?fd \<in> PipeSet cp then do { s \<leftarrow> Some (PipeSet cp - {?fd});
            (_, buf, w) \<leftarrow> read_into e ?fd (PipeBuffer cp) 0 KWSYSPE_PIPE_BUFFER_SIZE w;
            Some (cp\<lparr>PipeSet := s, PipeBuffer := buf\<rparr>, w) }
          else Some (cp, w)) (\<lambda>(c, v). kept F L cp0 c v \<and> pipes_changed cp c)"
        using k by (auto simp: pipes_changed_def intro!: returns_mono [OF read [unfolded pipe_consts]])
    next
      fix x assume "case x of (c, v) \<Rightarrow> kept F L cp0 c v \<and> pipes_changed cp c"
      then show "returns (case x of (cp, w) \<Rightarrow> do { (fd, w) \<leftarrow> kwsysProcessCleanupDescriptor e (PipeReadEnds cp i) w;
          close_pipes e js (cp\<lparr>PipeReadEnds := (PipeReadEnds cp)(i := fd), PipesLeft := PipesLeft cp - 1\<rparr>) w })
        (\<lambda>(cp', w'). kept F L cp0 cp' w' \<and> pipes_changed cp cp')"
        using rest by (cases x) simp
    qed
  qed
qed

lemma ClosePipes_returns:
  assumes "os_ok e" and "kept F L cp0 cp w"
  shows "returns (kwsysProcessClosePipes e cp w) (\<lambda>(cp', w'). kept F L cp0 cp' w' \<and> pipes_changed cp cp')"
  unfolding kwsysProcessClosePipes_def
  by (rule close_pipes_returns) (use assms in \<open>auto simp: os_ok_def\<close>)

lemma kept_pids:
  assumes "kept F L cp0 cp w"
  obtains b pids where "ForkPIDs cp = Some (b, pids)" and "length pids = NumberOfCommands cp" and "fork_pids cp = Some pids"
  using assms by (auto simp: kept_def arrays_ok_def array_of_def fork_pids_def mem_read_def)

text \<open>After a kill only the outcome is left to find out.\<close>

lemma Kill_returns_active:
  assumes "os_ok e" and "active F L cp0 cp w"
  shows "returns (Kill e cp w) (\<lambda>(cp', w'). active F L cp0 cp' w' \<and> Killed cp' \<and> CommandsLeft cp' = 0
    \<and> TimeoutExpired cp' = TimeoutExpired cp \<and> SelectError cp' = SelectError cp)"
proof -
  have f: "fair e" "finite_trees e" using assms(1) by (simp_all add: os_ok_def)
  have k: "kept F L cp0 cp w" and st: "State cp = State_Executing" using assms(2) by (simp_all add: active_def)
  let ?P = "\<lambda>(cp', w'). active F L cp0 cp' w' \<and> Killed cp' \<and> CommandsLeft cp' = 0
    \<and> TimeoutExpired cp' = TimeoutExpired cp \<and> SelectError cp' = SelectError cp"
  have "State cp \<noteq> State_Executing \<longleftrightarrow> False" using st by simp
  note body = Kill_def this if_False returns_bind
  show ?thesis
    unfolding body
  proof (rule wp_CleanupDescriptor [OF f(1)], unfold prod.case returns_bind)
    fix w1 assume w1: "calls_only w w1"
    let ?c = "cp\<lparr>SignalPipe := if 2 < SignalPipe cp then -1 else SignalPipe cp\<rparr>"
    have k1: "kept F L cp0 ?c w1" using k kept_calls [OF w1] by simp
    show "returns (kwsysProcessClosePipes e ?c w1) (\<lambda>x. returns (case x of (cp, w) \<Rightarrow>
        let cp = cp\<lparr>Killed := True\<rparr> in do { pids \<leftarrow> fork_pids cp; w \<leftarrow> kill_children e pids w; Some (cp\<lparr>CommandsLeft := 0\<rparr>, w) }) ?P)"
    proof (rule returns_mono [OF ClosePipes_returns [OF assms(1) k1]], clarify)
      fix c w2
      assume c: "kept F L cp0 c w2" and p: "pipes_changed ?c c"
      then have k2: "kept F L cp0 (c\<lparr>Killed := True\<rparr>) w2" by simp
      obtain pids where pids: "fork_pids (c\<lparr>Killed := True\<rparr>) = Some pids" using kept_pids [OF k2] by metis
      have "?P (c\<lparr>Killed := True, CommandsLeft := 0\<rparr>, w3)" if w3: "calls_only w2 w3" for w3
        using k2 p st kept_calls [OF w3] by (simp add: active_def counted_def pipes_changed_def)
      then show "returns (let cp = c\<lparr>Killed := True\<rparr> in do { pids \<leftarrow> fork_pids cp; w \<leftarrow> kill_children e pids w2;
          Some (cp\<lparr>CommandsLeft := 0\<rparr>, w) }) ?P"
        unfolding Let_def pids returns_bind returns_Some by (intro wp_kill_children [OF f])
    qed
  qed
qed

section \<open>Reaping the children\<close>

text \<open>\<open>waitpid\<close> has reported the end of this child, with this status.\<close>

definition ended_with :: "env \<Rightarrow> int \<Rightarrow> int \<Rightarrow> bool" where
  "ended_with e pid code \<longleftrightarrow> (\<exists>tr. 0 < ret (sys e (S_waitpid pid True # tr)) \<and> code = status (sys e (S_waitpid pid True # tr)))"

text \<open>
  A child that has ended is taken off the list, and its exit status is stored; nothing else
  happens to the list and the codes.
\<close>

definition reaped :: "env \<Rightarrow> kwsysProcess \<Rightarrow> kwsysProcess \<Rightarrow> bool" where
  "reaped e cp cp' \<longleftrightarrow> (\<forall>b pids b' codes. ForkPIDs cp = Some (b, pids) \<and> CommandExitCodes cp = Some (b', codes) \<longrightarrow>
     (\<exists>pids' codes'. ForkPIDs cp' = Some (b, pids') \<and> CommandExitCodes cp' = Some (b', codes')
        \<and> length pids' = length pids \<and> length codes' = length codes
        \<and> (\<forall>i<length pids. pids' ! i = pids ! i \<and> codes' ! i = codes ! i
             \<or> pids ! i \<noteq> 0 \<and> pids' ! i = 0 \<and> ended_with e (pids ! i) (codes' ! i))))"

lemma reaped_refl [simp]: "reaped e cp cp"
  by (simp add: reaped_def)

lemma reaped_trans:
  assumes "reaped e a c" and "reaped e c d"
  shows "reaped e a d"
  unfolding reaped_def
proof (intro allI impI, elim conjE)
  fix b pids b' codes
  assume "ForkPIDs a = Some (b, pids)" "CommandExitCodes a = Some (b', codes)"
  with assms(1) obtain p1 c1 where 1: "ForkPIDs c = Some (b, p1)" "CommandExitCodes c = Some (b', c1)"
    "length p1 = length pids" "length c1 = length codes"
    "\<forall>i<length pids. p1 ! i = pids ! i \<and> c1 ! i = codes ! i \<or> pids ! i \<noteq> 0 \<and> p1 ! i = 0 \<and> ended_with e (pids ! i) (c1 ! i)"
    unfolding reaped_def by blast
  with assms(2) obtain p2 c2 where 2: "ForkPIDs d = Some (b, p2)" "CommandExitCodes d = Some (b', c2)"
    "length p2 = length p1" "length c2 = length c1"
    "\<forall>i<length p1. p2 ! i = p1 ! i \<and> c2 ! i = c1 ! i \<or> p1 ! i \<noteq> 0 \<and> p2 ! i = 0 \<and> ended_with e (p1 ! i) (c2 ! i)"
    unfolding reaped_def by blast
  have "p2 ! i = pids ! i \<and> c2 ! i = codes ! i \<or> pids ! i \<noteq> 0 \<and> p2 ! i = 0 \<and> ended_with e (pids ! i) (c2 ! i)" if "i < length pids" for i
    using 1(5) [rule_format, OF that] 2(5) [rule_format, of i] that 1(3) by (elim disjE conjE) simp_all
  with 1 2 show "\<exists>pids' codes'. ForkPIDs d = Some (b, pids') \<and> CommandExitCodes d = Some (b', codes')
        \<and> length pids' = length pids \<and> length codes' = length codes
        \<and> (\<forall>i<length pids. pids' ! i = pids ! i \<and> codes' ! i = codes ! i
             \<or> pids ! i \<noteq> 0 \<and> pids' ! i = 0 \<and> ended_with e (pids ! i) (codes' ! i))"
    by simp
qed

text \<open>What reaping leaves: the invariant, the difference between the count and the list, the flags.\<close>

definition reap_post :: "env \<Rightarrow> kwsysProcess \<Rightarrow> kwsysProcess \<Rightarrow> bool" where
  "reap_post e cp cp' \<longleftrightarrow> reaped e cp cp' \<and> CommandsLeft cp' - children_left cp' = CommandsLeft cp - children_left cp
     \<and> (State cp' = State cp \<or> State cp' = State_Error) \<and> Killed cp' = Killed cp \<and> TimeoutExpired cp' = TimeoutExpired cp
     \<and> SelectError cp' = SelectError cp \<and> PipesLeft cp' = PipesLeft cp \<and> PipeReadEnds cp' = PipeReadEnds cp
     \<and> PipeSet cp' = PipeSet cp \<and> PipeBuffer cp' = PipeBuffer cp
     \<and> (SignalPipe cp' = SignalPipe cp \<or> SignalPipe cp' \<le> 2)
     \<and> (CommandsLeft cp \<noteq> 0 \<and> CommandsLeft cp' = 0 \<longrightarrow> SignalPipe cp' \<le> 2)"

lemma reap_post_refl [simp]: "reap_post e cp cp"
  by (simp add: reap_post_def)

lemma reap_post_trans:
  assumes "reap_post e a b" and "reap_post e b c"
  shows "reap_post e a c"
proof -
  have "reaped e a c" using assms(1,2) reaped_trans unfolding reap_post_def by blast
  moreover have "CommandsLeft a \<noteq> 0 \<and> CommandsLeft c = 0 \<longrightarrow> SignalPipe c \<le> 2"
    using assms unfolding reap_post_def by (cases "CommandsLeft b = 0") auto
  moreover have "SignalPipe c = SignalPipe a \<or> SignalPipe c \<le> 2"
    using assms unfolding reap_post_def by (elim conjE disjE) simp_all
  moreover have "State c = State a \<or> State c = State_Error" using assms(1,2) unfolding reap_post_def by metis
  ultimately show ?thesis using assms(1,2) unfolding reap_post_def by simp
qed

text \<open>The documented behaviour that \<open>waitpid\<close> on a child of this process does not fail.\<close>

definition wait_ok :: "env \<Rightarrow> bool" where
  "wait_ok e \<longleftrightarrow> (\<forall>tr pid. let r = sys e (S_waitpid pid True # tr) in interrupted r \<or> 0 \<le> ret r)"

lemma children_left_zero:
  assumes "i < length pids" and "pids ! i \<noteq> 0" and "ForkPIDs cp = Some (b, pids)"
  shows "children_left (cp\<lparr>ForkPIDs := Some (b, pids[i := 0])\<rparr>) = children_left cp - 1"
proof -
  have s: "pids = take i pids @ pids ! i # drop (Suc i) pids" "pids[i := 0] = take i pids @ 0 # drop (Suc i) pids"
    using assms(1) by (simp_all add: id_take_nth_drop upd_conv_take_nth_drop)
  have "length (filter (\<lambda>pid. pid \<noteq> 0) pids) = Suc (length (filter (\<lambda>pid. pid \<noteq> 0) (pids[i := 0])))"
    unfolding s(2) by (subst s(1)) (simp add: assms(2))
  then show ?thesis using assms(3) by (simp add: children_left_def)
qed

text \<open>The child \<open>i\<close> has ended.\<close>

lemma reap_one:
  assumes "kept F L cp0 cp w" and "ForkPIDs cp = Some (b, pids)" and "i < length pids" and "pids ! i \<noteq> 0"
    and "ended_with e (pids ! i) code"
  obtains cp1 cp2 where "store_exit_code cp i code = Some cp1" and "set_pid cp1 i 0 = Some cp2"
    and "\<And>fd. fd = (if CommandsLeft cp - 1 = 0 then if 2 < SignalPipe cp then -1 else SignalPipe cp else SignalPipe cp) \<Longrightarrow> reap_post e cp (cp2\<lparr>CommandsLeft := CommandsLeft cp - 1, SignalPipe := fd\<rparr>)"
    and "kept F L cp0 cp2 w" and "CommandsLeft cp2 = CommandsLeft cp" and "SignalPipe cp2 = SignalPipe cp"
    and "State cp2 = State cp"
proof -
  from assms(1,2) obtain b' codes where c: "CommandExitCodes cp = Some (b', codes)" "length codes = NumberOfCommands cp"
    "length pids = NumberOfCommands cp" by (auto simp: kept_def arrays_ok_def array_of_def)
  let ?cp1 = "cp\<lparr>CommandExitCodes := Some (b', codes[i := code])\<rparr>"
  let ?cp2 = "?cp1\<lparr>ForkPIDs := Some (b, pids[i := 0])\<rparr>"
  have 1: "store_exit_code cp i code = Some ?cp1" and 2: "set_pid ?cp1 i 0 = Some ?cp2"
    using assms c by (simp_all add: store_exit_code_def set_pid_def)
  have "children_left ?cp2 = children_left ?cp1 - 1"
    by (rule children_left_zero [OF assms(3,4)]) (simp add: assms(2))
  then have "children_left ?cp2 = children_left cp - 1" by (simp add: children_left_def)
  then have p: "reap_post e cp (?cp2\<lparr>CommandsLeft := CommandsLeft cp - 1, SignalPipe := fd\<rparr>)"
    if "fd = (if CommandsLeft cp - 1 = 0 then if 2 < SignalPipe cp then -1 else SignalPipe cp else SignalPipe cp)" for fd
    using that assms(2-5) c by (auto simp: reap_post_def reaped_def children_left_def nth_list_update)
  have k: "kept F L cp0 ?cp2 w"
    using assms(1,2) c by (auto simp: kept_def messages_ok_def arrays_ok_def array_of_def run_blocks_def in_range_def)
  show thesis by (rule that [OF 1 2 p k]) simp_all
qed

text \<open>What one iteration leaves, and the whole loop.\<close>

definition reap_result :: "env \<Rightarrow> nat multiset \<Rightarrow> nat list \<Rightarrow> kwsysProcess \<Rightarrow> kwsysProcess \<Rightarrow> kwsysProcess \<times> world \<Rightarrow> bool" where
  "reap_result e F L cp0 cp = (\<lambda>(cp', w'). kept F L cp0 cp' w' \<and> reap_post e cp cp' \<and> (wait_ok e \<longrightarrow> State cp' = State cp))"

lemma retried_ended: "retried e (S_waitpid pid True) w (r, v) \<Longrightarrow> 0 < ret r \<Longrightarrow> ended_with e pid (status r)"
proof -
  assume "retried e (S_waitpid pid True) w (r, v)" and pos: "0 < ret r"
  then obtain n where "r = sys e (S_waitpid pid True # replicate n (S_waitpid pid True) @ trace w)" by (auto simp: retried_def)
  with pos show ?thesis unfolding ended_with_def by blast
qed

lemma reap_child_returns:
  assumes "os_ok e" and k: "kept F L cp0 cp w" and "i < NumberOfCommands cp0"
  shows "returns (reap_child e i cp w) (reap_result e F L cp0 cp)"
proof -
  note f = os_fair [OF assms(1)]
  obtain b pids where p: "ForkPIDs cp = Some (b, pids)" "length pids = NumberOfCommands cp" using kept_pids [OF k] by metis
  then have i: "i < length pids" using assms(3) kept_facts(4) [OF k] by simp
  obtain str where str: "\<And>n. c_string (strerror e n) = Some (str n)"
    using assms(1) unfolding os_ok_def strings_end_def by metis
  have child: "returns (do { cp \<leftarrow> store_exit_code cp i code; cp \<leftarrow> set_pid cp i 0;
        let cp = cp\<lparr>CommandsLeft := CommandsLeft cp - 1\<rparr>;
        (fd, w) \<leftarrow> (if CommandsLeft cp = 0 then kwsysProcessCleanupDescriptor e (SignalPipe cp) v else Some (SignalPipe cp, v));
        Some (cp\<lparr>SignalPipe := fd\<rparr>, w) }) (reap_result e F L cp0 cp)"
    if v: "calls_only w v" and nz: "pids ! i \<noteq> 0" and code: "ended_with e (pids ! i) code" for code v
  proof -
    have kv: "kept F L cp0 cp v" using k kept_calls [OF v] by simp
    obtain cp1 cp2 where 1: "store_exit_code cp i code = Some cp1" "set_pid cp1 i 0 = Some cp2"
      and post: "\<And>fd. fd = (if CommandsLeft cp - 1 = 0 then if 2 < SignalPipe cp then -1 else SignalPipe cp else SignalPipe cp)
        \<Longrightarrow> reap_post e cp (cp2\<lparr>CommandsLeft := CommandsLeft cp - 1, SignalPipe := fd\<rparr>)"
      and k2: "kept F L cp0 cp2 v" and f2: "CommandsLeft cp2 = CommandsLeft cp" "SignalPipe cp2 = SignalPipe cp" "State cp2 = State cp"
      using reap_one [OF kv p(1) i nz code] by metis
    have "reap_result e F L cp0 cp (cp2\<lparr>CommandsLeft := CommandsLeft cp - 1, SignalPipe :=
        if CommandsLeft cp - 1 = 0 then if 2 < SignalPipe cp then -1 else SignalPipe cp else SignalPipe cp\<rparr>, u)"
      if "calls_only v u" for u
      using k2 kept_calls [OF that] post f2(3) by (simp add: reap_result_def)
    then show ?thesis using 1 f2 by (auto simp: Let_def intro!: wp_CleanupDescriptor [OF f])
  qed
  have error: "returns (do { msg \<leftarrow> strncpy (ErrorMessage cp) (strerror e (errno v)) KWSYSPE_PIPE_BUFFER_SIZE;
        Some (cp\<lparr>ErrorMessage := msg, State := State_Error\<rparr>, v) }) (reap_result e F L cp0 cp)"
    if v: "calls_only w v" and bad: "\<not> wait_ok e" for v
  proof -
    have msg: "strncpy (ErrorMessage cp) (strerror e (errno v)) KWSYSPE_PIPE_BUFFER_SIZE
        = Some (take KWSYSPE_PIPE_BUFFER_SIZE (str (errno v) @ replicate KWSYSPE_PIPE_BUFFER_SIZE 0)
            @ drop KWSYSPE_PIPE_BUFFER_SIZE (ErrorMessage cp))" (is "_ = Some ?m")
      by (rule strncpy_lit [OF str]) (simp add: kept_facts(1) [OF k])
    have "length ?m = length (ErrorMessage cp)" using kept_facts(1) [OF k] by (simp add: min_def)
    then have "kept F L cp0 (cp\<lparr>ErrorMessage := ?m\<rparr>) v" using kept_updates(2) k kept_calls [OF v] by blast
    then show ?thesis
      using bad unfolding msg by (auto simp: reap_result_def reap_post_def reaped_def children_left_def)
  qed
  have same: "reap_result e F L cp0 cp (cp, v)" if "calls_only w v" for v
    using k kept_calls [OF that] by (simp add: reap_result_def)
  have wait: "0 \<le> ret r" if ok: "wait_ok e" and r: "retried e (S_waitpid pid True) w (r, v)" for pid r v
  proof -
    from r obtain n where "r = sys e (S_waitpid pid True # replicate n (S_waitpid pid True) @ trace w)" "\<not> interrupted r"
      by (auto simp: retried_def interrupted_def)
    with ok show ?thesis unfolding wait_ok_def Let_def by blast
  qed
  show ?thesis
  proof (cases "pids ! i = 0")
    case True
    with same [of w] p i show ?thesis by (simp add: reap_child_def)
  next
    case False
    have "(length pids \<le> i) = False" "(pids ! i = 0) = False" using i False by simp_all
    note no = this
    show ?thesis
      unfolding reap_child_def p(1) returns_bind returns_Some prod.case no if_False
    proof (rule wp_retry [OF f], unfold prod.case)
      fix r v assume v: "calls_only w v" "retried e (S_waitpid (pids ! i) True) w (r, v)"
      consider "0 < ret r" | "ret r < 0" "State cp \<noteq> State_Error" | "\<not> 0 < ret r" "\<not> (ret r < 0 \<and> State cp \<noteq> State_Error)" by blast
      then show "returns (if ret r > 0 then do { cp \<leftarrow> store_exit_code cp i (status r); cp \<leftarrow> set_pid cp i 0;
            let cp = cp\<lparr>CommandsLeft := CommandsLeft cp - 1\<rparr>;
            (fd, w) \<leftarrow> (if CommandsLeft cp = 0 then kwsysProcessCleanupDescriptor e (SignalPipe cp) v else Some (SignalPipe cp, v));
            Some (cp\<lparr>SignalPipe := fd\<rparr>, w) }
          else if ret r < 0 \<and> State cp \<noteq> State_Error
          then do { msg \<leftarrow> strncpy (ErrorMessage cp) (strerror e (errno v)) KWSYSPE_PIPE_BUFFER_SIZE;
                    Some (cp\<lparr>ErrorMessage := msg, State := State_Error\<rparr>, v) }
          else Some (cp, v)) (reap_result e F L cp0 cp)"
      proof cases
        case 1
        then have "ended_with e (pids ! i) (status r)"
          by (rule retried_ended [OF v(2)])
        with 1 child [OF v(1) False] show ?thesis by (simp del: returns_bind)
      next
        case 2
        with wait [OF _ v(2)] have "\<not> wait_ok e" by force
        with 2 error [OF v(1)] show ?thesis by (simp del: returns_bind)
      next
        case 3
        with same [OF v(1)] show ?thesis by auto
      qed
    qed
  qed
qed

lemma reap_children_returns:
  assumes "os_ok e" and "kept F L cp0 cp w" and "set is \<subseteq> {..<NumberOfCommands cp0}"
  shows "returns (reap_children e is cp w) (reap_result e F L cp0 cp)"
  using assms(2,3)
proof (induction "is" arbitrary: cp w)
  case (Cons i js)
  have "returns (reap_children e js c v) (reap_result e F L cp0 cp)" if "reap_result e F L cp0 cp (c, v)" for c v
    by (rule returns_mono [OF Cons.IH])
      (use that Cons.prems(2) reap_post_trans in \<open>auto simp: reap_result_def\<close>)
  then show ?case
    unfolding reap_children.simps returns_bind
    by (intro returns_mono [OF reap_child_returns [OF assms(1) Cons.prems(1)]]) (use Cons.prems(2) in auto)
qed (simp add: reap_result_def)

lemma Destroy_returns:
  assumes "os_ok e" and "kept F L cp0 cp w"
  shows "returns (kwsysProcessDestroy e cp w) (reap_result e F L cp0 cp)"
proof -
  obtain r w1 where c: "call e (S_sigprocmask SIG_BLOCK {SIGINT, SIGTERM}) w = (r, w1)" by fastforce
  have k: "kept F L cp0 cp w1" using assms(2) kept_calls [OF calls_only_call [OF c]] by simp
  have n: "NumberOfCommands cp = NumberOfCommands cp0" by (rule kept_facts(4) [OF k])
  have "reap_result e F L cp0 cp (c', snd (call e m v))" if "reap_result e F L cp0 cp (c', v)" for c' v m
    using that kept_calls [OF call_only] by (simp add: reap_result_def)
  then show ?thesis
    using k unfolding kwsysProcessDestroy_def Let_def c
    by (auto simp: n reap_result_def intro!: returns_mono [OF reap_children_returns [OF assms(1) k]])
qed

section \<open>What \<open>waitpid\<close> reports\<close>

text \<open>The answers of \<open>waitpid\<close> in the calls \<open>new\<close>, made after \<open>base\<close>: the processes and the answers, in order, without interruptions.\<close>

fun wait_answers :: "env \<Rightarrow> syscall list \<Rightarrow> syscall list \<Rightarrow> (int \<times> reply) list" where
  "wait_answers e base [] = []"
| "wait_answers e base (c # new) = wait_answers e base new @ (case c of
     S_waitpid pid nohang \<Rightarrow> let r = sys e (c # new @ base) in if interrupted r then [] else [(pid, r)] | _ \<Rightarrow> [])"

text \<open>
  What the answers make of the list of children and their exit codes: each child that is left has one
  answer, and one that has ended is taken off with its status.
\<close>

fun take_reports :: "int list \<Rightarrow> int list \<Rightarrow> (int \<times> reply) list \<Rightarrow> (int \<times> int) list" where
  "take_reports (p # ps) (c # cs) as =
     (if p = 0 then (p, c) # take_reports ps cs as
      else case as of [] \<Rightarrow> [] | (q, r) # as \<Rightarrow> (if 0 < ret r then (0, status r) else (p, c)) # take_reports ps cs as)"
| "take_reports ps cs as = []"

lemma wait_answers_append: "wait_answers e base (a @ b) = wait_answers e base b @ wait_answers e (b @ base) a"
  by (induction a) (auto split: syscall.split)

lemma retry_waits:
  "retry e c w = Some p \<Longrightarrow> c = S_waitpid pid nohang
    \<Longrightarrow> \<exists>new. trace (snd p) = new @ trace w \<and> wait_answers e (trace w) new = [(pid, fst p)]"
proof (induction rule: retry.raw_induct [rotated, consumes 1, case_names 1])
  case (1 f e c w p)
  obtain r v where v: "call e c w = (r, v)" by fastforce
  then have t: "trace v = c # trace w" "r = sys e (c # trace w)" "errno v = (if ret r < 0 then err r else errno w)"
    by (auto simp: call_def Let_def)
  show ?case
  proof (cases "interrupted r")
    case True
    with 1(2) v t(3) have "f e c v = Some p" by (simp add: interrupted_def)
    from 1(1) [OF this 1(3)] obtain new where n: "trace (snd p) = new @ c # trace w" "wait_answers e (c # trace w) new = [(pid, fst p)]"
      by (auto simp: t(1))
    have "wait_answers e (trace w) [c] = []" using True t(2) by (simp add: 1(3) Let_def)
    then have "wait_answers e (trace w) (new @ [c]) = [(pid, fst p)]" using n(2) by (simp only: wait_answers_append append_Nil append.simps)
    with n(1) show ?thesis by (intro exI [of _ "new @ [c]"]) simp
  next
    case False
    then have "\<not> (ret r < 0 \<and> errno v = EINTR)" using t(3) by (auto simp: interrupted_def)
    with 1(2) v have "p = (r, v)" by auto
    with t False show ?thesis by (intro exI [of _ "[c]"]) (simp add: 1(3) Let_def)
  qed
qed

lemma retry_trace: "retry e c w = Some p \<Longrightarrow> \<exists>n. trace (snd p) = replicate n c @ trace w"
proof (induction rule: retry.raw_induct [rotated, consumes 1, case_names 1])
  case (1 f e c w p)
  obtain r v where v: "call e c w = (r, v)" by fastforce
  then have t: "trace v = c # trace w" by (auto simp: call_def Let_def)
  show ?case
  proof (cases "ret r < 0 \<and> errno v = EINTR")
    case True
    with 1(2) v have "f e c v = Some p" by simp
    from 1(1) [OF this] obtain n where "trace (snd p) = replicate n c @ c # trace w" by (auto simp: t)
    then have "trace (snd p) = replicate (Suc n) c @ trace w" by (simp add: replicate_app_Cons_same)
    then show ?thesis by blast
  next
    case False
    with 1(2) v have "p = (r, v)" by auto
    with t show ?thesis by (intro exI [of _ 1]) simp
  qed
qed

text \<open>Calls that ask for no child.\<close>

definition no_waits :: "env \<Rightarrow> world \<Rightarrow> world \<Rightarrow> bool" where
  "no_waits e w w' \<longleftrightarrow> (\<exists>new. trace w' = new @ trace w \<and> wait_answers e (trace w) new = [])"

lemma cleanup_no_waits: "kwsysProcessCleanupDescriptor e fd w = Some (fd', w') \<Longrightarrow> no_waits e w w'"
proof -
  assume a: "kwsysProcessCleanupDescriptor e fd w = Some (fd', w')"
  have "wait_answers e base (replicate n (S_close fd)) = []" for base n by (induction n) simp_all
  moreover have "\<exists>n. trace w' = replicate n (S_close fd) @ trace w"
    using a retry_trace [of e "S_close fd" w]
    by (auto simp: kwsysProcessCleanupDescriptor_def bind_eq_Some_conv split: if_splits intro: exI [of _ 0])
  ultimately show ?thesis unfolding no_waits_def by blast
qed

text \<open>One child: it is asked for once.\<close>

lemma reap_child_exact:
  assumes run: "reap_child e i cp w = Some (cp', w')" and p: "ForkPIDs cp = Some (b, pids)" "i < length pids" "pids ! i \<noteq> 0"
    and c: "CommandExitCodes cp = Some (b', codes)"
  shows "\<exists>new r. trace w' = new @ trace w \<and> wait_answers e (trace w) new = [(pids ! i, r)]
    \<and> (if 0 < ret r then ForkPIDs cp' = Some (b, pids[i := 0]) \<and> CommandExitCodes cp' = Some (b', codes[i := status r])
          \<and> CommandsLeft cp' = CommandsLeft cp - 1 \<and> State cp' = State cp \<and> (SignalPipe cp' = SignalPipe cp \<or> CommandsLeft cp' = 0)
       else ForkPIDs cp' = Some (b, pids) \<and> CommandExitCodes cp' = Some (b', codes) \<and> CommandsLeft cp' = CommandsLeft cp
          \<and> SignalPipe cp' = SignalPipe cp \<and> State cp' = (if ret r < 0 then State_Error else State cp))"
proof -
  obtain r v where v: "retry e (S_waitpid (pids ! i) True) w = Some (r, v)"
    and rest: "(if ret r > 0 then do { cp \<leftarrow> store_exit_code cp i (status r); cp \<leftarrow> set_pid cp i 0;
            let cp = cp\<lparr>CommandsLeft := CommandsLeft cp - 1\<rparr>;
            (fd, w) \<leftarrow> (if CommandsLeft cp = 0 then kwsysProcessCleanupDescriptor e (SignalPipe cp) v else Some (SignalPipe cp, v));
            Some (cp\<lparr>SignalPipe := fd\<rparr>, w) }
          else if ret r < 0 \<and> State cp \<noteq> State_Error
          then do { msg \<leftarrow> strncpy (ErrorMessage cp) (strerror e (errno v)) KWSYSPE_PIPE_BUFFER_SIZE;
                    Some (cp\<lparr>ErrorMessage := msg, State := State_Error\<rparr>, v) }
          else Some (cp, v)) = Some (cp', w')"
    using run p unfolding reap_child_def by (auto simp: bind_eq_Some_conv)
  obtain new where new: "trace v = new @ trace w" "wait_answers e (trace w) new = [(pids ! i, r)]"
    using retry_waits [OF v refl] by auto
  show ?thesis
  proof (cases "0 < ret r")
    case True
    with rest c p obtain fd where f: "(if CommandsLeft cp - 1 = 0 then kwsysProcessCleanupDescriptor e (SignalPipe cp) v
          else Some (SignalPipe cp, v)) = Some (fd, w')"
      and cp': "cp' = cp\<lparr>CommandExitCodes := Some (b', codes[i := status r]), ForkPIDs := Some (b, pids[i := 0]),
        CommandsLeft := CommandsLeft cp - 1, SignalPipe := fd\<rparr>"
      by (auto simp: store_exit_code_def set_pid_def Let_def bind_eq_Some_conv split: if_splits)
    have "no_waits e v w'" using f cleanup_no_waits by (auto simp: no_waits_def split: if_splits)
    then obtain new' where n: "trace w' = new' @ trace v" "wait_answers e (trace v) new' = []" by (auto simp: no_waits_def)
    have "SignalPipe cp' = SignalPipe cp \<or> CommandsLeft cp' = 0" using f by (auto simp: cp' split: if_splits)
    with True new n cp' show ?thesis
      by (intro exI [of _ "new' @ new"] exI [of _ r]) (simp add: wait_answers_append)
  next
    case False
    with rest new p(1) c show ?thesis
      by (intro exI [of _ new] exI [of _ r]) (auto simp: bind_eq_Some_conv split: if_splits)
  qed
qed

definition reports :: "(int \<times> reply) list \<Rightarrow> nat" where
  "reports as = length (filter (\<lambda>(p, r). 0 < ret r) as)"

definition some_failed :: "(int \<times> reply) list \<Rightarrow> bool" where
  "some_failed as \<longleftrightarrow> list_ex (\<lambda>(p, r). ret r < 0) as"

text \<open>The loop, from child \<open>i\<close> on.\<close>

definition reaped_from :: "env \<Rightarrow> nat \<Rightarrow> kwsysProcess \<Rightarrow> world \<Rightarrow> kwsysProcess \<Rightarrow> world \<Rightarrow> bool" where
  "reaped_from e i cp w cp' w' \<longleftrightarrow> (\<exists>b pids b' codes new as. ForkPIDs cp = Some (b, pids) \<and> CommandExitCodes cp = Some (b', codes)
     \<and> trace w' = new @ trace w \<and> as = wait_answers e (trace w) new \<and> map fst as = filter (\<lambda>p. p \<noteq> 0) (drop i pids)
     \<and> ForkPIDs cp' = Some (b, take i pids @ map fst (take_reports (drop i pids) (drop i codes) as))
     \<and> CommandExitCodes cp' = Some (b', take i codes @ map snd (take_reports (drop i pids) (drop i codes) as))
     \<and> CommandsLeft cp' = CommandsLeft cp - int (reports as)
     \<and> State cp' = (if some_failed as then State_Error else State cp)
     \<and> (int (length (filter (\<lambda>p. p \<noteq> 0) (drop i pids))) \<le> CommandsLeft cp \<longrightarrow> SignalPipe cp' = SignalPipe cp \<or> CommandsLeft cp' = 0))"

lemma reports_bound: "reports as \<le> length as"
  by (simp add: reports_def)

lemma reap_children_exact:
  assumes "reap_children e [i..<n] cp w = Some (cp', w')" and "ForkPIDs cp = Some (b, pids)" and "CommandExitCodes cp = Some (b', codes)"
    and "length pids = n" and "length codes = n" and "i \<le> n"
  shows "reaped_from e i cp w cp' w'"
  using assms
proof (induction "n - i" arbitrary: i cp w pids codes)
  case 0
  then show ?case by (auto simp: reaped_from_def reports_def some_failed_def)
next
  case (Suc k)
  then have i: "i < n" by simp
  then have upt: "[i..<n] = i # [Suc i..<n]" by (simp add: upt_conv_Cons)
  have dp: "drop i pids = pids ! i # drop (Suc i) pids" and dc: "drop i codes = codes ! i # drop (Suc i) codes"
    using i Suc.prems(4,5) by (simp_all add: Cons_nth_drop_Suc)
  have tk: "take (Suc i) xs = take i xs @ [xs ! i]" if "length xs = n" for xs :: "int list"
    using i that by (simp add: take_Suc_conv_app_nth)
  from Suc.prems(1) obtain c1 w1 where step: "reap_child e i cp w = Some (c1, w1)" and rest: "reap_children e [Suc i..<n] c1 w1 = Some (cp', w')"
    by (auto simp: upt bind_eq_Some_conv)
  show ?case
  proof (cases "pids ! i = 0")
    case True
    then have "c1 = cp" "w1 = w" using step Suc.prems(2,4) i by (auto simp: reap_child_def)
    with rest have "reaped_from e (Suc i) cp w cp' w'" using Suc.hyps(1) [of "Suc i" cp w pids codes] Suc.hyps(2) Suc.prems i by simp
    then show ?thesis
      using Suc.prems(2,3) True tk [OF Suc.prems(4)] tk [OF Suc.prems(5)]
      by (auto simp: reaped_from_def dp dc)
  next
    case nz: False
    from reap_child_exact [OF step Suc.prems(2) _ nz Suc.prems(3)] i Suc.prems(4) obtain new1 r where
      n1: "trace w1 = new1 @ trace w" "wait_answers e (trace w) new1 = [(pids ! i, r)]"
      and eff: "if 0 < ret r then ForkPIDs c1 = Some (b, pids[i := 0]) \<and> CommandExitCodes c1 = Some (b', codes[i := status r])
          \<and> CommandsLeft c1 = CommandsLeft cp - 1 \<and> State c1 = State cp \<and> (SignalPipe c1 = SignalPipe cp \<or> CommandsLeft c1 = 0)
       else ForkPIDs c1 = Some (b, pids) \<and> CommandExitCodes c1 = Some (b', codes) \<and> CommandsLeft c1 = CommandsLeft cp
          \<and> SignalPipe c1 = SignalPipe cp \<and> State c1 = (if ret r < 0 then State_Error else State cp)" by blast
    define p1 where "p1 = (if 0 < ret r then pids[i := 0] else pids)"
    define d1 where "d1 = (if 0 < ret r then codes[i := status r] else codes)"
    have f1: "ForkPIDs c1 = Some (b, p1)" "CommandExitCodes c1 = Some (b', d1)" using eff by (simp_all add: p1_def d1_def)
    have l1: "length p1 = n" "length d1 = n" "drop (Suc i) p1 = drop (Suc i) pids" "drop (Suc i) d1 = drop (Suc i) codes"
      "take (Suc i) p1 = take i pids @ [if 0 < ret r then 0 else pids ! i]" "take (Suc i) d1 = take i codes @ [if 0 < ret r then status r else codes ! i]"
      using Suc.prems(4,5) i by (simp_all add: p1_def d1_def take_Suc_conv_app_nth)
    have "reaped_from e (Suc i) c1 w1 cp' w'"
      using Suc.hyps(1) [OF _ rest f1 l1(1,2)] Suc.hyps(2) i by simp
    then obtain new2 where n2: "trace w' = new2 @ trace w1"
      "map fst (wait_answers e (trace w1) new2) = filter (\<lambda>p. p \<noteq> 0) (drop (Suc i) pids)"
      "ForkPIDs cp' = Some (b, take (Suc i) p1 @ map fst (take_reports (drop (Suc i) pids) (drop (Suc i) codes) (wait_answers e (trace w1) new2)))"
      "CommandExitCodes cp' = Some (b', take (Suc i) d1 @ map snd (take_reports (drop (Suc i) pids) (drop (Suc i) codes) (wait_answers e (trace w1) new2)))"
      "CommandsLeft cp' = CommandsLeft c1 - int (reports (wait_answers e (trace w1) new2))"
      "State cp' = (if some_failed (wait_answers e (trace w1) new2) then State_Error else State c1)"
      "int (length (filter (\<lambda>p. p \<noteq> 0) (drop (Suc i) pids))) \<le> CommandsLeft c1 \<longrightarrow> SignalPipe cp' = SignalPipe c1 \<or> CommandsLeft cp' = 0"
      using f1 l1(3,4) unfolding reaped_from_def by auto
    define as2 where "as2 = wait_answers e (trace w1) new2"
    have as: "wait_answers e (trace w) (new2 @ new1) = (pids ! i, r) # as2"
      using n1 by (simp add: wait_answers_append as2_def)
    have few: "reports as2 \<le> length (filter (\<lambda>p. p \<noteq> 0) (drop (Suc i) pids))"
      using reports_bound [of as2] n2(2) as2_def by (metis length_map)
    have pipe: "SignalPipe cp' = SignalPipe cp \<or> CommandsLeft cp' = 0"
      if "int (length (filter (\<lambda>p. p \<noteq> 0) (drop i pids))) \<le> CommandsLeft cp"
    proof -
      have "int (length (filter (\<lambda>p. p \<noteq> 0) (drop (Suc i) pids))) \<le> CommandsLeft c1" using that nz eff by (auto simp: dp split: if_splits)
      with n2(7) have "SignalPipe cp' = SignalPipe c1 \<or> CommandsLeft cp' = 0" by simp
      moreover have "CommandsLeft cp' = 0" if "CommandsLeft c1 = 0"
        using that few n2(5) \<open>int (length (filter (\<lambda>p. p \<noteq> 0) (drop (Suc i) pids))) \<le> CommandsLeft c1\<close> by (simp add: as2_def)
      ultimately show ?thesis using eff by (auto split: if_splits)
    qed
    have "trace w' = (new2 @ new1) @ trace w" using n1(1) n2(1) by simp
    moreover have "map fst ((pids ! i, r) # as2) = filter (\<lambda>p. p \<noteq> 0) (drop i pids)" using n2(2) nz by (simp add: dp as2_def)
    moreover have "ForkPIDs cp' = Some (b, take i pids @ map fst (take_reports (drop i pids) (drop i codes) ((pids ! i, r) # as2)))"
      "CommandExitCodes cp' = Some (b', take i codes @ map snd (take_reports (drop i pids) (drop i codes) ((pids ! i, r) # as2)))"
      using n2(3,4) nz l1(5,6) by (simp_all add: dp dc as2_def)
    moreover have "CommandsLeft cp' = CommandsLeft cp - int (reports ((pids ! i, r) # as2))"
      using n2(5) eff by (auto simp: reports_def as2_def)
    moreover have "State cp' = (if some_failed ((pids ! i, r) # as2) then State_Error else State cp)"
      using n2(6) eff by (auto simp: some_failed_def as2_def split: if_splits)
    ultimately show ?thesis
      using Suc.prems(2,3) pipe as unfolding reaped_from_def by (metis (no_types, lifting))
  qed
qed

section \<open>Reading the pipes\<close>

text \<open>What the steps of a wait keep, apart from the pipes.\<close>

definition steady :: "env \<Rightarrow> nat multiset \<Rightarrow> nat list \<Rightarrow> kwsysProcess \<Rightarrow> kwsysProcess \<Rightarrow> kwsysProcess \<Rightarrow> world \<Rightarrow> bool" where
  "steady e F L cp0 cp cp' w' \<longleftrightarrow> kept F L cp0 cp' w'
     \<and> CommandsLeft cp' - children_left cp' = CommandsLeft cp - children_left cp
     \<and> (State cp' = State cp \<or> State cp' = State_Error) \<and> (wait_ok e \<longrightarrow> State cp' = State cp)
     \<and> Killed cp' = Killed cp \<and> TimeoutExpired cp' = TimeoutExpired cp \<and> SelectError cp' = SelectError cp"

lemma steady_refl: "kept F L cp0 cp w \<Longrightarrow> steady e F L cp0 cp cp w"
  by (simp add: steady_def)

lemma steady_trans: "steady e F L cp0 a b w \<Longrightarrow> steady e F L cp0 b c w' \<Longrightarrow> steady e F L cp0 a c w'"
  unfolding steady_def by metis

lemma steady_kept: "steady e F L cp0 cp cp' w' \<Longrightarrow> kept F L cp0 cp' w'"
  by (simp add: steady_def)

lemma steady_reaped: "reap_result e F L cp0 cp (cp', w') \<Longrightarrow> steady e F L cp0 cp cp' w'"
  by (simp add: reap_result_def reap_post_def steady_def)

lemma steady_active: "active F L cp0 cp w \<Longrightarrow> steady e F L cp0 cp cp' w' \<Longrightarrow> wait_ok e \<Longrightarrow> active F L cp0 cp' w'"
  by (auto simp: active_def steady_def counted_def)

text \<open>The data that is returned: at most a buffer, from one of the output pipes, when it is wanted.\<close>

definition data_ok :: "bool \<Rightarrow> (byte list \<times> int) option \<Rightarrow> bool" where
  "data_ok want found \<longleftrightarrow> (\<forall>bytes pipe. found = Some (bytes, pipe) \<longrightarrow> want \<and> bytes \<noteq> []
     \<and> length bytes \<le> KWSYSPE_PIPE_BUFFER_SIZE \<and> pipe \<in> {Pipe_STDOUT, Pipe_STDERR})"

lemma handle_pipe_returns:
  assumes "os_ok e" and k: "kept F L cp0 cp w" and i: "i < KWSYSPE_PIPE_COUNT"
  shows "returns (handle_pipe e want i cp w) (\<lambda>(found, cp', w'). steady e F L cp0 cp cp' w' \<and> data_ok want found)"
proof (cases "0 \<le> PipeReadEnds cp i \<and> PipeReadEnds cp i \<in> PipeSet cp")
  case False
  have "PipeReadEnds cp i < FD_SETSIZE" by (rule kept_facts(3) [OF k i])
  with False steady_refl [OF k] show ?thesis
    by (auto simp: handle_pipe_def FD_ISSET_def fd_in_range_def data_ok_def)
next
  case True
  let ?fd = "PipeReadEnds cp i"
  have f: "fair e" "read_ok e" using assms(1) by (simp_all add: os_ok_def)
  have r: "fd_in_range ?fd" using True kept_facts(3) [OF k i] by (simp add: fd_in_range_def)
  have len: "0 + KWSYSPE_PIPE_BUFFER_SIZE \<le> length (PipeBuffer cp)" using kept_facts(2) [OF k] by simp
  let ?P = "\<lambda>(found, cp', w'). steady e F L cp0 cp cp' w' \<and> data_ok want found"
  let ?c = "\<lambda>buf. cp\<lparr>PipeSet := PipeSet cp - {?fd}, PipeBuffer := buf\<rparr>"
  have st: "steady e F L cp0 cp (?c buf) v" if "calls_only w v" "length buf = length (PipeBuffer cp)" for buf v
    using kept_updates(3) [of F L cp0 "cp\<lparr>PipeSet := PipeSet cp - {?fd}\<rparr>" w buf] k that(2) kept_calls [OF that(1)]
    by (simp add: steady_def children_left_def)
  have cont: "returns (if n > 0
        then if i = KWSYSPE_PIPE_SIGNAL then do { (cp, w) \<leftarrow> kwsysProcessDestroy e (?c buf) v; Some (None, cp, w) }
             else if want then Some (Some (take (nat n) buf, if i = KWSYSPE_PIPE_STDOUT then Pipe_STDOUT else Pipe_STDERR), ?c buf, v)
             else Some (None, ?c buf, v)
        else if n < 0 \<and> errno v = EAGAIN then Some (None, ?c buf, v)
        else do { (fd, w) \<leftarrow> kwsysProcessCleanupDescriptor e (PipeReadEnds (?c buf) i) v;
                  Some (None, (?c buf)\<lparr>PipeReadEnds := (PipeReadEnds (?c buf))(i := fd), PipesLeft := PipesLeft (?c buf) - 1\<rparr>, w) }) ?P"
    if v: "calls_only w v" and b: "length buf = length (PipeBuffer cp)" and n: "n \<le> int KWSYSPE_PIPE_BUFFER_SIZE" for n buf v
  proof -
    have s: "steady e F L cp0 cp (?c buf) v" by (rule st [OF v b])
    have destroy: "returns (kwsysProcessDestroy e (?c buf) v) (\<lambda>(cp', w'). steady e F L cp0 cp cp' w')"
      by (rule returns_mono [OF Destroy_returns [OF assms(1) steady_kept [OF s]]])
        (use s steady_trans steady_reaped in blast)
    have close: "?P (None, (?c buf)\<lparr>PipeReadEnds := (PipeReadEnds cp)(i := fd), PipesLeft := PipesLeft cp - 1\<rparr>, u)"
      if "calls_only v u" "fd < FD_SETSIZE" for u fd
      using kept_updates(1) [OF steady_kept [OF s] that(2), of i] s kept_calls [OF that(1)]
      by (simp add: steady_def data_ok_def children_left_def)
    have "data_ok want (Some (take (nat n) buf, if i = KWSYSPE_PIPE_STDOUT then Pipe_STDOUT else Pipe_STDERR))"
      if "0 < n" want using that b n kept_facts(2) [OF k] by (auto simp: data_ok_def)
    with s destroy close kept_facts(3) [OF k i] show ?thesis
      by (auto simp: data_ok_def FD_SETSIZE_def elim!: returns_mono intro!: wp_CleanupDescriptor [OF f(1)])
  qed
  show ?thesis
    unfolding handle_pipe_def FD_ISSET_def FD_CLR_def if_P [OF True [THEN conjunct1]] if_P [OF r] returns_bind returns_Some
      True [THEN conjunct2, THEN eqTrueI] not_True_eq_False if_False
    by (rule wp_read_into [OF f len]) (use cont in \<open>simp only: prod.case Let_def\<close>)
qed

lemma handle_pipes_returns:
  assumes "os_ok e" and "kept F L cp0 cp w" and "set is \<subseteq> {..<KWSYSPE_PIPE_COUNT}"
  shows "returns (handle_pipes e want is cp w) (\<lambda>(found, cp', w'). steady e F L cp0 cp cp' w' \<and> data_ok want found)"
  using assms(2,3)
proof (induction "is" arbitrary: cp w)
  case Nil
  then show ?case by (simp add: steady_refl data_ok_def)
next
  case (Cons i js)
  have i: "i < KWSYSPE_PIPE_COUNT" and js: "set js \<subseteq> {..<KWSYSPE_PIPE_COUNT}" using Cons.prems(2) by auto
  have rest: "returns (handle_pipes e want js c v) (\<lambda>(found, cp', w'). steady e F L cp0 cp cp' w' \<and> data_ok want found)"
    if s: "steady e F L cp0 cp c v" for c v
    by (rule returns_mono [OF Cons.IH [OF steady_kept [OF s] js]]) (use s steady_trans in blast)
  show ?case
    unfolding handle_pipes.simps returns_bind
    by (rule returns_mono [OF handle_pipe_returns [OF assms(1) Cons.prems(1) i]]) (use rest in auto)
qed

section \<open>The outcome of the children\<close>

text \<open>The encoding of the exit status, as arithmetic.\<close>

lemma status_arith:
  "WIFEXITED s \<longleftrightarrow> s mod 128 = 0" "WTERMSIG s = s mod 128" "WEXITSTATUS s = s div 256 mod 256"
  "WIFSIGNALED s \<longleftrightarrow> s mod 128 \<noteq> 0 \<and> s mod 128 \<noteq> 127"
proof -
  have m: "x AND 127 = x mod 128" for x :: int
    using take_bit_eq_mask [of 7 x] by (simp add: take_bit_eq_mod mask_eq_exp_minus_1)
  have "drop_bit 8 (s AND 0xFF00) = drop_bit 8 s AND 255" by simp
  also have "\<dots> = s div 256 mod 256"
    using take_bit_eq_mask [of 8 "drop_bit 8 s"] by (simp add: take_bit_eq_mod mask_eq_exp_minus_1 drop_bit_eq_div)
  finally show "WEXITSTATUS s = s div 256 mod 256" by (simp add: WEXITSTATUS_def)
  show "WIFEXITED s \<longleftrightarrow> s mod 128 = 0" "WTERMSIG s = s mod 128" "WIFSIGNALED s \<longleftrightarrow> s mod 128 \<noteq> 0 \<and> s mod 128 \<noteq> 127"
    using m by (simp_all add: WIFEXITED_def WTERMSIG_def WIFSIGNALED_def)
qed

text \<open>The result that describes a child with an exit status.\<close>

definition exit_state :: "int \<Rightarrow> pstate" where
  "exit_state code = (if code mod 128 = 0 then State_Exited else if code mod 128 = 127 then State_Error else State_Exception)"

definition describes :: "int \<Rightarrow> kwsysProcessResults \<Rightarrow> bool" where
  "describes code r \<longleftrightarrow> ExitCode r = code \<and> rState r = exit_state code
     \<and> length (ExitExceptionString r) = KWSYSPE_PIPE_BUFFER_SIZE + 1
     \<and> (rState r = State_Exited \<longrightarrow> ExitException r = Exception_None \<and> ExitValue r = code div 256 mod 256)
     \<and> (rState r = State_Exception \<longrightarrow> ExitException r = fst (exit_exception (code mod 128))
          \<and> c_string (ExitExceptionString r) = c_string (snd (exit_exception (code mod 128))))
     \<and> (rState r = State_Error \<longrightarrow> c_string (ExitExceptionString r) = Some (ascii ''Error getting child return code.''))"

lemma report_child_returns:
  assumes "CommandExitCodes cp = Some (b', codes)" and "ProcessResults cp = Some (b, rs)"
    and i: "i < length codes" "i < length rs" and len: "length (ExitExceptionString (rs ! i)) = KWSYSPE_PIPE_BUFFER_SIZE + 1"
  obtains r where "report_child cp i = Some (cp\<lparr>ProcessResults := Some (b, rs[i := r])\<rparr>)" and "describes (codes ! i) r"
proof -
  let ?code = "codes ! i"
  note d = report_child_def set_result_def Let_def
  consider "?code mod 128 = 0" | "?code mod 128 = 127" | "?code mod 128 \<noteq> 0" "?code mod 128 \<noteq> 127" by blast
  then show thesis
  proof cases
    case 1
    show thesis
      by (rule that [of "(rs ! i)\<lparr>ExitCode := ?code, rState := State_Exited, ExitException := Exception_None,
            ExitValue := ?code div 256 mod 256\<rparr>"])
        (use 1 assms in \<open>simp_all add: d describes_def exit_state_def status_arith\<close>)
  next
    case 2
    let ?s = "ascii ''Error getting child return code.''"
    have "c_string (lit ''Error getting child return code.'') = Some ?s" by (simp add: lit_def ascii_def)
    then obtain buf where buf: "strcpy (ExitExceptionString (rs ! i)) (lit ''Error getting child return code.'') = Some buf"
      "c_string buf = Some ?s" "length buf = KWSYSPE_PIPE_BUFFER_SIZE + 1"
      using strcpy_result [of _ ?s "ExitExceptionString (rs ! i)"] len by (auto simp: ascii_def)
    show thesis
      by (rule that [of "(rs ! i)\<lparr>ExitCode := ?code, ExitExceptionString := buf, rState := State_Error\<rparr>"])
        (use 2 assms buf in \<open>simp_all add: d describes_def exit_state_def status_arith\<close>)
  next
    case 3
    let ?sig = "?code mod 128"
    obtain str where str: "c_string (snd (exit_exception ?sig)) = Some str" "length str < 30"
      using exit_exception_string [of ?sig] by auto
    then obtain buf where buf: "strcpy (ExitExceptionString (rs ! i)) (snd (exit_exception ?sig)) = Some buf"
      "c_string buf = Some str" "length buf = KWSYSPE_PIPE_BUFFER_SIZE + 1"
      using strcpy_result [OF str(1), of "ExitExceptionString (rs ! i)"] len by auto
    show thesis
      by (rule that [of "(rs ! i)\<lparr>ExitCode := ?code, rState := State_Exception,
            ExitException := fst (exit_exception ?sig), ExitExceptionString := buf\<rparr>"])
        (use 3 assms buf str in \<open>simp_all add: d describes_def exit_state_def status_arith
           kwsysProcessSetExitExceptionByIndex_def split_beta\<close>)
  qed
qed

lemma report_children_returns:
  assumes "CommandExitCodes cp = Some (b', codes)" and "ProcessResults cp = Some (b, rs)" and "length codes = length rs"
    and "\<forall>r\<in>set rs. length (ExitExceptionString r) = KWSYSPE_PIPE_BUFFER_SIZE + 1" and "k + n = length rs"
  shows "\<exists>rs'. report_children cp [k..<length rs] = Some (cp\<lparr>ProcessResults := Some (b, rs')\<rparr>) \<and> length rs' = length rs
    \<and> (\<forall>i<length rs. if k \<le> i then describes (codes ! i) (rs' ! i) else rs' ! i = rs ! i)"
  using assms
proof (induction n arbitrary: k cp rs)
  case 0
  have "cp = cp\<lparr>ProcessResults := Some (b, rs)\<rparr>" using 0(2) by simp
  with 0 show ?case by (intro exI [of _ rs]) simp
next
  case (Suc n)
  then have k: "k < length rs" by simp
  obtain r where r: "report_child cp k = Some (cp\<lparr>ProcessResults := Some (b, rs[k := r])\<rparr>)" "describes (codes ! k) r"
    using report_child_returns [OF Suc.prems(1,2), of k] Suc.prems(3,4) k by auto
  have "\<forall>x\<in>set (rs[k := r]). length (ExitExceptionString x) = KWSYSPE_PIPE_BUFFER_SIZE + 1"
    using Suc.prems(4) r(2) k set_update_subset_insert [of rs k r] by (auto simp: describes_def)
  then obtain rs' where rs': "report_children (cp\<lparr>ProcessResults := Some (b, rs[k := r])\<rparr>) [Suc k..<length rs]
      = Some (cp\<lparr>ProcessResults := Some (b, rs')\<rparr>)" "length rs' = length rs"
    "\<forall>i<length rs. if Suc k \<le> i then describes (codes ! i) (rs' ! i) else rs' ! i = rs[k := r] ! i"
    using Suc.IH [of "cp\<lparr>ProcessResults := Some (b, rs[k := r])\<rparr>" "rs[k := r]" "Suc k"] Suc.prems by auto
  have "report_children cp [k..<length rs] = Some (cp\<lparr>ProcessResults := Some (b, rs')\<rparr>)"
    using k r(1) rs'(1) by (simp add: upt_rec [of k])
  moreover have "if k \<le> i then describes (codes ! i) (rs' ! i) else rs' ! i = rs ! i" if "i < length rs" for i
    using rs'(3) [rule_format, OF that] r(2) k by (cases "i = k") (auto split: if_splits)
  ultimately show ?case using rs'(2) by blast
qed

text \<open>The state of the pipeline at its end; \<open>codes\<close> are the exit statuses.\<close>

definition final_state :: "kwsysProcess \<Rightarrow> int list \<Rightarrow> pstate" where
  "final_state cp codes =
     (if State cp = State_Error \<or> SelectError cp then State_Error else if Killed cp then State_Killed
      else if TimeoutExpired cp then State_Expired else exit_state (last codes))"

text \<open>A structure whose run has ended: its resources have been given back.\<close>

definition finished :: "nat multiset \<Rightarrow> nat list \<Rightarrow> kwsysProcess \<Rightarrow> kwsysProcess \<Rightarrow> world \<Rightarrow> bool" where
  "finished F R cp0 cp w \<longleftrightarrow> State cp \<noteq> State_Executing \<and> config_of cp = config_of cp0
     \<and> table_mem (F + run_blocks cp) w \<and> registered w = R \<and> messages_ok cp \<and> RealWorkingDirectory cp = None
     \<and> ForkPIDs cp = None \<and> descriptors_closed cp"

lemma finished_idle: "finished F R cp0 cp w \<Longrightarrow> self cp0 \<notin> set R \<Longrightarrow> idle F cp w"
  by (simp add: finished_def idle_def config_of_eq)

text \<open>The registered processes without this one.\<close>

definition unregistered :: "nat list \<Rightarrow> kwsysProcess \<Rightarrow> nat list" where
  "unregistered L cp = (if OptionDetach cp = 0 then remove1 (self cp) L else L)"

lemma unregistered_list: "self cp \<notin> set R \<Longrightarrow> unregistered (registered_list R cp) cp = R"
  by (simp add: unregistered_def registered_list_def remove1_append remove1_idem)

text \<open>The cleanup when the run is over, then the new state.\<close>

lemma Cleanup_finishes:
  assumes "fair e" and k: "kept F L cp0 cp w" and st: "st \<noteq> State_Executing"
  shows "returns (kwsysProcessCleanup e cp False w) (\<lambda>(cp', w'). finished F (unregistered L cp0) cp0 (cp'\<lparr>State := st\<rparr>) w'
    \<and> State cp' = State cp \<and> ProcessResults cp' = ProcessResults cp \<and> CommandExitCodes cp' = CommandExitCodes cp
    \<and> ErrorMessage cp' = ErrorMessage cp)"
proof -
  have m: "table_mem (F + run_blocks cp) w" "registered w = L" "config_of cp = config_of cp0" "messages_ok cp"
    using k by (simp_all add: kept_def)
  then have r: "(if OptionDetach cp = 0 then remove1 (self cp) (registered w) else registered w) = unregistered L cp0"
    by (simp add: unregistered_def config_of_eq)
  show ?thesis
    by (rule returns_mono [OF Cleanup_returns [OF assms(1) m(1)]], unfold r)
      (use m st in \<open>auto simp: cleaned_def finished_def messages_ok_def config_of_def descriptors_closed_def\<close>)
qed

lemma finished_state: "finished F R cp0 (cp\<lparr>State := State cp\<rparr>) w = finished F R cp0 cp w"
  by simp

lemma exit_outcome_returns:
  assumes "os_ok e" and k: "kept F L cp0 cp w" and "0 < NumberOfCommands cp" and c: "CommandExitCodes cp = Some (b, codes)"
  shows "returns (exit_outcome e cp w) (\<lambda>(cp', w'). finished F (unregistered L cp0) cp0 cp' w' \<and> State cp' = final_state cp codes
    \<and> CommandExitCodes cp' = CommandExitCodes cp
    \<and> (\<not> (State cp = State_Error \<or> SelectError cp \<or> Killed cp \<or> TimeoutExpired cp) \<longrightarrow>
         (\<exists>b' rs. ProcessResults cp' = Some (b', rs) \<and> length rs = length codes \<and> (\<forall>i<length rs. describes (codes ! i) (rs ! i)))))"
    (is "returns _ ?P")
proof -
  note f = os_fair [OF assms(1)]
  let ?bad = "State cp = State_Error \<or> SelectError cp"
  have n: "length codes = NumberOfCommands cp" using k c by (auto simp: kept_def arrays_ok_def array_of_def)
  show ?thesis
  proof (cases ?bad)
    case True
    have same: "cp'\<lparr>State := State_Error\<rparr> = cp'" if "State cp' = State_Error" for cp' :: kwsysProcess
      using that by (cases cp') simp
    have fs: "final_state cp codes = State_Error" using True by (auto simp: final_state_def)
    show ?thesis
    proof (cases "State cp = State_Error")
      case st: True
      show ?thesis
        unfolding exit_outcome_def if_P [OF st]
        by (rule returns_mono [OF Cleanup_finishes [OF f k, of State_Error]]) (use st fs in \<open>auto simp: same\<close>)
    next
      case st: False
      with True have se: "SelectError cp" by simp
      show ?thesis
        unfolding exit_outcome_def if_not_P [OF st] if_P [OF se] returns_bind
        by (rule returns_mono [OF Cleanup_finishes [OF f k, of State_Error]]) (use se fs in auto)
    qed
  next
    case False
    obtain b' rs where rs: "ProcessResults cp = Some (b', rs)" "length rs = length codes"
      "\<forall>r\<in>set rs. length (ExitExceptionString r) = KWSYSPE_PIPE_BUFFER_SIZE + 1"
      using k n by (auto simp: kept_def arrays_ok_def)
    have fin: "returns (kwsysProcessCleanup e (c\<lparr>State := st\<rparr>) False w) (\<lambda>(cp', w').
        finished F (unregistered L cp0) cp0 cp' w' \<and> State cp' = st \<and> ProcessResults cp' = ProcessResults c
        \<and> CommandExitCodes cp' = CommandExitCodes c)"
      if "kept F L cp0 c w" "st \<noteq> State_Executing" for c st
    proof -
      have "kept F L cp0 (c\<lparr>State := st\<rparr>) w" using that(1) by simp
      moreover have "cp'\<lparr>State := st\<rparr> = cp'" if "State cp' = st" for cp' :: kwsysProcess
        using that by (cases cp') simp
      ultimately show ?thesis
        by (intro returns_mono [OF Cleanup_finishes [OF f _ that(2)]]) auto
    qed
    show ?thesis
    proof (cases "Killed cp \<or> TimeoutExpired cp")
      case True
      with False fin [OF k, of State_Killed] fin [OF k, of State_Expired] show ?thesis
        by (cases "Killed cp") (auto simp: exit_outcome_def final_state_def elim!: returns_mono)
    next
      case no: False
      obtain rs' where rs': "report_children cp [0..<NumberOfCommands cp] = Some (cp\<lparr>ProcessResults := Some (b', rs')\<rparr>)"
        "length rs' = length codes" "\<forall>i<length rs'. describes (codes ! i) (rs' ! i)"
        using report_children_returns [OF c rs(1) rs(2) [symmetric] rs(3), of 0 "length rs"] n rs(2) by auto
      let ?c = "cp\<lparr>ProcessResults := Some (b', rs')\<rparr>"
      have "last codes = codes ! (NumberOfCommands cp - 1)" using n assms(3) by (subst last_conv_nth) auto
      then have last: "rState (rs' ! (NumberOfCommands cp - 1)) = final_state cp codes"
        using rs'(2,3) n assms(3) False no by (simp add: final_state_def describes_def)
      have "kept F L cp0 ?c w"
        using k rs rs'(2,3) n by (auto simp: kept_def messages_ok_def arrays_ok_def array_of_def run_blocks_def
            in_range_def describes_def in_set_conv_nth)
      moreover have "final_state cp codes \<noteq> State_Executing" using False by (simp add: final_state_def exit_state_def)
      ultimately have "returns (kwsysProcessCleanup e (?c\<lparr>State := final_state cp codes\<rparr>) False w) ?P"
        by (rule returns_mono [OF fin]) (use rs' in auto)
      then show ?thesis
        using False no rs' n assms(3) last by (simp add: exit_outcome_def)
    qed
  qed
qed

section \<open>Properties\<close>

text \<open>A structure that executes one command, for the examples: child 7, the read ends 3, 4 and 5, and the status of the child.\<close>

definition running_one :: "int \<Rightarrow> kwsysProcess" where
  "running_one code = one_command\<lparr>State := State_Executing, ForkPIDs := Some (9, [7]), CommandExitCodes := Some (10, [code]),
     ProcessResults := Some (11, [initial_results]), CommandsLeft := 1, PipesLeft := 3,
     PipeReadEnds := (\<lambda>i. int i + 3), PipeChildStd := (\<lambda>_. -1), SignalPipe := 6\<rparr>"

definition running_world :: world where
  "running_world = example_world\<lparr>heap := \<lparr>calls = 13, live = [5, 6, 7, 8, 9, 10, 11, 12]\<rparr>,
     kwsysProcesses := \<lparr>iSize = 4, iTable = (Some 12, [5])\<rparr>\<rparr>"

lemma running_one_active: "active {#5, 6, 7, 8#} [5] one_command (running_one code) running_world"
proof -
  have "kept {#5, 6, 7, 8#} [5] one_command (running_one code) running_world"
    using initial_results_length
    by (simp add: kept_def running_one_def one_command_def initial_process_def running_world_def example_world_def
        config_of_def table_mem_def owns_def run_blocks_def table_blocks_def table_ok_def iCount_def registered_def
        messages_ok_def arrays_ok_def array_of_def in_range_def FD_SETSIZE_def)
  then show ?thesis by (simp add: active_def counted_def children_left_def running_one_def)
qed

text \<open>C26. When the signal pipe of an executing structure reports that children have ended, \<open>kwsysProcessDestroy\<close> asks \<open>waitpid\<close> once for every
  child on the list, in order.  The children it reports as ended, and no others, are taken off the list and their exit
  statuses are stored in their places; the number of commands left decreases by their number, and the state is an error exactly if an
  answer of \<open>waitpid\<close> is an error.  The signal pipe has been closed when the number has reached 0, and not before.  If
  the signals cannot be blocked, nothing happens.  The system is taken to behave as in \<open>os_ok\<close>.\<close>

theorem Destroy_reaps:
  assumes "os_ok e" and "active F L cp0 cp w" and "ForkPIDs cp = Some (b, pids)" and "CommandExitCodes cp = Some (b', codes)"
  shows "\<exists>cp' w' new. kwsysProcessDestroy e cp w = Some (cp', w') \<and> trace w' = new @ trace w \<and> kept F L cp0 cp' w' \<and> counted cp'
    \<and> (if ret (sys e (S_sigprocmask SIG_BLOCK {SIGINT, SIGTERM} # trace w)) < 0
       then cp' = cp \<and> new = [S_sigprocmask SIG_BLOCK {SIGINT, SIGTERM}]
       else let as = wait_answers e (trace w) new; children = take_reports pids codes as
         in map fst as = filter (\<lambda>pid. pid \<noteq> 0) pids \<and> ForkPIDs cp' = Some (b, map fst children)
          \<and> CommandExitCodes cp' = Some (b', map snd children) \<and> CommandsLeft cp' = CommandsLeft cp - int (reports as)
          \<and> State cp' = (if some_failed as then State_Error else State_Executing)
          \<and> (CommandsLeft cp \<noteq> 0 \<and> CommandsLeft cp' = 0 \<longrightarrow> SignalPipe cp' \<le> 2)
          \<and> (CommandsLeft cp = children_left cp \<and> CommandsLeft cp' \<noteq> 0 \<longrightarrow> SignalPipe cp' = SignalPipe cp))"
proof -
  have k: "kept F L cp0 cp w" "State cp = State_Executing" "counted cp" using assms(2) by (simp_all add: active_def)
  have n: "length pids = NumberOfCommands cp" "length codes = NumberOfCommands cp"
    using k(1) assms(3,4) by (auto simp: kept_def arrays_ok_def array_of_def)
  let ?m = "S_sigprocmask SIG_BLOCK {SIGINT, SIGTERM}"
  obtain r w1 where c: "call e ?m w = (r, w1)" by fastforce
  then have r: "r = sys e (?m # trace w)" "trace w1 = ?m # trace w" by (auto simp: call_def Let_def)
  obtain cp' w' where d: "kwsysProcessDestroy e cp w = Some (cp', w')" and post: "reap_result e F L cp0 cp (cp', w')"
    using Destroy_returns [OF assms(1) k(1)] by (auto simp: returns_def)
  have kept: "kept F L cp0 cp' w'" "counted cp'" "CommandsLeft cp \<noteq> 0 \<and> CommandsLeft cp' = 0 \<longrightarrow> SignalPipe cp' \<le> 2"
    using post k(3) by (auto simp: reap_result_def reap_post_def counted_def)
  show ?thesis
  proof (cases "ret r < 0")
    case True
    with d c have "cp' = cp" "w' = w1" by (auto simp: kwsysProcessDestroy_def)
    with d kept(1,2) True r show ?thesis by (intro exI [of _ cp'] exI [of _ w'] exI [of _ "[?m]"]) simp
  next
    case False
    with d c obtain v where v: "reap_children e [0..<NumberOfCommands cp] cp w1 = Some (cp', v)"
      "w' = snd (call e (S_sigprocmask SIG_SETMASK (old_mask r)) v)"
      by (auto simp: kwsysProcessDestroy_def bind_eq_Some_conv)
    from reap_children_exact [OF v(1) assms(3,4) n] obtain new where x: "trace v = new @ trace w1"
      "map fst (wait_answers e (trace w1) new) = filter (\<lambda>p. p \<noteq> 0) pids"
      "ForkPIDs cp' = Some (b, map fst (take_reports pids codes (wait_answers e (trace w1) new)))"
      "CommandExitCodes cp' = Some (b', map snd (take_reports pids codes (wait_answers e (trace w1) new)))"
      "CommandsLeft cp' = CommandsLeft cp - int (reports (wait_answers e (trace w1) new))"
      "State cp' = (if some_failed (wait_answers e (trace w1) new) then State_Error else State cp)"
      "int (length (filter (\<lambda>p. p \<noteq> 0) pids)) \<le> CommandsLeft cp \<longrightarrow> SignalPipe cp' = SignalPipe cp \<or> CommandsLeft cp' = 0"
      using assms(3,4) unfolding reaped_from_def by auto
    let ?new = "(S_sigprocmask SIG_SETMASK (old_mask r) # new) @ [?m]"
    have "wait_answers e (trace w) [?m] = []" by simp
    then have as: "wait_answers e (trace w) ?new = wait_answers e (trace w1) new"
      unfolding wait_answers_append by (simp add: r(2))
    have t: "trace w' = ?new @ trace w" using v(2) x(1) r(2) by (simp add: call_trace)
    have pipe: "CommandsLeft cp = children_left cp \<and> CommandsLeft cp' \<noteq> 0 \<longrightarrow> SignalPipe cp' = SignalPipe cp"
      using x(7) by (auto simp: children_left_def assms(3))
    show ?thesis
      by (rule exI [of _ cp'], rule exI [of _ w'], rule exI [of _ ?new])
        (use d t kept False r(1) x(2-6) k(2) pipe in \<open>simp add: Let_def as [simplified]\<close>)
  qed
qed

text \<open>The child has ended with the status 768.\<close>

theorem Destroy_reaps_witness:
  "\<exists>cp' w'. kwsysProcessDestroy (run_env 7 0 7 768 []) (running_one 0) running_world = Some (cp', w')
    \<and> ForkPIDs cp' = Some (9, [0]) \<and> CommandExitCodes cp' = Some (10, [768]) \<and> CommandsLeft cp' = 0 \<and> State cp' = State_Executing"
proof -
  let ?e = "run_env 7 0 7 768 []"
  have p: "ForkPIDs (running_one 0) = Some (9, [7])" "CommandExitCodes (running_one 0) = Some (10, [0])" "CommandsLeft (running_one 0) = 1"
    by (simp_all add: running_one_def)
  have e: "\<not> ret (sys ?e (S_sigprocmask SIG_BLOCK {SIGINT, SIGTERM} # trace running_world)) < 0" by (simp add: run_env_def)
  have answer: "ret r = 7 \<and> status r = 768" if "(q, r) \<in> set (wait_answers ?e base new)" for q r base new
    using that by (induction new) (auto simp: run_env_def Let_def split: syscall.splits if_splits)
  have os: "os_ok ?e" by (rule run_env_os_ok) simp
  obtain cp' w' new where d: "kwsysProcessDestroy ?e (running_one 0) running_world = Some (cp', w')"
    and as: "map fst (wait_answers ?e (trace running_world) new) = filter (\<lambda>pid. pid \<noteq> 0) [7]"
    and x: "ForkPIDs cp' = Some (9, map fst (take_reports [7] [0] (wait_answers ?e (trace running_world) new)))"
      "CommandExitCodes cp' = Some (10, map snd (take_reports [7] [0] (wait_answers ?e (trace running_world) new)))"
      "CommandsLeft cp' = CommandsLeft (running_one 0) - int (reports (wait_answers ?e (trace running_world) new))"
      "State cp' = (if some_failed (wait_answers ?e (trace running_world) new) then State_Error else State_Executing)"
    using Destroy_reaps [OF os running_one_active p(1,2)] unfolding if_not_P [OF e] Let_def by blast
  obtain r where r: "wait_answers ?e (trace running_world) new = [(7, r)]" using as by (auto simp: map_eq_Cons_conv)
  have "ret r = 7" "status r = 768" using answer [of 7 r "trace running_world" new] r by simp_all
  with d x p(3) show ?thesis unfolding r by (auto simp: reports_def some_failed_def)
qed

text \<open>C27. When the pipes have closed, the state of the structure is the error that was met, or killed, or
  expired, or the outcome of the last command of the pipeline; in the last case every command has its
  own result, which describes its exit status (normal end with its exit value, the signal with its
  exception and text, or an error).  The resources of the run have been given back, and the structure
  is not registered any more.\<close>

theorem exit_outcome_reports:
  assumes "os_ok e" and "kept F L cp0 cp w" and "0 < NumberOfCommands cp" and "CommandExitCodes cp = Some (b, codes)"
  shows "returns (exit_outcome e cp w) (\<lambda>(cp', w'). finished F (unregistered L cp0) cp0 cp' w' \<and> State cp' = final_state cp codes
    \<and> (\<not> (State cp = State_Error \<or> SelectError cp \<or> Killed cp \<or> TimeoutExpired cp) \<longrightarrow>
         (\<exists>b' rs. ProcessResults cp' = Some (b', rs) \<and> length rs = length codes \<and> (\<forall>i<length rs. describes (codes ! i) (rs ! i)))))"
  by (rule returns_mono [OF exit_outcome_returns [OF assms]]) auto

theorem exit_outcome_reports_witness:
  "returns (exit_outcome (run_env 7 0 7 768 []) (running_one 768) running_world)
     (\<lambda>(cp', w'). State cp' = State_Exited \<and> (\<exists>b r. ProcessResults cp' = Some (b, [r]) \<and> ExitValue r = 3) \<and> registered w' = [])"
proof -
  have k: "kept {#5, 6, 7, 8#} [5] one_command (running_one 768) running_world" using running_one_active by (simp add: active_def)
  show ?thesis
    by (rule returns_mono [OF exit_outcome_reports [OF run_env_os_ok k, where b = 10 and codes = "[768]"]])
      (auto simp: running_one_def one_command_def initial_process_def final_state_def exit_state_def describes_def
        finished_def unregistered_def length_Suc_conv)
qed

end
