(* ===== verification/ProcessData.thy ===== *)
theory ProcessData
  imports ProcessReap
begin

text \<open>
  Where the data of \<^verbatim>\<open>kwsysProcess_WaitForData\<close> come from: the steps of a wait only close read ends, and the bytes
  that are returned are those of the last read, of the pipe that is named.
\<close>

section \<open>The steps of a wait\<close>

text \<open>What the steps of a wait do to the calls and to the read ends of the pipes: a read end is at most closed.\<close>

definition later :: "kwsysProcess \<Rightarrow> world \<Rightarrow> kwsysProcess \<times> world \<Rightarrow> bool" where
  "later cp w = (\<lambda>(cp', w'). suffix (trace w) (trace w')
     \<and> (\<forall>i. PipeReadEnds cp' i = PipeReadEnds cp i \<or> PipeReadEnds cp' i = -1))"

named_theorems later_rules \<open>one rule per operation: when it returns, later\<close>

lemma later_trans: "later cp w (cp1, w1) \<Longrightarrow> later cp1 w1 p \<Longrightarrow> later cp w p"
  unfolding later_def split_beta fst_conv snd_conv using suffix_order.trans by metis

lemma later_refl [simp]: "later cp w (cp, w)"
  by (simp add: later_def)

lemma later_calls: "calls_only w w' \<Longrightarrow> PipeReadEnds cp' = PipeReadEnds cp \<Longrightarrow> later cp w (cp', w')"
  by (auto simp: later_def calls_only_def suffix_def)

lemma later_fields [simp]:
  "later (cp\<lparr>PipeSet := s\<rparr>) w p = later cp w p" "later (cp\<lparr>PipeBuffer := b\<rparr>) w p = later cp w p"
  "later (cp\<lparr>SignalPipe := i\<rparr>) w p = later cp w p" "later (cp\<lparr>Killed := k\<rparr>) w p = later cp w p"
  "later (cp\<lparr>ErrorMessage := m\<rparr>) w p = later cp w p"
  "later cp w (c\<lparr>PipeSet := s\<rparr>, v) = later cp w (c, v)" "later cp w (c\<lparr>PipeBuffer := b\<rparr>, v) = later cp w (c, v)"
  "later cp w (c\<lparr>SignalPipe := i\<rparr>, v) = later cp w (c, v)" "later cp w (c\<lparr>Killed := k\<rparr>, v) = later cp w (c, v)"
  "later cp w (c\<lparr>ErrorMessage := m\<rparr>, v) = later cp w (c, v)" "later cp w (c\<lparr>SelectError := se\<rparr>, v) = later cp w (c, v)"
  "later cp w (c\<lparr>CommandsLeft := n\<rparr>, v) = later cp w (c, v)" "later cp w (c\<lparr>PipesLeft := n\<rparr>, v) = later cp w (c, v)"
  by (simp_all add: later_def)

lemma whenever_retry: "fair e \<Longrightarrow> (\<And>r w'. retried e c w (r, w') \<Longrightarrow> P (r, w')) \<Longrightarrow> whenever (retry e c w) P"
  by (rule returns_whenever [OF retry_returns]) auto

lemma retried_calls: "retried e c w (r, w') \<Longrightarrow> calls_only w w'"
  by (auto simp: retried_def)

text \<open>A read end that is cleaned up.\<close>

lemma later_close [later_rules]:
  assumes "fair e"
  shows "whenever (kwsysProcessCleanupDescriptor e (PipeReadEnds cp i) w)
    (\<lambda>(fd, w'). later cp w (cp\<lparr>PipeReadEnds := (PipeReadEnds cp)(i := fd)\<rparr>, w'))"
  by (auto simp: kwsysProcessCleanupDescriptor_def later_def calls_only_def suffix_def dest!: retried_calls intro!: whenever_retry [OF assms])

lemma later_cleanup [later_rules]:
  assumes "fair e"
  shows "whenever (kwsysProcessCleanupDescriptor e fd w) (\<lambda>(fd', w'). later cp w (cp, w'))"
  by (auto simp: kwsysProcessCleanupDescriptor_def later_def calls_only_def suffix_def dest!: retried_calls intro!: whenever_retry [OF assms])

lemma later_read [later_rules]:
  assumes "fair e"
  shows "whenever (read_into e fd buf off n w) (\<lambda>(r, buf', w'). later cp w (cp, w'))"
  by (auto simp: read_into_def later_def calls_only_def suffix_def dest!: retried_calls intro!: whenever_retry [OF assms])
    (auto simp: whenever_def)

lemma later_reap_child:
  assumes "fair e"
  shows "whenever (reap_child e i cp w) (later cp w)"
proof -
  have close: "whenever (kwsysProcessCleanupDescriptor e fd v) (\<lambda>(fd', u). later cp w (c', u))" if "later cp w (c', v)" for fd v c'
    by (rule whenever_mono [OF later_cleanup [OF assms, of fd v c']]) (use that later_trans in auto)
  have store: "later cp w (c2, v)" if "later cp w (cp, v)" "store_exit_code cp i s = Some c" "set_pid c i 0 = Some c2" for v s c c2
    using that by (auto simp: store_exit_code_def set_pid_def later_def split: option.splits if_splits)
  have wait: "whenever (if ret r > 0 then do { c \<leftarrow> store_exit_code cp i (status r); c \<leftarrow> set_pid c i 0;
                    let c = c\<lparr>CommandsLeft := CommandsLeft c - 1\<rparr>;
                    (fd, w) \<leftarrow> (if CommandsLeft c = 0 then kwsysProcessCleanupDescriptor e (SignalPipe c) v else Some (SignalPipe c, v));
                    Some (c\<lparr>SignalPipe := fd\<rparr>, w) }
        else if ret r < 0 \<and> State cp \<noteq> State_Error
        then do { msg \<leftarrow> strncpy (ErrorMessage cp) (strerror e (errno v)) KWSYSPE_PIPE_BUFFER_SIZE;
                  Some (cp\<lparr>ErrorMessage := msg, State := State_Error\<rparr>, v) }
        else Some (cp, v)) (later cp w)" if "retried e (S_waitpid pid True) w (r, v)" for pid r v
  proof -
    have v: "later cp w (cp, v)" by (rule later_calls [OF retried_calls [OF that] refl])
    show ?thesis
    proof (cases "0 < ret r")
      case True
      have "whenever (let c = c2\<lparr>CommandsLeft := CommandsLeft c2 - 1\<rparr> in do { (fd, w) \<leftarrow> (if CommandsLeft c = 0
             then kwsysProcessCleanupDescriptor e (SignalPipe c) v else Some (SignalPipe c, v)); Some (c\<lparr>SignalPipe := fd\<rparr>, w) }) (later cp w)"
        if "store_exit_code cp i (status r) = Some c" "set_pid c i 0 = Some c2" for c c2
        using store [OF v that] by (auto simp: Let_def intro!: whenever_mono [OF close])
      with True show ?thesis by (auto simp: whenever_def [where m = "store_exit_code cp i s" for s] whenever_def [where m = "set_pid c i 0" for c])
    next
      case False
      with v show ?thesis by (auto simp: whenever_def later_def bind_eq_Some_conv)
    qed
  qed
  show ?thesis
    unfolding reap_child_def
    by (cases "ForkPIDs cp") (auto intro!: whenever_retry [OF assms] wait [unfolded whenever_simps])
qed

lemma later_reap_children: "fair e \<Longrightarrow> whenever (reap_children e is cp w) (later cp w)"
proof (induction "is" arbitrary: cp w)
  case (Cons i js)
  show ?case
    by (auto intro!: whenever_mono [OF later_reap_child [OF Cons.prems]] whenever_mono [OF Cons.IH [OF Cons.prems]] intro: later_trans)
qed simp

lemma later_call: "later cp w (cp, snd (call e c w))"
  by (rule later_calls [OF call_only refl])

lemma later_Destroy:
  assumes "fair e"
  shows "whenever (kwsysProcessDestroy e cp w) (later cp w)"
proof -
  obtain r w1 where c: "call e (S_sigprocmask SIG_BLOCK {SIGINT, SIGTERM}) w = (r, w1)" by fastforce
  then have w1: "later cp w (cp, w1)" using later_call [of cp w e "S_sigprocmask SIG_BLOCK {SIGINT, SIGTERM}"] by simp
  have "later cp w (c', snd (call e s v))" if "later cp w1 (c', v)" for c' v s
    by (rule later_trans [OF later_trans [OF w1 that] later_call])
  then show ?thesis
    using w1 unfolding kwsysProcessDestroy_def c Let_def by (auto intro!: whenever_mono [OF later_reap_children [OF assms]])
qed

lemma later_close_pipes: "fair e \<Longrightarrow> whenever (close_pipes e is cp w) (later cp w)"
proof (induction "is" arbitrary: cp w)
  case (Cons i js)
  have close: "whenever (do { (fd, w) \<leftarrow> kwsysProcessCleanupDescriptor e (PipeReadEnds c i) v;
                close_pipes e js (c\<lparr>PipeReadEnds := (PipeReadEnds c)(i := fd), PipesLeft := PipesLeft c - 1\<rparr>) w }) (later cp w)"
    if c: "later cp w (c, v)" for c v
    unfolding whenever_simps
  proof (rule whenever_mono [OF later_close [OF Cons.prems, of c i v]], clarify)
    fix fd u
    let ?c = "c\<lparr>PipeReadEnds := (PipeReadEnds c)(i := fd), PipesLeft := PipesLeft c - 1\<rparr>"
    assume "later c v (c\<lparr>PipeReadEnds := (PipeReadEnds c)(i := fd)\<rparr>, u)"
    then have "later cp w (?c, u)" using later_trans [OF c] by simp
    then show "whenever (close_pipes e js ?c u) (later cp w)"
      by (intro whenever_mono [OF Cons.IH [OF Cons.prems]]) (rule later_trans)
  qed
  have read: "whenever (if b then do { s \<leftarrow> m;
                (_, buf, w) \<leftarrow> read_into e (PipeReadEnds cp i) (PipeBuffer cp) 0 KWSYSPE_PIPE_BUFFER_SIZE w;
                Some (cp\<lparr>PipeSet := s, PipeBuffer := buf\<rparr>, w) }
       else Some (cp, w)) (later cp w)" for b m
    by (cases m) (auto intro!: whenever_mono [OF later_read [OF Cons.prems]])
  show ?case
  proof (cases "0 \<le> PipeReadEnds cp i")
    case True
    have "whenever (if b then do { s \<leftarrow> m;
                (_, buf, w) \<leftarrow> read_into e (PipeReadEnds cp i) (PipeBuffer cp) 0 KWSYSPE_PIPE_BUFFER_SIZE w;
                Some (cp\<lparr>PipeSet := s, PipeBuffer := buf\<rparr>, w) }
        else Some (cp, w)) (\<lambda>x. whenever (case x of (c, v) \<Rightarrow> do { (fd, w) \<leftarrow> kwsysProcessCleanupDescriptor e (PipeReadEnds c i) v;
                close_pipes e js (c\<lparr>PipeReadEnds := (PipeReadEnds c)(i := fd), PipesLeft := PipesLeft c - 1\<rparr>) w }) (later cp w))" for b m
      by (rule whenever_mono [OF read]) (use close in auto)
    then have "whenever (do { isset \<leftarrow> f; (cp, w) \<leftarrow> (if isset then do { s \<leftarrow> m;
                (_, buf, w) \<leftarrow> read_into e (PipeReadEnds cp i) (PipeBuffer cp) 0 KWSYSPE_PIPE_BUFFER_SIZE w;
                Some (cp\<lparr>PipeSet := s, PipeBuffer := buf\<rparr>, w) }
        else Some (cp, w)); (fd, w) \<leftarrow> kwsysProcessCleanupDescriptor e (PipeReadEnds cp i) w;
                close_pipes e js (cp\<lparr>PipeReadEnds := (PipeReadEnds cp)(i := fd), PipesLeft := PipesLeft cp - 1\<rparr>) w }) (later cp w)" for f m
      by (cases f) (simp_all only: bind.simps whenever_simps split: prod.split)
    with True show ?thesis by (simp only: close_pipes.simps if_True)
  qed (use Cons.IH [OF Cons.prems] in simp)
qed simp

lemma later_Kill:
  assumes "fair e" and "finite_trees e"
  shows "whenever (Kill e cp w) (later cp w)"
proof -
  have kill: "whenever (kill_children e pids v) (\<lambda>u. later c v (c, u))" for pids v c
    by (rule returns_whenever [OF wp_kill_children [OF assms, where P = "calls_only v"]]) (auto intro: later_calls)
  have rest: "whenever (let c = c\<lparr>Killed := True\<rparr> in do { pids \<leftarrow> fork_pids c; u \<leftarrow> kill_children e pids v; Some (c\<lparr>CommandsLeft := 0\<rparr>, u) })
      (later cp w)" if "later cp w (c, v)" for c v
    using later_trans [OF that] 
    by (auto simp: Let_def whenever_def [where m = "fork_pids c" for c] intro!: whenever_mono [OF kill])
  have close: "whenever (kwsysProcessClosePipes e c v) (later cp w)" if "later cp w (c, v)" for c v
    unfolding kwsysProcessClosePipes_def by (rule whenever_mono [OF later_close_pipes [OF assms(1)]]) (rule later_trans [OF that])
  show ?thesis
    unfolding Kill_def
    by (auto intro!: whenever_mono [OF later_cleanup [OF assms(1)]] whenever_mono [OF close] rest)
qed

section \<open>The bytes that are returned\<close>

text \<open>The place of the read end of an output pipe.\<close>

definition output_pipe :: "int \<Rightarrow> nat" where
  "output_pipe pipe = (if pipe = Pipe_STDOUT then KWSYSPE_PIPE_STDOUT else KWSYSPE_PIPE_STDERR)"

text \<open>The last call was a read from an output pipe, which delivered these bytes; it was made after \<open>w\<close>.\<close>

definition data_read :: "env \<Rightarrow> kwsysProcess \<Rightarrow> world \<Rightarrow> int \<Rightarrow> byte list \<Rightarrow> world \<Rightarrow> bool" where
  "data_read e cp w pipe bytes w' \<longleftrightarrow> 0 \<le> PipeReadEnds cp (output_pipe pipe)
     \<and> (\<exists>tr. trace w' = S_read (PipeReadEnds cp (output_pipe pipe)) KWSYSPE_PIPE_BUFFER_SIZE # tr \<and> suffix (trace w) tr)
     \<and> 0 < ret (sys e (trace w')) \<and> bytes = payload (sys e (trace w'))"

lemma data_read_later: "later cp w (cp1, w1) \<Longrightarrow> data_read e cp1 w1 pipe bytes w' \<Longrightarrow> data_read e cp w pipe bytes w'"
proof -
  assume l: "later cp w (cp1, w1)" and d: "data_read e cp1 w1 pipe bytes w'"
  have "PipeReadEnds cp1 (output_pipe pipe) = PipeReadEnds cp (output_pipe pipe)"
    using l d by (auto simp: later_def data_read_def dest!: spec [of _ "output_pipe pipe"])
  with l d show ?thesis by (auto simp: later_def data_read_def intro: suffix_order.trans)
qed

definition found_later :: "env \<Rightarrow> kwsysProcess \<Rightarrow> world \<Rightarrow> (byte list \<times> int) option \<times> kwsysProcess \<times> world \<Rightarrow> bool" where
  "found_later e cp w = (\<lambda>(found, cp', w'). later cp w (cp', w')
     \<and> (\<forall>bytes pipe. found = Some (bytes, pipe) \<longrightarrow> data_read e cp w pipe bytes w'))"

lemma found_later_trans: "later cp w (cp1, w1) \<Longrightarrow> found_later e cp1 w1 p \<Longrightarrow> found_later e cp w p"
  by (auto simp: found_later_def intro: later_trans data_read_later)

text \<open>One read into the buffer.\<close>

lemma read_bytes:
  assumes "fair e" and "read_ok e"
  shows "whenever (read_into e fd buf 0 n w) (\<lambda>(r, buf', w'). later cp w (cp, w')
    \<and> (0 < r \<longrightarrow> (\<exists>tr. trace w' = S_read fd n # tr \<and> suffix (trace w) tr) \<and> 0 < ret (sys e (trace w'))
         \<and> take (nat r) buf' = payload (sys e (trace w'))))"
  unfolding read_into_def whenever_simps(3) [of "retry e (S_read fd n) w"]
proof (rule whenever_retry [OF assms(1)], unfold prod.case)
  fix r v
  assume r: "retried e (S_read fd n) w (r, v)"
  then obtain k where t: "trace v = S_read fd n # replicate k (S_read fd n) @ trace w" "r = sys e (trace v)"
    by (auto simp: retried_def)
  have l: "later cp w (cp, v)" by (rule later_calls [OF retried_calls [OF r] refl])
  have "0 < ret r \<longrightarrow> length (payload r) = nat (ret r)" using assms(2) t by (simp add: read_ok_def Let_def)
  with t l show "whenever (do { b \<leftarrow> if ret r > 0 then mem_write buf 0 (take (nat (ret r)) (payload r)) else Some buf; Some (ret r, b, v) })
      (\<lambda>(r, buf', w'). later cp w (cp, w')
    \<and> (0 < r \<longrightarrow> (\<exists>tr. trace w' = S_read fd n # tr \<and> suffix (trace w) tr) \<and> 0 < ret (sys e (trace w'))
         \<and> take (nat r) buf' = payload (sys e (trace w'))))"
    by (auto simp: whenever_def mem_write_def suffix_def split: if_splits)
qed

lemma found_handle_pipe:
  assumes "fair e" and "read_ok e" and i: "i < KWSYSPE_PIPE_COUNT"
  shows "whenever (handle_pipe e want i cp w) (found_later e cp w)"
proof -
  let ?fd = "PipeReadEnds cp i"
  have destroy: "whenever (kwsysProcessDestroy e c v) (\<lambda>(c', v'). found_later e cp w (None, c', v'))" if "later cp w (c, v)" for c v
    by (rule whenever_mono [OF later_Destroy [OF assms(1)]]) (use that in \<open>auto simp: found_later_def intro: later_trans\<close>)
  have close: "whenever (kwsysProcessCleanupDescriptor e (PipeReadEnds c i) v)
      (\<lambda>(fd, u). found_later e cp w (None, c\<lparr>PipeReadEnds := (PipeReadEnds c)(i := fd), PipesLeft := n\<rparr>, u))"
    if "later cp w (c, v)" for c v n
    by (rule whenever_mono [OF later_close [OF assms(1)]]) (use that in \<open>auto simp: found_later_def intro: later_trans\<close>)
  have rest: "whenever (let cp = cp\<lparr>PipeSet := s, PipeBuffer := buf\<rparr>
                    in if n > 0 then if i = KWSYSPE_PIPE_SIGNAL
                         then do { (cp, w) \<leftarrow> kwsysProcessDestroy e cp v; Some (None, cp, w) }
                         else if want
                         then Some (Some (take (nat n) buf, if i = KWSYSPE_PIPE_STDOUT then Pipe_STDOUT else Pipe_STDERR), cp, v)
                         else Some (None, cp, v)
                    else if n < 0 \<and> errno v = EAGAIN then Some (None, cp, v)
                    else do { (fd, w) \<leftarrow> kwsysProcessCleanupDescriptor e (PipeReadEnds cp i) v;
                              Some (None, cp\<lparr>PipeReadEnds := (PipeReadEnds cp)(i := fd), PipesLeft := PipesLeft cp - 1\<rparr>, w) })
      (found_later e cp w)"
    if "0 \<le> ?fd" "later cp w (cp, v) \<and> (0 < n \<longrightarrow> (\<exists>tr. trace v = S_read ?fd KWSYSPE_PIPE_BUFFER_SIZE # tr \<and> suffix (trace w) tr)
        \<and> 0 < ret (sys e (trace v)) \<and> take (nat n) buf = payload (sys e (trace v)))" for s n buf v
  proof -
    let ?c = "cp\<lparr>PipeSet := s, PipeBuffer := buf\<rparr>"
    have l: "later cp w (?c, v)" using that(2) by simp
    have "found_later e cp w (Some (take (nat n) buf, if i = KWSYSPE_PIPE_STDOUT then Pipe_STDOUT else Pipe_STDERR), ?c, v)"
      if "0 < n" "i \<noteq> KWSYSPE_PIPE_SIGNAL" using l \<open>0 \<le> ?fd\<close> that i \<open>later cp w (cp, v) \<and> _\<close>
      using less_Suc_eq [of i "Suc 0"] by (cases "i = 0") (auto simp: found_later_def data_read_def output_pipe_def numeral_3_eq_3 numeral_2_eq_2 less_Suc_eq)
    moreover have "found_later e cp w (None, ?c, v)" using l by (simp add: found_later_def)
    ultimately show ?thesis
      using destroy [OF l] close [OF l, of "PipesLeft cp - 1"]
      by (auto simp: Let_def simp del: pipe_consts elim!: whenever_mono)
  qed
  show ?thesis
  proof (cases "0 \<le> ?fd \<and> ?fd \<in> PipeSet cp \<and> fd_in_range ?fd")
    case True
    then have r: "0 \<le> ?fd" "fd_in_range ?fd" and m: "(?fd \<in> PipeSet cp) = True" by simp_all
    show ?thesis
      unfolding handle_pipe_def FD_ISSET_def FD_CLR_def if_P [OF r(1)] if_P [OF r(2)] m whenever_simps not_True_eq_False if_False
      by (rule whenever_mono [OF read_bytes [OF assms(1,2), where cp = cp]])
        (use rest [OF r(1)] in \<open>simp only: split_paired_all prod.case\<close>)
  next
    case False
    then show ?thesis
      by (auto simp: handle_pipe_def FD_ISSET_def FD_CLR_def found_later_def whenever_def)
  qed
qed

lemma found_handle_pipes:
  "fair e \<Longrightarrow> read_ok e \<Longrightarrow> set is \<subseteq> {..<KWSYSPE_PIPE_COUNT} \<Longrightarrow> whenever (handle_pipes e want is cp w) (found_later e cp w)"
proof (induction "is" arbitrary: cp w)
  case Nil
  then show ?case by (simp add: found_later_def)
next
  case (Cons i js)
  have i: "i < KWSYSPE_PIPE_COUNT" and js: "set js \<subseteq> {..<KWSYSPE_PIPE_COUNT}" using Cons.prems by auto
  have "whenever (handle_pipes e want js c v) (found_later e cp w)" if "later cp w (c, v)" for c v
    by (rule whenever_mono [OF Cons.IH [OF Cons.prems(1,2) js]]) (rule found_later_trans [OF that])
  then show ?case
    unfolding handle_pipes.simps whenever_simps
    by (intro whenever_mono [OF found_handle_pipe [OF Cons.prems(1,2) i]]) (auto simp: found_later_def)
qed

lemma select_retry_calls: "select_retry e n s t w = Some p \<Longrightarrow> calls_only w (snd p)"
proof (induction rule: select_retry.raw_induct [rotated, consumes 1, case_names 1])
  case (1 f e n s t w p)
  obtain q w1 where c: "call e (S_select n s t) w = (q, w1)" by fastforce
  note w1 = calls_only_call [OF c]
  show ?case
  proof (cases "ret q < 0 \<and> errno w1 = EINTR")
    case True
    with 1(2) c have "f e n s (if t = None then None else rest_time q) w1 = Some p" by simp
    from 1(1) [OF this] w1 show ?thesis by (rule calls_only_trans [rotated])
  next
    case False
    with 1(2) c have "p = (q, w1)" by auto
    with w1 show ?thesis by simp
  qed
qed

lemma whenever_select: "(\<And>r w'. calls_only w w' \<Longrightarrow> P (r, w')) \<Longrightarrow> whenever (select_retry e n s t w) P"
  using select_retry_calls by (fastforce simp: whenever_def)

lemma whenever_ends: "(\<And>m s. P (m, s)) \<Longrightarrow> whenever (add_read_ends is cp m0 s0) P"
  by (simp add: whenever_def)

lemma GetTimeoutLeft_only:
  "kwsysProcessGetTimeoutLeft e t u z w = (r, w') \<Longrightarrow> calls_only w w'"
  by (auto simp: kwsysProcessGetTimeoutLeft_def kwsysProcessTimeGetCurrent_def Let_def split_beta call_only split: if_splits)

text \<open>Waiting for the pipes: no data yet.\<close>

lemma later_wait_select:
  assumes "fair e" and "finite_trees e"
  shows "whenever (wait_select e cp wd w) (\<lambda>(_, cp', wd', w'). later cp w (cp', w') \<and> PipeId wd' = PipeId wd)"
proof -
  obtain x l u where t: "kwsysProcessGetTimeoutLeft e (wdTimeoutTime wd) (if User wd then UserTimeout wd else None) False w = ((x, l), u)"
    by (metis prod.exhaust)
  have u: "later cp w (cp, v)" if "calls_only u v" for v
    by (rule later_calls [OF calls_only_trans [OF GetTimeoutLeft_only [OF t] that] refl])
  have kill: "whenever (Kill e (cp\<lparr>PipeSet := s, ErrorMessage := m\<rparr>) v) (\<lambda>(c, u). later cp w (c, u))" if "calls_only u v" for v s m
    by (rule whenever_mono [OF later_Kill [OF assms]]) (use later_trans [OF u [OF that]] in auto)
  have err: "whenever (do { msg \<leftarrow> strncpy (ErrorMessage cp) s KWSYSPE_PIPE_BUFFER_SIZE; (cp, w) \<leftarrow> Kill e (cp\<lparr>PipeSet := ps, ErrorMessage := msg\<rparr>) v;
      Some (False, cp\<lparr>Killed := False, SelectError := True\<rparr>, wd, w) })
    (\<lambda>(_, cp', wd', w'). later cp w (cp', w') \<and> PipeId wd' = PipeId wd)" if "calls_only u v" for v ps s
    by (cases "strncpy (ErrorMessage cp) s KWSYSPE_PIPE_BUFFER_SIZE") (auto intro!: whenever_mono [OF kill [OF that]])
  show ?thesis
    unfolding wait_select_def Let_def t prod.case
    using u [of u] u err by (auto simp: Let_def intro!: whenever_select whenever_ends)
qed

text \<open>What the loop has read, when it ends.\<close>

definition loop_read :: "env \<Rightarrow> kwsysProcess \<Rightarrow> world \<Rightarrow> byte list option \<times> kwsysProcess \<times> kwsysProcessWaitData \<times> world \<Rightarrow> bool" where
  "loop_read e cp w = (\<lambda>(bytes, cp', wd', w'). later cp w (cp', w')
     \<and> (\<forall>bs. bytes = Some bs \<longrightarrow> data_read e cp w (PipeId wd') bs w'))"

lemma loop_read_trans: "later cp w (cp1, w1) \<Longrightarrow> loop_read e cp1 w1 p \<Longrightarrow> loop_read e cp w p"
  by (auto simp: loop_read_def intro: later_trans data_read_later)

lemma WaitForPipe_read:
  assumes "fair e" and "finite_trees e" and "read_ok e"
  shows "whenever (kwsysProcessWaitForPipe e want cp wd w) (\<lambda>(_, p). loop_read e cp w p)"
proof -
  have select: "whenever (wait_select e c wd v) (\<lambda>(_, c', wd', v'). loop_read e cp w (None, c', wd', v'))" if "later cp w (c, v)" for c v
    by (rule whenever_mono [OF later_wait_select [OF assms(1,2)]]) (use that in \<open>auto simp: loop_read_def intro: later_trans\<close>)
  show ?thesis
    unfolding kwsysProcessWaitForPipe_def whenever_simps
    by (rule whenever_mono [OF found_handle_pipes [OF assms(1,3)]])
      (auto simp: found_later_def loop_read_def split: option.split intro!: whenever_mono [OF select [unfolded loop_read_def]])
qed

lemma wait_loop_read:
  "wait_loop e want cp wd w = Some p \<Longrightarrow> fair e \<Longrightarrow> finite_trees e \<Longrightarrow> read_ok e \<Longrightarrow> loop_read e cp w p"
proof (induction rule: wait_loop.raw_induct [rotated, consumes 1, case_names 1])
  case (1 f e want cp wd w p)
  show ?case
  proof (cases "PipesLeft cp > 0")
    case True
    with 1(2) obtain returned bytes cp1 wd1 w1 where
      step: "kwsysProcessWaitForPipe e want cp wd w = Some (returned, bytes, cp1, wd1, w1)"
      and rest: "(if returned then Some (bytes, cp1, wd1, w1) else f e want cp1 wd1 w1) = Some p"
      by (auto simp: bind_eq_Some_conv)
    have w1: "loop_read e cp w (bytes, cp1, wd1, w1)"
      using WaitForPipe_read [OF 1(3-5), of want cp wd w] step by (simp add: whenever_def)
    then have "later cp w (cp1, w1)" by (simp add: loop_read_def)
    moreover have "loop_read e cp1 w1 p" if "f e want cp1 wd1 w1 = Some p" using 1(1) [OF that 1(3-5)] .
    ultimately show ?thesis using rest w1 by (auto intro: loop_read_trans split: if_splits)
  next
    case False
    with 1(2) show ?thesis by (auto simp: loop_read_def)
  qed
qed

text \<open>
  The data \<open>kwsysProcess_WaitForData\<close> returns are the bytes of its last read; after it the clock is read if the caller
  has given a timeout.
\<close>

definition data_of :: "env \<Rightarrow> kwsysProcess \<Rightarrow> world \<Rightarrow> real option \<Rightarrow> int \<Rightarrow> byte list \<Rightarrow> world \<Rightarrow> bool" where
  "data_of e cp w u pipe bytes w' \<longleftrightarrow> (\<exists>v. data_read e cp w pipe bytes v
     \<and> trace w' = (if u = None then [] else [S_clock]) @ trace v)"

lemma GetCurrent_trace: "kwsysProcessTimeGetCurrent e w = (t, w') \<Longrightarrow> trace w' = S_clock # trace w"
  by (auto simp: kwsysProcessTimeGetCurrent_def call_def Let_def split_beta)

lemma GetTimeoutTime_later: "kwsysProcessGetTimeoutTime e cp u w = (r, cp', w') \<Longrightarrow> later cp w (cp', w')"
  by (auto simp: kwsysProcessGetTimeoutTime_def kwsysProcessTimeGetCurrent_def Let_def split_beta later_def call_trace suffix_Cons
      split: option.splits if_splits)

lemma WaitForData_read:
  assumes "fair e" and "finite_trees e" and "read_ok e" and run: "WaitForData e want cp u w = Some (r, Some bs, u', cp', w')"
  shows "data_of e cp w u r bs w'"
proof -
  have go: "(State cp \<noteq> State_Executing \<or> Killed cp \<or> TimeoutExpired cp) = False"
    using run by (auto simp: WaitForData_def split: if_splits)
  obtain s w1 where s: "(if u = None then (Time 0 0, w) else kwsysProcessTimeGetCurrent e w) = (s, w1)" by fastforce
  obtain user t c w2 where t: "kwsysProcessGetTimeoutTime e cp u w1 = ((user, t), c, w2)" by (metis prod.exhaust)
  have w1: "later cp w (cp, w1)" using s by (auto simp: later_def suffix_Cons dest: GetCurrent_trace split: if_splits)
  note start = later_trans [OF w1 GetTimeoutTime_later [OF t]]
  obtain bytes c' wd v where loop: "wait_loop e want c \<lparr>Expired = False, PipeId = Pipe_None, User = user, UserTimeout = u, wdTimeoutTime = t\<rparr> w2
      = Some (bytes, c', wd, v)"
    and rest: "(let (userTimeout, w) = (case u of None \<Rightarrow> (None, v)
        | Some u \<Rightarrow> let (userEndTime, w) = kwsysProcessTimeGetCurrent e v;
                     d = kwsysProcessTimeToDouble (kwsysProcessTimeSubtract userEndTime s)
                 in (Some (if u - d < 0 then 0 else u - d), w))
      in if PipeId wd \<noteq> Pipe_None then Some (PipeId wd, bytes, userTimeout, c', w)
         else if Expired wd
         then if User wd then Some (Pipe_Timeout, None, userTimeout, c', w)
              else do { (cp, w) \<leftarrow> Kill e c' w; Some (Pipe_None, None, userTimeout, cp\<lparr>Killed := False, TimeoutExpired := True\<rparr>, w) }
         else Some (Pipe_None, None, userTimeout, c', w)) = Some (r, Some bs, u', cp', w')"
    using run unfolding WaitForData_def go if_False Let_def s t prod.case by (auto simp: bind_eq_Some_conv)
  have "loop_read e cp w (bytes, c', wd, v)" by (rule loop_read_trans [OF start wait_loop_read [OF loop assms(1-3)]])
  moreover have "bytes = Some bs" "r = PipeId wd" "trace w' = (if u = None then [] else [S_clock]) @ trace v"
    using rest by (auto simp: Let_def bind_eq_Some_conv split_beta GetCurrent_trace [OF prod.collapse [symmetric]] split: option.splits if_splits)
  ultimately show ?thesis by (auto simp: data_of_def loop_read_def)
qed

end
