(* ===== verification/ProcessEnd.thy ===== *)
theory ProcessEnd
  imports ProcessData
begin

text \<open>
  The calls that may wait for ever (\<^verbatim>\<open>kwsysProcess_WaitForData\<close>, \<^verbatim>\<open>kwsysProcess_WaitForExit\<close>), by
  partial correctness: whatever they return, they leave the structure executing with its
  bookkeeping intact, or finished with every resource given back.  Disowning and interrupting return.
\<close>

section \<open>Waiting\<close>

lemma active_frame [simp]:
  "active F L cp0 (cp\<lparr>PipeSet := s\<rparr>) w = active F L cp0 cp w" "active F L cp0 (cp\<lparr>StartTime := t\<rparr>) w = active F L cp0 cp w"
  "active F L cp0 (cp\<lparr>TimeoutTime := t\<rparr>) w = active F L cp0 cp w"
  by (simp_all add: active_def counted_def children_left_def)

lemma active_message:
  "active F L cp0 cp w \<Longrightarrow> length m = length (ErrorMessage cp) \<Longrightarrow> active F L cp0 (cp\<lparr>ErrorMessage := m\<rparr>) w"
  using kept_updates(2) by (simp add: active_def counted_def children_left_def)

lemma active_flags:
  "active F L cp0 cp w \<Longrightarrow> active F L cp0 (cp\<lparr>Killed := False, SelectError := True\<rparr>) w"
  "active F L cp0 cp w \<Longrightarrow> active F L cp0 (cp\<lparr>Killed := False, TimeoutExpired := True\<rparr>) w"
  by (simp_all add: active_def counted_def)

lemma strncpy_length: "strncpy buf s n = Some m \<Longrightarrow> length m = length buf"
  by (auto simp: strncpy_def mem_write_def bind_eq_Some_conv split: if_splits)

text \<open>What a wait reports of the data, and the structure it works on.\<close>

definition reports_data :: "bool \<Rightarrow> byte list option \<Rightarrow> int \<Rightarrow> bool" where
  "reports_data want bytes pipe \<longleftrightarrow> (if pipe = Pipe_None then bytes = None
     else \<exists>bs. bytes = Some bs \<and> data_ok want (Some (bs, pipe)))"

definition waited :: "nat multiset \<Rightarrow> nat list \<Rightarrow> kwsysProcess \<Rightarrow> bool \<Rightarrow> kwsysProcess \<Rightarrow> kwsysProcessWaitData
    \<Rightarrow> byte list option \<times> kwsysProcess \<times> kwsysProcessWaitData \<times> world \<Rightarrow> bool" where
  "waited F L cp0 want cp wd = (\<lambda>(bytes, cp', wd', w'). active F L cp0 cp' w' \<and> (\<not> Killed cp \<longrightarrow> \<not> Killed cp')
     \<and> TimeoutExpired cp' = TimeoutExpired cp \<and> reports_data want bytes (PipeId wd')
     \<and> User wd' = User wd)"

lemma select_error_killed:
  assumes "os_ok e" and "active F L cp0 cp w"
  shows "whenever (do { msg \<leftarrow> strncpy (ErrorMessage cp) s KWSYSPE_PIPE_BUFFER_SIZE;
      (cp, w) \<leftarrow> Kill e (cp\<lparr>ErrorMessage := msg\<rparr>) w;
      Some (False, cp\<lparr>Killed := False, SelectError := True\<rparr>, wd, w) })
    (\<lambda>(_, cp', wd', w'). wd' = wd \<and> active F L cp0 cp' w' \<and> \<not> Killed cp' \<and> TimeoutExpired cp' = TimeoutExpired cp)"
proof -
  have "whenever (Kill e (cp\<lparr>ErrorMessage := msg\<rparr>) w) (\<lambda>(c, v). active F L cp0 (c\<lparr>Killed := False, SelectError := True\<rparr>) v
      \<and> TimeoutExpired c = TimeoutExpired cp)"
    if "strncpy (ErrorMessage cp) s KWSYSPE_PIPE_BUFFER_SIZE = Some msg" for msg
    by (rule returns_whenever [OF Kill_returns_active [OF assms(1) active_message [OF assms(2) strncpy_length [OF that]]]])
      (auto dest: active_flags)
  then show ?thesis
    by (fastforce simp: whenever_def bind_eq_Some_conv)
qed

text \<open>What waiting for the pipes changes in the structure and the wait data.\<close>

definition selected :: "nat multiset \<Rightarrow> nat list \<Rightarrow> kwsysProcess \<Rightarrow> kwsysProcess \<Rightarrow> kwsysProcessWaitData
    \<Rightarrow> kwsysProcess \<times> kwsysProcessWaitData \<times> world \<Rightarrow> bool" where
  "selected F L cp0 cp wd = (\<lambda>(cp', wd', w'). active F L cp0 cp' w' \<and> (\<not> Killed cp \<longrightarrow> \<not> Killed cp')
     \<and> TimeoutExpired cp' = TimeoutExpired cp \<and> PipeId wd' = PipeId wd \<and> User wd' = User wd)"

lemma wait_select_whenever:
  assumes "os_ok e" and c: "active F L cp0 cp w"
  shows "whenever (wait_select e cp wd w) (\<lambda>(_, r). selected F L cp0 cp wd r)"
proof -
  obtain x l u where t: "kwsysProcessGetTimeoutLeft e (wdTimeoutTime wd) (if User wd then UserTimeout wd else None) False w = ((x, l), u)"
    by (metis prod.exhaust)
  have au: "active F L cp0 cp u'" if "calls_only u u'" for u'
    using c active_calls [OF GetTimeoutLeft_only [OF t]] active_calls [OF that] by simp
  have err: "whenever (do { msg \<leftarrow> strncpy (ErrorMessage cp) s KWSYSPE_PIPE_BUFFER_SIZE;
      (cp, w) \<leftarrow> Kill e (cp\<lparr>PipeSet := ps, ErrorMessage := msg\<rparr>) u';
      Some (False, cp\<lparr>Killed := False, SelectError := True\<rparr>, wd, w) }) (\<lambda>(_, r). selected F L cp0 cp wd r)"
    if "calls_only u u'" for u' s ps
    using select_error_killed [OF assms(1), of F L cp0 "cp\<lparr>PipeSet := ps\<rparr>" u' s wd] au [OF that]
    by (auto elim!: whenever_mono simp: selected_def simp del: whenever_simps)
  show ?thesis
    unfolding wait_select_def Let_def t prod.case
    using au [of u] au err
    by (auto simp: selected_def Let_def intro!: whenever_select whenever_ends)
qed

lemma WaitForPipe_whenever:
  assumes "os_ok e" and "wait_ok e" and a: "active F L cp0 cp w" and "PipeId wd = Pipe_None"
  shows "whenever (kwsysProcessWaitForPipe e want cp wd w) (\<lambda>(returned, bytes, cp', wd', w').
    waited F L cp0 want cp wd (bytes, cp', wd', w') \<and> (\<not> returned \<longrightarrow> PipeId wd' = Pipe_None))"
proof -
  have k: "kept F L cp0 cp w" using a by (simp add: active_def)
  have found: "waited F L cp0 want cp wd (Some bs, c, wd\<lparr>PipeId := pipe\<rparr>, v)"
    if "steady e F L cp0 cp c v" "data_ok want (Some (bs, pipe))" for c v bs pipe
    using that steady_active [OF a that(1) assms(2)] by (auto simp: waited_def reports_data_def data_ok_def steady_def)
  have select: "whenever (wait_select e c wd v) (\<lambda>(_, c', wd', v'). waited F L cp0 want cp wd (None, c', wd', v')
      \<and> PipeId wd' = Pipe_None)"
    if s: "steady e F L cp0 cp c v" for c v
    by (rule whenever_mono [OF wait_select_whenever [OF assms(1) steady_active [OF a s assms(2)]]])
      (use s assms(4) in \<open>auto simp: waited_def selected_def reports_data_def steady_def\<close>)
  show ?thesis
    unfolding kwsysProcessWaitForPipe_def whenever_simps
    by (rule returns_whenever [OF handle_pipes_returns [OF assms(1) k]])
      (use found assms(4) in \<open>auto split: option.split intro!: whenever_mono [OF select]\<close>)
qed

lemma waited_trans:
  "waited F L cp0 want cp wd (bytes, cp1, wd1, w1) \<Longrightarrow> waited F L cp0 want cp1 wd1 p \<Longrightarrow> waited F L cp0 want cp wd p"
  by (auto simp: waited_def)

lemma wait_loop_waited:
  "wait_loop e want cp wd w = Some p \<Longrightarrow> os_ok e \<Longrightarrow> wait_ok e \<Longrightarrow> active F L cp0 cp w \<Longrightarrow> PipeId wd = Pipe_None
    \<Longrightarrow> waited F L cp0 want cp wd p"
proof (induction rule: wait_loop.raw_induct [rotated, consumes 1, case_names 1])
  case (1 f e want cp wd w p)
  show ?case
  proof (cases "PipesLeft cp > 0")
    case True
    with 1(2) obtain returned bytes cp1 wd1 w1 where
      step: "kwsysProcessWaitForPipe e want cp wd w = Some (returned, bytes, cp1, wd1, w1)"
      and rest: "(if returned then Some (bytes, cp1, wd1, w1) else f e want cp1 wd1 w1) = Some p"
      by (auto simp: bind_eq_Some_conv)
    have w1: "waited F L cp0 want cp wd (bytes, cp1, wd1, w1)" "\<not> returned \<longrightarrow> PipeId wd1 = Pipe_None"
      using WaitForPipe_whenever [OF 1(3-6), of want] step by (auto simp: whenever_def)
    show ?thesis
    proof (cases returned)
      case True
      with rest w1 show ?thesis by auto
    next
      case False
      then have "f e want cp1 wd1 w1 = Some p" "PipeId wd1 = Pipe_None" using rest w1(2) by simp_all
      moreover have "active F L cp0 cp1 w1" using w1(1) by (simp add: waited_def)
      ultimately have "waited F L cp0 want cp1 wd1 p" using 1(1) 1(3,4) by blast
      with w1(1) show ?thesis by (rule waited_trans)
    qed
  next
    case False
    with 1(2,5,6) show ?thesis by (auto simp: waited_def reports_data_def)
  qed
qed

text \<open>The values \<open>kwsysProcess_WaitForData\<close> returns, and what it leaves.\<close>

definition wait_result :: "nat multiset \<Rightarrow> nat list \<Rightarrow> kwsysProcess \<Rightarrow> bool \<Rightarrow> kwsysProcess \<Rightarrow> real option
    \<Rightarrow> int \<times> byte list option \<times> real option \<times> kwsysProcess \<times> world \<Rightarrow> bool" where
  "wait_result F L cp0 want cp u = (\<lambda>(r, bytes, u', cp', w'). active F L cp0 cp' w'
     \<and> r \<in> {Pipe_None, Pipe_STDOUT, Pipe_STDERR, Pipe_Timeout}
     \<and> (if r \<in> {Pipe_STDOUT, Pipe_STDERR} then \<exists>bs. bytes = Some bs \<and> data_ok want (Some (bs, r)) else bytes = None)
     \<and> (r = Pipe_Timeout \<longrightarrow> u \<noteq> None) \<and> (u' = None \<longleftrightarrow> u = None)
     \<and> (r \<noteq> Pipe_None \<longrightarrow> \<not> Killed cp' \<and> \<not> TimeoutExpired cp'))"

lemma GetTimeoutTime_active:
  assumes "active F L cp0 cp w" and "kwsysProcessGetTimeoutTime e cp u w = (r, cp', w')"
  shows "active F L cp0 cp' w'" and "Killed cp' = Killed cp" and "TimeoutExpired cp' = TimeoutExpired cp"
    and "fst r \<longrightarrow> u \<noteq> None"
  using assms(2) active_calls [OF call_only, of F L cp0] assms(1)
  by (auto simp: kwsysProcessGetTimeoutTime_def kwsysProcessTimeGetCurrent_def Let_def split_beta split: option.splits if_splits)

lemma WaitForData_whenever:
  assumes "os_ok e" and "wait_ok e" and a: "active F L cp0 cp w"
  shows "whenever (WaitForData e want cp u w) (wait_result F L cp0 want cp u)"
proof (cases "Killed cp \<or> TimeoutExpired cp")
  case True
  with a show ?thesis by (auto simp: WaitForData_def wait_result_def active_def)
next
  case False
  then have go: "(State cp \<noteq> State_Executing \<or> Killed cp \<or> TimeoutExpired cp) = False" using a by (simp add: active_def)
  obtain s w1 where s: "(if u = None then (Time 0 0, w) else kwsysProcessTimeGetCurrent e w) = (s, w1)" by fastforce
  have "calls_only w w1" using s call_only by (auto simp: kwsysProcessTimeGetCurrent_def Let_def split_beta split: if_splits)
  then have a1: "active F L cp0 cp w1" using a active_calls by blast
  obtain user t c w2 where t: "kwsysProcessGetTimeoutTime e cp u w1 = ((user, t), c, w2)" by (metis prod.exhaust)
  note a2 = GetTimeoutTime_active [OF a1 t]
  let ?wd = "\<lparr>Expired = False, PipeId = Pipe_None, User = user, UserTimeout = u, wdTimeoutTime = t\<rparr>"
  have loop: "whenever (wait_loop e want c ?wd w2) (waited F L cp0 want c ?wd)"
    using wait_loop_waited [OF _ assms(1,2) a2(1)] by (simp add: whenever_def)
  have fin: "whenever (if PipeId wd \<noteq> Pipe_None then Some (PipeId wd, bytes, u', cp', v)
      else if Expired wd
      then if User wd then Some (Pipe_Timeout, None, u', cp', v)
           else do { (cp, w) \<leftarrow> Kill e cp' v; Some (Pipe_None, None, u', cp\<lparr>Killed := False, TimeoutExpired := True\<rparr>, w) }
      else Some (Pipe_None, None, u', cp', v)) (wait_result F L cp0 want cp u)"
    if w: "waited F L cp0 want c ?wd (bytes, cp', wd, v0)" and v: "calls_only v0 v" and u': "u' = None \<longleftrightarrow> u = None"
    for bytes cp' wd v0 v u'
  proof -
    have av: "active F L cp0 cp' v" using w active_calls [OF v] by (simp add: waited_def)
    have kill: "whenever (Kill e cp' v) (\<lambda>x. wait_result F L cp0 want cp u (case x of (c', w') \<Rightarrow>
        (Pipe_None, None, u', c'\<lparr>Killed := False, TimeoutExpired := True\<rparr>, w')))"
      by (rule returns_whenever [OF Kill_returns_active [OF assms(1) av]])
        (use u' active_flags(2) in \<open>auto simp: wait_result_def\<close>)
    show ?thesis
      using w av a2(2-4) False u' kill
      by (auto simp: waited_def wait_result_def reports_data_def data_ok_def split_beta elim!: whenever_mono split: if_splits)
  qed
  show ?thesis
    unfolding WaitForData_def go if_False Let_def s t prod.case whenever_simps
  proof (rule whenever_mono [OF loop], unfold split_paired_all prod.case)
    fix bytes cp' wd v0
    assume w: "waited F L cp0 want c ?wd (bytes, cp', wd, v0)"
    show "whenever (case (case u of None \<Rightarrow> (None, v0) | Some u \<Rightarrow>
         case kwsysProcessTimeGetCurrent e v0 of (userEndTime, w) \<Rightarrow>
           (Some (if u - kwsysProcessTimeToDouble (kwsysProcessTimeSubtract userEndTime s) < 0 then 0
                  else u - kwsysProcessTimeToDouble (kwsysProcessTimeSubtract userEndTime s)), w)) of
        (userTimeout, w) \<Rightarrow> if PipeId wd \<noteq> Pipe_None then Some (PipeId wd, bytes, userTimeout, cp', w)
          else if Expired wd
          then if User wd then Some (Pipe_Timeout, None, userTimeout, cp', w)
               else do { (cp, w) \<leftarrow> Kill e cp' w; Some (Pipe_None, None, userTimeout, cp\<lparr>Killed := False, TimeoutExpired := True\<rparr>, w) }
          else Some (Pipe_None, None, userTimeout, cp', w)) (wait_result F L cp0 want cp u)"
    proof (cases u)
      case None
      then show ?thesis using fin [OF w] by simp
    next
      case (Some d)
      obtain t2 v where t2: "kwsysProcessTimeGetCurrent e v0 = (t2, v)" by fastforce
      then have "calls_only v0 v" using call_only by (auto simp: kwsysProcessTimeGetCurrent_def Let_def split_beta)
      from fin [OF w this] Some show ?thesis by (simp add: t2)
    qed
  qed
qed

text \<open>Reading until the pipes have closed.\<close>

definition drained :: "nat multiset \<Rightarrow> nat list \<Rightarrow> kwsysProcess \<Rightarrow> real option
    \<Rightarrow> bool \<times> real option \<times> kwsysProcess \<times> world \<Rightarrow> bool" where
  "drained F L cp0 u = (\<lambda>(closed, u', cp', w'). active F L cp0 cp' w' \<and> (u' = None \<longleftrightarrow> u = None)
     \<and> (\<not> closed \<longrightarrow> u \<noteq> None \<and> \<not> Killed cp' \<and> \<not> TimeoutExpired cp'))"

lemma drain_drained:
  "drain e cp u w = Some p \<Longrightarrow> os_ok e \<Longrightarrow> wait_ok e \<Longrightarrow> active F L cp0 cp w \<Longrightarrow> drained F L cp0 u p"
proof (induction rule: drain.raw_induct [rotated, consumes 1, case_names 1])
  case (1 f e cp u w p)
  then obtain r bytes u1 cp1 w1 where d: "WaitForData e False cp u w = Some (r, bytes, u1, cp1, w1)"
    and rest: "(if r > 0 then if r = Pipe_Timeout then Some (False, u1, cp1, w1) else f e cp1 u1 w1
      else Some (True, u1, cp1, w1)) = Some p"
    by (auto simp: bind_eq_Some_conv)
  have w1: "wait_result F L cp0 False cp u (r, bytes, u1, cp1, w1)"
    using WaitForData_whenever [OF 1(3-5), of False u] d by (simp add: whenever_def)
  consider "r = Pipe_Timeout" | "r > 0" "r \<noteq> Pipe_Timeout" | "\<not> r > 0" by blast
  then show ?case
  proof cases
    case 1
    with rest w1 show ?thesis by (auto simp: wait_result_def drained_def)
  next
    case 2
    with rest have "f e cp1 u1 w1 = Some p" by simp
    moreover have "active F L cp0 cp1 w1" "u1 = None \<longleftrightarrow> u = None" using w1 by (simp_all add: wait_result_def)
    ultimately show ?thesis using "1.IH" "1.prems" by (fastforce simp: drained_def)
  next
    case 3
    with rest w1 show ?thesis by (auto simp: wait_result_def drained_def)
  qed
qed

text \<open>The end of a run: it is over, in one of five states, or the user timeout has come first.\<close>

definition exit_states :: "pstate set" where
  "exit_states = {State_Exited, State_Exception, State_Error, State_Killed, State_Expired}"

lemma final_state_exit: "final_state cp codes \<in> exit_states"
  by (simp add: final_state_def exit_states_def exit_state_def)

lemma WaitForExit_whenever:
  assumes "os_ok e" and "wait_ok e" and a: "active F L cp0 cp w" and "0 < NumberOfCommands cp0"
  shows "whenever (WaitForExit e cp u w) (\<lambda>(ended, u', cp', w').
    if ended then finished F (unregistered L cp0) cp0 cp' w' \<and> State cp' \<in> exit_states
    else active F L cp0 cp' w' \<and> u \<noteq> None)" (is "whenever _ ?P")
proof -
  have drain: "whenever (drain e cp u w) (drained F L cp0 u)"
    using drain_drained [OF _ assms(1,2) a] by (simp add: whenever_def)
  have exit: "whenever (exit_outcome e c v) (\<lambda>(cp', w'). finished F (unregistered L cp0) cp0 cp' w' \<and> State cp' \<in> exit_states)"
    if c: "active F L cp0 c v" for c v
  proof -
    have k: "kept F L cp0 c v" using c by (simp add: active_def)
    obtain b codes where "CommandExitCodes c = Some (b, codes)" using k by (auto simp: kept_def arrays_ok_def array_of_def)
    from exit_outcome_returns [OF assms(1) k _ this] assms(4) kept_facts(4) [OF k] show ?thesis
      by (auto elim!: returns_whenever simp: final_state_exit)
  qed
  have "(State cp \<noteq> State_Executing) = False" using a by (simp add: active_def)
  note go = this
  show ?thesis
    unfolding WaitForExit_def go if_False whenever_simps
  proof (rule whenever_mono [OF drain], unfold split_paired_all prod.case)
    fix closed u' c v
    assume d: "drained F L cp0 u (closed, u', c, v)"
    then have "active F L cp0 c v" by (simp add: drained_def)
    note ex = exit [OF this]
    show "whenever (if \<not> closed then Some (False, u', c, v) else do { (cp, w) \<leftarrow> exit_outcome e c v; Some (True, u', cp, w) }) ?P"
    proof (cases closed)
      case True
      then show ?thesis by (simp, intro whenever_mono [OF ex]) auto
    next
      case False
      with d show ?thesis by (auto simp: drained_def)
    qed
  qed
qed

lemma Disown_returns:
  assumes "os_ok e" and a: "active F L cp0 cp w"
  shows "returns (Disown e cp w) (\<lambda>(cp', w'). if Detached cp = 0 \<or> TimeoutExpired cp \<or> Killed cp then cp' = cp \<and> w' = w
    else finished F (unregistered L cp0) cp0 cp' w' \<and> State cp' = State_Disowned)"
proof (cases "Detached cp = 0 \<or> TimeoutExpired cp \<or> Killed cp")
  case True
  then show ?thesis by (auto simp: Disown_def)
next
  case False
  have k: "kept F L cp0 cp w" and st: "State cp = State_Executing" using a by (simp_all add: active_def)
  have "returns (kwsysProcessCleanup e c False v) (\<lambda>(cp', w'). finished F (unregistered L cp0) cp0 (cp'\<lparr>State := State_Disowned\<rparr>) w')"
    if "kept F L cp0 c v" for c v
    by (rule returns_mono [OF Cleanup_finishes [OF os_fair [OF assms(1)] that]]) auto
  note clean = this
  have "(Detached cp = 0 \<or> State cp \<noteq> State_Executing \<or> TimeoutExpired cp \<or> Killed cp) = False" using False st by simp
  note go = this
  show ?thesis
    unfolding Disown_def go if_False if_not_P [OF False] returns_bind
    by (rule returns_mono [OF ClosePipes_returns [OF assms(1) k]]) (auto intro!: returns_mono [OF clean] simp: finished_def)
qed

lemma Interrupt_returns:
  assumes "kept F L cp0 cp w"
  shows "returns (Interrupt e cp w) (calls_only w)"
proof -
  obtain pids where "fork_pids cp = Some pids" using kept_pids [OF assms] by metis
  moreover have "calls_only w (interrupt_groups e pids w)" for pids
    by (induction pids arbitrary: w) (auto intro: calls_only_trans [OF call_only])
  ultimately show ?thesis by (auto simp: Interrupt_def call_only)
qed


text \<open>C28. When \<open>kwsysProcess_WaitForData\<close> returns on an executing structure, its value is one of the four of the interface.
  If it is an output pipe, the caller wants the data, and the data are exactly the bytes that the last read
  delivered: a read of a whole buffer from the read end of that pipe, made during this call, after which only the clock is
  read; they are at least one byte and at most a buffer.  Otherwise there are no data: it is the timeout of the
  caller, and then there was one, or there are no more data.  The structure stays executing until its end is waited
  for, and neither data nor a timeout of the caller is reported once the children have been killed or
  the timeout of the structure has expired.  The system is taken to behave as in \<open>os_ok\<close> and \<open>wait_ok\<close>; that the
  function returns is not claimed, for it may wait for ever.\<close>

theorem WaitForData_result:
  assumes "os_ok e" and "wait_ok e" and "active F L cp0 cp w" and "WaitForData e want cp u w = Some (r, bytes, u', cp', w')"
  shows "active F L cp0 cp' w' \<and> r \<in> {Pipe_None, Pipe_STDOUT, Pipe_STDERR, Pipe_Timeout}
    \<and> (if r \<in> {Pipe_STDOUT, Pipe_STDERR}
        then \<exists>bs. bytes = Some bs \<and> data_of e cp w u r bs w' \<and> want \<and> bs \<noteq> [] \<and> length bs \<le> KWSYSPE_PIPE_BUFFER_SIZE
        else bytes = None)
    \<and> (r = Pipe_Timeout \<longrightarrow> u \<noteq> None) \<and> (u' = None \<longleftrightarrow> u = None)
    \<and> (r \<noteq> Pipe_None \<longrightarrow> \<not> Killed cp' \<and> \<not> TimeoutExpired cp')"
  using WaitForData_whenever [OF assms(1-3), of want u] WaitForData_read [of e want cp u w r _ u' cp' w'] assms(1,4)
  by (auto simp: whenever_def wait_result_def data_ok_def os_ok_def split: if_splits)

lemma run_env_wait_ok: "0 \<le> child \<Longrightarrow> wait_ok (run_env pid cwd child code bytes)"
  by (simp add: wait_ok_def run_env_def Let_def)

text \<open>\<open>select\<close> has reported the output pipe, and two bytes are there.\<close>

theorem WaitForData_result_witness:
  "\<exists>cp' w'. WaitForData (run_env 7 0 0 0 (ascii ''ab'')) True ((running_one 0)\<lparr>PipeSet := {3}\<rparr>) None running_world
      = Some (Pipe_STDOUT, Some (ascii ''ab''), None, cp', w')
    \<and> active {#5, 6, 7, 8#} [5] one_command cp' w' \<and> \<not> Killed cp'
    \<and> data_of (run_env 7 0 0 0 (ascii ''ab'')) ((running_one 0)\<lparr>PipeSet := {3}\<rparr>) running_world None Pipe_STDOUT (ascii ''ab'') w'"
proof -
  let ?e = "run_env 7 0 0 0 (ascii ''ab'')" and ?cp = "(running_one 0)\<lparr>PipeSet := {3}\<rparr>"
  let ?wd = "\<lparr>Expired = False, PipeId = Pipe_None, User = False, UserTimeout = None, wdTimeoutTime = Time 0 0\<rparr>"
  have os: "os_ok ?e" "wait_ok ?e" "active {#5, 6, 7, 8#} [5] one_command ?cp running_world"
    using running_one_active run_env_os_ok [of "ascii ''ab''"] run_env_wait_ok by (simp_all add: ascii_def)
  have t: "kwsysProcessGetTimeoutTime ?e ?cp None running_world = ((False, Time 0 0), ?cp, running_world)"
    by (simp add: kwsysProcessGetTimeoutTime_def running_one_def one_command_def initial_process_def)
  have read: "retry ?e (S_read 3 1024) running_world = Some (call ?e (S_read 3 1024) running_world)"
    by (rule retry_once) (simp add: run_env_def)
  have "read_into ?e 3 (replicate 1024 0) 0 1024 running_world
      = Some (2, ascii ''ab'' @ replicate 1022 0, snd (call ?e (S_read 3 1024) running_world))"
    unfolding read_into_def read by (simp add: split_beta call_reply run_env_def ascii_def mem_write_def)
  then have "\<exists>cp' w'. handle_pipes ?e True [0..<KWSYSPE_PIPE_COUNT] ?cp running_world = Some (Some (ascii ''ab'', Pipe_STDOUT), cp', w')"
    by (simp add: upt_rec handle_pipe_def FD_ISSET_def FD_CLR_def fd_in_range_def FD_SETSIZE_def running_one_def one_command_def
        initial_process_def ascii_def)
  then obtain cp' w' where h: "handle_pipes ?e True [0..<KWSYSPE_PIPE_COUNT] ?cp running_world = Some (Some (ascii ''ab'', Pipe_STDOUT), cp', w')"
    by blast
  have "PipesLeft ?cp > 0" by (simp add: running_one_def)
  then have loop: "wait_loop ?e True ?cp ?wd running_world = Some (Some (ascii ''ab''), cp', ?wd\<lparr>PipeId := Pipe_STDOUT\<rparr>, w')"
    using h by (subst wait_loop.simps) (simp add: kwsysProcessWaitForPipe_def)
  have "\<not> (State ?cp \<noteq> State_Executing \<or> Killed ?cp \<or> TimeoutExpired ?cp)"
    by (simp add: running_one_def one_command_def initial_process_def)
  then have w: "WaitForData ?e True ?cp None running_world = Some (Pipe_STDOUT, Some (ascii ''ab''), None, cp', w')"
    unfolding WaitForData_def using t loop by simp
  from WaitForData_result [OF os this] w show ?thesis by auto
qed

end
