(* ===== verification/ProcessApi.thy ===== *)
theory ProcessApi
  imports ProcessWait
begin

text \<open>
  The functions of \<^verbatim>\<open>kwsys/Process.h.in\<close>: each begins with a check for the null pointer, which
  is \<^term>\<open>None\<close> here, and otherwise does what the functions of the other theories say.  The getters
  that look into the results read arrays, so they can be undefined.
\<close>

section \<open>The null check\<close>

text \<open>\<open>if (!cp) { return d; }\<close>, before a body that returns a result.\<close>

definition on_process ::
  "'r \<Rightarrow> ('p \<Rightarrow> 's \<Rightarrow> ('r \<times> 'p \<times> 's) option) \<Rightarrow> 'p option \<Rightarrow> 's \<Rightarrow> ('r \<times> 'p option \<times> 's) option" where
  "on_process d body cp s =
     (case cp of
        None \<Rightarrow> Some (d, None, s)
      | Some cp \<Rightarrow> do { (r, cp, s) \<leftarrow> body cp s; Some (r, Some cp, s) })"

text \<open>The same for a body without a result.\<close>

definition update_process ::
  "('p \<Rightarrow> 's \<Rightarrow> ('p \<times> 's) option) \<Rightarrow> 'p option \<Rightarrow> 's \<Rightarrow> ('p option \<times> 's) option" where
  "update_process body cp s =
     (case cp of
        None \<Rightarrow> Some (None, s)
      | Some cp \<Rightarrow> do { (cp, s) \<leftarrow> body cp s; Some (Some cp, s) })"

definition kwsysProcess_SetCommand ::
  "malloc_ok \<Rightarrow> kwsysProcess option \<Rightarrow> byte list list option \<Rightarrow> heap \<Rightarrow> (bool \<times> kwsysProcess option \<times> heap) option" where
  "kwsysProcess_SetCommand ok cp command h = on_process False (\<lambda>cp. SetCommand ok cp command) cp h"

definition kwsysProcess_AddCommand ::
  "malloc_ok \<Rightarrow> kwsysProcess option \<Rightarrow> byte list list option \<Rightarrow> heap \<Rightarrow> (bool \<times> kwsysProcess option \<times> heap) option" where
  "kwsysProcess_AddCommand ok cp command h = on_process False (\<lambda>cp. AddCommand ok cp command) cp h"

definition kwsysProcess_SetTimeout :: "kwsysProcess option \<Rightarrow> real \<Rightarrow> kwsysProcess option" where
  "kwsysProcess_SetTimeout cp timeout = map_option (\<lambda>cp. SetTimeout cp timeout) cp"

definition kwsysProcess_SetWorkingDirectory ::
  "malloc_ok \<Rightarrow> kwsysProcess option \<Rightarrow> unit + byte list option \<Rightarrow> heap \<Rightarrow> (bool \<times> kwsysProcess option \<times> heap) option" where
  "kwsysProcess_SetWorkingDirectory ok cp dir h = on_process False (\<lambda>cp. SetWorkingDirectory ok cp dir) cp h"

definition kwsysProcess_SetPipeFile ::
  "malloc_ok \<Rightarrow> kwsysProcess option \<Rightarrow> int \<Rightarrow> byte list option \<Rightarrow> heap \<Rightarrow> (bool \<times> kwsysProcess option \<times> heap) option" where
  "kwsysProcess_SetPipeFile ok cp prPipe file_name h =
     on_process False (\<lambda>cp. SetPipeFile ok cp prPipe file_name) cp h"

definition kwsysProcess_SetPipeShared ::
  "malloc_ok \<Rightarrow> kwsysProcess option \<Rightarrow> int \<Rightarrow> bool \<Rightarrow> heap \<Rightarrow> (kwsysProcess option \<times> heap) option" where
  "kwsysProcess_SetPipeShared ok cp prPipe shared h =
     update_process (\<lambda>cp. SetPipeShared ok cp prPipe shared) cp h"

definition kwsysProcess_SetPipeNative ::
  "malloc_ok \<Rightarrow> kwsysProcess option \<Rightarrow> int \<Rightarrow> (int \<times> int) option \<Rightarrow> heap \<Rightarrow> (kwsysProcess option \<times> heap) option" where
  "kwsysProcess_SetPipeNative ok cp prPipe p h = update_process (\<lambda>cp. SetPipeNative ok cp prPipe p) cp h"

definition kwsysProcess_GetOption :: "kwsysProcess option \<Rightarrow> int \<Rightarrow> int" where
  "kwsysProcess_GetOption cp optionId = (case cp of None \<Rightarrow> 0 | Some cp \<Rightarrow> GetOption cp optionId)"

definition kwsysProcess_SetOption :: "kwsysProcess option \<Rightarrow> int \<Rightarrow> int \<Rightarrow> kwsysProcess option" where
  "kwsysProcess_SetOption cp optionId val = map_option (\<lambda>cp. SetOption cp optionId val) cp"

text \<open>A child of the pipeline may leave through \<open>kwsysProcess_Execute\<close>.\<close>

definition kwsysProcess_Execute :: "env \<Rightarrow> kwsysProcess option \<Rightarrow> world \<Rightarrow> (kwsysProcess option \<times> world) outcome option" where
  "kwsysProcess_Execute e cp w =
     (case cp of
        None \<Rightarrow> Some (Returned (None, w))
      | Some cp \<Rightarrow> do { r \<leftarrow> Execute e cp w;
                      Some (case r of Returned (cp, w) \<Rightarrow> Returned (Some cp, w) | Exited w \<Rightarrow> Exited w) })"

definition kwsysProcess_Disown :: "env \<Rightarrow> kwsysProcess option \<Rightarrow> world \<Rightarrow> (kwsysProcess option \<times> world) option" where
  "kwsysProcess_Disown e cp w = update_process (Disown e) cp w"

definition kwsysProcess_WaitForData ::
  "env \<Rightarrow> bool \<Rightarrow> kwsysProcess option \<Rightarrow> real option \<Rightarrow> world
     \<Rightarrow> ((int \<times> byte list option \<times> real option) \<times> kwsysProcess option \<times> world) option" where
  "kwsysProcess_WaitForData e want cp userTimeout w =
     on_process (Pipe_None, None, userTimeout)
       (\<lambda>cp w. do { (r, bytes, u, cp, w) \<leftarrow> WaitForData e want cp userTimeout w; Some ((r, bytes, u), cp, w) }) cp w"

definition kwsysProcess_WaitForExit ::
  "env \<Rightarrow> kwsysProcess option \<Rightarrow> real option \<Rightarrow> world
     \<Rightarrow> ((bool \<times> real option) \<times> kwsysProcess option \<times> world) option" where
  "kwsysProcess_WaitForExit e cp userTimeout w =
     on_process (True, userTimeout)
       (\<lambda>cp w. do { (r, u, cp, w) \<leftarrow> WaitForExit e cp userTimeout w; Some ((r, u), cp, w) }) cp w"

definition kwsysProcess_Interrupt :: "env \<Rightarrow> kwsysProcess option \<Rightarrow> world \<Rightarrow> world option" where
  "kwsysProcess_Interrupt e cp w = (case cp of None \<Rightarrow> Some w | Some cp \<Rightarrow> Interrupt e cp w)"

definition kwsysProcess_Kill :: "env \<Rightarrow> kwsysProcess option \<Rightarrow> world \<Rightarrow> (kwsysProcess option \<times> world) option" where
  "kwsysProcess_Kill e cp w = update_process (Kill e) cp w"

definition kwsysProcess_ResetStartTime :: "env \<Rightarrow> kwsysProcess option \<Rightarrow> world \<Rightarrow> kwsysProcess option \<times> world" where
  "kwsysProcess_ResetStartTime e cp w =
     (case cp of
        None \<Rightarrow> (None, w)
      | Some cp \<Rightarrow> let (t, w) = kwsysProcessTimeGetCurrent e w in (Some (cp\<lparr>StartTime := t\<rparr>), w))"

definition kwsysProcess_Delete :: "env \<Rightarrow> kwsysProcess option \<Rightarrow> world \<Rightarrow> world option" where
  "kwsysProcess_Delete e cp w = (case cp of None \<Rightarrow> Some w | Some cp \<Rightarrow> Delete e cp w)"

section \<open>Getters\<close>

definition kwsysProcess_GetState :: "kwsysProcess option \<Rightarrow> pstate" where
  "kwsysProcess_GetState cp = (case cp of None \<Rightarrow> State_Error | Some cp \<Rightarrow> State cp)"

text \<open>\<open>array[i]\<close>\<close>

definition array_get :: "'a array option \<Rightarrow> nat \<Rightarrow> 'a option" where
  "array_get a i = (case a of None \<Rightarrow> None | Some (_, xs) \<Rightarrow> if i < length xs then Some (xs ! i) else None)"

text \<open>The getters of the last result; \<open>Some d\<close> is the default.\<close>

definition of_last :: "'r \<Rightarrow> (kwsysProcessResults \<Rightarrow> 'r) \<Rightarrow> kwsysProcess option \<Rightarrow> 'r option" where
  "of_last d f cp =
     (case cp of
        None \<Rightarrow> Some d
      | Some cp \<Rightarrow> if ProcessResults cp \<noteq> None \<and> NumberOfCommands cp > 0
                   then map_option f (array_get (ProcessResults cp) (NumberOfCommands cp - 1))
                   else Some d)"

definition kwsysProcess_GetExitException :: "kwsysProcess option \<Rightarrow> pexception option" where
  "kwsysProcess_GetExitException cp = of_last Exception_Other ExitException cp"

definition kwsysProcess_GetExitCode :: "kwsysProcess option \<Rightarrow> int option" where
  "kwsysProcess_GetExitCode cp = of_last 0 ExitCode cp"

definition kwsysProcess_GetExitValue :: "kwsysProcess option \<Rightarrow> int option" where
  "kwsysProcess_GetExitValue cp = of_last (-1) ExitValue cp"

definition kwsysProcess_GetErrorString :: "kwsysProcess option \<Rightarrow> byte list" where
  "kwsysProcess_GetErrorString cp =
     (case cp of
        None \<Rightarrow> lit ''Process management structure could not be allocated''
      | Some cp \<Rightarrow> if State cp = State_Error then ErrorMessage cp else lit ''Success'')"

definition kwsysProcess_GetExceptionString :: "kwsysProcess option \<Rightarrow> byte list option" where
  "kwsysProcess_GetExceptionString cp =
     (case cp of
        None \<Rightarrow> Some (lit ''GetExceptionString called with NULL process management structure'')
      | Some p \<Rightarrow>
          if \<not> (ProcessResults p \<noteq> None \<and> NumberOfCommands p > 0)
          then Some (lit ''GetExceptionString called with NULL process management structure'')
          else if State p = State_Exception
          then map_option ExitExceptionString (array_get (ProcessResults p) (NumberOfCommands p - 1))
          else Some (lit ''No exception''))"

text \<open>\<open>KWSYSPE_IDX_CHK\<close>\<close>

definition idx_ok :: "kwsysProcess \<Rightarrow> int \<Rightarrow> bool" where
  "idx_ok cp idx \<longleftrightarrow> \<not> (idx \<ge> int (NumberOfCommands cp) \<or> idx < 0)"

definition by_index :: "'r \<Rightarrow> (kwsysProcess \<Rightarrow> nat \<Rightarrow> 'r option) \<Rightarrow> kwsysProcess option \<Rightarrow> int \<Rightarrow> 'r option" where
  "by_index d f cp idx =
     (case cp of None \<Rightarrow> Some d | Some cp \<Rightarrow> if idx_ok cp idx then f cp (nat idx) else Some d)"

definition kwsysProcess_GetStateByIndex :: "kwsysProcess option \<Rightarrow> int \<Rightarrow> pstate option" where
  "kwsysProcess_GetStateByIndex cp idx =
     by_index State_Error (\<lambda>cp i. map_option rState (array_get (ProcessResults cp) i)) cp idx"

definition kwsysProcess_GetExitExceptionByIndex :: "kwsysProcess option \<Rightarrow> int \<Rightarrow> pexception option" where
  "kwsysProcess_GetExitExceptionByIndex cp idx =
     by_index Exception_Other (\<lambda>cp i. map_option ExitException (array_get (ProcessResults cp) i)) cp idx"

definition kwsysProcess_GetExitValueByIndex :: "kwsysProcess option \<Rightarrow> int \<Rightarrow> int option" where
  "kwsysProcess_GetExitValueByIndex cp idx =
     by_index (-1) (\<lambda>cp i. map_option ExitValue (array_get (ProcessResults cp) i)) cp idx"

definition kwsysProcess_GetExitCodeByIndex :: "kwsysProcess option \<Rightarrow> int \<Rightarrow> int option" where
  "kwsysProcess_GetExitCodeByIndex cp idx =
     by_index (-1) (\<lambda>cp i. array_get (CommandExitCodes cp) i) cp idx"

definition kwsysProcess_GetExceptionStringByIndex :: "kwsysProcess option \<Rightarrow> int \<Rightarrow> byte list option" where
  "kwsysProcess_GetExceptionStringByIndex cp idx =
     by_index (lit ''GetExceptionString called with NULL process management structure or index out of bound'')
       (\<lambda>cp i. do { r \<leftarrow> array_get (ProcessResults cp) i;
                    Some (if rState r = State_Exception then ExitExceptionString r else lit ''No exception'') }) cp idx"

end
