(* ===== verification/ProcessLife.thy ===== *)
theory ProcessLife
  imports ProcessEnd ProcessApi
begin

text \<open>
  The life of a process structure (\<^verbatim>\<open>kwsys/ProcessUNIX.c\<close>): any sequence of the calls that run a
  pipeline, as a step relation with its invariant, and the deletion of the structure.
\<close>

section \<open>The calls of a run\<close>

text \<open>
  One call of the interface on a structure whose configuration does not change any more, when it
  returns; calls of other processes are not interleaved.
\<close>

inductive api_step :: "env \<Rightarrow> kwsysProcess \<times> world \<Rightarrow> kwsysProcess \<times> world \<Rightarrow> bool" for e where
  execute: "Execute e cp w = Some (Returned s) \<Longrightarrow> api_step e (cp, w) s"
| wait_for_data: "WaitForData e want cp u w = Some (r, bytes, u', s) \<Longrightarrow> api_step e (cp, w) s"
| wait_for_exit: "WaitForExit e cp u w = Some (r, u', s) \<Longrightarrow> api_step e (cp, w) s"
| kill: "Kill e cp w = Some s \<Longrightarrow> api_step e (cp, w) s"
| interrupt: "Interrupt e cp w = Some w' \<Longrightarrow> api_step e (cp, w) (cp, w')"
| disown: "Disown e cp w = Some s \<Longrightarrow> api_step e (cp, w) s"
| reset_start: "kwsysProcess_ResetStartTime e (Some cp) w = (Some cp', w') \<Longrightarrow> api_step e (cp, w) (cp', w')"

inductive_cases api_stepE: "api_step e s s'"

text \<open>Between two calls the structure is executing or idle.\<close>

definition between_calls :: "nat multiset \<Rightarrow> nat list \<Rightarrow> kwsysProcess \<Rightarrow> kwsysProcess \<times> world \<Rightarrow> bool" where
  "between_calls F R cp0 = (\<lambda>(cp, w). active F (registered_list R cp0) cp0 cp w
     \<or> config_of cp = config_of cp0 \<and> idle F cp w \<and> registered w = R)"

lemma execute_ok_config: "config_of cp = config_of cp0 \<Longrightarrow> execute_ok e cp = execute_ok e cp0"
  by (simp add: execute_ok_def strings_ok_def config_of_eq)

lemma registered_list_config: "config_of cp = config_of cp0 \<Longrightarrow> registered_list R cp = registered_list R cp0"
  by (simp add: registered_list_def config_of_eq)

lemma active_config: "config_of cp = config_of cp0 \<Longrightarrow> active F L cp c w = active F L cp0 c w"
  by (simp add: active_def kept_def config_of_eq)

lemma finished_between:
  "finished F (unregistered (registered_list R cp0) cp0) cp0 cp w \<Longrightarrow> self cp0 \<notin> set R \<Longrightarrow> between_calls F R cp0 (cp, w)"
  using finished_idle [of F R cp0 cp w] by (simp add: unregistered_list between_calls_def finished_def)

lemma failed_between:
  "failed F R cp0 cp w \<Longrightarrow> self cp0 \<notin> set R \<Longrightarrow> between_calls F R cp0 (cp, w)"
  by (simp add: failed_def between_calls_def idle_def config_of_eq)

lemma between_execute:
  assumes "between_calls F R cp0 (cp, w)" and "execute_ok e cp0" and "self cp0 \<notin> set R"
  shows "whenever (Execute e cp w) (\<lambda>r. \<exists>s. r = Returned s \<and> between_calls F R cp0 s)"
    and "getcwd_answers e cp w \<Longrightarrow> Execute e cp w \<noteq> None"
proof -
  have "whenever (Execute e cp w) (\<lambda>r. \<exists>s. r = Returned s \<and> between_calls F R cp0 s)
      \<and> (getcwd_answers e cp w \<longrightarrow> Execute e cp w \<noteq> None)"
  proof (cases "State cp = State_Executing")
    case True
    with assms(1) show ?thesis by (simp add: Execute_def)
  next
    case False
    with assms(1) have i: "config_of cp = config_of cp0" "idle F cp w" "registered w = R"
      by (auto simp: between_calls_def active_def)
    have ok: "execute_ok e cp" using execute_ok_config [OF i(1)] assms(2) by simp
    have "\<exists>s. r = Returned s \<and> between_calls F R cp0 s" if r: "execute_outcome F (registered w) cp r" for r
    proof -
      from r obtain c v where c: "r = Returned (c, v)" "executing F R cp c v \<or> failed F R cp c v"
        using i(3) by (auto simp: execute_outcome_def)
      have "active F (registered_list R cp0) cp0 c v" if "executing F R cp c v"
        using executing_active [OF that] registered_list_config [OF i(1)] active_config [OF i(1)] by metis
      moreover have "failed F R cp0 c v" if "failed F R cp c v" using that i(1) by (simp add: failed_def)
      ultimately show ?thesis using c failed_between [OF _ assms(3)] by (auto simp: between_calls_def)
    qed
    with Execute_whenever [OF i(2) ok] show ?thesis by (auto elim!: whenever_mono)
  qed
  then show "whenever (Execute e cp w) (\<lambda>r. \<exists>s. r = Returned s \<and> between_calls F R cp0 s)"
    and "getcwd_answers e cp w \<Longrightarrow> Execute e cp w \<noteq> None" by simp_all
qed

text \<open>The other calls do nothing on an idle structure.\<close>

lemma idle_calls:
  assumes "State cp \<noteq> State_Executing"
  shows "WaitForData e want cp u w = Some (Pipe_None, None, u, cp, w)" "WaitForExit e cp u w = Some (True, u, cp, w)"
    "Kill e cp w = Some (cp, w)" "Interrupt e cp w = Some w" "Disown e cp w = Some (cp, w)"
  using assms by (simp_all add: WaitForData_def WaitForExit_def Kill_def Interrupt_def Disown_def)

lemma between_idle:
  "between_calls F R cp0 (cp, w) \<Longrightarrow> State cp \<noteq> State_Executing \<or> active F (registered_list R cp0) cp0 cp w"
  by (auto simp: between_calls_def idle_def)

lemma active_between: "active F (registered_list R cp0) cp0 cp w \<Longrightarrow> between_calls F R cp0 (cp, w)"
  by (simp add: between_calls_def)

lemma between_frame:
  "between_calls F R cp0 (cp, w) \<Longrightarrow> calls_only w w' \<Longrightarrow> between_calls F R cp0 (cp, w')"
  "between_calls F R cp0 (cp, w) \<Longrightarrow> between_calls F R cp0 (cp\<lparr>StartTime := t\<rparr>, w)"
  using active_calls calls_only_table [of w w'] by (auto simp: between_calls_def idle_def config_of_eq run_blocks_def messages_ok_def)

lemma between_returns:
  assumes "between_calls F R cp0 (cp, w)" and "os_ok e" and "self cp0 \<notin> set R"
  shows "returns (Kill e cp w) (between_calls F R cp0)" (is ?kill)
    and "returns (Disown e cp w) (between_calls F R cp0)" (is ?disown)
    and "returns (Interrupt e cp w) (\<lambda>w'. between_calls F R cp0 (cp, w'))" (is ?interrupt)
proof -
  have "?kill \<and> ?disown \<and> ?interrupt"
  proof (cases "State cp = State_Executing")
    case False
    with assms(1) show ?thesis by (simp add: idle_calls)
  next
    case True
    then have a: "active F (registered_list R cp0) cp0 cp w" using between_idle [OF assms(1)] by simp
    then have k: "kept F (registered_list R cp0) cp0 cp w" by (simp add: active_def)
    have ?kill by (rule returns_mono [OF Kill_returns_active [OF assms(2) a]]) (auto simp: between_calls_def)
    moreover have ?disown
      by (rule returns_mono [OF Disown_returns [OF assms(2) a]])
        (use assms(1,3) in \<open>auto split: if_splits intro: finished_between\<close>)
    moreover have ?interrupt
      by (rule returns_mono [OF Interrupt_returns [OF k]]) (rule between_frame(1) [OF assms(1)])
    ultimately show ?thesis by simp
  qed
  then show ?kill ?disown ?interrupt by simp_all
qed

lemma between_waits:
  assumes "between_calls F R cp0 (cp, w)" and "os_ok e" and "wait_ok e" and "self cp0 \<notin> set R" and "0 < NumberOfCommands cp0"
  shows "whenever (WaitForData e want cp u w) (\<lambda>(_, _, _, s). between_calls F R cp0 s)" (is ?data)
    and "whenever (WaitForExit e cp u w) (\<lambda>(_, _, s). between_calls F R cp0 s)" (is ?exit)
proof -
  have "?data \<and> ?exit"
  proof (cases "State cp = State_Executing")
    case False
    with assms(1) show ?thesis by (simp add: idle_calls)
  next
    case True
    then have a: "active F (registered_list R cp0) cp0 cp w" using between_idle [OF assms(1)] by simp
    have ?data
      by (rule whenever_mono [OF WaitForData_whenever [OF assms(2,3) a]]) (auto simp: wait_result_def between_calls_def)
    moreover have ?exit
      by (rule whenever_mono [OF WaitForExit_whenever [OF assms(2,3) a assms(5)]])
        (use assms(4) in \<open>auto split: if_splits intro: finished_between active_between\<close>)
    ultimately show ?thesis by simp
  qed
  then show ?data ?exit by simp_all
qed

lemma api_step_keeps:
  assumes "api_step e s s'" and "between_calls F R cp0 s" and "execute_ok e cp0" and "wait_ok e" and "self cp0 \<notin> set R"
    and "0 < NumberOfCommands cp0"
  shows "between_calls F R cp0 s'"
proof -
  have os: "os_ok e" using assms(3) by (simp add: execute_ok_def)
  note ret = between_returns [OF _ os assms(5)] and waits = between_waits [OF _ os assms(4-6)]
  from assms(1) show ?thesis
  proof cases
    case (execute cp w)
    with assms(2) between_execute(1) [OF _ assms(3,5)] show ?thesis by (auto simp: whenever_def)
  next
    case (wait_for_data want cp u w r bytes u')
    with assms(2) waits(1) [of F cp w want u] show ?thesis by (simp add: whenever_def)
  next
    case (wait_for_exit cp u w r u')
    with assms(2) waits(2) [of F cp w u] show ?thesis by (simp add: whenever_def)
  next
    case (kill cp w)
    with assms(2) returnsD [OF ret(1) kill(2)] show ?thesis by simp
  next
    case (interrupt cp w w')
    with assms(2) returnsD [OF ret(3) interrupt(3)] show ?thesis by simp
  next
    case (disown cp w)
    with assms(2) returnsD [OF ret(2) disown(2)] show ?thesis by simp
  next
    case (reset_start cp w cp' w')
    then show ?thesis
      using assms(2) between_frame [of F R cp0] call_only
      by (auto simp: kwsysProcess_ResetStartTime_def kwsysProcessTimeGetCurrent_def Let_def split_beta)
  qed
qed

lemma reachable_between:
  assumes "(api_step e)\<^sup>*\<^sup>* s s'" and "between_calls F R cp0 s" and "execute_ok e cp0" and "wait_ok e" and "self cp0 \<notin> set R"
    and "0 < NumberOfCommands cp0"
  shows "between_calls F R cp0 s'"
  using assms(1,2) by (induction rule: rtranclp_induct) (use api_step_keeps [OF _ _ assms(3-6)] in auto)

section \<open>Deleting\<close>

text \<open>The blocks of the structure and of its configuration.\<close>

definition structure_blocks :: "kwsysProcess \<Rightarrow> nat multiset" where
  "structure_blocks cp = {#self cp#} + owned_config cp"

lemma free_process_frees:
  assumes "mset (live h) = G + structure_blocks cp + opt_block (CommandExitCodes cp) + opt_block (ProcessResults cp)"
    and "NumberOfCommands cp = length (command_list cp)" and "strings_ok cp"
  shows "returns (free_process e cp h) (\<lambda>h'. mset (live h') = G)"
proof -
  let ?G = "G + {#self cp#} + opt_block (CommandExitCodes cp) + opt_block (ProcessResults cp)"
  let ?c1 = "cp\<lparr>NumberOfCommands := 0, Commands := None\<rparr>"
  let ?c2 = "?c1\<lparr>WorkingDirectory := None\<rparr>"
  have old: "(case Commands cp of None \<Rightarrow> [] | Some (_, cs) \<Rightarrow> cs) = command_list cp" by (simp add: command_list_def)
  have mem: "mset (live h) = (?G + owned_rest cp + opt_block (Commands cp)) + (\<Sum>c\<leftarrow>command_list cp. command_blocks c)"
    using assms(1) by (simp add: structure_blocks_def owned_config_split owned_commands_def ac_simps)
  obtain r1 h1 where h1: "SetCommand (alloc_ok e) cp None h = Some (r1, ?c1, h1)" "config_mem ?G ?c1 h1"
  proof (rule returnsE)
    show "returns (SetCommand (alloc_ok e) cp None h) (\<lambda>(r, c, h1). c = ?c1 \<and> config_mem ?G ?c1 h1)"
      unfolding SetCommand_def old assms(2) mem_read_all Option.bind.bind_lunit returns_bind Let_def
      by (rule wp_free_commands [OF mem], rule wp_free_array, assumption)
        (simp add: config_mem_def owned_config_def owned_rest_def owned_commands_def command_list_def ac_simps)
  qed auto
  obtain r2 h2 where h2: "SetWorkingDirectory (alloc_ok e) ?c1 (Inr None) h1 = Some (r2, ?c2, h2)" "config_mem ?G ?c2 h2"
    by (rule returnsE [OF SetWorkingDirectory_returns [OF h1(2), of "Inr None" "alloc_ok e"]])
      (use assms(3) in \<open>auto simp: strings_ok_def\<close>)
    have p: "Pipe_STDIN \<in> std_pipes" "Pipe_STDOUT \<in> std_pipes" "Pipe_STDERR \<in> std_pipes" by (simp_all add: std_pipes_def)
    obtain h3 where 3: "SetPipeFile (alloc_ok e) ?c2 Pipe_STDIN None h2 = Some (True, ?c2\<lparr>PipeFile := (PipeFile ?c2)(Pipe_STDIN := None)\<rparr>, h3)"
      "config_mem ?G (?c2\<lparr>PipeFile := (PipeFile ?c2)(Pipe_STDIN := None)\<rparr>) h3" using clear_pipe_file [OF h2(2) p(1)] by blast
    obtain h4 where 4: "SetPipeFile (alloc_ok e) (?c2\<lparr>PipeFile := (PipeFile ?c2)(Pipe_STDIN := None)\<rparr>) Pipe_STDOUT None h3
        = Some (True, ?c2\<lparr>PipeFile := (PipeFile ?c2)(Pipe_STDIN := None, Pipe_STDOUT := None)\<rparr>, h4)"
      "config_mem ?G (?c2\<lparr>PipeFile := (PipeFile ?c2)(Pipe_STDIN := None, Pipe_STDOUT := None)\<rparr>) h4"
      using clear_pipe_file [OF 3(2) p(2)] by auto
    obtain h5 where 5: "SetPipeFile (alloc_ok e) (?c2\<lparr>PipeFile := (PipeFile ?c2)(Pipe_STDIN := None, Pipe_STDOUT := None)\<rparr>) Pipe_STDERR None h4
        = Some (True, ?c2\<lparr>PipeFile := (PipeFile ?c2)(Pipe_STDIN := None, Pipe_STDOUT := None, Pipe_STDERR := None)\<rparr>, h5)"
      "config_mem ?G (?c2\<lparr>PipeFile := (PipeFile ?c2)(Pipe_STDIN := None, Pipe_STDOUT := None, Pipe_STDERR := None)\<rparr>) h5"
      using clear_pipe_file [OF 4(2) p(3)] by auto
    have "mset (live h5) = ?G"
      using 5(2) by (simp add: config_mem_def owned_config_def owned_commands_def command_list_def)
  then have "mset (live h5) = (G + {#self cp#} + opt_block (ProcessResults cp)) + opt_block (CommandExitCodes cp)"
    by (simp add: ac_simps)
  then have "returns (do { h \<leftarrow> free_array (CommandExitCodes cp) h5; h \<leftarrow> free_array (ProcessResults cp) h; free (self cp) h })
      (\<lambda>h'. mset (live h') = G)"
    unfolding returns_bind by (rule wp_free_array) (rule wp_free_array, assumption, rule wp_free)
  moreover have "free_process e cp h = do { h \<leftarrow> free_array (CommandExitCodes cp) h5; h \<leftarrow> free_array (ProcessResults cp) h; free (self cp) h }"
    unfolding free_process_def h1(1) h2(1) Option.bind.bind_lunit prod.case 3(1) 4(1) 5(1) by simp
  ultimately show ?thesis by simp
qed

text \<open>Deleting a structure that is not executing: a list of children that it still has is lost.\<close>

lemma free_idle:
  assumes "mset (live h) = G + structure_blocks cp0 + run_blocks cp" and "config_of cp = config_of cp0"
    and "NumberOfCommands cp0 = length (command_list cp0)" and "strings_ok cp0"
    and "RealWorkingDirectory cp = None"
  shows "returns (free_process e cp h) (\<lambda>h'. mset (live h') = G + opt_block (ForkPIDs cp))"
proof (rule free_process_frees)
  have s: "structure_blocks cp = structure_blocks cp0"
    using assms(2) by (simp add: structure_blocks_def owned_config_def owned_commands_def command_list_def config_of_eq)
  show "mset (live h) = G + opt_block (ForkPIDs cp) + structure_blocks cp + opt_block (CommandExitCodes cp) + opt_block (ProcessResults cp)"
    using assms(1,5) by (simp add: s run_blocks_def ac_simps)
  show "NumberOfCommands cp = length (command_list cp)" "strings_ok cp"
    using assms(2-4) by (simp_all add: config_of_eq command_list_def strings_ok_def)
qed

definition deleted :: "nat multiset \<Rightarrow> nat list \<Rightarrow> world \<Rightarrow> bool" where
  "deleted G R w \<longleftrightarrow> mset (live (heap w)) = G + table_blocks (kwsysProcesses w) \<and> registered w = R"

lemma free_deletes:
  assumes "table_mem (G + structure_blocks cp0 + run_blocks cp) w" and "registered w = R" and "config_of cp = config_of cp0"
    and "NumberOfCommands cp0 = length (command_list cp0)" and "strings_ok cp0"
    and "RealWorkingDirectory cp = None"
  shows "returns (free_process e cp (heap w)) (\<lambda>h. deleted (G + opt_block (ForkPIDs cp)) R (w\<lparr>heap := h\<rparr>))"
proof -
  have m: "mset (live (heap w)) = (G + table_blocks (kwsysProcesses w)) + structure_blocks cp0 + run_blocks cp"
    using assms(1) by (simp add: table_mem_def owns_def ac_simps)
  show ?thesis
    by (rule returns_mono [OF free_idle [OF m assms(3-6)]]) (use assms(2) in \<open>simp add: deleted_def registered_def ac_simps\<close>)
qed

lemma finished_deletes:
  assumes "finished (G + structure_blocks cp0) (unregistered (registered_list R cp0) cp0) cp0 cp w" and "self cp0 \<notin> set R"
    and "NumberOfCommands cp0 = length (command_list cp0)" and "strings_ok cp0"
  shows "returns (free_process e cp (heap w)) (\<lambda>h. deleted G R (w\<lparr>heap := h\<rparr>))"
proof -
  have "returns (free_process e cp (heap w)) (\<lambda>h. deleted (G + opt_block (ForkPIDs cp)) R (w\<lparr>heap := h\<rparr>))"
    by (rule free_deletes [OF _ _ _ assms(3,4)]) (use assms(1,2) in \<open>simp_all add: finished_def unregistered_list\<close>)
  moreover have "ForkPIDs cp = None" using assms(1) by (simp add: finished_def)
  ultimately show ?thesis by simp
qed

text \<open>
  What \<open>kwsysProcess_Delete\<close> does not free: the list of children is freed only when the run is ended, by
  waiting for its exit or by disowning it, which does nothing for a detached pipeline that was killed or
  whose time is over; a structure that is not executing has a list of children only after an allocation
  failure.
\<close>

definition lost_list :: "kwsysProcess \<Rightarrow> nat multiset" where
  "lost_list cp = (if State cp = State_Executing \<and> (Detached cp = 0 \<or> \<not> Killed cp \<and> \<not> TimeoutExpired cp) then {#}
     else opt_block (ForkPIDs cp))"

lemma Delete_cases:
  "Delete e cp w = Option.bind (if State cp = State_Executing
       then if Detached cp \<noteq> 0 then Disown e cp w
            else map_option (\<lambda>(_, _, s). s) (WaitForExit e cp None w)
       else Some (cp, w)) (\<lambda>(cp, w). map_option (\<lambda>h. w\<lparr>heap := h\<rparr>) (free_process e cp (heap w)))"
proof -
  have "(do { (_, _, cp, w) \<leftarrow> WaitForExit e cp None w; Some (cp, w) }) = map_option (\<lambda>(_, _, s). s) (WaitForExit e cp None w)"
    by (cases "WaitForExit e cp None w") auto
  moreover have "(\<lambda>(c, v :: world). do { h \<leftarrow> free_process e c (heap v); Some (v\<lparr>heap := h\<rparr>) })
      = (\<lambda>(c, v). map_option (\<lambda>h. v\<lparr>heap := h\<rparr>) (free_process e c (heap v)))"
  proof (rule ext, unfold split_paired_all prod.case)
    fix c and v :: world
    show "(do { h \<leftarrow> free_process e c (heap v); Some (v\<lparr>heap := h\<rparr>) }) = map_option (\<lambda>h. v\<lparr>heap := h\<rparr>) (free_process e c (heap v))"
      by (cases "free_process e c (heap v)") auto
  qed
  ultimately show ?thesis unfolding Delete_def by simp
qed

lemma whenever_map [simp]: "whenever (map_option f m) P = whenever m (\<lambda>x. P (f x))"
  by (auto simp: whenever_def)

lemma Delete_whenever:
  assumes b: "between_calls (G + structure_blocks cp0) R cp0 (cp, w)" and os: "os_ok e" "wait_ok e" and self: "self cp0 \<notin> set R"
    and n: "0 < NumberOfCommands cp0" "NumberOfCommands cp0 = length (command_list cp0)" and st: "strings_ok cp0"
  shows "whenever (Delete e cp w) (deleted (G + lost_list cp) R)"
    and "State cp \<noteq> State_Executing \<or> Detached cp \<noteq> 0 \<longrightarrow> Delete e cp w \<noteq> None"
proof -
  let ?F = "G + structure_blocks cp0" and ?L = "registered_list R cp0"
  have fin: "returns (free_process e c (heap v)) (\<lambda>h. deleted G R (v\<lparr>heap := h\<rparr>))"
    if "finished ?F (unregistered ?L cp0) cp0 c v" for c v
    using finished_deletes [OF that self n(2) st] .
  have unended: "whenever (Delete e cp w) (deleted (G + opt_block (ForkPIDs cp)) R) \<and> Delete e cp w \<noteq> None"
    if "config_of cp = config_of cp0" "table_mem (?F + run_blocks cp) w" "registered w = R" "RealWorkingDirectory cp = None"
      "(if State cp = State_Executing then if Detached cp \<noteq> 0 then Disown e cp w else map_option (\<lambda>(_, _, s). s) (WaitForExit e cp None w)
        else Some (cp, w)) = Some (cp, w)"
  proof -
    note i = that
    obtain h where h: "free_process e cp (heap w) = Some h" "deleted (G + opt_block (ForkPIDs cp)) R (w\<lparr>heap := h\<rparr>)"
      by (rule returnsE [OF free_deletes [OF i(2,3,1) n(2) st i(4), where e = e]])
    have "Delete e cp w = Some (w\<lparr>heap := h\<rparr>)" unfolding Delete_cases i(5) using h(1) by simp
    with h(2) show ?thesis by simp
  qed
  consider (idle) "State cp \<noteq> State_Executing" | (killed) "State cp = State_Executing" "Detached cp \<noteq> 0" "Killed cp \<or> TimeoutExpired cp"
    | (detached) "State cp = State_Executing" "Detached cp \<noteq> 0" "\<not> Killed cp" "\<not> TimeoutExpired cp"
    | (wait) "State cp = State_Executing" "Detached cp = 0" by blast
  then have "whenever (Delete e cp w) (deleted (G + lost_list cp) R)
      \<and> (State cp \<noteq> State_Executing \<or> Detached cp \<noteq> 0 \<longrightarrow> Delete e cp w \<noteq> None)"
  proof cases
    case idle
    then have i: "config_of cp = config_of cp0" "table_mem (?F + run_blocks cp) w" "registered w = R" "RealWorkingDirectory cp = None"
      using b by (auto simp: between_calls_def active_def idle_def)
    from unended [OF i] idle show ?thesis by (simp add: lost_list_def)
  next
    case killed
    then have "kept ?F ?L cp0 cp w" using between_idle [OF b] by (simp add: active_def)
    then have k: "config_of cp = config_of cp0" "table_mem (?F + run_blocks cp) w" "registered w = R" "RealWorkingDirectory cp = None"
      using killed(2) by (simp_all add: kept_def registered_list_def)
    from unended [OF k] killed show ?thesis by (auto simp: lost_list_def Disown_def)
  next
    case detached
    then have a: "active ?F ?L cp0 cp w" and "\<not> (Detached cp = 0 \<or> TimeoutExpired cp \<or> Killed cp)"
      using between_idle [OF b] by auto
    then obtain c' v where d: "Disown e cp w = Some (c', v)" "finished ?F (unregistered ?L cp0) cp0 c' v"
      using Disown_returns [OF os(1) a] by (auto elim!: returnsE)
    obtain h where h: "free_process e c' (heap v) = Some h" "deleted G R (v\<lparr>heap := h\<rparr>)"
      by (rule returnsE [OF fin [OF d(2)]])
    have "Delete e cp w = Some (v\<lparr>heap := h\<rparr>)" using detached d(1) h(1) by (simp add: Delete_cases)
    with h(2) detached show ?thesis by (simp add: lost_list_def)
  next
    case wait
    then have a: "active ?F ?L cp0 cp w" using between_idle [OF b] by simp
    have "whenever (WaitForExit e cp None w) (\<lambda>(_, _, c, v). finished ?F (unregistered ?L cp0) cp0 c v)"
      by (rule whenever_mono [OF WaitForExit_whenever [OF os a n(1)]]) (auto split: if_splits)
    then have "whenever (Delete e cp w) (deleted G R)"
      unfolding Delete_cases using wait by (auto elim!: whenever_mono intro!: returns_whenever [OF fin])
    with wait show ?thesis by (simp add: lost_list_def)
  qed
  then show "whenever (Delete e cp w) (deleted (G + lost_list cp) R)"
    and "State cp \<noteq> State_Executing \<or> Detached cp \<noteq> 0 \<longrightarrow> Delete e cp w \<noteq> None" by simp_all
qed

lemma idle_between: "idle F cp w \<Longrightarrow> between_calls F (registered w) cp (cp, w)"
  by (simp add: between_calls_def)

section \<open>Properties\<close>




lemma one_command_blocks: "structure_blocks one_command = {#5, 6, 7, 8#}"
  by (simp add: structure_blocks_def owned_config_def owned_commands_def command_list_def command_blocks_def one_command_def
      initial_process_def)


text \<open>C24. A detached pipeline that is executing and is killed, and whose structure is then deleted: deleting
  comes back, but \<open>kwsysProcess_Disown\<close> does nothing for a killed pipeline, so the list of children is
  lost.\<close>

theorem killed_detached_leaks:
  assumes "os_ok e" and "active (G + structure_blocks cp0) L cp0 cp w" and "OptionDetach cp0 \<noteq> 0" and "strings_ok cp0"
    and "NumberOfCommands cp0 = length (command_list cp0)"
  shows "returns (do { (cp, w) \<leftarrow> Kill e cp w; Delete e cp w })
    (\<lambda>v. \<exists>b. mset (live (heap v)) = G + {#b#} + table_blocks (kwsysProcesses v))"
  unfolding returns_bind
proof (rule returns_mono [OF Kill_returns_active [OF assms(1,2)]], unfold split_paired_all prod.case, elim conjE)
  fix c :: kwsysProcess and v :: world
  assume a: "active (G + structure_blocks cp0) L cp0 c v" and k: "Killed c"
  then have kept: "kept (G + structure_blocks cp0) L cp0 c v" "State c = State_Executing" by (simp_all add: active_def)
  then have c: "config_of c = config_of cp0" "RealWorkingDirectory c = None" "Detached c \<noteq> 0" "table_mem (G + structure_blocks cp0 + run_blocks c) v"
    using assms(3) by (simp_all add: kept_def)
  obtain b pids where p: "ForkPIDs c = Some (b, pids)" using kept by (auto simp: kept_def arrays_ok_def array_of_def)
  let ?c = "c\<lparr>ForkPIDs := None\<rparr>"
  have "Delete e c v = map_option (\<lambda>h. v\<lparr>heap := h\<rparr>) (free_process e c (heap v))"
    using c(3) kept(2) k by (simp add: Delete_cases Disown_def)
  moreover have "returns (free_process e c (heap v)) (\<lambda>h. mset (live h) = G + {#b#} + table_blocks (kwsysProcesses v))"
  proof (rule free_process_frees)
    have s: "structure_blocks c = structure_blocks cp0"
      using c(1) by (simp add: structure_blocks_def owned_config_def owned_commands_def command_list_def config_of_eq)
    show "mset (live (heap v)) = G + {#b#} + table_blocks (kwsysProcesses v) + structure_blocks c
        + opt_block (CommandExitCodes c) + opt_block (ProcessResults c)"
      using c(2,4) p by (simp add: s table_mem_def owns_def run_blocks_def ac_simps)
    show "NumberOfCommands c = length (command_list c)" "strings_ok c"
      using c(1) assms(4,5) by (simp_all add: config_of_eq command_list_def strings_ok_def)
  qed
  ultimately show "returns (Delete e c v) (\<lambda>v. \<exists>b. mset (live (heap v)) = G + {#b#} + table_blocks (kwsysProcesses v))"
    by (auto elim!: returns_mono)
qed

definition detached_world :: world where
  "detached_world = example_world\<lparr>heap := \<lparr>calls = 13, live = [5, 6, 7, 8, 9, 10, 11]\<rparr>\<rparr>"

theorem killed_detached_leaks_witness:
  "returns (do { (cp, w) \<leftarrow> Kill (run_env 7 0 0 0 []) ((running_one 0)\<lparr>OptionDetach := 1, Detached := 1\<rparr>) detached_world;
      Delete (run_env 7 0 0 0 []) cp w })
    (\<lambda>v. \<exists>b. mset (live (heap v)) = {#} + {#b#} + table_blocks (kwsysProcesses v))"
proof (rule killed_detached_leaks [OF run_env_os_ok])
  let ?cp0 = "one_command\<lparr>OptionDetach := 1\<rparr>"
  have "structure_blocks ?cp0 = {#5, 6, 7, 8#}"
    using one_command_blocks by (simp add: structure_blocks_def owned_config_def owned_commands_def command_list_def)
  then show "active ({#} + structure_blocks ?cp0) [] ?cp0 ((running_one 0)\<lparr>OptionDetach := 1, Detached := 1\<rparr>) detached_world"
    using initial_results_length
    by (simp add: active_def counted_def children_left_def kept_def running_one_def one_command_def initial_process_def detached_world_def
        example_world_def config_of_def table_mem_def owns_def run_blocks_def table_blocks_def table_ok_def iCount_def registered_def
        messages_ok_def arrays_ok_def array_of_def in_range_def FD_SETSIZE_def)
  show "strings_ok ?cp0" "NumberOfCommands ?cp0 = length (command_list ?cp0)" "OptionDetach ?cp0 \<noteq> 0"
    by (simp_all add: strings_ok_def one_command_def initial_process_def terminated_def command_list_def)
qed simp_all

end
