(* ===== verification/StringAlgorithms.thy ===== *)
theory StringAlgorithms
  imports Prelude
begin

text \<open>
  The string functions of \<^verbatim>\<open>cmStringAlgorithms.cxx\<close> that the CMake language rests on: lists are strings with
  semicolons, which are split by \<open>cmExpandList\<close> and made by \<open>cmJoin\<close>.  A string is the list of its bytes, and
  an iterator is the list of bytes from it on.
\<close>

section \<open>The functions\<close>

text \<open>\<open>isspace\<close> in the C locale.\<close>

definition cmIsSpace :: "byte \<Rightarrow> bool" where
  "cmIsSpace ch \<longleftrightarrow> ch AND 0x80 = 0 \<and> ch \<in> {0x20, 0x09, 0x0A, 0x0B, 0x0C, 0x0D}"

definition cmTrimWhitespace :: "byte list \<Rightarrow> byte list" where
  "cmTrimWhitespace str =
     (let start = dropWhile cmIsSpace str
      in if start = [] then [] else rev (dropWhile cmIsSpace (rev start)))"

definition cmRemoveQuotes :: "byte list \<Rightarrow> byte list" where
  "cmRemoveQuotes str =
     (if 2 \<le> length str \<and> hd str = 0x22 \<and> last str = 0x22 then butlast (tl str) else str)"

fun cmEscapeQuotes :: "byte list \<Rightarrow> byte list" where
  "cmEscapeQuotes [] = []"
| "cmEscapeQuotes (ch # str) = (if ch = 0x22 then [0x5C] else []) @ ch # cmEscapeQuotes str"

text \<open>The loop over the tokens; \<open>str\<close> is the string from \<open>tokend\<close> on.\<close>

function tokenize_loop :: "byte list \<Rightarrow> byte list \<Rightarrow> byte list list" where
  "tokenize_loop sep str =
     (case dropWhile (\<lambda>c. c \<in> set sep) str of
        [] \<Rightarrow> []
      | c # s \<Rightarrow> takeWhile (\<lambda>c. c \<notin> set sep) (c # s) # tokenize_loop sep (dropWhile (\<lambda>c. c \<notin> set sep) (c # s)))"
  by pat_completeness auto
termination
proof (relation "measure (\<lambda>(sep, str). length str)")
  fix sep str :: "byte list" and c s
  assume e: "dropWhile (\<lambda>c. c \<in> set sep) str = c # s"
  then have "c \<notin> set sep" using dropWhile_eq_Cons_conv [of "\<lambda>c. c \<in> set sep" str c s] by simp
  moreover have "length (c # s) \<le> length str" using length_dropWhile_le [of "\<lambda>c. c \<in> set sep" str] unfolding e .
  moreover have "length (dropWhile (\<lambda>c. c \<notin> set sep) s) \<le> length s" by (rule length_dropWhile_le)
  ultimately show "((sep, dropWhile (\<lambda>c. c \<notin> set sep) (c # s)), (sep, str)) \<in> measure (\<lambda>(sep, str). length str)" by simp
qed simp

declare tokenize_loop.simps [simp del]

definition cmTokenize :: "byte list \<Rightarrow> byte list \<Rightarrow> byte list list" where
  "cmTokenize str sep = (let tokens = tokenize_loop sep str in if tokens = [] then [[]] else tokens)"

text \<open>
  The loop of \<open>cmExpandList\<close>: \<open>newArg\<close>, the bytes from \<open>last\<close> to the current position, \<open>squareNesting\<close>, \<open>argsOut\<close> and the
  rest of the string.
\<close>

fun expand_loop :: "bool \<Rightarrow> byte list \<Rightarrow> byte list \<Rightarrow> int \<Rightarrow> byte list list \<Rightarrow> byte list \<Rightarrow> byte list list" where
  "expand_loop emptyArgs newArg piece squareNesting argsOut [] =
     (if newArg @ piece \<noteq> [] \<or> emptyArgs then argsOut @ [newArg @ piece] else argsOut)"
| "expand_loop emptyArgs newArg piece squareNesting argsOut (c # rest) =
     (if c = 0x5C
      then if rest \<noteq> [] \<and> hd rest = 0x3B then expand_loop emptyArgs (newArg @ piece) [0x3B] squareNesting argsOut (tl rest)
           else expand_loop emptyArgs newArg (piece @ [c]) squareNesting argsOut rest
      else if c = 0x5B then expand_loop emptyArgs newArg (piece @ [c]) (squareNesting + 1) argsOut rest
      else if c = 0x5D then expand_loop emptyArgs newArg (piece @ [c]) (squareNesting - 1) argsOut rest
      else if c = 0x3B \<and> squareNesting = 0
      then if newArg @ piece \<noteq> [] \<or> emptyArgs
           then expand_loop emptyArgs [] [] squareNesting (argsOut @ [newArg @ piece]) rest
           else expand_loop emptyArgs (newArg @ piece) [] squareNesting argsOut rest
      else expand_loop emptyArgs newArg (piece @ [c]) squareNesting argsOut rest)"

definition cmExpandList :: "byte list \<Rightarrow> byte list list \<Rightarrow> bool \<Rightarrow> byte list list" where
  "cmExpandList arg argsOut emptyArgs =
     (if \<not> emptyArgs \<and> arg = [] then argsOut
      else if 0x3B \<notin> set arg then argsOut @ [arg]
      else expand_loop emptyArgs [] [] 0 argsOut arg)"

definition cmExpandedList :: "byte list \<Rightarrow> bool \<Rightarrow> byte list list" where
  "cmExpandedList arg emptyArgs = cmExpandList arg [] emptyArgs"

definition cmJoin :: "byte list list \<Rightarrow> byte list \<Rightarrow> byte list \<Rightarrow> byte list" where
  "cmJoin rng separator initial =
     (case rng of [] \<Rightarrow> initial
      | s # ss \<Rightarrow> fold (\<lambda>t result. result @ separator @ t) ss (initial @ s))"

section \<open>What the list of a string is\<close>

text \<open>
  The elements of a list, as they are documented: the pieces between the semicolons that are neither escaped
  nor inside square brackets, with escaped semicolons unescaped.  \<open>n\<close> is the nesting of the brackets.
\<close>

fun extend_first :: "byte \<Rightarrow> byte list list \<Rightarrow> byte list list" where
  "extend_first c [] = [[c]]"
| "extend_first c (x # xs) = (c # x) # xs"

fun elements :: "int \<Rightarrow> byte list \<Rightarrow> byte list list" where
  "elements n [] = [[]]"
| "elements n [c] = (if c = 0x3B \<and> n = 0 then [[], []] else [[c]])"
| "elements n (c # d # s) =
     (if c = 0x5C \<and> d = 0x3B then extend_first 0x3B (elements n s)
      else if c = 0x3B \<and> n = 0 then [] # elements n (d # s)
      else extend_first c (elements (if c = 0x5B then n + 1 else if c = 0x5D then n - 1 else n) (d # s)))"

lemma elements_nonempty: "elements n s \<noteq> []"
  by (induction n s rule: elements.induct) (auto simp: neq_Nil_conv)

fun prepend :: "byte list \<Rightarrow> byte list list \<Rightarrow> byte list list" where
  "prepend s [] = [s]"
| "prepend s (x # xs) = (s @ x) # xs"

lemma prepend_simps [simp]: "xs \<noteq> [] \<Longrightarrow> prepend [] xs = xs" "xs \<noteq> [] \<Longrightarrow> prepend s (extend_first c xs) = prepend (s @ [c]) xs"
  by (cases xs; simp)+

lemma elements_step:
  assumes "\<not> (c = 0x5C \<and> s \<noteq> [] \<and> hd s = 0x3B)" and "\<not> (c = 0x3B \<and> n = 0)"
  shows "elements n (c # s) = extend_first c (elements (if c = 0x5B then n + 1 else if c = 0x5D then n - 1 else n) s)"
  using assms by (cases s) auto

lemma elements_special: "elements n (0x5C # 0x3B # s) = extend_first 0x3B (elements n s)" "elements 0 (0x3B # s) = [] # elements 0 s"
  by (simp, cases s) simp_all

lemma expand_loop_elements:
  "expand_loop e newArg piece n out s = out @ filter (\<lambda>x. e \<or> x \<noteq> []) (prepend (newArg @ piece) (elements n s))"
proof (induction e newArg piece n out s rule: expand_loop.induct)
  case (2 e newArg piece n out c rest)
  let ?n = "if c = 0x5B then n + 1 else if c = 0x5D then n - 1 else n"
  consider "c = 0x5C" "rest \<noteq> []" "hd rest = 0x3B" | "c = 0x3B" "n = 0"
    | "\<not> (c = 0x5C \<and> rest \<noteq> [] \<and> hd rest = 0x3B)" "\<not> (c = 0x3B \<and> n = 0)" by blast
  then show ?case
  proof cases
    case 1
    then have r: "rest = 0x3B # tl rest" by (cases rest) auto
    from 1 have "expand_loop e newArg piece n out (c # rest) = expand_loop e (newArg @ piece) [0x3B] n out (tl rest)" by simp
    also have "\<dots> = out @ filter (\<lambda>x. e \<or> x \<noteq> []) (prepend (newArg @ piece @ [0x3B]) (elements n (tl rest)))"
      using "2.IH"(1) [OF 1(1)] 1 by simp
    also have "\<dots> = out @ filter (\<lambda>x. e \<or> x \<noteq> []) (prepend (newArg @ piece) (elements n (c # rest)))"
      unfolding 1(1) by (subst (2) r) (simp only: elements_special prepend_simps(2) [OF elements_nonempty] append_assoc)
    finally show ?thesis .
  next
    case 2
    then have "elements n (c # rest) = [] # elements 0 rest" by (simp only: elements_special)
    with 2 "2.IH"(5,6) show ?thesis by (auto simp: elements_nonempty)
  next
    case 3
    have "expand_loop e newArg piece n out (c # rest) = expand_loop e newArg (piece @ [c]) ?n out rest" using 3 by auto
    also have "\<dots> = out @ filter (\<lambda>x. e \<or> x \<noteq> []) (prepend (newArg @ piece @ [c]) (elements ?n rest))"
      using "2.IH"(2-4,7) 3 by auto
    finally show ?thesis unfolding elements_step [OF 3] by (simp only: prepend_simps(2) [OF elements_nonempty] append_assoc)
  qed
qed simp

lemma elements_plain: "0x3B \<notin> set s \<Longrightarrow> elements n s = [s]"
  by (induction n s rule: elements.induct) auto

lemma cmExpandList_filter: "cmExpandList arg out e = out @ filter (\<lambda>x. e \<or> x \<noteq> []) (elements 0 arg)"
  using elements_plain [of arg 0] elements_nonempty [of 0 arg] by (auto simp: cmExpandList_def expand_loop_elements)

text \<open>C8. \<open>cmExpandList\<close> appends the elements of the list, without the empty ones unless they are asked for.\<close>

theorem cmExpandList_elements:
  "cmExpandList arg argsOut emptyArgs = argsOut @ (if emptyArgs then elements 0 arg else removeAll [] (elements 0 arg))"
  by (auto simp: cmExpandList_filter removeAll_filter_not_eq intro: filter_cong)

section \<open>Lists that are made of elements\<close>

definition escape_element :: "byte list \<Rightarrow> byte list" where
  "escape_element x = concat (map (\<lambda>c. if c = 0x3B then [0x5C, 0x3B] else [c]) x)"

definition nesting :: "int \<Rightarrow> byte list \<Rightarrow> int" where
  "nesting n x = n + int (length (filter (\<lambda>c. c = 0x5B) x)) - int (length (filter (\<lambda>c. c = 0x5D) x))"

text \<open>An element can be written in a list if its brackets are balanced and no backslash at its end escapes the separator.\<close>

definition list_element :: "byte list \<Rightarrow> bool" where
  "list_element x \<longleftrightarrow> nesting 0 x = 0 \<and> (x = [] \<or> last x \<noteq> 0x5C)"

lemma elements_escaped: "x = [] \<or> last x \<noteq> 0x5C \<Longrightarrow> elements n (escape_element x @ s) = prepend x (elements (nesting n x) s)"
proof (induction x arbitrary: n)
  case Nil
  then show ?case by (simp add: escape_element_def nesting_def elements_nonempty)
next
  case (Cons c x)
  have e: "extend_first c (prepend x ys) = prepend (c # x) ys" for c ys by (cases ys) auto
  have x: "x = [] \<or> last x \<noteq> 0x5C" using Cons.prems by (auto split: if_splits)
  show ?case
  proof (cases "c = 0x3B")
    case True
    with Cons.IH [OF x, of n] show ?thesis by (simp add: escape_element_def nesting_def e)
  next
    case False
    let ?n = "if c = 0x5B then n + 1 else if c = 0x5D then n - 1 else n"
    have "escape_element (c # x) @ s = c # escape_element x @ s" using False by (simp add: escape_element_def)
    moreover have "\<not> (c = 0x5C \<and> escape_element x @ s \<noteq> [] \<and> hd (escape_element x @ s) = 0x3B)"
      using Cons.prems by (cases x) (auto simp: escape_element_def)
    moreover have "nesting n (c # x) = nesting ?n x" by (simp add: nesting_def)
    ultimately show ?thesis using elements_step [of c "escape_element x @ s" n] False Cons.IH [OF x, of ?n] by (simp add: e)
  qed
qed

lemma cmJoin_Cons: "cmJoin (s # t # ss) sep [] = s @ sep @ cmJoin (t # ss) sep []"
proof -
  have "fold (\<lambda>t r. r @ sep @ t) ss (a @ b) = a @ fold (\<lambda>t r. r @ sep @ t) ss b" for a b
    by (induction ss arbitrary: b) auto
  from this [of "s @ sep" t] show ?thesis by (simp add: cmJoin_def)
qed

lemma elements_join: "xs \<noteq> [] \<Longrightarrow> \<forall>x\<in>set xs. list_element x \<Longrightarrow> elements 0 (cmJoin (map escape_element xs) [0x3B] []) = xs"
proof (induction xs)
  case (Cons x xs)
  have x: "x = [] \<or> last x \<noteq> 0x5C" "nesting 0 x = 0" using Cons.prems by (auto simp: list_element_def)
  show ?case
  proof (cases xs)
    case Nil
    then show ?thesis using elements_escaped [OF x(1), of 0 "[]"] x(2) by (simp add: cmJoin_def)
  next
    case (Cons y ys)
    have IH: "elements 0 (cmJoin (map escape_element xs) [0x3B] []) = xs" using Cons.IH Cons.prems Cons by simp
    have j: "cmJoin (map escape_element (x # xs)) [0x3B] [] = escape_element x @ [0x3B] @ cmJoin (map escape_element xs) [0x3B] []"
      using cmJoin_Cons by (simp add: Cons)
    show ?thesis unfolding j using elements_escaped [OF x(1), of 0] x(2) IH by (simp add: elements_special)
  qed
qed simp

text \<open>Elements that are joined with semicolons, with the semicolons in them escaped, are the elements of the list
  again, when their brackets are balanced and they do not end in a backslash.\<close>

theorem cmExpandList_cmJoin:
  assumes "xs \<noteq> []" and "\<forall>x\<in>set xs. list_element x"
  shows "cmExpandedList (cmJoin (map escape_element xs) [0x3B] []) emptyArgs = filter (\<lambda>x. emptyArgs \<or> x \<noteq> []) xs"
  using elements_join [OF assms] by (simp add: cmExpandedList_def cmExpandList_filter)

theorem cmExpandList_cmJoin_witness:
  "cmExpandedList (cmJoin (map escape_element [[0x61, 0x3B, 0x62], [], [0x5B, 0x5D]]) [0x3B] []) False = [[0x61, 0x3B, 0x62], [0x5B, 0x5D]]"
  using cmExpandList_cmJoin [of "[[0x61, 0x3B, 0x62], [], [0x5B, 0x5D]]" False] by (simp add: list_element_def nesting_def)

end
