(* ===== verification/ListFileContext.thy ===== *)
theory ListFileContext
  imports Prelude
begin

text \<open>
  The data of the list files of CMake and where they are (\<^verbatim>\<open>cmListFileCache.h\<close>, \<^verbatim>\<open>cmListFileCache.cxx\<close>): the
  arguments and commands, the contexts, the call stacks, and the messages of \<^verbatim>\<open>cmMessenger.cxx\<close>.
  A \<open>std::string\<close> is the list of its bytes.  A snapshot of the state of CMake, which is at the bottom of
  a call stack, is only passed around: it is a number.
\<close>

section \<open>Commands\<close>

datatype Delimiter = Unquoted | Quoted | Bracket

record cmListFileArgument =
  arg_Value :: "byte list"
  arg_Delim :: Delimiter
  arg_Line :: int

definition argument_equal :: "cmListFileArgument \<Rightarrow> cmListFileArgument \<Rightarrow> bool" where
  "argument_equal l r \<longleftrightarrow> arg_Value l = arg_Value r \<and> arg_Delim l = arg_Delim r"

record cmCommandName =
  Original :: "byte list"
  Lower :: "byte list"

definition LowerCase :: "byte list \<Rightarrow> byte list" where
  "LowerCase s = map ascii_lower s"

definition command_name :: "byte list \<Rightarrow> cmCommandName" where
  "command_name name = \<lparr>Original = name, Lower = LowerCase name\<rparr>"

record cmListFileFunction =
  fn_Name :: cmCommandName
  fn_Line :: int
  fn_Arguments :: "cmListFileArgument list"

definition list_file_function :: "byte list \<Rightarrow> int \<Rightarrow> cmListFileArgument list \<Rightarrow> cmListFileFunction" where
  "list_file_function name line args = \<lparr>fn_Name = command_name name, fn_Line = line, fn_Arguments = args\<rparr>"

abbreviation OriginalName :: "cmListFileFunction \<Rightarrow> byte list" where
  "OriginalName f \<equiv> Original (fn_Name f)"

abbreviation LowerCaseName :: "cmListFileFunction \<Rightarrow> byte list" where
  "LowerCaseName f \<equiv> Lower (fn_Name f)"

section \<open>Contexts\<close>

record cmListFileContext =
  ctx_Name :: "byte list"
  ctx_FilePath :: "byte list"
  ctx_Line :: int
  ctx_DeferId :: "byte list option"

definition DeferPlaceholderLine :: int where "DeferPlaceholderLine = -1"

definition FromCommandContext :: "cmListFileFunction \<Rightarrow> byte list \<Rightarrow> byte list option \<Rightarrow> cmListFileContext" where
  "FromCommandContext lfcc fileName deferId =
     \<lparr>ctx_Name = OriginalName lfcc, ctx_FilePath = fileName, ctx_Line = fn_Line lfcc, ctx_DeferId = deferId\<rparr>"

definition line_context :: "byte list \<Rightarrow> int \<Rightarrow> cmListFileContext" where
  "line_context path line = \<lparr>ctx_Name = [], ctx_FilePath = path, ctx_Line = line, ctx_DeferId = None\<rparr>"

definition show_context :: "cmListFileContext \<Rightarrow> byte list" where
  "show_context lfc = ctx_FilePath lfc @
     (if ctx_Line lfc > 0
      then ascii '':'' @ int_chars (ctx_Line lfc)
        @ (if ctx_Name lfc \<noteq> [] then ascii '' ('' @ ctx_Name lfc @ ascii '')'' else [])
      else if ctx_Line lfc = DeferPlaceholderLine then ascii '':DEFERRED'' else [])"

text \<open>\<open>std::string\<close> compares unsigned characters.\<close>

fun string_less :: "byte list \<Rightarrow> byte list \<Rightarrow> bool" where
  "string_less [] t = (t \<noteq> [])"
| "string_less (c # s) [] = False"
| "string_less (c # s) (d # t) = (c < d \<or> c = d \<and> string_less s t)"

definition context_less :: "cmListFileContext \<Rightarrow> cmListFileContext \<Rightarrow> bool" where
  "context_less lhs rhs = (if ctx_Line lhs \<noteq> ctx_Line rhs then ctx_Line lhs < ctx_Line rhs
     else string_less (ctx_FilePath lhs) (ctx_FilePath rhs))"

definition context_equal :: "cmListFileContext \<Rightarrow> cmListFileContext \<Rightarrow> bool" where
  "context_equal lhs rhs \<longleftrightarrow> ctx_Line lhs = ctx_Line rhs \<and> ctx_FilePath lhs = ctx_FilePath rhs"

section \<open>Call stacks\<close>

text \<open>An entry is the bottom, with its snapshot, or a context with its parent; a stack may be unset.\<close>

datatype Entry = Bottom_entry nat | Context_entry cmListFileContext Entry

fun IsBottom :: "Entry \<Rightarrow> bool" where
  "IsBottom (Bottom_entry s) = True"
| "IsBottom (Context_entry c e) = False"

type_synonym cmListFileBacktrace = "Entry option"

fun entry_bottom :: "Entry \<Rightarrow> nat" where
  "entry_bottom (Bottom_entry s) = s"
| "entry_bottom (Context_entry c e) = entry_bottom e"

text \<open>The bottom of an unset stack is the default snapshot.\<close>

definition GetBottom :: "cmListFileBacktrace \<Rightarrow> nat option" where
  "GetBottom bt = map_option entry_bottom bt"

definition Push :: "cmListFileContext \<Rightarrow> cmListFileBacktrace \<Rightarrow> cmListFileBacktrace option" where
  "Push lfc bt = map_option (\<lambda>e. Some (Context_entry lfc e)) bt"

definition Push_file :: "byte list \<Rightarrow> cmListFileBacktrace \<Rightarrow> cmListFileBacktrace option" where
  "Push_file path bt = Push (line_context path 0) bt"

definition Pop :: "cmListFileBacktrace \<Rightarrow> cmListFileBacktrace option" where
  "Pop bt = (case bt of Some (Context_entry c e) \<Rightarrow> Some (Some e) | _ \<Rightarrow> None)"

definition Top :: "cmListFileBacktrace \<Rightarrow> cmListFileContext option" where
  "Top bt = (case bt of Some (Context_entry c e) \<Rightarrow> Some c | _ \<Rightarrow> None)"

fun entry_depth :: "Entry \<Rightarrow> nat" where
  "entry_depth (Bottom_entry s) = 0"
| "entry_depth (Context_entry c e) = Suc (entry_depth e)"

definition Depth :: "cmListFileBacktrace \<Rightarrow> nat" where
  "Depth bt = (case bt of None \<Rightarrow> 0 | Some e \<Rightarrow> entry_depth e)"

definition Empty :: "cmListFileBacktrace \<Rightarrow> bool" where
  "Empty bt \<longleftrightarrow> (case bt of None \<Rightarrow> True | Some e \<Rightarrow> IsBottom e)"

text \<open>\<open>relative\<close> is the path relative to the source directory, for the kinds of projects that show it so.\<close>

definition PrintTitle :: "(nat \<Rightarrow> byte list \<Rightarrow> byte list) \<Rightarrow> cmListFileBacktrace \<Rightarrow> byte list" where
  "PrintTitle relative bt = (case bt of
     Some (Context_entry lfc e) \<Rightarrow>
       (let lfc = lfc\<lparr>ctx_FilePath := relative (entry_bottom e) (ctx_FilePath lfc)\<rparr>
        in (if ctx_Line lfc \<noteq> 0 then ascii '' at '' else ascii '' in '') @ show_context lfc)
   | _ \<Rightarrow> [])"

fun show_entries :: "(nat \<Rightarrow> byte list \<Rightarrow> byte list) \<Rightarrow> bool \<Rightarrow> Entry \<Rightarrow> byte list" where
  "show_entries relative first (Bottom_entry s) = []"
| "show_entries relative first (Context_entry lfc e) =
     (if ctx_Name lfc = [] \<and> ctx_Line lfc \<noteq> DeferPlaceholderLine then show_entries relative first e
      else (if first then ascii ''Call Stack (most recent call first):'' @ [0x0A] else [])
        @ ascii ''  '' @ show_context (lfc\<lparr>ctx_FilePath := relative (entry_bottom e) (ctx_FilePath lfc)\<rparr>) @ [0x0A]
        @ show_entries relative False e)"

definition PrintCallStack :: "(nat \<Rightarrow> byte list \<Rightarrow> byte list) \<Rightarrow> cmListFileBacktrace \<Rightarrow> byte list" where
  "PrintCallStack relative bt = (case bt of Some (Context_entry c e) \<Rightarrow> show_entries relative True e | _ \<Rightarrow> [])"

section \<open>Messages\<close>

datatype MessageType = AUTHOR_WARNING | AUTHOR_ERROR | FATAL_ERROR | INTERNAL_ERROR | MESSAGE | WARNING | LOG
  | DEPRECATION_ERROR | DEPRECATION_WARNING

record cmMessenger =
  SuppressDevWarnings :: bool
  SuppressDeprecatedWarnings :: bool
  DevWarningsAsErrors :: bool
  DeprecatedWarningsAsErrors :: bool

text \<open>The messages displayed, and the flags of \<open>cmSystemTools\<close> that they set.\<close>

record console =
  displayed :: "(MessageType \<times> byte list \<times> cmListFileBacktrace) list"
  ErrorOccured :: bool
  FatalErrorOccured :: bool

definition ConvertMessageType :: "cmMessenger \<Rightarrow> MessageType \<Rightarrow> MessageType" where
  "ConvertMessageType m t =
     (if t = AUTHOR_WARNING \<or> t = AUTHOR_ERROR
      then if DevWarningsAsErrors m \<and> t = AUTHOR_WARNING then AUTHOR_ERROR
           else if \<not> DevWarningsAsErrors m \<and> t = AUTHOR_ERROR then AUTHOR_WARNING else t
      else if t = DEPRECATION_WARNING \<or> t = DEPRECATION_ERROR
      then if DeprecatedWarningsAsErrors m \<and> t = DEPRECATION_WARNING then DEPRECATION_ERROR
           else if \<not> DeprecatedWarningsAsErrors m \<and> t = DEPRECATION_ERROR then DEPRECATION_WARNING else t
      else t)"

definition IsMessageTypeVisible :: "cmMessenger \<Rightarrow> MessageType \<Rightarrow> bool" where
  "IsMessageTypeVisible m t =
     (if t = DEPRECATION_ERROR then DeprecatedWarningsAsErrors m
      else if t = DEPRECATION_WARNING then \<not> SuppressDeprecatedWarnings m
      else if t = AUTHOR_ERROR then DevWarningsAsErrors m
      else if t = AUTHOR_WARNING then \<not> SuppressDevWarnings m
      else True)"

text \<open>What is displayed is recorded with its type and context instead of the formatted text.\<close>

definition DisplayMessage :: "MessageType \<Rightarrow> byte list \<Rightarrow> cmListFileBacktrace \<Rightarrow> console \<Rightarrow> console" where
  "DisplayMessage t msg bt c = c\<lparr>displayed := displayed c @ [(t, msg, bt)],
     ErrorOccured := ErrorOccured c \<or> t = FATAL_ERROR \<or> t = INTERNAL_ERROR \<or> t = DEPRECATION_ERROR \<or> t = AUTHOR_ERROR\<rparr>"

definition IssueMessage :: "cmMessenger \<Rightarrow> MessageType \<Rightarrow> byte list \<Rightarrow> cmListFileBacktrace \<Rightarrow> console \<Rightarrow> console" where
  "IssueMessage m t msg bt c =
     (let override = ConvertMessageType m t; force = (override \<noteq> t); t = override
      in if \<not> force \<and> \<not> IsMessageTypeVisible m t then c else DisplayMessage t msg bt c)"

definition SetFatalErrorOccured :: "console \<Rightarrow> console" where
  "SetFatalErrorOccured c = c\<lparr>FatalErrorOccured := True\<rparr>"

end
