(* ===== verification/Variables.thy ===== *)
theory Variables
  imports StringAlgorithms ListFileContext
begin

text \<open>
  The evaluation of arguments (\<^verbatim>\<open>cmMakefile.cxx\<close>): references to variables in a string are replaced by the values
  of the variables, by a loop over the string with a stack of open references, and the arguments of a command are
  expanded to lists.  The string is the list of its bytes with its terminator, and a pointer into it is an index;
  \<^term>\<open>None\<close> is a read outside the string, another call with undefined behaviour, or a loop that does not end.
\<close>

section \<open>The makefile\<close>

text \<open>
  What the evaluation uses of a makefile.  The values of variables, of the environment and of the cache are functions
  of the names, and so is whether a variable was initialised and a file belongs to the project.
\<close>

datatype PolicyStatus = PS_OLD | PS_WARN | PS_NEW | PS_REQUIRED_IF_USED | PS_REQUIRED_ALWAYS

record cmMakefile =
  mk_definitions :: "byte list \<Rightarrow> byte list option"
  mk_environment :: "byte list \<Rightarrow> byte list option"
  mk_cache :: "byte list \<Rightarrow> byte list option"
  mk_backtrace :: cmListFileBacktrace
  mk_messenger :: cmMessenger
  mk_console :: console
  mk_CMP0053 :: PolicyStatus
  mk_NestedError :: "bool option"
  SuppressSideEffects :: bool
  mk_WarnUninitialized :: bool
  mk_initialized :: "byte list \<Rightarrow> bool"
  CheckSystemVars :: bool
  mk_project_file :: "byte list \<Rightarrow> bool"
  CMP0054ReportedIds :: "cmListFileContext list"

definition makefile_IssueMessage :: "MessageType \<Rightarrow> byte list \<Rightarrow> cmMakefile \<Rightarrow> cmMakefile" where
  "makefile_IssueMessage t msg mk =
     (let mk = (if mk_NestedError mk \<noteq> None \<and> (t = FATAL_ERROR \<or> t = INTERNAL_ERROR) then mk\<lparr>mk_NestedError := Some True\<rparr> else mk)
      in mk\<lparr>mk_console := IssueMessage (mk_messenger mk) t msg (mk_backtrace mk) (mk_console mk)\<rparr>)"

definition MaybeWarnUninitialized :: "byte list \<Rightarrow> byte list option \<Rightarrow> cmMakefile \<Rightarrow> cmMakefile" where
  "MaybeWarnUninitialized variable sourceFilename mk =
     (if mk_WarnUninitialized mk \<and> \<not> mk_initialized mk variable
        \<and> (CheckSystemVars mk \<or> (case sourceFilename of Some f \<Rightarrow> mk_project_file mk f | None \<Rightarrow> False))
      then makefile_IssueMessage AUTHOR_WARNING (ascii ''uninitialized variable '' @ [0x27] @ variable @ [0x27]) mk else mk)"

section \<open>References in a string\<close>

datatype t_domain = NORMAL | ENVIRONMENT | CACHE

record t_lookup =
  domain :: t_domain
  loc :: nat

text \<open>The parameters of the call, and the local variables of the loop; the stack has its back first.\<close>

record expand_mode =
  escapeQuotes :: bool
  noEscapes :: bool
  atOnly :: bool
  replaceAt :: bool
  mode_filename :: "byte list option"

record expansion =
  in_at :: nat
  last_at :: nat
  ex_result :: "byte list"
  openstack :: "t_lookup list"
  ex_error :: bool
  ex_done :: bool
  errorstr :: "byte list"
  ex_line :: int

definition is_alnum :: "byte \<Rightarrow> bool" where
  "is_alnum c \<longleftrightarrow> 0x30 \<le> c \<and> c \<le> 0x39 \<or> 0x41 \<le> c \<and> c \<le> 0x5A \<or> 0x61 \<le> c \<and> c \<le> 0x7A"

definition name_char :: "byte \<Rightarrow> bool" where
  "name_char c \<longleftrightarrow> is_alnum c \<or> c \<in> {0x5F, 0x2F, 0x2E, 0x2B, 0x2D}"

definition char_at :: "byte list \<Rightarrow> nat \<Rightarrow> byte option" where
  "char_at t i = (if i < length t then Some (t ! i) else None)"

text \<open>The C string at a position, and \<open>result.append(last, p - last)\<close>.\<close>

definition string_at :: "byte list \<Rightarrow> nat \<Rightarrow> byte list" where
  "string_at t i = takeWhile (\<lambda>c. c \<noteq> 0) (drop i t)"

definition append_to :: "byte list \<Rightarrow> nat \<Rightarrow> expansion \<Rightarrow> expansion option" where
  "append_to t p e =
     (if last_at e \<le> p \<and> p \<le> length t
      then Some (e\<lparr>ex_result := ex_result e @ take (p - last_at e) (drop (last_at e) t)\<rparr>) else None)"

definition lineVar :: "byte list" where "lineVar = ascii ''CMAKE_CURRENT_LIST_LINE''"

text \<open>What is done for a name without a value.\<close>

definition no_value :: "expand_mode \<Rightarrow> byte list \<Rightarrow> cmMakefile \<Rightarrow> cmMakefile" where
  "no_value m name mk = (if SuppressSideEffects mk then mk else MaybeWarnUninitialized name (mode_filename m) mk)"

lemma no_value_backtrace [simp]: "mk_backtrace (no_value m name mk) = mk_backtrace mk"
  by (simp add: no_value_def MaybeWarnUninitialized_def makefile_IssueMessage_def Let_def)

text \<open>The value of a variable, if it has one, and the text that stands for it otherwise.\<close>

definition lookup_variable :: "expand_mode \<Rightarrow> int \<Rightarrow> t_domain \<Rightarrow> byte list \<Rightarrow> cmMakefile \<Rightarrow> (byte list option \<times> byte list) option" where
  "lookup_variable m ln d name mk =
     (case d of
        NORMAL \<Rightarrow>
          if mode_filename m \<noteq> None \<and> name = lineVar
          then do { top \<leftarrow> Top (mk_backtrace mk);
                    Some (None, case ctx_DeferId top of Some i \<Rightarrow> ascii ''DEFERRED:'' @ i | None \<Rightarrow> int_chars ln) }
          else Some (mk_definitions mk name, [])
      | ENVIRONMENT \<Rightarrow> Some (mk_environment mk name, [])
      | CACHE \<Rightarrow> Some (mk_cache mk name, []))"

definition close_reference :: "expand_mode \<Rightarrow> byte list \<Rightarrow> expansion \<times> cmMakefile \<Rightarrow> (expansion \<times> cmMakefile) option" where
  "close_reference m t = (\<lambda>(e, mk).
     case openstack e of
       [] \<Rightarrow> Some (e, mk)
     | var # vars \<Rightarrow>
         do { e \<leftarrow> append_to t (in_at e) (e\<lparr>openstack := vars\<rparr>);
              if length (ex_result e) < loc var then None
              else do {
                let lookup = drop (loc var) (ex_result e);
                (value, varresult) \<leftarrow> lookup_variable m (ex_line e) (domain var) lookup mk;
                let varresult = (case value of None \<Rightarrow> varresult | Some v \<Rightarrow> if escapeQuotes m then cmEscapeQuotes v else v);
                Some (e\<lparr>ex_result := take (loc var) (ex_result e) @ varresult, last_at := in_at e + 1\<rparr>,
                  if value = None then no_value m lookup mk else mk) } })"

text \<open>An open reference begins after \<open>n\<close> characters.\<close>

definition begin_reference :: "byte list \<Rightarrow> t_domain \<Rightarrow> nat \<Rightarrow> expansion \<Rightarrow> expansion option" where
  "begin_reference t d n e =
     do { e' \<leftarrow> append_to t (in_at e) e;
          Some (e'\<lparr>last_at := in_at e + n, in_at := in_at e + n - 1,
            openstack := \<lparr>domain = d, loc = length (ex_result e')\<rparr> # openstack e\<rparr>) }"

definition dollar :: "byte list \<Rightarrow> expansion \<Rightarrow> expansion option" where
  "dollar t e =
     do { nextc \<leftarrow> char_at t (in_at e + 1);
          let next_text = string_at t (in_at e + 1);
          let named = takeWhile name_char next_text;
          if nextc = 0x7B then begin_reference t NORMAL 2 e
          else if nextc = 0x3C then Some e
          else if nextc = 0 then do { e \<leftarrow> append_to t (in_at e + 1) e; Some (e\<lparr>last_at := in_at e + 1\<rparr>) }
          else if take 4 next_text = ascii ''ENV{'' then begin_reference t ENVIRONMENT 5 e
          else if take 6 next_text = ascii ''CACHE{'' then begin_reference t CACHE 7 e
          else if named \<noteq> [] \<and> take 1 (drop (length named) next_text) = [0x7B]
          then Some (e\<lparr>errorstr := ascii ''Syntax $'' @ named @ [0x7B]
            @ ascii ''{} is not supported.  Only ${}, $ENV{}, and $CACHE{} are allowed.'', ex_error := True\<rparr>)
          else Some e }"

definition escape_char :: "expand_mode \<Rightarrow> byte list \<Rightarrow> expansion \<Rightarrow> expansion option" where
  "escape_char m t e =
     (if noEscapes m then Some e
      else do {
        nextc \<leftarrow> char_at t (in_at e + 1);
        e \<leftarrow> (if nextc = 0x74 \<or> nextc = 0x6E \<or> nextc = 0x72
              then do { e \<leftarrow> append_to t (in_at e) e;
                        let c = (if nextc = 0x74 then 0x09 else if nextc = 0x6E then 0x0A else 0x0D);
                        Some (e\<lparr>ex_result := ex_result e @ [c], last_at := in_at e + 2\<rparr>) }
              else if nextc = 0x3B \<and> openstack e = [] then Some e
              else if is_alnum nextc \<or> nextc = 0
              then Some (e\<lparr>errorstr := errorstr e @ ascii ''Invalid character escape '' @ [0x27, 0x5C]
                     @ (if nextc \<noteq> 0 then [nextc, 0x27] @ ascii ''.'' else [0x27] @ ascii '' (at end of input).''), ex_error := True\<rparr>)
              else do { e \<leftarrow> append_to t (in_at e) e; Some (e\<lparr>last_at := in_at e + 1\<rparr>) });
        c \<leftarrow> char_at t (last_at e);
        Some (if c \<noteq> 0 then e\<lparr>in_at := in_at e + 1\<rparr> else e) })"

definition plain_char :: "byte list \<Rightarrow> byte \<Rightarrow> expansion \<Rightarrow> expansion option" where
  "plain_char t inc e =
     (case openstack e of
        [] \<Rightarrow> Some e
      | var # vars \<Rightarrow>
          if name_char inc then Some e
          else do { e' \<leftarrow> append_to t (in_at e) e;
                    if length (ex_result e') < loc var then None
                    else Some (e'\<lparr>errorstr := errorstr e @ ascii ''Invalid character ('' @ [0x27, inc, 0x27] @ ascii '') in a variable name: ''
                      @ [0x27] @ drop (loc var) (ex_result e') @ [0x27], ex_error := True\<rparr>) })"

text \<open>\<open>@VAR@\<close>, when it is asked for and the name is one.\<close>

definition at_sign :: "expand_mode \<Rightarrow> byte list \<Rightarrow> expansion \<times> cmMakefile \<Rightarrow> (expansion \<times> cmMakefile) option" where
  "at_sign m t = (\<lambda>(e, mk).
     let next_text = string_at t (in_at e + 1); variable = takeWhile (\<lambda>c. c \<noteq> 0x40) next_text
     in if replaceAt m \<and> 0x40 \<in> set next_text \<and> variable \<noteq> [] \<and> list_all name_char variable
        then let (varresult, mk) = (if mode_filename m \<noteq> None \<and> variable = lineVar then (int_chars (ex_line e), mk)
                   else case mk_definitions mk variable of Some v \<Rightarrow> (v, mk) | None \<Rightarrow> ([], no_value m variable mk));
                 varresult = (if escapeQuotes m then cmEscapeQuotes varresult else varresult)
             in do { e \<leftarrow> append_to t (in_at e) e;
                     let nextAt = in_at e + 1 + length variable;
                     Some (e\<lparr>ex_result := ex_result e @ varresult, in_at := nextAt, last_at := nextAt + 1\<rparr>, mk) }
        else do { e \<leftarrow> plain_char t 0x40 e; Some (e, mk) })"

text \<open>One turn of the loop.\<close>

definition expand_step :: "expand_mode \<Rightarrow> byte list \<Rightarrow> expansion \<times> cmMakefile \<Rightarrow> (expansion \<times> cmMakefile) option" where
  "expand_step m t = (\<lambda>(e, mk).
     do { inc \<leftarrow> char_at t (in_at e);
          let pure = map_option (\<lambda>e. (e, mk));
          if inc = 0x7D then close_reference m t (e, mk)
          else if inc = 0x24 \<and> \<not> atOnly m then pure (dollar t e)
          else if inc = 0x24 \<or> inc = 0x5C then pure (escape_char m t e)
          else if inc = 0x0A then Some (e\<lparr>ex_line := ex_line e + 1\<rparr>, mk)
          else if inc = 0 then Some (e\<lparr>ex_done := True\<rparr>, mk)
          else if inc = 0x40 then at_sign m t (e, mk)
          else pure (plain_char t inc e) })"

partial_function (option) expand_steps :: "expand_mode \<Rightarrow> byte list \<Rightarrow> expansion \<times> cmMakefile \<Rightarrow> (expansion \<times> cmMakefile) option" where
  "expand_steps m t s =
     do { (e, mk) \<leftarrow> expand_step m t s;
          if ex_error e \<or> ex_done e then Some (e, mk)
          else do { let e = e\<lparr>in_at := in_at e + 1\<rparr>;
                    c \<leftarrow> char_at t (in_at e);
                    if c \<noteq> 0 then expand_steps m t (e, mk) else Some (e, mk) } }"

definition syntax_error :: "expand_mode \<Rightarrow> int \<Rightarrow> byte list \<Rightarrow> byte list \<Rightarrow> byte list" where
  "syntax_error m ln source msg =
     ascii ''Syntax error in cmake code ''
       @ (case mode_filename m of Some f \<Rightarrow> ascii ''at'' @ [0x0A] @ ascii ''  '' @ f @ ascii '':'' @ int_chars ln @ [0x0A] | None \<Rightarrow> [])
       @ ascii ''when parsing string'' @ [0x0A] @ ascii ''  '' @ source @ [0x0A] @ msg"

text \<open>The type of the message, the message, and the string.\<close>

definition ExpandVariablesInStringNew ::
  "expand_mode \<Rightarrow> int \<Rightarrow> byte list \<Rightarrow> cmMakefile \<Rightarrow> (MessageType \<times> byte list \<times> byte list \<times> cmMakefile) option" where
  "ExpandVariablesInStringNew m ln source mk =
     do { let t = source @ [0];
          (e, mk) \<leftarrow> expand_steps m t (\<lparr>in_at = 0, last_at = 0, ex_result = [], openstack = [], ex_error = False, ex_done = False,
            errorstr = [], ex_line = ln\<rparr>, mk);
          let e = (if \<not> ex_error e \<and> openstack e \<noteq> []
                   then e\<lparr>errorstr := errorstr e @ ascii ''There is an unterminated variable reference.'', ex_error := True\<rparr> else e);
          if ex_error e then Some (FATAL_ERROR, syntax_error m (ex_line e) source (errorstr e), source, mk)
          else if length t \<le> last_at e then None
          else Some (LOG, errorstr e, ex_result e @ string_at t (last_at e), mk) }"

section \<open>Strings under the policy\<close>

text \<open>
  Policy CMP0053 selects the old evaluation, with a generated parser, which is the parameter \<open>old\<close>, or the one above;
  \<open>warning\<close> is the text of the policy's warning.
\<close>

type_synonym old_evaluation = "expand_mode \<Rightarrow> int \<Rightarrow> bool \<Rightarrow> byte list \<Rightarrow> cmMakefile \<Rightarrow> MessageType \<times> byte list \<times> byte list \<times> cmMakefile"

definition indent_lines :: "byte list \<Rightarrow> byte list" where
  "indent_lines s = concat (map (\<lambda>c. if c = 0x0A then [0x0A, 0x20, 0x20] else [c]) s)"

definition difference_warning :: "byte list \<Rightarrow> byte list \<Rightarrow> byte list \<Rightarrow> (MessageType \<times> byte list \<times> byte list) \<Rightarrow> byte list" where
  "difference_warning warning original source = (\<lambda>(newError, newErrorstr, newResult).
     warning @ [0x0A] @ ascii ''For input:'' @ [0x0A] @ ascii ''  '' @ [0x27] @ indent_lines original @ [0x27, 0x0A]
       @ ascii ''the old evaluation rules produce:'' @ [0x0A] @ ascii ''  '' @ [0x27] @ indent_lines source @ [0x27, 0x0A]
       @ (if newError = LOG
          then ascii ''but the new evaluation rules produce:'' @ [0x0A] @ ascii ''  '' @ [0x27] @ indent_lines newResult @ [0x27, 0x0A]
          else ascii ''but the new evaluation rules produce an error:'' @ [0x0A] @ ascii ''  '' @ indent_lines newErrorstr @ [0x0A])
       @ ascii ''Using the old result for compatibility since the policy is not set.'')"

definition ExpandVariablesInString ::
  "old_evaluation \<Rightarrow> byte list \<Rightarrow> expand_mode \<Rightarrow> int \<Rightarrow> bool \<Rightarrow> byte list \<Rightarrow> cmMakefile \<Rightarrow> (byte list \<times> cmMakefile) option" where
  "ExpandVariablesInString old warning m ln removeEmpty source mk =
     (if atOnly m \<and> (\<not> noEscapes m \<or> \<not> removeEmpty)
      then Some (source, makefile_IssueMessage INTERNAL_ERROR
        (ascii ''ExpandVariablesInString @ONLY called on something with escapes.'') mk)
      else do {
        (new, mk) \<leftarrow> (if mk_CMP0053 mk = PS_WARN
          then do { (newError, newErrorstr, newResult, mk) \<leftarrow> ExpandVariablesInStringNew m ln source (mk\<lparr>SuppressSideEffects := True\<rparr>);
                    Some (Some (newError, newErrorstr, newResult), mk\<lparr>SuppressSideEffects := False\<rparr>) }
          else Some (None, mk));
        (mtype, errorstr, result, mk) \<leftarrow> (if mk_CMP0053 mk = PS_OLD \<or> mk_CMP0053 mk = PS_WARN
          then Some (old (m\<lparr>replaceAt := True\<rparr>) ln removeEmpty source mk)
          else ExpandVariablesInStringNew m ln source mk);
        if mtype \<noteq> LOG
        then let mk = (if mtype = FATAL_ERROR then mk\<lparr>mk_console := SetFatalErrorOccured (mk_console mk)\<rparr> else mk)
             in Some (result, makefile_IssueMessage mtype errorstr mk)
        else case new of
               None \<Rightarrow> Some (result, mk)
             | Some (newError, newErrorstr, newResult) \<Rightarrow>
                 if newResult \<noteq> result \<or> newError \<noteq> mtype
                 then Some (result, makefile_IssueMessage AUTHOR_WARNING
                   (difference_warning warning source result (newError, newErrorstr, newResult)) mk)
                 else Some (result, mk) })"

section \<open>Arguments of commands\<close>

definition argument_mode :: "byte list \<Rightarrow> expand_mode" where
  "argument_mode filename = \<lparr>escapeQuotes = False, noEscapes = False, atOnly = False, replaceAt = False, mode_filename = Some filename\<rparr>"

fun expand_arguments ::
  "old_evaluation \<Rightarrow> byte list \<Rightarrow> byte list \<Rightarrow> cmListFileArgument list \<Rightarrow> byte list list \<Rightarrow> cmMakefile \<Rightarrow> (byte list list \<times> cmMakefile) option" where
  "expand_arguments old warning filename [] outArgs mk = Some (outArgs, mk)"
| "expand_arguments old warning filename (i # inArgs) outArgs mk =
     (if arg_Delim i = Bracket then expand_arguments old warning filename inArgs (outArgs @ [arg_Value i]) mk
      else do { (val, mk) \<leftarrow> ExpandVariablesInString old warning (argument_mode filename) (arg_Line i) False (arg_Value i) mk;
                expand_arguments old warning filename inArgs
                  (if arg_Delim i = Quoted then outArgs @ [val] else cmExpandList val outArgs False) mk })"

definition ExpandArguments ::
  "old_evaluation \<Rightarrow> byte list \<Rightarrow> cmListFileArgument list \<Rightarrow> byte list list \<Rightarrow> cmMakefile \<Rightarrow> (bool \<times> byte list list \<times> cmMakefile) option" where
  "ExpandArguments old warning inArgs outArgs mk =
     do { top \<leftarrow> Top (mk_backtrace mk);
          (outArgs, mk) \<leftarrow> expand_arguments old warning (ctx_FilePath top) inArgs outArgs mk;
          Some (\<not> FatalErrorOccured (mk_console mk), outArgs, mk) }"

text \<open>The variant for \<open>if\<close> and \<open>while\<close>, which keeps whether an argument was quoted.\<close>

record cmExpandedCommandArgument =
  ex_Value :: "byte list"
  ex_Quoted :: bool

fun expand_condition_arguments ::
  "old_evaluation \<Rightarrow> byte list \<Rightarrow> byte list \<Rightarrow> cmListFileArgument list \<Rightarrow> cmExpandedCommandArgument list \<Rightarrow> cmMakefile
     \<Rightarrow> (cmExpandedCommandArgument list \<times> cmMakefile) option" where
  "expand_condition_arguments old warning filename [] outArgs mk = Some (outArgs, mk)"
| "expand_condition_arguments old warning filename (i # inArgs) outArgs mk =
     (if arg_Delim i = Bracket
      then expand_condition_arguments old warning filename inArgs (outArgs @ [\<lparr>ex_Value = arg_Value i, ex_Quoted = True\<rparr>]) mk
      else do { (val, mk) \<leftarrow> ExpandVariablesInString old warning (argument_mode filename) (arg_Line i) False (arg_Value i) mk;
                expand_condition_arguments old warning filename inArgs
                  (outArgs @ (if arg_Delim i = Quoted then [\<lparr>ex_Value = val, ex_Quoted = True\<rparr>]
                     else map (\<lambda>s. \<lparr>ex_Value = s, ex_Quoted = False\<rparr>) (cmExpandedList val False))) mk })"

definition ExpandArguments_condition ::
  "old_evaluation \<Rightarrow> byte list \<Rightarrow> cmListFileArgument list \<Rightarrow> cmExpandedCommandArgument list \<Rightarrow> cmMakefile
     \<Rightarrow> (bool \<times> cmExpandedCommandArgument list \<times> cmMakefile) option" where
  "ExpandArguments_condition old warning inArgs outArgs mk =
     do { top \<leftarrow> Top (mk_backtrace mk);
          (outArgs, mk) \<leftarrow> expand_condition_arguments old warning (ctx_FilePath top) inArgs outArgs mk;
          Some (\<not> FatalErrorOccured (mk_console mk), outArgs, mk) }"

text \<open>The quoted argument that generated files have for a string (\<^verbatim>\<open>cmOutputConverter.cxx\<close>).\<close>

fun escape_for_cmake :: "byte list \<Rightarrow> byte list" where
  "escape_for_cmake [] = []"
| "escape_for_cmake (c # str) =
     (if c = 0x22 then [0x5C, 0x22] else if c = 0x24 then [0x5C, 0x24] else if c = 0x5C then [0x5C, 0x5C] else [c]) @ escape_for_cmake str"

definition EscapeForCMake :: "byte list \<Rightarrow> byte list" where
  "EscapeForCMake str = [0x22] @ escape_for_cmake str @ [0x22]"

end
