(* ===== verification/VariablesLoop.thy ===== *)
theory VariablesLoop
  imports Variables
begin

text \<open>
  The loop that expands references (\<^verbatim>\<open>cmMakefile.cxx\<close>) ends on every string, and reads only the string: what its
  local variables keep, and that every turn advances.
\<close>

section \<open>What the local variables keep\<close>

text \<open>
  The text that was taken ends at the current character, except after an escape sequence at the end of the string,
  when the letter of the sequence is read again.
\<close>

definition taken_ok :: "byte list \<Rightarrow> expansion \<Rightarrow> bool" where
  "taken_ok t e \<longleftrightarrow> last_at e \<le> in_at e
     \<or> last_at e = in_at e + 1 \<and> t ! in_at e \<in> {0x74, 0x6E, 0x72} \<and> t ! (in_at e + 1) = 0 \<and> in_at e + 1 < length t"

definition stack_ok :: "expansion \<Rightarrow> bool" where
  "stack_ok e \<longleftrightarrow> sorted (map loc (rev (openstack e))) \<and> (\<forall>v\<in>set (openstack e). loc v \<le> length (ex_result e))"

definition local_ok :: "byte list \<Rightarrow> expansion \<Rightarrow> bool" where
  "local_ok t e \<longleftrightarrow> in_at e < length t \<and> taken_ok t e \<and> stack_ok e"

lemma append_to_defined:
  assumes "last_at e \<le> p" and "p \<le> length t"
  shows "append_to t p e = Some (e\<lparr>ex_result := ex_result e @ take (p - last_at e) (drop (last_at e) t)\<rparr>)"
  using assms by (simp add: append_to_def)

lemma stack_ok_simps [simp]:
  "stack_ok (e\<lparr>in_at := i\<rparr>) = stack_ok e" "stack_ok (e\<lparr>last_at := i\<rparr>) = stack_ok e" "stack_ok (e\<lparr>ex_line := l\<rparr>) = stack_ok e"
  "stack_ok (e\<lparr>errorstr := s\<rparr>) = stack_ok e" "stack_ok (e\<lparr>ex_error := b\<rparr>) = stack_ok e"
  by (simp_all add: stack_ok_def)

lemma stack_ok_append: "stack_ok e \<Longrightarrow> stack_ok (e\<lparr>ex_result := ex_result e @ s\<rparr>)"
  by (auto simp: stack_ok_def)

lemma stack_ok_push: "stack_ok e \<Longrightarrow> stack_ok (e\<lparr>openstack := \<lparr>domain = d, loc = length (ex_result e)\<rparr> # openstack e\<rparr>)"
  by (auto simp: stack_ok_def sorted_append)

lemma stack_ok_pop:
  "stack_ok e \<Longrightarrow> openstack e = v # vs \<Longrightarrow> stack_ok (e\<lparr>openstack := vs, ex_result := take (loc v) (ex_result e) @ s\<rparr>)"
  by (fastforce simp: stack_ok_def sorted_append)

section \<open>Every turn is defined and advances\<close>

text \<open>
  A turn at a character that is not the terminator: it reports an error, or leaves the position at a character that is
  not the terminator.
\<close>

definition turned :: "byte list \<Rightarrow> nat \<Rightarrow> expansion \<Rightarrow> bool" where
  "turned t i e \<longleftrightarrow> ex_error e \<or> \<not> ex_done e \<and> i \<le> in_at e \<and> in_at e < length t \<and> t ! in_at e \<noteq> 0 \<and> stack_ok e
     \<and> (last_at e \<le> in_at e + 1 \<or> last_at e = in_at e + 2 \<and> t ! (in_at e + 1) \<in> {0x74, 0x6E, 0x72} \<and> in_at e + 2 < length t \<and> t ! (in_at e + 2) = 0)"

text \<open>A string with a terminator at its end.\<close>

definition terminated :: "byte list \<Rightarrow> bool" where
  "terminated t \<longleftrightarrow> t \<noteq> [] \<and> last t = 0"

lemma terminated_next: "terminated t \<Longrightarrow> i < length t \<Longrightarrow> t ! i \<noteq> 0 \<Longrightarrow> i + 1 < length t"
  unfolding terminated_def by (metis Suc_eq_plus1 last_conv_nth Suc_lessI diff_Suc_1)

lemma string_at_take:
  assumes "terminated t" and "i < length t" and "take n (string_at t i) = s" and "length s = n" and "j < n"
  shows "i + j < length t" and "t ! (i + j) = s ! j" and "t ! (i + j) \<noteq> 0"
proof -
  have "j < length (string_at t i)" using assms(3-5) by auto
  then have j: "j < length (takeWhile (\<lambda>c. c \<noteq> 0) (drop i t))" by (simp add: string_at_def)
  then have "j < length (drop i t)" using length_takeWhile_le [of "\<lambda>c. c \<noteq> 0" "drop i t"] by simp
  then show "i + j < length t" by simp
  have "s ! j = string_at t i ! j" using assms(3,5) by auto
  then show v: "t ! (i + j) = s ! j" using j \<open>i + j < length t\<close> by (simp add: string_at_def takeWhile_nth)
  have "string_at t i ! j \<in> set (string_at t i)" using j by (simp add: string_at_def)
  then have "string_at t i ! j \<noteq> 0" unfolding string_at_def using set_takeWhileD by fastforce
  with v \<open>s ! j = string_at t i ! j\<close> show "t ! (i + j) \<noteq> 0" by simp
qed

lemma letters_name: "c \<in> {0x74, 0x6E, 0x72} \<Longrightarrow> name_char c"
  by (auto simp: name_char_def is_alnum_def)

text \<open>What a turn starts from, at a character \<open>c\<close>.\<close>

definition turning :: "byte list \<Rightarrow> byte \<Rightarrow> expansion \<Rightarrow> bool" where
  "turning t c e \<longleftrightarrow> terminated t \<and> local_ok t e \<and> t ! in_at e = c \<and> c \<noteq> 0 \<and> \<not> ex_error e \<and> \<not> ex_done e"

lemma turningD:
  assumes "turning t c e"
  shows "in_at e < length t" "in_at e + 1 < length t" "stack_ok e" "\<not> ex_error e" "\<not> ex_done e" "c \<noteq> 0" "t ! in_at e = c"
    and "c \<notin> {0x74, 0x6E, 0x72} \<Longrightarrow> last_at e \<le> in_at e"
    and "char_at t (in_at e + 1) = Some (t ! (in_at e + 1))" "terminated t"
    and "last_at e \<le> in_at e \<or> last_at e = in_at e + 1 \<and> c \<in> {0x74, 0x6E, 0x72} \<and> t ! (in_at e + 1) = 0"
  using assms terminated_next [of t "in_at e"] by (auto simp: turning_def local_ok_def taken_ok_def char_at_def)

lemma turned_stay: "turning t c e \<Longrightarrow> last_at e \<le> in_at e + 1 \<Longrightarrow> turned t (in_at e) e"
  by (auto simp: turned_def dest: turningD)

lemma plain_turned:
  assumes "turning t c e"
  shows "\<exists>e'. plain_char t c e = Some e' \<and> turned t (in_at e) e'"
proof (cases "openstack e = [] \<or> name_char c")
  case True
  then have "plain_char t c e = Some e" by (auto simp: plain_char_def split: list.splits)
  moreover have "turned t (in_at e) e" using turned_stay [OF assms] turningD(11) [OF assms] by auto
  ultimately show ?thesis by blast
next
  case False
  then obtain v vs where v: "openstack e = v # vs" "\<not> name_char c" by (cases "openstack e") auto
  then have "last_at e \<le> in_at e" using turningD(8) [OF assms] letters_name by blast
  moreover have "loc v \<le> length (ex_result e)" using turningD(3) [OF assms] v(1) by (simp add: stack_ok_def)
  ultimately show ?thesis using v turningD(1) [OF assms] by (auto simp: plain_char_def append_to_def turned_def)
qed

lemma lookup_defined:
  assumes "mode_filename m = None \<or> Top (mk_backtrace mk) \<noteq> None"
  shows "\<exists>v s. lookup_variable m ln d name mk = Some (v, s)"
proof (cases d)
  case NORMAL
  show ?thesis
  proof (cases "mode_filename m \<noteq> None \<and> name = lineVar")
    case True
    with assms obtain c where "Top (mk_backtrace mk) = Some c" by auto
    with NORMAL True show ?thesis by (simp add: lookup_variable_def)
  next
    case False
    with NORMAL show ?thesis by (simp only: lookup_variable_def t_domain.case if_False) blast
  qed
qed (simp_all add: lookup_variable_def)

lemma close_turned:
  assumes "turning t 0x7D e" and "mode_filename m = None \<or> Top (mk_backtrace mk) \<noteq> None"
  shows "\<exists>e' mk'. close_reference m t (e, mk) = Some (e', mk') \<and> turned t (in_at e) e' \<and> mk_backtrace mk' = mk_backtrace mk"
proof (cases "openstack e")
  case Nil
  have "last_at e \<le> in_at e" using turningD(8) [OF assms(1)] by simp
  with Nil turned_stay [OF assms(1)] show ?thesis by (simp add: close_reference_def)
next
  case (Cons v vs)
  let ?e = "e\<lparr>openstack := vs, ex_result := ex_result e @ take (in_at e - last_at e) (drop (last_at e) t)\<rparr>"
  have l: "last_at e \<le> in_at e" using turningD(8) [OF assms(1)] by simp
  then have a: "append_to t (in_at e) (e\<lparr>openstack := vs\<rparr>) = Some ?e"
    using turningD(1) [OF assms(1)] by (simp add: append_to_def)
  have locv: "loc v \<le> length (ex_result e)" using turningD(3) [OF assms(1)] Cons by (simp add: stack_ok_def)
  obtain def_value other where look: "lookup_variable m (ex_line e) (domain v) (drop (loc v) (ex_result ?e)) mk = Some (def_value, other)"
    using lookup_defined [OF assms(2)] by blast
  have "stack_ok (?e\<lparr>openstack := openstack e\<rparr>)" using turningD(3) [OF assms(1)] Cons by (auto simp: stack_ok_def)
  from stack_ok_pop [OF this, of v vs] Cons have st: "stack_ok (?e\<lparr>ex_result := take (loc v) (ex_result ?e) @ s\<rparr>)" for s by simp
  let ?s = "case def_value of None \<Rightarrow> other | Some v \<Rightarrow> if escapeQuotes m then cmEscapeQuotes v else v"
  let ?e' = "?e\<lparr>ex_result := take (loc v) (ex_result ?e) @ ?s, last_at := in_at e + 1\<rparr>"
  let ?mk = "if def_value = None then no_value m (drop (loc v) (ex_result ?e)) mk else mk"
  have "close_reference m t (e, mk) = Some (?e', ?mk)" using Cons a locv look by (simp add: close_reference_def)
  moreover have "turned t (in_at e) ?e'" using turningD [OF assms(1)] st [of ?s] by (simp add: turned_def)
  moreover have "mk_backtrace ?mk = mk_backtrace mk" by simp
  ultimately show ?thesis by blast
qed

lemma begin_turned:
  assumes "turning t c e" and "last_at e \<le> in_at e" and "0 < n" and "in_at e + n - 1 < length t" and "t ! (in_at e + n - 1) \<noteq> 0"
  shows "\<exists>e'. begin_reference t d n e = Some e' \<and> turned t (in_at e) e'"
proof -
  let ?r = "ex_result e @ take (in_at e - last_at e) (drop (last_at e) t)"
  let ?e = "e\<lparr>ex_result := ?r, last_at := in_at e + n, in_at := in_at e + n - 1, openstack := \<lparr>domain = d, loc = length ?r\<rparr> # openstack e\<rparr>"
  have "begin_reference t d n e = Some ?e" using assms(2) turningD(1) [OF assms(1)] by (simp add: begin_reference_def append_to_def)
  moreover have "stack_ok (e\<lparr>ex_result := ?r, openstack := \<lparr>domain = d, loc = length ?r\<rparr> # openstack e\<rparr>)"
    using stack_ok_push [OF stack_ok_append [OF turningD(3) [OF assms(1)], of "take (in_at e - last_at e) (drop (last_at e) t)"], of d] by simp
  then have "stack_ok ?e" by (simp add: stack_ok_def)
  ultimately show ?thesis using assms(3-5) turningD [OF assms(1)] by (auto simp: turned_def)
qed

lemma dollar_turned:
  assumes "turning t 0x24 e"
  shows "\<exists>e'. dollar t e = Some e' \<and> turned t (in_at e) e'"
proof -
  note d = turningD [OF assms]
  have l: "last_at e \<le> in_at e" using d(8) by simp
  let ?c = "t ! (in_at e + 1)" and ?s = "string_at t (in_at e + 1)"
  have stay: "turned t (in_at e) e" using turned_stay [OF assms] l by simp
  note goes = begin_turned [OF assms l]
  have str: "in_at e + 1 + j < length t" "t ! (in_at e + 1 + j) \<noteq> 0" if "take n ?s = s" "length s = n" "j < n" for n s j
    using string_at_take [OF d(10) d(2) that] by simp_all
  consider "?c = 0x7B" | "?c = 0" | "?c \<notin> {0x7B, 0x3C, 0}" "take 4 ?s = ascii ''ENV{''"
    | "?c \<notin> {0x7B, 0x3C, 0}" "take 4 ?s \<noteq> ascii ''ENV{''" "take 6 ?s = ascii ''CACHE{''"
    | "?c = 0x3C \<or> ?c \<notin> {0x7B, 0x3C, 0} \<and> take 4 ?s \<noteq> ascii ''ENV{'' \<and> take 6 ?s \<noteq> ascii ''CACHE{''" by blast
  then show ?thesis
  proof cases
    case 1
    then show ?thesis using goes [of 2 NORMAL] d(2,9) by (simp add: dollar_def)
  next
    case 2
    let ?r = "ex_result e @ take (in_at e + 1 - last_at e) (drop (last_at e) t)"
    have "dollar t e = Some (e\<lparr>ex_result := ?r, last_at := in_at e + 1\<rparr>)" using 2 d(2,9) l by (simp add: dollar_def append_to_def)
    moreover have "stack_ok (e\<lparr>ex_result := ?r, last_at := in_at e + 1\<rparr>)" using stack_ok_append [OF d(3)] by simp
    ultimately show ?thesis using d by (simp add: turned_def)
  next
    case 3
    have "in_at e + 5 - 1 < length t" "t ! (in_at e + 5 - 1) \<noteq> 0" using str [OF 3(2), of 3] by (simp_all add: ascii_def)
    with goes [of 5 ENVIRONMENT] 3 d(9) show ?thesis by (simp add: dollar_def)
  next
    case 4
    have "in_at e + 7 - 1 < length t" "t ! (in_at e + 7 - 1) \<noteq> 0" using str [OF 4(3), of 5] by (simp_all add: ascii_def)
    with goes [of 7 CACHE] 4 d(9) show ?thesis by (simp add: dollar_def)
  next
    case 5
    then have "dollar t e = Some e \<or> (\<exists>s. dollar t e = Some (e\<lparr>errorstr := s, ex_error := True\<rparr>))"
      using d(9) by (auto simp: dollar_def Let_def)
    with stay show ?thesis by (auto simp: turned_def)
  qed
qed

lemma escape_turned:
  assumes "turning t c e" and "c = 0x24 \<or> c = 0x5C"
  shows "\<exists>e'. escape_char m t e = Some e' \<and> turned t (in_at e) e'"
proof -
  note d = turningD [OF assms(1)]
  have l: "last_at e \<le> in_at e" using d(8) assms(2) by auto
  let ?c = "t ! (in_at e + 1)" and ?r = "ex_result e @ take (in_at e - last_at e) (drop (last_at e) t)"
  have a: "append_to t (in_at e) e = Some (e\<lparr>ex_result := ?r\<rparr>)" using l d(1) by (simp add: append_to_def)
  have st: "stack_ok (e\<lparr>ex_result := ?r\<rparr>)" "stack_ok (e\<lparr>ex_result := ?r @ s\<rparr>)" for s
    using stack_ok_append [OF d(3)] by simp_all
  have in0: "t ! in_at e \<noteq> 0" using d(6,7) by simp
  consider "noEscapes m" | "\<not> noEscapes m" "?c \<in> {0x74, 0x6E, 0x72}" | "\<not> noEscapes m" "?c = 0x3B" "openstack e = []"
    | "\<not> noEscapes m" "?c \<notin> {0x74, 0x6E, 0x72}" "is_alnum ?c \<or> ?c = 0" "\<not> (?c = 0x3B \<and> openstack e = [])"
    | "\<not> noEscapes m" "?c \<notin> {0x74, 0x6E, 0x72}" "\<not> is_alnum ?c" "?c \<noteq> 0" "\<not> (?c = 0x3B \<and> openstack e = [])" by blast
  then show ?thesis
  proof cases
    case 1
    then show ?thesis using turned_stay [OF assms(1)] l by (simp add: escape_char_def)
  next
    case 2
    let ?x = "if ?c = 0x74 then 0x09 else if ?c = 0x6E then 0x0A else 0x0D"
    let ?e = "e\<lparr>ex_result := ?r @ [?x], last_at := in_at e + 2\<rparr>"
    have n: "in_at e + 2 < length t" using terminated_next [OF d(10) d(2)] 2(2) by auto
    then have "escape_char m t e = Some (if t ! (in_at e + 2) \<noteq> 0 then ?e\<lparr>in_at := in_at e + 1\<rparr> else ?e)"
      using 2 a d(9) by (auto simp: escape_char_def char_at_def)
    moreover have "stack_ok ?e" using st(2) [of "[?x]"] by simp
    ultimately show ?thesis using 2 n d in0 by (auto simp: turned_def)
  next
    case 3
    then have "escape_char m t e = Some (if t ! last_at e \<noteq> 0 then e\<lparr>in_at := in_at e + 1\<rparr> else e)"
      using l d(1,9) by (simp add: escape_char_def char_at_def)
    then show ?thesis using 3 l d by (auto simp: turned_def)
  next
    case 4
    let ?m = "errorstr e @ ascii ''Invalid character escape '' @ [0x27, 0x5C]
      @ (if ?c \<noteq> 0 then [?c, 0x27] @ ascii ''.'' else [0x27] @ ascii '' (at end of input).'')"
    have "escape_char m t e = Some (let e = e\<lparr>errorstr := ?m, ex_error := True\<rparr> in if t ! last_at e \<noteq> 0 then e\<lparr>in_at := in_at e + 1\<rparr> else e)"
      using 4 l d(1,9) by (auto simp: escape_char_def char_at_def Let_def)
    then show ?thesis by (auto simp: turned_def Let_def)
  next
    case 5
    let ?e = "e\<lparr>ex_result := ?r, last_at := in_at e + 1\<rparr>"
    have "escape_char m t e = Some (?e\<lparr>in_at := in_at e + 1\<rparr>)"
      using 5 a d(2,9) by (auto simp: escape_char_def char_at_def)
    then show ?thesis using 5 st(1) d by (simp add: turned_def)
  qed
qed

lemma at_turned:
  assumes "turning t 0x40 e"
  shows "\<exists>e' mk'. at_sign m t (e, mk) = Some (e', mk') \<and> turned t (in_at e) e' \<and> mk_backtrace mk' = mk_backtrace mk"
proof -
  note d = turningD [OF assms]
  have l: "last_at e \<le> in_at e" using d(8) by simp
  let ?s = "string_at t (in_at e + 1)"
  let ?v = "takeWhile (\<lambda>c. c \<noteq> 0x40) ?s"
  show ?thesis
  proof (cases "replaceAt m \<and> 0x40 \<in> set ?s \<and> ?v \<noteq> [] \<and> list_all name_char ?v")
    case False
    then have "at_sign m t (e, mk) = map_option (\<lambda>e. (e, mk)) (plain_char t 0x40 e)"
      by (cases "plain_char t 0x40 e") (auto simp: at_sign_def Let_def)
    with plain_turned [OF assms] show ?thesis by auto
  next
    case True
    let ?n = "length ?v"
    obtain u w where s: "?s = u @ 0x40 # w" "0x40 \<notin> set u" using True split_list_first [of "0x40" ?s] by blast
    then have "?v = u" by (subst s(1)) (subst takeWhile_append2, auto)
    then have "take (?n + 1) ?s = ?v @ [0x40]" using s(1) by simp
    from string_at_take [OF d(10) d(2) this, of ?n] have at: "in_at e + 1 + ?n < length t" "t ! (in_at e + 1 + ?n) \<noteq> 0"
      by simp_all
    let ?r = "ex_result e @ take (in_at e - last_at e) (drop (last_at e) t)"
    have a: "append_to t (in_at e) e = Some (e\<lparr>ex_result := ?r\<rparr>)" using l d(1) by (simp add: append_to_def)
    obtain x mk' where x: "at_sign m t (e, mk) = Some (e\<lparr>ex_result := ?r @ x, in_at := in_at e + 1 + ?n, last_at := in_at e + 1 + ?n + 1\<rparr>, mk')"
      "mk_backtrace mk' = mk_backtrace mk"
    proof -
      define p where "p = (if mode_filename m \<noteq> None \<and> ?v = lineVar then (int_chars (ex_line e), mk)
        else case mk_definitions mk ?v of Some v \<Rightarrow> (v, mk) | None \<Rightarrow> ([], no_value m ?v mk))"
      have "mk_backtrace (snd p) = mk_backtrace mk" by (simp add: p_def split: option.split)
      moreover have "at_sign m t (e, mk) = Some (e\<lparr>ex_result := ?r @ (if escapeQuotes m then cmEscapeQuotes (fst p) else fst p),
          in_at := in_at e + 1 + ?n, last_at := in_at e + 1 + ?n + 1\<rparr>, snd p)"
        unfolding at_sign_def prod.case Let_def p_def [symmetric] using True by (simp add: a split_beta)
      ultimately show ?thesis using that by blast
    qed
    have "stack_ok (e\<lparr>ex_result := ?r @ x\<rparr>)" using stack_ok_append [OF d(3)] by simp
    with x at d show ?thesis by (auto simp: turned_def)
  qed
qed

lemma step_turned:
  assumes "turning t c e" and "mode_filename m = None \<or> Top (mk_backtrace mk) \<noteq> None"
  shows "\<exists>e' mk'. expand_step m t (e, mk) = Some (e', mk') \<and> turned t (in_at e) e' \<and> mk_backtrace mk' = mk_backtrace mk"
proof -
  note d = turningD [OF assms(1)]
  have c: "char_at t (in_at e) = Some c" using d(1,7) by (simp add: char_at_def)
  have w: "\<exists>e' mk'. map_option (\<lambda>e. (e, mk)) x = Some (e', mk') \<and> turned t (in_at e) e' \<and> mk_backtrace mk' = mk_backtrace mk"
    if "\<exists>e'. x = Some e' \<and> turned t (in_at e) e'" for x using that by auto
  consider "c = 0x7D" | "c = 0x24" "\<not> atOnly m" | "c = 0x24 \<and> atOnly m \<or> c = 0x5C" | "c = 0x0A" | "c = 0x40"
    | "c \<notin> {0x7D, 0x24, 0x5C, 0x0A, 0x40, 0}" using d(6) by blast
  then show ?thesis
  proof cases
    case 1
    then show ?thesis using close_turned [of t e m mk] assms c by (simp add: expand_step_def)
  next
    case 2
    then show ?thesis using w [OF dollar_turned] assms(1) c by (simp add: expand_step_def)
  next
    case 3
    then show ?thesis using w [OF escape_turned [OF assms(1)], of m] c by (auto simp: expand_step_def)
  next
    case 4
    have "turned t (in_at e) (e\<lparr>ex_line := ex_line e + 1\<rparr>)" using 4 d by (auto simp: turned_def)
    with 4 c show ?thesis by (simp add: expand_step_def)
  next
    case 5
    then show ?thesis using at_turned [of t e m mk] assms(1) c by (simp add: expand_step_def)
  next
    case 6
    then show ?thesis using w [OF plain_turned [OF assms(1)]] c by (simp add: expand_step_def)
  qed
qed

section \<open>The loop ends\<close>

lemma expand_steps_ends:
  assumes "terminated t" and "local_ok t e" and "\<not> ex_error e" and "\<not> ex_done e" and "mode_filename m = None \<or> Top (mk_backtrace mk) \<noteq> None"
  shows "\<exists>e' mk'. expand_steps m t (e, mk) = Some (e', mk') \<and> (ex_error e' \<or> last_at e' < length t)"
  using assms(2-5)
proof (induction "length t - in_at e" arbitrary: e mk rule: less_induct)
  case less
  have i: "in_at e < length t" using less.prems(1) by (simp add: local_ok_def)
  show ?case
  proof (cases "t ! in_at e = 0")
    case True
    then have "expand_step m t (e, mk) = Some (e\<lparr>ex_done := True\<rparr>, mk)" using i by (simp add: expand_step_def char_at_def)
    then have "expand_steps m t (e, mk) = Some (e\<lparr>ex_done := True\<rparr>, mk)" by (simp add: expand_steps.simps)
    moreover have "last_at e < length t" using less.prems(1) i by (auto simp: local_ok_def taken_ok_def)
    ultimately show ?thesis by simp
  next
    case False
    then have "turning t (t ! in_at e) e" using assms(1) less.prems by (simp add: turning_def)
    from step_turned [OF this less.prems(4)] obtain e1 mk1 where
      s: "expand_step m t (e, mk) = Some (e1, mk1)" "turned t (in_at e) e1" "mk_backtrace mk1 = mk_backtrace mk" by blast
    show ?thesis
    proof (cases "ex_error e1")
      case True
      then have "expand_steps m t (e, mk) = Some (e1, mk1)" using s(1) by (simp add: expand_steps.simps)
      with True show ?thesis by simp
    next
      case no_error: False
      let ?e = "e1\<lparr>in_at := in_at e1 + 1\<rparr>"
      have e1: "\<not> ex_done e1" "in_at e \<le> in_at e1" "in_at e1 < length t" "t ! in_at e1 \<noteq> 0" "stack_ok e1"
        and l: "last_at e1 \<le> in_at e1 + 1 \<or> last_at e1 = in_at e1 + 2 \<and> t ! (in_at e1 + 1) \<in> {0x74, 0x6E, 0x72} \<and> in_at e1 + 2 < length t \<and> t ! (in_at e1 + 2) = 0"
        using s(2) no_error by (simp_all add: turned_def)
      have n: "in_at e1 + 1 < length t" using terminated_next [OF assms(1) e1(3,4)] .
      have step: "expand_steps m t (e, mk) = (if t ! (in_at e1 + 1) \<noteq> 0 then expand_steps m t (?e, mk1) else Some (?e, mk1))"
        using s(1) no_error e1(1) n by (simp add: expand_steps.simps [of m t "(e, mk)"] char_at_def)
      show ?thesis
      proof (cases "t ! (in_at e1 + 1) = 0")
        case True
        then have "last_at ?e < length t" using l n by auto
        with True step show ?thesis by auto
      next
        case False
        have "local_ok t ?e" using l n e1(5) by (auto simp: local_ok_def taken_ok_def)
        moreover have "mode_filename m = None \<or> Top (mk_backtrace mk1) \<noteq> None" using s(3) less.prems(4) by simp
        ultimately have "\<exists>e' mk'. expand_steps m t (?e, mk1) = Some (e', mk') \<and> (ex_error e' \<or> last_at e' < length t)"
          using less.hyps [of ?e mk1] no_error e1(1,2) i by simp
        with False step show ?thesis by simp
      qed
    qed
  qed
qed

text \<open>The local variables at the start.\<close>

definition start_expansion :: "int \<Rightarrow> expansion" where
  "start_expansion ln = \<lparr>in_at = 0, last_at = 0, ex_result = [], openstack = [], ex_error = False, ex_done = False, errorstr = [], ex_line = ln\<rparr>"

lemma start_ok: "local_ok (source @ [0]) (start_expansion ln)" "terminated (source @ [0])"
  "\<not> ex_error (start_expansion ln)" "\<not> ex_done (start_expansion ln)"
  by (simp_all add: local_ok_def taken_ok_def stack_ok_def start_expansion_def terminated_def)

text \<open>C7. Expanding the references of any string returns, without a read outside the string: it succeeds with a new
  string, or fails with a fatal error and leaves the string as it was.\<close>

theorem ExpandVariablesInStringNew_returns:
  assumes "mode_filename m = None \<or> Top (mk_backtrace mk) \<noteq> None"
  shows "\<exists>msg source' mk'. ExpandVariablesInStringNew m ln source mk = Some (LOG, msg, source', mk')
    \<or> ExpandVariablesInStringNew m ln source mk = Some (FATAL_ERROR, msg, source, mk')"
proof -
  obtain e mk' where e: "expand_steps m (source @ [0]) (start_expansion ln, mk) = Some (e, mk')" "ex_error e \<or> last_at e < length (source @ [0])"
    using expand_steps_ends [OF start_ok(2,1,3,4) assms, of source ln] by blast
  show ?thesis
  proof (cases "ex_error e \<or> openstack e \<noteq> []")
    case True
    then show ?thesis using e(1) by (auto simp: ExpandVariablesInStringNew_def start_expansion_def)
  next
    case False
    then show ?thesis using e by (auto simp: ExpandVariablesInStringNew_def start_expansion_def)
  qed
qed

text \<open>A makefile with a few variables.\<close>

definition sample_makefile :: cmMakefile where
  "sample_makefile = \<lparr>mk_definitions = [ascii ''A'' \<mapsto> ascii ''B'', ascii ''B_'' \<mapsto> ascii ''${A}''], mk_environment = Map.empty, mk_cache = Map.empty,
     mk_backtrace = Some (Context_entry (line_context (ascii ''f'') 1) (Bottom_entry 0)),
     mk_messenger = \<lparr>SuppressDevWarnings = False, SuppressDeprecatedWarnings = False, DevWarningsAsErrors = False, DeprecatedWarningsAsErrors = False\<rparr>,
     mk_console = \<lparr>displayed = [], ErrorOccured = False, FatalErrorOccured = False\<rparr>, mk_CMP0053 = PS_NEW, mk_NestedError = Some False,
     SuppressSideEffects = False, mk_WarnUninitialized = True, mk_initialized = (\<lambda>s. False), CheckSystemVars = False,
     mk_project_file = (\<lambda>s. s \<noteq> []), CMP0054ReportedIds = []\<rparr>"

theorem ExpandVariablesInStringNew_returns_witness:
  "\<exists>msg source' mk'. ExpandVariablesInStringNew (argument_mode (ascii ''f'')) 1 (ascii ''${'') sample_makefile = Some (LOG, msg, source', mk')
    \<or> ExpandVariablesInStringNew (argument_mode (ascii ''f'')) 1 (ascii ''${'') sample_makefile = Some (FATAL_ERROR, msg, ascii ''${'', mk')"
  by (rule ExpandVariablesInStringNew_returns) (simp add: sample_makefile_def Top_def)

end
