(* ===== verification/VariablesTemplate.thy ===== *)
theory VariablesTemplate
  imports VariablesLoop
begin

text \<open>
  What the expansion of references (\<^verbatim>\<open>cmMakefile.cxx\<close>) means: strings are written from templates, whose value is
  defined by recursion, with the names of nested references evaluated first and values not read again.
\<close>

section \<open>Templates\<close>

datatype template = T_char byte | T_escape byte | T_reference t_domain "template list"

fun reference_start :: "t_domain \<Rightarrow> byte list" where
  "reference_start NORMAL = ascii ''${''"
| "reference_start ENVIRONMENT = ascii ''$ENV{''"
| "reference_start CACHE = ascii ''$CACHE{''"

fun render :: "template \<Rightarrow> byte list" where
  "render (T_char c) = [c]"
| "render (T_escape c) = [0x5C, c]"
| "render (T_reference d ts) = reference_start d @ concat (map render ts) @ [0x7D]"

text \<open>Inside a reference there are only characters of names, escape sequences and references.\<close>

fun template_ok :: "bool \<Rightarrow> template \<Rightarrow> bool" where
  "template_ok inside_name (T_char c) \<longleftrightarrow> (if inside_name then name_char c else c \<notin> {0, 0x24, 0x5C})"
| "template_ok inside_name (T_escape c) \<longleftrightarrow> c \<noteq> 0 \<and> (is_alnum c \<longrightarrow> c \<in> {0x74, 0x6E, 0x72})"
| "template_ok inside_name (T_reference d ts) \<longleftrightarrow> list_all (template_ok True) ts"

definition escaped :: "bool \<Rightarrow> byte \<Rightarrow> byte list" where
  "escaped inside_name c = (if c = 0x74 then [0x09] else if c = 0x6E then [0x0A] else if c = 0x72 then [0x0D]
     else if c = 0x3B \<and> \<not> inside_name then [0x5C, c] else [c])"

text \<open>
  The value of a template, with the line and the makefile after it: references are looked up with the value of their
  names, and names without a value are reported.
\<close>

fun evaluate :: "expand_mode \<Rightarrow> bool \<Rightarrow> template \<Rightarrow> int \<times> cmMakefile \<Rightarrow> (byte list \<times> int \<times> cmMakefile) option"
  and evaluate_all :: "expand_mode \<Rightarrow> bool \<Rightarrow> template list \<Rightarrow> int \<times> cmMakefile \<Rightarrow> (byte list \<times> int \<times> cmMakefile) option" where
  "evaluate m inside_name (T_char c) (ln, mk) = Some ([c], if c = 0x0A then ln + 1 else ln, mk)"
| "evaluate m inside_name (T_escape c) (ln, mk) = Some (escaped inside_name c, ln, mk)"
| "evaluate m inside_name (T_reference d ts) (ln, mk) =
     do { (name, ln, mk) \<leftarrow> evaluate_all m True ts (ln, mk);
          (found, other) \<leftarrow> lookup_variable m ln d name mk;
          Some (case found of None \<Rightarrow> (other, ln, no_value m name mk)
            | Some v \<Rightarrow> (if escapeQuotes m then cmEscapeQuotes v else v, ln, mk)) }"
| "evaluate_all m inside_name [] (ln, mk) = Some ([], ln, mk)"
| "evaluate_all m inside_name (t # ts) (ln, mk) =
     do { (s, ln, mk) \<leftarrow> evaluate m inside_name t (ln, mk);
          (s', ln, mk) \<leftarrow> evaluate_all m inside_name ts (ln, mk);
          Some (s @ s', ln, mk) }"

section \<open>The loop at a position\<close>

text \<open>The loop before a character, or after the last one.\<close>

definition resume :: "expand_mode \<Rightarrow> byte list \<Rightarrow> expansion \<times> cmMakefile \<Rightarrow> (expansion \<times> cmMakefile) option" where
  "resume m t s = do { c \<leftarrow> char_at t (in_at (fst s)); if c \<noteq> 0 then expand_steps m t s else Some s }"

text \<open>The text up to the position \<open>i\<close> has the value \<open>s\<close>, of which part is still to be copied.\<close>

definition expanding :: "byte list \<Rightarrow> nat \<Rightarrow> byte list \<Rightarrow> t_lookup list \<Rightarrow> int \<Rightarrow> expansion \<Rightarrow> bool" where
  "expanding t i s st ln e \<longleftrightarrow> in_at e = i \<and> i < length t \<and> last_at e \<le> i \<and> ex_result e @ take (i - last_at e) (drop (last_at e) t) = s
     \<and> openstack e = st \<and> ex_line e = ln \<and> \<not> ex_error e \<and> \<not> ex_done e \<and> errorstr e = []"

lemma expanding_append: "expanding t i s st ln e \<Longrightarrow> append_to t (in_at e) e = Some (e\<lparr>ex_result := s\<rparr>)"
  by (auto simp: expanding_def append_to_def)

lemma expanding_skip:
  assumes "expanding t i s st ln e" and "i + 1 < length t"
  shows "expanding t (i + 1) (s @ [t ! i]) st ln' (e\<lparr>ex_line := ln', in_at := i + 1\<rparr>)"
    and "expanding t (i + 1) (s @ [t ! i]) st ln (e\<lparr>in_at := i + 1\<rparr>)"
proof -
  have "take (i + 1 - last_at e) (drop (last_at e) t) = take (i - last_at e) (drop (last_at e) t) @ [t ! i]"
    using assms by (auto simp: expanding_def Suc_diff_le take_Suc_conv_app_nth)
  with assms show "expanding t (i + 1) (s @ [t ! i]) st ln' (e\<lparr>ex_line := ln', in_at := i + 1\<rparr>)"
    "expanding t (i + 1) (s @ [t ! i]) st ln (e\<lparr>in_at := i + 1\<rparr>)" by (auto simp: expanding_def)
qed

text \<open>A turn that goes on.\<close>

lemma resume_step:
  assumes "char_at t (in_at e) = Some c" and "c \<noteq> 0" and "expand_step m t (e, mk) = Some (e1, mk1)" and "\<not> ex_error e1" and "\<not> ex_done e1"
    and "in_at e1 + 1 < length t"
  shows "resume m t (e, mk) = resume m t (e1\<lparr>in_at := in_at e1 + 1\<rparr>, mk1)"
  using assms by (simp add: resume_def expand_steps.simps [of m t "(e, mk)"] char_at_def)

definition normal_mode :: "expand_mode \<Rightarrow> bool" where
  "normal_mode m \<longleftrightarrow> \<not> noEscapes m \<and> \<not> atOnly m \<and> \<not> replaceAt m"

lemma char_at_append: "char_at (u @ c # v) (length u) = Some c" "char_at (u @ c # d # v) (Suc (length u)) = Some d"
  by (simp_all add: char_at_def nth_append)

lemma resume_char:
  assumes "expanding t i s st ln e" and "normal_mode m" and t: "t = u @ c # v" and "i = length u" and "v \<noteq> []"
    and "c \<notin> {0, 0x24, 0x5C}" and "st = [] \<or> name_char c"
  shows "\<exists>e'. resume m t (e, mk) = resume m t (e', mk) \<and> expanding t (i + 1) (s @ [c]) st (if c = 0x0A then ln + 1 else ln) e'"
proof -
  let ?ln = "if c = 0x0A then ln + 1 else ln"
  have e: "in_at e = i" "openstack e = st" "ex_line e = ln" "\<not> ex_error e" "\<not> ex_done e" using assms(1) by (simp_all add: expanding_def)
  have c: "char_at t (in_at e) = Some c" "t ! i = c" "i + 1 < length t"
    using e(1) assms(4,5) by (cases v; simp add: t char_at_append)+
  have "expand_step m t (e, mk) = Some (e\<lparr>ex_line := ?ln\<rparr>, mk)"
  proof -
    consider "c = 0x7D" | "c = 0x0A" | "c = 0x40" | "c \<notin> {0x7D, 0x0A, 0x40}" by blast
    then show ?thesis
    proof cases
      case 1
      then have "st = []" using assms(7) by (auto simp: name_char_def is_alnum_def)
      with 1 c(1) e(2,3) show ?thesis by (simp add: expand_step_def close_reference_def)
    next
      case 2
      with c(1) e(3) show ?thesis by (simp add: expand_step_def)
    next
      case 3
      then have "st = []" using assms(7) by (auto simp: name_char_def is_alnum_def)
      with 3 c(1) e(2,3) assms(2) show ?thesis by (simp add: expand_step_def at_sign_def plain_char_def normal_mode_def Let_def)
    next
      case 4
      then have "plain_char t c e = Some e" using assms(7) e(2) by (auto simp: plain_char_def split: list.split)
      with 4 c(1) e(3) assms(6) show ?thesis by (simp add: expand_step_def)
    qed
  qed
  from resume_step [OF c(1) _ this] assms(6) e c(3)
  have "resume m t (e, mk) = resume m t (e\<lparr>ex_line := ?ln, in_at := i + 1\<rparr>, mk)" by simp
  with expanding_skip(1) [OF assms(1) c(3), of ?ln] c(2) show ?thesis by blast
qed

lemma resume_escape:
  assumes "expanding t i s st ln e" and "normal_mode m" and t: "t = u @ 0x5C # c # v" and "i = length u" and "v \<noteq> []" and "0 \<notin> set u"
    and ok: "template_ok b (T_escape c)" and b: "b = (st \<noteq> [])"
  shows "\<exists>e'. resume m t (e, mk) = resume m t (e', mk) \<and> expanding t (i + 2) (s @ escaped b c) st ln e'"
proof -
  have e: "in_at e = i" "openstack e = st" "ex_line e = ln" "\<not> ex_error e" "\<not> ex_done e" "errorstr e = []" "last_at e \<le> i"
    using assms(1) by (simp_all add: expanding_def)
  have c: "char_at t (in_at e) = Some 0x5C" "char_at t (i + 1) = Some c" "i + 2 < length t" "t ! i = 0x5C" "t ! (i + 1) = c" "c \<noteq> 0"
    using e(1) assms(4,5) ok by (cases v; simp add: t char_at_append nth_append)+
  have step: "expand_step m t (e, mk) = map_option (\<lambda>e. (e, mk)) (escape_char m t e)" using c(1) by (simp add: expand_step_def)
  have m: "\<not> noEscapes m" using assms(2) by (simp add: normal_mode_def)
  note a = expanding_append [OF assms(1)]
  let ?x = "escaped b c"
  consider "c \<in> {0x74, 0x6E, 0x72}" | "c = 0x3B" "st = []" | "c \<notin> {0x74, 0x6E, 0x72}" "\<not> is_alnum c" "\<not> (c = 0x3B \<and> st = [])"
    using ok by auto
  then show ?thesis
  proof cases
    case 1
    let ?e = "e\<lparr>ex_result := s @ ?x, last_at := i + 2\<rparr>"
    have x: "?x = [if c = 0x74 then 0x09 else if c = 0x6E then 0x0A else 0x0D]" using 1 by (auto simp: escaped_def)
    have r: "expand_step m t (e, mk) = Some (if t ! (i + 2) \<noteq> 0 then ?e\<lparr>in_at := i + 1\<rparr> else ?e, mk)"
      unfolding step using m a 1 c(2,3) e(1) by (auto simp: escape_char_def char_at_def x)
    have "resume m t (e, mk) = resume m t (?e\<lparr>in_at := i + 2\<rparr>, mk)"
    proof (cases "t ! (i + 2) = 0")
      case False
      then have "expand_step m t (e, mk) = Some (?e\<lparr>in_at := i + 1\<rparr>, mk)" using r by simp
      from resume_step [OF c(1) _ this] e c(3) show ?thesis by simp
    next
      case True
      then have "expand_step m t (e, mk) = Some (?e, mk)" using r by simp
      from resume_step [OF c(1) _ this] e c(3) have 1: "resume m t (e, mk) = resume m t (?e\<lparr>in_at := i + 1\<rparr>, mk)" by simp
      let ?e1 = "?e\<lparr>in_at := i + 1\<rparr>"
      have "plain_char t c ?e1 = Some ?e1" using letters_name \<open>c \<in> _\<close> by (auto simp: plain_char_def split: list.split)
      then have "expand_step m t (?e1, mk) = Some (?e1, mk)" using c(2) \<open>c \<in> _\<close> by (auto simp: expand_step_def)
      from resume_step [OF _ c(6) this] e c(2,3) have "resume m t (?e1, mk) = resume m t (?e\<lparr>in_at := i + 2\<rparr>, mk)" by simp
      with 1 show ?thesis by simp
    qed
    moreover have "expanding t (i + 2) (s @ ?x) st ln (?e\<lparr>in_at := i + 2\<rparr>)" using e c(3) by (simp add: expanding_def)
    ultimately show ?thesis by blast
  next
    case 2
    have l: "t ! last_at e \<noteq> 0"
    proof (cases "last_at e = i")
      case False
      then have "t ! last_at e = u ! last_at e" "last_at e < length u" using e(7) assms(4) by (simp_all add: t nth_append)
      then show ?thesis using assms(6) by (metis nth_mem)
    qed (simp add: c(4))
    have "escape_char m t e = Some (e\<lparr>in_at := i + 1\<rparr>)"
      using m 2 l c(2,3) e by (simp add: escape_char_def char_at_def)
    then have "expand_step m t (e, mk) = Some (e\<lparr>in_at := i + 1\<rparr>, mk)" using step by simp
    from resume_step [OF c(1) _ this] e c(3) have "resume m t (e, mk) = resume m t (e\<lparr>in_at := i + 2\<rparr>, mk)" by simp
    moreover have "expanding t (i + 2) (s @ ?x) st ln (e\<lparr>in_at := i + 2\<rparr>)"
    proof -
      have "expanding t (i + 1) (s @ [0x5C]) st ln (e\<lparr>in_at := i + 1\<rparr>)"
        using expanding_skip(2) [OF assms(1)] c(3,4) by simp
      from expanding_skip(2) [OF this] c(3,5) 2 b show ?thesis by (simp add: escaped_def)
    qed
    ultimately show ?thesis by blast
  next
    case 3
    let ?e = "e\<lparr>ex_result := s, last_at := i + 1\<rparr>"
    have x: "?x = [c]" using 3 b by (auto simp: escaped_def)
    have "escape_char m t e = Some (?e\<lparr>in_at := i + 1\<rparr>)"
      using m a 3 c(2,3,6) e(1,2) by (auto simp: escape_char_def char_at_def)
    then have "expand_step m t (e, mk) = Some (?e\<lparr>in_at := i + 1\<rparr>, mk)" using step by simp
    from resume_step [OF c(1) _ this] e c(3) have "resume m t (e, mk) = resume m t (?e\<lparr>in_at := i + 2\<rparr>, mk)" by simp
    moreover have "expanding t (i + 2) (s @ ?x) st ln (?e\<lparr>in_at := i + 2\<rparr>)"
    proof -
      have "take 1 (drop (i + 1) t) = [c]" using c(3,5) by (simp add: take_Suc_conv_app_nth)
      with e c(3) show ?thesis by (simp add: expanding_def x)
    qed
    ultimately show ?thesis by blast
  qed
qed

lemma resume_begin:
  assumes "expanding t i s st ln e" and "normal_mode m" and t: "t = u @ reference_start d @ v" and "i = length u" and "v \<noteq> []"
  shows "\<exists>e'. resume m t (e, mk) = resume m t (e', mk)
    \<and> expanding t (i + length (reference_start d)) s (\<lparr>domain = d, loc = length s\<rparr> # st) ln e'"
proof -
  let ?n = "length (reference_start d)"
  have e: "in_at e = i" "openstack e = st" "ex_line e = ln" "\<not> ex_error e" "\<not> ex_done e" "errorstr e = []"
    using assms(1) by (simp_all add: expanding_def)
  have n: "2 \<le> ?n" "i + ?n < length t" using assms(4,5) by (cases d; simp add: t ascii_def)+
  have c: "char_at t (in_at e) = Some 0x24" using e(1) assms(4) by (cases d; simp add: t ascii_def char_at_append)
  have m: "\<not> atOnly m" using assms(2) by (simp add: normal_mode_def)
  let ?e = "e\<lparr>ex_result := s, last_at := i + ?n, in_at := i + ?n - 1, openstack := \<lparr>domain = d, loc = length s\<rparr> # st\<rparr>"
  have "begin_reference t d ?n e = Some ?e" using expanding_append [OF assms(1)] e(1,2) by (simp add: begin_reference_def)
  moreover have "dollar t e = begin_reference t d ?n e"
  proof -
    have "?n = (case d of NORMAL \<Rightarrow> 2 | ENVIRONMENT \<Rightarrow> 5 | CACHE \<Rightarrow> 7)" by (cases d) (simp_all add: ascii_def)
    moreover have "dollar t e = begin_reference t d (case d of NORMAL \<Rightarrow> 2 | ENVIRONMENT \<Rightarrow> 5 | CACHE \<Rightarrow> 7) e"
      using e(1) assms(4) by (cases d) (simp_all add: dollar_def t ascii_def char_at_def nth_append string_at_def Let_def)
    ultimately show ?thesis by simp
  qed
  ultimately have "expand_step m t (e, mk) = Some (?e, mk)" using c m by (simp add: expand_step_def)
  moreover have "i + ?n - 1 + 1 = i + ?n" using n(1) by simp
  ultimately have "resume m t (e, mk) = resume m t (?e\<lparr>in_at := i + ?n\<rparr>, mk)"
    using resume_step [OF c, of m mk ?e mk] e n(2) by simp
  moreover have "expanding t (i + ?n) s (\<lparr>domain = d, loc = length s\<rparr> # st) ln (?e\<lparr>in_at := i + ?n\<rparr>)"
    using e n by (simp add: expanding_def)
  ultimately show ?thesis by blast
qed

lemma resume_close:
  assumes "expanding t i (s @ name) (\<lparr>domain = d, loc = length s\<rparr> # st) ln e" and t: "t = u @ 0x7D # v" and "i = length u" and "v \<noteq> []"
    and "lookup_variable m ln d name mk = Some (found, other)"
  shows "\<exists>e'. resume m t (e, mk) = resume m t (e', case found of None \<Rightarrow> no_value m name mk | Some x \<Rightarrow> mk)
    \<and> expanding t (i + 1) (s @ (case found of None \<Rightarrow> other | Some x \<Rightarrow> if escapeQuotes m then cmEscapeQuotes x else x)) st ln e'"
proof -
  let ?mk = "case found of None \<Rightarrow> no_value m name mk | Some x \<Rightarrow> mk"
  let ?x = "case found of None \<Rightarrow> other | Some x \<Rightarrow> if escapeQuotes m then cmEscapeQuotes x else x"
  have e: "in_at e = i" "openstack e = \<lparr>domain = d, loc = length s\<rparr> # st" "ex_line e = ln" "\<not> ex_error e" "\<not> ex_done e" "errorstr e = []"
    using assms(1) by (simp_all add: expanding_def)
  have c: "char_at t (in_at e) = Some 0x7D" "i + 1 < length t" using e(1) assms(3,4) by (cases v; simp add: t char_at_append)+
  let ?e = "e\<lparr>openstack := st, ex_result := s @ ?x, last_at := i + 1\<rparr>"
  have a: "append_to t (in_at e) (e\<lparr>openstack := st\<rparr>) = Some (e\<lparr>openstack := st, ex_result := s @ name\<rparr>)"
    using assms(1) by (auto simp: expanding_def append_to_def)
  have "close_reference m t (e, mk) = Some (?e, ?mk)"
    using e(1-3) a assms(5) by (cases found) (simp_all add: close_reference_def)
  then have "expand_step m t (e, mk) = Some (?e, ?mk)" using c(1) by (simp add: expand_step_def)
  from resume_step [OF c(1) _ this] e c(2) have "resume m t (e, mk) = resume m t (?e\<lparr>in_at := i + 1\<rparr>, ?mk)" by simp
  moreover have "expanding t (i + 1) (s @ ?x) st ln (?e\<lparr>in_at := i + 1\<rparr>)" using e c(2) by (simp add: expanding_def)
  ultimately show ?thesis by blast
qed

section \<open>The loop evaluates templates\<close>

lemma name_char_plain: "name_char c \<Longrightarrow> c \<notin> {0, 0x24, 0x5C}"
  by (auto simp: name_char_def is_alnum_def)

lemma render_no_zero: "template_ok b p \<Longrightarrow> 0 \<notin> set (render p)"
proof (induction b p rule: template_ok.induct)
  case (3 b d ts)
  then show ?case by (cases d) (auto simp: ascii_def list_all_iff)
qed (auto simp: name_char_def is_alnum_def split: if_splits)

lemma render_all_no_zero: "list_all (template_ok b) ps \<Longrightarrow> 0 \<notin> set (concat (map render ps))"
  using render_no_zero by (auto simp: list_all_iff)

lemma evaluate_reference:
  assumes "evaluate m b (T_reference d ts) (ln, mk) = Some (r, ln', mk')"
  shows "\<exists>name ln1 mk1 found other. evaluate_all m True ts (ln, mk) = Some (name, ln1, mk1)
    \<and> lookup_variable m ln1 d name mk1 = Some (found, other)
    \<and> r = (case found of None \<Rightarrow> other | Some x \<Rightarrow> if escapeQuotes m then cmEscapeQuotes x else x) \<and> ln' = ln1
    \<and> mk' = (case found of None \<Rightarrow> no_value m name mk1 | Some x \<Rightarrow> mk1)"
proof (cases "evaluate_all m True ts (ln, mk)")
  case (Some q)
  obtain name ln1 mk1 where q: "q = (name, ln1, mk1)" by (cases q)
  show ?thesis
  proof (cases "lookup_variable m ln1 d name mk1")
    case None
    with assms Some q show ?thesis by simp
  next
    case (Some p)
    obtain found other where p: "p = (found, other)" by (cases p)
    show ?thesis
      using assms \<open>evaluate_all m True ts (ln, mk) = Some q\<close> Some
      by (intro exI [of _ name] exI [of _ ln1] exI [of _ mk1] exI [of _ found] exI [of _ other]) (cases found; simp add: q p)
  qed
qed (use assms in simp)

lemma resume_evaluates:
  "template_ok b p \<Longrightarrow> evaluate m b p (ln, mk) = Some (r, ln', mk') \<Longrightarrow> expanding t i s st ln e \<Longrightarrow> normal_mode m
    \<Longrightarrow> t = u @ render p @ v \<Longrightarrow> i = length u \<Longrightarrow> v \<noteq> [] \<Longrightarrow> 0 \<notin> set u \<Longrightarrow> b = (st \<noteq> [])
    \<Longrightarrow> \<exists>e'. resume m t (e, mk) = resume m t (e', mk') \<and> expanding t (i + length (render p)) (s @ r) st ln' e'"
  "list_all (template_ok b) ps \<Longrightarrow> evaluate_all m b ps (ln, mk) = Some (r, ln', mk') \<Longrightarrow> expanding t i s st ln e \<Longrightarrow> normal_mode m
    \<Longrightarrow> t = u @ concat (map render ps) @ v \<Longrightarrow> i = length u \<Longrightarrow> v \<noteq> [] \<Longrightarrow> 0 \<notin> set u \<Longrightarrow> b = (st \<noteq> [])
    \<Longrightarrow> \<exists>e'. resume m t (e, mk) = resume m t (e', mk') \<and> expanding t (i + length (concat (map render ps))) (s @ r) st ln' e'"
proof (induction m b p "(ln, mk)" and m b ps "(ln, mk)" arbitrary: ln mk r ln' mk' i s st u v e and ln mk r ln' mk' i s st u v e
    rule: evaluate_evaluate_all.induct)
  case (1 m b c ln mk)
  then have "c \<notin> {0, 0x24, 0x5C}" "st = [] \<or> name_char c" using name_char_plain by (auto split: if_splits)
  moreover have "t = u @ c # v" using "1.prems"(5) by simp
  moreover have "r = [c]" "ln' = (if c = 0x0A then ln + 1 else ln)" "mk' = mk" using "1.prems"(2) by simp_all
  ultimately show ?case using resume_char [OF "1.prems"(3,4) _ "1.prems"(6,7), of c mk] by simp
next
  case (2 m b c ln mk)
  then show ?case using resume_escape [OF "2.prems"(3,4), of u c v b mk] by simp
next
  case (3 m b d ts ln mk)
  from evaluate_reference [OF "3.prems"(2)] obtain name ln1 mk1 found other where ev: "evaluate_all m True ts (ln, mk) = Some (name, ln1, mk1)"
    and look: "lookup_variable m ln1 d name mk1 = Some (found, other)"
    and r: "r = (case found of None \<Rightarrow> other | Some x \<Rightarrow> if escapeQuotes m then cmEscapeQuotes x else x)" "ln' = ln1"
      "mk' = (case found of None \<Rightarrow> no_value m name mk1 | Some x \<Rightarrow> mk1)"
    by blast
  let ?st = "\<lparr>domain = d, loc = length s\<rparr> # st" and ?b = "concat (map render ts)"
  have t: "t = u @ reference_start d @ ?b @ 0x7D # v" using "3.prems"(5) by simp
  obtain e1 where e1: "resume m t (e, mk) = resume m t (e1, mk)" "expanding t (i + length (reference_start d)) s ?st ln e1"
    using resume_begin [OF "3.prems"(3,4) t "3.prems"(6)] by blast
  have z: "0 \<notin> set (u @ reference_start d)" using "3.prems"(8) by (cases d) (auto simp: ascii_def)
  obtain e2 where e2: "resume m t (e1, mk) = resume m t (e2, mk1)"
    "expanding t (i + length (reference_start d) + length ?b) (s @ name) ?st ln1 e2"
    using "3.hyps"(1) [OF _ ev e1(2) "3.prems"(4), of "u @ reference_start d" "0x7D # v"] "3.prems"(1,6) z t by auto
  have t2: "t = (u @ reference_start d @ ?b) @ 0x7D # v" using t by simp
  from resume_close [OF e2(2) t2 _ "3.prems"(7) look] "3.prems"(6) obtain e3 where
    "resume m t (e2, mk1) = resume m t (e3, mk')" "expanding t (i + length (reference_start d) + length ?b + 1) (s @ r) st ln' e3"
    unfolding r by auto
  with e1(1) e2(1) show ?case by (intro exI [of _ e3]) (simp add: add.assoc)
next
  case (4 m b ln mk)
  then show ?case by auto
next
  case (5 m b p ps ln mk)
  from "5.prems"(2) obtain r1 ln1 mk1 r2 where ev: "evaluate m b p (ln, mk) = Some (r1, ln1, mk1)" "evaluate_all m b ps (ln1, mk1) = Some (r2, ln', mk')" "r = r1 @ r2"
    by (auto simp: bind_eq_Some_conv)
  have ok: "template_ok b p" "list_all (template_ok b) ps" using "5.prems"(1) by simp_all
  have t: "t = u @ render p @ (concat (map render ps) @ v)" using "5.prems"(5) by simp
  from "5.hyps"(1) [OF ok(1) ev(1) "5.prems"(3,4) t "5.prems"(6) _ "5.prems"(8,9)] "5.prems"(7) obtain e1 where
    e1: "resume m t (e, mk) = resume m t (e1, mk1)" "expanding t (i + length (render p)) (s @ r1) st ln1 e1" by auto
  have z: "0 \<notin> set (u @ render p)" using render_no_zero [OF ok(1)] "5.prems"(8) by simp
  have t2: "t = (u @ render p) @ concat (map render ps) @ v" using t by simp
  have "i + length (render p) = length (u @ render p)" using "5.prems"(6) by simp
  from "5.hyps"(2) [OF ev(1) refl refl ok(2) ev(2) e1(2) "5.prems"(4) t2 this "5.prems"(7) z "5.prems"(9)] obtain e2 where
    "resume m t (e1, mk1) = resume m t (e2, mk')" "expanding t (i + length (render p) + length (concat (map render ps))) (s @ r1 @ r2) st ln' e2"
    by auto
  with e1(1) ev(3) show ?case by (intro exI [of _ e2]) (simp add: add.assoc)
qed

lemma New_resume:
  assumes "resume m (source @ [0]) (start_expansion ln, mk) = Some (e, mk')" and "\<not> ex_error e" and "openstack e = []" and "last_at e \<le> length source"
  shows "ExpandVariablesInStringNew m ln source mk = Some (LOG, errorstr e, ex_result e @ string_at (source @ [0]) (last_at e), mk')"
proof -
  have "\<exists>e'. expand_steps m (source @ [0]) (start_expansion ln, mk) = Some (e', mk') \<and> ex_error e' = ex_error e \<and> openstack e' = openstack e
    \<and> last_at e' = last_at e \<and> errorstr e' = errorstr e \<and> ex_result e' = ex_result e"
  proof (cases "source @ [0] = [0] \<or> hd source = 0")
    case True
    then have c: "char_at (source @ [0]) 0 = Some 0" by (cases source) (auto simp: char_at_def)
    then have "e = start_expansion ln" "mk' = mk" using assms(1) by (simp_all add: resume_def start_expansion_def)
    moreover have "expand_step m (source @ [0]) (start_expansion ln, mk) = Some ((start_expansion ln)\<lparr>ex_done := True\<rparr>, mk)"
      using c by (simp add: expand_step_def start_expansion_def)
    then have "expand_steps m (source @ [0]) (start_expansion ln, mk) = Some ((start_expansion ln)\<lparr>ex_done := True\<rparr>, mk)"
      by (simp add: expand_steps.simps)
    ultimately show ?thesis by simp
  next
    case False
    then have "expand_steps m (source @ [0]) (start_expansion ln, mk) = Some (e, mk')"
      using assms(1) by (cases source) (simp_all add: resume_def start_expansion_def char_at_def)
    then show ?thesis by blast
  qed
  then obtain e' where "expand_steps m (source @ [0]) (start_expansion ln, mk) = Some (e', mk')" "ex_error e' = ex_error e" "openstack e' = openstack e"
    "last_at e' = last_at e" "errorstr e' = errorstr e" "ex_result e' = ex_result e" by blast
  then show ?thesis using assms(2-4) by (simp add: ExpandVariablesInStringNew_def start_expansion_def)
qed

lemma New_evaluates:
  assumes "list_all (template_ok False) ps" and "normal_mode m" and "evaluate_all m False ps (ln, mk) = Some (r, ln', mk')"
  shows "ExpandVariablesInStringNew m ln (concat (map render ps)) mk = Some (LOG, [], r, mk')"
proof -
  let ?s = "concat (map render ps)"
  let ?t = "?s @ [0]"
  have start: "expanding ?t 0 [] [] ln (start_expansion ln)" by (simp add: expanding_def start_expansion_def)
  obtain e where e: "resume m ?t (start_expansion ln, mk) = resume m ?t (e, mk')" "expanding ?t (length ?s) r [] ln' e"
    using resume_evaluates(2) [OF assms(1,3) start assms(2), of "[]" "[0]"] by auto
  have z: "0 \<notin> set ?s" by (rule render_all_no_zero [OF assms(1)])
  have "resume m ?t (e, mk') = Some (e, mk')" using e(2) by (simp add: resume_def expanding_def char_at_def)
  then have "ExpandVariablesInStringNew m ln ?s mk = Some (LOG, errorstr e, ex_result e @ string_at ?t (last_at e), mk')"
    using New_resume [of m ?s ln mk e mk'] e by (simp add: expanding_def)
  moreover have "string_at ?t (last_at e) = take (length ?s - last_at e) (drop (last_at e) ?t)"
  proof -
    have l: "last_at e \<le> length ?s" using e(2) by (simp add: expanding_def)
    then have "drop (last_at e) ?t = drop (last_at e) ?s @ [0]" by simp
    moreover have "0 \<notin> set (drop (last_at e) ?s)" using z by (auto dest: in_set_dropD)
    moreover have "takeWhile (\<lambda>c. c \<noteq> 0) (w @ [0]) = w" if "0 \<notin> set w" for w :: "byte list" using that by (induction w) auto
    ultimately show ?thesis using l by (simp add: string_at_def)
  qed
  ultimately show ?thesis using e(2) by (simp add: expanding_def)
qed

end
