(* ===== verification/ListFileTables.thy ===== *)
theory ListFileTables
  imports Prelude
begin

text \<open>
  The tables of the scanner of the CMake language (\<^verbatim>\<open>LexerParser/cmListFileLexer.c\<close>), a
  deterministic automaton whose transition table is compressed, the transition function that reads
  them, and the uncompressed table with the proof that it is the same.
\<close>

section \<open>The tables of the code\<close>

text \<open>The rule of an accepting state, or 0.\<close>

definition yy_accept :: "nat list" where
  "yy_accept =
    [0, 0, 0, 0, 0, 0, 0, 0, 0, 4, 4, 25, 13, 22, 1, 16, 3, 13, 5, 6,
     7, 15, 23, 23, 17, 19, 20, 21, 24, 10, 11, 8, 12, 9, 4, 13, 0, 13, 0, 22,
     0, 0, 7, 13, 0, 13, 0, 2, 0, 13, 17, 0, 18, 10, 8, 4, 0, 14, 0, 0,
     0, 0, 14, 0, 0, 14, 0, 0, 0, 2, 14, 0, 0, 0, 0, 0, 0, 0, 0]"

text \<open>The class of a byte.  The byte 0 has class 0, which stands for the end of the buffer; a zero byte
  of the input has class 16.\<close>

definition yy_ec :: "nat list" where
  "yy_ec =
    [0, 1, 1, 1, 1, 1, 1, 1, 1, 2, 3, 1, 1, 4, 1, 1, 1, 1, 1, 1,
     1, 1, 1, 1, 1, 1, 1, 1, 1, 1, 1, 1, 2, 1, 5, 6, 7, 1, 1, 1,
     8, 9, 1, 1, 1, 1, 1, 1, 10, 10, 10, 10, 10, 10, 10, 10, 10, 10, 1, 1,
     1, 11, 1, 1, 1, 12, 12, 12, 12, 12, 12, 12, 12, 12, 12, 12, 12, 12, 12, 12,
     12, 12, 12, 12, 12, 12, 12, 12, 12, 12, 12, 13, 14, 15, 1, 12, 1, 12, 12, 12,
     12, 12, 12, 12, 12, 12, 12, 12, 12, 12, 12, 12, 12, 12, 12, 12, 12, 12, 12, 12,
     12, 12, 12, 1, 1, 1, 1, 1, 1, 1, 1, 1, 1, 1, 1, 1, 1, 1, 1, 1,
     1, 1, 1, 1, 1, 1, 1, 1, 1, 1, 1, 1, 1, 1, 1, 1, 1, 1, 1, 1,
     1, 1, 1, 1, 1, 1, 1, 1, 1, 1, 1, 1, 1, 1, 1, 1, 1, 1, 1, 1,
     1, 1, 1, 1, 1, 1, 1, 1, 1, 1, 1, 1, 1, 1, 1, 1, 1, 1, 1, 1,
     1, 1, 1, 1, 1, 1, 1, 1, 1, 1, 1, 1, 1, 1, 1, 1, 1, 1, 1, 1,
     1, 1, 1, 1, 1, 1, 1, 1, 1, 1, 1, 1, 1, 1, 1, 1, 1, 1, 1, 1,
     1, 1, 1, 1, 1, 1, 1, 1, 1, 1, 1, 1, 1, 1, 1, 1]"

definition yy_meta :: "nat list" where
  "yy_meta =
    [0, 1, 1, 2, 3, 4, 3, 1, 3, 5, 6, 1, 6, 1, 1, 7, 2]"

definition yy_base :: "nat list" where
  "yy_base =
    [0, 0, 0, 14, 28, 42, 56, 70, 84, 18, 19, 68, 100, 16, 298, 298, 54, 58, 298, 298,
     13, 115, 0, 298, 51, 298, 298, 21, 298, 0, 298, 53, 298, 298, 0, 0, 126, 55, 0, 25,
     25, 53, 0, 0, 136, 53, 0, 57, 0, 0, 42, 50, 298, 0, 43, 0, 146, 160, 45, 172,
     43, 26, 0, 42, 177, 0, 42, 188, 40, 298, 40, 0, 38, 37, 34, 32, 31, 23, 298, 197,
     204, 211, 218, 225, 232, 239, 245, 252, 259, 262, 268, 275, 278, 280, 286, 289, 291]"

definition yy_def :: "nat list" where
  "yy_def =
    [0, 78, 1, 79, 79, 80, 80, 81, 81, 82, 82, 78, 78, 78, 78, 78, 78, 12, 78, 78,
     12, 78, 83, 78, 84, 78, 78, 84, 78, 85, 78, 78, 78, 78, 86, 12, 87, 12, 88, 78,
     78, 89, 20, 12, 90, 12, 21, 78, 91, 12, 84, 84, 78, 85, 78, 86, 87, 78, 56, 87,
     92, 78, 57, 89, 90, 57, 64, 90, 93, 78, 57, 94, 95, 92, 96, 93, 95, 96, 0, 78,
     78, 78, 78, 78, 78, 78, 78, 78, 78, 78, 78, 78, 78, 78, 78, 78, 78]"

definition yy_nxt :: "nat list" where
  "yy_nxt =
    [0, 12, 13, 14, 13, 15, 16, 17, 18, 19, 12, 12, 20, 21, 22, 12, 23, 25, 39, 26,
     39, 14, 14, 42, 52, 42, 50, 39, 27, 39, 28, 25, 64, 26, 28, 28, 61, 61, 47, 47,
     56, 65, 27, 64, 28, 30, 57, 56, 60, 65, 74, 62, 57, 72, 54, 50, 51, 31, 28, 30,
     69, 68, 62, 60, 54, 51, 41, 40, 78, 78, 78, 31, 28, 30, 78, 78, 78, 78, 78, 78,
     78, 78, 78, 78, 78, 33, 28, 30, 78, 78, 78, 78, 78, 78, 78, 78, 78, 78, 78, 33,
     28, 35, 78, 78, 78, 36, 78, 37, 78, 78, 35, 35, 35, 35, 38, 35, 43, 78, 78, 78,
     44, 78, 45, 78, 78, 43, 46, 43, 47, 48, 43, 57, 78, 58, 78, 78, 78, 78, 78, 78,
     59, 65, 78, 66, 78, 78, 78, 78, 78, 78, 67, 57, 78, 58, 78, 78, 78, 78, 78, 78,
     59, 57, 78, 78, 78, 36, 78, 70, 78, 78, 57, 57, 57, 57, 71, 57, 56, 78, 56, 78,
     56, 56, 65, 78, 66, 78, 78, 78, 78, 78, 78, 67, 64, 78, 64, 78, 64, 64, 24, 24,
     24, 24, 24, 24, 24, 29, 29, 29, 29, 29, 29, 29, 32, 32, 32, 32, 32, 32, 32, 34,
     34, 34, 34, 34, 34, 34, 49, 78, 49, 49, 49, 49, 49, 50, 78, 50, 78, 50, 50, 50,
     53, 78, 53, 53, 53, 53, 55, 78, 55, 55, 55, 55, 55, 56, 78, 78, 56, 78, 56, 56,
     35, 78, 35, 35, 35, 35, 35, 63, 63, 64, 78, 78, 64, 78, 64, 64, 43, 78, 43, 43,
     43, 43, 43, 73, 73, 75, 75, 57, 78, 57, 57, 57, 57, 57, 76, 76, 77, 77, 11, 78,
     78, 78, 78, 78, 78, 78, 78, 78, 78, 78, 78, 78, 78, 78, 78]"

definition yy_chk :: "nat list" where
  "yy_chk =
    [0, 1, 1, 1, 1, 1, 1, 1, 1, 1, 1, 1, 1, 1, 1, 1, 1, 3, 13, 3,
     13, 9, 10, 20, 27, 20, 27, 39, 3, 39, 3, 4, 77, 4, 9, 10, 40, 61, 40, 61,
     76, 75, 4, 74, 4, 5, 73, 72, 70, 68, 66, 63, 60, 58, 54, 51, 50, 5, 5, 6,
     47, 45, 41, 37, 31, 24, 17, 16, 11, 0, 0, 6, 6, 7, 0, 0, 0, 0, 0, 0,
     0, 0, 0, 0, 0, 7, 7, 8, 0, 0, 0, 0, 0, 0, 0, 0, 0, 0, 0, 8,
     8, 12, 0, 0, 0, 12, 0, 12, 0, 0, 12, 12, 12, 12, 12, 12, 21, 0, 0, 0,
     21, 0, 21, 0, 0, 21, 21, 21, 21, 21, 21, 36, 0, 36, 0, 0, 0, 0, 0, 0,
     36, 44, 0, 44, 0, 0, 0, 0, 0, 0, 44, 56, 0, 56, 0, 0, 0, 0, 0, 0,
     56, 57, 0, 0, 0, 57, 0, 57, 0, 0, 57, 57, 57, 57, 57, 57, 59, 0, 59, 0,
     59, 59, 64, 0, 64, 0, 0, 0, 0, 0, 0, 64, 67, 0, 67, 0, 67, 67, 79, 79,
     79, 79, 79, 79, 79, 80, 80, 80, 80, 80, 80, 80, 81, 81, 81, 81, 81, 81, 81, 82,
     82, 82, 82, 82, 82, 82, 83, 0, 83, 83, 83, 83, 83, 84, 0, 84, 0, 84, 84, 84,
     85, 0, 85, 85, 85, 85, 86, 0, 86, 86, 86, 86, 86, 87, 0, 0, 87, 0, 87, 87,
     88, 0, 88, 88, 88, 88, 88, 89, 89, 90, 0, 0, 90, 0, 90, 90, 91, 0, 91, 91,
     91, 91, 91, 92, 92, 93, 93, 94, 0, 94, 94, 94, 94, 94, 95, 95, 96, 96, 78, 78,
     78, 78, 78, 78, 78, 78, 78, 78, 78, 78, 78, 78, 78, 78, 78]"

text \<open>The rules whose match may contain a newline.\<close>

definition yy_rule_can_match_eol :: "nat list" where
  "yy_rule_can_match_eol =
    [0, 1, 1, 0, 0, 0, 0, 0, 0, 0, 0, 1, 0, 0, 0, 0, 0, 0, 1, 1, 0, 0, 0, 0, 0]"

section \<open>One transition\<close>

text \<open>\<open>a[i]\<close>\<close>

definition item :: "'a list \<Rightarrow> nat \<Rightarrow> 'a option" where
  "item a i = (if i < length a then Some (a ! i) else None)"

lemma item_Some [simp]: "i < length a \<Longrightarrow> item a i = Some (a ! i)"
  by (simp add: item_def)

text \<open>The inner loop of the matching loops, and the step after it.\<close>

partial_function (option) yy_next :: "nat \<Rightarrow> nat \<Rightarrow> nat option" where
  "yy_next state c =
     do { b \<leftarrow> item yy_base state;
          k \<leftarrow> item yy_chk (b + c);
          if k = state then item yy_nxt (b + c)
          else do { d \<leftarrow> item yy_def state;
                    c \<leftarrow> (if d \<ge> 79 then item yy_meta c else Some c);
                    yy_next d c } }"

section \<open>The uncompressed table\<close>

text \<open>The successors of the states for the classes 0 to 16; state 78 is the one without a match, and
  state 0 is not used.\<close>

definition dfa_rows :: "nat list list" where
  "dfa_rows =
    [[78, 78, 78, 78, 78, 78, 78, 78, 78, 78, 78, 78, 78, 78, 78, 78, 78],
     [11, 12, 13, 14, 13, 15, 16, 17, 18, 19, 12, 12, 20, 21, 22, 12, 23],
     [11, 12, 13, 14, 13, 15, 16, 17, 18, 19, 12, 12, 20, 21, 22, 12, 23],
     [11, 24, 24, 25, 24, 26, 24, 24, 24, 24, 24, 24, 24, 24, 27, 24, 28],
     [11, 24, 24, 25, 24, 26, 24, 24, 24, 24, 24, 24, 24, 24, 27, 24, 28],
     [11, 29, 29, 30, 29, 29, 29, 29, 29, 29, 29, 29, 29, 29, 29, 31, 28],
     [11, 29, 29, 30, 29, 29, 29, 29, 29, 29, 29, 29, 29, 29, 29, 31, 28],
     [11, 32, 32, 30, 32, 32, 32, 32, 32, 32, 32, 32, 32, 32, 32, 33, 28],
     [11, 32, 32, 30, 32, 32, 32, 32, 32, 32, 32, 32, 32, 32, 32, 33, 28],
     [11, 34, 34, 14, 34, 34, 34, 34, 34, 34, 34, 34, 34, 34, 34, 34, 28],
     [11, 34, 34, 14, 34, 34, 34, 34, 34, 34, 34, 34, 34, 34, 34, 34, 28],
     [78, 78, 78, 78, 78, 78, 78, 78, 78, 78, 78, 78, 78, 78, 78, 78, 78],
     [11, 35, 78, 78, 78, 36, 78, 37, 78, 78, 35, 35, 35, 35, 38, 35, 78],
     [11, 78, 39, 78, 39, 78, 78, 78, 78, 78, 78, 78, 78, 78, 78, 78, 78],
     [11, 78, 78, 78, 78, 78, 78, 78, 78, 78, 78, 78, 78, 78, 78, 78, 78],
     [11, 78, 78, 78, 78, 78, 78, 78, 78, 78, 78, 78, 78, 78, 78, 78, 78],
     [11, 78, 78, 78, 78, 78, 78, 78, 78, 78, 78, 78, 78, 40, 78, 78, 78],
     [11, 35, 78, 78, 78, 36, 78, 37, 41, 78, 35, 35, 35, 35, 38, 35, 78],
     [11, 78, 78, 78, 78, 78, 78, 78, 78, 78, 78, 78, 78, 78, 78, 78, 78],
     [11, 78, 78, 78, 78, 78, 78, 78, 78, 78, 78, 78, 78, 78, 78, 78, 78],
     [11, 35, 78, 78, 78, 36, 78, 37, 78, 78, 42, 35, 42, 35, 38, 35, 78],
     [11, 43, 78, 78, 78, 44, 78, 45, 78, 78, 43, 46, 43, 47, 48, 43, 78],
     [11, 49, 49, 78, 49, 49, 49, 49, 49, 49, 49, 49, 49, 49, 49, 49, 78],
     [11, 78, 78, 78, 78, 78, 78, 78, 78, 78, 78, 78, 78, 78, 78, 78, 78],
     [11, 50, 50, 78, 50, 78, 50, 50, 50, 50, 50, 50, 50, 50, 51, 50, 78],
     [11, 78, 78, 78, 78, 78, 78, 78, 78, 78, 78, 78, 78, 78, 78, 78, 78],
     [11, 78, 78, 78, 78, 78, 78, 78, 78, 78, 78, 78, 78, 78, 78, 78, 78],
     [11, 50, 50, 52, 50, 50, 50, 50, 50, 50, 50, 50, 50, 50, 50, 50, 78],
     [11, 78, 78, 78, 78, 78, 78, 78, 78, 78, 78, 78, 78, 78, 78, 78, 78],
     [11, 53, 53, 78, 53, 53, 53, 53, 53, 53, 53, 53, 53, 53, 53, 78, 78],
     [11, 78, 78, 78, 78, 78, 78, 78, 78, 78, 78, 78, 78, 78, 78, 78, 78],
     [11, 78, 78, 78, 78, 78, 78, 78, 78, 78, 78, 54, 78, 78, 78, 78, 78],
     [11, 78, 78, 78, 78, 78, 78, 78, 78, 78, 78, 78, 78, 78, 78, 78, 78],
     [11, 78, 78, 78, 78, 78, 78, 78, 78, 78, 78, 78, 78, 78, 78, 78, 78],
     [11, 55, 55, 78, 55, 55, 55, 55, 55, 55, 55, 55, 55, 55, 55, 55, 78],
     [11, 35, 78, 78, 78, 36, 78, 37, 78, 78, 35, 35, 35, 35, 38, 35, 78],
     [11, 56, 56, 78, 78, 57, 78, 58, 78, 78, 56, 56, 56, 56, 59, 56, 78],
     [11, 35, 78, 78, 78, 36, 78, 37, 60, 78, 35, 35, 35, 35, 38, 35, 78],
     [11, 35, 35, 78, 35, 35, 35, 35, 35, 35, 35, 35, 35, 35, 35, 35, 78],
     [11, 78, 39, 78, 39, 78, 78, 78, 78, 78, 78, 78, 78, 78, 78, 78, 78],
     [11, 78, 78, 78, 78, 78, 78, 78, 78, 78, 78, 61, 78, 47, 78, 78, 78],
     [11, 78, 78, 78, 78, 78, 78, 78, 78, 62, 63, 78, 63, 78, 78, 78, 78],
     [11, 35, 78, 78, 78, 36, 78, 37, 78, 78, 42, 35, 42, 35, 38, 35, 78],
     [11, 35, 78, 78, 78, 36, 78, 37, 78, 78, 35, 35, 35, 35, 38, 35, 78],
     [11, 64, 64, 78, 78, 65, 78, 66, 78, 78, 64, 64, 64, 64, 67, 64, 78],
     [11, 35, 78, 78, 78, 36, 78, 37, 68, 78, 35, 35, 35, 35, 38, 35, 78],
     [11, 43, 78, 78, 78, 44, 78, 45, 78, 78, 43, 46, 43, 47, 48, 43, 78],
     [11, 78, 78, 69, 78, 78, 78, 78, 78, 78, 78, 78, 78, 78, 78, 78, 78],
     [11, 43, 43, 78, 43, 43, 43, 43, 43, 43, 43, 43, 43, 43, 43, 43, 78],
     [11, 35, 78, 78, 78, 36, 78, 37, 78, 78, 35, 35, 35, 35, 38, 35, 78],
     [11, 50, 50, 78, 50, 78, 50, 50, 50, 50, 50, 50, 50, 50, 51, 50, 78],
     [11, 50, 50, 78, 50, 50, 50, 50, 50, 50, 50, 50, 50, 50, 50, 50, 78],
     [11, 78, 78, 78, 78, 78, 78, 78, 78, 78, 78, 78, 78, 78, 78, 78, 78],
     [11, 53, 53, 78, 53, 53, 53, 53, 53, 53, 53, 53, 53, 53, 53, 78, 78],
     [11, 78, 78, 78, 78, 78, 78, 78, 78, 78, 78, 54, 78, 78, 78, 78, 78],
     [11, 55, 55, 78, 55, 55, 55, 55, 55, 55, 55, 55, 55, 55, 55, 55, 78],
     [11, 56, 56, 78, 78, 57, 78, 58, 78, 78, 56, 56, 56, 56, 59, 56, 78],
     [11, 57, 78, 78, 78, 36, 78, 70, 78, 78, 57, 57, 57, 57, 71, 57, 78],
     [11, 56, 56, 78, 78, 57, 78, 58, 72, 78, 56, 56, 56, 56, 59, 56, 78],
     [11, 56, 56, 78, 56, 56, 56, 56, 56, 56, 56, 56, 56, 56, 56, 56, 78],
     [11, 78, 78, 78, 78, 78, 78, 78, 78, 57, 73, 78, 73, 78, 78, 78, 78],
     [11, 78, 78, 78, 78, 78, 78, 78, 78, 78, 78, 61, 78, 47, 78, 78, 78],
     [11, 57, 78, 78, 78, 36, 78, 70, 78, 78, 57, 57, 57, 57, 71, 57, 78],
     [11, 78, 78, 78, 78, 78, 78, 78, 78, 62, 63, 78, 63, 78, 78, 78, 78],
     [11, 64, 64, 78, 78, 65, 78, 66, 78, 78, 64, 64, 64, 64, 67, 64, 78],
     [11, 57, 78, 78, 78, 36, 78, 70, 78, 78, 57, 57, 57, 57, 71, 57, 78],
     [11, 64, 64, 78, 78, 65, 78, 66, 74, 78, 64, 64, 64, 64, 67, 64, 78],
     [11, 64, 64, 78, 64, 64, 64, 64, 64, 64, 64, 64, 64, 64, 64, 64, 78],
     [11, 78, 78, 78, 78, 78, 78, 78, 78, 65, 75, 78, 75, 78, 78, 78, 78],
     [11, 78, 78, 78, 78, 78, 78, 78, 78, 78, 78, 78, 78, 78, 78, 78, 78],
     [11, 57, 78, 78, 78, 36, 78, 70, 60, 78, 57, 57, 57, 57, 71, 57, 78],
     [11, 57, 57, 78, 57, 57, 57, 57, 57, 57, 57, 57, 57, 57, 57, 57, 78],
     [11, 78, 78, 78, 78, 78, 78, 78, 78, 56, 76, 78, 76, 78, 78, 78, 78],
     [11, 78, 78, 78, 78, 78, 78, 78, 78, 57, 73, 78, 73, 78, 78, 78, 78],
     [11, 78, 78, 78, 78, 78, 78, 78, 78, 64, 77, 78, 77, 78, 78, 78, 78],
     [11, 78, 78, 78, 78, 78, 78, 78, 78, 65, 75, 78, 75, 78, 78, 78, 78],
     [11, 78, 78, 78, 78, 78, 78, 78, 78, 56, 76, 78, 76, 78, 78, 78, 78],
     [11, 78, 78, 78, 78, 78, 78, 78, 78, 64, 77, 78, 77, 78, 78, 78, 78],
     [11, 78, 78, 78, 78, 78, 78, 78, 78, 78, 78, 78, 78, 78, 78, 78, 78]]"

definition dfa_next :: "nat \<Rightarrow> nat \<Rightarrow> nat" where
  "dfa_next q c = dfa_rows ! q ! c"

text \<open>The tables as functions, and their entries as rewrite rules.\<close>

definition yy_base_at :: "nat \<Rightarrow> nat" where "yy_base_at = (!) yy_base"
definition yy_def_at :: "nat \<Rightarrow> nat" where "yy_def_at = (!) yy_def"
definition yy_meta_at :: "nat \<Rightarrow> nat" where "yy_meta_at = (!) yy_meta"
definition yy_nxt_at :: "nat \<Rightarrow> nat" where "yy_nxt_at = (!) yy_nxt"
definition yy_chk_at :: "nat \<Rightarrow> nat" where "yy_chk_at = (!) yy_chk"

lemma entries: "f = (!) xs \<Longrightarrow> list_all (\<lambda>(i, v). f i = v) (enumerate 0 xs)"
  by (auto simp: list_all_length nth_enumerate_eq)

lemmas entry_simps = enumerate_simps list.pred_inject prod.case numeral_2_eq_2 [symmetric] Suc_numeral add_num_simps simp_thms

lemmas base_entries = entries [OF yy_base_at_def, unfolded yy_base_def, simplified entry_simps]
lemmas def_entries = entries [OF yy_def_at_def, unfolded yy_def_def, simplified entry_simps]
lemmas meta_entries = entries [OF yy_meta_at_def, unfolded yy_meta_def, simplified entry_simps]
lemmas nxt_entries = entries [OF yy_nxt_at_def, unfolded yy_nxt_def, simplified entry_simps]
lemmas chk_entries = entries [OF yy_chk_at_def, unfolded yy_chk_def, simplified entry_simps]

lemma table_sizes:
  "length yy_base = 97" "length yy_def = 97" "length yy_meta = 17" "length yy_chk = 315" "length yy_nxt = 315"
  "length yy_ec = 256" "length yy_accept = 79"
  by (simp_all add: yy_base_def yy_def_def yy_meta_def yy_chk_def yy_nxt_def yy_ec_def yy_accept_def)

lemma table_bounds: "list_all (\<lambda>b. b \<le> 298) yy_base"
  by (simp add: yy_base_def)

lemma yy_next_eq:
  assumes "q < 97" and "c < 17"
  shows "yy_next q c = (if yy_chk_at (yy_base_at q + c) = q then Some (yy_nxt_at (yy_base_at q + c))
    else yy_next (yy_def_at q) (if yy_def_at q \<ge> 79 then yy_meta_at c else c))"
proof -
  have "yy_base ! q \<le> 298" using table_bounds table_sizes(1) assms(1) by (simp add: list_all_length)
  then show ?thesis
    using assms by (subst yy_next.simps)
      (simp add: table_sizes yy_base_at_def yy_chk_at_def yy_nxt_at_def yy_def_at_def yy_meta_at_def)
qed

definition dfa_row :: "nat \<Rightarrow> nat list" where "dfa_row = (!) dfa_rows"

lemmas row_entries = entries [OF dfa_row_def, unfolded dfa_rows_def, simplified entry_simps]

lemma rows_checked: "list_all (\<lambda>q. list_all (\<lambda>(c, r). yy_next q c = Some r) (enumerate 0 (dfa_row q))) (1 # [2..<79])"
  by (simp add: numeral_2_eq_2 [symmetric] row_entries yy_next_eq base_entries def_entries meta_entries nxt_entries chk_entries)

lemma dfa_rows_size: "length dfa_rows = 79" "list_all (\<lambda>row. length row = 17 \<and> list_all (\<lambda>q. 11 \<le> q \<and> q < 79) row) dfa_rows"
  by (simp_all add: dfa_rows_def)

lemma yy_next_dfa:
  assumes "0 < q" and "q < 79" and "c < 17"
  shows "yy_next q c = Some (dfa_next q c)"
proof -
  have l: "length (dfa_rows ! q) = 17" using dfa_rows_size assms(2) by (simp add: list_all_length)
  have q: "q \<in> set (1 # [2..<79])" unfolding list.set set_upt using assms(1,2) by auto
  have "list_all (\<lambda>(c, r). yy_next q c = Some r) (enumerate 0 (dfa_rows ! q))"
    using bspec [OF rows_checked [unfolded list_all_iff [of _ "1 # [2..<79]"]] q] by (simp add: dfa_row_def)
  then show ?thesis using l assms(3) by (auto simp: list_all_length nth_enumerate_eq dfa_next_def)
qed

lemma dfa_next_bounds: "q < 79 \<Longrightarrow> c < 17 \<Longrightarrow> 11 \<le> dfa_next q c \<and> dfa_next q c < 79"
  using dfa_rows_size by (auto simp: dfa_next_def list_all_length)

end
