(* ===== verification/ListFileRules.thy ===== *)
theory ListFileRules
  imports ListFileTables
begin

text \<open>
  The rules of the scanner of the CMake language, as its specification
  (\<^verbatim>\<open>LexerParser/cmListFileLexer.in.l\<close>) states them: regular expressions over bytes, active in some of
  the start conditions; a match is as long as possible, and the first such rule wins.  The tables of
  the generated code are shown to implement them.
\<close>

section \<open>Regular expressions\<close>

text \<open>The character classes of the rules; \<open>member\<close> reads the code of a byte.\<close>

datatype charset = Newline | Hash | LBracket | RBracket | Equals | LParen | RParen | Dollar | Backslash | Quote
  | IdentStart | IdentChar | Blank | BracketOrEquals | LegacyQuoted
  | NotNulNewline | NotRBracket | PlainUnquoted | PlainQuoted | Dot | AnyByte

fun code_member :: "charset \<Rightarrow> nat \<Rightarrow> bool" where
  "code_member Newline n = (n = 0x0A)"
| "code_member Hash n = (n = 0x23)"
| "code_member LBracket n = (n = 0x5B)"
| "code_member RBracket n = (n = 0x5D)"
| "code_member Equals n = (n = 0x3D)"
| "code_member LParen n = (n = 0x28)"
| "code_member RParen n = (n = 0x29)"
| "code_member Dollar n = (n = 0x24)"
| "code_member Backslash n = (n = 0x5C)"
| "code_member Quote n = (n = 0x22)"
| "code_member IdentStart n = (0x41 \<le> n \<and> n \<le> 0x5A \<or> 0x61 \<le> n \<and> n \<le> 0x7A \<or> n = 0x5F)"
| "code_member IdentChar n = (0x41 \<le> n \<and> n \<le> 0x5A \<or> 0x61 \<le> n \<and> n \<le> 0x7A \<or> 0x30 \<le> n \<and> n \<le> 0x39 \<or> n = 0x5F)"
| "code_member Blank n = (n = 0x20 \<or> n = 0x09 \<or> n = 0x0D)"
| "code_member BracketOrEquals n = (n = 0x5B \<or> n = 0x3D)"
| "code_member LegacyQuoted n = (n = 0x20 \<or> n = 0x09 \<or> n = 0x5B \<or> n = 0x3D)"
| "code_member NotNulNewline n = (n \<noteq> 0 \<and> n \<noteq> 0x0A)"
| "code_member NotRBracket n = (n \<noteq> 0x5D \<and> n \<noteq> 0 \<and> n \<noteq> 0x0A)"
| "code_member PlainUnquoted n = (n \<notin> {0x20, 0, 0x09, 0x0D, 0x0A, 0x28, 0x29, 0x23, 0x5C, 0x22, 0x5B, 0x3D})"
| "code_member PlainQuoted n = (n \<notin> {0x5C, 0, 0x0A, 0x22})"
| "code_member Dot n = (n \<noteq> 0x0A)"
| "code_member AnyByte n = True"

definition member :: "charset \<Rightarrow> byte \<Rightarrow> bool" where
  "member a b = code_member a (unat b)"

datatype rexp = Eps | Atom charset | Seq rexp rexp | Alt rexp rexp | Star rexp

inductive_set star :: "'a list set \<Rightarrow> 'a list set" for L where
  star_Nil: "[] \<in> star L"
| star_append: "u \<in> L \<Longrightarrow> v \<in> star L \<Longrightarrow> u @ v \<in> star L"

fun lang :: "rexp \<Rightarrow> byte list set" where
  "lang Eps = {[]}"
| "lang (Atom a) = {[b] | b. member a b}"
| "lang (Seq r s) = {u @ v | u v. u \<in> lang r \<and> v \<in> lang s}"
| "lang (Alt r s) = lang r \<union> lang s"
| "lang (Star r) = star (lang r)"

section \<open>The rules\<close>

definition MAKEVAR :: rexp where
  "MAKEVAR = Seq (Atom Dollar) (Seq (Atom LParen) (Seq (Star (Atom IdentChar)) (Atom RParen)))"

definition UNQUOTED :: rexp where
  "UNQUOTED = Alt (Atom PlainUnquoted) (Seq (Atom Backslash) (Atom NotNulNewline))"

definition legacy_quoted :: rexp where
  "legacy_quoted = Star (Alt MAKEVAR (Alt UNQUOTED (Atom LegacyQuoted)))"

definition LEGACY :: rexp where
  "LEGACY = Alt MAKEVAR (Alt UNQUOTED (Seq (Atom Quote) (Seq legacy_quoted (Atom Quote))))"

text \<open>What may follow the first element of an unquoted argument, and the text of a quoted argument.\<close>

definition unquoted_rest :: rexp where
  "unquoted_rest = Star (Alt UNQUOTED (Atom BracketOrEquals))"

definition legacy_rest :: rexp where
  "legacy_rest = Star (Alt LEGACY (Atom BracketOrEquals))"

definition string_char :: rexp where
  "string_char = Alt (Atom PlainQuoted) (Seq (Atom Backslash) (Atom NotNulNewline))"

definition string_rest :: rexp where
  "string_rest = Star string_char"

text \<open>The start conditions.\<close>

datatype condition = INITIAL | STRING | BRACKET | BRACKETEND | COMMENT

text \<open>The rules active in a condition; the last one is the default rule of the generator.\<close>

fun rules :: "condition \<Rightarrow> (nat \<times> rexp) list" where
  "rules INITIAL =
    [(1, Atom Newline),
     (2, Seq (Alt (Atom Hash) Eps) (Seq (Atom LBracket) (Seq (Star (Atom Equals)) (Seq (Atom LBracket) (Alt (Atom Newline) Eps))))),
     (3, Atom Hash),
     (5, Atom LParen),
     (6, Atom RParen),
     (7, Seq (Atom IdentStart) (Star (Atom IdentChar))),
     (13, Seq (Alt UNQUOTED (Alt (Atom Equals) (Seq (Atom LBracket) (Seq (Star (Atom Equals)) UNQUOTED)))) unquoted_rest),
     (14, Seq (Alt MAKEVAR (Alt UNQUOTED (Alt (Atom Equals) (Seq (Atom LBracket) (Seq (Star (Atom Equals)) LEGACY))))) legacy_rest),
     (15, Atom LBracket),
     (16, Atom Quote),
     (22, Seq (Atom Blank) (Star (Atom Blank))),
     (23, Atom Dot),
     (24, Atom AnyByte)]"
| "rules STRING =
    [(17, Seq string_char string_rest),
     (18, Seq (Atom Backslash) (Atom Newline)),
     (19, Atom Newline),
     (20, Atom Quote),
     (21, Atom NotNulNewline),
     (24, Atom AnyByte)]"
| "rules BRACKET =
    [(8, Seq (Atom RBracket) (Star (Atom Equals))),
     (10, Seq (Atom NotRBracket) (Star (Atom NotRBracket))),
     (11, Atom Newline),
     (12, Atom NotNulNewline),
     (24, Atom AnyByte)]"
| "rules BRACKETEND =
    [(9, Atom RBracket),
     (11, Atom Newline),
     (12, Atom NotNulNewline),
     (24, Atom AnyByte)]"
| "rules COMMENT =
    [(1, Atom Newline),
     (4, Star (Atom NotNulNewline)),
     (24, Atom AnyByte)]"

text \<open>The first rule of a condition that matches a text.\<close>

definition first_match :: "(nat \<times> rexp) list \<Rightarrow> byte list \<Rightarrow> nat option" where
  "first_match rs w = map_option fst (find (\<lambda>(n, r). w \<in> lang r) rs)"

text \<open>The longest prefix that a rule matches, and the rule.\<close>

definition longest_match :: "condition \<Rightarrow> byte list \<Rightarrow> nat \<Rightarrow> nat \<Rightarrow> bool" where
  "longest_match sc w act n \<longleftrightarrow> n \<le> length w \<and> first_match (rules sc) (take n w) = Some act
     \<and> (\<forall>m. n < m \<and> m \<le> length w \<longrightarrow> first_match (rules sc) (take m w) = None)"

lemma longest_match_unique:
  "longest_match sc w act n \<Longrightarrow> longest_match sc w act' n' \<Longrightarrow> act = act' \<and> n = n'"
  by (metis longest_match_def linorder_neqE_nat option.distinct(1) option.inject)

section \<open>Derivatives\<close>

text \<open>The partial derivatives, for a class of bytes.\<close>

fun class_has :: "charset \<Rightarrow> nat \<Rightarrow> bool" where
  "class_has Newline c = (c = 3)"
| "class_has Hash c = (c = 6)"
| "class_has LBracket c = (c = 13)"
| "class_has RBracket c = (c = 15)"
| "class_has Equals c = (c = 11)"
| "class_has LParen c = (c = 8)"
| "class_has RParen c = (c = 9)"
| "class_has Dollar c = (c = 7)"
| "class_has Backslash c = (c = 14)"
| "class_has Quote c = (c = 5)"
| "class_has IdentStart c = (c = 12)"
| "class_has IdentChar c = (c = 10 \<or> c = 12)"
| "class_has Blank c = (c = 2 \<or> c = 4)"
| "class_has BracketOrEquals c = (c = 11 \<or> c = 13)"
| "class_has LegacyQuoted c = (c = 2 \<or> c = 11 \<or> c = 13)"
| "class_has NotNulNewline c = (c \<noteq> 3 \<and> c \<noteq> 16)"
| "class_has NotRBracket c = (c \<noteq> 3 \<and> c \<noteq> 15 \<and> c \<noteq> 16)"
| "class_has PlainUnquoted c = (c = 1 \<or> c = 7 \<or> c = 10 \<or> c = 12 \<or> c = 15)"
| "class_has PlainQuoted c = (c \<noteq> 3 \<and> c \<noteq> 5 \<and> c \<noteq> 14 \<and> c \<noteq> 16)"
| "class_has Dot c = (c \<noteq> 3)"
| "class_has AnyByte c = True"

definition ec_of :: "nat \<Rightarrow> nat" where
  "ec_of n = (if n = 0 then 0 else if n = 0x09 \<or> n = 0x20 then 2 else if n = 0x0A then 3 else if n = 0x0D then 4
     else if n = 0x22 then 5 else if n = 0x23 then 6 else if n = 0x24 then 7 else if n = 0x28 then 8
     else if n = 0x29 then 9 else if 0x30 \<le> n \<and> n \<le> 0x39 then 10 else if n = 0x3D then 11
     else if 0x41 \<le> n \<and> n \<le> 0x5A \<or> 0x61 \<le> n \<and> n \<le> 0x7A \<or> n = 0x5F then 12
     else if n = 0x5B then 13 else if n = 0x5C then 14 else if n = 0x5D then 15 else 1)"

definition yy_ec_at :: "nat \<Rightarrow> nat" where "yy_ec_at = (!) yy_ec"

lemmas ec_entries = entries [OF yy_ec_at_def, unfolded yy_ec_def, simplified entry_simps]

lemma ec_checked: "list_all (\<lambda>(i, e). ec_of i = e) (enumerate 0 yy_ec)"
  by (simp add: yy_ec_def ec_of_def)

lemma ec_char: "n < 256 \<Longrightarrow> yy_ec ! n = ec_of n"
  using ec_checked by (auto simp: list_all_length nth_enumerate_eq table_sizes)

text \<open>The class of a byte of the input.\<close>

definition yy_class :: "byte \<Rightarrow> nat" where
  "yy_class b = (if b = 0 then 16 else yy_ec ! unat b)"

lemma yy_class_char: "yy_class b = (if b = 0 then 16 else ec_of (unat b))"
  by (simp add: yy_class_def ec_char)

lemma yy_class_bounds: "0 < yy_class b" "yy_class b < 17"
  by (simp_all add: yy_class_char ec_of_def unat_eq_0)

lemma class_member: "member a b \<longleftrightarrow> class_has a (yy_class b)"
proof -
  have z: "b = 0 \<longleftrightarrow> unat b = 0" by (simp add: unat_eq_0)
  show ?thesis unfolding member_def yy_class_char z
    by (cases a) (auto simp: ec_of_def)
qed

fun nullable :: "rexp \<Rightarrow> bool" where
  "nullable Eps = True"
| "nullable (Atom a) = False"
| "nullable (Seq r s) = (nullable r \<and> nullable s)"
| "nullable (Alt r s) = (nullable r \<or> nullable s)"
| "nullable (Star r) = True"

fun after_seq :: "rexp \<Rightarrow> rexp \<Rightarrow> rexp" where
  "after_seq Eps s = s"
| "after_seq r s = Seq r s"

fun pderivs :: "nat \<Rightarrow> rexp \<Rightarrow> rexp list" where
  "pderivs c Eps = []"
| "pderivs c (Atom a) = (if class_has a c then [Eps] else [])"
| "pderivs c (Seq r s) = map (\<lambda>r. after_seq r s) (pderivs c r) @ (if nullable r then pderivs c s else [])"
| "pderivs c (Alt r s) = pderivs c r @ pderivs c s"
| "pderivs c (Star r) = map (\<lambda>r'. after_seq r' (Star r)) (pderivs c r)"

lemma nullable_iff: "nullable r \<longleftrightarrow> [] \<in> lang r"
  by (induction r) (auto intro: star.intros)

lemma lang_after_seq: "w \<in> lang (after_seq r s) \<longleftrightarrow> (\<exists>u v. w = u @ v \<and> u \<in> lang r \<and> v \<in> lang s)"
  by (cases r) auto

lemma star_Cons: "b # w \<in> star L \<longleftrightarrow> (\<exists>u v. w = u @ v \<and> b # u \<in> L \<and> v \<in> star L)"
proof
  assume "b # w \<in> star L"
  then show "\<exists>u v. w = u @ v \<and> b # u \<in> L \<and> v \<in> star L"
  proof (induction "b # w" arbitrary: w rule: star.induct)
    case (star_append u v)
    then show ?case by (cases u) auto
  qed
next
  assume "\<exists>u v. w = u @ v \<and> b # u \<in> L \<and> v \<in> star L"
  then obtain u v where "w = u @ v" "b # u \<in> L" "v \<in> star L" by blast
  then show "b # w \<in> star L" using star.star_append [of "b # u" L v] by simp
qed

lemma pderivs_lang: "b # w \<in> lang r \<longleftrightarrow> (\<exists>s\<in>set (pderivs (yy_class b) r). w \<in> lang s)"
proof (induction r arbitrary: w)
  case (Atom a)
  then show ?case by (auto simp: class_member)
next
  case (Seq r s)
  have split: "b # w \<in> lang (Seq r s) \<longleftrightarrow> (\<exists>u v. w = u @ v \<and> b # u \<in> lang r \<and> v \<in> lang s) \<or> nullable r \<and> b # w \<in> lang s"
    by (auto simp: nullable_iff Cons_eq_append_conv)
  show ?case unfolding split pderivs.simps Seq.IH set_append set_map bex_Un bex_simps(7) lang_after_seq by auto
next
  case (Alt r s)
  then show ?case by auto
next
  case (Star r)
  then show ?case by (auto simp: star_Cons lang_after_seq)
qed simp

section \<open>The residual rules of a state\<close>

text \<open>What is left of the rules in each state of the automaton.\<close>

definition residual_list :: "(nat \<times> rexp) list list" where
  "residual_list =
    [[],
     [(1, (Atom Newline)), (2, (Seq (Alt (Atom Hash) Eps) (Seq (Atom LBracket) (Seq (Star (Atom Equals)) (Seq (Atom
       LBracket) (Alt (Atom Newline) Eps)))))), (3, (Atom Hash)), (5, (Atom LParen)), (6, (Atom RParen)), (7, (Seq
       (Atom IdentStart) (Star (Atom IdentChar)))), (13, (Seq (Alt UNQUOTED (Alt (Atom Equals) (Seq (Atom LBracket)
       (Seq (Star (Atom Equals)) UNQUOTED)))) unquoted_rest)), (14, (Seq (Alt MAKEVAR (Alt UNQUOTED (Alt (Atom Equals)
       (Seq (Atom LBracket) (Seq (Star (Atom Equals)) LEGACY))))) legacy_rest)), (15, (Atom LBracket)), (16, (Atom
       Quote)), (22, (Seq (Atom Blank) (Star (Atom Blank)))), (23, (Atom Dot)), (24, (Atom AnyByte))],
     [(1, (Atom Newline)), (2, (Seq (Alt (Atom Hash) Eps) (Seq (Atom LBracket) (Seq (Star (Atom Equals)) (Seq (Atom
       LBracket) (Alt (Atom Newline) Eps)))))), (3, (Atom Hash)), (5, (Atom LParen)), (6, (Atom RParen)), (7, (Seq
       (Atom IdentStart) (Star (Atom IdentChar)))), (13, (Seq (Alt UNQUOTED (Alt (Atom Equals) (Seq (Atom LBracket)
       (Seq (Star (Atom Equals)) UNQUOTED)))) unquoted_rest)), (14, (Seq (Alt MAKEVAR (Alt UNQUOTED (Alt (Atom Equals)
       (Seq (Atom LBracket) (Seq (Star (Atom Equals)) LEGACY))))) legacy_rest)), (15, (Atom LBracket)), (16, (Atom
       Quote)), (22, (Seq (Atom Blank) (Star (Atom Blank)))), (23, (Atom Dot)), (24, (Atom AnyByte))],
     [(17, (Seq string_char string_rest)), (18, (Seq (Atom Backslash) (Atom Newline))), (19, (Atom Newline)), (20,
       (Atom Quote)), (21, (Atom NotNulNewline)), (24, (Atom AnyByte))],
     [(17, (Seq string_char string_rest)), (18, (Seq (Atom Backslash) (Atom Newline))), (19, (Atom Newline)), (20,
       (Atom Quote)), (21, (Atom NotNulNewline)), (24, (Atom AnyByte))],
     [(8, (Seq (Atom RBracket) (Star (Atom Equals)))), (10, (Seq (Atom NotRBracket) (Star (Atom NotRBracket)))), (11,
       (Atom Newline)), (12, (Atom NotNulNewline)), (24, (Atom AnyByte))],
     [(8, (Seq (Atom RBracket) (Star (Atom Equals)))), (10, (Seq (Atom NotRBracket) (Star (Atom NotRBracket)))), (11,
       (Atom Newline)), (12, (Atom NotNulNewline)), (24, (Atom AnyByte))],
     [(9, (Atom RBracket)), (11, (Atom Newline)), (12, (Atom NotNulNewline)), (24, (Atom AnyByte))],
     [(9, (Atom RBracket)), (11, (Atom Newline)), (12, (Atom NotNulNewline)), (24, (Atom AnyByte))],
     [(1, (Atom Newline)), (4, (Star (Atom NotNulNewline))), (24, (Atom AnyByte))],
     [(1, (Atom Newline)), (4, (Star (Atom NotNulNewline))), (24, (Atom AnyByte))],
     [],
     [(13, unquoted_rest), (14, legacy_rest), (23, Eps), (24, Eps)],
     [(22, (Star (Atom Blank))), (23, Eps), (24, Eps)],
     [(1, Eps), (24, Eps)],
     [(16, Eps), (23, Eps), (24, Eps)],
     [(2, (Seq (Atom LBracket) (Seq (Star (Atom Equals)) (Seq (Atom LBracket) (Alt (Atom Newline) Eps))))), (3, Eps),
       (23, Eps), (24, Eps)],
     [(13, unquoted_rest), (14, (Seq (Seq (Atom LParen) (Seq (Star (Atom IdentChar)) (Atom RParen))) legacy_rest)),
       (14, legacy_rest), (23, Eps), (24, Eps)],
     [(5, Eps), (23, Eps), (24, Eps)],
     [(6, Eps), (23, Eps), (24, Eps)],
     [(7, (Star (Atom IdentChar))), (13, unquoted_rest), (14, legacy_rest), (23, Eps), (24, Eps)],
     [(2, (Seq (Star (Atom Equals)) (Seq (Atom LBracket) (Alt (Atom Newline) Eps)))), (13, (Seq (Seq (Star (Atom
       Equals)) UNQUOTED) unquoted_rest)), (14, (Seq (Seq (Star (Atom Equals)) LEGACY) legacy_rest)), (15, Eps), (23,
       Eps), (24, Eps)],
     [(13, (Seq (Atom NotNulNewline) unquoted_rest)), (14, (Seq (Atom NotNulNewline) legacy_rest)), (23, Eps), (24,
       Eps)],
     [(23, Eps), (24, Eps)],
     [(17, string_rest), (21, Eps), (24, Eps)],
     [(19, Eps), (24, Eps)],
     [(20, Eps), (21, Eps), (24, Eps)],
     [(17, (Seq (Atom NotNulNewline) string_rest)), (18, (Atom Newline)), (21, Eps), (24, Eps)],
     [(24, Eps)],
     [(10, (Star (Atom NotRBracket))), (12, Eps), (24, Eps)],
     [(11, Eps), (24, Eps)],
     [(8, (Star (Atom Equals))), (12, Eps), (24, Eps)],
     [(12, Eps), (24, Eps)],
     [(9, Eps), (12, Eps), (24, Eps)],
     [(4, (Star (Atom NotNulNewline))), (24, Eps)],
     [(13, unquoted_rest), (14, legacy_rest)],
     [(14, (Seq (Seq legacy_quoted (Atom Quote)) legacy_rest))],
     [(13, unquoted_rest), (14, (Seq (Seq (Atom LParen) (Seq (Star (Atom IdentChar)) (Atom RParen))) legacy_rest)),
       (14, legacy_rest)],
     [(13, (Seq (Atom NotNulNewline) unquoted_rest)), (14, (Seq (Atom NotNulNewline) legacy_rest))],
     [(22, (Star (Atom Blank)))],
     [(2, (Seq (Star (Atom Equals)) (Seq (Atom LBracket) (Alt (Atom Newline) Eps))))],
     [(14, (Seq (Seq (Star (Atom IdentChar)) (Atom RParen)) legacy_rest))],
     [(7, (Star (Atom IdentChar))), (13, unquoted_rest), (14, legacy_rest)],
     [(13, unquoted_rest), (14, legacy_rest)],
     [(14, (Seq (Seq legacy_quoted (Atom Quote)) legacy_rest))],
     [(13, unquoted_rest), (14, (Seq (Seq (Atom LParen) (Seq (Star (Atom IdentChar)) (Atom RParen))) legacy_rest)),
       (14, legacy_rest)],
     [(2, (Seq (Star (Atom Equals)) (Seq (Atom LBracket) (Alt (Atom Newline) Eps)))), (13, (Seq (Seq (Star (Atom
       Equals)) UNQUOTED) unquoted_rest)), (14, (Seq (Seq (Star (Atom Equals)) LEGACY) legacy_rest))],
     [(2, (Alt (Atom Newline) Eps))],
     [(13, (Seq (Atom NotNulNewline) unquoted_rest)), (14, (Seq (Atom NotNulNewline) legacy_rest))],
     [(13, unquoted_rest), (14, legacy_rest)],
     [(17, string_rest)],
     [(17, (Seq (Atom NotNulNewline) string_rest))],
     [(18, Eps)],
     [(10, (Star (Atom NotRBracket)))],
     [(8, (Star (Atom Equals)))],
     [(4, (Star (Atom NotNulNewline)))],
     [(14, (Seq (Seq legacy_quoted (Atom Quote)) legacy_rest))],
     [(14, legacy_rest)],
     [(14, (Seq (Seq (Seq (Seq (Atom LParen) (Seq (Star (Atom IdentChar)) (Atom RParen))) legacy_quoted) (Atom Quote))
       legacy_rest)), (14, (Seq (Seq legacy_quoted (Atom Quote)) legacy_rest))],
     [(14, (Seq (Seq (Seq (Atom NotNulNewline) legacy_quoted) (Atom Quote)) legacy_rest))],
     [(14, (Seq (Seq (Star (Atom IdentChar)) (Atom RParen)) legacy_rest))],
     [(2, (Seq (Star (Atom Equals)) (Seq (Atom LBracket) (Alt (Atom Newline) Eps))))],
     [(14, legacy_rest)],
     [(14, (Seq (Seq (Star (Atom IdentChar)) (Atom RParen)) legacy_rest))],
     [(14, (Seq (Seq legacy_quoted (Atom Quote)) legacy_rest))],
     [(14, legacy_rest)],
     [(14, (Seq (Seq (Seq (Seq (Atom LParen) (Seq (Star (Atom IdentChar)) (Atom RParen))) legacy_quoted) (Atom Quote))
       legacy_rest)), (14, (Seq (Seq legacy_quoted (Atom Quote)) legacy_rest))],
     [(14, (Seq (Seq (Seq (Atom NotNulNewline) legacy_quoted) (Atom Quote)) legacy_rest))],
     [(14, (Seq (Seq (Star (Atom IdentChar)) (Atom RParen)) legacy_rest))],
     [(2, Eps)],
     [(14, (Seq (Seq (Atom LParen) (Seq (Star (Atom IdentChar)) (Atom RParen))) legacy_rest)), (14, legacy_rest)],
     [(14, (Seq (Atom NotNulNewline) legacy_rest))],
     [(14, (Seq (Seq (Seq (Seq (Star (Atom IdentChar)) (Atom RParen)) legacy_quoted) (Atom Quote)) legacy_rest))],
     [(14, (Seq (Seq (Star (Atom IdentChar)) (Atom RParen)) legacy_rest))],
     [(14, (Seq (Seq (Seq (Seq (Star (Atom IdentChar)) (Atom RParen)) legacy_quoted) (Atom Quote)) legacy_rest))],
     [(14, (Seq (Seq (Star (Atom IdentChar)) (Atom RParen)) legacy_rest))],
     [(14, (Seq (Seq (Seq (Seq (Star (Atom IdentChar)) (Atom RParen)) legacy_quoted) (Atom Quote)) legacy_rest))],
     [(14, (Seq (Seq (Seq (Seq (Star (Atom IdentChar)) (Atom RParen)) legacy_quoted) (Atom Quote)) legacy_rest))],
     []]"

definition residual :: "nat \<Rightarrow> (nat \<times> rexp) list" where "residual = (!) residual_list"

lemmas residual_entries = entries [OF residual_def, unfolded residual_list_def, simplified entry_simps]

definition rule_derivs :: "nat \<Rightarrow> (nat \<times> rexp) list \<Rightarrow> (nat \<times> rexp) list" where
  "rule_derivs c rs = concat (map (\<lambda>(n, r). map (Pair n) (pderivs c r)) rs)"

lemma rule_derivs_simps:
  "rule_derivs c [] = []" "rule_derivs c ((n, r) # rs) = map (Pair n) (pderivs c r) @ rule_derivs c rs"
  by (simp_all add: rule_derivs_def)

fun subset_list :: "'a list \<Rightarrow> 'a list \<Rightarrow> bool" where
  "subset_list [] ys = True"
| "subset_list (x # xs) ys = (x \<in> set ys \<and> subset_list xs ys)"

text \<open>The derivatives of the parts that occur, which are not unfolded in the check.\<close>

lemma pderivs_parts:
  "pderivs c MAKEVAR = (if c = 7 then [Seq (Atom LParen) (Seq (Star (Atom IdentChar)) (Atom RParen))] else [])"
  "pderivs c UNQUOTED = (if class_has PlainUnquoted c then [Eps] else []) @ (if c = 14 then [Atom NotNulNewline] else [])"
  "pderivs c legacy_quoted = map (\<lambda>r. after_seq r legacy_quoted) (pderivs c MAKEVAR @ pderivs c UNQUOTED @ pderivs c (Atom LegacyQuoted))"
  "pderivs c LEGACY = pderivs c MAKEVAR @ pderivs c UNQUOTED @ (if c = 5 then [Seq legacy_quoted (Atom Quote)] else [])"
  "pderivs c unquoted_rest = map (\<lambda>r. after_seq r unquoted_rest) (pderivs c UNQUOTED @ pderivs c (Atom BracketOrEquals))"
  "pderivs c legacy_rest = map (\<lambda>r. after_seq r legacy_rest) (pderivs c LEGACY @ pderivs c (Atom BracketOrEquals))"
  "pderivs c string_char = (if class_has PlainQuoted c then [Eps] else []) @ (if c = 14 then [Atom NotNulNewline] else [])"
  "pderivs c string_rest = map (\<lambda>r. after_seq r string_rest) (pderivs c string_char)"
  "nullable MAKEVAR = False" "nullable UNQUOTED = False" "nullable legacy_quoted = True" "nullable LEGACY = False"
  "nullable unquoted_rest = True" "nullable legacy_rest = True" "nullable string_char = False" "nullable string_rest = True"
  by (simp_all add: MAKEVAR_def UNQUOTED_def legacy_quoted_def LEGACY_def unquoted_rest_def legacy_rest_def string_char_def string_rest_def)

definition same_rules :: "(nat \<times> rexp) list \<Rightarrow> (nat \<times> rexp) list \<Rightarrow> bool" where
  "same_rules rs ss \<longleftrightarrow> subset_list rs ss \<and> subset_list ss rs"

lemma after_parts:
  "after_seq MAKEVAR s = Seq MAKEVAR s" "after_seq UNQUOTED s = Seq UNQUOTED s" "after_seq legacy_quoted s = Seq legacy_quoted s"
  "after_seq LEGACY s = Seq LEGACY s" "after_seq unquoted_rest s = Seq unquoted_rest s" "after_seq legacy_rest s = Seq legacy_rest s"
  "after_seq string_rest s = Seq string_rest s"
  by (simp_all add: MAKEVAR_def UNQUOTED_def legacy_quoted_def LEGACY_def unquoted_rest_def legacy_rest_def string_rest_def)

lemma derivs_checked:
  "list_all (\<lambda>q. list_all (\<lambda>(c, q'). c = 0 \<or> same_rules (rule_derivs c (residual q)) (residual q')) (enumerate 0 (dfa_row q)))
     (1 # [2..<79])"
  by (simp add: numeral_2_eq_2 [symmetric] row_entries residual_entries same_rules_def rule_derivs_simps pderivs_parts after_parts)

lemma accepts_checked:
  "list_all (\<lambda>(q, n). q = 11 \<or> (if n = 0 then list_all (\<lambda>(m, r). \<not> nullable r) (residual q)
     else list_ex (\<lambda>(m, r). m = n \<and> nullable r) (residual q) \<and> list_all (\<lambda>(m, r). nullable r \<longrightarrow> n \<le> m) (residual q)))
     (enumerate 0 yy_accept)"
  by (simp add: numeral_2_eq_2 [symmetric] yy_accept_def residual_entries pderivs_parts)

end
