(* ===== verification/ListFileMatch.thy ===== *)
theory ListFileMatch
  imports ListFileRules
begin

text \<open>
  The automaton of \<^verbatim>\<open>LexerParser/cmListFileLexer.c\<close> implements the rules: the rule of the state that a
  text leads to is the first rule that matches the text, and the search for the last accepting state
  finds the longest match.
\<close>

section \<open>The automaton and the rules\<close>

definition dfa_run :: "nat \<Rightarrow> byte list \<Rightarrow> nat" where
  "dfa_run q w = fold (\<lambda>b q. dfa_next q (yy_class b)) w q"

lemma dfa_run_simps [simp]:
  "dfa_run q [] = q" "dfa_run q (b # w) = dfa_run (dfa_next q (yy_class b)) w" "dfa_run q (v @ w) = dfa_run (dfa_run q v) w"
  by (simp_all add: dfa_run_def)

text \<open>The states that come up on bytes of the input.\<close>

definition input_state :: "nat \<Rightarrow> bool" where
  "input_state q \<longleftrightarrow> 0 < q \<and> q < 79 \<and> q \<noteq> 11"

lemma rows_input: "list_all (\<lambda>row. list_all (\<lambda>q. input_state q) (tl row)) (tl dfa_rows)"
  by (simp add: dfa_rows_def input_state_def)

lemma dfa_next_input: "input_state q \<Longrightarrow> input_state (dfa_next q (yy_class b))"
proof -
  assume q: "input_state q"
  then have "list_all input_state (tl (dfa_rows ! q))" "length (dfa_rows ! q) = 17"
    using rows_input dfa_rows_size by (auto simp: input_state_def list_all_length nth_tl dest: spec [of _ "q - 1"])
  then show ?thesis
    using yy_class_bounds [of b] by (auto simp: dfa_next_def list_all_length nth_tl dest: spec [of _ "yy_class b - 1"])
qed

lemma dfa_run_input: "input_state q \<Longrightarrow> input_state (dfa_run q w)"
  by (induction w arbitrary: q) (simp_all add: dfa_next_input)

text \<open>The rules of a state that match a text.\<close>

definition matching :: "(nat \<times> rexp) list \<Rightarrow> byte list \<Rightarrow> nat set" where
  "matching rs w = {n. \<exists>r. (n, r) \<in> set rs \<and> w \<in> lang r}"

lemma same_rules_set: "same_rules rs ss \<Longrightarrow> set rs = set ss"
proof -
  have "subset_list rs ss \<Longrightarrow> set rs \<subseteq> set ss" for rs ss :: "(nat \<times> rexp) list" by (induction rs) auto
  then show "same_rules rs ss \<Longrightarrow> set rs = set ss" by (auto simp: same_rules_def)
qed

lemma rule_derivs_matching: "matching (rule_derivs (yy_class b) rs) w = matching rs (b # w)"
  by (force simp: matching_def rule_derivs_def pderivs_lang)

lemma residual_next: "input_state q \<Longrightarrow> matching (residual (dfa_next q (yy_class b))) w = matching (residual q) (b # w)"
proof -
  assume q: "input_state q"
  then have "q \<in> set (1 # [2..<79])" unfolding list.set set_upt input_state_def by auto
  from bspec [OF derivs_checked [unfolded list_all_iff [of _ "1 # [2..<79]"]] this]
  have "list_all (\<lambda>(c, q'). c = 0 \<or> same_rules (rule_derivs c (residual q)) (residual q')) (enumerate 0 (dfa_rows ! q))"
    by (simp add: dfa_row_def)
  moreover have "length (dfa_rows ! q) = 17" using q dfa_rows_size by (auto simp: input_state_def list_all_length)
  ultimately have "same_rules (rule_derivs (yy_class b) (residual q)) (residual (dfa_next q (yy_class b)))"
    using yy_class_bounds [of b] by (auto simp: list_all_length nth_enumerate_eq dfa_next_def dest: spec [of _ "yy_class b"])
  from same_rules_set [OF this] show ?thesis
    using rule_derivs_matching [of b "residual q" w] by (simp add: matching_def)
qed

lemma residual_run: "input_state q \<Longrightarrow> matching (residual (dfa_run q v)) w = matching (residual q) (v @ w)"
  by (induction v arbitrary: q) (simp_all add: dfa_next_input residual_next)

text \<open>The first of the matching rules; the rules are in the order of their numbers.\<close>

lemma first_match_matching:
  assumes "sorted (map fst rs)"
  shows "first_match rs w = (if matching rs w = {} then None else Some (LEAST n. n \<in> matching rs w))"
  using assms
proof (induction rs)
  case (Cons x rs)
  obtain n r where x: "x = (n, r)" by fastforce
  show ?case
  proof (cases "w \<in> lang r")
    case True
    with Cons.prems have "(LEAST m. m \<in> matching (x # rs) w) = n" by (intro Least_equality) (auto simp: x matching_def)
    with True show ?thesis by (auto simp: x first_match_def matching_def)
  next
    case False
    then have "matching (x # rs) w = matching rs w" by (auto simp: x matching_def)
    with False Cons show ?thesis by (simp add: x first_match_def)
  qed
qed (simp add: first_match_def matching_def)

lemma accept_matching:
  assumes "input_state q"
  shows "yy_accept ! q = (if matching (residual q) [] = {} then 0 else (LEAST n. n \<in> matching (residual q) []))"
proof -
  let ?n = "yy_accept ! q"
  have c: "if ?n = 0 then list_all (\<lambda>(m, r). \<not> nullable r) (residual q)
     else list_ex (\<lambda>(m, r). m = ?n \<and> nullable r) (residual q) \<and> list_all (\<lambda>(m, r). nullable r \<longrightarrow> ?n \<le> m) (residual q)"
    using accepts_checked [unfolded list_all_length [of _ "enumerate 0 yy_accept"], rule_format, of q] assms
    by (simp add: nth_enumerate_eq table_sizes input_state_def)
  show ?thesis
  proof (cases "?n = 0")
    case True
    with c have "matching (residual q) [] = {}" by (auto simp: matching_def list_all_iff nullable_iff)
    with True show ?thesis by simp
  next
    case False
    with c have n: "?n \<in> matching (residual q) []" "\<forall>m\<in>matching (residual q) []. ?n \<le> m"
      by (auto simp: matching_def list_all_iff list_ex_iff nullable_iff)
    then have "(LEAST n. n \<in> matching (residual q) []) = ?n" by (intro Least_equality) auto
    with n show ?thesis by auto
  qed
qed

text \<open>The start state of a condition.\<close>

fun condition_number :: "condition \<Rightarrow> nat" where
  "condition_number INITIAL = 0"
| "condition_number STRING = 1"
| "condition_number BRACKET = 2"
| "condition_number BRACKETEND = 3"
| "condition_number COMMENT = 4"

definition start_state :: "condition \<Rightarrow> nat" where
  "start_state sc = 1 + 2 * condition_number sc"

lemma start_residual: "residual (start_state sc) = rules sc" "input_state (start_state sc)" "sorted (map fst (rules sc))"
proof -
  show "residual (start_state sc) = rules sc" by (cases sc) (simp_all add: start_state_def residual_entries numeral_3_eq_3 [symmetric])
  show "input_state (start_state sc)" "sorted (map fst (rules sc))" by (cases sc; simp add: start_state_def input_state_def)+
qed

lemma run_accept:
  "first_match (rules sc) w = (let n = yy_accept ! dfa_run (start_state sc) w in if n = 0 then None else Some n)"
proof -
  have "list_all (\<lambda>(n, r). n \<noteq> 0) (rules sc)" by (cases sc) simp_all
  then have z: "0 \<notin> matching (rules sc) v" for v by (auto simp: matching_def list_all_iff)
  have m: "matching (residual (dfa_run (start_state sc) w)) [] = matching (rules sc) w"
    using residual_run [OF start_residual(2), where w = "[]"] by (simp add: start_residual(1))
  have "(LEAST n. n \<in> matching (rules sc) w) \<noteq> 0" if "matching (rules sc) w \<noteq> {}"
    using LeastI_ex [of "\<lambda>n. n \<in> matching (rules sc) w"] that z by (metis all_not_in_conv)
  then show ?thesis
    using accept_matching [OF dfa_run_input [OF start_residual(2)]] first_match_matching [OF start_residual(3)]
    by (simp add: m Let_def)
qed

section \<open>The longest match\<close>

text \<open>
  The search for the longest match on a text: the state, the bytes still to come, the bytes read, and
  the last match (a rule and a length).  State 78 has no match any more.
\<close>

fun munch :: "nat \<Rightarrow> byte list \<Rightarrow> nat \<Rightarrow> nat \<times> nat \<Rightarrow> nat \<times> nat" where
  "munch q [] n best = (if yy_accept ! q \<noteq> 0 then (yy_accept ! q, n) else best)"
| "munch q (b # w) n best =
     (let best = (if yy_accept ! q \<noteq> 0 then (yy_accept ! q, n) else best); q' = dfa_next q (yy_class b)
      in if q' = 78 then best else munch q' w (Suc n) best)"

lemma dead_state: "yy_accept ! 78 = 0" "dfa_next 78 (yy_class b) = 78"
proof -
  have "list_all (\<lambda>q. q = 78) (tl (dfa_rows ! 78))" "length (dfa_rows ! 78) = 17"
    by (simp_all add: row_entries [unfolded dfa_row_def])
  then show "dfa_next 78 (yy_class b) = 78"
    using yy_class_bounds [of b] by (auto simp: dfa_next_def list_all_length nth_tl dest: spec [of _ "yy_class b - 1"])
qed (simp add: yy_accept_def)

lemma dead_run [simp]: "dfa_run 78 w = 78"
  by (induction w) (simp_all add: dead_state)

text \<open>No longer prefix is accepted than the one of length \<open>m\<close>.\<close>

definition best_prefix :: "nat \<Rightarrow> byte list \<Rightarrow> nat \<Rightarrow> bool" where
  "best_prefix q w m \<longleftrightarrow> m \<le> length w \<and> yy_accept ! dfa_run q (take m w) \<noteq> 0
     \<and> (\<forall>k. m < k \<and> k \<le> length w \<longrightarrow> yy_accept ! dfa_run q (take k w) = 0)"

definition no_prefix :: "nat \<Rightarrow> byte list \<Rightarrow> bool" where
  "no_prefix q w \<longleftrightarrow> (\<forall>k\<le>length w. yy_accept ! dfa_run q (take k w) = 0)"

lemma best_prefix_Cons: "best_prefix (dfa_next q (yy_class b)) w m \<Longrightarrow> best_prefix q (b # w) (Suc m)"
proof -
  assume b: "best_prefix (dfa_next q (yy_class b)) w m"
  have "yy_accept ! dfa_run q (take k (b # w)) = 0" if "Suc m < k" "k \<le> length (b # w)" for k
    using b that by (cases k) (auto simp: best_prefix_def)
  with b show ?thesis by (simp add: best_prefix_def)
qed

lemma no_prefix_Cons:
  "no_prefix (dfa_next q (yy_class b)) w \<Longrightarrow> yy_accept ! q \<noteq> 0 \<Longrightarrow> best_prefix q (b # w) 0"
  "no_prefix (dfa_next q (yy_class b)) w \<Longrightarrow> yy_accept ! q = 0 \<Longrightarrow> no_prefix q (b # w)"
proof -
  assume n: "no_prefix (dfa_next q (yy_class b)) w"
  have "yy_accept ! dfa_run q (take k (b # w)) = 0" if "0 < k" "k \<le> length (b # w)" for k
    using n that by (cases k) (auto simp: no_prefix_def)
  then show "yy_accept ! q \<noteq> 0 \<Longrightarrow> best_prefix q (b # w) 0" "yy_accept ! q = 0 \<Longrightarrow> no_prefix q (b # w)"
    by (auto simp: best_prefix_def no_prefix_def) (metis dfa_run_simps(1) not_gr0 take_0)
qed

lemma munch_prefix:
  "munch q w n best = (act, k) \<Longrightarrow>
     (act, k) = best \<and> no_prefix q w \<or> (\<exists>m. k = n + m \<and> best_prefix q w m \<and> act = yy_accept ! dfa_run q (take m w))"
proof (induction w arbitrary: q n best)
  case Nil
  then show ?case by (auto simp: best_prefix_def no_prefix_def split: if_splits)
next
  case (Cons b w)
  let ?q = "dfa_next q (yy_class b)" and ?best = "if yy_accept ! q \<noteq> 0 then (yy_accept ! q, n) else best"
  have "(act, k) = ?best \<and> no_prefix ?q w \<or> (\<exists>m. k = Suc n + m \<and> best_prefix ?q w m \<and> act = yy_accept ! dfa_run ?q (take m w))"
  proof (cases "?q = 78")
    case True
    with Cons.prems show ?thesis by (simp add: Let_def no_prefix_def dead_state split: if_splits)
  next
    case False
    with Cons.prems have "munch ?q w (Suc n) ?best = (act, k)" by (simp add: Let_def)
    from Cons.IH [OF this] show ?thesis .
  qed
  then show ?case
  proof (elim disjE exE conjE)
    assume "(act, k) = ?best" "no_prefix ?q w"
    then show ?thesis using no_prefix_Cons [of q b w] by (cases "yy_accept ! q = 0") (auto intro: exI [of _ 0])
  next
    fix m assume "k = Suc n + m" "best_prefix ?q w m" "act = yy_accept ! dfa_run ?q (take m w)"
    then show ?thesis using best_prefix_Cons by (intro disjI2 exI [of _ "Suc m"]) simp
  qed
qed

lemma best_prefix_match:
  "best_prefix (start_state sc) w m \<longleftrightarrow> longest_match sc w (yy_accept ! dfa_run (start_state sc) (take m w)) m"
  by (auto simp: best_prefix_def longest_match_def run_accept Let_def)

lemma default_rule: "(24, Atom AnyByte) \<in> set (rules sc)"
  by (cases sc) simp_all

lemma one_byte_matches: "first_match (rules sc) [b] \<noteq> None"
proof -
  have "[b] \<in> lang (Atom AnyByte)" by (simp add: member_def)
  with default_rule [of sc] show ?thesis unfolding first_match_def by (auto simp: find_None_iff simp del: lang.simps)
qed

lemma munch_longest:
  assumes "w \<noteq> []"
  obtains act n where "munch (start_state sc) w 0 best = (act, n)" and "longest_match sc w act n" and "0 < n" and "act \<noteq> 0"
proof -
  obtain act n where m: "munch (start_state sc) w 0 best = (act, n)" by fastforce
  obtain b v where w: "w = b # v" using assms by (cases w) auto
  have one: "yy_accept ! dfa_run (start_state sc) (take 1 w) \<noteq> 0"
    using one_byte_matches [of sc b] by (simp add: run_accept Let_def w split: if_splits)
  then have "\<not> no_prefix (start_state sc) w" by (auto simp: no_prefix_def w intro: exI [of _ 1])
  with munch_prefix [OF m] have b: "best_prefix (start_state sc) w n" "act = yy_accept ! dfa_run (start_state sc) (take n w)"
    by auto
  have "0 < n" using b(1) one by (cases n) (auto simp: best_prefix_def w dest: spec [of _ 1])
  moreover have "act \<noteq> 0" using b by (simp add: best_prefix_def)
  ultimately show ?thesis using that m b best_prefix_match by metis
qed

end
