(* ===== verification/ListFileLexer.thy ===== *)
theory ListFileLexer
  imports Prelude
begin

text \<open>
  The part of \<^verbatim>\<open>LexerParser/cmListFileLexer.c\<close> that is written by hand: the lexer and its token, the
  token buffer, the input with its conversion of line ends, and the actions of the rules.

  An object of bytes that may not be initialised is a list of optional bytes; reading a byte that is
  outside or not initialised is undefined, as is everything else that is \<^term>\<open>None\<close>.  Pointers into
  the input buffer are offsets.  Allocations whose result the code does not check are taken to succeed.
\<close>

section \<open>Memory and files\<close>

type_synonym mem = "byte option list"

definition get :: "mem \<Rightarrow> nat \<Rightarrow> byte option" where
  "get m i = (if i < length m then m ! i else None)"

definition put :: "mem \<Rightarrow> nat \<Rightarrow> byte \<Rightarrow> mem option" where
  "put m i b = (if i < length m then Some (m[i := Some b]) else None)"

text \<open>A file is its contents and a position; \<open>fread\<close> delivers what is left, up to the size asked for.\<close>

record stream =
  contents :: "byte list"
  position :: nat
  seekable :: bool

definition fread :: "stream \<Rightarrow> nat \<Rightarrow> byte list \<times> stream" where
  "fread f n = (let bs = take n (drop (position f) (contents f)) in (bs, f\<lparr>position := position f + length bs\<rparr>))"

section \<open>The lexer\<close>

datatype token_type = Token_None | Token_Space | Token_Newline | Token_Identifier | Token_ParenLeft | Token_ParenRight
  | Token_ArgumentUnquoted | Token_ArgumentQuoted | Token_ArgumentBracket | Token_CommentBracket
  | Token_BadCharacter | Token_BadBracket | Token_BadString

text \<open>\<open>tok_text\<close> is the allocated object.\<close>

record cmListFileLexer_Token =
  tok_type :: token_type
  tok_text :: "byte list option"
  tok_length :: int
  tok_line :: int
  tok_column :: int

text \<open>
  The buffer and the state of the generated scanner, as far as this scanner uses them: there is one
  buffer, which the scanner owns.  What \<open>ECHO\<close> has written to the output is \<open>echoed\<close>.
\<close>

record yy_buffer_state =
  yy_ch_buf :: mem
  yy_buf_pos :: nat
  yy_buf_size :: nat
  yy_bn_chars :: nat
  yy_buffer_status :: nat
  yy_bs_lineno :: int

record yyguts_t =
  yy_buffer :: "yy_buffer_state option"
  yy_hold_char :: byte
  yy_n_chars :: nat
  yy_c_buf_p :: nat
  yy_init :: bool
  yy_start :: nat
  yy_last_accepting_state :: nat
  yy_last_accepting_cpos :: nat
  yytext_ptr :: nat
  yyleng :: nat
  echoed :: "byte list"

record cmListFileLexer =
  token :: cmListFileLexer_Token
  bracket :: int
  comment :: bool
  line :: int
  column :: int
  size :: int
  input_file :: "stream option"
  cr :: nat
  string_buffer :: "byte list option"
  string_position :: nat
  string_left :: nat
  scanner :: "yyguts_t option"

abbreviation (input) set_token :: "(cmListFileLexer_Token \<Rightarrow> cmListFileLexer_Token) \<Rightarrow> cmListFileLexer \<Rightarrow> cmListFileLexer" where
  "set_token f lexer \<equiv> lexer\<lparr>token := f (token lexer)\<rparr>"

section \<open>The token buffer\<close>

text \<open>
  \<open>text\<close> is a string with its terminator, or null.  \<open>strdup\<close> allocates room for the characters before
  the terminator, while \<open>size\<close> is computed from \<open>len\<close>.
\<close>

definition cmListFileLexerSetToken :: "cmListFileLexer \<Rightarrow> byte list option \<Rightarrow> int \<Rightarrow> cmListFileLexer option" where
  "cmListFileLexerSetToken lexer text len =
     (let lexer = set_token (\<lambda>t. t\<lparr>tok_line := line lexer, tok_column := column lexer\<rparr>) lexer;
          fresh = (\<lambda>lexer. case text of
              None \<Rightarrow> Some (set_token (\<lambda>t. t\<lparr>tok_length := 0\<rparr>) lexer)
            | Some s \<Rightarrow> do { str \<leftarrow> c_string s;
                           Some (set_token (\<lambda>t. t\<lparr>tok_text := Some (str @ [0]), tok_length := len\<rparr>) lexer
                             \<lparr>size := len + 1\<rparr>) })
      in case tok_text (token lexer) of
           None \<Rightarrow> fresh lexer
         | Some old \<Rightarrow>
             (case text of
                Some s \<Rightarrow>
                  if len < size lexer
                  then do { str \<leftarrow> c_string s; buf \<leftarrow> mem_write old 0 (str @ [0]);
                            Some (set_token (\<lambda>t. t\<lparr>tok_text := Some buf, tok_length := len\<rparr>) lexer) }
                  else fresh (set_token (\<lambda>t. t\<lparr>tok_text := None\<rparr>) lexer\<lparr>size := 0\<rparr>)
              | None \<Rightarrow> fresh (set_token (\<lambda>t. t\<lparr>tok_text := None\<rparr>) lexer\<lparr>size := 0\<rparr>)))"

definition cmListFileLexerAppend :: "cmListFileLexer \<Rightarrow> byte list \<Rightarrow> nat \<Rightarrow> cmListFileLexer option" where
  "cmListFileLexerAppend lexer text len =
     (let t = token lexer; newSize = tok_length t + int len + 1
      in if tok_length t < 0 then None
         else if tok_text t \<noteq> None \<and> newSize \<le> size lexer
         then do { old \<leftarrow> tok_text t; str \<leftarrow> c_string text;
                   buf \<leftarrow> mem_write old (nat (tok_length t)) (str @ [0]);
                   Some (lexer\<lparr>token := t\<lparr>tok_text := Some buf, tok_length := tok_length t + int len\<rparr>\<rparr>) }
         else do { old \<leftarrow> (case tok_text t of
                         None \<Rightarrow> if tok_length t = 0 then Some [] else None
                       | Some old \<Rightarrow> mem_read old 0 (nat (tok_length t)));
                   bs \<leftarrow> mem_read text 0 len;
                   Some (lexer\<lparr>token := t\<lparr>tok_text := Some (old @ bs @ [0]), tok_length := tok_length t + int len\<rparr>,
                     size := newSize\<rparr>) })"

section \<open>The input\<close>

text \<open>The loop that turns CRLF into LF in place, from \<open>i\<close> to \<open>e\<close>, writing at \<open>p\<close>.\<close>

partial_function (option) crlf_loop :: "mem \<Rightarrow> nat \<Rightarrow> nat \<Rightarrow> nat \<Rightarrow> (mem \<times> nat) option" where
  "crlf_loop m i e p =
     (if i = e then Some (m, p)
      else do { c \<leftarrow> get m i;
                lf \<leftarrow> (if c = 0x0D then map_option (\<lambda>d. d = 0x0A) (get m (Suc i)) else Some False);
                let i = (if lf then Suc i else i);
                c \<leftarrow> get m i;
                m \<leftarrow> put m p c;
                crlf_loop m (Suc i) e (Suc p) })"

text \<open>\<open>buffer\<close> is an offset in \<open>m\<close>.\<close>

definition cmListFileLexerInput :: "cmListFileLexer \<Rightarrow> mem \<Rightarrow> nat \<Rightarrow> nat \<Rightarrow> (nat \<times> cmListFileLexer \<times> mem) option" where
  "cmListFileLexerInput lexer m buffer bufferSize =
     (case input_file lexer of
        Some f \<Rightarrow>
          if bufferSize < cr lexer then None
          else do { m \<leftarrow> put m buffer 0x0D;
                    let (bs, f) = fread f (bufferSize - cr lexer);
                    m \<leftarrow> mem_write m (buffer + cr lexer) (map Some bs);
                    let lexer = lexer\<lparr>input_file := Some f\<rparr>;
                    if bs \<noteq> []
                    then do { let n = length bs + cr lexer;
                              last \<leftarrow> get m (buffer + n - 1);
                              let cr = (if last = 0x0D then 1 else 0);
                              (m, p) \<leftarrow> crlf_loop m buffer (buffer + n - cr) buffer;
                              Some (p - buffer, lexer\<lparr>cr := cr\<rparr>, m) }
                    else Some (cr lexer, lexer\<lparr>cr := 0\<rparr>, m) }
      | None \<Rightarrow>
          if string_left lexer \<noteq> 0
          then do { let len = (if bufferSize < string_left lexer then bufferSize else string_left lexer);
                    s \<leftarrow> string_buffer lexer;
                    bs \<leftarrow> mem_read s (string_position lexer) len;
                    m \<leftarrow> mem_write m buffer (map Some bs);
                    Some (len, lexer\<lparr>string_position := string_position lexer + len,
                      string_left := string_left lexer - len\<rparr>, m) }
          else Some (0, lexer, m))"

section \<open>The actions of the rules\<close>

text \<open>\<open>BEGIN(c)\<close> sets the start state; the conditions are INITIAL, STRING, BRACKET, BRACKETEND, COMMENT.\<close>

definition begin_state :: "nat \<Rightarrow> nat" where "begin_state c = 1 + 2 * c"

fun strchr :: "byte list \<Rightarrow> byte \<Rightarrow> nat option" where
  "strchr [] c = None"
| "strchr (b # s) c = (if b = c then Some 0 else if b = 0 then None else map_option Suc (strchr s c))"

text \<open>A rule that makes a token of the whole match.\<close>

definition simple_token :: "token_type \<Rightarrow> byte list \<Rightarrow> cmListFileLexer \<Rightarrow> cmListFileLexer option" where
  "simple_token type yytext lexer =
     do { let lexer = set_token (\<lambda>t. t\<lparr>tok_type := type\<rparr>) lexer;
          lexer \<leftarrow> cmListFileLexerSetToken lexer (Some (yytext @ [0])) (int (length yytext));
          Some (lexer\<lparr>column := column lexer + int (length yytext)\<rparr>) }"

text \<open>A rule that appends the match to the token; after a newline the column starts again.\<close>

definition append_text :: "byte list \<Rightarrow> cmListFileLexer \<Rightarrow> cmListFileLexer option" where
  "append_text yytext lexer =
     do { lexer \<leftarrow> cmListFileLexerAppend lexer (yytext @ [0]) (length yytext);
          Some (lexer\<lparr>column := column lexer + int (length yytext)\<rparr>) }"

definition append_newline :: "byte list \<Rightarrow> cmListFileLexer \<Rightarrow> cmListFileLexer option" where
  "append_newline yytext lexer =
     do { lexer \<leftarrow> cmListFileLexerAppend lexer (yytext @ [0]) (length yytext);
          Some (lexer\<lparr>line := line lexer + 1, column := 1\<rparr>) }"

text \<open>The opening of a bracket argument or comment.\<close>

definition open_bracket :: "byte list \<Rightarrow> cmListFileLexer \<Rightarrow> cmListFileLexer option" where
  "open_bracket yytext lexer =
     do { let c = (yytext ! 0 = 0x23);
          let start = (if c then 1 else 0);
          let lexer = set_token (\<lambda>t. t\<lparr>tok_type := if c then Token_CommentBracket else Token_ArgumentBracket\<rparr>) (lexer\<lparr>comment := c\<rparr>);
          lexer \<leftarrow> cmListFileLexerSetToken lexer (Some [0]) 0;
          k \<leftarrow> strchr (drop (start + 1) (yytext @ [0])) 0x5B;
          let lexer = lexer\<lparr>bracket := int k + 1\<rparr>;
          Some (if last yytext = 0x0A then lexer\<lparr>line := line lexer + 1, column := 1\<rparr>
                else lexer\<lparr>column := column lexer + int (length yytext)\<rparr>) }"

text \<open>The end of a bracket argument: the partial closing bracket is erased from the token.\<close>

definition close_bracket :: "byte list \<Rightarrow> cmListFileLexer \<Rightarrow> cmListFileLexer option" where
  "close_bracket yytext lexer =
     do { let lexer = lexer\<lparr>column := column lexer + int (length yytext)\<rparr>;
          let n = tok_length (token lexer) - bracket lexer;
          text \<leftarrow> tok_text (token lexer);
          text \<leftarrow> (if n < 0 then None else mem_write text (nat n) [0]);
          Some (set_token (\<lambda>t. t\<lparr>tok_text := Some text, tok_length := n\<rparr>) lexer) }"

text \<open>
  One action: the lexer, the start state and what was echoed, and the value if the scanner returns.
  The match is not empty, except possibly for rule 4.
\<close>

definition rule_action ::
  "nat \<Rightarrow> byte list \<Rightarrow> cmListFileLexer \<times> nat \<times> byte list \<Rightarrow> (int option \<times> cmListFileLexer \<times> nat \<times> byte list) option" where
  "rule_action act yytext s =
     (let (lexer, start, out) = s;
          moved = lexer\<lparr>column := column lexer + int (length yytext)\<rparr>;
          next_line = lexer\<lparr>line := line lexer + 1, column := 1\<rparr>;
          returns_token = (\<lambda>type. do { lexer \<leftarrow> simple_token type yytext lexer; Some (Some 1, lexer, start, out) });
          goes_on = (\<lambda>start lexer. Some (None, lexer, start, out))
      in if act = 1
         then do { let lexer = set_token (\<lambda>t. t\<lparr>tok_type := Token_Newline\<rparr>) lexer;
                   lexer \<leftarrow> cmListFileLexerSetToken lexer (Some (yytext @ [0])) (int (length yytext));
                   Some (Some 1, lexer\<lparr>line := line lexer + 1, column := 1\<rparr>, begin_state 0, out) }
         else if act = 2 then do { lexer \<leftarrow> open_bracket yytext lexer; goes_on (begin_state 2) lexer }
         else if act = 3 then goes_on (begin_state 4) moved
         else if act = 4 then goes_on start moved
         else if act = 5 then returns_token Token_ParenLeft
         else if act = 6 then returns_token Token_ParenRight
         else if act = 7 then returns_token Token_Identifier
         else if act = 8
         then do { lexer \<leftarrow> append_text yytext lexer;
                   goes_on (if int (length yytext) = bracket lexer then begin_state 3 else start) lexer }
         else if act = 9 then do { lexer \<leftarrow> close_bracket yytext lexer; Some (Some 1, lexer, begin_state 0, out) }
         else if act = 10 then do { lexer \<leftarrow> append_text yytext lexer; goes_on start lexer }
         else if act = 11 then do { lexer \<leftarrow> append_newline yytext lexer; goes_on (begin_state 2) lexer }
         else if act = 12 then do { lexer \<leftarrow> append_text yytext lexer; goes_on (begin_state 2) lexer }
         else if act = 13 \<or> act = 14 \<or> act = 15 then returns_token Token_ArgumentUnquoted
         else if act = 16
         then do { let lexer = set_token (\<lambda>t. t\<lparr>tok_type := Token_ArgumentQuoted\<rparr>) lexer;
                   lexer \<leftarrow> cmListFileLexerSetToken lexer (Some [0]) 0;
                   goes_on (begin_state 1) (lexer\<lparr>column := column lexer + int (length yytext)\<rparr>) }
         else if act = 17 then do { lexer \<leftarrow> append_text yytext lexer; goes_on start lexer }
         else if act = 18 then goes_on start next_line
         else if act = 19 then do { lexer \<leftarrow> append_newline yytext lexer; goes_on start lexer }
         else if act = 20 then Some (Some 1, moved, begin_state 0, out)
         else if act = 21 then do { lexer \<leftarrow> append_text yytext lexer; goes_on start lexer }
         else if act = 22 then returns_token Token_Space
         else if act = 23 then returns_token Token_BadCharacter
         else if act = 24 then Some (None, lexer, start, out @ yytext)
         else None)"

text \<open>The action at the end of the input, by the start state.\<close>

definition eof_action :: "nat \<Rightarrow> cmListFileLexer \<times> nat \<times> byte list \<Rightarrow> (int option \<times> cmListFileLexer \<times> nat \<times> byte list) option" where
  "eof_action c s =
     (let (lexer, start, out) = s
      in if c = 2 \<or> c = 3 then Some (Some 1, set_token (\<lambda>t. t\<lparr>tok_type := Token_BadBracket\<rparr>) lexer, begin_state 0, out)
         else if c = 1 then Some (Some 1, set_token (\<lambda>t. t\<lparr>tok_type := Token_BadString\<rparr>) lexer, begin_state 0, out)
         else if c = 0 \<or> c = 4
         then do { let lexer = set_token (\<lambda>t. t\<lparr>tok_type := Token_None\<rparr>) lexer;
                   lexer \<leftarrow> cmListFileLexerSetToken lexer None 0;
                   Some (Some 0, lexer, start, out) }
         else None)"

end
