(* ===== verification/ListFileScanner.thy ===== *)
theory ListFileScanner
  imports ListFileMatch ListFileLexer
begin

text \<open>
  The generated scanner of \<^verbatim>\<open>LexerParser/cmListFileLexer.c\<close>: the input buffer, which is refilled, moved
  and grown while a match is under way, the matching loop over the tables with its backing up, and
  the main function \<open>yylex\<close>.  A fatal error, after which the program ends, is \<^term>\<open>None\<close>.
\<close>

section \<open>The buffer\<close>

definition YY_BUF_SIZE :: nat where "YY_BUF_SIZE = 16384"
definition YY_READ_BUF_SIZE :: nat where "YY_READ_BUF_SIZE = 8192"
definition YY_END_OF_BUFFER :: nat where "YY_END_OF_BUFFER = 25"

definition YY_BUFFER_NEW :: nat where "YY_BUFFER_NEW = 0"
definition YY_BUFFER_NORMAL :: nat where "YY_BUFFER_NORMAL = 1"
definition YY_BUFFER_EOF_PENDING :: nat where "YY_BUFFER_EOF_PENDING = 2"

text \<open>\<open>realloc\<close> of the buffer\<close>

definition resize :: "mem \<Rightarrow> nat \<Rightarrow> mem" where
  "resize m n = take n (m @ replicate n None)"

definition yy_flush :: "yy_buffer_state \<Rightarrow> yy_buffer_state option" where
  "yy_flush b = do { m \<leftarrow> put (yy_ch_buf b) 0 0; m \<leftarrow> put m 1 0;
     Some (b\<lparr>yy_bn_chars := 0, yy_ch_buf := m, yy_buf_pos := 0, yy_buffer_status := YY_BUFFER_NEW\<rparr>) }"

definition yy_create_buffer :: "nat \<Rightarrow> yy_buffer_state option" where
  "yy_create_buffer n =
     yy_flush \<lparr>yy_ch_buf = replicate (n + 2) None, yy_buf_pos = 0, yy_buf_size = n, yy_bn_chars = 0,
       yy_buffer_status = YY_BUFFER_NEW, yy_bs_lineno = 1\<rparr>"

definition yy_load_buffer_state :: "yyguts_t \<Rightarrow> yyguts_t option" where
  "yy_load_buffer_state g =
     do { b \<leftarrow> yy_buffer g; h \<leftarrow> get (yy_ch_buf b) (yy_buf_pos b);
          Some (g\<lparr>yy_n_chars := yy_bn_chars b, yytext_ptr := yy_buf_pos b, yy_c_buf_p := yy_buf_pos b, yy_hold_char := h\<rparr>) }"

text \<open>\<open>yyrestart\<close>, when there is a buffer: it is flushed and loaded (twice).\<close>

definition yyrestart :: "yyguts_t \<Rightarrow> yyguts_t option" where
  "yyrestart g =
     do { b \<leftarrow> yy_buffer g; b \<leftarrow> yy_flush b;
          g \<leftarrow> yy_load_buffer_state (g\<lparr>yy_buffer := Some b\<rparr>);
          yy_load_buffer_state g }"

section \<open>Matching\<close>

text \<open>The loop at \<open>yy_match\<close>: the state, the position and the last accepting state and position.\<close>

partial_function (option) match_loop :: "mem \<Rightarrow> nat \<Rightarrow> nat \<Rightarrow> nat \<times> nat \<Rightarrow> (nat \<times> nat \<times> nat \<times> nat) option" where
  "match_loop m state cp acc =
     do { b \<leftarrow> get m cp;
          c \<leftarrow> item yy_ec (unat b);
          a \<leftarrow> item yy_accept state;
          let acc = (if a \<noteq> 0 then (state, cp) else acc);
          state \<leftarrow> yy_next state c;
          k \<leftarrow> item yy_base state;
          if k \<noteq> 298 then match_loop m state (Suc cp) acc else Some (state, Suc cp, acc) }"

text \<open>The loop of \<open>yy_get_previous_state\<close>, over the positions of the match so far.\<close>

fun previous_loop :: "mem \<Rightarrow> nat list \<Rightarrow> nat \<Rightarrow> nat \<times> nat \<Rightarrow> (nat \<times> nat \<times> nat) option" where
  "previous_loop m [] state acc = Some (state, acc)"
| "previous_loop m (cp # cps) state acc =
     do { b \<leftarrow> get m cp;
          c \<leftarrow> (if b \<noteq> 0 then item yy_ec (unat b) else Some 16);
          a \<leftarrow> item yy_accept state;
          let acc = (if a \<noteq> 0 then (state, cp) else acc);
          state \<leftarrow> yy_next state c;
          previous_loop m cps state acc }"

definition last_accepting :: "yyguts_t \<Rightarrow> nat \<times> nat" where
  "last_accepting g = (yy_last_accepting_state g, yy_last_accepting_cpos g)"

definition set_last :: "nat \<times> nat \<Rightarrow> yyguts_t \<Rightarrow> yyguts_t" where
  "set_last acc g = g\<lparr>yy_last_accepting_state := fst acc, yy_last_accepting_cpos := snd acc\<rparr>"

definition yy_get_previous_state :: "yyguts_t \<Rightarrow> (nat \<times> yyguts_t) option" where
  "yy_get_previous_state g =
     do { b \<leftarrow> yy_buffer g;
          (state, acc) \<leftarrow> previous_loop (yy_ch_buf b) [yytext_ptr g..<yy_c_buf_p g] (yy_start g) (last_accepting g);
          Some (state, set_last acc g) }"

text \<open>The transition on a zero byte of the input; 0 if there is none.\<close>

definition yy_try_NUL_trans :: "nat \<Rightarrow> yyguts_t \<Rightarrow> (nat \<times> yyguts_t) option" where
  "yy_try_NUL_trans state g =
     do { a \<leftarrow> item yy_accept state;
          let g = (if a \<noteq> 0 then set_last (state, yy_c_buf_p g) g else g);
          state \<leftarrow> yy_next state 16;
          Some (if state = 78 then 0 else state, g) }"

section \<open>Refilling the buffer\<close>

text \<open>The loop that moves the match to the start of the buffer.\<close>

fun move_loop :: "mem \<Rightarrow> nat \<Rightarrow> nat \<Rightarrow> nat \<Rightarrow> mem option" where
  "move_loop m dest source 0 = Some m"
| "move_loop m dest source (Suc n) =
     do { b \<leftarrow> get m source; m \<leftarrow> put m dest b; move_loop m (Suc dest) (Suc source) n }"

text \<open>The loop that makes room for at least one byte after the \<open>n\<close> bytes moved: the buffer and its size.\<close>

partial_function (option) grow_loop :: "nat \<Rightarrow> mem \<Rightarrow> nat \<Rightarrow> (mem \<times> nat) option" where
  "grow_loop n m k = (if k \<le> n + 1 then grow_loop n (resize m (k * 2 + 2)) (k * 2) else Some (m, k))"

datatype eob_action = EOB_ACT_CONTINUE_SCAN | EOB_ACT_END_OF_FILE | EOB_ACT_LAST_MATCH

text \<open>Reading more input after \<open>n\<close> bytes, unless the end of the input has been seen.\<close>

definition read_more :: "nat \<Rightarrow> yyguts_t \<Rightarrow> yy_buffer_state \<Rightarrow> cmListFileLexer \<Rightarrow> (nat \<times> yy_buffer_state \<times> cmListFileLexer) option" where
  "read_more n g b lexer =
     (if yy_buffer_status b = YY_BUFFER_EOF_PENDING then Some (0, b\<lparr>yy_bn_chars := 0\<rparr>, lexer)
      else do { (m, k) \<leftarrow> grow_loop n (yy_ch_buf b) (yy_buf_size b);
                let num_to_read = k - n - 1;
                let num_to_read = (if num_to_read > YY_READ_BUF_SIZE then YY_READ_BUF_SIZE else num_to_read);
                (r, lexer, m) \<leftarrow> cmListFileLexerInput lexer m n num_to_read;
                Some (r, b\<lparr>yy_ch_buf := m, yy_buf_size := k, yy_bn_chars := r\<rparr>, lexer) })"

text \<open>The end of \<open>yy_get_next_buffer\<close>: room for what was read, and the two bytes that end the buffer.\<close>

definition end_buffer :: "nat \<Rightarrow> yyguts_t \<Rightarrow> yyguts_t option" where
  "end_buffer n g =
     do { b \<leftarrow> yy_buffer g;
          let total = yy_n_chars g + n;
          let b = (if total > yy_buf_size b
                   then let new_size = total + yy_n_chars g div 2
                        in b\<lparr>yy_ch_buf := resize (yy_ch_buf b) new_size, yy_buf_size := new_size - 2\<rparr>
                   else b);
          m \<leftarrow> put (yy_ch_buf b) total 0;
          m \<leftarrow> put m (total + 1) 0;
          Some (g\<lparr>yy_buffer := Some (b\<lparr>yy_ch_buf := m\<rparr>), yy_n_chars := total, yytext_ptr := 0\<rparr>) }"

definition yy_get_next_buffer :: "yyguts_t \<Rightarrow> cmListFileLexer \<Rightarrow> (eob_action \<times> yyguts_t \<times> cmListFileLexer) option" where
  "yy_get_next_buffer g lexer =
     (if yy_c_buf_p g > yy_n_chars g + 1 then None
      else do { b \<leftarrow> yy_buffer g;
                let n = yy_c_buf_p g - yytext_ptr g - 1;
                m \<leftarrow> move_loop (yy_ch_buf b) 0 (yytext_ptr g) n;
                (r, b, lexer) \<leftarrow> read_more n g (b\<lparr>yy_ch_buf := m\<rparr>) lexer;
                let g = g\<lparr>yy_n_chars := r, yy_buffer := Some b\<rparr>;
                (act, g) \<leftarrow> (if r = 0
                   then if n = 0 then map_option (Pair EOB_ACT_END_OF_FILE) (yyrestart g)
                        else Some (EOB_ACT_LAST_MATCH, g\<lparr>yy_buffer := Some (b\<lparr>yy_buffer_status := YY_BUFFER_EOF_PENDING\<rparr>)\<rparr>)
                   else Some (EOB_ACT_CONTINUE_SCAN, g));
                g \<leftarrow> end_buffer n g;
                Some (act, g, lexer) })"

section \<open>The scanner\<close>

text \<open>
  The places in \<open>yylex\<close> between which the control moves, with its local variables: the start of the
  loop, \<open>yy_match\<close>, \<open>yy_find_action\<close> (state, \<open>yy_cp\<close>, \<open>yy_bp\<close>) and \<open>do_action\<close> (\<open>yy_act\<close>, \<open>yy_cp\<close>, \<open>yy_bp\<close>).
\<close>

datatype control = Start | Match nat nat nat | Find_action nat nat nat | Do_action nat nat nat

type_synonym yy_result = "((int + control) \<times> yyguts_t \<times> cmListFileLexer) option"

definition scan_start :: "yyguts_t \<Rightarrow> cmListFileLexer \<Rightarrow> yy_result" where
  "scan_start g lexer =
     do { b \<leftarrow> yy_buffer g;
          let cp = yy_c_buf_p g;
          m \<leftarrow> put (yy_ch_buf b) cp (yy_hold_char g);
          Some (Inr (Match (yy_start g) cp cp), g\<lparr>yy_buffer := Some (b\<lparr>yy_ch_buf := m\<rparr>)\<rparr>, lexer) }"

definition scan_match :: "nat \<Rightarrow> nat \<Rightarrow> nat \<Rightarrow> yyguts_t \<Rightarrow> cmListFileLexer \<Rightarrow> yy_result" where
  "scan_match state cp bp g lexer =
     do { b \<leftarrow> yy_buffer g;
          (state, cp, acc) \<leftarrow> match_loop (yy_ch_buf b) state cp (last_accepting g);
          Some (Inr (Find_action state cp bp), set_last acc g, lexer) }"

text \<open>The bytes of a match.\<close>

definition read_text :: "mem \<Rightarrow> nat \<Rightarrow> nat \<Rightarrow> byte list option" where
  "read_text m p n = do { bs \<leftarrow> mem_read m p n; if None \<in> set bs then None else Some (map the bs) }"

definition newlines :: "byte list \<Rightarrow> nat" where
  "newlines bs = length (filter (\<lambda>b. b = 0x0A) bs)"

text \<open>\<open>YY_DO_BEFORE_ACTION\<close> and the line count.\<close>

definition scan_find_action :: "nat \<Rightarrow> nat \<Rightarrow> nat \<Rightarrow> yyguts_t \<Rightarrow> cmListFileLexer \<Rightarrow> yy_result" where
  "scan_find_action state cp bp g lexer =
     do { b \<leftarrow> yy_buffer g;
          act \<leftarrow> item yy_accept state;
          (act, cp) \<leftarrow> (if act = 0
             then do { act \<leftarrow> item yy_accept (yy_last_accepting_state g); Some (act, yy_last_accepting_cpos g) }
             else Some (act, cp));
          if cp < bp then None
          else do { h \<leftarrow> get (yy_ch_buf b) cp;
                    m \<leftarrow> put (yy_ch_buf b) cp 0;
                    text \<leftarrow> read_text m bp (cp - bp);
                    e \<leftarrow> (if act \<noteq> YY_END_OF_BUFFER then item yy_rule_can_match_eol act else Some 0);
                    let lineno = (if e \<noteq> 0 then yy_bs_lineno b + int (newlines text) else yy_bs_lineno b);
                    let b = b\<lparr>yy_ch_buf := m, yy_bs_lineno := lineno\<rparr>;
                    Some (Inr (Do_action act cp bp), g\<lparr>yytext_ptr := bp, yyleng := cp - bp, yy_hold_char := h,
                      yy_c_buf_p := cp, yy_buffer := Some b\<rparr>, lexer) } }"

text \<open>
  The end of the buffer has been reached: a zero byte of the input, or the input goes on or ends.
  \<open>amount\<close> is the number of bytes of the match so far.
\<close>

definition scan_continue :: "nat \<Rightarrow> nat \<Rightarrow> nat \<Rightarrow> yyguts_t \<Rightarrow> cmListFileLexer \<Rightarrow> yy_result" where
  "scan_continue amount cp bp g lexer =
     (if yy_c_buf_p g \<le> yy_n_chars g
      then do { let g = g\<lparr>yy_c_buf_p := yytext_ptr g + amount\<rparr>;
                (state, g) \<leftarrow> yy_get_previous_state g;
                (next, g) \<leftarrow> yy_try_NUL_trans state g;
                if next \<noteq> 0
                then Some (Inr (Match next (Suc (yy_c_buf_p g)) (yytext_ptr g)), g\<lparr>yy_c_buf_p := Suc (yy_c_buf_p g)\<rparr>, lexer)
                else Some (Inr (Find_action state (yy_c_buf_p g) (yytext_ptr g)), g, lexer) }
      else do { (act, g, lexer) \<leftarrow> yy_get_next_buffer g lexer;
                case act of
                  EOB_ACT_END_OF_FILE \<Rightarrow>
                    Some (Inr (Do_action (YY_END_OF_BUFFER + (yy_start g - 1) div 2 + 1) cp bp),
                      g\<lparr>yy_c_buf_p := yytext_ptr g\<rparr>, lexer)
                | EOB_ACT_CONTINUE_SCAN \<Rightarrow>
                    do { (state, g) \<leftarrow> yy_get_previous_state (g\<lparr>yy_c_buf_p := yytext_ptr g + amount\<rparr>);
                         Some (Inr (Match state (yy_c_buf_p g) (yytext_ptr g)), g, lexer) }
                | EOB_ACT_LAST_MATCH \<Rightarrow>
                    do { (state, g) \<leftarrow> yy_get_previous_state (g\<lparr>yy_c_buf_p := yy_n_chars g\<rparr>);
                         Some (Inr (Find_action state (yy_c_buf_p g) (yytext_ptr g)), g, lexer) } })"

definition scan_end_of_buffer :: "nat \<Rightarrow> nat \<Rightarrow> yyguts_t \<Rightarrow> cmListFileLexer \<Rightarrow> yy_result" where
  "scan_end_of_buffer cp bp g lexer =
     do { b \<leftarrow> yy_buffer g;
          let amount = cp - yytext_ptr g - 1;
          m \<leftarrow> put (yy_ch_buf b) cp (yy_hold_char g);
          let b = b\<lparr>yy_ch_buf := m\<rparr>;
          let g = g\<lparr>yy_buffer := Some b\<rparr>;
          let g = (if yy_buffer_status b = YY_BUFFER_NEW
                   then g\<lparr>yy_n_chars := yy_bn_chars b, yy_buffer := Some (b\<lparr>yy_buffer_status := YY_BUFFER_NORMAL\<rparr>)\<rparr>
                   else g);
          scan_continue amount cp bp g lexer }"

definition after_action :: "(int option \<times> cmListFileLexer \<times> nat \<times> byte list) option \<Rightarrow> yyguts_t \<Rightarrow> yy_result" where
  "after_action r g =
     do { (ret, lexer, start, out) \<leftarrow> r;
          Some (case ret of None \<Rightarrow> Inr Start | Some v \<Rightarrow> Inl v, g\<lparr>yy_start := start, echoed := out\<rparr>, lexer) }"

definition scan_action :: "nat \<Rightarrow> nat \<Rightarrow> nat \<Rightarrow> yyguts_t \<Rightarrow> cmListFileLexer \<Rightarrow> yy_result" where
  "scan_action act cp bp g lexer =
     (if act = 0
      then do { b \<leftarrow> yy_buffer g;
                m \<leftarrow> put (yy_ch_buf b) cp (yy_hold_char g);
                Some (Inr (Find_action (yy_last_accepting_state g) (yy_last_accepting_cpos g) bp),
                  g\<lparr>yy_buffer := Some (b\<lparr>yy_ch_buf := m\<rparr>)\<rparr>, lexer) }
      else if act = YY_END_OF_BUFFER then scan_end_of_buffer cp bp g lexer
      else if act < YY_END_OF_BUFFER
      then do { b \<leftarrow> yy_buffer g;
                text \<leftarrow> read_text (yy_ch_buf b) (yytext_ptr g) (yyleng g);
                after_action (rule_action act text (lexer, yy_start g, echoed g)) g }
      else after_action (eof_action (act - YY_END_OF_BUFFER - 1) (lexer, yy_start g, echoed g)) g)"

fun scan_step :: "control \<Rightarrow> yyguts_t \<Rightarrow> cmListFileLexer \<Rightarrow> yy_result" where
  "scan_step Start g lexer = scan_start g lexer"
| "scan_step (Match state cp bp) g lexer = scan_match state cp bp g lexer"
| "scan_step (Find_action state cp bp) g lexer = scan_find_action state cp bp g lexer"
| "scan_step (Do_action act cp bp) g lexer = scan_action act cp bp g lexer"

partial_function (option) scan_run :: "control \<Rightarrow> yyguts_t \<Rightarrow> cmListFileLexer \<Rightarrow> (int \<times> yyguts_t \<times> cmListFileLexer) option" where
  "scan_run pc g lexer =
     do { (r, g, lexer) \<leftarrow> scan_step pc g lexer;
          case r of Inl v \<Rightarrow> Some (v, g, lexer) | Inr pc \<Rightarrow> scan_run pc g lexer }"

text \<open>The first call makes the buffer.\<close>

definition yylex_setup :: "yyguts_t \<Rightarrow> yyguts_t option" where
  "yylex_setup g =
     (if yy_init g then Some g
      else do { let g = g\<lparr>yy_init := True, yy_start := (if yy_start g = 0 then 1 else yy_start g)\<rparr>;
                b \<leftarrow> (case yy_buffer g of None \<Rightarrow> yy_create_buffer YY_BUF_SIZE | Some b \<Rightarrow> Some b);
                yy_load_buffer_state (g\<lparr>yy_buffer := Some b\<rparr>) })"

definition yylex :: "yyguts_t \<Rightarrow> cmListFileLexer \<Rightarrow> (int \<times> yyguts_t \<times> cmListFileLexer) option" where
  "yylex g lexer = do { g \<leftarrow> yylex_setup g; scan_run Start g lexer }"

definition yylex_init :: yyguts_t where
  "yylex_init = \<lparr>yy_buffer = None, yy_hold_char = 0, yy_n_chars = 0, yy_c_buf_p = 0, yy_init = False, yy_start = 0,
     yy_last_accepting_state = 0, yy_last_accepting_cpos = 0, yytext_ptr = 0, yyleng = 0, echoed = []\<rparr>"

end
