(* ===== verification/ListFileScanLemmas.thy ===== *)
theory ListFileScanLemmas
  imports ListFileScanner
begin

text \<open>
  The loops of the generated scanner (\<^verbatim>\<open>LexerParser/cmListFileLexer.c\<close>) on a buffer that holds the
  text: the matching loop stops where the automaton has no successor, or at a zero byte, and the last
  accepting position is the end of the longest match.
\<close>

section \<open>Memory that holds given bytes\<close>

definition holds :: "mem \<Rightarrow> byte list \<Rightarrow> bool" where
  "holds m bs \<longleftrightarrow> take (length bs) m = map Some bs"

lemma holds_length: "holds m bs \<Longrightarrow> length bs \<le> length m"
  unfolding holds_def by (metis length_map length_take min.absorb_iff2 min.commute)

lemma holds_iff: "holds m bs \<longleftrightarrow> length bs \<le> length m \<and> (\<forall>i<length bs. m ! i = Some (bs ! i))"
  using holds_length [of m bs] by (auto simp: holds_def list_eq_iff_nth_eq)

lemma holds_get: "holds m bs \<Longrightarrow> i < length bs \<Longrightarrow> get m i = Some (bs ! i)"
  by (simp add: holds_iff get_def)

lemma holds_put: "holds m bs \<Longrightarrow> i < length bs \<Longrightarrow> \<exists>m'. put m i b = Some m' \<and> holds m' (bs[i := b]) \<and> length m' = length m"
  by (auto simp: holds_iff put_def nth_list_update)

lemma holds_append1: "holds m (as @ bs) \<Longrightarrow> holds m as"
  by (auto simp: holds_iff nth_append)

lemma mem_read_holds: "holds m bs \<Longrightarrow> p + n \<le> length bs \<Longrightarrow> mem_read m p n = Some (map Some (take n (drop p bs)))"
proof -
  assume h: "holds m bs" "p + n \<le> length bs"
  then have "take n (drop p m) = take n (drop p (take (length bs) m))" by (simp add: drop_take min_def)
  also have "\<dots> = map Some (take n (drop p bs))" using h(1) by (simp add: holds_def drop_map take_map)
  finally show ?thesis using h holds_length by (fastforce simp: mem_read_def)
qed

lemma read_text_holds: "holds m bs \<Longrightarrow> p + n \<le> length bs \<Longrightarrow> read_text m p n = Some (take n (drop p bs))"
  by (auto simp: read_text_def mem_read_holds comp_def)

section \<open>The table entries of the end of the buffer\<close>

lemma ec_class: "b \<noteq> 0 \<Longrightarrow> yy_ec ! unat b = yy_class b" "yy_ec ! 0 = 0"
  by (simp_all add: yy_class_def ec_char ec_of_def)

lemma ec_item: "item yy_ec (unat (b :: byte)) = Some (yy_ec ! unat b)" "yy_ec ! unat b < 17"
proof -
  have "unat b < 256" by simp
  then show "item yy_ec (unat b) = Some (yy_ec ! unat b)" "yy_ec ! unat b < 17"
    using ec_char [of "unat b"] by (simp_all add: item_def table_sizes ec_of_def)
qed

lemma column_zero: "list_all (\<lambda>q. q = 11 \<or> hd (dfa_row q) = 11) (1 # [2..<79])"
  by (simp add: row_entries)

lemma next_zero: "input_state q \<Longrightarrow> dfa_next q 0 = 11"
proof -
  assume q: "input_state q"
  then have "q \<in> set (1 # [2..<79])" unfolding list.set set_upt input_state_def by auto
  from bspec [OF column_zero [unfolded list_all_iff] this] have "hd (dfa_rows ! q) = 11"
    using q by (simp add: input_state_def dfa_row_def)
  moreover have "length (dfa_rows ! q) = 17" using q dfa_rows_size by (auto simp: input_state_def list_all_length)
  ultimately show ?thesis by (cases "dfa_rows ! q") (auto simp: dfa_next_def)
qed

lemma next_after_end: "c < 17 \<Longrightarrow> dfa_next 11 c = 78"
proof -
  have "list_all (\<lambda>q. q = 78) (dfa_rows ! 11)" "length (dfa_rows ! 11) = 17"
    by (simp_all add: row_entries [unfolded dfa_row_def])
  then show "c < 17 \<Longrightarrow> dfa_next 11 c = 78" by (auto simp: dfa_next_def list_all_length)
qed

lemma base_end: "yy_base ! 11 = 68" "yy_base ! 78 = 298" "yy_accept ! 11 = 25" "yy_accept ! 78 = 0"
  by (simp_all add: yy_base_def yy_accept_def)

text \<open>A state whose base is 298 has no successors on input.\<close>

lemma full_rows: "list_all (\<lambda>q. yy_base_at q = 298 \<longrightarrow> list_all (\<lambda>q. q = 78) (tl (dfa_row q))) (1 # [2..<79])"
  by (simp add: row_entries base_entries)

lemma full_state: "input_state q \<Longrightarrow> yy_base ! q = 298 \<Longrightarrow> dfa_next q (yy_class b) = 78"
proof -
  assume q: "input_state q" "yy_base ! q = 298"
  then have "q \<in> set (1 # [2..<79])" unfolding list.set set_upt input_state_def by auto
  from bspec [OF full_rows [unfolded list_all_iff [of _ "1 # [2..<79]"]] this] have "list_all (\<lambda>q. q = 78) (tl (dfa_rows ! q))"
    using q by (simp add: yy_base_at_def dfa_row_def)
  moreover have "length (dfa_rows ! q) = 17" using q dfa_rows_size by (auto simp: input_state_def list_all_length)
  ultimately show ?thesis
    using yy_class_bounds [of b] by (auto simp: dfa_next_def list_all_length nth_tl dest: spec [of _ "yy_class b - 1"])
qed

lemma full_run: "input_state q \<Longrightarrow> yy_base ! q = 298 \<Longrightarrow> w \<noteq> [] \<Longrightarrow> dfa_run q w = 78"
  by (cases w) (simp_all add: full_state)

section \<open>The matching loop\<close>

text \<open>What the loop does on the bytes \<open>w\<close> that the buffer still holds at \<open>cp\<close>.\<close>

fun run_match :: "nat \<Rightarrow> nat \<Rightarrow> nat \<times> nat \<Rightarrow> byte list \<Rightarrow> nat \<times> nat \<times> nat \<times> nat" where
  "run_match st cp acc [] = (78, Suc (Suc cp), 11, Suc cp)"
| "run_match st cp acc (b # w) =
     (if b = 0 then (78, Suc (Suc cp), 11, Suc cp)
      else let acc = (if yy_accept ! st \<noteq> 0 then (st, cp) else acc); st = dfa_next st (yy_class b)
           in if yy_base ! st = 298 then (st, Suc cp, acc) else run_match st (Suc cp) acc w)"

lemma input_next: "input_state q \<Longrightarrow> c < 17 \<Longrightarrow> yy_next q c = Some (dfa_next q c)" "c < 17 \<Longrightarrow> yy_next 11 c = Some (dfa_next 11 c)"
  by (simp_all add: yy_next_dfa input_state_def)

lemma input_items:
  assumes "input_state q"
  shows "item yy_accept q = Some (yy_accept ! q)" "item yy_base q = Some (yy_base ! q)"
  using assms by (simp_all add: input_state_def table_sizes)

lemma end_items: "item yy_accept 11 = Some 25" "item yy_base 11 = Some 68" "item yy_base 78 = Some 298" "item yy_accept 78 = Some 0"
  by (simp_all add: table_sizes base_end)

lemma match_loop_end:
  assumes "get m cp = Some 0" and "get m (Suc cp) = Some b" and "input_state st"
  shows "match_loop m st cp acc = Some (78, Suc (Suc cp), 11, Suc cp)"
proof -
  have "match_loop m 11 (Suc cp) x = Some (78, Suc (Suc cp), 11, Suc cp)" for x
    using assms(2) ec_item [of b]
    by (subst match_loop.simps) (simp add: ec_item input_next(2) end_items next_after_end Let_def)
  then show ?thesis
    using assms(1,3) ec_item(1) [of 0]
    by (subst match_loop.simps) (simp add: ec_class input_next(1) input_items end_items next_zero Let_def)
qed

lemma match_loop_run:
  assumes "holds m (bs @ [0, 0])" and "cp \<le> length bs" and "input_state st"
  shows "match_loop m st cp acc = Some (run_match st cp acc (drop cp bs))"
  using assms(2,3)
proof (induction "drop cp bs" arbitrary: cp st acc)
  case Nil
  then have cp: "cp = length bs" by simp
  have "get m cp = Some 0" "get m (Suc cp) = Some 0"
    using holds_get [OF assms(1), of cp] holds_get [OF assms(1), of "Suc cp"] by (simp_all add: cp nth_append)
  from match_loop_end [OF this Nil(3)] Nil(1) show ?case by (simp add: cp)
next
  case (Cons b w)
  then have cp: "cp < length bs" and b: "b = bs ! cp" and w: "w = drop (Suc cp) bs"
    by (metis drop_all leI list.distinct(1)) (metis Cons.hyps(2) hd_drop_conv_nth list.sel(1) drop_all leI list.distinct(1),
      metis Cons.hyps(2) drop_Suc list.sel(3) tl_drop)
  have g: "get m cp = Some b" using holds_get [OF assms(1), of cp] cp by (simp add: nth_append b)
  show ?case
  proof (cases "b = 0")
    case True
    obtain d where "get m (Suc cp) = Some d" using holds_get [OF assms(1), of "Suc cp"] cp by simp
    from match_loop_end [OF g [unfolded True] this Cons.prems(2)] Cons.hyps(2) True show ?thesis by (metis run_match.simps(2))
  next
    case False
    let ?st = "dfa_next st (yy_class b)"
    have st: "input_state ?st" using Cons.prems(2) by (rule dfa_next_input)
    have IH: "match_loop m ?st (Suc cp) acc' = Some (run_match ?st (Suc cp) acc' w)" for acc'
      using Cons.hyps(1) [OF w _ st] cp w by simp
    have "match_loop m st cp acc = Some (run_match st cp acc (b # w))"
      using False g Cons.prems(2) st yy_class_bounds(2) [of b]
      by (subst match_loop.simps) (simp add: ec_item ec_class input_next(1) input_items IH Let_def)
    then show ?thesis using Cons.hyps(2) by simp
  qed
qed

text \<open>The last accepting state before the end of a text, in the variables of the scanner.\<close>

definition last_before :: "nat \<Rightarrow> byte list \<Rightarrow> nat \<Rightarrow> bool" where
  "last_before q v k \<longleftrightarrow> k < length v \<and> yy_accept ! dfa_run q (take k v) \<noteq> 0
     \<and> (\<forall>j. k < j \<and> j < length v \<longrightarrow> yy_accept ! dfa_run q (take j v) = 0)"

definition good_last :: "nat \<Rightarrow> byte list \<Rightarrow> nat \<Rightarrow> nat \<times> nat \<Rightarrow> bool" where
  "good_last q v bp acc \<longleftrightarrow> (\<forall>k. last_before q v k \<longrightarrow> acc = (dfa_run q (take k v), bp + k))"

lemma good_last_Nil [simp]: "good_last q [] bp acc"
  by (simp add: good_last_def last_before_def)

lemma last_before_snoc:
  "last_before q (v @ [b]) k \<longleftrightarrow> (if yy_accept ! dfa_run q v \<noteq> 0 then k = length v else last_before q v k)"
  by (auto simp: last_before_def less_Suc_eq)

lemma good_last_snoc:
  assumes "good_last q v bp acc"
  shows "good_last q (v @ [b]) bp (if yy_accept ! dfa_run q v \<noteq> 0 then (dfa_run q v, bp + length v) else acc)"
  using assms by (auto simp: good_last_def last_before_snoc) (auto simp: last_before_def)

text \<open>After a line feed no match goes on.\<close>

lemma newline_rows: "list_all (\<lambda>q. yy_base_at (dfa_row q ! 3) = 298) (1 # [2..<79])"
  by (simp add: row_entries base_entries)

lemma newline_full:
  assumes "input_state q"
  shows "yy_base ! dfa_next q (yy_class 0x0A) = 298"
proof -
  have "q \<in> set (1 # [2..<79])" using assms unfolding list.set set_upt input_state_def by auto
  from bspec [OF newline_rows [unfolded list_all_iff] this] show ?thesis
    by (simp add: yy_base_at_def dfa_row_def dfa_next_def yy_class_def ec_char ec_of_def)
qed

text \<open>The two ways in which the matching loop ends; it goes on to the end of the buffer within a line only.\<close>

lemma run_match_cases:
  assumes "good_last q v bp acc" and "input_state q"
  shows "(\<exists>x y. w = x @ y \<and> x \<noteq> [] \<and> yy_base ! dfa_run q (v @ x) = 298 \<and> (\<exists>acc'.
        run_match (dfa_run q v) (bp + length v) acc w = (dfa_run q (v @ x), bp + length (v @ x), acc') \<and> good_last q (v @ x) bp acc'))
    \<or> (\<exists>x y. w = x @ y \<and> (y = [] \<or> hd y = 0) \<and> 0x0A \<notin> set x
        \<and> run_match (dfa_run q v) (bp + length v) acc w = (78, bp + length (v @ x) + 2, 11, bp + length (v @ x) + 1))"
  using assms(1)
proof (induction w arbitrary: v acc)
  case Nil
  then show ?case by simp
next
  case (Cons b w)
  show ?case
  proof (cases "b = 0")
    case True
    then show ?thesis by (intro disjI2 exI [of _ "[]"] exI [of _ "b # w"]) simp
  next
    case False
    let ?acc = "if yy_accept ! dfa_run q v \<noteq> 0 then (dfa_run q v, bp + length v) else acc"
    have g: "good_last q (v @ [b]) bp ?acc" by (rule good_last_snoc [OF Cons.prems])
    have run: "run_match (dfa_run q v) (bp + length v) acc (b # w) = (if yy_base ! dfa_run q (v @ [b]) = 298
        then (dfa_run q (v @ [b]), bp + length (v @ [b]), ?acc) else run_match (dfa_run q (v @ [b])) (bp + length (v @ [b])) ?acc w)"
      using False by (simp add: Let_def)
    show ?thesis
    proof (cases "yy_base ! dfa_run q (v @ [b]) = 298")
      case True
      with run g show ?thesis by (intro disjI1 exI [of _ "[b]"] exI [of _ w]) (simp del: run_match.simps)
    next
      case more: False
      let ?st = "dfa_run q (v @ [b])" and ?cp = "bp + length (v @ [b])"
      consider (stop) x y acc' where "w = x @ y" "yy_base ! dfa_run q ((v @ [b]) @ x) = 298" "good_last q ((v @ [b]) @ x) bp acc'"
          "run_match ?st ?cp ?acc w = (dfa_run q ((v @ [b]) @ x), bp + length ((v @ [b]) @ x), acc')"
        | (zero) x y where "w = x @ y" "y = [] \<or> hd y = 0" "0x0A \<notin> set x"
          "run_match ?st ?cp ?acc w = (78, bp + length ((v @ [b]) @ x) + 2, 11, bp + length ((v @ [b]) @ x) + 1)"
        using Cons.IH [OF g] by blast
      then show ?thesis
      proof cases
        case (stop x y acc')
        with run more show ?thesis by (intro disjI1 exI [of _ "b # x"] exI [of _ y]) (simp del: run_match.simps)
      next
        case (zero x y)
        moreover have "b \<noteq> 0x0A" using more newline_full [OF dfa_run_input [OF assms(2)], of v] by auto
        ultimately show ?thesis using run more by (intro disjI2 exI [of _ "b # x"] exI [of _ y]) (simp del: run_match.simps)
      qed
    qed
  qed
qed

text \<open>\<open>yy_get_previous_state\<close> runs over the match again.\<close>

lemma previous_loop_run:
  assumes "holds m bs" and "input_state q" and "bp \<le> p" and "p + n \<le> length bs"
    and "good_last q (take (p - bp) (drop bp bs)) bp acc"
  shows "\<exists>acc'. previous_loop m [p..<p + n] (dfa_run q (take (p - bp) (drop bp bs))) acc
      = Some (dfa_run q (take (p + n - bp) (drop bp bs)), acc') \<and> good_last q (take (p + n - bp) (drop bp bs)) bp acc'"
  using assms(3-5)
proof (induction n arbitrary: p acc)
  case 0
  then show ?case by simp
next
  case (Suc n)
  let ?v = "take (p - bp) (drop bp bs)" and ?b = "bs ! p"
  let ?acc = "if yy_accept ! dfa_run q ?v \<noteq> 0 then (dfa_run q ?v, p) else acc"
  have v: "take (Suc p - bp) (drop bp bs) = ?v @ [?b]" "length ?v = p - bp"
    using Suc.prems(1,2) by (simp_all add: Suc_diff_le take_Suc_conv_app_nth)
  have e: "bp + length ?v = p" using v(2) Suc.prems(1) by simp
  have "good_last q (?v @ [?b]) bp ?acc" using good_last_snoc [OF Suc.prems(3), of ?b] unfolding e .
  with Suc.IH [of "Suc p" ?acc] Suc.prems(1,2) v(1) obtain acc' where
    IH: "previous_loop m [Suc p..<Suc p + n] (dfa_run q (?v @ [?b])) ?acc
      = Some (dfa_run q (take (Suc p + n - bp) (drop bp bs)), acc')" "good_last q (take (Suc p + n - bp) (drop bp bs)) bp acc'"
    by auto
  have g: "get m p = Some ?b" using holds_get [OF assms(1), of p] Suc.prems(2) by simp
  have c: "(if ?b \<noteq> 0 then item yy_ec (unat ?b) else Some 16) = Some (yy_class ?b)"
    using ec_item(1) [of ?b] ec_class(1) [of ?b] by (simp add: yy_class_def)
  have st: "input_state (dfa_run q ?v)" using assms(2) by (rule dfa_run_input)
  have "[p..<p + Suc n] = p # [Suc p..<Suc p + n]" by (simp add: upt_rec)
  then show ?case
    using IH g c st yy_class_bounds(2) [of ?b]
    by (simp add: input_next(1) input_items Let_def del: upt_Suc split del: if_split)
qed

text \<open>How long the match is when no longer one is possible.\<close>

lemma one_byte_accept: "t \<noteq> [] \<Longrightarrow> yy_accept ! dfa_run (start_state sc) (take 1 t) \<noteq> 0"
  using one_byte_matches [of sc "hd t"] by (cases t) (simp_all add: run_accept Let_def split: if_splits)

lemma match_length:
  assumes "v \<noteq> []" and "t = v @ y" and "good_last (start_state sc) v bp acc"
    and dead: "\<And>j. length v < j \<Longrightarrow> j \<le> length t \<Longrightarrow> yy_accept ! dfa_run (start_state sc) (take j t) = 0"
  shows "if yy_accept ! dfa_run (start_state sc) v \<noteq> 0 then best_prefix (start_state sc) t (length v)
     else \<exists>k. best_prefix (start_state sc) t k \<and> acc = (dfa_run (start_state sc) (take k t), bp + k)"
proof (cases "yy_accept ! dfa_run (start_state sc) v = 0")
  case False
  with assms(2) dead show ?thesis by (simp add: best_prefix_def)
next
  case True
  let ?A = "{k. k < length v \<and> yy_accept ! dfa_run (start_state sc) (take k v) \<noteq> 0}"
  have "1 < length v"
    using True one_byte_accept [OF assms(1), of sc] assms(1) by (cases "length v = 1") (auto simp: Suc_lessI)
  then have "1 \<in> ?A" using one_byte_accept [OF assms(1), of sc] by simp
  moreover have "finite ?A" by simp
  ultimately have m: "Max ?A \<in> ?A" "\<And>j. j \<in> ?A \<Longrightarrow> j \<le> Max ?A" using Max_in [of ?A] Max_ge [of ?A] by blast+
  then have "last_before (start_state sc) v (Max ?A)"
    unfolding last_before_def by (metis (mono_tags, lifting) leD mem_Collect_eq)
  then obtain k where k: "last_before (start_state sc) v k" by blast
  then have acc: "acc = (dfa_run (start_state sc) (take k v), bp + k)" using assms(3) by (simp add: good_last_def)
  have len: "k < length v" "yy_accept ! dfa_run (start_state sc) (take k v) \<noteq> 0" using k by (simp_all add: last_before_def)
  have "yy_accept ! dfa_run (start_state sc) (take j t) = 0" if j: "k < j" "j \<le> length t" for j
  proof -
    consider "j < length v" | "j = length v" | "length v < j" by linarith
    then show ?thesis
    proof cases
      case 1
      then have "take j t = take j v" using assms(2) by simp
      with 1 j(1) k show ?thesis by (simp add: last_before_def)
    next
      case 2
      with True assms(2) show ?thesis by simp
    next
      case 3
      then show ?thesis by (rule dead [OF _ j(2)])
    qed
  qed
  moreover have "take k t = take k v" "k \<le> length t" using assms(2) len(1) by simp_all
  ultimately have "best_prefix (start_state sc) t k" using len(2) by (simp add: best_prefix_def)
  with acc True \<open>take k t = take k v\<close> show ?thesis by auto
qed

end
