(* ===== verification/ListFileBuffer.thy ===== *)
theory ListFileBuffer
  imports ListFileScanLemmas "HOL-Library.Sublist"
begin

text \<open>
  The specification of the scanner of \<^verbatim>\<open>LexerParser/cmListFileLexer.c\<close> on a text (the action of the
  longest match, again and again until an action returns), and the input buffer: moving, growing and
  refilling it keeps the text.
\<close>

section \<open>The specification\<close>

function scan_text :: "nat \<Rightarrow> cmListFileLexer \<Rightarrow> byte list \<Rightarrow> byte list \<Rightarrow>
  (int \<times> cmListFileLexer \<times> nat \<times> byte list \<times> byte list) option" where
  "scan_text start lexer out t =
     (if t = []
      then do { (ret, lexer, start, out) \<leftarrow> eof_action ((start - 1) div 2) (lexer, start, out);
                v \<leftarrow> ret; Some (v, lexer, start, out, []) }
      else case munch start t 0 (0, 0) of (act, n) \<Rightarrow>
        if n = 0 then None
        else do { (ret, lexer, start, out) \<leftarrow> rule_action act (take n t) (lexer, start, out);
                  case ret of Some v \<Rightarrow> Some (v, lexer, start, out, drop n t)
                  | None \<Rightarrow> scan_text start lexer out (drop n t) })"
  by pat_completeness auto
termination by (relation "measure (\<lambda>(start, lexer, out, t). length t)") auto

declare scan_text.simps [simp del]

section \<open>The lexer without its source\<close>

definition core :: "cmListFileLexer \<Rightarrow> cmListFileLexer" where
  "core lexer = lexer\<lparr>input_file := None, cr := 0, string_buffer := None, string_position := 0, string_left := 0, scanner := None\<rparr>"

definition source :: "cmListFileLexer \<Rightarrow> stream option \<times> nat \<times> byte list option \<times> nat \<times> nat" where
  "source lexer = (input_file lexer, cr lexer, string_buffer lexer, string_position lexer, string_left lexer)"

definition with_core :: "cmListFileLexer \<Rightarrow> cmListFileLexer \<Rightarrow> cmListFileLexer" where
  "with_core l c = l\<lparr>token := token c, bracket := bracket c, comment := comment c, line := line c, column := column c, size := size c\<rparr>"

lemma core_fields [simp]:
  "token (core l) = token l" "bracket (core l) = bracket l" "comment (core l) = comment l"
  "line (core l) = line l" "column (core l) = column l" "size (core l) = size l"
  by (simp_all add: core_def)

lemma with_core_fields [simp]:
  "token (with_core l c) = token c" "bracket (with_core l c) = bracket c" "comment (with_core l c) = comment c"
  "line (with_core l c) = line c" "column (with_core l c) = column c" "size (with_core l c) = size c"
  "source (with_core l c) = source l"
  by (simp_all add: with_core_def source_def)

lemma with_core_core [simp]: "with_core l (core l) = l"
  by (simp add: with_core_def)

lemma with_core_update [simp]:
  "with_core l c\<lparr>token := t\<rparr> = with_core l (c\<lparr>token := t\<rparr>)"
  "with_core l c\<lparr>bracket := k\<rparr> = with_core l (c\<lparr>bracket := k\<rparr>)"
  "with_core l c\<lparr>comment := a\<rparr> = with_core l (c\<lparr>comment := a\<rparr>)"
  "with_core l c\<lparr>line := k\<rparr> = with_core l (c\<lparr>line := k\<rparr>)"
  "with_core l c\<lparr>column := k\<rparr> = with_core l (c\<lparr>column := k\<rparr>)"
  "with_core l c\<lparr>size := k\<rparr> = with_core l (c\<lparr>size := k\<rparr>)"
  by (simp_all add: with_core_def)

lemma core_with_core [simp]: "core (with_core l c) = with_core (core l) c"
  by (simp add: with_core_def core_def)

lemma core_core [simp]: "core (core l) = core l"
  by (simp add: core_def)

named_theorems commutes

lemma bind_commutes: "Option.bind (map_option (with_core l) x) f = Option.bind x (\<lambda>c. f (with_core l c))"
  by (cases x) simp_all

lemma if_commutes: "(if b then with_core l c else with_core l d) = with_core l (if b then c else d)"
  by simp

lemma SetToken_commutes [commutes]: "cmListFileLexerSetToken (with_core l c) text n = map_option (with_core l) (cmListFileLexerSetToken c text n)"
  by (auto simp: cmListFileLexerSetToken_def Let_def map_option_bind comp_def split: option.splits)

lemma Append_commutes [commutes]: "cmListFileLexerAppend (with_core l c) text n = map_option (with_core l) (cmListFileLexerAppend c text n)"
  by (auto simp: cmListFileLexerAppend_def Let_def map_option_bind comp_def split: option.splits)

lemma simple_commutes [commutes]:
  "simple_token ty w (with_core l c) = map_option (with_core l) (simple_token ty w c)"
  "append_text w (with_core l c) = map_option (with_core l) (append_text w c)"
  "append_newline w (with_core l c) = map_option (with_core l) (append_newline w c)"
  "open_bracket w (with_core l c) = map_option (with_core l) (open_bracket w c)"
  "close_bracket w (with_core l c) = map_option (with_core l) (close_bracket w c)"
  by (simp_all add: simple_token_def append_text_def append_newline_def open_bracket_def close_bracket_def Let_def commutes
      bind_commutes map_option_bind comp_def if_commutes cong: if_cong split del: if_split)

lemma rule_action_commutes:
  "rule_action act w (with_core l c, s, out)
     = map_option (\<lambda>(r, c, s, out). (r, with_core l c, s, out)) (rule_action act w (c, s, out))"
  by (simp add: rule_action_def Let_def commutes bind_commutes map_option_bind comp_def cong: if_cong split del: if_split)
    (auto simp: map_option_bind comp_def split: if_split)

lemma eof_action_commutes:
  "eof_action act (with_core l c, s, out)
     = map_option (\<lambda>(r, c, s, out). (r, with_core l c, s, out)) (eof_action act (c, s, out))"
  by (simp add: eof_action_def Let_def commutes bind_commutes map_option_bind comp_def)

section \<open>The state of the buffer\<close>

text \<open>
  \<open>scanning\<close>: the buffer holds the bytes \<open>bs\<close> of the text and the two zero bytes that end it, and the
  source still delivers \<open>u\<close> after them.  \<open>held\<close>: the same between a match and the next one, when the byte after
  the match is kept in \<open>yy_hold_char\<close>.  \<open>ready\<close>: the next match starts with the text \<open>t\<close>.
\<close>

definition scanning ::
  "(byte list \<Rightarrow> cmListFileLexer \<Rightarrow> byte list \<Rightarrow> bool) \<Rightarrow> yyguts_t \<Rightarrow> cmListFileLexer \<Rightarrow> byte list \<Rightarrow> byte list \<Rightarrow> bool" where
  "scanning delivers g l bs u \<longleftrightarrow> delivers bs l u \<and> yy_n_chars g = length bs
     \<and> (\<exists>b. yy_buffer g = Some b \<and> length (yy_ch_buf b) = yy_buf_size b + 2 \<and> YY_BUF_SIZE \<le> yy_buf_size b
         \<and> length bs \<le> yy_buf_size b \<and> holds (yy_ch_buf b) (bs @ [0, 0])
         \<and> (yy_buffer_status b = YY_BUFFER_NEW \<longrightarrow> yy_bn_chars b = length bs)
         \<and> (yy_buffer_status b = YY_BUFFER_EOF_PENDING \<longrightarrow> u = []))"

definition held ::
  "(byte list \<Rightarrow> cmListFileLexer \<Rightarrow> byte list \<Rightarrow> bool) \<Rightarrow> yyguts_t \<Rightarrow> cmListFileLexer \<Rightarrow> byte list \<Rightarrow> byte list \<Rightarrow> bool" where
  "held delivers g l bs u \<longleftrightarrow> (\<exists>b m. yy_buffer g = Some b \<and> put (yy_ch_buf b) (yy_c_buf_p g) (yy_hold_char g) = Some m
     \<and> scanning delivers (g\<lparr>yy_buffer := Some (b\<lparr>yy_ch_buf := m\<rparr>)\<rparr>) l bs u)"

definition ready :: "(byte list \<Rightarrow> cmListFileLexer \<Rightarrow> byte list \<Rightarrow> bool) \<Rightarrow> yyguts_t \<Rightarrow> cmListFileLexer \<Rightarrow> byte list \<Rightarrow> bool" where
  "ready delivers g l t \<longleftrightarrow> (\<exists>bs u. held delivers g l bs u \<and> yy_c_buf_p g \<le> length bs \<and> t = drop (yy_c_buf_p g) bs @ u)"

lemma scanning_cong:
  "yy_buffer g' = yy_buffer g \<Longrightarrow> yy_n_chars g' = yy_n_chars g \<Longrightarrow> scanning delivers g' l bs u = scanning delivers g l bs u"
  by (simp add: scanning_def)

lemma put_Some: "put m i b = Some m' \<longleftrightarrow> i < length m \<and> m' = m[i := Some b]"
  by (auto simp: put_def)

text \<open>What the control of the scanner keeps.\<close>

definition same_input :: "cmListFileLexer \<Rightarrow> cmListFileLexer \<Rightarrow> bool" where
  "same_input l l' \<longleftrightarrow> string_buffer l' = string_buffer l \<and> scanner l' = scanner l \<and> (input_file l' = None \<longleftrightarrow> input_file l = None)"

definition same_lexer :: "cmListFileLexer \<Rightarrow> cmListFileLexer \<Rightarrow> bool" where
  "same_lexer l l' \<longleftrightarrow> core l' = core l \<and> same_input l l'"

definition same_run :: "yyguts_t \<Rightarrow> yyguts_t \<Rightarrow> bool" where
  "same_run g g' \<longleftrightarrow> yy_start g' = yy_start g \<and> echoed g' = echoed g \<and> yy_init g' = yy_init g"

lemma kept_refl [simp]: "same_lexer l l" and same_run_refl [simp]: "same_run g g"
  by (simp_all add: same_lexer_def same_input_def same_run_def)

lemma same_input_trans: "same_input l l' \<Longrightarrow> same_input l' l'' \<Longrightarrow> same_input l l''"
  by (simp add: same_input_def)

lemma kept_trans [trans]: "same_lexer l l' \<Longrightarrow> same_lexer l' l'' \<Longrightarrow> same_lexer l l''"
  and same_run_trans [trans]: "same_run g g' \<Longrightarrow> same_run g' g'' \<Longrightarrow> same_run g g''"
  by (simp_all add: same_lexer_def same_input_def same_run_def)

section \<open>Moving and growing the buffer\<close>

lemma move_loop_moves:
  assumes "dest \<le> src" and "src + n \<le> length m" and "None \<notin> set (take n (drop src m))"
  shows "move_loop m dest src n = Some (take dest m @ take n (drop src m) @ drop (dest + n) m)"
  using assms
proof (induction n arbitrary: m dest src)
  case 0
  then show ?case by simp
next
  case (Suc n)
  have d: "take (Suc n) (drop src m) = m ! src # take n (drop (Suc src) m)"
    using Suc.prems(2) by (metis Cons_nth_drop_Suc Suc_le_lessD add_Suc_right le_add1 le_trans not_less_eq_eq take_Suc_Cons)
  with Suc.prems(3) obtain b where b: "m ! src = Some b" by (cases "m ! src") auto
  let ?m = "m[dest := Some b]"
  have t: "take n (drop (Suc src) ?m) = take n (drop (Suc src) m)" using Suc.prems(1) by (simp add: drop_update_cancel)
  have "move_loop ?m (Suc dest) (Suc src) n
      = Some (take (Suc dest) ?m @ take n (drop (Suc src) ?m) @ drop (Suc dest + n) ?m)"
    using Suc.prems d by (intro Suc.IH) (auto simp: t)
  moreover have "take (Suc dest) ?m = take dest m @ [Some b]"
    using Suc.prems by (simp add: take_Suc_conv_app_nth)
  ultimately show ?case
    using Suc.prems b by (simp add: get_def put_def t d drop_update_cancel)
qed

lemma resize_holds: "holds m xs \<Longrightarrow> length xs \<le> n \<Longrightarrow> holds (resize m n) xs"
  by (auto simp: holds_iff resize_def nth_append)

lemma length_resize [simp]: "length (resize m n) = n"
  by (simp add: resize_def)

lemma grow_loop_grows:
  assumes "length m = k + 2" and "0 < k" and "holds m xs"
  shows "\<exists>m' k'. grow_loop n m k = Some (m', k') \<and> n + 1 < k' \<and> k \<le> k' \<and> length m' = k' + 2 \<and> holds m' xs"
  using assms
proof (induction "n + 2 - k" arbitrary: m k rule: less_induct)
  case less
  show ?case
  proof (cases "k \<le> n + 1")
    case True
    have "holds (resize m (k * 2 + 2)) xs" using less.prems holds_length by (intro resize_holds) fastforce+
    moreover have "n + 2 - k * 2 < n + 2 - k" using True less.prems(2) by linarith
    ultimately obtain m' k' where
      "grow_loop n (resize m (k * 2 + 2)) (k * 2) = Some (m', k')" "n + 1 < k'" "k * 2 \<le> k'" "length m' = k' + 2" "holds m' xs"
      using less.hyps [of "k * 2" "resize m (k * 2 + 2)"] less.prems by auto
    with True show ?thesis by (subst grow_loop.simps) simp
  next
    case False
    with less.prems show ?thesis by (subst grow_loop.simps) simp
  qed
qed

section \<open>Before an action\<close>

lemma eol_size: "length yy_rule_can_match_eol = 25"
  by (simp add: yy_rule_can_match_eol_def)

lemma holds_update: "holds m xs \<Longrightarrow> holds (m[i := Some x]) (xs[i := x])"
  by (cases "i < length xs") (auto simp: holds_iff nth_list_update)

lemma before_action:
  assumes s: "scanning delivers g l bs u" and p: "bp \<le> cp" "cp \<le> length bs + 1" and st: "st < 79"
    and act: "act \<le> 25" "if yy_accept ! st = 0 then last_accepting g = (q, cp) \<and> q < 79 \<and> act = yy_accept ! q
      else act = yy_accept ! st \<and> cp = cp'"
  shows "\<exists>g' b. scan_find_action st cp' bp g l = Some (Inr (Do_action act cp bp), g', l) \<and> held delivers g' l bs u
     \<and> same_run g g' \<and> yytext_ptr g' = bp \<and> yyleng g' = cp - bp \<and> yy_c_buf_p g' = cp \<and> yy_buffer g' = Some b
     \<and> read_text (yy_ch_buf b) bp (cp - bp) = Some (take (cp - bp) (drop bp (bs @ [0])))"
proof -
  obtain b where b: "yy_buffer g = Some b" "length (yy_ch_buf b) = yy_buf_size b + 2" "length bs \<le> yy_buf_size b"
    "holds (yy_ch_buf b) (bs @ [0, 0])" using s by (auto simp: scanning_def)
  let ?m = "(yy_ch_buf b)[cp := Some 0]" and ?h = "(bs @ [0, 0]) ! cp"
  have cp: "cp < length (yy_ch_buf b)" using b p by simp
  have h: "get (yy_ch_buf b) cp = Some ?h" using holds_get [OF b(4)] p by simp
  have "holds ?m ((bs @ [0, 0])[cp := 0])" using b(4) by (rule holds_update)
  from read_text_holds [OF this, of bp "cp - bp"] p
  have "read_text ?m bp (cp - bp) = Some (take (cp - bp) (drop bp ((bs @ [0, 0])[cp := 0])))" by simp
  moreover have "take (cp - bp) (drop bp ((bs @ [0, 0])[cp := 0])) = take (cp - bp) (drop bp (bs @ [0]))"
    using p by (intro nth_equalityI) (auto simp: nth_append nth_list_update)
  ultimately have r: "read_text ?m bp (cp - bp) = Some (take (cp - bp) (drop bp (bs @ [0])))" by simp
  have a: "(if yy_accept ! st = 0 then do { act \<leftarrow> item yy_accept (yy_last_accepting_state g); Some (act, yy_last_accepting_cpos g) }
      else Some (yy_accept ! st, cp')) = Some (act, cp)"
    using act by (auto simp: last_accepting_def table_sizes split: if_splits)
  obtain e where e: "(if act \<noteq> YY_END_OF_BUFFER then item yy_rule_can_match_eol act else Some 0) = Some e"
    using act(1) by (cases "act = 25") (simp_all add: YY_END_OF_BUFFER_def eol_size item_def)
  have restored: "put ?m cp ?h = Some (yy_ch_buf b)"
    using h cp by (auto simp: put_def get_def list_update_same_conv)
  show ?thesis
    unfolding scan_find_action_def
    using st p cp h r a e restored s b(1)
    by (simp add: table_sizes put_def held_def same_run_def scanning_def Let_def)
qed

lemma holds_end: "holds m xs \<Longrightarrow> length xs + 2 \<le> length m \<Longrightarrow> holds (m[length xs := Some 0, Suc (length xs) := Some 0]) (xs @ [0, 0])"
  by (auto simp: holds_iff nth_append nth_list_update less_Suc_eq)

lemma yyrestart_flushes:
  assumes "yy_buffer g = Some b" and "1 < length (yy_ch_buf b)"
  shows "yyrestart g = Some (g\<lparr>yy_n_chars := 0, yy_buffer := Some (b\<lparr>yy_ch_buf := (yy_ch_buf b)[0 := Some 0, Suc 0 := Some 0],
    yy_bn_chars := 0, yy_buf_pos := 0, yy_buffer_status := YY_BUFFER_NEW\<rparr>), yy_c_buf_p := 0, yy_hold_char := 0, yytext_ptr := 0\<rparr>)"
proof -
  have "0 < length (yy_ch_buf b)" using assms(2) by linarith
  then show ?thesis using assms by (simp add: yyrestart_def yy_flush_def yy_load_buffer_state_def put_def get_def)
qed

lemma update_again: "m[i := x, Suc i := x, i := x] = m[i := x, Suc i := x]"
  by (simp add: list_update_swap [of "Suc i" i])

section \<open>The source of the text\<close>

text \<open>
  What the scanner needs of the input: asked for \<open>n\<close> bytes, it delivers some of the text that is left,
  and nothing only if no text is left.  The input may rely on what the buffer holds before: the
  bytes \<open>v\<close> that the scanner keeps are the start of a match, within a line, and a single byte is
  asked for only when they fill the buffer.
\<close>

locale text_source =
  fixes delivers :: "byte list \<Rightarrow> cmListFileLexer \<Rightarrow> byte list \<Rightarrow> bool"
  assumes reads: "delivers v l t \<Longrightarrow> 0x0A \<notin> set v \<Longrightarrow> (n = 1 \<Longrightarrow> YY_BUF_SIZE \<le> length v + 2) \<Longrightarrow>
      0 < n \<Longrightarrow> off + n \<le> length m \<Longrightarrow>
      \<exists>r l' m'. cmListFileLexerInput l m off n = Some (r, l', m') \<and> r \<le> n \<and> r \<le> length t \<and> (r = 0 \<longrightarrow> t = []) \<and> length m' = length m
        \<and> take (off + r) m' = take off m @ map Some (take r t) \<and> same_lexer l l' \<and> delivers (v @ take r t) l' (drop r t)"
    and forgets: "delivers bs l t \<Longrightarrow> suffix v bs \<Longrightarrow> delivers v l t"
    and source_only: "delivers bs l t \<Longrightarrow> source l' = source l \<Longrightarrow> delivers bs l' t"
begin

lemma read_more_reads:
  assumes "delivers v l u" and "length (yy_ch_buf b) = yy_buf_size b + 2" and "YY_BUF_SIZE \<le> yy_buf_size b" and "holds (yy_ch_buf b) v"
    and "yy_buffer_status b = YY_BUFFER_EOF_PENDING \<Longrightarrow> u = []" and "length v \<le> yy_buf_size b"
    and v: "0x0A \<notin> set v"
  shows "\<exists>r b' l'. read_more (length v) g b l = Some (r, b', l') \<and> r \<le> length u \<and> (r = 0 \<longrightarrow> u = []) \<and> same_lexer l l'
     \<and> delivers (v @ take r u) l' (drop r u) \<and> length (yy_ch_buf b') = yy_buf_size b' + 2 \<and> YY_BUF_SIZE \<le> yy_buf_size b'
     \<and> length v + r \<le> yy_buf_size b' \<and> holds (yy_ch_buf b') (v @ take r u)
     \<and> yy_buffer_status b' = yy_buffer_status b \<and> yy_bn_chars b' = r"
proof (cases "yy_buffer_status b = YY_BUFFER_EOF_PENDING")
  case True
  with assms show ?thesis by (simp add: read_more_def)
next
  case False
  let ?n = "length v"
  obtain m k where g: "grow_loop ?n (yy_ch_buf b) (yy_buf_size b) = Some (m, k)" "?n + 1 < k" "length m = k + 2" "holds m v"
      "yy_buf_size b \<le> k"
    using grow_loop_grows [OF assms(2) _ assms(4), of ?n] assms(3) by (auto simp: YY_BUF_SIZE_def)
  define want where "want = min YY_READ_BUF_SIZE (k - Suc ?n)"
  have size: "(if YY_READ_BUF_SIZE < k - Suc ?n then YY_READ_BUF_SIZE else k - Suc ?n) = want" by (simp add: want_def)
  have want: "0 < want" "?n + want < k" using g(2) by (auto simp: want_def YY_READ_BUF_SIZE_def)
  then have "?n + want \<le> length m" using g(3) by simp
  moreover have "YY_BUF_SIZE \<le> ?n + 2" if "want = 1"
    using that g(2,5) assms(3) by (auto simp: want_def YY_READ_BUF_SIZE_def min_def split: if_splits)
  ultimately obtain r l' m' where
    r: "cmListFileLexerInput l m ?n want = Some (r, l', m')" "r \<le> want" "r \<le> length u" "r = 0 \<longrightarrow> u = []" "length m' = length m"
      "take (?n + r) m' = take ?n m @ map Some (take r u)" "same_lexer l l'" "delivers (v @ take r u) l' (drop r u)"
    using reads [OF assms(1) v _ want(1)] by blast
  have "read_more ?n g b l = Some (r, b\<lparr>yy_ch_buf := m', yy_buf_size := k, yy_bn_chars := r\<rparr>, l')"
    using False g(1) r(1) size by (simp add: read_more_def Let_def split del: if_split)
  moreover have "holds m' (v @ take r u)" using r g(4) by (simp add: holds_def)
  ultimately show ?thesis using r want g assms(3) by simp
qed

lemma get_next_buffer:
  assumes s: "scanning delivers g l bs u" and p: "yytext_ptr g \<le> length bs" "yy_c_buf_p g = length bs + 1"
    and new: "map_option yy_buffer_status (yy_buffer g) \<noteq> Some YY_BUFFER_NEW" and v: "v = drop (yytext_ptr g) bs"
    and line: "0x0A \<notin> set v"
  shows "\<exists>act g' l'. yy_get_next_buffer g l = Some (act, g', l') \<and> same_lexer l l' \<and> same_run g g' \<and> yytext_ptr g' = 0
    \<and> (case act of
         EOB_ACT_CONTINUE_SCAN \<Rightarrow> \<exists>r. 0 < r \<and> r \<le> length u \<and> scanning delivers g' l' (v @ take r u) (drop r u)
       | EOB_ACT_LAST_MATCH \<Rightarrow> u = [] \<and> v \<noteq> [] \<and> scanning delivers g' l' v []
       | EOB_ACT_END_OF_FILE \<Rightarrow> u = [] \<and> v = [] \<and> scanning delivers g' l' [] [] \<and> yy_hold_char g' = 0)"
proof -
  let ?n = "length v"
  obtain b where b: "yy_buffer g = Some b" "length (yy_ch_buf b) = yy_buf_size b + 2" "YY_BUF_SIZE \<le> yy_buf_size b" "length bs \<le> yy_buf_size b"
    "holds (yy_ch_buf b) (bs @ [0, 0])" "yy_buffer_status b = YY_BUFFER_EOF_PENDING \<Longrightarrow> u = []" and d: "delivers v l u" "yy_n_chars g = length bs"
    using s forgets [of bs l u v] v by (auto simp: scanning_def suffix_drop)
  have n: "yy_c_buf_p g - yytext_ptr g - 1 = ?n" using p v by simp
  have tk: "take ?n (drop (yytext_ptr g) (yy_ch_buf b)) = map Some v"
    using mem_read_holds [OF b(5), of "yytext_ptr g" ?n] p(1) v by (simp add: mem_read_def split: if_splits)
  have nv: "yytext_ptr g + ?n = length bs" using p(1) v by simp
  define m where "m = map Some v @ drop ?n (yy_ch_buf b)"
  have moved: "move_loop (yy_ch_buf b) 0 (yytext_ptr g) ?n = Some m"
    using move_loop_moves [of 0 "yytext_ptr g" ?n "yy_ch_buf b"] nv b(2,4) by (simp add: tk m_def)
  have m: "length m = yy_buf_size b + 2" "holds m v" using b(2,4) v by (simp_all add: m_def holds_def)
  have lv: "?n \<le> yy_buf_size b" using v b(4) by simp
  obtain r b' l' where r: "read_more ?n g (b\<lparr>yy_ch_buf := m\<rparr>) l = Some (r, b', l')" "r \<le> length u" "r = 0 \<longrightarrow> u = []" "same_lexer l l'"
    "delivers (v @ take r u) l' (drop r u)" "length (yy_ch_buf b') = yy_buf_size b' + 2" "YY_BUF_SIZE \<le> yy_buf_size b'" "?n + r \<le> yy_buf_size b'"
    "holds (yy_ch_buf b') (v @ take r u)" "yy_buffer_status b' = yy_buffer_status b" "yy_bn_chars b' = r"
    using read_more_reads [OF d(1), of "b\<lparr>yy_ch_buf := m\<rparr>" g] m b(3,6) lv line by auto
  have ends: "holds ((yy_ch_buf b')[?n + r := Some 0, Suc (?n + r) := Some 0]) (v @ take r u @ [0, 0])"
    using holds_end [OF r(9)] r(2,6,8) by simp
  let ?g = "g\<lparr>yy_n_chars := r, yy_buffer := Some b'\<rparr>"
  have step: "yy_get_next_buffer g l = do { (act, g) \<leftarrow> (if r = 0
       then if ?n = 0 then map_option (Pair EOB_ACT_END_OF_FILE) (yyrestart ?g)
            else Some (EOB_ACT_LAST_MATCH, ?g\<lparr>yy_buffer := Some (b'\<lparr>yy_buffer_status := YY_BUFFER_EOF_PENDING\<rparr>)\<rparr>)
       else Some (EOB_ACT_CONTINUE_SCAN, ?g)); g \<leftarrow> end_buffer ?n g; Some (act, g, l') }"
    using p(2) b(1) d(2) n moved r(1) by (simp add: yy_get_next_buffer_def Let_def)
  show ?thesis
  proof (cases "r = 0")
    case False
    then have "yy_get_next_buffer g l = Some (EOB_ACT_CONTINUE_SCAN, g\<lparr>yy_n_chars := r + ?n,
        yy_buffer := Some (b'\<lparr>yy_ch_buf := (yy_ch_buf b')[?n + r := Some 0, Suc (?n + r) := Some 0]\<rparr>), yytext_ptr := 0\<rparr>, l')"
      using r(6,8) by (simp add: step end_buffer_def put_def Let_def add.commute)
    then show ?thesis using False r ends b(1,6) new by (auto simp: same_run_def scanning_def intro: exI [of _ r])
  next
    case True
    then have u: "u = []" and h: "holds (yy_ch_buf b') v" using r(3,9) by simp_all
    note now = r(6,7,8) True
    have nonempty: "yy_ch_buf b' \<noteq> []" using r(6) by auto
    show ?thesis
    proof (cases "v = []")
      case True
      let ?m = "(yy_ch_buf b')[0 := Some 0, Suc 0 := Some 0]"
      have "yy_get_next_buffer g l = Some (EOB_ACT_END_OF_FILE, g\<lparr>yy_n_chars := 0, yy_buffer := Some (b'\<lparr>yy_ch_buf := ?m,
          yy_bn_chars := 0, yy_buf_pos := 0, yy_buffer_status := YY_BUFFER_NEW\<rparr>),
          yy_c_buf_p := 0, yy_hold_char := 0, yytext_ptr := 0\<rparr>, l')"
        using now True nonempty
        by (simp add: step yyrestart_flushes end_buffer_def put_def update_again Let_def)
      then show ?thesis using True u r ends by (auto simp: same_run_def scanning_def)
    next
      case False
      then have "yy_get_next_buffer g l = Some (EOB_ACT_LAST_MATCH, g\<lparr>yy_n_chars := ?n, yy_buffer := Some (b'\<lparr>
          yy_ch_buf := (yy_ch_buf b')[?n := Some 0, Suc ?n := Some 0], yy_buffer_status := YY_BUFFER_EOF_PENDING\<rparr>), yytext_ptr := 0\<rparr>, l')"
        using now by (simp add: step end_buffer_def put_def Let_def)
      then show ?thesis using False u r True ends by (auto simp: same_run_def scanning_def YY_BUFFER_EOF_PENDING_def YY_BUFFER_NEW_def)
    qed
  qed
qed

end

section \<open>The end of the buffer\<close>

lemma last_accepting_set [simp]: "last_accepting (set_last acc g) = acc" "last_accepting (g\<lparr>yy_c_buf_p := p\<rparr>) = last_accepting g"
  by (simp_all add: last_accepting_def set_last_def)

lemma set_last_fields [simp]:
  "yy_buffer (set_last acc g) = yy_buffer g" "yy_n_chars (set_last acc g) = yy_n_chars g" "yy_c_buf_p (set_last acc g) = yy_c_buf_p g"
  "yytext_ptr (set_last acc g) = yytext_ptr g" "yy_start (set_last acc g) = yy_start g" "same_run g (set_last acc g)"
  "yy_hold_char (set_last acc g) = yy_hold_char g" "echoed (set_last acc g) = echoed g" "yy_init (set_last acc g) = yy_init g"
  by (simp_all add: set_last_def same_run_def)

lemma previous_state:
  assumes s: "scanning delivers g l bs u" and p: "yytext_ptr g \<le> yy_c_buf_p g" "yy_c_buf_p g \<le> length bs"
    and st: "yy_start g = start_state sc" and v: "v = take (yy_c_buf_p g - yytext_ptr g) (drop (yytext_ptr g) bs)"
  shows "\<exists>acc. yy_get_previous_state g = Some (dfa_run (start_state sc) v, set_last acc g)
     \<and> good_last (start_state sc) v (yytext_ptr g) acc"
proof -
  obtain b where b: "yy_buffer g = Some b" "holds (yy_ch_buf b) (bs @ [0, 0])" using s by (auto simp: scanning_def)
  obtain q k where "previous_loop (yy_ch_buf b) [yytext_ptr g..<yy_c_buf_p g] (start_state sc) (last_accepting g) = Some (dfa_run (start_state sc) v, q, k)"
    and "good_last (start_state sc) v (yytext_ptr g) (q, k)"
    using previous_loop_run [OF holds_append1 [OF b(2)] start_residual(2) order.refl, of "yytext_ptr g" "yy_c_buf_p g - yytext_ptr g" sc "last_accepting g"]
      p by (auto simp: v)
  then show ?thesis by (intro exI [of _ "(q, k)"]) (simp add: yy_get_previous_state_def b(1) st)
qed

text \<open>
  \<open>at_match\<close>: the scanner is at \<open>yy_match\<close> after the bytes \<open>v\<close> of a match that starts at \<open>bp\<close>, where
  the text is \<open>t\<close>, within a line; \<open>n\<close> decreases when the scanner comes to this place again.  \<open>at_find\<close>: it is at
  \<open>yy_find_action\<close>, and no match is longer than \<open>v\<close>.
\<close>

definition in_match ::
  "(byte list \<Rightarrow> cmListFileLexer \<Rightarrow> byte list \<Rightarrow> bool) \<Rightarrow> condition \<Rightarrow> yyguts_t \<Rightarrow> cmListFileLexer \<Rightarrow> byte list \<Rightarrow> nat \<Rightarrow> byte list \<Rightarrow> nat \<Rightarrow> bool" where
  "in_match delivers sc g l t bp v n \<longleftrightarrow> yy_start g = start_state sc
     \<and> (\<exists>bs u. scanning delivers g l bs u \<and> t = drop bp bs @ u \<and> bp + length v \<le> length bs
          \<and> v = take (length v) (drop bp bs) \<and> n = 2 * length u + (length bs - (bp + length v)))"

definition at_match ::
  "(byte list \<Rightarrow> cmListFileLexer \<Rightarrow> byte list \<Rightarrow> bool) \<Rightarrow> condition \<Rightarrow> yyguts_t \<Rightarrow> cmListFileLexer \<Rightarrow> byte list \<Rightarrow> nat \<Rightarrow> byte list \<Rightarrow> nat \<Rightarrow> bool" where
  "at_match delivers sc g l t bp v n \<longleftrightarrow> in_match delivers sc g l t bp v n \<and> good_last (start_state sc) v bp (last_accepting g)
     \<and> 0x0A \<notin> set v"

definition at_find ::
  "(byte list \<Rightarrow> cmListFileLexer \<Rightarrow> byte list \<Rightarrow> bool) \<Rightarrow> condition \<Rightarrow> yyguts_t \<Rightarrow> cmListFileLexer \<Rightarrow> byte list \<Rightarrow> nat \<Rightarrow> byte list \<Rightarrow> bool" where
  "at_find delivers sc g l t bp v \<longleftrightarrow> (\<exists>n. in_match delivers sc g l t bp v n) \<and> v \<noteq> []
     \<and> (yy_accept ! dfa_run (start_state sc) v = 0 \<longrightarrow> good_last (start_state sc) v bp (last_accepting g))
     \<and> (\<forall>j. length v < j \<and> j \<le> length t \<longrightarrow> yy_accept ! dfa_run (start_state sc) (take j t) = 0)"

lemma in_match_intro:
  "scanning delivers g l bs u \<Longrightarrow> yy_start g = start_state sc \<Longrightarrow> t = drop bp bs @ u \<Longrightarrow> bp + length v \<le> length bs \<Longrightarrow>
     v = take (length v) (drop bp bs) \<Longrightarrow> in_match delivers sc g l t bp v (2 * length u + (length bs - (bp + length v)))"
  unfolding in_match_def by blast

lemma prefix_dead:
  assumes "dfa_run q (take k t) = 78" and "k \<le> j"
  shows "dfa_run q (take j t) = 78"
proof -
  have "take j t = take k t @ take (j - k) (drop k t)" using assms(2) by (metis le_add_diff_inverse take_add)
  then show ?thesis using assms(1) by simp
qed

lemma scan_end_of_buffer_held:
  assumes h: "held delivers g l bs u" and cp: "cp = yy_c_buf_p g"
  obtains g' where "scanning delivers g' l bs u" and "same_run g g'" and "yytext_ptr g' = yytext_ptr g" and "yy_c_buf_p g' = yy_c_buf_p g"
    and "map_option yy_buffer_status (yy_buffer g') \<noteq> Some YY_BUFFER_NEW"
    and "scan_end_of_buffer cp bp g l = scan_continue (cp - yytext_ptr g - 1) cp bp g' l"
proof -
  obtain b m where b: "yy_buffer g = Some b" "put (yy_ch_buf b) (yy_c_buf_p g) (yy_hold_char g) = Some m"
    and s: "scanning delivers (g\<lparr>yy_buffer := Some (b\<lparr>yy_ch_buf := m\<rparr>)\<rparr>) l bs u" using h by (auto simp: held_def)
  define b' where "b' = b\<lparr>yy_ch_buf := m\<rparr>"
  define g' where "g' = (if yy_buffer_status b' = YY_BUFFER_NEW
    then g\<lparr>yy_n_chars := yy_bn_chars b', yy_buffer := Some (b'\<lparr>yy_buffer_status := YY_BUFFER_NORMAL\<rparr>)\<rparr> else g\<lparr>yy_buffer := Some b'\<rparr>)"
  have e: "(if yy_buffer_status b' = YY_BUFFER_NEW
      then (g\<lparr>yy_buffer := Some b'\<rparr>)\<lparr>yy_n_chars := yy_bn_chars b', yy_buffer := Some (b'\<lparr>yy_buffer_status := YY_BUFFER_NORMAL\<rparr>)\<rparr>
      else g\<lparr>yy_buffer := Some b'\<rparr>) = g'" by (simp add: g'_def)
  have same: "yytext_ptr g' = yytext_ptr g" "yy_c_buf_p g' = yy_c_buf_p g" by (simp_all add: g'_def)
  show ?thesis
  proof (rule that)
    show "scanning delivers g' l bs u"
      using s by (auto simp: g'_def b'_def scanning_def YY_BUFFER_NORMAL_def YY_BUFFER_NEW_def YY_BUFFER_EOF_PENDING_def)
    show "map_option yy_buffer_status (yy_buffer g') \<noteq> Some YY_BUFFER_NEW"
      by (simp add: g'_def YY_BUFFER_NORMAL_def YY_BUFFER_NEW_def)
    show "same_run g g'" "yytext_ptr g' = yytext_ptr g" "yy_c_buf_p g' = yy_c_buf_p g"
      by (simp_all add: g'_def same_run_def)
  qed (simp only: scan_end_of_buffer_def b(1) bind.bind_lunit Let_def cp b(2) b'_def [symmetric] e)
qed

context text_source
begin

lemma end_of_buffer:
  assumes h: "held delivers g l bs u" and st: "yy_start g = start_state sc"
    and p: "yytext_ptr g = bp" "bp + length v \<le> length bs" "yy_c_buf_p g = bp + length v + 1"
    and v: "v = take (length v) (drop bp bs)" and zero: "bp + length v < length bs \<Longrightarrow> bs ! (bp + length v) = 0"
    and t: "t = drop bp bs @ u" and line: "0x0A \<notin> set v"
  obtains (match) bp' v' n g' l' where
      "scan_end_of_buffer (bp + length v + 1) bp g l = Some (Inr (Match (dfa_run (start_state sc) v') (bp' + length v') bp'), g', l')"
      "same_lexer l l'" "same_run g g'" "at_match delivers sc g' l' t bp' v' n" "n < 2 * length u + (length bs - (bp + length v))"
  | (find) bp' g' l' where
      "scan_end_of_buffer (bp + length v + 1) bp g l = Some (Inr (Find_action (dfa_run (start_state sc) v) (bp' + length v) bp'), g', l')"
      "same_lexer l l'" "same_run g g'" "at_find delivers sc g' l' t bp' v"
  | (eof) cp bp' g' l' where "t = []"
      "scan_end_of_buffer (bp + length v + 1) bp g l = Some (Inr (Do_action (YY_END_OF_BUFFER + condition_number sc + 1) cp bp'), g', l')"
      "same_lexer l l'" "same_run g g'" "ready delivers g' l' []"
proof -
  let ?S = "start_state sc" and ?cp = "bp + length v + 1"
  obtain g1 where s: "scanning delivers g1 l bs u" and same: "same_run g g1" "yytext_ptr g1 = bp" "yy_c_buf_p g1 = ?cp"
    and new: "map_option yy_buffer_status (yy_buffer g1) \<noteq> Some YY_BUFFER_NEW"
    and run: "scan_end_of_buffer ?cp bp g l = scan_continue (length v) ?cp bp g1 l"
    using scan_end_of_buffer_held [OF h p(3) [symmetric], of bp] p(1,3) by auto
  have start: "yy_start g1 = ?S" using st same(1) by (simp add: same_run_def)
  show ?thesis
  proof (cases "bp + length v < length bs")
    case True
    let ?g = "g1\<lparr>yy_c_buf_p := bp + length v\<rparr>"
    have g: "scanning delivers ?g l bs u" "yytext_ptr ?g = bp" "yy_start ?g = ?S" using s same start by (simp_all add: scanning_def)
    obtain acc where acc: "yy_get_previous_state ?g = Some (dfa_run ?S v, set_last acc ?g)" "good_last ?S v bp acc"
      using previous_state [OF g(1), of sc v] g v p by auto
    let ?next = "dfa_run ?S (v @ [0])" and ?g' = "set_last acc ?g"
    let ?g2 = "if yy_accept ! dfa_run ?S v \<noteq> 0 then set_last (dfa_run ?S v, bp + length v) ?g' else ?g'"
    have "input_state (dfa_run ?S v)" by (rule dfa_run_input [OF start_residual(2)])
    then have "yy_try_NUL_trans (dfa_run ?S v) ?g' = Some (if ?next = 78 then 0 else ?next, ?g2)"
      using input_next(1) [of "dfa_run ?S v" 16] by (simp add: yy_try_NUL_trans_def input_items yy_class_def)
    moreover have "?next \<noteq> 0"
      using dfa_run_input [OF start_residual(2), of sc "v @ [0]"] by (simp add: input_state_def)
    moreover have "yy_n_chars g1 = length bs" using s by (simp add: scanning_def)
    ultimately have step: "scan_end_of_buffer ?cp bp g l = (if ?next \<noteq> 78
       then Some (Inr (Match ?next (Suc (bp + length v)) bp), ?g2\<lparr>yy_c_buf_p := Suc (bp + length v)\<rparr>, l)
       else Some (Inr (Find_action (dfa_run ?S v) (bp + length v) bp), ?g2, l))"
      using True same acc(1) unfolding run scan_continue_def by (auto simp: Let_def)
    have lv: "length v < length bs - bp" "bs ! (bp + length v) = 0" using True zero by simp_all
    then have z: "v @ [0] = take (Suc (length v)) (drop bp bs)" using v by (simp add: take_Suc_conv_app_nth)
    have g2: "scanning delivers (?g2\<lparr>yy_c_buf_p := q\<rparr>) l bs u" "yy_start ?g2 = ?S" "same_run g ?g2" for q
      using s same start by (auto simp: scanning_def same_run_def set_last_def)
    show ?thesis
    proof (cases "?next = 78")
      case False
      have "good_last ?S (v @ [0]) bp (last_accepting ?g2)"
        using good_last_snoc [OF acc(2), of 0] by (simp split: if_splits)
      moreover have "in_match delivers sc (?g2\<lparr>yy_c_buf_p := Suc (bp + length v)\<rparr>) l t bp (v @ [0])
          (2 * length u + (length bs - (bp + length (v @ [0]))))"
        using True g2 z t by (intro in_match_intro) simp_all
      ultimately have "at_match delivers sc (?g2\<lparr>yy_c_buf_p := Suc (bp + length v)\<rparr>) l t bp (v @ [0])
          (2 * length u + (length bs - (bp + length (v @ [0]))))" using line by (simp add: at_match_def split del: if_split)
      then show ?thesis
        using step False True g2(3)
        by (intro match [of "v @ [0]" bp "?g2\<lparr>yy_c_buf_p := Suc (bp + length v)\<rparr>" l]) (auto simp: same_run_def)
    next
      case dead: True
      have v0: "v \<noteq> []"
      proof
        assume "v = []"
        with dead one_byte_accept [of "[0]" sc] show False by (simp add: dead_state)
      qed
      have "in_match delivers sc ?g2 l t bp v (2 * length u + (length bs - (bp + length v)))"
        using g2(1) [of "yy_c_buf_p ?g2"] g2(2) v p(2) t by (intro in_match_intro) simp_all
      moreover have "yy_accept ! dfa_run ?S v = 0 \<Longrightarrow> good_last ?S v bp (last_accepting ?g2)" using acc(2) by simp
      moreover have "take (length (v @ [0])) t = v @ [0]" using z lv by (simp add: t)
      then have "yy_accept ! dfa_run ?S (take j t) = 0" if "length v < j" for j
        using prefix_dead [of ?S "length (v @ [0])" t j] dead that by (simp add: dead_state)
      ultimately have "at_find delivers sc ?g2 l t bp v" using v0 unfolding at_find_def by blast
      then show ?thesis using step dead g2(3) by (intro find) auto
    qed
  next
    case False
    then have "length v = length (drop bp bs)" using p(2) by simp
    with v have v': "v = drop bp bs" by (metis take_all order_refl)
    have n: "yy_n_chars g1 = length bs" using s by (simp add: scanning_def)
    have "yy_c_buf_p g1 = length bs + 1" using False p(2) same(3) by simp
    from get_next_buffer [OF s _ this new] same(2) p(2) v' line obtain act g' l' where
      next': "yy_get_next_buffer g1 l = Some (act, g', l')" "same_lexer l l'" "same_run g1 g'" "yytext_ptr g' = 0"
      and act: "case act of
         EOB_ACT_CONTINUE_SCAN \<Rightarrow> \<exists>r. 0 < r \<and> r \<le> length u \<and> scanning delivers g' l' (v @ take r u) (drop r u)
       | EOB_ACT_LAST_MATCH \<Rightarrow> u = [] \<and> v \<noteq> [] \<and> scanning delivers g' l' v []
       | EOB_ACT_END_OF_FILE \<Rightarrow> u = [] \<and> v = [] \<and> scanning delivers g' l' [] [] \<and> yy_hold_char g' = 0" by auto
    note run' = run [unfolded scan_continue_def]
    have start': "yy_start g' = ?S" "same_run g g'" using start same(1) next'(3) by (simp_all add: same_run_def)
    show ?thesis
    proof (cases act)
      case EOB_ACT_CONTINUE_SCAN
      with act obtain r where r: "0 < r" "r \<le> length u" "scanning delivers g' l' (v @ take r u) (drop r u)" by auto
      let ?g = "g'\<lparr>yy_c_buf_p := length v\<rparr>"
      have g: "scanning delivers ?g l' (v @ take r u) (drop r u)" "yytext_ptr ?g = 0" "yy_start ?g = ?S"
        using r(3) next'(4) start' by (simp_all add: scanning_def)
      obtain acc where acc: "yy_get_previous_state ?g = Some (dfa_run ?S v, set_last acc ?g)" "good_last ?S v 0 acc"
        using previous_state [OF g(1), of sc v] g by auto
      have "in_match delivers sc (set_last acc ?g) l' t 0 v (2 * length (drop r u) + (length (v @ take r u) - (0 + length v)))"
        using g t v' r by (intro in_match_intro) (simp_all add: scanning_def)
      then have "at_match delivers sc (set_last acc ?g) l' t 0 v (2 * length (drop r u) + (length (v @ take r u) - (0 + length v)))"
        using acc(2) line by (simp add: at_match_def)
      then show ?thesis
        using run' n next' False same p(2) EOB_ACT_CONTINUE_SCAN acc(1) start' r
        by (intro match [of v 0 "set_last acc ?g" l']) (auto simp: same_run_def)
    next
      case EOB_ACT_LAST_MATCH
      with act have r: "u = []" "v \<noteq> []" "scanning delivers g' l' v []" by auto
      let ?g = "g'\<lparr>yy_c_buf_p := length v\<rparr>"
      have g: "scanning delivers ?g l' v []" "yytext_ptr ?g = 0" "yy_start ?g = ?S" "yy_n_chars g' = length v"
        using r(3) next'(4) start' by (simp_all add: scanning_def)
      obtain acc where acc: "yy_get_previous_state ?g = Some (dfa_run ?S v, set_last acc ?g)" "good_last ?S v 0 acc"
        using previous_state [OF g(1), of sc v] g by auto
      have "in_match delivers sc (set_last acc ?g) l' t 0 v (2 * length ([] :: byte list) + (length v - (0 + length v)))"
        using g t v' r by (intro in_match_intro) (simp_all add: scanning_def)
      then have "at_find delivers sc (set_last acc ?g) l' t 0 v"
        using acc(2) r(1,2) t v' unfolding at_find_def by auto
      then show ?thesis
        using run' n next' False same p(2) EOB_ACT_LAST_MATCH acc(1) start' g(4)
        by (intro find [of 0 "set_last acc ?g" l']) (auto simp: same_run_def)
    next
      case EOB_ACT_END_OF_FILE
      with act have r: "u = []" "v = []" "scanning delivers g' l' [] []" "yy_hold_char g' = 0" by auto
      have "t = []" using t r(1,2) v' by simp
      moreover have "ready delivers (g'\<lparr>yy_c_buf_p := 0\<rparr>) l' []"
        using r(3,4)
        by (auto simp: ready_def held_def scanning_def put_def holds_iff nth_list_update less_Suc_eq
          intro!: exI [of _ "[] :: byte list"])
      moreover have "(?S - 1) div 2 = condition_number sc" by (simp add: start_state_def)
      ultimately show ?thesis
        using run' n next' False same p(2) EOB_ACT_END_OF_FILE start'
        by (intro eof [of "bp + length v + 1" bp "g'\<lparr>yy_c_buf_p := 0\<rparr>" l']) (auto simp: same_run_def)
    qed
  qed
qed

end

end
