(* ===== verification/ListFileRefine.thy ===== *)
theory ListFileRefine
  imports ListFileBuffer
begin

text \<open>
  The generated scanner of \<^verbatim>\<open>LexerParser/cmListFileLexer.c\<close> refines its specification on a text, for
  every source that delivers the text piece by piece.
\<close>

section \<open>From the start of a match to its action\<close>

lemma scan_run_step:
  "scan_step pc g l = Some (Inr pc', g', l') \<Longrightarrow> scan_run pc g l = scan_run pc' g' l'"
  "scan_step pc g l = Some (Inl v, g', l') \<Longrightarrow> scan_run pc g l = Some (v, g', l')"
  "scan_step pc g l = None \<Longrightarrow> scan_run pc g l = None"
  by (subst scan_run.simps, simp)+

lemma accept_bound: "input_state q \<Longrightarrow> yy_accept ! q < 25"
proof -
  have "list_all (\<lambda>(q, a). q = 11 \<or> a < 25) (enumerate 0 yy_accept)" by (simp add: yy_accept_def)
  then show "input_state q \<Longrightarrow> yy_accept ! q < 25"
    by (auto simp: list_all_length nth_enumerate_eq input_state_def table_sizes)
qed

definition at_action ::
  "(byte list \<Rightarrow> cmListFileLexer \<Rightarrow> byte list \<Rightarrow> bool) \<Rightarrow> condition \<Rightarrow> yyguts_t \<Rightarrow> cmListFileLexer \<Rightarrow> byte list \<Rightarrow> nat \<Rightarrow> bool" where
  "at_action delivers sc g l t k \<longleftrightarrow> best_prefix (start_state sc) t k \<and> ready delivers g l (drop k t) \<and> yyleng g = k
     \<and> (\<exists>b. yy_buffer g = Some b \<and> read_text (yy_ch_buf b) (yytext_ptr g) k = Some (take k t)) \<and> yy_start g = start_state sc"

text \<open>Where the matching of \<open>t\<close> ends: at the action of the longest match, or of the end of the file.\<close>

definition match_ends ::
  "(byte list \<Rightarrow> cmListFileLexer \<Rightarrow> byte list \<Rightarrow> bool) \<Rightarrow> condition \<Rightarrow> byte list \<Rightarrow> control \<Rightarrow> yyguts_t \<Rightarrow> cmListFileLexer \<Rightarrow> bool" where
  "match_ends delivers sc t pc g l \<longleftrightarrow>
     (\<exists>k cp bp. t \<noteq> [] \<and> pc = Do_action (yy_accept ! dfa_run (start_state sc) (take k t)) cp bp \<and> at_action delivers sc g l t k)
   \<or> (\<exists>cp bp. t = [] \<and> pc = Do_action (YY_END_OF_BUFFER + condition_number sc + 1) cp bp \<and> ready delivers g l []
        \<and> yy_start g = start_state sc)"

lemma find_phase:
  assumes "at_find delivers sc g l t bp v"
  shows "\<exists>pc g'. scan_run (Find_action (dfa_run (start_state sc) v) (bp + length v) bp) g l = scan_run pc g' l
     \<and> same_run g g' \<and> match_ends delivers sc t pc g' l"
proof -
  let ?S = "start_state sc"
  obtain n where n: "in_match delivers sc g l t bp v n" and v: "v \<noteq> []"
    and last: "yy_accept ! dfa_run ?S v = 0 \<Longrightarrow> good_last ?S v bp (last_accepting g)"
    and dead: "\<And>j. length v < j \<Longrightarrow> j \<le> length t \<Longrightarrow> yy_accept ! dfa_run ?S (take j t) = 0"
    using assms by (auto simp: at_find_def)
  obtain bs u where s: "scanning delivers g l bs u" "t = drop bp bs @ u" "bp + length v \<le> length bs" "v = take (length v) (drop bp bs)"
    and st: "yy_start g = ?S" using n unfolding in_match_def by blast
  have "take (length v) t = take (length v) (drop bp bs)" using s(2,3) by simp
  then have tk: "take (length v) t = v" using s(4) by simp
  then have tv: "t = v @ drop (length v) t" by (metis append_take_drop_id)
  with v have t0: "t \<noteq> []" by auto
  obtain k where k: "best_prefix ?S t k" "yy_accept ! dfa_run ?S v = 0 \<Longrightarrow> last_accepting g = (dfa_run ?S (take k t), bp + k)"
    "yy_accept ! dfa_run ?S v \<noteq> 0 \<Longrightarrow> k = length v"
  proof (cases "yy_accept ! dfa_run ?S v = 0")
    case True
    with match_length [OF v tv last [OF True] dead] that show ?thesis by auto
  next
    case False
    moreover have "length v \<le> length t" using arg_cong [OF tv, of length] by simp
    ultimately show ?thesis using that [of "length v"] dead tk by (simp add: best_prefix_def)
  qed
  have kv: "k \<le> length v" using k(1) dead unfolding best_prefix_def by (metis not_le)
  have q: "dfa_run ?S w < 79" "yy_accept ! dfa_run ?S w \<le> 25" for w
    using dfa_run_input [OF start_residual(2), of sc w] accept_bound by (auto simp: input_state_def less_imp_le)
  have c: "if yy_accept ! dfa_run ?S v = 0
      then last_accepting g = (dfa_run ?S (take k t), bp + k) \<and> dfa_run ?S (take k t) < 79
        \<and> yy_accept ! dfa_run ?S (take k t) = yy_accept ! dfa_run ?S (take k t)
      else yy_accept ! dfa_run ?S (take k t) = yy_accept ! dfa_run ?S v \<and> bp + k = bp + length v"
    using k(2,3) q tk by simp
  obtain g' b where g': "scan_find_action (dfa_run ?S v) (bp + length v) bp g l
       = Some (Inr (Do_action (yy_accept ! dfa_run ?S (take k t)) (bp + k) bp), g', l)"
    "held delivers g' l bs u" "same_run g g'" "yytext_ptr g' = bp" "yyleng g' = k" "yy_c_buf_p g' = bp + k" "yy_buffer g' = Some b"
    "read_text (yy_ch_buf b) bp k = Some (take k (drop bp (bs @ [0])))"
    using before_action [OF s(1) _ _ q c, of bp] kv s(3) by auto
  have "drop k t = drop (bp + k) bs @ u" "take k (drop bp (bs @ [0])) = take k t" using s(2,3) kv by (simp_all add: add.commute)
  moreover from this have "ready delivers g' l (drop k t)"
    unfolding ready_def using g'(2,6) kv s(3) by (intro exI [of _ bs] exI [of _ u]) auto
  ultimately have "at_action delivers sc g' l t k"
    using g' k(1) st by (auto simp: at_action_def same_run_def)
  then show ?thesis
    using scan_run_step(1) [of "Find_action (dfa_run ?S v) (bp + length v) bp" g l] g'(1,3)
    by (intro exI [of _ "Do_action (yy_accept ! dfa_run ?S (take k t)) (bp + k) bp"] exI [of _ g']) (auto simp: match_ends_def t0)
qed

lemma drop_prefix: "drop p bs = x @ y \<Longrightarrow> x \<noteq> [] \<or> p \<le> length bs \<Longrightarrow> p + length x \<le> length bs"
  by (cases "p \<le> length bs") (auto dest: arg_cong [of _ _ length])

context text_source
begin

text \<open>The matching loop, with the refilling of the buffer, ends at the longest match.\<close>

lemma match_phase:
  assumes "at_match delivers sc g l t bp v n"
  shows "\<exists>pc g' l'. scan_run (Match (dfa_run (start_state sc) v) (bp + length v) bp) g l = scan_run pc g' l'
     \<and> same_lexer l l' \<and> same_run g g' \<and> match_ends delivers sc t pc g' l'"
  using assms
proof (induction n arbitrary: g l bp v rule: less_induct)
  case (less n)
  let ?S = "start_state sc"
  obtain bs u where s: "scanning delivers g l bs u" "t = drop bp bs @ u" "bp + length v \<le> length bs" "v = take (length v) (drop bp bs)"
    "n = 2 * length u + (length bs - (bp + length v))"
    and st: "yy_start g = ?S" and last: "good_last ?S v bp (last_accepting g)" and line: "0x0A \<notin> set v"
    using less.prems unfolding at_match_def in_match_def by blast
  obtain b where b: "yy_buffer g = Some b" "holds (yy_ch_buf b) (bs @ [0, 0])" using s(1) by (auto simp: scanning_def)
  let ?w = "drop (bp + length v) bs"
  have w: "drop bp bs = v @ ?w" using s(4) by (metis append_take_drop_id drop_drop add.commute)
  have run: "match_loop (yy_ch_buf b) (dfa_run ?S v) (bp + length v) (last_accepting g)
      = Some (run_match (dfa_run ?S v) (bp + length v) (last_accepting g) ?w)"
    by (rule match_loop_run [OF b(2) s(3) dfa_run_input [OF start_residual(2)]])
  consider (stop) x y acc where "?w = x @ y" "x \<noteq> []" "yy_base ! dfa_run ?S (v @ x) = 298"
      "run_match (dfa_run ?S v) (bp + length v) (last_accepting g) ?w = (dfa_run ?S (v @ x), bp + length (v @ x), acc)"
      "good_last ?S (v @ x) bp acc"
    | (zero) x y where "?w = x @ y" "y = [] \<or> hd y = 0" "0x0A \<notin> set x"
      "run_match (dfa_run ?S v) (bp + length v) (last_accepting g) ?w = (78, bp + length (v @ x) + 2, 11, bp + length (v @ x) + 1)"
    using run_match_cases [OF last start_residual(2), of ?w] by blast
  then show ?case
  proof cases
    case (stop x y acc)
    note x = stop(1-3) and res = stop(4) and acc = stop(5)
    have len: "bp + length (v @ x) \<le> length bs" "v @ x = take (length (v @ x)) (drop bp bs)"
      using s(3) w x(1) drop_prefix [OF x(1)] by (simp_all add: add.assoc)
    have step: "scan_run (Match (dfa_run ?S v) (bp + length v) bp) g l
        = scan_run (Find_action (dfa_run ?S (v @ x)) (bp + length (v @ x)) bp) (set_last acc g) l"
      by (rule scan_run_step) (simp add: scan_match_def b(1) run res)
    have "in_match delivers sc (set_last acc g) l t bp (v @ x) (2 * length u + (length bs - (bp + length (v @ x))))"
      using s(1) st s(2) len by (intro in_match_intro) (simp_all add: scanning_def)
    moreover have "yy_accept ! dfa_run ?S (take j t) = 0" if j: "length (v @ x) < j" "j \<le> length t" for j
    proof -
      have "take j t = (v @ x) @ take (j - length (v @ x)) (y @ u)" using j(1) by (simp add: s(2) w x(1))
      moreover have "take (j - length (v @ x)) (y @ u) \<noteq> []" using j by (auto simp: s(2) w x(1))
      ultimately have "dfa_run ?S (take j t) = 78"
        using full_run [OF dfa_run_input [OF start_residual(2)] x(3)] by (metis dfa_run_simps(3))
      then show ?thesis by (simp add: dead_state)
    qed
    ultimately have "at_find delivers sc (set_last acc g) l t bp (v @ x)" using x(2) acc by (auto simp: at_find_def)
    from find_phase [OF this] step show ?thesis by (metis kept_refl set_last_fields(6) same_run_trans)
  next
    case (zero x y)
    note x = zero(1,2) and res = zero(4)
    have line': "0x0A \<notin> set (v @ x)" using line zero(3) by simp
    let ?g = "set_last (11, bp + length (v @ x) + 1) g"
    have len: "bp + length (v @ x) \<le> length bs" "v @ x = take (length (v @ x)) (drop bp bs)"
      using s(3) w x(1) drop_prefix [OF x(1)] by (simp_all add: add.assoc)
    have nul: "bs ! (bp + length (v @ x)) = 0" if "bp + length (v @ x) < length bs"
    proof -
      have "drop (bp + length (v @ x)) bs = y" using w x(1) by (metis append.assoc append_eq_conv_conj drop_drop add.commute)
      with that x(2) show ?thesis by (metis drop_eq_Nil hd_drop_conv_nth leD)
    qed
    have step: "scan_run (Match (dfa_run ?S v) (bp + length v) bp) g l = scan_run (Find_action 78 (bp + length (v @ x) + 2) bp) ?g l"
      by (rule scan_run_step) (simp add: scan_match_def b(1) run res)
    have s': "scanning delivers ?g l bs u" using s(1) by (simp add: scanning_def)
    have c: "if yy_accept ! 78 = 0 then last_accepting ?g = (11, bp + length (v @ x) + 1) \<and> (11::nat) < 79 \<and> 25 = yy_accept ! 11
        else 25 = yy_accept ! 78 \<and> bp + length (v @ x) + 1 = bp + length (v @ x) + 2" by (simp add: base_end)
    obtain g' where g': "scan_find_action 78 (bp + length (v @ x) + 2) bp ?g l
        = Some (Inr (Do_action 25 (bp + length (v @ x) + 1) bp), g', l)"
      "held delivers g' l bs u" "same_run ?g g'" "yytext_ptr g' = bp" "yy_c_buf_p g' = bp + length (v @ x) + 1"
      using before_action [OF s' _ _ _ _ c, of bp] len(1) by auto
    have st': "yy_start g' = ?S" using st g'(3) by (simp add: same_run_def)
    have step': "scan_run (Match (dfa_run ?S v) (bp + length v) bp) g l = scan_run pc g2 l2"
      if "scan_end_of_buffer (bp + length (v @ x) + 1) bp g' l = Some (Inr pc, g2, l2)" for pc g2 l2
    proof -
      have "scan_step (Find_action 78 (bp + length (v @ x) + 2) bp) ?g l = Some (Inr (Do_action 25 (bp + length (v @ x) + 1) bp), g', l)"
        using g'(1) by simp
      moreover have "scan_step (Do_action 25 (bp + length (v @ x) + 1) bp) g' l = Some (Inr pc, g2, l2)"
        using that by (simp add: scan_action_def YY_END_OF_BUFFER_def)
      ultimately show ?thesis unfolding step by (simp only: scan_run_step(1))
    qed
    have same: "same_run g g'" using g'(3) by (simp add: same_run_def)
    show ?thesis
    proof (rule end_of_buffer [OF g'(2) st' g'(4) len(1) g'(5) len(2) nul s(2) line'])
      fix bp' v' n' g2 l2
      assume e: "scan_end_of_buffer (bp + length (v @ x) + 1) bp g' l = Some (Inr (Match (dfa_run ?S v') (bp' + length v') bp'), g2, l2)"
        "same_lexer l l2" "same_run g' g2" "at_match delivers sc g2 l2 t bp' v' n'" "n' < 2 * length u + (length bs - (bp + length (v @ x)))"
      from e(5) s(5) have "n' < n" by simp
      from less.IH [OF this e(4)] step' [OF e(1)] e(2,3) same show ?thesis by (metis kept_trans same_run_trans)
    next
      fix bp' g2 l2
      assume e: "scan_end_of_buffer (bp + length (v @ x) + 1) bp g' l = Some (Inr (Find_action (dfa_run ?S (v @ x)) (bp' + length (v @ x)) bp'), g2, l2)"
        "same_lexer l l2" "same_run g' g2" "at_find delivers sc g2 l2 t bp' (v @ x)"
      from find_phase [OF e(4)] step' [OF e(1)] e(2,3) same show ?thesis by (metis same_run_trans)
    next
      fix cp bp' g2 l2
      assume e: "t = []" "scan_end_of_buffer (bp + length (v @ x) + 1) bp g' l
          = Some (Inr (Do_action (YY_END_OF_BUFFER + condition_number sc + 1) cp bp'), g2, l2)"
        "same_lexer l l2" "same_run g' g2" "ready delivers g2 l2 []"
      then have "match_ends delivers sc t (Do_action (YY_END_OF_BUFFER + condition_number sc + 1) cp bp') g2 l2"
        using st' by (simp add: match_ends_def same_run_def)
      with step' [OF e(2)] e(3,4) same show ?thesis by (metis same_run_trans)
    qed
  qed
qed

end

section \<open>The scanner implements the specification\<close>

lemma begin_states:
  "begin_state 0 = start_state INITIAL" "begin_state 1 = start_state STRING" "begin_state 2 = start_state BRACKET"
  "begin_state 3 = start_state BRACKETEND" "begin_state 4 = start_state COMMENT" "begin_state (Suc 0) = start_state STRING"
  by (simp_all add: begin_state_def start_state_def)

lemma rule_action_start:
  "rule_action act w (l, start_state sc, out) = Some (r, l', s', out') \<Longrightarrow> \<exists>sc'. s' = start_state sc'"
  "eof_action c (l, start_state sc, out) = Some (r, l', s', out') \<Longrightarrow> \<exists>sc'. s' = start_state sc'"
  by (auto simp: rule_action_def eof_action_def begin_states Let_def bind_eq_Some_conv split: if_splits)

lemma rule_action_core:
  assumes "rule_action act w (core l, s, out) = Some (r, c, s', out')"
  shows "rule_action act w (l, s, out) = Some (r, with_core l c, s', out')" and "with_core (core l) c = c"
  using assms rule_action_commutes [of act w l "core l" s out] rule_action_commutes [of act w "core l" "core l" s out]
    with_core_core [of "core l"] by auto

lemma eof_action_core:
  assumes "eof_action n (core l, s, out) = Some (r, c, s', out')"
  shows "eof_action n (l, s, out) = Some (r, with_core l c, s', out')" and "with_core (core l) c = c"
  using assms eof_action_commutes [of n l "core l" s out] eof_action_commutes [of n "core l" "core l" s out]
    with_core_core [of "core l"] by auto

lemma rule_action_none: "rule_action act w (core l, s, out) = None \<Longrightarrow> rule_action act w (l, s, out) = None"
  using rule_action_commutes [of act w l "core l" s out] by simp

lemma same_input_with_core [simp]: "same_input l (with_core l c)"
  by (simp add: same_input_def with_core_def)

lemma munch_best:
  assumes "best_prefix (start_state sc) t k" and "t \<noteq> []"
  shows "munch (start_state sc) t 0 best = (yy_accept ! dfa_run (start_state sc) (take k t), k)" and "0 < k"
    and "0 < yy_accept ! dfa_run (start_state sc) (take k t)" and "yy_accept ! dfa_run (start_state sc) (take k t) < 25"
proof -
  obtain act n where m: "munch (start_state sc) t 0 best = (act, n)" "longest_match sc t act n" "0 < n" "act \<noteq> 0"
    by (rule munch_longest [OF assms(2)])
  from longest_match_unique [OF m(2) assms(1) [unfolded best_prefix_match]] m
  show "munch (start_state sc) t 0 best = (yy_accept ! dfa_run (start_state sc) (take k t), k)" "0 < k"
    "0 < yy_accept ! dfa_run (start_state sc) (take k t)" by auto
  show "yy_accept ! dfa_run (start_state sc) (take k t) < 25" by (rule accept_bound [OF dfa_run_input [OF start_residual(2)]])
qed

lemma eof_action_returns: "\<exists>v c s'. eof_action (condition_number sc) (l, s, out) = Some (Some v, c, s', out)"
  by (cases sc) (auto simp: eof_action_def cmListFileLexerSetToken_def Let_def split: option.splits)

lemma ready_source:
  assumes "ready delivers g l t" and "yy_buffer g' = yy_buffer g" "yy_n_chars g' = yy_n_chars g" "yy_c_buf_p g' = yy_c_buf_p g"
    "yy_hold_char g' = yy_hold_char g" and "\<And>bs u. delivers bs l u \<Longrightarrow> delivers bs l' u"
  shows "ready delivers g' l' t"
proof -
  obtain bs u b m where r: "yy_buffer g = Some b" "put (yy_ch_buf b) (yy_c_buf_p g) (yy_hold_char g) = Some m"
    "scanning delivers (g\<lparr>yy_buffer := Some (b\<lparr>yy_ch_buf := m\<rparr>)\<rparr>) l bs u" "yy_c_buf_p g \<le> length bs" "t = drop (yy_c_buf_p g) bs @ u"
    using assms(1) by (auto simp: ready_def held_def)
  have "scanning delivers (g'\<lparr>yy_buffer := Some (b\<lparr>yy_ch_buf := m\<rparr>)\<rparr>) l' bs u"
    using r(3) assms(3,6) unfolding scanning_def by simp
  then show ?thesis unfolding ready_def held_def assms using r by (intro exI [of _ bs] exI [of _ u]) auto
qed

text \<open>What holds when the scanner returns.\<close>

definition scan_returns ::
  "(byte list \<Rightarrow> cmListFileLexer \<Rightarrow> byte list \<Rightarrow> bool) \<Rightarrow> yyguts_t \<Rightarrow> cmListFileLexer \<Rightarrow>
     (int \<times> cmListFileLexer \<times> nat \<times> byte list \<times> byte list) option \<Rightarrow> (int \<times> yyguts_t \<times> cmListFileLexer) option \<Rightarrow> bool" where
  "scan_returns delivers g l spec run \<longleftrightarrow> (case spec of None \<Rightarrow> run = None
     | Some (v, c, start, out, t) \<Rightarrow> \<exists>g' l'. run = Some (v, g', l') \<and> core l' = c \<and> same_input l l' \<and> yy_init g' = yy_init g
         \<and> yy_start g' = start \<and> echoed g' = out \<and> (\<exists>sc. start = start_state sc) \<and> ready delivers g' l' t)"

context text_source
begin

text \<open>From the start of a match to its action.\<close>

lemma start_phase:
  assumes "ready delivers g l t" and st: "yy_start g = start_state sc"
  obtains pc g' l' where "scan_run Start g l = scan_run pc g' l'" and "same_lexer l l'" and "same_run g g'" and "match_ends delivers sc t pc g' l'"
proof -
  obtain bs u b m where r: "yy_buffer g = Some b" "put (yy_ch_buf b) (yy_c_buf_p g) (yy_hold_char g) = Some m"
    "scanning delivers (g\<lparr>yy_buffer := Some (b\<lparr>yy_ch_buf := m\<rparr>)\<rparr>) l bs u" "yy_c_buf_p g \<le> length bs" "t = drop (yy_c_buf_p g) bs @ u"
    using assms(1) by (auto simp: ready_def held_def)
  let ?g = "g\<lparr>yy_buffer := Some (b\<lparr>yy_ch_buf := m\<rparr>)\<rparr>"
  have step: "scan_run Start g l = scan_run (Match (dfa_run (start_state sc) []) (yy_c_buf_p g + length ([] :: byte list)) (yy_c_buf_p g)) ?g l"
    using r(1,2) st by (intro scan_run_step) (simp add: scan_start_def Let_def)
  have "at_match delivers sc ?g l t (yy_c_buf_p g) [] (2 * length u + (length bs - (yy_c_buf_p g + length ([] :: byte list))))"
    using in_match_intro [OF r(3), of sc t "yy_c_buf_p g" "[]"] st r(4,5) by (simp add: at_match_def)
  from match_phase [OF this] obtain pc g' l' where
    "scan_run Start g l = scan_run pc g' l'" "same_lexer l l'" "same_run ?g g'" "match_ends delivers sc t pc g' l'"
    unfolding step by blast
  then show ?thesis by (intro that) (auto simp: same_run_def)
qed

lemma after_action_returns:
  assumes "rule_action act w (core l, s, out) = Some (r, c, s', out')" and "ready delivers g l t"
  shows "after_action (rule_action act w (l, s, out)) g = Some (case r of None \<Rightarrow> Inr Start | Some v \<Rightarrow> Inl v,
      g\<lparr>yy_start := s', echoed := out'\<rparr>, with_core l c)"
    and "core (with_core l c) = c" and "ready delivers (g\<lparr>yy_start := s', echoed := out'\<rparr>) (with_core l c) t"
proof -
  show "after_action (rule_action act w (l, s, out)) g = Some (case r of None \<Rightarrow> Inr Start | Some v \<Rightarrow> Inl v,
      g\<lparr>yy_start := s', echoed := out'\<rparr>, with_core l c)" "core (with_core l c) = c"
    using rule_action_core [OF assms(1)] by (simp_all add: after_action_def)
  show "ready delivers (g\<lparr>yy_start := s', echoed := out'\<rparr>) (with_core l c) t"
    by (rule ready_source [OF assms(2)]) (auto intro: source_only)
qed

theorem scan_refines:
  assumes "ready delivers g l t" and "yy_start g = start_state sc"
  shows "scan_returns delivers g l (scan_text (yy_start g) (core l) (echoed g) t) (scan_run Start g l)"
  using assms
proof (induction "length t" arbitrary: g l t sc rule: less_induct)
  case less
  let ?S = "start_state sc"
  obtain pc g1 l1 where p: "scan_run Start g l = scan_run pc g1 l1" "same_lexer l l1" "same_run g g1" "match_ends delivers sc t pc g1 l1"
    by (rule start_phase [OF less.prems])
  have same: "core l = core l1" "same_input l l1" "yy_start g = ?S" "echoed g = echoed g1" "yy_init g1 = yy_init g" "yy_start g1 = ?S"
    using p(2,3) less.prems(2) by (auto simp: same_lexer_def same_run_def)
  show ?case
  proof (cases "t = []")
    case True
    with p(4) obtain cp bp where pc: "pc = Do_action (YY_END_OF_BUFFER + condition_number sc + 1) cp bp" and r: "ready delivers g1 l1 []"
      by (auto simp: match_ends_def)
    obtain v c s' where e: "eof_action (condition_number sc) (core l1, ?S, echoed g1) = Some (Some v, c, s', echoed g1)"
      using eof_action_returns by blast
    have n: "(?S - 1) div 2 = condition_number sc" by (simp add: start_state_def)
    have "scan_step pc g1 l1 = Some (Inl v, g1\<lparr>yy_start := s', echoed := echoed g1\<rparr>, with_core l1 c)"
      using eof_action_core(1) [OF e] same(6) by (simp add: pc scan_action_def YY_END_OF_BUFFER_def after_action_def)
    then have run: "scan_run Start g l = Some (v, g1\<lparr>yy_start := s', echoed := echoed g1\<rparr>, with_core l1 c)"
      unfolding p(1) by (rule scan_run_step(2))
    have spec: "scan_text (yy_start g) (core l) (echoed g) t = Some (v, c, s', echoed g1, [])"
      using e True by (subst scan_text.simps) (simp add: same n [simplified])
    have "ready delivers (g1\<lparr>yy_start := s', echoed := echoed g1\<rparr>) (with_core l1 c) []"
      by (rule ready_source [OF r]) (auto intro: source_only)
    then show ?thesis
      using run spec eof_action_core(2) [OF e] rule_action_start(2) [OF e] same(2,5) same_input_trans [OF same(2) same_input_with_core]
      by (simp add: scan_returns_def)
  next
    case False
    with p(4) obtain k cp bp where pc: "pc = Do_action (yy_accept ! dfa_run ?S (take k t)) cp bp" and a: "at_action delivers sc g1 l1 t k"
      by (auto simp: match_ends_def)
    let ?act = "yy_accept ! dfa_run ?S (take k t)"
    have best: "best_prefix ?S t k" and r: "ready delivers g1 l1 (drop k t)" using a by (simp_all add: at_action_def)
    note m = munch_best [OF best False]
    have step: "scan_step pc g1 l1 = after_action (rule_action ?act (take k t) (l1, ?S, echoed g1)) g1"
      using a m(3,4) same(6) by (auto simp: at_action_def pc scan_action_def YY_END_OF_BUFFER_def)
    have spec: "scan_text (yy_start g) (core l) (echoed g) t =
        do { (ret, c, s', out) \<leftarrow> rule_action ?act (take k t) (core l1, ?S, echoed g1);
             case ret of Some v \<Rightarrow> Some (v, c, s', out, drop k t) | None \<Rightarrow> scan_text s' c out (drop k t) }"
      using m(1) [of "(0, 0)"] m(2) False by (subst scan_text.simps) (simp add: same)
    show ?thesis
    proof (cases "rule_action ?act (take k t) (core l1, ?S, echoed g1)")
      case None
      with rule_action_none [OF this] step show ?thesis
        unfolding p(1) scan_returns_def spec by (simp add: after_action_def scan_run_step(3))
    next
      case (Some res)
      obtain ret c s' out where e: "rule_action ?act (take k t) (core l1, ?S, echoed g1) = Some (ret, c, s', out)"
        using Some by (cases res) auto
      note after = after_action_returns [OF e r]
      let ?g = "g1\<lparr>yy_start := s', echoed := out\<rparr>" and ?l = "with_core l1 c"
      obtain sc' where s': "s' = start_state sc'" using rule_action_start(1) [OF e] by blast
      have inp: "same_input l ?l" by (rule same_input_trans [OF same(2) same_input_with_core])
      show ?thesis
      proof (cases ret)
        case (Some v)
        have "scan_run Start g l = Some (v, ?g, ?l)"
          unfolding p(1) by (rule scan_run_step(2)) (simp add: step after(1) Some)
        then show ?thesis using after(2,3) s' inp same(5) unfolding scan_returns_def spec by (simp add: e Some) blast
      next
        case None
        have run: "scan_run Start g l = scan_run Start ?g ?l"
          unfolding p(1) by (rule scan_run_step(1)) (simp add: step after(1) None)
        have "length (drop k t) < length t" using m(2) False by simp
        from less.hyps [OF this after(3)] s' have IH: "scan_returns delivers ?g ?l (scan_text s' c out (drop k t)) (scan_run Start ?g ?l)"
          by (simp add: after(2) [unfolded core_with_core])
        then show ?thesis unfolding scan_returns_def spec run
          using inp same(5) by (auto simp: e None split: option.splits dest: same_input_trans)
      qed
    qed
  qed
qed

end

end
