(* ===== verification/ListFileSource.thy ===== *)
theory ListFileSource
  imports ListFileRefine
begin

text \<open>
  The input of \<^verbatim>\<open>LexerParser/cmListFileLexer.c\<close>: what a call of \<open>cmListFileLexerInput\<close> reads from a file,
  with the conversion of line ends, or from a string.  Strings, files without carriage returns, and files
  whose lines do not fill the buffer and whose last byte is no carriage return, are sources of the scanner,
  so \<open>yylex\<close> implements the specification on them.
\<close>

section \<open>The conversion of line ends\<close>

fun convert_crlf :: "byte list \<Rightarrow> byte list" where
  "convert_crlf [] = []"
| "convert_crlf [c] = [c]"
| "convert_crlf (c # d # w) = (if c = 0x0D \<and> d = 0x0A then 0x0A # convert_crlf w else c # convert_crlf (d # w))"

lemma convert_Cons: "c \<noteq> 0x0D \<or> w = [] \<or> hd w \<noteq> 0x0A \<Longrightarrow> convert_crlf (c # w) = c # convert_crlf w"
  by (cases w) auto

lemma convert_append: "xs = [] \<or> ys = [] \<or> last xs \<noteq> 0x0D \<or> hd ys \<noteq> 0x0A \<Longrightarrow> convert_crlf (xs @ ys) = convert_crlf xs @ convert_crlf ys"
proof (induction xs rule: convert_crlf.induct)
  case (2 c)
  then show ?case by (cases ys) auto
qed (auto split: if_splits)

lemma convert_free: "0x0D \<notin> set w \<Longrightarrow> convert_crlf w = w"
  by (induction w rule: convert_crlf.induct) auto

lemma convert_length: "length (convert_crlf w) \<le> length w"
  by (induction w rule: convert_crlf.induct) auto

lemma convert_Nil [simp]: "convert_crlf w = [] \<longleftrightarrow> w = []"
  by (cases w rule: convert_crlf.cases) auto

lemma crlf_loop_converts:
  assumes "p \<le> i" and "\<And>j. j < length w \<Longrightarrow> get m (i + j) = Some (w ! j)"
    and "w \<noteq> [] \<Longrightarrow> last w = 0x0D \<Longrightarrow> \<exists>d. get m (i + length w) = Some d \<and> d \<noteq> 0x0A"
  shows "\<exists>m'. crlf_loop m i (i + length w) p = Some (m', p + length (convert_crlf w)) \<and> length m' = length m
    \<and> (p \<le> length m \<longrightarrow> take (p + length (convert_crlf w)) m' = take p m @ map Some (convert_crlf w))"
  using assms
proof (induction "length w" arbitrary: w m i p rule: less_induct)
  case less
  show ?case
  proof (cases w)
    case Nil
    then show ?thesis using less.prems by (subst crlf_loop.simps) simp
  next
    case (Cons c w1)
    have c: "get m i = Some c" using less.prems(2) [of 0] Cons by simp
    have d: "w1 \<noteq> [] \<Longrightarrow> get m (Suc i) = Some (hd w1)" using less.prems(2) [of 1] Cons by (cases w1) auto
    define lf where "lf \<longleftrightarrow> c = 0x0D \<and> w1 \<noteq> [] \<and> hd w1 = 0x0A"
    have lf: "(if c = 0x0D then map_option (\<lambda>d. d = 0x0A) (get m (Suc i)) else Some False) = Some lf"
      using d less.prems(3) Cons by (cases "w1 = []") (auto simp: lf_def)
    define w' where "w' = (if lf then tl w1 else w1)"
    define i' where "i' = (if lf then Suc i else i)"
    define b where "b = (if lf then 0x0A else c)"
    have w': "convert_crlf w = b # convert_crlf w'" "Suc i' + length w' = i + length w" "length w' < length w"
      using Cons lf_def by (cases w1; auto simp: w'_def b_def i'_def convert_Cons)+
    have nth: "w' ! j = w ! (i' - i + Suc j)" if "j < length w'" for j
      using Cons lf_def that by (cases w1) (auto simp: w'_def i'_def)
    have b: "get m i' = Some b" using c d Cons by (auto simp: i'_def b_def lf_def)
    let ?m = "m[p := Some b]"
    have p: "p < length m" "p \<le> i'" "i \<le> i'" using less.prems(1) b by (auto simp: i'_def get_def split: if_splits)
    have m: "get ?m k = get m k" if "p < k" for k using that by (simp add: get_def)
    have "\<exists>m'. crlf_loop ?m (Suc i') (Suc i' + length w') (Suc p) = Some (m', Suc p + length (convert_crlf w')) \<and> length m' = length ?m
      \<and> (Suc p \<le> length ?m \<longrightarrow> take (Suc p + length (convert_crlf w')) m' = take (Suc p) ?m @ map Some (convert_crlf w'))"
    proof (rule less.hyps [OF w'(3)])
      show "Suc p \<le> Suc i'" using p by simp
      show "get ?m (Suc i' + j) = Some (w' ! j)" if "j < length w'" for j
        using less.prems(2) [of "i' - i + Suc j"] w'(2) p that by (simp add: m nth)
      show "\<exists>d. get ?m (Suc i' + length w') = Some d \<and> d \<noteq> 0x0A" if "w' \<noteq> []" "last w' = 0x0D"
      proof -
        have "last w = 0x0D" using that Cons by (cases w1) (auto simp: w'_def split: if_splits)
        then show ?thesis using less.prems(3) Cons w'(2) p by (simp add: m)
      qed
    qed
    moreover have "take (Suc p) ?m = take p m @ [Some b]" using p(1) by (simp add: take_Suc_conv_app_nth)
    moreover have "crlf_loop m i (i + length w) p = crlf_loop ?m (Suc i') (Suc i' + length w') (Suc p)"
      using Cons p(1) b lf c w'(2) by (subst crlf_loop.simps) (simp add: put_def i'_def)
    ultimately show ?thesis using w'(1) p(1) by auto
  qed
qed


section \<open>What one call of \<open>cmListFileLexerInput\<close> does\<close>

text \<open>The bytes that are left in the file, with the carriage return that was put back.\<close>

definition pending :: "nat \<Rightarrow> stream \<Rightarrow> byte list" where
  "pending k f = replicate k 0x0D @ drop (position f) (contents f)"

text \<open>The bytes of one read, without a carriage return at the end, which is put back.\<close>

definition whole :: "byte list \<Rightarrow> byte list" where
  "whole data = (if data \<noteq> [] \<and> last data = 0x0D then butlast data else data)"

lemma Input_file:
  assumes f: "input_file l = Some f" and cr: "cr l \<le> 1" and n: "0 < n" "off + n \<le> length m"
    and bs: "bs = take (n - cr l) (drop (position f) (contents f))" "bs \<noteq> []"
  defines "data \<equiv> replicate (cr l) 0x0D @ bs"
  shows "\<exists>m'. cmListFileLexerInput l m off n = Some (length (convert_crlf (whole data)), l\<lparr>input_file := Some (f\<lparr>position := position f + length bs\<rparr>),
        cr := (if last bs = 0x0D then 1 else 0)\<rparr>, m') \<and> length m' = length m
     \<and> take (off + length (convert_crlf (whole data))) m' = take off m @ map Some (convert_crlf (whole data))"
proof -
  let ?c = "cr l" and ?f = "f\<lparr>position := position f + length bs\<rparr>"
  let ?m1 = "m[off := Some 0x0D]"
  let ?m2 = "take (off + ?c) ?m1 @ map Some bs @ drop (off + ?c + length bs) ?m1"
  have fr: "fread f (n - ?c) = (bs, ?f)" by (simp add: fread_def Let_def bs(1))
  have len: "?c + length bs \<le> n" "?c \<le> n" using n(1) cr bs by auto
  have lb: "0 < length bs" using bs(2) by simp
  have mw: "mem_write ?m1 (off + ?c) (map Some bs) = Some ?m2" using len n mem_write_Some [of "off + ?c" "map Some bs" ?m1] by simp
  have l2: "length ?m2 = length m" using len n by simp
  have at: "get ?m2 (off + j) = Some (data ! j)" if "j < length data" for j
  proof -
    consider "?c = 0" | "?c = 1" using cr by linarith
    then show ?thesis using that n len lb l2
      by cases (auto simp: get_def data_def nth_append nth_Cons' min_def)
  qed
  have ld: "length data = ?c + length bs" "data \<noteq> []" "last data = last bs" using lb by (auto simp: data_def)
  let ?cr = "if last bs = 0x0D then (1::nat) else 0"
  have last: "get ?m2 (off + (length bs + ?c) - 1) = Some (last bs)"
    using at [of "length data - 1"] ld lb by (simp add: last_conv_nth add.commute)
  have w: "length (whole data) = length data - ?cr" "whole data \<noteq> [] \<Longrightarrow> j < length (whole data) \<Longrightarrow> whole data ! j = data ! j" for j
    using ld(2,3) by (auto simp: whole_def nth_butlast)
  have e: "off + length (whole data) = off + (length bs + ?c) - ?cr"
  proof -
    have "?cr \<le> length bs" using lb by (simp add: Suc_le_eq)
    then show ?thesis unfolding w(1) ld(1) by linarith
  qed
  have "\<exists>m'. crlf_loop ?m2 off (off + length (whole data)) off = Some (m', off + length (convert_crlf (whole data))) \<and> length m' = length ?m2
      \<and> (off \<le> length ?m2 \<longrightarrow> take (off + length (convert_crlf (whole data))) m' = take off ?m2 @ map Some (convert_crlf (whole data)))"
  proof (rule crlf_loop_converts)
    fix j assume "j < length (whole data)"
    with w at [of j] show "get ?m2 (off + j) = Some (whole data ! j)" by (cases "whole data = []") (auto split: if_splits)
  next
    assume z: "whole data \<noteq> []" "last (whole data) = 0x0D"
    then have "last data = 0x0D" by (auto simp: whole_def split: if_splits)
    then have "last bs = 0x0D" by (simp add: ld(3))
    with last e have "get ?m2 (off + length (whole data)) = Some 0x0D" by simp
    then show "\<exists>d. get ?m2 (off + length (whole data)) = Some d \<and> d \<noteq> 0x0A" by simp
  qed simp
  then obtain m' where m': "crlf_loop ?m2 off (off + (length bs + ?c) - ?cr) off = Some (m', off + length (convert_crlf (whole data)))"
    "length m' = length m" "take (off + length (convert_crlf (whole data))) m' = take off ?m2 @ map Some (convert_crlf (whole data))"
    using l2 n unfolding e by auto
  have "take off ?m2 = take off m" using n by simp
  moreover have lm: "off < length m" using n by simp
  ultimately show ?thesis
    using m' f n len fr mw last lb bs(2)
    by (intro exI [of _ m']) (simp add: cmListFileLexerInput_def put_def lm Let_def add.commute add.left_commute)
qed

lemma Input_file_end:
  assumes "input_file l = Some f" and "cr l \<le> n" "0 < n" "off + n \<le> length m" and "take (n - cr l) (drop (position f) (contents f)) = []"
  shows "cmListFileLexerInput l m off n = Some (cr l, l\<lparr>cr := 0\<rparr>, m[off := Some 0x0D])"
proof -
  have "off < length m" "off + cr l \<le> length m" using assms(2-4) by simp_all
  moreover have "fread f (n - cr l) = ([], f)" unfolding fread_def Let_def assms(5) by simp
  ultimately show ?thesis using assms(1-4) by (simp add: cmListFileLexerInput_def put_def mem_write_def)
qed

text \<open>
  A read of at least two bytes from a file delivers the next part of its text with the line ends converted.  (A read of
  one byte may stop at a carriage return that is not at the end of the file.)
\<close>

lemma Input_reads:
  assumes "input_file l = Some f" and "cr l \<le> 1" and "2 \<le> n" and "off + n \<le> length m"
  shows "\<exists>r l' m' f' out. cmListFileLexerInput l m off n = Some (r, l', m') \<and> r \<le> n \<and> length m' = length m
    \<and> length out = r \<and> take (off + r) m' = take off m @ map Some out
    \<and> input_file l' = Some f' \<and> cr l' \<le> 1 \<and> convert_crlf (pending (cr l) f) = out @ convert_crlf (pending (cr l') f')
    \<and> (r = 0 \<longleftrightarrow> pending (cr l) f = [] \<or> pending (cr l) f = [0x0D] \<and> cr l = 0)
    \<and> same_lexer l l' \<and> suffix (pending (cr l') f') (pending (cr l) f)"
proof -
  let ?rest = "drop (position f) (contents f)"
  let ?bs = "take (n - cr l) ?rest"
  have n: "0 < n" "cr l \<le> n" "0 < n - cr l" using assms(2,3) by simp_all
  show ?thesis
  proof (cases "?bs = []")
    case True
    then have rest: "?rest = []" using n(3) by simp
    have i: "cmListFileLexerInput l m off n = Some (cr l, l\<lparr>cr := 0\<rparr>, m[off := Some 0x0D])"
      by (rule Input_file_end [OF assms(1) n(2,1) assms(4) True])
    have c: "cr l = 0 \<or> cr l = 1" using assms(2) by linarith
    have p: "pending (cr l) f = replicate (cr l) 0x0D" "pending 0 f = []" using rest by (simp_all add: pending_def)
    have "take (off + cr l) (m[off := Some 0x0D]) = take off m @ map Some (replicate (cr l) 0x0D)"
      using c n(1) assms(4) by (auto simp: take_Suc_conv_app_nth)
    then show ?thesis
      using i n(2) assms(1,2) c p
      by (intro exI [of _ "cr l"] exI [of _ "l\<lparr>cr := 0\<rparr>"] exI [of _ "m[off := Some 0x0D]"] exI [of _ f] exI [of _ "replicate (cr l) 0x0D"])
        (auto simp: same_lexer_def same_input_def core_def)
  next
    case False
    let ?data = "replicate (cr l) 0x0D @ ?bs"
    let ?cr = "if last ?bs = 0x0D then 1 else (0::nat)"
    let ?f = "f\<lparr>position := position f + length ?bs\<rparr>"
    let ?l = "l\<lparr>input_file := Some ?f, cr := ?cr\<rparr>"
    let ?out = "convert_crlf (whole ?data)"
    obtain m' where m': "cmListFileLexerInput l m off n = Some (length ?out, ?l, m')" "length m' = length m"
      "take (off + length ?out) m' = take off m @ map Some ?out"
      using Input_file [OF assms(1,2) n(1) assms(4) refl False] by blast
    have last: "last ?data = last ?bs" using False by simp
    have pend: "pending (cr l) f = ?data @ drop (n - cr l) ?rest"
      unfolding pending_def append.assoc append_take_drop_id ..
    have pend': "pending ?cr ?f = replicate ?cr 0x0D @ drop (n - cr l) ?rest"
      by (cases "length ?rest \<le> n - cr l") (simp_all add: pending_def add.commute min_def)
    have ne: "?data \<noteq> []" using False by simp
    have no_cr: "whole ?data = ?data" if "last ?bs \<noteq> 0x0D" unfolding whole_def last using that by simp
    have split: "?data = whole ?data @ replicate ?cr 0x0D"
    proof (cases "last ?bs = 0x0D")
      case True
      then have "whole ?data = butlast ?data" unfolding whole_def last using ne by simp
      moreover have "?data = butlast ?data @ [0x0D]" using append_butlast_last_id [OF ne] unfolding last True by (rule sym)
      ultimately show ?thesis using True by simp
    qed (simp add: no_cr)
    then have all: "pending (cr l) f = whole ?data @ pending ?cr ?f" unfolding pend pend' by (metis append.assoc)
    have "convert_crlf (pending (cr l) f) = ?out @ convert_crlf (pending ?cr ?f)"
      unfolding all
    proof (rule convert_append)
      show "whole ?data = [] \<or> pending ?cr ?f = [] \<or> last (whole ?data) \<noteq> 0x0D \<or> hd (pending ?cr ?f) \<noteq> 0x0A"
        using no_cr last by (auto simp: pending_def)
    qed
    moreover have "length ?out \<le> n"
      using convert_length [of "whole ?data"] n(2) by (auto simp: whole_def intro: order.trans)
    moreover have "length ?out = 0 \<longleftrightarrow> pending (cr l) f = [0x0D] \<and> cr l = 0"
    proof
      assume "length ?out = 0"
      then have w: "whole ?data = []" by simp
      then have "?data = replicate ?cr 0x0D" using split by simp
      then have d: "?data = [0x0D]" "cr l = 0" using False assms(2) by (cases "cr l"; auto split: if_splits)+
      then have "?bs = [0x0D]" by simp
      then have "drop (n - cr l) ?rest = []" using assms(3) d(2) by (cases ?rest) (auto dest: arg_cong [of _ _ length] simp: min_def split: if_splits)
      with d pend show "pending (cr l) f = [0x0D] \<and> cr l = 0" by simp
    next
      assume "pending (cr l) f = [0x0D] \<and> cr l = 0"
      then have "?data = [0x0D]" using False by (auto simp: pending_def take_Cons')
      then show "length ?out = 0" by (simp add: whole_def)
    qed
    moreover have "pending (cr l) f \<noteq> []" using False by (auto simp: pending_def)
    moreover have "same_lexer l ?l" by (simp add: same_lexer_def same_input_def core_def assms(1))
    moreover have "suffix (pending ?cr ?f) (pending (cr l) f)" unfolding all by (rule suffix_appendI) simp
    ultimately show ?thesis
      using m' by (intro exI [of _ "length ?out"] exI [of _ ?l] exI [of _ m'] exI [of _ ?f] exI [of _ ?out]) simp
  qed
qed

text \<open>A text in a string is delivered as it is.\<close>

lemma Input_string:
  assumes "input_file l = None" and "string_buffer l = Some s" "string_position l + string_left l \<le> length s" and "off + n \<le> length m"
  defines "r \<equiv> min n (string_left l)"
  shows "\<exists>m'. cmListFileLexerInput l m off n = Some (r, l\<lparr>string_position := string_position l + r, string_left := string_left l - r\<rparr>, m')
     \<and> length m' = length m \<and> take (off + r) m' = take off m @ map Some (take r (drop (string_position l) s))"
proof (cases "string_left l = 0")
  case True
  then show ?thesis using assms(1,4) by (simp add: cmListFileLexerInput_def r_def)
next
  case False
  let ?bs = "take r (drop (string_position l) s)"
  have "mem_read s (string_position l) r = Some ?bs" "length ?bs = r"
    using assms(3) by (simp_all add: mem_read_def r_def)
  moreover have "mem_write m off (map Some ?bs) = Some (take off m @ map Some ?bs @ drop (off + r) m)"
    using mem_write_Some [of off "map Some ?bs" m] calculation(2) assms(4) by (simp add: r_def)
  moreover have "(if n < string_left l then n else string_left l) = r" by (simp add: r_def min_def)
  moreover have "off + r \<le> length m" using assms(4) by (simp add: r_def)
  ultimately show ?thesis
    using assms(1,2,4) False by (simp add: cmListFileLexerInput_def Let_def)
qed


text \<open>
  The text that the source of a lexer holds after the bytes \<open>bs\<close> of the buffer: what is left of the string, or of
  a file without carriage returns, or of a file with the line ends converted.  In the last case no line fills the
  buffer, so that no read is of a single byte, and the file does not end with a carriage return.
\<close>

definition short_lines :: "byte list \<Rightarrow> bool" where
  "short_lines t \<longleftrightarrow> (\<forall>xs ys zs. t = xs @ ys @ zs \<and> 0x0A \<notin> set ys \<longrightarrow> length ys + 2 < YY_BUF_SIZE)"

definition converted :: "nat \<Rightarrow> stream \<Rightarrow> byte list \<Rightarrow> bool" where
  "converted k f t \<longleftrightarrow> k \<le> 1 \<and> t = convert_crlf (pending k f) \<and> (pending k f = [] \<or> last (pending k f) \<noteq> 0x0D)"

definition source_text :: "byte list \<Rightarrow> cmListFileLexer \<Rightarrow> byte list \<Rightarrow> bool" where
  "source_text bs l t \<longleftrightarrow> (case input_file l of
     None \<Rightarrow> if string_left l = 0 then t = []
       else \<exists>s. string_buffer l = Some s \<and> string_position l + string_left l \<le> length s \<and> t = take (string_left l) (drop (string_position l) s)
   | Some f \<Rightarrow> cr l = 0 \<and> t = drop (position f) (contents f) \<and> 0x0D \<notin> set t \<or> converted (cr l) f t \<and> short_lines (bs @ t))"

lemma short_lines_factor: "short_lines (xs @ ys @ zs) \<Longrightarrow> short_lines (ys @ zs)"
  unfolding short_lines_def by (metis append.assoc)

lemma short_lines_small: "length t + 2 < YY_BUF_SIZE \<Longrightarrow> short_lines t"
  by (auto simp: short_lines_def)

text \<open>
  The text of the bytes of a file: the lexer reads it with the line ends converted.  A file with carriage returns must
  not have a line that fills the input buffer of the scanner, nor end with a carriage return.
\<close>

definition readable :: "byte list \<Rightarrow> bool" where
  "readable bytes \<longleftrightarrow> 0 \<notin> set bytes
     \<and> (0x0D \<in> set bytes \<longrightarrow> last bytes \<noteq> 0x0D \<and> short_lines (convert_crlf bytes))"

lemma convert_set: "set (convert_crlf w) \<subseteq> set w"
  by (induction w rule: convert_crlf.induct) auto

lemma readable_zero: "readable bytes \<Longrightarrow> 0 \<notin> set (convert_crlf bytes)"
  using convert_set [of bytes] by (auto simp: readable_def)

lemma readable_source:
  assumes "readable bytes" and "input_file l = Some f" and "cr l = 0" and "pending 0 f = bytes"
  shows "source_text [] l (convert_crlf bytes)"
  using assms by (cases "0x0D \<in> set bytes") (auto simp: source_text_def readable_def converted_def pending_def convert_free)

text \<open>A file with its line ends converted, one read.\<close>

lemma converted_reads:
  assumes f: "input_file l = Some f" "converted (cr l) f t" and short: "short_lines (v @ t)" and line: "0x0A \<notin> set v"
    and n: "n = 1 \<Longrightarrow> YY_BUF_SIZE \<le> length v + 2" "0 < n" "off + n \<le> length m"
  shows "\<exists>r l' m'. cmListFileLexerInput l m off n = Some (r, l', m') \<and> r \<le> n \<and> r \<le> length t \<and> (r = 0 \<longrightarrow> t = []) \<and> length m' = length m
      \<and> take (off + r) m' = take off m @ map Some (take r t) \<and> same_lexer l l' \<and> source_text (v @ take r t) l' (drop r t)"
proof -
  have "length v + 2 < YY_BUF_SIZE" using short line unfolding short_lines_def by (metis append_Nil)
  with n have "2 \<le> n" by linarith
  from Input_reads [OF f(1) _ this n(3)] f(2) obtain r l' m' f' out where
    r: "cmListFileLexerInput l m off n = Some (r, l', m')" "r \<le> n" "length m' = length m" "length out = r"
      "take (off + r) m' = take off m @ map Some out" "input_file l' = Some f'" "cr l' \<le> 1"
      "t = out @ convert_crlf (pending (cr l') f')" "r = 0 \<longleftrightarrow> pending (cr l) f = [] \<or> pending (cr l) f = [0x0D] \<and> cr l = 0"
      "same_lexer l l'" "suffix (pending (cr l') f') (pending (cr l) f)"
    unfolding converted_def by blast
  have d: "drop r t = convert_crlf (pending (cr l') f')" using r(4,8) by simp
  have "converted (cr l') f' (drop r t)"
    unfolding d using f(2) r(7,11) by (auto simp: converted_def suffix_def)
  moreover have "r = 0 \<longrightarrow> t = []" using f(2) r(9) by (auto simp: converted_def)
  ultimately show ?thesis using r short by (intro exI [of _ r] exI [of _ l'] exI [of _ m']) (auto simp: source_text_def)
qed

interpretation lexer_source: text_source source_text
proof
  fix l t n off m and v :: "byte list"
  assume s: "source_text v l t" and line: "0x0A \<notin> set v" and one: "n = 1 \<Longrightarrow> YY_BUF_SIZE \<le> length v + 2"
    and n: "0 < (n::nat)" "off + n \<le> length (m :: mem)"
  show "\<exists>r l' m'. cmListFileLexerInput l m off n = Some (r, l', m') \<and> r \<le> n \<and> r \<le> length t \<and> (r = 0 \<longrightarrow> t = []) \<and> length m' = length m
      \<and> take (off + r) m' = take off m @ map Some (take r t) \<and> same_lexer l l' \<and> source_text (v @ take r t) l' (drop r t)"
  proof (cases "input_file l")
    case None
    show ?thesis
    proof (cases "string_left l = 0")
      case True
      then show ?thesis using s None n by (simp add: source_text_def cmListFileLexerInput_def)
    next
      case False
      with s None obtain b where b: "string_buffer l = Some b" "string_position l + string_left l \<le> length b"
        "t = take (string_left l) (drop (string_position l) b)" by (auto simp: source_text_def)
      from Input_string [OF None b(1,2) n(2)] obtain m' where m': "cmListFileLexerInput l m off n = Some (min n (string_left l),
          l\<lparr>string_position := string_position l + min n (string_left l), string_left := string_left l - min n (string_left l)\<rparr>, m')"
        "length m' = length m" "take (off + min n (string_left l)) m' = take off m @ map Some (take (min n (string_left l)) (drop (string_position l) b))"
        by auto
      let ?r = "min n (string_left l)"
      let ?l = "l\<lparr>string_position := string_position l + ?r, string_left := string_left l - ?r\<rparr>"
      have "source_text (v @ take ?r t) ?l (drop ?r t)"
        using None b by (auto simp: source_text_def drop_take min_def add.commute split: if_splits)
      moreover have "take ?r t = take ?r (drop (string_position l) b)" "?r \<le> length t" "?r = 0 \<longrightarrow> t = []"
        using b(2) n(1) by (auto simp: b(3) min_def)
      moreover have "same_lexer l ?l" by (simp add: same_lexer_def same_input_def core_def)
      ultimately show ?thesis using m' by (intro exI [of _ ?r] exI [of _ ?l] exI [of _ m']) simp
    qed
  next
    case (Some f)
    show ?thesis
    proof (cases "converted (cr l) f t \<and> short_lines (v @ t)")
      case True
      then show ?thesis using converted_reads [OF Some _ _ line one n, of t] by blast
    next
      case False
      with Some s have t: "cr l = 0" "t = drop (position f) (contents f)" "0x0D \<notin> set t" by (auto simp: source_text_def)
      let ?bs = "take (n - cr l) (drop (position f) (contents f))"
      show ?thesis
      proof (cases "?bs = []")
        case True
        have "cmListFileLexerInput l m off n = Some (0, l, m[off := Some 0x0D])"
          using Input_file_end [OF Some _ n True] t(1) by simp
        moreover have "t = []" using True n(1) t(1,2) by auto
        ultimately show ?thesis using s by (intro exI [of _ 0] exI [of _ l] exI [of _ "m[off := Some 0x0D]"]) simp
      next
        case False
        let ?l = "l\<lparr>input_file := Some (f\<lparr>position := position f + length ?bs\<rparr>), cr := 0\<rparr>"
        have bs: "?bs = take n t" "0x0D \<notin> set (take n t)" using t by (auto dest: in_set_takeD)
        then have "last (take n t) \<noteq> 0x0D" using False by (metis last_in_set)
        then have "whole (take n t) = take n t" "convert_crlf (take n t) = take n t" using bs(2) by (simp_all add: whole_def convert_free)
        then obtain m' where "cmListFileLexerInput l m off n = Some (length (take n t), ?l, m')" "length m' = length m"
          "take (off + length (take n t)) m' = take off m @ map Some (take n t)"
          using Input_file [OF Some _ n refl False] t(1) \<open>last (take n t) \<noteq> 0x0D\<close> unfolding bs(1) by auto
        moreover have "source_text (v @ take (length (take n t)) t) ?l (drop (length (take n t)) t)"
        proof -
          have "0x0D \<notin> set (drop (length (take n t)) t)" using t(3) by (blast dest: in_set_dropD)
          then show ?thesis using t(1,2) by (simp add: source_text_def add.commute)
        qed
        moreover have "length (take n t) = 0 \<longrightarrow> t = []" using n(1) by (cases t) auto
        moreover have "take (length (take n t)) t = take n t" by (simp add: min_def)
        moreover have "same_lexer l ?l" by (simp add: same_lexer_def same_input_def core_def Some)
        ultimately show ?thesis by (intro exI [of _ "length (take n t)"] exI [of _ ?l] exI [of _ m']) simp
      qed
    qed
  qed
next
  fix bs v l t
  assume "source_text bs l t" and "suffix v bs"
  moreover have "short_lines (v @ t)" if "short_lines (bs @ t)"
    using that \<open>suffix v bs\<close> short_lines_factor [of _ v t] by (auto simp: suffix_def)
  ultimately show "source_text v l t" by (auto simp: source_text_def split: option.splits)
next
  fix bs l l' t
  show "source_text bs l t \<Longrightarrow> source l' = source l \<Longrightarrow> source_text bs l' t"
    by (auto simp: source_text_def source_def split: option.splits)
qed


section \<open>yylex\<close>

text \<open>
  The scanner of a lexer: \<open>yylex\<close> has not been called, or the next match starts with the text \<open>t\<close>.
  The start state of a scanner that has not been called is that of INITIAL.
\<close>

definition scans :: "yyguts_t \<Rightarrow> cmListFileLexer \<Rightarrow> byte list \<Rightarrow> bool" where
  "scans g l t \<longleftrightarrow> (if yy_init g then (\<exists>sc. yy_start g = start_state sc) \<and> ready source_text g l t
     else yy_start g = 0 \<and> yy_buffer g = None \<and> source_text [] l t)"

definition start_of :: "yyguts_t \<Rightarrow> nat" where
  "start_of g = (if yy_init g then yy_start g else 1)"

lemma yylex_setup_ready:
  assumes "scans g l t"
  obtains g' where "yylex_setup g = Some g'" and "ready source_text g' l t" and "yy_start g' = start_of g" and "echoed g' = echoed g"
    and "yy_init g'" and "\<exists>sc. start_of g = start_state sc"
proof (cases "yy_init g")
  case True
  then show ?thesis using assms that by (auto simp: scans_def yylex_setup_def start_of_def)
next
  case False
  let ?m = "(replicate (YY_BUF_SIZE + 2) None)[0 := Some 0, Suc 0 := Some 0] :: mem"
  let ?b = "\<lparr>yy_ch_buf = ?m, yy_buf_pos = 0, yy_buf_size = YY_BUF_SIZE, yy_bn_chars = 0, yy_buffer_status = YY_BUFFER_NEW, yy_bs_lineno = 1\<rparr>"
  let ?g = "g\<lparr>yy_init := True, yy_start := 1, yy_buffer := Some ?b, yy_n_chars := 0, yytext_ptr := 0, yy_c_buf_p := 0, yy_hold_char := 0\<rparr>"
  have "length ?m = Suc (Suc YY_BUF_SIZE)" by simp
  then have c: "yy_create_buffer YY_BUF_SIZE = Some ?b" "get ?m 0 = Some 0"
    by (simp_all add: yy_create_buffer_def yy_flush_def put_def get_def)
  have g: "yylex_setup g = Some ?g"
    using False assms c by (simp add: yylex_setup_def scans_def yy_load_buffer_state_def)
  have r: "ready source_text ?g l t"
  proof -
    have "put ?m 0 0 = Some ?m" "holds ?m [0, 0]"
      by (auto simp: put_def holds_iff nth_list_update less_Suc_eq update_again)
    then have "held source_text ?g l [] t" using assms False
      by (auto simp: held_def scanning_def scans_def YY_BUF_SIZE_def YY_BUFFER_NEW_def YY_BUFFER_EOF_PENDING_def)
    then show ?thesis unfolding ready_def by (intro exI [of _ "[]"] exI [of _ t]) simp
  qed
  have "start_of g = start_state INITIAL" "start_of g = 1" using False by (simp_all add: start_of_def start_state_def)
  then show ?thesis by (intro that [OF g r]) (simp, simp, simp, blast)
qed

lemma yylex_refines:
  assumes "scans g l t"
  shows "case scan_text (start_of g) (core l) (echoed g) t of
      None \<Rightarrow> yylex g l = None
    | Some (v, c, start, out, t') \<Rightarrow> \<exists>g' l'. yylex g l = Some (v, g', l') \<and> core l' = c \<and> same_input l l'
        \<and> scans g' l' t' \<and> start_of g' = start \<and> echoed g' = out"
proof -
  obtain g1 sc where g1: "yylex_setup g = Some g1" "ready source_text g1 l t" "yy_start g1 = start_of g" "echoed g1 = echoed g"
    "yy_init g1" "start_of g = start_state sc" by (rule yylex_setup_ready [OF assms]) blast
  have r: "scan_returns source_text g1 l (scan_text (start_of g) (core l) (echoed g) t) (scan_run Start g1 l)"
    using lexer_source.scan_refines [OF g1(2), of sc] g1(3,4,6) by simp
  have run: "yylex g l = scan_run Start g1 l" by (simp add: yylex_def g1(1))
  show ?thesis
  proof (cases "scan_text (start_of g) (core l) (echoed g) t")
    case None
    with r run show ?thesis by (simp add: scan_returns_def)
  next
    case (Some res)
    obtain v c start out t' where res: "res = (v, c, start, out, t')" by (cases res)
    with r Some obtain g' l' where "scan_run Start g1 l = Some (v, g', l')" "core l' = c" "same_input l l'" "yy_init g' = yy_init g1"
      "yy_start g' = start" "echoed g' = out" "\<exists>sc. start = start_state sc" "ready source_text g' l' t'"
      by (auto simp: scan_returns_def)
    moreover from this g1(5) have "scans g' l' t'" "start_of g' = start" by (simp_all add: scans_def start_of_def)
    ultimately show ?thesis using run by (simp add: Some res)
  qed
qed

end
