(* ===== verification/ListFileTokens.thy ===== *)
theory ListFileTokens
  imports ListFileSource
begin

text \<open>
  The texts that the rules of \<^verbatim>\<open>LexerParser/cmListFileLexer.c\<close> match, positions in the text, and the
  token buffer: setting, extending and cutting the text of the token stays inside the buffer.
\<close>

section \<open>The texts that the rules match\<close>

lemma star_atom: "w \<in> star {[b] | b. P b} \<longleftrightarrow> (\<forall>b\<in>set w. P b)"
proof
  show "w \<in> star {[b] | b. P b} \<Longrightarrow> \<forall>b\<in>set w. P b" by (induction rule: star.induct) auto
  show "\<forall>b\<in>set w. P b \<Longrightarrow> w \<in> star {[b] | b. P b}"
  proof (induction w)
    case (Cons b w)
    then have "[b] @ w \<in> star {[b] | b. P b}" by (intro star.intros) auto
    then show ?case by simp
  qed (simp add: star.intros)
qed

lemma lang_run: "w \<in> lang (Star (Atom a)) \<longleftrightarrow> (\<forall>b\<in>set w. member a b)"
  by (simp add: star_atom)

lemma lang_Seq: "w \<in> lang (Seq r s) \<longleftrightarrow> (\<exists>u v. w = u @ v \<and> u \<in> lang r \<and> v \<in> lang s)"
  by auto

text \<open>Bytes that occur in no text of an expression.\<close>

fun avoids :: "(charset \<Rightarrow> bool) \<Rightarrow> rexp \<Rightarrow> bool" where
  "avoids P Eps = True"
| "avoids P (Atom a) = (\<not> P a)"
| "avoids P (Seq r s) = (avoids P r \<and> avoids P s)"
| "avoids P (Alt r s) = (avoids P r \<and> avoids P s)"
| "avoids P (Star r) = avoids P r"

lemma avoids_lang: "avoids (\<lambda>a. code_member a (unat b)) r \<Longrightarrow> w \<in> lang r \<Longrightarrow> b \<notin> set w"
proof (induction r arbitrary: w)
  case (Star r)
  from Star.prems(2) have "w \<in> star (lang r)" by simp
  then show ?case using Star.IH Star.prems(1) by (induction rule: star.induct) auto
qed (auto simp: member_def)

lemma match_rule: "longest_match sc t act n \<Longrightarrow> \<exists>r. (act, r) \<in> set (rules sc) \<and> take n t \<in> lang r"
  by (auto simp: longest_match_def first_match_def find_Some_iff) (metis nth_mem)

text \<open>An earlier rule that matches has priority; a longer match too.\<close>

lemma first_match_least: "first_match (rules sc) w = Some act \<Longrightarrow> (m, r) \<in> set (rules sc) \<Longrightarrow> w \<in> lang r \<Longrightarrow> act \<le> m"
  using first_match_matching [OF start_residual(3), of sc w]
  by (auto simp: matching_def split: if_splits intro!: Least_le)

lemma match_priority: "longest_match sc t act n \<Longrightarrow> (m, r) \<in> set (rules sc) \<Longrightarrow> take n t \<in> lang r \<Longrightarrow> act \<le> m"
  by (auto simp: longest_match_def intro: first_match_least)

lemma match_longest: "longest_match sc t act n \<Longrightarrow> (m, r) \<in> set (rules sc) \<Longrightarrow> take k t \<in> lang r \<Longrightarrow> k \<le> length t \<Longrightarrow> k \<le> n"
proof (rule ccontr)
  assume l: "longest_match sc t act n" and r: "(m, r) \<in> set (rules sc)" "take k t \<in> lang r" "k \<le> length t" and k: "\<not> k \<le> n"
  then have "first_match (rules sc) (take k t) = None" by (simp add: longest_match_def)
  with r(1,2) show False by (auto simp: first_match_def find_None_iff)
qed

text \<open>The default rule applies to zero bytes only.\<close>

lemma code_eq: "(b :: byte) = 0x0A \<longleftrightarrow> unat b = 0x0A" "(b :: byte) = 0 \<longleftrightarrow> unat b = 0"
  by (simp_all add: word_unat_eq_iff)

lemma default_rule_zero: "longest_match sc t 24 n \<Longrightarrow> \<exists>b. take n t = [b] \<and> b = 0"
proof -
  assume l: "longest_match sc t 24 n"
  obtain r where "(24, r) \<in> set (rules sc)" "take n t \<in> lang r" using match_rule [OF l] by blast
  then obtain b where b: "take n t = [b]" by (cases sc) auto
  have "b = 0"
  proof (rule ccontr)
    assume "b \<noteq> 0"
    then have "\<exists>m r. (m, r) \<in> set (rules sc) \<and> m < 24 \<and> [b] \<in> lang r"
    proof (cases "b = 0x0A")
      case True
      then have "[b] \<in> lang (Atom Newline)" by (simp add: member_def)
      moreover have "\<exists>m. (m, Atom Newline) \<in> set (rules sc) \<and> m < 24" by (cases sc) auto
      ultimately show ?thesis by blast
    next
      case False
      with \<open>b \<noteq> 0\<close> have "member NotNulNewline b" "member Dot b" by (simp_all add: member_def word_unat_eq_iff)
      then have in_lang: "[b] \<in> lang (Atom NotNulNewline)" "[b] \<in> lang (Atom Dot)" "[b] \<in> lang (Star (Atom NotNulNewline))"
        unfolding lang_run by simp_all
      show ?thesis
      proof (cases sc)
        case INITIAL
        with in_lang(2) show ?thesis by (intro exI [of _ 23] exI [of _ "Atom Dot"]) simp
      next
        case COMMENT
        with in_lang(3) show ?thesis by (intro exI [of _ 4] exI [of _ "Star (Atom NotNulNewline)"]) simp
      next
        case STRING
        with in_lang(1) show ?thesis by (intro exI [of _ 21] exI [of _ "Atom NotNulNewline"]) simp
      qed (use in_lang(1) in \<open>intro exI [of _ 12] exI [of _ "Atom NotNulNewline"]; simp\<close>)+
    qed
    with match_priority [OF l] b show False by fastforce
  qed
  with b show ?thesis by simp
qed


section \<open>Positions\<close>

text \<open>The position in the text after some bytes: a line feed starts a line, whose columns count from 1.\<close>

definition advance :: "int \<times> int \<Rightarrow> byte list \<Rightarrow> int \<times> int" where
  "advance p bs = fold (\<lambda>b (l, c). if b = 0x0A then (l + 1, 1) else (l, c + 1)) bs p"

lemma advance_simps [simp]:
  "advance p [] = p" "advance (l, c) (b # bs) = advance (if b = 0x0A then (l + 1, 1) else (l, c + 1)) bs"
  "advance p (xs @ ys) = advance (advance p xs) ys"
  by (simp_all add: advance_def)

lemma advance_line: "0x0A \<notin> set w \<Longrightarrow> advance (l, c) w = (l, c + int (length w))"
  by (induction w arbitrary: c) auto

text \<open>What the rules match in a text without zero bytes.\<close>

definition open_text :: "bool \<Rightarrow> nat \<Rightarrow> bool \<Rightarrow> byte list" where
  "open_text hash k nl = (if hash then [0x23] else []) @ [0x5B] @ replicate k 0x3D @ [0x5B] @ (if nl then [0x0A] else [])"

lemma open_text_lang:
  "w \<in> lang (Seq (Alt (Atom Hash) Eps) (Seq (Atom LBracket) (Seq (Star (Atom Equals)) (Seq (Atom LBracket) (Alt (Atom Newline) Eps)))))
     \<longleftrightarrow> (\<exists>hash k nl. w = open_text hash k nl)"
proof -
  have one: "member Hash b \<longleftrightarrow> b = 0x23" "member LBracket b \<longleftrightarrow> b = 0x5B" "member Equals b \<longleftrightarrow> b = 0x3D" "member Newline b \<longleftrightarrow> b = 0x0A" for b
    by (simp_all add: member_def word_unat_eq_iff)
  have eq: "(\<forall>b\<in>set v. b = 0x3D) \<longleftrightarrow> (\<exists>k. v = replicate k 0x3D)" for v :: "byte list"
    by (metis in_set_replicate replicate_length_same)
  have parts: "w \<in> lang (Alt (Atom Hash) Eps) \<longleftrightarrow> w = [0x23] \<or> w = []" "w \<in> lang (Atom LBracket) \<longleftrightarrow> w = [0x5B]"
    "w \<in> lang (Star (Atom Equals)) \<longleftrightarrow> (\<exists>k. w = replicate k 0x3D)" "w \<in> lang (Alt (Atom Newline) Eps) \<longleftrightarrow> w = [0x0A] \<or> w = []" for w
    by (auto simp: one lang_run eq simp del: lang.simps(5))
  show ?thesis
    unfolding lang_Seq parts open_text_def
  proof
    assume "\<exists>u v. w = u @ v \<and> (u = [0x23] \<or> u = []) \<and> (\<exists>u' v'. v = u' @ v' \<and> u' = [0x5B] \<and> (\<exists>u'' v''. v' = u'' @ v''
      \<and> (\<exists>k. u'' = replicate k 0x3D) \<and> (\<exists>x y. v'' = x @ y \<and> x = [0x5B] \<and> (y = [0x0A] \<or> y = []))))"
    then obtain u k v where "w = u @ [0x5B] @ replicate k 0x3D @ [0x5B] @ v" "u = [0x23] \<or> u = []" "v = [0x0A] \<or> v = []" by blast
    then show "\<exists>hash k nl. w = (if hash then [0x23] else []) @ [0x5B] @ replicate k 0x3D @ [0x5B] @ (if nl then [0x0A] else [])"
      by (intro exI [of _ "u = [0x23]"] exI [of _ k] exI [of _ "v = [0x0A]"]) auto
  next
    assume "\<exists>hash k nl. w = (if hash then [0x23] else []) @ [0x5B] @ replicate k 0x3D @ [0x5B] @ (if nl then [0x0A] else [])"
    then obtain hash k nl where w: "w = (if hash then [0x23] else []) @ [0x5B] @ replicate k 0x3D @ [0x5B] @ (if nl then [0x0A] else [])" by blast
    moreover have "(if hash then [0x23] else []) = [0x23] \<or> (if hash then [0x23] else []) = ([] :: byte list)"
      "(if nl then [0x0A] else []) = [0x0A] \<or> (if nl then [0x0A] else []) = ([] :: byte list)" by simp_all
    ultimately show "\<exists>u v. w = u @ v \<and> (u = [0x23] \<or> u = []) \<and> (\<exists>u' v'. v = u' @ v' \<and> u' = [0x5B] \<and> (\<exists>u'' v''. v' = u'' @ v''
      \<and> (\<exists>k. u'' = replicate k 0x3D) \<and> (\<exists>x y. v'' = x @ y \<and> x = [0x5B] \<and> (y = [0x0A] \<or> y = []))))" by blast
  qed
qed


lemma match_shape:
  assumes l: "longest_match sc t act n" and "0 < n" and "0 \<notin> set t"
  shows "act \<noteq> 24" and "0 \<notin> set (take n t)" and "take n t \<noteq> []" and "length (take n t) = n"
    and "act = 1 \<or> act = 11 \<or> act = 19 \<Longrightarrow> take n t = [0x0A]"
    and "act = 18 \<Longrightarrow> take n t = [0x5C, 0x0A]"
    and "act = 2 \<Longrightarrow> \<exists>hash k nl. take n t = open_text hash k nl"
    and "act \<notin> {1, 2, 11, 18, 19} \<Longrightarrow> 0x0A \<notin> set (take n t)"
proof -
  let ?w = "take n t"
  obtain r where r: "(act, r) \<in> set (rules sc)" "?w \<in> lang r" using match_rule [OF l] by blast
  have len: "n \<le> length t" using l by (simp add: longest_match_def)
  show "0 \<notin> set ?w" using assms(3) by (auto dest: in_set_takeD)
  show "?w \<noteq> []" "length ?w = n" using assms(2) len by auto
  show 24: "act \<noteq> 24"
  proof
    assume "act = 24"
    with l obtain b where "?w = [b]" "b = 0" using default_rule_zero by blast
    with \<open>0 \<notin> set ?w\<close> show False by simp
  qed
  have nl: "member Newline b \<longleftrightarrow> b = 0x0A" "member Backslash b \<longleftrightarrow> b = 0x5C" for b
    by (simp_all add: member_def word_unat_eq_iff)
  show "act = 1 \<or> act = 11 \<or> act = 19 \<Longrightarrow> ?w = [0x0A]" "act = 18 \<Longrightarrow> ?w = [0x5C, 0x0A]"
    using r by (cases sc; auto simp: nl)+
  show "act = 2 \<Longrightarrow> \<exists>hash k nl. ?w = open_text hash k nl"
    using r unfolding open_text_lang [symmetric] by (cases sc) auto
  assume "act \<notin> {1, 2, 11, 18, 19}"
  with r(1) 24 have "avoids (\<lambda>a. code_member a (unat (0x0A :: byte))) r"
    by (cases sc) (auto simp: UNQUOTED_def MAKEVAR_def LEGACY_def legacy_quoted_def unquoted_rest_def legacy_rest_def string_char_def string_rest_def)
  from avoids_lang [OF this r(2)] show "0x0A \<notin> set ?w" .
qed

section \<open>The token\<close>

text \<open>The token buffer has \<open>size\<close> bytes and holds the text \<open>s\<close> with its terminator.\<close>

definition holds_text :: "cmListFileLexer \<Rightarrow> byte list \<Rightarrow> bool" where
  "holds_text c s \<longleftrightarrow> 0 \<notin> set s \<and> tok_length (token c) = int (length s)
     \<and> (\<exists>rest. tok_text (token c) = Some (s @ 0 # rest) \<and> size c = int (length s + 1 + length rest))"

definition token_is :: "cmListFileLexer \<Rightarrow> byte list \<Rightarrow> bool" where
  "token_is c s \<longleftrightarrow> tok_text (token c) = None \<and> size c = 0 \<and> tok_length (token c) = 0 \<and> s = [] \<or> holds_text c s"

definition pos :: "cmListFileLexer \<Rightarrow> int \<times> int" where
  "pos c = (line c, column c)"

definition tok_pos :: "cmListFileLexer \<Rightarrow> int \<times> int" where
  "tok_pos c = (tok_line (token c), tok_column (token c))"

definition same_place :: "cmListFileLexer \<Rightarrow> cmListFileLexer \<Rightarrow> bool" where
  "same_place c c' \<longleftrightarrow> pos c' = pos c \<and> bracket c' = bracket c \<and> comment c' = comment c \<and> tok_type (token c') = tok_type (token c)"

lemma token_is_text: "holds_text c s \<Longrightarrow> token_is c s"
  by (simp add: token_is_def)

lemma SetToken_sets:
  assumes "token_is c old" and "0 \<notin> set s"
  obtains c' where "cmListFileLexerSetToken c (Some (s @ [0])) (int (length s)) = Some c'" and "holds_text c' s" and "same_place c c'" and "tok_pos c' = pos c"
proof -
  let ?c = "c\<lparr>token := token c\<lparr>tok_line := line c, tok_column := column c\<rparr>\<rparr>"
  let ?fresh = "?c\<lparr>token := (token ?c)\<lparr>tok_text := Some (s @ [0]), tok_length := int (length s)\<rparr>, size := int (length s) + 1\<rparr>"
  have str: "c_string (s @ [0]) = Some s" using assms(2) by simp
  show ?thesis
  proof (cases "tok_text (token c)")
    case None
    then have "cmListFileLexerSetToken c (Some (s @ [0])) (int (length s)) = Some ?fresh"
      using str by (simp add: cmListFileLexerSetToken_def Let_def)
    then show ?thesis by (rule that) (use assms(2) in \<open>auto simp: holds_text_def same_place_def pos_def tok_pos_def\<close>)
  next
    case (Some old)
    with assms(1) have size: "size c = int (length old)" by (auto simp: token_is_def holds_text_def)
    show ?thesis
    proof (cases "length s < length old")
      case True
      let ?buf = "s @ 0 # drop (Suc (length s)) old"
      have "mem_write old 0 (s @ [0]) = Some ?buf" using True by (simp add: mem_write_def)
      then have "cmListFileLexerSetToken c (Some (s @ [0])) (int (length s)) = Some (?c\<lparr>token := (token ?c)\<lparr>tok_text := Some ?buf, tok_length := int (length s)\<rparr>\<rparr>)"
        using Some str size True by (simp add: cmListFileLexerSetToken_def Let_def)
      then show ?thesis by (rule that) (use assms(2) size True in \<open>auto simp: holds_text_def same_place_def pos_def tok_pos_def\<close>)
    next
      case False
      then have "cmListFileLexerSetToken c (Some (s @ [0])) (int (length s)) = Some ?fresh"
        using Some str size by (simp add: cmListFileLexerSetToken_def Let_def)
      then show ?thesis by (rule that) (use assms(2) in \<open>auto simp: holds_text_def same_place_def pos_def tok_pos_def\<close>)
    qed
  qed
qed

lemma Append_appends:
  assumes "token_is c s" and "0 \<notin> set w"
  obtains c' where "cmListFileLexerAppend c (w @ [0]) (length w) = Some c'" and "holds_text c' (s @ w)" and "same_place c c'" and "tok_pos c' = tok_pos c"
proof (cases "tok_text (token c)")
  case None
  let ?c = "c\<lparr>token := (token c)\<lparr>tok_text := Some (w @ [0]), tok_length := int (length w)\<rparr>, size := int (length w) + 1\<rparr>"
  have s: "s = []" "tok_length (token c) = 0" using assms(1) None by (auto simp: token_is_def holds_text_def)
  then have "cmListFileLexerAppend c (w @ [0]) (length w) = Some ?c" using None by (simp add: cmListFileLexerAppend_def Let_def mem_read_def)
  then show ?thesis by (rule that) (use s assms(2) in \<open>auto simp: holds_text_def same_place_def pos_def tok_pos_def\<close>)
next
  case (Some old)
  then obtain rest where t: "0 \<notin> set s" "tok_length (token c) = int (length s)" "tok_text (token c) = Some (s @ 0 # rest)"
    "size c = int (length s + 1 + length rest)" using assms(1) by (auto simp: token_is_def holds_text_def)
  have str: "c_string (w @ [0]) = Some w" using assms(2) by simp
  show ?thesis
  proof (cases "length w \<le> length rest")
    case True
    let ?c = "c\<lparr>token := (token c)\<lparr>tok_text := Some (s @ w @ 0 # drop (length w) rest), tok_length := int (length s) + int (length w)\<rparr>\<rparr>"
    have "cmListFileLexerAppend c (w @ [0]) (length w) = Some ?c"
      using t True str by (simp add: cmListFileLexerAppend_def Let_def mem_write_def)
    then show ?thesis by (rule that) (use t assms(2) True in \<open>auto simp: holds_text_def same_place_def pos_def tok_pos_def\<close>)
  next
    case False
    let ?c = "c\<lparr>token := (token c)\<lparr>tok_text := Some (s @ w @ [0]), tok_length := int (length s) + int (length w)\<rparr>,
      size := int (length s) + int (length w) + 1\<rparr>"
    have "cmListFileLexerAppend c (w @ [0]) (length w) = Some ?c"
      using t False by (simp add: cmListFileLexerAppend_def Let_def mem_read_def)
    then show ?thesis by (rule that) (use t assms(2) in \<open>auto simp: holds_text_def same_place_def pos_def tok_pos_def\<close>)
  qed
qed

lemma close_bracket_cuts:
  assumes "holds_text c s" and "bracket c = int k" and "k \<le> length s"
  obtains c' where "close_bracket w c = Some c'" and "holds_text c' (take (length s - k) s)"
    and "pos c' = (line c, column c + int (length w))" and "bracket c' = bracket c" and "comment c' = comment c"
    and "tok_type (token c') = tok_type (token c)" and "tok_pos c' = tok_pos c"
proof -
  obtain rest where t: "0 \<notin> set s" "tok_length (token c) = int (length s)" "tok_text (token c) = Some (s @ 0 # rest)"
    "size c = int (length s + 1 + length rest)" using assms(1) by (auto simp: holds_text_def)
  let ?n = "length s - k"
  let ?buf = "take ?n s @ 0 # drop (Suc ?n) (s @ 0 # rest)"
  have n: "tok_length (token c) - bracket c = int ?n" using t(2) assms(2,3) by simp
  have "mem_write (s @ 0 # rest) ?n [0] = Some ?buf" by (simp add: mem_write_def)
  then have "close_bracket w c = Some (c\<lparr>column := column c + int (length w), token := (token c)\<lparr>tok_text := Some ?buf, tok_length := int ?n\<rparr>\<rparr>)"
    using t(3) n by (simp add: close_bracket_def Let_def)
  then show ?thesis
  proof (rule that)
    have "0 \<notin> set (take ?n s)" using t(1) by (auto dest: in_set_takeD)
    then show "holds_text (c\<lparr>column := column c + int (length w), token := (token c)\<lparr>tok_text := Some ?buf, tok_length := int ?n\<rparr>\<rparr>) (take ?n s)"
      using t(4) assms(3) by (auto simp: holds_text_def)
  qed (simp_all add: pos_def tok_pos_def)
qed

end
