(* ===== verification/ListFileLex.thy ===== *)
theory ListFileLex
  imports ListFileTokens
begin

text \<open>
  The lexer of \<^verbatim>\<open>LexerParser/cmListFileLexer.c\<close> without its buffers, as a function of the text, and the
  proof that the actions on the token buffer implement it for every text without zero bytes: nothing
  is undefined, and every token comes out with its type, text and position.
\<close>

section \<open>The lexer on texts\<close>

text \<open>
  The lexer without its buffers: the token (its type, text and position), the number of equal signs of
  the bracket and one, and the position in the text.
\<close>

record lexeme =
  kind :: token_type
  chars :: "byte list"
  starts :: "int \<times> int"
  brackets :: nat
  place :: "int \<times> int"

definition begin_token :: "token_type \<Rightarrow> byte list \<Rightarrow> lexeme \<Rightarrow> lexeme" where
  "begin_token k s x = x\<lparr>kind := k, chars := s, starts := place x\<rparr>"

text \<open>The effect of a rule on the match \<open>w\<close>: whether a token is complete, the next condition, the lexeme.\<close>

fun simple_kind :: "nat \<Rightarrow> token_type option" where
  "simple_kind act =
     (if act = 5 then Some Token_ParenLeft else if act = 6 then Some Token_ParenRight
      else if act = 7 then Some Token_Identifier else if act = 13 \<or> act = 14 \<or> act = 15 then Some Token_ArgumentUnquoted
      else if act = 22 then Some Token_Space else if act = 23 then Some Token_BadCharacter else None)"

definition rule_effect :: "nat \<Rightarrow> byte list \<Rightarrow> condition \<Rightarrow> lexeme \<Rightarrow> bool \<times> condition \<times> lexeme" where
  "rule_effect act w sc x =
     (let append = x\<lparr>chars := chars x @ w\<rparr>
      in if act = 1 then (True, INITIAL, begin_token Token_Newline w x)
         else if act = 2
         then (False, BRACKET, begin_token (if hd w = 0x23 then Token_CommentBracket else Token_ArgumentBracket) [] x
                \<lparr>brackets := length (filter (\<lambda>b. b = 0x3D) w) + 1\<rparr>)
         else if act = 3 then (False, COMMENT, x)
         else if act = 4 \<or> act = 18 then (False, sc, x)
         else if act = 8 then (False, if length w = brackets x then BRACKETEND else sc, append)
         else if act = 9 then (True, INITIAL, x\<lparr>chars := take (length (chars x) - brackets x) (chars x)\<rparr>)
         else if act = 10 \<or> act = 17 \<or> act = 19 \<or> act = 21 then (False, sc, append)
         else if act = 11 \<or> act = 12 then (False, BRACKET, append)
         else if act = 16 then (False, STRING, begin_token Token_ArgumentQuoted [] x)
         else if act = 20 then (True, INITIAL, x)
         else case simple_kind act of Some k \<Rightarrow> (True, sc, begin_token k w x) | None \<Rightarrow> (False, sc, x))"

definition match_effect :: "nat \<Rightarrow> byte list \<Rightarrow> condition \<Rightarrow> lexeme \<Rightarrow> bool \<times> condition \<times> lexeme" where
  "match_effect act w sc x = (case rule_effect act w sc x of (done', sc', x') \<Rightarrow> (done', sc', x'\<lparr>place := advance (place x) w\<rparr>))"

definition represents :: "cmListFileLexer \<Rightarrow> lexeme \<Rightarrow> bool" where
  "represents c x \<longleftrightarrow> token_is c (chars x) \<and> tok_type (token c) = kind x \<and> tok_pos c = starts x \<and> bracket c = int (brackets x) \<and> pos c = place x"

text \<open>After a partial closing bracket its characters are in the token.\<close>

definition lexing :: "condition \<Rightarrow> lexeme \<Rightarrow> bool" where
  "lexing sc x \<longleftrightarrow> (sc = BRACKETEND \<longrightarrow> 0 < brackets x \<and> brackets x \<le> length (chars x))"

lemma represents_token: "represents c x \<Longrightarrow> token_is c (chars x)"
  and represents_place: "represents c x \<Longrightarrow> place x = (line c, column c)"
  by (simp_all add: represents_def pos_def)

lemma simple_token_effect:
  assumes "represents c x" and "0 \<notin> set w" and "0x0A \<notin> set w"
  obtains c' where "simple_token k w c = Some c'" and "represents c' (begin_token k w x\<lparr>place := advance (place x) w\<rparr>)"
proof -
  let ?c = "c\<lparr>token := (token c)\<lparr>tok_type := k\<rparr>\<rparr>"
  have "token_is ?c (chars x)" using assms(1) by (auto simp: represents_def token_is_def holds_text_def)
  from SetToken_sets [OF this assms(2)] obtain c' where c': "cmListFileLexerSetToken ?c (Some (w @ [0])) (int (length w)) = Some c'"
    "holds_text c' w" "same_place ?c c'" "tok_pos c' = pos ?c" .
  let ?c' = "c'\<lparr>column := column c' + int (length w)\<rparr>"
  have "simple_token k w c = Some ?c'" using c'(1) by (simp add: simple_token_def Let_def)
  moreover have "represents ?c' (begin_token k w x\<lparr>place := advance (place x) w\<rparr>)"
    using c' assms advance_line [OF assms(3), of "line c" "column c"]
    by (auto simp: represents_def begin_token_def token_is_def holds_text_def same_place_def pos_def tok_pos_def)
  ultimately show ?thesis by (rule that)
qed

lemma append_text_effect:
  assumes "represents c x" and "0 \<notin> set w" and "0x0A \<notin> set w"
  obtains c' where "append_text w c = Some c'" and "represents c' (x\<lparr>chars := chars x @ w, place := advance (place x) w\<rparr>)"
    and "bracket c' = bracket c"
proof -
  obtain c' where c': "cmListFileLexerAppend c (w @ [0]) (length w) = Some c'" "holds_text c' (chars x @ w)" "same_place c c'" "tok_pos c' = tok_pos c"
    by (rule Append_appends [OF represents_token [OF assms(1)] assms(2)])
  let ?c' = "c'\<lparr>column := column c' + int (length w)\<rparr>"
  have "append_text w c = Some ?c'" using c'(1) by (simp add: append_text_def)
  moreover have "represents ?c' (x\<lparr>chars := chars x @ w, place := advance (place x) w\<rparr>)"
    using c' assms advance_line [OF assms(3), of "line c" "column c"]
    by (auto simp: represents_def token_is_def holds_text_def same_place_def pos_def tok_pos_def)
  moreover have "bracket ?c' = bracket c" using c'(3) by (simp add: same_place_def)
  ultimately show ?thesis by (rule that)
qed

lemma append_newline_effect:
  assumes "represents c x"
  obtains c' where "append_newline [0x0A] c = Some c'" and "represents c' (x\<lparr>chars := chars x @ [0x0A], place := advance (place x) [0x0A]\<rparr>)"
proof -
  obtain c' where c': "cmListFileLexerAppend c ([0x0A] @ [0]) (length [0x0A :: byte]) = Some c'" "holds_text c' (chars x @ [0x0A])" "same_place c c'" "tok_pos c' = tok_pos c"
    by (rule Append_appends [OF represents_token [OF assms], of "[0x0A]"]) auto
  let ?c' = "c'\<lparr>line := line c' + 1, column := 1\<rparr>"
  have "append_newline [0x0A] c = Some ?c'" using c'(1) by (simp add: append_newline_def)
  moreover have "represents ?c' (x\<lparr>chars := chars x @ [0x0A], place := advance (place x) [0x0A]\<rparr>)"
    using c' assms represents_place [OF assms]
    by (auto simp: represents_def token_is_def holds_text_def same_place_def pos_def tok_pos_def)
  ultimately show ?thesis by (rule that)
qed

lemma advance_eol: "0x0A \<notin> set u \<Longrightarrow> advance (l, c) (u @ [0x0A]) = (l + 1, 1)"
  by (simp add: advance_line)

lemma represents_moved:
  assumes "represents c x" and "0x0A \<notin> set w"
  shows "represents (c\<lparr>column := column c + int (length w)\<rparr>) (x\<lparr>place := advance (place x) w\<rparr>)"
  using assms represents_place [OF assms(1)] advance_line [OF assms(2), of "line c" "column c"]
  by (auto simp: represents_def token_is_def holds_text_def pos_def tok_pos_def)

lemma start_token:
  assumes "represents c x" and "0 \<notin> set s"
  obtains c' where "cmListFileLexerSetToken (c\<lparr>token := (token c)\<lparr>tok_type := k\<rparr>\<rparr>) (Some (s @ [0])) (int (length s)) = Some c'"
    and "represents c' (begin_token k s x)" and "line c' = line c" and "column c' = column c"
proof -
  let ?c = "c\<lparr>token := (token c)\<lparr>tok_type := k\<rparr>\<rparr>"
  have "token_is ?c (chars x)" using assms(1) by (auto simp: represents_def token_is_def holds_text_def)
  from SetToken_sets [OF this assms(2)] obtain c' where c': "cmListFileLexerSetToken ?c (Some (s @ [0])) (int (length s)) = Some c'"
    "holds_text c' s" "same_place ?c c'" "tok_pos c' = pos ?c" .
  have "represents c' (begin_token k s x)"
    using c' assms(1) by (auto simp: represents_def begin_token_def token_is_def same_place_def pos_def tok_pos_def)
  then show ?thesis using c'(3) by (intro that [OF c'(1)]) (simp_all add: same_place_def pos_def)
qed

lemma strchr_opening: "strchr (replicate k 0x3D @ 0x5B # s) 0x5B = Some k"
  by (induction k) simp_all

lemma open_bracket_effect:
  assumes "represents c x" and w: "w = open_text hash k nl"
  obtains c' where "open_bracket w c = Some c'"
    and "represents c' (begin_token (if hash then Token_CommentBracket else Token_ArgumentBracket) [] x
      \<lparr>brackets := k + 1, place := advance (place x) w\<rparr>)"
proof -
  let ?k = "if hash then Token_CommentBracket else Token_ArgumentBracket"
  let ?c = "c\<lparr>comment := hash\<rparr>"
  have "represents ?c x" using assms(1) by (auto simp: represents_def token_is_def holds_text_def pos_def tok_pos_def)
  from start_token [OF this, of "[]" ?k] obtain c' where c': "cmListFileLexerSetToken (?c\<lparr>token := (token ?c)\<lparr>tok_type := ?k\<rparr>\<rparr>) (Some [0]) 0 = Some c'"
    "represents c' (begin_token ?k [] x)" "line c' = line c" "column c' = column c" by auto
  have hd: "(w ! 0 = 0x23) = hash" "strchr (drop ((if hash then 1 else 0) + 1) (w @ [0])) 0x5B = Some k"
    "(last w = 0x0A) = nl" by (auto simp: w open_text_def strchr_opening)
  let ?c1 = "c'\<lparr>bracket := int k + 1\<rparr>"
  let ?c2 = "if nl then ?c1\<lparr>line := line c' + 1, column := 1\<rparr> else ?c1\<lparr>column := column c' + int (length w)\<rparr>"
  have "open_bracket w c = Some ?c2" using c'(1) hd(2) by (simp add: open_bracket_def Let_def hd(1,3))
  moreover have "advance (place x) w = (if nl then (line c + 1, 1) else (line c, column c + int (length w)))"
  proof (cases nl)
    case True
    let ?u = "(if hash then [0x23] else []) @ [0x5B] @ replicate k 0x3D @ [0x5B] :: byte list"
    have u: "w = ?u @ [0x0A]" "0x0A \<notin> set ?u" using True by (auto simp: w open_text_def)
    show ?thesis by (simp only: u(1) represents_place [OF assms(1)] advance_eol [OF u(2)] True if_True)
  next
    case False
    then have "0x0A \<notin> set w" by (auto simp: w open_text_def)
    then show ?thesis using False advance_line represents_place [OF assms(1)] by simp
  qed
  then have "represents ?c2 (begin_token ?k [] x\<lparr>brackets := k + 1, place := advance (place x) w\<rparr>)"
    using c'(2-4) by (auto simp: represents_def token_is_def holds_text_def pos_def tok_pos_def)
  ultimately show ?thesis by (rule that)
qed

lemma close_bracket_effect:
  assumes "represents c x" and "0 < brackets x" "brackets x \<le> length (chars x)" and "0x0A \<notin> set w"
  obtains c' where "close_bracket w c = Some c'"
    and "represents c' (x\<lparr>chars := take (length (chars x) - brackets x) (chars x), place := advance (place x) w\<rparr>)"
proof -
  have h: "holds_text c (chars x)" "bracket c = int (brackets x)" using assms by (auto simp: represents_def token_is_def)
  from close_bracket_cuts [OF h assms(3)] obtain c' where c': "close_bracket w c = Some c'"
    "holds_text c' (take (length (chars x) - brackets x) (chars x))" "pos c' = (line c, column c + int (length w))" "bracket c' = bracket c"
    "tok_type (token c') = tok_type (token c)" "tok_pos c' = tok_pos c" .
  have "represents c' (x\<lparr>chars := take (length (chars x) - brackets x) (chars x), place := advance (place x) w\<rparr>)"
    using c' assms(1) represents_place [OF assms(1)] advance_line [OF assms(4)] by (auto simp: represents_def token_is_def)
  with c'(1) show ?thesis by (rule that)
qed

text \<open>The action of a rule on the buffers has the effect of the rule.\<close>

lemma action_effect:
  assumes r: "represents c x" and x: "lexing sc x" and l: "longest_match sc t act n" "0 < n" "0 \<notin> set t"
  shows "\<exists>c'. rule_action act (take n t) (c, start_state sc, out)
      = (case match_effect act (take n t) sc x of (d, sc', x') \<Rightarrow> Some (if d then Some 1 else None, c', start_state sc', out))
     \<and> represents c' (snd (snd (match_effect act (take n t) sc x))) \<and> (case match_effect act (take n t) sc x of (d, sc', x') \<Rightarrow> lexing sc' x')"
proof -
  let ?w = "take n t"
  note w = match_shape [OF l]
  obtain r' where r': "(act, r') \<in> set (rules sc)" using match_rule [OF l(1)] by blast
  then consider "act = 1" | "act = 2" | "act = 3" | "act = 4" "sc = COMMENT" | "act = 18" "sc = STRING"
    | k where "simple_kind act = Some k" "sc = INITIAL" "act \<in> {5, 6, 7, 13, 14, 15, 22, 23}" | "act = 8" | "act = 9" "sc = BRACKETEND"
    | "act \<in> {10, 17, 21}" "sc \<noteq> BRACKETEND" | "act = 11" | "act = 12" | "act = 19" "sc = STRING" | "act = 16" | "act = 20"
    using w(1) by (cases sc) auto
  then show ?thesis
  proof cases
    case 1
    obtain c' where "cmListFileLexerSetToken (c\<lparr>token := (token c)\<lparr>tok_type := Token_Newline\<rparr>\<rparr>) (Some (?w @ [0])) (int (length ?w)) = Some c'"
      "represents c' (begin_token Token_Newline ?w x)" "line c' = line c" "column c' = column c"
      by (rule start_token [OF r w(2)])
    then show ?thesis using 1 w(5) represents_place [OF r]
      by (intro exI [of _ "c'\<lparr>line := line c' + 1, column := 1\<rparr>"])
        (auto simp: rule_action_def match_effect_def rule_effect_def begin_states lexing_def represents_def token_is_def holds_text_def
          pos_def tok_pos_def begin_token_def)
  next
    case 2
    then obtain hash k nl where wo: "?w = open_text hash k nl" using w(7) by blast
    have f: "length (filter (\<lambda>b. b = 0x3D) ?w) = k" "(hd ?w = 0x23) = hash" by (auto simp: wo open_text_def)
    obtain c' where "open_bracket ?w c = Some c'"
      "represents c' (begin_token (if hash then Token_CommentBracket else Token_ArgumentBracket) [] x\<lparr>brackets := k + 1, place := advance (place x) ?w\<rparr>)"
      by (rule open_bracket_effect [OF r wo])
    then show ?thesis using 2 f by (auto simp: rule_action_def match_effect_def rule_effect_def begin_states lexing_def begin_token_def)
  next
    case 3
    then show ?thesis using represents_moved [OF r w(8)] w(4) by (auto simp: rule_action_def match_effect_def rule_effect_def begin_states lexing_def Let_def)
  next
    case 4
    then show ?thesis using represents_moved [OF r w(8)] w(4) by (auto simp: rule_action_def match_effect_def rule_effect_def lexing_def Let_def)
  next
    case 5
    let ?c = "c\<lparr>line := line c + 1, column := 1\<rparr>"
    have "represents ?c (x\<lparr>place := advance (place x) ?w\<rparr>)"
      using r 5 w(6) represents_place [OF r] by (auto simp: represents_def token_is_def holds_text_def pos_def tok_pos_def)
    then show ?thesis using 5 by (intro exI [of _ ?c]) (simp add: rule_action_def match_effect_def rule_effect_def begin_states lexing_def Let_def)
  next
    case (6 k)
    then have "0x0A \<notin> set ?w" using w(8) by auto
    from simple_token_effect [OF r w(2) this, of k] obtain c' where "simple_token k ?w c = Some c'"
      "represents c' (begin_token k ?w x\<lparr>place := advance (place x) ?w\<rparr>)" .
    then show ?thesis using 6 by (auto simp: rule_action_def match_effect_def rule_effect_def begin_states lexing_def Let_def split: if_splits)
  next
    case 7
    then have "0x0A \<notin> set ?w" using w(8) by auto
    from append_text_effect [OF r w(2) this] obtain c' where c': "append_text ?w c = Some c'"
      "represents c' (x\<lparr>chars := chars x @ ?w, place := advance (place x) ?w\<rparr>)" "bracket c' = bracket c" .
    have "int (length ?w) = bracket c' \<longleftrightarrow> length ?w = brackets x" using c'(3) r by (simp add: represents_def)
    moreover have "sc = BRACKET" using 7 r' by (cases sc) auto
    moreover have "0 < brackets x" if "length ?w = brackets x" using that w(3) by (metis length_greater_0_conv)
    ultimately show ?thesis using 7 c'
      by (cases "length ?w = brackets x") (simp_all add: rule_action_def match_effect_def rule_effect_def begin_states lexing_def Let_def)
  next
    case 8
    then have "0x0A \<notin> set ?w" using w(8) by auto
    from close_bracket_effect [OF r _ _ this] x 8 obtain c' where "close_bracket ?w c = Some c'"
      "represents c' (x\<lparr>chars := take (length (chars x) - brackets x) (chars x), place := advance (place x) ?w\<rparr>)"
      by (auto simp: lexing_def)
    then show ?thesis using 8 by (auto simp: rule_action_def match_effect_def rule_effect_def begin_states lexing_def Let_def)
  next
    case 9
    then have "0x0A \<notin> set ?w" using w(8) by auto
    from append_text_effect [OF r w(2) this] obtain c' where "append_text ?w c = Some c'"
      "represents c' (x\<lparr>chars := chars x @ ?w, place := advance (place x) ?w\<rparr>)" "bracket c' = bracket c" .
    then show ?thesis using 9 by (auto simp: rule_action_def match_effect_def rule_effect_def begin_states lexing_def Let_def)
  next
    case 10
    obtain c' where "append_newline [0x0A] c = Some c'"
      "represents c' (x\<lparr>chars := chars x @ [0x0A], place := advance (place x) [0x0A]\<rparr>)" by (rule append_newline_effect [OF r])
    then show ?thesis using 10 w(5) by (auto simp: rule_action_def match_effect_def rule_effect_def begin_states lexing_def Let_def)
  next
    case 11
    then have "0x0A \<notin> set ?w" using w(8) by auto
    from append_text_effect [OF r w(2) this] obtain c' where "append_text ?w c = Some c'"
      "represents c' (x\<lparr>chars := chars x @ ?w, place := advance (place x) ?w\<rparr>)" "bracket c' = bracket c" .
    then show ?thesis using 11 by (auto simp: rule_action_def match_effect_def rule_effect_def begin_states lexing_def Let_def)
  next
    case 12
    obtain c' where "append_newline [0x0A] c = Some c'"
      "represents c' (x\<lparr>chars := chars x @ [0x0A], place := advance (place x) [0x0A]\<rparr>)" by (rule append_newline_effect [OF r])
    then show ?thesis using 12 w(5) by (auto simp: rule_action_def match_effect_def rule_effect_def begin_states lexing_def Let_def)
  next
    case 13
    obtain c' where c': "cmListFileLexerSetToken (c\<lparr>token := (token c)\<lparr>tok_type := Token_ArgumentQuoted\<rparr>\<rparr>) (Some ([] @ [0])) (int (length ([] :: byte list))) = Some c'"
      "represents c' (begin_token Token_ArgumentQuoted [] x)" "line c' = line c" "column c' = column c"
      by (rule start_token [OF r, of "[]"]) auto
    have "represents (c'\<lparr>column := column c' + int (length ?w)\<rparr>) (begin_token Token_ArgumentQuoted [] x\<lparr>place := advance (place x) ?w\<rparr>)"
      using represents_moved [OF c'(2), of ?w] w(8) 13 by (simp add: begin_token_def)
    then show ?thesis using 13 c'(1) w(4) by (auto simp: rule_action_def match_effect_def rule_effect_def begin_states lexing_def Let_def begin_token_def)
  next
    case 14
    then show ?thesis using represents_moved [OF r w(8)] w(4) by (auto simp: rule_action_def match_effect_def rule_effect_def begin_states lexing_def Let_def)
  qed
qed

section \<open>The next token of a text\<close>

text \<open>At the end of the text the token is complete, or there is none.\<close>

definition at_end :: "condition \<Rightarrow> lexeme \<Rightarrow> bool \<times> condition \<times> lexeme" where
  "at_end sc x = (if sc = BRACKET \<or> sc = BRACKETEND then (True, INITIAL, x\<lparr>kind := Token_BadBracket\<rparr>)
     else if sc = STRING then (True, INITIAL, x\<lparr>kind := Token_BadString\<rparr>)
     else (False, sc, begin_token Token_None [] x))"

text \<open>The next token: whether there is one, the condition, the lexeme and the rest of the text.\<close>

function lex :: "condition \<Rightarrow> lexeme \<Rightarrow> byte list \<Rightarrow> bool \<times> condition \<times> lexeme \<times> byte list" where
  "lex sc x t =
     (if t = [] then case at_end sc x of (d, sc, x) \<Rightarrow> (d, sc, x, [])
      else case munch (start_state sc) t 0 (0, 0) of (act, n) \<Rightarrow>
        if n = 0 then (False, sc, x, t)
        else case match_effect act (take n t) sc x of (d, sc, x) \<Rightarrow>
          if d then (True, sc, x, drop n t) else lex sc x (drop n t))"
  by pat_completeness auto
termination by (relation "measure (\<lambda>(sc, x, t). length t)") auto

declare lex.simps [simp del]

lemma lex_Nil: "lex sc x [] = (case at_end sc x of (d, sc, x) \<Rightarrow> (d, sc, x, []))"
  by (simp add: lex.simps)

text \<open>One step of the lexer, by the longest match.\<close>

lemma munch_is_longest: "t \<noteq> [] \<Longrightarrow> longest_match sc t act n \<Longrightarrow> munch (start_state sc) t 0 best = (act, n) \<and> 0 < n"
  using munch_longest [of t sc best] longest_match_unique by metis

lemma longest_match_exists: "t \<noteq> [] \<Longrightarrow> \<exists>act n. longest_match sc t act n \<and> 0 < n"
  by (metis munch_longest)

lemma lex_step:
  "t \<noteq> [] \<Longrightarrow> longest_match sc t act n \<Longrightarrow> lex sc x t = (case match_effect act (take n t) sc x of (d, sc', x') \<Rightarrow>
     if d then (True, sc', x', drop n t) else lex sc' x' (drop n t))"
  using munch_is_longest [of t sc act n "(0, 0)"] by (subst lex.simps) simp

lemma at_end_represents:
  assumes "represents c x"
  shows "\<exists>c'. eof_action (condition_number sc) (c, start_state sc, out)
      = (case at_end sc x of (d, sc', x') \<Rightarrow> Some (Some (if d then 1 else 0), c', start_state sc', out))
     \<and> represents c' (snd (snd (at_end sc x)))"
proof -
  have e: "\<exists>c'. cmListFileLexerSetToken (c\<lparr>token := (token c)\<lparr>tok_type := Token_None\<rparr>\<rparr>) None 0 = Some c' \<and> represents c' (begin_token Token_None [] x)"
    using assms by (cases "tok_text (token c)")
      (auto simp: cmListFileLexerSetToken_def Let_def represents_def begin_token_def token_is_def holds_text_def pos_def tok_pos_def)
  show ?thesis
    using assms e by (cases sc) (auto simp: eof_action_def at_end_def begin_states represents_def token_is_def holds_text_def pos_def tok_pos_def)
qed

text \<open>The lexer with its buffers, on a text without zero bytes: it returns, and with the same token.\<close>

theorem scan_text_lex:
  assumes "represents c x" and "lexing sc x" and "0 \<notin> set t"
  shows "\<exists>c'. scan_text (start_state sc) c out t
      = (case lex sc x t of (d, sc', x', t') \<Rightarrow> Some (if d then 1 else 0, c', start_state sc', out, t'))
    \<and> (case lex sc x t of (d, sc', x', t') \<Rightarrow> represents c' x' \<and> lexing sc' x' \<and> (\<exists>u. t = u @ t'))"
  using assms
proof (induction "length t" arbitrary: c sc x t rule: less_induct)
  case less
  show ?case
  proof (cases "t = []")
    case True
    obtain c' where e: "eof_action (condition_number sc) (c, start_state sc, out)
        = (case at_end sc x of (d, sc', x') \<Rightarrow> Some (Some (if d then 1 else 0), c', start_state sc', out))"
      "represents c' (snd (snd (at_end sc x)))" using at_end_represents [OF less.prems(1)] by blast
    have n: "(start_state sc - Suc 0) div 2 = condition_number sc" by (simp add: start_state_def)
    obtain d sc' x' where a: "at_end sc x = (d, sc', x')" by (cases "at_end sc x")
    have "lexing sc' x'" using a by (auto simp: at_end_def lexing_def split: if_splits)
    then show ?thesis using e True by (subst scan_text.simps, intro exI [of _ c']) (simp add: n lex_Nil a)
  next
    case False
    obtain act n where m: "longest_match sc t act n" "0 < n" using longest_match_exists [OF False] by blast
    have mu: "munch (start_state sc) t 0 (0, 0) = (act, n)" using munch_is_longest [OF False m(1)] by blast
    obtain d sc' x' where eff: "match_effect act (take n t) sc x = (d, sc', x')" by (cases "match_effect act (take n t) sc x")
    obtain c' where a: "rule_action act (take n t) (c, start_state sc, out) = Some (if d then Some 1 else None, c', start_state sc', out)"
      "represents c' x'" "lexing sc' x'"
      using action_effect [OF less.prems(1,2) m less.prems(3), of out] by (auto simp: eff)
    have step: "scan_text (start_state sc) c out t = (if d then Some (1, c', start_state sc', out, drop n t)
        else scan_text (start_state sc') c' out (drop n t))"
      using False m(2) a(1) by (subst scan_text.simps) (simp add: mu)
    note lstep = lex_step [OF False m(1), of x, unfolded eff prod.case]
    have td: "t = take n t @ drop n t" by simp
    show ?thesis
    proof (cases d)
      case True
      have "\<exists>u. t = u @ drop n t" using td by blast
      with True a(2,3) step lstep show ?thesis by (intro exI [of _ c']) (simp only: if_True prod.case simp_thms)
    next
      case False
      have "length (drop n t) < length t" "0 \<notin> set (drop n t)" using m(2) \<open>t \<noteq> []\<close> less.prems(3) by (auto dest: in_set_dropD)
      obtain d2 sc2 x2 t2 where l2: "lex sc' x' (drop n t) = (d2, sc2, x2, t2)" by (cases "lex sc' x' (drop n t)")
      from less.hyps [OF \<open>length (drop n t) < length t\<close> a(2,3) \<open>0 \<notin> set (drop n t)\<close>] obtain c'' u where
        IH: "scan_text (start_state sc') c' out (drop n t) = Some (if d2 then 1 else 0, c'', start_state sc2, out, t2)"
        "represents c'' x2" "lexing sc2 x2" "drop n t = u @ t2" unfolding l2 prod.case by blast
      have "\<exists>u. t = u @ t2" using td IH(4) by (metis append.assoc)
      with False IH(1-3) step lstep l2 show ?thesis by (intro exI [of _ c'']) (simp only: if_False prod.case simp_thms)
    qed
  qed
qed

end
