(* ===== verification/ListFileArguments.thy ===== *)
theory ListFileArguments
  imports ListFileLex
begin

text \<open>
  The arguments that the lexer of \<^verbatim>\<open>LexerParser/cmListFileLexer.c\<close> reads: the text of a quoted argument
  is that of its specification, and a bracket argument ends at the first closing bracket of its length.
\<close>

section \<open>Positions\<close>

text \<open>The place of the lexeme is the position after what was consumed.\<close>

lemma effect_place: "match_effect act w sc x = (d, sc', x') \<Longrightarrow> place x' = advance (place x) w"
  by (auto simp: match_effect_def split: prod.splits)

lemma lex_place: "lex sc x t = (d, sc', x', t') \<Longrightarrow> \<exists>u. t = u @ t' \<and> place x' = advance (place x) u"
proof (induction "length t" arbitrary: sc x t rule: less_induct)
  case less
  show ?case
  proof (cases "t = []")
    case True
    with less.prems show ?thesis by (auto simp: lex_Nil at_end_def begin_token_def split: if_splits)
  next
    case False
    obtain act n where m: "longest_match sc t act n" "0 < n" using longest_match_exists [OF False] by blast
    obtain d1 sc1 x1 where e: "match_effect act (take n t) sc x = (d1, sc1, x1)" by (cases "match_effect act (take n t) sc x")
    have p: "place x1 = advance (place x) (take n t)" by (rule effect_place [OF e])
    note step = lex_step [OF False m(1), of x, unfolded e prod.case, unfolded less.prems]
    show ?thesis
    proof (cases d1)
      case True
      with step p show ?thesis by (intro exI [of _ "take n t"]) simp
    next
      case False
      with step have l: "lex sc1 x1 (drop n t) = (d, sc', x', t')" by simp
      from less.hyps [OF _ l] m(2) \<open>t \<noteq> []\<close> obtain u where "drop n t = u @ t'" "place x' = advance (place x1) u" by auto
      then show ?thesis using p by (intro exI [of _ "take n t @ u"]) (metis advance_simps(3) append.assoc append_take_drop_id)
    qed
  qed
qed

section \<open>Quoted arguments\<close>

text \<open>
  The text of a quoted argument after the opening quote, and what follows the closing quote: a backslash
  at the end of a line and the line feed are dropped, other escape sequences are kept.
\<close>

fun unquote :: "byte list \<Rightarrow> (byte list \<times> byte list) option" where
  "unquote [] = None"
| "unquote [c] = (if c = 0x22 then Some ([], []) else None)"
| "unquote (c # d # t) =
     (if c = 0x22 then Some ([], d # t)
      else if c = 0x5C \<and> d = 0x0A then unquote t
      else if c = 0x5C then map_option (apfst (\<lambda>s. c # d # s)) (unquote t)
      else map_option (apfst ((#) c)) (unquote (d # t)))"

lemma unquote_plain: "c \<noteq> 0x22 \<Longrightarrow> c \<noteq> 0x5C \<Longrightarrow> unquote (c # t) = map_option (apfst ((#) c)) (unquote t)"
  by (cases t) simp_all

lemma string_char_lang: "w \<in> lang string_char \<longleftrightarrow> (\<exists>c. w = [c] \<and> c \<notin> {0x5C, 0, 0x0A, 0x22}) \<or> (\<exists>c. w = [0x5C, c] \<and> c \<notin> {0, 0x0A})"
proof -
  have "w \<in> lang (Seq (Atom Backslash) (Atom NotNulNewline)) \<longleftrightarrow> (\<exists>c. w = [0x5C, c] \<and> c \<notin> {0, 0x0A})"
  proof
    assume "\<exists>c. w = [0x5C, c] \<and> c \<notin> {0, 0x0A}"
    then obtain c where "w = [0x5C] @ [c]" "c \<notin> {0, 0x0A}" by auto
    then show "w \<in> lang (Seq (Atom Backslash) (Atom NotNulNewline))"
      unfolding lang_Seq
      by - (rule exI [of _ "[0x5C]"], rule exI [of _ "[c]"], simp add: member_def, simp add: word_unat_eq_iff)
  qed (auto simp: member_def word_unat_eq_iff)
  moreover have "w \<in> lang (Atom PlainQuoted) \<longleftrightarrow> (\<exists>c. w = [c] \<and> c \<notin> {0x5C, 0, 0x0A, 0x22})"
    by (auto simp: member_def word_unat_eq_iff)
  ultimately show ?thesis unfolding string_char_def lang.simps(4) by blast
qed

lemma one_string_char: "w \<in> lang string_char \<Longrightarrow> w \<in> lang (Seq string_char string_rest)"
proof -
  assume "w \<in> lang string_char"
  then have "w = w @ [] \<and> w \<in> lang string_char \<and> [] \<in> lang string_rest" by (simp add: string_rest_def star_Nil)
  then show ?thesis unfolding lang_Seq by blast
qed

lemma unquote_chars: "w \<in> star (lang string_char) \<Longrightarrow> unquote (w @ t) = map_option (apfst ((@) w)) (unquote t)"
proof (induction rule: star.induct)
  case star_Nil
  then show ?case by (cases "unquote t") (auto simp: apfst_def)
next
  case (star_append u v)
  from star_append.hyps(1) consider c where "u = [c]" "c \<noteq> 0x5C" "c \<noteq> 0x22" | c where "u = [0x5C, c]" "c \<noteq> 0x0A"
    unfolding string_char_lang by auto
  then show ?case
    by cases (cases "unquote t"; simp add: unquote_plain star_append.IH apfst_def map_prod_def split: prod.splits)+
qed

theorem lex_string:
  assumes "0 \<notin> set t"
  shows "case unquote t of
      Some (s, t') \<Rightarrow> \<exists>x'. lex STRING x t = (True, INITIAL, x', t') \<and> kind x' = kind x \<and> chars x' = chars x @ s \<and> starts x' = starts x
    | None \<Rightarrow> \<exists>x'. lex STRING x t = (True, INITIAL, x', []) \<and> kind x' = Token_BadString \<and> starts x' = starts x"
  using assms
proof (induction "length t" arbitrary: t x rule: less_induct)
  case less
  show ?case
  proof (cases "t = []")
    case True
    then show ?thesis by (simp add: lex_Nil at_end_def)
  next
    case False
    obtain act n where m: "longest_match STRING t act n" "0 < n" using longest_match_exists [OF False] by blast
    let ?w = "take n t" and ?t = "drop n t"
    note w = match_shape [OF m less.prems]
    have td: "t = ?w @ ?t" by simp
    have shorter: "length ?t < length t" "0 \<notin> set ?t" using m(2) False less.prems by (auto dest: in_set_dropD)
    obtain r where r: "(act, r) \<in> set (rules STRING)" "?w \<in> lang r" using match_rule [OF m(1)] by blast
    have go: "lex STRING x t = lex STRING (x\<lparr>chars := chars x @ s, place := advance (place x) ?w\<rparr>) ?t"
      if "match_effect act ?w STRING x = (False, STRING, x\<lparr>chars := chars x @ s, place := advance (place x) ?w\<rparr>)" for s
      using lex_step [OF False m(1), of x] that by simp
    have more: ?thesis
      if e: "match_effect act ?w STRING x = (False, STRING, x\<lparr>chars := chars x @ s, place := advance (place x) ?w\<rparr>)"
        and u: "unquote t = map_option (apfst ((@) s)) (unquote ?t)" for s
    proof -
      show ?thesis
        using less.hyps [OF shorter, of "x\<lparr>chars := chars x @ s, place := advance (place x) ?w\<rparr>"] u
        by (cases "unquote ?t") (auto simp: go [OF e])
    qed
    consider "act = 17" | "act = 18" | "act = 19" | "act = 20" | "act = 21" using r(1) w(1) by auto
    then show ?thesis
    proof cases
      case 1
      with r have "?w \<in> star (lang string_char)"
        by (auto simp: string_rest_def intro: star.intros)
      from unquote_chars [OF this, of ?t] 1 show ?thesis by (intro more [of ?w]) (simp_all add: match_effect_def rule_effect_def)
    next
      case 2
      then have w2: "?w = [0x5C, 0x0A]" using w(6) by simp
      then have "unquote t = unquote ?t" by (subst td) simp
      then have "unquote t = map_option (apfst ((@) [])) (unquote ?t)" by (cases "unquote ?t") auto
      then show ?thesis using 2 by (intro more [of "[]"]) (simp_all add: match_effect_def rule_effect_def)
    next
      case 3
      then have w3: "?w = [0x0A]" using w(5) by simp
      have "unquote t = map_option (apfst ((@) ?w)) (unquote ?t)" by (subst td) (cases "unquote ?t"; simp add: w3 unquote_plain apfst_def map_prod_def split: prod.split)
      then show ?thesis using 3 by (intro more [of ?w]) (simp_all add: match_effect_def rule_effect_def)
    next
      case 4
      with r have w4: "?w = [0x22]" by (auto simp: member_def word_unat_eq_iff)
      have "unquote t = Some ([], ?t)" by (subst td, subst w4) (cases ?t; simp)
      moreover have "match_effect act ?w STRING x = (True, INITIAL, x\<lparr>place := advance (place x) ?w\<rparr>)"
        using 4 by (simp add: match_effect_def rule_effect_def)
      ultimately show ?thesis using lex_step [OF False m(1), of x]
        by simp
    next
      case 5
      with r obtain c where c: "?w = [c]" by auto
      have "c \<noteq> 0" "c \<noteq> 0x0A" using w(2) w(8) 5 c by auto
      moreover have "c \<noteq> 0x22"
        using match_priority [OF m(1), of 20 "Atom Quote"] 5 c by (auto simp: member_def)
      moreover have "\<not> (c \<notin> {0x5C, 0, 0x0A, 0x22})"
      proof
        assume "c \<notin> {0x5C, 0, 0x0A, 0x22}"
        then have "[c] \<in> lang (Seq string_char string_rest)"
          by (intro one_string_char) (simp add: string_char_lang)
        with match_priority [OF m(1), of 17 "Seq string_char string_rest"] 5 c show False by simp
      qed
      ultimately have bs: "c = 0x5C" by auto
      have n: "n = 1" using w(4) c by simp
      have t: "t = [0x5C]"
      proof (rule ccontr)
        assume "t \<noteq> [0x5C]"
        then obtain d u where t: "t = 0x5C # d # u" using td c bs by (cases t; cases "tl t") auto
        have "take 2 t \<in> lang string_char" if "d \<noteq> 0x0A"
          using that less.prems unfolding string_char_lang by (simp add: t)
        then have "take 2 t \<in> lang (Seq string_char string_rest)" if "d \<noteq> 0x0A"
          using that one_string_char by blast
        moreover have "take 2 t \<in> lang (Seq (Atom Backslash) (Atom Newline))" if "d = 0x0A"
          unfolding lang_Seq by (rule exI [of _ "[0x5C]"], rule exI [of _ "[0x0A]"]) (simp add: t that member_def)
        ultimately have "2 \<le> n"
          using match_longest [OF m(1), of 17 _ 2] match_longest [OF m(1), of 18 _ 2] by (cases "d = 0x0A") (auto simp: t)
        with n show False by simp
      qed
      have "match_effect act ?w STRING x = (False, STRING, x\<lparr>chars := chars x @ ?w, place := advance (place x) ?w\<rparr>)"
        using 5 by (simp add: match_effect_def rule_effect_def)
      from go [OF this] have "lex STRING x t = lex STRING (x\<lparr>chars := chars x @ ?w, place := advance (place x) ?w\<rparr>) []"
        by (simp add: t n)
      then show ?thesis by (simp add: t lex_Nil at_end_def)
    qed
  qed
qed

section \<open>How the tokens begin\<close>

lemma munch_append: "dfa_run q u \<noteq> 78 \<Longrightarrow> \<exists>best'. munch q (u @ t) n best = munch (dfa_run q u) t (n + length u) best'"
proof (induction u arbitrary: q n best)
  case (Cons b u)
  have "dfa_next q (yy_class b) \<noteq> 78"
  proof
    assume "dfa_next q (yy_class b) = 78"
    with Cons.prems show False by simp
  qed
  with Cons.IH [of "dfa_next q (yy_class b)" "Suc n"] Cons.prems show ?case by (simp add: Let_def)
qed auto

lemma yy_class_newline: "yy_class b = 3 \<longleftrightarrow> b = 0x0A"
  using class_member [of Newline b] by (simp add: member_def word_unat_eq_iff)

lemma dfa_next_rows: "dfa_next q c = dfa_row q ! c"
  by (simp add: dfa_next_def dfa_row_def)

lemma start_INITIAL: "start_state INITIAL = 1"
  by (simp add: start_state_def)

text \<open>The states on the way through an opening quote and an opening bracket.\<close>

lemma open_states:
  "dfa_next (start_state INITIAL) (yy_class 0x22) = 15" "dfa_next (start_state INITIAL) (yy_class 0x5B) = 21" "dfa_next (start_state INITIAL) (yy_class 0x23) = 16" "dfa_next 16 (yy_class 0x5B) = 40"
  "dfa_next 21 (yy_class 0x3D) = 46" "dfa_next 40 (yy_class 0x3D) = 61" "dfa_next 46 (yy_class 0x3D) = 46" "dfa_next 61 (yy_class 0x3D) = 61"
  "dfa_next 21 (yy_class 0x5B) = 47" "dfa_next 40 (yy_class 0x5B) = 47" "dfa_next 46 (yy_class 0x5B) = 47" "dfa_next 61 (yy_class 0x5B) = 47"
  "dfa_next 47 (yy_class 0x0A) = 69" "yy_accept ! 15 = 16" "yy_base ! 15 = 298" "yy_accept ! 47 = 2" "yy_accept ! 69 = 2" "yy_base ! 69 = 298"
  by (simp_all add: start_INITIAL yy_class_char ec_of_def dfa_next_rows row_entries yy_accept_def yy_base_def)

lemma after_open: "b \<noteq> 0x0A \<Longrightarrow> dfa_next 47 (yy_class b) = 78"
proof -
  assume "b \<noteq> 0x0A"
  then have "yy_class b \<noteq> 3" by (simp add: yy_class_newline)
  moreover have "list_all (\<lambda>(c, q). c = 0 \<or> c = 3 \<or> q = 78) (enumerate 0 (dfa_row 47))" "length (dfa_row 47) = 17"
    by (simp_all add: row_entries)
  ultimately show ?thesis
    using yy_class_bounds [of b] by (auto simp: dfa_next_rows list_all_length nth_enumerate_eq)
qed

lemma open_run: "dfa_run (start_state INITIAL) (open_text hash k False) = 47"
proof -
  have "dfa_run q (replicate j 0x3D) = q" if "q = 46 \<or> q = 61" for q j
    using that by (induction j) (auto simp: open_states)
  then show ?thesis by (cases k) (auto simp: open_text_def open_states)
qed

lemma munch_full: "input_state q \<Longrightarrow> yy_base ! q = 298 \<Longrightarrow> yy_accept ! q \<noteq> 0 \<Longrightarrow> munch q t n best = (yy_accept ! q, n)"
  by (cases t) (simp_all add: full_state Let_def)

lemma munch_open:
  "munch (start_state INITIAL) (open_text hash k False @ t) 0 best = (2, length (open_text hash k False) + (if t \<noteq> [] \<and> hd t = 0x0A then 1 else 0))"
proof -
  obtain best' where b: "munch (start_state INITIAL) (open_text hash k False @ t) 0 best = munch 47 t (length (open_text hash k False)) best'"
    using munch_append [of "start_state INITIAL" "open_text hash k False" t 0 best] by (auto simp: open_run)
  show ?thesis
  proof (cases t)
    case Nil
    with b show ?thesis by (simp add: open_states)
  next
    case (Cons c t)
    show ?thesis
    proof (cases "c = 0x0A")
      case True
      have "input_state 69" by (simp add: input_state_def)
      with True Cons b show ?thesis by (simp add: open_states munch_full Let_def)
    next
      case False
      with Cons b show ?thesis by (simp add: open_states after_open Let_def)
    qed
  qed
qed

text \<open>The first line feed of a bracket argument is not part of it.\<close>

fun drop_newline :: "byte list \<Rightarrow> byte list" where
  "drop_newline [] = []"
| "drop_newline (c # t) = (if c = 0x0A then t else c # t)"

lemma lex_open_bracket:
  "lex INITIAL x (open_text hash k False @ t) = lex BRACKET
     (x\<lparr>kind := if hash then Token_CommentBracket else Token_ArgumentBracket, chars := [], starts := place x, brackets := k + 1,
        place := advance (place x) (open_text hash k (t \<noteq> [] \<and> hd t = 0x0A))\<rparr>) (drop_newline t)"
proof -
  let ?o = "open_text hash k False" and ?nl = "t \<noteq> [] \<and> hd t = 0x0A"
  let ?n = "length ?o + (if ?nl then 1 else 0)" and ?t = "?o @ t"
  have ne: "?t \<noteq> []" "?n \<noteq> 0" by (simp_all add: open_text_def)
  have w: "take ?n ?t = open_text hash k ?nl" "drop ?n ?t = drop_newline t" by (cases t; simp add: open_text_def)+
  have f: "length (filter (\<lambda>b. b = 0x3D) (open_text hash k nl)) = k" "(hd (open_text hash k nl) = 0x23) = hash" for nl
    by (simp_all add: open_text_def)
  have "lex INITIAL x ?t = (case match_effect 2 (open_text hash k ?nl) INITIAL x of (d, sc, x) \<Rightarrow>
      if d then (True, sc, x, drop ?n ?t) else lex sc x (drop ?n ?t))"
    using ne unfolding lex.simps [of INITIAL x ?t] munch_open by (simp only: w prod.case if_False)
  also have "match_effect 2 (open_text hash k ?nl) INITIAL x = (False, BRACKET, x\<lparr>kind := if hash then Token_CommentBracket else Token_ArgumentBracket,
      chars := [], starts := place x, brackets := k + 1, place := advance (place x) (open_text hash k ?nl)\<rparr>)"
    by (simp add: match_effect_def rule_effect_def f begin_token_def)
  finally show ?thesis by (simp only: prod.case if_False w(2))
qed

lemma lex_open_quote:
  "lex INITIAL x (0x22 # t)
     = lex STRING (x\<lparr>kind := Token_ArgumentQuoted, chars := [], starts := place x, place := advance (place x) [0x22]\<rparr>) t"
proof -
  have "input_state 15" by (simp add: input_state_def)
  moreover have "yy_accept ! start_state INITIAL = 0" by (simp add: start_INITIAL yy_accept_def)
  ultimately have m: "munch (start_state INITIAL) (0x22 # t) 0 (0, 0) = (16, 1)"
    by (simp add: open_states munch_full Let_def)
  have "match_effect 16 (take 1 (0x22 # t)) INITIAL x = (False, STRING, x\<lparr>kind := Token_ArgumentQuoted, chars := [], starts := place x,
      place := advance (place x) [0x22]\<rparr>)"
    by (simp add: match_effect_def rule_effect_def begin_token_def)
  then show ?thesis unfolding lex.simps [of INITIAL x "0x22 # t"] m by simp
qed

section \<open>Bracket arguments\<close>

definition closing :: "nat \<Rightarrow> byte list" where
  "closing k = [0x5D] @ replicate k 0x3D @ [0x5D]"

text \<open>The text before the first closing bracket with \<open>k\<close> equal signs, and what follows.\<close>

fun bracket_end :: "nat \<Rightarrow> byte list \<Rightarrow> (byte list \<times> byte list) option" where
  "bracket_end k [] = None"
| "bracket_end k (c # t) =
     (if take (k + 2) (c # t) = closing k then Some ([], drop (k + 2) (c # t))
      else map_option (apfst ((#) c)) (bracket_end k t))"

lemma bracket_end_skip: "0x5D \<notin> set w \<Longrightarrow> bracket_end k (w @ t) = map_option (apfst ((@) w)) (bracket_end k t)"
proof (induction w)
  case Nil
  then show ?case by (cases "bracket_end k t") auto
next
  case (Cons c w)
  then have "take (k + 2) ((c # w) @ t) \<noteq> closing k" by (auto simp: closing_def)
  with Cons show ?case by (cases "bracket_end k t") (auto simp del: take_Suc_Cons)
qed

lemma closing_here:
  assumes "t = [] \<or> hd t \<noteq> 0x3D"
  shows "take (k + 2) (0x5D # replicate e 0x3D @ t) = closing k \<longleftrightarrow> e = k \<and> t \<noteq> [] \<and> hd t = 0x5D"
proof
  assume c: "take (k + 2) (0x5D # replicate e 0x3D @ t) = closing k"
  then have r: "take (k + 1) (replicate e 0x3D @ t) = replicate k 0x3D @ [0x5D]" by (simp add: closing_def)
  have "e = k"
  proof (rule linorder_cases)
    assume "e < k"
    then have "(replicate e 0x3D @ t) ! e = 0x3D" "e < length (replicate e 0x3D @ t)"
      using arg_cong [OF r, of "\<lambda>l. l ! e"] arg_cong [OF r, of length] by (auto simp: nth_append)
    with assms show ?thesis by (auto simp: nth_append hd_conv_nth)
  next
    assume "k < e"
    then have "take (k + 1) (replicate e 0x3D @ t) = replicate (k + 1) 0x3D" by (simp add: min_def)
    from arg_cong [OF this, of last] have "(0x5D :: byte) = 0x3D" unfolding r by (simp only: last_replicate last_snoc)
    then show ?thesis by simp
  qed
  with r show "e = k \<and> t \<noteq> [] \<and> hd t = 0x5D" by (cases t) auto
next
  assume "e = k \<and> t \<noteq> [] \<and> hd t = 0x5D"
  then show "take (k + 2) (0x5D # replicate e 0x3D @ t) = closing k" by (cases t) (auto simp: closing_def)
qed

lemma bracket_end_run:
  assumes "t = [] \<or> hd t \<noteq> 0x3D" and "\<not> (e = k \<and> t \<noteq> [] \<and> hd t = 0x5D)"
  shows "bracket_end k ((0x5D # replicate e 0x3D) @ t) = map_option (apfst ((@) (0x5D # replicate e 0x3D))) (bracket_end k t)"
proof -
  have "bracket_end k (replicate e 0x3D @ t) = map_option (apfst ((@) (replicate e 0x3D))) (bracket_end k t)"
    by (rule bracket_end_skip) simp
  with closing_here [OF assms(1), of k e] assms(2) show ?thesis
    by (cases "bracket_end k t") (auto simp del: take_Suc_Cons)
qed

lemma run_lang: "w \<in> lang (Seq (Atom RBracket) (Star (Atom Equals))) \<longleftrightarrow> (\<exists>e. w = 0x5D # replicate e 0x3D)"
proof -
  have "(\<forall>b\<in>set v. member Equals b) \<longleftrightarrow> (\<exists>e. v = replicate e 0x3D)" for v
  proof -
    have "member Equals b \<longleftrightarrow> b = 0x3D" for b by (simp add: member_def word_unat_eq_iff)
    then show ?thesis by (metis in_set_replicate replicate_length_same)
  qed
  moreover have "v \<in> lang (Atom RBracket) \<longleftrightarrow> v = [0x5D]" for v by (auto simp: member_def word_unat_eq_iff)
  ultimately show ?thesis unfolding lang_Seq lang_run by auto
qed

text \<open>The text of a bracket is closed by the first closing bracket of its length.\<close>

theorem lex_bracket:
  assumes "0 \<notin> set t" and "brackets x = k + 1"
  shows "case bracket_end k t of
      Some (s, t') \<Rightarrow> \<exists>x'. lex BRACKET x t = (True, INITIAL, x', t') \<and> kind x' = kind x \<and> chars x' = chars x @ s \<and> starts x' = starts x
    | None \<Rightarrow> \<exists>x'. lex BRACKET x t = (True, INITIAL, x', []) \<and> kind x' = Token_BadBracket \<and> starts x' = starts x"
  using assms
proof (induction "length t" arbitrary: t x rule: less_induct)
  case less
  show ?case
  proof (cases "t = []")
    case True
    then show ?thesis by (simp add: lex_Nil at_end_def)
  next
    case False
    note t0 = False
    obtain act n where m: "longest_match BRACKET t act n" "0 < n" using longest_match_exists [OF False] by blast
    let ?w = "take n t" and ?t = "drop n t"
    note w = match_shape [OF m less.prems(1)]
    have td: "t = ?w @ ?t" by simp
    obtain r where r: "(act, r) \<in> set (rules BRACKET)" "?w \<in> lang r" using match_rule [OF m(1)] by blast
    have more: ?thesis
      if l: "lex BRACKET x t = lex BRACKET (x\<lparr>chars := chars x @ v, place := p\<rparr>) u" and u: "t = v @ u" "v \<noteq> []"
        and b: "bracket_end k t = map_option (apfst ((@) v)) (bracket_end k u)" for v u p
    proof -
      have "length u < length t" "0 \<notin> set u" using u less.prems(1) by auto
      from less.hyps [OF this, of "x\<lparr>chars := chars x @ v, place := p\<rparr>"] less.prems(2) b show ?thesis
        by (cases "bracket_end k u") (auto simp: l)
    qed
    consider "act = 8" | "act = 10" | "act = 11" | "act = 12" using r(1) w(1) by auto
    then show ?thesis
    proof cases
      case 1
      with r have in8: "?w \<in> lang (Seq (Atom RBracket) (Star (Atom Equals)))" by auto
      then obtain e where e: "?w = 0x5D # replicate e 0x3D" unfolding run_lang by blast
      have next': "?t = [] \<or> hd ?t \<noteq> 0x3D"
      proof (rule ccontr)
        assume "\<not> (?t = [] \<or> hd ?t \<noteq> 0x3D)"
        then have "n < length t" "t ! n = 0x3D" by (auto simp: hd_drop_conv_nth)
        then have "take (Suc n) t = 0x5D # replicate (Suc e) 0x3D" using e by (simp add: take_Suc_conv_app_nth replicate_append_same)
        then have "take (Suc n) t \<in> lang (Seq (Atom RBracket) (Star (Atom Equals)))" unfolding run_lang by blast
        with match_longest [OF m(1), of 8 _ "Suc n"] \<open>n < length t\<close> show False by auto
      qed
      let ?x = "x\<lparr>chars := chars x @ ?w, place := advance (place x) ?w\<rparr>"
      have app: "match_effect 8 ?w BRACKET x = (False, if e = k then BRACKETEND else BRACKET, ?x)"
        using less.prems(2) e by (simp add: match_effect_def rule_effect_def)
      have step: "lex BRACKET x t = lex (if e = k then BRACKETEND else BRACKET) ?x ?t"
        using lex_step [OF False m(1), of x] 1 by (simp only: app prod.case if_False)
      note run = bracket_end_run [OF next', of e k, folded e]
      show ?thesis
      proof (cases "e = k \<and> ?t \<noteq> []")
        case False
        show ?thesis
        proof (cases "?t = []")
          case True
          with run have "bracket_end k t = None" by (metis append_Nil2 append_take_drop_id bracket_end.simps(1) option.map(1))
          moreover have "lex BRACKET x t = (True, INITIAL, ?x\<lparr>kind := Token_BadBracket\<rparr>, []) \<or> e \<noteq> k"
            using step True by (simp add: lex_Nil at_end_def)
          moreover have "lex BRACKET x t = (True, INITIAL, ?x\<lparr>kind := Token_BadBracket\<rparr>, []) \<or> e = k"
            using step True by (simp add: lex_Nil at_end_def)
          ultimately show ?thesis by auto
        next
          case more': False
          with False have "e \<noteq> k" by simp
          with step run show ?thesis by (intro more [of "advance (place x) ?w" ?w ?t]) (simp_all add: m(2) t0)
        qed
      next
        case True
        then obtain c u where t: "?t = c # u" by (cases ?t) auto
        have s1: "lex BRACKET x t = lex BRACKETEND ?x ?t" using step True by simp
        have z: "0 \<notin> set ?t" using less.prems(1) by (auto dest: in_set_dropD)
        obtain act2 n2 where m2: "longest_match BRACKETEND ?t act2 n2" "0 < n2" using longest_match_exists [of ?t BRACKETEND] t by auto
        obtain r2 where r2: "(act2, r2) \<in> set (rules BRACKETEND)" "take n2 ?t \<in> lang r2" using match_rule [OF m2(1)] by blast
        note w2 = match_shape [OF m2 z]
        have c: "take n2 ?t = [c]" "drop n2 ?t = u" "act2 \<in> {9, 11, 12}"
          using r2 w2(1) m2(2) unfolding t by (cases n2; auto)+
        have step2: "lex BRACKETEND ?x ?t = (case match_effect act2 [c] BRACKETEND ?x of (d, sc', x') \<Rightarrow>
            if d then (True, sc', x', u) else lex sc' x' u)"
        proof -
          have "?t \<noteq> []" using t by simp
          from lex_step [OF this m2(1), of ?x, unfolded c(1,2)] show ?thesis .
        qed
        show ?thesis
        proof (cases "c = 0x5D")
          case close: True
          have "act2 = 9"
            using match_priority [OF m2(1), of 9 "Atom RBracket"] c(1,3) close by (auto simp: member_def)
          then have "match_effect act2 [c] BRACKETEND ?x = (True, INITIAL, x\<lparr>chars := chars x, place := advance (advance (place x) ?w) [c]\<rparr>)"
            using True less.prems(2) e by (simp add: match_effect_def rule_effect_def)
          then have "lex BRACKET x t = (True, INITIAL, x\<lparr>chars := chars x, place := advance (advance (place x) ?w) [c]\<rparr>, u)"
            by (simp only: s1 step2 prod.case if_True)
          moreover have "bracket_end k t = Some ([], u)"
          proof -
            have "take (k + 2) (0x5D # replicate e 0x3D @ ?t) = closing k" using closing_here [OF next', of k e] True t close by simp
            moreover have "drop (k + 2) (0x5D # replicate e 0x3D @ ?t) = u" using True by (simp add: t)
            moreover have "t = 0x5D # replicate e 0x3D @ ?t" using td e by simp
            ultimately show ?thesis by (metis bracket_end.simps(2))
          qed
          ultimately show ?thesis by simp
        next
          case other: False
          then have "act2 \<noteq> 9" using r2 c(1) by (auto simp: member_def word_unat_eq_iff)
          then have "match_effect act2 [c] BRACKETEND ?x = (False, BRACKET, x\<lparr>chars := chars x @ (?w @ [c]), place := advance (advance (place x) ?w) [c]\<rparr>)"
            using c(3) by (auto simp: match_effect_def rule_effect_def)
          then have "lex BRACKET x t = lex BRACKET (x\<lparr>chars := chars x @ (?w @ [c]), place := advance (advance (place x) ?w) [c]\<rparr>) u"
            by (simp only: s1 step2 prod.case if_False)
          moreover have "t = (?w @ [c]) @ u" using td t by simp
          moreover have "bracket_end k t = map_option (apfst ((@) (?w @ [c]))) (bracket_end k u)"
          proof -
            have "\<not> (e = k \<and> ?t \<noteq> [] \<and> hd ?t = 0x5D)" using t other by simp
            from run [OF this] have "bracket_end k t = map_option (apfst ((@) ?w)) (bracket_end k ?t)" by (simp only: append_take_drop_id)
            also have "bracket_end k ?t = map_option (apfst ((@) [c])) (bracket_end k u)"
              unfolding t using bracket_end_skip [of "[c]" k u] other by simp
            finally show ?thesis by (cases "bracket_end k u") auto
          qed
          ultimately show ?thesis by (intro more [of "advance (advance (place x) ?w) [c]" "?w @ [c]" u]) simp_all
        qed
      qed
    next
      case 2
      then have "0x5D \<notin> set ?w" using r avoids_lang [of "0x5D" r ?w] by auto
      from bracket_end_skip [OF this, of k ?t] show ?thesis
        using lex_step [OF False m(1), of x] 2 w(3)
        by (intro more [of "advance (place x) ?w" ?w ?t]) (simp_all add: match_effect_def rule_effect_def)
    next
      case 3
      then have "0x5D \<notin> set ?w" using w(5) by simp
      from bracket_end_skip [OF this, of k ?t] show ?thesis
        using lex_step [OF False m(1), of x] 3 w(3)
        by (intro more [of "advance (place x) ?w" ?w ?t]) (simp_all add: match_effect_def rule_effect_def)
    next
      case 4
      then obtain c where c: "?w = [c]" using r by auto
      have "c \<noteq> 0x5D"
      proof
        assume "c = 0x5D"
        then have "?w = [c] @ [] \<and> [c] \<in> lang (Atom RBracket) \<and> [] \<in> lang (Star (Atom Equals))"
          using c by (simp add: member_def star_Nil)
        then have "?w \<in> lang (Seq (Atom RBracket) (Star (Atom Equals)))" unfolding lang_Seq by blast
        with match_priority [OF m(1), of 8] 4 show False by simp
      qed
      then have "0x5D \<notin> set ?w" using c by simp
      from bracket_end_skip [OF this, of k ?t] show ?thesis
        using lex_step [OF False m(1), of x] 4 w(3)
        by (intro more [of "advance (place x) ?w" ?w ?t]) (simp_all add: match_effect_def rule_effect_def)
    qed
  qed
qed

end
