(* ===== verification/ListFileApi.thy ===== *)
theory ListFileApi
  imports ListFileArguments
begin

text \<open>
  The interface of \<^verbatim>\<open>LexerParser/cmListFileLexer.c\<close>: lexers are made and deleted, get a file or a string
  to read, with the byte order mark of a file, and scan it token by token.

  The scanner of a lexer is \<^term>\<open>None\<close> when there is none, or when it has been destroyed and the pointer
  to it is stale; using it then is undefined.  Whether an allocation that the code checks succeeds is a
  parameter, and so is \<open>fopen\<close>.
\<close>

section \<open>Byte order marks\<close>

datatype cmListFileLexer_BOM = BOM_None | BOM_Broken | BOM_UTF8 | BOM_UTF16BE | BOM_UTF16LE | BOM_UTF32BE | BOM_UTF32LE

text \<open>\<open>fseek\<close> and \<open>fsetpos\<close> fail on a stream that is not seekable.\<close>

definition fseek_to :: "nat \<Rightarrow> stream \<Rightarrow> stream option" where
  "fseek_to p f = (if seekable f then Some (f\<lparr>position := p\<rparr>) else None)"

definition ReadBOM :: "stream \<Rightarrow> cmListFileLexer_BOM \<times> stream" where
  "ReadBOM f =
     (let rewind = (\<lambda>f. case fseek_to 0 f of None \<Rightarrow> (BOM_Broken, f) | Some f \<Rightarrow> (BOM_None, f));
          (b, f) = fread f 2
      in if length b = 2
         then if b ! 0 = 0xEF \<and> b ! 1 = 0xBB
              then let (c, f) = fread f 1 in if length c = 1 \<and> c ! 0 = 0xBF then (BOM_UTF8, f) else rewind f
              else if b ! 0 = 0xFE \<and> b ! 1 = 0xFF then (BOM_UTF16BE, f)
              else if b ! 0 = 0 \<and> b ! 1 = 0
              then let (c, f) = fread f 2 in if length c = 2 \<and> c ! 0 = 0xFE \<and> c ! 1 = 0xFF then (BOM_UTF32BE, f) else rewind f
              else if b ! 0 = 0xFF \<and> b ! 1 = 0xFE
              then let p = position f; (c, f) = fread f 2
                   in if length c = 2 \<and> c ! 0 = 0 \<and> c ! 1 = 0 then (BOM_UTF32LE, f)
                      else (case fseek_to p f of None \<Rightarrow> (BOM_Broken, f) | Some f \<Rightarrow> (BOM_UTF16LE, f))
              else rewind f
         else rewind f)"

section \<open>Lexers\<close>

definition cmListFileLexerInit :: "cmListFileLexer \<Rightarrow> cmListFileLexer" where
  "cmListFileLexerInit lexer =
     (if input_file lexer \<noteq> None \<or> string_buffer lexer \<noteq> None then lexer\<lparr>scanner := Some yylex_init\<rparr> else lexer)"

definition cmListFileLexerDestroy :: "cmListFileLexer \<Rightarrow> cmListFileLexer option" where
  "cmListFileLexerDestroy lexer =
     do { lexer \<leftarrow> cmListFileLexerSetToken lexer None 0;
          if input_file lexer \<noteq> None \<or> string_buffer lexer \<noteq> None
          then do { g \<leftarrow> scanner lexer;
                    let lexer = lexer\<lparr>scanner := None, input_file := None\<rparr>;
                    Some (if string_buffer lexer \<noteq> None
                          then lexer\<lparr>string_buffer := None, string_left := 0, string_position := 0\<rparr> else lexer) }
          else Some lexer }"

definition cmListFileLexer_New :: "bool \<Rightarrow> cmListFileLexer option" where
  "cmListFileLexer_New ok =
     (if ok
      then Some \<lparr>token = \<lparr>tok_type = Token_None, tok_text = None, tok_length = 0, tok_line = 0, tok_column = 0\<rparr>,
        bracket = 0, comment = False, line = 1, column = 1, size = 0, input_file = None, cr = 0, string_buffer = None,
        string_position = 0, string_left = 0, scanner = None\<rparr>
      else None)"

text \<open>\<open>name\<close> may be null; \<open>want_bom\<close> is whether the caller passes a place for the mark.\<close>

definition SetFileName ::
  "(byte list \<Rightarrow> stream option) \<Rightarrow> cmListFileLexer \<Rightarrow> byte list option \<Rightarrow> bool \<Rightarrow>
     (int \<times> cmListFileLexer_BOM option \<times> cmListFileLexer) option" where
  "SetFileName fopen lexer name want_bom =
     do { lexer \<leftarrow> cmListFileLexerDestroy lexer;
          let (result, bom, lexer) = (case name of
              None \<Rightarrow> (1, None, lexer)
            | Some name \<Rightarrow> (case fopen name of
                None \<Rightarrow> (0, None, lexer)
              | Some f \<Rightarrow> if want_bom then let (bom, f) = ReadBOM f in (1, Some bom, lexer\<lparr>input_file := Some f\<rparr>)
                          else (1, None, lexer\<lparr>input_file := Some f\<rparr>)));
          Some (result, bom, cmListFileLexerInit lexer) }"

text \<open>\<open>text\<close> is a string with its terminator, or null.\<close>

definition SetString :: "bool \<Rightarrow> cmListFileLexer \<Rightarrow> byte list option \<Rightarrow> (int \<times> cmListFileLexer) option" where
  "SetString ok lexer text =
     do { lexer \<leftarrow> cmListFileLexerDestroy lexer;
          (result, lexer) \<leftarrow> (case text of
              None \<Rightarrow> Some (1, lexer)
            | Some s \<Rightarrow> do { str \<leftarrow> c_string s;
                            if ok then Some (1, lexer\<lparr>string_buffer := Some (str @ [0]), string_position := 0, string_left := length str\<rparr>)
                            else Some (0, lexer) });
          Some (result, cmListFileLexerInit lexer) }"

text \<open>The token, if there is one; at the end of the input the input is closed.\<close>

definition Scan :: "cmListFileLexer \<Rightarrow> (cmListFileLexer_Token option \<times> cmListFileLexer) option" where
  "Scan lexer =
     (if input_file lexer = None \<and> string_buffer lexer = None then Some (None, lexer)
      else do { g \<leftarrow> scanner lexer;
                (v, g, lexer) \<leftarrow> yylex g lexer;
                let lexer = lexer\<lparr>scanner := Some g\<rparr>;
                if v \<noteq> 0 then Some (Some (token lexer), lexer)
                else do { (result, bom, lexer) \<leftarrow> SetFileName (\<lambda>name. None) lexer None False; Some (None, lexer) } })"

definition cmListFileLexer_Delete :: "cmListFileLexer \<Rightarrow> unit option" where
  "cmListFileLexer_Delete lexer = do { (result, bom, lexer) \<leftarrow> SetFileName (\<lambda>name. None) lexer None False; Some () }"

definition GetCurrentLine :: "cmListFileLexer \<Rightarrow> int" where "GetCurrentLine lexer = line lexer"

definition GetCurrentColumn :: "cmListFileLexer \<Rightarrow> int" where "GetCurrentColumn lexer = column lexer"

fun GetTypeAsString :: "token_type \<Rightarrow> string" where
  "GetTypeAsString Token_None = ''nothing''"
| "GetTypeAsString Token_Space = ''space''"
| "GetTypeAsString Token_Newline = ''newline''"
| "GetTypeAsString Token_Identifier = ''identifier''"
| "GetTypeAsString Token_ParenLeft = ''left paren''"
| "GetTypeAsString Token_ParenRight = ''right paren''"
| "GetTypeAsString Token_ArgumentUnquoted = ''unquoted argument''"
| "GetTypeAsString Token_ArgumentQuoted = ''quoted argument''"
| "GetTypeAsString Token_ArgumentBracket = ''bracket argument''"
| "GetTypeAsString Token_CommentBracket = ''bracket comment''"
| "GetTypeAsString Token_BadCharacter = ''bad character''"
| "GetTypeAsString Token_BadBracket = ''unterminated bracket''"
| "GetTypeAsString Token_BadString = ''unterminated string''"

end
