(* ===== verification/ListFileSession.thy ===== *)
theory ListFileSession
  imports ListFileApi
begin

text \<open>
  Scanning with the interface of \<^verbatim>\<open>LexerParser/cmListFileLexer.c\<close>: where tokens start, that a token has
  a text, and that \<open>cmListFileLexer_Scan\<close> returns the tokens of the text, one after the other.
\<close>

section \<open>Where tokens start, and in which condition they end\<close>

definition inside :: "condition \<Rightarrow> bool" where
  "inside sc \<longleftrightarrow> sc = STRING \<or> sc = BRACKET \<or> sc = BRACKETEND"

lemma effect_starts:
  assumes "(act, r) \<in> set (rules sc)" and e: "match_effect act w sc x = (d, sc', x')"
  shows "if inside sc then starts x' = starts x \<and> (d \<or> inside sc') else
      (d \<longrightarrow> starts x' = place x) \<and> (inside sc' \<longrightarrow> starts x' = place x)"
    and "d \<Longrightarrow> sc' = INITIAL"
  using assms by (cases sc; auto simp: inside_def match_effect_def rule_effect_def begin_token_def split: if_splits)+

lemma lex_inside:
  assumes "lex sc x t = (d, sc', x', t')" and "inside sc"
  shows "d \<and> starts x' = starts x"
  using assms
proof (induction "length t" arbitrary: sc x t rule: less_induct)
  case less
  show ?case
  proof (cases "t = []")
    case True
    with less.prems show ?thesis by (auto simp: lex_Nil at_end_def inside_def split: if_splits)
  next
    case False
    obtain act n where m: "longest_match sc t act n" "0 < n" using longest_match_exists [OF False] by blast
    obtain r where r: "(act, r) \<in> set (rules sc)" using match_rule [OF m(1)] by blast
    obtain d1 sc1 x1 where e: "match_effect act (take n t) sc x = (d1, sc1, x1)" by (cases "match_effect act (take n t) sc x")
    note step = lex_step [OF False m(1), of x, unfolded e prod.case, unfolded less.prems(1)]
    note eff = effect_starts(1) [OF r e]
    show ?thesis
    proof (cases d1)
      case True
      with step eff less.prems(2) show ?thesis by simp
    next
      case False
      with step have l: "lex sc1 x1 (drop n t) = (d, sc', x', t')" by simp
      from False eff less.prems(2) have i: "inside sc1" "starts x1 = starts x" by simp_all
      from less.hyps [OF _ l i(1)] m(2) \<open>t \<noteq> []\<close> i(2) show ?thesis by simp
    qed
  qed
qed

lemma lex_token:
  assumes "lex sc x t = (True, sc', x', t')" and "\<not> inside sc"
  shows "\<exists>v u. t = v @ u @ t' \<and> u \<noteq> [] \<and> starts x' = advance (place x) v \<and> place x' = advance (place x) (v @ u)"
  using assms
proof (induction "length t" arbitrary: sc x t rule: less_induct)
  case less
  show ?case
  proof (cases "t = []")
    case True
    with less.prems show ?thesis by (auto simp: lex_Nil at_end_def inside_def split: if_splits)
  next
    case False
    obtain act n where m: "longest_match sc t act n" "0 < n" using longest_match_exists [OF False] by blast
    obtain r where r: "(act, r) \<in> set (rules sc)" using match_rule [OF m(1)] by blast
    obtain d1 sc1 x1 where e: "match_effect act (take n t) sc x = (d1, sc1, x1)" by (cases "match_effect act (take n t) sc x")
    have w: "take n t \<noteq> []" "t = take n t @ drop n t" using m(2) False by simp_all
    note step = lex_step [OF False m(1), of x, unfolded e prod.case, unfolded less.prems(1)]
    note eff = effect_starts(1) [OF r e] and p = effect_place [OF e]
    show ?thesis
    proof (cases d1)
      case True
      with step eff less.prems(2) p w show ?thesis by (intro exI [of _ "[]"] exI [of _ "take n t"]) simp
    next
      case not_done: False
      with step have l: "lex sc1 x1 (drop n t) = (True, sc', x', t')" by simp
      show ?thesis
      proof (cases "inside sc1")
        case True
        obtain u where u: "drop n t = u @ t'" "place x' = advance (place x1) u" using lex_place [OF l] by blast
        have "starts x' = place x" using lex_inside [OF l True] eff True less.prems(2) not_done by simp
        moreover have "t = (take n t @ u) @ t'" using u(1) w(2) by simp
        ultimately show ?thesis using u(2) p w(1) by (intro exI [of _ "[]"] exI [of _ "take n t @ u"]) simp
      next
        case False
        from less.hyps [OF _ l False] m(2) \<open>t \<noteq> []\<close> obtain v u where v: "drop n t = v @ u @ t'" "u \<noteq> []"
          "starts x' = advance (place x1) v" "place x' = advance (place x1) (v @ u)" by auto
        have "t = (take n t @ v) @ u @ t'" using v(1) w(2) by simp
        with v p show ?thesis by - (rule exI [of _ "take n t @ v"], rule exI [of _ u], simp only: advance_simps(3) append.assoc simp_thms)
      qed
    qed
  qed
qed

lemma lex_done: "lex sc x t = (True, sc', x', t') \<Longrightarrow> sc' = INITIAL"
proof (induction "length t" arbitrary: sc x t rule: less_induct)
  case less
  show ?case
  proof (cases "t = []")
    case True
    with less.prems show ?thesis by (auto simp: lex_Nil at_end_def split: if_splits)
  next
    case False
    obtain act n where m: "longest_match sc t act n" "0 < n" using longest_match_exists [OF False] by blast
    obtain r where r: "(act, r) \<in> set (rules sc)" using match_rule [OF m(1)] by blast
    obtain d1 sc1 x1 where e: "match_effect act (take n t) sc x = (d1, sc1, x1)" by (cases "match_effect act (take n t) sc x")
    note step = lex_step [OF False m(1), of x, unfolded e prod.case, unfolded less.prems]
    show ?thesis
    proof (cases d1)
      case True
      with step effect_starts(2) [OF r e] show ?thesis by simp
    next
      case False
      with step have "lex sc1 x1 (drop n t) = (True, sc', x', t')" by simp
      from less.hyps [OF _ this] m(2) \<open>t \<noteq> []\<close> show ?thesis by simp
    qed
  qed
qed

section \<open>The scanner on texts without zero bytes\<close>

lemma represents_core [simp]: "represents (core c) x = represents c x"
  by (simp add: represents_def token_is_def holds_text_def pos_def tok_pos_def)

text \<open>The lexer is between two tokens, in front of the text \<open>t\<close>.\<close>

definition before_text :: "cmListFileLexer \<Rightarrow> byte list \<Rightarrow> lexeme \<Rightarrow> bool" where
  "before_text l t x \<longleftrightarrow> (\<exists>g. scanner l = Some g \<and> scans g l t \<and> start_of g = start_state INITIAL) \<and> represents l x
     \<and> (input_file l \<noteq> None \<or> string_buffer l \<noteq> None)"

lemma Destroy_closes:
  assumes "represents l x" and "input_file l = None \<and> string_buffer l = None \<or> scanner l \<noteq> None"
  shows "\<exists>l'. cmListFileLexerDestroy l = Some l' \<and> input_file l' = None \<and> string_buffer l' = None \<and> string_left l' = (if string_buffer l = None then string_left l else 0)
    \<and> cr l' = cr l \<and> represents l' (begin_token (kind x) [] x)"
proof -
  have "\<exists>l'. cmListFileLexerSetToken l None 0 = Some l' \<and> represents l' (begin_token (kind x) [] x) \<and> source l' = source l \<and> scanner l' = scanner l"
    using assms(1) by (cases "tok_text (token l)")
      (auto simp: cmListFileLexerSetToken_def Let_def represents_def begin_token_def token_is_def holds_text_def pos_def tok_pos_def source_def)
  then obtain l1 where l1: "cmListFileLexerSetToken l None 0 = Some l1" "represents l1 (begin_token (kind x) [] x)" "source l1 = source l" "scanner l1 = scanner l"
    by blast
  show ?thesis
    using l1 assms(2)
    by (auto simp: cmListFileLexerDestroy_def source_def represents_def token_is_def holds_text_def pos_def tok_pos_def)
qed

section \<open>A token has a text\<close>

lemma SetToken_text: "cmListFileLexerSetToken c (Some s) n = Some c' \<Longrightarrow> tok_text (token c') \<noteq> None"
  by (auto simp: cmListFileLexerSetToken_def Let_def bind_eq_Some_conv split: option.splits if_splits)

lemma Append_text: "cmListFileLexerAppend c s n = Some c' \<Longrightarrow> tok_text (token c') \<noteq> None"
  by (auto simp: cmListFileLexerAppend_def Let_def bind_eq_Some_conv split: if_splits)

lemma simple_text:
  "simple_token k w c = Some c' \<Longrightarrow> tok_text (token c') \<noteq> None" "append_text w c = Some c' \<Longrightarrow> tok_text (token c') \<noteq> None"
  "append_newline w c = Some c' \<Longrightarrow> tok_text (token c') \<noteq> None" "open_bracket w c = Some c' \<Longrightarrow> tok_text (token c') \<noteq> None"
  "close_bracket w c = Some c' \<Longrightarrow> tok_text (token c') \<noteq> None"
  by (auto simp: simple_token_def append_text_def append_newline_def open_bracket_def close_bracket_def Let_def bind_eq_Some_conv
      dest: SetToken_text Append_text split: if_splits)

lemma start_state_inj [simp]: "start_state sc = start_state sc' \<longleftrightarrow> sc = sc'"
  by (cases sc; cases sc') (simp_all add: start_state_def)

lemma action_text:
  assumes "rule_action act w (c, start_state sc, out) = Some (r, c', start_state sc', out')" and "(act, re) \<in> set (rules sc)"
    and "inside sc \<Longrightarrow> tok_text (token c) \<noteq> None" and "r \<noteq> None \<or> inside sc'"
  shows "tok_text (token c') \<noteq> None"
  using assms
  by (cases sc; auto simp: rule_action_def Let_def bind_eq_Some_conv inside_def begin_states dest: SetToken_text simple_text split: if_splits)

lemma scan_text_text:
  assumes "scan_text (start_state sc) c out t = Some (v, c', s', out', t')" and "inside sc \<Longrightarrow> tok_text (token c) \<noteq> None" and "v \<noteq> 0"
  shows "tok_text (token c') \<noteq> None"
  using assms(1,2)
proof (induction "length t" arbitrary: sc c out t rule: less_induct)
  case less
  show ?case
  proof (cases "t = []")
    case True
    show ?thesis
      using less.prems assms(3) by (cases sc)
        (auto simp: True start_state_def scan_text.simps [of _ _ _ "[]"] eof_action_def Let_def bind_eq_Some_conv inside_def split: if_splits)
  next
    case False
    obtain act n where m: "longest_match sc t act n" "0 < n" using longest_match_exists [OF False] by blast
    have mu: "munch (start_state sc) t 0 (0, 0) = (act, n)" using munch_is_longest [OF False m(1)] by blast
    obtain re where re: "(act, re) \<in> set (rules sc)" using match_rule [OF m(1)] by blast
    from less.prems(1) obtain r c1 s1 out1 where a: "rule_action act (take n t) (c, start_state sc, out) = Some (r, c1, s1, out1)"
      and rest: "(case r of Some v \<Rightarrow> Some (v, c1, s1, out1, drop n t) | None \<Rightarrow> scan_text s1 c1 out1 (drop n t)) = Some (v, c', s', out', t')"
      using False m(2) by (subst (asm) scan_text.simps) (auto simp: mu bind_eq_Some_conv)
    obtain sc1 where sc1: "s1 = start_state sc1" using rule_action_start(1) [OF a] by blast
    note has_text = action_text [OF a [unfolded sc1] re less.prems(2)]
    show ?thesis
    proof (cases r)
      case None
      with rest have "scan_text (start_state sc1) c1 out1 (drop n t) = Some (v, c', s', out', t')" by (simp add: sc1)
      from less.hyps [OF _ this] has_text m(2) \<open>t \<noteq> []\<close> show ?thesis by simp
    next
      case (Some v)
      with rest has_text show ?thesis by simp
    qed
  qed
qed

section \<open>Scanning\<close>

lemma represents_scanner [simp]: "represents (l\<lparr>scanner := s\<rparr>) x = represents l x"
  by (simp add: represents_def token_is_def holds_text_def pos_def tok_pos_def)

lemma scans_scanner [simp]: "scans g (l\<lparr>scanner := s\<rparr>) t = scans g l t"
  using ready_source [of source_text g l t g "l\<lparr>scanner := s\<rparr>"] ready_source [of source_text g "l\<lparr>scanner := s\<rparr>" t g l]
    lexer_source.source_only [of _ l _ "l\<lparr>scanner := s\<rparr>"] lexer_source.source_only [of _ "l\<lparr>scanner := s\<rparr>" _ l]
  by (auto simp: scans_def source_def)

lemma yylex_lex:
  assumes "scans g l t" and "start_of g = start_state sc" and "represents l x" and "lexing sc x" and "0 \<notin> set t"
    and "lex sc x t = (d, sc', x', t')"
  shows "\<exists>g' l'. yylex g l = Some (if d then 1 else 0, g', l') \<and> scans g' l' t' \<and> start_of g' = start_state sc'
    \<and> represents l' x' \<and> lexing sc' x' \<and> echoed g' = echoed g \<and> same_input l l'
    \<and> (d \<and> \<not> inside sc \<longrightarrow> tok_text (token l') \<noteq> None)"
proof -
  obtain c' where c': "scan_text (start_of g) (core l) (echoed g) t = Some (if d then 1 else 0, c', start_state sc', echoed g, t')"
    "represents c' x'" "lexing sc' x'"
    using scan_text_lex [of "core l" x sc t "echoed g"] assms by auto
  have "d \<and> \<not> inside sc \<longrightarrow> tok_text (token c') \<noteq> None"
    using scan_text_text [OF c'(1) [unfolded assms(2)]] by auto
  with yylex_refines [OF assms(1), unfolded c'(1)] c'(2,3) show ?thesis by auto
qed

lemma Scan_lex:
  assumes b: "before_text l t x" and z: "0 \<notin> set t" and e: "lex INITIAL x t = (d, sc, x', t')"
  shows "if d then \<exists>l'. Scan l = Some (Some (token l'), l') \<and> before_text l' t' x' \<and> holds_text l' (chars x')
     else \<exists>l'. Scan l = Some (None, l') \<and> input_file l' = None \<and> string_buffer l' = None \<and> represents l' (begin_token (kind x') [] x')"
proof -
  obtain g where g: "scanner l = Some g" "scans g l t" "start_of g = start_state INITIAL" "represents l x"
    "input_file l \<noteq> None \<or> string_buffer l \<noteq> None" using b by (auto simp: before_text_def)
  obtain g' l' where y: "yylex g l = Some (if d then 1 else 0, g', l')" "scans g' l' t'" "start_of g' = start_state sc" "represents l' x'"
    "same_input l l'" "d \<Longrightarrow> tok_text (token l') \<noteq> None" using yylex_lex [OF g(2,3,4) _ z e] by (auto simp: lexing_def inside_def)
  have open': "\<not> (input_file l = None \<and> string_buffer l = None)" using g(5) by auto
  let ?l = "l'\<lparr>scanner := Some g'\<rparr>"
  show ?thesis
  proof (cases d)
    case True
    then have "sc = INITIAL" using lex_done [of INITIAL x t sc x' t'] e by simp
    moreover have "Scan l = Some (Some (token ?l), ?l)"
      using open' g(1) y(1) True by (auto simp: Scan_def)
    moreover have "holds_text ?l (chars x')"
      using y(4) y(6) [OF True] by (auto simp: represents_def token_is_def holds_text_def)
    ultimately show ?thesis
      using True y(2-5) g(5) unfolding before_text_def same_input_def by (auto intro!: exI [of _ ?l])
  next
    case False
    obtain l2 where l2: "cmListFileLexerDestroy ?l = Some l2" "input_file l2 = None" "string_buffer l2 = None"
      "represents l2 (begin_token (kind x') [] x')"
      using Destroy_closes [of ?l x'] y(4) by auto
    have "Scan l = Some (None, l2)"
      using open' g(1) y(1) False l2(1-3) by (auto simp: Scan_def SetFileName_def cmListFileLexerInit_def)
    with False l2 show ?thesis by auto
  qed
qed

lemma New_represents:
  "cmListFileLexer_New True = Some l \<Longrightarrow>
     represents l \<lparr>kind = Token_None, chars = [], starts = (0, 0), brackets = 0, place = (1, 1)\<rparr> \<and> input_file l = None \<and> string_buffer l = None \<and> cr l = 0"
  by (auto simp: cmListFileLexer_New_def represents_def token_is_def pos_def tok_pos_def)

lemma yylex_init_scans: "source_text [] l t \<Longrightarrow> scans yylex_init l t" "start_of yylex_init = start_state INITIAL"
  by (simp_all add: scans_def yylex_init_def start_of_def start_state_def)

lemma SetString_before:
  assumes "represents l x" and "input_file l = None \<and> string_buffer l = None \<or> scanner l \<noteq> None" and "0 \<notin> set s"
  shows "\<exists>l' x'. SetString True l (Some (s @ [0])) = Some (1, l') \<and> before_text l' s x' \<and> place x' = place x \<and> kind x' = kind x"
proof -
  obtain l1 where l1: "cmListFileLexerDestroy l = Some l1" "input_file l1 = None" "string_buffer l1 = None"
    "represents l1 (begin_token (kind x) [] x)" using Destroy_closes [OF assms(1,2)] by auto
  let ?l = "l1\<lparr>string_buffer := Some (s @ [0]), string_position := 0, string_left := length s, scanner := Some yylex_init\<rparr>"
  have "source_text [] ?l s" using l1(2) by (auto simp: source_text_def)
  moreover have "represents ?l (begin_token (kind x) [] x)"
    using l1(4) by (simp add: represents_def token_is_def holds_text_def pos_def tok_pos_def)
  ultimately have "before_text ?l s (begin_token (kind x) [] x)"
    using yylex_init_scans(1) [of ?l s] yylex_init_scans(2) unfolding before_text_def by simp
  moreover have "SetString True l (Some (s @ [0])) = Some (1, ?l)"
    using l1(1-3) assms(3) by (simp add: SetString_def cmListFileLexerInit_def)
  ultimately show ?thesis by (auto simp: begin_token_def)
qed

end
