(* ===== verification/ListFileProps.thy ===== *)
theory ListFileProps
  imports ListFileSession
begin

text \<open>
  What \<^verbatim>\<open>LexerParser/cmListFileLexer.c\<close> promises: the tables implement the rules, the scanner takes the
  longest match, the input converts line ends, and \<open>cmListFileLexer_Scan\<close> returns the tokens of the
  text with their texts and positions.
\<close>

section \<open>A lexer on a string\<close>

text \<open>The lexer after \<open>cmListFileLexer_New\<close> and \<open>cmListFileLexer_SetString\<close>.\<close>

definition string_lexer :: "byte list \<Rightarrow> cmListFileLexer" where
  "string_lexer s = \<lparr>token = \<lparr>tok_type = Token_None, tok_text = None, tok_length = 0, tok_line = 1, tok_column = 1\<rparr>,
     bracket = 0, comment = False, line = 1, column = 1, size = 0, input_file = None, cr = 0, string_buffer = Some (s @ [0]),
     string_position = 0, string_left = length s, scanner = Some yylex_init\<rparr>"

definition new_lexeme :: lexeme where
  "new_lexeme = \<lparr>kind = Token_None, chars = [], starts = (1, 1), brackets = 0, place = (1, 1)\<rparr>"

lemma string_lexer_set:
  "0 \<notin> set s \<Longrightarrow> Option.bind (cmListFileLexer_New True) (\<lambda>l. SetString True l (Some (s @ [0]))) = Some (1, string_lexer s)"
  by (simp add: cmListFileLexer_New_def SetString_def cmListFileLexerDestroy_def cmListFileLexerSetToken_def cmListFileLexerInit_def
      string_lexer_def)

lemma string_lexer_before: "before_text (string_lexer s) s new_lexeme"
proof -
  have "source_text [] (string_lexer s) s" by (auto simp: source_text_def string_lexer_def)
  then have "scans yylex_init (string_lexer s) s" by (rule yylex_init_scans(1))
  then show ?thesis using yylex_init_scans(2)
    by (simp add: before_text_def string_lexer_def new_lexeme_def represents_def token_is_def pos_def tok_pos_def)
qed

section \<open>The tables\<close>

lemma previous_loop_state:
  assumes "\<And>j. j < length w \<Longrightarrow> get m (p + j) = Some (w ! j)" and "input_state q"
  shows "\<exists>acc'. previous_loop m [p..<p + length w] q acc = Some (dfa_run q w, acc')"
  using assms
proof (induction w arbitrary: p q acc)
  case Nil
  then show ?case by simp
next
  case (Cons b w)
  let ?acc = "if yy_accept ! q \<noteq> 0 then (q, p) else acc" and ?q = "dfa_next q (yy_class b)"
  have g: "get m p = Some b" using Cons.prems(1) [of 0] by simp
  have "get m (Suc p + j) = Some (w ! j)" if "j < length w" for j using Cons.prems(1) [of "Suc j"] that by simp
  then obtain acc' where IH: "previous_loop m [Suc p..<Suc p + length w] ?q ?acc = Some (dfa_run ?q w, acc')"
    using Cons.IH [of "Suc p" ?q ?acc] dfa_next_input [OF Cons.prems(2)] by blast
  have c: "(if b \<noteq> 0 then item yy_ec (unat b) else Some 16) = Some (yy_class b)"
    using ec_item(1) [of b] ec_class(1) [of b] by (simp add: yy_class_def)
  have "[p..<p + length (b # w)] = p # [Suc p..<Suc p + length w]" by (simp add: upt_rec)
  then show ?case
    using IH g c Cons.prems(2) yy_class_bounds(2) [of b]
    by (simp add: input_next(1) input_items Let_def del: upt_Suc split del: if_split)
qed

lemma read_text_get:
  assumes "read_text m p n = Some w"
  shows "length w = n" and "j < n \<Longrightarrow> get m (p + j) = Some (w ! j)"
proof -
  have w: "p + n \<le> length m" "None \<notin> set (take n (drop p m))" "w = map the (take n (drop p m))"
    using assms by (auto simp: read_text_def mem_read_def split: if_splits)
  then show "length w = n" by simp
  show "get m (p + j) = Some (w ! j)" if "j < n"
  proof -
    have "m ! (p + j) \<in> set (take n (drop p m))" using w(1) that by (auto simp: in_set_conv_nth intro!: exI [of _ j])
    then have "m ! (p + j) \<noteq> None" using w(2) by metis
    then show ?thesis using w(1,3) that by (auto simp: get_def)
  qed
qed

text \<open>C18. The compressed tables implement the rules: the state that the scanner reaches on any text in any
  start condition accepts the first rule that matches the text, or none.\<close>

theorem tables_implement_rules:
  assumes "yy_buffer g = Some b" and "read_text (yy_ch_buf b) (yytext_ptr g) n = Some w" and "yy_c_buf_p g = yytext_ptr g + n"
    and "yy_start g = start_state sc"
  shows "\<exists>state g'. yy_get_previous_state g = Some (state, g')
    \<and> item yy_accept state = Some (case first_match (rules sc) w of None \<Rightarrow> 0 | Some act \<Rightarrow> act)"
proof -
  note w = read_text_get [OF assms(2)]
  obtain acc' where "previous_loop (yy_ch_buf b) [yytext_ptr g..<yytext_ptr g + length w] (start_state sc) (last_accepting g)
      = Some (dfa_run (start_state sc) w, acc')"
    using previous_loop_state [of w "yy_ch_buf b" "yytext_ptr g" "start_state sc" "last_accepting g"] w start_residual(2) by blast
  moreover have "item yy_accept (dfa_run (start_state sc) w) = Some (case first_match (rules sc) w of None \<Rightarrow> 0 | Some act \<Rightarrow> act)"
    using input_items(1) [OF dfa_run_input [OF start_residual(2)], of sc w] by (simp add: run_accept Let_def)
  ultimately show ?thesis using assms w(1) by (simp add: yy_get_previous_state_def)
qed

theorem tables_implement_rules_witness:
  "\<exists>state g'. yy_get_previous_state (yylex_init\<lparr>yy_buffer := Some \<lparr>yy_ch_buf = [Some 0x5B, Some 0x3D, Some 0x5B], yy_buf_pos = 0,
       yy_buf_size = 1, yy_bn_chars = 0, yy_buffer_status = 0, yy_bs_lineno = 1\<rparr>, yy_c_buf_p := 3, yy_start := start_state INITIAL\<rparr>) = Some (state, g')
    \<and> item yy_accept state = Some (case first_match (rules INITIAL) [0x5B, 0x3D, 0x5B] of None \<Rightarrow> 0 | Some act \<Rightarrow> act)"
  by (rule tables_implement_rules [where n = 3 and b = "\<lparr>yy_ch_buf = [Some 0x5B, Some 0x3D, Some 0x5B], yy_buf_pos = 0,
       yy_buf_size = 1, yy_bn_chars = 0, yy_buffer_status = 0, yy_bs_lineno = 1\<rparr>"])
    (simp_all add: yylex_init_def read_text_def mem_read_def)

section \<open>The scanner\<close>

text \<open>C17. On every text that the source delivers, in whatever pieces and whatever bytes, the generated scanner does
  exactly what its specification does: the actions of the longest matches until one returns (and it is undefined
  only where an action is); the rest of the text stays in front of it.\<close>

theorem yylex_longest_match:
  assumes "scans g l t"
  shows "case scan_text (start_of g) (core l) (echoed g) t of
      None \<Rightarrow> yylex g l = None
    | Some (v, c, start, out, t') \<Rightarrow> \<exists>g' l'. yylex g l = Some (v, g', l') \<and> core l' = c \<and> same_input l l'
        \<and> scans g' l' t' \<and> start_of g' = start \<and> echoed g' = out"
  by (rule yylex_refines [OF assms])

theorem yylex_longest_match_witness:
  "scans yylex_init (string_lexer [0x28]) [0x28]
   \<and> (case scan_text (start_of yylex_init) (core (string_lexer [0x28])) (echoed yylex_init) [0x28] of
      None \<Rightarrow> yylex yylex_init (string_lexer [0x28]) = None
    | Some (v, c, start, out, t') \<Rightarrow> \<exists>g' l'. yylex yylex_init (string_lexer [0x28]) = Some (v, g', l') \<and> core l' = c
        \<and> same_input (string_lexer [0x28]) l' \<and> scans g' l' t' \<and> start_of g' = start \<and> echoed g' = out)"
proof -
  have "scans yylex_init (string_lexer [0x28]) [0x28]"
    by (rule yylex_init_scans(1)) (auto simp: source_text_def string_lexer_def)
  then show ?thesis using yylex_longest_match by blast
qed

section \<open>The input\<close>

text \<open>C19. A read of at least two bytes from a file delivers the next part of the file with CRLF turned into LF,
  wherever the reads fall, and never writes outside the buffer; it delivers nothing only at the end of the file
  (or when a single carriage return is left, which is lost).\<close>

theorem Input_converts:
  assumes "input_file l = Some f" and "cr l \<le> 1" and "2 \<le> n" and "off + n \<le> length m"
  shows "\<exists>r l' m' f' out. cmListFileLexerInput l m off n = Some (r, l', m') \<and> r \<le> n \<and> length m' = length m
    \<and> length out = r \<and> take (off + r) m' = take off m @ map Some out
    \<and> input_file l' = Some f' \<and> cr l' \<le> 1 \<and> convert_crlf (pending (cr l) f) = out @ convert_crlf (pending (cr l') f')
    \<and> (r = 0 \<longleftrightarrow> pending (cr l) f = [] \<or> pending (cr l) f = [0x0D] \<and> cr l = 0)"
  using Input_reads [OF assms] by blast

definition file_lexer :: "byte list \<Rightarrow> cmListFileLexer" where
  "file_lexer s = (string_lexer [])\<lparr>input_file := Some \<lparr>contents = s, position = 0, seekable = True\<rparr>, string_buffer := None\<rparr>"

theorem Input_converts_witness:
  "\<exists>r l' m' f' out. cmListFileLexerInput (file_lexer [0x61, 0x0D, 0x0A]) [None, None] 0 2 = Some (r, l', m') \<and> r \<le> 2 \<and> length m' = length [None, None :: byte option]
    \<and> length out = r \<and> take (0 + r) m' = take 0 [None, None] @ map Some out \<and> input_file l' = Some f' \<and> cr l' \<le> 1
    \<and> convert_crlf (pending (cr (file_lexer [0x61, 0x0D, 0x0A])) \<lparr>contents = [0x61, 0x0D, 0x0A], position = 0, seekable = True\<rparr>)
        = out @ convert_crlf (pending (cr l') f')
    \<and> (r = 0 \<longleftrightarrow> pending (cr (file_lexer [0x61, 0x0D, 0x0A])) \<lparr>contents = [0x61, 0x0D, 0x0A], position = 0, seekable = True\<rparr> = []
        \<or> pending (cr (file_lexer [0x61, 0x0D, 0x0A])) \<lparr>contents = [0x61, 0x0D, 0x0A], position = 0, seekable = True\<rparr> = [0x0D]
          \<and> cr (file_lexer [0x61, 0x0D, 0x0A]) = 0)"
  by (rule Input_converts) (simp_all add: file_lexer_def string_lexer_def)

text \<open>
  The refill asks for a single byte when the match that has started fills the buffer but for one byte.  If that byte of
  the file is a carriage return, it is put back, and the read of no byte is taken for the end of the file: the scanner will not
  read any more, although all that is left of the file, the carriage return included, has not been read.
\<close>

theorem refill_loses_text:
  assumes "yy_buffer g = Some b" and "yy_buffer_status b \<noteq> YY_BUFFER_EOF_PENDING" and "length (yy_ch_buf b) = yy_buf_size b + 2"
    and "yy_c_buf_p g = yytext_ptr g + n + 1" and "yy_c_buf_p g \<le> yy_n_chars g + 1" and "yy_n_chars g \<le> yy_buf_size b"
    and "None \<notin> set (take n (drop (yytext_ptr g) (yy_ch_buf b)))"
    and "yy_buf_size b = n + 2" and "0 < n"
    and "input_file l = Some f" and "cr l = 0" and "drop (position f) (contents f) = 0x0D # rest"
  shows "\<exists>g' l' b' f'. yy_get_next_buffer g l = Some (EOB_ACT_LAST_MATCH, g', l')
    \<and> yy_buffer g' = Some b' \<and> yy_buffer_status b' = YY_BUFFER_EOF_PENDING
    \<and> input_file l' = Some f' \<and> pending (cr l') f' = 0x0D # rest"
proof -
  let ?v = "take n (drop (yytext_ptr g) (yy_ch_buf b))"
  let ?m = "?v @ drop n (yy_ch_buf b)" and ?f = "f\<lparr>position := position f + 1\<rparr>"
  have len: "length ?v = n" "length ?m = n + 4" using assms(3-6,8) by simp_all
  have moved: "move_loop (yy_ch_buf b) 0 (yytext_ptr g) n = Some ?m"
    using move_loop_moves [of 0 "yytext_ptr g" n "yy_ch_buf b"] assms(3-7) by simp
  have bs: "take (1 - cr l) (drop (position f) (contents f)) = [0x0D]" using assms(11,12) by simp
  from Input_file [OF assms(10) _ _ _ refl, of 1 n ?m, unfolded bs] assms(11) len obtain m' where
    i: "cmListFileLexerInput l ?m n 1 = Some (0, l\<lparr>input_file := Some ?f, cr := 1\<rparr>, m')" "length m' = length ?m"
    by (auto simp: whole_def)
  have rest: "drop (position f + 1) (contents f) = rest" using assms(12) by (metis Suc_eq_plus1 drop_Suc list.sel(3) tl_drop)
  have grow: "grow_loop n ?m (n + 2) = Some (?m, n + 2)" by (subst grow_loop.simps) simp
  have "yy_get_next_buffer g l = Some (EOB_ACT_LAST_MATCH, g\<lparr>yy_n_chars := n,
      yy_buffer := Some (b\<lparr>yy_ch_buf := m'[n := Some 0, Suc n := Some 0], yy_buf_size := n + 2, yy_bn_chars := 0,
        yy_buffer_status := YY_BUFFER_EOF_PENDING\<rparr>), yytext_ptr := 0\<rparr>, l\<lparr>input_file := Some ?f, cr := 1\<rparr>)"
    using assms(1,2,4,5,8,9) moved grow i len(2)
    by (simp add: yy_get_next_buffer_def read_more_def YY_READ_BUF_SIZE_def end_buffer_def put_def Let_def)
  then show ?thesis using rest by (auto simp: pending_def)
qed

text \<open>A buffer of three bytes holds the start of a match of one byte.\<close>

theorem refill_loses_text_witness:
  "\<exists>g' l' b' f'. yy_get_next_buffer (yylex_init\<lparr>yy_buffer := Some \<lparr>yy_ch_buf = map Some [0x61, 0, 0, 0, 0], yy_buf_pos = 0, yy_buf_size = 3,
        yy_bn_chars = 1, yy_buffer_status = YY_BUFFER_NORMAL, yy_bs_lineno = 1\<rparr>, yy_n_chars := 1, yytext_ptr := 0, yy_c_buf_p := 2\<rparr>)
      (file_lexer [0x0D, 0x0A, 0x62]) = Some (EOB_ACT_LAST_MATCH, g', l')
    \<and> yy_buffer g' = Some b' \<and> yy_buffer_status b' = YY_BUFFER_EOF_PENDING
    \<and> input_file l' = Some f' \<and> pending (cr l') f' = 0x0D # [0x0A, 0x62]"
  by (rule refill_loses_text [where n = 1 and f = "\<lparr>contents = [0x0D, 0x0A, 0x62], position = 0, seekable = True\<rparr>"
        and b = "\<lparr>yy_ch_buf = map Some [0x61, 0, 0, 0, 0], yy_buf_pos = 0, yy_buf_size = 3, yy_bn_chars = 1,
          yy_buffer_status = YY_BUFFER_NORMAL, yy_bs_lineno = 1\<rparr>"])
    (simp_all add: yylex_init_def file_lexer_def string_lexer_def YY_BUFFER_NORMAL_def YY_BUFFER_EOF_PENDING_def)

section \<open>Byte order marks\<close>

fun bom_bytes :: "cmListFileLexer_BOM \<Rightarrow> byte list" where
  "bom_bytes BOM_None = []"
| "bom_bytes BOM_Broken = []"
| "bom_bytes BOM_UTF8 = [0xEF, 0xBB, 0xBF]"
| "bom_bytes BOM_UTF16BE = [0xFE, 0xFF]"
| "bom_bytes BOM_UTF16LE = [0xFF, 0xFE]"
| "bom_bytes BOM_UTF32BE = [0, 0, 0xFE, 0xFF]"
| "bom_bytes BOM_UTF32LE = [0xFF, 0xFE, 0, 0]"

lemma ReadBOM_mark:
  assumes "position f = 0" and "seekable f" and "ReadBOM f = (bom, f')"
  shows "bom \<noteq> BOM_Broken \<and> f' = f\<lparr>position := length (bom_bytes bom)\<rparr> \<and> take (length (bom_bytes bom)) (contents f) = bom_bytes bom
    \<and> (\<forall>b. take (length (bom_bytes b)) (contents f) = bom_bytes b \<longrightarrow> length (bom_bytes b) \<le> length (bom_bytes bom))"
proof -
  have all: "(\<forall>b. P b) \<longleftrightarrow> P BOM_None \<and> P BOM_Broken \<and> P BOM_UTF8 \<and> P BOM_UTF16BE \<and> P BOM_UTF16LE \<and> P BOM_UTF32BE \<and> P BOM_UTF32LE" for P
    by (metis cmListFileLexer_BOM.exhaust)
  obtain cs where f: "f = \<lparr>contents = cs, position = 0, seekable = True\<rparr>" using assms(1,2) by (cases f) simp
  consider "cs = []" | a where "cs = [a]" | a b where "cs = [a, b]" | a b c where "cs = [a, b, c]" | a b c d es where "cs = a # b # c # d # es"
    by (metis list.exhaust)
  then show ?thesis
    using assms(3)
    by cases (auto simp: f ReadBOM_def fread_def fseek_to_def Let_def all split: if_splits)
qed

text \<open>On a seekable file \<open>cmListFileLexer_ReadBOM\<close> returns the longest byte order mark that the file begins
  with (none if there is none), and leaves the file right after it.\<close>

theorem ReadBOM_longest:
  assumes "position f = 0" and "seekable f" and "ReadBOM f = (bom, f')"
  shows "bom \<noteq> BOM_Broken \<and> f' = f\<lparr>position := length (bom_bytes bom)\<rparr> \<and> take (length (bom_bytes bom)) (contents f) = bom_bytes bom
    \<and> (\<forall>b. take (length (bom_bytes b)) (contents f) = bom_bytes b \<longrightarrow> length (bom_bytes b) \<le> length (bom_bytes bom))"
  by (rule ReadBOM_mark [OF assms])

theorem ReadBOM_longest_witness:
  "BOM_UTF32LE \<noteq> BOM_Broken
    \<and> \<lparr>contents = [0xFF, 0xFE, 0, 0, 0x61], position = 4, seekable = True\<rparr>
      = \<lparr>contents = [0xFF, 0xFE, 0, 0, 0x61], position = 0, seekable = True\<rparr>\<lparr>position := length (bom_bytes BOM_UTF32LE)\<rparr>
    \<and> length (bom_bytes BOM_UTF16LE) \<le> length (bom_bytes BOM_UTF32LE)"
proof -
  let ?f = "\<lparr>contents = [0xFF, 0xFE, 0, 0, 0x61], position = 0, seekable = True\<rparr> :: stream"
  have "ReadBOM ?f = (BOM_UTF32LE, ?f\<lparr>position := 4\<rparr>)" by (simp add: ReadBOM_def fread_def)
  from ReadBOM_longest [OF _ _ this] show ?thesis by simp
qed

section \<open>Tokens\<close>

text \<open>The lexer in front of a file that can be read.\<close>

lemma file_lexer_before:
  assumes "readable bytes"
  shows "before_text (file_lexer bytes) (convert_crlf bytes) new_lexeme"
proof -
  have "source_text [] (file_lexer bytes) (convert_crlf bytes)"
    by (rule readable_source [OF assms, of _ "\<lparr>contents = bytes, position = 0, seekable = True\<rparr>"]) (simp_all add: file_lexer_def string_lexer_def pending_def)
  then have "scans yylex_init (file_lexer bytes) (convert_crlf bytes)" by (rule yylex_init_scans(1))
  then show ?thesis using yylex_init_scans(2)
    by (simp add: before_text_def file_lexer_def string_lexer_def new_lexeme_def represents_def token_is_def pos_def tok_pos_def)
qed

text \<open>A file with one line end, as an example.\<close>

lemma newline_file: "before_text (file_lexer [0x0D, 0x0A]) [0x0A] new_lexeme"
proof -
  have "readable [0x0D, 0x0A]" by (simp add: readable_def short_lines_small YY_BUF_SIZE_def)
  from file_lexer_before [OF this] show ?thesis by simp
qed

lemma newline_token:
  "\<exists>x'. lex INITIAL new_lexeme [0x0A] = (True, INITIAL, x', []) \<and> kind x' = Token_Newline \<and> chars x' = [0x0A] \<and> starts x' = (1, 1)"
proof -
  have m: "munch (start_state INITIAL) [0x0A] 0 (0, 0) = (1, 1)"
    by (simp add: start_INITIAL yy_class_char ec_of_def dfa_next_rows row_entries yy_accept_def)
  then show ?thesis by (simp add: lex.simps [of _ _ "[0x0A]"] match_effect_def rule_effect_def new_lexeme_def begin_token_def)
qed

text \<open>C16. In front of a text without zero bytes, in a string or in a file (with its line ends converted), \<open>cmListFileLexer_Scan\<close> is defined and returns the next token of the text as
  the lexer on texts has it, with its characters in the token buffer, and is then in front of the rest; at the
  end it returns null and has closed its input.\<close>

theorem Scan_tokens:
  assumes "before_text l t x" and "0 \<notin> set t" and "lex INITIAL x t = (d, sc, x', t')"
  shows "if d then \<exists>l'. Scan l = Some (Some (token l'), l') \<and> before_text l' t' x' \<and> holds_text l' (chars x')
     else \<exists>l'. Scan l = Some (None, l') \<and> input_file l' = None \<and> string_buffer l' = None \<and> represents l' (begin_token (kind x') [] x')"
  by (rule Scan_lex [OF assms])

theorem Scan_tokens_witness:
  "\<exists>l'. Scan (file_lexer [0x0D, 0x0A]) = Some (Some (token l'), l') \<and> tok_type (token l') = Token_Newline
     \<and> (\<exists>rest. tok_text (token l') = Some (0x0A # 0 # rest)) \<and> tok_line (token l') = 1 \<and> tok_column (token l') = 1"
proof -
  obtain x' where e: "lex INITIAL new_lexeme [0x0A] = (True, INITIAL, x', [])" "kind x' = Token_Newline" "chars x' = [0x0A]" "starts x' = (1, 1)"
    using newline_token by blast
  have "\<exists>l'. Scan (file_lexer [0x0D, 0x0A]) = Some (Some (token l'), l') \<and> before_text l' [] x' \<and> holds_text l' (chars x')"
    using Scan_tokens [OF newline_file _ e(1)] by simp
  then show ?thesis using e(2-4) by (auto simp: before_text_def represents_def tok_pos_def holds_text_def)
qed



text \<open>A bracket argument (or bracket comment) is one token: its text is everything up to the first closing
  bracket with the same number of equal signs, without a line feed right after the opening bracket, and the lexer
  is then right after the closing bracket.\<close>

theorem Scan_bracket:
  assumes "before_text l (open_text hash k False @ t) x" and "0 \<notin> set t" and "bracket_end k (drop_newline t) = Some (s, t')"
  shows "\<exists>l' x' rest. Scan l = Some (Some (token l'), l') \<and> before_text l' t' x'
    \<and> tok_type (token l') = (if hash then Token_CommentBracket else Token_ArgumentBracket)
    \<and> tok_text (token l') = Some (s @ 0 # rest) \<and> tok_length (token l') = int (length s)
    \<and> (tok_line (token l'), tok_column (token l')) = (GetCurrentLine l, GetCurrentColumn l)"
proof -
  let ?x = "x\<lparr>kind := if hash then Token_CommentBracket else Token_ArgumentBracket, chars := [], starts := place x, brackets := k + 1,
    place := advance (place x) (open_text hash k (t \<noteq> [] \<and> hd t = 0x0A))\<rparr>"
  have z: "0 \<notin> set (drop_newline t)" using assms(2) by (cases t) auto
  from lex_bracket [OF z, of ?x k] assms(3) obtain x' where x': "lex BRACKET ?x (drop_newline t) = (True, INITIAL, x', t')"
    "kind x' = kind ?x" "chars x' = s" "starts x' = place x" by auto
  have e: "lex INITIAL x (open_text hash k False @ t) = (True, INITIAL, x', t')" unfolding lex_open_bracket by (rule x'(1))
  have "0 \<notin> set (open_text hash k False @ t)" using assms(2) by (auto simp: open_text_def)
  from Scan_lex [OF assms(1) this e] obtain l' where l': "Scan l = Some (Some (token l'), l')" "before_text l' t' x'" "holds_text l' s"
    using x'(3) by auto
  have "represents l x" "represents l' x'" using assms(1) l'(2) by (simp_all add: before_text_def)
  then show ?thesis
    using l' x'(2,4) by (auto simp: holds_text_def represents_def pos_def tok_pos_def GetCurrentLine_def GetCurrentColumn_def)
qed

theorem Scan_bracket_witness:
  "\<exists>l' x' rest. Scan (string_lexer [0x5B, 0x3D, 0x5B, 0x0A, 0x5D, 0x5D, 0x5D, 0x3D, 0x5D, 0x29]) = Some (Some (token l'), l')
    \<and> before_text l' [0x29] x' \<and> tok_type (token l') = (if False then Token_CommentBracket else Token_ArgumentBracket)
    \<and> tok_text (token l') = Some ([0x5D, 0x5D] @ 0 # rest) \<and> tok_length (token l') = int (length [0x5D, 0x5D :: byte])
    \<and> (tok_line (token l'), tok_column (token l')) = (GetCurrentLine (string_lexer [0x5B, 0x3D, 0x5B, 0x0A, 0x5D, 0x5D, 0x5D, 0x3D, 0x5D, 0x29]),
         GetCurrentColumn (string_lexer [0x5B, 0x3D, 0x5B, 0x0A, 0x5D, 0x5D, 0x5D, 0x3D, 0x5D, 0x29]))"
proof (rule Scan_bracket [where k = 1 and t = "[0x0A, 0x5D, 0x5D, 0x5D, 0x3D, 0x5D, 0x29]" and x = new_lexeme])
  show "before_text (string_lexer [0x5B, 0x3D, 0x5B, 0x0A, 0x5D, 0x5D, 0x5D, 0x3D, 0x5D, 0x29])
      (open_text False 1 False @ [0x0A, 0x5D, 0x5D, 0x5D, 0x3D, 0x5D, 0x29]) new_lexeme"
    using string_lexer_before by (simp add: open_text_def)
qed (simp_all add: closing_def)

text \<open>A quoted argument is one token: its text is that of the string up to the first quote that is not escaped,
  with its escape sequences, but without line feeds that a backslash continues; a string that is not terminated is
  an error token that ends the text.\<close>

theorem Scan_quoted:
  assumes "before_text l (0x22 # t) x" and "0 \<notin> set t"
  shows "\<exists>l' x'. Scan l = Some (Some (token l'), l')
    \<and> (tok_line (token l'), tok_column (token l')) = (GetCurrentLine l, GetCurrentColumn l)
    \<and> (case unquote t of
         Some (s, t') \<Rightarrow> tok_type (token l') = Token_ArgumentQuoted \<and> before_text l' t' x'
           \<and> (\<exists>rest. tok_text (token l') = Some (s @ 0 # rest)) \<and> tok_length (token l') = int (length s)
       | None \<Rightarrow> tok_type (token l') = Token_BadString \<and> before_text l' [] x')"
proof -
  let ?x = "x\<lparr>kind := Token_ArgumentQuoted, chars := [], starts := place x, place := advance (place x) [0x22]\<rparr>"
  have z: "0 \<notin> set (0x22 # t)" using assms(2) by simp
  have "represents l x" using assms(1) by (simp add: before_text_def)
  then have p: "place x = (GetCurrentLine l, GetCurrentColumn l)" by (simp add: represents_def pos_def GetCurrentLine_def GetCurrentColumn_def)
  obtain x' t' where x': "lex INITIAL x (0x22 # t) = (True, INITIAL, x', t')" "starts x' = place x"
    "case unquote t of Some (s, t'') \<Rightarrow> kind x' = Token_ArgumentQuoted \<and> chars x' = s \<and> t' = t'' | None \<Rightarrow> kind x' = Token_BadString \<and> t' = []"
    using lex_string [OF assms(2), of ?x] unfolding lex_open_quote by (cases "unquote t") auto
  obtain l' where l': "Scan l = Some (Some (token l'), l')" "before_text l' t' x'" "holds_text l' (chars x')"
    using Scan_lex [OF assms(1) z x'(1)] by auto
  have r: "tok_type (token l') = kind x'" "(tok_line (token l'), tok_column (token l')) = starts x'"
    using l'(2) by (simp_all add: before_text_def represents_def tok_pos_def)
  show ?thesis
    using l' x'(2,3) r p by (intro exI [of _ l'] exI [of _ x']) (auto simp: holds_text_def split: option.splits)
qed

theorem Scan_quoted_witness:
  "\<exists>l' x'. Scan (string_lexer [0x22, 0x61, 0x5C, 0x0A, 0x5C, 0x22, 0x22]) = Some (Some (token l'), l')
    \<and> (tok_line (token l'), tok_column (token l')) = (GetCurrentLine (string_lexer [0x22, 0x61, 0x5C, 0x0A, 0x5C, 0x22, 0x22]),
         GetCurrentColumn (string_lexer [0x22, 0x61, 0x5C, 0x0A, 0x5C, 0x22, 0x22]))
    \<and> (case unquote [0x61, 0x5C, 0x0A, 0x5C, 0x22, 0x22] of
         Some (s, t') \<Rightarrow> tok_type (token l') = Token_ArgumentQuoted \<and> before_text l' t' x'
           \<and> (\<exists>rest. tok_text (token l') = Some (s @ 0 # rest)) \<and> tok_length (token l') = int (length s)
       | None \<Rightarrow> tok_type (token l') = Token_BadString \<and> before_text l' [] x')"
  by (rule Scan_quoted [OF string_lexer_before]) simp

section \<open>All tokens\<close>

text \<open>The loop of the callers, which scans until there is no token; \<open>n\<close> bounds the number of calls.\<close>

fun scan_all :: "nat \<Rightarrow> cmListFileLexer \<Rightarrow> (cmListFileLexer_Token list \<times> cmListFileLexer) option" where
  "scan_all 0 lexer = None"
| "scan_all (Suc n) lexer =
     do { (tk, lexer) \<leftarrow> Scan lexer;
          case tk of None \<Rightarrow> Some ([], lexer)
          | Some tk \<Rightarrow> do { (tks, lexer) \<leftarrow> scan_all n lexer; Some (tk # tks, lexer) } }"

text \<open>The loop of the callers ends on every text without zero bytes, after at most one token for every byte, with
  no undefined behaviour, and leaves the lexer without input.\<close>

theorem scan_all_ends:
  assumes "before_text l t x" and "0 \<notin> set t" and "length t < n"
  shows "\<exists>tks l'. scan_all n l = Some (tks, l') \<and> length tks \<le> length t \<and> input_file l' = None \<and> string_buffer l' = None"
  using assms
proof (induction n arbitrary: l t x)
  case (Suc n)
  obtain d sc x' t' where e: "lex INITIAL x t = (d, sc, x', t')" by (cases "lex INITIAL x t")
  show ?case
  proof (cases d)
    case False
    then show ?thesis using Scan_lex [OF Suc.prems(1,2) e] by auto
  next
    case True
    with Scan_lex [OF Suc.prems(1,2) e] obtain l' where l': "Scan l = Some (Some (token l'), l')" "before_text l' t' x'" by auto
    obtain v u where "t = v @ u @ t'" "u \<noteq> []" using lex_token [of INITIAL x t sc x' t'] e True by (auto simp: inside_def)
    then have t': "length t' < length t" "0 \<notin> set t'" using Suc.prems(2) by auto
    from Suc.IH [OF l'(2) t'(2)] t'(1) Suc.prems(3) obtain tks l'' where
      "scan_all n l' = Some (tks, l'')" "length tks \<le> length t'" "input_file l'' = None" "string_buffer l'' = None" by auto
    then show ?thesis using l'(1) t'(1) by auto
  qed
qed simp

theorem scan_all_ends_witness:
  "\<exists>tks l'. scan_all 6 (string_lexer [0x61, 0x28, 0x62, 0x29, 0x0A]) = Some (tks, l') \<and> length tks \<le> length [0x61, 0x28, 0x62, 0x29, 0x0A :: byte]
     \<and> input_file l' = None \<and> string_buffer l' = None"
  by (rule scan_all_ends [OF string_lexer_before]) simp_all

section \<open>Zero bytes\<close>

text \<open>C21. A zero byte in a file breaks the token buffer: after the token of the zero byte, whose text is allocated
  with one byte but recorded with two, the next token of one character is copied beyond the allocation.\<close>

theorem zero_byte_overflows:
  "\<exists>l l1 tk. SetFileName (\<lambda>name. Some \<lparr>contents = [0, 0x28], position = 0, seekable = True\<rparr>)
       (string_lexer [])  (Some [0x66]) False = Some (1, None, l)
     \<and> Scan l = Some (Some tk, l1) \<and> tok_type tk = Token_BadCharacter \<and> tok_text tk = Some [0] \<and> size l1 = 2 \<and> Scan l1 = None"
proof -
  let ?f = "\<lparr>contents = [0, 0x28], position = 0, seekable = True\<rparr> :: stream"
  let ?l = "(string_lexer [])\<lparr>string_buffer := None, input_file := Some ?f, scanner := Some yylex_init\<rparr>"
  have set: "SetFileName (\<lambda>name. Some ?f) (string_lexer []) (Some [0x66]) False = Some (1, None, ?l)"
    by (simp add: SetFileName_def cmListFileLexerDestroy_def cmListFileLexerSetToken_def cmListFileLexerInit_def string_lexer_def)
  have src: "source_text [] ?l [0, 0x28]" by (simp add: source_text_def string_lexer_def)
  have m1: "munch (start_state INITIAL) [0, 0x28] 0 (0, 0) = (23, 1)" and m2: "munch (start_state INITIAL) [0x28] 0 (0, 0) = (5, 1)"
    by (simp_all add: start_INITIAL yy_class_char ec_of_def dfa_next_rows row_entries yy_accept_def Let_def)
  let ?tk = "\<lparr>tok_type = Token_BadCharacter, tok_text = Some [0], tok_length = 1, tok_line = 1, tok_column = 1\<rparr>"
  let ?c = "(core ?l)\<lparr>token := ?tk, column := 2, size := 2\<rparr>"
  have s1: "scan_text (start_of yylex_init) (core ?l) (echoed yylex_init) [0, 0x28] = Some (1, ?c, start_state INITIAL, [], [0x28])"
    unfolding yylex_init_scans(2)
    by (subst scan_text.simps) (simp add: m1 rule_action_def simple_token_def cmListFileLexerSetToken_def core_def string_lexer_def yylex_init_def del: munch.simps)
  obtain g1 l1 where y1: "yylex yylex_init ?l = Some (1, g1, l1)" "core l1 = ?c" "same_input ?l l1" "scans g1 l1 [0x28]"
    "start_of g1 = start_state INITIAL" "echoed g1 = []"
    using yylex_refines [OF yylex_init_scans(1) [OF src]] unfolding s1 by auto
  have "token (core l1) = ?tk" "size (core l1) = 2" unfolding y1(2) by simp_all
  then have tk: "token l1 = ?tk" "size l1 = 2" by simp_all
  have s2: "scan_text (start_state INITIAL) (core l1) [] [0x28] = None"
    by (subst scan_text.simps) (simp add: m2 rule_action_def simple_token_def cmListFileLexerSetToken_def mem_write_def tk del: munch.simps)
  let ?l1 = "l1\<lparr>scanner := Some g1\<rparr>"
  have "yylex g1 ?l1 = None"
  proof -
    have "core ?l1 = core l1" by (simp add: core_def)
    with yylex_refines [of g1 ?l1 "[0x28]"] y1(4-6) s2 show ?thesis by simp
  qed
  then have "Scan ?l1 = None" using y1(3) by (simp add: Scan_def same_input_def string_lexer_def)
  moreover have "Scan ?l = Some (Some (token ?l1), ?l1)" using y1(1) by (simp add: Scan_def)
  ultimately show ?thesis using set tk by (intro exI [of _ ?l] exI [of _ ?l1] exI [of _ ?tk]) simp
qed

end
