(* ===== verification/ListFileCache.thy ===== *)
theory ListFileCache
  imports ListFileSession ListFileContext
begin

text \<open>
  The parser of list files (\<^verbatim>\<open>cmListFileCache.cxx\<close>): it reads the tokens of \<open>cmListFileLexer_Scan\<close>, makes the
  list of commands of the file with their arguments, and checks that the blocks of the control commands
  are nested.  Errors are messages, and the value false; \<^term>\<open>None\<close> is undefined behaviour or a loop that
  does not end.
\<close>

section \<open>The parser\<close>

datatype Separation = SeparationOkay | SeparationWarning | SeparationError

record cmListFileParser =
  Functions :: "cmListFileFunction list"
  Backtrace :: cmListFileBacktrace
  Messenger :: cmMessenger
  Console :: console
  FileName :: "byte list"
  Lexer :: cmListFileLexer
  FunctionName :: "byte list"
  FunctionLine :: int
  FunctionArguments :: "cmListFileArgument list"
  Separation :: Separation

text \<open>The text of a token, as the C string it is used as.\<close>

definition token_text :: "cmListFileLexer_Token \<Rightarrow> byte list option" where
  "token_text tk = Option.bind (tok_text tk) c_string"

text \<open>A message in the context of a line of the file.\<close>

definition issue_at :: "MessageType \<Rightarrow> byte list \<Rightarrow> int \<Rightarrow> cmListFileParser \<Rightarrow> cmListFileParser option" where
  "issue_at t msg ln p =
     do { lfbt \<leftarrow> Push (line_context (FileName p) ln) (Backtrace p);
          Some (p\<lparr>Console := IssueMessage (Messenger p) t msg lfbt (Console p)\<rparr>) }"

definition IssueFileOpenError :: "string \<Rightarrow> cmListFileParser \<Rightarrow> cmListFileParser" where
  "IssueFileOpenError msg p = p\<lparr>Console := IssueMessage (Messenger p) FATAL_ERROR (ascii msg) (Backtrace p) (Console p)\<rparr>"

definition IssueError :: "byte list \<Rightarrow> cmListFileParser \<Rightarrow> cmListFileParser option" where
  "IssueError msg p =
     do { p \<leftarrow> issue_at FATAL_ERROR msg (GetCurrentLine (Lexer p)) p;
          Some (p\<lparr>Console := SetFatalErrorOccured (Console p)\<rparr>) }"

text \<open>The error of a token that is not expected.\<close>

definition unexpected :: "string \<Rightarrow> cmListFileLexer_Token \<Rightarrow> cmListFileParser \<Rightarrow> cmListFileParser option" where
  "unexpected msg tk p =
     do { txt \<leftarrow> token_text tk;
          IssueError (ascii msg @ ascii (GetTypeAsString (tok_type tk)) @ ascii '' with text '' @ [0x22] @ txt @ [0x22] @ ascii ''.'') p }"

section \<open>Arguments\<close>

definition AddArgument :: "cmListFileLexer_Token \<Rightarrow> Delimiter \<Rightarrow> cmListFileParser \<Rightarrow> (bool \<times> cmListFileParser) option" where
  "AddArgument tk delim p =
     do { txt \<leftarrow> token_text tk;
          let p = p\<lparr>FunctionArguments := FunctionArguments p @ [\<lparr>arg_Value = txt, arg_Delim = delim, arg_Line = tok_line tk\<rparr>]\<rparr>;
          if Separation p = SeparationOkay then Some (True, p)
          else let isError = (Separation p = SeparationError \<or> delim = Bracket);
                   m = ascii ''Syntax '' @ ascii (if isError then ''Error'' else ''Warning'') @ ascii '' in cmake code at column ''
                     @ int_chars (tok_column tk) @ [0x0A] @ ascii ''Argument not separated from preceding token by whitespace.''
               in do { p \<leftarrow> issue_at (if isError then FATAL_ERROR else AUTHOR_WARNING) m (tok_line tk) p;
                       Some (\<not> isError, p) } }"

text \<open>
  One token of an argument list at depth \<open>depth\<close>: the function is complete or has failed, or the loop goes
  on with a depth.
\<close>

definition add_then :: "cmListFileLexer_Token \<Rightarrow> Delimiter \<Rightarrow> Separation \<Rightarrow> nat \<Rightarrow> cmListFileParser \<Rightarrow> ((bool + nat) \<times> cmListFileParser) option" where
  "add_then tk delim sep depth p =
     do { (ok, p) \<leftarrow> AddArgument tk delim p;
          Some (if ok then (Inr depth, p\<lparr>Separation := sep\<rparr>) else (Inl False, p)) }"

definition argument_token :: "cmListFileLexer_Token \<Rightarrow> nat \<Rightarrow> cmListFileParser \<Rightarrow> ((bool + nat) \<times> cmListFileParser) option" where
  "argument_token tk depth p =
     (if tok_type tk = Token_Space \<or> tok_type tk = Token_Newline then Some (Inr depth, p\<lparr>Separation := SeparationOkay\<rparr>)
      else if tok_type tk = Token_ParenLeft
      then add_then tk Unquoted SeparationOkay (depth + 1) (p\<lparr>Separation := SeparationOkay\<rparr>)
      else if tok_type tk = Token_ParenRight
      then if depth = 0 then Some (Inl True, p)
           else add_then tk Unquoted SeparationWarning (depth - 1) (p\<lparr>Separation := SeparationOkay\<rparr>)
      else if tok_type tk = Token_Identifier \<or> tok_type tk = Token_ArgumentUnquoted
      then add_then tk Unquoted SeparationWarning depth p
      else if tok_type tk = Token_ArgumentQuoted then add_then tk Quoted SeparationWarning depth p
      else if tok_type tk = Token_ArgumentBracket then add_then tk Bracket SeparationError depth p
      else if tok_type tk = Token_CommentBracket then Some (Inr depth, p\<lparr>Separation := SeparationError\<rparr>)
      else do { p \<leftarrow> unexpected ''Parse error.  Function missing ending \")\".  Instead found '' tk p; Some (Inl False, p) })"

text \<open>The loop over the arguments; no value at the end of the file.\<close>

partial_function (option) arguments_loop :: "nat \<Rightarrow> cmListFileParser \<Rightarrow> (bool option \<times> cmListFileParser) option" where
  "arguments_loop depth p =
     do { (tk, lexer) \<leftarrow> Scan (Lexer p);
          let p = p\<lparr>Lexer := lexer\<rparr>;
          case tk of
            None \<Rightarrow> Some (None, p)
          | Some tk \<Rightarrow> do { (r, p) \<leftarrow> argument_token tk depth p;
                          case r of Inl v \<Rightarrow> Some (Some v, p) | Inr depth \<Rightarrow> arguments_loop depth p } }"

text \<open>The loop to the opening parenthesis: the first token that is not a space.\<close>

partial_function (option) skip_spaces :: "cmListFileParser \<Rightarrow> (cmListFileLexer_Token option \<times> cmListFileParser) option" where
  "skip_spaces p =
     do { (tk, lexer) \<leftarrow> Scan (Lexer p);
          let p = p\<lparr>Lexer := lexer\<rparr>;
          case tk of
            None \<Rightarrow> Some (None, p)
          | Some tk \<Rightarrow> if tok_type tk = Token_Space then skip_spaces p else Some (Some tk, p) }"

definition ParseFunction :: "byte list \<Rightarrow> int \<Rightarrow> cmListFileParser \<Rightarrow> (bool \<times> cmListFileParser) option" where
  "ParseFunction name ln p =
     do { (tk, p) \<leftarrow> skip_spaces (p\<lparr>FunctionName := name, FunctionLine := ln\<rparr>);
          case tk of
            None \<Rightarrow> do { p \<leftarrow> IssueError (ascii ''Unexpected end of file.'' @ [0x0A] @ ascii ''Parse error.  Function missing opening \"(\".'') p;
                        Some (False, p) }
          | Some tk \<Rightarrow>
              if tok_type tk \<noteq> Token_ParenLeft
              then do { p \<leftarrow> unexpected ''Parse error.  Expected \"(\", got '' tk p; Some (False, p) }
              else do { (r, p) \<leftarrow> arguments_loop 0 (p\<lparr>Separation := SeparationOkay\<rparr>);
                        case r of
                          Some v \<Rightarrow> Some (v, p)
                        | None \<Rightarrow> do { p \<leftarrow> issue_at FATAL_ERROR (ascii ''Parse error.  Function missing ending \")\".  End of file reached.'') ln p;
                                      Some (False, p) } } }"

section \<open>Nesting of the control commands\<close>

datatype NestingStateEnum = NS_If | NS_Else | NS_While | NS_Foreach | NS_Function | NS_Macro

definition TopIs :: "(NestingStateEnum \<times> cmListFileContext) list \<Rightarrow> NestingStateEnum \<Rightarrow> bool" where
  "TopIs stack state \<longleftrightarrow> stack \<noteq> [] \<and> fst (hd stack) = state"

text \<open>One command: the new stack, or the context of a command that is out of place.  The stack has its back first.\<close>

definition nesting_step ::
  "byte list \<Rightarrow> cmListFileFunction \<Rightarrow> (NestingStateEnum \<times> cmListFileContext) list \<Rightarrow> cmListFileContext + (NestingStateEnum \<times> cmListFileContext) list" where
  "nesting_step file func stack =
     (let name = LowerCaseName func;
          here = FromCommandContext func file None;
          opens = (\<lambda>s. Inr ((s, here) # stack));
          closes = (\<lambda>s. if \<not> TopIs stack s then Inl here else Inr (tl stack))
      in if name = ascii ''if'' then opens NS_If
         else if name = ascii ''elseif'' then if \<not> TopIs stack NS_If then Inl here else Inr ((NS_If, here) # tl stack)
         else if name = ascii ''else'' then if \<not> TopIs stack NS_If then Inl here else Inr ((NS_Else, here) # tl stack)
         else if name = ascii ''endif'' then if \<not> TopIs stack NS_If \<and> \<not> TopIs stack NS_Else then Inl here else Inr (tl stack)
         else if name = ascii ''while'' then opens NS_While
         else if name = ascii ''endwhile'' then closes NS_While
         else if name = ascii ''foreach'' then opens NS_Foreach
         else if name = ascii ''endforeach'' then closes NS_Foreach
         else if name = ascii ''function'' then opens NS_Function
         else if name = ascii ''endfunction'' then closes NS_Function
         else if name = ascii ''macro'' then opens NS_Macro
         else if name = ascii ''endmacro'' then closes NS_Macro
         else Inr stack)"

fun nesting_loop ::
  "byte list \<Rightarrow> (NestingStateEnum \<times> cmListFileContext) list \<Rightarrow> cmListFileFunction list \<Rightarrow> cmListFileContext option" where
  "nesting_loop file stack [] = (if stack \<noteq> [] then Some (snd (hd stack)) else None)"
| "nesting_loop file stack (func # funcs) =
     (case nesting_step file func stack of Inl lfc \<Rightarrow> Some lfc | Inr stack \<Rightarrow> nesting_loop file stack funcs)"

definition CheckNesting :: "cmListFileParser \<Rightarrow> cmListFileContext option" where
  "CheckNesting p = nesting_loop (FileName p) [] (Functions p)"

section \<open>Files\<close>

partial_function (option) commands_loop :: "bool \<Rightarrow> cmListFileParser \<Rightarrow> (bool \<times> cmListFileParser) option" where
  "commands_loop haveNewline p =
     do { (tk, lexer) \<leftarrow> Scan (Lexer p);
          let p = p\<lparr>Lexer := lexer\<rparr>;
          case tk of
            None \<Rightarrow> Some (True, p)
          | Some tk \<Rightarrow>
              if tok_type tk = Token_Space then commands_loop haveNewline p
              else if tok_type tk = Token_Newline then commands_loop True p
              else if tok_type tk = Token_CommentBracket then commands_loop False p
              else if tok_type tk = Token_Identifier
              then if haveNewline
                   then do { txt \<leftarrow> token_text tk;
                             (ok, p) \<leftarrow> ParseFunction txt (tok_line tk) p;
                             if ok
                             then commands_loop False (p\<lparr>Functions := Functions p
                                    @ [list_file_function (FunctionName p) (FunctionLine p) (FunctionArguments p)],
                                    FunctionName := [], FunctionArguments := []\<rparr>)
                             else Some (False, p) }
                   else do { p \<leftarrow> unexpected ''Parse error.  Expected a newline, got '' tk p; Some (False, p) }
              else do { p \<leftarrow> unexpected ''Parse error.  Expected a command name, got '' tk p; Some (False, p) } }"

definition Parse :: "cmListFileParser \<Rightarrow> (bool \<times> cmListFileParser) option" where
  "Parse p =
     do { (ok, p) \<leftarrow> commands_loop True p;
          if \<not> ok then Some (False, p)
          else case CheckNesting p of
                 None \<Rightarrow> Some (True, p)
               | Some badNesting \<Rightarrow>
                   do { lfbt \<leftarrow> Push badNesting (Backtrace p);
                        let c = IssueMessage (Messenger p) FATAL_ERROR (ascii ''Flow control statements are not properly nested.'') lfbt (Console p);
                        Some (False, p\<lparr>Console := SetFatalErrorOccured c\<rparr>) } }"

definition cmListFileParser_new :: "cmListFileBacktrace \<Rightarrow> cmMessenger \<Rightarrow> console \<Rightarrow> cmListFileFunction list \<Rightarrow> cmListFileParser option" where
  "cmListFileParser_new lfbt messenger console funcs =
     do { lexer \<leftarrow> cmListFileLexer_New True;
          Some \<lparr>Functions = funcs, Backtrace = lfbt, Messenger = messenger, Console = console, FileName = [], Lexer = lexer,
            FunctionName = [], FunctionLine = 0, FunctionArguments = [], Separation = SeparationOkay\<rparr> }"

definition parser_ParseFile :: "(byte list \<Rightarrow> stream option) \<Rightarrow> byte list \<Rightarrow> cmListFileParser \<Rightarrow> (bool \<times> cmListFileParser) option" where
  "parser_ParseFile fopen filename p =
     do { let p = p\<lparr>FileName := filename\<rparr>;
          (result, bom, lexer) \<leftarrow> SetFileName fopen (Lexer p) (Some filename) True;
          let p = p\<lparr>Lexer := lexer\<rparr>;
          if result = 0 then Some (False, IssueFileOpenError ''cmListFileCache: error can not open file.'' p)
          else do { bom \<leftarrow> bom;
                    if bom = BOM_Broken
                    then do { (result, bom, lexer) \<leftarrow> SetFileName fopen (Lexer p) None False;
                              Some (False, IssueFileOpenError ''Error while reading Byte-Order-Mark. File not seekable?'' (p\<lparr>Lexer := lexer\<rparr>)) }
                    else if bom \<noteq> BOM_None \<and> bom \<noteq> BOM_UTF8
                    then do { (result, bom, lexer) \<leftarrow> SetFileName fopen (Lexer p) None False;
                              Some (False, IssueFileOpenError ''File starts with a Byte-Order-Mark that is not UTF-8.'' (p\<lparr>Lexer := lexer\<rparr>)) }
                    else Parse p } }"

text \<open>\<open>str\<close> is the string with its terminator, \<open>ok\<close> is whether the allocation of its copy succeeds.\<close>

definition parser_ParseString :: "bool \<Rightarrow> byte list \<Rightarrow> byte list \<Rightarrow> cmListFileParser \<Rightarrow> (bool \<times> cmListFileParser) option" where
  "parser_ParseString ok str virtual_filename p =
     do { let p = p\<lparr>FileName := virtual_filename\<rparr>;
          (result, lexer) \<leftarrow> SetString ok (Lexer p) (Some str);
          let p = p\<lparr>Lexer := lexer\<rparr>;
          if result = 0 then Some (False, IssueFileOpenError ''cmListFileCache: cannot allocate buffer.'' p)
          else Parse p }"

text \<open>
  The list file: its commands, and the console.  The parser is destroyed with its lexer.  Whether a file exists and
  is a directory is up to the system.
\<close>

definition finish_parse :: "(bool \<times> cmListFileParser) option \<Rightarrow> (bool \<times> cmListFileFunction list \<times> console) option" where
  "finish_parse r = do { (ok, p) \<leftarrow> r; _ \<leftarrow> cmListFileLexer_Delete (Lexer p); Some (ok, Functions p, Console p) }"

definition cmListFile_ParseFile ::
  "(byte list \<Rightarrow> bool) \<Rightarrow> (byte list \<Rightarrow> bool) \<Rightarrow> (byte list \<Rightarrow> stream option) \<Rightarrow> byte list \<Rightarrow> cmMessenger \<Rightarrow> cmListFileBacktrace \<Rightarrow> console
     \<Rightarrow> cmListFileFunction list \<Rightarrow> (bool \<times> cmListFileFunction list \<times> console) option" where
  "cmListFile_ParseFile exists is_directory fopen filename messenger lfbt console funcs =
     (if \<not> exists filename \<or> is_directory filename then Some (False, funcs, console)
      else do { p \<leftarrow> cmListFileParser_new lfbt messenger console funcs; finish_parse (parser_ParseFile fopen filename p) })"

definition cmListFile_ParseString ::
  "bool \<Rightarrow> byte list \<Rightarrow> byte list \<Rightarrow> cmMessenger \<Rightarrow> cmListFileBacktrace \<Rightarrow> console \<Rightarrow> cmListFileFunction list
     \<Rightarrow> (bool \<times> cmListFileFunction list \<times> console) option" where
  "cmListFile_ParseString ok str virtual_filename messenger lfbt console funcs =
     do { p \<leftarrow> cmListFileParser_new lfbt messenger console funcs; finish_parse (parser_ParseString ok str virtual_filename p) }"

end
