(* ===== verification/ListFileStream.thy ===== *)
theory ListFileStream
  imports ListFileProps ListFileCache
begin

text \<open>
  The tokens of a text as a list, and the interface between the lexer and the parser of list files
  (\<^verbatim>\<open>cmListFileCache.cxx\<close>): a lexer that is in front of a list of tokens delivers them one by one.
\<close>

section \<open>The tokens of a text\<close>

function tokens :: "lexeme \<Rightarrow> byte list \<Rightarrow> lexeme list" where
  "tokens x t = (case lex INITIAL x t of (d, sc, x', t') \<Rightarrow> if d then x' # tokens x' t' else [])"
  by pat_completeness auto
termination by (relation "measure (\<lambda>(x, t). length t)") (auto simp: inside_def dest!: lex_token [OF sym])

declare tokens.simps [simp del]

section \<open>The interface\<close>

locale token_source =
  fixes feeds :: "cmListFileLexer \<Rightarrow> lexeme list \<Rightarrow> bool"
  assumes Scan_end: "feeds l [] \<Longrightarrow> \<exists>l'. Scan l = Some (None, l') \<and> feeds l' []"
    and Scan_token: "feeds l (x # xs) \<Longrightarrow> \<exists>l'. Scan l = Some (Some (token l'), l') \<and> feeds l' xs
      \<and> token_text (token l') = Some (chars x) \<and> tok_type (token l') = kind x \<and> tok_line (token l') = fst (starts x)
      \<and> tok_column (token l') = snd (starts x)"
    and Delete_defined: "feeds l xs \<Longrightarrow> cmListFileLexer_Delete l = Some ()"

text \<open>A lexer in front of a text, or closed after its end.\<close>

definition has_tokens :: "cmListFileLexer \<Rightarrow> lexeme list \<Rightarrow> bool" where
  "has_tokens l xs \<longleftrightarrow> (\<exists>t x. before_text l t x \<and> 0 \<notin> set t \<and> xs = tokens x t)
     \<or> input_file l = None \<and> string_buffer l = None \<and> (\<exists>x. represents l x) \<and> xs = []"

lemma closed_Scan: "input_file l = None \<Longrightarrow> string_buffer l = None \<Longrightarrow> Scan l = Some (None, l)"
  by (simp add: Scan_def)

lemma has_tokens_Scan:
  assumes "has_tokens l xs"
  shows "\<exists>l'. (case xs of [] \<Rightarrow> Scan l = Some (None, l') \<and> has_tokens l' []
    | x # xs' \<Rightarrow> Scan l = Some (Some (token l'), l') \<and> has_tokens l' xs' \<and> holds_text l' (chars x) \<and> represents l' x)"
  using assms unfolding has_tokens_def [of l]
proof (elim disjE exE conjE)
  fix t x assume t: "before_text l t x" "0 \<notin> set t" "xs = tokens x t"
  obtain d sc x' t' where e: "lex INITIAL x t = (d, sc, x', t')" by (cases "lex INITIAL x t")
  show ?thesis
  proof (cases d)
    case True
    with Scan_lex [OF t(1,2) e] obtain l' where l': "Scan l = Some (Some (token l'), l')" "before_text l' t' x'" "holds_text l' (chars x')" by auto
    obtain u where "t = u @ t'" using lex_place [OF e] by blast
    then have "has_tokens l' (tokens x' t')" using t(2) l'(2) by (auto simp: has_tokens_def)
    moreover have "xs = x' # tokens x' t'" using t(3) e True by (simp add: tokens.simps [of x t])
    moreover have "represents l' x'" using l'(2) by (simp add: before_text_def)
    ultimately show ?thesis using l' by auto
  next
    case False
    with Scan_lex [OF t(1,2) e] show ?thesis using t(3) e by (auto simp: tokens.simps [of x t] has_tokens_def)
  qed
next
  assume "input_file l = None" "string_buffer l = None" "xs = []"
  then show ?thesis using assms by (auto simp: closed_Scan)
qed

lemma has_tokens_Delete: "has_tokens l xs \<Longrightarrow> cmListFileLexer_Delete l = Some ()"
proof -
  assume "has_tokens l xs"
  then obtain x where "represents l x" "input_file l = None \<and> string_buffer l = None \<or> scanner l \<noteq> None"
    by (auto simp: has_tokens_def before_text_def)
  from Destroy_closes [OF this] show ?thesis
    by (auto simp: cmListFileLexer_Delete_def SetFileName_def cmListFileLexerInit_def)
qed

interpretation list_file: token_source has_tokens
proof
  fix l x xs assume "has_tokens l (x # xs)"
  from has_tokens_Scan [OF this] obtain l' where l': "Scan l = Some (Some (token l'), l')" "has_tokens l' xs" "holds_text l' (chars x)" "represents l' x"
    by auto
  moreover have "(tok_line (token l'), tok_column (token l')) = starts x" "tok_type (token l') = kind x"
    using l'(4) by (simp_all add: represents_def tok_pos_def)
  moreover have "token_text (token l') = Some (chars x)" using l'(3) by (auto simp: token_text_def holds_text_def)
  ultimately show "\<exists>l'. Scan l = Some (Some (token l'), l') \<and> has_tokens l' xs \<and> token_text (token l') = Some (chars x)
    \<and> tok_type (token l') = kind x \<and> tok_line (token l') = fst (starts x) \<and> tok_column (token l') = snd (starts x)"
    by (metis fst_conv snd_conv)
qed (use has_tokens_Scan in fastforce, rule has_tokens_Delete)

text \<open>A new lexer that is given a string.\<close>

lemma string_tokens: "0 \<notin> set t \<Longrightarrow> has_tokens (string_lexer t) (tokens new_lexeme t)"
  using string_lexer_before [of t] by (auto simp: has_tokens_def)

end
