(* ===== verification/ListFileNesting.thy ===== *)
theory ListFileNesting
  imports ListFileCache
begin

text \<open>
  The nesting of the control commands (\<^verbatim>\<open>cmListFileCache.cxx\<close>): the grammar of nested blocks, and the proof
  that the check with a stack accepts exactly this grammar and where it reports an error.
\<close>

section \<open>The grammar\<close>

datatype block = While_block | Foreach_block | Function_block | Macro_block

datatype flow = F_if | F_elseif | F_else | F_endif | F_begin block | F_end block | F_other

definition flow_of :: "byte list \<Rightarrow> flow" where
  "flow_of name =
     (if name = ascii ''if'' then F_if else if name = ascii ''elseif'' then F_elseif
      else if name = ascii ''else'' then F_else else if name = ascii ''endif'' then F_endif
      else if name = ascii ''while'' then F_begin While_block else if name = ascii ''endwhile'' then F_end While_block
      else if name = ascii ''foreach'' then F_begin Foreach_block else if name = ascii ''endforeach'' then F_end Foreach_block
      else if name = ascii ''function'' then F_begin Function_block else if name = ascii ''endfunction'' then F_end Function_block
      else if name = ascii ''macro'' then F_begin Macro_block else if name = ascii ''endmacro'' then F_end Macro_block
      else F_other)"

definition flows :: "cmListFileFunction list \<Rightarrow> flow list" where
  "flows fs = map (\<lambda>f. flow_of (LowerCaseName f)) fs"

lemma flows_simps [simp]: "flows [] = []" "flows (f # fs) = flow_of (LowerCaseName f) # flows fs" "flows (fs @ gs) = flows fs @ flows gs"
  by (simp_all add: flows_def)

text \<open>Nested blocks, and what may follow an \<open>if\<close> up to its \<open>endif\<close>, with more branches or after the \<open>else\<close>.\<close>

inductive nested :: "flow list \<Rightarrow> bool" and if_rest :: "bool \<Rightarrow> flow list \<Rightarrow> bool" where
  nested_Nil: "nested []"
| nested_other: "nested xs \<Longrightarrow> nested (F_other # xs)"
| nested_block: "nested xs \<Longrightarrow> nested ys \<Longrightarrow> nested (F_begin b # xs @ F_end b # ys)"
| nested_if: "if_rest True xs \<Longrightarrow> nested ys \<Longrightarrow> nested (F_if # xs @ ys)"
| if_endif: "nested xs \<Longrightarrow> if_rest e (xs @ [F_endif])"
| if_elseif: "nested xs \<Longrightarrow> if_rest True ys \<Longrightarrow> if_rest True (xs @ F_elseif # ys)"
| if_else: "nested xs \<Longrightarrow> if_rest False ys \<Longrightarrow> if_rest True (xs @ F_else # ys)"

lemma nested_append: "nested xs \<Longrightarrow> nested ys \<Longrightarrow> nested (xs @ ys)"
proof (induction xs rule: nested_if_rest.inducts(1) [where ?P2.0 = "\<lambda>_ _. True"])
  case (nested_block xs zs b)
  then show ?case using nested_if_rest.nested_block [of xs "zs @ ys" b] by simp
next
  case (nested_if xs zs)
  then show ?case using nested_if_rest.nested_if [of xs "zs @ ys"] by simp
qed (auto intro: nested_if_rest.intros)

lemma if_rest_append: "if_rest e ys \<Longrightarrow> nested xs \<Longrightarrow> if_rest e (xs @ ys)"
  by (erule if_rest.cases)
    (auto simp: nested_append simp flip: append_assoc intro: nested_if_rest.intros(5-7))

section \<open>The stack machine on the grammar\<close>

fun block_state :: "block \<Rightarrow> NestingStateEnum" where
  "block_state While_block = NS_While"
| "block_state Foreach_block = NS_Foreach"
| "block_state Function_block = NS_Function"
| "block_state Macro_block = NS_Macro"

lemma block_state_inj [simp]: "block_state b = block_state c \<longleftrightarrow> b = c"
  by (cases b; cases c) simp_all

lemma block_state_if [simp]: "block_state b \<noteq> NS_If" "block_state b \<noteq> NS_Else" "NS_If \<noteq> block_state b" "NS_Else \<noteq> block_state b"
  by (cases b; simp)+

lemma state_cases: "s = NS_If \<or> s = NS_Else \<or> (\<exists>b. s = block_state b)"
  by (cases s) (metis block_state.simps)+

fun flow_step :: "flow \<Rightarrow> NestingStateEnum list \<Rightarrow> NestingStateEnum list option" where
  "flow_step F_if st = Some (NS_If # st)"
| "flow_step F_elseif st = (if st \<noteq> [] \<and> hd st = NS_If then Some st else None)"
| "flow_step F_else st = (if st \<noteq> [] \<and> hd st = NS_If then Some (NS_Else # tl st) else None)"
| "flow_step F_endif st = (if st \<noteq> [] \<and> (hd st = NS_If \<or> hd st = NS_Else) then Some (tl st) else None)"
| "flow_step (F_begin b) st = Some (block_state b # st)"
| "flow_step (F_end b) st = (if st \<noteq> [] \<and> hd st = block_state b then Some (tl st) else None)"
| "flow_step F_other st = Some st"

fun flow_run :: "NestingStateEnum list \<Rightarrow> flow list \<Rightarrow> NestingStateEnum list option" where
  "flow_run st [] = Some st"
| "flow_run st (x # xs) = Option.bind (flow_step x st) (\<lambda>st. flow_run st xs)"

lemma flow_run_append: "flow_run st (xs @ ys) = Option.bind (flow_run st xs) (\<lambda>st. flow_run st ys)"
  by (induction xs arbitrary: st) (auto split: bind_splits)

text \<open>The code is this machine with contexts.\<close>

definition opens :: "flow \<Rightarrow> bool" where
  "opens x \<longleftrightarrow> x \<in> {F_if, F_elseif, F_else} \<or> (\<exists>b. x = F_begin b)"

lemma nesting_step_flow:
  assumes "x = flow_of (LowerCaseName f)"
  shows "nesting_step file f stack =
    (if flow_step x (map fst stack) = None then Inl (FromCommandContext f file None)
     else Inr (if opens x then (hd (the (flow_step x (map fst stack))), FromCommandContext f file None) #
          (if x = F_elseif \<or> x = F_else then tl stack else stack)
        else if x = F_other then stack else tl stack))"
  unfolding assms nesting_step_def flow_of_def opens_def
  by (cases stack) (simp_all add: TopIs_def Let_def ascii_def)

lemma nesting_step_stack:
  "nesting_step file f stack = Inr stack' \<Longrightarrow> flow_step (flow_of (LowerCaseName f)) (map fst stack) = Some (map fst stack')"
  by (cases "flow_of (LowerCaseName f)"; cases stack)
    (auto simp: nesting_step_flow [OF refl] opens_def split: if_splits)

section \<open>The machine accepts the grammar\<close>

lemma nested_run: "nested xs \<Longrightarrow> flow_run st (xs @ zs) = flow_run st zs"
  and if_rest_run: "if_rest e xs \<Longrightarrow> flow_run ((if e then NS_If else NS_Else) # st) (xs @ zs) = flow_run st zs"
  by (induction arbitrary: st zs and st zs rule: nested_if_rest.inducts) auto

text \<open>What ends a state, and what ends all states of a stack.\<close>

fun ends :: "NestingStateEnum \<Rightarrow> flow list \<Rightarrow> bool" where
  "ends NS_If xs = if_rest True xs"
| "ends NS_Else xs = if_rest False xs"
| "ends NS_While xs = (\<exists>ys. nested ys \<and> xs = ys @ [F_end While_block])"
| "ends NS_Foreach xs = (\<exists>ys. nested ys \<and> xs = ys @ [F_end Foreach_block])"
| "ends NS_Function xs = (\<exists>ys. nested ys \<and> xs = ys @ [F_end Function_block])"
| "ends NS_Macro xs = (\<exists>ys. nested ys \<and> xs = ys @ [F_end Macro_block])"

lemma ends_block [simp]: "ends (block_state b) xs \<longleftrightarrow> (\<exists>ys. nested ys \<and> xs = ys @ [F_end b])"
  by (cases b) simp_all

lemma ends_append: "nested us \<Longrightarrow> ends s xs \<Longrightarrow> ends s (us @ xs)"
proof -
  assume us: "nested us" and xs: "ends s xs"
  consider "s = NS_If" | "s = NS_Else" | b where "s = block_state b" using state_cases by blast
  then show ?thesis
  proof cases
    case (3 b)
    with xs obtain ys where "nested ys" "xs = ys @ [F_end b]" by auto
    with us 3 show ?thesis by (auto intro!: exI [of _ "us @ ys"] nested_append)
  qed (use us xs in \<open>auto intro: if_rest_append\<close>)
qed

fun pops :: "NestingStateEnum list \<Rightarrow> flow list \<Rightarrow> bool" where
  "pops [] xs = nested xs"
| "pops (s # st) xs = (\<exists>ys zs. xs = ys @ zs \<and> ends s ys \<and> pops st zs)"

lemma pops_push: "ends s ys \<Longrightarrow> pops st zs \<Longrightarrow> pops (s # st) (ys @ zs)"
  by auto

lemma pops_append: "nested us \<Longrightarrow> pops st xs \<Longrightarrow> pops st (us @ xs)"
proof (cases st)
  case (Cons s st')
  assume "nested us" "pops st xs"
  with Cons obtain ys zs where "xs = ys @ zs" "ends s ys" "pops st' zs" by auto
  then show ?thesis using pops_push [OF ends_append [OF \<open>nested us\<close>], of s ys st' zs] Cons by simp
qed (simp add: nested_append)

text \<open>A step of the machine, read backwards.\<close>

lemma step_pops:
  assumes "flow_step x st = Some st'" and "pops st' xs"
  shows "pops st (x # xs)"
proof (cases x)
  case F_if
  with assms obtain ys zs where "xs = ys @ zs" "if_rest True ys" "pops st zs" by auto
  then show ?thesis using pops_append [of "F_if # ys" st zs] nested_if [OF _ nested_Nil] F_if by simp
next
  case F_elseif
  with assms obtain st0 ys zs where "st = NS_If # st0" "xs = ys @ zs" "if_rest True ys" "pops st0 zs" by (cases st) (auto split: if_splits)
  then show ?thesis using if_elseif [OF nested_Nil, of ys] pops_push [of NS_If "F_elseif # ys" st0 zs] F_elseif by simp
next
  case F_else
  with assms obtain st0 ys zs where "st = NS_If # st0" "xs = ys @ zs" "if_rest False ys" "pops st0 zs" by (cases st) (auto split: if_splits)
  then show ?thesis using if_else [OF nested_Nil, of ys] pops_push [of NS_If "F_else # ys" st0 zs] F_else by simp
next
  case F_endif
  with assms obtain s st0 where "st = s # st0" "s = NS_If \<or> s = NS_Else" "st' = st0" by (cases st) (auto split: if_splits)
  then show ?thesis using if_endif [OF nested_Nil] pops_push [of s "[F_endif]" st0 xs] assms(2) F_endif by auto
next
  case (F_begin b)
  with assms obtain ys zs where "xs = ys @ [F_end b] @ zs" "nested ys" "pops st zs" by auto
  then show ?thesis using pops_append [of "F_begin b # ys @ [F_end b]" st zs] nested_block [OF _ nested_Nil] F_begin by simp
next
  case (F_end b)
  with assms obtain st0 where "st = block_state b # st0" "st' = st0" by (cases st) (auto split: if_splits)
  then show ?thesis using nested_Nil pops_push [of "block_state b" "[F_end b]" st0 xs] assms(2) F_end by simp
next
  case F_other
  with assms pops_append [of "[F_other]" st xs] nested_other [OF nested_Nil] show ?thesis by simp
qed

lemma run_pops: "flow_run st xs = Some [] \<Longrightarrow> pops st xs"
  by (induction xs arbitrary: st) (auto simp: bind_eq_Some_conv intro: step_pops nested_Nil)

lemma nested_iff_run: "nested xs \<longleftrightarrow> flow_run [] xs = Some []"
  using run_pops [of "[]" xs] nested_run [of xs "[]" "[]"] by auto

text \<open>A run that does not fail can be completed.\<close>

fun ender :: "NestingStateEnum \<Rightarrow> flow" where
  "ender NS_If = F_endif"
| "ender NS_Else = F_endif"
| "ender NS_While = F_end While_block"
| "ender NS_Foreach = F_end Foreach_block"
| "ender NS_Function = F_end Function_block"
| "ender NS_Macro = F_end Macro_block"

definition extensible :: "flow list \<Rightarrow> bool" where
  "extensible xs \<longleftrightarrow> (\<exists>ys. nested (xs @ ys))"

lemma extensible_iff_run: "extensible xs \<longleftrightarrow> flow_run [] xs \<noteq> None"
proof -
  have step: "flow_step (ender s) (s # st) = Some st" for s st by (cases s) simp_all
  have "flow_run st (map ender st) = Some []" for st by (induction st) (simp_all add: step)
  then show ?thesis by (cases "flow_run [] xs") (auto simp: extensible_def nested_iff_run flow_run_append)
qed

section \<open>Where the check reports an error\<close>

lemma loop_run:
  "(nesting_loop file stack fs = None \<longleftrightarrow> flow_run (map fst stack) (flows fs) = Some [])"
proof (induction fs arbitrary: stack)
  case (Cons f fs)
  show ?case
  proof (cases "nesting_step file f stack")
    case (Inl c)
    then have "flow_step (flow_of (LowerCaseName f)) (map fst stack) = None"
      by (simp add: nesting_step_flow [OF refl] split: if_splits)
    with Inl show ?thesis by simp
  next
    case (Inr stack')
    with Cons [of stack'] nesting_step_stack [OF Inr] show ?thesis by simp
  qed
qed simp

lemma loop_fails:
  assumes "nesting_loop file stack fs = Some c" and "flow_run (map fst stack) (flows fs) = None"
  shows "\<exists>gs f hs. fs = gs @ f # hs \<and> c = FromCommandContext f file None
    \<and> flow_run (map fst stack) (flows gs) \<noteq> None \<and> flow_run (map fst stack) (flows (gs @ [f])) = None"
  using assms
proof (induction fs arbitrary: stack)
  case (Cons f fs)
  show ?case
  proof (cases "nesting_step file f stack")
    case (Inl d)
    then have "flow_step (flow_of (LowerCaseName f)) (map fst stack) = None" "d = FromCommandContext f file None"
      by (simp_all add: nesting_step_flow [OF refl] split: if_splits)
    with Inl Cons.prems(1) show ?thesis by (intro exI [of _ "[]"] exI [of _ f] exI [of _ fs]) simp
  next
    case (Inr stack')
    note st = nesting_step_stack [OF Inr]
    from Inr Cons.prems(1) have "nesting_loop file stack' fs = Some c" by simp
    moreover from st Cons.prems(2) have "flow_run (map fst stack') (flows fs) = None" by simp
    ultimately obtain gs g hs where "fs = gs @ g # hs" "c = FromCommandContext g file None"
      "flow_run (map fst stack') (flows gs) \<noteq> None" "flow_run (map fst stack') (flows (gs @ [g])) = None" using Cons.IH by blast
    with st show ?thesis by (intro exI [of _ "f # gs"] exI [of _ g] exI [of _ hs]) simp
  qed
qed simp

text \<open>
  The block that is left open: the context is that of a command after which everything is nested, or it was
  in the stack below states that are ended.
\<close>

lemma loop_open:
  assumes "nesting_loop file stack fs = Some c" and "flow_run (map fst stack) (flows fs) \<noteq> None"
  shows "(\<exists>gs f hs. fs = gs @ f # hs \<and> c = FromCommandContext f file None \<and> opens (flow_of (LowerCaseName f)) \<and> nested (flows hs))
    \<or> (\<exists>us s vs. stack = us @ (s, c) # vs \<and> pops (map fst us) (flows fs))"
  using assms
proof (induction fs arbitrary: stack)
  case Nil
  then obtain s vs where "stack = [] @ (s, c) # vs" by (cases stack) (auto split: if_splits)
  then show ?case by (intro disjI2 exI [of _ "[]"] exI [of _ s] exI [of _ vs]) (simp add: nested_Nil)
next
  case (Cons f fs)
  let ?x = "flow_of (LowerCaseName f)"
  obtain stack' where st: "nesting_step file f stack = Inr stack'"
    using Cons.prems(2) by (cases "nesting_step file f stack") (auto simp: nesting_step_flow [OF refl] split: if_splits)
  note run = nesting_step_stack [OF st]
  have shape: "stack' = (if opens ?x then (hd (the (flow_step ?x (map fst stack))), FromCommandContext f file None) #
      (if ?x = F_elseif \<or> ?x = F_else then tl stack else stack) else if ?x = F_other then stack else tl stack)"
  proof -
    have "flow_step ?x (map fst stack) \<noteq> None" using run by simp
    then show ?thesis using st [symmetric] unfolding nesting_step_flow [OF refl] by (simp only: if_False sum.inject)
  qed
  from st run Cons.prems have "nesting_loop file stack' fs = Some c" "flow_run (map fst stack') (flows fs) \<noteq> None" by simp_all
  from Cons.IH [OF this] consider
      gs g hs where "fs = gs @ g # hs" "c = FromCommandContext g file None" "opens (flow_of (LowerCaseName g))" "nested (flows hs)"
    | us s vs where "stack' = us @ (s, c) # vs" "pops (map fst us) (flows fs)" by blast
  then show ?case
  proof cases
    case 1
    then have "f # fs = (f # gs) @ g # hs" by simp
    with 1(2-4) show ?thesis by blast
  next
    case 2
    have deeper: ?thesis if "stack = ws @ (s, c) # vs" "flow_step ?x (map fst ws) = Some (map fst us')" "pops (map fst us') (flows fs)" for ws us'
    proof -
      have "pops (map fst ws) (flows (f # fs))" using step_pops [OF that(2,3)] by simp
      with that(1) show ?thesis by (intro disjI2 exI conjI)
    qed
    show ?thesis
    proof (cases "opens ?x")
      case False
      then consider "?x = F_other" | "?x = F_endif" | b where "?x = F_end b" by (cases ?x) (auto simp: opens_def)
      then show ?thesis
      proof cases
        case 1
        with shape 2 deeper [of us us] show ?thesis by (simp add: opens_def)
      next
        case x: 2
        with run obtain t where "stack = t # stack'" using shape by (cases stack) (auto simp: opens_def split: if_splits)
        with run x 2 deeper [of "t # us" us] show ?thesis by (simp split: if_splits)
      next
        case (3 b)
        with run obtain t where "stack = t # stack'" using shape by (cases stack) (auto simp: opens_def split: if_splits)
        with run 3 2 deeper [of "t # us" us] show ?thesis by (simp split: if_splits)
      qed
    next
      case True
      show ?thesis
      proof (cases us)
        case Nil
        with 2 shape True have "c = FromCommandContext f file None" "nested (flows fs)" by simp_all
        with True show ?thesis by blast
      next
        case us: (Cons t us')
        from True consider "?x = F_if" | b where "?x = F_begin b" | "?x = F_elseif" | "?x = F_else" by (auto simp: opens_def)
        then show ?thesis
        proof cases
          case 1
          with shape True 2 us deeper [of us' us] show ?thesis by simp
        next
          case (2 b)
          with shape True \<open>stack' = us @ (s, c) # vs\<close> \<open>pops (map fst us) (flows fs)\<close> us deeper [of us' us] show ?thesis by simp
        next
          case 3
          with run obtain t0 st0 where "stack = t0 # st0" "fst t0 = NS_If" by (cases stack) (auto split: if_splits)
          with 3 shape True 2 us deeper [of "t0 # us'" us] show ?thesis by simp
        next
          case 4
          with run obtain t0 st0 where "stack = t0 # st0" "fst t0 = NS_If" by (cases stack) (auto split: if_splits)
          with 4 shape True 2 us deeper [of "t0 # us'" us] show ?thesis by simp
        qed
      qed
    qed
  qed
qed

end
