(* ===== verification/ListFileGrammar.thy ===== *)
theory ListFileGrammar
  imports ListFileStream ListFileNesting
begin

text \<open>
  The grammar of list files over tokens, as the parser (\<^verbatim>\<open>cmListFileCache.cxx\<close>) is meant to accept it: argument
  lists with nested parentheses and the separation of their elements, and files of commands that start on
  lines of their own.  The parser counts parentheses; \<open>collect\<close> is its count on lists, and is shown to agree
  with the grammar.
\<close>

section \<open>Arguments\<close>

definition argument_of :: "Delimiter \<Rightarrow> lexeme \<Rightarrow> cmListFileArgument" where
  "argument_of delim x = \<lparr>arg_Value = chars x, arg_Delim = delim, arg_Line = fst (starts x)\<rparr>"

text \<open>
  The argument lists after a token that leaves the separation \<open>s\<close>, with their arguments; parentheses are
  unquoted arguments.
\<close>

inductive arguments :: "Separation \<Rightarrow> lexeme list \<Rightarrow> cmListFileArgument list \<Rightarrow> bool" where
  no_argument: "arguments s [] []"
| space: "kind x = Token_Space \<or> kind x = Token_Newline \<Longrightarrow> arguments SeparationOkay xs as \<Longrightarrow> arguments s (x # xs) as"
| comment: "kind x = Token_CommentBracket \<Longrightarrow> arguments SeparationError xs as \<Longrightarrow> arguments s (x # xs) as"
| unquoted: "kind x = Token_Identifier \<or> kind x = Token_ArgumentUnquoted \<Longrightarrow> s \<noteq> SeparationError
    \<Longrightarrow> arguments SeparationWarning xs as \<Longrightarrow> arguments s (x # xs) (argument_of Unquoted x # as)"
| quoted: "kind x = Token_ArgumentQuoted \<Longrightarrow> s \<noteq> SeparationError
    \<Longrightarrow> arguments SeparationWarning xs as \<Longrightarrow> arguments s (x # xs) (argument_of Quoted x # as)"
| bracketed: "kind x = Token_ArgumentBracket \<Longrightarrow> s = SeparationOkay
    \<Longrightarrow> arguments SeparationError xs as \<Longrightarrow> arguments s (x # xs) (argument_of Bracket x # as)"
| group: "kind x = Token_ParenLeft \<Longrightarrow> arguments SeparationOkay xs as \<Longrightarrow> kind y = Token_ParenRight
    \<Longrightarrow> arguments SeparationWarning ys bs
    \<Longrightarrow> arguments s (x # xs @ y # ys) (argument_of Unquoted x # as @ argument_of Unquoted y # bs)"

text \<open>The count: the arguments up to the parenthesis that closes depth 0, and the tokens after it.\<close>

definition add_arguments :: "cmListFileArgument list \<Rightarrow> (cmListFileArgument list \<times> lexeme list) option \<Rightarrow> (cmListFileArgument list \<times> lexeme list) option" where
  "add_arguments as r = map_option (apfst ((@) as)) r"

lemma add_arguments_simps [simp]:
  "add_arguments [] r = r" "add_arguments as (add_arguments bs r) = add_arguments (as @ bs) r"
  "add_arguments as None = None" "add_arguments as (Some (bs, xs)) = Some (as @ bs, xs)"
  "add_arguments as r = None \<longleftrightarrow> r = None"
  by (cases r; auto simp: add_arguments_def apfst_def map_prod_def split: prod.splits)+

fun collect :: "nat \<Rightarrow> Separation \<Rightarrow> lexeme list \<Rightarrow> (cmListFileArgument list \<times> lexeme list) option" where
  "collect n s [] = None"
| "collect n s (x # xs) =
     (if kind x = Token_Space \<or> kind x = Token_Newline then collect n SeparationOkay xs
      else if kind x = Token_ParenLeft then add_arguments [argument_of Unquoted x] (collect (Suc n) SeparationOkay xs)
      else if kind x = Token_ParenRight
      then if n = 0 then Some ([], xs) else add_arguments [argument_of Unquoted x] (collect (n - 1) SeparationWarning xs)
      else if kind x = Token_Identifier \<or> kind x = Token_ArgumentUnquoted
      then if s = SeparationError then None else add_arguments [argument_of Unquoted x] (collect n SeparationWarning xs)
      else if kind x = Token_ArgumentQuoted
      then if s = SeparationError then None else add_arguments [argument_of Quoted x] (collect n SeparationWarning xs)
      else if kind x = Token_ArgumentBracket
      then if s \<noteq> SeparationOkay then None else add_arguments [argument_of Bracket x] (collect n SeparationError xs)
      else if kind x = Token_CommentBracket then collect n SeparationError xs
      else None)"

text \<open>A closing parenthesis does not depend on the separation, so what is in front of it can be skipped.\<close>

lemma collect_arguments:
  "arguments s xs as \<Longrightarrow> kind y = Token_ParenRight \<Longrightarrow> collect n s (xs @ y # ys) = add_arguments as (collect n SeparationOkay (y # ys))"
  by (induction arbitrary: n y ys rule: arguments.induct) auto

text \<open>What the count has found: the pieces of the open parentheses.\<close>

fun pieces :: "nat \<Rightarrow> Separation \<Rightarrow> lexeme list \<Rightarrow> cmListFileArgument list \<Rightarrow> lexeme list \<Rightarrow> bool" where
  "pieces 0 s xs as zs = (\<exists>ys y. xs = ys @ y # zs \<and> arguments s ys as \<and> kind y = Token_ParenRight)"
| "pieces (Suc n) s xs as zs = (\<exists>ys y us bs cs. xs = ys @ y # us \<and> arguments s ys bs \<and> kind y = Token_ParenRight
     \<and> as = bs @ argument_of Unquoted y # cs \<and> pieces n SeparationWarning us cs zs)"

lemma last_piece: "arguments s ys as \<Longrightarrow> kind y = Token_ParenRight \<Longrightarrow> pieces 0 s (ys @ y # zs) as zs"
  by auto

lemma next_piece:
  "arguments s ys bs \<Longrightarrow> kind y = Token_ParenRight \<Longrightarrow> pieces n SeparationWarning us cs zs
    \<Longrightarrow> pieces (Suc n) s (ys @ y # us) (bs @ argument_of Unquoted y # cs) zs"
  unfolding pieces.simps
  by (rule exI [of _ ys], rule exI [of _ y], rule exI [of _ us], rule exI [of _ bs], rule exI [of _ cs]) simp

text \<open>A token in front of the first piece.\<close>

lemma pieces_front:
  assumes "pieces n s' xs as zs" and "\<And>ys bs. arguments s' ys bs \<Longrightarrow> arguments s (vs @ ys) (cs @ bs)"
  shows "pieces n s (vs @ xs) (cs @ as) zs"
proof (cases n)
  case 0
  with assms(1) obtain ys y where "xs = ys @ y # zs" "arguments s' ys as" "kind y = Token_ParenRight" by auto
  with last_piece [OF assms(2) [of ys as], of y zs] 0 show ?thesis by simp
next
  case (Suc m)
  with assms(1) obtain ys y us bs ds where "xs = ys @ y # us" "arguments s' ys bs" "kind y = Token_ParenRight"
    "as = bs @ argument_of Unquoted y # ds" "pieces m SeparationWarning us ds zs" by auto
  with next_piece [OF assms(2) [of ys bs], of y m us ds zs] Suc show ?thesis by simp
qed

lemma collect_pieces: "collect n s xs = Some (as, zs) \<Longrightarrow> pieces n s xs as zs"
proof (induction n s xs arbitrary: as rule: collect.induct)
  case (2 n s x xs)
  note front = pieces_front [of n _ xs _ zs s "[x]", simplified]
  consider "kind x = Token_Space \<or> kind x = Token_Newline" | "kind x = Token_ParenLeft" | "kind x = Token_ParenRight"
    | "kind x = Token_Identifier \<or> kind x = Token_ArgumentUnquoted" | "kind x = Token_ArgumentQuoted"
    | "kind x = Token_ArgumentBracket" | "kind x = Token_CommentBracket"
    using "2.prems" by (auto split: if_splits)
  then show ?case
  proof cases
    case 1
    with "2.prems" have "collect n SeparationOkay xs = Some (as, zs)" by auto
    from "2.IH"(1) [OF 1 this] 1 show ?thesis using front [of SeparationOkay as "[]"] arguments.space by simp
  next
    case x: 2
    with "2.prems" obtain bs where "collect (Suc n) SeparationOkay xs = Some (bs, zs)" "as = argument_of Unquoted x # bs"
      by (cases "collect (Suc n) SeparationOkay xs") auto
    with "2.IH"(2) x have "pieces (Suc n) SeparationOkay xs bs zs" by simp
    then obtain ys y us cs ds where p: "xs = ys @ y # us" "arguments SeparationOkay ys cs" "kind y = Token_ParenRight"
      "bs = cs @ argument_of Unquoted y # ds" "pieces n SeparationWarning us ds zs" by auto
    have "arguments s ((x # ys @ [y]) @ vs) ((argument_of Unquoted x # cs @ [argument_of Unquoted y]) @ es)"
      if "arguments SeparationWarning vs es" for vs es using arguments.group [OF x p(2,3) that, of s] by simp
    from pieces_front [OF p(5) this] show ?thesis using p(1,4) \<open>as = _\<close> by simp
  next
    case x: 3
    show ?thesis
    proof (cases n)
      case 0
      with "2.prems" x show ?thesis by (auto intro!: exI [of _ "[]"] arguments.no_argument)
    next
      case (Suc m)
      with "2.prems" x obtain bs where "collect m SeparationWarning xs = Some (bs, zs)" "as = argument_of Unquoted x # bs"
        by (cases "collect m SeparationWarning xs") auto
      with "2.IH"(3) x Suc have "pieces m SeparationWarning xs bs zs" by simp
      from next_piece [OF arguments.no_argument x this, of s] Suc \<open>as = _\<close> show ?thesis by simp
    qed
  next
    case x: 4
    with "2.prems" have s: "s \<noteq> SeparationError" by (auto split: if_splits)
    with x "2.prems" obtain bs where "collect n SeparationWarning xs = Some (bs, zs)" "as = argument_of Unquoted x # bs"
      by (cases "collect n SeparationWarning xs") auto
    with "2.IH"(4) x s have "pieces n SeparationWarning xs bs zs" by auto
    from front [OF this, of "[argument_of Unquoted x]"] show ?thesis using arguments.unquoted [OF x s] \<open>as = _\<close> by simp
  next
    case x: 5
    with "2.prems" have s: "s \<noteq> SeparationError" by (auto split: if_splits)
    with x "2.prems" obtain bs where "collect n SeparationWarning xs = Some (bs, zs)" "as = argument_of Quoted x # bs"
      by (cases "collect n SeparationWarning xs") auto
    with "2.IH"(5) x s have "pieces n SeparationWarning xs bs zs" by auto
    from front [OF this, of "[argument_of Quoted x]"] show ?thesis using arguments.quoted [OF x s] \<open>as = _\<close> by simp
  next
    case x: 6
    with "2.prems" have s: "s = SeparationOkay" by (auto split: if_splits)
    with x "2.prems" obtain bs where "collect n SeparationError xs = Some (bs, zs)" "as = argument_of Bracket x # bs"
      by (cases "collect n SeparationError xs") auto
    with "2.IH"(6) x s have "pieces n SeparationError xs bs zs" by auto
    from front [OF this, of "[argument_of Bracket x]"] show ?thesis using arguments.bracketed [OF x s] \<open>as = _\<close> by simp
  next
    case x: 7
    with "2.prems" have "collect n SeparationError xs = Some (as, zs)" by auto
    with "2.IH"(7) x have "pieces n SeparationError xs as zs" by auto
    from front [OF this, of "[]"] show ?thesis using arguments.comment [OF x] by simp
  qed
qed simp

text \<open>The count agrees with the grammar.\<close>

theorem collect_iff:
  "collect 0 s xs = Some (as, zs) \<longleftrightarrow> (\<exists>ys y. xs = ys @ y # zs \<and> arguments s ys as \<and> kind y = Token_ParenRight)"
proof
  assume "collect 0 s xs = Some (as, zs)"
  from collect_pieces [OF this] show "\<exists>ys y. xs = ys @ y # zs \<and> arguments s ys as \<and> kind y = Token_ParenRight" by simp
next
  assume "\<exists>ys y. xs = ys @ y # zs \<and> arguments s ys as \<and> kind y = Token_ParenRight"
  then obtain ys y where "xs = ys @ y # zs" "arguments s ys as" "kind y = Token_ParenRight" by blast
  with collect_arguments [OF this(2,3), of 0 zs] show "collect 0 s xs = Some (as, zs)" by simp
qed

lemma collect_shorter: "collect n s xs = Some (as, zs) \<Longrightarrow> length zs < length xs"
proof -
  have "pieces n s xs as zs \<Longrightarrow> length zs < length xs" for n s xs as
    by (induction n arbitrary: s xs as) (auto, metis add_lessD1 less_SucI add.commute trans_less_add1)
  then show "collect n s xs = Some (as, zs) \<Longrightarrow> length zs < length xs" using collect_pieces by blast
qed

section \<open>Files\<close>

text \<open>The tokens of a file and its commands; \<open>nl\<close> is whether a command may start.\<close>

inductive list_file :: "bool \<Rightarrow> lexeme list \<Rightarrow> cmListFileFunction list \<Rightarrow> bool" where
  empty_file: "list_file nl [] []"
| file_space: "kind x = Token_Space \<Longrightarrow> list_file nl xs fs \<Longrightarrow> list_file nl (x # xs) fs"
| file_newline: "kind x = Token_Newline \<Longrightarrow> list_file True xs fs \<Longrightarrow> list_file nl (x # xs) fs"
| file_comment: "kind x = Token_CommentBracket \<Longrightarrow> list_file False xs fs \<Longrightarrow> list_file nl (x # xs) fs"
| file_command: "kind x = Token_Identifier \<Longrightarrow> (\<forall>u\<in>set us. kind u = Token_Space) \<Longrightarrow> kind y = Token_ParenLeft
    \<Longrightarrow> arguments SeparationOkay xs as \<Longrightarrow> kind z = Token_ParenRight \<Longrightarrow> list_file False zs fs
    \<Longrightarrow> list_file True (x # us @ y # xs @ z # zs) (list_file_function (chars x) (fst (starts x)) as # fs)"

inductive_cases list_file_NilE: "list_file nl [] fs"
inductive_cases list_file_ConsE: "list_file nl (x # xs) fs"

end
