(* ===== verification/ListFileParse.thy ===== *)
theory ListFileParse
  imports ListFileGrammar
begin

text \<open>
  The parser of list files (\<^verbatim>\<open>cmListFileCache.cxx\<close>) implements the grammar: on every list of tokens that its
  lexer delivers it returns, with the commands of the grammar when there are some, and with a fatal error
  displayed otherwise.  The lemmas use of the lexer only the interface \<open>token_source\<close>.
\<close>

section \<open>Messages\<close>

text \<open>Only warnings of the author were displayed, or, after such, a fatal error.\<close>

definition author_messages :: "(MessageType \<times> byte list \<times> cmListFileBacktrace) list \<Rightarrow> bool" where
  "author_messages ms \<longleftrightarrow> (\<forall>m\<in>set ms. fst m = AUTHOR_WARNING \<or> fst m = AUTHOR_ERROR)"

definition warned :: "console \<Rightarrow> console \<Rightarrow> bool" where
  "warned c c' \<longleftrightarrow> (\<exists>ms. displayed c' = displayed c @ ms \<and> author_messages ms)"

definition failed :: "console \<Rightarrow> console \<Rightarrow> bool" where
  "failed c c' \<longleftrightarrow> (\<exists>ms msg bt. displayed c' = displayed c @ ms @ [(FATAL_ERROR, msg, bt)] \<and> author_messages ms) \<and> ErrorOccured c'"

lemma author_messages_simps [simp]:
  "author_messages []" "author_messages (ms @ ns) \<longleftrightarrow> author_messages ms \<and> author_messages ns"
  by (auto simp: author_messages_def)

lemma warned_refl [simp]: "warned c c"
  by (simp add: warned_def)

lemma warned_trans: "warned a b \<Longrightarrow> warned b c \<Longrightarrow> warned a c"
  and warned_failed: "warned a b \<Longrightarrow> failed b c \<Longrightarrow> failed a c"
proof -
  assume "warned a b"
  then obtain ms where ms: "displayed b = displayed a @ ms" "author_messages ms" by (auto simp: warned_def)
  show "warned a c" if bc: "warned b c"
  proof -
    obtain ns where "displayed c = displayed b @ ns" "author_messages ns" using bc by (auto simp: warned_def)
    with ms show ?thesis by (auto simp: warned_def)
  qed
  show "failed a c" if bc: "failed b c"
  proof -
    obtain ns msg bt where "displayed c = displayed b @ ns @ [(FATAL_ERROR, msg, bt)]" "author_messages ns" "ErrorOccured c"
      using bc by (auto simp: failed_def)
    with ms show ?thesis unfolding failed_def by (intro conjI exI [of _ "ms @ ns"] exI [of _ msg] exI [of _ bt]) simp_all
  qed
qed

lemma issue_warning: "warned c (IssueMessage m AUTHOR_WARNING msg bt c)"
  by (auto simp: IssueMessage_def Let_def ConvertMessageType_def DisplayMessage_def warned_def author_messages_def)

lemma issue_fatal: "failed c (IssueMessage m FATAL_ERROR msg bt c)" "failed c (SetFatalErrorOccured (IssueMessage m FATAL_ERROR msg bt c))"
  by (auto simp: IssueMessage_def ConvertMessageType_def IsMessageTypeVisible_def DisplayMessage_def SetFatalErrorOccured_def failed_def
      intro!: exI [of _ "[]"])

section \<open>What the functions keep\<close>

definition same_parse :: "cmListFileParser \<Rightarrow> cmListFileParser \<Rightarrow> bool" where
  "same_parse p p' \<longleftrightarrow> Functions p' = Functions p \<and> Backtrace p' = Backtrace p \<and> Messenger p' = Messenger p \<and> FileName p' = FileName p
     \<and> FunctionName p' = FunctionName p \<and> FunctionLine p' = FunctionLine p"

lemma same_parse_refl [simp]: "same_parse p p"
  and same_parse_trans: "same_parse p q \<Longrightarrow> same_parse q r \<Longrightarrow> same_parse p r"
  by (simp_all add: same_parse_def)

lemma issue_at_fatal:
  assumes "Backtrace p \<noteq> None"
  shows "\<exists>c. issue_at FATAL_ERROR msg ln p = Some (p\<lparr>Console := c\<rparr>) \<and> failed (Console p) c"
  using assms issue_fatal(1) by (auto simp: issue_at_def Push_def)

lemma IssueError_fails:
  assumes "Backtrace p \<noteq> None"
  shows "\<exists>c. IssueError msg p = Some (p\<lparr>Console := c\<rparr>) \<and> failed (Console p) c"
  using assms issue_fatal(2) by (auto simp: IssueError_def issue_at_def Push_def)

lemma unexpected_fails:
  assumes "Backtrace p \<noteq> None" and "token_text tk = Some s"
  shows "\<exists>c. unexpected msg tk p = Some (p\<lparr>Console := c\<rparr>) \<and> failed (Console p) c"
  using IssueError_fails [OF assms(1)] assms(2) by (simp add: unexpected_def)

text \<open>The token of the lexer shows a lexeme.\<close>

definition shows_lexeme :: "cmListFileLexer_Token \<Rightarrow> lexeme \<Rightarrow> bool" where
  "shows_lexeme tk x \<longleftrightarrow> token_text tk = Some (chars x) \<and> tok_type tk = kind x \<and> tok_line tk = fst (starts x)"

lemma AddArgument_adds:
  assumes "shows_lexeme tk x" and "Backtrace p \<noteq> None"
  shows "\<exists>c. AddArgument tk delim p = Some (Separation p = SeparationOkay \<or> Separation p = SeparationWarning \<and> delim \<noteq> Bracket,
      p\<lparr>FunctionArguments := FunctionArguments p @ [argument_of delim x], Console := c\<rparr>)
    \<and> (if Separation p = SeparationOkay \<or> Separation p = SeparationWarning \<and> delim \<noteq> Bracket then warned (Console p) c else failed (Console p) c)"
proof -
  obtain e where e: "Backtrace p = Some e" using assms(2) by blast
  have x: "token_text tk = Some (chars x)" "tok_line tk = fst (starts x)" using assms(1) by (simp_all add: shows_lexeme_def)
  show ?thesis
  proof (cases "Separation p = SeparationOkay")
    case True
    then show ?thesis using x by (intro exI [of _ "Console p"]) (simp add: AddArgument_def argument_of_def Let_def)
  next
    case False
    let ?fatal = "Separation p = SeparationError \<or> delim = Bracket"
    obtain m where m: "AddArgument tk delim p = Some (\<not> ?fatal, p\<lparr>FunctionArguments := FunctionArguments p @ [argument_of delim x],
        Console := IssueMessage (Messenger p) (if ?fatal then FATAL_ERROR else AUTHOR_WARNING) m (Some (Context_entry (line_context (FileName p) (fst (starts x))) e)) (Console p)\<rparr>)"
      using False x e by (simp add: AddArgument_def argument_of_def issue_at_def Push_def Let_def)
    have sep: "Separation p = SeparationWarning \<longleftrightarrow> Separation p \<noteq> SeparationError" using False by (cases "Separation p") auto
    show ?thesis
      unfolding m using False issue_warning issue_fatal(1) by (auto simp: sep)
  qed
qed

section \<open>One token of an argument list\<close>

lemma argument_token_collects:
  assumes x: "shows_lexeme tk x" and b: "Backtrace p \<noteq> None"
  shows "(\<exists>n' p' as. argument_token tk n p = Some (Inr n', p') \<and> same_parse p p' \<and> Lexer p' = Lexer p
        \<and> FunctionArguments p' = FunctionArguments p @ as \<and> warned (Console p) (Console p')
        \<and> (\<forall>xs. collect n (Separation p) (x # xs) = add_arguments as (collect n' (Separation p') xs)))
    \<or> argument_token tk n p = Some (Inl True, p) \<and> (\<forall>xs. collect n (Separation p) (x # xs) = Some ([], xs))
    \<or> (\<exists>p'. argument_token tk n p = Some (Inl False, p') \<and> same_parse p p' \<and> Lexer p' = Lexer p
        \<and> failed (Console p) (Console p') \<and> (\<forall>xs. collect n (Separation p) (x # xs) = None))"
    (is "?goes \<or> ?stops \<or> ?fails")
proof -
  have k: "tok_type tk = kind x" using x by (simp add: shows_lexeme_def)
  note add = AddArgument_adds [OF x]
  have adds: "?goes \<or> ?fails"
    if t: "argument_token tk n p = add_then tk delim sep n' (p\<lparr>Separation := s\<rparr>)"
      and c: "\<And>xs. collect n (Separation p) (x # xs)
        = (if s = SeparationOkay \<or> s = SeparationWarning \<and> delim \<noteq> Bracket then add_arguments [argument_of delim x] (collect n' sep xs) else None)"
    for delim sep n' s
  proof -
    let ?ok = "s = SeparationOkay \<or> s = SeparationWarning \<and> delim \<noteq> Bracket"
    obtain c' where a: "AddArgument tk delim (p\<lparr>Separation := s\<rparr>) = Some (?ok,
        p\<lparr>Separation := s, FunctionArguments := FunctionArguments p @ [argument_of delim x], Console := c'\<rparr>)"
      "if ?ok then warned (Console (p\<lparr>Separation := s\<rparr>)) c' else failed (Console (p\<lparr>Separation := s\<rparr>)) c'"
      using add [of "p\<lparr>Separation := s\<rparr>" delim] b by (simp del: not_None_eq) blast
    show ?thesis
    proof (cases ?ok)
      case True
      then have "argument_token tk n p = Some (Inr n', p\<lparr>Separation := sep, FunctionArguments := FunctionArguments p @ [argument_of delim x], Console := c'\<rparr>)"
        using a(1) by (simp add: t add_then_def)
      then show ?thesis using True a(2) c by (auto simp: same_parse_def)
    next
      case False
      then have "argument_token tk n p = Some (Inl False, p\<lparr>Separation := s, FunctionArguments := FunctionArguments p @ [argument_of delim x], Console := c'\<rparr>)"
        using a(1) by (simp add: t add_then_def)
      then show ?thesis using False a(2) c by (auto simp: same_parse_def)
    qed
  qed
  have p: "p\<lparr>Separation := Separation p\<rparr> = p" by simp
  have sep: "Separation p \<noteq> SeparationError \<longleftrightarrow> Separation p = SeparationOkay \<or> Separation p = SeparationWarning" by (cases "Separation p") auto
  show ?thesis
  proof (cases "kind x")
    case Token_Space
    then have "argument_token tk n p = Some (Inr n, p\<lparr>Separation := SeparationOkay\<rparr>)" using k by (simp add: argument_token_def)
    with Token_Space show ?thesis by (auto simp: same_parse_def intro!: exI [of _ "[]"])
  next
    case Token_Newline
    then have "argument_token tk n p = Some (Inr n, p\<lparr>Separation := SeparationOkay\<rparr>)" using k by (simp add: argument_token_def)
    with Token_Newline show ?thesis by (auto simp: same_parse_def intro!: exI [of _ "[]"])
  next
    case Token_CommentBracket
    then have "argument_token tk n p = Some (Inr n, p\<lparr>Separation := SeparationError\<rparr>)" using k by (simp add: argument_token_def)
    with Token_CommentBracket show ?thesis by (auto simp: same_parse_def intro!: exI [of _ "[]"])
  next
    case Token_ParenLeft
    with k sep have "?goes \<or> ?fails" by (intro adds [of Unquoted SeparationOkay "Suc n" SeparationOkay]) (simp_all add: argument_token_def)
    then show ?thesis by blast
  next
    case Token_ParenRight
    show ?thesis
    proof (cases n)
      case 0
      with k Token_ParenRight have ?stops by (simp add: argument_token_def)
      then show ?thesis by blast
    next
      case (Suc m)
      with k Token_ParenRight have "?goes \<or> ?fails" by (intro adds [of Unquoted SeparationWarning m SeparationOkay]) (simp_all add: argument_token_def)
      then show ?thesis by blast
    qed
  next
    case Token_Identifier
    with k sep have "?goes \<or> ?fails" by (intro adds [of Unquoted SeparationWarning n "Separation p"]) (simp_all add: argument_token_def)
    then show ?thesis by blast
  next
    case Token_ArgumentUnquoted
    with k sep have "?goes \<or> ?fails" by (intro adds [of Unquoted SeparationWarning n "Separation p"]) (simp_all add: argument_token_def)
    then show ?thesis by blast
  next
    case Token_ArgumentQuoted
    with k sep have "?goes \<or> ?fails" by (intro adds [of Quoted SeparationWarning n "Separation p"]) (simp_all add: argument_token_def)
    then show ?thesis by blast
  next
    case Token_ArgumentBracket
    with k sep have "?goes \<or> ?fails" by (intro adds [of Bracket SeparationError n "Separation p"]) (simp_all add: argument_token_def)
    then show ?thesis by blast
  qed (use k x unexpected_fails [OF b, of tk "chars x" "''Parse error.  Function missing ending \")\".  Instead found ''"] in
      \<open>auto simp: argument_token_def shows_lexeme_def same_parse_def\<close>)
qed

section \<open>The loops\<close>

text \<open>A command at the front of a file.\<close>

definition is_space :: "lexeme \<Rightarrow> bool" where
  "is_space x \<longleftrightarrow> kind x = Token_Space"

definition command_at :: "lexeme list \<Rightarrow> (cmListFileArgument list \<times> lexeme list) option" where
  "command_at xs = (case dropWhile is_space xs of [] \<Rightarrow> None
     | y # ys \<Rightarrow> if kind y = Token_ParenLeft then collect 0 SeparationOkay ys else None)"

lemma list_file_command:
  assumes "kind x = Token_Identifier"
  shows "list_file nl (x # xs) gs \<longleftrightarrow> nl \<and> (\<exists>as zs fs. command_at xs = Some (as, zs) \<and> list_file False zs fs
    \<and> gs = list_file_function (chars x) (fst (starts x)) as # fs)"
proof
  assume "list_file nl (x # xs) gs"
  then obtain us y ys as z zs fs where l: "nl" "xs = us @ y # ys @ z # zs" "\<forall>u\<in>set us. kind u = Token_Space" "kind y = Token_ParenLeft"
    "arguments SeparationOkay ys as" "kind z = Token_ParenRight" "list_file False zs fs"
    "gs = list_file_function (chars x) (fst (starts x)) as # fs"
    using assms by (elim list_file_ConsE) auto
  have "dropWhile is_space xs = y # ys @ z # zs" using l(2-4) by (simp add: is_space_def)
  moreover have "collect 0 SeparationOkay (ys @ z # zs) = Some (as, zs)" using l(5,6) collect_iff by blast
  ultimately show "nl \<and> (\<exists>as zs fs. command_at xs = Some (as, zs) \<and> list_file False zs fs
    \<and> gs = list_file_function (chars x) (fst (starts x)) as # fs)" using l by (simp add: command_at_def)
next
  assume "nl \<and> (\<exists>as zs fs. command_at xs = Some (as, zs) \<and> list_file False zs fs
    \<and> gs = list_file_function (chars x) (fst (starts x)) as # fs)"
  then obtain as zs fs where c: "nl" "command_at xs = Some (as, zs)" "list_file False zs fs"
    "gs = list_file_function (chars x) (fst (starts x)) as # fs" by blast
  obtain y ys where y: "dropWhile is_space xs = y # ys" "kind y = Token_ParenLeft" "collect 0 SeparationOkay ys = Some (as, zs)"
    using c(2) by (auto simp: command_at_def split: list.splits if_splits)
  then obtain us z where "ys = us @ z # zs" "arguments SeparationOkay us as" "kind z = Token_ParenRight" using collect_iff by blast
  moreover have "xs = takeWhile is_space xs @ y # ys" using takeWhile_dropWhile_id [of is_space xs] y(1) by simp
  moreover have "\<forall>u\<in>set (takeWhile is_space xs). kind u = Token_Space" using set_takeWhileD is_space_def by metis
  ultimately show "list_file nl (x # xs) gs" using file_command [OF assms, of "takeWhile is_space xs" y us as z zs fs] y(2) c(1,3,4) by simp
qed

lemma command_at_shorter: "command_at xs = Some (as, zs) \<Longrightarrow> length zs < length xs"
proof -
  assume "command_at xs = Some (as, zs)"
  then obtain y ys where "dropWhile is_space xs = y # ys" "collect 0 SeparationOkay ys = Some (as, zs)"
    by (auto simp: command_at_def split: list.splits if_splits)
  with collect_shorter length_dropWhile_le [of is_space xs] show ?thesis by (metis length_Cons less_SucI less_le_trans)
qed

lemma list_file_other:
  "list_file nl [] gs \<longleftrightarrow> gs = []"
  "kind x = Token_Space \<Longrightarrow> list_file nl (x # xs) gs \<longleftrightarrow> list_file nl xs gs"
  "kind x = Token_Newline \<Longrightarrow> list_file nl (x # xs) gs \<longleftrightarrow> list_file True xs gs"
  "kind x = Token_CommentBracket \<Longrightarrow> list_file nl (x # xs) gs \<longleftrightarrow> list_file False xs gs"
  "kind x \<notin> {Token_Space, Token_Newline, Token_CommentBracket, Token_Identifier} \<Longrightarrow> \<not> list_file nl (x # xs) gs"
  by (auto elim: list_file_NilE list_file_ConsE intro: list_file.intros)

lemma list_file_unique: "list_file nl xs fs \<Longrightarrow> list_file nl xs gs \<Longrightarrow> fs = gs"
proof (induction "length xs" arbitrary: nl xs fs gs rule: less_induct)
  case less
  show ?case
  proof (cases xs)
    case Nil
    with less.prems show ?thesis by (simp add: list_file_other)
  next
    case (Cons x ys)
    consider "kind x = Token_Space" | "kind x = Token_Newline" | "kind x = Token_CommentBracket" | "kind x = Token_Identifier"
      | "kind x \<notin> {Token_Space, Token_Newline, Token_CommentBracket, Token_Identifier}" by auto
    then show ?thesis
    proof cases
      case 4
      with less.prems Cons obtain as zs fs' gs' where "command_at ys = Some (as, zs)" "list_file False zs fs'" "list_file False zs gs'"
        "fs = list_file_function (chars x) (fst (starts x)) as # fs'" "gs = list_file_function (chars x) (fst (starts x)) as # gs'"
        by (auto simp: list_file_command)
      with less.hyps [of zs False fs' gs'] command_at_shorter [of ys as zs] Cons show ?thesis by simp
    qed (use less Cons list_file_other in auto)
  qed
qed

context token_source
begin

lemma Scan_shows:
  assumes "feeds l (x # xs)"
  obtains l' where "Scan l = Some (Some (token l'), l')" and "feeds l' xs" and "shows_lexeme (token l') x"
  using Scan_token [OF assms] by (auto simp: shows_lexeme_def)

lemma arguments_loop_collects:
  assumes "feeds (Lexer p) xs" and "Backtrace p \<noteq> None"
  shows "\<exists>r p' zs. arguments_loop n p = Some (r, p') \<and> same_parse p p' \<and> feeds (Lexer p') zs
    \<and> (case collect n (Separation p) xs of
        Some (as, ys) \<Rightarrow> r = Some True \<and> zs = ys \<and> FunctionArguments p' = FunctionArguments p @ as \<and> warned (Console p) (Console p')
      | None \<Rightarrow> r = None \<and> warned (Console p) (Console p') \<or> r = Some False \<and> failed (Console p) (Console p'))"
  using assms
proof (induction xs arbitrary: n p)
  case Nil
  then obtain l' where "Scan (Lexer p) = Some (None, l')" "feeds l' []" using Scan_end by blast
  then have "arguments_loop n p = Some (None, p\<lparr>Lexer := l'\<rparr>)" by (simp add: arguments_loop.simps)
  with \<open>feeds l' []\<close> show ?case by (auto simp: same_parse_def intro!: exI [of _ "[]"])
next
  case (Cons x xs)
  obtain l' where l': "Scan (Lexer p) = Some (Some (token l'), l')" "feeds l' xs" "shows_lexeme (token l') x"
    using Scan_shows [OF Cons.prems(1)] by blast
  let ?p = "p\<lparr>Lexer := l'\<rparr>"
  have p: "same_parse p ?p" "Separation ?p = Separation p" "FunctionArguments ?p = FunctionArguments p" "Console ?p = Console p" by (simp_all add: same_parse_def)
  have loop: "arguments_loop n p = Option.bind (argument_token (token l') n ?p)
      (\<lambda>(r, p). case r of Inl v \<Rightarrow> Some (Some v, p) | Inr depth \<Rightarrow> arguments_loop depth p)"
    by (subst arguments_loop.simps) (simp add: l'(1))
  have b: "Backtrace ?p \<noteq> None" using Cons.prems(2) by simp
  from argument_token_collects [OF l'(3) b, of n] show ?case
  proof (elim disjE exE conjE)
    fix n' p' as
    assume step: "argument_token (token l') n ?p = Some (Inr n', p')" "same_parse ?p p'" "Lexer p' = Lexer ?p"
      "FunctionArguments p' = FunctionArguments ?p @ as" "warned (Console ?p) (Console p')"
      "\<forall>xs. collect n (Separation ?p) (x # xs) = add_arguments as (collect n' (Separation p') xs)"
    have goes: "argument_token (token l') n ?p = Some (Inr n', p')" "same_parse ?p p'" "Lexer p' = l'"
      "FunctionArguments p' = FunctionArguments p @ as" "warned (Console p) (Console p')"
      "collect n (Separation p) (x # xs) = add_arguments as (collect n' (Separation p') xs)"
      using step(1-5) spec [OF step(6), of xs] by simp_all
    have "feeds (Lexer p') xs" "Backtrace p' \<noteq> None" using goes(2,3) l'(2) b by (simp_all add: same_parse_def)
    from Cons.IH [OF this, of n'] obtain r p2 zs where IH: "arguments_loop n' p' = Some (r, p2)" "same_parse p' p2" "feeds (Lexer p2) zs"
      "case collect n' (Separation p') xs of
        Some (as, ys) \<Rightarrow> r = Some True \<and> zs = ys \<and> FunctionArguments p2 = FunctionArguments p' @ as \<and> warned (Console p') (Console p2)
      | None \<Rightarrow> r = None \<and> warned (Console p') (Console p2) \<or> r = Some False \<and> failed (Console p') (Console p2)" by blast
    have "arguments_loop n p = Some (r, p2)" using loop goes(1) IH(1) by simp
    moreover have "same_parse p p2" using same_parse_trans [OF p(1) same_parse_trans [OF goes(2) IH(2)]] .
    moreover have "case collect n (Separation p) (x # xs) of
        Some (as, ys) \<Rightarrow> r = Some True \<and> zs = ys \<and> FunctionArguments p2 = FunctionArguments p @ as \<and> warned (Console p) (Console p2)
      | None \<Rightarrow> r = None \<and> warned (Console p) (Console p2) \<or> r = Some False \<and> failed (Console p) (Console p2)"
      unfolding goes(6) using IH(4) goes(4,5) warned_trans warned_failed
      by (cases "collect n' (Separation p') xs") auto
    ultimately show ?thesis using IH(3) by blast
  next
    assume stops: "argument_token (token l') n ?p = Some (Inl True, ?p)" "\<forall>xs. collect n (Separation ?p) (x # xs) = Some ([], xs)"
    have "arguments_loop n p = Some (Some True, ?p)" unfolding loop stops(1) by simp
    then show ?thesis
      using l'(2) p(1) spec [OF stops(2), of xs] by (intro exI [of _ "Some True"] exI [of _ ?p] exI [of _ xs]) (simp del: collect.simps)
  next
    fix p'
    assume fails: "argument_token (token l') n ?p = Some (Inl False, p')" "same_parse ?p p'" "Lexer p' = Lexer ?p"
      "failed (Console ?p) (Console p')" "\<forall>xs. collect n (Separation ?p) (x # xs) = None"
    have "arguments_loop n p = Some (Some False, p')" unfolding loop fails(1) by simp
    then show ?thesis
      using l'(2) same_parse_trans [OF p(1) fails(2)] fails(3,4) spec [OF fails(5), of xs]
      by (intro exI [of _ "Some False"] exI [of _ p'] exI [of _ xs]) (simp del: collect.simps)
  qed
qed

lemma skip_spaces_skips:
  assumes "feeds (Lexer p) xs"
  shows "\<exists>l'. (case dropWhile is_space xs of
      [] \<Rightarrow> skip_spaces p = Some (None, p\<lparr>Lexer := l'\<rparr>) \<and> feeds l' []
    | y # ys \<Rightarrow> skip_spaces p = Some (Some (token l'), p\<lparr>Lexer := l'\<rparr>) \<and> feeds l' ys \<and> shows_lexeme (token l') y)"
  using assms
proof (induction xs arbitrary: p)
  case Nil
  then obtain l' where "Scan (Lexer p) = Some (None, l')" "feeds l' []" using Scan_end by blast
  then show ?case by (subst skip_spaces.simps) auto
next
  case (Cons x xs)
  obtain l' where l': "Scan (Lexer p) = Some (Some (token l'), l')" "feeds l' xs" "shows_lexeme (token l') x"
    using Scan_shows [OF Cons.prems] by blast
  have k: "tok_type (token l') = Token_Space \<longleftrightarrow> is_space x" using l'(3) by (simp add: shows_lexeme_def is_space_def)
  show ?case
  proof (cases "is_space x")
    case True
    then have "skip_spaces p = skip_spaces (p\<lparr>Lexer := l'\<rparr>)" by (subst skip_spaces.simps) (simp add: l'(1) k)
    moreover obtain l2 where "case dropWhile is_space xs of
        [] \<Rightarrow> skip_spaces (p\<lparr>Lexer := l'\<rparr>) = Some (None, p\<lparr>Lexer := l', Lexer := l2\<rparr>) \<and> feeds l2 []
      | y # ys \<Rightarrow> skip_spaces (p\<lparr>Lexer := l'\<rparr>) = Some (Some (token l2), p\<lparr>Lexer := l', Lexer := l2\<rparr>) \<and> feeds l2 ys \<and> shows_lexeme (token l2) y"
      using Cons.IH [of "p\<lparr>Lexer := l'\<rparr>"] l'(2) by auto
    ultimately show ?thesis using True by (intro exI [of _ l2]) (cases "dropWhile is_space xs"; simp del: dropWhile_eq_Nil_conv)
  next
    case False
    then have "skip_spaces p = Some (Some (token l'), p\<lparr>Lexer := l'\<rparr>)" by (subst skip_spaces.simps) (simp add: l'(1) k)
    with False l'(2,3) show ?thesis by auto
  qed
qed

text \<open>A function: the parser fails, with an error, exactly when there is no command in front.\<close>

lemma ParseFunction_parses:
  assumes "feeds (Lexer p) xs" and "Backtrace p \<noteq> None"
  shows "\<exists>p' zs. ParseFunction name ln p = Some (command_at xs \<noteq> None, p') \<and> feeds (Lexer p') zs
    \<and> Functions p' = Functions p \<and> Backtrace p' = Backtrace p \<and> Messenger p' = Messenger p \<and> FileName p' = FileName p
    \<and> (case command_at xs of
        Some (as, ys) \<Rightarrow> zs = ys \<and> FunctionName p' = name \<and> FunctionLine p' = ln \<and> FunctionArguments p' = FunctionArguments p @ as
          \<and> warned (Console p) (Console p')
      | None \<Rightarrow> failed (Console p) (Console p'))"
proof -
  let ?p = "p\<lparr>FunctionName := name, FunctionLine := ln\<rparr>"
  have "feeds (Lexer ?p) xs" using assms(1) by simp
  from skip_spaces_skips [OF this] obtain l' where l': "case dropWhile is_space xs of
      [] \<Rightarrow> skip_spaces ?p = Some (None, ?p\<lparr>Lexer := l'\<rparr>) \<and> feeds l' []
    | y # ys \<Rightarrow> skip_spaces ?p = Some (Some (token l'), ?p\<lparr>Lexer := l'\<rparr>) \<and> feeds l' ys \<and> shows_lexeme (token l') y" by blast
  let ?q = "?p\<lparr>Lexer := l'\<rparr>"
  have q: "Backtrace ?q \<noteq> None" "Console ?q = Console p" using assms(2) by simp_all
  show ?thesis
  proof (cases "dropWhile is_space xs")
    case Nil
    with l' have s: "skip_spaces ?p = Some (None, ?q)" "feeds l' []" by (simp_all del: dropWhile_eq_Nil_conv)
    obtain c where c: "IssueError (ascii ''Unexpected end of file.'' @ [0x0A] @ ascii ''Parse error.  Function missing opening \"(\".'') ?q
        = Some (?q\<lparr>Console := c\<rparr>)" "failed (Console p) c" using IssueError_fails [OF q(1)] q(2) by metis
    have "command_at xs = None" unfolding command_at_def Nil by simp
    moreover have "ParseFunction name ln p = Some (False, ?q\<lparr>Console := c\<rparr>)" unfolding ParseFunction_def s(1) using c(1) by simp
    ultimately show ?thesis using s(2) c(2) by (intro exI [of _ "?q\<lparr>Console := c\<rparr>"] exI [of _ "[]"]) simp
  next
    case (Cons y ys)
    with l' have s: "skip_spaces ?p = Some (Some (token l'), ?q)" "feeds l' ys" "shows_lexeme (token l') y" by simp_all
    have k: "tok_type (token l') = kind y" "token_text (token l') = Some (chars y)" using s(3) by (simp_all add: shows_lexeme_def)
    show ?thesis
    proof (cases "kind y = Token_ParenLeft")
      case False
      obtain c where c: "unexpected ''Parse error.  Expected \"(\", got '' (token l') ?q = Some (?q\<lparr>Console := c\<rparr>)" "failed (Console p) c"
        using unexpected_fails [OF q(1) k(2)] q(2) by metis
      have "command_at xs = None" using Cons False by (simp add: command_at_def)
      moreover have "ParseFunction name ln p = Some (False, ?q\<lparr>Console := c\<rparr>)"
        unfolding ParseFunction_def s(1) using False c(1) k(1) by simp
      ultimately show ?thesis using s(2) c(2) by (intro exI [of _ "?q\<lparr>Console := c\<rparr>"] exI [of _ ys]) simp
    next
      case True
      let ?r = "?q\<lparr>Separation := SeparationOkay\<rparr>"
      have cmd: "command_at xs = collect 0 SeparationOkay ys" using Cons True by (simp add: command_at_def)
      have r: "Separation ?r = SeparationOkay" "FunctionArguments ?r = FunctionArguments p" "Console ?r = Console p" by simp_all
      have "feeds (Lexer ?r) ys" "Backtrace ?r \<noteq> None" using s(2) assms(2) by simp_all
      from arguments_loop_collects [OF this, of 0, unfolded r] obtain r p' zs where a: "arguments_loop 0 ?r = Some (r, p')" "same_parse ?r p'" "feeds (Lexer p') zs"
        "case collect 0 SeparationOkay ys of
          Some (as, ys) \<Rightarrow> r = Some True \<and> zs = ys \<and> FunctionArguments p' = FunctionArguments p @ as \<and> warned (Console p) (Console p')
        | None \<Rightarrow> r = None \<and> warned (Console p) (Console p') \<or> r = Some False \<and> failed (Console p) (Console p')" by blast
      have pf: "ParseFunction name ln p = (case r of Some v \<Rightarrow> Some (v, p') | None \<Rightarrow>
          do { p \<leftarrow> issue_at FATAL_ERROR (ascii ''Parse error.  Function missing ending \")\".  End of file reached.'') ln p'; Some (False, p) })"
        unfolding ParseFunction_def s(1) using True k(1) a(1) by simp
      have same: "Functions p' = Functions p" "Backtrace p' = Backtrace p" "Messenger p' = Messenger p" "FileName p' = FileName p"
        "FunctionName p' = name" "FunctionLine p' = ln" using a(2) by (simp_all add: same_parse_def)
      show ?thesis
      proof (cases r)
        case None
        have "Backtrace p' \<noteq> None" using same(2) assms(2) by simp
        then obtain c where c: "issue_at FATAL_ERROR (ascii ''Parse error.  Function missing ending \")\".  End of file reached.'') ln p'
          = Some (p'\<lparr>Console := c\<rparr>)" "failed (Console p') c" using issue_at_fatal by blast
        have n: "collect 0 SeparationOkay ys = None" "warned (Console p) (Console p')" using a(4) None by (auto split: option.splits)
        have "ParseFunction name ln p = Some (False, p'\<lparr>Console := c\<rparr>)" using pf None c(1) by simp
        then show ?thesis
          using a(3) same warned_failed [OF n(2) c(2)] by (intro exI [of _ "p'\<lparr>Console := c\<rparr>"] exI [of _ zs]) (simp add: cmd n(1))
      next
        case (Some v)
        then have "ParseFunction name ln p = Some (v, p')" using pf by simp
        moreover have "v = (collect 0 SeparationOkay ys \<noteq> None)" using a(4) Some by (auto split: option.splits)
        ultimately show ?thesis
          using a(3,4) same Some by (intro exI [of _ p'] exI [of _ zs]) (auto simp: cmd split: option.splits)
      qed
    qed
  qed
qed

text \<open>The commands of a file.\<close>

lemma commands_loop_parses:
  assumes "feeds (Lexer p) xs" and "Backtrace p \<noteq> None" and "FunctionArguments p = []"
  shows "\<exists>p' zs. feeds (Lexer p') zs \<and> Backtrace p' = Backtrace p \<and> Messenger p' = Messenger p \<and> FileName p' = FileName p
    \<and> (\<exists>gs. Functions p' = Functions p @ gs)
    \<and> ((\<exists>fs. list_file nl xs fs \<and> commands_loop nl p = Some (True, p') \<and> Functions p' = Functions p @ fs \<and> warned (Console p) (Console p'))
      \<or> (\<forall>fs. \<not> list_file nl xs fs) \<and> commands_loop nl p = Some (False, p') \<and> failed (Console p) (Console p'))"
  using assms
proof (induction "length xs" arbitrary: nl p xs rule: less_induct)
  case less
  show ?case
  proof (cases xs)
    case Nil
    with less.prems obtain l' where "Scan (Lexer p) = Some (None, l')" "feeds l' []" using Scan_end by blast
    then have "commands_loop nl p = Some (True, p\<lparr>Lexer := l'\<rparr>)" by (simp add: commands_loop.simps)
    with \<open>feeds l' []\<close> Nil show ?thesis
      by (intro exI [of _ "p\<lparr>Lexer := l'\<rparr>"] exI [of _ "[]"]) (simp add: list_file_other)
  next
    case (Cons x ys)
    with less.prems obtain l' where l': "Scan (Lexer p) = Some (Some (token l'), l')" "feeds l' ys" "shows_lexeme (token l') x"
      using Scan_shows by blast
    have k: "tok_type (token l') = kind x" "token_text (token l') = Some (chars x)" "tok_line (token l') = fst (starts x)"
      using l'(3) by (simp_all add: shows_lexeme_def)
    let ?p = "p\<lparr>Lexer := l'\<rparr>"
    have p: "Backtrace ?p \<noteq> None" "FunctionArguments ?p = []" "Console ?p = Console p" "feeds (Lexer ?p) ys" using less.prems l'(2) by simp_all
    have go: ?thesis if "commands_loop nl p = commands_loop nl' ?p" "\<And>fs. list_file nl xs fs = list_file nl' ys fs" for nl'
      using less.hyps [of ys ?p nl'] Cons p that by simp
    have stop: ?thesis if "commands_loop nl p = do { q \<leftarrow> unexpected msg (token l') ?p; Some (False, q) }" "\<And>fs. \<not> list_file nl xs fs" for msg
    proof -
      obtain c where "unexpected msg (token l') ?p = Some (?p\<lparr>Console := c\<rparr>)" "failed (Console p) c"
        using unexpected_fails [OF p(1) k(2)] p(3) by metis
      with that l'(2) show ?thesis by (intro exI [of _ "?p\<lparr>Console := c\<rparr>"] exI [of _ ys]) simp
    qed
    consider "kind x = Token_Space" | "kind x = Token_Newline" | "kind x = Token_CommentBracket" | "kind x = Token_Identifier"
      | "kind x \<notin> {Token_Space, Token_Newline, Token_CommentBracket, Token_Identifier}" by auto
    then show ?thesis
    proof cases
      case 1
      then show ?thesis by (intro go [of nl]) (simp_all add: commands_loop.simps [of nl p] l'(1) k(1) Cons list_file_other)
    next
      case 2
      then show ?thesis by (intro go [of True]) (simp_all add: commands_loop.simps [of nl p] l'(1) k(1) Cons list_file_other)
    next
      case 3
      then show ?thesis by (intro go [of False]) (simp_all add: commands_loop.simps [of nl p] l'(1) k(1) Cons list_file_other)
    next
      case 5
      then show ?thesis
        by (intro stop [of "''Parse error.  Expected a command name, got ''"])
          (simp_all add: commands_loop.simps [of nl p] l'(1) k(1) Cons list_file_other)
    next
      case x: 4
      show ?thesis
      proof (cases nl)
        case False
        with x show ?thesis
          by (intro stop [of "''Parse error.  Expected a newline, got ''"])
            (simp_all add: commands_loop.simps [of False p] l'(1) k(1) Cons list_file_command)
      next
        case nl: True
        have same: "Functions ?p = Functions p" "Backtrace ?p = Backtrace p" "Messenger ?p = Messenger p" "FileName ?p = FileName p" by simp_all
        from ParseFunction_parses [OF p(4,1), of "chars x" "fst (starts x)", unfolded p(2,3) same append_Nil] obtain q zs where
          q: "ParseFunction (chars x) (fst (starts x)) ?p = Some (command_at ys \<noteq> None, q)" "feeds (Lexer q) zs" "Functions q = Functions p"
            "Backtrace q = Backtrace p" "Messenger q = Messenger p" "FileName q = FileName p"
            "case command_at ys of
              Some (as, us) \<Rightarrow> zs = us \<and> FunctionName q = chars x \<and> FunctionLine q = fst (starts x) \<and> FunctionArguments q = as \<and> warned (Console p) (Console q)
            | None \<Rightarrow> failed (Console p) (Console q)"
          by blast
        let ?r = "q\<lparr>Functions := Functions q @ [list_file_function (FunctionName q) (FunctionLine q) (FunctionArguments q)],
            FunctionName := [], FunctionArguments := []\<rparr>"
        have loop: "commands_loop nl p = (if command_at ys \<noteq> None then commands_loop False ?r else Some (False, q))"
          using q(1) by (simp add: commands_loop.simps [of True p] l'(1) k x nl)
        show ?thesis
        proof (cases "command_at ys")
          case None
          then have "\<not> list_file nl xs fs" for fs using x by (simp add: Cons list_file_command)
          with None loop q show ?thesis by (intro exI [of _ q] exI [of _ zs]) simp
        next
          case (Some a)
          then obtain as us where a: "command_at ys = Some (as, us)" by (cases a) auto
          have f: "zs = us" "FunctionName q = chars x" "FunctionLine q = fst (starts x)" "FunctionArguments q = as" "warned (Console p) (Console q)"
            using q(7) by (simp_all add: a)
          have "length us < length xs" using command_at_shorter [OF a] Cons by simp
          moreover have "feeds (Lexer ?r) us" "Backtrace ?r \<noteq> None" "FunctionArguments ?r = []" using q(2,4) f(1) less.prems(2) by simp_all
          ultimately obtain p' vs where IH: "feeds (Lexer p') vs" "Backtrace p' = Backtrace ?r" "Messenger p' = Messenger ?r" "FileName p' = FileName ?r"
            "\<exists>gs. Functions p' = Functions ?r @ gs"
            "(\<exists>fs. list_file False us fs \<and> commands_loop False ?r = Some (True, p') \<and> Functions p' = Functions ?r @ fs \<and> warned (Console ?r) (Console p'))
              \<or> (\<forall>fs. \<not> list_file False us fs) \<and> commands_loop False ?r = Some (False, p') \<and> failed (Console ?r) (Console p')"
            using less.hyps [of us ?r False] by blast
          have lf: "list_file nl xs gs \<longleftrightarrow> (\<exists>fs. list_file False us fs \<and> gs = list_file_function (chars x) (fst (starts x)) as # fs)" for gs
            using x nl by (simp add: Cons list_file_command a)
          have l: "commands_loop nl p = commands_loop False ?r" using loop a by simp
          have keep: "Backtrace p' = Backtrace p" "Messenger p' = Messenger p" "FileName p' = FileName p" "\<exists>gs. Functions p' = Functions p @ gs"
            using IH(2-5) q(3-6) by auto
          from IH(6) show ?thesis
          proof (elim disjE exE conjE)
            fix fs assume fs: "list_file False us fs" "commands_loop False ?r = Some (True, p')" "Functions p' = Functions ?r @ fs" "warned (Console ?r) (Console p')"
            have "Functions p' = Functions p @ list_file_function (chars x) (fst (starts x)) as # fs" using fs(3) q(3) f(2-4) by simp
            moreover have "warned (Console p) (Console p')" using warned_trans [OF f(5)] fs(4) by simp
            ultimately show ?thesis using fs(1,2) l lf IH(1) keep by (intro exI [of _ p'] exI [of _ vs]) auto
          next
            assume no: "\<forall>fs. \<not> list_file False us fs" "commands_loop False ?r = Some (False, p')" "failed (Console ?r) (Console p')"
            have "failed (Console p) (Console p')" using warned_failed [OF f(5)] no(3) by simp
            then show ?thesis using no(1,2) l lf IH(1) keep by (intro exI [of _ p'] exI [of _ vs]) auto
          qed
        qed
      qed
    qed
  qed
qed

text \<open>A whole file: its commands, nested, or a fatal error.\<close>

lemma Parse_parses:
  assumes "feeds (Lexer p) xs" and "Backtrace p \<noteq> None" and "FunctionArguments p = []"
  shows "\<exists>ok p' zs. Parse p = Some (ok, p') \<and> feeds (Lexer p') zs
    \<and> (ok \<longleftrightarrow> (\<exists>fs. list_file True xs fs \<and> nested (flows (Functions p @ fs))))
    \<and> (if ok then \<exists>fs. list_file True xs fs \<and> Functions p' = Functions p @ fs \<and> warned (Console p) (Console p') else failed (Console p) (Console p'))"
proof -
  obtain q zs where q: "feeds (Lexer q) zs" "Backtrace q = Backtrace p"
    "(\<exists>fs. list_file True xs fs \<and> commands_loop True p = Some (True, q) \<and> Functions q = Functions p @ fs \<and> warned (Console p) (Console q))
      \<or> (\<forall>fs. \<not> list_file True xs fs) \<and> commands_loop True p = Some (False, q) \<and> failed (Console p) (Console q)"
    using commands_loop_parses [OF assms, of True] by blast
  from q(3) show ?thesis
  proof (elim disjE exE conjE)
    fix fs assume fs: "list_file True xs fs" "commands_loop True p = Some (True, q)" "Functions q = Functions p @ fs" "warned (Console p) (Console q)"
    have u: "gs = fs" if "list_file True xs gs" for gs using list_file_unique [OF that fs(1)] .
    have n: "CheckNesting q = None \<longleftrightarrow> nested (flows (Functions p @ fs))" by (simp only: CheckNesting_def loop_run nested_iff_run list.map fs(3))
    show ?thesis
    proof (cases "CheckNesting q")
      case None
      then have "Parse p = Some (True, q)" by (simp add: Parse_def fs(2))
      then show ?thesis using fs q(1) n None by (intro exI [of _ True] exI [of _ q] exI [of _ zs]) auto
    next
      case (Some lfc)
      obtain c where c: "Parse p = Some (False, q\<lparr>Console := c\<rparr>)" "failed (Console q) c"
        using q(2) assms(2) issue_fatal(2) [of "Console q" "Messenger q"] by (auto simp: Parse_def fs(2) Some Push_def)
      then show ?thesis
        using q(1) n Some u warned_failed [OF fs(4) c(2)] by (intro exI [of _ False] exI [of _ "q\<lparr>Console := c\<rparr>"] exI [of _ zs]) auto
    qed
  next
    assume no: "\<forall>fs. \<not> list_file True xs fs" "commands_loop True p = Some (False, q)" "failed (Console p) (Console q)"
    then have "Parse p = Some (False, q)" by (simp add: Parse_def)
    then show ?thesis using no(1,3) q(1) by (intro exI [of _ False] exI [of _ q] exI [of _ zs]) simp
  qed
qed

end

end
