(* ===== verification/ListFileWrite.thy ===== *)
theory ListFileWrite
  imports ListFileParse
begin

text \<open>
  Writing list files: commands with unquoted, quoted and bracket arguments, and the tokens that the lexer of
  \<^verbatim>\<open>LexerParser/cmListFileLexer.c\<close> makes of what was written.
\<close>

section \<open>The written form\<close>

datatype written = W_unquoted "byte list" | W_quoted "byte list" | W_bracket nat "byte list"

fun write_argument :: "written \<Rightarrow> byte list" where
  "write_argument (W_unquoted s) = s"
| "write_argument (W_quoted s) = 0x22 # s @ [0x22]"
| "write_argument (W_bracket k s) = open_text False k True @ s @ closing k"

text \<open>
  An unquoted argument has characters that mean nothing else; a quoted one has no quote that is not escaped, and
  no continued line; a bracket argument does not contain its closing bracket.
\<close>

fun writable :: "written \<Rightarrow> bool" where
  "writable (W_unquoted s) \<longleftrightarrow> s \<noteq> [] \<and> (\<forall>b\<in>set s. member PlainUnquoted b)"
| "writable (W_quoted s) \<longleftrightarrow> 0 \<notin> set s \<and> unquote (s @ [0x22]) = Some (s, [])"
| "writable (W_bracket k s) \<longleftrightarrow> 0 \<notin> set s \<and> bracket_end k (s @ closing k) = Some (s, [])"

fun written_value :: "written \<Rightarrow> byte list" where
  "written_value (W_unquoted s) = s"
| "written_value (W_quoted s) = s"
| "written_value (W_bracket k s) = s"

fun written_delim :: "written \<Rightarrow> Delimiter" where
  "written_delim (W_unquoted s) = Unquoted"
| "written_delim (W_quoted s) = Quoted"
| "written_delim (W_bracket k s) = Bracket"

definition is_identifier :: "byte list \<Rightarrow> bool" where
  "is_identifier s \<longleftrightarrow> s \<noteq> [] \<and> member IdentStart (hd s) \<and> (\<forall>b\<in>set s. member IdentChar b)"

definition write_arguments :: "written list \<Rightarrow> byte list" where
  "write_arguments ws = concat (map (\<lambda>w. 0x20 # write_argument w) ws)"

definition write_command :: "byte list \<times> written list \<Rightarrow> byte list" where
  "write_command c = fst c @ 0x28 # write_arguments (snd c) @ [0x29, 0x0A]"

definition write_commands :: "(byte list \<times> written list) list \<Rightarrow> byte list" where
  "write_commands cs = concat (map write_command cs)"

definition writable_command :: "byte list \<times> written list \<Rightarrow> bool" where
  "writable_command c \<longleftrightarrow> is_identifier (fst c) \<and> (\<forall>w\<in>set (snd c). writable w)"

text \<open>The commands that are read back, with the lines they are on; \<open>p\<close> is the position of the first.\<close>

fun read_arguments :: "int \<times> int \<Rightarrow> written list \<Rightarrow> cmListFileArgument list" where
  "read_arguments p [] = []"
| "read_arguments p (w # ws) =
     (let q = advance p [0x20]
      in \<lparr>arg_Value = written_value w, arg_Delim = written_delim w, arg_Line = fst q\<rparr> # read_arguments (advance q (write_argument w)) ws)"

fun read_commands :: "int \<times> int \<Rightarrow> (byte list \<times> written list) list \<Rightarrow> cmListFileFunction list" where
  "read_commands p [] = []"
| "read_commands p (c # cs) =
     list_file_function (fst c) (fst p) (read_arguments (advance p (fst c @ [0x28])) (snd c))
       # read_commands (advance p (write_command c)) cs"

section \<open>One token in front of a text\<close>

definition reads :: "byte list \<Rightarrow> token_type \<Rightarrow> byte list \<Rightarrow> byte list \<Rightarrow> bool" where
  "reads w k s t \<longleftrightarrow> (\<forall>x. \<exists>x'. lex INITIAL x (w @ t) = (True, INITIAL, x', t) \<and> kind x' = k \<and> chars x' = s
     \<and> starts x' = place x \<and> place x' = advance (place x) w)"

lemma reads_tokens:
  assumes "reads w k s t"
  obtains x' where "tokens x (w @ t) = x' # tokens x' t" and "kind x' = k" and "chars x' = s" and "starts x' = place x"
    and "place x' = advance (place x) w"
proof -
  obtain x' where x': "lex INITIAL x (w @ t) = (True, INITIAL, x', t)" "kind x' = k" "chars x' = s" "starts x' = place x"
    "place x' = advance (place x) w" using assms unfolding reads_def by blast
  have "tokens x (w @ t) = x' # tokens x' t" by (subst tokens.simps) (simp add: x'(1))
  from that [OF this x'(2-5)] show ?thesis .
qed

lemma reads_munch:
  assumes "munch (start_state INITIAL) (w @ t) 0 (0, 0) = (act, length w)" and "w \<noteq> []"
    and "simple_kind act = Some k \<or> act = 1 \<and> k = Token_Newline"
  shows "reads w k w t"
proof -
  have "match_effect act w INITIAL x = (True, INITIAL, begin_token k w x\<lparr>place := advance (place x) w\<rparr>)" for x
    using assms(3) by (auto simp: match_effect_def rule_effect_def begin_token_def split: if_splits)
  then show ?thesis
    using assms(1,2) unfolding reads_def by (subst lex.simps) (simp add: begin_token_def)
qed

text \<open>The states of the scanner in identifiers and in plain unquoted arguments.\<close>

definition plain_states :: "nat list" where "plain_states = [12, 17, 20, 35, 37, 42]"

lemma plain_steps:
  "list_all (\<lambda>q. list_all (\<lambda>c. class_has PlainUnquoted c \<longrightarrow> dfa_row q ! c \<in> set plain_states) [0..<17]) (1 # plain_states)"
  "list_all (\<lambda>q. dfa_row q ! 2 = 78 \<and> dfa_row q ! 9 = 78 \<and> yy_accept ! q \<in> {7, 13}) plain_states"
  "list_all (\<lambda>c. class_has IdentStart c \<longrightarrow> dfa_row 1 ! c = 20) [0..<17]"
  "list_all (\<lambda>q. list_all (\<lambda>c. class_has IdentChar c \<longrightarrow> dfa_row q ! c = 42) [0..<17]) [20, 42]"
  "dfa_row 20 ! 8 = 78" "dfa_row 42 ! 8 = 78"
  by (simp_all add: plain_states_def row_entries upt_rec yy_accept_def)

lemma row_step:
  assumes "list_all (\<lambda>q. list_all (\<lambda>c. class_has a c \<longrightarrow> P (dfa_row q ! c)) [0..<17]) qs" and "q \<in> set qs" and "member a b"
  shows "P (dfa_next q (yy_class b))"
proof -
  have "list_all (\<lambda>c. class_has a c \<longrightarrow> P (dfa_row q ! c)) [0..<17]" using assms(1,2) by (simp only: list_all_iff) blast
  moreover have "yy_class b \<in> set [0..<17]" using yy_class_bounds [of b] by simp
  ultimately have "class_has a (yy_class b) \<longrightarrow> P (dfa_row q ! yy_class b)" by (simp only: list_all_iff) blast
  then show ?thesis using assms(3) by (simp add: dfa_next_rows class_member)
qed

lemma plain_run:
  assumes "w \<noteq> []" and "\<forall>b\<in>set w. member PlainUnquoted b"
  shows "dfa_run 1 w \<in> set plain_states"
proof -
  have "q \<in> set plain_states \<Longrightarrow> \<forall>b\<in>set v. member PlainUnquoted b \<Longrightarrow> dfa_run q v \<in> set plain_states" for q v
    by (induction v arbitrary: q) (use row_step [OF plain_steps(1)] in \<open>auto\<close>)
  moreover have "dfa_next 1 (yy_class (hd w)) \<in> set plain_states"
    using row_step [OF plain_steps(1), of 1 "hd w"] assms by simp
  ultimately show ?thesis using assms by (cases w) auto
qed

lemma identifier_run:
  assumes "is_identifier w"
  shows "dfa_run 1 w \<in> {20, 42}"
proof -
  have "q \<in> set [20, 42] \<Longrightarrow> \<forall>b\<in>set v. member IdentChar b \<Longrightarrow> dfa_run q v \<in> {20, 42}" for q v
    by (induction v arbitrary: q) (use row_step [OF plain_steps(4)] in \<open>auto\<close>)
  moreover have "dfa_next 1 (yy_class (hd w)) = 20"
    using row_step [of IdentStart "\<lambda>q. q = 20" "[1]" 1 "hd w"] plain_steps(3) assms by (simp add: is_identifier_def)
  ultimately show ?thesis using assms by (cases w) (auto simp: is_identifier_def)
qed

section \<open>The tokens of what is written\<close>

lemma munch_word:
  assumes "dfa_run 1 w = q" and "yy_accept ! q = act" and "act \<noteq> 0" and "dfa_next q (yy_class c) = 78"
  shows "munch (start_state INITIAL) (w @ c # t) 0 best = (act, length w)"
proof -
  have "dfa_run 1 w \<noteq> 78" using assms(1-3) by (auto simp: dead_state)
  from munch_append [OF this, of "c # t" 0 best] assms show ?thesis by (auto simp: start_INITIAL)
qed

lemma class_values: "yy_class 0x20 = 2" "yy_class 0x28 = 8" "yy_class 0x29 = 9" "yy_class 0x0A = 3"
  by (simp_all add: yy_class_char ec_of_def)

lemma reads_unquoted:
  assumes "writable (W_unquoted s)" and "c = 0x20 \<or> c = 0x29"
  shows "\<exists>k. (k = Token_Identifier \<or> k = Token_ArgumentUnquoted) \<and> reads s k s (c # t)"
proof -
  have w: "s \<noteq> []" "\<forall>b\<in>set s. member PlainUnquoted b" using assms(1) by simp_all
  let ?q = "dfa_run 1 s"
  from plain_steps(2) plain_run [OF w] have q: "dfa_row ?q ! 2 = 78" "dfa_row ?q ! 9 = 78" "yy_accept ! ?q \<in> {7, 13}"
    by (auto simp: list_all_iff)
  have "dfa_next ?q (yy_class c) = 78" using assms(2) q(1,2) by (auto simp: class_values dfa_next_rows)
  with q(3) have m: "munch (start_state INITIAL) (s @ c # t) 0 (0, 0) = (yy_accept ! ?q, length s)" by (intro munch_word) auto
  from q(3) obtain k where "simple_kind (yy_accept ! ?q) = Some k" "k = Token_Identifier \<or> k = Token_ArgumentUnquoted" by auto
  with reads_munch [OF m w(1)] show ?thesis by blast
qed

lemma reads_name: "is_identifier w \<Longrightarrow> reads w Token_Identifier w (0x28 # t)"
proof -
  assume w: "is_identifier w"
  have "yy_accept ! 20 = 7" "yy_accept ! 42 = 7" by (simp_all add: yy_accept_def)
  with identifier_run [OF w] plain_steps(5,6) have "munch (start_state INITIAL) (w @ 0x28 # t) 0 (0, 0) = (7, length w)"
    by (intro munch_word [of _ "dfa_run 1 w"]) (auto simp: class_values dfa_next_rows)
  then show ?thesis using w by (intro reads_munch) (auto simp: is_identifier_def)
qed

lemma reads_space:
  assumes "\<not> member Blank c"
  shows "reads [0x20] Token_Space [0x20] (c # t)"
proof -
  have "list_all (\<lambda>n. class_has Blank n \<or> dfa_row 13 ! n = 78) [1..<17]" "dfa_row 1 ! 2 = 13" "yy_accept ! 13 = 22"
    by (simp_all add: row_entries upt_rec yy_accept_def)
  moreover have "yy_class c \<in> set [1..<17]" using yy_class_bounds [of c] by simp
  ultimately have "dfa_row 13 ! yy_class c = 78" using assms unfolding class_member by (simp only: list_all_iff) blast
  then have "munch (start_state INITIAL) ([0x20] @ c # t) 0 (0, 0) = (22, length [0x20 :: byte])"
    using \<open>dfa_row 1 ! 2 = 13\<close> \<open>yy_accept ! 13 = 22\<close> by (intro munch_word [of _ 13]) (simp_all add: class_values dfa_next_rows)
  then show ?thesis by (rule reads_munch) simp_all
qed

lemma reads_marks:
  "reads [0x28] Token_ParenLeft [0x28] t" "reads [0x29] Token_ParenRight [0x29] t" "reads [0x0A] Token_Newline [0x0A] t"
proof -
  have mark: "munch (start_state INITIAL) ([c] @ t) 0 (0, 0) = (act, length [c])"
    if "dfa_row 1 ! yy_class c = q" "input_state q" "yy_base ! q = 298" "yy_accept ! q = act" "act \<noteq> 0" for c q act
    using that munch_full [of q t "Suc 0"] by (auto simp: start_INITIAL dfa_next_rows Let_def dead_state yy_accept_def)
  show "reads [0x28] Token_ParenLeft [0x28] t"
    by (intro reads_munch [OF mark [where q = 18 and act = 5]]) (simp_all add: class_values row_entries input_state_def yy_base_def yy_accept_def)
  show "reads [0x29] Token_ParenRight [0x29] t"
    by (intro reads_munch [OF mark [where q = 19 and act = 6]]) (simp_all add: class_values row_entries input_state_def yy_base_def yy_accept_def)
  show "reads [0x0A] Token_Newline [0x0A] t"
    by (intro reads_munch [OF mark [where q = 14 and act = 1]]) (simp_all add: class_values row_entries input_state_def yy_base_def yy_accept_def)
qed

lemma unquote_append: "unquote t = Some (s, u) \<Longrightarrow> unquote (t @ r) = Some (s, u @ r)"
proof (induction t arbitrary: s rule: unquote.induct)
  case (2 c)
  then show ?case by (cases r) (auto split: if_splits)
next
  case (3 c d t)
  then show ?case by (auto split: if_splits)
qed simp

lemma bracket_end_length: "bracket_end k t = Some (s, u) \<Longrightarrow> k + 2 \<le> length t"
proof (induction t arbitrary: s)
  case (Cons c t)
  show ?case
  proof (cases "take (k + 2) (c # t) = closing k")
    case True
    then have "length (take (k + 2) (c # t)) = k + 2" by (simp only: closing_def) simp
    then show ?thesis by simp
  next
    case False
    with Cons.prems obtain v where "bracket_end k t = Some (v, u)" by (auto simp del: take_Suc_Cons)
    with Cons.IH show ?thesis by fastforce
  qed
qed simp

lemma bracket_end_append: "bracket_end k t = Some (s, u) \<Longrightarrow> bracket_end k (t @ r) = Some (s, u @ r)"
proof (induction t arbitrary: s)
  case (Cons c t)
  have l: "k + 2 \<le> length (c # t)" by (rule bracket_end_length [OF Cons.prems])
  then have td: "take (k + 2) (c # t @ r) = take (k + 2) (c # t)" "drop (k + 2) (c # t @ r) = drop (k + 2) (c # t) @ r"
    using take_append [of "k + 2" "c # t" r] drop_append [of "k + 2" "c # t" r] by simp_all
  show ?case
  proof (cases "take (k + 2) (c # t) = closing k")
    case True
    then have "bracket_end k (c # t) = Some ([], drop (k + 2) (c # t))" "bracket_end k ((c # t) @ r) = Some ([], drop (k + 2) (c # t) @ r)"
      by (simp_all only: bracket_end.simps append_Cons td simp_thms if_True)
    with Cons.prems show ?thesis by simp
  next
    case False
    then have e: "bracket_end k (c # t) = map_option (apfst ((#) c)) (bracket_end k t)"
      "bracket_end k ((c # t) @ r) = map_option (apfst ((#) c)) (bracket_end k (t @ r))"
      by (simp_all only: bracket_end.simps append_Cons td if_False)
    from Cons.prems [unfolded e(1)] obtain v where v: "bracket_end k t = Some (v, u)" "s = c # v" by auto
    show ?thesis unfolding e(2) Cons.IH [OF v(1)] v(2) by simp
  qed
qed simp

lemma reads_lex:
  assumes "\<And>x. \<exists>x'. lex INITIAL x (w @ t) = (True, INITIAL, x', t) \<and> kind x' = k \<and> chars x' = s \<and> starts x' = place x"
  shows "reads w k s t"
  unfolding reads_def
proof
  fix x
  obtain x' where x': "lex INITIAL x (w @ t) = (True, INITIAL, x', t)" "kind x' = k" "chars x' = s" "starts x' = place x"
    using assms by blast
  from lex_place [OF x'(1)] have "place x' = advance (place x) w" by auto
  with x' show "\<exists>x'. lex INITIAL x (w @ t) = (True, INITIAL, x', t) \<and> kind x' = k \<and> chars x' = s
     \<and> starts x' = place x \<and> place x' = advance (place x) w" by blast
qed

lemma reads_quoted:
  assumes "writable (W_quoted s)" and "0 \<notin> set t"
  shows "reads (write_argument (W_quoted s)) Token_ArgumentQuoted s t"
proof (rule reads_lex)
  fix x :: lexeme
  let ?x = "x\<lparr>kind := Token_ArgumentQuoted, chars := [], starts := place x, place := advance (place x) [0x22]\<rparr>"
  have z: "0 \<notin> set ((s @ [0x22]) @ t)" using assms by simp
  have "unquote ((s @ [0x22]) @ t) = Some (s, t)" using unquote_append [of "s @ [0x22]" s "[]" t] assms(1) by simp
  with lex_string [OF z, of ?x] obtain x' where "lex STRING ?x ((s @ [0x22]) @ t) = (True, INITIAL, x', t)"
    "kind x' = Token_ArgumentQuoted" "chars x' = s" "starts x' = place x" by auto
  then show "\<exists>x'. lex INITIAL x (write_argument (W_quoted s) @ t) = (True, INITIAL, x', t) \<and> kind x' = Token_ArgumentQuoted
      \<and> chars x' = s \<and> starts x' = place x" by (simp add: lex_open_quote)
qed

lemma reads_bracket:
  assumes "writable (W_bracket k s)" and "0 \<notin> set t"
  shows "reads (write_argument (W_bracket k s)) Token_ArgumentBracket s t"
proof (rule reads_lex)
  fix x :: lexeme
  let ?t = "(s @ closing k) @ t"
  have z: "0 \<notin> set ?t" using assms by (auto simp: closing_def)
  have w: "write_argument (W_bracket k s) @ t = open_text False k False @ 0x0A # ?t" by (simp add: open_text_def)
  have e: "bracket_end k ?t = Some (s, t)" using bracket_end_append [of k "s @ closing k" s "[]" t] assms(1) by simp
  show "\<exists>x'. lex INITIAL x (write_argument (W_bracket k s) @ t) = (True, INITIAL, x', t) \<and> kind x' = Token_ArgumentBracket \<and> chars x' = s \<and> starts x' = place x"
  proof -
    let ?x = "x\<lparr>kind := Token_ArgumentBracket, chars := [], starts := place x, brackets := k + 1, place := advance (place x) (open_text False k True)\<rparr>"
    from lex_bracket [OF z, of ?x k] e obtain x' where "lex BRACKET ?x ?t = (True, INITIAL, x', t)" "kind x' = Token_ArgumentBracket"
      "chars x' = s" "starts x' = place x" by auto
    then show ?thesis unfolding w lex_open_bracket by simp
  qed
qed

section \<open>Reading what is written\<close>

lemma no_zero:
  "writable w \<Longrightarrow> 0 \<notin> set (write_argument w)" "is_identifier s \<Longrightarrow> 0 \<notin> set s"
  by (cases w) (auto simp: open_text_def closing_def member_def is_identifier_def)

lemma no_zero_arguments: "\<forall>w\<in>set ws. writable w \<Longrightarrow> 0 \<notin> set (write_arguments ws)"
  using no_zero(1) by (auto simp: write_arguments_def)

lemma no_zero_commands: "\<forall>c\<in>set cs. writable_command c \<Longrightarrow> 0 \<notin> set (write_commands cs)"
  using no_zero(2) no_zero_arguments by (auto simp: write_commands_def write_command_def writable_command_def)

lemma starts_argument: "writable w \<Longrightarrow> \<exists>c v. write_argument w @ t = c # v \<and> \<not> member Blank c"
proof (cases w)
  case (W_unquoted s)
  assume "writable w"
  with W_unquoted show ?thesis by (cases s) (auto simp: member_def)
qed (auto simp: open_text_def member_def)

text \<open>The token of an argument, after a space.\<close>

lemma reads_argument:
  assumes "writable w" and "0 \<notin> set t" and "c = 0x20 \<or> c = 0x29"
  obtains k where "reads (write_argument w) k (written_value w) (c # t)"
    and "\<And>x xs. kind x = k \<Longrightarrow> chars x = written_value w \<Longrightarrow> \<exists>s. collect 0 SeparationOkay (x # xs)
      = add_arguments [\<lparr>arg_Value = written_value w, arg_Delim = written_delim w, arg_Line = fst (starts x)\<rparr>] (collect 0 s xs)"
proof (cases w)
  case (W_unquoted s)
  with reads_unquoted [of s c t] assms obtain k where k: "k = Token_Identifier \<or> k = Token_ArgumentUnquoted" "reads s k s (c # t)" by auto
  with W_unquoted show ?thesis by (intro that [of k]) (auto simp: argument_of_def)
next
  case (W_quoted s)
  have "0 \<notin> set (c # t)" using assms(2,3) by auto
  with reads_quoted [of s "c # t"] assms(1) W_quoted show ?thesis by (intro that [of Token_ArgumentQuoted]) (auto simp: argument_of_def)
next
  case (W_bracket k s)
  have "0 \<notin> set (c # t)" using assms(2,3) by auto
  with reads_bracket [of k s "c # t"] assms(1) W_bracket show ?thesis by (intro that [of Token_ArgumentBracket]) (auto simp: argument_of_def)
qed

lemma collect_written:
  assumes "\<forall>w\<in>set ws. writable w" and "0 \<notin> set t"
  shows "\<exists>x'. collect 0 s (tokens x (write_arguments ws @ 0x29 # t)) = Some (read_arguments (place x) ws, tokens x' t)
    \<and> place x' = advance (place x) (write_arguments ws @ [0x29])"
  using assms(1)
proof (induction ws arbitrary: s x)
  case Nil
  obtain x' where "tokens x ([0x29] @ t) = x' # tokens x' t" "kind x' = Token_ParenRight" "place x' = advance (place x) [0x29]"
    using reads_tokens [OF reads_marks(2)] by blast
  then show ?case by (auto simp: write_arguments_def)
next
  case (Cons w ws)
  let ?r = "write_arguments ws @ 0x29 # t"
  have z: "0 \<notin> set ?r" using no_zero_arguments [of ws] Cons.prems assms(2) by simp
  obtain c v where c: "?r = c # v" "c = 0x20 \<or> c = 0x29" by (cases ws) (auto simp: write_arguments_def)
  then have v: "0 \<notin> set v" using z by simp
  have w: "writable w" using Cons.prems by simp
  obtain d u where d: "write_argument w @ ?r = d # u" "\<not> member Blank d" using starts_argument [OF w] by blast
  obtain x1 where x1: "tokens x ([0x20] @ d # u) = x1 # tokens x1 (d # u)" "kind x1 = Token_Space" "place x1 = advance (place x) [0x20]"
    using reads_tokens [OF reads_space [OF d(2)]] by blast
  obtain k where k: "reads (write_argument w) k (written_value w) (c # v)"
    "\<And>x xs. kind x = k \<Longrightarrow> chars x = written_value w \<Longrightarrow> \<exists>s. collect 0 SeparationOkay (x # xs)
      = add_arguments [\<lparr>arg_Value = written_value w, arg_Delim = written_delim w, arg_Line = fst (starts x)\<rparr>] (collect 0 s xs)"
    by (rule reads_argument [OF w v c(2)]) (rule that)
  obtain x2 where x2: "tokens x1 (write_argument w @ ?r) = x2 # tokens x2 ?r" "kind x2 = k" "chars x2 = written_value w"
    "starts x2 = place x1" "place x2 = advance (place x1) (write_argument w)"
    using reads_tokens [OF k(1), of x1] unfolding c(1) by blast
  obtain s' where s': "collect 0 SeparationOkay (x2 # tokens x2 ?r)
      = add_arguments [\<lparr>arg_Value = written_value w, arg_Delim = written_delim w, arg_Line = fst (starts x2)\<rparr>] (collect 0 s' (tokens x2 ?r))"
    using k(2) [OF x2(2,3)] by blast
  obtain x' where x': "collect 0 s' (tokens x2 ?r) = Some (read_arguments (place x2) ws, tokens x' t)"
    "place x' = advance (place x2) (write_arguments ws @ [0x29])" using Cons.IH [of s' x2] Cons.prems by auto
  have whole: "write_arguments (w # ws) @ 0x29 # t = [0x20] @ d # u" unfolding d(1) [symmetric] by (simp add: write_arguments_def)
  have toks: "tokens x (write_arguments (w # ws) @ 0x29 # t) = x1 # x2 # tokens x2 ?r"
    unfolding whole x1(1) unfolding d(1) [symmetric] x2(1) ..
  have "collect 0 s (x1 # x2 # tokens x2 ?r) = collect 0 SeparationOkay (x2 # tokens x2 ?r)" using x1(2) by simp
  also have "\<dots> = Some (read_arguments (place x) (w # ws), tokens x' t)"
    unfolding s' x'(1) by (simp add: x2(4,5) x1(3) Let_def)
  finally have "collect 0 s (tokens x (write_arguments (w # ws) @ 0x29 # t)) = Some (read_arguments (place x) (w # ws), tokens x' t)"
    unfolding toks .
  moreover have "place x' = advance (place x) (write_arguments (w # ws) @ [0x29])"
    unfolding x'(2) x2(5) x1(3) by (cases "place x") (simp add: write_arguments_def)
  ultimately show ?case by blast
qed

lemma command_written:
  assumes "writable_command c" and "0 \<notin> set t"
  obtains x' where "\<And>fs. list_file True (tokens x (write_command c @ t)) fs \<longleftrightarrow>
      (\<exists>gs. list_file True (tokens x' t) gs
        \<and> fs = list_file_function (fst c) (fst (place x)) (read_arguments (advance (place x) (fst c @ [0x28])) (snd c)) # gs)"
    and "place x' = advance (place x) (write_command c)"
proof -
  have c: "is_identifier (fst c)" "\<forall>w\<in>set (snd c). writable w" using assms(1) by (simp_all add: writable_command_def)
  let ?a = "write_arguments (snd c) @ 0x29 # 0x0A # t"
  obtain x1 where x1: "tokens x (fst c @ 0x28 # ?a) = x1 # tokens x1 (0x28 # ?a)" "kind x1 = Token_Identifier" "chars x1 = fst c"
    "starts x1 = place x" "place x1 = advance (place x) (fst c)" using reads_tokens [OF reads_name [OF c(1)]] by blast
  obtain x2 where x2: "tokens x1 ([0x28] @ ?a) = x2 # tokens x2 ?a" "kind x2 = Token_ParenLeft" "place x2 = advance (place x1) [0x28]"
    using reads_tokens [OF reads_marks(1)] by blast
  have "0 \<notin> set (0x0A # t)" using assms(2) by simp
  from collect_written [OF c(2) this] obtain x3 where
    x3: "collect 0 SeparationOkay (tokens x2 ?a) = Some (read_arguments (place x2) (snd c), tokens x3 (0x0A # t))"
      "place x3 = advance (place x2) (write_arguments (snd c) @ [0x29])" by blast
  obtain x4 where x4: "tokens x3 ([0x0A] @ t) = x4 # tokens x4 t" "kind x4 = Token_Newline" "place x4 = advance (place x3) [0x0A]"
    using reads_tokens [OF reads_marks(3)] by blast
  have toks: "tokens x (write_command c @ t) = x1 # x2 # tokens x2 ?a" using x1(1) x2(1) by (simp add: write_command_def)
  have p2: "place x2 = advance (place x) (fst c @ [0x28])" using x2(3) x1(5) by (cases "place x") simp
  have "command_at (x2 # tokens x2 ?a) = Some (read_arguments (place x2) (snd c), x4 # tokens x4 t)"
    using x2(2) x3(1) x4(1) by (simp add: command_at_def is_space_def)
  then have "list_file True (tokens x (write_command c @ t)) fs \<longleftrightarrow> (\<exists>gs. list_file True (tokens x4 t) gs
        \<and> fs = list_file_function (fst c) (fst (place x)) (read_arguments (place x2) (snd c)) # gs)" for fs
    unfolding toks using x1(2-4) x4(2) by (simp add: list_file_command list_file_other)
  moreover have "place x4 = advance (place x) (write_command c)"
    unfolding x4(3) x3(2) p2 by (simp add: write_command_def del: advance_simps flip: advance_simps(3))
  ultimately show ?thesis unfolding p2 by (intro that [of x4])
qed

text \<open>A written file is a file of the grammar, and its commands are those that were written.\<close>

lemma list_file_written:
  "\<forall>c\<in>set cs. writable_command c \<Longrightarrow> list_file True (tokens x (write_commands cs)) fs \<longleftrightarrow> fs = read_commands (place x) cs"
proof (induction cs arbitrary: x fs)
  case Nil
  have "tokens x [] = []" by (subst tokens.simps) (simp add: lex_Nil at_end_def)
  then show ?case by (simp add: write_commands_def list_file_other)
next
  case (Cons c cs)
  have c: "writable_command c" "0 \<notin> set (write_commands cs)" using Cons.prems no_zero_commands [of cs] by simp_all
  obtain x' where x': "\<And>fs. list_file True (tokens x (write_command c @ write_commands cs)) fs \<longleftrightarrow>
      (\<exists>gs. list_file True (tokens x' (write_commands cs)) gs
        \<and> fs = list_file_function (fst c) (fst (place x)) (read_arguments (advance (place x) (fst c @ [0x28])) (snd c)) # gs)"
    "place x' = advance (place x) (write_command c)" using command_written [OF c] by blast
  with Cons show ?case by (simp add: write_commands_def)
qed

end
