(* ===== verification/ListFileParser.thy ===== *)
theory ListFileParser
  imports ListFileWrite
begin

text \<open>
  What the parser of list files (\<^verbatim>\<open>cmListFileCache.cxx\<close>) promises to its callers: it accepts exactly the files
  of the grammar whose blocks are nested, and reports where they are not.
\<close>

section \<open>A sample\<close>

text \<open>A messenger that shows everything, and a console without messages.\<close>

definition plain_messenger :: cmMessenger where
  "plain_messenger = \<lparr>SuppressDevWarnings = False, SuppressDeprecatedWarnings = False, DevWarningsAsErrors = False,
     DeprecatedWarningsAsErrors = False\<rparr>"

definition new_console :: console where
  "new_console = \<lparr>displayed = [], ErrorOccured = False, FatalErrorOccured = False\<rparr>"

text \<open>A file with a conditional and every kind of argument.\<close>

definition sample :: "(byte list \<times> written list) list" where
  "sample = [(ascii ''if'', [W_unquoted (ascii ''A'')]), (ascii ''Set'', [W_quoted (ascii ''b ;c''), W_bracket 1 (ascii '']]'')]), (ascii ''endif'', [])]"

lemma sample_writable: "\<forall>k\<in>set sample. writable_command k"
  by (simp add: sample_def writable_command_def is_identifier_def ascii_def member_def closing_def)

lemma sample_nested: "nested (flows ([] @ read_commands (1, 1) sample))"
  by (simp add: sample_def list_file_function_def command_name_def LowerCase_def ascii_def ascii_lower_def flow_of_def nested_iff_run Let_def)

section \<open>Strings\<close>

lemma ParseString_Parse:
  assumes "0 \<notin> set t"
  shows "cmListFile_ParseString True (t @ [0]) name m lfbt c fs = finish_parse (Parse
    \<lparr>Functions = fs, Backtrace = lfbt, Messenger = m, Console = c, FileName = name, Lexer = string_lexer t,
     FunctionName = [], FunctionLine = 0, FunctionArguments = [], Separation = SeparationOkay\<rparr>)"
proof -
  obtain l where "cmListFileLexer_New True = Some l" "SetString True l (Some (t @ [0])) = Some (1, string_lexer t)"
    using string_lexer_set [OF assms] by (auto simp: bind_eq_Some_conv)
  then show ?thesis by (simp add: cmListFile_ParseString_def cmListFileParser_new_def parser_ParseString_def)
qed

lemma ParseString_parses:
  assumes "0 \<notin> set t" and "lfbt \<noteq> None"
  shows "\<exists>ok fs' c'. cmListFile_ParseString True (t @ [0]) name m lfbt c fs = Some (ok, fs', c')
    \<and> (ok \<longleftrightarrow> (\<exists>gs. list_file True (tokens new_lexeme t) gs \<and> nested (flows (fs @ gs))))
    \<and> (if ok then \<exists>gs. list_file True (tokens new_lexeme t) gs \<and> fs' = fs @ gs \<and> warned c c' else failed c c')"
proof -
  let ?p = "\<lparr>Functions = fs, Backtrace = lfbt, Messenger = m, Console = c, FileName = name, Lexer = string_lexer t,
    FunctionName = [], FunctionLine = 0, FunctionArguments = [], Separation = SeparationOkay\<rparr>"
  have p: "has_tokens (Lexer ?p) (tokens new_lexeme t)" "Backtrace ?p \<noteq> None" "FunctionArguments ?p = []"
    "Functions ?p = fs" "Console ?p = c" using string_tokens assms by simp_all
  from list_file.Parse_parses [OF p(1-3), unfolded p(4,5)] obtain ok p' zs where r: "Parse ?p = Some (ok, p')" "has_tokens (Lexer p') zs"
    "ok \<longleftrightarrow> (\<exists>gs. list_file True (tokens new_lexeme t) gs \<and> nested (flows (fs @ gs)))"
    "if ok then \<exists>gs. list_file True (tokens new_lexeme t) gs \<and> Functions p' = fs @ gs \<and> warned c (Console p') else failed c (Console p')"
    by blast
  have "cmListFile_ParseString True (t @ [0]) name m lfbt c fs = Some (ok, Functions p', Console p')"
    using r(1) list_file.Delete_defined [OF r(2)] by (simp add: ParseString_Parse [OF assms(1)] finish_parse_def)
  with r(3,4) show ?thesis by (intro exI [of _ ok] exI [of _ "Functions p'"] exI [of _ "Console p'"]) simp
qed

text \<open>C1. Parsing a string succeeds exactly when its tokens are a file of the grammar whose blocks, after the commands
  that the list file had before, are nested; then the commands of the grammar are added and at most warnings of
  the author are displayed.  Otherwise the last message displayed is a fatal error.  There is no undefined behaviour,
  and the parser returns.\<close>

theorem ParseString_grammar:
  assumes "0 \<notin> set t" and "lfbt \<noteq> None"
  shows "\<exists>ok fs' c'. cmListFile_ParseString True (t @ [0]) name m lfbt c fs = Some (ok, fs', c')
    \<and> (ok \<longleftrightarrow> (\<exists>gs. list_file True (tokens new_lexeme t) gs \<and> nested (flows (fs @ gs))))
    \<and> (if ok then \<exists>gs. list_file True (tokens new_lexeme t) gs \<and> fs' = fs @ gs \<and> warned c c' else failed c c')"
  by (rule ParseString_parses [OF assms])

theorem ParseString_grammar_witness:
  "\<exists>fs' c'. cmListFile_ParseString True (write_commands sample @ [0]) [] plain_messenger (Some (Bottom_entry 0)) new_console []
      = Some (True, fs', c') \<and> fs' = [] @ read_commands (1, 1) sample \<and> warned new_console c'"
proof -
  have z: "0 \<notin> set (write_commands sample)" by (rule no_zero_commands [OF sample_writable])
  have w: "list_file True (tokens new_lexeme (write_commands sample)) gs \<longleftrightarrow> gs = read_commands (1, 1) sample" for gs
    using list_file_written [OF sample_writable, of new_lexeme] by (simp add: new_lexeme_def)
  from ParseString_grammar [OF z, of "Some (Bottom_entry 0)" "[]" plain_messenger new_console "[]", unfolded w]
  show ?thesis using sample_nested by auto
qed

section \<open>Nesting\<close>

text \<open>C4. The check of the control commands succeeds exactly on nested blocks.  Otherwise it reports a command of the
  file: the first one after which no continuation is nested, or, when the file could be continued, a command that opens a
  block or a branch which is not ended.\<close>

theorem CheckNesting_blocks:
  "case CheckNesting p of
     None \<Rightarrow> nested (flows (Functions p))
   | Some lfc \<Rightarrow> \<not> nested (flows (Functions p))
       \<and> (\<exists>gs f hs. Functions p = gs @ f # hs \<and> lfc = FromCommandContext f (FileName p) None
         \<and> (if extensible (flows (Functions p)) then opens (flow_of (LowerCaseName f)) \<and> nested (flows hs)
            else extensible (flows gs) \<and> \<not> extensible (flows (gs @ [f]))))"
proof (cases "CheckNesting p")
  case None
  then have "nesting_loop (FileName p) [] (Functions p) = None" by (simp add: CheckNesting_def)
  then have "nested (flows (Functions p))" using loop_run [of "FileName p" "[]" "Functions p"] by (simp add: nested_iff_run)
  with None show ?thesis by simp
next
  case (Some lfc)
  then have l: "nesting_loop (FileName p) [] (Functions p) = Some lfc" by (simp add: CheckNesting_def)
  then have n: "\<not> nested (flows (Functions p))" using loop_run [of "FileName p" "[]" "Functions p"] by (simp add: nested_iff_run)
  show ?thesis
  proof (cases "extensible (flows (Functions p))")
    case True
    then have "flow_run (map fst []) (flows (Functions p)) \<noteq> None" by (simp add: extensible_iff_run)
    from loop_open [OF l this] obtain gs f hs where "Functions p = gs @ f # hs" "lfc = FromCommandContext f (FileName p) None"
      "opens (flow_of (LowerCaseName f))" "nested (flows hs)" by auto
    with n Some True show ?thesis by auto
  next
    case False
    then have "flow_run (map fst []) (flows (Functions p)) = None" by (simp add: extensible_iff_run)
    from loop_fails [OF l this] obtain gs f hs where "Functions p = gs @ f # hs" "lfc = FromCommandContext f (FileName p) None"
      "flow_run [] (flows gs) \<noteq> None" "flow_run [] (flows (gs @ [f])) = None" by auto
    with n Some False show ?thesis unfolding extensible_iff_run by (simp only: option.case if_False) blast
  qed
qed

section \<open>Files\<close>

text \<open>The lexer of the parser after its file was opened.\<close>

definition opened_lexer :: "stream \<Rightarrow> cmListFileLexer" where
  "opened_lexer f = (string_lexer [])\<lparr>string_buffer := None, input_file := Some f\<rparr>"

lemma opened_lexer_set:
  assumes "fopen name = Some f" and "ReadBOM f = (bom, f')"
  obtains l where "cmListFileLexer_New True = Some l" and "SetFileName fopen l (Some name) True = Some (1, Some bom, opened_lexer f')"
  using assms by (simp add: cmListFileLexer_New_def SetFileName_def cmListFileLexerDestroy_def cmListFileLexerSetToken_def cmListFileLexerInit_def
      opened_lexer_def string_lexer_def)

lemma opened_lexer_tokens:
  assumes "bytes = drop (position f) (contents f)" and "readable bytes" and "t = convert_crlf bytes"
  shows "has_tokens (opened_lexer f) (tokens new_lexeme t)"
proof -
  have "source_text [] (opened_lexer f) t"
    using readable_source [OF assms(2), of "opened_lexer f"] assms(1,3) by (simp add: opened_lexer_def string_lexer_def pending_def)
  then have "scans yylex_init (opened_lexer f) t" by (rule yylex_init_scans(1))
  then have "before_text (opened_lexer f) t new_lexeme" using yylex_init_scans(2)
    by (simp add: before_text_def opened_lexer_def string_lexer_def new_lexeme_def represents_def token_is_def pos_def tok_pos_def)
  moreover have "0 \<notin> set t" using readable_zero [OF assms(2)] assms(3) by simp
  ultimately show ?thesis by (auto simp: has_tokens_def)
qed

lemma opened_lexer_closes:
  obtains l' where "SetFileName fopen (opened_lexer f) None False = Some (1, None, l')" and "has_tokens l' []"
proof -
  have "represents (opened_lexer f) new_lexeme" "scanner (opened_lexer f) \<noteq> None"
    by (simp_all add: opened_lexer_def string_lexer_def new_lexeme_def represents_def token_is_def pos_def tok_pos_def)
  from Destroy_closes [OF this(1) disjI2 [OF this(2)]] obtain l' where
    l': "cmListFileLexerDestroy (opened_lexer f) = Some l'" "input_file l' = None" "string_buffer l' = None"
      "represents l' (begin_token (kind new_lexeme) [] new_lexeme)" by blast
  then have "SetFileName fopen (opened_lexer f) None False = Some (1, None, l')" by (simp add: SetFileName_def cmListFileLexerInit_def)
  with l'(2-4) that show ?thesis by (auto simp: has_tokens_def)
qed


text \<open>The example with CRLF line ends and a mark.\<close>

fun crlf_of :: "byte list \<Rightarrow> byte list" where
  "crlf_of [] = []"
| "crlf_of (c # t) = (if c = 0x0A then [0x0D, 0x0A] else [c]) @ crlf_of t"

lemma convert_crlf_of: "0x0D \<notin> set t \<Longrightarrow> convert_crlf (crlf_of t) = t"
  by (induction t) (auto simp: convert_Cons)


section \<open>Reading what is written\<close>

text \<open>C2. Commands that are written as text, with unquoted, quoted and bracket arguments, and parsed again are read back with
  their names, the values and kinds of their arguments and their lines, when their blocks are nested; otherwise
  parsing fails.\<close>

theorem ParseString_written:
  assumes "\<forall>k\<in>set cs. writable_command k" and "lfbt \<noteq> None"
  shows "\<exists>fs' c'. cmListFile_ParseString True (write_commands cs @ [0]) name m lfbt c fs
      = Some (nested (flows (fs @ read_commands (1, 1) cs)), fs', c')
    \<and> (if nested (flows (fs @ read_commands (1, 1) cs)) then fs' = fs @ read_commands (1, 1) cs \<and> warned c c' else failed c c')"
proof -
  have z: "0 \<notin> set (write_commands cs)" by (rule no_zero_commands [OF assms(1)])
  have w: "list_file True (tokens new_lexeme (write_commands cs)) gs \<longleftrightarrow> gs = read_commands (1, 1) cs" for gs
    using list_file_written [OF assms(1), of new_lexeme] by (simp add: new_lexeme_def)
  let ?n = "nested (flows (fs @ read_commands (1, 1) cs))"
  from ParseString_parses [OF z assms(2), of name m c fs, unfolded w] obtain ok fs' c' where
    r: "cmListFile_ParseString True (write_commands cs @ [0]) name m lfbt c fs = Some (ok, fs', c')"
      "ok \<longleftrightarrow> (\<exists>gs. gs = read_commands (1, 1) cs \<and> nested (flows (fs @ gs)))"
      "if ok then \<exists>gs. gs = read_commands (1, 1) cs \<and> fs' = fs @ gs \<and> warned c c' else failed c c'" by blast
  from r(2) have ok: "ok = ?n" by blast
  show ?thesis
  proof (cases ok)
    case True
    with r(1,3) ok show ?thesis by (intro exI [of _ fs'] exI [of _ c']) simp
  next
    case False
    with r(1,3) ok show ?thesis by (intro exI [of _ fs'] exI [of _ c']) simp
  qed
qed

theorem ParseString_written_witness:
  "\<exists>fs' c'. cmListFile_ParseString True (write_commands sample @ [0]) [] plain_messenger (Some (Bottom_entry 0)) new_console []
      = Some (nested (flows ([] @ read_commands (1, 1) sample)), fs', c')
    \<and> nested (flows ([] @ read_commands (1, 1) sample)) \<and> fs' = [] @ read_commands (1, 1) sample \<and> warned new_console c'"
  using ParseString_written [OF sample_writable, of "Some (Bottom_entry 0)" "[]" plain_messenger new_console "[]"] unfolding if_P [OF sample_nested]
  using sample_nested by simp

end
