(* ===== verification/VariablesProps.thy ===== *)
theory VariablesProps
  imports VariablesTemplate ListFileParser
begin

text \<open>
  What the evaluation of arguments (\<^verbatim>\<open>cmMakefile.cxx\<close>) promises, and that it reads back, after the lexer and the parser
  of list files, what \<^verbatim>\<open>cmOutputConverter.cxx\<close> writes.
\<close>

section \<open>References\<close>

lemma sample_makefile_flags: "\<not> SuppressSideEffects sample_makefile" "mk_WarnUninitialized sample_makefile" "\<not> mk_initialized sample_makefile s"
  "mk_project_file sample_makefile (ascii ''f'')"
  by (simp_all add: sample_makefile_def ascii_def)

lemma sample_no_value:
  "no_value (argument_mode (ascii ''f'')) name sample_makefile = sample_makefile\<lparr>mk_console := \<lparr>displayed =
     [(AUTHOR_WARNING, ascii ''uninitialized variable '' @ [0x27] @ name @ [0x27], mk_backtrace sample_makefile)],
     ErrorOccured = False, FatalErrorOccured = False\<rparr>\<rparr>"
proof -
  have "no_value (argument_mode (ascii ''f'')) name sample_makefile
      = makefile_IssueMessage AUTHOR_WARNING (ascii ''uninitialized variable '' @ [0x27] @ name @ [0x27]) sample_makefile"
    using sample_makefile_flags by (simp add: no_value_def MaybeWarnUninitialized_def argument_mode_def)
  then show ?thesis
    by (simp add: makefile_IssueMessage_def Let_def IssueMessage_def ConvertMessageType_def IsMessageTypeVisible_def DisplayMessage_def sample_makefile_def)
qed

text \<open>C6. The string of a template is expanded to the value of the template: names are evaluated first, from the inside
  out, values are inserted as they are and not read again, escape sequences are decoded (except for semicolons outside
  of names, which the list of arguments still needs), and names without a value are reported once for each use.\<close>

theorem ExpandVariablesInStringNew_template:
  assumes "list_all (template_ok False) ps" and "normal_mode m" and "evaluate_all m False ps (ln, mk) = Some (r, ln', mk')"
  shows "ExpandVariablesInStringNew m ln (concat (map render ps)) mk = Some (LOG, [], r, mk')"
  by (rule New_evaluates [OF assms])

theorem ExpandVariablesInStringNew_template_witness:
  "ExpandVariablesInStringNew (argument_mode (ascii ''f'')) 1 (ascii ''x${${A}_}$ENV{E}'') sample_makefile
     = Some (LOG, [], ascii ''x${A}'', sample_makefile\<lparr>mk_console := \<lparr>displayed =
         [(AUTHOR_WARNING, ascii ''uninitialized variable '' @ [0x27, 0x45, 0x27], mk_backtrace sample_makefile)],
         ErrorOccured = False, FatalErrorOccured = False\<rparr>\<rparr>)"
proof -
  let ?ps = "[T_char 0x78, T_reference NORMAL [T_reference NORMAL [T_char 0x41], T_char 0x5F], T_reference ENVIRONMENT [T_char 0x45]]"
  let ?m = "argument_mode (ascii ''f'')"
  have "evaluate_all ?m False ?ps (1, sample_makefile) = Some (ascii ''x${A}'', 1, no_value ?m [0x45] sample_makefile)"
    by (simp add: sample_makefile_def lookup_variable_def lineVar_def ascii_def argument_mode_def)
  from ExpandVariablesInStringNew_template [OF _ _ this] show ?thesis
    unfolding sample_no_value by (simp add: argument_mode_def normal_mode_def name_char_def is_alnum_def ascii_def)
qed

text \<open>With \<open>--warn-uninitialized\<close> the line number is reported as a variable without a value: the code looks up
  \<open>CMAKE_CURRENT_LIST_LINE\<close> by itself, and then takes it for a variable that was never set.\<close>

theorem list_line_reported:
  assumes "mode_filename m = Some f" and "normal_mode m" and "Top (mk_backtrace mk) = Some here" and "ctx_DeferId here = None"
    and "\<not> SuppressSideEffects mk" and "mk_WarnUninitialized mk" and "\<not> mk_initialized mk lineVar"
    and "CheckSystemVars mk \<or> mk_project_file mk f"
  shows "ExpandVariablesInStringNew m ln (ascii ''${CMAKE_CURRENT_LIST_LINE}'') mk = Some (LOG, [], int_chars ln,
    makefile_IssueMessage AUTHOR_WARNING (ascii ''uninitialized variable '' @ [0x27] @ lineVar @ [0x27]) mk)"
proof -
  let ?p = "T_reference NORMAL (map T_char lineVar)"
  let ?mk = "makefile_IssueMessage AUTHOR_WARNING (ascii ''uninitialized variable '' @ [0x27] @ lineVar @ [0x27]) mk"
  have "evaluate_all m True (map T_char s) (ln, mk) = Some (s, ln, mk)" if "0x0A \<notin> set s" for s
    using that by (induction s) auto
  then have "evaluate_all m True (map T_char lineVar) (ln, mk) = Some (lineVar, ln, mk)" by (simp add: lineVar_def ascii_def)
  moreover have "no_value m lineVar mk = ?mk" using assms by (auto simp: no_value_def MaybeWarnUninitialized_def)
  ultimately have "evaluate_all m False [?p] (ln, mk) = Some (int_chars ln, ln, ?mk)"
    using assms(1,3,4) by (simp add: lookup_variable_def)
  from New_evaluates [OF _ assms(2) this] have "list_all (template_ok False) [?p] \<Longrightarrow> ExpandVariablesInStringNew m ln (render ?p) mk
      = Some (LOG, [], int_chars ln, ?mk)" by simp
  moreover have "list_all (template_ok False) [?p]" by (simp add: lineVar_def ascii_def name_char_def is_alnum_def)
  moreover have "render ?p = ascii ''${CMAKE_CURRENT_LIST_LINE}''" by (simp add: lineVar_def ascii_def)
  ultimately show ?thesis by simp
qed

theorem list_line_reported_witness:
  "ExpandVariablesInStringNew (argument_mode (ascii ''f'')) 7 (ascii ''${CMAKE_CURRENT_LIST_LINE}'') sample_makefile
    = Some (LOG, [], int_chars 7,
        makefile_IssueMessage AUTHOR_WARNING (ascii ''uninitialized variable '' @ [0x27] @ lineVar @ [0x27]) sample_makefile)"
proof -
  have "Top (mk_backtrace sample_makefile) = Some (line_context (ascii ''f'') 1)" "ctx_DeferId (line_context (ascii ''f'') 1) = None"
    by (simp_all add: sample_makefile_def Top_def line_context_def)
  from list_line_reported [OF _ _ this, of "argument_mode (ascii ''f'')" "ascii ''f''" 7] show ?thesis
    by (simp add: argument_mode_def normal_mode_def sample_makefile_flags)
qed

section \<open>Quoted arguments\<close>

text \<open>What is escaped for CMake, as a template.\<close>

definition escape_template :: "byte \<Rightarrow> template" where
  "escape_template c = (if c \<in> {0x22, 0x24, 0x5C} then T_escape c else T_char c)"

lemma escape_render: "escape_for_cmake s = concat (map render (map escape_template s))"
  by (induction s) (auto simp: escape_template_def)

lemma escape_ok: "0 \<notin> set s \<Longrightarrow> list_all (template_ok False) (map escape_template s)"
  by (induction s) (auto simp: escape_template_def is_alnum_def)

lemma escape_evaluates: "\<exists>ln'. evaluate_all m False (map escape_template s) (ln, mk) = Some (s, ln', mk)"
proof (induction s arbitrary: ln)
  case (Cons c s)
  have "\<exists>ln1. evaluate m False (escape_template c) (ln, mk) = Some ([c], ln1, mk)"
    by (cases "c \<in> {0x22, 0x24, 0x5C}") (auto simp: escape_template_def escaped_def)
  then obtain ln1 where "evaluate m False (escape_template c) (ln, mk) = Some ([c], ln1, mk)" by blast
  with Cons.IH [of ln1] show ?case by auto
qed simp

lemma escape_expands:
  assumes "0 \<notin> set s" and "normal_mode m"
  shows "ExpandVariablesInStringNew m ln (escape_for_cmake s) mk = Some (LOG, [], s, mk)"
proof -
  obtain ln' where "evaluate_all m False (map escape_template s) (ln, mk) = Some (s, ln', mk)" using escape_evaluates by blast
  from New_evaluates [OF escape_ok [OF assms(1)] assms(2) this] show ?thesis by (simp only: escape_render)
qed

lemma escape_unquote: "unquote (escape_for_cmake s @ 0x22 # t) = Some (escape_for_cmake s, t)"
proof (induction s)
  case Nil
  then show ?case by (cases t) simp_all
next
  case (Cons c s)
  have plain: "c \<noteq> 0x22 \<Longrightarrow> c \<noteq> 0x5C \<Longrightarrow> unquote (c # escape_for_cmake s @ 0x22 # t) = Some (c # escape_for_cmake s, t)"
    using Cons by (simp add: unquote_plain)
  show ?case using Cons plain by auto
qed

lemma escape_writable: "0 \<notin> set s \<Longrightarrow> writable (W_quoted (escape_for_cmake s))"
proof -
  assume "0 \<notin> set s"
  then have "0 \<notin> set (escape_for_cmake s)" by (induction s) auto
  then show ?thesis using escape_unquote [of s "[]"] by simp
qed

definition uses_new :: "cmMakefile \<Rightarrow> bool" where
  "uses_new mk \<longleftrightarrow> mk_CMP0053 mk \<noteq> PS_OLD \<and> mk_CMP0053 mk \<noteq> PS_WARN"

lemma argument_mode_normal: "normal_mode (argument_mode f)"
  by (simp add: normal_mode_def argument_mode_def)

lemma expand_new:
  assumes "uses_new mk" and "ExpandVariablesInStringNew (argument_mode f) ln str mk = Some (LOG, msg, r, mk')"
  shows "ExpandVariablesInString old warning (argument_mode f) ln False str mk = Some (r, mk')"
  using assms by (simp add: ExpandVariablesInString_def uses_new_def) (simp add: argument_mode_def)

lemma quoted_expands:
  assumes "\<forall>v\<in>set vs. 0 \<notin> set v" and "uses_new mk"
  shows "expand_arguments old warning f (read_arguments p (map (\<lambda>v. W_quoted (escape_for_cmake v)) vs)) out mk = Some (out @ vs, mk)"
  using assms(1)
proof (induction vs arbitrary: p out)
  case (Cons v vs)
  have "0 \<notin> set v" using Cons.prems by simp
  from expand_new [OF assms(2) escape_expands [OF this argument_mode_normal]] Cons show ?case by (simp add: Let_def)
qed simp



end
