(* ===== verification/Versions.thy ===== *)
theory Versions
  imports StringAlgorithms
begin

text \<open>
  The comparison of versions of \<^verbatim>\<open>cmSystemTools.cxx\<close>, and the numbers that the C library reads for it.  A C string
  is the list of its bytes without the terminator.
\<close>

section \<open>Numbers in strings\<close>

definition c_string :: "byte list \<Rightarrow> byte list" where
  "c_string v = takeWhile (\<lambda>c. c \<noteq> 0) v"

definition is_digit :: "byte \<Rightarrow> bool" where
  "is_digit c \<longleftrightarrow> 0x30 \<le> c \<and> c \<le> 0x39"

text \<open>The value of decimal digits.\<close>

definition digits_value :: "byte list \<Rightarrow> nat" where
  "digits_value ds = foldl (\<lambda>n d. 10 * n + (unat d - 0x30)) 0 ds"

text \<open>White space, a sign and digits, as \<open>strtol\<close> and its relatives read them: whether there is a minus, the digits and the rest.\<close>

definition scan_number :: "byte list \<Rightarrow> bool \<times> byte list \<times> byte list" where
  "scan_number s =
     (let s = dropWhile cmIsSpace s; sign = (s \<noteq> [] \<and> hd s \<in> {0x2B, 0x2D}); s' = (if sign then tl s else s)
      in (sign \<and> hd s = 0x2D, takeWhile is_digit s', dropWhile is_digit s'))"

definition ULONG_MAX :: nat where "ULONG_MAX = 18446744073709551615"

definition strtoul :: "byte list \<Rightarrow> nat \<times> byte list" where
  "strtoul s =
     (let (neg, ds, rest) = scan_number s; n = digits_value ds
      in if ds = [] then (0, s)
         else (if n > ULONG_MAX then ULONG_MAX else if neg \<and> n \<noteq> 0 then ULONG_MAX + 1 - n else n, rest))"

text \<open>\<open>atoi\<close> is undefined when the number is no \<open>int\<close>.\<close>

definition atoi :: "byte list \<Rightarrow> int option" where
  "atoi s =
     (let (neg, ds, rest) = scan_number (c_string s); n = (if neg then - int (digits_value ds) else int (digits_value ds))
      in if -2147483648 \<le> n \<and> n \<le> 2147483647 then Some n else None)"

section \<open>The comparison\<close>

type_synonym CompareOp = u32

definition OP_EQUAL :: CompareOp where "OP_EQUAL = 1"
definition OP_LESS :: CompareOp where "OP_LESS = 2"
definition OP_GREATER :: CompareOp where "OP_GREATER = 4"
definition OP_LESS_EQUAL :: CompareOp where "OP_LESS_EQUAL = OP_LESS OR OP_EQUAL"
definition OP_GREATER_EQUAL :: CompareOp where "OP_GREATER_EQUAL = OP_GREATER OR OP_EQUAL"

lemmas compare_ops = OP_EQUAL_def OP_LESS_def OP_GREATER_def OP_LESS_EQUAL_def OP_GREATER_EQUAL_def

definition starts_digit :: "byte list \<Rightarrow> bool" where
  "starts_digit s \<longleftrightarrow> s \<noteq> [] \<and> is_digit (hd s)"

definition skip_dot :: "byte list \<Rightarrow> byte list" where
  "skip_dot s = (if s \<noteq> [] \<and> hd s = 0x2E then tl s else s)"

lemma scan_number_length: "scan_number s = (neg, ds, rest) \<Longrightarrow> length ds + length rest \<le> length s"
proof -
  assume "scan_number s = (neg, ds, rest)"
  moreover have "length (takeWhile is_digit u) + length (dropWhile is_digit u) = length u" for u
    by (metis length_append takeWhile_dropWhile_id)
  ultimately show ?thesis
    using length_dropWhile_le [of cmIsSpace s] by (auto simp: scan_number_def Let_def split: if_splits)
qed

lemma strtoul_length: "length (snd (strtoul s)) \<le> length s"
proof -
  obtain neg ds rest where n: "scan_number s = (neg, ds, rest)" by (cases "scan_number s")
  with scan_number_length [OF n] show ?thesis by (simp add: strtoul_def Let_def)
qed

lemma digit_no_space: "is_digit c \<Longrightarrow> \<not> cmIsSpace c \<and> c \<notin> {0x2B, 0x2D}"
  by (auto simp: is_digit_def cmIsSpace_def)

lemma scan_digits: "starts_digit s \<Longrightarrow> scan_number s = (False, takeWhile is_digit s, dropWhile is_digit s)"
  using digit_no_space by (cases s) (auto simp: scan_number_def starts_digit_def)

lemma strtoul_shrinks: "starts_digit s \<Longrightarrow> length (snd (strtoul s)) < length s"
proof -
  assume a: "starts_digit s"
  then obtain c t where s: "s = c # t" "is_digit c" by (cases s) (auto simp: starts_digit_def)
  have "length (dropWhile is_digit t) < length s" using s(1) length_dropWhile_le [of is_digit t] by simp
  moreover have "dropWhile is_digit s = dropWhile is_digit t" "takeWhile is_digit s \<noteq> []" using s by simp_all
  ultimately show ?thesis by (simp add: strtoul_def scan_digits [OF a] Let_def)
qed

lemma skip_dot_length: "length (skip_dot s) \<le> length s"
  by (simp add: skip_dot_def)

text \<open>The loop; \<open>endl\<close> and \<open>endr\<close> are the strings from the two pointers on.\<close>

function version_loop :: "CompareOp \<Rightarrow> byte list \<Rightarrow> byte list \<Rightarrow> bool" where
  "version_loop op endl endr =
     (if starts_digit endl \<or> starts_digit endr
      then let (lhs, endl) = strtoul endl; (rhs, endr) = strtoul endr
           in if lhs < rhs then op AND OP_LESS \<noteq> 0
              else if lhs > rhs then op AND OP_GREATER \<noteq> 0
              else version_loop op (skip_dot endl) (skip_dot endr)
      else op AND OP_EQUAL \<noteq> 0)"
  by pat_completeness auto
termination
proof (relation "measure (\<lambda>(op, l, r). length l + length r)")
  fix op :: CompareOp and l r p q :: "byte list" and x a y b
  assume d: "starts_digit l \<or> starts_digit r" and x: "x = strtoul l" "(a, p) = x" and y: "y = strtoul r" "(b, q) = y"
  have p: "p = snd (strtoul l)" "q = snd (strtoul r)" using x y by (metis snd_conv)+
  have "length p \<le> length l" "length q \<le> length r" by (simp_all add: p strtoul_length)
  moreover from d have "length p < length l \<or> length q < length r" using strtoul_shrinks p by blast
  ultimately show "((op, skip_dot p, skip_dot q), op, l, r) \<in> measure (\<lambda>(op, l, r). length l + length r)"
    using skip_dot_length [of p] skip_dot_length [of q] by auto
qed simp

declare version_loop.simps [simp del]

definition VersionCompare :: "CompareOp \<Rightarrow> byte list \<Rightarrow> byte list \<Rightarrow> bool" where
  "VersionCompare op lhs rhs = version_loop op (c_string lhs) (c_string rhs)"

section \<open>What it means\<close>

text \<open>Components one by one, the missing ones being zero: negative, zero or positive.\<close>

fun version_order :: "nat list \<Rightarrow> nat list \<Rightarrow> int" where
  "version_order [] [] = 0"
| "version_order [] (y # ys) = (if y = 0 then version_order [] ys else -1)"
| "version_order (x # xs) [] = (if x = 0 then version_order xs [] else 1)"
| "version_order (x # xs) (y # ys) = (if x < y then -1 else if y < x then 1 else version_order xs ys)"

fun dotted :: "byte list list \<Rightarrow> byte list" where
  "dotted [] = []"
| "dotted (c # cs) = c @ concat (map (\<lambda>d. 0x2E # d) cs)"

definition component :: "byte list \<Rightarrow> bool" where
  "component c \<longleftrightarrow> c \<noteq> [] \<and> list_all is_digit c \<and> digits_value c \<le> ULONG_MAX"

definition order_op :: "int \<Rightarrow> CompareOp" where
  "order_op n = (if n < 0 then OP_LESS else if n > 0 then OP_GREATER else OP_EQUAL)"

lemma strtoul_Nil: "strtoul [] = (0, [])"
  by (simp add: strtoul_def scan_number_def)

lemma dot_no_digit: "\<not> is_digit 0x2E"
  by (simp add: is_digit_def)

lemma strtoul_dotted:
  assumes "component c"
  shows "strtoul (dotted (c # cs)) = (digits_value c, concat (map (\<lambda>d. 0x2E # d) cs))"
proof -
  let ?r = "concat (map (\<lambda>d. 0x2E # d) cs)"
  have c: "\<forall>x\<in>set c. is_digit x" "c \<noteq> []" "\<not> digits_value c > ULONG_MAX" using assms by (simp_all add: component_def list_all_iff)
  have "takeWhile is_digit ?r = []" "dropWhile is_digit ?r = ?r" using dot_no_digit by (cases cs; simp)+
  then have "takeWhile is_digit (c @ ?r) = c" "dropWhile is_digit (c @ ?r) = ?r" using c(1) by simp_all
  moreover have "starts_digit (c @ ?r)" using c by (cases c) (simp_all add: starts_digit_def)
  ultimately show ?thesis using c(2,3) by (simp add: strtoul_def scan_digits Let_def)
qed

lemma skip_dot_Nil: "skip_dot [] = []"
  by (simp add: skip_dot_def)

lemma skip_dot_dotted: "skip_dot (concat (map (\<lambda>d. 0x2E # d) cs)) = dotted cs"
  by (cases cs) (simp_all add: skip_dot_def)

lemma starts_digit_dotted: "component c \<Longrightarrow> starts_digit (dotted (c # cs))" "\<not> starts_digit []"
  by (cases c; simp add: component_def starts_digit_def)+

lemma version_loop_dotted:
  assumes "list_all component ls" and "list_all component rs"
  shows "version_loop op (dotted ls) (dotted rs) \<longleftrightarrow> op AND order_op (version_order (map digits_value ls) (map digits_value rs)) \<noteq> 0"
  using assms
proof (induction "map digits_value ls" "map digits_value rs" arbitrary: ls rs rule: version_order.induct)
  case 1
  then show ?case by (subst version_loop.simps) (simp add: starts_digit_dotted order_op_def)
next
  case (2 y ys)
  then obtain c cs where r: "rs = c # cs" "component c" "list_all component cs" "y = digits_value c" "ys = map digits_value cs" by auto
  have l: "ls = []" using 2(2) by simp
  show ?case unfolding l r(1) using 2(1) [of "[]" cs] r
    by (subst version_loop.simps) (simp add: starts_digit_dotted strtoul_dotted strtoul_Nil skip_dot_dotted skip_dot_Nil order_op_def l del: dotted.simps(2) cong: if_cong)
next
  case (3 x xs)
  then obtain c cs where r: "ls = c # cs" "component c" "list_all component cs" "x = digits_value c" "xs = map digits_value cs" by auto
  have l: "rs = []" using 3(3) by simp
  show ?case unfolding l r(1) using 3(1) [of cs "[]"] r
    by (subst version_loop.simps) (simp add: starts_digit_dotted strtoul_dotted strtoul_Nil skip_dot_dotted skip_dot_Nil order_op_def l del: dotted.simps(2) cong: if_cong)
next
  case (4 x xs y ys)
  then obtain c cs where r: "ls = c # cs" "component c" "list_all component cs" "x = digits_value c" "xs = map digits_value cs" by auto
  from 4 obtain d ds where q: "rs = d # ds" "component d" "list_all component ds" "y = digits_value d" "ys = map digits_value ds" by auto
  show ?case unfolding q(1) r(1) using 4(1) [of cs ds] r q
    by (subst version_loop.simps) (simp add: starts_digit_dotted strtoul_dotted skip_dot_dotted order_op_def del: dotted.simps(2))
qed

lemma dotted_no_zero: "list_all component cs \<Longrightarrow> 0 \<notin> set (dotted cs)"
proof -
  have d: "component c \<Longrightarrow> 0 \<notin> set c" for c by (auto simp: component_def list_all_iff is_digit_def)
  then have "list_all component cs \<Longrightarrow> 0 \<notin> set (concat (map (\<lambda>d. 0x2E # d) cs))" for cs by (induction cs) auto
  then show "list_all component cs \<Longrightarrow> 0 \<notin> set (dotted cs)" using d by (cases cs) auto
qed

lemma c_string_id: "0 \<notin> set s \<Longrightarrow> c_string s = s"
  by (auto simp: c_string_def takeWhile_eq_all_conv)

text \<open>C15. Versions are compared component by component as numbers, with missing components taken for zero.\<close>

theorem VersionCompare_components:
  assumes "list_all component ls" and "list_all component rs"
  shows "VersionCompare op (dotted ls) (dotted rs)
    \<longleftrightarrow> op AND order_op (version_order (map digits_value ls) (map digits_value rs)) \<noteq> 0"
  using version_loop_dotted [OF assms] assms by (simp add: VersionCompare_def c_string_id dotted_no_zero)

theorem VersionCompare_components_witness:
  "VersionCompare OP_GREATER (dotted [ascii ''3'', ascii ''10'']) (dotted [ascii ''3'', ascii ''9'', ascii ''7''])
    \<longleftrightarrow> OP_GREATER AND order_op (version_order (map digits_value [ascii ''3'', ascii ''10'']) (map digits_value [ascii ''3'', ascii ''9'', ascii ''7''])) \<noteq> 0"
  by (rule VersionCompare_components) (simp_all add: component_def ascii_def is_digit_def digits_value_def ULONG_MAX_def)

end
