(* ===== verification/Conditions.thy ===== *)
theory Conditions
  imports Complex_Main Variables Versions
begin

text \<open>
  The evaluation of the conditions of \<open>if\<close> and \<open>while\<close> (\<^verbatim>\<open>cmConditionEvaluator.cxx\<close>): five passes over the list of
  arguments, each of which replaces an operator and its operands by a truth value, from parentheses to the logical
  operators.  A pass looks at the elements from the current one on, so it is a recursion over the list.  \<^term>\<open>None\<close>
  is undefined behaviour; the errors of the program are strings with a status in the state.
\<close>

section \<open>Constants\<close>

definition value_IsOn :: "byte list \<Rightarrow> bool" where
  "value_IsOn v \<longleftrightarrow> map ascii_lower v \<in> {ascii ''1'', ascii ''y'', ascii ''on'', ascii ''yes'', ascii ''true''}"

definition value_IsNOTFOUND :: "byte list \<Rightarrow> bool" where
  "value_IsNOTFOUND v \<longleftrightarrow> v = ascii ''NOTFOUND'' \<or> 9 \<le> length v \<and> drop (length v - 9) v = ascii ''-NOTFOUND''"

definition value_IsOff :: "byte list \<Rightarrow> bool" where
  "value_IsOff v \<longleftrightarrow> v = [] \<or> map ascii_lower v \<in> {ascii ''0'', ascii ''n'', ascii ''no'', ascii ''off'', ascii ''false'', ascii ''ignore''}
     \<or> value_IsNOTFOUND v"

definition cmIsOff :: "byte list option \<Rightarrow> bool" where
  "cmIsOff v = (case v of None \<Rightarrow> True | Some v \<Rightarrow> value_IsOff v)"

definition FileIsFullPath :: "byte list \<Rightarrow> bool" where
  "FileIsFullPath name \<longleftrightarrow> name \<noteq> [] \<and> (hd name = 0x7E \<or> hd name = 0x2F)"

text \<open>The numbers of the C library.\<close>

datatype double = D_finite real | D_infinite bool | D_nan

definition double_less :: "double \<Rightarrow> double \<Rightarrow> bool" where
  "double_less x y = (case (x, y) of
     (D_finite a, D_finite b) \<Rightarrow> a < b | (D_finite a, D_infinite n) \<Rightarrow> \<not> n | (D_infinite n, D_finite b) \<Rightarrow> n
   | (D_infinite n, D_infinite n') \<Rightarrow> n \<and> \<not> n' | _ \<Rightarrow> False)"

definition double_equal :: "double \<Rightarrow> double \<Rightarrow> bool" where
  "double_equal x y \<longleftrightarrow> x \<noteq> D_nan \<and> x = y"

section \<open>The evaluator\<close>

text \<open>
  What the evaluator asks of files, of the rest of CMake and of the C library.  A regular expression that compiles is a
  function that gives the ten matches in a string; a comparison of file times may fail.
\<close>

record condition_world =
  FileExists :: "byte list \<Rightarrow> bool"
  FileIsDirectory :: "byte list \<Rightarrow> bool"
  FileIsSymlink :: "byte list \<Rightarrow> bool"
  FileTimeCompare :: "byte list \<Rightarrow> byte list \<Rightarrow> int option"
  has_command :: "byte list \<Rightarrow> bool"
  has_policy :: "byte list \<Rightarrow> bool"
  has_target :: "byte list \<Rightarrow> bool"
  has_test :: "byte list \<Rightarrow> bool"
  sscanf_double :: "byte list \<Rightarrow> double option"
  strtod :: "byte list \<Rightarrow> double \<times> nat"
  regex_compile :: "byte list \<Rightarrow> (byte list \<Rightarrow> byte list list option) option"
  GetPolicyWarning :: "nat \<Rightarrow> byte list"
  GetRequiredPolicyError :: "nat \<Rightarrow> byte list"

record cmConditionEvaluator =
  ce_world :: condition_world
  ce_Backtrace :: cmListFileBacktrace
  Policy12Status :: PolicyStatus
  Policy54Status :: PolicyStatus
  Policy57Status :: PolicyStatus
  Policy64Status :: PolicyStatus

text \<open>The makefile, the error, and the status that the caller leaves uninitialised.\<close>

record condition_state =
  cs_makefile :: cmMakefile
  cs_errorString :: "byte list"
  cs_status :: "MessageType option"

definition old_policy :: "PolicyStatus \<Rightarrow> bool" where
  "old_policy p \<longleftrightarrow> p = PS_OLD \<or> p = PS_WARN"

text \<open>The set of the contexts for which policy CMP0054 was reported is ordered by \<open>operator<\<close>.\<close>

definition report_CMP0054 :: "cmConditionEvaluator \<Rightarrow> byte list \<Rightarrow> condition_state \<Rightarrow> condition_state option" where
  "report_CMP0054 ce msg s =
     do { context \<leftarrow> Top (ce_Backtrace ce);
          let mk = cs_makefile s;
          if list_ex (\<lambda>c. \<not> context_less c context \<and> \<not> context_less context c) (CMP0054ReportedIds mk) then Some s
          else Some (s\<lparr>cs_makefile := mk\<lparr>CMP0054ReportedIds := context # CMP0054ReportedIds mk,
            mk_console := IssueMessage (mk_messenger mk) AUTHOR_WARNING msg (ce_Backtrace ce) (mk_console mk)\<rparr>\<rparr>) }"

definition policy_note :: "cmConditionEvaluator \<Rightarrow> nat \<Rightarrow> byte list \<Rightarrow> byte list" where
  "policy_note ce p msg = GetPolicyWarning (ce_world ce) p @ [0x0A] @ msg
     @ ascii ''Since the policy is not set the OLD behavior will be used.''"

definition GetDefinitionIfUnquoted ::
  "cmConditionEvaluator \<Rightarrow> cmExpandedCommandArgument \<Rightarrow> condition_state \<Rightarrow> (byte list option \<times> condition_state) option" where
  "GetDefinitionIfUnquoted ce arg s =
     (if \<not> old_policy (Policy54Status ce) \<and> ex_Quoted arg then Some (None, s)
      else let def = mk_definitions (cs_makefile s) (ex_Value arg)
           in if def \<noteq> None \<and> ex_Quoted arg \<and> Policy54Status ce = PS_WARN
              then do { s \<leftarrow> report_CMP0054 ce (policy_note ce 54 (ascii ''Quoted variables like '' @ [0x22] @ ex_Value arg @ [0x22]
                          @ ascii '' will no longer be dereferenced when the policy is set to NEW.  '')) s;
                        Some (def, s) }
              else Some (def, s))"

definition GetVariableOrString ::
  "cmConditionEvaluator \<Rightarrow> cmExpandedCommandArgument \<Rightarrow> condition_state \<Rightarrow> (byte list \<times> condition_state) option" where
  "GetVariableOrString ce arg s =
     do { (def, s) \<leftarrow> GetDefinitionIfUnquoted ce arg s;
          Some (case def of None \<Rightarrow> ex_Value arg | Some v \<Rightarrow> v, s) }"

definition IsKeyword ::
  "cmConditionEvaluator \<Rightarrow> byte list \<Rightarrow> cmExpandedCommandArgument \<Rightarrow> condition_state \<Rightarrow> (bool \<times> condition_state) option" where
  "IsKeyword ce keyword arg s =
     (if \<not> old_policy (Policy54Status ce) \<and> ex_Quoted arg then Some (False, s)
      else if ex_Value arg = keyword \<and> ex_Quoted arg \<and> Policy54Status ce = PS_WARN
      then do { s \<leftarrow> report_CMP0054 ce (policy_note ce 54 (ascii ''Quoted keywords like '' @ [0x22] @ ex_Value arg @ [0x22]
                  @ ascii '' will no longer be interpreted as keywords when the policy is set to NEW.  '')) s;
                Some (True, s) }
      else Some (ex_Value arg = keyword, s))"

text \<open>The number of the first key that matches, or zero.\<close>

fun matchKeys :: "cmConditionEvaluator \<Rightarrow> cmExpandedCommandArgument \<Rightarrow> nat \<Rightarrow> byte list list \<Rightarrow> condition_state \<Rightarrow> (nat \<times> condition_state) option" where
  "matchKeys ce arg n [] s = Some (0, s)"
| "matchKeys ce arg n (k # ks) s =
     do { (found, s) \<leftarrow> IsKeyword ce k arg s;
          if found then Some (n, s) else matchKeys ce arg (n + 1) ks s }"

text \<open>\<open>strtod\<close> gives the number and how many characters it has read.\<close>

definition GetBooleanValue ::
  "cmConditionEvaluator \<Rightarrow> cmExpandedCommandArgument \<Rightarrow> condition_state \<Rightarrow> (bool \<times> condition_state) option" where
  "GetBooleanValue ce arg s =
     (if value_IsOn (ex_Value arg) then Some (True, s)
      else if value_IsOff (ex_Value arg) then Some (False, s)
      else do {
        let (d, n) = strtod (ce_world ce) (ex_Value arg);
        last_char \<leftarrow> char_at (ex_Value arg @ [0]) n;
        if ex_Value arg \<noteq> [] \<and> last_char = 0 then Some (d \<noteq> D_finite 0, s)
        else do { (def, s) \<leftarrow> GetDefinitionIfUnquoted ce arg s;
                  Some (\<not> cmIsOff def, s) } })"

definition GetBooleanValueOld ::
  "cmConditionEvaluator \<Rightarrow> cmExpandedCommandArgument \<Rightarrow> bool \<Rightarrow> condition_state \<Rightarrow> (bool \<times> condition_state) option" where
  "GetBooleanValueOld ce arg one s =
     (if one
      then if ex_Value arg = ascii ''0'' then Some (False, s)
           else if ex_Value arg = ascii ''1'' then Some (True, s)
           else do { (def, s) \<leftarrow> GetDefinitionIfUnquoted ce arg s; Some (\<not> cmIsOff def, s) }
      else do { (def, s) \<leftarrow> GetDefinitionIfUnquoted ce arg s;
                def \<leftarrow> (if def = None then do { n \<leftarrow> atoi (ex_Value arg); Some (if n \<noteq> 0 then Some (ex_Value arg) else None) } else Some def);
                Some (\<not> cmIsOff def, s) })"

definition argument_note :: "cmExpandedCommandArgument \<Rightarrow> byte list \<Rightarrow> byte list" where
  "argument_note arg msg = ascii ''An argument named '' @ [0x22] @ ex_Value arg @ [0x22] @ ascii '' appears in a conditional statement.  '' @ msg"

definition GetBooleanValueWithAutoDereference ::
  "cmConditionEvaluator \<Rightarrow> cmExpandedCommandArgument \<Rightarrow> bool \<Rightarrow> condition_state \<Rightarrow> (bool \<times> condition_state) option" where
  "GetBooleanValueWithAutoDereference ce arg oneArg s =
     (if Policy12Status ce = PS_NEW then GetBooleanValue ce arg s
      else if Policy12Status ce = PS_OLD then GetBooleanValueOld ce arg oneArg s
      else do {
        (newResult, s) \<leftarrow> GetBooleanValue ce arg s;
        (oldResult, s) \<leftarrow> GetBooleanValueOld ce arg oneArg s;
        if newResult = oldResult then Some (newResult, s)
        else if Policy12Status ce = PS_WARN
        then Some (oldResult, s\<lparr>cs_errorString := argument_note arg (GetPolicyWarning (ce_world ce) 12), cs_status := Some AUTHOR_WARNING\<rparr>)
        else Some (newResult, s\<lparr>cs_errorString := argument_note arg (GetRequiredPolicyError (ce_world ce) 12), cs_status := Some FATAL_ERROR\<rparr>) })"

definition bool_argument :: "bool \<Rightarrow> cmExpandedCommandArgument" where
  "bool_argument b = \<lparr>ex_Value = [if b then 0x31 else 0x30], ex_Quoted = True\<rparr>"

definition condition_error :: "byte list \<Rightarrow> condition_state \<Rightarrow> condition_state" where
  "condition_error msg s = s\<lparr>cs_errorString := msg, cs_status := Some FATAL_ERROR\<rparr>"

section \<open>The passes\<close>

type_synonym arguments = "cmExpandedCommandArgument list"

subsection \<open>Parentheses\<close>

text \<open>The elements up to the one that closes, the depth at the end and the rest.\<close>

fun find_close :: "cmConditionEvaluator \<Rightarrow> int \<Rightarrow> arguments \<Rightarrow> arguments \<Rightarrow> condition_state
    \<Rightarrow> (int \<times> arguments \<times> arguments \<times> condition_state) option" where
  "find_close ce depth seen [] s = Some (depth, seen, [], s)"
| "find_close ce depth seen (a # rest) s =
     (if depth = 0 then Some (depth, seen, a # rest, s)
      else do { (l, s) \<leftarrow> IsKeyword ce (ascii ''('') a s;
                (r, s) \<leftarrow> IsKeyword ce (ascii '')'') a s;
                find_close ce (depth + of_bool l - of_bool r) (seen @ [a]) rest s })"

lemma find_close_length: "find_close ce d seen xs s = Some (d', sub, after, s') \<Longrightarrow> length sub + length after = length seen + length xs"
proof (induction ce d seen xs s rule: find_close.induct)
  case (2 ce depth seen a rest s)
  show ?case
  proof (cases "depth = 0")
    case False
    with "2.prems" obtain l s1 where l: "IsKeyword ce (ascii ''('') a s = Some (l, s1)" by (auto elim!: bind_SomeE)
    with False "2.prems" obtain r s2 where r: "IsKeyword ce (ascii '')'') a s1 = Some (r, s2)" by (auto elim!: bind_SomeE)
    from "2.IH" [OF False l refl r refl] l r False "2.prems" show ?thesis by simp
  qed (use "2.prems" in simp)
qed simp

text \<open>The evaluator of a group is an argument; its errors do not stop the pass.\<close>

function HandleLevel0 :: "(arguments \<Rightarrow> condition_state \<Rightarrow> (bool \<times> condition_state) option)
    \<Rightarrow> cmConditionEvaluator \<Rightarrow> arguments \<Rightarrow> condition_state \<Rightarrow> (bool \<times> arguments \<times> condition_state) option" where
  "HandleLevel0 isTrue ce [] s = Some (True, [], s)"
| "HandleLevel0 isTrue ce (arg # rest) s =
     do { (open', s) \<leftarrow> IsKeyword ce (ascii ''('') arg s;
          if open'
          then case find_close ce 1 [] rest s of None \<Rightarrow> None
               | Some (depth, sub, after, s) \<Rightarrow>
                   if depth \<noteq> 0 then Some (False, [], condition_error (ascii ''mismatched parenthesis in condition'') s)
                   else do { (val, s) \<leftarrow> isTrue (butlast sub) s;
                             (ok, out, s) \<leftarrow> HandleLevel0 isTrue ce after s;
                             Some (ok, bool_argument val # out, s) }
          else do { (ok, out, s) \<leftarrow> HandleLevel0 isTrue ce rest s; Some (ok, arg # out, s) } }"
  by pat_completeness auto
termination
  by (relation "measure (\<lambda>(f, ce, xs, s). length xs)") (auto dest: find_close_length)

subsection \<open>Predicates\<close>

definition predicates :: "byte list list" where
  "predicates = [ascii ''EXISTS'', ascii ''IS_DIRECTORY'', ascii ''IS_SYMLINK'', ascii ''IS_ABSOLUTE'', ascii ''COMMAND'', ascii ''POLICY'',
     ascii ''TARGET'', ascii ''DEFINED'', ascii ''TEST'']"

definition looksLikeSpecialVariable :: "byte list \<Rightarrow> byte list \<Rightarrow> bool" where
  "looksLikeSpecialVariable var prefix \<longleftrightarrow>
     length prefix + 3 \<le> length var \<and> take (length prefix + 1) var = prefix @ [0x7B] \<and> var ! (length var - 1) = 0x7D"

definition is_defined :: "cmMakefile \<Rightarrow> byte list \<Rightarrow> bool" where
  "is_defined mk var =
     (if looksLikeSpecialVariable var (ascii ''ENV'') then mk_environment mk (take (length var - 5) (drop 4 var)) \<noteq> None
      else if looksLikeSpecialVariable var (ascii ''CACHE'') then mk_cache mk (take (length var - 7) (drop 6 var)) \<noteq> None
      else mk_definitions mk var \<noteq> None)"

definition predicate :: "condition_world \<Rightarrow> cmMakefile \<Rightarrow> nat \<Rightarrow> byte list \<Rightarrow> bool" where
  "predicate w mk n v =
     (if n = 1 then FileExists w v else if n = 2 then FileIsDirectory w v else if n = 3 then FileIsSymlink w v
      else if n = 4 then FileIsFullPath v else if n = 5 then has_command w v else if n = 6 then has_policy w v
      else if n = 7 then has_target w v else if n = 8 then is_defined mk v else has_test w v)"

text \<open>The warning for a keyword that will be an operator when policy \<open>p\<close> is set.\<close>

definition policy_warning :: "cmConditionEvaluator \<Rightarrow> nat \<Rightarrow> byte list \<Rightarrow> condition_state \<Rightarrow> condition_state" where
  "policy_warning ce p kw s = s\<lparr>cs_makefile := makefile_IssueMessage AUTHOR_WARNING
     (policy_note ce p (kw @ ascii '' will be interpreted as an operator when the policy is set to NEW.  '')) (cs_makefile s)\<rparr>"

definition policyCheck :: "cmConditionEvaluator \<Rightarrow> nat \<Rightarrow> PolicyStatus \<Rightarrow> byte list \<Rightarrow> cmExpandedCommandArgument \<Rightarrow> condition_state \<Rightarrow> condition_state option" where
  "policyCheck ce p status kw arg s =
     (if status = PS_WARN
      then do { (found, s) \<leftarrow> IsKeyword ce kw arg s; Some (if found then policy_warning ce p kw s else s) }
      else Some s)"

fun HandleLevel1 :: "cmConditionEvaluator \<Rightarrow> arguments \<Rightarrow> condition_state \<Rightarrow> (bool \<times> arguments \<times> condition_state) option" where
  "HandleLevel1 ce [] s = Some (True, [], s)"
| "HandleLevel1 ce [cur] s =
     do { s \<leftarrow> policyCheck ce 64 (Policy64Status ce) (ascii ''TEST'') cur s; Some (True, [cur], s) }"
| "HandleLevel1 ce (cur # nxt # rest) s =
     do { s \<leftarrow> policyCheck ce 64 (Policy64Status ce) (ascii ''TEST'') cur s;
          (n, s) \<leftarrow> matchKeys ce cur 1 predicates s;
          if n = 0 \<or> n = 9 \<and> old_policy (Policy64Status ce)
          then do { (ok, out, s) \<leftarrow> HandleLevel1 ce (nxt # rest) s; Some (ok, cur # out, s) }
          else do { let result = predicate (ce_world ce) (cs_makefile s) n (ex_Value nxt);
                    (ok, out, s) \<leftarrow> HandleLevel1 ce rest s;
                    Some (ok, bool_argument result # out, s) } }"

subsection \<open>Binary operators\<close>

definition binary_operators :: "byte list list" where
  "binary_operators = [ascii ''MATCHES'', ascii ''LESS'', ascii ''LESS_EQUAL'', ascii ''GREATER'', ascii ''GREATER_EQUAL'', ascii ''EQUAL'',
     ascii ''STRLESS'', ascii ''STRLESS_EQUAL'', ascii ''STRGREATER'', ascii ''STRGREATER_EQUAL'', ascii ''STREQUAL'',
     ascii ''VERSION_LESS'', ascii ''VERSION_LESS_EQUAL'', ascii ''VERSION_GREATER'', ascii ''VERSION_GREATER_EQUAL'', ascii ''VERSION_EQUAL'',
     ascii ''IS_NEWER_THAN'', ascii ''IN_LIST'']"

text \<open>The relation with a number from 1 to 5, from being less and being equal.\<close>

definition select_relation :: "nat \<Rightarrow> ('a \<Rightarrow> 'a \<Rightarrow> bool) \<Rightarrow> ('a \<Rightarrow> 'a \<Rightarrow> bool) \<Rightarrow> 'a \<Rightarrow> 'a \<Rightarrow> bool" where
  "select_relation n lt eq lhs rhs =
     (if n = 1 then lt lhs rhs else if n = 2 then lt lhs rhs \<or> eq lhs rhs
      else if n = 3 then lt rhs lhs else if n = 4 then lt rhs lhs \<or> eq lhs rhs else n = 5 \<and> eq lhs rhs)"

definition MATCH2CMPOP :: "CompareOp list" where
  "MATCH2CMPOP = [OP_LESS, OP_LESS_EQUAL, OP_GREATER, OP_GREATER_EQUAL, OP_EQUAL]"

definition compare_numbers :: "condition_world \<Rightarrow> nat \<Rightarrow> byte list \<Rightarrow> byte list \<Rightarrow> bool" where
  "compare_numbers w n lhs rhs =
     (case sscanf_double w lhs of None \<Rightarrow> False
      | Some l \<Rightarrow> case sscanf_double w rhs of None \<Rightarrow> False
        | Some r \<Rightarrow> select_relation n double_less double_equal l r)"

text \<open>The variables of the last match (\<^verbatim>\<open>cmMakefile.cxx\<close>).\<close>

definition AddDefinition :: "byte list \<Rightarrow> byte list \<Rightarrow> cmMakefile \<Rightarrow> cmMakefile" where
  "AddDefinition name v mk = mk\<lparr>mk_definitions := (mk_definitions mk)(name \<mapsto> v), mk_initialized := (mk_initialized mk)(name := True)\<rparr>"

definition matchVariables :: "nat \<Rightarrow> byte list" where
  "matchVariables i = ascii ''CMAKE_MATCH_'' @ [0x30 + word_of_nat i]"

definition nMatchesVariable :: "byte list" where
  "nMatchesVariable = ascii ''CMAKE_MATCH_COUNT''"

definition clear_match :: "nat \<Rightarrow> cmMakefile \<Rightarrow> cmMakefile" where
  "clear_match i mk =
     (case mk_definitions mk (matchVariables i) of None \<Rightarrow> mk
      | Some v \<Rightarrow> if v \<noteq> [] then AddDefinition (matchVariables i) [] mk else mk)"

definition ClearMatches :: "cmMakefile \<Rightarrow> cmMakefile option" where
  "ClearMatches mk =
     (case mk_definitions mk nMatchesVariable of None \<Rightarrow> Some mk
      | Some nMatchesStr \<Rightarrow>
          do { nMatches \<leftarrow> atoi nMatchesStr;
               if nMatches \<ge> 10 then None
               else Some (AddDefinition nMatchesVariable (ascii ''0'') (fold clear_match [0..<nat (nMatches + 1)] mk)) })"

definition store_match :: "byte list list \<Rightarrow> nat \<Rightarrow> byte list \<times> cmMakefile \<Rightarrow> byte list \<times> cmMakefile" where
  "store_match ms i = (\<lambda>(highest, mk).
     if ms ! i \<noteq> [] then ([0x30 + word_of_nat i], AddDefinition (matchVariables i) (ms ! i) mk) else (highest, mk))"

definition StoreMatches :: "byte list list \<Rightarrow> cmMakefile \<Rightarrow> cmMakefile option" where
  "StoreMatches ms mk =
     (if length ms < 10 then None
      else let (highest, mk) = fold (store_match ms) [0..<10] ([], mk) in Some (AddDefinition nMatchesVariable highest mk))"

text \<open>What an operator gives: nothing when it is not one yet, a truth value, or an error.\<close>

datatype binary_result = B_none | B_value bool | B_error "byte list"

definition regex_match ::
  "cmConditionEvaluator \<Rightarrow> cmExpandedCommandArgument \<Rightarrow> byte list \<Rightarrow> condition_state \<Rightarrow> (binary_result \<times> condition_state) option" where
  "regex_match ce cur rex s =
     do { (def, s) \<leftarrow> GetVariableOrString ce cur s;
          mk \<leftarrow> ClearMatches (cs_makefile s);
          case regex_compile (ce_world ce) rex of
            None \<Rightarrow> Some (B_error (ascii ''Regular expression '' @ [0x22] @ rex @ [0x22] @ ascii '' cannot compile''), s\<lparr>cs_makefile := mk\<rparr>)
          | Some match \<Rightarrow>
              (case match def of
                 None \<Rightarrow> Some (B_value False, s\<lparr>cs_makefile := mk\<rparr>)
               | Some ms \<Rightarrow> do { mk \<leftarrow> StoreMatches ms mk; Some (B_value True, s\<lparr>cs_makefile := mk\<rparr>) }) }"

text \<open>Whether a comparison with two variables or strings is true.\<close>

definition compare_values :: "condition_world \<Rightarrow> nat \<Rightarrow> byte list \<Rightarrow> byte list \<Rightarrow> bool" where
  "compare_values w n lhs rhs =
     (if n \<le> 6 then compare_numbers w (n - 1) lhs rhs
      else if n \<le> 11 then select_relation (n - 6) string_less (=) lhs rhs
      else VersionCompare (MATCH2CMPOP ! (n - 12)) lhs rhs)"

definition binary_operator ::
  "cmConditionEvaluator \<Rightarrow> nat \<Rightarrow> cmExpandedCommandArgument \<Rightarrow> cmExpandedCommandArgument \<Rightarrow> condition_state \<Rightarrow> (binary_result \<times> condition_state) option" where
  "binary_operator ce n cur nextnext s =
     (if n = 0 then Some (B_none, s)
      else if n = 1 then regex_match ce cur (ex_Value nextnext) s
      else if n \<le> 16
      then do { (lhs, s) \<leftarrow> GetVariableOrString ce cur s;
                (rhs, s) \<leftarrow> GetVariableOrString ce nextnext s;
                Some (B_value (compare_values (ce_world ce) n lhs rhs), s) }
      else if n = 17
      then Some (B_value (case FileTimeCompare (ce_world ce) (ex_Value cur) (ex_Value nextnext) of None \<Rightarrow> True | Some r \<Rightarrow> r = 1 \<or> r = 0), s)
      else if \<not> old_policy (Policy57Status ce)
      then do { (lhs, s) \<leftarrow> GetVariableOrString ce cur s;
                let rhs = mk_definitions (cs_makefile s) (ex_Value nextnext);
                Some (B_value (case rhs of None \<Rightarrow> False | Some r \<Rightarrow> lhs \<in> set (cmExpandedList r True)), s) }
      else if Policy57Status ce = PS_WARN then Some (B_none, policy_warning ce 57 (ascii ''IN_LIST'') s)
      else Some (B_none, s))"

fun HandleLevel2 :: "cmConditionEvaluator \<Rightarrow> arguments \<Rightarrow> condition_state \<Rightarrow> (bool \<times> arguments \<times> condition_state) option" where
  "HandleLevel2 ce [] s = Some (True, [], s)"
| "HandleLevel2 ce [cur] s = Some (True, [cur], s)"
| "HandleLevel2 ce (cur # nxt # rest) s =
     do { (matches, s) \<leftarrow> IsKeyword ce (ascii ''MATCHES'') cur s;
          if matches
          then do { (ok, out, s) \<leftarrow> HandleLevel2 ce rest s; Some (ok, bool_argument False # out, s) }
          else case rest of
            [] \<Rightarrow> Some (True, [cur, nxt], s)
          | nextnext # rest' \<Rightarrow>
              do { (n, s) \<leftarrow> matchKeys ce nxt 1 binary_operators s;
                   (result, s) \<leftarrow> binary_operator ce n cur nextnext s;
                   case result of
                     B_error msg \<Rightarrow> Some (False, [], condition_error msg s)
                   | B_value b \<Rightarrow> do { (ok, out, s) \<leftarrow> HandleLevel2 ce rest' s; Some (ok, bool_argument b # out, s) }
                   | B_none \<Rightarrow> do { (ok, out, s) \<leftarrow> HandleLevel2 ce (nxt # rest) s; Some (ok, cur # out, s) } } }"

subsection \<open>Logical operators\<close>

fun HandleLevel3 :: "cmConditionEvaluator \<Rightarrow> arguments \<Rightarrow> condition_state \<Rightarrow> (bool \<times> arguments \<times> condition_state) option" where
  "HandleLevel3 ce [] s = Some (True, [], s)"
| "HandleLevel3 ce [cur] s = Some (True, [cur], s)"
| "HandleLevel3 ce (cur # nxt # rest) s =
     do { (found, s) \<leftarrow> IsKeyword ce (ascii ''NOT'') cur s;
          if found
          then do { (rhs, s) \<leftarrow> GetBooleanValueWithAutoDereference ce nxt False s;
                    (ok, out, s) \<leftarrow> HandleLevel3 ce rest s;
                    Some (ok, bool_argument (\<not> rhs) # out, s) }
          else do { (ok, out, s) \<leftarrow> HandleLevel3 ce (nxt # rest) s; Some (ok, cur # out, s) } }"

fun HandleLevel4 :: "cmConditionEvaluator \<Rightarrow> arguments \<Rightarrow> condition_state \<Rightarrow> (bool \<times> arguments \<times> condition_state) option" where
  "HandleLevel4 ce [] s = Some (True, [], s)"
| "HandleLevel4 ce [cur] s = Some (True, [cur], s)"
| "HandleLevel4 ce [cur, nxt] s = Some (True, [cur, nxt], s)"
| "HandleLevel4 ce (cur # nxt # nextnext # rest) s =
     do { (n, s) \<leftarrow> matchKeys ce nxt 1 [ascii ''AND'', ascii ''OR''] s;
          if n \<noteq> 0
          then do { (lhs, s) \<leftarrow> GetBooleanValueWithAutoDereference ce cur False s;
                    (rhs, s) \<leftarrow> GetBooleanValueWithAutoDereference ce nextnext False s;
                    (ok, out, s) \<leftarrow> HandleLevel4 ce rest s;
                    Some (ok, bool_argument (if n = 1 then lhs \<and> rhs else lhs \<or> rhs) # out, s) }
          else do { (ok, out, s) \<leftarrow> HandleLevel4 ce (nxt # nextnext # rest) s; Some (ok, cur # out, s) } }"

section \<open>The condition\<close>

text \<open>A pass is repeated until it does not make the list shorter.\<close>

function reduce_level :: "(arguments \<Rightarrow> condition_state \<Rightarrow> (bool \<times> arguments \<times> condition_state) option)
    \<Rightarrow> arguments \<Rightarrow> condition_state \<Rightarrow> (bool \<times> arguments \<times> condition_state) option" where
  "reduce_level fn xs s =
     (case fn xs s of None \<Rightarrow> None
      | Some (ok, ys, s) \<Rightarrow> if ok \<and> length ys < length xs then reduce_level fn ys s else Some (ok, ys, s))"
  by pat_completeness auto
termination
  by (relation "measure (\<lambda>(fn, xs, s). length xs)") auto

declare reduce_level.simps [simp del]

text \<open>The handlers only use their argument on shorter lists.\<close>

lemma HandleLevel0_cong [fundef_cong]:
  assumes "xs = ys" and "s = t" and "ce = ce'" and "\<And>zs u. length zs < length ys \<Longrightarrow> f zs u = g zs u"
  shows "HandleLevel0 f ce xs s = HandleLevel0 g ce' ys t"
  using assms(4) unfolding assms(1-3)
proof (induction f ce' ys t rule: HandleLevel0.induct)
  case (2 f ce arg rest s)
  show ?case
  proof (cases "IsKeyword ce (ascii ''('') arg s")
    case (Some p)
    obtain open' u where p: "(open', u) = p" by (cases p) auto
    show ?thesis
    proof (cases open')
      case False
      have "HandleLevel0 f ce rest u = HandleLevel0 g ce rest u" using "2.IH"(2) [OF Some p False] "2.prems" by simp
      with Some p [symmetric] False show ?thesis by simp
    next
      case True
      show ?thesis
      proof (cases "find_close ce 1 [] rest u")
        case c: (Some q)
        obtain depth sub after v where q: "q = (depth, sub, after, v)" by (metis prod_cases4)
        have l: "length sub + length after = length rest" using find_close_length [of ce 1 "[]" rest u] c q by simp
        have f: "f (butlast sub) v = g (butlast sub) v" using "2.prems" l by simp
        have "HandleLevel0 f ce after w = HandleLevel0 g ce after w" if "depth = 0" "f (butlast sub) v = Some (val, w)" for val w
          using "2.IH"(1) [OF Some p True c [unfolded q] refl refl refl _ that(2) refl] that(1) "2.prems" l by simp
        with Some p [symmetric] True c q f show ?thesis by (auto split: bind_splits)
      qed (use Some p [symmetric] True in simp)
    qed
  qed simp
qed simp

lemma reduce_level_cong [fundef_cong]:
  assumes "xs = ys" and "s = t" and "\<And>zs u. length zs \<le> length ys \<Longrightarrow> f zs u = g zs u"
  shows "reduce_level f xs s = reduce_level g ys t"
  using assms(3) unfolding assms(1,2)
proof (induction f ys t rule: reduce_level.induct)
  case (1 f xs s)
  show ?case
  proof (cases "f xs s")
    case None
    then show ?thesis using "1.prems" [of xs s] by (simp add: reduce_level.simps)
  next
    case (Some p)
    obtain ok ys u where p: "p = (ok, ys, u)" by (cases p)
    have "reduce_level f ys u = reduce_level g ys u" if "ok \<and> length ys < length xs"
      using "1.IH" [OF Some [unfolded p] refl refl that] that "1.prems" by simp
    then show ?thesis using Some p "1.prems" [of xs s] by (simp add: reduce_level.simps)
  qed
qed

text \<open>What follows the pass over the parentheses.\<close>

definition finish_levels :: "cmConditionEvaluator \<Rightarrow> arguments \<Rightarrow> condition_state \<Rightarrow> (bool \<times> condition_state) option" where
  "finish_levels ce newArgs s =
     do { (ok, newArgs, s) \<leftarrow> reduce_level (HandleLevel1 ce) newArgs s;
          if \<not> ok then Some (False, s)
          else do { (ok, newArgs, s) \<leftarrow> reduce_level (HandleLevel2 ce) newArgs s;
          if \<not> ok then Some (False, s)
          else do { (ok, newArgs, s) \<leftarrow> reduce_level (HandleLevel3 ce) newArgs s;
          if \<not> ok then Some (False, s)
          else do { (ok, newArgs, s) \<leftarrow> reduce_level (HandleLevel4 ce) newArgs s;
          if \<not> ok then Some (False, s)
          else case newArgs of
                 [arg] \<Rightarrow> GetBooleanValueWithAutoDereference ce arg True s
               | _ \<Rightarrow> Some (False, condition_error (ascii ''Unknown arguments specified'') s) } } } }"

function IsTrue :: "cmConditionEvaluator \<Rightarrow> arguments \<Rightarrow> condition_state \<Rightarrow> (bool \<times> condition_state) option" where
  "IsTrue ce args s =
     (if args = [] then Some (False, s\<lparr>cs_errorString := []\<rparr>)
      else do { (ok, newArgs, s) \<leftarrow> reduce_level (\<lambda>xs u. HandleLevel0 (\<lambda>sub v. IsTrue ce sub v) ce xs u) args (s\<lparr>cs_errorString := []\<rparr>);
                if \<not> ok then Some (False, s) else finish_levels ce newArgs s })"
  by pat_completeness auto
termination
  by (relation "measure (\<lambda>(ce, args, s). length args)") auto

declare IsTrue.simps [simp del]

end
