(* ===== verification/ConditionsMeaning.thy ===== *)
theory ConditionsMeaning
  imports Conditions
begin

text \<open>
  What conditions mean (\<^verbatim>\<open>cmConditionEvaluator.cxx\<close>): the syntax of conditions, their value by recursion, and the passes
  over the arguments of a condition one after the other.  All four policies are set to \<open>NEW\<close>.
\<close>

section \<open>Conditions\<close>

text \<open>Predicates and operators have their numbers; in a chain of literals, true is \<open>AND\<close> and false is \<open>OR\<close>.\<close>

datatype basic = C_value cmExpandedCommandArgument | C_test nat cmExpandedCommandArgument
  | C_compare cmExpandedCommandArgument nat cmExpandedCommandArgument | C_group literal "(bool \<times> literal) list"
  and literal = C_literal bool basic

definition keyword :: "byte list \<Rightarrow> cmExpandedCommandArgument" where
  "keyword k = \<lparr>ex_Value = k, ex_Quoted = False\<rparr>"

definition connective :: "bool \<Rightarrow> cmExpandedCommandArgument" where
  "connective c = keyword (if c then ascii ''AND'' else ascii ''OR'')"

text \<open>The arguments of a condition.\<close>

fun basic_tokens :: "basic \<Rightarrow> arguments" and literal_tokens :: "literal \<Rightarrow> arguments" where
  "basic_tokens (C_value a) = [a]"
| "basic_tokens (C_test n a) = [keyword (predicates ! (n - 1)), a]"
| "basic_tokens (C_compare a n b) = [a, keyword (binary_operators ! (n - 1)), b]"
| "basic_tokens (C_group l ls) = keyword (ascii ''('') # literal_tokens l @ concat (map (\<lambda>(c, l). connective c # literal_tokens l) ls) @ [keyword (ascii '')'')]"
| "literal_tokens (C_literal neg b) = (if neg then [keyword (ascii ''NOT'')] else []) @ basic_tokens b"

definition condition_tokens :: "literal \<Rightarrow> (bool \<times> literal) list \<Rightarrow> arguments" where
  "condition_tokens l ls = literal_tokens l @ concat (map (\<lambda>(c, l). connective c # literal_tokens l) ls)"

definition reserved :: "byte list list" where
  "reserved = predicates @ binary_operators @ [ascii ''('', ascii '')'', ascii ''NOT'', ascii ''AND'', ascii ''OR'']"

definition operand :: "cmExpandedCommandArgument \<Rightarrow> bool" where
  "operand a \<longleftrightarrow> ex_Quoted a \<or> ex_Value a \<notin> set reserved"

text \<open>Conditions whose operands are no keywords, and without regular expressions.\<close>

fun basic_ok :: "basic \<Rightarrow> bool" and literal_ok :: "literal \<Rightarrow> bool" where
  "basic_ok (C_value a) \<longleftrightarrow> operand a"
| "basic_ok (C_test n a) \<longleftrightarrow> 1 \<le> n \<and> n \<le> 9 \<and> operand a"
| "basic_ok (C_compare a n b) \<longleftrightarrow> 2 \<le> n \<and> n \<le> 18 \<and> operand a \<and> operand b"
| "basic_ok (C_group l ls) \<longleftrightarrow> literal_ok l \<and> list_all (\<lambda>(c, l). literal_ok l) ls"
| "literal_ok (C_literal neg b) \<longleftrightarrow> basic_ok b"

section \<open>Values\<close>

definition variable_or_string :: "cmMakefile \<Rightarrow> cmExpandedCommandArgument \<Rightarrow> byte list" where
  "variable_or_string mk a = (if ex_Quoted a then ex_Value a else case mk_definitions mk (ex_Value a) of None \<Rightarrow> ex_Value a | Some v \<Rightarrow> v)"

text \<open>The truth of an argument: constants, numbers, and otherwise variables.\<close>

definition truth :: "condition_world \<Rightarrow> cmMakefile \<Rightarrow> cmExpandedCommandArgument \<Rightarrow> bool" where
  "truth w mk a =
     (let v = ex_Value a; (d, n) = strtod w v
      in if value_IsOn v then True else if value_IsOff v then False
         else if (v @ [0]) ! n = 0 then d \<noteq> D_finite 0
         else if ex_Quoted a then False else \<not> cmIsOff (mk_definitions mk v))"

definition comparison :: "condition_world \<Rightarrow> cmMakefile \<Rightarrow> nat \<Rightarrow> cmExpandedCommandArgument \<Rightarrow> cmExpandedCommandArgument \<Rightarrow> bool" where
  "comparison w mk n a b =
     (if n \<le> 16 then compare_values w n (variable_or_string mk a) (variable_or_string mk b)
      else if n = 17 then (case FileTimeCompare w (ex_Value a) (ex_Value b) of None \<Rightarrow> True | Some r \<Rightarrow> r = 1 \<or> r = 0)
      else case mk_definitions mk (ex_Value b) of None \<Rightarrow> False | Some r \<Rightarrow> variable_or_string mk a \<in> set (cmExpandedList r True))"

text \<open>
  The operators \<open>AND\<close> and \<open>OR\<close> have the same precedence; a pass combines the first operand with the second, the third with
  the fourth and so on, until one is left.
\<close>

definition combine :: "bool \<Rightarrow> bool \<Rightarrow> bool \<Rightarrow> bool" where
  "combine c x y = (if c then x \<and> y else x \<or> y)"

fun pair_pass :: "bool \<Rightarrow> (bool \<times> bool) list \<Rightarrow> bool \<times> (bool \<times> bool) list" where
  "pair_pass x [] = (x, [])"
| "pair_pass x [(c, y)] = (combine c x y, [])"
| "pair_pass x ((c, y) # (d, z) # ps) = (let (z', ps') = pair_pass z ps in (combine c x y, (d, z') # ps'))"

lemma pair_pass_length: "length (snd (pair_pass x ps)) = length ps div 2"
  by (induction x ps rule: pair_pass.induct) (auto simp: Let_def split: prod.split)

function balance :: "bool \<Rightarrow> (bool \<times> bool) list \<Rightarrow> bool" where
  "balance x ps = (if ps = [] then x else balance (fst (pair_pass x ps)) (snd (pair_pass x ps)))"
  by pat_completeness auto
termination
proof (relation "measure (\<lambda>(x, ps). length ps)")
  fix x :: bool and ps :: "(bool \<times> bool) list"
  assume "ps \<noteq> []"
  then show "((fst (pair_pass x ps), snd (pair_pass x ps)), x, ps) \<in> measure (\<lambda>(x, ps). length ps)"
    by (simp add: case_prod_beta pair_pass_length)
qed simp

declare balance.simps [simp del]

fun basic_value :: "condition_world \<Rightarrow> cmMakefile \<Rightarrow> basic \<Rightarrow> bool" and literal_value :: "condition_world \<Rightarrow> cmMakefile \<Rightarrow> literal \<Rightarrow> bool" where
  "basic_value w mk (C_value a) = truth w mk a"
| "basic_value w mk (C_test n a) = predicate w mk n (ex_Value a)"
| "basic_value w mk (C_compare a n b) = comparison w mk n a b"
| "basic_value w mk (C_group l ls) = balance (literal_value w mk l) (map (\<lambda>(c, l). (c, literal_value w mk l)) ls)"
| "literal_value w mk (C_literal neg b) = (basic_value w mk b \<noteq> neg)"

definition condition_value :: "condition_world \<Rightarrow> cmMakefile \<Rightarrow> literal \<Rightarrow> (bool \<times> literal) list \<Rightarrow> bool" where
  "condition_value w mk l ls = balance (literal_value w mk l) (map (\<lambda>(c, l). (c, literal_value w mk l)) ls)"

end
