(* ===== verification/ConditionsPasses.thy ===== *)
theory ConditionsPasses
  imports ConditionsMeaning
begin

text \<open>
  The passes of the evaluator (\<^verbatim>\<open>cmConditionEvaluator.cxx\<close>) over the arguments of a condition: each replaces its
  operators by truth values and leaves the rest, so that the value of a condition is what it means.
\<close>

section \<open>The new policies\<close>

definition new_policies :: "cmConditionEvaluator \<Rightarrow> bool" where
  "new_policies ce \<longleftrightarrow> Policy12Status ce = PS_NEW \<and> \<not> old_policy (Policy54Status ce) \<and> \<not> old_policy (Policy57Status ce)
     \<and> \<not> old_policy (Policy64Status ce)"

text \<open>\<open>strtod\<close> does not read past the string.\<close>

definition strtod_ok :: "condition_world \<Rightarrow> bool" where
  "strtod_ok w \<longleftrightarrow> (\<forall>v. snd (strtod w v) \<le> length v)"

lemma IsKeyword_new: "new_policies ce \<Longrightarrow> IsKeyword ce k a s = Some (\<not> ex_Quoted a \<and> ex_Value a = k, s)"
  by (auto simp: IsKeyword_def new_policies_def old_policy_def)

lemma matchKeys_none: "new_policies ce \<Longrightarrow> ex_Quoted a \<or> ex_Value a \<notin> set ks \<Longrightarrow> matchKeys ce a n ks s = Some (0, s)"
  by (induction ks arbitrary: n) (auto simp: IsKeyword_new)

lemma matchKeys_nth:
  "new_policies ce \<Longrightarrow> distinct ks \<Longrightarrow> i < length ks \<Longrightarrow> matchKeys ce (keyword (ks ! i)) n ks s = Some (n + i, s)"
proof (induction ks arbitrary: n i)
  case (Cons k ks)
  show ?case
  proof (cases i)
    case 0
    then show ?thesis using Cons.prems by (simp add: IsKeyword_new keyword_def)
  next
    case (Suc j)
    then have "ks ! j \<noteq> k" using Cons.prems by auto
    then show ?thesis using Cons Suc by (simp add: IsKeyword_new keyword_def)
  qed
qed simp

lemma GetDefinitionIfUnquoted_new:
  "new_policies ce \<Longrightarrow> GetDefinitionIfUnquoted ce a s = Some (if ex_Quoted a then None else mk_definitions (cs_makefile s) (ex_Value a), s)"
  by (auto simp: GetDefinitionIfUnquoted_def new_policies_def Let_def)

lemma GetVariableOrString_new:
  "new_policies ce \<Longrightarrow> GetVariableOrString ce a s = Some (variable_or_string (cs_makefile s) a, s)"
  by (simp add: GetVariableOrString_def GetDefinitionIfUnquoted_new variable_or_string_def)

lemma truth_new:
  assumes "new_policies ce" and "strtod_ok (ce_world ce)"
  shows "GetBooleanValueWithAutoDereference ce a one s = Some (truth (ce_world ce) (cs_makefile s) a, s)"
proof -
  have p: "Policy12Status ce = PS_NEW" using assms(1) by (simp add: new_policies_def)
  obtain d n where d: "strtod (ce_world ce) (ex_Value a) = (d, n)" by fastforce
  then have "n < length (ex_Value a @ [0])" using assms(2) by (metis length_append_singleton less_Suc_eq_le snd_conv strtod_ok_def)
  moreover have "\<not> value_IsOff (ex_Value a) \<Longrightarrow> ex_Value a \<noteq> []" by (auto simp: value_IsOff_def)
  ultimately show ?thesis
    using d by (auto simp: GetBooleanValueWithAutoDereference_def p GetBooleanValue_def truth_def char_at_def GetDefinitionIfUnquoted_new [OF assms(1)] cmIsOff_def)
qed

lemma truth_bool [simp]: "truth w mk (bool_argument b) = b"
  by (simp add: truth_def bool_argument_def value_IsOn_def value_IsOff_def ascii_def ascii_lower_def)

section \<open>One element after the other\<close>

definition emit :: "arguments \<Rightarrow> (bool \<times> arguments \<times> condition_state) option \<Rightarrow> (bool \<times> arguments \<times> condition_state) option" where
  "emit ys m = do { (ok, out, s) \<leftarrow> m; Some (ok, ys @ out, s) }"

lemma emit_simps [simp]: "emit [] m = m" "emit xs (emit ys m) = emit (xs @ ys) m" "emit ys (Some (ok, out, s)) = Some (ok, ys @ out, s)"
  by (cases m; auto simp: emit_def)+

lemma emit_Cons: "do { (ok, out, s) \<leftarrow> m; Some (ok, y # out, s) } = emit [y] m"
  by (simp add: emit_def)

text \<open>A pass that changes nothing more ends its level.\<close>

lemma reduce_level_once:
  assumes "fn xs s = Some (True, ys, s)" and "fn ys s = Some (True, ys, s)"
  shows "reduce_level fn xs s = Some (True, ys, s)"
  using assms by (simp add: reduce_level.simps)

lemma operand_words:
  assumes "operand a"
  shows "ex_Quoted a \<or> ex_Value a \<notin> set predicates" "ex_Quoted a \<or> ex_Value a \<notin> set binary_operators"
    "\<not> (\<not> ex_Quoted a \<and> ex_Value a = ascii ''('')" "\<not> (\<not> ex_Quoted a \<and> ex_Value a = ascii '')'')"
    "\<not> (\<not> ex_Quoted a \<and> ex_Value a = ascii ''NOT'')" "ex_Quoted a \<or> ex_Value a \<notin> {ascii ''AND'', ascii ''OR''}"
  using assms by (auto simp: operand_def reserved_def)

lemma operand_bool [simp]: "operand (bool_argument b)"
  by (simp add: operand_def bool_argument_def)

lemma distinct_words: "distinct predicates" "distinct binary_operators"
  by (simp_all add: predicates_def binary_operators_def ascii_def)

lemma words_apart:
  "ascii ''('' \<notin> set predicates \<union> set binary_operators" "ascii '')'' \<notin> set predicates \<union> set binary_operators"
  "ascii ''NOT'' \<notin> set predicates \<union> set binary_operators" "ascii ''AND'' \<notin> set predicates \<union> set binary_operators"
  "ascii ''OR'' \<notin> set predicates \<union> set binary_operators" "set predicates \<inter> set binary_operators = {}"
  by (auto simp: predicates_def binary_operators_def ascii_def)

lemma level1_skip:
  assumes "new_policies ce" and "ex_Quoted a \<or> ex_Value a \<notin> set predicates"
  shows "HandleLevel1 ce (a # rest) s = emit [a] (HandleLevel1 ce rest s)"
proof -
  have "Policy64Status ce \<noteq> PS_WARN" using assms(1) by (auto simp: new_policies_def old_policy_def)
  then show ?thesis by (cases rest) (simp_all add: policyCheck_def matchKeys_none [OF assms] emit_Cons)
qed

lemma level1_test:
  assumes "new_policies ce" and "1 \<le> n" and "n \<le> 9"
  shows "HandleLevel1 ce (keyword (predicates ! (n - 1)) # a # rest) s
    = emit [bool_argument (predicate (ce_world ce) (cs_makefile s) n (ex_Value a))] (HandleLevel1 ce rest s)"
proof -
  have "n - 1 < length predicates" using assms by (simp add: predicates_def)
  from matchKeys_nth [OF assms(1) distinct_words(1) this, of 1] assms(2)
  have "matchKeys ce (keyword (predicates ! (n - 1))) 1 predicates s = Some (n, s)" for s by simp
  moreover have "Policy64Status ce \<noteq> PS_WARN" "\<not> old_policy (Policy64Status ce)" using assms(1) by (auto simp: new_policies_def old_policy_def)
  ultimately show ?thesis using assms(2) by (simp add: policyCheck_def emit_Cons Let_def)
qed

lemma binary_none: "binary_operator ce 0 a b s = Some (B_none, s)"
  by (simp add: binary_operator_def)

lemma level2_skip:
  assumes "new_policies ce" and "ex_Quoted a \<or> ex_Value a \<noteq> ascii ''MATCHES''"
    and "rest = [] \<or> ex_Quoted (hd rest) \<or> ex_Value (hd rest) \<notin> set binary_operators"
  shows "HandleLevel2 ce (a # rest) s = emit [a] (HandleLevel2 ce rest s)"
proof (cases rest)
  case (Cons b more)
  have n: "matchKeys ce b 1 binary_operators s = Some (0, s)" for s using assms(3) Cons by (intro matchKeys_none [OF assms(1)]) simp
  have k: "IsKeyword ce (ascii ''MATCHES'') a s = Some (False, s)" using assms(2) by (auto simp: IsKeyword_new [OF assms(1)])
  show ?thesis
  proof (cases more)
    case Nil
    then show ?thesis using k by (simp add: Cons)
  next
    case (Cons c zs)
    have "HandleLevel2 ce (a # b # c # zs) s = emit [a] (HandleLevel2 ce (b # c # zs) s)"
      using n k by (subst HandleLevel2.simps(3)) (simp add: binary_none emit_Cons del: HandleLevel2.simps matchKeys.simps)
    then show ?thesis by (simp only: Cons \<open>rest = b # more\<close>)
  qed
qed simp

lemma level2_compare:
  assumes "new_policies ce" and "2 \<le> n" and "n \<le> 18" and "ex_Quoted a \<or> ex_Value a \<noteq> ascii ''MATCHES''"
  shows "HandleLevel2 ce (a # keyword (binary_operators ! (n - 1)) # b # rest) s
    = emit [bool_argument (comparison (ce_world ce) (cs_makefile s) n a b)] (HandleLevel2 ce rest s)"
proof -
  have "n - 1 < length binary_operators" using assms by (simp add: binary_operators_def)
  from matchKeys_nth [OF assms(1) distinct_words(2) this, of 1] assms(2)
  have m: "matchKeys ce (keyword (binary_operators ! (n - 1))) 1 binary_operators s = Some (n, s)" for s by simp
  have p: "\<not> old_policy (Policy57Status ce)" using assms(1) by (simp add: new_policies_def)
  have "binary_operator ce n a b s = Some (B_value (comparison (ce_world ce) (cs_makefile s) n a b), s)" for s
    using assms(2,3) by (simp add: binary_operator_def comparison_def GetVariableOrString_new [OF assms(1)] p Let_def)
  moreover have "IsKeyword ce (ascii ''MATCHES'') a s = Some (False, s)" using assms(4) by (auto simp: IsKeyword_new [OF assms(1)])
  ultimately show ?thesis using m by (simp add: emit_Cons del: matchKeys.simps)
qed

lemma level3_skip:
  "new_policies ce \<Longrightarrow> ex_Quoted a \<or> ex_Value a \<noteq> ascii ''NOT'' \<Longrightarrow> HandleLevel3 ce (a # rest) s = emit [a] (HandleLevel3 ce rest s)"
  by (cases rest) (auto simp: IsKeyword_new emit_Cons)

lemma level3_not:
  "new_policies ce \<Longrightarrow> strtod_ok (ce_world ce) \<Longrightarrow> HandleLevel3 ce (keyword (ascii ''NOT'') # a # rest) s
    = emit [bool_argument (\<not> truth (ce_world ce) (cs_makefile s) a)] (HandleLevel3 ce rest s)"
  by (simp add: IsKeyword_new keyword_def truth_new emit_Cons)

declare HandleLevel1.simps(2,3) [simp del] HandleLevel2.simps(2,3) [simp del] HandleLevel3.simps(2,3) [simp del]

section \<open>Chains\<close>

definition chain :: "(literal \<Rightarrow> arguments) \<Rightarrow> literal \<Rightarrow> (bool \<times> literal) list \<Rightarrow> arguments" where
  "chain f l ls = f l @ concat (map (\<lambda>(c, l). connective c # f l) ls)"

lemma chain_simps: "chain f l [] = f l" "chain f l ((c, k) # ls) = f l @ connective c # chain f k ls"
  by (simp_all add: chain_def)

text \<open>A pass over a chain, from what it does with a literal and with an operator.\<close>

lemma chain_pass:
  assumes "fn [] s = Some (True, [], s)"
    and "\<And>k rest. k \<in> insert l (snd ` set ls) \<Longrightarrow> rest = [] \<or> (\<exists>c. hd rest = connective c) \<Longrightarrow> fn (f k @ rest) s = emit (g k) (fn rest s)"
    and "\<And>c k rest. k \<in> insert l (snd ` set ls) \<Longrightarrow> fn (connective c # f k @ rest) s = emit [connective c] (fn (f k @ rest) s)"
  shows "fn (chain f l ls) s = Some (True, chain g l ls, s)"
  using assms(2,3)
proof (induction ls arbitrary: l)
  case Nil
  from Nil.prems(1) [of l "[]"] show ?case by (simp add: chain_simps assms(1))
next
  case (Cons p ls)
  obtain c k where p: "p = (c, k)" by (cases p)
  have "fn (chain f k ls) s = Some (True, chain g k ls, s)"
    by (rule Cons.IH) (use Cons.prems p in \<open>auto\<close>)
  moreover have "fn (connective c # chain f k ls) s = emit [connective c] (fn (chain f k ls) s)"
    using Cons.prems(2) [of k c "concat (map (\<lambda>(c, l). connective c # f l) ls)"] p by (simp add: chain_def)
  moreover have "fn (chain f l (p # ls)) s = emit (g l) (fn (connective c # chain f k ls) s)"
    using Cons.prems(1) [of l "connective c # chain f k ls"] by (auto simp: p chain_simps)
  ultimately show ?case by (simp add: p chain_simps)
qed

section \<open>Literals after each pass\<close>

definition negation :: "bool \<Rightarrow> arguments" where
  "negation neg = (if neg then [keyword (ascii ''NOT'')] else [])"

fun tokens0 :: "condition_world \<Rightarrow> cmMakefile \<Rightarrow> basic \<Rightarrow> arguments" where
  "tokens0 w mk (C_group l ls) = [bool_argument (basic_value w mk (C_group l ls))]"
| "tokens0 w mk b = basic_tokens b"

fun tokens1 :: "condition_world \<Rightarrow> cmMakefile \<Rightarrow> basic \<Rightarrow> arguments" where
  "tokens1 w mk (C_test n a) = [bool_argument (basic_value w mk (C_test n a))]"
| "tokens1 w mk b = tokens0 w mk b"

fun basic_argument :: "condition_world \<Rightarrow> cmMakefile \<Rightarrow> basic \<Rightarrow> cmExpandedCommandArgument" where
  "basic_argument w mk (C_value a) = a"
| "basic_argument w mk b = bool_argument (basic_value w mk b)"

fun with_negation :: "(basic \<Rightarrow> arguments) \<Rightarrow> literal \<Rightarrow> arguments" where
  "with_negation f (C_literal neg b) = negation neg @ f b"

fun literal_argument :: "condition_world \<Rightarrow> cmMakefile \<Rightarrow> literal \<Rightarrow> cmExpandedCommandArgument" where
  "literal_argument w mk (C_literal neg b) = (if neg then bool_argument (\<not> basic_value w mk b) else basic_argument w mk b)"

lemma basic_argument_truth [simp]: "truth w mk (basic_argument w mk b) = basic_value w mk b"
  by (cases b) (simp_all del: basic_value.simps(4))

lemma literal_argument_truth: "truth w mk (literal_argument w mk l) = literal_value w mk l"
  by (cases l) auto

lemma basic_argument_operand: "basic_ok b \<Longrightarrow> operand (basic_argument w mk b)"
  by (cases b) simp_all

lemma literal_argument_operand: "literal_ok l \<Longrightarrow> operand (literal_argument w mk l)"
  by (cases l) (simp add: basic_argument_operand)

lemma keyword_quoted [simp]: "ex_Quoted (keyword k) = False" "ex_Value (keyword k) = k"
  by (simp_all add: keyword_def)

lemma connective_word: "ex_Value (connective c) \<notin> set predicates \<union> set binary_operators" "ex_Value (connective c) \<noteq> ascii ''NOT''"
  "ex_Value (connective c) \<noteq> ascii ''MATCHES''" "ex_Value (connective c) \<noteq> ascii ''(''" "ex_Value (connective c) \<noteq> ascii '')''"
  by (cases c; simp add: connective_def predicates_def binary_operators_def ascii_def)+

lemma binary_word:
  assumes "2 \<le> n" and "n \<le> 18"
  shows "binary_operators ! (n - 1) \<in> set binary_operators" "binary_operators ! (n - 1) \<notin> set predicates" "binary_operators ! (n - 1) \<noteq> ascii ''NOT''"
proof -
  have "n - 1 < length binary_operators" using assms by (simp add: binary_operators_def)
  then show m: "binary_operators ! (n - 1) \<in> set binary_operators" by (rule nth_mem)
  then show "binary_operators ! (n - 1) \<notin> set predicates" "binary_operators ! (n - 1) \<noteq> ascii ''NOT''"
    using words_apart by (blast, metis UnI2)
qed

lemma pass1:
  assumes "new_policies ce" and "literal_ok l"
  shows "HandleLevel1 ce (with_negation (tokens0 (ce_world ce) (cs_makefile s)) l @ rest) s
    = emit (with_negation (tokens1 (ce_world ce) (cs_makefile s)) l) (HandleLevel1 ce rest s)"
proof -
  obtain neg b where l: "l = C_literal neg b" by (cases l)
  have "HandleLevel1 ce (tokens0 (ce_world ce) (cs_makefile s) b @ rest) s = emit (tokens1 (ce_world ce) (cs_makefile s) b) (HandleLevel1 ce rest s)"
  proof (cases b)
    case (C_compare a n c)
    then have "operand a" "operand c" "2 \<le> n" "n \<le> 18" using assms(2) l by simp_all
    with binary_word(2) operand_words(1) show ?thesis by (simp add: C_compare level1_skip [OF assms(1)])
  next
    case (C_test n a)
    then show ?thesis using assms(2) l level1_test [OF assms(1), of n a rest s] by simp
  qed (use assms(2) l operand_words(1) operand_words(1) [OF operand_bool] in \<open>simp_all add: level1_skip [OF assms(1)] del: basic_value.simps(4)\<close>)
  moreover have "ascii ''NOT'' \<notin> set predicates" using words_apart(3) by simp
  ultimately show ?thesis by (simp add: l negation_def level1_skip [OF assms(1)])
qed

lemma pass2:
  assumes "new_policies ce" and "literal_ok l" and "rest = [] \<or> (\<exists>c. hd rest = connective c)"
  shows "HandleLevel2 ce (with_negation (tokens1 (ce_world ce) (cs_makefile s)) l @ rest) s
    = emit (with_negation (\<lambda>b. [basic_argument (ce_world ce) (cs_makefile s) b]) l) (HandleLevel2 ce rest s)"
proof -
  obtain neg b where l: "l = C_literal neg b" by (cases l)
  let ?t = "tokens1 (ce_world ce) (cs_makefile s) b"
  have r: "rest = [] \<or> ex_Quoted (hd rest) \<or> ex_Value (hd rest) \<notin> set binary_operators" using assms(3) connective_word(1) by auto
  have m: "operand a \<Longrightarrow> ex_Quoted a \<or> ex_Value a \<noteq> ascii ''MATCHES''" for a
    using operand_words(2) [of a] by (auto simp: binary_operators_def)
  have "HandleLevel2 ce (?t @ rest) s = emit [basic_argument (ce_world ce) (cs_makefile s) b] (HandleLevel2 ce rest s)"
  proof (cases b)
    case (C_compare a n c)
    then have "operand a" "2 \<le> n" "n \<le> 18" using assms(2) l by simp_all
    with level2_compare [OF assms(1) _ _ m] show ?thesis by (simp add: C_compare)
  qed (use assms(2) l m r m [OF operand_bool] in \<open>simp_all add: level2_skip [OF assms(1)] del: basic_value.simps(4)\<close>)
  moreover have "?t \<noteq> [] \<and> (ex_Quoted (hd ?t) \<or> ex_Value (hd ?t) \<notin> set binary_operators)"
    using assms(2) l operand_words(2) operand_words(2) [OF operand_bool] by (cases b) (simp_all del: basic_value.simps(4))
  moreover have "ascii ''NOT'' \<noteq> ascii ''MATCHES''" by (simp add: ascii_def)
  ultimately show ?thesis by (auto simp: l negation_def level2_skip [OF assms(1)])
qed

lemma pass3:
  assumes "new_policies ce" and "strtod_ok (ce_world ce)" and "literal_ok l"
  shows "HandleLevel3 ce (with_negation (\<lambda>b. [basic_argument (ce_world ce) (cs_makefile s) b]) l @ rest) s
    = emit [literal_argument (ce_world ce) (cs_makefile s) l] (HandleLevel3 ce rest s)"
proof -
  obtain neg b where l: "l = C_literal neg b" by (cases l)
  have "operand (basic_argument (ce_world ce) (cs_makefile s) b)" using basic_argument_operand assms(3) l by simp
  from operand_words(5) [OF this] show ?thesis
    by (auto simp: l negation_def level3_not [OF assms(1,2)] level3_skip [OF assms(1)])
qed

section \<open>Groups\<close>

definition parenthesis :: "cmExpandedCommandArgument \<Rightarrow> bool" where
  "parenthesis a \<longleftrightarrow> \<not> ex_Quoted a \<and> ex_Value a \<in> {ascii ''('', ascii '')''}"

lemma find_close_word: "new_policies ce \<Longrightarrow> 0 < d \<Longrightarrow> \<not> parenthesis a \<Longrightarrow> find_close ce d seen (a # rest) s = find_close ce d (seen @ [a]) rest s"
  by (auto simp: IsKeyword_new parenthesis_def)

lemma find_close_open: "new_policies ce \<Longrightarrow> 0 < d \<Longrightarrow>
    find_close ce d seen (keyword (ascii ''('') # rest) s = find_close ce (d + 1) (seen @ [keyword (ascii ''('')]) rest s"
  by (simp add: IsKeyword_new) (simp add: ascii_def)

lemma find_close_close: "new_policies ce \<Longrightarrow> 0 < d \<Longrightarrow>
    find_close ce d seen (keyword (ascii '')'') # rest) s = find_close ce (d - 1) (seen @ [keyword (ascii '')'')]) rest s"
  by (simp add: IsKeyword_new) (simp add: ascii_def)

declare find_close.simps(2) [simp del]

lemma plain_words: "operand a \<Longrightarrow> \<not> parenthesis a" "\<not> parenthesis (connective c)" "\<not> parenthesis (keyword (ascii ''NOT''))"
  "k \<in> set predicates \<union> set binary_operators \<Longrightarrow> \<not> parenthesis (keyword k)"
proof -
  show "operand a \<Longrightarrow> \<not> parenthesis a" using operand_words(3,4) [of a] by (auto simp: parenthesis_def)
  show "\<not> parenthesis (connective c)" using connective_word(4,5) by (simp add: parenthesis_def)
  show "\<not> parenthesis (keyword (ascii ''NOT''))" by (simp add: parenthesis_def ascii_def)
  show "k \<in> set predicates \<union> set binary_operators \<Longrightarrow> \<not> parenthesis (keyword k)" using words_apart(1,2) by (auto simp: parenthesis_def)
qed

lemma word_members: "1 \<le> n \<Longrightarrow> n \<le> 9 \<Longrightarrow> predicates ! (n - 1) \<in> set predicates" "2 \<le> n \<Longrightarrow> n \<le> 18 \<Longrightarrow> binary_operators ! (n - 1) \<in> set binary_operators"
  using nth_mem [of "n - 1" predicates] binary_word(1) by (auto simp: predicates_def)

lemma close_chain:
  assumes "new_policies ce" and "0 < d"
    and "\<And>k seen rest. k \<in> insert l (snd ` set ls) \<Longrightarrow> find_close ce d seen (literal_tokens k @ rest) s = find_close ce d (seen @ literal_tokens k) rest s"
  shows "find_close ce d seen (condition_tokens l ls @ rest) s = find_close ce d (seen @ condition_tokens l ls) rest s"
  using assms(3)
proof (induction ls arbitrary: l seen)
  case Nil
  then show ?case by (simp add: condition_tokens_def)
next
  case (Cons p ls)
  obtain c k where p: "p = (c, k)" by (cases p)
  have t: "condition_tokens l (p # ls) = literal_tokens l @ connective c # condition_tokens k ls" by (simp add: condition_tokens_def p)
  have "find_close ce d seen (condition_tokens k ls @ rest) s = find_close ce d (seen @ condition_tokens k ls) rest s" for seen
    by (rule Cons.IH) (use Cons.prems p in auto)
  then show ?case using Cons.prems [of l] by (simp add: t find_close_word [OF assms(1,2) plain_words(2)])
qed

lemma group_tokens: "basic_tokens (C_group l ls) = keyword (ascii ''('') # condition_tokens l ls @ [keyword (ascii '')'')]"
  by (simp add: condition_tokens_def)

lemma literal_tokens_simp: "literal_tokens (C_literal neg b) = negation neg @ basic_tokens b"
  by (simp add: negation_def)

declare basic_tokens.simps(4) [simp del] literal_tokens.simps [simp del]

lemma close_tokens:
  assumes "new_policies ce"
  shows "basic_ok b \<Longrightarrow> 0 < d \<Longrightarrow> find_close ce d seen (basic_tokens b @ rest) s = find_close ce d (seen @ basic_tokens b) rest s"
    and "literal_ok l \<Longrightarrow> 0 < d \<Longrightarrow> find_close ce d seen (literal_tokens l @ rest) s = find_close ce d (seen @ literal_tokens l) rest s"
proof (induction b and l arbitrary: d seen rest and d seen rest rule: basic.induct literal.induct)
  case (C_value a)
  then show ?case by (simp add: find_close_word [OF assms] plain_words(1))
next
  case (C_test n a)
  then show ?case using plain_words(4) word_members(1) by (simp add: find_close_word [OF assms] plain_words(1))
next
  case (C_compare a n b)
  then show ?case using plain_words(4) word_members(2) by (simp add: find_close_word [OF assms] plain_words(1))
next
  case (C_group l ls)
  have k: "find_close ce (d + 1) seen (literal_tokens k @ rest) s = find_close ce (d + 1) (seen @ literal_tokens k) rest s"
    if "k \<in> insert l (snd ` set ls)" for k seen rest
    using that C_group.IH C_group.prems by (auto simp: list_all_iff snds.simps split: prod.splits)
  have "find_close ce (d + 1) seen (condition_tokens l ls @ rest) s = find_close ce (d + 1) (seen @ condition_tokens l ls) rest s" for seen rest
    by (rule close_chain [OF assms]) (use C_group.prems k in auto)
  then show ?case
    using C_group.prems by (simp add: group_tokens find_close_open [OF assms] find_close_close [OF assms])
next
  case (C_literal neg b)
  then show ?case by (simp add: literal_tokens_simp negation_def find_close_word [OF assms] plain_words(3))
qed

lemma close_condition:
  assumes "new_policies ce" and "basic_ok (C_group l ls)"
  shows "find_close ce 1 [] (condition_tokens l ls @ keyword (ascii '')'') # rest) s = Some (0, condition_tokens l ls @ [keyword (ascii '')'')], rest, s)"
proof -
  have "literal_ok k" if "k \<in> insert l (snd ` set ls)" for k using that assms(2) by (auto simp: list_all_iff)
  then have "find_close ce 1 [] (condition_tokens l ls @ keyword (ascii '')'') # rest) s = find_close ce 1 ([] @ condition_tokens l ls) (keyword (ascii '')'') # rest) s"
    by (intro close_chain [OF assms(1)] close_tokens(2) [OF assms(1)]) simp_all
  also have "\<dots> = find_close ce 0 (condition_tokens l ls @ [keyword (ascii '')'')]) rest s"
    by (simp add: find_close_close [OF assms(1)])
  finally show ?thesis by (cases rest) (simp_all add: find_close.simps(2))
qed

lemma level0_skip: "new_policies ce \<Longrightarrow> \<not> parenthesis a \<Longrightarrow> HandleLevel0 F ce (a # rest) s = emit [a] (HandleLevel0 F ce rest s)"
  by (auto simp: IsKeyword_new parenthesis_def emit_Cons)

lemma level0_group:
  assumes "new_policies ce" and "basic_ok (C_group l ls)" and "F (condition_tokens l ls) s = Some (v, u)"
  shows "HandleLevel0 F ce (basic_tokens (C_group l ls) @ rest) s = emit [bool_argument v] (HandleLevel0 F ce rest u)"
  using assms(3) by (simp add: group_tokens IsKeyword_new [OF assms(1)] close_condition [OF assms(1,2), unfolded One_nat_def] close_condition [OF assms(1,2)] emit_Cons)

declare HandleLevel0.simps(2) [simp del]

section \<open>Passes that change nothing\<close>

lemma idle0: "new_policies ce \<Longrightarrow> \<forall>a\<in>set xs. \<not> parenthesis a \<Longrightarrow> HandleLevel0 F ce xs s = Some (True, xs, s)"
  by (induction xs) (simp_all add: level0_skip)

lemma idle1: "new_policies ce \<Longrightarrow> \<forall>a\<in>set xs. ex_Quoted a \<or> ex_Value a \<notin> set predicates \<Longrightarrow> HandleLevel1 ce xs s = Some (True, xs, s)"
  by (induction xs) (simp_all add: level1_skip)

lemma idle2: "new_policies ce \<Longrightarrow> \<forall>a\<in>set xs. ex_Quoted a \<or> ex_Value a \<notin> set binary_operators \<Longrightarrow> HandleLevel2 ce xs s = Some (True, xs, s)"
proof (induction xs)
  case (Cons a xs)
  have "ascii ''MATCHES'' \<in> set binary_operators" by (simp add: binary_operators_def)
  then have "ex_Quoted a \<or> ex_Value a \<noteq> ascii ''MATCHES''" using Cons.prems(2) by auto
  moreover have "xs = [] \<or> ex_Quoted (hd xs) \<or> ex_Value (hd xs) \<notin> set binary_operators" using Cons.prems(2) by (cases xs) auto
  ultimately show ?case using Cons by (simp add: level2_skip)
qed simp

lemma idle3: "new_policies ce \<Longrightarrow> \<forall>a\<in>set xs. ex_Quoted a \<or> ex_Value a \<noteq> ascii ''NOT'' \<Longrightarrow> HandleLevel3 ce xs s = Some (True, xs, s)"
  by (induction xs) (simp_all add: level3_skip)

lemma chain_all:
  assumes "\<And>c. Q (connective c)" and "\<And>k a. k \<in> insert l (snd ` set ls) \<Longrightarrow> a \<in> set (f k) \<Longrightarrow> Q a"
  shows "\<forall>a\<in>set (chain f l ls). Q a"
proof -
  have "set (concat (map (\<lambda>(c, l). connective c # f l) ls)) = (\<Union>p\<in>set ls. insert (connective (fst p)) (set (f (snd p))))"
    by (induction ls) (auto simp: case_prod_beta)
  with assms show ?thesis by (auto simp: chain_def)
qed

lemma plain_tokens:
  assumes "basic_ok b"
  shows "a \<in> set (tokens0 w mk b) \<Longrightarrow> \<not> parenthesis a"
    and "a \<in> set (tokens1 w mk b) \<Longrightarrow> ex_Quoted a \<or> ex_Value a \<notin> set predicates"
proof -
  note simps = basic_value.simps(4)
  show "\<not> parenthesis a" if "a \<in> set (tokens0 w mk b)"
    using assms that plain_words(1) plain_words(1) [OF operand_bool] plain_words(4) word_members by (cases b) (auto simp del: simps)
  show "ex_Quoted a \<or> ex_Value a \<notin> set predicates" if "a \<in> set (tokens1 w mk b)"
    using assms that operand_words(1) operand_words(1) [OF operand_bool] binary_word(2) by (cases b) (auto simp del: simps)
qed

lemma with_negation_all:
  "Q (keyword (ascii ''NOT'')) \<Longrightarrow> (\<And>b a. k = C_literal neg b \<Longrightarrow> a \<in> set (f b) \<Longrightarrow> Q a) \<Longrightarrow> k = C_literal neg b \<Longrightarrow> a \<in> set (with_negation f k) \<Longrightarrow> Q a"
  by (auto simp: negation_def split: if_splits)

section \<open>The logical operators\<close>

fun arg_pass :: "condition_world \<Rightarrow> cmMakefile \<Rightarrow> cmExpandedCommandArgument \<Rightarrow> (bool \<times> cmExpandedCommandArgument) list
    \<Rightarrow> cmExpandedCommandArgument \<times> (bool \<times> cmExpandedCommandArgument) list" where
  "arg_pass w mk x [] = (x, [])"
| "arg_pass w mk x [(c, y)] = (bool_argument (combine c (truth w mk x) (truth w mk y)), [])"
| "arg_pass w mk x ((c, y) # (d, z) # ps) =
     (let (z', ps') = arg_pass w mk z ps in (bool_argument (combine c (truth w mk x) (truth w mk y)), (d, z') # ps'))"

definition flat :: "(bool \<times> cmExpandedCommandArgument) list \<Rightarrow> arguments" where
  "flat ps = concat (map (\<lambda>(c, a). [connective c, a]) ps)"

lemma flat_simps [simp]: "flat [] = []" "flat ((c, a) # ps) = connective c # a # flat ps"
  by (simp_all add: flat_def)

abbreviation all_operands :: "cmExpandedCommandArgument \<Rightarrow> (bool \<times> cmExpandedCommandArgument) list \<Rightarrow> bool" where
  "all_operands x ps \<equiv> operand x \<and> list_all (\<lambda>p. operand (snd p)) ps"

lemma arg_pass_operands: "all_operands x ps \<Longrightarrow> all_operands (fst (arg_pass w mk x ps)) (snd (arg_pass w mk x ps))"
  by (induction w mk x ps rule: arg_pass.induct) (auto simp: Let_def split: prod.split)

lemma arg_pass_truth:
  "pair_pass (truth w mk x) (map (\<lambda>(c, a). (c, truth w mk a)) ps)
    = (truth w mk (fst (arg_pass w mk x ps)), map (\<lambda>(c, a). (c, truth w mk a)) (snd (arg_pass w mk x ps)))"
  by (induction w mk x ps rule: arg_pass.induct) (auto simp: Let_def split: prod.split)

lemma arg_pass_length: "length (snd (arg_pass w mk x ps)) = length ps div 2"
  by (induction w mk x ps rule: arg_pass.induct) (auto simp: Let_def split: prod.split)

lemma level4_pass:
  assumes "new_policies ce" and "strtod_ok (ce_world ce)" and "all_operands x ps"
  shows "HandleLevel4 ce (x # flat ps) s
    = (let (y, qs) = arg_pass (ce_world ce) (cs_makefile s) x ps in Some (True, y # flat qs, s))"
  using assms(3)
proof (induction "ce_world ce" "cs_makefile s" x ps rule: arg_pass.induct)
  case (1 x)
  then show ?case by simp
next
  case (2 x c y)
  have "matchKeys ce (connective c) 1 [ascii ''AND'', ascii ''OR''] s = Some (if c then 1 else 2, s)" for s
    by (simp add: IsKeyword_new [OF assms(1)] connective_def) (simp add: ascii_def)
  then show ?case by (simp add: truth_new [OF assms(1,2)] combine_def del: matchKeys.simps)
next
  case (3 x c y d z ps)
  have m: "matchKeys ce (connective c) 1 [ascii ''AND'', ascii ''OR''] s = Some (if c then 1 else 2, s)" for s
    by (simp add: IsKeyword_new [OF assms(1)] connective_def) (simp add: ascii_def)
  have "ex_Quoted z \<or> ex_Value z \<notin> set [ascii ''AND'', ascii ''OR'']" using 3(2) operand_words(6) [of z] by simp
  from matchKeys_none [OF assms(1) this]
  have "HandleLevel4 ce (connective d # z # flat ps) s = emit [connective d] (HandleLevel4 ce (z # flat ps) s)"
    by (cases ps) (auto simp: emit_Cons simp del: matchKeys.simps)
  with 3 m show ?case by (auto simp: truth_new [OF assms(1,2)] combine_def emit_Cons Let_def simp del: matchKeys.simps split: prod.split)
qed

lemma flat_length: "length (flat ps) = 2 * length ps"
  by (induction ps) auto

lemma level4_reduces:
  assumes "new_policies ce" and "strtod_ok (ce_world ce)" and "all_operands x ps"
  shows "\<exists>y. reduce_level (HandleLevel4 ce) (x # flat ps) s = Some (True, [y], s)
    \<and> truth (ce_world ce) (cs_makefile s) y = balance (truth (ce_world ce) (cs_makefile s) x) (map (\<lambda>(c, a). (c, truth (ce_world ce) (cs_makefile s) a)) ps)"
  using assms(3)
proof (induction "length ps" arbitrary: x ps rule: less_induct)
  case less
  let ?w = "ce_world ce" and ?mk = "cs_makefile s"
  obtain y qs where p: "arg_pass ?w ?mk x ps = (y, qs)" by fastforce
  have h: "HandleLevel4 ce (x # flat ps) s = Some (True, y # flat qs, s)" using level4_pass [OF assms(1,2) less.prems] p by simp
  show ?case
  proof (cases "ps = []")
    case True
    then show ?thesis by (simp add: reduce_level.simps balance.simps)
  next
    case False
    have q: "length qs < length ps" using arg_pass_length [of ?w ?mk x ps] p False by simp
    from arg_pass_operands [OF less.prems, of ?w ?mk] p have "all_operands y qs" by simp
    from less.hyps [OF q this] arg_pass_truth [of ?w ?mk x ps] p False show ?thesis
      by (simp add: reduce_level.simps [of _ "x # flat ps"] h flat_length q balance.simps [of "truth ?w ?mk x"])
  qed
qed

section \<open>The value of a condition\<close>

abbreviation cleared :: "condition_state \<Rightarrow> condition_state" where
  "cleared s \<equiv> s\<lparr>cs_errorString := []\<rparr>"

text \<open>The pass over the parentheses, when the evaluator gives the values of the groups.\<close>

definition literal0 :: "cmConditionEvaluator \<Rightarrow> condition_state \<Rightarrow> literal \<Rightarrow> bool" where
  "literal0 ce s l \<longleftrightarrow> (\<forall>rest. HandleLevel0 (IsTrue ce) ce (literal_tokens l @ rest) s
     = emit (with_negation (tokens0 (ce_world ce) (cs_makefile s)) l) (HandleLevel0 (IsTrue ce) ce rest s))"

lemma connective_skips:
  assumes "new_policies ce"
  shows "HandleLevel1 ce (connective c # rest) s = emit [connective c] (HandleLevel1 ce rest s)"
    and "HandleLevel3 ce (connective c # rest) s = emit [connective c] (HandleLevel3 ce rest s)"
    and "HandleLevel0 F ce (connective c # rest) s = emit [connective c] (HandleLevel0 F ce rest s)"
  using connective_word [of c] plain_words(2) [of c] by (simp_all add: level1_skip [OF assms] level3_skip [OF assms] level0_skip [OF assms])

lemma levels_of_chain:
  assumes "new_policies ce" and "strtod_ok (ce_world ce)" and ok: "\<And>k. k \<in> insert l (snd ` set ls) \<Longrightarrow> literal_ok k"
    and p0: "\<And>k. k \<in> insert l (snd ` set ls) \<Longrightarrow> literal0 ce s k"
  shows "reduce_level (HandleLevel0 (IsTrue ce) ce) (condition_tokens l ls) s = Some (True, chain (with_negation (tokens0 (ce_world ce) (cs_makefile s))) l ls, s)" (is ?l0)
    and "reduce_level (HandleLevel1 ce) (chain (with_negation (tokens0 (ce_world ce) (cs_makefile s))) l ls) s
      = Some (True, chain (with_negation (tokens1 (ce_world ce) (cs_makefile s))) l ls, s)" (is ?l1)
    and "reduce_level (HandleLevel2 ce) (chain (with_negation (tokens1 (ce_world ce) (cs_makefile s))) l ls) s
      = Some (True, chain (with_negation (\<lambda>b. [basic_argument (ce_world ce) (cs_makefile s) b])) l ls, s)" (is ?l2)
    and "reduce_level (HandleLevel3 ce) (chain (with_negation (\<lambda>b. [basic_argument (ce_world ce) (cs_makefile s) b])) l ls) s
      = Some (True, chain (\<lambda>k. [literal_argument (ce_world ce) (cs_makefile s) k]) l ls, s)" (is ?l3)
proof -
  let ?w = "ce_world ce" and ?mk = "cs_makefile s"
  have b: "basic_ok b" if "C_literal neg b \<in> insert l (snd ` set ls)" for neg b using ok [OF that] by simp
  have n: "ascii ''NOT'' \<notin> set predicates" "ascii ''NOT'' \<notin> set binary_operators" using words_apart(3) by simp_all
  have cb: "ex_Value (connective c) \<notin> set binary_operators" "ex_Value (connective c) \<notin> set predicates" for c using connective_word(1) by simp_all
  have all: "\<forall>a\<in>set (chain (with_negation f) l ls). Q a"
    if "Q (keyword (ascii ''NOT''))" and "\<And>c. Q (connective c)" and "\<And>b a. basic_ok b \<Longrightarrow> a \<in> set (f b) \<Longrightarrow> Q a" for Q f
  proof (rule chain_all [where Q = Q, OF that(2)])
    fix k a
    assume k: "k \<in> insert l (snd ` set ls)" and a: "a \<in> set (with_negation f k)"
    obtain neg b where kb: "k = C_literal neg b" by (cases k)
    show "Q a" by (rule with_negation_all [where Q = Q, OF that(1) _ kb a]) (use that(3) b k in blast)
  qed
  have c0: "chain literal_tokens l ls = condition_tokens l ls" by (simp add: chain_def condition_tokens_def)
  show ?l0
    by (rule reduce_level_once, unfold c0 [symmetric], rule chain_pass,
        use p0 connective_skips(3) [OF assms(1)] in \<open>auto simp: literal0_def\<close>,
        rule idle0 [OF assms(1)], rule all, use plain_words(2,3) plain_tokens(1) in auto)
  show ?l1
    by (rule reduce_level_once, rule chain_pass, use pass1 [OF assms(1) ok] connective_skips(1) [OF assms(1)] in auto,
        rule idle1 [OF assms(1)], rule all, use n cb plain_tokens(2) in auto)
  show ?l3
    by (rule reduce_level_once, rule chain_pass, use pass3 [OF assms(1,2) ok] connective_skips(2) [OF assms(1)] in auto,
        rule idle3 [OF assms(1)], rule chain_all, use connective_word(2) operand_words(5) [OF literal_argument_operand [OF ok]] in auto)
  have skip2: "HandleLevel2 ce (connective c # with_negation (tokens1 ?w ?mk) k @ rest) s
      = emit [connective c] (HandleLevel2 ce (with_negation (tokens1 ?w ?mk) k @ rest) s)" if "k \<in> insert l (snd ` set ls)" for c k rest
  proof -
    obtain neg b where k: "k = C_literal neg b" by (cases k)
    have "tokens1 ?w ?mk b \<noteq> [] \<and> (ex_Quoted (hd (tokens1 ?w ?mk b)) \<or> ex_Value (hd (tokens1 ?w ?mk b)) \<notin> set binary_operators)"
      using ok [OF that] operand_words(2) operand_words(2) [OF operand_bool] by (cases b) (auto simp: k simp del: basic_value.simps(4))
    then have "ex_Quoted (hd (with_negation (tokens1 ?w ?mk) k @ rest)) \<or> ex_Value (hd (with_negation (tokens1 ?w ?mk) k @ rest)) \<notin> set binary_operators"
      using n(2) by (auto simp: k negation_def)
    then show ?thesis using connective_word(3) by (intro level2_skip [OF assms(1)]) auto
  qed
  show ?l2
    by (rule reduce_level_once, rule chain_pass, simp, rule pass2 [OF assms(1) ok], assumption+, rule skip2, assumption,
        rule idle2 [OF assms(1)], rule all, use n cb operand_words(2) [OF basic_argument_operand] in auto)
qed

lemma tokens_nonempty: "condition_tokens l ls \<noteq> []"
proof -
  obtain neg b where "l = C_literal neg b" by (cases l)
  then show ?thesis by (cases b) (simp_all add: condition_tokens_def literal_tokens_simp group_tokens)
qed

lemma chain_flat: "chain (\<lambda>k. [f k]) l ls = f l # flat (map (\<lambda>(c, k). (c, f k)) ls)"
  by (induction ls arbitrary: l) (auto simp: chain_simps)

lemma value_of_chain:
  assumes "new_policies ce" and "strtod_ok (ce_world ce)" and "basic_ok (C_group l ls)"
    and "\<And>k. k \<in> insert l (snd ` set ls) \<Longrightarrow> literal0 ce (cleared s) k"
  shows "IsTrue ce (condition_tokens l ls) s = Some (condition_value (ce_world ce) (cs_makefile s) l ls, cleared s)"
proof -
  let ?w = "ce_world ce" and ?mk = "cs_makefile s"
  let ?ps = "map (\<lambda>(c, k). (c, literal_argument ?w ?mk k)) ls"
  have ok: "\<And>k. k \<in> insert l (snd ` set ls) \<Longrightarrow> literal_ok k" using assms(3) by (auto simp: list_all_iff)
  note levels = levels_of_chain [OF assms(1,2) ok assms(4), simplified]
  have "operand (literal_argument ?w ?mk k)" if "k \<in> insert l (snd ` set ls)" for k by (rule literal_argument_operand [OF ok [OF that]])
  then have "all_operands (literal_argument ?w ?mk l) ?ps" by (simp add: list_all_iff case_prod_beta image_iff) blast
  from level4_reduces [OF assms(1,2) this, of "cleared s"] obtain y where
    y: "reduce_level (HandleLevel4 ce) (literal_argument ?w ?mk l # flat ?ps) (cleared s) = Some (True, [y], cleared s)"
      "truth ?w ?mk y = balance (truth ?w ?mk (literal_argument ?w ?mk l)) (map (\<lambda>(c, a). (c, truth ?w ?mk a)) ?ps)" by auto
  have "truth ?w ?mk y = condition_value ?w ?mk l ls"
    unfolding y(2) condition_value_def by (simp add: literal_argument_truth comp_def case_prod_unfold)
  then have "finish_levels ce (chain (with_negation (tokens0 ?w ?mk)) l ls) (cleared s) = Some (condition_value ?w ?mk l ls, cleared s)"
    using levels(2-4) y(1) by (simp add: finish_levels_def chain_flat truth_new [OF assms(1,2)])
  then show ?thesis using levels(1) by (subst IsTrue.simps) (simp add: tokens_nonempty)
qed

lemma tokens_reduced0:
  assumes "new_policies ce" and "strtod_ok (ce_world ce)"
  shows "basic_ok b \<Longrightarrow> cs_errorString s = [] \<Longrightarrow> HandleLevel0 (IsTrue ce) ce (basic_tokens b @ rest) s
      = emit (tokens0 (ce_world ce) (cs_makefile s) b) (HandleLevel0 (IsTrue ce) ce rest s)"
    and "literal_ok l \<Longrightarrow> cs_errorString s = [] \<Longrightarrow> literal0 ce s l"
proof (induction b and l arbitrary: rest and rule: basic.induct literal.induct)
  case (C_group l ls)
  have s: "cleared s = s" using C_group.prems(2) by simp
  have "literal0 ce s k" if "k \<in> insert l (snd ` set ls)" for k
    using that C_group.IH C_group.prems by (auto simp: list_all_iff snds.simps split: prod.splits)
  then have "IsTrue ce (condition_tokens l ls) s = Some (condition_value (ce_world ce) (cs_makefile s) l ls, s)"
    using value_of_chain [OF assms C_group.prems(1), of s] by (simp add: s)
  from level0_group [where F = "IsTrue ce", OF assms(1) C_group.prems(1) this] show ?case by (simp add: condition_value_def)
next
  case (C_literal neg b)
  then show ?case by (simp add: literal0_def literal_tokens_simp negation_def level0_skip [OF assms(1)] plain_words(3))
qed (use plain_words(1,4) word_members in \<open>simp_all add: level0_skip [OF assms(1)]\<close>)

lemma IsTrue_value:
  assumes "new_policies ce" and "strtod_ok (ce_world ce)" and "literal_ok l" and "list_all (\<lambda>(c, k). literal_ok k) ls"
  shows "IsTrue ce (condition_tokens l ls) s = Some (condition_value (ce_world ce) (cs_makefile s) l ls, cleared s)"
proof (rule value_of_chain [OF assms(1,2)])
  fix k
  assume "k \<in> insert l (snd ` set ls)"
  then have "literal_ok k" using assms(3,4) by (auto simp: list_all_iff)
  then show "literal0 ce (cleared s) k" by (rule tokens_reduced0(2) [OF assms(1,2)]) simp
qed (use assms(3,4) in simp)

end
