(* ===== verification/ConditionsReturns.thy ===== *)
theory ConditionsReturns
  imports Conditions
begin

text \<open>
  The evaluation of conditions (\<^verbatim>\<open>cmConditionEvaluator.cxx\<close>) returns for every list of arguments and all policies, and
  keeps its invariant: an error has a status, and the number of the last matches is the index of a match variable.
\<close>

section \<open>Results that exist\<close>

definition ensures :: "'a option \<Rightarrow> ('a \<Rightarrow> bool) \<Rightarrow> bool" where
  "ensures m Q \<longleftrightarrow> (\<exists>r. m = Some r \<and> Q r)"

lemma ensures_Some [simp]: "ensures (Some r) Q \<longleftrightarrow> Q r"
  by (simp add: ensures_def)

lemma ensures_bind: "ensures m (\<lambda>r. ensures (f r) Q) \<Longrightarrow> ensures (m \<bind> f) Q"
  by (auto simp: ensures_def)

lemma ensures_mono: "ensures m P \<Longrightarrow> (\<And>r. m = Some r \<Longrightarrow> P r \<Longrightarrow> Q r) \<Longrightarrow> ensures m Q"
  by (auto simp: ensures_def)

text \<open>A call whose result has \<open>P\<close>, and what is done with the result.\<close>

lemma ensures_call: "ensures m P \<Longrightarrow> (\<And>r. m = Some r \<Longrightarrow> P r \<Longrightarrow> ensures (f r) Q) \<Longrightarrow> ensures (m \<bind> f) Q"
  by (rule ensures_bind) (rule ensures_mono)

lemma ensures_pair:
  "ensures m (\<lambda>r. P (snd r)) \<Longrightarrow> (\<And>b s. P s \<Longrightarrow> ensures (f (b, s)) Q) \<Longrightarrow> ensures (m \<bind> f) Q"
  by (rule ensures_call, assumption) auto

lemma ensures_if: "ensures (if b then x else y) Q \<longleftrightarrow> (if b then ensures x Q else ensures y Q)"
  by simp

section \<open>The invariant\<close>

definition evaluator_ok :: "cmConditionEvaluator \<Rightarrow> bool" where
  "evaluator_ok ce \<longleftrightarrow> (\<forall>v. snd (strtod (ce_world ce) v) \<le> length v)
     \<and> (\<forall>rex match v ms. regex_compile (ce_world ce) rex = Some match \<longrightarrow> match v = Some ms \<longrightarrow> length ms = 10)
     \<and> (Policy54Status ce = PS_WARN \<longrightarrow> Top (ce_Backtrace ce) \<noteq> None)"

definition match_ok :: "cmMakefile \<Rightarrow> bool" where
  "match_ok mk \<longleftrightarrow> (case mk_definitions mk nMatchesVariable of None \<Rightarrow> True | Some v \<Rightarrow> ensures (atoi v) (\<lambda>n. n < 10))"

definition state_ok :: "condition_state \<Rightarrow> bool" where
  "state_ok s \<longleftrightarrow> match_ok (cs_makefile s) \<and> (cs_errorString s \<noteq> [] \<longrightarrow> cs_status s \<noteq> None)"

text \<open>The old evaluation of numbers reads an \<open>int\<close>.\<close>

definition argument_ok :: "cmConditionEvaluator \<Rightarrow> cmExpandedCommandArgument \<Rightarrow> bool" where
  "argument_ok ce a \<longleftrightarrow> Policy12Status ce = PS_NEW \<or> atoi (ex_Value a) \<noteq> None"

lemma argument_ok_bool [simp]: "argument_ok ce (bool_argument b)"
  by (simp add: argument_ok_def bool_argument_def atoi_def scan_number_def c_string_def cmIsSpace_def is_digit_def digits_value_def)

section \<open>The parts\<close>

lemma report_ok:
  assumes "evaluator_ok ce" and "state_ok s" and "Policy54Status ce = PS_WARN"
  shows "ensures (report_CMP0054 ce msg s) state_ok"
proof -
  obtain top_context where "Top (ce_Backtrace ce) = Some top_context" using assms(1,3) by (auto simp: evaluator_ok_def)
  with assms(2) show ?thesis by (simp add: report_CMP0054_def Let_def) (simp add: state_ok_def match_ok_def)
qed

lemma IsKeyword_ok:
  assumes "evaluator_ok ce" and "state_ok s"
  shows "ensures (IsKeyword ce k a s) (\<lambda>r. state_ok (snd r))"
  using assms by (auto simp: IsKeyword_def intro!: ensures_call [OF report_ok])

lemma GetDefinitionIfUnquoted_ok:
  assumes "evaluator_ok ce" and "state_ok s"
  shows "ensures (GetDefinitionIfUnquoted ce a s) (\<lambda>r. state_ok (snd r))"
  using assms by (auto simp: GetDefinitionIfUnquoted_def Let_def intro!: ensures_call [OF report_ok])

lemma GetVariableOrString_ok:
  assumes "evaluator_ok ce" and "state_ok s"
  shows "ensures (GetVariableOrString ce a s) (\<lambda>r. state_ok (snd r))"
  unfolding GetVariableOrString_def by (rule ensures_pair [OF GetDefinitionIfUnquoted_ok [OF assms]]) simp

lemma matchKeys_ok:
  assumes "evaluator_ok ce" and "state_ok s"
  shows "ensures (matchKeys ce a n ks s) (\<lambda>r. state_ok (snd r))"
  using assms(2)
proof (induction ks arbitrary: n s)
  case (Cons k ks)
  show ?case unfolding matchKeys.simps
    by (rule ensures_pair [OF IsKeyword_ok [OF assms(1) Cons.prems]]) (use Cons.IH in auto)
qed simp

lemma GetBooleanValue_ok:
  assumes "evaluator_ok ce" and "state_ok s"
  shows "ensures (GetBooleanValue ce a s) (\<lambda>r. state_ok (snd r))"
proof -
  obtain d n where d: "strtod (ce_world ce) (ex_Value a) = (d, n)" by fastforce
  with assms(1) have "n \<le> length (ex_Value a)" by (metis evaluator_ok_def snd_conv)
  then have "char_at (ex_Value a @ [0]) n = Some ((ex_Value a @ [0]) ! n)" by (simp add: char_at_def)
  then show ?thesis using assms(2) d
    by (auto simp: GetBooleanValue_def Let_def intro!: ensures_pair [OF GetDefinitionIfUnquoted_ok [OF assms]])
qed

lemma GetBooleanValueOld_ok:
  assumes "evaluator_ok ce" and "state_ok s" and "atoi (ex_Value a) \<noteq> None"
  shows "ensures (GetBooleanValueOld ce a one s) (\<lambda>r. state_ok (snd r))"
  using assms(2,3) by (auto simp: GetBooleanValueOld_def intro!: ensures_pair [OF GetDefinitionIfUnquoted_ok [OF assms(1,2)]])

lemma truth_ok:
  assumes "evaluator_ok ce" and "state_ok s" and "argument_ok ce a"
  shows "ensures (GetBooleanValueWithAutoDereference ce a one s) (\<lambda>r. state_ok (snd r))"
proof (cases "Policy12Status ce = PS_NEW")
  case True
  then show ?thesis using GetBooleanValue_ok [OF assms(1,2)] by (simp add: GetBooleanValueWithAutoDereference_def)
next
  case False
  then have a: "atoi (ex_Value a) \<noteq> None" using assms(3) by (simp add: argument_ok_def)
  note old = GetBooleanValueOld_ok [OF assms(1) _ a]
  have "ensures (GetBooleanValue ce a s \<bind> (\<lambda>(newResult, s). GetBooleanValueOld ce a one s \<bind> (\<lambda>(oldResult, s).
      if newResult = oldResult then Some (newResult, s) else if Policy12Status ce = PS_WARN
      then Some (oldResult, s\<lparr>cs_errorString := argument_note a (GetPolicyWarning (ce_world ce) 12), cs_status := Some AUTHOR_WARNING\<rparr>)
      else Some (newResult, s\<lparr>cs_errorString := argument_note a (GetRequiredPolicyError (ce_world ce) 12), cs_status := Some FATAL_ERROR\<rparr>))))
    (\<lambda>r. state_ok (snd r))"
    by (rule ensures_pair [OF GetBooleanValue_ok [OF assms(1,2)]], unfold prod.case, rule ensures_pair [OF old], assumption,
        unfold prod.case ensures_if) (auto simp: state_ok_def)
  with False old [OF assms(2)] show ?thesis by (simp add: GetBooleanValueWithAutoDereference_def)
qed

lemma condition_error_ok: "state_ok s \<Longrightarrow> state_ok (condition_error msg s)"
  by (simp add: state_ok_def condition_error_def)

lemma policy_warning_ok: "state_ok s \<Longrightarrow> state_ok (policy_warning ce p kw s)"
  by (simp add: state_ok_def policy_warning_def match_ok_def makefile_IssueMessage_def Let_def)

section \<open>Match variables\<close>

lemma atoi_digit: "i < 10 \<Longrightarrow> ensures (atoi [0x30 + word_of_nat i]) (\<lambda>n. n < 10)"
proof -
  have "list_all (\<lambda>i. ensures (atoi [0x30 + word_of_nat i]) (\<lambda>n. n < 10)) [0..<10]"
    by (simp add: upt_rec atoi_def scan_number_def c_string_def cmIsSpace_def is_digit_def digits_value_def)
  then show "i < 10 \<Longrightarrow> ensures (atoi [0x30 + word_of_nat i]) (\<lambda>n. n < 10)" by (simp add: list_all_iff)
qed

lemma atoi_constants: "ensures (atoi []) (\<lambda>n. n < 10)" "ensures (atoi (ascii ''0'')) (\<lambda>n. n < 10)"
  by (simp_all add: atoi_def scan_number_def c_string_def cmIsSpace_def is_digit_def digits_value_def ascii_def)

lemma match_ok_count: "ensures (atoi v) (\<lambda>n. n < 10) \<Longrightarrow> match_ok (AddDefinition nMatchesVariable v mk)"
  by (simp add: match_ok_def AddDefinition_def)

lemma ClearMatches_ok: "match_ok mk \<Longrightarrow> ensures (ClearMatches mk) match_ok"
proof (cases "mk_definitions mk nMatchesVariable")
  case (Some v)
  assume "match_ok mk"
  with Some have "ensures (atoi v) (\<lambda>n. n < 10)" by (simp add: match_ok_def)
  with Some show ?thesis by (auto simp: ClearMatches_def ensures_def intro!: match_ok_count [unfolded ensures_def] atoi_constants [unfolded ensures_def])
qed (simp add: ClearMatches_def)

lemma StoreMatches_ok:
  assumes "length ms = 10"
  shows "ensures (StoreMatches ms mk) match_ok"
proof -
  let ?P = "\<lambda>p :: byte list \<times> cmMakefile. ensures (atoi (fst p)) (\<lambda>n. n < 10)"
  have "?P (fold (store_match ms) [0..<10] ([], mk))"
    by (rule fold_invariant [where Q = "\<lambda>i. i < 10"]) (auto simp: atoi_constants store_match_def atoi_digit)
  then show ?thesis using assms by (auto simp: StoreMatches_def Let_def match_ok_count split: prod.split)
qed

lemma regex_match_ok:
  assumes "evaluator_ok ce" and "state_ok s"
  shows "ensures (regex_match ce cur rex s) (\<lambda>r. state_ok (snd r))"
  unfolding regex_match_def
proof (rule ensures_pair [OF GetVariableOrString_ok [OF assms]], unfold prod.case)
  fix def u
  assume u: "state_ok u"
  have "ensures (ClearMatches (cs_makefile u)) match_ok" using u by (simp add: ClearMatches_ok state_ok_def)
  then show "ensures (ClearMatches (cs_makefile u) \<bind> (\<lambda>mk. case regex_compile (ce_world ce) rex of
       None \<Rightarrow> Some (B_error (ascii ''Regular expression '' @ [0x22] @ rex @ [0x22] @ ascii '' cannot compile''), u\<lparr>cs_makefile := mk\<rparr>)
     | Some match \<Rightarrow> (case match def of None \<Rightarrow> Some (B_value False, u\<lparr>cs_makefile := mk\<rparr>)
        | Some ms \<Rightarrow> StoreMatches ms mk \<bind> (\<lambda>mk. Some (B_value True, u\<lparr>cs_makefile := mk\<rparr>))))) (\<lambda>r. state_ok (snd r))"
  proof (rule ensures_call)
    fix mk
    assume m: "match_ok mk"
    have l: "length ms = 10" if "regex_compile (ce_world ce) rex = Some match" "match def = Some ms" for match ms
      using assms(1) that by (auto simp: evaluator_ok_def)
    show "ensures (case regex_compile (ce_world ce) rex of
         None \<Rightarrow> Some (B_error (ascii ''Regular expression '' @ [0x22] @ rex @ [0x22] @ ascii '' cannot compile''), u\<lparr>cs_makefile := mk\<rparr>)
       | Some match \<Rightarrow> (case match def of None \<Rightarrow> Some (B_value False, u\<lparr>cs_makefile := mk\<rparr>)
          | Some ms \<Rightarrow> StoreMatches ms mk \<bind> (\<lambda>mk. Some (B_value True, u\<lparr>cs_makefile := mk\<rparr>)))) (\<lambda>r. state_ok (snd r))"
      using u m by (auto simp: state_ok_def intro!: ensures_call [OF StoreMatches_ok [OF l]] split: option.split)
  qed
qed

lemma binary_operator_ok:
  assumes "evaluator_ok ce" and "state_ok s"
  shows "ensures (binary_operator ce n a b s) (\<lambda>r. state_ok (snd r))"
  unfolding binary_operator_def ensures_if
  using assms regex_match_ok [OF assms] policy_warning_ok
  by (auto intro!: ensures_pair [OF GetVariableOrString_ok [OF assms(1)]] simp: Let_def)

section \<open>The passes\<close>

definition pass_ok :: "cmConditionEvaluator \<Rightarrow> bool \<times> arguments \<times> condition_state \<Rightarrow> bool" where
  "pass_ok ce = (\<lambda>(ok, out, s). state_ok s \<and> list_all (argument_ok ce) out)"

lemma pass_ok_simp [simp]: "pass_ok ce (ok, out, s) \<longleftrightarrow> state_ok s \<and> list_all (argument_ok ce) out"
  by (simp add: pass_ok_def)

lemma pass_emit:
  assumes "ensures m (pass_ok ce)" and "argument_ok ce a"
  shows "ensures (m \<bind> (\<lambda>(ok, out, s). Some (ok, a # out, s))) (pass_ok ce)"
  by (rule ensures_call [OF assms(1)]) (use assms(2) in auto)

text \<open>The lists that a pass can meet, by their length.\<close>

lemma pass_induct [case_names empty one more]:
  assumes "\<And>s. P [] s" and "\<And>a s. P [a] s" and "\<And>a b xs s. (\<And>ys u. length ys < length xs + 2 \<Longrightarrow> P ys u) \<Longrightarrow> P (a # b # xs) s"
  shows "P xs s"
proof (induction "length xs" arbitrary: xs s rule: less_induct)
  case less
  consider "xs = []" | a where "xs = [a]" | a b ys where "xs = a # b # ys" by (metis list.exhaust)
  then show ?case
    by cases (use assms(1,2) less in \<open>auto intro!: assms(3)\<close>)
qed

lemma HandleLevel1_ok:
  assumes "evaluator_ok ce" and "state_ok s" and "list_all (argument_ok ce) xs"
  shows "ensures (HandleLevel1 ce xs s) (pass_ok ce)"
proof -
  have check: "ensures (policyCheck ce p status kw a s) state_ok" if "state_ok s" for p status kw a s
    using that by (auto simp: policyCheck_def policy_warning_ok intro!: ensures_pair [OF IsKeyword_ok [OF assms(1)]])
  show ?thesis using assms(2,3)
  proof (induction xs s rule: pass_induct)
    case (more a b xs s)
    show ?case unfolding HandleLevel1.simps(3)
      by (rule ensures_call [OF check [OF more.prems(1)]], rule ensures_pair [OF matchKeys_ok [OF assms(1)]], assumption)
        (use more in \<open>auto simp: Let_def ensures_if simp del: HandleLevel1.simps intro!: pass_emit\<close>)
  qed (auto intro!: ensures_call [OF check])
qed

lemma HandleLevel2_ok:
  assumes "evaluator_ok ce" and "state_ok s" and "list_all (argument_ok ce) xs"
  shows "ensures (HandleLevel2 ce xs s) (pass_ok ce)"
  using assms(2,3)
proof (induction xs s rule: pass_induct)
  case (more a b xs s)
  have rest: "ensures (case xs of [] \<Rightarrow> Some (True, [a, b], s)
      | nextnext # rest' \<Rightarrow> matchKeys ce b 1 binary_operators s \<bind> (\<lambda>(n, s). binary_operator ce n a nextnext s \<bind> (\<lambda>(result, s).
          case result of B_none \<Rightarrow> HandleLevel2 ce (b # xs) s \<bind> (\<lambda>(ok, out, s). Some (ok, a # out, s))
          | B_value v \<Rightarrow> HandleLevel2 ce rest' s \<bind> (\<lambda>(ok, out, s). Some (ok, bool_argument v # out, s))
          | B_error msg \<Rightarrow> Some (False, [], condition_error msg s)))) (pass_ok ce)" if s: "state_ok s" for s
  proof (cases xs)
    case (Cons c ys)
    have "ensures (binary_operator ce n a c u \<bind> (\<lambda>(result, s).
          case result of B_none \<Rightarrow> HandleLevel2 ce (b # xs) s \<bind> (\<lambda>(ok, out, s). Some (ok, a # out, s))
          | B_value v \<Rightarrow> HandleLevel2 ce ys s \<bind> (\<lambda>(ok, out, s). Some (ok, bool_argument v # out, s))
          | B_error msg \<Rightarrow> Some (False, [], condition_error msg s))) (pass_ok ce)" if "state_ok u" for n u
      by (rule ensures_pair [OF binary_operator_ok [OF assms(1) that]])
        (use more Cons in \<open>auto simp: condition_error_ok simp del: HandleLevel2.simps intro!: pass_emit split: binary_result.split\<close>)
    then show ?thesis unfolding Cons list.case by (intro ensures_pair [OF matchKeys_ok [OF assms(1) s]]) (simp add: Cons)
  qed (use s more.prems(2) in simp)
  show ?case unfolding HandleLevel2.simps(3)
    by (rule ensures_pair [OF IsKeyword_ok [OF assms(1) more.prems(1)]], unfold prod.case ensures_if)
      (use more rest in \<open>auto simp del: HandleLevel2.simps intro!: pass_emit\<close>)
qed auto

lemma HandleLevel3_ok:
  assumes "evaluator_ok ce" and "state_ok s" and "list_all (argument_ok ce) xs"
  shows "ensures (HandleLevel3 ce xs s) (pass_ok ce)"
  using assms(2,3)
proof (induction xs s rule: pass_induct)
  case (more a b xs s)
  have "ensures (GetBooleanValueWithAutoDereference ce b False u \<bind> (\<lambda>(rhs, s). HandleLevel3 ce xs s \<bind>
      (\<lambda>(ok, out, s). Some (ok, bool_argument (\<not> rhs) # out, s)))) (pass_ok ce)" if "state_ok u" for u
    by (rule ensures_pair [OF truth_ok [OF assms(1) that]]) (use more in \<open>auto intro!: pass_emit\<close>)
  then show ?case unfolding HandleLevel3.simps(3)
    by (intro ensures_pair [OF IsKeyword_ok [OF assms(1) more.prems(1)]], unfold prod.case ensures_if)
      (use more in \<open>auto simp del: HandleLevel3.simps intro!: pass_emit\<close>)
qed auto

lemma HandleLevel4_ok:
  assumes "evaluator_ok ce" and "state_ok s" and "list_all (argument_ok ce) xs"
  shows "ensures (HandleLevel4 ce xs s) (pass_ok ce)"
  using assms(2,3)
proof (induction xs s rule: pass_induct)
  case (more a b xs s)
  show ?case
  proof (cases xs)
    case (Cons c ys)
    have a: "argument_ok ce a" "argument_ok ce c" "list_all (argument_ok ce) ys" using more.prems(2) Cons by simp_all
    have "ensures (GetBooleanValueWithAutoDereference ce a False u \<bind> (\<lambda>(lhs, s). GetBooleanValueWithAutoDereference ce c False s \<bind> (\<lambda>(rhs, s).
        HandleLevel4 ce ys s \<bind> (\<lambda>(ok, out, s). Some (ok, bool_argument (if n = 1 then lhs \<and> rhs else lhs \<or> rhs) # out, s))))) (pass_ok ce)"
      if "state_ok u" for u and n :: nat
      by (rule ensures_pair [OF truth_ok [OF assms(1) that a(1)]], unfold prod.case, rule ensures_pair [OF truth_ok [OF assms(1) _ a(2)]], assumption)
        (use more.IH a Cons in \<open>auto intro!: pass_emit\<close>)
    then show ?thesis unfolding Cons HandleLevel4.simps(4)
      by (intro ensures_pair [OF matchKeys_ok [OF assms(1) more.prems(1)]], unfold prod.case ensures_if)
        (use more Cons in \<open>auto simp del: HandleLevel4.simps intro!: pass_emit\<close>)
  qed (use more.prems in simp)
qed auto

lemma find_close_ok:
  assumes "evaluator_ok ce" and "state_ok s" and "list_all (argument_ok ce) xs"
  shows "ensures (find_close ce d seen xs s) (\<lambda>(d, sub, after, s). state_ok s \<and> (\<exists>ys. sub = seen @ ys \<and> xs = ys @ after))"
  using assms(2,3)
proof (induction xs arbitrary: d seen s)
  case (Cons a xs)
  have step: "ensures (find_close ce e (seen @ [a]) xs u) (\<lambda>(d, sub, after, s). state_ok s \<and> (\<exists>ys. sub = seen @ ys \<and> a # xs = ys @ after))"
    if "state_ok u" for e u
    by (rule ensures_mono [OF Cons.IH [OF that]]) (use Cons.prems in auto)
  show ?case unfolding find_close.simps(2) ensures_if
    by (cases "d = 0", use Cons.prems in simp, simp del: find_close.simps, rule ensures_pair [OF IsKeyword_ok [OF assms(1) Cons.prems(1)]],
        unfold prod.case, rule ensures_pair [OF IsKeyword_ok [OF assms(1)]], assumption, unfold prod.case, rule step)
qed auto

lemma HandleLevel0_ok:
  assumes "evaluator_ok ce" and "state_ok s" and "list_all (argument_ok ce) xs"
    and "\<And>ys u. length ys < length xs \<Longrightarrow> state_ok u \<Longrightarrow> list_all (argument_ok ce) ys \<Longrightarrow> ensures (F ys u) (\<lambda>r. state_ok (snd r))"
  shows "ensures (HandleLevel0 F ce xs s) (pass_ok ce)"
  using assms(2-4)
proof (induction "length xs" arbitrary: xs s rule: less_induct)
  case less
  show ?case
  proof (cases xs)
    case (Cons a rest)
    have sub: "ensures (HandleLevel0 F ce ys u) (pass_ok ce)" if "length ys \<le> length rest" "state_ok u" "list_all (argument_ok ce) ys" for ys u
      using less.hyps [of ys u] less.prems(3) that Cons by simp
    have group: "ensures (case find_close ce 1 [] rest u of None \<Rightarrow> None | Some (depth, sub, after, s) \<Rightarrow>
        if depth \<noteq> 0 then Some (False, [], condition_error (ascii ''mismatched parenthesis in condition'') s)
        else F (butlast sub) s \<bind> (\<lambda>(val, s). HandleLevel0 F ce after s \<bind> (\<lambda>(ok, out, s). Some (ok, bool_argument val # out, s)))) (pass_ok ce)"
      if u: "state_ok u" for u
    proof -
      obtain d ys after v where c: "find_close ce 1 [] rest u = Some (d, ys, after, v)" "state_ok v" "rest = ys @ after"
        using find_close_ok [OF assms(1) u, of rest 1 "[]"] less.prems(2) Cons by (auto simp: ensures_def)
      have l: "list_all (argument_ok ce) (butlast ys)" "list_all (argument_ok ce) after"
        using less.prems(2) Cons c(3) by (auto simp: list_all_iff dest: in_set_butlastD)
      have "ensures (F (butlast ys) v) (\<lambda>r. state_ok (snd r))" by (rule less.prems(3) [OF _ c(2) l(1)]) (simp add: Cons c(3))
      then have "ensures (F (butlast ys) v \<bind> (\<lambda>(val, s). HandleLevel0 F ce after s \<bind> (\<lambda>(ok, out, s). Some (ok, bool_argument val # out, s)))) (pass_ok ce)"
        by (rule ensures_pair) (use sub [of after] l(2) c(3) in \<open>auto intro!: pass_emit\<close>)
      with c show ?thesis by (simp add: condition_error_ok ensures_if)
    qed
    show ?thesis unfolding Cons HandleLevel0.simps(2)
      by (rule ensures_pair [OF IsKeyword_ok [OF assms(1) less.prems(1)]], unfold prod.case ensures_if)
        (use group sub less.prems(2) Cons in \<open>auto intro!: pass_emit\<close>)
  qed (use less.prems in simp)
qed

lemma reduce_level_ok:
  assumes "\<And>ys u. length ys \<le> length xs \<Longrightarrow> state_ok u \<Longrightarrow> list_all (argument_ok ce) ys \<Longrightarrow> ensures (fn ys u) (pass_ok ce)"
    and "state_ok s" and "list_all (argument_ok ce) xs"
  shows "ensures (reduce_level fn xs s) (pass_ok ce)"
  using assms
proof (induction "length xs" arbitrary: xs s rule: less_induct)
  case less
  from less.prems(1) [OF order_refl less.prems(2,3)] obtain r where r: "fn xs s = Some r" "pass_ok ce r" unfolding ensures_def by blast
  obtain ok ys u where "r = (ok, ys, u)" by (cases r)
  with r have f: "fn xs s = Some (ok, ys, u)" "state_ok u" "list_all (argument_ok ce) ys" by simp_all
  show ?case
  proof (cases "ok \<and> length ys < length xs")
    case True
    have "ensures (reduce_level fn ys u) (pass_ok ce)" by (rule less.hyps) (use True f less.prems(1) in auto)
    with f(1) True show ?thesis by (simp add: reduce_level.simps [of fn xs s])
  qed (use f in \<open>auto simp: reduce_level.simps [of fn xs s]\<close>)
qed

lemma finish_levels_ok:
  assumes "evaluator_ok ce" and "state_ok s" and "list_all (argument_ok ce) xs"
  shows "ensures (finish_levels ce xs s) (\<lambda>r. state_ok (snd r))"
proof -
  have level: "ensures (reduce_level fn xs s \<bind> (\<lambda>(ok, xs, s). if \<not> ok then Some (False, s) else g xs s)) (\<lambda>r. state_ok (snd r))"
    if "\<And>ys u. state_ok u \<Longrightarrow> list_all (argument_ok ce) ys \<Longrightarrow> ensures (fn ys u) (pass_ok ce)" and "state_ok s" and "list_all (argument_ok ce) xs"
      and "\<And>ys u. state_ok u \<Longrightarrow> list_all (argument_ok ce) ys \<Longrightarrow> ensures (g ys u) (\<lambda>r. state_ok (snd r))" for fn xs s g
    by (rule ensures_call [OF reduce_level_ok]) (use that in auto)
  have "ensures (case ys of [arg] \<Rightarrow> GetBooleanValueWithAutoDereference ce arg True u
      | _ \<Rightarrow> Some (False, condition_error (ascii ''Unknown arguments specified'') u)) (\<lambda>r. state_ok (snd r))"
    if "state_ok u" "list_all (argument_ok ce) ys" for ys u
    using that truth_ok [OF assms(1)] condition_error_ok by (auto split: list.split)
  then show ?thesis unfolding finish_levels_def
    by (intro level HandleLevel1_ok HandleLevel2_ok HandleLevel3_ok HandleLevel4_ok assms) simp_all
qed

lemma IsTrue_ok:
  assumes "evaluator_ok ce" and "match_ok (cs_makefile s)" and "list_all (argument_ok ce) args"
  shows "ensures (IsTrue ce args s) (\<lambda>r. state_ok (snd r))"
  using assms(2,3)
proof (induction "length args" arbitrary: args s rule: less_induct)
  case less
  let ?s = "s\<lparr>cs_errorString := []\<rparr>"
  have s: "state_ok ?s" using less.prems(1) by (simp add: state_ok_def)
  have "ensures (reduce_level (\<lambda>xs u. HandleLevel0 (\<lambda>sub v. IsTrue ce sub v) ce xs u) args ?s) (pass_ok ce)"
    by (rule reduce_level_ok, rule HandleLevel0_ok [OF assms(1)]) (use less s in \<open>auto simp: state_ok_def\<close>)
  then have "ensures (reduce_level (\<lambda>xs u. HandleLevel0 (\<lambda>sub v. IsTrue ce sub v) ce xs u) args ?s \<bind>
      (\<lambda>(ok, newArgs, s). if \<not> ok then Some (False, s) else finish_levels ce newArgs s)) (\<lambda>r. state_ok (snd r))"
    by (rule ensures_call) (use finish_levels_ok [OF assms(1)] in auto)
  with s show ?case by (subst IsTrue.simps) simp
qed

end
