(* ===== verification/ConditionsProps.thy ===== *)
theory ConditionsProps
  imports ConditionsPasses ConditionsReturns VariablesLoop
begin

text \<open>
  What the evaluation of conditions (\<^verbatim>\<open>cmConditionEvaluator.cxx\<close>) promises, and where it differs from its documentation.
\<close>

declare find_close.simps(2) [simp del] HandleLevel0.simps(2) [simp del] HandleLevel1.simps(2,3) [simp del]
  HandleLevel2.simps(2,3) [simp del] HandleLevel3.simps(2,3) [simp del] basic_tokens.simps(4) [simp del] literal_tokens.simps [simp del]

section \<open>A sample evaluator\<close>

definition sample_world :: condition_world where
  "sample_world = \<lparr>FileExists = (\<lambda>v. v = ascii ''/''), FileIsDirectory = (\<lambda>v. v = ascii ''/''), FileIsSymlink = (\<lambda>v. False),
     FileTimeCompare = (\<lambda>a b. None), has_command = (\<lambda>v. v = ascii ''if''), has_policy = (\<lambda>v. False), has_target = (\<lambda>v. False),
     has_test = (\<lambda>v. False), sscanf_double = (\<lambda>v. None), strtod = (\<lambda>v. (D_finite 0, 0)), regex_compile = (\<lambda>v. None),
     GetPolicyWarning = (\<lambda>n. []), GetRequiredPolicyError = (\<lambda>n. [])\<rparr>"

definition sample_evaluator :: cmConditionEvaluator where
  "sample_evaluator = \<lparr>ce_world = sample_world, ce_Backtrace = mk_backtrace sample_makefile, Policy12Status = PS_NEW,
     Policy54Status = PS_NEW, Policy57Status = PS_NEW, Policy64Status = PS_NEW\<rparr>"

definition sample_state :: condition_state where
  "sample_state = \<lparr>cs_makefile = sample_makefile, cs_errorString = [], cs_status = None\<rparr>"

definition word :: "string \<Rightarrow> cmExpandedCommandArgument" where
  "word s = keyword (ascii s)"

lemma sample_ok: "new_policies sample_evaluator" "strtod_ok (ce_world sample_evaluator)" "evaluator_ok sample_evaluator"
  by (simp_all add: new_policies_def old_policy_def sample_evaluator_def strtod_ok_def sample_world_def evaluator_ok_def)

lemma operand_word: "ascii s \<notin> set reserved \<Longrightarrow> operand (word s)"
  by (simp add: operand_def word_def)

lemma sample_operands: "operand (word ''ON'')" "operand (word ''OFF'')" "operand (word ''A'')"
  by (rule operand_word, simp add: reserved_def predicates_def binary_operators_def ascii_def)+

section \<open>The value of conditions\<close>



section \<open>The logical operators\<close>

text \<open>The documentation lets \<open>AND\<close> bind more strongly than \<open>OR\<close>.\<close>

fun documented :: "bool \<Rightarrow> (bool \<times> bool) list \<Rightarrow> bool" where
  "documented x [] = x"
| "documented x ((c, y) # ps) = (if c then documented (x \<and> y) ps else x \<or> documented y ps)"

lemma documented_all: "\<forall>p\<in>set ps. fst p \<Longrightarrow> documented x ps \<longleftrightarrow> x \<and> (\<forall>p\<in>set ps. snd p)"
  by (induction x ps rule: documented.induct) auto

lemma documented_ex: "\<forall>p\<in>set ps. \<not> fst p \<Longrightarrow> documented x ps \<longleftrightarrow> x \<or> (\<exists>p\<in>set ps. snd p)"
  by (induction x ps rule: documented.induct) auto

lemma pair_pass_uniform:
  assumes "\<forall>p\<in>set ps. fst p = c"
  shows "(\<forall>p\<in>set (snd (pair_pass x ps)). fst p = c)
    \<and> documented (fst (pair_pass x ps)) (snd (pair_pass x ps)) = documented x ps"
  using assms
proof (induction x ps rule: pair_pass.induct)
  case (3 x b y d z ps)
  obtain z' qs where q: "pair_pass z ps = (z', qs)" by fastforce
  with 3 have u: "\<forall>p\<in>set qs. fst p = c" "documented z' qs = documented z ps" "b = c" "d = c" by auto
  have "\<forall>p\<in>set ps. fst p = c" using 3(2) by simp
  with u q show ?case
    by (cases c) (auto simp: combine_def documented_all documented_ex Let_def)
qed (auto simp: combine_def)

lemma balance_uniform: "\<forall>p\<in>set ps. fst p = c \<Longrightarrow> balance x ps = documented x ps"
proof (induction "length ps" arbitrary: x ps rule: less_induct)
  case less
  show ?case
  proof (cases "ps = []")
    case False
    then have "length (snd (pair_pass x ps)) < length ps" by (simp add: pair_pass_length)
    from less.hyps [OF this] pair_pass_uniform [OF less.prems, of x] False show ?thesis by (simp add: balance.simps [of x ps])
  qed (simp add: balance.simps)
qed

text \<open>Conditions that do not mix the two operators without parentheses, and their documented value.\<close>

fun basic_uniform :: "basic \<Rightarrow> bool" and literal_uniform :: "literal \<Rightarrow> bool" where
  "basic_uniform (C_group l ls) \<longleftrightarrow> literal_uniform l \<and> list_all (\<lambda>(c, k). literal_uniform k) ls \<and> (list_all fst ls \<or> list_all (Not \<circ> fst) ls)"
| "basic_uniform b \<longleftrightarrow> True"
| "literal_uniform (C_literal neg b) \<longleftrightarrow> basic_uniform b"

fun basic_documented :: "condition_world \<Rightarrow> cmMakefile \<Rightarrow> basic \<Rightarrow> bool" and literal_documented :: "condition_world \<Rightarrow> cmMakefile \<Rightarrow> literal \<Rightarrow> bool" where
  "basic_documented w mk (C_value a) = truth w mk a"
| "basic_documented w mk (C_test n a) = predicate w mk n (ex_Value a)"
| "basic_documented w mk (C_compare a n b) = comparison w mk n a b"
| "basic_documented w mk (C_group l ls) = documented (literal_documented w mk l) (map (\<lambda>(c, l). (c, literal_documented w mk l)) ls)"
| "literal_documented w mk (C_literal neg b) = (basic_documented w mk b \<noteq> neg)"

lemma uniform_documented:
  "basic_uniform b \<Longrightarrow> basic_value w mk b = basic_documented w mk b"
  "literal_uniform l \<Longrightarrow> literal_value w mk l = literal_documented w mk l"
proof (induction b and l rule: basic.induct literal.induct)
  case (C_group l ls)
  have m: "map (\<lambda>(c, l). (c, literal_value w mk l)) ls = map (\<lambda>(c, l). (c, literal_documented w mk l)) ls"
    using C_group by (auto simp: list_all_iff snds.simps)
  have "\<exists>c. \<forall>p\<in>set (map (\<lambda>(c, l). (c, literal_documented w mk l)) ls). fst p = c"
    using C_group.prems by (auto simp: list_all_iff case_prod_beta)
  then obtain c where "\<forall>p\<in>set (map (\<lambda>(c, l). (c, literal_documented w mk l)) ls). fst p = c" by blast
  from balance_uniform [OF this] C_group show ?case by (simp only: basic_value.simps basic_documented.simps m) simp
qed simp_all



text \<open>C12. Without parentheses the operators are not evaluated in the documented order: \<open>a OR b AND c\<close> is \<open>(a OR b) AND c\<close>.
  They are not evaluated from left to right either: in \<open>a OR b OR c AND d\<close> the pair \<open>c AND d\<close> is combined before the second \<open>OR\<close>.\<close>

theorem and_or_mixed:
  assumes "new_policies ce" and "strtod_ok (ce_world ce)" and "operand a" and "operand b" and "operand c" and "operand d"
  shows "IsTrue ce [a, word ''OR'', b, word ''AND'', c] s = Some ((truth (ce_world ce) (cs_makefile s) a \<or> truth (ce_world ce) (cs_makefile s) b)
      \<and> truth (ce_world ce) (cs_makefile s) c, s\<lparr>cs_errorString := []\<rparr>)
    \<and> IsTrue ce [a, word ''OR'', b, word ''OR'', c, word ''AND'', d] s = Some ((truth (ce_world ce) (cs_makefile s) a \<or> truth (ce_world ce) (cs_makefile s) b)
      \<or> truth (ce_world ce) (cs_makefile s) c \<and> truth (ce_world ce) (cs_makefile s) d, s\<lparr>cs_errorString := []\<rparr>)"
proof -
  let ?v = "\<lambda>x. C_literal False (C_value x)"
  have t: "condition_tokens (?v a) [(False, ?v b), (True, ?v c)] = [a, word ''OR'', b, word ''AND'', c]"
    "condition_tokens (?v a) [(False, ?v b), (False, ?v c), (True, ?v d)] = [a, word ''OR'', b, word ''OR'', c, word ''AND'', d]"
    by (simp_all add: condition_tokens_def literal_tokens_simp negation_def connective_def word_def)
  show ?thesis using IsTrue_value [OF assms(1,2), of "?v a" "[(False, ?v b), (True, ?v c)]" s]
      IsTrue_value [OF assms(1,2), of "?v a" "[(False, ?v b), (False, ?v c), (True, ?v d)]" s] assms(3-6)
    unfolding t by (simp add: condition_value_def balance.simps combine_def)
qed

theorem and_or_mixed_witness:
  "IsTrue sample_evaluator [word ''ON'', word ''OR'', word ''OFF'', word ''AND'', word ''OFF''] sample_state = Some (False, sample_state)
    \<and> documented True [(False, False), (True, False)]"
proof -
  have v: "truth sample_world sample_makefile (word ''ON'')" "\<not> truth sample_world sample_makefile (word ''OFF'')"
    by (simp_all add: truth_def word_def keyword_def value_IsOn_def value_IsOff_def ascii_def ascii_lower_def)
  from and_or_mixed [OF sample_ok(1,2) sample_operands(1,2,2,2), of sample_state] v show ?thesis
    by (simp add: sample_state_def sample_evaluator_def)
qed

section \<open>Errors\<close>

lemma level4_two: "new_policies ce \<Longrightarrow> reduce_level (HandleLevel4 ce) [a, b] s = Some (True, [a, b], s)"
  by (rule reduce_level_once) simp_all

lemma operands_idle:
  assumes "new_policies ce" and "\<forall>a\<in>set xs. operand a"
  shows "reduce_level (HandleLevel0 F ce) xs s = Some (True, xs, s)" "reduce_level (HandleLevel1 ce) xs s = Some (True, xs, s)"
    "reduce_level (HandleLevel2 ce) xs s = Some (True, xs, s)" "reduce_level (HandleLevel3 ce) xs s = Some (True, xs, s)"
proof -
  have "\<forall>a\<in>set xs. \<not> parenthesis a" using assms(2) plain_words(1) by blast
  then show "reduce_level (HandleLevel0 F ce) xs s = Some (True, xs, s)" by (intro reduce_level_once idle0 [OF assms(1)])
  have "\<forall>a\<in>set xs. ex_Quoted a \<or> ex_Value a \<notin> set predicates" using assms(2) operand_words(1) by blast
  then show "reduce_level (HandleLevel1 ce) xs s = Some (True, xs, s)" by (intro reduce_level_once idle1 [OF assms(1)])
  have "\<forall>a\<in>set xs. ex_Quoted a \<or> ex_Value a \<notin> set binary_operators" using assms(2) operand_words(2) by blast
  then show "reduce_level (HandleLevel2 ce) xs s = Some (True, xs, s)" by (intro reduce_level_once idle2 [OF assms(1)])
  have "\<forall>a\<in>set xs. ex_Quoted a \<or> ex_Value a \<noteq> ascii ''NOT''" using assms(2) operand_words(5) by blast
  then show "reduce_level (HandleLevel3 ce) xs s = Some (True, xs, s)" by (intro reduce_level_once idle3 [OF assms(1)])
qed

lemma two_operands_error:
  assumes "new_policies ce" and "operand a" and "operand b"
  shows "IsTrue ce [a, b] s = Some (False, condition_error (ascii ''Unknown arguments specified'') (cleared s))"
  using assms by (subst IsTrue.simps) (simp add: operands_idle finish_levels_def level4_two)

lemma one_operand:
  assumes "new_policies ce" and "strtod_ok (ce_world ce)" and "operand a"
  shows "IsTrue ce [a] s = Some (truth (ce_world ce) (cs_makefile s) a, cleared s)"
    and "finish_levels ce [a] s = Some (truth (ce_world ce) (cs_makefile s) a, s)"
proof -
  have "reduce_level (HandleLevel4 ce) [a] u = Some (True, [a], u)" for u by (rule reduce_level_once) simp_all
  then show "finish_levels ce [a] s = Some (truth (ce_world ce) (cs_makefile s) a, s)" for s
    using assms by (simp add: operands_idle finish_levels_def truth_new [OF assms(1,2)])
  then show "IsTrue ce [a] s = Some (truth (ce_world ce) (cs_makefile s) a, cleared s)"
    using assms by (subst IsTrue.simps) (simp add: operands_idle)
qed

lemma plain_condition:
  assumes "new_policies ce" and "\<forall>a\<in>set xs. \<not> parenthesis a" and "xs \<noteq> []"
  shows "IsTrue ce xs s = finish_levels ce xs (cleared s)"
  using assms(3) reduce_level_once [where fn = "HandleLevel0 (IsTrue ce) ce" and xs = xs, OF idle0 idle0, OF assms(1,2) assms(1,2)]
  by (subst IsTrue.simps) simp

text \<open>C13. The error in a group is forgotten when another group follows: the arguments of \<open>(a b) OR (c)\<close> are wrong, but the evaluation of the
  second group clears the message, and the caller takes the condition for a correct one that has the value of \<open>c\<close>.\<close>

theorem group_error_lost:
  assumes "new_policies ce" and "strtod_ok (ce_world ce)" and "operand a" and "operand b" and "operand c"
  shows "IsTrue ce [word ''('', a, b, word '')'', word ''OR'', word ''('', c, word '')''] s
      = Some (truth (ce_world ce) (cs_makefile s) c, s\<lparr>cs_errorString := [], cs_status := Some FATAL_ERROR\<rparr>)
    \<and> IsTrue ce [a, b] s = Some (False, s\<lparr>cs_errorString := ascii ''Unknown arguments specified'', cs_status := Some FATAL_ERROR\<rparr>)"
proof -
  let ?F = "IsTrue ce" and ?t = "truth (ce_world ce) (cs_makefile s) c" and ?s = "s\<lparr>cs_errorString := [], cs_status := Some FATAL_ERROR\<rparr>"
  let ?e = "condition_error (ascii ''Unknown arguments specified'') (cleared s)"
  let ?v = "\<lambda>x. C_literal False (C_value x)"
  let ?out = "[bool_argument False, word ''OR'', bool_argument ?t]"
  have p: "\<not> parenthesis a" "\<not> parenthesis b" "\<not> parenthesis c" using assms(3-5) plain_words(1) by simp_all
  have l: "IsKeyword ce (ascii ''('') (word ''('') u = Some (True, u)" for u by (simp add: IsKeyword_new [OF assms(1)] word_def)
  have or: "\<not> parenthesis (word ''OR'')" using plain_words(2) [of False] by (simp add: connective_def word_def)
  have c0: "find_close ce 0 seen rest u = Some (0, seen, rest, u)" for seen rest u by (cases rest) (simp_all add: find_close.simps(2))
  have c1: "find_close ce 1 [] (a # b # word '')'' # rest) u = Some (0, [a, b, word '')''], rest, u)" for rest u
    using p by (simp add: find_close_word [OF assms(1)] find_close_close [OF assms(1), folded word_def] c0)
  have c2: "find_close ce 1 [] [c, word '')''] u = Some (0, [c, word '')''], [], u)" for u
    using p by (simp add: find_close_word [OF assms(1)] find_close_close [OF assms(1), folded word_def])
  have e: "cleared ?e = ?s" "cs_makefile ?e = cs_makefile s" by (simp_all add: condition_error_def)
  have g2: "HandleLevel0 ?F ce [word ''('', c, word '')''] ?e = Some (True, [bool_argument ?t], ?s)"
    using one_operand(1) [OF assms(1,2,5), of ?e] c2 e by (simp add: HandleLevel0.simps(2) [of _ _ "word ''(''"] l)
  have g: "HandleLevel0 ?F ce [word ''('', a, b, word '')'', word ''OR'', word ''('', c, word '')''] (cleared s) = Some (True, ?out, ?s)"
    using two_operands_error [OF assms(1,3,4), of "cleared s"] c1 g2 or
    by (simp add: HandleLevel0.simps(2) [of _ _ "word ''(''"] l level0_skip [OF assms(1)])
  have i: "\<forall>x\<in>set ?out. \<not> parenthesis x" using or plain_words(1) [OF operand_bool] by simp
  have "reduce_level (HandleLevel0 ?F ce) [word ''('', a, b, word '')'', word ''OR'', word ''('', c, word '')''] (cleared s) = Some (True, ?out, ?s)"
    using idle0 [OF assms(1) i] by (simp add: reduce_level.simps g)
  moreover have "finish_levels ce ?out ?s = Some (?t, ?s)"
  proof -
    have t: "condition_tokens (?v (bool_argument False)) [(False, ?v (bool_argument ?t))] = ?out"
      by (simp add: condition_tokens_def literal_tokens_simp negation_def connective_def word_def)
    from IsTrue_value [OF assms(1,2), of "?v (bool_argument False)" "[(False, ?v (bool_argument ?t))]" ?s]
    have "IsTrue ce ?out ?s = Some (?t, ?s)" unfolding t by (simp add: condition_value_def balance.simps combine_def)
    moreover have "cleared ?s = ?s" by simp
    with plain_condition [OF assms(1) i, of ?s] have "IsTrue ce ?out ?s = finish_levels ce ?out ?s" by (simp only: list.simps not_False_eq_True)
    ultimately show ?thesis by (simp only:)
  qed
  ultimately have "IsTrue ce [word ''('', a, b, word '')'', word ''OR'', word ''('', c, word '')''] s = Some (?t, ?s)"
    by (subst IsTrue.simps) simp
  with two_operands_error [OF assms(1,3,4), of s] show ?thesis by (simp add: condition_error_def)
qed

theorem group_error_lost_witness:
  "IsTrue sample_evaluator [word ''('', word ''A'', word ''OFF'', word '')'', word ''OR'', word ''('', word ''ON'', word '')''] sample_state
      = Some (True, sample_state\<lparr>cs_status := Some FATAL_ERROR\<rparr>)
    \<and> IsTrue sample_evaluator [word ''A'', word ''OFF''] sample_state
      = Some (False, sample_state\<lparr>cs_errorString := ascii ''Unknown arguments specified'', cs_status := Some FATAL_ERROR\<rparr>)"
proof -
  have "truth sample_world sample_makefile (word ''ON'')"
    by (simp add: truth_def word_def keyword_def value_IsOn_def ascii_def ascii_lower_def)
  with group_error_lost [OF sample_ok(1,2) sample_operands(3,2,1), of sample_state] show ?thesis
    by (simp add: sample_state_def sample_evaluator_def)
qed

text \<open>C14. A script that sets \<open>CMAKE_MATCH_COUNT\<close> to ten or more makes the next \<open>MATCHES\<close> read past the names of the match variables.\<close>

theorem match_count_overflows:
  assumes "new_policies ce" and "operand a" and "operand b"
    and "mk_definitions (cs_makefile s) nMatchesVariable = Some v" and "atoi v = Some n" and "10 \<le> n"
  shows "IsTrue ce [a, word ''MATCHES'', b] s = None"
proof -
  have "1 - 1 < length binary_operators" by (simp add: binary_operators_def)
  from matchKeys_nth [OF assms(1) distinct_words(2) this, of 1]
  have m: "matchKeys ce (word ''MATCHES'') 1 binary_operators u = Some (1, u)" for u by (simp add: word_def binary_operators_def)
  have w: "\<not> parenthesis (word ''MATCHES'')" "ascii ''MATCHES'' \<in> set binary_operators" "ascii ''MATCHES'' \<notin> set predicates"
    by (simp_all add: parenthesis_def word_def binary_operators_def predicates_def ascii_def)
  have "\<forall>x\<in>set [a, word ''MATCHES'', b]. \<not> parenthesis x" using w(1) assms(2,3) plain_words(1) by simp
  then have "IsTrue ce [a, word ''MATCHES'', b] s = finish_levels ce [a, word ''MATCHES'', b] (cleared s)"
    by (rule plain_condition [OF assms(1)]) simp
  moreover have "\<forall>x\<in>set [a, word ''MATCHES'', b]. ex_Quoted x \<or> ex_Value x \<notin> set predicates"
    using operand_words(1) [OF assms(2)] operand_words(1) [OF assms(3)] w(3) by (simp add: word_def)
  then have "reduce_level (HandleLevel1 ce) [a, word ''MATCHES'', b] (cleared s) = Some (True, [a, word ''MATCHES'', b], cleared s)"
    by (intro reduce_level_once idle1 [OF assms(1)])
  moreover have "IsKeyword ce (ascii ''MATCHES'') a u = Some (False, u)" for u
    using operand_words(2) [OF assms(2)] w(2) by (auto simp: IsKeyword_new [OF assms(1)])
  then have "HandleLevel2 ce [a, word ''MATCHES'', b] (cleared s) = None"
    using m assms(4-6) by (simp add: HandleLevel2.simps binary_operator_def regex_match_def GetVariableOrString_new [OF assms(1)] ClearMatches_def del: matchKeys.simps)
  then have "reduce_level (HandleLevel2 ce) [a, word ''MATCHES'', b] (cleared s) = None" by (simp add: reduce_level.simps)
  ultimately show ?thesis by (simp add: finish_levels_def)
qed

theorem match_count_overflows_witness:
  "IsTrue sample_evaluator [word ''A'', word ''MATCHES'', word ''ON''] (sample_state\<lparr>cs_makefile := AddDefinition nMatchesVariable (ascii ''10'') sample_makefile\<rparr>) = None"
proof -
  have "atoi (ascii ''10'') = Some 10"
    by (simp add: atoi_def scan_number_def c_string_def cmIsSpace_def is_digit_def digits_value_def ascii_def)
  then show ?thesis by (intro match_count_overflows [OF sample_ok(1) sample_operands(3,1), where v = "ascii ''10''" and n = 10]) (simp_all add: AddDefinition_def)
qed



end
