(* ===== verification/Spec2Isabelle.thy ===== *)
theory Spec2Isabelle
  imports Base64 Utf8 CString SystemParse Md5 Terminal Encoding ProcessLife VariablesProps ConditionsProps
begin

text \<open>
  A verification development for CMake's own sources (\<^verbatim>\<open>src/Source\<close>): how the CMake language is read by its
  scanner and its parser and how the arguments of its commands are evaluated, and the C part of CMake, which is the C
  part of the kwsys platform library (\<^verbatim>\<open>kwsys\<close>) and the UTF-8 decoder.

  \<^bold>\<open>The parts.\<close>  CMake reads its list files with \<^verbatim>\<open>LexerParser/cmListFileLexer.c\<close>, a scanner generated
  by flex from \<^verbatim>\<open>cmListFileLexer.in.l\<close> with a hand-written interface, and \<^verbatim>\<open>cmListFileCache.cxx\<close>, a parser that
  takes the tokens one by one, makes commands of them, and reports errors through \<^verbatim>\<open>cmMessenger.cxx\<close> with the
  call stack it was given.  \<^verbatim>\<open>cmMakefile.cxx\<close> evaluates the arguments of a command, with the references to
  variables in them, and splits them as lists with \<^verbatim>\<open>cmStringAlgorithms.cxx\<close>; \<^verbatim>\<open>cmOutputConverter.cxx\<close>
  writes strings so that they are read back.  \<^verbatim>\<open>cmConditionEvaluator.cxx\<close> evaluates the conditions of \<open>if\<close> and
  \<open>while\<close> on the evaluated arguments, with the constants of \<^verbatim>\<open>cmValue.cxx\<close> and the versions of
  \<^verbatim>\<open>cmSystemTools.cxx\<close>.  CMake runs other programs with
  \<^verbatim>\<open>kwsys/ProcessUNIX.c\<close>, which starts pipelines of child processes, reads their output, waits for,
  interrupts and kills them, and which splits command lines with \<^verbatim>\<open>kwsys/System.c\<close>.  \<^verbatim>\<open>kwsys/MD5.c\<close>,
  \<^verbatim>\<open>kwsys/Base64.c\<close>, \<^verbatim>\<open>kwsys/String.c\<close>, \<^verbatim>\<open>kwsys/Terminal.c\<close>, \<^verbatim>\<open>kwsys/EncodingC.c\<close> and \<^verbatim>\<open>cm_utf8.c\<close> are
  libraries without state of their own.

  \<^bold>\<open>Conventions.\<close>  Definitions have the names of the C code where they can, and the map of the project
  names the lines of each.  State is passed explicitly; \<^theory_text>\<open>None\<close> is undefined behaviour (an access outside an
  object, a double free, a stale pointer) or code that does not return, and errors of the program are
  values.  Memory is a list of bytes that may be uninitialised, or an allocator that knows which
  blocks are live (\<^theory_text>\<open>Prelude\<close>); whether an allocation that the code checks succeeds is a parameter.

  \<^bold>\<open>The scanner of the CMake language.\<close>
  \<^item> \<^theory_text>\<open>ListFileTables\<close> has the compressed tables of the generated code and their transition loop,
    \<^theory_text>\<open>ListFileRules\<close> the regular expressions of the specification.  The tables are decompressed into a
    matrix and checked against the partial derivatives of the rules; \<^theory_text>\<open>ListFileMatch\<close> concludes that the
    automaton accepts the first rule that matches, and that the greedy loop finds the longest match.
  \<^item> \<^theory_text>\<open>ListFileLexer\<close> has the lexer structure, its token buffer, its input and the actions of the rules;
    \<^theory_text>\<open>ListFileScanner\<close> the generated scanner: the buffer that is moved, grown and refilled while a match is
    under way, backing up, zero bytes and the end of the input, as a small-step machine over the labels
    of \<open>yylex\<close>.
  \<^item> \<^theory_text>\<open>ListFileScanLemmas\<close>, \<^theory_text>\<open>ListFileBuffer\<close> and \<^theory_text>\<open>ListFileRefine\<close> prove that this machine implements
    \<open>scan_text\<close>, which applies the actions of the longest matches to a text.  What they use of the input is
    the interface \<open>text_source\<close>; \<^theory_text>\<open>ListFileSource\<close> interprets it on the input function of the lexer, for strings
    and for files without carriage returns, and shows what that function does with carriage returns.
  \<^item> \<^theory_text>\<open>ListFileTokens\<close> and \<^theory_text>\<open>ListFileLex\<close> replace the token buffer by the text of the token: \<open>lex\<close> is a lexer on
    texts, and \<open>represents\<close> relates the structure to its state.  \<^theory_text>\<open>ListFileArguments\<close> solves \<open>lex\<close> for quoted
    and bracket arguments.
  \<^item> \<^theory_text>\<open>ListFileApi\<close> has the functions of \<^verbatim>\<open>cmListFileLexer.h\<close>; \<^theory_text>\<open>ListFileSession\<close> and \<^theory_text>\<open>ListFileProps\<close> prove what
    they promise.

  \<^bold>\<open>The parser of the CMake language.\<close>
  \<^item> \<^theory_text>\<open>ListFileContext\<close> has the data of \<^verbatim>\<open>cmListFileCache.h\<close> (arguments, commands, contexts, call stacks) and which
    messages the messenger displays; \<^theory_text>\<open>ListFileCache\<close> has the parser, whose state is the lexer, the list of commands and
    the console.
  \<^item> \<^theory_text>\<open>ListFileStream\<close> lists the tokens of a text and states what the parser relies on as the interface \<open>token_source\<close>,
    interpreted on the lexer.  \<^theory_text>\<open>ListFileNesting\<close> has the grammar of nested blocks and proves that the check with a
    stack decides it, and where it reports an error; \<^theory_text>\<open>ListFileGrammar\<close> has the grammar of argument lists and files
    over tokens, which counting parentheses decides; \<^theory_text>\<open>ListFileParse\<close> proves that the parser implements both.
  \<^item> \<^theory_text>\<open>ListFileWrite\<close> writes commands as text and follows their tokens; \<^theory_text>\<open>ListFileParser\<close> has the promises of
    \<open>cmListFile::ParseFile\<close> and \<open>cmListFile::ParseString\<close> to the rest of CMake.

  \<^bold>\<open>The evaluation of arguments.\<close>
  \<^item> \<^theory_text>\<open>StringAlgorithms\<close> has the string functions, and proves that lists are split as they are documented, and split
    again into what was joined.
  \<^item> \<^theory_text>\<open>Variables\<close> has the expansion of references in strings, a loop over indices with a stack of open references, the
    choice of the policy CMP0053, and \<open>cmMakefile::ExpandArguments\<close>.  The values of variables, of the environment and of
    the cache, which variables were initialised and which files belong to the project are functions of the makefile
    record; the old evaluation with its generated parser, and the text of the policy's warning, are parameters.
    \<open>isalnum\<close> is that of the C locale.
  \<^item> \<^theory_text>\<open>VariablesLoop\<close> proves that the expansion returns without reading outside the string, \<^theory_text>\<open>VariablesTemplate\<close> that it
    computes the value of a template by recursion, and \<^theory_text>\<open>VariablesProps\<close> that a command whose arguments are escaped by
    \<open>cmOutputConverter::EscapeForCMake\<close> is parsed and evaluated to the strings that were written.

  \<^bold>\<open>The evaluation of conditions.\<close>
  \<^item> \<^theory_text>\<open>Versions\<close> has the numbers of the C library and the comparison of versions, and proves that it compares
    components.  \<^theory_text>\<open>Conditions\<close> has the evaluator: each of its five passes is a recursion over the list of arguments, a
    pass is repeated while the list gets shorter, and groups in parentheses call the evaluator again on a shorter list.
    Tests of files, commands, policies, targets and tests, regular expressions and the reading of doubles are functions of
    the evaluator; a double is a real, an infinity or no number.
  \<^item> \<^theory_text>\<open>ConditionsMeaning\<close> has the syntax and the values of conditions, \<^theory_text>\<open>ConditionsPasses\<close> what each pass does with them,
    \<^theory_text>\<open>ConditionsReturns\<close> that the evaluation returns for all arguments and policies, and \<^theory_text>\<open>ConditionsProps\<close> the promises
    and where they are not kept.  The values are for the new policies and without \<open>MATCHES\<close>, which changes variables.

  \<^bold>\<open>The process runner.\<close>  The operating system is a parameter that answers every system call from the trace
  of all calls so far, so that every behaviour of it is an instance.
  \<^item> \<^theory_text>\<open>ProcessTypes\<close> has the data, the world and the interface \<open>safe_machine\<close>, \<^theory_text>\<open>ProcessTime\<close> the clock and the timeouts,
    \<^theory_text>\<open>ProcessConfig\<close> the configuration calls, with the ownership of all memory, \<^theory_text>\<open>ProcessInstances\<close> the table of the
    executing processes and the signal handler, \<^theory_text>\<open>ProcessKill\<close> forking, killing trees and exit reports,
    \<^theory_text>\<open>ProcessExecute\<close> the start of a pipeline with the code of its children, \<^theory_text>\<open>ProcessWait\<close> reading and waiting, and
    \<^theory_text>\<open>ProcessApi\<close> the null checks and getters of \<^verbatim>\<open>kwsys/Process.h.in\<close>.
  \<^item> \<^theory_text>\<open>ProcessRun\<close> proves the invariant of a start and its two outcomes, \<^theory_text>\<open>ProcessReap\<close> that of an executing
    structure, \<^theory_text>\<open>ProcessEnd\<close> the calls that may wait for ever (by partial correctness, since the child decides),
    \<^theory_text>\<open>ProcessFailures\<close> what happens when \<open>fork\<close> or \<open>getcwd\<close> fails, and \<^theory_text>\<open>ProcessLife\<close> the life of a structure as a
    step relation over the public calls.
  \<^item> The hypotheses on the system: \<open>os_ok\<close> (calls are not interrupted for ever, the process tree is finite, \<open>read\<close>
    delivers at most what was asked for, pipes end, descriptors of pipes are below the limit of \<open>select\<close>), \<open>is_parent\<close>
    (the run seen is that of the parent), \<open>wait_ok\<close> (\<open>waitpid\<close> succeeds on own children) and \<open>getcwd_ok\<close>; \<open>strings_ok\<close> is
    that configured strings are terminated.  Witnesses instantiate them.

  \<^bold>\<open>The libraries.\<close>  \<^theory_text>\<open>Base64\<close>, \<^theory_text>\<open>Utf8\<close>, \<^theory_text>\<open>CString\<close>, \<^theory_text>\<open>SystemParse\<close>, \<^theory_text>\<open>Md5\<close>, \<^theory_text>\<open>Terminal\<close> and \<^theory_text>\<open>Encoding\<close> model one file each and
  prove it against its standard (RFC 4648, RFC 3629, RFC 1321), an order, a functional splitter or a small
  terminal.  Interfaces: \<open>prefix_code\<close> (a decoder that inverts an encoder), \<open>reserving\<close> (growing arrays) and
  \<open>hash_stream\<close> (a digest of a stream).

  \<^bold>\<open>Bounds and fuel.\<close>  Loops that may not end are partial functions, and are shown to return.  \<open>scan_all\<close> counts
  calls; one more than the length of the text is enough, since every token has a character.  Lengths, lines and
  columns of the scanner are unbounded (in C they are \<open>int\<close>, so the texts are below 2 to the 31); seconds are
  unbounded and \<open>double\<close> is real; \<^theory_text>\<open>SystemParse\<close> has the overflow of its sizes, for commands below a gigabyte.

  \<^bold>\<open>Not modelled.\<close>  The other C++ sources (the commands, generators, CPack, CTest and the dialogs), which are the larger
  part of CMake and rest on the C++ library; \<^verbatim>\<open>kwsys/ProcessWin32.c\<close> and the other Windows branches, which rest on
  the Windows API; the vendored libraries (\<^verbatim>\<open>src/Utilities\<close>, \<^verbatim>\<open>CursesDialog/form\<close>); the test programs.  Of the files that are
  modelled: the entry points of the generated scanner that nothing calls (\<open>yyunput\<close>, \<open>input\<close>, the buffer stack, the
  accessors), the polling branch of the process runner for systems without \<open>select\<close>, the VMS and
  \<open>siginfo\<close>-less branches, signals that arrive while the process runner is not waiting in \<open>select\<close> or \<open>waitpid\<close>, the
  formatting of messages, what a state snapshot is (the parser only passes it on), and variable watches, which run
  code of other classes while a variable is read.  The theorems on the parser are for
  texts without zero bytes, and for files also without carriage returns; \<^theory_text>\<open>ListFileProps\<close> says what the input does with
  carriage returns and what happens to the token buffer after a zero byte.
\<close>

end
